(* ===== verification/Hudi_Prelude.thy ===== *)
theory Hudi_Prelude
  imports Main "HOL-Library.Sublist" "HOL-Library.Multiset" "HOL-Library.Char_ord"
    "HOL-Library.List_Lexorder"
begin

text \<open>
  Shared vocabulary of the development: results with error values, the three-valued
  comparison of Rust's \<open>Ordering\<close> with the laws a comparator obeys and the stable sort
  built on it, string operations of Rust's \<open>str\<close> (a string is its UTF-8 bytes, so the
  lexicographic order on \<open>string\<close> is Rust's order on \<open>str\<close>), integer parsing, and
  generic facts on association lists.
\<close>

named_theorems split_simps
  \<open>how the string splitting functions act on strings built by concatenation\<close>
named_theorems result_simps
  \<open>evaluation of results: bind, map and folds over a list of fallible steps\<close>

section \<open>Results\<close>

text \<open>One constructor per error kind the modelled code raises; the message text is not kept.
  \<open>Panic\<close> stands for every abort of the thread (slice out of bounds, explicit
  \<open>expect\<close>, integer division by zero).\<close>

datatype error =
    TimelineError
  | TimezoneError
  | ConfigError
  | StorageError
  | FileGroupError
  | LogFormatError
  | LogBlockError
  | ReadLogFileError
  | ReadFileSliceError
  | EofError
  | Utf8Error
  | SchemaError
  | MetadataTableError
  | CommitMetadataError
  | InvalidPartitionPath
  | InvalidValue
  | UnsupportedError
  | HFileError | ArrowError
  | MemoryLimitError
  | Panic

type_synonym 'a result = "error + 'a"

abbreviation Ok :: "'a \<Rightarrow> 'a result" where "Ok \<equiv> Inr"
abbreviation Err :: "error \<Rightarrow> 'a result" where "Err \<equiv> Inl"

definition res_bind :: "'a result \<Rightarrow> ('a \<Rightarrow> 'b result) \<Rightarrow> 'b result" where
  "res_bind m f = (case m of Inl e \<Rightarrow> Inl e | Inr x \<Rightarrow> f x)"

lemma res_bind_simps [simp, result_simps]:
  "res_bind (Inl e) f = Inl e"
  "res_bind (Inr x) f = f x"
  by (simp_all add: res_bind_def)

lemma res_bind_Inr_iff [result_simps]:
  "res_bind m f = Inr y \<longleftrightarrow> (\<exists>x. m = Inr x \<and> f x = Inr y)"
  by (cases m) auto

lemma res_bind_cong [fundef_cong]:
  assumes "m = m'" and "\<And>x. m' = Inr x \<Longrightarrow> f x = f' x"
  shows "res_bind m f = res_bind m' f'"
  using assms by (cases m') auto

definition ok_or :: "error \<Rightarrow> 'a option \<Rightarrow> 'a result" where
  "ok_or e m = (case m of None \<Rightarrow> Inl e | Some x \<Rightarrow> Inr x)"

lemma ok_or_simps [simp, result_simps]:
  "ok_or e None = Inl e" "ok_or e (Some x) = Inr x"
  by (simp_all add: ok_or_def)

lemma ok_or_Inr_iff [simp, result_simps]: "ok_or e m = Inr x \<longleftrightarrow> m = Some x"
  by (cases m) auto

definition is_ok :: "'a result \<Rightarrow> bool" where
  "is_ok r = (case r of Inl _ \<Rightarrow> False | Inr _ \<Rightarrow> True)"

lemma is_ok_simps [simp]: "\<not> is_ok (Inl e)" "is_ok (Inr x)"
  by (simp_all add: is_ok_def)

fun res_map :: "('a \<Rightarrow> 'b result) \<Rightarrow> 'a list \<Rightarrow> 'b list result" where
  "res_map f [] = Inr []"
| "res_map f (x # xs) =
     res_bind (f x) (\<lambda>y. res_bind (res_map f xs) (\<lambda>ys. Inr (y # ys)))"

lemma res_map_cong [fundef_cong]:
  assumes "xs = ys" and "\<And>x. x \<in> set ys \<Longrightarrow> f x = g x"
  shows "res_map f xs = res_map g ys"
  unfolding assms(1) using assms(2) by (induction ys) auto

lemma res_map_Inr_iff [result_simps]:
  "res_map f xs = Inr ys \<longleftrightarrow> list_all2 (\<lambda>x y. f x = Inr y) xs ys"
proof (induction xs arbitrary: ys)
  case (Cons x xs)
  show ?case
    by (cases ys) (auto simp: res_bind_Inr_iff Cons.IH)
qed auto

lemma res_map_pure: "res_map (\<lambda>x. Inr (f x)) xs = Inr (map f xs)"
  by (induction xs) auto

fun res_fold :: "('s \<Rightarrow> 'a \<Rightarrow> 's result) \<Rightarrow> 's \<Rightarrow> 'a list \<Rightarrow> 's result" where
  "res_fold f s [] = Inr s"
| "res_fold f s (x # xs) = res_bind (f s x) (\<lambda>s'. res_fold f s' xs)"

lemma res_fold_append [result_simps]:
  "res_fold f s (xs @ ys) = res_bind (res_fold f s xs) (\<lambda>s'. res_fold f s' ys)"
proof (induction xs arbitrary: s)
  case (Cons x xs)
  then show ?case by (cases "f s x") auto
qed simp

lemma res_fold_invariant:
  assumes "res_fold f s xs = Inr t" and "P s"
    and "\<And>s x s'. P s \<Longrightarrow> x \<in> set xs \<Longrightarrow> f s x = Inr s' \<Longrightarrow> P s'"
  shows "P t"
  using assms
proof (induction xs arbitrary: s)
  case (Cons x xs)
  from Cons.prems(1) obtain s' where s': "f s x = Inr s'" "res_fold f s' xs = Inr t"
    by (auto simp: res_bind_Inr_iff)
  have "P s'" using Cons.prems(2,3) s'(1) by auto
  show ?case
    by (rule Cons.IH [OF s'(2) \<open>P s'\<close>]) (use Cons.prems(3) in auto)
qed simp

section \<open>Comparison\<close>

datatype rust_ordering = Less | Equal | Greater

fun ord_reverse :: "rust_ordering \<Rightarrow> rust_ordering" where
  "ord_reverse Less = Greater"
| "ord_reverse Equal = Equal"
| "ord_reverse Greater = Less"

definition then_with :: "rust_ordering \<Rightarrow> rust_ordering \<Rightarrow> rust_ordering" where
  "then_with a b = (if a = Equal then b else a)"

definition cmp_lin :: "'a::linorder \<Rightarrow> 'a \<Rightarrow> rust_ordering" where
  "cmp_lin x y = (if x < y then Less else if x = y then Equal else Greater)"

lemma cmp_lin_iff [simp]:
  "cmp_lin x y = Less \<longleftrightarrow> x < y"
  "cmp_lin x y = Equal \<longleftrightarrow> x = y"
  "cmp_lin x y = Greater \<longleftrightarrow> y < x"
  by (auto simp: cmp_lin_def)

lemma then_with_iff [simp]:
  "then_with a b = Less \<longleftrightarrow> a = Less \<or> a = Equal \<and> b = Less"
  "then_with a b = Equal \<longleftrightarrow> a = Equal \<and> b = Equal"
  "then_with a b = Greater \<longleftrightarrow> a = Greater \<or> a = Equal \<and> b = Greater"
  by (auto simp: then_with_def)

lemma then_with_simps [simp]:
  "then_with Less b = Less" "then_with Greater b = Greater" "then_with Equal b = b"
  by (simp_all add: then_with_def)

lemma then_with_assoc [simp]: "then_with (then_with a b) c = then_with a (then_with b c)"
  by (cases a) auto

lemma cmp_lin_refl [simp]: "cmp_lin x x = Equal"
  by simp

lemma ord_reverse_iff [simp]:
  "ord_reverse a = Less \<longleftrightarrow> a = Greater"
  "ord_reverse a = Equal \<longleftrightarrow> a = Equal"
  "ord_reverse a = Greater \<longleftrightarrow> a = Less"
  "Less = ord_reverse a \<longleftrightarrow> a = Greater"
  "Equal = ord_reverse a \<longleftrightarrow> a = Equal"
  "Greater = ord_reverse a \<longleftrightarrow> a = Less"
  by (cases a; simp)+

lemma ord_reverse_reverse [simp]: "ord_reverse (ord_reverse a) = a"
  by (cases a) auto

fun cmp_option :: "('a \<Rightarrow> 'a \<Rightarrow> rust_ordering) \<Rightarrow> 'a option \<Rightarrow> 'a option \<Rightarrow> rust_ordering" where
  "cmp_option c None None = Equal"
| "cmp_option c None (Some _) = Less"
| "cmp_option c (Some _) None = Greater"
| "cmp_option c (Some x) (Some y) = c x y"

text \<open>Stable insertion sort by a comparator: the meaning of Rust's stable \<open>sort_by\<close>.\<close>

fun insert_by :: "('a \<Rightarrow> 'a \<Rightarrow> rust_ordering) \<Rightarrow> 'a \<Rightarrow> 'a list \<Rightarrow> 'a list" where
  "insert_by c x [] = [x]"
| "insert_by c x (y # ys) = (if c x y = Greater then y # insert_by c x ys else x # y # ys)"

fun sort_by :: "('a \<Rightarrow> 'a \<Rightarrow> rust_ordering) \<Rightarrow> 'a list \<Rightarrow> 'a list" where
  "sort_by c [] = []"
| "sort_by c (x # xs) = insert_by c x (sort_by c xs)"

lemma mset_insert_by [simp]: "mset (insert_by c x xs) = add_mset x (mset xs)"
  by (induction xs) auto

lemma mset_sort_by [simp]: "mset (sort_by c xs) = mset xs"
  by (induction xs) auto

lemma set_sort_by [simp]: "set (sort_by c xs) = set xs"
  by (metis mset_sort_by set_mset_mset)

lemma set_insert_by [simp]: "set (insert_by c x xs) = insert x (set xs)"
  by (induction xs) auto

lemma length_sort_by [simp]: "length (sort_by c xs) = length xs"
  by (metis mset_sort_by size_mset)

lemma distinct_sort_by [simp]: "distinct (sort_by c xs) = distinct xs"
  by (metis mset_sort_by mset_eq_imp_distinct_iff)

text \<open>What an implementation of Rust's \<open>Ord\<close> promises, equality of compared values aside:
  a total preorder presented by a three-valued comparison.\<close>

locale total_preorder_cmp =
  fixes c :: "'a \<Rightarrow> 'a \<Rightarrow> rust_ordering"
  assumes flip: "c y x = ord_reverse (c x y)"
    and trans: "c x y \<noteq> Greater \<Longrightarrow> c y z \<noteq> Greater \<Longrightarrow> c x z \<noteq> Greater"
begin

lemma refl [simp]: "c x x = Equal"
  using flip [of x x] by (cases "c x x") auto

lemma greater_less: "c x y = Greater \<longleftrightarrow> c y x = Less"
  using flip [of x y] by (cases "c x y") auto

lemma equal_sym: "c x y = Equal \<Longrightarrow> c y x = Equal"
  using flip [of x y] by simp

lemma less_trans: "c x y = Less \<Longrightarrow> c y z = Less \<Longrightarrow> c x z = Less"
proof (rule ccontr)
  assume xy: "c x y = Less" and yz: "c y z = Less" and n: "c x z \<noteq> Less"
  then have "c z x \<noteq> Greater" using flip [of x z] by auto
  with yz have "c y x \<noteq> Greater" using trans [of y z x] by auto
  with xy show False using flip [of x y] by auto
qed

lemma equal_left: assumes "c x y = Equal" shows "c x z = c y z"
proof -
  have yx: "c y x = Equal" by (rule equal_sym [OF assms])
  have 1: "c x z = Greater \<longleftrightarrow> c y z = Greater"
    using assms yx trans [of x y z] trans [of y x z] by auto
  have 2: "c z x = Greater \<longleftrightarrow> c z y = Greater"
    using assms yx trans [of z x y] trans [of z y x] by auto
  have 3: "c x z = Less \<longleftrightarrow> c y z = Less"
    using 2 greater_less by blast
  from 1 3 show ?thesis by (cases "c x z"; cases "c y z"; simp)
qed

lemma equal_trans: "c x y = Equal \<Longrightarrow> c y z = Equal \<Longrightarrow> c x z = Equal"
  using equal_left by metis

lemma sorted_insert_by:
  "sorted_wrt (\<lambda>a b. c a b \<noteq> Greater) xs \<Longrightarrow>
   sorted_wrt (\<lambda>a b. c a b \<noteq> Greater) (insert_by c x xs)"
proof (induction xs)
  case (Cons y ys)
  show ?case
  proof (cases "c x y = Greater")
    case True
    then have "c y x \<noteq> Greater" using flip [of x y] by simp
    then show ?thesis using Cons True by auto
  next
    case False
    then have "\<forall>z\<in>set ys. c x z \<noteq> Greater"
      using Cons.prems trans by auto
    then show ?thesis using Cons.prems False by auto
  qed
qed simp

lemma sorted_sort_by: "sorted_wrt (\<lambda>a b. c a b \<noteq> Greater) (sort_by c xs)"
  by (induction xs) (auto intro: sorted_insert_by)

lemma sorted_unique_on:
  "sorted_wrt (\<lambda>a b. c a b \<noteq> Greater) xs \<Longrightarrow> sorted_wrt (\<lambda>a b. c a b \<noteq> Greater) ys \<Longrightarrow>
   mset xs = mset ys \<Longrightarrow>
   (\<And>x y. x \<in> set xs \<Longrightarrow> y \<in> set xs \<Longrightarrow> c x y = Equal \<Longrightarrow> x = y) \<Longrightarrow> xs = ys"
proof (induction xs arbitrary: ys)
  case (Cons x xs)
  from Cons.prems(3) obtain y ys' where ys: "ys = y # ys'"
    by (cases ys) auto
  have sets: "set (x # xs) = set (y # ys')"
    using Cons.prems(3) ys by (metis set_mset_mset)
  have "x = y"
  proof (rule ccontr)
    assume "x \<noteq> y"
    then have "y \<in> set xs" "x \<in> set ys'" using sets by auto
    then have "c x y \<noteq> Greater" "c y x \<noteq> Greater"
      using Cons.prems(1,2) ys by auto
    then have "c x y = Equal" using flip [of x y] by (cases "c x y") auto
    then show False using Cons.prems(4) [of x y] \<open>y \<in> set xs\<close> \<open>x \<noteq> y\<close> by auto
  qed
  moreover have "xs = ys'"
    using Cons.prems ys calculation by (intro Cons.IH) auto
  ultimately show ?case by (simp add: ys)
qed simp

lemma sort_by_perm_on:
  assumes "mset xs = mset ys"
    and "\<And>x y. x \<in> set xs \<Longrightarrow> y \<in> set xs \<Longrightarrow> c x y = Equal \<Longrightarrow> x = y"
  shows "sort_by c xs = sort_by c ys"
  by (rule sorted_unique_on) (use assms in \<open>auto intro: sorted_sort_by\<close>)

lemma max_exists:
  assumes "xs \<noteq> []"
  shows "\<exists>m\<in>set xs. \<forall>x\<in>set xs. c x m \<noteq> Greater"
  using assms
proof (induction xs rule: list_nonempty_induct)
  case (cons x xs)
  then obtain m where m: "m \<in> set xs" "\<forall>y\<in>set xs. c y m \<noteq> Greater" by blast
  show ?case
  proof (cases "c x m = Greater")
    case True
    then have "c m x \<noteq> Greater" using flip [of x m] by simp
    then have "\<forall>y\<in>set (x # xs). c y x \<noteq> Greater"
      using m trans by (auto simp: refl)
    then show ?thesis by auto
  next
    case False
    then show ?thesis using m by auto
  qed
qed simp

end

text \<open>A comparator whose \<open>Equal\<close> is equality: a linear order. The sorted list is then a
  function of the multiset, so sorting does not depend on the input order.\<close>

locale linear_cmp = total_preorder_cmp +
  assumes equal_eq: "c x y = Equal \<Longrightarrow> x = y"
begin

lemma equal_iff: "c x y = Equal \<longleftrightarrow> x = y"
  using equal_eq by auto

lemma sorted_unique:
  "sorted_wrt (\<lambda>a b. c a b \<noteq> Greater) xs \<Longrightarrow> sorted_wrt (\<lambda>a b. c a b \<noteq> Greater) ys \<Longrightarrow>
   mset xs = mset ys \<Longrightarrow> xs = ys"
  by (rule sorted_unique_on) (auto intro: equal_eq)

lemma sort_by_perm: "mset xs = mset ys \<Longrightarrow> sort_by c xs = sort_by c ys"
  by (rule sorted_unique) (auto intro: sorted_sort_by)

end

lemma linear_cmp_cmp_lin: "linear_cmp (cmp_lin :: 'a::linorder \<Rightarrow> 'a \<Rightarrow> rust_ordering)"
proof
  fix x y z :: 'a
  show "cmp_lin y x = ord_reverse (cmp_lin x y)" by (auto simp: cmp_lin_def)
  show "cmp_lin x y \<noteq> Greater \<Longrightarrow> cmp_lin y z \<noteq> Greater \<Longrightarrow> cmp_lin x z \<noteq> Greater" by auto
  show "cmp_lin x y = Equal \<Longrightarrow> x = y" by simp
qed

interpretation lin: linear_cmp "cmp_lin :: 'a::linorder \<Rightarrow> 'a \<Rightarrow> rust_ordering"
  by (rule linear_cmp_cmp_lin)

lemma linear_cmp_prod:
  assumes "linear_cmp c" and "linear_cmp d"
  shows "linear_cmp (\<lambda>x y. then_with (c (fst x) (fst y)) (d (snd x) (snd y)))"
proof -
  have flipc: "c b a = ord_reverse (c a b)" for a b
    using assms(1) total_preorder_cmp.flip linear_cmp.axioms(1) by metis
  have flipd: "d b a = ord_reverse (d a b)" for a b
    using assms(2) total_preorder_cmp.flip linear_cmp.axioms(1) by metis
  have transc: "c p r \<noteq> Greater" if "c p q \<noteq> Greater" "c q r \<noteq> Greater" for p q r
    using assms(1) that total_preorder_cmp.trans linear_cmp.axioms(1) by metis
  have transd: "d p r \<noteq> Greater" if "d p q \<noteq> Greater" "d q r \<noteq> Greater" for p q r
    using assms(2) that total_preorder_cmp.trans linear_cmp.axioms(1) by metis
  have eqc: "c p q = Equal \<longleftrightarrow> p = q" for p q
    by (rule linear_cmp.equal_iff [OF assms(1)])
  have eqd: "d p q = Equal \<longleftrightarrow> p = q" for p q
    by (rule linear_cmp.equal_iff [OF assms(2)])
  show ?thesis
  proof
    fix x y z :: "'a \<times> 'b"
    show "then_with (c (fst y) (fst x)) (d (snd y) (snd x))
        = ord_reverse (then_with (c (fst x) (fst y)) (d (snd x) (snd y)))"
      using flipc [of "fst x" "fst y"] flipd [of "snd x" "snd y"]
      by (auto simp: then_with_def)
    show "then_with (c (fst x) (fst y)) (d (snd x) (snd y)) = Equal \<Longrightarrow> x = y"
      by (auto simp: eqc eqd prod_eq_iff)
    assume a: "then_with (c (fst x) (fst y)) (d (snd x) (snd y)) \<noteq> Greater"
      and b: "then_with (c (fst y) (fst z)) (d (snd y) (snd z)) \<noteq> Greater"
    have "c (fst x) (fst z) \<noteq> Greater" using a b transc by auto
    moreover have "d (snd x) (snd z) \<noteq> Greater" if e: "c (fst x) (fst z) = Equal"
    proof -
      have "c (fst y) (fst x) \<noteq> Greater" using b e by (auto simp: eqc)
      then have "c (fst x) (fst y) = Equal"
        using a flipc [of "fst x" "fst y"] by (cases "c (fst x) (fst y)") auto
      then have "fst x = fst y" "fst y = fst z" using e eqc by auto
      then show ?thesis using a b transd eqc by auto
    qed
    ultimately show "then_with (c (fst x) (fst z)) (d (snd x) (snd z)) \<noteq> Greater" by auto
  qed
qed

text \<open>Comparing through a key keeps the preorder laws, and the linear-order laws when the
  key determines the value.\<close>

lemma linear_cmp_inj:
  assumes "linear_cmp c" and "inj k"
  shows "linear_cmp (\<lambda>x y. c (k x) (k y))"
proof
  fix x y z
  show "c (k y) (k x) = ord_reverse (c (k x) (k y))"
    by (rule total_preorder_cmp.flip [OF linear_cmp.axioms(1) [OF assms(1)]])
  show "c (k x) (k z) \<noteq> Greater" if "c (k x) (k y) \<noteq> Greater" "c (k y) (k z) \<noteq> Greater"
    using that by (rule total_preorder_cmp.trans [OF linear_cmp.axioms(1) [OF assms(1)]])
  show "x = y" if "c (k x) (k y) = Equal"
    using linear_cmp.equal_eq [OF assms(1) that] assms(2) by (simp add: inj_eq)
qed

lemma total_preorder_cmp_key:
  assumes "total_preorder_cmp c"
  shows "total_preorder_cmp (\<lambda>x y. c (k x) (k y))"
  using assms unfolding total_preorder_cmp_def by blast

end
