(* ===== verification/Hudi_Strings.thy ===== *)
theory Hudi_Strings
  imports Hudi_Prelude
begin

text \<open>
  Operations of Rust's \<open>str\<close> the program uses, on strings as UTF-8 bytes: splitting at an
  ASCII delimiter from either end, prefixes and suffixes, trimming, \<open>parse\<close> and
  \<open>to_string\<close> of integers, slicing with its character-boundary panics, and the validity
  check of \<open>String::from_utf8\<close>.
\<close>

section \<open>Splitting\<close>

fun split_once :: "char \<Rightarrow> string \<Rightarrow> (string \<times> string) option" where
  "split_once c [] = None"
| "split_once c (x # xs) = (if x = c then Some ([], xs)
     else (case split_once c xs of None \<Rightarrow> None | Some (a, b) \<Rightarrow> Some (x # a, b)))"

definition rsplit_once :: "char \<Rightarrow> string \<Rightarrow> (string \<times> string) option" where
  "rsplit_once c s =
     (case split_once c (rev s) of None \<Rightarrow> None | Some (a, b) \<Rightarrow> Some (rev b, rev a))"

fun split_on :: "char \<Rightarrow> string \<Rightarrow> string list" where
  "split_on c [] = [[]]"
| "split_on c (x # xs) = (if x = c then [] # split_on c xs
     else (case split_on c xs of [] \<Rightarrow> [[x]] | p # ps \<Rightarrow> (x # p) # ps))"

fun join_with :: "string \<Rightarrow> string list \<Rightarrow> string" where
  "join_with sep [] = []"
| "join_with sep [p] = p"
| "join_with sep (p # q # ps) = p @ sep @ join_with sep (q # ps)"

lemma split_once_append [simp, split_simps]:
  "c \<notin> set a \<Longrightarrow> split_once c (a @ c # b) = Some (a, b)"
  by (induction a) auto

lemma split_once_None_iff [simp, split_simps]: "split_once c s = None \<longleftrightarrow> c \<notin> set s"
  by (induction s) (auto split: option.splits)

lemma split_once_absent [simp, split_simps]: "c \<notin> set s \<Longrightarrow> split_once c s = None"
  by simp

lemma split_once_Some_iff [split_simps]:
  "split_once c s = Some (a, b) \<longleftrightarrow> s = a @ c # b \<and> c \<notin> set a"
proof
  show "split_once c s = Some (a, b)" if "s = a @ c # b \<and> c \<notin> set a"
    using that by simp
  show "split_once c s = Some (a, b) \<Longrightarrow> s = a @ c # b \<and> c \<notin> set a"
    by (induction s arbitrary: a) (auto split: if_splits option.splits)
qed

lemma rsplit_once_Some_iff [split_simps]:
  "rsplit_once c s = Some (a, b) \<longleftrightarrow> s = a @ c # b \<and> c \<notin> set b"
proof -
  have "rsplit_once c s = Some (a, b) \<longleftrightarrow> split_once c (rev s) = Some (rev b, rev a)"
    by (auto simp: rsplit_once_def simp del: split_once_None_iff split: option.splits)
  also have "\<dots> \<longleftrightarrow> s = a @ c # b \<and> c \<notin> set b"
    unfolding split_once_Some_iff set_rev
    by (metis append.assoc append_Cons append_Nil rev.simps(2) rev_append rev_rev_ident)
  finally show ?thesis .
qed

lemma rsplit_once_append [simp, split_simps]:
  "c \<notin> set b \<Longrightarrow> rsplit_once c (a @ c # b) = Some (a, b)"
  by (simp add: rsplit_once_Some_iff)

lemma rsplit_once_None_iff [simp, split_simps]: "rsplit_once c s = None \<longleftrightarrow> c \<notin> set s"
  using split_once_None_iff [of c "rev s"]
  by (auto simp: rsplit_once_def simp del: split_once_None_iff split: option.splits)

lemma rsplit_once_absent [simp, split_simps]: "c \<notin> set s \<Longrightarrow> rsplit_once c s = None"
  by simp

lemma split_on_nonempty [simp]: "split_on c s \<noteq> []"
  by (induction s) (auto split: list.splits)

lemma split_on_no_delim [simp, split_simps]: "c \<notin> set s \<Longrightarrow> split_on c s = [s]"
  by (induction s) auto

lemma split_on_append [simp, split_simps]:
  "c \<notin> set a \<Longrightarrow> split_on c (a @ c # b) = a # split_on c b"
  by (induction a) auto

lemma split_on_parts: "p \<in> set (split_on c s) \<Longrightarrow> c \<notin> set p"
  by (induction s arbitrary: p) (fastforce split: if_splits list.splits)+

lemma join_split_on: "join_with [c] (split_on c s) = s"
proof (induction s)
  case (Cons x xs)
  then show ?case
    by (cases "split_on c xs"; cases "tl (split_on c xs)") (auto split: list.splits)
qed simp

lemma split_on_join:
  "ps \<noteq> [] \<Longrightarrow> (\<And>p. p \<in> set ps \<Longrightarrow> c \<notin> set p) \<Longrightarrow> split_on c (join_with [c] ps) = ps"
  by (induction "[c]" ps rule: join_with.induct) auto

section \<open>Prefixes, suffixes, trimming\<close>

definition starts_with :: "string \<Rightarrow> string \<Rightarrow> bool" where
  "starts_with p s = (take (length p) s = p)"

definition strip_prefix :: "string \<Rightarrow> string \<Rightarrow> string option" where
  "strip_prefix p s = (if starts_with p s then Some (drop (length p) s) else None)"

definition ends_with :: "string \<Rightarrow> string \<Rightarrow> bool" where
  "ends_with p s = (length p \<le> length s \<and> drop (length s - length p) s = p)"

definition strip_suffix :: "string \<Rightarrow> string \<Rightarrow> string option" where
  "strip_suffix p s =
     (if ends_with p s then Some (take (length s - length p) s) else None)"

lemma starts_with_append [simp]: "starts_with p (p @ s)"
  by (simp add: starts_with_def)

lemma starts_with_iff: "starts_with p s \<longleftrightarrow> (\<exists>t. s = p @ t)"
  by (metis append_take_drop_id append_eq_conv_conj starts_with_def)

lemma strip_prefix_append [simp]: "strip_prefix p (p @ s) = Some s"
  by (simp add: strip_prefix_def)

lemma strip_prefix_Some_iff: "strip_prefix p s = Some t \<longleftrightarrow> s = p @ t"
  by (auto simp: strip_prefix_def starts_with_iff)

lemma ends_with_append [simp]: "ends_with p (s @ p)"
  by (simp add: ends_with_def)

lemma ends_with_iff: "ends_with p s \<longleftrightarrow> (\<exists>t. s = t @ p)"
  by (metis append_take_drop_id ends_with_append ends_with_def)

lemma strip_suffix_append [simp]: "strip_suffix p (s @ p) = Some s"
  by (simp add: strip_suffix_def)

definition is_ascii_ws :: "char \<Rightarrow> bool" where
  "is_ascii_ws c = (c = CHR '' '' \<or> c = CHR 0x09 \<or> c = CHR 0x0A \<or> c = CHR 0x0B \<or>
     c = CHR 0x0C \<or> c = CHR 0x0D)"

text \<open>\<open>str::trim\<close> takes off the characters of Unicode's \<open>White_Space\<close>: besides the ASCII ones these are
  U+0085, U+00A0, U+1680, U+2000 to U+200A, U+2028, U+2029, U+202F, U+205F and U+3000, which take two or
  three bytes of UTF-8 each.\<close>

definition is_white_space :: "string \<Rightarrow> bool" where
  "is_white_space w = (case w of
      [a] \<Rightarrow> is_ascii_ws a
    | [a, b] \<Rightarrow> a = CHR 0xC2 \<and> (b = CHR 0x85 \<or> b = CHR 0xA0)
    | [a, b, c] \<Rightarrow>
        a = CHR 0xE1 \<and> b = CHR 0x9A \<and> c = CHR 0x80 \<or>
        a = CHR 0xE2 \<and> b = CHR 0x80 \<and> (128 \<le> (of_char c :: nat) \<and> (of_char c :: nat) \<le> 138 \<or>
          c = CHR 0xA8 \<or> c = CHR 0xA9 \<or> c = CHR 0xAF) \<or>
        a = CHR 0xE2 \<and> b = CHR 0x81 \<and> c = CHR 0x9F \<or>
        a = CHR 0xE3 \<and> b = CHR 0x80 \<and> c = CHR 0x80
    | _ \<Rightarrow> False)"

text \<open>The bytes of the white-space character a text starts or ends with, 0 if there is none.\<close>

definition ws_at_start :: "string \<Rightarrow> nat" where
  "ws_at_start s = (if is_white_space (take 1 s) then 1 else if is_white_space (take 2 s) then 2
     else if is_white_space (take 3 s) then 3 else 0)"

definition ws_at_end :: "string \<Rightarrow> nat" where
  "ws_at_end s = (if is_white_space (drop (length s - 1) s) then 1
     else if is_white_space (drop (length s - 2) s) then 2
     else if is_white_space (drop (length s - 3) s) then 3 else 0)"

lemma not_white_space_Nil [simp]: "\<not> is_white_space []"
  by (simp add: is_white_space_def)

lemma ws_at_Nil [simp]: "ws_at_start [] = 0" "ws_at_end [] = 0"
  by (simp_all add: ws_at_start_def ws_at_end_def)

function trim_start :: "string \<Rightarrow> string" where
  "trim_start s = (if ws_at_start s = 0 then s else trim_start (drop (ws_at_start s) s))"
  by auto
termination by (relation "measure length") (auto intro: Nat.diff_less gr0I)

function trim_end :: "string \<Rightarrow> string" where
  "trim_end s = (if ws_at_end s = 0 then s else trim_end (take (length s - ws_at_end s) s))"
  by auto
termination by (relation "measure length") (auto intro: Nat.diff_less gr0I)

declare trim_start.simps [simp del] trim_end.simps [simp del]

definition trim :: "string \<Rightarrow> string" where
  "trim s = trim_end (trim_start s)"

lemma trim_id: "ws_at_start s = 0 \<Longrightarrow> ws_at_end s = 0 \<Longrightarrow> trim s = s"
  by (simp add: trim_def trim_start.simps trim_end.simps)

text \<open>Neither a white-space character that starts a text reaches past an ASCII character after it,
  nor one that ends it past an ASCII character before it.\<close>

lemma white_space_ascii:
  "of_char c < (128 :: nat) \<Longrightarrow> \<not> is_ascii_ws c \<Longrightarrow> c \<in> set w \<Longrightarrow> \<not> is_white_space w"
  by (auto simp: is_white_space_def split: list.splits)

lemma ws_at_zero:
  "ws_at_start s = 0 \<longleftrightarrow> (\<forall>n\<in>{1, 2, 3}. \<not> is_white_space (take n s))"
  "ws_at_end s = 0 \<longleftrightarrow> (\<forall>n\<in>{1, 2, 3}. \<not> is_white_space (drop (length s - n) s))"
  by (simp_all add: ws_at_start_def ws_at_end_def)

lemma ws_at_start_append:
  assumes "of_char c < (128 :: nat)" "\<not> is_ascii_ws c" "ws_at_start k = 0"
  shows "ws_at_start (k @ c # v) = 0"
proof -
  have "\<not> is_white_space (take n (k @ c # v))" if "n \<in> {1, 2, 3}" for n
  proof (cases "n \<le> length k")
    case True
    then show ?thesis using assms(3) that by (auto simp: ws_at_zero)
  next
    case False
    then have "c \<in> set (take n (k @ c # v))" by (cases "n - length k") auto
    then show ?thesis using white_space_ascii [OF assms(1,2)] by blast
  qed
  then show ?thesis by (simp only: ws_at_zero) blast
qed

lemma ws_at_end_append:
  assumes "of_char c < (128 :: nat)" "\<not> is_ascii_ws c" "ws_at_end v = 0"
  shows "ws_at_end (k @ c # v) = 0"
proof -
  have "\<not> is_white_space (drop (length (k @ c # v) - n) (k @ c # v))" if "n \<in> {1, 2, 3}" for n
  proof (cases "n \<le> length v")
    case True
    then have "drop (length (k @ c # v) - n) (k @ c # v) = drop (length v - n) v"
      by (simp add: Suc_diff_le)
    then show ?thesis using assms(3) that unfolding ws_at_zero by metis
  next
    case False
    then have "length (k @ c # v) - n \<le> length k" by simp
    then have "c \<in> set (drop (length (k @ c # v) - n) (k @ c # v))" by (simp only: drop_append) simp
    then show ?thesis using white_space_ascii [OF assms(1,2)] by blast
  qed
  then show ?thesis by (simp only: ws_at_zero) blast
qed

lemma trim_printable:
  assumes "s \<noteq> []" "of_char (hd s) < (128 :: nat)" "\<not> is_ascii_ws (hd s)"
    "of_char (last s) < (128 :: nat)" "\<not> is_ascii_ws (last s)"
  shows "trim s = s"
proof (rule trim_id)
  show "ws_at_start s = 0"
    using ws_at_start_append [of "hd s" "[]" "tl s"] assms by simp
  show "ws_at_end s = 0"
    using ws_at_end_append [of "last s" "[]" "butlast s"] assms by simp
qed

section \<open>Integers as text\<close>

definition is_digit :: "char \<Rightarrow> bool" where
  "is_digit c = (48 \<le> (of_char c :: nat) \<and> (of_char c :: nat) \<le> 57)"

definition digit_val :: "char \<Rightarrow> nat" where
  "digit_val c = (of_char c :: nat) - 48"

definition digit_char :: "nat \<Rightarrow> char" where
  "digit_char d = char_of (48 + d)"

fun digits_val :: "nat \<Rightarrow> string \<Rightarrow> nat" where
  "digits_val acc [] = acc"
| "digits_val acc (c # cs) = digits_val (10 * acc + digit_val c) cs"

text \<open>\<open>str::parse\<close> at an unsigned type of the given width: an optional plus sign, at least
  one digit, nothing else, and no overflow.\<close>

definition parse_uint :: "nat \<Rightarrow> string \<Rightarrow> nat option" where
  "parse_uint w s =
     (let ds = (case s of [] \<Rightarrow> [] | c # cs \<Rightarrow> if c = CHR ''+'' then cs else s)
      in if ds \<noteq> [] \<and> list_all is_digit ds \<and> digits_val 0 ds < 2 ^ w
         then Some (digits_val 0 ds) else None)"

text \<open>\<open>str::parse\<close> at a signed type of the given width.\<close>

definition parse_sint :: "nat \<Rightarrow> string \<Rightarrow> int option" where
  "parse_sint w s =
     (let neg = (case s of [] \<Rightarrow> False | c # _ \<Rightarrow> c = CHR ''-'');
          ds = (case s of [] \<Rightarrow> []
                | c # cs \<Rightarrow> if c = CHR ''+'' \<or> c = CHR ''-'' then cs else s);
          v = (if neg then - int (digits_val 0 ds) else int (digits_val 0 ds))
      in if ds \<noteq> [] \<and> list_all is_digit ds \<and> - (2 ^ (w - 1)) \<le> v \<and> v < 2 ^ (w - 1)
         then Some v else None)"

fun show_nat :: "nat \<Rightarrow> string" where
  "show_nat n = (if n < 10 then [digit_char n]
     else show_nat (n div 10) @ [digit_char (n mod 10)])"

declare show_nat.simps [simp del]

lemma of_char_digit_char: "d < 10 \<Longrightarrow> of_char (digit_char d) = (48 + d :: nat)"
  by (simp add: digit_char_def)

lemma digit_char_digit [simp]: "d < 10 \<Longrightarrow> is_digit (digit_char d)"
  by (simp add: is_digit_def of_char_digit_char)

lemma digit_val_digit_char [simp]: "d < 10 \<Longrightarrow> digit_val (digit_char d) = d"
  by (simp add: digit_val_def of_char_digit_char)

lemma digits_val_append: "digits_val acc (xs @ ys) = digits_val (digits_val acc xs) ys"
  by (induction xs arbitrary: acc) auto

lemma show_nat_digits: "list_all is_digit (show_nat n)"
proof (induction n rule: show_nat.induct)
  case (1 n)
  then show ?case by (subst show_nat.simps) auto
qed

lemma show_nat_nonempty [simp]: "show_nat n \<noteq> []"
  by (subst show_nat.simps) auto

lemma digits_val_show_nat [simp]: "digits_val 0 (show_nat n) = n"
proof (induction n rule: show_nat.induct)
  case (1 n)
  then show ?case by (subst show_nat.simps) (auto simp: digits_val_append)
qed

lemma not_digit_sym: "is_digit c \<Longrightarrow> \<not> is_digit d \<Longrightarrow> c \<noteq> d"
  by auto

lemma digit_not_plus: "is_digit c \<Longrightarrow> c \<noteq> CHR ''+''"
  by (auto simp: is_digit_def)

lemma show_nat_no_char: "\<not> is_digit c \<Longrightarrow> c \<notin> set (show_nat n)"
  using show_nat_digits [of n] by (auto simp: list_all_iff)

lemma parse_uint_show_nat [simp]: "n < 2 ^ w \<Longrightarrow> parse_uint w (show_nat n) = Some n"
proof -
  assume n: "n < 2 ^ w"
  obtain c cs where s: "show_nat n = c # cs" by (cases "show_nat n") auto
  have "is_digit c" using show_nat_digits [of n] s by simp
  then have "c \<noteq> CHR ''+''" by (rule digit_not_plus)
  then have "(case show_nat n of [] \<Rightarrow> []
      | c # cs \<Rightarrow> if c = CHR ''+'' then cs else show_nat n) = show_nat n"
    by (simp add: s)
  then show ?thesis
    using n show_nat_digits by (simp add: parse_uint_def)
qed

lemma parse_uint_bound: "parse_uint w s = Some n \<Longrightarrow> n < 2 ^ w"
  by (auto simp: parse_uint_def Let_def split: if_splits)

section \<open>UTF-8\<close>

text \<open>A byte offset is a character boundary when no continuation byte starts there.\<close>

definition is_continuation :: "char \<Rightarrow> bool" where
  "is_continuation c = (128 \<le> (of_char c :: nat) \<and> (of_char c :: nat) < 192)"

definition is_char_boundary :: "string \<Rightarrow> nat \<Rightarrow> bool" where
  "is_char_boundary s i =
     (i = 0 \<or> i = length s \<or> i < length s \<and> \<not> is_continuation (s ! i))"

text \<open>\<open>&s[..i]\<close> and \<open>&s[i..]\<close>: out of range or off a boundary, the slice panics.\<close>

definition slice_to :: "string \<Rightarrow> nat \<Rightarrow> string result" where
  "slice_to s i = (if is_char_boundary s i then Ok (take i s) else Err Panic)"

definition slice_from :: "string \<Rightarrow> nat \<Rightarrow> string result" where
  "slice_from s i = (if is_char_boundary s i then Ok (drop i s) else Err Panic)"

text \<open>Well-formed UTF-8 (the Unicode table of byte sequences), as \<open>String::from_utf8\<close>
  checks it.\<close>

definition cont_byte :: "nat \<Rightarrow> bool" where
  "cont_byte b = (128 \<le> b \<and> b \<le> 191)"

fun utf8_valid :: "nat list \<Rightarrow> bool" where
  "utf8_valid [] = True"
| "utf8_valid (a # bs) =
     (if a < 128 then utf8_valid bs
      else if 194 \<le> a \<and> a \<le> 223 then
        (case bs of b # cs \<Rightarrow> cont_byte b \<and> utf8_valid cs | _ \<Rightarrow> False)
      else if 224 \<le> a \<and> a \<le> 239 then
        (case bs of b # c # cs \<Rightarrow>
            cont_byte b \<and> cont_byte c \<and> (a = 224 \<longrightarrow> 160 \<le> b) \<and> (a = 237 \<longrightarrow> b \<le> 159) \<and>
            utf8_valid cs
         | _ \<Rightarrow> False)
      else if 240 \<le> a \<and> a \<le> 244 then
        (case bs of b # c # d # cs \<Rightarrow>
            cont_byte b \<and> cont_byte c \<and> cont_byte d \<and> (a = 240 \<longrightarrow> 144 \<le> b) \<and>
            (a = 244 \<longrightarrow> b \<le> 143) \<and> utf8_valid cs
         | _ \<Rightarrow> False)
      else False)"

lemma utf8_valid_ascii: "list_all (\<lambda>b. b < 128) bs \<Longrightarrow> utf8_valid bs"
  by (induction bs) auto

definition string_valid :: "string \<Rightarrow> bool" where
  "string_valid s = utf8_valid (map of_char s)"

definition all_digits :: "string \<Rightarrow> bool" where
  "all_digits s = list_all is_digit s"

section \<open>ASCII case\<close>

definition ascii_lower :: "char \<Rightarrow> char" where
  "ascii_lower c = (if 65 \<le> (of_char c :: nat) \<and> (of_char c :: nat) \<le> 90
     then char_of ((of_char c :: nat) + 32) else c)"

definition eq_ignore_ascii_case :: "string \<Rightarrow> string \<Rightarrow> bool" where
  "eq_ignore_ascii_case a b = (map ascii_lower a = map ascii_lower b)"

definition show_int :: "int \<Rightarrow> string" where
  "show_int n = (if n < 0 then CHR ''-'' # show_nat (nat (- n)) else show_nat (nat n))"

end
