(* ===== verification/Hudi_Bytes.thy ===== *)
theory Hudi_Bytes
  imports Hudi_Strings "HOL-Library.Word"
begin

text \<open>
  Byte strings: big-endian integers of a given width (\<open>from_be_bytes\<close>, \<open>to_be_bytes\<close>),
  two's complement reading, and the conversion between bytes and strings that
  \<open>String::from_utf8\<close> performs.
\<close>

type_synonym byte = "8 word"

named_theorems codec \<open>decoding what was encoded\<close>

definition byte_of_nat :: "nat \<Rightarrow> byte" where
  "byte_of_nat n = word_of_nat n"

lemma unat_byte_of_nat [simp]: "unat (byte_of_nat n) = n mod 256"
  by (simp add: byte_of_nat_def unat_of_nat)

lemma unat_byte_less [simp]: "unat (b :: byte) < 256"
  using unsigned_less [of b] by simp

lemma byte_of_nat_unat [simp]: "byte_of_nat (unat b) = b"
  by (simp add: byte_of_nat_def)

section \<open>Big-endian integers\<close>

fun be_nat_acc :: "nat \<Rightarrow> byte list \<Rightarrow> nat" where
  "be_nat_acc acc [] = acc"
| "be_nat_acc acc (b # bs) = be_nat_acc (256 * acc + unat b) bs"

definition be_nat :: "byte list \<Rightarrow> nat" where
  "be_nat bs = be_nat_acc 0 bs"

fun be_bytes :: "nat \<Rightarrow> nat \<Rightarrow> byte list" where
  "be_bytes 0 v = []"
| "be_bytes (Suc n) v = be_bytes n (v div 256) @ [byte_of_nat v]"

lemma be_nat_acc_append: "be_nat_acc acc (xs @ ys) = be_nat_acc (be_nat_acc acc xs) ys"
  by (induction xs arbitrary: acc) auto

lemma be_nat_acc_shift: "be_nat_acc acc bs = acc * 256 ^ length bs + be_nat bs"
proof (induction bs arbitrary: acc)
  case (Cons b bs)
  show ?case
    using Cons.IH [of "256 * acc + unat b"] Cons.IH [of "unat b"]
    by (simp add: be_nat_def algebra_simps)
qed (simp add: be_nat_def)

lemma be_nat_append: "be_nat (xs @ ys) = be_nat xs * 256 ^ length ys + be_nat ys"
  by (simp add: be_nat_def be_nat_acc_append be_nat_acc_shift [of "be_nat_acc 0 xs"])

lemma be_nat_Nil [simp]: "be_nat [] = 0"
  by (simp add: be_nat_def)

lemma be_nat_single [simp]: "be_nat [b] = unat b"
  by (simp add: be_nat_def)

lemma be_nat_bound: "be_nat bs < 256 ^ length bs"
proof (induction bs rule: rev_induct)
  case (snoc b bs)
  have "be_nat bs * 256 + unat b < (be_nat bs + 1) * 256" by simp
  also have "\<dots> \<le> 256 ^ length bs * 256"
    using snoc by (intro mult_right_mono) auto
  finally show ?case by (simp add: be_nat_append mult.commute)
qed simp

lemma length_be_bytes [simp]: "length (be_bytes n v) = n"
  by (induction n arbitrary: v) auto

lemma be_nat_be_bytes_mod [codec]: "be_nat (be_bytes n v) = v mod 256 ^ n"
proof (induction n arbitrary: v)
  case (Suc n)
  have "v mod (256 * 256 ^ n) = 256 * (v div 256 mod 256 ^ n) + v mod 256"
    by (rule mod_mult2_eq)
  then show ?case by (simp add: be_nat_append Suc.IH mult.commute)
qed simp

lemma be_nat_be_bytes [simp, codec]: "v < 256 ^ n \<Longrightarrow> be_nat (be_bytes n v) = v"
  by (simp add: be_nat_be_bytes_mod)

text \<open>Two's complement: the bytes of a signed integer of the same width.\<close>

definition be_int :: "byte list \<Rightarrow> int" where
  "be_int bs = (let n = be_nat bs in
     if 2 * n < 256 ^ length bs then int n else int n - 256 ^ length bs)"

section \<open>Strings\<close>

definition bytes_str :: "byte list \<Rightarrow> string" where
  "bytes_str bs = map (\<lambda>b. char_of (unat b)) bs"

definition str_bytes :: "string \<Rightarrow> byte list" where
  "str_bytes s = map (\<lambda>c. byte_of_nat (of_char c)) s"

lemma bytes_str_str_bytes [simp]: "bytes_str (str_bytes s) = s"
  by (induction s) (auto simp: bytes_str_def str_bytes_def)

lemma str_bytes_bytes_str [simp]: "str_bytes (bytes_str bs) = bs"
  by (induction bs) (auto simp: bytes_str_def str_bytes_def)

lemma length_str_bytes [simp]: "length (str_bytes s) = length s"
  by (simp add: str_bytes_def)

lemma length_bytes_str [simp]: "length (bytes_str s) = length s"
  by (simp add: bytes_str_def)

lemma inj_str_bytes: "inj str_bytes"
  by (rule inj_on_inverseI) (rule bytes_str_str_bytes)

definition from_utf8 :: "byte list \<Rightarrow> string result" where
  "from_utf8 bs = (if utf8_valid (map unat bs) then Ok (bytes_str bs) else Err Utf8Error)"

lemma unat_str_bytes [simp]: "map unat (str_bytes s) = map of_char s"
  by (auto simp: str_bytes_def)

lemma from_utf8_str_bytes [simp, codec]:
  "string_valid s \<Longrightarrow> from_utf8 (str_bytes s) = Ok s"
  by (simp add: from_utf8_def string_valid_def)

lemma from_utf8_Ok: "from_utf8 bs = Ok s \<Longrightarrow> bs = str_bytes s \<and> string_valid s"
  by (auto simp: from_utf8_def string_valid_def bytes_str_def split: if_splits
      simp flip: unat_str_bytes)
    (simp_all add: bytes_str_def [symmetric])

text \<open>\<open>String::from_utf8_lossy\<close>: the longest ill-formed prefix of a character becomes U+FFFD.\<close>

definition utf8_width :: "nat \<Rightarrow> nat" where
  "utf8_width a = (if a < 128 then 1 else if 194 \<le> a \<and> a < 224 then 2 else if 224 \<le> a \<and> a < 240 then 3
     else if 240 \<le> a \<and> a < 245 then 4 else 0)"

definition second_ok :: "nat \<Rightarrow> nat \<Rightarrow> bool" where
  "second_ok a b \<longleftrightarrow> (if a = 224 then 160 \<le> b \<and> b < 192 else if a = 237 then 128 \<le> b \<and> b < 160
     else if a = 240 then 144 \<le> b \<and> b < 192 else if a = 244 then 128 \<le> b \<and> b < 144
     else 128 \<le> b \<and> b < 192)"

definition lossy_step :: "byte list \<Rightarrow> nat \<times> bool" where
  "lossy_step bs = (case map unat bs of
      [] \<Rightarrow> (0, True)
    | a # rest \<Rightarrow>
        (let w = utf8_width a;
             k = (case rest of [] \<Rightarrow> 0 | b # cs \<Rightarrow>
               if 2 \<le> w \<and> second_ok a b then Suc (length (takeWhile cont_byte (take (w - 2) cs))) else 0)
         in if w = 1 then (1, True) else if w = 0 then (1, False) else (k + 1, k + 1 = w)))"

lemma lossy_step_pos: "bs \<noteq> [] \<Longrightarrow> 0 < fst (lossy_step bs)"
  by (cases bs) (auto simp: lossy_step_def Let_def)

function lossy_bytes :: "byte list \<Rightarrow> byte list" where
  "lossy_bytes bs = (if bs = [] then [] else
     (case lossy_step bs of (n, ok) \<Rightarrow>
       (if ok then take n bs else [0xEF, 0xBF, 0xBD]) @ lossy_bytes (drop n bs)))"
  by pat_completeness auto
termination
  by (relation "measure length") (auto intro!: diff_less, metis fst_conv lossy_step_pos)

declare lossy_bytes.simps [simp del]

definition from_utf8_lossy :: "byte list \<Rightarrow> string" where
  "from_utf8_lossy bs = bytes_str (lossy_bytes bs)"

section \<open>Code points\<close>

text \<open>Decoding well-formed UTF-8 to code points, and UTF-16 code units as
  \<open>encode_utf16\<close> yields them.\<close>

fun utf8_decode :: "nat list \<Rightarrow> nat list" where
  "utf8_decode [] = []"
| "utf8_decode (a # bs) =
     (if a < 128 then a # utf8_decode bs
      else if a < 224 then
        (case bs of b # cs \<Rightarrow> ((a - 192) * 64 + (b - 128)) # utf8_decode cs | _ \<Rightarrow> [])
      else if a < 240 then
        (case bs of b # c # cs \<Rightarrow>
            ((a - 224) * 4096 + (b - 128) * 64 + (c - 128)) # utf8_decode cs | _ \<Rightarrow> [])
      else
        (case bs of b # c # d # cs \<Rightarrow>
            ((a - 240) * 262144 + (b - 128) * 4096 + (c - 128) * 64 + (d - 128)) # utf8_decode cs
         | _ \<Rightarrow> []))"

definition utf16_units :: "nat \<Rightarrow> nat list" where
  "utf16_units cp =
     (if cp < 65536 then [cp]
      else [55296 + (cp - 65536) div 1024, 56320 + (cp - 65536) mod 1024])"

definition encode_utf16 :: "string \<Rightarrow> nat list" where
  "encode_utf16 s = concat (map utf16_units (utf8_decode (map of_char s)))"

end
