(* ===== verification/Timeline_Instant.thy ===== *)
theory Timeline_Instant
  imports Hudi_Strings
begin

text \<open>
  Timeline instants: \<open>src/crates/core/src/timeline/instant.rs\<close>, with the timezone value of
  \<open>config/table.rs\<close>. An instant is what a timeline file name denotes: a requested
  timestamp, for table version 8 a completion timestamp, an action, a state, and the epoch
  milliseconds of the requested timestamp. Dates and timezones come from the chrono crate,
  which is a parameter (the record \<open>chrono\<close> of functions the code calls).
\<close>

section \<open>Actions and states\<close>

datatype Action = Commit | DeltaCommit | ReplaceCommit | Rollback | Restore

definition action_as_ref :: "Action \<Rightarrow> string" where
  "action_as_ref a = (case a of
      Commit \<Rightarrow> ''commit''
    | DeltaCommit \<Rightarrow> ''deltacommit''
    | ReplaceCommit \<Rightarrow> ''replacecommit''
    | Rollback \<Rightarrow> ''rollback''
    | Restore \<Rightarrow> ''restore'')"

definition action_from_str :: "string \<Rightarrow> Action result" where
  "action_from_str s =
     (if s = ''commit'' then Ok Commit
      else if s = ''deltacommit'' then Ok DeltaCommit
      else if s = ''replacecommit'' then Ok ReplaceCommit
      else if s = ''rollback'' then Ok Rollback
      else if s = ''restore'' then Ok Restore
      else Err TimelineError)"

definition action_is_replacecommit :: "Action \<Rightarrow> bool" where
  "action_is_replacecommit a = (a = ReplaceCommit)"

datatype State = Requested | Inflight | Completed

definition state_as_ref :: "State \<Rightarrow> string" where
  "state_as_ref st = (case st of
      Requested \<Rightarrow> ''requested'' | Inflight \<Rightarrow> ''inflight'' | Completed \<Rightarrow> '''')"

definition state_from_str :: "string \<Rightarrow> State result" where
  "state_from_str s =
     (if s = ''requested'' then Ok Requested
      else if s = ''inflight'' then Ok Inflight
      else if s = '''' then Ok Completed
      else Err TimelineError)"

text \<open>The derived \<open>Ord\<close> of the enum: declaration order.\<close>

definition state_rank :: "State \<Rightarrow> nat" where
  "state_rank st = (case st of Requested \<Rightarrow> 0 | Inflight \<Rightarrow> 1 | Completed \<Rightarrow> 2)"

definition state_cmp :: "State \<Rightarrow> State \<Rightarrow> rust_ordering" where
  "state_cmp a b = cmp_lin (state_rank a) (state_rank b)"

lemma action_round_trip [simp]: "action_from_str (action_as_ref a) = Ok a"
  by (cases a) (simp_all add: action_from_str_def action_as_ref_def)

lemma state_round_trip [simp]: "state_from_str (state_as_ref st) = Ok st"
  by (cases st) (simp_all add: state_from_str_def state_as_ref_def)

lemma action_from_str_Ok: "action_from_str s = Ok a \<Longrightarrow> s = action_as_ref a"
  by (auto simp: action_from_str_def action_as_ref_def split: if_splits)

lemma state_from_str_Ok: "state_from_str s = Ok st \<Longrightarrow> s = state_as_ref st"
  by (auto simp: state_from_str_def state_as_ref_def split: if_splits)

lemma no_dot_refs [simp]:
  "CHR ''.'' \<notin> set (action_as_ref a)" "CHR ''.'' \<notin> set (state_as_ref st)"
  by (cases a; simp add: action_as_ref_def) (cases st; simp add: state_as_ref_def)

lemma action_ref_not_inflight [simp]: "action_as_ref a \<noteq> ''inflight''"
  by (cases a) (simp_all add: action_as_ref_def)

lemma inj_state_rank: "inj state_rank"
  by (rule injI) (auto simp: state_rank_def split: State.splits)

lemma action_from_str_no_panic [simp]: "action_from_str s \<noteq> Err Panic"
  by (simp add: action_from_str_def)

lemma state_from_str_no_panic [simp]: "state_from_str s \<noteq> Err Panic"
  by (simp add: state_from_str_def)

section \<open>Timezone and the date library\<close>

datatype TimelineTimezoneValue = UTC | Local

definition timezone_from_str :: "string \<Rightarrow> TimelineTimezoneValue result" where
  "timezone_from_str s =
     (if map ascii_lower s = ''utc'' then Ok UTC
      else if map ascii_lower s = ''local'' then Ok Local
      else Err ConfigError)"

text \<open>A date and time without an offset, as seconds since the epoch of its reading in UTC
  and the nanoseconds of the second (chrono stores a leap second as nanoseconds from one
  billion on).\<close>

record naive_dt =
  ndt_secs :: int
  ndt_nanos :: nat

record chrono =
  ch_parse_naive :: "string \<Rightarrow> naive_dt option" \<comment> \<open>format \<open>%Y%m%d%H%M%S\<close>\<close>
  ch_local_single :: "naive_dt \<Rightarrow> naive_dt option" \<comment> \<open>a local time to UTC\<close>
  ch_from_millis :: "int \<Rightarrow> naive_dt option"

definition with_nanosecond :: "nat \<Rightarrow> naive_dt \<Rightarrow> naive_dt option" where
  "with_nanosecond n dt =
     (if n < 2000000000 then Some (dt\<lparr>ndt_nanos := n\<rparr>) else None)"

definition timestamp_millis :: "naive_dt \<Rightarrow> int" where
  "timestamp_millis dt = ndt_secs dt * 1000 + int (ndt_nanos dt div 1000000)"

section \<open>Parsing\<close>

definition BOOTSTRAP_INSTANT_TIMES :: "string list" where
  "BOOTSTRAP_INSTANT_TIMES = [''00000000000000'', ''00000000000001'', ''00000000000002'']"

definition validate_timestamp :: "string \<Rightarrow> unit result" where
  "validate_timestamp ts =
     (if length ts = 14 \<or> length ts = 17 then Ok () else Err TimelineError)"

definition parse_naive_datetime :: "chrono \<Rightarrow> string \<Rightarrow> naive_dt result" where
  "parse_naive_datetime ch ts =
     (if length ts < 14 then Err TimelineError
      else res_bind (slice_to ts 14) (\<lambda>date.
        res_bind (ok_or TimelineError (ch_parse_naive ch date)) (\<lambda>dt.
          if length ts = 17 then
            res_bind (slice_from ts 14) (\<lambda>ms.
              res_bind (ok_or TimelineError (parse_uint 32 ms)) (\<lambda>millis.
                ok_or TimelineError (with_nanosecond (millis * 1000000) dt)))
          else Ok dt)))"

definition convert_to_timezone :: "chrono \<Rightarrow> naive_dt \<Rightarrow> string \<Rightarrow> naive_dt result" where
  "convert_to_timezone ch dt tz =
     res_bind (timezone_from_str tz) (\<lambda>z. case z of
        UTC \<Rightarrow> Ok dt
      | Local \<Rightarrow> ok_or TimelineError (ch_local_single ch dt))"

definition parse_datetime :: "chrono \<Rightarrow> string \<Rightarrow> string \<Rightarrow> naive_dt result" where
  "parse_datetime ch ts tz =
     (case parse_naive_datetime ch ts of
        Inr dt \<Rightarrow> convert_to_timezone ch dt tz
      | Inl Panic \<Rightarrow> Err Panic
      | Inl _ \<Rightarrow>
          if (length ts = 17 \<or> List.member BOOTSTRAP_INSTANT_TIMES ts) \<and> all_digits ts
          then res_bind (ok_or TimelineError (parse_sint 64 ts)) (\<lambda>ms.
                 ok_or TimelineError (ch_from_millis ch ms))
          else Err TimelineError)"

definition parse_action_and_state :: "string \<Rightarrow> (Action \<times> State) result" where
  "parse_action_and_state sfx =
     (case split_once (CHR ''.'') sfx of
        Some (a, st) \<Rightarrow>
          res_bind (action_from_str a) (\<lambda>a'. res_bind (state_from_str st) (\<lambda>st'. Ok (a', st')))
      | None \<Rightarrow>
          if sfx = ''inflight'' then Ok (Commit, Inflight)
          else res_bind (action_from_str sfx) (\<lambda>a'. Ok (a', Completed)))"

record Instant =
  inst_timestamp :: string
  inst_completion_timestamp :: "string option"
  inst_action :: Action
  inst_state :: State
  inst_epoch_millis :: int

definition instant_cmp :: "Instant \<Rightarrow> Instant \<Rightarrow> rust_ordering" where
  "instant_cmp a b =
     then_with (cmp_lin (inst_epoch_millis a) (inst_epoch_millis b))
       (state_cmp (inst_state a) (inst_state b))"

definition try_from_file_name_and_timezone :: "chrono \<Rightarrow> string \<Rightarrow> string \<Rightarrow> Instant result" where
  "try_from_file_name_and_timezone ch file_name tz =
     res_bind (ok_or TimelineError (split_once (CHR ''.'') file_name)) (\<lambda>(ts_part, sfx).
     res_bind (parse_action_and_state sfx) (\<lambda>(action, st).
       case split_once (CHR ''_'') ts_part of
         Some (requested, completed) \<Rightarrow>
           res_bind (validate_timestamp requested) (\<lambda>_.
           res_bind (validate_timestamp completed) (\<lambda>_.
           res_bind (parse_datetime ch requested tz) (\<lambda>dt.
             if st \<noteq> Completed then Err TimelineError
             else Ok \<lparr>inst_timestamp = requested,
                      inst_completion_timestamp = Some completed,
                      inst_action = action, inst_state = st,
                      inst_epoch_millis = timestamp_millis dt\<rparr>)))
       | None \<Rightarrow>
           res_bind (validate_timestamp ts_part) (\<lambda>_.
           res_bind (parse_datetime ch ts_part tz) (\<lambda>dt.
             Ok \<lparr>inst_timestamp = ts_part, inst_completion_timestamp = None,
                 inst_action = action, inst_state = st,
                 inst_epoch_millis = timestamp_millis dt\<rparr>))))"

definition instant_from_str :: "chrono \<Rightarrow> string \<Rightarrow> Instant result" where
  "instant_from_str ch file_name = try_from_file_name_and_timezone ch file_name ''UTC''"

section \<open>Formatting\<close>

definition instant_file_name :: "Instant \<Rightarrow> string" where
  "instant_file_name i =
     (if inst_state i = Completed then
        (case inst_completion_timestamp i of
           Some c \<Rightarrow> inst_timestamp i @ ''_'' @ c @ ''.'' @ action_as_ref (inst_action i)
         | None \<Rightarrow> inst_timestamp i @ ''.'' @ action_as_ref (inst_action i))
      else if inst_action i = Commit \<and> inst_state i = Inflight then
        inst_timestamp i @ ''.'' @ state_as_ref (inst_state i)
      else inst_timestamp i @ ''.'' @ action_as_ref (inst_action i) @ ''.''
             @ state_as_ref (inst_state i))"

text \<open>\<open>PathBuf::push\<close> on a Unix path.\<close>

definition path_push :: "string \<Rightarrow> string \<Rightarrow> string" where
  "path_push base f =
     (if starts_with ''/'' f then f
      else if base = [] \<or> ends_with ''/'' base then base @ f
      else base @ ''/'' @ f)"

definition relative_path_with_base :: "Instant \<Rightarrow> string \<Rightarrow> string result" where
  "relative_path_with_base i base = Ok (path_push base (instant_file_name i))"

definition relative_path :: "Instant \<Rightarrow> string result" where
  "relative_path i = relative_path_with_base i ''.hoodie''"

definition instant_is_replacecommit :: "Instant \<Rightarrow> bool" where
  "instant_is_replacecommit i = action_is_replacecommit (inst_action i)"

section \<open>Facts about instants\<close>

text \<open>The instants a timeline file can denote: a timestamp of one of the two lengths
  without the two delimiters, a completion timestamp only on a completed instant, and the
  epoch milliseconds of the timestamp.\<close>

definition ts_plain :: "string \<Rightarrow> bool" where
  "ts_plain ts = ((length ts = 14 \<or> length ts = 17) \<and> CHR ''.'' \<notin> set ts \<and> CHR ''_'' \<notin> set ts)"

definition instant_wf :: "chrono \<Rightarrow> string \<Rightarrow> Instant \<Rightarrow> bool" where
  "instant_wf ch tz i =
     (ts_plain (inst_timestamp i) \<and>
      (case inst_completion_timestamp i of None \<Rightarrow> True
       | Some c \<Rightarrow> inst_state i = Completed \<and> CHR ''.'' \<notin> set c \<and>
                   (length c = 14 \<or> length c = 17)) \<and>
      (case parse_datetime ch (inst_timestamp i) tz of Inl _ \<Rightarrow> False
       | Inr dt \<Rightarrow> inst_epoch_millis i = timestamp_millis dt))"

lemma validate_timestamp_plain [simp]: "ts_plain ts \<Longrightarrow> validate_timestamp ts = Ok ()"
  by (simp add: ts_plain_def validate_timestamp_def)

lemma parse_action_and_state_shapes [simp]:
  "parse_action_and_state (action_as_ref a) = Ok (a, Completed)"
  "parse_action_and_state (state_as_ref Inflight) = Ok (Commit, Inflight)"
  "parse_action_and_state (action_as_ref a @ CHR ''.'' # state_as_ref st) = Ok (a, st)"
  by (auto simp: parse_action_and_state_def state_as_ref_def [of Inflight])

text \<open>How the file name splits at its first dot.\<close>

definition name_stem :: "Instant \<Rightarrow> string" where
  "name_stem i = (case inst_completion_timestamp i of
      Some c \<Rightarrow> if inst_state i = Completed then inst_timestamp i @ CHR ''_'' # c
                else inst_timestamp i
    | None \<Rightarrow> inst_timestamp i)"

lemma file_name_parts:
  assumes "instant_wf ch tz i"
  shows "\<exists>sfx. instant_file_name i = name_stem i @ CHR ''.'' # sfx \<and>
    parse_action_and_state sfx = Ok (inst_action i, inst_state i)"
  by (auto simp: instant_file_name_def name_stem_def split: option.splits)

lemma name_stem_no_dot: "instant_wf ch tz i \<Longrightarrow> CHR ''.'' \<notin> set (name_stem i)"
  by (auto simp: instant_wf_def name_stem_def ts_plain_def split: option.splits)

lemma parse_naive_datetime_ascii:
  assumes "\<And>c. c \<in> set ts \<Longrightarrow> \<not> is_continuation c"
  shows "parse_naive_datetime ch ts \<noteq> Err Panic"
proof -
  have "is_char_boundary ts 14" if "14 \<le> length ts"
    using that assms by (cases "length ts = 14") (auto simp: is_char_boundary_def)
  then have "14 \<le> length ts \<Longrightarrow> slice_to ts 14 = Ok (take 14 ts)"
    "14 \<le> length ts \<Longrightarrow> slice_from ts 14 = Ok (drop 14 ts)"
    by (auto simp: slice_to_def slice_from_def)
  then show ?thesis
    by (cases "14 \<le> length ts"; cases "ch_parse_naive ch (take 14 ts)";
        cases "parse_uint 32 (drop 14 ts)")
      (auto simp: parse_naive_datetime_def with_nanosecond_def)
qed

lemma total_preorder_instant_cmp: "total_preorder_cmp instant_cmp"
proof -
  have "linear_cmp (\<lambda>x y. then_with (cmp_lin (fst x) (fst y)) (cmp_lin (snd x) (snd y)))"
    for x y :: "int \<times> nat"
    by (rule linear_cmp_prod [OF linear_cmp_cmp_lin linear_cmp_cmp_lin])
  then have "total_preorder_cmp (\<lambda>x y.
      then_with (cmp_lin (fst x) (fst y)) (cmp_lin (snd x) (snd y)))" for x y :: "int \<times> nat"
    by (rule linear_cmp.axioms(1))
  from total_preorder_cmp_key
    [OF this, of "\<lambda>i. (inst_epoch_millis i, state_rank (inst_state i))"]
  show ?thesis by (simp add: instant_cmp_def [abs_def] state_cmp_def)
qed

interpretation inst: total_preorder_cmp instant_cmp
  by (rule total_preorder_instant_cmp)

section \<open>A date library for the witnesses\<close>

text \<open>A proleptic Gregorian calendar in UTC, so that the witnesses run on a concrete date
  library.\<close>

lemma char_of_consts: "char_of (116::nat) = CHR ''t''" "char_of (117::nat) = CHR ''u''"
  "char_of (99::nat) = CHR ''c''"
  by (simp_all add: char_of_def bit_iff_odd)

lemma timezone_from_str_UTC [simp]: "timezone_from_str ''UTC'' = Ok UTC"
  by (simp add: timezone_from_str_def ascii_lower_def char_of_consts)

definition days_from_civil :: "int \<Rightarrow> int \<Rightarrow> int \<Rightarrow> int" where
  "days_from_civil y m d =
     (let y' = (if m \<le> 2 then y - 1 else y); era = y' div 400; yoe = y' mod 400;
          doy = (153 * (if m > 2 then m - 3 else m + 9) + 2) div 5 + d - 1
      in era * 146097 + yoe * 365 + yoe div 4 - yoe div 100 + doy - 719468)"

definition civil_seconds :: "string \<Rightarrow> int" where
  "civil_seconds s =
     (let f = (\<lambda>a n. int (digits_val 0 (take n (drop a s))))
      in days_from_civil (f 0 4) (f 4 2) (f 6 2) * 86400 + f 8 2 * 3600 + f 10 2 * 60 + f 12 2)"

definition civil_ok :: "string \<Rightarrow> bool" where
  "civil_ok s =
     (let f = (\<lambda>a n. digits_val 0 (take n (drop a s)))
      in length s = 14 \<and> all_digits s \<and> 1 \<le> f 4 2 \<and> f 4 2 \<le> 12 \<and> 1 \<le> f 6 2 \<and> f 6 2 \<le> 28
         \<and> f 8 2 < 24 \<and> f 10 2 < 60 \<and> f 12 2 < 60)"

definition utc_chrono :: chrono where
  "utc_chrono =
     \<lparr>ch_parse_naive = (\<lambda>s. if civil_ok s then Some \<lparr>ndt_secs = civil_seconds s, ndt_nanos = 0\<rparr>
                             else None),
      ch_local_single = Some,
      ch_from_millis = (\<lambda>ms. Some \<lparr>ndt_secs = ms div 1000,
                                  ndt_nanos = nat (ms mod 1000) * 1000000\<rparr>)\<rparr>"

lemmas utc_chrono_simps =
  utc_chrono_def civil_ok_def civil_seconds_def days_from_civil_def Let_def all_digits_def
  is_digit_def digit_val_def

definition sample_instant :: Instant where
  "sample_instant = \<lparr>inst_timestamp = ''20240101120000123'',
     inst_completion_timestamp = Some ''20240101120001000'', inst_action = DeltaCommit,
     inst_state = Completed, inst_epoch_millis = 1704110400123\<rparr>"

section \<open>Properties\<close>

text \<open>The file name of a well-formed instant parses back to the instant itself,
  for all four layouts of the name.\<close>

theorem instant_round_trip:
  assumes "instant_wf ch tz i"
  shows "try_from_file_name_and_timezone ch (instant_file_name i) tz = Ok i"
proof -
  from file_name_parts [OF assms] obtain sfx
    where fn: "instant_file_name i = name_stem i @ CHR ''.'' # sfx"
      and ps: "parse_action_and_state sfx = Ok (inst_action i, inst_state i)" by blast
  have sp: "split_once CHR ''.'' (instant_file_name i) = Some (name_stem i, sfx)"
    using fn name_stem_no_dot [OF assms] by simp
  from assms obtain dt where dt: "parse_datetime ch (inst_timestamp i) tz = Ok dt"
    "inst_epoch_millis i = timestamp_millis dt"
    by (auto simp: instant_wf_def split: sum.splits)
  show ?thesis
  proof (cases "inst_completion_timestamp i")
    case None
    then show ?thesis using assms sp ps dt
      by (simp add: try_from_file_name_and_timezone_def name_stem_def instant_wf_def)
        (simp add: ts_plain_def)
  next
    case (Some c)
    then have "inst_state i = Completed" "length c = 14 \<or> length c = 17"
      "ts_plain (inst_timestamp i)" "CHR ''_'' \<notin> set (inst_timestamp i)"
      using assms by (auto simp: instant_wf_def ts_plain_def)
    then show ?thesis using Some sp ps dt
      by (simp add: try_from_file_name_and_timezone_def name_stem_def)
        (simp add: validate_timestamp_def)
  qed
qed

theorem instant_round_trip_witness:
  "try_from_file_name_and_timezone utc_chrono (instant_file_name sample_instant) ''UTC''
   = Ok sample_instant"
proof (rule instant_round_trip)
  show "instant_wf utc_chrono ''UTC'' sample_instant"
    by (simp add: instant_wf_def sample_instant_def ts_plain_def parse_datetime_def
        parse_naive_datetime_def slice_to_def slice_from_def is_char_boundary_def
        is_continuation_def parse_uint_def utc_chrono_simps convert_to_timezone_def
        with_nanosecond_def timestamp_millis_def)
qed

end
