(* ===== verification/Timeline_Selector.thy ===== *)
theory Timeline_Selector
  imports Timeline_Instant
begin

text \<open>
  Selecting instants: \<open>src/crates/core/src/timeline/selector.rs\<close>. An \<open>InstantRange\<close> admits
  timestamps by bounds or by explicit membership; a \<open>TimelineSelector\<close> filters timeline
  files while they are loaded and the loaded instants afterwards, by requested time (a
  binary search over the sorted commits) or by completion time (a scan).
\<close>

section \<open>Points in time\<close>

definition dt_less :: "naive_dt \<Rightarrow> naive_dt \<Rightarrow> bool" where
  "dt_less a b = (ndt_secs a < ndt_secs b \<or>
     ndt_secs a = ndt_secs b \<and> ndt_nanos a < ndt_nanos b)"

definition dt_le :: "naive_dt \<Rightarrow> naive_dt \<Rightarrow> bool" where
  "dt_le a b = (\<not> dt_less b a)"

definition opt_transpose :: "('a \<Rightarrow> 'b result) \<Rightarrow> 'a option \<Rightarrow> 'b option result" where
  "opt_transpose f m =
     (case m of None \<Rightarrow> Ok None | Some x \<Rightarrow> res_bind (f x) (\<lambda>y. Ok (Some y)))"

section \<open>Instant ranges\<close>

record InstantRange =
  ir_timezone :: string
  ir_start :: "string option"
  ir_end :: "string option"
  ir_start_inclusive :: bool
  ir_end_inclusive :: bool
  ir_explicit :: "string set option"

definition ir_new :: "string \<Rightarrow> string option \<Rightarrow> string option \<Rightarrow> bool \<Rightarrow> bool \<Rightarrow> InstantRange" where
  "ir_new tz s e si ei =
     \<lparr>ir_timezone = tz, ir_start = s, ir_end = e, ir_start_inclusive = si,
      ir_end_inclusive = ei, ir_explicit = None\<rparr>"

definition ir_exact_match :: "string list \<Rightarrow> string \<Rightarrow> InstantRange" where
  "ir_exact_match instants tz =
     \<lparr>ir_timezone = tz, ir_start = None, ir_end = None, ir_start_inclusive = False,
      ir_end_inclusive = False, ir_explicit = Some (set instants)\<rparr>"

definition ir_is_exact_match :: "InstantRange \<Rightarrow> bool" where
  "ir_is_exact_match r = (ir_explicit r \<noteq> None)"

definition ir_up_to :: "string \<Rightarrow> string \<Rightarrow> InstantRange" where
  "ir_up_to e tz = ir_new tz None (Some e) False True"

definition ir_within :: "string \<Rightarrow> string \<Rightarrow> string \<Rightarrow> InstantRange" where
  "ir_within s e tz = ir_new tz (Some s) (Some e) False False"

definition ir_within_open_closed :: "string \<Rightarrow> string \<Rightarrow> string \<Rightarrow> InstantRange" where
  "ir_within_open_closed s e tz = ir_new tz (Some s) (Some e) False True"

definition is_in_range_lexicographic :: "InstantRange \<Rightarrow> string \<Rightarrow> bool" where
  "is_in_range_lexicographic r ts =
     (case ir_explicit r of
        Some allowed \<Rightarrow> ts \<in> allowed
      | None \<Rightarrow>
         (case ir_start r of None \<Rightarrow> True
          | Some s \<Rightarrow> if ir_start_inclusive r then \<not> ts < s else \<not> ts \<le> s) \<and>
         (case ir_end r of None \<Rightarrow> True
          | Some e \<Rightarrow> if ir_end_inclusive r then \<not> ts > e else \<not> ts \<ge> e))"

definition ir_start_timestamp :: "chrono \<Rightarrow> InstantRange \<Rightarrow> naive_dt option result" where
  "ir_start_timestamp ch r =
     opt_transpose (\<lambda>ts. parse_datetime ch ts (ir_timezone r)) (ir_start r)"

definition ir_end_timestamp :: "chrono \<Rightarrow> InstantRange \<Rightarrow> naive_dt option result" where
  "ir_end_timestamp ch r =
     opt_transpose (\<lambda>ts. parse_datetime ch ts (ir_timezone r)) (ir_end r)"

definition is_in_range :: "chrono \<Rightarrow> InstantRange \<Rightarrow> string \<Rightarrow> string \<Rightarrow> bool result" where
  "is_in_range ch r ts tz =
     (case ir_explicit r of
        Some allowed \<Rightarrow> Ok (ts \<in> allowed)
      | None \<Rightarrow>
         res_bind (parse_datetime ch ts tz) (\<lambda>t.
         res_bind (ir_start_timestamp ch r) (\<lambda>start.
           if (case start of None \<Rightarrow> False
               | Some s \<Rightarrow> if ir_start_inclusive r then dt_less t s else dt_le t s)
           then Ok False
           else res_bind (ir_end_timestamp ch r) (\<lambda>end'.
             Ok (\<not> (case end' of None \<Rightarrow> False
                 | Some e \<Rightarrow> if ir_end_inclusive r then dt_less e t else dt_le e t))))))"

definition not_in_range :: "chrono \<Rightarrow> InstantRange \<Rightarrow> string \<Rightarrow> string \<Rightarrow> bool result" where
  "not_in_range ch r ts tz = res_bind (is_in_range ch r ts tz) (\<lambda>b. Ok (\<not> b))"

section \<open>The selector\<close>

text \<open>The configuration values the timeline code reads, each as the outcome of the read
  (\<open>try_get\<close>, \<open>get_or_default\<close>).\<close>

record timeline_config =
  tc_timezone :: string
  tc_layout_version :: "int option result"
  tc_table_version :: "int option result"
  tc_timeline_path :: string
  tc_history_path :: string
  tc_archive_folder :: string
  tc_archived_read :: bool

record TimelineSelector =
  ts_timezone :: string
  ts_start_datetime :: "naive_dt option"
  ts_end_datetime :: "naive_dt option"
  ts_start_timestamp :: "string option"
  ts_end_timestamp :: "string option"
  ts_range_on_completion_time :: bool
  ts_states :: "State list"
  ts_actions :: "Action list"
  ts_layout_version :: int

definition layout_version_from_configs :: "timeline_config \<Rightarrow> int result" where
  "layout_version_from_configs cfg =
     res_bind (tc_layout_version cfg) (\<lambda>lv. case lv of
        Some v \<Rightarrow> Ok v
      | None \<Rightarrow> res_bind (tc_table_version cfg) (\<lambda>tv.
          Ok (if (case tv of None \<Rightarrow> 6 | Some v \<Rightarrow> v) \<ge> 8 then 2 else 1)))"

definition actions_in_range ::
  "chrono \<Rightarrow> Action list \<Rightarrow> State list \<Rightarrow> timeline_config \<Rightarrow> string option \<Rightarrow> string option
   \<Rightarrow> TimelineSelector result" where
  "actions_in_range ch actions states cfg start end' =
     (let tz = tc_timezone cfg in
      res_bind (layout_version_from_configs cfg) (\<lambda>lv.
      res_bind (opt_transpose (\<lambda>e. parse_datetime ch e tz) start) (\<lambda>sd.
      res_bind (opt_transpose (\<lambda>e. parse_datetime ch e tz) end') (\<lambda>ed.
        Ok \<lparr>ts_timezone = tz, ts_start_datetime = sd, ts_end_datetime = ed,
            ts_start_timestamp = start, ts_end_timestamp = end',
            ts_range_on_completion_time = False, ts_states = states,
            ts_actions = actions, ts_layout_version = lv\<rparr>))))"

definition completed_actions_in_range ::
  "chrono \<Rightarrow> Action list \<Rightarrow> timeline_config \<Rightarrow> string option \<Rightarrow> string option
   \<Rightarrow> TimelineSelector result" where
  "completed_actions_in_range ch actions cfg start end' =
     actions_in_range ch actions [Completed] cfg start end'"

definition completed_actions_in_completion_time_range ::
  "chrono \<Rightarrow> Action list \<Rightarrow> timeline_config \<Rightarrow> string option \<Rightarrow> string option
   \<Rightarrow> TimelineSelector result" where
  "completed_actions_in_completion_time_range ch actions cfg start end' =
     res_bind (actions_in_range ch actions [Completed] cfg start end')
       (\<lambda>sel. Ok (sel\<lparr>ts_range_on_completion_time := True\<rparr>))"

definition completed_commits_in_range where
  "completed_commits_in_range ch cfg start end' =
     completed_actions_in_range ch [Commit] cfg start end'"

definition completed_deltacommits_in_range where
  "completed_deltacommits_in_range ch cfg start end' =
     completed_actions_in_range ch [DeltaCommit] cfg start end'"

definition completed_replacecommits_in_range where
  "completed_replacecommits_in_range ch cfg start end' =
     completed_actions_in_range ch [ReplaceCommit] cfg start end'"

definition has_time_filter :: "TimelineSelector \<Rightarrow> bool" where
  "has_time_filter sel = (ts_start_datetime sel \<noteq> None \<or> ts_end_datetime sel \<noteq> None)"

definition should_include_action :: "TimelineSelector \<Rightarrow> Action \<Rightarrow> bool" where
  "should_include_action sel a = (ts_actions sel = [] \<or> a \<in> set (ts_actions sel))"

definition should_include_state :: "TimelineSelector \<Rightarrow> State \<Rightarrow> bool" where
  "should_include_state sel st = (ts_states sel = [] \<or> st \<in> set (ts_states sel))"

text \<open>The timestamps of a file name stem, checked against the timeline layout.\<close>

definition instant_timestamps ::
  "TimelineSelector \<Rightarrow> State \<Rightarrow> string \<Rightarrow> (string \<times> string option) result" where
  "instant_timestamps sel st stem =
     (case split_once (CHR ''_'') stem of
        Some (requested, completed) \<Rightarrow>
          if ts_layout_version sel = 1 \<and> st = Completed then Err TimelineError
          else if length requested \<noteq> 17 \<and> length requested \<noteq> 14 then Err TimelineError
          else if length completed \<noteq> 17 \<and> length completed \<noteq> 14 then Err TimelineError
          else Ok (requested, Some completed)
      | None \<Rightarrow>
          if ts_layout_version sel = 2 \<and> st = Completed then Err TimelineError
          else Ok (stem, None))"

definition try_create_instant :: "chrono \<Rightarrow> TimelineSelector \<Rightarrow> string \<Rightarrow> Instant result" where
  "try_create_instant ch sel file_name =
     res_bind (ok_or TimelineError (split_once (CHR ''.'') file_name)) (\<lambda>(stem, sfx).
     res_bind (parse_action_and_state sfx) (\<lambda>(action, st).
       if \<not> should_include_action sel action then Err TimelineError
       else if \<not> should_include_state sel st then Err TimelineError
       else res_bind (instant_timestamps sel st stem) (\<lambda>(ts, cts).
         res_bind (parse_datetime ch ts (ts_timezone sel)) (\<lambda>dt.
           if (case ts_start_datetime sel of None \<Rightarrow> False | Some s \<Rightarrow> dt_less dt s)
           then Err TimelineError
           else if (case ts_end_datetime sel of None \<Rightarrow> False | Some e \<Rightarrow> dt_le e dt)
           then Err TimelineError
           else Ok \<lparr>inst_timestamp = ts, inst_completion_timestamp = cts,
                    inst_action = action, inst_state = st,
                    inst_epoch_millis = timestamp_millis dt\<rparr>))))"

section \<open>Selecting loaded instants\<close>

text \<open>\<open>slice::partition_point\<close>: a binary search for the first element that fails the
  predicate, on an index range.\<close>

function partition_point_from :: "('a \<Rightarrow> bool) \<Rightarrow> 'a list \<Rightarrow> nat \<Rightarrow> nat \<Rightarrow> nat" where
  "partition_point_from P xs lo hi =
     (if lo < hi then
        (let mid = (lo + hi) div 2 in
         if P (xs ! mid) then partition_point_from P xs (Suc mid) hi
         else partition_point_from P xs lo mid)
      else lo)"
  by pat_completeness auto
termination
  by (relation "measure (\<lambda>(P, xs, lo, hi). hi - lo)") auto

declare partition_point_from.simps [simp del]

definition partition_point :: "('a \<Rightarrow> bool) \<Rightarrow> 'a list \<Rightarrow> nat" where
  "partition_point P xs = partition_point_from P xs 0 (length xs)"

record Timeline =
  tl_completed_commits :: "Instant list"
  tl_earliest_active_instant :: "string option"
  tl_pending_instants :: "string set"

definition included :: "TimelineSelector \<Rightarrow> Instant \<Rightarrow> bool" where
  "included sel i =
     (should_include_action sel (inst_action i) \<and> should_include_state sel (inst_state i))"

definition select_by_completion_time :: "TimelineSelector \<Rightarrow> Timeline \<Rightarrow> Instant list" where
  "select_by_completion_time sel tml = filter (\<lambda>i.
     let eff = (case inst_completion_timestamp i of None \<Rightarrow> inst_timestamp i | Some c \<Rightarrow> c) in
     \<not> (case ts_start_timestamp sel of None \<Rightarrow> False | Some s \<Rightarrow> eff \<le> s) \<and>
     \<not> (case ts_end_timestamp sel of None \<Rightarrow> False | Some e \<Rightarrow> eff > e) \<and>
     included sel i) (tl_completed_commits tml)"

definition select_by_requested_time :: "TimelineSelector \<Rightarrow> Timeline \<Rightarrow> Instant list" where
  "select_by_requested_time sel tml =
     (let cs = tl_completed_commits tml;
          up_to = (\<lambda>d i. inst_epoch_millis i \<le> timestamp_millis d);
          pruned = (case ts_start_datetime sel of
              Some s \<Rightarrow>
                (let start_pos = partition_point (up_to s) cs;
                     rest = drop start_pos cs in
                 case ts_end_datetime sel of
                   Some e \<Rightarrow> take (partition_point (up_to e) rest) rest
                 | None \<Rightarrow> rest)
            | None \<Rightarrow> (case ts_end_datetime sel of
                   Some e \<Rightarrow> take (partition_point (up_to e) cs) cs
                 | None \<Rightarrow> cs))
      in filter (included sel) pruned)"

definition select :: "TimelineSelector \<Rightarrow> Timeline \<Rightarrow> Instant list" where
  "select sel tml =
     (if ts_range_on_completion_time sel \<and> ts_layout_version sel \<ge> 2 \<and>
         (ts_start_timestamp sel \<noteq> None \<or> ts_end_timestamp sel \<noteq> None)
      then select_by_completion_time sel tml
      else select_by_requested_time sel tml)"

section \<open>Facts about the binary search\<close>

text \<open>The search needs the predicate to hold on a prefix only.\<close>

definition partitioned :: "('a \<Rightarrow> bool) \<Rightarrow> 'a list \<Rightarrow> bool" where
  "partitioned P xs = (\<forall>i j. i < j \<longrightarrow> j < length xs \<longrightarrow> P (xs ! j) \<longrightarrow> P (xs ! i))"

lemma partitionedD:
  "partitioned P xs \<Longrightarrow> i < j \<Longrightarrow> j < length xs \<Longrightarrow> P (xs ! j) \<Longrightarrow> P (xs ! i)"
  by (simp add: partitioned_def)

lemma partition_point_from_correct:
  assumes "partitioned P xs" "lo \<le> hi" "hi \<le> length xs"
    "\<And>i. i < lo \<Longrightarrow> P (xs ! i)" "\<And>i. hi \<le> i \<Longrightarrow> i < length xs \<Longrightarrow> \<not> P (xs ! i)"
  shows "partition_point_from P xs lo hi = length (takeWhile P xs)"
  using assms
proof (induction P xs lo hi rule: partition_point_from.induct)
  case (1 P xs lo hi)
  show ?case
  proof (cases "lo < hi")
    case True
    define mid where "mid = (lo + hi) div 2"
    have mid: "lo \<le> mid" "mid < hi" using True by (auto simp: mid_def)
    show ?thesis
    proof (cases "P (xs ! mid)")
      case p: True
      have "P (xs ! i)" if "i < Suc mid" for i
        using partitionedD [OF "1.prems"(1), of i mid] "1.prems"(3) p mid(2) that
        by (cases "i = mid") auto
      then have "partition_point_from P xs (Suc mid) hi = length (takeWhile P xs)"
        by (intro "1.IH"(1)) (use True mid p 1 mid_def in auto)
      then show ?thesis
        using True p by (subst partition_point_from.simps) (simp add: mid_def)
    next
      case np: False
      have "\<not> P (xs ! i)" if "mid \<le> i" "i < length xs" for i
        using partitionedD [OF "1.prems"(1), of mid i] np that by (cases "i = mid") auto
      then have "partition_point_from P xs lo mid = length (takeWhile P xs)"
        by (intro "1.IH"(2)) (use True mid np 1 mid_def in auto)
      then show ?thesis
        using True np by (subst partition_point_from.simps) (simp add: mid_def)
    qed
  next
    case False
    then have eq: "lo = hi" using "1.prems"(2) by simp
    have "takeWhile P xs = take lo xs"
      using 1 eq by (intro takeWhile_eq_take_P_nth) auto
    then have "length (takeWhile P xs) = lo" using 1 eq by simp
    then show ?thesis using False by (subst partition_point_from.simps) simp
  qed
qed

lemma partition_point_correct:
  "partitioned P xs \<Longrightarrow> partition_point P xs = length (takeWhile P xs)"
  unfolding partition_point_def by (rule partition_point_from_correct) auto

lemma take_partition_point:
  "partitioned P xs \<Longrightarrow> take (partition_point P xs) xs = takeWhile P xs"
  by (simp add: partition_point_correct takeWhile_eq_take [symmetric])

lemma drop_partition_point:
  "partitioned P xs \<Longrightarrow> drop (partition_point P xs) xs = dropWhile P xs"
  by (simp add: partition_point_correct dropWhile_eq_drop [symmetric])

lemma partitioned_tail: "partitioned P (x # xs) \<Longrightarrow> partitioned P xs"
  unfolding partitioned_def
proof (intro allI impI)
  fix i j
  assume a: "\<forall>i j. i < j \<longrightarrow> j < length (x # xs) \<longrightarrow> P ((x # xs) ! j) \<longrightarrow> P ((x # xs) ! i)"
    and b: "i < j" "j < length xs" "P (xs ! j)"
  show "P (xs ! i)" using a [rule_format, of "Suc i" "Suc j"] b by simp
qed

lemma partitioned_head:
  assumes "partitioned P (x # xs)" "y \<in> set xs" "P y"
  shows "P x"
proof -
  from assms(2) obtain j where "j < length xs" "xs ! j = y" by (auto simp: in_set_conv_nth)
  then show ?thesis using partitionedD [OF assms(1), of 0 "Suc j"] assms(3) by simp
qed

lemma takeWhile_filter_partitioned: "partitioned P xs \<Longrightarrow> takeWhile P xs = filter P xs"
proof (induction xs)
  case (Cons x xs)
  then show ?case using partitioned_head [OF Cons.prems] partitioned_tail [OF Cons.prems]
    by (auto intro!: filter_False [symmetric])
qed simp

lemma dropWhile_filter_partitioned:
  "partitioned P xs \<Longrightarrow> dropWhile P xs = filter (\<lambda>x. \<not> P x) xs"
proof (induction xs)
  case (Cons x xs)
  then show ?case using partitioned_head [OF Cons.prems] partitioned_tail [OF Cons.prems]
    by (auto intro!: filter_True [symmetric])
qed simp

text \<open>The loaded commits are sorted by epoch milliseconds, so every upper bound on them
  partitions the list.\<close>

definition sorted_by_epoch :: "Instant list \<Rightarrow> bool" where
  "sorted_by_epoch is = sorted (map inst_epoch_millis is)"

lemma partitioned_up_to:
  assumes "sorted_by_epoch is"
  shows "partitioned (\<lambda>i. inst_epoch_millis i \<le> b) is"
  unfolding partitioned_def
proof (intro allI impI)
  fix i j
  assume a: "i < j" "j < length is" "inst_epoch_millis (is ! j) \<le> b"
  have "map inst_epoch_millis is ! i \<le> map inst_epoch_millis is ! j"
    using assms a by (intro sorted_nth_mono) (auto simp: sorted_by_epoch_def)
  then show "inst_epoch_millis (is ! i) \<le> b" using a by simp
qed

lemma sorted_by_epoch_filter: "sorted_by_epoch is \<Longrightarrow> sorted_by_epoch (filter P is)"
  by (simp add: sorted_by_epoch_def sorted_filter)

lemma sorted_by_epoch_sort: "sorted_by_epoch (sort_by instant_cmp is)"
proof -
  have "sorted_wrt (\<lambda>a b. instant_cmp a b \<noteq> Greater) (sort_by instant_cmp is)"
    by (rule inst.sorted_sort_by)
  then show ?thesis
    unfolding sorted_by_epoch_def sorted_map
    by (rule sorted_wrt_mono_rel [rotated]) (auto simp: instant_cmp_def)
qed

section \<open>Properties\<close>

text \<open>On a timeline sorted by time, the two binary searches of the requested-time
  selection return exactly the instants of the window: after the start, up to and including
  the end, with an admitted action and state, in timeline order.\<close>

theorem select_by_requested_time_is_window:
  assumes "sorted_by_epoch (tl_completed_commits tml)"
  shows "select_by_requested_time sel tml = filter (\<lambda>i.
      (case ts_start_datetime sel of None \<Rightarrow> True
       | Some s \<Rightarrow> timestamp_millis s < inst_epoch_millis i) \<and>
      (case ts_end_datetime sel of None \<Rightarrow> True
       | Some e \<Rightarrow> inst_epoch_millis i \<le> timestamp_millis e) \<and>
      included sel i) (tl_completed_commits tml)"
proof -
  note pt = partitioned_up_to [OF assms]
  have pf: "partitioned (\<lambda>i. inst_epoch_millis i \<le> b)
      (filter (\<lambda>i. a < inst_epoch_millis i) (tl_completed_commits tml))" for a b
    by (rule partitioned_up_to [OF sorted_by_epoch_filter [OF assms]])
  note window = select_by_requested_time_def Let_def take_partition_point [OF pt]
    drop_partition_point [OF pt] takeWhile_filter_partitioned [OF pt]
    dropWhile_filter_partitioned [OF pt] not_le take_partition_point [OF pf]
    takeWhile_filter_partitioned [OF pf]
  show ?thesis
    by (cases "ts_start_datetime sel"; cases "ts_end_datetime sel")
      (simp_all add: window conj_ac)
qed

theorem select_by_requested_time_is_window_witness:
  "map inst_epoch_millis (select_by_requested_time
     \<lparr>ts_timezone = ''UTC'', ts_start_datetime = Some \<lparr>ndt_secs = 2, ndt_nanos = 0\<rparr>,
      ts_end_datetime = Some \<lparr>ndt_secs = 4, ndt_nanos = 0\<rparr>, ts_start_timestamp = None,
      ts_end_timestamp = None, ts_range_on_completion_time = False, ts_states = [Completed],
      ts_actions = [DeltaCommit], ts_layout_version = 2\<rparr>
     \<lparr>tl_completed_commits = map (\<lambda>ms. sample_instant\<lparr>inst_epoch_millis := ms\<rparr>)
        [1000, 2000, 3000, 4000, 5000],
      tl_earliest_active_instant = None, tl_pending_instants = {}\<rparr>) = [3000, 4000]"
  by (subst select_by_requested_time_is_window)
    (simp_all add: sorted_by_epoch_def included_def timestamp_millis_def sample_instant_def
      should_include_action_def should_include_state_def)

text \<open>When parsing is strictly monotone on the timestamps involved, the range test on
  parsed dates and the lexicographic range test on the strings agree, for every combination
  of bounds, inclusivity and explicit membership.\<close>

theorem range_tests_agree:
  assumes parses: "\<And>x. x \<in> insert ts (set_option (ir_start r) \<union> set_option (ir_end r)) \<Longrightarrow>
      parse_datetime ch x (ir_timezone r) = Ok (d x)"
    and mono: "\<And>x y. x \<in> insert ts (set_option (ir_start r) \<union> set_option (ir_end r)) \<Longrightarrow>
      y \<in> insert ts (set_option (ir_start r) \<union> set_option (ir_end r)) \<Longrightarrow>
      dt_less (d x) (d y) \<longleftrightarrow> x < y"
  shows "is_in_range ch r ts (ir_timezone r) = Ok (is_in_range_lexicographic r ts)"
proof (cases "ir_explicit r")
  case None
  then show ?thesis
    by (cases "ir_start r"; cases "ir_end r")
      (auto simp: is_in_range_def is_in_range_lexicographic_def ir_start_timestamp_def
         ir_end_timestamp_def opt_transpose_def parses mono dt_le_def not_le)
qed (simp add: is_in_range_def is_in_range_lexicographic_def)

theorem range_tests_agree_witness:
  "is_in_range utc_chrono (ir_within ''20240101120000'' ''20240102120000'' ''UTC'')
     ''20240101130000'' ''UTC'' =
   Ok (is_in_range_lexicographic (ir_within ''20240101120000'' ''20240102120000'' ''UTC'')
     ''20240101130000'')"
proof -
  let ?r = "ir_within ''20240101120000'' ''20240102120000'' ''UTC''"
  let ?d = "\<lambda>s. \<lparr>ndt_secs = civil_seconds s, ndt_nanos = 0\<rparr>"
  have tz: "ir_timezone ?r = ''UTC''" by (simp add: ir_within_def ir_new_def)
  have pts: "insert ''20240101130000'' (set_option (ir_start ?r) \<union> set_option (ir_end ?r)) =
    {''20240101120000'', ''20240101130000'', ''20240102120000''}"
    by (auto simp: ir_within_def ir_new_def)
  have secs: "civil_seconds ''20240101120000'' = 1704110400"
    "civil_seconds ''20240101130000'' = 1704114000" "civil_seconds ''20240102120000'' = 1704196800"
    by (simp_all add: civil_seconds_def days_from_civil_def Let_def digit_val_def)
  have ok: "civil_ok ''20240101120000''" "civil_ok ''20240101130000''" "civil_ok ''20240102120000''"
    by (simp_all add: civil_ok_def Let_def all_digits_def is_digit_def digit_val_def)
  have parse: "parse_datetime utc_chrono s ''UTC'' = Ok (?d s)" if "civil_ok s" for s
  proof -
    have "length s = 14" using that by (simp add: civil_ok_def Let_def)
    then show ?thesis
      using that by (simp add: parse_datetime_def parse_naive_datetime_def slice_to_def
          is_char_boundary_def utc_chrono_def convert_to_timezone_def)
  qed
  have less: "''20240101120000'' < ''20240101130000''" "''20240101120000'' < ''20240102120000''"
    "''20240101130000'' < ''20240102120000''"
    by (simp_all add: less_char_def)
  then have nless: "\<not> ''20240101130000'' < ''20240101120000''"
    "\<not> ''20240102120000'' < ''20240101120000''" "\<not> ''20240102120000'' < ''20240101130000''"
    by (meson less_asym)+
  have all_ok: "civil_ok x" if "x \<in> {''20240101120000'', ''20240101130000'', ''20240102120000''}" for x
    using that ok by (elim insertE) simp_all
  have mono: "dt_less (?d x) (?d y) \<longleftrightarrow> x < y"
    if "x \<in> {''20240101120000'', ''20240101130000'', ''20240102120000''}"
      "y \<in> {''20240101120000'', ''20240101130000'', ''20240102120000''}" for x y
    using that by (elim insertE) (simp_all only: dt_less_def naive_dt.simps secs less nless, simp_all)
  show ?thesis
    using range_tests_agree [of "''20240101130000''" ?r utc_chrono ?d, unfolded pts tz, OF parse mono,
        OF all_ok] .
qed

end
