(* ===== verification/Timeline_View.thy ===== *)
theory Timeline_View
  imports Timeline_Selector
begin

text \<open>
  The loaded timeline and the views derived from it:
  \<open>src/crates/core/src/timeline/{builder,loader,mod,view,completion_time,lsm_tree}.rs\<close> and
  the completion gate of the log scan (\<open>file_group/reader_v2/reader_context.rs\<close>,
  \<open>log_record_reader.rs\<close>). One listing of the timeline directory yields the completed
  commits, the pending instants and the archival boundary; the view answers whether the
  commit that wrote a file has committed. The object store is a parameter: a function from
  a directory to the names and sizes of its objects.
\<close>

type_synonym object_list = "string \<Rightarrow> (string \<times> nat) list result"

definition HUDI_METADATA_DIR :: string where
  "HUDI_METADATA_DIR = ''.hoodie''"

text \<open>\<open>Storage::list_files\<close>: checksum files are not part of a listing.\<close>

definition storage_list_files :: "object_list \<Rightarrow> string \<Rightarrow> (string \<times> nat) list result" where
  "storage_list_files ls dir =
     res_bind (ls dir) (\<lambda>fs. Ok (filter (\<lambda>f. \<not> ends_with ''.crc'' (fst f)) fs))"

section \<open>Loaders\<close>

datatype TimelineLayout = V1Active | V1Archived | V2Active | V2Archived

record TimelineLoader =
  ldr_config :: timeline_config
  ldr_layout :: TimelineLayout

definition new_loader :: "timeline_config \<Rightarrow> TimelineLayout \<Rightarrow> TimelineLoader" where
  "new_loader cfg layout = \<lparr>ldr_config = cfg, ldr_layout = layout\<rparr>"

text \<open>\<open>TimelineBuilder::resolve_loader_config\<close>: the active loader and, when archived reads
  are enabled, the archived one. A failed read of the table version means layout one.\<close>

definition resolve_loader_config ::
  "timeline_config \<Rightarrow> (TimelineLoader \<times> TimelineLoader option) result" where
  "resolve_loader_config cfg =
     (let archived = (\<lambda>layout. if tc_archived_read cfg then Some (new_loader cfg layout)
                                else None);
          one = (new_loader cfg V1Active, archived V1Archived);
          two = (new_loader cfg V2Active, archived V2Archived)
      in case tc_table_version cfg of
           Inl _ \<Rightarrow> Ok one
         | Inr None \<Rightarrow> Ok one
         | Inr (Some table_version) \<Rightarrow>
             res_bind (tc_layout_version cfg) (\<lambda>lv.
               let layout_version =
                 (case lv of Some v \<Rightarrow> v | None \<Rightarrow> if table_version \<ge> 8 then 2 else 1)
               in if layout_version = 1 then
                    (if \<not> (6 \<le> table_version \<and> table_version \<le> 8) then Err UnsupportedError
                     else Ok one)
                  else if layout_version = 2 then
                    (if table_version < 8 then Err UnsupportedError else Ok two)
                  else Err UnsupportedError))"

definition get_active_timeline_dir :: "TimelineLoader \<Rightarrow> string" where
  "get_active_timeline_dir l =
     (if ldr_layout l = V1Active \<or> ldr_layout l = V1Archived then HUDI_METADATA_DIR
      else HUDI_METADATA_DIR @ ''/'' @ tc_timeline_path (ldr_config l))"

definition get_archived_timeline_dir :: "TimelineLoader \<Rightarrow> string" where
  "get_archived_timeline_dir l =
     (if ldr_layout l = V1Active \<or> ldr_layout l = V1Archived
      then tc_archive_folder (ldr_config l)
      else HUDI_METADATA_DIR @ ''/'' @ tc_timeline_path (ldr_config l) @ ''/''
             @ tc_history_path (ldr_config l))"

definition get_timeline_dir :: "TimelineLoader \<Rightarrow> string" where
  "get_timeline_dir l =
     (if ldr_layout l = V1Active \<or> ldr_layout l = V2Active then get_active_timeline_dir l
      else get_archived_timeline_dir l)"

definition lsm_timeline_dir :: "timeline_config \<Rightarrow> string" where
  "lsm_timeline_dir cfg = HUDI_METADATA_DIR @ ''/'' @ tc_timeline_path cfg"

definition lsm_history_dir :: "timeline_config \<Rightarrow> string" where
  "lsm_history_dir cfg =
     HUDI_METADATA_DIR @ ''/'' @ tc_timeline_path cfg @ ''/'' @ tc_history_path cfg"

text \<open>A file name that does not make an instant is skipped; only a panic escapes.\<close>

fun collect_instants :: "chrono \<Rightarrow> TimelineSelector \<Rightarrow> string list \<Rightarrow> Instant list result" where
  "collect_instants ch sel [] = Ok []"
| "collect_instants ch sel (n # ns) =
     (case try_create_instant ch sel n of
        Inl Panic \<Rightarrow> Err Panic
      | Inl _ \<Rightarrow> collect_instants ch sel ns
      | Inr i \<Rightarrow> res_bind (collect_instants ch sel ns) (\<lambda>is. Ok (i # is)))"

definition skipped_name :: "string \<Rightarrow> bool" where
  "skipped_name n = (starts_with ''history/'' n \<or> ends_with ''.crc'' n)"

text \<open>\<open>TimelineLoader::load_instants\<close>. The code sorts with an unstable sort; the model's
  sort is one of the results that sort may give, and the theorems use only its
  sortedness and its elements.\<close>

definition load_instants ::
  "chrono \<Rightarrow> object_list \<Rightarrow> TimelineLoader \<Rightarrow> TimelineSelector \<Rightarrow> bool \<Rightarrow> Instant list result" where
  "load_instants ch ls l sel desc =
     (let finish = (\<lambda>is. let s = sort_by instant_cmp is in if desc then rev s else s)
      in case ldr_layout l of
        V1Active \<Rightarrow>
          res_bind (storage_list_files ls HUDI_METADATA_DIR) (\<lambda>fs.
          res_bind (collect_instants ch sel (map fst fs)) (\<lambda>is. Ok (finish is)))
      | V2Active \<Rightarrow>
          res_bind (storage_list_files ls (get_timeline_dir l)) (\<lambda>fs.
          res_bind (collect_instants ch sel (filter (\<lambda>n. \<not> skipped_name n) (map fst fs)))
            (\<lambda>is. Ok (finish is)))
      | _ \<Rightarrow> Err UnsupportedError)"

definition load_archived_instants ::
  "chrono \<Rightarrow> object_list \<Rightarrow> TimelineLoader \<Rightarrow> TimelineSelector \<Rightarrow> bool \<Rightarrow> Instant list result" where
  "load_archived_instants ch ls l sel desc =
     (case ldr_layout l of
        V1Archived \<Rightarrow>
          res_bind (storage_list_files ls (tc_archive_folder (ldr_config l))) (\<lambda>fs.
          res_bind (collect_instants ch sel (map fst fs)) (\<lambda>is.
            Ok (let s = sort_by instant_cmp is in if desc then rev s else s)))
      | _ \<Rightarrow> Ok [])"

text \<open>\<open>TimelineLoader::list_pending_instant_times\<close>: the timestamp and state of every file
  are read structurally, whatever the action.\<close>

definition pending_step :: "string set \<times> string set \<Rightarrow> string \<Rightarrow> string set \<times> string set" where
  "pending_step pc name =
     (let (pending, completed) = pc in
      if skipped_name name then pc
      else (case split_once (CHR ''.'') name of
        None \<Rightarrow> pc
      | Some (stem, sfx) \<Rightarrow>
          let ts = (case split_once (CHR ''_'') stem of None \<Rightarrow> stem | Some (r, _) \<Rightarrow> r) in
          if ts = [] then pc
          else let st = (case rsplit_once (CHR ''.'') sfx of None \<Rightarrow> sfx | Some (_, s) \<Rightarrow> s) in
            if st = ''requested'' \<or> st = ''inflight'' then (insert ts pending, completed)
            else (pending, insert ts completed)))"

definition list_pending_instant_times ::
  "object_list \<Rightarrow> TimelineLoader \<Rightarrow> string set result" where
  "list_pending_instant_times ls l =
     (let scan = (\<lambda>dir. res_bind (storage_list_files ls dir) (\<lambda>fs.
            let (p, c) = fold (\<lambda>n pc. pending_step pc n) (map fst fs) ({}, {})
            in Ok (p - c)))
      in case ldr_layout l of
           V1Active \<Rightarrow> scan HUDI_METADATA_DIR
         | V2Active \<Rightarrow> scan (get_timeline_dir l)
         | _ \<Rightarrow> Err UnsupportedError)"

section \<open>The timeline\<close>

definition DEFAULT_LOADING_ACTIONS :: "Action list" where
  "DEFAULT_LOADING_ACTIONS = [Commit, DeltaCommit, ReplaceCommit]"

definition min_string :: "string list \<Rightarrow> string option" where
  "min_string xs = (case xs of [] \<Rightarrow> None | y # ys \<Rightarrow> Some (fold min ys y))"

definition max_string :: "string list \<Rightarrow> string option" where
  "max_string xs = (case xs of [] \<Rightarrow> None | y # ys \<Rightarrow> Some (fold max ys y))"

text \<open>\<open>Timeline::load_instants\<close>: archived instants join only under a time filter.\<close>

definition timeline_load_instants ::
  "chrono \<Rightarrow> object_list \<Rightarrow> TimelineLoader \<Rightarrow> TimelineLoader option \<Rightarrow> TimelineSelector \<Rightarrow> bool
   \<Rightarrow> Instant list result" where
  "timeline_load_instants ch ls active archived sel desc =
     (if has_time_filter sel then
        res_bind (load_instants ch ls active sel desc) (\<lambda>is.
          case archived of None \<Rightarrow> Ok is
          | Some al \<Rightarrow> res_bind (load_archived_instants ch ls al sel desc) (\<lambda>ar.
              if ar = [] then Ok is
              else let s = sort_by instant_cmp (is @ ar) in Ok (if desc then rev s else s)))
      else load_instants ch ls active sel desc)"

text \<open>What \<open>Timeline::new_from_storage\<close> makes of the loaded instants.\<close>

definition timeline_of_active :: "Instant list \<Rightarrow> Timeline" where
  "timeline_of_active all_active =
     (let completed = filter (\<lambda>i. inst_state i = Completed) all_active;
          pending = filter (\<lambda>i. inst_state i \<noteq> Completed) all_active;
          completed_times = set (map inst_timestamp completed)
      in \<lparr>tl_completed_commits = completed,
          tl_earliest_active_instant = min_string (map inst_timestamp all_active),
          tl_pending_instants =
            set (filter (\<lambda>ts. ts \<notin> completed_times) (map inst_timestamp pending))\<rparr>)"

definition new_from_storage :: "chrono \<Rightarrow> object_list \<Rightarrow> timeline_config \<Rightarrow> Timeline result" where
  "new_from_storage ch ls cfg =
     res_bind (resolve_loader_config cfg) (\<lambda>(active, archived).
     res_bind (actions_in_range ch DEFAULT_LOADING_ACTIONS [Requested, Inflight, Completed]
                 cfg None None) (\<lambda>sel.
     res_bind (timeline_load_instants ch ls active archived sel False) (\<lambda>all_active.
       Ok (timeline_of_active all_active))))"

definition get_latest_commit_timestamp_as_option :: "Timeline \<Rightarrow> string option" where
  "get_latest_commit_timestamp_as_option tml =
     (if tl_completed_commits tml = [] then None
      else Some (inst_timestamp (last (tl_completed_commits tml))))"

definition get_latest_completion_timestamp_as_option :: "Timeline \<Rightarrow> string option" where
  "get_latest_completion_timestamp_as_option tml =
     (case max_string (List.map_filter inst_completion_timestamp (tl_completed_commits tml)) of
        Some c \<Rightarrow> Some c
      | None \<Rightarrow> get_latest_commit_timestamp_as_option tml)"

definition get_latest_commit_timestamp :: "Timeline \<Rightarrow> string result" where
  "get_latest_commit_timestamp tml =
     ok_or TimelineError (get_latest_commit_timestamp_as_option tml)"

definition get_completed_instants_at_or_before ::
  "chrono \<Rightarrow> timeline_config \<Rightarrow> Timeline \<Rightarrow> string \<Rightarrow> Instant list result" where
  "get_completed_instants_at_or_before ch cfg tml ts =
     res_bind (completed_actions_in_range ch DEFAULT_LOADING_ACTIONS cfg None (Some ts))
       (\<lambda>sel. Ok (select sel tml))"

definition get_completed_commits_in_range ::
  "chrono \<Rightarrow> timeline_config \<Rightarrow> Timeline \<Rightarrow> string option \<Rightarrow> string option
   \<Rightarrow> Instant list result" where
  "get_completed_commits_in_range ch cfg tml start end' =
     res_bind (completed_actions_in_completion_time_range ch DEFAULT_LOADING_ACTIONS cfg
                 start end')
       (\<lambda>sel. Ok (select sel tml))"

section \<open>The view\<close>

text \<open>File groups are compared by file id and partition, so the excluded set holds those.\<close>

record TimelineView =
  tv_as_of_timestamp :: string
  tv_start_timestamp :: "string option"
  tv_excluding_file_groups :: "(string \<times> string) set"
  tv_request_to_completion :: "string \<Rightarrow> string option"
  tv_completed_requests :: "string set"
  tv_earliest_active_instant :: "string option"

definition view_insert ::
  "bool \<Rightarrow> Instant \<Rightarrow> (string \<Rightarrow> string option) \<times> string set
   \<Rightarrow> (string \<Rightarrow> string option) \<times> string set" where
  "view_insert is_v2 i acc =
     (let (m, done') = acc in
      (case inst_completion_timestamp i of
         Some c \<Rightarrow> if is_v2 then m(inst_timestamp i \<mapsto> c) else m
       | None \<Rightarrow> m,
       insert (inst_timestamp i) done'))"

definition new_with_archival_boundary ::
  "timeline_config \<Rightarrow> string \<Rightarrow> string option \<Rightarrow> Instant list \<Rightarrow> (string \<times> string) set
   \<Rightarrow> string option \<Rightarrow> TimelineView" where
  "new_with_archival_boundary cfg as_of start commits excluding earliest =
     (let layout = (case tc_layout_version cfg of Inr (Some v) \<Rightarrow> v | _ \<Rightarrow> 0);
          (m, reqs) = fold (view_insert (layout \<ge> 2)) commits (Map.empty, {})
      in \<lparr>tv_as_of_timestamp = as_of, tv_start_timestamp = start,
          tv_excluding_file_groups = excluding, tv_request_to_completion = m,
          tv_completed_requests = reqs, tv_earliest_active_instant = earliest\<rparr>)"

definition view_new ::
  "timeline_config \<Rightarrow> string \<Rightarrow> string option \<Rightarrow> Instant list \<Rightarrow> (string \<times> string) set
   \<Rightarrow> TimelineView" where
  "view_new cfg as_of start commits excluding =
     new_with_archival_boundary cfg as_of start commits excluding None"

definition get_completion_time :: "TimelineView \<Rightarrow> string \<Rightarrow> string option" where
  "get_completion_time v ts = tv_request_to_completion v ts"

definition is_committed :: "TimelineView \<Rightarrow> string \<Rightarrow> bool" where
  "is_committed v ts =
     (ts \<in> tv_completed_requests v \<or>
      (case tv_earliest_active_instant v of None \<Rightarrow> False | Some b \<Rightarrow> ts < b))"

text \<open>\<open>Timeline::create_view_as_of\<close>, given the replaced file groups as of the timestamp.\<close>

definition create_view_as_of ::
  "timeline_config \<Rightarrow> Timeline \<Rightarrow> string \<Rightarrow> (string \<times> string) set \<Rightarrow> TimelineView" where
  "create_view_as_of cfg tml ts excludes =
     new_with_archival_boundary cfg ts None (tl_completed_commits tml) excludes
       (tl_earliest_active_instant tml)"

section \<open>The completion gate of the log scan\<close>

record CompletionGateInputs =
  cg_completed :: "string set"
  cg_inflight :: "string set"
  cg_archived_boundary :: "string option"

definition completion_gate_inputs :: "Timeline \<Rightarrow> CompletionGateInputs" where
  "completion_gate_inputs tml =
     \<lparr>cg_completed = set (map inst_timestamp (tl_completed_commits tml)),
      cg_inflight = tl_pending_instants tml,
      cg_archived_boundary = tl_earliest_active_instant tml\<rparr>"

definition gate_is_unpopulated :: "CompletionGateInputs \<Rightarrow> bool" where
  "gate_is_unpopulated g = (cg_completed g = {} \<and> cg_archived_boundary g = None)"

definition gate_admits :: "CompletionGateInputs \<Rightarrow> string \<Rightarrow> bool" where
  "gate_admits g ts =
     (if gate_is_unpopulated g then True
      else (ts \<in> cg_completed g \<or>
            (case cg_archived_boundary g of None \<Rightarrow> False | Some b \<Rightarrow> ts < b)) \<and>
           ts \<notin> cg_inflight g)"

section \<open>Facts\<close>

lemma min_string_None [simp]: "min_string xs = None \<longleftrightarrow> xs = []"
  by (simp add: min_string_def split: list.splits)

lemma fold_min_le:
  fixes y :: "'a::linorder"
  shows "fold min ys y \<le> y" and "z \<in> set ys \<Longrightarrow> fold min ys y \<le> z"
proof -
  show le: "fold min ys y \<le> y" for ys and y :: 'a
  proof (induction ys arbitrary: y)
    case (Cons a ys)
    show ?case using Cons.IH [of "min a y"] by simp
  qed simp
  show "z \<in> set ys \<Longrightarrow> fold min ys y \<le> z"
  proof (induction ys arbitrary: y)
    case (Cons a ys)
    then show ?case
      using le [of ys "min a y"] by (cases "z = a") (auto intro: order_trans)
  qed simp
qed

lemma fold_min_in: "fold min ys (y :: 'a::linorder) \<in> insert y (set ys)"
proof (induction ys arbitrary: y)
  case (Cons a ys)
  show ?case using Cons.IH [of "min a y"] by (auto simp: min_def split: if_splits)
qed simp

lemma min_string_le: "min_string xs = Some m \<Longrightarrow> x \<in> set xs \<Longrightarrow> m \<le> x"
  by (cases xs) (auto simp: min_string_def fold_min_le)

lemma min_string_in: "min_string xs = Some m \<Longrightarrow> m \<in> set xs"
proof (cases xs)
  case (Cons y ys)
  assume "min_string xs = Some m"
  then show ?thesis using fold_min_in [of ys y] Cons by (auto simp: min_string_def)
qed (simp add: min_string_def)

lemma view_insert_fold:
  "fold (view_insert v2) is (m, s) = (m', s') \<Longrightarrow> s' = s \<union> inst_timestamp ` set is"
proof (induction "is" arbitrary: m s)
  case (Cons i "is")
  then show ?case by (auto simp: view_insert_def split: prod.splits)
qed simp

lemma view_insert_fold_dom:
  "fold (view_insert v2) is (m, s) = (m', s') \<Longrightarrow> dom m \<subseteq> s \<Longrightarrow> dom m' \<subseteq> s'"
proof (induction "is" arbitrary: m s)
  case (Cons i "is")
  have "dom (fst (view_insert v2 i (m, s))) \<subseteq> snd (view_insert v2 i (m, s))"
    using Cons.prems(2) by (auto simp: view_insert_def split: option.splits if_splits)
  then show ?case
    using Cons.prems(1) Cons.IH
      [of "fst (view_insert v2 i (m, s))" "snd (view_insert v2 i (m, s))"]
    by simp
qed simp

lemma new_with_archival_boundary_requests:
  "tv_completed_requests (new_with_archival_boundary cfg a st cs ex b) = inst_timestamp ` set cs"
  by (auto simp: new_with_archival_boundary_def Let_def split: prod.splits
      dest!: view_insert_fold)

lemma new_with_archival_boundary_dom:
  "dom (tv_request_to_completion (new_with_archival_boundary cfg a st cs ex b))
     \<subseteq> tv_completed_requests (new_with_archival_boundary cfg a st cs ex b)"
proof -
  define v2 where
    "v2 = ((case tc_layout_version cfg of Inr (Some v) \<Rightarrow> v | _ \<Rightarrow> (0::int)) \<ge> 2)"
  obtain m s where f: "fold (view_insert v2) cs (Map.empty, {}) = (m, s)" by fastforce
  then have "dom m \<subseteq> s" by (rule view_insert_fold_dom) simp
  with f show ?thesis
    by (simp add: new_with_archival_boundary_def Let_def v2_def)
qed

lemma new_with_archival_boundary_simps [simp]:
  "tv_earliest_active_instant (new_with_archival_boundary cfg a st cs ex b) = b"
  "tv_as_of_timestamp (new_with_archival_boundary cfg a st cs ex b) = a"
  "tv_excluding_file_groups (new_with_archival_boundary cfg a st cs ex b) = ex"
  by (simp_all add: new_with_archival_boundary_def Let_def split: prod.splits)

section \<open>The interface the file listing relies on\<close>

text \<open>The \<open>CompletionTimeView\<close> trait: a completion time is only known of a committed
  request.\<close>

locale completion_time_view =
  fixes completion :: "string \<Rightarrow> string option"
    and committed :: "string \<Rightarrow> bool"
  assumes completed_committed: "completion ts = Some c \<Longrightarrow> committed ts"
begin

lemma uncommitted_no_completion: "\<not> committed ts \<Longrightarrow> completion ts = None"
  using completed_committed by (cases "completion ts") auto

end

text \<open>The views the constructors build satisfy it.\<close>

definition view_wf :: "TimelineView \<Rightarrow> bool" where
  "view_wf v = (dom (tv_request_to_completion v) \<subseteq> tv_completed_requests v)"

lemma view_wf_new: "view_wf (new_with_archival_boundary cfg a st cs ex b)"
  using new_with_archival_boundary_dom by (simp add: view_wf_def)

interpretation tv: completion_time_view
  "get_completion_time (new_with_archival_boundary cfg a st cs ex b)"
  "is_committed (new_with_archival_boundary cfg a st cs ex b)"
  for cfg a st cs ex b
proof
  show "is_committed (new_with_archival_boundary cfg a st cs ex b) ts"
    if "get_completion_time (new_with_archival_boundary cfg a st cs ex b) ts = Some c" for ts c
    using that new_with_archival_boundary_dom [of cfg a st cs ex b]
    by (auto simp: get_completion_time_def is_committed_def)
qed

section \<open>Invariants of the loaded timeline\<close>

lemma collect_instants_set:
  "collect_instants ch sel ns = Ok is \<Longrightarrow>
   i \<in> set is \<longleftrightarrow> (\<exists>n\<in>set ns. try_create_instant ch sel n = Ok i)"
proof (induction ns arbitrary: "is")
  case (Cons n ns)
  show ?case
  proof (cases "try_create_instant ch sel n")
    case (Inl e)
    then show ?thesis using Cons by (cases e) auto
  next
    case (Inr j)
    then show ?thesis using Cons by (auto simp: res_bind_Inr_iff)
  qed
qed simp

lemma timeline_of_active_pending:
  "ts \<in> tl_pending_instants (timeline_of_active is) \<Longrightarrow>
   ts \<notin> inst_timestamp ` set (tl_completed_commits (timeline_of_active is)) \<and>
   ts \<in> inst_timestamp ` set is"
  by (auto simp: timeline_of_active_def Let_def)

lemma timeline_of_active_earliest:
  "tl_earliest_active_instant (timeline_of_active is) = Some b \<Longrightarrow> i \<in> set is \<Longrightarrow>
   b \<le> inst_timestamp i"
  by (auto simp: timeline_of_active_def Let_def intro: min_string_le)

lemma timeline_of_active_pending_bound:
  "tl_earliest_active_instant (timeline_of_active is) = Some b \<Longrightarrow>
   ts \<in> tl_pending_instants (timeline_of_active is) \<Longrightarrow> \<not> ts < b"
  using timeline_of_active_pending [of ts "is"] timeline_of_active_earliest [of "is" b]
  by (auto simp: not_less)

text \<open>Shape of a timeline built from a listing.\<close>

lemma new_from_storage_active:
  assumes "new_from_storage ch ls cfg = Ok tml"
  obtains "is" where "tml = timeline_of_active is" "sorted_by_epoch is"
proof -
  from assms obtain active archived sel "is" where
    1: "tml = timeline_of_active is" and
    2: "timeline_load_instants ch ls active archived sel False = Ok is" and
    3: "actions_in_range ch DEFAULT_LOADING_ACTIONS [Requested, Inflight, Completed]
          cfg None None = Ok sel"
    by (auto simp: new_from_storage_def res_bind_Inr_iff)
  have "\<not> has_time_filter sel"
    using 3 by (auto simp: actions_in_range_def opt_transpose_def Let_def res_bind_Inr_iff
        has_time_filter_def)
  then have "load_instants ch ls active sel False = Ok is"
    using 2 by (simp add: timeline_load_instants_def)
  then have "sorted_by_epoch is"
    by (auto simp: load_instants_def res_bind_Inr_iff Let_def sorted_by_epoch_sort
        split: TimelineLayout.splits)
  with 1 show thesis by (rule that)
qed

lemma pending_uncommitted:
  assumes "new_from_storage ch ls cfg = Ok tml" and "ts \<in> tl_pending_instants tml"
  shows "\<not> is_committed (create_view_as_of cfg tml as_of excludes) ts"
proof -
  from assms(1) obtain "is" where tml: "tml = timeline_of_active is"
    by (rule new_from_storage_active)
  have "ts \<notin> inst_timestamp ` set (tl_completed_commits tml)"
    using timeline_of_active_pending assms(2) by (auto simp: tml)
  moreover have "\<not> ts < b" if "tl_earliest_active_instant tml = Some b" for b
    using timeline_of_active_pending_bound that assms(2) tml by blast
  ultimately show ?thesis
    by (auto simp: is_committed_def create_view_as_of_def new_with_archival_boundary_requests
        split: option.splits)
qed

section \<open>A timeline for the witnesses\<close>

text \<open>A version-8 table with one completed and one inflight delta commit.\<close>

definition sample_config :: timeline_config where
  "sample_config = \<lparr>tc_timezone = ''UTC'', tc_layout_version = Ok (Some 2),
     tc_table_version = Ok (Some 8), tc_timeline_path = ''timeline'', tc_history_path = ''history'',
     tc_archive_folder = ''archived'', tc_archived_read = False\<rparr>"

definition sample_names :: "string list" where
  "sample_names = [''20240101120000123_20240101120001000.deltacommit'',
     ''20240101130000000.deltacommit.requested'']"

definition sample_objects :: object_list where
  "sample_objects dir =
     (if dir = ''.hoodie/timeline'' then Ok (map (\<lambda>n. (n, 10)) sample_names) else Ok [])"

definition sample_pending :: Instant where
  "sample_pending = \<lparr>inst_timestamp = ''20240101130000000'',
     inst_completion_timestamp = None, inst_action = DeltaCommit,
     inst_state = Requested, inst_epoch_millis = 1704114000000\<rparr>"

definition sample_timeline :: Timeline where
  "sample_timeline = timeline_of_active [sample_instant, sample_pending]"

lemma sample_try_create:
  assumes "sel = \<lparr>ts_timezone = ''UTC'', ts_start_datetime = None, ts_end_datetime = None,
     ts_start_timestamp = None, ts_end_timestamp = None, ts_range_on_completion_time = False,
     ts_states = [Requested, Inflight, Completed], ts_actions = DEFAULT_LOADING_ACTIONS,
     ts_layout_version = 2\<rparr>"
  shows "try_create_instant utc_chrono sel ''20240101120000123_20240101120001000.deltacommit''
      = Ok sample_instant"
    and "try_create_instant utc_chrono sel ''20240101130000000.deltacommit.requested''
      = Ok sample_pending"
  by (simp_all add: assms try_create_instant_def parse_action_and_state_def action_from_str_def
      state_from_str_def should_include_action_def should_include_state_def
      DEFAULT_LOADING_ACTIONS_def instant_timestamps_def parse_datetime_def
      parse_naive_datetime_def slice_to_def slice_from_def is_char_boundary_def
      is_continuation_def parse_uint_def utc_chrono_simps convert_to_timezone_def
      with_nanosecond_def timestamp_millis_def sample_instant_def sample_pending_def)

lemma sample_timeline_loaded:
  "new_from_storage utc_chrono sample_objects sample_config = Ok sample_timeline"
proof -
  have names: "filter (\<lambda>n. \<not> skipped_name n) sample_names = sample_names"
    "filter (\<lambda>f. \<not> ends_with ''.crc'' (fst f)) (map (\<lambda>n. (n, 10 :: nat)) sample_names)
       = map (\<lambda>n. (n, 10)) sample_names"
    by (simp_all add: sample_names_def skipped_name_def starts_with_def ends_with_def)
  let ?sel = "\<lparr>ts_timezone = ''UTC'', ts_start_datetime = None, ts_end_datetime = None,
     ts_start_timestamp = None, ts_end_timestamp = None, ts_range_on_completion_time = False,
     ts_states = [Requested, Inflight, Completed], ts_actions = DEFAULT_LOADING_ACTIONS,
     ts_layout_version = 2\<rparr>"
  have ci: "collect_instants utc_chrono ?sel sample_names = Ok [sample_instant, sample_pending]"
    unfolding sample_names_def by (simp add: sample_try_create [OF refl])
  have srt: "sort_by instant_cmp [sample_instant, sample_pending] = [sample_instant, sample_pending]"
    by (simp add: instant_cmp_def sample_instant_def sample_pending_def cmp_lin_def)
  have ld: "load_instants utc_chrono sample_objects (new_loader sample_config V2Active) ?sel False
      = Ok [sample_instant, sample_pending]"
    using srt by (simp add: load_instants_def new_loader_def storage_list_files_def get_timeline_dir_def
        get_active_timeline_dir_def HUDI_METADATA_DIR_def sample_config_def sample_objects_def
        names comp_def ci Let_def del: sort_by.simps)
  show ?thesis
    using ld by (simp add: new_from_storage_def resolve_loader_config_def actions_in_range_def
        layout_version_from_configs_def opt_transpose_def timeline_load_instants_def
        has_time_filter_def sample_timeline_def)
      (simp add: sample_config_def Let_def opt_transpose_def timeline_load_instants_def
        has_time_filter_def)
qed

lemma sample_timeline_simps:
  "tl_completed_commits sample_timeline = [sample_instant]"
  "tl_pending_instants sample_timeline = {''20240101130000000''}"
  "tl_earliest_active_instant sample_timeline \<noteq> None"
  by (simp_all add: sample_timeline_def timeline_of_active_def Let_def min_string_def)
    (auto simp: sample_instant_def sample_pending_def)

lemma sample_timeline_boundary:
  "tl_earliest_active_instant sample_timeline = Some ''20240101120000123''"
proof -
  have "''20240101120000123'' \<le> ''20240101130000000''"
    by (simp add: less_eq_list_code less_char_def)
  then show ?thesis
    by (simp add: sample_timeline_def timeline_of_active_def Let_def min_string_def
        sample_instant_def sample_pending_def min_def)
qed

section \<open>Pending instants of other actions\<close>

text \<open>The boundary is the earliest of the loaded instants, which are commits, delta commits and replace
  commits. An instant of another action that is older than all of them counts as committed though it is
  pending: here a compaction that was planned but not run.\<close>

definition sample_compaction_objects :: object_list where
  "sample_compaction_objects dir =
     (if dir = ''.hoodie/timeline'' then
        Ok (map (\<lambda>n. (n, 10)) (''20240101110000000.compaction.requested'' # sample_names)) else Ok [])"

lemma sample_compaction_loaded:
  "new_from_storage utc_chrono sample_compaction_objects sample_config = Ok sample_timeline"
proof -
  have names: "filter (\<lambda>n. \<not> skipped_name n) sample_names = sample_names"
    "filter (\<lambda>f. \<not> ends_with ''.crc'' (fst f)) (map (\<lambda>n. (n, 10 :: nat)) sample_names)
       = map (\<lambda>n. (n, 10)) sample_names"
    "\<not> skipped_name ''20240101110000000.compaction.requested''"
    "\<not> ends_with ''.crc'' ''20240101110000000.compaction.requested''"
    by (simp_all add: sample_names_def skipped_name_def starts_with_def ends_with_def)
  let ?sel = "\<lparr>ts_timezone = ''UTC'', ts_start_datetime = None, ts_end_datetime = None,
     ts_start_timestamp = None, ts_end_timestamp = None, ts_range_on_completion_time = False,
     ts_states = [Requested, Inflight, Completed], ts_actions = DEFAULT_LOADING_ACTIONS,
     ts_layout_version = 2\<rparr>"
  have "\<exists>e. try_create_instant utc_chrono ?sel ''20240101110000000.compaction.requested'' = Inl e \<and> e \<noteq> Panic"
    by (simp add: try_create_instant_def parse_action_and_state_def action_from_str_def)
  then obtain e where "try_create_instant utc_chrono ?sel ''20240101110000000.compaction.requested'' = Inl e" "e \<noteq> Panic"
    by blast
  then have ci: "collect_instants utc_chrono ?sel (''20240101110000000.compaction.requested'' # sample_names) =
      Ok [sample_instant, sample_pending]"
    unfolding sample_names_def by (cases e) (simp_all add: sample_try_create [OF refl])
  have srt: "sort_by instant_cmp [sample_instant, sample_pending] = [sample_instant, sample_pending]"
    by (simp add: instant_cmp_def sample_instant_def sample_pending_def cmp_lin_def)
  have ld: "load_instants utc_chrono sample_compaction_objects (new_loader sample_config V2Active) ?sel False
      = Ok [sample_instant, sample_pending]"
    using srt by (simp add: load_instants_def new_loader_def storage_list_files_def get_timeline_dir_def
        get_active_timeline_dir_def HUDI_METADATA_DIR_def sample_config_def sample_compaction_objects_def
        names comp_def ci Let_def del: sort_by.simps collect_instants.simps)
  show ?thesis
    using ld by (simp add: new_from_storage_def resolve_loader_config_def actions_in_range_def
        layout_version_from_configs_def opt_transpose_def timeline_load_instants_def
        has_time_filter_def sample_timeline_def)
      (simp add: sample_config_def Let_def opt_transpose_def timeline_load_instants_def
        has_time_filter_def)
qed

theorem pending_compaction_below_boundary:
  "new_from_storage utc_chrono sample_compaction_objects sample_config = Ok sample_timeline \<and>
   list_pending_instant_times sample_compaction_objects (new_loader sample_config V2Active) =
     Ok {''20240101110000000'', ''20240101130000000''} \<and>
   is_committed (create_view_as_of sample_config sample_timeline as_of {}) ''20240101110000000''"
proof (intro conjI)
  show "new_from_storage utc_chrono sample_compaction_objects sample_config = Ok sample_timeline"
    by (rule sample_compaction_loaded)
  show "list_pending_instant_times sample_compaction_objects (new_loader sample_config V2Active) =
     Ok {''20240101110000000'', ''20240101130000000''}"
    by (simp add: list_pending_instant_times_def new_loader_def storage_list_files_def get_timeline_dir_def
        get_active_timeline_dir_def HUDI_METADATA_DIR_def sample_config_def sample_compaction_objects_def
        sample_names_def ends_with_def pending_step_def skipped_name_def starts_with_def rsplit_once_def Let_def)
      auto
  have "''20240101110000000'' < ''20240101120000123''" by (simp add: less_char_def)
  then show "is_committed (create_view_as_of sample_config sample_timeline as_of {}) ''20240101110000000''"
    by (simp add: is_committed_def create_view_as_of_def new_with_archival_boundary_requests sample_timeline_boundary)
qed

section \<open>Properties\<close>

text \<open>C32: after loading, the completed commits are all in state completed and sorted by
  time (what the binary search of the selector needs), no pending instant is completed, and
  the archival boundary is at or below every completed and every pending instant.\<close>

theorem new_from_storage_invariant:
  assumes "new_from_storage ch ls cfg = Ok tml"
  shows "sorted_by_epoch (tl_completed_commits tml) \<and>
    list_all (\<lambda>i. inst_state i = Completed) (tl_completed_commits tml) \<and>
    tl_pending_instants tml \<inter> inst_timestamp ` set (tl_completed_commits tml) = {} \<and>
    (case tl_earliest_active_instant tml of
       None \<Rightarrow> tl_completed_commits tml = [] \<and> tl_pending_instants tml = {}
     | Some b \<Rightarrow> list_all (\<lambda>i. b \<le> inst_timestamp i) (tl_completed_commits tml) \<and>
         Set.filter (\<lambda>ts. ts < b) (tl_pending_instants tml) = {})"
proof -
  from assms obtain "is" where tml: "tml = timeline_of_active is" and s: "sorted_by_epoch is"
    by (rule new_from_storage_active)
  have c: "tl_completed_commits tml = filter (\<lambda>i. inst_state i = Completed) is"
    and p: "tl_pending_instants tml \<subseteq> inst_timestamp ` set is"
    and e: "tl_earliest_active_instant tml = min_string (map inst_timestamp is)"
    by (auto simp: tml timeline_of_active_def Let_def)
  have "tl_pending_instants tml \<inter> inst_timestamp ` set (tl_completed_commits tml) = {}"
    using timeline_of_active_pending by (auto simp: tml)
  moreover have "case tl_earliest_active_instant tml of
       None \<Rightarrow> tl_completed_commits tml = [] \<and> tl_pending_instants tml = {}
     | Some b \<Rightarrow> list_all (\<lambda>i. b \<le> inst_timestamp i) (tl_completed_commits tml) \<and>
         Set.filter (\<lambda>ts. ts < b) (tl_pending_instants tml) = {}"
  proof (cases "tl_earliest_active_instant tml")
    case None
    then have "is = []" using e by simp
    then show ?thesis using c p None by simp
  next
    case (Some b)
    have "b \<le> inst_timestamp i" if "i \<in> set is" for i
      using timeline_of_active_earliest Some that by (simp add: tml)
    moreover have "\<not> ts < b" if "ts \<in> tl_pending_instants tml" for ts
      using timeline_of_active_pending_bound Some that tml by blast
    ultimately show ?thesis using Some c by (auto simp: list_all_iff)
  qed
  ultimately show ?thesis
    using s by (auto simp: c sorted_by_epoch_filter list_all_iff)
qed

theorem new_from_storage_invariant_witness:
  "sorted_by_epoch (tl_completed_commits sample_timeline) \<and>
   tl_pending_instants sample_timeline \<inter>
     inst_timestamp ` set (tl_completed_commits sample_timeline) = {}"
  using new_from_storage_invariant [OF sample_timeline_loaded] by blast

text \<open>The commit of a pending instant never counts as committed in a view of the loaded
  timeline, so no file or log block it wrote is read.\<close>

theorem pending_is_not_committed:
  assumes "new_from_storage ch ls cfg = Ok tml" and "ts \<in> tl_pending_instants tml"
  shows "\<not> is_committed (create_view_as_of cfg tml as_of excludes) ts"
  using assms by (rule pending_uncommitted)

theorem pending_is_not_committed_witness:
  "\<not> is_committed (create_view_as_of sample_config sample_timeline ''99999999999999999'' {})
     ''20240101130000000''"
  by (rule pending_is_not_committed [OF sample_timeline_loaded])
    (simp add: sample_timeline_simps)

text \<open>C25: for the gate built from a loaded timeline the inflight set never decides. The gate of the log
  scan admits exactly the instants the view counts as committed, unless no instant was loaded at all: the
  gate is then unpopulated and admits every instant, while the view counts none as committed.\<close>

theorem gate_admits_committed:
  assumes "new_from_storage ch ls cfg = Ok tml" and "v = create_view_as_of cfg tml as_of excludes"
  shows "(gate_admits (completion_gate_inputs tml) ts \<longleftrightarrow>
      is_committed v ts \<or> tl_earliest_active_instant tml = None) \<and>
    (tl_earliest_active_instant tml = None \<longrightarrow>
      tl_completed_commits tml = [] \<and> tl_pending_instants tml = {} \<and> \<not> is_committed v ts)"
proof -
  from assms(1) obtain "is" where tml: "tml = timeline_of_active is"
    by (rule new_from_storage_active)
  have e: "is = []" if "tl_earliest_active_instant tml = None"
    using that by (simp add: tml timeline_of_active_def Let_def)
  have "ts \<notin> inst_timestamp ` set (tl_completed_commits tml)"
    "tl_earliest_active_instant tml = Some b \<Longrightarrow> \<not> ts < b"
    if "ts \<in> tl_pending_instants tml" for b
    using timeline_of_active_pending [of ts "is"] timeline_of_active_pending_bound [of "is" b ts]
      that by (auto simp: tml)
  moreover have "tl_completed_commits tml = []" "tl_pending_instants tml = {}"
    if "tl_earliest_active_instant tml = None"
    using e [OF that] by (simp_all add: tml timeline_of_active_def)
  ultimately show ?thesis
    by (auto simp: assms(2) gate_admits_def gate_is_unpopulated_def is_committed_def create_view_as_of_def
        new_with_archival_boundary_requests completion_gate_inputs_def split: option.splits)
qed

theorem gate_admits_committed_witness:
  "gate_admits (completion_gate_inputs sample_timeline) ''20240101120000123'' \<longleftrightarrow>
   is_committed (create_view_as_of sample_config sample_timeline ''99999999999999999'' {})
     ''20240101120000123''"
  using gate_admits_committed [OF sample_timeline_loaded refl] by (simp add: sample_timeline_simps)

end
