(* ===== verification/Ordered_Containers.thy ===== *)
theory Ordered_Containers
  imports Hudi_Prelude
begin

text \<open>
  The ordered containers of the standard library the program keeps its state in:
  \<open>BTreeMap\<close> as an association list with strictly increasing keys, with \<open>get\<close>,
  \<open>insert\<close>, \<open>remove\<close> and the query \<open>range(..=k).next_back()\<close>, and \<open>BTreeSet\<close> as a
  list strictly increasing for the element's comparison. The locale \<open>ordered_map\<close> states
  what the clients rely on.
\<close>

section \<open>Maps\<close>

type_synonym ('k, 'v) btree_map = "('k \<times> 'v) list"

definition bm_ok :: "('k::linorder, 'v) btree_map \<Rightarrow> bool" where
  "bm_ok m = sorted_wrt (<) (map fst m)"

definition bm_get :: "('k::linorder, 'v) btree_map \<Rightarrow> 'k \<Rightarrow> 'v option" where
  "bm_get m k = map_of m k"

fun bm_insert :: "'k::linorder \<Rightarrow> 'v \<Rightarrow> ('k, 'v) btree_map \<Rightarrow> ('k, 'v) btree_map" where
  "bm_insert k v [] = [(k, v)]"
| "bm_insert k v ((k', v') # m) =
     (if k < k' then (k, v) # (k', v') # m
      else if k = k' then (k, v) # m
      else (k', v') # bm_insert k v m)"

definition bm_remove :: "'k::linorder \<Rightarrow> ('k, 'v) btree_map \<Rightarrow> ('k, 'v) btree_map" where
  "bm_remove k m = filter (\<lambda>(k', _). k' \<noteq> k) m"

text \<open>\<open>range(..=t).next_back()\<close>: the entry of the greatest key at or below \<open>t\<close>.\<close>

definition bm_last_le :: "'k::linorder \<Rightarrow> ('k, 'v) btree_map \<Rightarrow> ('k \<times> 'v) option" where
  "bm_last_le t m = (let es = takeWhile (\<lambda>(k, _). k \<le> t) m in
     if es = [] then None else Some (last es))"

lemma bm_ok_Nil [simp]: "bm_ok []"
  by (simp add: bm_ok_def)

lemma bm_ok_Cons: "bm_ok ((k, v) # m) \<longleftrightarrow> (\<forall>k'\<in>fst ` set m. k < k') \<and> bm_ok m"
  by (auto simp: bm_ok_def)

lemma fst_set_bm_insert: "fst ` set (bm_insert k v m) = insert k (fst ` set m)"
  by (induction k v m rule: bm_insert.induct) auto

lemma bm_ok_insert [simp]: "bm_ok m \<Longrightarrow> bm_ok (bm_insert k v m)"
  by (induction k v m rule: bm_insert.induct) (auto simp: bm_ok_Cons fst_set_bm_insert)

lemma bm_get_insert [simp]:
  "bm_ok m \<Longrightarrow> bm_get (bm_insert k v m) k' = (if k' = k then Some v else bm_get m k')"
  by (induction k v m rule: bm_insert.induct) (auto simp: bm_get_def bm_ok_Cons)

lemma bm_get_in: "bm_ok m \<Longrightarrow> bm_get m k = Some v \<longleftrightarrow> (k, v) \<in> set m"
  unfolding bm_get_def bm_ok_def
  by (rule map_of_eq_Some_iff) (metis strict_sorted_iff)

lemma bm_get_None: "bm_get m k = None \<longleftrightarrow> k \<notin> fst ` set m"
  by (simp add: bm_get_def map_of_eq_None_iff)

lemma bm_ok_filter: "bm_ok m \<Longrightarrow> bm_ok (filter P m)"
proof (induction m)
  case (Cons e m)
  then show ?case by (cases e) (auto simp: bm_ok_Cons)
qed simp

lemma bm_ok_remove [simp]: "bm_ok m \<Longrightarrow> bm_ok (bm_remove k m)"
  by (simp add: bm_remove_def bm_ok_filter)

lemma bm_get_remove [simp]: "bm_get (bm_remove k m) k' = (if k' = k then None else bm_get m k')"
  by (induction m) (auto simp: bm_get_def bm_remove_def)

lemma bm_last_le_Cons:
  "bm_last_le t ((k, v) # m) =
     (if k \<le> t then (case bm_last_le t m of None \<Rightarrow> Some (k, v) | Some e \<Rightarrow> Some e) else None)"
  by (auto simp: bm_last_le_def Let_def)

lemma bm_last_le_None: "bm_ok m \<Longrightarrow> bm_last_le t m = None \<longleftrightarrow> (\<forall>k\<in>fst ` set m. \<not> k \<le> t)"
proof (induction m)
  case (Cons e m)
  obtain a b where e: "e = (a, b)" by force
  have ok: "bm_ok m" "\<And>k. k \<in> fst ` set m \<Longrightarrow> a < k"
    using Cons.prems by (auto simp: e bm_ok_Cons)
  show ?case
  proof (cases "a \<le> t")
    case True
    then show ?thesis by (simp add: e bm_last_le_Cons split: option.splits)
  next
    case False
    then have "\<not> k \<le> t" if "k \<in> fst ` set m" for k
      using ok(2) [OF that] by (meson less_imp_le order_trans)
    then show ?thesis using False by (simp add: e bm_last_le_Cons)
  qed
qed (simp add: bm_last_le_def)

lemma bm_last_le_Some:
  assumes "bm_ok m" "bm_last_le t m = Some (k, v)"
  shows "(k, v) \<in> set m" "k \<le> t" "k' \<in> fst ` set m \<Longrightarrow> k' \<le> t \<Longrightarrow> k' \<le> k"
proof -
  have "(k, v) \<in> set m \<and> k \<le> t \<and> (\<forall>k'\<in>fst ` set m. k' \<le> t \<longrightarrow> k' \<le> k)"
    using assms
  proof (induction m)
    case (Cons e m)
    obtain a b where e: "e = (a, b)" by force
    have ok: "bm_ok m" "\<forall>k'\<in>fst ` set m. a < k'" using Cons.prems(1) e by (auto simp: bm_ok_Cons)
    show ?case
    proof (cases "bm_last_le t m")
      case None
      then have "a \<le> t" "k = a" "v = b" using Cons.prems(2) e
        by (auto simp: bm_last_le_Cons split: if_splits)
      moreover have "\<forall>k\<in>fst ` set m. \<not> k \<le> t" using None bm_last_le_None ok(1) by blast
      ultimately show ?thesis using e by auto
    next
      case (Some f)
      then have at: "a \<le> t" "bm_last_le t m = Some (k, v)" using Cons.prems(2) e
        by (auto simp: bm_last_le_Cons split: if_splits)
      from Cons.IH [OF ok(1) at(2)] have ih: "(k, v) \<in> set m" "k \<le> t"
        "\<forall>k'\<in>fst ` set m. k' \<le> t \<longrightarrow> k' \<le> k" by auto
      have "a < k" using ok(2) ih(1) by (metis fst_conv image_eqI)
      then show ?thesis using ih e by auto
    qed
  qed (simp add: bm_last_le_def)
  then show "(k, v) \<in> set m" "k \<le> t" "k' \<in> fst ` set m \<Longrightarrow> k' \<le> t \<Longrightarrow> k' \<le> k" by auto
qed

lemma bm_last_le_in: "bm_last_le t m = Some e \<Longrightarrow> e \<in> set m"
  using last_in_set [of "takeWhile (\<lambda>(k, _). k \<le> t) m"] set_takeWhileD
  by (fastforce simp: bm_last_le_def Let_def split: if_splits)

section \<open>The contract of an ordered map\<close>

locale ordered_map =
  fixes invar :: "'m \<Rightarrow> bool"
    and get :: "'m \<Rightarrow> 'k::linorder \<Rightarrow> 'v option"
    and insert_at :: "'k \<Rightarrow> 'v \<Rightarrow> 'm \<Rightarrow> 'm"
    and last_le :: "'k \<Rightarrow> 'm \<Rightarrow> ('k \<times> 'v) option"
  assumes invar_insert: "invar m \<Longrightarrow> invar (insert_at k v m)"
    and get_insert: "invar m \<Longrightarrow> get (insert_at k v m) k' = (if k' = k then Some v else get m k')"
    and last_le_get: "invar m \<Longrightarrow> last_le t m = Some (k, v) \<Longrightarrow> get m k = Some v \<and> k \<le> t"
    and last_le_greatest:
      "invar m \<Longrightarrow> last_le t m = Some (k, v) \<Longrightarrow> get m k' \<noteq> None \<Longrightarrow> k' \<le> t \<Longrightarrow> k' \<le> k"
    and last_le_none: "invar m \<Longrightarrow> last_le t m = None \<Longrightarrow> k \<le> t \<Longrightarrow> get m k = None"
begin

text \<open>The entry found is determined by the contents.\<close>

lemma last_leI:
  assumes "invar m" "get m k = Some v" "k \<le> t"
    and "\<And>k'. get m k' \<noteq> None \<Longrightarrow> k' \<le> t \<Longrightarrow> k' \<le> k"
  shows "last_le t m = Some (k, v)"
proof (cases "last_le t m")
  case None
  then show ?thesis using last_le_none assms by fastforce
next
  case (Some e)
  obtain a b where e: "e = (a, b)" by force
  have "get m a = Some b" "a \<le> t" using last_le_get assms(1) Some e by auto
  moreover have "k \<le> a" using last_le_greatest assms(1,2,3) Some e by fastforce
  moreover have "a \<le> k" using assms(4) calculation by auto
  ultimately show ?thesis using Some e assms(2) by auto
qed

lemma last_le_same_dom:
  assumes "invar m" "invar m'" "\<And>k. get m k = None \<longleftrightarrow> get m' k = None"
    and "last_le t m = Some (k, v)"
  shows "\<exists>v'. last_le t m' = Some (k, v') \<and> get m' k = Some v'"
proof -
  have k: "get m k = Some v" "k \<le> t" using last_le_get assms(1,4) by auto
  then obtain v' where v': "get m' k = Some v'" using assms(3) [of k] by (cases "get m' k") auto
  have "last_le t m' = Some (k, v')"
    using last_le_greatest [OF assms(1,4)] assms(3) k v'
    by (intro last_leI assms(2)) auto
  then show ?thesis using v' by blast
qed

text \<open>Updating the value of the entry found leaves every search with the same key.\<close>

lemma last_le_update_key:
  assumes "invar m" "get m k0 \<noteq> None"
  shows "map_option fst (last_le t (insert_at k0 v m)) = map_option fst (last_le t m)"
proof (cases "last_le t m")
  case None
  have "last_le t (insert_at k0 v m) = None"
  proof (rule ccontr)
    assume "last_le t (insert_at k0 v m) \<noteq> None"
    then obtain a b where "last_le t (insert_at k0 v m) = Some (a, b)" by auto
    then have "get (insert_at k0 v m) a = Some b" "a \<le> t"
      using last_le_get invar_insert assms(1) by blast+
    then show False using None last_le_none assms get_insert by (metis option.distinct(1))
  qed
  then show ?thesis using None by simp
next
  case (Some e)
  then show ?thesis
    using last_le_same_dom [OF assms(1) invar_insert [OF assms(1)], of k0 v t "fst e" "snd e"]
      assms get_insert [OF assms(1)]
    by (cases e) (fastforce split: if_splits)
qed

end

interpretation bm: ordered_map bm_ok bm_get bm_insert bm_last_le
proof
  fix m :: "('a::linorder \<times> 'b) list" and k k' t v
  assume ok: "bm_ok m"
  show "bm_ok (bm_insert k v m)" using ok by simp
  show "bm_get (bm_insert k v m) k' = (if k' = k then Some v else bm_get m k')" using ok by simp
  show "bm_get m k = Some v \<and> k \<le> t" if "bm_last_le t m = Some (k, v)"
    using bm_last_le_Some [OF ok that] bm_get_in [OF ok] by auto
  show "k' \<le> k" if "bm_last_le t m = Some (k, v)" "bm_get m k' \<noteq> None" "k' \<le> t"
    using bm_last_le_Some(3) [OF ok that(1) _ that(3)] that(2) by (auto simp: bm_get_None)
  show "bm_get m k = None" if "bm_last_le t m = None" "k \<le> t"
    using that bm_last_le_None [OF ok] by (auto simp: bm_get_None)
qed

section \<open>Sets ordered by a comparison\<close>

text \<open>\<open>BTreeSet::insert\<close>: an element that compares equal to a present one is not stored.\<close>

fun bs_insert :: "('a \<Rightarrow> 'a \<Rightarrow> rust_ordering) \<Rightarrow> 'a \<Rightarrow> 'a list \<Rightarrow> 'a list" where
  "bs_insert c x [] = [x]"
| "bs_insert c x (y # ys) =
     (case c x y of Less \<Rightarrow> x # y # ys | Equal \<Rightarrow> y # ys | Greater \<Rightarrow> y # bs_insert c x ys)"

definition bs_extend :: "('a \<Rightarrow> 'a \<Rightarrow> rust_ordering) \<Rightarrow> 'a list \<Rightarrow> 'a list \<Rightarrow> 'a list" where
  "bs_extend c xs s = fold (bs_insert c) xs s"

definition bs_ok :: "('a \<Rightarrow> 'a \<Rightarrow> rust_ordering) \<Rightarrow> 'a list \<Rightarrow> bool" where
  "bs_ok c s = sorted_wrt (\<lambda>a b. c a b = Less) s"

lemma set_bs_insert_subset: "set (bs_insert c x s) \<subseteq> insert x (set s)"
  by (induction s) (auto split: rust_ordering.splits)

lemma set_bs_insert_superset: "set s \<subseteq> set (bs_insert c x s)"
  by (induction s) (auto split: rust_ordering.splits)

context total_preorder_cmp
begin

lemma bs_ok_insert: "bs_ok c s \<Longrightarrow> bs_ok c (bs_insert c x s)"
  unfolding bs_ok_def
proof (induction s)
  case (Cons y ys)
  show ?case
  proof (cases "c x y")
    case Less
    then show ?thesis using Cons.prems less_trans by auto
  next
    case Equal
    then show ?thesis using Cons.prems by simp
  next
    case Greater
    then have "c y x = Less" using greater_less by blast
    then have "\<forall>z\<in>set (bs_insert c x ys). c y z = Less"
      using Cons.prems set_bs_insert_subset [of c x ys] by auto
    then show ?thesis using Greater Cons by simp
  qed
qed simp

lemma bs_insert_has: "\<exists>y\<in>set (bs_insert c x s). c x y = Equal"
  by (induction s) (auto split: rust_ordering.splits)

lemma bs_ok_extend: "bs_ok c s \<Longrightarrow> bs_ok c (bs_extend c xs s)"
  unfolding bs_extend_def by (induction xs arbitrary: s) (auto intro: bs_ok_insert)

end

context linear_cmp
begin

lemma set_bs_insert: "set (bs_insert c x s) = insert x (set s)"
  using set_bs_insert_subset [of c x s] set_bs_insert_superset [of s c x]
    bs_insert_has [of x s] equal_iff by auto

lemma set_bs_extend: "set (bs_extend c xs s) = set xs \<union> set s"
  unfolding bs_extend_def by (induction xs arbitrary: s) (auto simp: set_bs_insert)

end

end
