(* ===== verification/File_Naming.thy ===== *)
theory File_Naming
  imports Timeline_View Ordered_Containers
begin

text \<open>
  Base files and log files as their names denote them:
  \<open>src/crates/core/src/file_group/base_file/mod.rs\<close>,
  \<open>file_group/log_file/mod.rs\<close>, \<open>storage/file_metadata.rs\<close>. A base file is
  \<open>id_token_commit.extension\<close>, a log file \<open>.id_time.extension.version_token\<close>; both carry
  the completion time a timeline view knows of their commit. Log files are ordered by
  completion time, then request time.
\<close>

record FileMetadata =
  fm_name :: string
  fm_size :: nat
  fm_byte_size :: int
  fm_num_records :: int

definition file_metadata_new :: "string \<Rightarrow> nat \<Rightarrow> FileMetadata" where
  "file_metadata_new name sz =
     \<lparr>fm_name = name, fm_size = sz, fm_byte_size = 0, fm_num_records = 0\<rparr>"

section \<open>Base files\<close>

record BaseFile =
  bf_file_id :: string
  bf_write_token :: string
  bf_commit_timestamp :: string
  bf_completion_timestamp :: "string option"
  bf_extension :: string
  bf_file_metadata :: "FileMetadata option"

definition nth_opt :: "'a list \<Rightarrow> nat \<Rightarrow> 'a option" where
  "nth_opt xs i = (if i < length xs then Some (xs ! i) else None)"

definition base_parse_file_name ::
  "string \<Rightarrow> (string \<times> string \<times> string \<times> string) result" where
  "base_parse_file_name file_name =
     res_bind (ok_or FileGroupError (rsplit_once (CHR ''.'') file_name)) (\<lambda>(stem, extension).
       let parts = split_on (CHR ''_'') stem in
       res_bind (ok_or FileGroupError (nth_opt parts 0)) (\<lambda>file_id.
       res_bind (ok_or FileGroupError (nth_opt parts 1)) (\<lambda>write_token.
       res_bind (ok_or FileGroupError (nth_opt parts 2)) (\<lambda>commit_timestamp.
         Ok (file_id, write_token, commit_timestamp, extension)))))"

definition base_file_name :: "BaseFile \<Rightarrow> string" where
  "base_file_name b = bf_file_id b @ ''_'' @ bf_write_token b @ ''_'' @ bf_commit_timestamp b
     @ ''.'' @ bf_extension b"

definition base_set_completion_time :: "(string \<Rightarrow> string option) \<Rightarrow> BaseFile \<Rightarrow> BaseFile" where
  "base_set_completion_time completion b =
     b\<lparr>bf_completion_timestamp := completion (bf_commit_timestamp b)\<rparr>"

definition base_file_eq :: "BaseFile \<Rightarrow> BaseFile \<Rightarrow> bool" where
  "base_file_eq a b = (base_file_name a = base_file_name b)"

definition base_file_from_str :: "string \<Rightarrow> BaseFile result" where
  "base_file_from_str file_name =
     res_bind (base_parse_file_name file_name) (\<lambda>(i, w, c, e).
       Ok \<lparr>bf_file_id = i, bf_write_token = w, bf_commit_timestamp = c,
           bf_completion_timestamp = None, bf_extension = e, bf_file_metadata = None\<rparr>)"

definition base_file_try_from :: "FileMetadata \<Rightarrow> BaseFile result" where
  "base_file_try_from md =
     res_bind (base_parse_file_name (fm_name md)) (\<lambda>(i, w, c, e).
       Ok \<lparr>bf_file_id = i, bf_write_token = w, bf_commit_timestamp = c,
           bf_completion_timestamp = None, bf_extension = e, bf_file_metadata = Some md\<rparr>)"

section \<open>Log files\<close>

record LogFile =
  lf_file_id :: string
  lf_timestamp :: string
  lf_completion_timestamp :: "string option"
  lf_extension :: string
  lf_version :: nat
  lf_write_token :: string
  lf_file_metadata :: "FileMetadata option"

definition is_log_file_name :: "string \<Rightarrow> bool" where
  "is_log_file_name file_name = starts_with ''.'' file_name"

definition log_parse_file_name ::
  "string \<Rightarrow> (string \<times> string \<times> string \<times> nat \<times> string) result" where
  "log_parse_file_name file_name =
     (if \<not> starts_with ''.'' file_name then Err FileGroupError
      else res_bind (ok_or FileGroupError (split_once (CHR ''_'') (drop 1 file_name)))
        (\<lambda>(file_id, rest).
      res_bind (ok_or FileGroupError (rsplit_once (CHR ''_'') rest)) (\<lambda>(middle, token).
        let parts = split_on (CHR ''.'') middle in
        if length parts \<noteq> 3 then Err FileGroupError
        else
          (let ts = parts ! 0; ext = parts ! 1; ver = parts ! 2 in
           if file_id = [] \<or> ts = [] \<or> ext = [] \<or> ver = [] \<or> token = []
           then Err FileGroupError
           else res_bind (ok_or FileGroupError (parse_uint 32 ver)) (\<lambda>v.
             Ok (file_id, ts, ext, v, token))))))"

definition log_file_name :: "LogFile \<Rightarrow> string" where
  "log_file_name l = ''.'' @ lf_file_id l @ ''_'' @ lf_timestamp l @ ''.'' @ lf_extension l
     @ ''.'' @ show_nat (lf_version l) @ ''_'' @ lf_write_token l"

definition log_is_completed :: "LogFile \<Rightarrow> bool" where
  "log_is_completed l = (lf_completion_timestamp l \<noteq> None)"

definition log_set_completion_time :: "(string \<Rightarrow> string option) \<Rightarrow> LogFile \<Rightarrow> LogFile" where
  "log_set_completion_time completion l =
     l\<lparr>lf_completion_timestamp := completion (lf_timestamp l)\<rparr>"

definition log_file_from_str :: "string \<Rightarrow> LogFile result" where
  "log_file_from_str file_name =
     res_bind (log_parse_file_name file_name) (\<lambda>(i, t, e, v, w).
       Ok \<lparr>lf_file_id = i, lf_timestamp = t, lf_completion_timestamp = None,
           lf_extension = e, lf_version = v, lf_write_token = w, lf_file_metadata = None\<rparr>)"

definition log_file_try_from :: "FileMetadata \<Rightarrow> LogFile result" where
  "log_file_try_from md =
     res_bind (log_parse_file_name (fm_name md)) (\<lambda>(i, t, e, v, w).
       Ok \<lparr>lf_file_id = i, lf_timestamp = t, lf_completion_timestamp = None,
           lf_extension = e, lf_version = v, lf_write_token = w, lf_file_metadata = Some md\<rparr>)"

definition log_file_eq :: "LogFile \<Rightarrow> LogFile \<Rightarrow> bool" where
  "log_file_eq a b = (log_file_name a = log_file_name b)"

definition log_file_cmp :: "LogFile \<Rightarrow> LogFile \<Rightarrow> rust_ordering" where
  "log_file_cmp a b =
     (case (lf_completion_timestamp a, lf_completion_timestamp b) of
        (Some ct1, Some ct2) \<Rightarrow>
          then_with (then_with (cmp_lin ct1 ct2) (cmp_lin (lf_version a) (lf_version b)))
            (cmp_lin (lf_write_token a) (lf_write_token b))
      | (Some _, None) \<Rightarrow> Less
      | (None, Some _) \<Rightarrow> Greater
      | (None, None) \<Rightarrow>
          then_with (then_with (cmp_lin (lf_timestamp a) (lf_timestamp b))
              (cmp_lin (lf_version a) (lf_version b)))
            (cmp_lin (lf_write_token a) (lf_write_token b)))"

section \<open>The order on log files\<close>

text \<open>The comparison is the lexicographic one on this key.\<close>

definition log_sort_key :: "LogFile \<Rightarrow> nat \<times> string \<times> nat \<times> string" where
  "log_sort_key l =
     (case lf_completion_timestamp l of
        Some ct \<Rightarrow> (0, ct, lf_version l, lf_write_token l)
      | None \<Rightarrow> (1, lf_timestamp l, lf_version l, lf_write_token l))"

definition cmp_prod ::
  "('a \<Rightarrow> 'a \<Rightarrow> rust_ordering) \<Rightarrow> ('b \<Rightarrow> 'b \<Rightarrow> rust_ordering) \<Rightarrow> 'a \<times> 'b \<Rightarrow> 'a \<times> 'b
   \<Rightarrow> rust_ordering" where
  "cmp_prod c d x y = then_with (c (fst x) (fst y)) (d (snd x) (snd y))"

lemma linear_cmp_cmp_prod: "linear_cmp c \<Longrightarrow> linear_cmp d \<Longrightarrow> linear_cmp (cmp_prod c d)"
  using linear_cmp_prod by (simp add: cmp_prod_def [abs_def])

lemma log_file_cmp_key:
  "log_file_cmp a b =
     cmp_prod cmp_lin (cmp_prod cmp_lin (cmp_prod cmp_lin cmp_lin))
       (log_sort_key a) (log_sort_key b)"
proof -
  have less: "cmp_lin 0 (Suc 0) = Less" and greater: "cmp_lin (Suc 0) 0 = Greater" by simp_all
  show ?thesis
    by (cases "lf_completion_timestamp a"; cases "lf_completion_timestamp b")
      (simp_all add: log_file_cmp_def log_sort_key_def cmp_prod_def less greater del: cmp_lin_iff)
qed

lemma log_file_cmp_preorder: "total_preorder_cmp log_file_cmp"
proof -
  have "linear_cmp (cmp_prod (cmp_lin :: nat \<Rightarrow> _) (cmp_prod (cmp_lin :: string \<Rightarrow> _)
      (cmp_prod (cmp_lin :: nat \<Rightarrow> _) (cmp_lin :: string \<Rightarrow> _))))"
    by (intro linear_cmp_cmp_prod linear_cmp_cmp_lin)
  from total_preorder_cmp_key [OF linear_cmp.axioms(1) [OF this], of log_sort_key]
  show ?thesis unfolding log_file_cmp_key [abs_def] .
qed

interpretation lf: total_preorder_cmp log_file_cmp
  by (rule log_file_cmp_preorder)

lemma log_file_cmp_Equal_iff: "log_file_cmp a b = Equal \<longleftrightarrow> log_sort_key a = log_sort_key b"
  by (auto simp: log_file_cmp_key cmp_prod_def prod_eq_iff)

section \<open>Names that parse\<close>

definition base_file_wf :: "BaseFile \<Rightarrow> bool" where
  "base_file_wf b =
     (CHR ''_'' \<notin> set (bf_file_id b) \<and> CHR ''_'' \<notin> set (bf_write_token b) \<and>
      CHR ''_'' \<notin> set (bf_commit_timestamp b) \<and> CHR ''.'' \<notin> set (bf_extension b))"

definition log_file_wf :: "LogFile \<Rightarrow> bool" where
  "log_file_wf l =
     (lf_file_id l \<noteq> [] \<and> CHR ''_'' \<notin> set (lf_file_id l) \<and>
      lf_timestamp l \<noteq> [] \<and> CHR ''.'' \<notin> set (lf_timestamp l) \<and>
      lf_extension l \<noteq> [] \<and> CHR ''.'' \<notin> set (lf_extension l) \<and>
      lf_write_token l \<noteq> [] \<and> CHR ''_'' \<notin> set (lf_write_token l) \<and> lf_version l < 2 ^ 32)"

lemma show_nat_no_dot [simp]: "CHR ''.'' \<notin> set (show_nat n)"
  by (rule show_nat_no_char) (simp add: is_digit_def)

lemma log_parse_file_name_shape:
  assumes "log_parse_file_name n = Ok (i, t, e, v, w)"
  shows "\<exists>ver. n = ''.'' @ i @ ''_'' @ t @ ''.'' @ e @ ''.'' @ ver @ ''_'' @ w \<and>
    parse_uint 32 ver = Some v \<and> CHR ''_'' \<notin> set i \<and> CHR ''_'' \<notin> set w \<and>
    i \<noteq> [] \<and> t \<noteq> [] \<and> e \<noteq> [] \<and> w \<noteq> []"
proof -
  from assms obtain rest middle where
    n: "starts_with ''.'' n" and
    1: "split_once (CHR ''_'') (drop 1 n) = Some (i, rest)" and
    2: "rsplit_once (CHR ''_'') rest = Some (middle, w)" and
    3: "length (split_on (CHR ''.'') middle) = 3" and
    4: "t = split_on (CHR ''.'') middle ! 0" "e = split_on (CHR ''.'') middle ! 1"
       "parse_uint 32 (split_on (CHR ''.'') middle ! 2) = Some v"
       "i \<noteq> []" "t \<noteq> []" "e \<noteq> []" "w \<noteq> []"
    unfolding log_parse_file_name_def Let_def
    by (simp add: res_bind_Inr_iff split: if_splits)
  obtain ver where p: "split_on (CHR ''.'') middle = [t, e, ver]"
    using 3 4(1,2) by (cases "split_on (CHR ''.'') middle" rule: remdups_adj.cases)
      (auto simp: numeral_3_eq_3 length_Suc_conv)
  have "middle = join_with ''.'' [t, e, ver]"
    using join_split_on [of "CHR ''.''" middle] p by simp
  then have m: "middle = t @ ''.'' @ e @ ''.'' @ ver" by simp
  obtain s where s: "n = ''.'' @ s" using n by (auto simp: starts_with_iff)
  have "s = i @ CHR ''_'' # rest" "CHR ''_'' \<notin> set i"
    using split_once_Some_iff [THEN iffD1, OF 1] s by auto
  moreover have "rest = middle @ CHR ''_'' # w" "CHR ''_'' \<notin> set w"
    using rsplit_once_Some_iff [THEN iffD1, OF 2] by auto
  moreover have "parse_uint 32 ver = Some v" using 4(3) p by simp
  ultimately show ?thesis using 4(4-) s m by auto
qed

section \<open>Files for the witnesses\<close>

definition sample_base :: BaseFile where
  "sample_base = \<lparr>bf_file_id = ''fg1'', bf_write_token = ''0-1-2'', bf_commit_timestamp = ''20240101'',
     bf_completion_timestamp = None, bf_extension = ''parquet'', bf_file_metadata = None\<rparr>"

definition sample_log :: "string \<Rightarrow> nat \<Rightarrow> LogFile" where
  "sample_log ts v = \<lparr>lf_file_id = ''fg1'', lf_timestamp = ts, lf_completion_timestamp = None,
     lf_extension = ''log'', lf_version = v, lf_write_token = ''0-1-2'', lf_file_metadata = None\<rparr>"

section \<open>Properties\<close>

text \<open>The name of a base file parses back to its four parts.\<close>

theorem base_file_round_trip:
  assumes "base_file_wf b"
  shows "base_file_from_str (base_file_name b) =
    Ok (b\<lparr>bf_completion_timestamp := None, bf_file_metadata := None\<rparr>)"
proof -
  let ?stem = "bf_file_id b @ CHR ''_'' # bf_write_token b @ CHR ''_'' # bf_commit_timestamp b"
  have "base_file_name b = ?stem @ CHR ''.'' # bf_extension b"
    by (simp add: base_file_name_def)
  then have "rsplit_once (CHR ''.'') (base_file_name b) = Some (?stem, bf_extension b)"
    using assms by (simp add: base_file_wf_def rsplit_once_Some_iff)
  moreover have "split_on (CHR ''_'') ?stem =
      [bf_file_id b, bf_write_token b, bf_commit_timestamp b]"
    using assms by (simp add: base_file_wf_def)
  ultimately show ?thesis
    by (simp add: base_file_from_str_def base_parse_file_name_def nth_opt_def)
qed

theorem base_file_round_trip_witness:
  "base_file_from_str (base_file_name sample_base) = Ok sample_base"
  using base_file_round_trip [of sample_base] by (simp add: base_file_wf_def sample_base_def)

text \<open>The name of a log file parses back to its five parts, the version as a
  number.\<close>

theorem log_file_round_trip:
  assumes "log_file_wf l"
  shows "log_file_from_str (log_file_name l) =
    Ok (l\<lparr>lf_completion_timestamp := None, lf_file_metadata := None\<rparr>)"
proof -
  let ?middle = "lf_timestamp l @ CHR ''.'' # lf_extension l @ CHR ''.'' # show_nat (lf_version l)"
  have n: "drop 1 (log_file_name l) =
      lf_file_id l @ CHR ''_'' # ?middle @ CHR ''_'' # lf_write_token l"
    and s: "starts_with ''.'' (log_file_name l)"
    by (simp_all add: log_file_name_def starts_with_def)
  have "split_once (CHR ''_'') (drop 1 (log_file_name l)) =
      Some (lf_file_id l, ?middle @ CHR ''_'' # lf_write_token l)"
    unfolding n using assms by (simp add: log_file_wf_def)
  moreover have "rsplit_once (CHR ''_'') (?middle @ CHR ''_'' # lf_write_token l) =
      Some (?middle, lf_write_token l)"
    using assms by (intro rsplit_once_append) (simp add: log_file_wf_def)
  moreover have "split_on (CHR ''.'') ?middle =
      [lf_timestamp l, lf_extension l, show_nat (lf_version l)]"
    using assms by (simp add: log_file_wf_def)
  ultimately show ?thesis
    using assms s by (simp add: log_file_from_str_def log_parse_file_name_def log_file_wf_def)
qed

theorem log_file_round_trip_witness:
  "log_file_from_str (log_file_name (sample_log ''20240101'' 12)) = Ok (sample_log ''20240101'' 12)"
  using log_file_round_trip [of "sample_log ''20240101'' 12"]
  by (simp add: log_file_wf_def sample_log_def)

end
