(* ===== verification/File_Group.thy ===== *)
theory File_Group
  imports File_Naming
begin

text \<open>
  File slices and file groups: \<open>src/crates/core/src/file_group/file_slice.rs\<close> and
  \<open>file_group/mod.rs\<close>. A group keeps its slices in a \<open>BTreeMap\<close> keyed by base instant;
  a log file is placed in the slice of the greatest key at or below its completion time
  (its own timestamp where none is tracked), or starts a log-only slice. Column statistics
  of a slice are not modelled.
\<close>

section \<open>File slices\<close>

record FileSlice =
  fs_base_file :: "BaseFile option"
  fs_file_id :: string
  fs_creation_instant_time :: string
  fs_log_files :: "LogFile list" \<comment> \<open>a \<open>BTreeSet\<close>\<close>
  fs_partition_path :: string

definition file_slice_new :: "BaseFile \<Rightarrow> string \<Rightarrow> FileSlice" where
  "file_slice_new b part =
     \<lparr>fs_base_file = Some b, fs_file_id = bf_file_id b,
      fs_creation_instant_time = bf_commit_timestamp b, fs_log_files = [],
      fs_partition_path = part\<rparr>"

definition new_log_only :: "string \<Rightarrow> string \<Rightarrow> string \<Rightarrow> FileSlice" where
  "new_log_only file_id creation part =
     \<lparr>fs_base_file = None, fs_file_id = file_id, fs_creation_instant_time = creation,
      fs_log_files = [], fs_partition_path = part\<rparr>"

definition has_log_file :: "FileSlice \<Rightarrow> bool" where
  "has_log_file s = (fs_log_files s \<noteq> [])"

definition base_file_opt_eq :: "BaseFile option \<Rightarrow> BaseFile option \<Rightarrow> bool" where
  "base_file_opt_eq a b =
     (case (a, b) of (None, None) \<Rightarrow> True | (Some x, Some y) \<Rightarrow> base_file_eq x y | _ \<Rightarrow> False)"

definition file_slice_eq :: "FileSlice \<Rightarrow> FileSlice \<Rightarrow> bool" where
  "file_slice_eq a b =
     (base_file_opt_eq (fs_base_file a) (fs_base_file b) \<and>
      fs_partition_path a = fs_partition_path b \<and> fs_file_id a = fs_file_id b \<and>
      fs_creation_instant_time a = fs_creation_instant_time b)"

definition file_slice_insert_log :: "LogFile \<Rightarrow> FileSlice \<Rightarrow> FileSlice" where
  "file_slice_insert_log l s =
     s\<lparr>fs_log_files := bs_insert log_file_cmp l (fs_log_files s)\<rparr>"

definition file_slice_merge :: "FileSlice \<Rightarrow> FileSlice \<Rightarrow> FileSlice result" where
  "file_slice_merge s other =
     (if \<not> file_slice_eq s other then Err FileGroupError
      else Ok (s\<lparr>fs_log_files := bs_extend log_file_cmp (fs_log_files other) (fs_log_files s)\<rparr>))"

definition relative_path_for_file :: "FileSlice \<Rightarrow> string \<Rightarrow> string result" where
  "relative_path_for_file s file_name = Ok (path_push (fs_partition_path s) file_name)"

definition base_file_relative_path :: "FileSlice \<Rightarrow> string option result" where
  "base_file_relative_path s =
     (case fs_base_file s of None \<Rightarrow> Ok None
      | Some b \<Rightarrow> res_bind (relative_path_for_file s (base_file_name b)) (\<lambda>p. Ok (Some p)))"

definition log_file_relative_path :: "FileSlice \<Rightarrow> LogFile \<Rightarrow> string result" where
  "log_file_relative_path s l = relative_path_for_file s (log_file_name l)"

text \<open>Sizes are 64-bit and wrap, as release builds do.\<close>

definition total_size_bytes :: "FileSlice \<Rightarrow> nat" where
  "total_size_bytes s =
     ((case fs_base_file s of None \<Rightarrow> 0
       | Some b \<Rightarrow> (case bf_file_metadata b of None \<Rightarrow> 0 | Some m \<Rightarrow> fm_size m)) +
      sum_list (List.map_filter (\<lambda>l. map_option fm_size (lf_file_metadata l))
        (fs_log_files s))) mod 2 ^ 64"

fun log_size_fold :: "nat \<Rightarrow> LogFile list \<Rightarrow> nat option" where
  "log_size_fold acc [] = Some acc"
| "log_size_fold acc (l # ls) =
     (case lf_file_metadata l of None \<Rightarrow> None
      | Some m \<Rightarrow> log_size_fold ((acc + fm_size m) mod 2 ^ 64) ls)"

definition log_size_bytes :: "FileSlice \<Rightarrow> nat option" where
  "log_size_bytes s = log_size_fold 0 (fs_log_files s)"

section \<open>File groups\<close>

record FileGroup =
  fg_file_id :: string
  fg_partition_path :: string
  fg_file_slices :: "(string, FileSlice) btree_map"

definition file_group_new :: "string \<Rightarrow> string \<Rightarrow> FileGroup" where
  "file_group_new file_id part =
     \<lparr>fg_file_id = file_id, fg_partition_path = part, fg_file_slices = []\<rparr>"

definition file_group_eq :: "FileGroup \<Rightarrow> FileGroup \<Rightarrow> bool" where
  "file_group_eq a b =
     (fg_file_id a = fg_file_id b \<and> fg_partition_path a = fg_partition_path b)"

definition add_base_file :: "FileGroup \<Rightarrow> BaseFile \<Rightarrow> FileGroup result" where
  "add_base_file g b =
     (if bf_file_id b \<noteq> fg_file_id g then Err FileGroupError
      else let key = bf_commit_timestamp b in
        if bm_get (fg_file_slices g) key \<noteq> None then Err FileGroupError
        else Ok (g\<lparr>fg_file_slices :=
          bm_insert key (file_slice_new b (fg_partition_path g)) (fg_file_slices g)\<rparr>))"

definition add_base_files :: "FileGroup \<Rightarrow> BaseFile list \<Rightarrow> FileGroup result" where
  "add_base_files g bs = res_fold add_base_file g bs"

definition add_base_file_from_name :: "FileGroup \<Rightarrow> string \<Rightarrow> FileGroup result" where
  "add_base_file_from_name g n = res_bind (base_file_from_str n) (add_base_file g)"

definition new_with_base_file_name :: "string \<Rightarrow> string \<Rightarrow> FileGroup result" where
  "new_with_base_file_name n part =
     res_bind (base_file_from_str n) (\<lambda>b.
       add_base_file (file_group_new (bf_file_id b) part) b)"

definition merge_slice :: "FileGroup \<Rightarrow> string \<times> FileSlice \<Rightarrow> FileGroup result" where
  "merge_slice g e =
     (let (key, other) = e in
      case bm_get (fg_file_slices g) key of
        Some existing \<Rightarrow>
          res_bind (file_slice_merge existing other) (\<lambda>s.
            Ok (g\<lparr>fg_file_slices := bm_insert key s (fg_file_slices g)\<rparr>))
      | None \<Rightarrow> Ok (g\<lparr>fg_file_slices := bm_insert key other (fg_file_slices g)\<rparr>))"

definition file_group_merge :: "FileGroup \<Rightarrow> FileGroup \<Rightarrow> FileGroup result" where
  "file_group_merge g other =
     (if \<not> file_group_eq g other then Err FileGroupError
      else res_fold merge_slice g (fg_file_slices other))"

text \<open>The time a log file is placed by.\<close>

definition placement_time :: "LogFile \<Rightarrow> string" where
  "placement_time l =
     (case lf_completion_timestamp l of Some ct \<Rightarrow> ct | None \<Rightarrow> lf_timestamp l)"

text \<open>\<open>FileGroup::add_log_file\<close>. With a completion time, a log-only slice is reused when
  its key is taken (\<open>or_insert_with\<close>); without one the key is new by the failed search.\<close>

definition add_log_file :: "FileGroup \<Rightarrow> LogFile \<Rightarrow> FileGroup result" where
  "add_log_file g l =
     (if lf_file_id l \<noteq> fg_file_id g then Err FileGroupError
      else case lf_completion_timestamp l of
        Some ct \<Rightarrow>
          (case bm_last_le ct (fg_file_slices g) of
             Some (k, s) \<Rightarrow>
               Ok (g\<lparr>fg_file_slices :=
                 bm_insert k (file_slice_insert_log l s) (fg_file_slices g)\<rparr>)
           | None \<Rightarrow>
               let key = lf_timestamp l;
                   s = (case bm_get (fg_file_slices g) key of Some s \<Rightarrow> s
                        | None \<Rightarrow> new_log_only (fg_file_id g) key (fg_partition_path g))
               in Ok (g\<lparr>fg_file_slices :=
                    bm_insert key (file_slice_insert_log l s) (fg_file_slices g)\<rparr>))
      | None \<Rightarrow>
          (let ts = lf_timestamp l in
           case bm_last_le ts (fg_file_slices g) of
             Some (k, s) \<Rightarrow>
               Ok (g\<lparr>fg_file_slices :=
                 bm_insert k (file_slice_insert_log l s) (fg_file_slices g)\<rparr>)
           | None \<Rightarrow>
               Ok (g\<lparr>fg_file_slices :=
                 bm_insert ts (file_slice_insert_log l
                     (new_log_only (fg_file_id g) ts (fg_partition_path g)))
                   (fg_file_slices g)\<rparr>)))"

definition add_log_files :: "FileGroup \<Rightarrow> LogFile list \<Rightarrow> FileGroup result" where
  "add_log_files g ls = res_fold add_log_file g (sort_by log_file_cmp ls)"

definition add_log_file_from_name :: "FileGroup \<Rightarrow> string \<Rightarrow> FileGroup result" where
  "add_log_file_from_name g n = res_bind (log_file_from_str n) (add_log_file g)"

definition add_log_files_from_names :: "FileGroup \<Rightarrow> string list \<Rightarrow> FileGroup result" where
  "add_log_files_from_names g ns = res_bind (res_map log_file_from_str ns) (add_log_files g)"

definition get_file_slice_as_of :: "FileGroup \<Rightarrow> string \<Rightarrow> FileSlice option" where
  "get_file_slice_as_of g ts = map_option snd (bm_last_le ts (fg_file_slices g))"

section \<open>Well-formed groups\<close>

definition slice_ok :: "string \<Rightarrow> string \<Rightarrow> string \<Rightarrow> FileSlice \<Rightarrow> bool" where
  "slice_ok file_id part key s =
     (fs_file_id s = file_id \<and> fs_partition_path s = part \<and>
      fs_creation_instant_time s = key \<and>
      (case fs_base_file s of None \<Rightarrow> True
       | Some b \<Rightarrow> bf_file_id b = file_id \<and> bf_commit_timestamp b = key) \<and>
      bs_ok log_file_cmp (fs_log_files s) \<and>
      list_all (\<lambda>l. lf_file_id l = file_id) (fs_log_files s))"

definition file_group_ok :: "FileGroup \<Rightarrow> bool" where
  "file_group_ok g =
     (bm_ok (fg_file_slices g) \<and>
      list_all (\<lambda>(k, s). slice_ok (fg_file_id g) (fg_partition_path g) k s) (fg_file_slices g))"

lemma file_group_okD:
  "file_group_ok g \<Longrightarrow> bm_get (fg_file_slices g) k = Some s \<Longrightarrow>
   slice_ok (fg_file_id g) (fg_partition_path g) k s"
  by (auto simp: file_group_ok_def bm_get_in list_all_iff)

lemma file_group_ok_bm [simp]: "file_group_ok g \<Longrightarrow> bm_ok (fg_file_slices g)"
  by (simp add: file_group_ok_def)

lemma file_group_ok_new [simp]: "file_group_ok (file_group_new i p)"
  by (simp add: file_group_ok_def file_group_new_def)

lemma set_bm_insert_subset: "set (bm_insert k v m) \<subseteq> insert (k, v) (set m)"
  by (induction k v m rule: bm_insert.induct) auto

lemma file_group_ok_insert:
  "file_group_ok g \<Longrightarrow> slice_ok (fg_file_id g) (fg_partition_path g) k s \<Longrightarrow>
   file_group_ok (g\<lparr>fg_file_slices := bm_insert k s (fg_file_slices g)\<rparr>)"
  using set_bm_insert_subset [of k s "fg_file_slices g"]
  by (auto simp: file_group_ok_def list_all_iff)

lemma slice_ok_new_base:
  "slice_ok (bf_file_id b) p (bf_commit_timestamp b) (file_slice_new b p)"
  by (simp add: slice_ok_def file_slice_new_def bs_ok_def)

lemma slice_ok_new_log_only: "slice_ok i p k (new_log_only i k p)"
  by (simp add: slice_ok_def new_log_only_def bs_ok_def)

lemma slice_ok_insert_log:
  assumes "slice_ok i p k s" "lf_file_id l = i"
  shows "slice_ok i p k (file_slice_insert_log l s)"
  using assms set_bs_insert_subset [of log_file_cmp l "fs_log_files s"]
  by (auto simp: slice_ok_def file_slice_insert_log_def list_all_iff intro: lf.bs_ok_insert)

lemma bs_extend_subset: "set (bs_extend c xs s) \<subseteq> set xs \<union> set s"
  unfolding bs_extend_def
  by (induction xs arbitrary: s) (use set_bs_insert_subset in fastforce)+

lemma slice_ok_merge:
  assumes "slice_ok i p k s" "slice_ok i p k s'" "file_slice_merge s s' = Ok t"
  shows "slice_ok i p k t"
  using assms bs_extend_subset [of log_file_cmp "fs_log_files s'" "fs_log_files s"]
  by (auto simp: file_slice_merge_def slice_ok_def list_all_iff intro: lf.bs_ok_extend
      split: if_splits)

lemma same_group:
  "add_base_file g b = Ok g' \<Longrightarrow>
     fg_file_id g' = fg_file_id g \<and> fg_partition_path g' = fg_partition_path g"
  "add_log_file g l = Ok g' \<Longrightarrow>
     fg_file_id g' = fg_file_id g \<and> fg_partition_path g' = fg_partition_path g"
  "merge_slice g e = Ok g' \<Longrightarrow>
     fg_file_id g' = fg_file_id g \<and> fg_partition_path g' = fg_partition_path g"
  by (auto simp: add_base_file_def add_log_file_def merge_slice_def Let_def res_bind_Inr_iff
      split: if_splits option.splits prod.splits)

lemma file_group_ok_add_base_file:
  "file_group_ok g \<Longrightarrow> add_base_file g b = Ok g' \<Longrightarrow> file_group_ok g'"
  using slice_ok_new_base [of b "fg_partition_path g"]
  by (auto simp: add_base_file_def Let_def file_group_ok_insert split: if_splits)

lemma file_group_ok_add_log_file:
  assumes "file_group_ok g" "add_log_file g l = Ok g'"
  shows "file_group_ok g'"
proof -
  have i: "lf_file_id l = fg_file_id g" using assms(2)
    by (auto simp: add_log_file_def split: if_splits)
  have found: "slice_ok (fg_file_id g) (fg_partition_path g) k (file_slice_insert_log l s)"
    if "bm_last_le t (fg_file_slices g) = Some (k, s)" for t k s
    using bm.last_le_get [OF file_group_ok_bm [OF assms(1)] that] i
    by (intro slice_ok_insert_log file_group_okD [OF assms(1)]) auto
  have got: "slice_ok (fg_file_id g) (fg_partition_path g) k (file_slice_insert_log l s)"
    if "bm_get (fg_file_slices g) k = Some s" for k s
    using that i by (intro slice_ok_insert_log file_group_okD [OF assms(1)]) auto
  have fresh: "slice_ok (fg_file_id g) (fg_partition_path g) k
      (file_slice_insert_log l (new_log_only (fg_file_id g) k (fg_partition_path g)))" for k
    using i by (intro slice_ok_insert_log slice_ok_new_log_only) simp
  show ?thesis
    using assms(2)
    by (auto simp: add_log_file_def Let_def split: if_splits option.splits prod.splits
        intro!: file_group_ok_insert [OF assms(1)] intro: found got fresh)
qed

lemma file_group_ok_merge_slice:
  assumes "file_group_ok g" "slice_ok (fg_file_id g) (fg_partition_path g) k s"
    "merge_slice g (k, s) = Ok g'"
  shows "file_group_ok g'"
proof (cases "bm_get (fg_file_slices g) k")
  case None
  then show ?thesis using assms by (auto simp: merge_slice_def intro: file_group_ok_insert)
next
  case (Some t)
  then obtain u where "file_slice_merge t s = Ok u"
    "g' = g\<lparr>fg_file_slices := bm_insert k u (fg_file_slices g)\<rparr>"
    using assms(3) by (auto simp: merge_slice_def res_bind_Inr_iff)
  then show ?thesis
    using slice_ok_merge [OF file_group_okD [OF assms(1) Some] assms(2)]
    by (auto intro: file_group_ok_insert [OF assms(1)])
qed

lemma res_fold_merge_ok:
  assumes "file_group_ok g" "res_fold merge_slice g es = Ok g'"
    "list_all (\<lambda>(k, s). slice_ok (fg_file_id g) (fg_partition_path g) k s) es"
  shows "file_group_ok g'"
  using assms
proof (induction es arbitrary: g)
  case (Cons e es)
  obtain k s where e: "e = (k, s)" by force
  from Cons.prems(2) obtain h where h: "merge_slice g (k, s) = Ok h"
    "res_fold merge_slice h es = Ok g'"
    by (auto simp: e res_bind_Inr_iff)
  have "file_group_ok h"
    using file_group_ok_merge_slice [OF Cons.prems(1) _ h(1)] Cons.prems(3) by (simp add: e)
  moreover have "fg_file_id h = fg_file_id g \<and> fg_partition_path h = fg_partition_path g"
    using same_group(3) [OF h(1)] .
  ultimately show ?case using Cons.IH [OF _ h(2)] Cons.prems(3) by simp
qed simp

section \<open>Where log files go\<close>

definition slices_with_log :: "FileGroup \<Rightarrow> LogFile \<Rightarrow> (string, FileSlice) btree_map" where
  "slices_with_log g l =
     (case bm_last_le (placement_time l) (fg_file_slices g) of
        Some (k, s) \<Rightarrow> bm_insert k (file_slice_insert_log l s) (fg_file_slices g)
      | None \<Rightarrow> bm_insert (lf_timestamp l)
          (file_slice_insert_log l
            (new_log_only (fg_file_id g) (lf_timestamp l) (fg_partition_path g)))
          (fg_file_slices g))"

lemma add_log_file_slices:
  assumes "file_group_ok g" "lf_file_id l = fg_file_id g" "lf_timestamp l \<le> placement_time l"
  shows "add_log_file g l = Ok (g\<lparr>fg_file_slices := slices_with_log g l\<rparr>)"
proof -
  have free: "bm_get (fg_file_slices g) (lf_timestamp l) = None"
    if "bm_last_le (placement_time l) (fg_file_slices g) = None"
    using bm.last_le_none [OF file_group_ok_bm [OF assms(1)] that assms(3)] .
  show ?thesis
    by (cases "lf_completion_timestamp l"; cases "bm_last_le (placement_time l) (fg_file_slices g)")
      (use assms(2) free in \<open>auto simp: add_log_file_def slices_with_log_def
         placement_time_def Let_def\<close>)
qed

definition placed :: "FileGroup \<Rightarrow> LogFile \<Rightarrow> bool" where
  "placed g l =
     (case bm_last_le (placement_time l) (fg_file_slices g) of
        None \<Rightarrow> False
      | Some (k, s) \<Rightarrow> list_ex (\<lambda>x. log_file_cmp l x = Equal) (fs_log_files s))"

lemma placed_insert_log:
  "list_ex (\<lambda>x. log_file_cmp l x = Equal) (fs_log_files (file_slice_insert_log l s))"
  "list_ex (\<lambda>x. log_file_cmp m x = Equal) (fs_log_files s) \<Longrightarrow>
   list_ex (\<lambda>x. log_file_cmp m x = Equal) (fs_log_files (file_slice_insert_log l s))"
  using lf.bs_insert_has [of l "fs_log_files s"]
    set_bs_insert_superset [of "fs_log_files s" log_file_cmp l]
  by (auto simp: file_slice_insert_log_def list_ex_iff)

text \<open>A fresh key lies below every key a search with a result can find, so a new log-only
  slice never captures a log file that is placed already.\<close>

lemma last_le_fresh_key:
  assumes "bm_ok m" "bm_last_le t m = None" "k0 \<le> t" "bm_last_le t' m = Some (k, s)"
  shows "bm_last_le t' (bm_insert k0 v m) = Some (k, s)"
proof -
  have k: "bm_get m k = Some s" "k \<le> t'" using bm.last_le_get [OF assms(1,4)] by auto
  have "\<not> k \<le> t" using bm.last_le_none [OF assms(1,2)] k(1) by auto
  then have lt: "k0 < k" using assms(3) by simp
  show ?thesis
    using k lt bm.last_le_greatest [OF assms(1,4)]
    by (intro bm.last_leI bm_ok_insert assms(1)) (auto simp: assms(1) split: if_splits)
qed

lemma last_le_insert_self:
  assumes "bm_ok m" "bm_last_le t m = None" "k0 \<le> t"
  shows "bm_last_le t (bm_insert k0 v m) = Some (k0, v)"
  using bm.last_le_none [OF assms(1,2)]
  by (intro bm.last_leI bm_ok_insert assms) (auto simp: assms(1) split: if_splits)

lemma placed_step:
  assumes ok: "file_group_ok g" and add: "add_log_file g l = Ok g'"
    and t: "lf_timestamp l \<le> placement_time l"
  shows "placed g' l" and "placed g m \<Longrightarrow> placed g' m"
proof -
  note bm_ok = file_group_ok_bm [OF ok]
  have id: "lf_file_id l = fg_file_id g" using add by (auto simp: add_log_file_def split: if_splits)
  have g': "fg_file_slices g' = slices_with_log g l"
    using add_log_file_slices [OF ok id t] add by auto
  have "placed g' l \<and> (placed g m \<longrightarrow> placed g' m)"
  proof (cases "bm_last_le (placement_time l) (fg_file_slices g)")
    case None
    let ?s = "file_slice_insert_log l
      (new_log_only (fg_file_id g) (lf_timestamp l) (fg_partition_path g))"
    have "fg_file_slices g' = bm_insert (lf_timestamp l) ?s (fg_file_slices g)"
      using None by (simp add: g' slices_with_log_def)
    moreover from this have "placed g' l"
      using last_le_insert_self [OF bm_ok None t, of ?s] placed_insert_log(1)
      by (simp add: placed_def)
    moreover have "placed g' m" if "placed g m"
      using that calculation(1) last_le_fresh_key [OF bm_ok None t, of "placement_time m" _ _ ?s]
      by (cases "bm_last_le (placement_time m) (fg_file_slices g)") (auto simp: placed_def)
    ultimately show ?thesis by blast
  next
    case (Some e)
    obtain k s where e: "e = (k, s)" by force
    let ?m = "bm_insert k (file_slice_insert_log l s) (fg_file_slices g)"
    have slices: "fg_file_slices g' = ?m"
      using Some by (simp add: g' slices_with_log_def e)
    have get: "bm_get (fg_file_slices g) k = Some s"
      using bm.last_le_get [OF bm_ok] Some e by auto
    have found: "\<exists>s''. bm_last_le t' ?m = Some (k', s'') \<and>
        (s'' = s' \<or> s' = s \<and> s'' = file_slice_insert_log l s) \<and>
        (k' = k \<longrightarrow> s'' = file_slice_insert_log l s)"
      if "bm_last_le t' (fg_file_slices g) = Some (k', s')" for t' k' s'
    proof -
      have "map_option fst (bm_last_le t' ?m) = Some k'"
        using bm.last_le_update_key [OF bm_ok, of k t'] get that by simp
      then obtain s'' where s'': "bm_last_le t' ?m = Some (k', s'')" by auto
      have m: "bm_get ?m k' = Some s''"
        using bm.last_le_get [OF bm_ok_insert [OF bm_ok] s''] by simp
      have g: "bm_get (fg_file_slices g) k' = Some s'"
        using bm.last_le_get [OF bm_ok that] by simp
      show ?thesis
      proof (cases "k' = k")
        case True
        then have "s'' = file_slice_insert_log l s" using m bm_ok by simp
        moreover have "s' = s" using g get True by simp
        ultimately show ?thesis using s'' by simp
      next
        case False
        then have "s'' = s'" using m g bm_ok by simp
        then show ?thesis using s'' False by simp
      qed
    qed
    have "bm_last_le (placement_time l) ?m = Some (k, file_slice_insert_log l s)"
      using found [of "placement_time l" k s] Some e by auto
    then have "placed g' l" using placed_insert_log(1) by (simp add: placed_def slices)
    moreover have "placed g' m" if pm: "placed g m"
    proof -
      obtain k' s' where ks': "bm_last_le (placement_time m) (fg_file_slices g) = Some (k', s')"
        "list_ex (\<lambda>x. log_file_cmp m x = Equal) (fs_log_files s')"
        using pm by (auto simp: placed_def split: option.splits)
      then obtain s'' where "bm_last_le (placement_time m) ?m = Some (k', s'')"
        "s'' = s' \<or> s' = s \<and> s'' = file_slice_insert_log l s"
        using found by blast
      then show ?thesis using ks'(2) placed_insert_log(2) by (auto simp: placed_def slices)
    qed
    ultimately show ?thesis by blast
  qed
  then show "placed g' l" and "placed g m \<Longrightarrow> placed g' m" by auto
qed

lemma placed_fold:
  assumes "file_group_ok g" "res_fold add_log_file g ls = Ok g'"
    "list_all (\<lambda>l. lf_timestamp l \<le> placement_time l) ls"
  shows "file_group_ok g' \<and> (\<forall>l. l \<in> set ls \<or> placed g l \<longrightarrow> placed g' l)"
  using assms
proof (induction ls arbitrary: g)
  case (Cons l ls)
  from Cons.prems(2) obtain h where h: "add_log_file g l = Ok h"
    "res_fold add_log_file h ls = Ok g'"
    by (auto simp: res_bind_Inr_iff)
  have t: "lf_timestamp l \<le> placement_time l" using Cons.prems(3) by simp
  have "file_group_ok h" by (rule file_group_ok_add_log_file [OF Cons.prems(1) h(1)])
  then show ?case
    using Cons.IH [OF _ h(2)] Cons.prems(3) placed_step [OF Cons.prems(1) h(1) t] by auto
qed simp

text \<open>One slice is enough: once a slice exists at or below every remaining placement time,
  no other slice is created.\<close>

lemma single_slice_fold:
  assumes "fg_file_slices g = [(k, s)]" "res_fold add_log_file g ls = Ok g'"
    "list_all (\<lambda>l. k \<le> placement_time l) ls"
  shows "\<exists>s'. fg_file_slices g' = [(k, s')] \<and> fs_base_file s' = fs_base_file s"
  using assms
proof (induction ls arbitrary: g s)
  case (Cons l ls)
  from Cons.prems(2) obtain h where h: "add_log_file g l = Ok h"
    "res_fold add_log_file h ls = Ok g'"
    by (auto simp: res_bind_Inr_iff)
  have "bm_last_le (placement_time l) (fg_file_slices g) = Some (k, s)"
    using Cons.prems(1,3) by (simp add: bm_last_le_def)
  then have "fg_file_slices h = [(k, file_slice_insert_log l s)]"
    using h(1) Cons.prems(1)
    by (cases "lf_completion_timestamp l")
      (auto simp: add_log_file_def placement_time_def Let_def split: if_splits)
  then show ?case
    using Cons.IH [OF _ h(2)] Cons.prems(3) by (fastforce simp: file_slice_insert_log_def)
qed simp

lemma sorted_placement:
  assumes "log_file_cmp a b \<noteq> Greater" "log_is_completed a = log_is_completed b"
  shows "placement_time a \<le> placement_time b"
  using assms
  by (auto simp: log_file_cmp_def placement_time_def log_is_completed_def split: option.splits)

section \<open>A group for the witnesses\<close>

definition sample_group :: FileGroup where
  "sample_group = \<lparr>fg_file_id = ''fg1'', fg_partition_path = ''p'',
     fg_file_slices = [(''20240101'', file_slice_new sample_base ''p'')]\<rparr>"

lemma sample_group_ok: "file_group_ok sample_group"
  using slice_ok_new_base [of sample_base "''p''"]
  by (simp add: file_group_ok_def sample_group_def bm_ok_def) (simp add: sample_base_def)

lemma sample_group_base: "add_base_files (file_group_new ''fg1'' ''p'') [sample_base] = Ok sample_group"
  by (simp add: add_base_files_def add_base_file_def file_group_new_def sample_base_def bm_get_def
      sample_group_def)

definition sample_group_with_log :: FileGroup where
  "sample_group_with_log = sample_group\<lparr>fg_file_slices :=
     [(''20240101'', file_slice_insert_log (sample_log ''20240102'' 1)
        (file_slice_new sample_base ''p''))]\<rparr>"

lemma sample_group_log: "add_log_files sample_group [sample_log ''20240102'' 1] = Ok sample_group_with_log"
proof -
  have "''20240101'' \<le> ''20240102''" by (simp add: less_eq_list_code less_char_def)
  then show ?thesis
    by (simp add: add_log_files_def add_log_file_def sample_log_def sample_group_def bm_last_le_def
        sample_group_with_log_def)
qed

section \<open>Properties\<close>

text \<open>C37: every operation that succeeds keeps a file group well-formed: slices keyed by
  their creation instant in strictly increasing order, each with the group's id and
  partition, a base file of that id and instant, and a duplicate-free ordered set of log
  files of that id.\<close>

theorem file_group_operations_ok:
  assumes "file_group_ok g"
  shows "(add_base_files g bs = Ok g1 \<longrightarrow> file_group_ok g1) \<and>
    (add_log_files g ls = Ok g2 \<longrightarrow> file_group_ok g2) \<and>
    (file_group_ok h \<longrightarrow> file_group_merge g h = Ok g3 \<longrightarrow> file_group_ok g3) \<and>
    (new_with_base_file_name n p = Ok g4 \<longrightarrow> file_group_ok g4)"
proof (intro conjI impI)
  show "file_group_ok g1" if "add_base_files g bs = Ok g1"
    using res_fold_invariant [OF that [unfolded add_base_files_def], of file_group_ok]
      assms file_group_ok_add_base_file by blast
  show "file_group_ok g2" if "add_log_files g ls = Ok g2"
    using res_fold_invariant [OF that [unfolded add_log_files_def], of file_group_ok]
      assms file_group_ok_add_log_file by blast
  show "file_group_ok g3" if "file_group_ok h" "file_group_merge g h = Ok g3"
    using that assms res_fold_merge_ok [OF assms, of "fg_file_slices h" g3]
    by (auto simp: file_group_merge_def file_group_ok_def [of h] file_group_eq_def
        split: if_splits)
  show "file_group_ok g4" if "new_with_base_file_name n p = Ok g4"
    using that file_group_ok_add_base_file [OF file_group_ok_new]
    by (auto simp: new_with_base_file_name_def res_bind_Inr_iff)
qed

theorem file_group_operations_ok_witness: "file_group_ok sample_group_with_log"
  using file_group_operations_ok [OF sample_group_ok, THEN conjunct2, THEN conjunct1]
    sample_group_log by blast

text \<open>After adding log files in any order, every one of them is found in the slice of
  the greatest base instant at or below its completion time (its own timestamp when no
  completion time is tracked), the placement rule of the table format.\<close>

theorem log_files_placed:
  assumes "file_group_ok g" "add_log_files g ls = Ok g'"
    and "list_all (\<lambda>l. lf_timestamp l \<le> placement_time l) ls"
  shows "list_all (placed g') ls"
  using placed_fold [OF assms(1) assms(2) [unfolded add_log_files_def]] assms(3)
  by (auto simp: list_all_iff)

theorem log_files_placed_witness: "placed sample_group_with_log (sample_log ''20240102'' 1)"
  using log_files_placed [OF sample_group_ok sample_group_log]
  by (simp add: placement_time_def sample_log_def)

text \<open>The order in which a listing returns the log files does not matter.\<close>

theorem add_log_files_order_independent:
  assumes "mset ls = mset ls'" and "inj_on log_sort_key (set ls)"
  shows "add_log_files g ls = add_log_files g ls'"
proof -
  have "sort_by log_file_cmp ls = sort_by log_file_cmp ls'"
    using assms(2)
    by (intro lf.sort_by_perm_on assms(1)) (auto simp: log_file_cmp_Equal_iff inj_on_def)
  then show ?thesis by (simp add: add_log_files_def)
qed

theorem add_log_files_order_independent_witness:
  "add_log_files sample_group [sample_log ''20240102'' 1, sample_log ''20240102'' 2] =
   add_log_files sample_group [sample_log ''20240102'' 2, sample_log ''20240102'' 1]"
  by (rule add_log_files_order_independent)
    (simp_all add: inj_on_def log_sort_key_def sample_log_def)

text \<open>A file group without base files is never split: log files that all carry a
  completion time, or none of which does, end up in one log-only slice, whatever order they
  are given in.\<close>

theorem log_only_group_not_split:
  assumes "add_log_files (file_group_new i p) ls = Ok g'" "ls \<noteq> []"
    and "list_all (\<lambda>l. lf_timestamp l \<le> placement_time l \<and> log_is_completed l = c) ls"
  shows "\<exists>k s. fg_file_slices g' = [(k, s)] \<and> fs_base_file s = None"
proof -
  obtain l0 rest where s: "sort_by log_file_cmp ls = l0 # rest"
    using assms(2) length_sort_by [of log_file_cmp ls] by (cases "sort_by log_file_cmp ls") auto
  have sub: "set (l0 # rest) = set ls" using s set_sort_by by metis
  have t0: "lf_timestamp l0 \<le> placement_time l0" using assms(3) sub by (auto simp: list_all_iff)
  from assms(1) obtain h where h: "add_log_file (file_group_new i p) l0 = Ok h"
    "res_fold add_log_file h rest = Ok g'"
    by (auto simp: add_log_files_def s res_bind_Inr_iff)
  have "\<exists>s0. fg_file_slices h = [(lf_timestamp l0, s0)] \<and> fs_base_file s0 = None"
    using h(1) by (auto simp: add_log_file_def file_group_new_def bm_last_le_def Let_def
        bm_get_def file_slice_insert_log_def new_log_only_def split: if_splits option.splits)
  then obtain s0 where s0: "fg_file_slices h = [(lf_timestamp l0, s0)]" "fs_base_file s0 = None"
    by blast
  have "sorted_wrt (\<lambda>a b. log_file_cmp a b \<noteq> Greater) (l0 # rest)"
    using lf.sorted_sort_by [of ls] s by simp
  moreover have "log_is_completed l = c" if "l \<in> set (l0 # rest)" for l
    using that assms(3) unfolding sub list_all_iff by blast
  ultimately have "placement_time l0 \<le> placement_time l" if "l \<in> set rest" for l
    using that by (intro sorted_placement) auto
  then have "list_all (\<lambda>l. lf_timestamp l0 \<le> placement_time l) rest"
    using t0 by (auto simp: list_all_iff intro: order_trans)
  from single_slice_fold [OF s0(1) h(2) this] s0(2) show ?thesis by auto
qed

theorem log_only_group_not_split_witness:
  "\<exists>k s. fg_file_slices ((\<lambda>r. case r of Inr g \<Rightarrow> g | Inl _ \<Rightarrow> sample_group)
      (add_log_files (file_group_new ''fg1'' ''p'') [sample_log ''20240102'' 1])) = [(k, s)] \<and>
    fs_base_file s = None"
proof -
  obtain g where g: "add_log_files (file_group_new ''fg1'' ''p'') [sample_log ''20240102'' 1] = Ok g"
    by (simp add: add_log_files_def add_log_file_def sample_log_def file_group_new_def
        bm_last_le_def Let_def)
  have "\<exists>k s. fg_file_slices g = [(k, s)] \<and> fs_base_file s = None"
    by (rule log_only_group_not_split [OF g, of False])
      (simp_all add: placement_time_def sample_log_def log_is_completed_def)
  then show ?thesis using g by simp
qed

text \<open>The slice read as of a timestamp is the one with the greatest base instant at or
  below it, and none exactly when every slice is later.\<close>

theorem file_slice_as_of_greatest:
  assumes "file_group_ok g"
  shows "get_file_slice_as_of g ts = Some s \<longleftrightarrow>
    (\<exists>k. bm_get (fg_file_slices g) k = Some s \<and> k \<le> ts \<and>
      (\<forall>k'. bm_get (fg_file_slices g) k' \<noteq> None \<longrightarrow> k' \<le> ts \<longrightarrow> k' \<le> k))"
proof -
  note ok = file_group_ok_bm [OF assms]
  have "bm_last_le ts (fg_file_slices g) = Some (k, s) \<longleftrightarrow>
      bm_get (fg_file_slices g) k = Some s \<and> k \<le> ts \<and>
      (\<forall>k'. bm_get (fg_file_slices g) k' \<noteq> None \<longrightarrow> k' \<le> ts \<longrightarrow> k' \<le> k)" for k
    using bm.last_le_get [OF ok] bm.last_le_greatest [OF ok] bm.last_leI [OF ok] by blast
  then show ?thesis by (auto simp: get_file_slice_as_of_def)
qed

theorem file_slice_as_of_greatest_witness: "get_file_slice_as_of sample_group ''2023'' = None"
proof -
  have "\<not> ''20240101'' \<le> ''2023''" by (simp add: less_eq_list_code less_char_def)
  then have n: "get_file_slice_as_of sample_group ''2023'' \<noteq> Some s" for s
    unfolding file_slice_as_of_greatest [OF sample_group_ok]
    by (auto simp: sample_group_def bm_get_def split: if_splits)
  show ?thesis
    by (cases "get_file_slice_as_of sample_group ''2023''") (use n in blast)+
qed

end
