(* ===== verification/Metadata_Table.thy ===== *)
theory Metadata_Table
  imports Hudi_Bytes File_Group "HOL-Library.Signed_Division"
begin

text \<open>
  The metadata table's records: \<open>src/crates/core/src/metadata/table/records.rs\<close> (the files
  partition), \<open>metadata/merger.rs\<close> (merging log records over base records),
  \<open>metadata/table/routing.rs\<close> (which shard a key lives in), \<open>metadata/rollback.rs\<close> and
  \<open>hfile/record.rs\<close>. Decoding Avro bytes is the apache-avro crate's work and a parameter;
  the decoded value is the datatype below.
\<close>

section \<open>HFile records\<close>

record HFileRecord =
  hr_key :: "byte list"
  hr_value :: "byte list"

definition key_as_str :: "HFileRecord \<Rightarrow> string option" where
  "key_as_str r = (case from_utf8 (hr_key r) of Inl _ \<Rightarrow> None | Inr s \<Rightarrow> Some s)"

definition hfile_record_from_str_key :: "string \<Rightarrow> byte list \<Rightarrow> HFileRecord" where
  "hfile_record_from_str_key k v = \<lparr>hr_key = str_bytes k, hr_value = v\<rparr>"

definition hfile_record_is_deleted :: "HFileRecord \<Rightarrow> bool" where
  "hfile_record_is_deleted r = (hr_value r = [])"

section \<open>Decoded values\<close>

datatype AvroValue =
    AvNull
  | AvBoolean bool
  | AvInt int
  | AvLong int
  | AvString string
  | AvUnion nat AvroValue
  | AvRecord "(string \<times> AvroValue) list"
  | AvMap "(string \<times> AvroValue) list"
  | AvOther nat

datatype MetadataRecordType =
    AllPartitions | Files | ColumnStats | BloomFilters | RecordIndex | PartitionStats
  | SecondaryIndex | Unknown

definition record_type_from :: "int \<Rightarrow> MetadataRecordType" where
  "record_type_from v =
     (if v = 1 then AllPartitions
      else if v = 2 then Files
      else if v = 3 then ColumnStats
      else if v = 4 then BloomFilters
      else if v = 5 then RecordIndex
      else if v = 6 then PartitionStats
      else if v = 7 then SecondaryIndex
      else Unknown)"

datatype MetadataPartitionType = FilesPartition | ColumnStatsPartition
  | PartitionStatsPartition | RecordIndexPartition

definition partition_name :: "MetadataPartitionType \<Rightarrow> string" where
  "partition_name p = (case p of
      FilesPartition \<Rightarrow> ''files''
    | ColumnStatsPartition \<Rightarrow> ''column_stats''
    | PartitionStatsPartition \<Rightarrow> ''partition_stats''
    | RecordIndexPartition \<Rightarrow> ''record_index'')"

record HoodieMetadataFileInfo =
  fi_name :: string
  fi_size :: int
  fi_is_deleted :: bool

record FilesPartitionRecord =
  fp_key :: string
  fp_record_type :: MetadataRecordType
  fp_files :: "(string, HoodieMetadataFileInfo) btree_map" \<comment> \<open>a \<open>HashMap\<close>, kept sorted\<close>

definition is_all_partitions :: "FilesPartitionRecord \<Rightarrow> bool" where
  "is_all_partitions r = (fp_record_type r = AllPartitions)"

definition partition_names :: "FilesPartitionRecord \<Rightarrow> string list" where
  "partition_names r = (if is_all_partitions r then sort (map fst (fp_files r)) else [])"

definition active_file_names :: "FilesPartitionRecord \<Rightarrow> string list" where
  "active_file_names r =
     map (fi_name \<circ> snd) (filter (\<lambda>e. \<not> fi_is_deleted (snd e)) (fp_files r))"

definition active_files_with_sizes :: "FilesPartitionRecord \<Rightarrow> (string \<times> nat) list" where
  "active_files_with_sizes r =
     map (\<lambda>e. (fi_name (snd e), nat (max (fi_size (snd e)) 0)))
       (filter (\<lambda>e. \<not> fi_is_deleted (snd e)) (fp_files r))"

definition all_file_names :: "FilesPartitionRecord \<Rightarrow> string list" where
  "all_file_names r = map fst (fp_files r)"

definition has_active_file :: "FilesPartitionRecord \<Rightarrow> string \<Rightarrow> bool" where
  "has_active_file r name =
     (case bm_get (fp_files r) name of None \<Rightarrow> False | Some f \<Rightarrow> \<not> fi_is_deleted f)"

text \<open>The sum is one of \<open>i64\<close> and wraps as in a release build.\<close>

definition total_size :: "FilesPartitionRecord \<Rightarrow> int" where
  "total_size r =
     sint (sum_list (map (\<lambda>e. word_of_int (fi_size (snd e)))
       (filter (\<lambda>e. \<not> fi_is_deleted (snd e)) (fp_files r))) :: 64 word)"

section \<open>Decoding\<close>

fun extract_long :: "AvroValue \<Rightarrow> int option" where
  "extract_long (AvLong n) = Some n"
| "extract_long (AvInt n) = Some n"
| "extract_long (AvUnion _ inner) = extract_long inner"
| "extract_long _ = None"

fun extract_bool :: "AvroValue \<Rightarrow> bool option" where
  "extract_bool (AvBoolean b) = Some b"
| "extract_bool (AvUnion _ inner) = extract_bool inner"
| "extract_bool _ = None"

definition file_info_field :: "string \<times> AvroValue \<Rightarrow> int \<times> bool \<Rightarrow> int \<times> bool" where
  "file_info_field f acc =
     (let (name, v) = f; (sz, del) = acc in
      if name = ''size'' then
        (case extract_long v of None \<Rightarrow> (sz, del) | Some n \<Rightarrow> (n, del))
      else if name = ''isDeleted'' then
        (case extract_bool v of None \<Rightarrow> (sz, del) | Some b \<Rightarrow> (sz, b))
      else (sz, del))"

definition extract_file_info :: "string \<Rightarrow> AvroValue \<Rightarrow> HoodieMetadataFileInfo option" where
  "extract_file_info name v =
     (let fields = (case v of
          AvRecord fs \<Rightarrow> Some fs
        | AvUnion _ inner \<Rightarrow> (case inner of AvRecord fs \<Rightarrow> Some fs | _ \<Rightarrow> None)
        | _ \<Rightarrow> None)
      in map_option (\<lambda>fs. let (sz, del) = fold file_info_field fs (0, False) in
           \<lparr>fi_name = name, fi_size = sz, fi_is_deleted = del\<rparr>) fields)"

text \<open>\<open>find_map\<close> over the record's fields: the first field of the name that holds a map.\<close>

fun find_fs_metadata :: "(string \<times> AvroValue) list \<Rightarrow> (string \<times> AvroValue) list option" where
  "find_fs_metadata [] = None"
| "find_fs_metadata ((name, v) # fs) =
     (if name = ''filesystemMetadata'' then
        (case v of
           AvMap m \<Rightarrow> Some m
         | AvUnion _ inner \<Rightarrow> (case inner of AvMap m \<Rightarrow> Some m | _ \<Rightarrow> find_fs_metadata fs)
         | _ \<Rightarrow> find_fs_metadata fs)
      else find_fs_metadata fs)"

definition extract_filesystem_metadata ::
  "AvroValue \<Rightarrow> (string, HoodieMetadataFileInfo) btree_map" where
  "extract_filesystem_metadata v =
     (let m = (case v of AvRecord fs \<Rightarrow> find_fs_metadata fs | _ \<Rightarrow> None)
      in case m of None \<Rightarrow> []
         | Some es \<Rightarrow> fold (\<lambda>(name, x) acc.
             case extract_file_info name x of None \<Rightarrow> acc
             | Some info \<Rightarrow> bm_insert name info acc) es [])"

fun find_avro_int :: "string \<Rightarrow> (string \<times> AvroValue) list \<Rightarrow> int option" where
  "find_avro_int field [] = None"
| "find_avro_int field ((name, v) # fs) =
     (if name = field then
        (case v of
           AvInt n \<Rightarrow> Some n
         | AvUnion _ inner \<Rightarrow> (case inner of AvInt n \<Rightarrow> Some n | _ \<Rightarrow> None)
         | _ \<Rightarrow> None)
      else find_avro_int field fs)"

definition get_record_type :: "AvroValue \<Rightarrow> MetadataRecordType" where
  "get_record_type v =
     (case v of
        AvRecord fs \<Rightarrow> (case find_avro_int ''type'' fs of
            None \<Rightarrow> Unknown | Some n \<Rightarrow> record_type_from n)
      | _ \<Rightarrow> Unknown)"

definition decode_avro_value :: "(byte list \<Rightarrow> AvroValue option) \<Rightarrow> byte list \<Rightarrow> AvroValue result"
  where
  "decode_avro_value datum v =
     (if v = [] then Err MetadataTableError else ok_or MetadataTableError (datum v))"

definition NON_PARTITIONED_NAME :: string where "NON_PARTITIONED_NAME = ''.''"

definition normalize_key :: "string \<Rightarrow> string" where
  "normalize_key k = (if k = NON_PARTITIONED_NAME then [] else k)"

definition decode_files_partition_record ::
  "(byte list \<Rightarrow> AvroValue option) \<Rightarrow> HFileRecord \<Rightarrow> FilesPartitionRecord result" where
  "decode_files_partition_record datum r =
     res_bind (ok_or MetadataTableError (key_as_str r)) (\<lambda>raw.
       let key = normalize_key raw in
       if hr_value r = [] then
         Ok \<lparr>fp_key = key, fp_record_type = Files, fp_files = []\<rparr>
       else res_bind (decode_avro_value datum (hr_value r)) (\<lambda>v.
         let rt = get_record_type v;
             files = extract_filesystem_metadata v;
             files' = (if rt = AllPartitions then
                 (case bm_get files NON_PARTITIONED_NAME of None \<Rightarrow> files
                  | Some info \<Rightarrow>
                      bm_insert [] (info\<lparr>fi_name := []\<rparr>) (bm_remove NON_PARTITIONED_NAME files))
               else files)
         in Ok \<lparr>fp_key = key, fp_record_type = rt, fp_files = files'\<rparr>))"

section \<open>Merging\<close>

text \<open>One entry of the newer record against the existing files.\<close>

definition merge_file_entry ::
  "string \<times> HoodieMetadataFileInfo \<Rightarrow> (string, HoodieMetadataFileInfo) btree_map
   \<Rightarrow> (string, HoodieMetadataFileInfo) btree_map" where
  "merge_file_entry e files =
     (let (name, new_info) = e in
      case bm_get files name of
        Some old_info \<Rightarrow>
          if fi_is_deleted new_info then
            (if fi_is_deleted old_info then bm_insert name new_info files
             else bm_remove name files)
          else bm_insert name
            \<lparr>fi_name = name, fi_size = max (fi_size old_info) (fi_size new_info),
             fi_is_deleted = False\<rparr> files
      | None \<Rightarrow> bm_insert name new_info files)"

definition merge_files_partition_records ::
  "FilesPartitionRecord \<Rightarrow> FilesPartitionRecord \<Rightarrow> FilesPartitionRecord" where
  "merge_files_partition_records existing newer =
     existing\<lparr>fp_files := fold merge_file_entry (fp_files newer) (fp_files existing)\<rparr>"

type_synonym merged_records = "(string, FilesPartitionRecord) btree_map"

definition merge_log_record :: "merged_records \<Rightarrow> FilesPartitionRecord \<Rightarrow> merged_records" where
  "merge_log_record merged decoded =
     (case bm_get merged (fp_key decoded) of
        Some existing \<Rightarrow>
          bm_insert (fp_key decoded) (merge_files_partition_records existing decoded) merged
      | None \<Rightarrow> bm_insert (fp_key decoded) decoded merged)"

definition merge_records ::
  "(byte list \<Rightarrow> AvroValue option) \<Rightarrow> HFileRecord list \<Rightarrow> HFileRecord list
   \<Rightarrow> merged_records result" where
  "merge_records datum base_records log_records =
     res_bind (res_fold (\<lambda>merged r. res_bind (decode_files_partition_record datum r) (\<lambda>d.
         Ok (bm_insert (fp_key d) d merged))) [] base_records) (\<lambda>merged.
       res_fold (\<lambda>merged r. res_bind (decode_files_partition_record datum r) (\<lambda>d.
         Ok (merge_log_record merged d))) merged log_records)"

definition key_selected :: "string list \<Rightarrow> HFileRecord \<Rightarrow> bool" where
  "key_selected keys r = (case key_as_str r of None \<Rightarrow> False | Some k \<Rightarrow> k \<in> set keys)"

definition merge_for_keys ::
  "(byte list \<Rightarrow> AvroValue option) \<Rightarrow> HFileRecord list \<Rightarrow> HFileRecord list \<Rightarrow> string list
   \<Rightarrow> merged_records result" where
  "merge_for_keys datum base_records log_records keys =
     (if keys = [] then merge_records datum base_records log_records
      else res_bind (res_fold (\<lambda>merged r.
          if key_selected keys r then
            res_bind (decode_files_partition_record datum r) (\<lambda>d.
              Ok (bm_insert (fp_key d) d merged))
          else Ok merged) [] base_records) (\<lambda>merged.
        res_fold (\<lambda>merged r.
          if key_selected keys r then
            res_bind (decode_files_partition_record datum r) (\<lambda>d. Ok (merge_log_record merged d))
          else Ok merged) merged log_records))"

section \<open>Routing\<close>

definition java_string_hash :: "string \<Rightarrow> 32 word" where
  "java_string_hash key = fold (\<lambda>u h. h * 31 + word_of_nat u) (encode_utf16 key) 0"

definition wrapping_abs :: "32 word \<Rightarrow> 32 word" where
  "wrapping_abs w = (if sint w < 0 then - w else w)"

text \<open>\<open>%\<close> on \<open>i32\<close> truncates towards zero; a zero divisor panics. The final cast to
  \<open>usize\<close> sign-extends.\<close>

definition file_group_index :: "string \<Rightarrow> nat \<Rightarrow> nat result" where
  "file_group_index key n =
     (if n \<le> 1 then Ok 0
      else let d = (word_of_nat n :: 32 word);
               a = wrapping_abs (java_string_hash key)
           in if d = 0 then Err Panic
              else if d = - 1 \<and> sint a = - (2 ^ 31) then Err Panic
              else Ok (nat (sint (wrapping_abs (word_of_int (sint a smod sint d))) mod 2 ^ 64)))"

definition slices_for_keys :: "FileSlice list \<Rightarrow> string list \<Rightarrow> FileSlice list result" where
  "slices_for_keys slices keys =
     (if keys = [] \<or> length slices \<le> 1 then Ok slices
      else let ordered = sort_by (\<lambda>a b. cmp_lin (fs_file_id a) (fs_file_id b)) slices
           in res_bind (res_map (\<lambda>k. file_group_index k (length ordered)) keys) (\<lambda>wanted.
             res_map (\<lambda>i. ok_or Panic (nth_opt ordered i)) (remdups_adj (sort wanted))))"

section \<open>Rollback metadata\<close>

record RollbackMetadata =
  rb_start_rollback_time :: string
  rb_commits_rollback :: "string list"

record RestoreMetadata =
  rs_start_restore_time :: string
  rs_hoodie_restore_metadata :: "(string \<times> RollbackMetadata list) list"

definition commits_rolled_back :: "RestoreMetadata \<Rightarrow> string list" where
  "commits_rolled_back r =
     concat (map (\<lambda>rb. rb_commits_rollback rb) (concat (map snd (rs_hoodie_restore_metadata r))))"

record InstantInfo =
  ii_commit_time :: string
  ii_action :: string

record RollbackPlan =
  rp_instant_to_rollback :: "InstantInfo option"

definition commit_rolled_back :: "RollbackPlan \<Rightarrow> string option" where
  "commit_rolled_back p = map_option ii_commit_time (rp_instant_to_rollback p)"

section \<open>Facts about merging\<close>

definition entry_merge ::
  "string \<Rightarrow> HoodieMetadataFileInfo option \<Rightarrow> HoodieMetadataFileInfo \<Rightarrow>
   HoodieMetadataFileInfo option" where
  "entry_merge name old new_info =
     (case old of
        None \<Rightarrow> Some new_info
      | Some o' \<Rightarrow>
          if fi_is_deleted new_info then (if fi_is_deleted o' then Some new_info else None)
          else Some \<lparr>fi_name = name, fi_size = max (fi_size o') (fi_size new_info),
                     fi_is_deleted = False\<rparr>)"

lemma bm_ok_merge_file_entry: "bm_ok files \<Longrightarrow> bm_ok (merge_file_entry e files)"
  by (cases e) (auto simp: merge_file_entry_def split: option.splits)

lemma bm_get_merge_file_entry:
  "bm_ok files \<Longrightarrow> bm_get (merge_file_entry (n, i) files) n' =
     (if n' = n then entry_merge n (bm_get files n) i else bm_get files n')"
  by (auto simp: merge_file_entry_def entry_merge_def split: option.splits)

lemma fold_merge_file_entry:
  assumes "bm_ok files" "distinct (map fst es)"
  shows "bm_ok (fold merge_file_entry es files) \<and>
    bm_get (fold merge_file_entry es files) n =
      (case map_of es n of None \<Rightarrow> bm_get files n
       | Some i \<Rightarrow> entry_merge n (bm_get files n) i)"
  using assms
proof (induction es arbitrary: files)
  case (Cons e es)
  obtain a i where e: "e = (a, i)" by force
  have "map_of es a = None" using Cons.prems(2) by (simp add: e map_of_eq_None_iff)
  then show ?case
    using Cons.IH [of "merge_file_entry e files"] Cons.prems
    by (auto simp: e bm_ok_merge_file_entry bm_get_merge_file_entry split: option.splits)
qed simp

text \<open>A record whose files map is a map; decoding yields such records.\<close>

definition files_ok :: "FilesPartitionRecord \<Rightarrow> bool" where
  "files_ok r = bm_ok (fp_files r)"

definition active_in :: "FilesPartitionRecord option \<Rightarrow> string \<Rightarrow> bool" where
  "active_in r n = (case r of None \<Rightarrow> False | Some r' \<Rightarrow> has_active_file r' n)"

lemma bm_ok_distinct: "bm_ok m \<Longrightarrow> distinct (map fst m)"
  by (simp add: bm_ok_def strict_sorted_iff)

lemma has_active_merge:
  assumes "files_ok existing" "files_ok newer"
  shows "has_active_file (merge_files_partition_records existing newer) n =
    (case bm_get (fp_files newer) n of
       None \<Rightarrow> has_active_file existing n | Some i \<Rightarrow> \<not> fi_is_deleted i)"
  using fold_merge_file_entry [OF assms(1) [unfolded files_ok_def]
      bm_ok_distinct [OF assms(2) [unfolded files_ok_def]], of n]
  by (auto simp: has_active_file_def merge_files_partition_records_def
      entry_merge_def bm_get_def split: option.splits if_splits)

lemma files_ok_merge:
  "files_ok existing \<Longrightarrow> files_ok newer \<Longrightarrow>
   files_ok (merge_files_partition_records existing newer)"
  using fold_merge_file_entry [of "fp_files existing" "fp_files newer"]
  by (auto simp: files_ok_def merge_files_partition_records_def dest: bm_ok_distinct)

lemma bm_ok_extract: "bm_ok (extract_filesystem_metadata v)"
proof -
  have "bm_ok acc \<Longrightarrow> bm_ok (fold (\<lambda>(name, x) acc. case extract_file_info name x of
      None \<Rightarrow> acc | Some info \<Rightarrow> bm_insert name info acc) es acc)"
    for es and acc :: "(string, HoodieMetadataFileInfo) btree_map"
  proof (induction es arbitrary: acc)
    case (Cons e es)
    show ?case using Cons.prems by (cases e) (auto split: option.splits intro!: Cons.IH)
  qed simp
  then show ?thesis by (simp add: extract_filesystem_metadata_def split: option.splits)
qed

lemma decode_files_ok: "decode_files_partition_record datum r = Ok d \<Longrightarrow> files_ok d"
  by (auto simp: decode_files_partition_record_def files_ok_def Let_def res_bind_Inr_iff
      bm_ok_extract split: if_splits option.splits)

text \<open>Whether the last record of a key that names a file keeps it.\<close>

definition mention :: "string \<Rightarrow> string \<Rightarrow> FilesPartitionRecord \<Rightarrow> bool option \<Rightarrow> bool option" where
  "mention k n d acc =
     (if fp_key d = k then
        (case bm_get (fp_files d) n of None \<Rightarrow> acc | Some i \<Rightarrow> Some (\<not> fi_is_deleted i))
      else acc)"

definition last_mention :: "string \<Rightarrow> string \<Rightarrow> FilesPartitionRecord list \<Rightarrow> bool option" where
  "last_mention k n ds = fold (mention k n) ds None"

definition merged_ok :: "merged_records \<Rightarrow> bool" where
  "merged_ok m = (bm_ok m \<and> list_all (\<lambda>e. files_ok (snd e)) m)"

lemma merged_okD: "merged_ok m \<Longrightarrow> bm_get m k = Some r \<Longrightarrow> files_ok r"
  by (auto simp: merged_ok_def bm_get_in list_all_iff)

lemma merged_ok_insert: "merged_ok m \<Longrightarrow> files_ok r \<Longrightarrow> merged_ok (bm_insert k r m)"
  using set_bm_insert_subset [of k r m] by (fastforce simp: merged_ok_def list_all_iff)

lemma merged_ok_log_record: "merged_ok m \<Longrightarrow> files_ok d \<Longrightarrow> merged_ok (merge_log_record m d)"
  by (auto simp: merge_log_record_def split: option.splits
      intro!: merged_ok_insert files_ok_merge dest: merged_okD)

lemma active_log_record:
  assumes "merged_ok m" "files_ok d"
    and acc: "active_in (bm_get m k) n \<longleftrightarrow> acc = Some True"
  shows "active_in (bm_get (merge_log_record m d) k) n \<longleftrightarrow> mention k n d acc = Some True"
proof -
  have ok: "bm_ok m" using assms(1) by (simp add: merged_ok_def)
  show ?thesis
  proof (cases "bm_get m (fp_key d)")
    case None
    then show ?thesis
      using acc ok by (auto simp: merge_log_record_def mention_def active_in_def
          has_active_file_def split: option.splits)
  next
    case (Some r)
    then show ?thesis
      using acc ok has_active_merge [OF merged_okD [OF assms(1) Some] assms(2), of n]
      by (auto simp: merge_log_record_def mention_def active_in_def split: option.splits)
  qed
qed

lemma active_log_fold:
  assumes "merged_ok m" "list_all files_ok ds"
    and "active_in (bm_get m k) n \<longleftrightarrow> acc = Some True"
  shows "active_in (bm_get (fold (\<lambda>d m. merge_log_record m d) ds m) k) n \<longleftrightarrow>
    fold (mention k n) ds acc = Some True"
  using assms
proof (induction ds arbitrary: m acc)
  case (Cons d ds)
  then show ?case
    using Cons.IH [of "merge_log_record m d" "mention k n d acc"]
      active_log_record [of m d k n acc] merged_ok_log_record by simp
qed simp

lemma active_base_fold:
  assumes "merged_ok m" "list_all files_ok ds" "distinct (map fp_key ds)"
    and "fst ` set m \<inter> fp_key ` set ds = {}"
    and "active_in (bm_get m k) n \<longleftrightarrow> acc = Some True"
    and "bm_get m k = None \<longrightarrow> acc = None"
  shows "merged_ok (fold (\<lambda>d m. bm_insert (fp_key d) d m) ds m) \<and>
    (active_in (bm_get (fold (\<lambda>d m. bm_insert (fp_key d) d m) ds m) k) n \<longleftrightarrow>
     fold (mention k n) ds acc = Some True)"
  using assms
proof (induction ds arbitrary: m acc)
  case (Cons d ds)
  have ok: "bm_ok m" using Cons.prems(1) by (simp add: merged_ok_def)
  have none: "fp_key d = k \<Longrightarrow> acc = None"
    using Cons.prems(4,6) bm_get_None [of m k] by auto
  have "active_in (bm_get (bm_insert (fp_key d) d m) k) n \<longleftrightarrow> mention k n d acc = Some True"
    using Cons.prems(5) ok none
    by (auto simp: mention_def active_in_def has_active_file_def split: option.splits)
  moreover have "bm_get (bm_insert (fp_key d) d m) k = None \<longrightarrow> mention k n d acc = None"
    using Cons.prems(6) ok by (auto simp: mention_def)
  moreover have "fst ` set (bm_insert (fp_key d) d m) \<inter> fp_key ` set ds = {}"
    using Cons.prems(3,4) by (auto simp: fst_set_bm_insert)
  ultimately show ?case
    using Cons.IH [of "bm_insert (fp_key d) d m" "mention k n d acc"] Cons.prems(1,2,3)
      merged_ok_insert by simp
qed simp

lemma res_fold_decode:
  "res_fold (\<lambda>m r. res_bind (dec r) (\<lambda>d. Ok (f m d))) m rs =
     res_bind (res_map dec rs) (\<lambda>ds. Ok (fold (\<lambda>d m. f m d) ds m))"
proof (induction rs arbitrary: m)
  case (Cons r rs)
  then show ?case
    by (cases "dec r"; cases "res_map dec rs") auto
qed simp

lemma merge_records_decoded:
  assumes "res_map (decode_files_partition_record datum) base_records = Ok bs"
    and "res_map (decode_files_partition_record datum) log_records = Ok ls"
  shows "merge_records datum base_records log_records =
    Ok (fold (\<lambda>d m. merge_log_record m d) ls (fold (\<lambda>d m. bm_insert (fp_key d) d m) bs []))"
  by (simp add: merge_records_def res_fold_decode assms)

lemma decoded_files_ok:
  "res_map (decode_files_partition_record datum) rs = Ok ds \<Longrightarrow> list_all files_ok ds"
  unfolding res_map_Inr_iff by (induction rule: list_all2_induct) (auto dest: decode_files_ok)

text \<open>The merged record of a key depends on the records of that key only.\<close>

definition base_at :: "string \<Rightarrow> FilesPartitionRecord \<Rightarrow> FilesPartitionRecord option
   \<Rightarrow> FilesPartitionRecord option" where
  "base_at k d acc = (if fp_key d = k then Some d else acc)"

definition log_at :: "string \<Rightarrow> FilesPartitionRecord \<Rightarrow> FilesPartitionRecord option
   \<Rightarrow> FilesPartitionRecord option" where
  "log_at k d acc = (if fp_key d = k then
     (case acc of None \<Rightarrow> Some d | Some r \<Rightarrow> Some (merge_files_partition_records r d)) else acc)"

lemma bm_get_base_fold:
  "bm_ok m \<Longrightarrow> bm_ok (fold (\<lambda>d m. bm_insert (fp_key d) d m) ds m) \<and>
   bm_get (fold (\<lambda>d m. bm_insert (fp_key d) d m) ds m) k = fold (base_at k) ds (bm_get m k)"
proof (induction ds arbitrary: m)
  case (Cons d ds)
  have "bm_get (bm_insert (fp_key d) d m) k = base_at k d (bm_get m k)"
    using Cons.prems by (simp add: base_at_def)
  then show ?case using Cons.IH [of "bm_insert (fp_key d) d m"] Cons.prems by simp
qed simp

lemma bm_get_log_fold:
  "bm_ok m \<Longrightarrow>
   bm_get (fold (\<lambda>d m. merge_log_record m d) ds m) k = fold (log_at k) ds (bm_get m k)"
proof (induction ds arbitrary: m)
  case (Cons d ds)
  have "bm_ok (merge_log_record m d)"
    using Cons.prems by (simp add: merge_log_record_def split: option.splits)
  moreover have "bm_get (merge_log_record m d) k = log_at k d (bm_get m k)"
    using Cons.prems by (auto simp: merge_log_record_def log_at_def split: option.splits)
  ultimately show ?case using Cons.IH by simp
qed simp

lemma fold_at_filter:
  "(\<And>d. d \<in> set ds \<Longrightarrow> \<not> P d \<Longrightarrow> fp_key d \<noteq> k) \<Longrightarrow>
     fold (base_at k) (filter P ds) acc = fold (base_at k) ds acc \<and>
     fold (log_at k) (filter P ds) acc = fold (log_at k) ds acc"
  by (induction ds arbitrary: acc) (auto simp: base_at_def log_at_def)

lemma fold_at_none:
  "(\<And>d. d \<in> set ds \<Longrightarrow> fp_key d \<noteq> k) \<Longrightarrow>
     fold (base_at k) ds acc = acc \<and> fold (log_at k) ds acc = acc"
  by (induction ds arbitrary: acc) (auto simp: base_at_def log_at_def)

lemma res_fold_filter:
  "res_fold (\<lambda>m r. if P r then f m r else Ok m) m rs = res_fold f m (filter P rs)"
  by (induction rs arbitrary: m) (auto simp: res_bind_def split: sum.splits)

lemma merge_for_keys_filter:
  "keys \<noteq> [] \<Longrightarrow> merge_for_keys datum base_records log_records keys =
     merge_records datum (filter (key_selected keys) base_records)
       (filter (key_selected keys) log_records)"
  by (simp add: merge_for_keys_def merge_records_def res_fold_filter)

lemma decode_key:
  "decode_files_partition_record datum r = Ok d \<Longrightarrow>
   \<exists>raw. key_as_str r = Some raw \<and> fp_key d = normalize_key raw"
  by (auto simp: decode_files_partition_record_def Let_def res_bind_Inr_iff
      split: if_splits option.splits)

lemma res_map_filter:
  "res_map f xs = Ok ys \<Longrightarrow> \<exists>zs. res_map f (filter P xs) = Ok zs \<and> set zs \<subseteq> set ys"
proof (induction xs arbitrary: ys)
  case (Cons x xs)
  from Cons.prems obtain y ys' where y: "ys = y # ys'" "f x = Ok y" "res_map f xs = Ok ys'"
    by (auto simp: res_bind_Inr_iff)
  from Cons.IH [OF y(3)] obtain zs where "res_map f (filter P xs) = Ok zs" "set zs \<subseteq> set ys'"
    by blast
  then show ?case using y by (cases "P x") auto
qed simp

text \<open>Without empty raw keys, selecting raw keys is selecting decoded ones.\<close>

lemma decoded_selected:
  assumes "res_map (decode_files_partition_record datum) rs = Ok ds"
    and "list_all (\<lambda>r. key_as_str r \<noteq> Some []) rs" "[] \<notin> set keys"
  shows "res_map (decode_files_partition_record datum) (filter (key_selected keys) rs) =
    Ok (filter (\<lambda>d. fp_key d \<in> normalize_key ` set keys) ds)"
  using assms(1,2)
proof (induction rs arbitrary: ds)
  case (Cons r rs)
  from Cons.prems obtain d ds' where d: "ds = d # ds'"
    "decode_files_partition_record datum r = Ok d"
    "res_map (decode_files_partition_record datum) rs = Ok ds'"
    by (auto simp: res_bind_Inr_iff)
  from decode_key [OF d(2)] obtain raw where raw: "key_as_str r = Some raw"
    "fp_key d = normalize_key raw" by blast
  have "raw \<noteq> []" using Cons.prems(2) raw by auto
  then have "key_selected keys r \<longleftrightarrow> fp_key d \<in> normalize_key ` set keys"
    using raw assms(3) by (auto simp: key_selected_def normalize_key_def split: if_splits)
  moreover have "res_map (decode_files_partition_record datum)
      (filter (key_selected keys) rs) = Ok (filter (\<lambda>d. fp_key d \<in> normalize_key ` set keys) ds')"
    using Cons.IH [OF d(3)] Cons.prems(2) by simp
  ultimately show ?case using d by simp
qed simp

section \<open>Facts about routing\<close>

text \<open>The two keys the source's comments name: a hash that is the least 32-bit integer,
  and a character outside the basic plane hashed over its surrogates.\<close>

lemma java_string_hash_min: "java_string_hash ''polygenelubricants'' = word_of_int (- (2 ^ 31))"
  by (simp add: java_string_hash_def encode_utf16_def utf16_units_def)

lemma java_string_hash_surrogates:
  "java_string_hash [CHR 0xF0, CHR 0x9F, CHR 0x98, CHR 0x80] = 1772899"
  by (simp add: java_string_hash_def encode_utf16_def utf16_units_def)

lemma sint_32_bounds: "- (2 ^ 31) \<le> sint (w :: 32 word)" "sint (w :: 32 word) < 2 ^ 31"
  using sint_greater_eq [of w] sint_less [of w] by simp_all

lemma sint_word_of_int_32:
  "- (2 ^ 31) \<le> i \<Longrightarrow> i < 2 ^ 31 \<Longrightarrow> sint (word_of_int i :: 32 word) = i"
  by (simp add: sint_sbintrunc' signed_take_bit_int_eq_self)

lemma word_of_int_sint_32: "word_of_int (sint w) = (w :: 32 word)"
  by (simp add: of_int_sint)

lemma sint_wrapping_abs:
  "sint (wrapping_abs w) = (if sint w = - (2 ^ 31) then - (2 ^ 31) else \<bar>sint w\<bar>)"
proof (cases "sint w = - (2 ^ 31)")
  case True
  then have "w = word_of_int (- (2 ^ 31))" using word_of_int_sint_32 [of w] by simp
  then have "- w = w" by simp
  then have "wrapping_abs w = w" unfolding wrapping_abs_def by (simp only: if_cancel)
  then show ?thesis using True by simp
next
  case False
  then have b: "- (2 ^ 31) < sint w" "sint w < 2 ^ 31" using sint_32_bounds [of w] by auto
  have "sint (word_of_int (- sint w) :: 32 word) = - sint w"
    using b by (intro sint_word_of_int_32) auto
  then have "sint (- w) = - sint w" using word_of_int_sint_32 [of w] by (simp only: of_int_minus)
  then show ?thesis using False by (auto simp: wrapping_abs_def)
qed

lemma smod_bound: "0 < (d :: int) \<Longrightarrow> \<bar>a smod d\<bar> < d"
  using smod_int_range [of d a] by auto

section \<open>Records for the witnesses\<close>

text \<open>A payload decoder that reads a one-byte payload as a record naming the file \<open>f1\<close>,
  deleted when the byte is 2.\<close>

definition sample_datum :: "byte list \<Rightarrow> AvroValue option" where
  "sample_datum bs = (case bs of
     [b] \<Rightarrow> Some (AvRecord [(''type'', AvInt 2), (''filesystemMetadata'', AvMap
       [(''f1'', AvRecord [(''size'', AvLong 10), (''isDeleted'', AvBoolean (b = 2))])])])
   | _ \<Rightarrow> None)"

definition sample_record :: "bool \<Rightarrow> FilesPartitionRecord" where
  "sample_record del = \<lparr>fp_key = ''p'', fp_record_type = Files,
     fp_files = [(''f1'', \<lparr>fi_name = ''f1'', fi_size = 10, fi_is_deleted = del\<rparr>)]\<rparr>"

lemma sample_decoded:
  assumes "key_as_str r = Some ''p''" "hr_value r = [b]"
  shows "decode_files_partition_record sample_datum r = Ok (sample_record (b = 2))"
  using assms by (simp add: decode_files_partition_record_def normalize_key_def
      NON_PARTITIONED_NAME_def decode_avro_value_def sample_datum_def get_record_type_def
      record_type_from_def extract_filesystem_metadata_def extract_file_info_def
      file_info_field_def sample_record_def Let_def)

definition sample_hfile_record :: "byte \<Rightarrow> HFileRecord" where
  "sample_hfile_record b = \<lparr>hr_key = [112], hr_value = [b]\<rparr>"

lemma sample_key: "key_as_str (sample_hfile_record b) = Some ''p''"
  by (simp add: key_as_str_def sample_hfile_record_def from_utf8_def bytes_str_def char_of_def
      bit_iff_odd string_valid_def)

lemma sample_decoded_record:
  "decode_files_partition_record sample_datum (sample_hfile_record b) = Ok (sample_record (b = 2))"
  by (rule sample_decoded [OF sample_key]) (simp add: sample_hfile_record_def)

section \<open>Properties\<close>

text \<open>C24: after merging the log records over the base records, a file of a partition is
  active exactly when the last record of the partition that mentions it does not delete it.\<close>

theorem merged_file_active_iff_last_mention:
  assumes "res_map (decode_files_partition_record datum) base_records = Ok bs"
    and "res_map (decode_files_partition_record datum) log_records = Ok ls"
    and "distinct (map fp_key bs)"
  shows "\<exists>m. merge_records datum base_records log_records = Ok m \<and>
    (active_in (bm_get m k) n \<longleftrightarrow> last_mention k n (bs @ ls) = Some True)"
proof -
  have empty: "merged_ok []" "\<not> active_in (bm_get ([] :: merged_records) k) n"
    by (simp_all add: merged_ok_def active_in_def bm_get_def)
  have base: "merged_ok (fold (\<lambda>d m. bm_insert (fp_key d) d m) bs []) \<and>
    (active_in (bm_get (fold (\<lambda>d m. bm_insert (fp_key d) d m) bs []) k) n \<longleftrightarrow>
     fold (mention k n) bs None = Some True)"
    using active_base_fold [OF empty(1) decoded_files_ok [OF assms(1)] assms(3), of k n None]
      empty by simp
  have "active_in (bm_get (fold (\<lambda>d m. merge_log_record m d) ls
      (fold (\<lambda>d m. bm_insert (fp_key d) d m) bs [])) k) n \<longleftrightarrow>
    fold (mention k n) ls (fold (mention k n) bs None) = Some True"
    using base by (intro active_log_fold decoded_files_ok [OF assms(2)]) auto
  then show ?thesis
    using merge_records_decoded [OF assms(1,2)] by (simp add: last_mention_def)
qed

theorem merged_file_active_iff_last_mention_witness:
  "\<exists>m. merge_records sample_datum [sample_hfile_record 1]
      [sample_hfile_record 2, sample_hfile_record 1] = Ok m \<and> active_in (bm_get m ''p'') ''f1''"
proof -
  have base: "res_map (decode_files_partition_record sample_datum) [sample_hfile_record 1] =
      Ok [sample_record False]"
    and log: "res_map (decode_files_partition_record sample_datum)
      [sample_hfile_record 2, sample_hfile_record 1] = Ok [sample_record True, sample_record False]"
    by (simp_all add: sample_decoded_record)
  have "last_mention ''p'' ''f1'' ([sample_record False] @ [sample_record True, sample_record False])
      = Some True"
    by (simp add: last_mention_def mention_def sample_record_def bm_get_def)
  then show ?thesis
    using merged_file_active_iff_last_mention [OF base log, of "''p''" "''f1''"] by simp
qed

text \<open>C38: a key is always routed to an existing shard; the doubled absolute value makes
  this hold for the hash that is the least 32-bit integer too.\<close>

theorem file_group_index_in_range:
  assumes "0 < n" "n < 2 ^ 31"
  shows "\<exists>i < n. file_group_index key n = Ok i"
proof (cases "n \<le> 1")
  case True
  then show ?thesis using assms by (auto simp: file_group_index_def)
next
  case False
  define a where "a = wrapping_abs (java_string_hash key)"
  have n: "(word_of_nat n :: 32 word) = word_of_int (int n)" by simp
  have d: "sint (word_of_nat n :: 32 word) = int n"
    unfolding n using assms by (intro sint_word_of_int_32) auto
  then have d0: "(word_of_nat n :: 32 word) \<noteq> 0" "(word_of_nat n :: 32 word) \<noteq> - 1"
    using False by auto
  define r where "r = sint a smod int n"
  have r: "\<bar>r\<bar> < int n" unfolding r_def using False by (intro smod_bound) simp
  have sr: "sint (word_of_int r :: 32 word) = r"
    using r assms by (intro sint_word_of_int_32) auto
  have "sint (wrapping_abs (word_of_int r)) = \<bar>r\<bar>"
    using r assms by (simp add: sint_wrapping_abs sr)
  moreover have "\<bar>r\<bar> mod 2 ^ 64 = \<bar>r\<bar>" using r assms by (intro mod_pos_pos_trivial) auto
  ultimately have "file_group_index key n = Ok (nat \<bar>r\<bar>)"
    using False d0 by (simp add: file_group_index_def Let_def d r_def a_def)
  then show ?thesis using r by (intro exI [of _ "nat \<bar>r\<bar>"]) auto
qed

theorem file_group_index_in_range_witness:
  "\<exists>i < 4. file_group_index ''2024/01/01'' 4 = Ok i"
  by (rule file_group_index_in_range) simp_all

text \<open>Restricting the merge to a set of keys gives, for those keys, exactly the records
  of the full merge, and nothing for any other key.\<close>

theorem merge_for_keys_restricts:
  assumes "res_map (decode_files_partition_record datum) base_records = Ok bs"
    and "res_map (decode_files_partition_record datum) log_records = Ok ls"
    and "list_all (\<lambda>r. key_as_str r \<noteq> Some []) (base_records @ log_records)"
    and "keys \<noteq> []" "[] \<notin> set keys"
  shows "\<exists>m m'. merge_records datum base_records log_records = Ok m \<and>
    merge_for_keys datum base_records log_records keys = Ok m' \<and>
    bm_get m' k = (if k \<in> normalize_key ` set keys then bm_get m k else None)"
proof -
  let ?P = "\<lambda>d. fp_key d \<in> normalize_key ` set keys"
  let ?base = "\<lambda>ds. fold (\<lambda>d m. bm_insert (fp_key d) d m) ds ([] :: merged_records)"
  let ?log = "\<lambda>ds m. fold (\<lambda>d m. merge_log_record m d) ds m"
  have all: "merge_records datum base_records log_records = Ok (?log ls (?base bs))"
    by (rule merge_records_decoded [OF assms(1,2)])
  have sel: "merge_for_keys datum base_records log_records keys =
      Ok (?log (filter ?P ls) (?base (filter ?P bs)))"
    unfolding merge_for_keys_filter [OF assms(4)]
    using assms(3) by (intro merge_records_decoded decoded_selected assms(1,2,5)) simp_all
  have get: "bm_get (?log ds (?base es)) k = fold (log_at k) ds (fold (base_at k) es None)"
    for ds es
    using bm_get_base_fold [of "[]" es k] by (simp add: bm_get_log_fold) (simp add: bm_get_def)
  have "bm_get (?log (filter ?P ls) (?base (filter ?P bs))) k =
      (if k \<in> normalize_key ` set keys then bm_get (?log ls (?base bs)) k else None)"
  proof (cases "k \<in> normalize_key ` set keys")
    case True
    then have "fold (log_at k) (filter ?P ls) acc = fold (log_at k) ls acc"
      "fold (base_at k) (filter ?P bs) acc = fold (base_at k) bs acc" for acc
      using fold_at_filter [of ls ?P k acc] fold_at_filter [of bs ?P k acc] by blast+
    then show ?thesis unfolding get using True by simp
  next
    case False
    then have "fp_key d \<noteq> k" if "d \<in> set (filter ?P ds)" for d ds using that by auto
    then have "fold (log_at k) (filter ?P ls) acc = acc"
      "fold (base_at k) (filter ?P bs) acc = acc" for acc
      using fold_at_none [of "filter ?P ls" k acc] fold_at_none [of "filter ?P bs" k acc] by blast+
    then show ?thesis unfolding get using False by simp
  qed
  then show ?thesis using all sel by blast
qed

theorem merge_for_keys_restricts_witness:
  "\<exists>m m'. merge_records sample_datum [sample_hfile_record 1] [sample_hfile_record 2] = Ok m \<and>
    merge_for_keys sample_datum [sample_hfile_record 1] [sample_hfile_record 2] [''p''] = Ok m' \<and>
    bm_get m' ''p'' = bm_get m ''p''"
proof -
  have base: "res_map (decode_files_partition_record sample_datum) [sample_hfile_record 1] =
      Ok [sample_record False]"
    and log: "res_map (decode_files_partition_record sample_datum) [sample_hfile_record 2] =
      Ok [sample_record True]"
    by (simp_all add: sample_decoded_record)
  show ?thesis
    using merge_for_keys_restricts [OF base log, of "[''p'']" "''p''"]
    by (simp add: sample_key normalize_key_def NON_PARTITIONED_NAME_def)
qed

end
