(* ===== verification/File_Listing.thy ===== *)
theory File_Listing
  imports Metadata_Table
begin

text \<open>
  From file names to file slices: \<open>src/crates/core/src/table/listing.rs\<close>,
  \<open>table/fs_view.rs\<close>, \<open>file_group/builder.rs\<close>, the base file format of
  \<open>config/table.rs\<close>, the write stats of \<open>metadata/commit.rs\<close> and
  \<open>metadata/replace_commit.rs\<close>, and the file-group queries of \<open>timeline/mod.rs\<close>. Files are
  grouped by file id, files of uncommitted instants are dropped, and a query takes from
  every group that was not replaced the slice as of its timestamp. The completion-time view
  enters as its two functions. Hash maps are iterated in an unspecified order; the model
  iterates them in key order and no theorem depends on it.
\<close>

section \<open>Base file formats\<close>

datatype BaseFileFormat = Parquet | HFileFormat | Lance

definition ends_with_ignore_ascii_case :: "string \<Rightarrow> string \<Rightarrow> bool" where
  "ends_with_ignore_ascii_case s sfx =
     (length sfx \<le> length s \<and>
      map ascii_lower (drop (length s - length sfx) s) = map ascii_lower sfx)"

definition format_suffix :: "BaseFileFormat \<Rightarrow> string" where
  "format_suffix f = (case f of
      Parquet \<Rightarrow> ''.parquet'' | HFileFormat \<Rightarrow> ''.hfile'' | Lance \<Rightarrow> ''.lance'')"

definition format_from_extension :: "string \<Rightarrow> BaseFileFormat option" where
  "format_from_extension path =
     (if ends_with_ignore_ascii_case path ''.parquet'' then Some Parquet
      else if ends_with_ignore_ascii_case path ''.hfile'' then Some HFileFormat
      else if ends_with_ignore_ascii_case path ''.lance'' then Some Lance
      else None)"

definition matches_extension :: "BaseFileFormat \<Rightarrow> string \<Rightarrow> bool" where
  "matches_extension f path = ends_with_ignore_ascii_case path (format_suffix f)"

definition format_from_str :: "string \<Rightarrow> BaseFileFormat result" where
  "format_from_str s =
     (let l = map ascii_lower s in
      if l = ''parquet'' then Ok Parquet
      else if l = ''hfile'' then Ok HFileFormat
      else if l = ''lance'' then Ok Lance
      else Err ConfigError)"

definition is_base_file_name :: "BaseFileFormat option \<Rightarrow> string \<Rightarrow> bool" where
  "is_base_file_name configured name =
     (case configured of None \<Rightarrow> format_from_extension name \<noteq> None
      | Some f \<Rightarrow> matches_extension f name)"

section \<open>Grouping files by file id\<close>

definition push_entry :: "string \<Rightarrow> 'a \<Rightarrow> (string, 'a list) btree_map \<Rightarrow> (string, 'a list) btree_map"
  where
  "push_entry k x m = bm_insert k ((case bm_get m k of None \<Rightarrow> [] | Some xs \<Rightarrow> xs) @ [x]) m"

definition group_by_key :: "('a \<Rightarrow> string) \<Rightarrow> 'a list \<Rightarrow> (string, 'a list) btree_map" where
  "group_by_key key xs = fold (\<lambda>x. push_entry (key x) x) xs []"

type_synonym estimator = "nat \<Rightarrow> int \<times> int"

definition estimate :: "estimator option \<Rightarrow> nat \<Rightarrow> int \<times> int" where
  "estimate e sz = (case e of None \<Rightarrow> (0, 0) | Some f \<Rightarrow> f sz)"

text \<open>What one listed file contributes.\<close>

datatype listed = ListedBase BaseFile | ListedLog LogFile | Skipped

definition base_files_of :: "listed list \<Rightarrow> BaseFile list" where
  "base_files_of cs = List.map_filter (\<lambda>c. case c of ListedBase b \<Rightarrow> Some b | _ \<Rightarrow> None) cs"

definition log_files_of :: "listed list \<Rightarrow> LogFile list" where
  "log_files_of cs = List.map_filter (\<lambda>c. case c of ListedLog l \<Rightarrow> Some l | _ \<Rightarrow> None) cs"

definition build_with_base_files ::
  "string \<Rightarrow> (string, BaseFile list) btree_map \<Rightarrow> (string, LogFile list) btree_map
   \<Rightarrow> FileGroup list result" where
  "build_with_base_files part bases logs =
     res_map (\<lambda>(file_id, bs).
       res_bind (add_base_files (file_group_new file_id part) bs) (\<lambda>g.
         add_log_files g (case bm_get logs file_id of None \<Rightarrow> [] | Some ls \<Rightarrow> ls))) bases"

definition build_log_only ::
  "string \<Rightarrow> (string, BaseFile list) btree_map \<Rightarrow> (string, LogFile list) btree_map
   \<Rightarrow> FileGroup list result" where
  "build_log_only part bases logs =
     res_map (\<lambda>(file_id, ls). add_log_files (file_group_new file_id part) ls)
       (filter (\<lambda>e. bm_get bases (fst e) = None) logs)"

section \<open>Listing from storage\<close>

definition PARTITION_METAFIELD_PREFIX :: string where
  "PARTITION_METAFIELD_PREFIX = ''.hoodie_partition_metadata''"

definition should_exclude_for_listing :: "string \<Rightarrow> bool" where
  "should_exclude_for_listing name = starts_with PARTITION_METAFIELD_PREFIX name"

definition estimate_metadata :: "estimator option \<Rightarrow> FileMetadata \<Rightarrow> FileMetadata" where
  "estimate_metadata e m =
     (if fm_size m > 0 then
        (let (b, n) = estimate e (fm_size m) in m\<lparr>fm_byte_size := b, fm_num_records := n\<rparr>)
      else m)"

definition classify_listed ::
  "BaseFileFormat option \<Rightarrow> (string \<Rightarrow> string option) \<Rightarrow> (string \<Rightarrow> bool) \<Rightarrow> estimator option
   \<Rightarrow> FileMetadata \<Rightarrow> listed result" where
  "classify_listed fmt completion committed e md =
     (if should_exclude_for_listing (fm_name md) then Ok Skipped
      else if is_base_file_name fmt (fm_name md) then
        res_bind (base_file_try_from md) (\<lambda>b0.
          let b = base_set_completion_time completion b0 in
          if \<not> committed (bf_commit_timestamp b) then Ok Skipped
          else Ok (ListedBase (b\<lparr>bf_file_metadata :=
                 map_option (estimate_metadata e) (bf_file_metadata b)\<rparr>)))
      else (case log_file_try_from md of
        Inr l0 \<Rightarrow>
          let l = log_set_completion_time completion l0 in
          if \<not> committed (lf_timestamp l) then Ok Skipped else Ok (ListedLog l)
      | Inl _ \<Rightarrow> Ok Skipped))"

definition list_file_groups_for_partition ::
  "BaseFileFormat option result \<Rightarrow> (string \<Rightarrow> string option) \<Rightarrow> (string \<Rightarrow> bool)
   \<Rightarrow> estimator option \<Rightarrow> string \<Rightarrow> FileMetadata list result \<Rightarrow> FileGroup list result" where
  "list_file_groups_for_partition fmt completion committed e part files =
     res_bind fmt (\<lambda>f. res_bind files (\<lambda>mds.
     res_bind (res_map (classify_listed f completion committed e) mds) (\<lambda>cs.
       let bases = group_by_key bf_file_id (base_files_of cs);
           logs = group_by_key lf_file_id (log_files_of cs)
       in res_bind (build_with_base_files part bases logs) (\<lambda>gs.
          res_bind (build_log_only part bases logs) (\<lambda>gs'. Ok (gs @ gs'))))))"

section \<open>Listing from the metadata table\<close>

definition classify_metadata_file ::
  "BaseFileFormat option \<Rightarrow> (string \<Rightarrow> string option) \<Rightarrow> (string \<Rightarrow> bool) \<Rightarrow> estimator option
   \<Rightarrow> string \<times> nat \<Rightarrow> listed result" where
  "classify_metadata_file fmt completion committed e f =
     (let (name, sz) = f in
      if starts_with ''.'' name then
        (case log_file_from_str name of
           Inl _ \<Rightarrow> Err FileGroupError
         | Inr l0 \<Rightarrow>
            let l = log_set_completion_time completion l0 in
            if \<not> committed (lf_timestamp l) then Ok Skipped
            else Ok (ListedLog (if sz > 0
              then l\<lparr>lf_file_metadata := Some (file_metadata_new name sz)\<rparr> else l)))
      else if is_base_file_name fmt name then
        (case base_file_from_str name of
           Inl _ \<Rightarrow> Err FileGroupError
         | Inr b0 \<Rightarrow>
            let b = base_set_completion_time completion b0 in
            if \<not> committed (bf_commit_timestamp b) then Ok Skipped
            else Ok (ListedBase (if sz > 0
              then (let (bs, n) = estimate e sz in b\<lparr>bf_file_metadata := Some
                \<lparr>fm_name = name, fm_size = sz, fm_byte_size = bs, fm_num_records = n\<rparr>\<rparr>)
              else b)))
      else Ok Skipped)"

definition groups_of_partition_record ::
  "BaseFileFormat option \<Rightarrow> (string \<Rightarrow> string option) \<Rightarrow> (string \<Rightarrow> bool) \<Rightarrow> estimator option
   \<Rightarrow> string \<Rightarrow> FilesPartitionRecord \<Rightarrow> FileGroup list result" where
  "groups_of_partition_record fmt completion committed e part r =
     res_bind (res_map (classify_metadata_file fmt completion committed e)
                 (active_files_with_sizes r)) (\<lambda>cs.
       build_with_base_files part (group_by_key bf_file_id (base_files_of cs))
         (group_by_key lf_file_id (log_files_of cs)))"

definition file_groups_from_files_partition_records ::
  "merged_records \<Rightarrow> BaseFileFormat option \<Rightarrow> (string \<Rightarrow> string option) \<Rightarrow> (string \<Rightarrow> bool)
   \<Rightarrow> estimator option \<Rightarrow> (string, FileGroup list) btree_map result" where
  "file_groups_from_files_partition_records records fmt completion committed e =
     res_fold (\<lambda>acc (part, r).
       if is_all_partitions r then Ok acc
       else res_bind (groups_of_partition_record fmt completion committed e part r) (\<lambda>gs.
         Ok (if gs = [] then acc else bm_insert part gs acc))) [] records"

section \<open>Commit metadata\<close>

text \<open>The fields of a write stat the reader consults.\<close>

record HoodieWriteStat =
  ws_file_id :: "string option"
  ws_path :: "string option"
  ws_base_file :: "string option"
  ws_log_files :: "string list option"
  ws_file_size_in_bytes :: "int option"

record HoodieCommitMetadata =
  cm_partition_to_write_stats :: "(string \<times> HoodieWriteStat list) list option"
  cm_partition_to_replace_file_ids :: "(string \<times> string list) list option"

definition iter_write_stats :: "HoodieCommitMetadata \<Rightarrow> (string \<times> HoodieWriteStat) list" where
  "iter_write_stats m =
     (case cm_partition_to_write_stats m of None \<Rightarrow> []
      | Some stats \<Rightarrow> concat (map (\<lambda>(p, ws). map (\<lambda>w. (p, w)) ws) stats))"

definition iter_replace_file_ids :: "HoodieCommitMetadata \<Rightarrow> (string \<times> string) list" where
  "iter_replace_file_ids m =
     (case cm_partition_to_replace_file_ids m of None \<Rightarrow> []
      | Some ids \<Rightarrow> concat (map (\<lambda>(p, fs). map (\<lambda>f. (p, f)) fs) ids))"

definition base_file_path_of :: "string \<times> HoodieWriteStat \<Rightarrow> string option" where
  "base_file_path_of e =
     (let (part, stat) = e;
          nonempty = (\<lambda>m. case m of None \<Rightarrow> None | Some s \<Rightarrow> if s = [] then None else Some s)
      in case nonempty (ws_base_file stat) of
           Some b \<Rightarrow> Some (if part = [] then b else part @ ''/'' @ b)
         | None \<Rightarrow> if ws_log_files stat \<noteq> None then None else nonempty (ws_path stat))"

definition iter_base_file_paths :: "HoodieCommitMetadata \<Rightarrow> string list" where
  "iter_base_file_paths m = List.map_filter base_file_path_of (iter_write_stats m)"

text \<open>\<open>Path::file_name\<close>: the last component, unless the path ends in its parent.\<close>

definition path_file_name :: "string \<Rightarrow> string option" where
  "path_file_name p =
     (let comps = filter (\<lambda>c. c \<noteq> [] \<and> c \<noteq> ''.'') (split_on (CHR ''/'') p)
      in if comps = [] \<or> last comps = ''..'' then None else Some (last comps))"

definition log_file_names_in :: "HoodieWriteStat \<Rightarrow> string list" where
  "log_file_names_in stat =
     (case ws_log_files stat of
        Some (n # ns) \<Rightarrow> n # ns
      | _ \<Rightarrow> (case Option.bind (ws_path stat) path_file_name of
                None \<Rightarrow> []
              | Some name \<Rightarrow> if is_log_file_name name then [name] else []))"

text \<open>Sets of file groups: equality is that of file id and partition.\<close>

definition hs_insert :: "FileGroup \<Rightarrow> FileGroup list \<Rightarrow> FileGroup list" where
  "hs_insert g s = (if list_ex (file_group_eq g) s then s else s @ [g])"

definition hs_merge_one :: "FileGroup list \<Rightarrow> FileGroup \<Rightarrow> FileGroup list result" where
  "hs_merge_one s g =
     (case List.find (file_group_eq g) s of
        Some existing \<Rightarrow>
          res_bind (file_group_merge existing g) (\<lambda>m.
            Ok (filter (\<lambda>h. \<not> file_group_eq g h) s @ [m]))
      | None \<Rightarrow> Ok (s @ [g]))"

definition hs_merge :: "FileGroup list \<Rightarrow> FileGroup list \<Rightarrow> FileGroup list result" where
  "hs_merge s gs = res_fold hs_merge_one s gs"

record CommitFileGroups =
  cfg_file_groups :: "FileGroup list"
  cfg_unattached_log_files :: "(string \<times> string) list" \<comment> \<open>partition and file id\<close>

definition write_stat_base_name :: "HoodieWriteStat \<Rightarrow> string option result" where
  "write_stat_base_name stat =
     (if ws_base_file stat = None \<or> ws_base_file stat = Some [] then
        res_bind (ok_or CommitMetadataError (ws_path stat)) (\<lambda>path.
        res_bind (ok_or CommitMetadataError (path_file_name path)) (\<lambda>name.
          Ok (if is_log_file_name name then None else Some name)))
      else Ok (ws_base_file stat))"

definition base_file_of_stat ::
  "(string \<Rightarrow> string option) \<Rightarrow> estimator option \<Rightarrow> HoodieWriteStat \<Rightarrow> string
   \<Rightarrow> BaseFile result" where
  "base_file_of_stat completion e stat base_name =
     res_bind (base_file_from_str base_name) (\<lambda>b0.
       let b = base_set_completion_time completion b0;
           for_base = (Option.bind (ws_path stat) path_file_name = Some base_name)
       in Ok (case ws_file_size_in_bytes stat of
            Some s \<Rightarrow> if for_base \<and> s > 0 then
                (let (bs, n) = estimate e (nat s) in b\<lparr>bf_file_metadata := Some
                  \<lparr>fm_name = base_name, fm_size = nat s, fm_byte_size = bs,
                   fm_num_records = n\<rparr>\<rparr>)
              else b
          | None \<Rightarrow> b))"

definition add_write_stat ::
  "(string \<Rightarrow> string option) \<Rightarrow> estimator option \<Rightarrow> CommitFileGroups \<Rightarrow> string \<times> HoodieWriteStat
   \<Rightarrow> CommitFileGroups result" where
  "add_write_stat completion e acc ps =
     (let (part, stat) = ps in
      res_bind (ok_or CommitMetadataError (ws_file_id stat)) (\<lambda>file_id.
      res_bind (write_stat_base_name stat) (\<lambda>bn. case bn of
        None \<Rightarrow>
          res_bind (res_map log_file_from_str (log_file_names_in stat)) (\<lambda>ls.
            Ok (acc\<lparr>cfg_unattached_log_files :=
                 cfg_unattached_log_files acc @ map (\<lambda>_. (part, file_id)) ls\<rparr>))
      | Some base_name \<Rightarrow>
          res_bind (base_file_of_stat completion e stat base_name) (\<lambda>b.
          res_bind (add_base_file (file_group_new file_id part) b) (\<lambda>g.
          res_bind (case ws_log_files stat of None \<Rightarrow> Ok g
              | Some names \<Rightarrow> res_fold (\<lambda>g n. res_bind (log_file_from_str n) (\<lambda>l.
                  add_log_file g (log_set_completion_time completion l))) g names) (\<lambda>g'.
            Ok (acc\<lparr>cfg_file_groups := hs_insert g' (cfg_file_groups acc)\<rparr>)))))))"

definition file_groups_from_commit_metadata ::
  "(string \<Rightarrow> string option) \<Rightarrow> estimator option \<Rightarrow> HoodieCommitMetadata
   \<Rightarrow> CommitFileGroups result" where
  "file_groups_from_commit_metadata completion e m =
     res_fold (add_write_stat completion e)
       \<lparr>cfg_file_groups = [], cfg_unattached_log_files = []\<rparr> (iter_write_stats m)"

definition replaced_file_groups_from_replace_commit :: "HoodieCommitMetadata \<Rightarrow> (string \<times> string) set"
  where
  "replaced_file_groups_from_replace_commit m =
     set (map (\<lambda>(part, file_id). (file_id, part)) (iter_replace_file_ids m))"

section \<open>File groups of the timeline\<close>

text \<open>Reading and parsing the metadata file of an instant is a parameter.\<close>

definition get_replaced_file_groups_as_of ::
  "chrono \<Rightarrow> timeline_config \<Rightarrow> (Instant \<Rightarrow> HoodieCommitMetadata result) \<Rightarrow> Timeline \<Rightarrow> string
   \<Rightarrow> (string \<times> string) set result" where
  "get_replaced_file_groups_as_of ch cfg metadata tml ts =
     res_bind (completed_replacecommits_in_range ch cfg None (Some ts)) (\<lambda>sel.
       res_fold (\<lambda>acc i. res_bind (metadata i) (\<lambda>m.
         Ok (acc \<union> replaced_file_groups_from_replace_commit m))) {} (select sel tml))"

definition get_file_groups_between ::
  "chrono \<Rightarrow> timeline_config \<Rightarrow> (Instant \<Rightarrow> HoodieCommitMetadata result) \<Rightarrow> Timeline
   \<Rightarrow> string option \<Rightarrow> string option \<Rightarrow> estimator option \<Rightarrow> FileGroup list result" where
  "get_file_groups_between ch cfg metadata tml start end' e =
     res_bind (completed_actions_in_range ch DEFAULT_LOADING_ACTIONS cfg start end') (\<lambda>sel.
       let commits = select sel tml in
       if commits = [] then Ok []
       else
         let v = view_new cfg (inst_timestamp (last commits))
                   (Some (inst_timestamp (hd commits))) commits {}
         in res_bind (res_fold (\<lambda>(groups, replaced) c.
              res_bind (metadata c) (\<lambda>m.
              res_bind (file_groups_from_commit_metadata (get_completion_time v) e m) (\<lambda>contrib.
              res_bind (hs_merge groups (cfg_file_groups contrib)) (\<lambda>groups'.
                let groups'' = fold (\<lambda>(part, file_id) gs.
                       hs_insert (file_group_new file_id part) gs)
                     (cfg_unattached_log_files contrib) groups';
                    replaced' = (if instant_is_replacecommit c
                       then replaced \<union> replaced_file_groups_from_replace_commit m
                       else replaced)
                in Ok (groups'', replaced'))))) ([], {}) commits) (\<lambda>(groups, replaced).
            Ok (filter (\<lambda>g. (fg_file_id g, fg_partition_path g) \<notin> replaced) groups)))"

section \<open>The file system view\<close>

text \<open>\<open>apply_stats_pruning_from_footers\<close>, for one file group: \<open>None\<close> when it is pruned. Reading
  a footer and the pruning test are parameters; every failure keeps the group.\<close>

definition prune_file_group ::
  "(string \<Rightarrow> (FileMetadata \<times> 'stats) result) \<Rightarrow> ('stats \<Rightarrow> bool) \<Rightarrow> string \<Rightarrow> FileGroup
   \<Rightarrow> FileGroup option" where
  "prune_file_group footer include as_of g =
     (case bm_last_le as_of (fg_file_slices g) of
        None \<Rightarrow> Some g
      | Some (k, s) \<Rightarrow>
          (case base_file_relative_path s of
             Inl _ \<Rightarrow> Some g
           | Inr None \<Rightarrow> Some g
           | Inr (Some path) \<Rightarrow>
               if \<not> matches_extension Parquet path then Some g
               else (case footer path of
                   Inl _ \<Rightarrow> Some g
                 | Inr (md, stats) \<Rightarrow>
                     if include stats then
                       Some (g\<lparr>fg_file_slices := bm_insert k
                         (s\<lparr>fs_base_file := map_option
                            (\<lambda>b. b\<lparr>bf_file_metadata := Some md\<rparr>) (fs_base_file s)\<rparr>)
                         (fg_file_slices g)\<rparr>)
                     else None)))"

definition apply_stats_pruning_from_footers ::
  "(string \<Rightarrow> (FileMetadata \<times> 'stats) result) \<Rightarrow> ('stats \<Rightarrow> bool) option \<Rightarrow> string
   \<Rightarrow> BaseFileFormat option \<Rightarrow> FileGroup list \<Rightarrow> FileGroup list" where
  "apply_stats_pruning_from_footers footer pruner as_of fmt gs =
     (case pruner of
        None \<Rightarrow> gs
      | Some include \<Rightarrow>
          if fmt \<noteq> None \<and> fmt \<noteq> Some Parquet then gs
          else List.map_filter (prune_file_group footer include as_of) gs)"

text \<open>The part of \<open>load_file_groups\<close> after the listing. The partition pruner is \<open>None\<close> when it
  has no filters.\<close>

definition load_file_groups ::
  "bool \<Rightarrow> (string \<Rightarrow> bool) option \<Rightarrow> (FileGroup list \<Rightarrow> FileGroup list)
   \<Rightarrow> (string, FileGroup list) btree_map \<Rightarrow> (string, FileGroup list) btree_map" where
  "load_file_groups from_metadata partition_pruner prune listed =
     map (\<lambda>(p, gs). (p, prune gs)) (filter (\<lambda>(p, _).
       \<not> (from_metadata \<and> (case partition_pruner of None \<Rightarrow> False
             | Some inc \<Rightarrow> \<not> inc p))) listed)"

definition collect_file_slices ::
  "(string \<Rightarrow> bool) \<Rightarrow> TimelineView \<Rightarrow> (string, FileGroup list) btree_map \<Rightarrow> FileSlice list" where
  "collect_file_slices include v loaded =
     concat (map (\<lambda>(p, gs).
       if \<not> include p then []
       else List.map_filter (\<lambda>g.
         if (fg_file_id g, fg_partition_path g) \<in> tv_excluding_file_groups v then None
         else get_file_slice_as_of g (tv_as_of_timestamp v)) gs) loaded)"

section \<open>Validation of a table's versions\<close>

text \<open>The version checks of \<open>validate_configs\<close> in \<open>table/validation.rs\<close>.\<close>

definition validate_versions :: "int result \<Rightarrow> int result \<Rightarrow> bool \<Rightarrow> unit result" where
  "validate_versions table_version layout drops_partition_cols =
     res_bind table_version (\<lambda>tv.
       if \<not> (tv = 6 \<or> tv = 8 \<or> tv = 9) then Err UnsupportedError
       else res_bind layout (\<lambda>lv.
         if lv \<noteq> (if tv \<ge> 8 then 2 else 1) then Err UnsupportedError
         else if drops_partition_cols then Err UnsupportedError else Ok ()))"

section \<open>Facts\<close>

lemma bm_ok_push: "bm_ok m \<Longrightarrow> bm_ok (push_entry k x m)"
  by (simp add: push_entry_def)

lemma bm_get_push:
  "bm_ok m \<Longrightarrow> bm_get (push_entry k x m) k' =
     (if k' = k then Some ((case bm_get m k of None \<Rightarrow> [] | Some xs \<Rightarrow> xs) @ [x])
      else bm_get m k')"
  by (simp add: push_entry_def)

lemma group_by_key_fold:
  "bm_ok m \<Longrightarrow> bm_ok (fold (\<lambda>x. push_entry (key x) x) xs m) \<and>
   bm_get (fold (\<lambda>x. push_entry (key x) x) xs m) k =
     (if filter (\<lambda>x. key x = k) xs = [] then bm_get m k
      else Some ((case bm_get m k of None \<Rightarrow> [] | Some ys \<Rightarrow> ys) @ filter (\<lambda>x. key x = k) xs))"
proof (induction xs arbitrary: m)
  case (Cons x xs)
  show ?case
    using Cons.IH [OF bm_ok_push [OF Cons.prems], of "key x" x] Cons.prems
    by (auto simp: bm_get_push split: option.splits)
qed simp

lemma bm_ok_group_by_key [simp]: "bm_ok (group_by_key key xs)"
  using group_by_key_fold [of "[]" key xs] by (simp add: group_by_key_def)

lemma bm_get_group_by_key:
  "bm_get (group_by_key key xs) k =
     (if filter (\<lambda>x. key x = k) xs = [] then None else Some (filter (\<lambda>x. key x = k) xs))"
  using group_by_key_fold [of "[]" key xs k] by (simp add: group_by_key_def bm_get_def)

lemma group_by_key_entry:
  "(k, ys) \<in> set (group_by_key key xs) \<longleftrightarrow> ys = filter (\<lambda>x. key x = k) xs \<and> ys \<noteq> []"
  by (auto simp: bm_get_in [symmetric] bm_get_group_by_key split: if_splits)

text \<open>Adding files keeps the group's identity; adding log files keeps the base files.\<close>

lemma res_fold_same_group:
  "(\<And>g x g'. f g x = Ok g' \<Longrightarrow> fg_file_id g' = fg_file_id g \<and>
      fg_partition_path g' = fg_partition_path g) \<Longrightarrow>
   res_fold f g xs = Ok g' \<Longrightarrow> fg_file_id g' = fg_file_id g \<and>
      fg_partition_path g' = fg_partition_path g"
  by (induction xs arbitrary: g) (fastforce simp: res_bind_Inr_iff)+

lemma same_group_files:
  "add_base_files g bs = Ok g' \<Longrightarrow>
     fg_file_id g' = fg_file_id g \<and> fg_partition_path g' = fg_partition_path g"
  "add_log_files g ls = Ok g' \<Longrightarrow>
     fg_file_id g' = fg_file_id g \<and> fg_partition_path g' = fg_partition_path g"
  unfolding add_base_files_def add_log_files_def
  by (rule res_fold_same_group, erule same_group, assumption)+

definition base_at_key :: "FileGroup \<Rightarrow> string \<Rightarrow> BaseFile option" where
  "base_at_key g k =
     (case bm_get (fg_file_slices g) k of None \<Rightarrow> None | Some s \<Rightarrow> fs_base_file s)"

lemma base_at_key_add_base:
  "bm_ok (fg_file_slices g) \<Longrightarrow> add_base_file g b = Ok g' \<Longrightarrow>
   base_at_key g' (bf_commit_timestamp b) = Some b \<and>
   (\<forall>k c. base_at_key g k = Some c \<longrightarrow> base_at_key g' k = Some c)"
  by (auto simp: add_base_file_def base_at_key_def Let_def file_slice_new_def
      split: if_splits option.splits)

lemma base_at_key_add_log:
  assumes "bm_ok (fg_file_slices g)" "add_log_file g l = Ok g'" "base_at_key g k = Some c"
  shows "base_at_key g' k = Some c"
proof -
  have found: "bm_get (fg_file_slices g) k' = Some s"
    if "bm_last_le t (fg_file_slices g) = Some (k', s)" for t k' s
    using bm.last_le_get [OF assms(1) that] by simp
  have free: "bm_last_le t (fg_file_slices g) = None \<Longrightarrow> bm_get (fg_file_slices g) t = None" for t
    using bm.last_le_none [OF assms(1)] by simp
  show ?thesis
    using assms found free
    by (cases "lf_completion_timestamp l";
        cases "bm_last_le (placement_time l) (fg_file_slices g)")
      (auto simp: add_log_file_def base_at_key_def Let_def placement_time_def
        file_slice_insert_log_def new_log_only_def split: if_splits option.splits)
qed

lemma base_at_key_fold_base:
  assumes "file_group_ok g" "res_fold add_base_file g bs = Ok g'"
  shows "file_group_ok g' \<and> (\<forall>b\<in>set bs. base_at_key g' (bf_commit_timestamp b) = Some b) \<and>
    (\<forall>k c. base_at_key g k = Some c \<longrightarrow> base_at_key g' k = Some c)"
  using assms
proof (induction bs arbitrary: g)
  case (Cons b bs)
  from Cons.prems(2) obtain h where h: "add_base_file g b = Ok h"
    "res_fold add_base_file h bs = Ok g'"
    by (auto simp: res_bind_Inr_iff)
  have "file_group_ok h" by (rule file_group_ok_add_base_file [OF Cons.prems(1) h(1)])
  then show ?case
    using Cons.IH [OF _ h(2)] base_at_key_add_base [OF file_group_ok_bm [OF Cons.prems(1)] h(1)]
    by auto
qed simp

lemma base_at_key_fold_log:
  assumes "file_group_ok g" "res_fold add_log_file g ls = Ok g'" "base_at_key g k = Some c"
  shows "file_group_ok g' \<and> base_at_key g' k = Some c"
  using assms
proof (induction ls arbitrary: g)
  case (Cons l ls)
  from Cons.prems(2) obtain h where h: "add_log_file g l = Ok h"
    "res_fold add_log_file h ls = Ok g'"
    by (auto simp: res_bind_Inr_iff)
  show ?case
    using Cons.IH [OF file_group_ok_add_log_file [OF Cons.prems(1) h(1)] h(2)]
      base_at_key_add_log [OF file_group_ok_bm [OF Cons.prems(1)] h(1) Cons.prems(3)] by simp
qed simp

lemma res_map_in: "res_map f xs = Ok ys \<Longrightarrow> x \<in> set xs \<Longrightarrow> \<exists>y\<in>set ys. f x = Ok y"
  by (induction xs arbitrary: ys) (auto simp: res_bind_Inr_iff)

lemma res_map_out: "res_map f xs = Ok ys \<Longrightarrow> y \<in> set ys \<Longrightarrow> \<exists>x\<in>set xs. f x = Ok y"
  by (induction xs arbitrary: ys) (auto simp: res_bind_Inr_iff)

lemma map_filter_in: "x \<in> set xs \<Longrightarrow> f x = Some y \<Longrightarrow> y \<in> set (List.map_filter f xs)"
  by (force simp: List.map_filter_def)

text \<open>A base file among the classified ones is found in its group at its commit.\<close>

lemma built_base:
  assumes "build_with_base_files part (group_by_key bf_file_id bs) logs = Ok gs" "b \<in> set bs"
  shows "\<exists>g\<in>set gs. fg_file_id g = bf_file_id b \<and> fg_partition_path g = part \<and>
    file_group_ok g \<and> base_at_key g (bf_commit_timestamp b) = Some b"
proof -
  let ?i = "bf_file_id b"
  have "(?i, filter (\<lambda>x. bf_file_id x = ?i) bs) \<in> set (group_by_key bf_file_id bs)"
    using assms(2) by (auto simp: group_by_key_entry filter_empty_conv)
  from res_map_in [OF assms(1) [unfolded build_with_base_files_def] this]
  obtain g h where g: "g \<in> set gs" and
    h: "add_base_files (file_group_new ?i part) (filter (\<lambda>x. bf_file_id x = ?i) bs) = Ok h" and
    hg: "add_log_files h (case bm_get logs ?i of None \<Rightarrow> [] | Some ls \<Rightarrow> ls) = Ok g"
    by (auto simp: res_bind_Inr_iff)
  have "file_group_ok h \<and> base_at_key h (bf_commit_timestamp b) = Some b"
    using base_at_key_fold_base [OF file_group_ok_new h [unfolded add_base_files_def]] assms(2)
    by simp
  then have "file_group_ok g \<and> base_at_key g (bf_commit_timestamp b) = Some b"
    using base_at_key_fold_log [OF _ hg [unfolded add_log_files_def]] by blast
  moreover have "fg_file_id g = ?i \<and> fg_partition_path g = part"
    using same_group_files(1) [OF h] same_group_files(2) [OF hg] by (simp add: file_group_new_def)
  ultimately show ?thesis using g by blast
qed

text \<open>A log file among the classified ones is placed in its group, base file or not.\<close>

lemma built_log:
  assumes "build_with_base_files part (group_by_key bf_file_id bs)
      (group_by_key lf_file_id ls) = Ok gs"
    and "build_log_only part (group_by_key bf_file_id bs) (group_by_key lf_file_id ls) = Ok gs'"
    and "l \<in> set ls" "list_all (\<lambda>l. lf_timestamp l \<le> placement_time l) ls"
  shows "\<exists>g\<in>set (gs @ gs'). fg_file_id g = lf_file_id l \<and> fg_partition_path g = part \<and> placed g l"
proof -
  let ?i = "lf_file_id l"
  let ?ls = "filter (\<lambda>x. lf_file_id x = ?i) ls"
  have l: "l \<in> set ?ls" using assms(3) by simp
  have entry: "(?i, ?ls) \<in> set (group_by_key lf_file_id ls)"
    using assms(3) by (auto simp: group_by_key_entry filter_empty_conv)
  have get: "bm_get (group_by_key lf_file_id ls) ?i = Some ?ls"
    using entry by (simp add: bm_get_in)
  have all: "list_all (\<lambda>l. lf_timestamp l \<le> placement_time l) ?ls"
    using assms(4) by (auto simp: list_all_iff)
  have placed: "placed g l" if "add_log_files h ?ls = Ok g" "file_group_ok h" for g h
    using log_files_placed [OF that(2,1) all] l by (auto simp: list_all_iff)
  show ?thesis
  proof (cases "bm_get (group_by_key bf_file_id bs) ?i")
    case None
    then have "(?i, ?ls) \<in> set (filter (\<lambda>e. bm_get (group_by_key bf_file_id bs) (fst e) = None)
        (group_by_key lf_file_id ls))" using entry by simp
    from res_map_in [OF assms(2) [unfolded build_log_only_def] this]
    obtain g where g: "g \<in> set gs'" "add_log_files (file_group_new ?i part) ?ls = Ok g" by auto
    then show ?thesis
      using placed [OF g(2) file_group_ok_new] same_group_files(2) [OF g(2)]
      by (auto simp: file_group_new_def)
  next
    case (Some bs')
    then have "(?i, bs') \<in> set (group_by_key bf_file_id bs)" by (simp add: bm_get_in)
    from res_map_in [OF assms(1) [unfolded build_with_base_files_def] this]
    obtain g h where g: "g \<in> set gs" and h: "add_base_files (file_group_new ?i part) bs' = Ok h"
      and hg: "add_log_files h ?ls = Ok g"
      by (auto simp: res_bind_Inr_iff get)
    have "file_group_ok h"
      using base_at_key_fold_base [OF file_group_ok_new h [unfolded add_base_files_def]] by simp
    then show ?thesis
      using g placed [OF hg] same_group_files(1) [OF h] same_group_files(2) [OF hg]
      by (auto simp: file_group_new_def)
  qed
qed

text \<open>Every file of a group satisfies a predicate.\<close>

definition files_sat :: "(BaseFile \<Rightarrow> bool) \<Rightarrow> (LogFile \<Rightarrow> bool) \<Rightarrow> FileGroup \<Rightarrow> bool" where
  "files_sat P Q g = list_all (\<lambda>(k, s). pred_option P (fs_base_file s) \<and>
     list_all Q (fs_log_files s)) (fg_file_slices g)"

lemma files_sat_new [simp]: "files_sat P Q (file_group_new i p)"
  by (simp add: files_sat_def file_group_new_def)

lemma files_sat_insert:
  "files_sat P Q g \<Longrightarrow> pred_option P (fs_base_file s) \<Longrightarrow> list_all Q (fs_log_files s) \<Longrightarrow>
   files_sat P Q (g\<lparr>fg_file_slices := bm_insert k s (fg_file_slices g)\<rparr>)"
  using set_bm_insert_subset [of k s "fg_file_slices g"]
  by (fastforce simp: files_sat_def list_all_iff)

lemma files_sat_add_base:
  "files_sat P Q g \<Longrightarrow> P b \<Longrightarrow> add_base_file g b = Ok g' \<Longrightarrow> files_sat P Q g'"
  by (auto simp: add_base_file_def Let_def file_slice_new_def intro!: files_sat_insert
      split: if_splits)

lemma files_sat_slice:
  "files_sat P Q g \<Longrightarrow> (k, s) \<in> set (fg_file_slices g) \<Longrightarrow> Q l \<Longrightarrow>
   pred_option P (fs_base_file (file_slice_insert_log l s)) \<and>
   list_all Q (fs_log_files (file_slice_insert_log l s))"
  using set_bs_insert_subset [of log_file_cmp l "fs_log_files s"]
  by (fastforce simp: files_sat_def list_all_iff file_slice_insert_log_def)

lemma files_sat_add_log:
  assumes "files_sat P Q g" "Q l" "add_log_file g l = Ok g'" "file_group_ok g"
  shows "files_sat P Q g'"
proof -
  have at: "(k, s) \<in> set (fg_file_slices g)"
    if "bm_last_le t (fg_file_slices g) = Some (k, s) \<or> bm_get (fg_file_slices g) k = Some s"
    for t k s
    using that bm.last_le_get [OF file_group_ok_bm [OF assms(4)]]
    by (auto simp: bm_get_in [OF file_group_ok_bm [OF assms(4)]])
  have new: "pred_option P (fs_base_file (file_slice_insert_log l (new_log_only i k p)))
      \<and> list_all Q (fs_log_files (file_slice_insert_log l (new_log_only i k p)))" for i k p
    using assms(2) by (simp add: new_log_only_def file_slice_insert_log_def)
  show ?thesis
    using assms(3) files_sat_slice [OF assms(1) at assms(2)] new
    by (auto simp: add_log_file_def Let_def intro!: files_sat_insert [OF assms(1)]
        split: if_splits option.splits prod.splits)
qed

lemma files_sat_build:
  assumes "res_map (\<lambda>(i, bs). res_bind (add_base_files (file_group_new i part) bs) (\<lambda>g.
      add_log_files g (case bm_get (group_by_key lf_file_id ls) i of
        None \<Rightarrow> [] | Some ls \<Rightarrow> ls))) (group_by_key bf_file_id bs) = Ok gs"
    "list_all P bs" "list_all Q ls"
  shows "list_all (files_sat P Q) gs"
proof -
  have "files_sat P Q g" if gin: "g \<in> set gs" for g
  proof -
    obtain i bs' h where e: "(i, bs') \<in> set (group_by_key bf_file_id bs)"
      and h: "add_base_files (file_group_new i part) bs' = Ok h"
      and g: "add_log_files h (case bm_get (group_by_key lf_file_id ls) i of
        None \<Rightarrow> [] | Some ls \<Rightarrow> ls) = Ok g"
      using res_map_out [OF assms(1) gin] by (auto simp: res_bind_Inr_iff)
    have bs': "\<forall>b\<in>set bs'. P b" using e assms(2) by (auto simp: group_by_key_entry list_all_iff)
    have ls': "Q l" if "l \<in> set (case bm_get (group_by_key lf_file_id ls) i of
        None \<Rightarrow> [] | Some ls \<Rightarrow> ls)" for l
      using that assms(3) by (auto simp: bm_get_group_by_key list_all_iff split: if_splits)
    have "file_group_ok h \<and> files_sat P Q h"
      by (rule res_fold_invariant [OF h [unfolded add_base_files_def],
            where P = "\<lambda>g. file_group_ok g \<and> files_sat P Q g"])
        (use bs' in \<open>auto intro: file_group_ok_add_base_file files_sat_add_base\<close>)
    then have "file_group_ok g \<and> files_sat P Q g"
      by (rule res_fold_invariant [OF g [unfolded add_log_files_def],
            where P = "\<lambda>g. file_group_ok g \<and> files_sat P Q g"])
        (use ls' in \<open>auto intro: file_group_ok_add_log_file files_sat_add_log\<close>)
    then show ?thesis by simp
  qed
  then show ?thesis by (simp add: list_all_iff)
qed

lemma files_sat_build_log_only:
  assumes "build_log_only part bases (group_by_key lf_file_id ls) = Ok gs" "list_all Q ls"
  shows "list_all (files_sat P Q) gs"
proof -
  have "files_sat P Q g" if gin: "g \<in> set gs" for g
  proof -
    obtain i ls' where e: "(i, ls') \<in> set (group_by_key lf_file_id ls)"
      and g: "add_log_files (file_group_new i part) ls' = Ok g"
      using res_map_out [OF assms(1) [unfolded build_log_only_def] gin] by auto
    have "Q l" if "l \<in> set ls'" for l
      using e that assms(2) by (auto simp: group_by_key_entry list_all_iff)
    then have "file_group_ok g \<and> files_sat P Q g"
      by (intro res_fold_invariant [OF g [unfolded add_log_files_def],
            where P = "\<lambda>g. file_group_ok g \<and> files_sat P Q g"])
        (auto intro: file_group_ok_add_log_file files_sat_add_log)
    then show ?thesis by simp
  qed
  then show ?thesis by (simp add: list_all_iff)
qed

lemma map_filter_mem: "y \<in> set (List.map_filter f xs) \<longleftrightarrow> (\<exists>x\<in>set xs. f x = Some y)"
  by (force simp: List.map_filter_def)

lemma listed_case_iff [simp]:
  "(case c of ListedBase b \<Rightarrow> Some b | _ \<Rightarrow> None) = Some b \<longleftrightarrow> c = ListedBase b"
  "(case c of ListedLog l \<Rightarrow> Some l | _ \<Rightarrow> None) = Some l \<longleftrightarrow> c = ListedLog l"
  by (cases c; simp)+

lemma base_files_of_mem: "b \<in> set (base_files_of cs) \<longleftrightarrow> ListedBase b \<in> set cs"
  by (auto simp: base_files_of_def map_filter_mem)

lemma log_files_of_mem: "l \<in> set (log_files_of cs) \<longleftrightarrow> ListedLog l \<in> set cs"
  by (auto simp: log_files_of_def map_filter_mem)

lemma classify_listed_committed:
  "classify_listed f completion committed e md = Ok (ListedBase b) \<Longrightarrow>
     committed (bf_commit_timestamp b)"
  "classify_listed f completion committed e md = Ok (ListedLog l) \<Longrightarrow>
     committed (lf_timestamp l) \<and> lf_completion_timestamp l = completion (lf_timestamp l)"
  by (auto simp: classify_listed_def base_set_completion_time_def log_set_completion_time_def
      Let_def res_bind_Inr_iff split: if_splits sum.splits)

text \<open>What the listing relies on of the view, used through its interface.\<close>

context completion_time_view
begin

lemma listed_log_completion:
  "classify_listed f completion committed e md = Ok (ListedLog l) \<Longrightarrow>
   lf_completion_timestamp l = Some c \<Longrightarrow> committed (lf_timestamp l)"
  using completed_committed classify_listed_committed(2) by metis

end

lemma storage_listing_committed:
  assumes "list_file_groups_for_partition fmt completion committed e part files = Ok gs"
  shows "list_all (files_sat (\<lambda>b. committed (bf_commit_timestamp b))
    (\<lambda>l. committed (lf_timestamp l))) gs"
proof -
  let ?P = "\<lambda>b. committed (bf_commit_timestamp b)"
  let ?Q = "\<lambda>l. committed (lf_timestamp l)"
  from assms obtain f mds cs gs1 gs2 where
    cs: "res_map (classify_listed f completion committed e) mds = Ok cs" and
    gs1: "build_with_base_files part (group_by_key bf_file_id (base_files_of cs))
      (group_by_key lf_file_id (log_files_of cs)) = Ok gs1" and
    gs2: "build_log_only part (group_by_key bf_file_id (base_files_of cs))
      (group_by_key lf_file_id (log_files_of cs)) = Ok gs2" and
    gs: "gs = gs1 @ gs2"
    by (auto simp: list_file_groups_for_partition_def Let_def res_bind_Inr_iff)
  have "?P b" if "b \<in> set (base_files_of cs)" for b
    using res_map_out [OF cs] that classify_listed_committed(1) unfolding base_files_of_mem
    by blast
  moreover have "?Q l" if "l \<in> set (log_files_of cs)" for l
    using res_map_out [OF cs] that classify_listed_committed(2) unfolding log_files_of_mem
    by blast
  ultimately have "list_all ?P (base_files_of cs)" "list_all ?Q (log_files_of cs)"
    by (auto simp: list_all_iff)
  then have "list_all (files_sat ?P ?Q) gs1" "list_all (files_sat ?P ?Q) gs2"
    using files_sat_build [OF gs1 [unfolded build_with_base_files_def]]
      files_sat_build_log_only [OF gs2] by blast+
  then show ?thesis by (simp add: gs)
qed

section \<open>A listing for the witnesses\<close>

definition sample_file :: FileMetadata where
  "sample_file = file_metadata_new ''fg1_0-1-2_20240101.parquet'' 0"

definition sample_listed_base :: BaseFile where
  "sample_listed_base = sample_base\<lparr>bf_file_metadata := Some sample_file\<rparr>"

definition sample_listed_group :: FileGroup where
  "sample_listed_group = \<lparr>fg_file_id = ''fg1'', fg_partition_path = ''p'',
     fg_file_slices = [(''20240101'', file_slice_new sample_listed_base ''p'')]\<rparr>"

lemma sample_classified:
  assumes "completion ''20240101'' = None" "committed ''20240101''"
  shows "classify_listed (Some Parquet) completion committed None sample_file =
   Ok (ListedBase sample_listed_base)"
  using assms
  by (simp add: classify_listed_def sample_file_def file_metadata_new_def
      should_exclude_for_listing_def starts_with_def PARTITION_METAFIELD_PREFIX_def
      is_base_file_name_def matches_extension_def ends_with_ignore_ascii_case_def
      format_suffix_def base_file_try_from_def base_parse_file_name_def rsplit_once_def
      nth_opt_def Let_def base_set_completion_time_def sample_listed_base_def sample_base_def
      estimate_metadata_def ascii_lower_def)

lemma sample_listing_any:
  assumes "completion ''20240101'' = None" "committed ''20240101''"
  shows "list_file_groups_for_partition (Ok (Some Parquet)) completion committed None
     ''p'' (Ok [sample_file]) = Ok [sample_listed_group]"
  using sample_classified [of completion committed, OF assms]
  by (simp add: list_file_groups_for_partition_def base_files_of_def log_files_of_def
      group_by_key_def push_entry_def bm_get_def build_with_base_files_def build_log_only_def
      add_base_files_def add_base_file_def file_group_new_def Let_def List.map_filter_def
      sample_listed_base_def sample_base_def add_log_files_def sample_listed_group_def)

lemma sample_listing:
  "list_file_groups_for_partition (Ok (Some Parquet)) (\<lambda>_. None) (\<lambda>ts. ts = ''20240101'') None
     ''p'' (Ok [sample_file]) = Ok [sample_listed_group]"
  by (rule sample_listing_any) simp_all

lemma sample_listed_group_ok: "file_group_ok sample_listed_group"
  using slice_ok_new_base [of sample_listed_base "''p''"]
  by (simp add: file_group_ok_def sample_listed_group_def bm_ok_def)
    (simp add: sample_listed_base_def sample_base_def)

section \<open>Properties\<close>

text \<open>Listing a partition from storage reads no file of an uncommitted instant: every
  base file and log file of every slice belongs to an instant the view counts as
  committed.\<close>

theorem storage_listing_committed_only:
  assumes "list_file_groups_for_partition fmt completion committed e part files = Ok gs"
  shows "list_all (files_sat (\<lambda>b. committed (bf_commit_timestamp b))
    (\<lambda>l. committed (lf_timestamp l))) gs"
  using assms by (rule storage_listing_committed)

theorem storage_listing_committed_only_witness:
  "files_sat (\<lambda>b. bf_commit_timestamp b = ''20240101'') (\<lambda>l. lf_timestamp l = ''20240101'')
     sample_listed_group"
  using storage_listing_committed_only [OF sample_listing] by simp

lemma classified_file_in_group:
  assumes "list_file_groups_for_partition (Ok f) completion committed e part (Ok mds) = Ok gs"
    and "md \<in> set mds"
    and after: "\<And>ts c. completion ts = Some c \<Longrightarrow> ts \<le> c"
  shows "(classify_listed f completion committed e md = Ok (ListedBase b) \<longrightarrow>
      (\<exists>g\<in>set gs. fg_file_id g = bf_file_id b \<and> fg_partition_path g = part \<and>
        base_at_key g (bf_commit_timestamp b) = Some b)) \<and>
    (classify_listed f completion committed e md = Ok (ListedLog l) \<longrightarrow>
      (\<exists>g\<in>set gs. fg_file_id g = lf_file_id l \<and> fg_partition_path g = part \<and> placed g l))"
proof -
  from assms(1) obtain cs gs1 gs2 where
    cs: "res_map (classify_listed f completion committed e) mds = Ok cs" and
    gs1: "build_with_base_files part (group_by_key bf_file_id (base_files_of cs))
      (group_by_key lf_file_id (log_files_of cs)) = Ok gs1" and
    gs2: "build_log_only part (group_by_key bf_file_id (base_files_of cs))
      (group_by_key lf_file_id (log_files_of cs)) = Ok gs2" and
    gs: "gs = gs1 @ gs2"
    by (auto simp: list_file_groups_for_partition_def Let_def res_bind_Inr_iff)
  obtain c where c: "c \<in> set cs" "classify_listed f completion committed e md = Ok c"
    using res_map_in [OF cs assms(2)] by blast
  have "lf_timestamp l \<le> placement_time l" if lin: "l \<in> set (log_files_of cs)" for l
  proof -
    obtain md' where "classify_listed f completion committed e md' = Ok (ListedLog l)"
      using lin res_map_out [OF cs] unfolding log_files_of_mem by blast
    then show ?thesis
      using classify_listed_committed(2) after
      by (cases "lf_completion_timestamp l") (auto simp: placement_time_def)
  qed
  then have le: "list_all (\<lambda>l. lf_timestamp l \<le> placement_time l) (log_files_of cs)"
    by (simp add: list_all_iff)
  show ?thesis
  proof (intro conjI impI)
    assume "classify_listed f completion committed e md = Ok (ListedBase b)"
    then have "b \<in> set (base_files_of cs)" using c by (simp add: base_files_of_mem)
    from built_base [OF gs1 this] show "\<exists>g\<in>set gs. fg_file_id g = bf_file_id b \<and>
        fg_partition_path g = part \<and> base_at_key g (bf_commit_timestamp b) = Some b"
      by (auto simp: gs)
  next
    assume "classify_listed f completion committed e md = Ok (ListedLog l)"
    then have "l \<in> set (log_files_of cs)" using c by (simp add: log_files_of_mem)
    from built_log [OF gs1 gs2 this le] show "\<exists>g\<in>set gs. fg_file_id g = lf_file_id l \<and>
        fg_partition_path g = part \<and> placed g l"
      by (simp add: gs)
  qed
qed

text \<open>C20: a successful listing of a partition from storage loses no committed file. Of every listed file
  that is not partition metadata: if its name has the extension of the base file format and parses as that
  of a base file whose instant is committed, its file group is in the listing with that base file, completion time
  and estimated metadata filled in, in the slice of its commit; if its name has not that extension and parses as that of a log
  file whose instant is committed, its file group is in the listing and the log file is in the slice
  its completion time (its own instant without one) selects, also when the group has no base file. Completion times are
  not before the instants they complete.\<close>

theorem storage_listing_complete:
  assumes "list_file_groups_for_partition (Ok f) completion committed e part (Ok mds) = Ok gs"
    and "md \<in> set mds" "\<not> starts_with PARTITION_METAFIELD_PREFIX (fm_name md)"
    and after: "\<And>ts c. completion ts = Some c \<Longrightarrow> ts \<le> c"
  shows "(is_base_file_name f (fm_name md) \<longrightarrow> base_file_try_from md = Ok b \<longrightarrow> committed (bf_commit_timestamp b) \<longrightarrow>
      (\<exists>g\<in>set gs. fg_file_id g = bf_file_id b \<and> fg_partition_path g = part \<and>
        base_at_key g (bf_commit_timestamp b) = Some (b\<lparr>bf_completion_timestamp := completion (bf_commit_timestamp b),
          bf_file_metadata := map_option (estimate_metadata e) (bf_file_metadata b)\<rparr>))) \<and>
    (\<not> is_base_file_name f (fm_name md) \<longrightarrow> log_file_try_from md = Ok l \<longrightarrow> committed (lf_timestamp l) \<longrightarrow>
      (\<exists>g\<in>set gs. fg_file_id g = lf_file_id l \<and> fg_partition_path g = part \<and>
        placed g (l\<lparr>lf_completion_timestamp := completion (lf_timestamp l)\<rparr>)))"
proof (intro conjI impI)
  note in_group = classified_file_in_group [OF assms(1,2) after]
  let ?b = "b\<lparr>bf_completion_timestamp := completion (bf_commit_timestamp b),
    bf_file_metadata := map_option (estimate_metadata e) (bf_file_metadata b)\<rparr>"
  assume b: "is_base_file_name f (fm_name md)" "base_file_try_from md = Ok b" "committed (bf_commit_timestamp b)"
  then have "classify_listed f completion committed e md = Ok (ListedBase ?b)"
    using assms(3) by (simp add: classify_listed_def should_exclude_for_listing_def base_set_completion_time_def)
  then show "\<exists>g\<in>set gs. fg_file_id g = bf_file_id b \<and> fg_partition_path g = part \<and>
      base_at_key g (bf_commit_timestamp b) = Some ?b"
    using in_group [of ?b] by simp
next
  let ?l = "l\<lparr>lf_completion_timestamp := completion (lf_timestamp l)\<rparr>"
  assume l: "\<not> is_base_file_name f (fm_name md)" "log_file_try_from md = Ok l" "committed (lf_timestamp l)"
  then have "classify_listed f completion committed e md = Ok (ListedLog ?l)"
    using assms(3) by (simp add: classify_listed_def should_exclude_for_listing_def log_set_completion_time_def)
  then show "\<exists>g\<in>set gs. fg_file_id g = lf_file_id l \<and> fg_partition_path g = part \<and> placed g ?l"
    using classified_file_in_group [OF assms(1,2) after, of undefined ?l] by simp
qed

theorem storage_listing_complete_witness:
  "base_at_key sample_listed_group ''20240101'' = Some sample_listed_base"
proof -
  have "\<not> starts_with PARTITION_METAFIELD_PREFIX (fm_name sample_file)" "is_base_file_name (Some Parquet) (fm_name sample_file)"
    by (simp_all add: sample_file_def file_metadata_new_def starts_with_def PARTITION_METAFIELD_PREFIX_def
        is_base_file_name_def matches_extension_def ends_with_ignore_ascii_case_def format_suffix_def ascii_lower_def)
  moreover have "base_file_try_from sample_file = Ok sample_listed_base"
    by (simp add: sample_file_def file_metadata_new_def base_file_try_from_def base_parse_file_name_def rsplit_once_def
        nth_opt_def Let_def sample_listed_base_def sample_base_def)
  ultimately show ?thesis
    using storage_listing_complete [OF sample_listing, of sample_file sample_listed_base]
    by (simp add: sample_listed_base_def sample_base_def estimate_metadata_def sample_file_def file_metadata_new_def)
qed

text \<open>Listing the same partition from the metadata table drops every file group that has
  log files only: a record without base files yields no group at all, whatever committed log
  files it names.\<close>

theorem metadata_listing_drops_log_only:
  assumes "res_map (classify_metadata_file fmt completion committed e)
      (active_files_with_sizes r) = Ok cs"
    and "base_files_of cs = []"
  shows "groups_of_partition_record fmt completion committed e part r = Ok []"
  using assms
  by (simp add: groups_of_partition_record_def build_with_base_files_def group_by_key_def)

theorem metadata_listing_drops_log_only_witness:
  "groups_of_partition_record (Some Parquet) (\<lambda>_. None) (\<lambda>_. True) None ''p''
     \<lparr>fp_key = ''p'', fp_record_type = Files, fp_files =
        [(''.fg1_20240102.log.1_0-1-2'', \<lparr>fi_name = ''.fg1_20240102.log.1_0-1-2'', fi_size = 0,
          fi_is_deleted = False\<rparr>)]\<rparr> = Ok []"
proof (rule metadata_listing_drops_log_only)
  have "log_file_from_str ''.fg1_20240102.log.1_0-1-2'' = Ok (sample_log ''20240102'' 1)"
    by (simp add: log_file_from_str_def log_parse_file_name_def starts_with_def rsplit_once_def
        Let_def parse_uint_def is_digit_def digit_val_def sample_log_def)
  then show "res_map (classify_metadata_file (Some Parquet) (\<lambda>_. None) (\<lambda>_. True) None)
      (active_files_with_sizes \<lparr>fp_key = ''p'', fp_record_type = Files, fp_files =
        [(''.fg1_20240102.log.1_0-1-2'', \<lparr>fi_name = ''.fg1_20240102.log.1_0-1-2'', fi_size = 0,
          fi_is_deleted = False\<rparr>)]\<rparr>) =
      Ok [ListedLog (log_set_completion_time (\<lambda>_. None) (sample_log ''20240102'' 1))]"
    by (simp add: classify_metadata_file_def active_files_with_sizes_def starts_with_def Let_def
        log_set_completion_time_def sample_log_def)
  show "base_files_of [ListedLog (log_set_completion_time (\<lambda>_. None) (sample_log ''20240102'' 1))] = []"
    by (simp add: base_files_of_def List.map_filter_def)
qed

text \<open>The slices a snapshot or time-travel query reads belong to file groups that were
  not replaced, in included partitions, and were created at or before the query's
  timestamp.\<close>

theorem collected_slices_visible:
  assumes "s \<in> set (collect_file_slices include v loaded)"
    and "list_all (\<lambda>(p, gs). list_all (\<lambda>g. file_group_ok g \<and> fg_partition_path g = p) gs) loaded"
  shows "fs_creation_instant_time s \<le> tv_as_of_timestamp v \<and>
    (fs_file_id s, fs_partition_path s) \<notin> tv_excluding_file_groups v \<and>
    include (fs_partition_path s)"
proof -
  obtain p gs g where g: "(p, gs) \<in> set loaded" "include p" "g \<in> set gs"
    "(fg_file_id g, fg_partition_path g) \<notin> tv_excluding_file_groups v"
    "get_file_slice_as_of g (tv_as_of_timestamp v) = Some s"
    using assms(1)
    by (auto simp: collect_file_slices_def map_filter_mem split: if_splits)
  have ok: "file_group_ok g" "fg_partition_path g = p"
    using assms(2) g(1,3) by (auto simp: list_all_iff)
  obtain k where k: "bm_last_le (tv_as_of_timestamp v) (fg_file_slices g) = Some (k, s)"
    using g(5) by (auto simp: get_file_slice_as_of_def)
  have "bm_get (fg_file_slices g) k = Some s" "k \<le> tv_as_of_timestamp v"
    using bm.last_le_get [OF file_group_ok_bm [OF ok(1)] k] by auto
  then show ?thesis
    using file_group_okD [OF ok(1)] g(2,4) ok(2) by (auto simp: slice_ok_def)
qed

theorem collected_slices_visible_witness:
  "fs_creation_instant_time (file_slice_new sample_listed_base ''p'') \<le> ''20240102''"
proof -
  let ?v = "\<lparr>tv_as_of_timestamp = ''20240102'', tv_start_timestamp = None,
      tv_excluding_file_groups = {}, tv_request_to_completion = (\<lambda>_. None),
      tv_completed_requests = {}, tv_earliest_active_instant = None\<rparr>"
  have le: "''20240101'' \<le> ''20240102''" by (simp add: less_eq_list_code less_char_def)
  have "file_slice_new sample_listed_base ''p'' \<in>
      set (collect_file_slices (\<lambda>_. True) ?v [(''p'', [sample_listed_group])])"
    using le by (simp add: collect_file_slices_def List.map_filter_def sample_listed_group_def
        get_file_slice_as_of_def bm_last_le_def)
  then have "fs_creation_instant_time (file_slice_new sample_listed_base ''p'')
      \<le> tv_as_of_timestamp ?v"
    using collected_slices_visible [of _ "\<lambda>_. True" ?v "[(''p'', [sample_listed_group])]"]
      sample_listed_group_ok by (simp add: sample_listed_group_def)
  then show ?thesis by simp
qed

end
