(* ===== verification/Arrow_Rows.thy ===== *)
theory Arrow_Rows
  imports Hudi_Bytes
begin

text \<open>
  The rows the merge works on: Arrow columns seen one row at a time. A field has a name, a
  type and a nullability; a row is a list of fields with a value each; a batch is a list of
  rows of one schema with the identity of its allocation (\<open>Arc::as_ptr\<close>). The library calls
  that build a batch or find a column are modelled as the source uses them; the conversion
  of a value to another type (\<open>arrow_cast\<close>, the rebuild of array data) is a parameter.
\<close>

section \<open>Types and values\<close>

datatype DataType =
    DtNull | DtBoolean
  | DtInt8 | DtInt16 | DtInt32 | DtInt64 | DtUInt8 | DtUInt16 | DtUInt32 | DtUInt64
  | DtFloat32 | DtFloat64 | DtUtf8 | DtLargeUtf8 | DtBinary | DtLargeBinary
  | DtDate32 | DtDate64 | DtTimestamp nat
  | DtDecimal128 int int | DtDecimal256 int int
  | DtList string DataType | DtLargeList string DataType
  | DtMap string DataType bool | DtStruct "(string \<times> DataType) list"
  | DtUnion "(nat \<times> DataType) list" | DtOther nat

text \<open>A 32-bit float is kept as the 64-bit float it widens to exactly.\<close>

datatype Value =
    VNull | VBool bool | VInt int | VFloat "64 word" | VStr string | VBytes "byte list"
  | VDecimal int | VNested "Value list" | VUnion nat Value

record Field =
  f_name :: string
  f_type :: DataType
  f_nullable :: bool

type_synonym Schema = "Field list"

type_synonym row = "(Field \<times> Value) list"

record batch =
  b_ptr :: nat
  b_schema :: Schema
  b_rows :: "Value list list"

definition row_schema :: "row \<Rightarrow> Schema" where
  "row_schema r = map fst r"

text \<open>\<open>batch.slice(idx, 1)\<close>, which panics past the end.\<close>

definition slice_row :: "batch \<Rightarrow> nat \<Rightarrow> row result" where
  "slice_row b i = (if i < length (b_rows b) then Ok (zip (b_schema b) (b_rows b ! i)) else Err Panic)"

definition field_of :: "Schema \<Rightarrow> string \<Rightarrow> Field option" where
  "field_of s n = find (\<lambda>f. f_name f = n) s"

definition has_field :: "Schema \<Rightarrow> string \<Rightarrow> bool" where
  "has_field s n = list_ex (\<lambda>f. f_name f = n) s"

text \<open>\<open>index_of\<close> and \<open>column\<close>: the first column of a name.\<close>

definition column_of :: "row \<Rightarrow> string \<Rightarrow> (Field \<times> Value) option" where
  "column_of r n = find (\<lambda>c. f_name (fst c) = n) r"

text \<open>\<open>RecordBatch::try_new\<close> on columns of the schema's types refuses a null in a column
  declared non-nullable.\<close>

definition try_new_row :: "error \<Rightarrow> row \<Rightarrow> row result" where
  "try_new_row e r = (if list_ex (\<lambda>(f, v). \<not> f_nullable f \<and> v = VNull) r
     then Err e else Ok r)"

lemma find_None_iff_ex: "find P xs = None \<longleftrightarrow> \<not> list_ex P xs"
  by (induction xs) auto

lemma column_of_None [simp]: "column_of r n = None \<longleftrightarrow> \<not> has_field (row_schema r) n"
  by (induction r) (auto simp: column_of_def has_field_def row_schema_def)

lemma column_of_Cons: "column_of (c # r) n = (if f_name (fst c) = n then Some c else column_of r n)"
  by (simp add: column_of_def)

lemma column_of_Nil [simp]: "column_of [] n = None"
  by (simp add: column_of_def)

lemma has_field_Nil [simp]: "\<not> has_field [] n"
  by (simp add: has_field_def)

lemma has_field_Cons [simp]: "has_field (f # s) n \<longleftrightarrow> f_name f = n \<or> has_field s n"
  by (auto simp: has_field_def)

lemma has_field_append [simp]: "has_field (s @ t) n \<longleftrightarrow> has_field s n \<or> has_field t n"
  by (auto simp: has_field_def)

lemma column_of_Some: "column_of r n = Some (f, v) \<Longrightarrow> f_name f = n \<and> (f, v) \<in> set r"
  by (induction r) (auto simp: column_of_Cons split: if_splits)

lemma row_schema_simps [simp]:
  "row_schema [] = []" "row_schema (c # r) = fst c # row_schema r"
  by (simp_all add: row_schema_def)

lemma try_new_row_Ok: "try_new_row e r = Ok r' \<Longrightarrow> r' = r"
  by (simp add: try_new_row_def split: if_splits)

end
