(* ===== verification/Ordering_Value.thy ===== *)
theory Ordering_Value
  imports Hudi_Prelude Complex_Main "HOL-Library.Word"
begin

text \<open>
  Ordering values: \<open>OrderingValue\<close> of
  \<open>src/crates/core/src/file_group/reader_v2/buffered_record.rs\<close>, the comparable a record
  carries to decide merge conflicts. A double is kept as its 64 bits, since the order the
  code uses on doubles (\<open>f64::total_cmp\<close>) is an order on the bit patterns; a decimal is an
  unscaled \<open>i128\<close> and a scale, compared in 256-bit arithmetic that wraps.
\<close>

unbundle bit_operations_syntax

section \<open>The type\<close>

datatype OrderingValue =
    OvLong int
  | OvDouble "64 word"
  | OvDecimal (unscaled: int) (scale: int)
  | OvString string
  | OvDefault
  | OvComposite "OrderingValue list"

definition variant_rank :: "OrderingValue \<Rightarrow> nat" where
  "variant_rank v = (case v of
      OvLong _ \<Rightarrow> 0 | OvString _ \<Rightarrow> 1 | OvComposite _ \<Rightarrow> 2 | OvDouble _ \<Rightarrow> 3
    | OvDecimal _ _ \<Rightarrow> 4 | OvDefault \<Rightarrow> 0)"

definition ov_is_default :: "OrderingValue \<Rightarrow> bool" where
  "ov_is_default v = (v = OvDefault)"

text \<open>The constructor of a value, as \<open>std::mem::discriminant\<close> gives it.\<close>

definition ov_discriminant :: "OrderingValue \<Rightarrow> nat" where
  "ov_discriminant v = (case v of
      OvLong _ \<Rightarrow> 0 | OvDouble _ \<Rightarrow> 1 | OvDecimal _ _ \<Rightarrow> 2 | OvString _ \<Rightarrow> 3
    | OvDefault \<Rightarrow> 4 | OvComposite _ \<Rightarrow> 5)"

definition is_same_class :: "OrderingValue \<Rightarrow> OrderingValue \<Rightarrow> bool" where
  "is_same_class a b = (case (a, b) of
      (OvDefault, OvDefault) \<Rightarrow> True
    | (OvDefault, OvLong _) \<Rightarrow> True
    | (OvLong _, OvDefault) \<Rightarrow> True
    | _ \<Rightarrow> ov_discriminant a = ov_discriminant b)"

section \<open>Comparison\<close>

text \<open>\<open>f64::total_cmp\<close>: the bits as a signed integer, with the magnitude bits of a negative
  number flipped.\<close>

definition total_cmp_key :: "64 word \<Rightarrow> int" where
  "total_cmp_key w = sint (w XOR (if sint w < 0 then drop_bit 1 (- 1) else 0))"

definition wrap_i256 :: "int \<Rightarrow> int" where
  "wrap_i256 n = (n + 2 ^ 255) mod 2 ^ 256 - 2 ^ 255"

fun pow10_i256 :: "nat \<Rightarrow> int" where
  "pow10_i256 0 = 1"
| "pow10_i256 (Suc n) = wrap_i256 (pow10_i256 n * 10)"

definition cmp_decimal :: "int \<Rightarrow> int \<Rightarrow> int \<Rightarrow> int \<Rightarrow> rust_ordering" where
  "cmp_decimal a_unscaled a_scale b_unscaled b_scale =
     (if a_scale = b_scale then cmp_lin a_unscaled b_unscaled
      else if a_scale < b_scale then
        cmp_lin (wrap_i256 (a_unscaled * pow10_i256 (nat (b_scale - a_scale)))) b_unscaled
      else
        cmp_lin a_unscaled (wrap_i256 (b_unscaled * pow10_i256 (nat (a_scale - b_scale)))))"

fun ov_cmp :: "OrderingValue \<Rightarrow> OrderingValue \<Rightarrow> rust_ordering"
  and ovs_cmp :: "OrderingValue list \<Rightarrow> OrderingValue list \<Rightarrow> rust_ordering" where
  "ov_cmp (OvLong a) y = (case y of
      OvLong b \<Rightarrow> cmp_lin a b | OvDefault \<Rightarrow> cmp_lin a 0
    | _ \<Rightarrow> cmp_lin (variant_rank (OvLong a)) (variant_rank y))"
| "ov_cmp OvDefault y = (case y of
      OvLong b \<Rightarrow> cmp_lin 0 b | OvDefault \<Rightarrow> Equal
    | _ \<Rightarrow> cmp_lin (variant_rank OvDefault) (variant_rank y))"
| "ov_cmp (OvDouble a) y = (case y of
      OvDouble b \<Rightarrow> cmp_lin (total_cmp_key a) (total_cmp_key b)
    | _ \<Rightarrow> cmp_lin (variant_rank (OvDouble a)) (variant_rank y))"
| "ov_cmp (OvString a) y = (case y of
      OvString b \<Rightarrow> cmp_lin a b
    | _ \<Rightarrow> cmp_lin (variant_rank (OvString a)) (variant_rank y))"
| "ov_cmp (OvDecimal a s) y = (case y of
      OvDecimal b t \<Rightarrow> cmp_decimal a s b t
    | _ \<Rightarrow> cmp_lin (variant_rank (OvDecimal a s)) (variant_rank y))"
| "ov_cmp (OvComposite xs) y = (case y of
      OvComposite ys \<Rightarrow> ovs_cmp xs ys
    | _ \<Rightarrow> cmp_lin (variant_rank (OvComposite xs)) (variant_rank y))"
| "ovs_cmp [] ys = (case ys of [] \<Rightarrow> Equal | _ \<Rightarrow> Less)"
| "ovs_cmp (x # xs) ys = (case ys of
      [] \<Rightarrow> Greater
    | y # ys' \<Rightarrow> then_with (ov_cmp x y) (ovs_cmp xs ys'))"

definition ov_eq :: "OrderingValue \<Rightarrow> OrderingValue \<Rightarrow> bool" where
  "ov_eq a b = (ov_cmp a b = Equal)"

section \<open>Well-formed values\<close>

text \<open>The decode boundary admits decimals of the \<open>Decimal128\<close> domain only.\<close>

definition decimal_ok :: "int \<Rightarrow> int \<Rightarrow> bool" where
  "decimal_ok u s = (0 \<le> s \<and> s \<le> 38 \<and> - (2 ^ 127) \<le> u \<and> u < 2 ^ 127)"

fun ov_ok :: "OrderingValue \<Rightarrow> bool" where
  "ov_ok (OvDecimal u s) = decimal_ok u s"
| "ov_ok (OvComposite xs) = list_all ov_ok xs"
| "ov_ok _ = True"

section \<open>Decimals\<close>

lemma wrap_i256_id: "- (2 ^ 255) \<le> n \<Longrightarrow> n < 2 ^ 255 \<Longrightarrow> wrap_i256 n = n"
  by (simp add: wrap_i256_def)

lemma pow10_i256_exact: "n \<le> 38 \<Longrightarrow> pow10_i256 n = 10 ^ n"
proof (induction n)
  case (Suc n)
  have "(10 :: int) ^ Suc n \<le> 10 ^ 38" using Suc.prems by (intro power_increasing) auto
  then have "(10 :: int) ^ Suc n < 2 ^ 255" by simp
  moreover have "(0 :: int) \<le> 10 ^ Suc n" by simp
  ultimately have "wrap_i256 (10 ^ Suc n) = 10 ^ Suc n"
    by (intro wrap_i256_id) (linarith | assumption)+
  then show ?case using Suc by (simp add: mult.commute)
qed simp

lemma decimal_rescaled:
  assumes "decimal_ok u s" "n \<le> 38"
  shows "wrap_i256 (u * pow10_i256 n) = u * 10 ^ n"
proof -
  have p: "(0 :: int) < 10 ^ n" by simp
  have q: "(10 :: int) ^ n \<le> 10 ^ 38"
    by (rule power_increasing) (use assms(2) in simp_all)
  have "\<bar>u * 10 ^ n\<bar> = \<bar>u\<bar> * 10 ^ n" by (simp add: abs_mult)
  also have "\<dots> \<le> 2 ^ 127 * 10 ^ 38"
    using assms(1) p q by (intro mult_mono) (auto simp: decimal_ok_def)
  also have "\<dots> < (2 :: int) ^ 255" by simp
  finally have "\<bar>u * 10 ^ n\<bar> < 2 ^ 255" .
  then show ?thesis
    by (simp only: pow10_i256_exact [OF assms(2)]) (rule wrap_i256_id; simp only: abs_less_iff; linarith)
qed

text \<open>The value of a decimal over the largest scale.\<close>

definition decimal_key :: "int \<Rightarrow> int \<Rightarrow> int" where
  "decimal_key u s = u * 10 ^ nat (38 - s)"

lemma cmp_lin_mult:
  fixes a b c :: "'a :: linordered_idom"
  shows "0 < c \<Longrightarrow> cmp_lin (a * c) (b * c) = cmp_lin a b"
  by (simp add: cmp_lin_def)

lemma cmp_decimal_key:
  assumes "decimal_ok a s" "decimal_ok b t"
  shows "cmp_decimal a s b t = cmp_lin (decimal_key a s) (decimal_key b t)"
proof -
  have eq: "u * 10 ^ nat (38 - p) = (u * 10 ^ nat (q - p)) * 10 ^ nat (38 - q)"
    if "decimal_ok u p" "p \<le> q" "q \<le> 38" for u p q :: int
  proof -
    have "nat (38 - p) = nat (q - p) + nat (38 - q)"
      using that by (simp add: decimal_ok_def nat_diff_distrib)
    then show ?thesis by (simp add: power_add)
  qed
  have le: "nat (q - p) \<le> 38" if "decimal_ok u p" "decimal_ok v q" for u p v q
    using that unfolding decimal_ok_def nat_le_iff by linarith
  consider "s = t" | "s < t" | "t < s" by linarith
  then show ?thesis
  proof cases
    case 1
    then show ?thesis by (simp add: cmp_decimal_def decimal_key_def cmp_lin_mult del: cmp_lin_iff)
  next
    case 2
    have e: "decimal_key a s = (a * 10 ^ nat (t - s)) * 10 ^ nat (38 - t)"
      unfolding decimal_key_def using 2 assms(2) by (intro eq [OF assms(1)]) (auto simp: decimal_ok_def)
    have "cmp_decimal a s b t = cmp_lin (a * 10 ^ nat (t - s)) b"
      using 2 by (simp only: cmp_decimal_def decimal_rescaled [OF assms(1) le [OF assms]]) simp
    also have "\<dots> = cmp_lin (decimal_key a s) (decimal_key b t)"
      unfolding e unfolding decimal_key_def by (rule cmp_lin_mult [symmetric]) simp
    finally show ?thesis .
  next
    case 3
    have e: "decimal_key b t = (b * 10 ^ nat (s - t)) * 10 ^ nat (38 - s)"
      unfolding decimal_key_def using 3 assms(1) by (intro eq [OF assms(2)]) (auto simp: decimal_ok_def)
    have "cmp_decimal a s b t = cmp_lin a (b * 10 ^ nat (s - t))"
      using 3 by (simp only: cmp_decimal_def decimal_rescaled [OF assms(2) le [OF assms(2,1)]]) simp
    also have "\<dots> = cmp_lin (decimal_key a s) (decimal_key b t)"
      unfolding e unfolding decimal_key_def by (rule cmp_lin_mult [symmetric]) simp
    finally show ?thesis .
  qed
qed

lemma decimal_key_rat:
  assumes "decimal_ok u s"
  shows "(of_int (decimal_key u s) :: rat) = of_int u / 10 ^ nat s * 10 ^ 38"
proof -
  have "(38 :: nat) = nat s + nat (38 - s)" using assms unfolding decimal_ok_def by linarith
  then have "(10 :: rat) ^ 38 = 10 ^ nat s * 10 ^ nat (38 - s)" by (metis power_add)
  then have "of_int u / 10 ^ nat s * 10 ^ 38
      = (of_int u / 10 ^ nat s) * (10 ^ nat s * 10 ^ nat (38 - s) :: rat)" by (rule arg_cong)
  also have "\<dots> = of_int u * 10 ^ nat (38 - s)" by simp
  finally show ?thesis by (simp only: decimal_key_def of_int_mult of_int_power of_int_numeral)
qed

lemma cmp_decimal_rat:
  assumes "decimal_ok a s" "decimal_ok b t"
  shows "cmp_decimal a s b t = cmp_lin (of_int a / 10 ^ nat s :: rat) (of_int b / 10 ^ nat t)"
proof -
  have "cmp_decimal a s b t
      = cmp_lin (of_int (decimal_key a s) :: rat) (of_int (decimal_key b t))"
    unfolding cmp_decimal_key [OF assms] by (simp add: cmp_lin_def)
  then show ?thesis
    unfolding decimal_key_rat [OF assms(1)] decimal_key_rat [OF assms(2)]
    by (simp only: cmp_lin_mult [of "10 ^ 38 :: rat"] zero_less_power zero_less_numeral)
qed

section \<open>The order\<close>

lemma total_cmp_key_bits:
  "total_cmp_key w = sint (w XOR (if bit w 63 then drop_bit 1 (- 1) else 0))"
  using bit_last_iff [of w] by (simp add: total_cmp_key_def)

lemma total_cmp_key_inj: "total_cmp_key a = total_cmp_key b \<longleftrightarrow> a = b"
proof
  assume "total_cmp_key a = total_cmp_key b"
  then have x: "a XOR (if bit a 63 then drop_bit 1 (- 1) else 0) =
      b XOR (if bit b 63 then drop_bit 1 (- 1) else 0)"
    unfolding total_cmp_key_bits by (rule signed_word_eqI)
  have top: "bit (w XOR (if c then drop_bit 1 (- 1) else 0)) 63 = bit w 63" for w :: "64 word" and c
    by (simp add: bit_simps)
  have s: "bit a 63 = bit b 63" using arg_cong [OF x, of "\<lambda>w. bit w 63"] unfolding top .
  have cancel: "p = q" if "p XOR m = q XOR m" for p q m :: "64 word"
  proof -
    have "p = (p XOR m) XOR m" by (simp add: xor.assoc)
    also have "\<dots> = (q XOR m) XOR m" by (simp only: that)
    also have "\<dots> = q" by (simp add: xor.assoc)
    finally show ?thesis .
  qed
  show "a = b" using x unfolding s by (rule cancel)
qed simp

lemma variant_rank_cases:
  "variant_rank v = 0 \<longleftrightarrow> v = OvDefault \<or> (\<exists>a. v = OvLong a)"
  "variant_rank v = 1 \<longleftrightarrow> (\<exists>s. v = OvString s)"
  "variant_rank v = 2 \<longleftrightarrow> (\<exists>xs. v = OvComposite xs)"
  "variant_rank v = 3 \<longleftrightarrow> (\<exists>w. v = OvDouble w)"
  "variant_rank v = 4 \<longleftrightarrow> (\<exists>u s. v = OvDecimal u s)"
  by (cases v; simp add: variant_rank_def)+

text \<open>The integer domain: the default counts as zero.\<close>

definition ov_int :: "OrderingValue \<Rightarrow> int" where
  "ov_int v = (case v of OvLong a \<Rightarrow> a | _ \<Rightarrow> 0)"

lemma ov_cmp_diff_rank: "variant_rank x \<noteq> variant_rank y \<Longrightarrow>
    ov_cmp x y = cmp_lin (variant_rank x) (variant_rank y)"
  by (cases x; cases y) (simp_all add: variant_rank_def del: cmp_lin_iff)

lemma ov_cmp_int: "variant_rank x = 0 \<Longrightarrow> variant_rank y = 0 \<Longrightarrow>
    ov_cmp x y = cmp_lin (ov_int x) (ov_int y)"
  by (cases x; cases y) (simp_all add: variant_rank_def ov_int_def del: cmp_lin_iff)

lemma ov_cmp_rank_le: "ov_cmp x y \<noteq> Greater \<Longrightarrow> variant_rank x \<le> variant_rank y"
  using ov_cmp_diff_rank [of x y] by (cases "variant_rank x = variant_rank y") auto

lemma ov_ok_decimal: "ov_ok v \<Longrightarrow> v = OvDecimal u s \<Longrightarrow> decimal_ok u s"
  by simp

text \<open>The laws of a total preorder, on well-formed values.\<close>

lemma cmp_decimal_flip: "cmp_decimal b t a s = ord_reverse (cmp_decimal a s b t)"
  by (auto simp: cmp_decimal_def cmp_lin_def)

lemma ov_cmp_flip:
  "ov_cmp y x = ord_reverse (ov_cmp x y)"
  "ovs_cmp ys xs = ord_reverse (ovs_cmp xs ys)"
proof (induction x y and xs ys rule: ov_cmp_ovs_cmp.induct)
  case (5 a s y)
  then show ?case
    by (cases y) (auto simp: variant_rank_def cmp_lin_def intro: cmp_decimal_flip)
next
  case (8 x xs ys)
  then show ?case by (cases ys) (auto simp: then_with_def)
qed (auto simp: variant_rank_def cmp_lin_def split: OrderingValue.splits list.splits)

lemma ov_cmp_flip_both:
  "ov_ok x \<Longrightarrow> ov_ok y \<Longrightarrow> ov_cmp y x = ord_reverse (ov_cmp x y)"
  "list_all ov_ok xs \<Longrightarrow> list_all ov_ok ys \<Longrightarrow> ovs_cmp ys xs = ord_reverse (ovs_cmp xs ys)"
  by (rule ov_cmp_flip)+

abbreviation ov_le_trans :: "OrderingValue \<Rightarrow> OrderingValue \<Rightarrow> OrderingValue \<Rightarrow> bool" where
  "ov_le_trans x y z \<equiv>
     (ov_cmp x y \<noteq> Greater \<longrightarrow> ov_cmp y z \<noteq> Greater \<longrightarrow> ov_cmp x z \<noteq> Greater)"

lemma ovs_cmp_trans:
  assumes "\<And>x y z. x \<in> set xs \<Longrightarrow> y \<in> set ys \<Longrightarrow> z \<in> set zs \<Longrightarrow>
      ov_le_trans x y z \<and> ov_le_trans y z x \<and> ov_le_trans z x y"
    and "list_all ov_ok xs" "list_all ov_ok ys" "list_all ov_ok zs"
    and "ovs_cmp xs ys \<noteq> Greater" "ovs_cmp ys zs \<noteq> Greater"
  shows "ovs_cmp xs zs \<noteq> Greater"
  using assms
proof (induction xs arbitrary: ys zs)
  case (Cons x xs)
  obtain y ys' z zs' where yz: "ys = y # ys'" "zs = z # zs'"
    using Cons.prems(5,6) by (cases ys; cases zs) auto
  have ok: "ov_ok x" "ov_ok y" "ov_ok z" using Cons.prems(2-4) yz by auto
  have T: "ov_le_trans x y z" "ov_le_trans y z x" "ov_le_trans z x y"
    using Cons.prems(1) [of x y z] yz by auto
  have xy: "ov_cmp x y \<noteq> Greater" and yz': "ov_cmp y z \<noteq> Greater"
    using Cons.prems(5,6) yz by auto
  have xz: "ov_cmp x z \<noteq> Greater" using T(1) xy yz' by blast
  have tails: "ovs_cmp xs zs' \<noteq> Greater" if e: "ov_cmp x z = Equal"
  proof -
    note flip = ov_cmp_flip_both(1)
    have zx: "ov_cmp z x = Equal" using flip [OF ok(1,3)] e by simp
    have "ov_cmp z y \<noteq> Greater" using T(3) zx xy by auto
    then have e2: "ov_cmp y z = Equal" using flip [OF ok(2,3)] yz' by (cases "ov_cmp y z") auto
    have "ov_cmp y x \<noteq> Greater" using T(2) zx yz' by auto
    then have e1: "ov_cmp x y = Equal" using flip [OF ok(1,2)] xy by (cases "ov_cmp x y") auto
    show ?thesis
      by (rule Cons.IH [of ys' zs']) (use Cons.prems yz e1 e2 in auto)
  qed
  show ?case using xz tails yz by auto
qed (auto split: list.splits)

lemma ov_cmp_trans:
  assumes "ov_ok x" "ov_ok y" "ov_ok z"
  shows "ov_le_trans x y z"
  using assms
proof (induction "size x + size y + size z" arbitrary: x y z rule: less_induct)
  case less
  show ?case
  proof (intro impI)
    assume xy: "ov_cmp x y \<noteq> Greater" and yz: "ov_cmp y z \<noteq> Greater"
    have rank: "variant_rank x \<le> variant_rank y" "variant_rank y \<le> variant_rank z"
      using ov_cmp_rank_le xy yz by auto
    show "ov_cmp x z \<noteq> Greater"
    proof (cases "variant_rank x = variant_rank z")
      case False
      then show ?thesis using ov_cmp_diff_rank [of x z] rank by simp
    next
      case True
      then have r: "variant_rank y = variant_rank x" "variant_rank z = variant_rank x"
        using rank by auto
      show ?thesis
      proof (cases x)
        case (OvComposite xs)
        then obtain ys zs where c: "y = OvComposite ys" "z = OvComposite zs"
          using r by (cases y; cases z) (simp_all add: variant_rank_def)
        have "ovs_cmp xs zs \<noteq> Greater"
        proof (rule ovs_cmp_trans [of xs ys zs])
          fix a b d assume m: "a \<in> set xs" "b \<in> set ys" "d \<in> set zs"
          have s: "size a < size x" "size b < size y" "size d < size z"
            using m OvComposite c by (auto dest: size_list_estimation' [of _ _ _ size] simp: less_Suc_eq_le)
          have ok: "ov_ok a" "ov_ok b" "ov_ok d"
            using less.prems m OvComposite c by (auto simp: list_all_iff)
          show "ov_le_trans a b d \<and> ov_le_trans b d a \<and> ov_le_trans d a b"
            using s by (intro conjI; intro less.hyps ok) simp_all
        qed (use less.prems OvComposite c xy yz in simp_all)
        then show ?thesis using OvComposite c by simp
      next
        case (OvDecimal u s)
        then show ?thesis using r xy yz less.prems
          by (cases y; cases z) (simp_all add: variant_rank_def cmp_decimal_key)
      qed (use r xy yz in \<open>cases y; cases z; simp add: variant_rank_def\<close>)+
    qed
  qed
qed

section \<open>Properties\<close>

text \<open>C40: ordering values of records are totally preordered: swapping the operands of the
  comparison reverses its answer, and it is transitive across every mix of types, including
  composites and decimals of different scales, so the winner of a key does not depend on the
  grouping of its comparisons.\<close>

theorem ordering_values_totally_ordered:
  assumes "ov_ok x" "ov_ok y" "ov_ok z"
  shows "ov_cmp y x = ord_reverse (ov_cmp x y) \<and>
    (ov_cmp x y \<noteq> Greater \<longrightarrow> ov_cmp y z \<noteq> Greater \<longrightarrow> ov_cmp x z \<noteq> Greater) \<and>
    (ov_eq x y \<longrightarrow> ov_cmp x z = ov_cmp y z)"
proof -
  have T: "ov_le_trans a b d" if "{a, b, d} \<subseteq> {x, y, z}" for a b d
    by (rule ov_cmp_trans) (use that assms in auto)
  have "ov_cmp x z = ov_cmp y z" if e: "ov_cmp x y = Equal"
  proof -
    have e': "ov_cmp y x = Equal" using ov_cmp_flip(1) [of y x] e by simp
    have "ov_cmp x z \<noteq> Greater \<longleftrightarrow> ov_cmp y z \<noteq> Greater"
      using T [of y x z] T [of x y z] e e' by auto
    moreover have "ov_cmp z x \<noteq> Greater \<longleftrightarrow> ov_cmp z y \<noteq> Greater"
      using T [of z x y] T [of z y x] e e' by auto
    ultimately show ?thesis
      using ov_cmp_flip(1) [of z x] ov_cmp_flip(1) [of z y]
      by (cases "ov_cmp x z"; cases "ov_cmp y z") auto
  qed
  then show ?thesis using ov_cmp_flip(1) [of y x] T [of x y z] by (simp add: ov_eq_def)
qed

theorem ordering_values_totally_ordered_witness:
  "ov_cmp (OvComposite [OvDecimal 10 1, OvString ''b'']) (OvComposite [OvDecimal 200 2, OvDefault]) =
   ord_reverse (ov_cmp (OvComposite [OvDecimal 200 2, OvDefault])
     (OvComposite [OvDecimal 10 1, OvString ''b'']))"
  using ordering_values_totally_ordered [of "OvComposite [OvDecimal 200 2, OvDefault]"
      "OvComposite [OvDecimal 10 1, OvString ''b'']" "OvLong 7"]
  by (simp add: decimal_ok_def)

text \<open>Two decimals compare by their values as rational numbers, whatever their scales: the
  rescaling in wrapping 256-bit arithmetic is exact for every decimal the decode boundary
  admits.\<close>

theorem decimals_compare_by_value:
  assumes "decimal_ok a s" "decimal_ok b t"
  shows "ov_cmp (OvDecimal a s) (OvDecimal b t) =
    cmp_lin (of_int a / 10 ^ nat s :: rat) (of_int b / 10 ^ nat t)"
  using cmp_decimal_rat [OF assms] by simp

theorem decimals_compare_by_value_witness:
  "ov_cmp (OvDecimal (2 ^ 127 - 1) 0) (OvDecimal 5 38) =
   cmp_lin (of_int (2 ^ 127 - 1) / 10 ^ nat 0 :: rat) (of_int 5 / 10 ^ nat 38)"
  by (rule decimals_compare_by_value) (simp_all add: decimal_ok_def)

end
