(* ===== verification/Record_Context.thy ===== *)
theory Record_Context
  imports Arrow_Rows Ordering_Value File_Naming
begin

text \<open>
  Records of the file group reader: \<open>BufferedRecord\<close> and its payload
  (\<open>file_group/reader_v2/buffered_record.rs\<close>), how a batch is turned into records
  (\<open>record_context.rs\<close>: record keys, ordering values, delete detection) and the delete
  context (\<open>delete_context.rs\<close>). A table configuration is a map from keys to values.
\<close>

section \<open>Records\<close>

datatype RecordPayload = BatchRef batch nat | Owned row | Delete

record BufferedRecord =
  br_record_key :: string
  br_payload :: RecordPayload
  br_ordering_value :: "OrderingValue option"

record DeleteRecord =
  dr_record_key :: string
  dr_ordering_value :: "OrderingValue option"

definition payload_get_record :: "RecordPayload \<Rightarrow> row option result" where
  "payload_get_record p = (case p of
      BatchRef b i \<Rightarrow> res_bind (slice_row b i) (\<lambda>r. Ok (Some r))
    | Owned r \<Rightarrow> Ok (Some r)
    | Delete \<Rightarrow> Ok None)"

definition payload_is_delete :: "RecordPayload \<Rightarrow> bool" where
  "payload_is_delete p = (p = Delete)"

definition new_batch_ref :: "string \<Rightarrow> batch \<Rightarrow> nat \<Rightarrow> OrderingValue option \<Rightarrow> BufferedRecord" where
  "new_batch_ref k b i ov = \<lparr>br_record_key = k, br_payload = BatchRef b i, br_ordering_value = ov\<rparr>"

definition new_data :: "string \<Rightarrow> row \<Rightarrow> OrderingValue option \<Rightarrow> BufferedRecord" where
  "new_data k r ov = \<lparr>br_record_key = k, br_payload = Owned r, br_ordering_value = ov\<rparr>"

definition new_delete :: "string \<Rightarrow> OrderingValue option \<Rightarrow> BufferedRecord" where
  "new_delete k ov = \<lparr>br_record_key = k, br_payload = Delete, br_ordering_value = ov\<rparr>"

definition br_is_delete :: "BufferedRecord \<Rightarrow> bool" where
  "br_is_delete r = payload_is_delete (br_payload r)"

definition br_get_record :: "BufferedRecord \<Rightarrow> row option result" where
  "br_get_record r = payload_get_record (br_payload r)"

definition from_delete_record :: "DeleteRecord \<Rightarrow> BufferedRecord" where
  "from_delete_record d = new_delete (dr_record_key d) (dr_ordering_value d)"

lemma record_simps [simp]:
  "br_is_delete (new_delete k ov)" "\<not> br_is_delete (new_data k r ov)"
  "\<not> br_is_delete (new_batch_ref k b i ov)" "br_is_delete (from_delete_record d)"
  "br_get_record (new_delete k ov) = Ok None" "br_get_record (new_data k r ov) = Ok (Some r)"
  "br_record_key (new_data k r ov) = k" "br_record_key (new_delete k ov) = k"
  "br_record_key (new_batch_ref k b i ov) = k"
  "br_record_key (from_delete_record d) = dr_record_key d"
  "br_ordering_value (new_data k r ov) = ov" "br_ordering_value (new_delete k ov) = ov"
  "br_ordering_value (new_batch_ref k b i ov) = ov"
  "br_ordering_value (from_delete_record d) = dr_ordering_value d"
  by (simp_all add: br_is_delete_def payload_is_delete_def new_delete_def new_data_def
      new_batch_ref_def from_delete_record_def br_get_record_def payload_get_record_def)

section \<open>Configuration\<close>

type_synonym configs = "string \<Rightarrow> string option"

record RecordContext =
  rc_record_key_field :: string
  rc_record_key_fields :: "string list"
  rc_ordering_field_names :: "string list"
  rc_populate_meta_fields :: bool
  rc_partition_path :: string
  rc_encode_single_key_field :: bool

definition RECORD_KEY_FIELD :: string where "RECORD_KEY_FIELD = ''_hoodie_record_key''"

text \<open>\<open>split(',')\<close>, trimmed, empty parts dropped.\<close>

definition split_fields :: "string \<Rightarrow> string list" where
  "split_fields s = filter (\<lambda>f. f \<noteq> []) (map trim (split_on (CHR '','') s))"

definition populate_meta_fields :: "configs \<Rightarrow> bool" where
  "populate_meta_fields cfg = (case cfg ''hoodie.populate.meta.fields'' of
      Some v \<Rightarrow> eq_ignore_ascii_case v ''true'' | None \<Rightarrow> True)"

definition record_key_fields_from :: "configs \<Rightarrow> string list" where
  "record_key_fields_from cfg =
     (if populate_meta_fields cfg then [RECORD_KEY_FIELD]
      else case cfg ''hoodie.table.recordkey.fields'' of
        None \<Rightarrow> [RECORD_KEY_FIELD]
      | Some s \<Rightarrow> if split_fields s = [] then [RECORD_KEY_FIELD] else split_fields s)"

definition should_encode_single_complex_key_field :: "configs \<Rightarrow> bool \<Rightarrow> nat \<Rightarrow> bool" where
  "should_encode_single_complex_key_field cfg populate n =
     (if populate \<or> n \<noteq> 1 then False
      else if \<not> (case cfg ''hoodie.table.keygenerator.class'' of None \<Rightarrow> False
          | Some c \<Rightarrow> ends_with ''ComplexKeyGenerator'' c \<or> ends_with ''ComplexAvroKeyGenerator'' c)
      then False
      else (case Option.bind (cfg ''hoodie.table.version'') (\<lambda>v. parse_sint 32 (trim v)) of
          None \<Rightarrow> False | Some v \<Rightarrow> v \<ge> 9) \<or>
        \<not> (case cfg ''hoodie.write.complex.keygen.new.encoding'' of None \<Rightarrow> False
           | Some v \<Rightarrow> eq_ignore_ascii_case v ''true''))"

definition record_context_new :: "configs \<Rightarrow> string \<Rightarrow> RecordContext" where
  "record_context_new cfg part =
     (let fds = record_key_fields_from cfg in
      \<lparr>rc_record_key_field = (case fds of [] \<Rightarrow> RECORD_KEY_FIELD | f # _ \<Rightarrow> f),
       rc_record_key_fields = fds,
       rc_ordering_field_names =
         (case (case cfg ''hoodie.table.ordering.fields'' of Some f \<Rightarrow> Some f
                | None \<Rightarrow> cfg ''hoodie.table.precombine.field'') of
            None \<Rightarrow> [] | Some f \<Rightarrow> split_fields f),
       rc_populate_meta_fields = populate_meta_fields cfg,
       rc_partition_path = part,
       rc_encode_single_key_field =
         should_encode_single_complex_key_field cfg (populate_meta_fields cfg) (length fds)\<rparr>)"

section \<open>Record keys\<close>

definition key_type_ok :: "DataType \<Rightarrow> bool" where
  "key_type_ok t \<longleftrightarrow> t \<in> {DtUtf8, DtLargeUtf8, DtInt8, DtInt16, DtInt32, DtInt64, DtUInt8, DtUInt16,
     DtUInt32, DtUInt64}"

text \<open>A key column cast to strings; the string slot of a null is empty.\<close>

fun key_text :: "Value \<Rightarrow> string option" where
  "key_text (VStr s) = Some s"
| "key_text (VInt n) = Some (show_int n)"
| "key_text _ = None"

definition key_column :: "batch \<Rightarrow> string \<Rightarrow> string option list result" where
  "key_column b n =
     (case find (\<lambda>(f, _). f_name f = n) (zip (b_schema b) [0 ..< length (b_schema b)]) of
        None \<Rightarrow> Err ReadFileSliceError
      | Some (f, c) \<Rightarrow>
          if key_type_ok (f_type f) then Ok (map (\<lambda>r. key_text (r ! c)) (b_rows b))
          else Err UnsupportedError)"

definition composite_part :: "string \<times> string option \<Rightarrow> string" where
  "composite_part p = fst p @ '':'' @ (case snd p of
      None \<Rightarrow> ''__null__'' | Some v \<Rightarrow> if v = [] then ''__empty__'' else v)"

definition composite_key :: "string list \<Rightarrow> string option list \<Rightarrow> string result" where
  "composite_key fds vals =
     (if list_all (\<lambda>v. v = None \<or> v = Some []) vals then Err ReadFileSliceError
      else Ok (join_with '','' (map composite_part (zip fds vals))))"

definition record_key_array :: "RecordContext \<Rightarrow> batch \<Rightarrow> string option list result" where
  "record_key_array rc b =
     (if length (rc_record_key_fields rc) > 1 \<or> rc_encode_single_key_field rc then
        res_bind (res_map (key_column b) (rc_record_key_fields rc)) (\<lambda>cols.
          res_map (\<lambda>i. res_bind (composite_key (rc_record_key_fields rc) (map (\<lambda>c. c ! i) cols))
            (\<lambda>k. Ok (Some k))) [0 ..< length (b_rows b)])
      else key_column b (rc_record_key_field rc))"

definition get_record_keys :: "RecordContext \<Rightarrow> batch \<Rightarrow> string list result" where
  "get_record_keys rc b =
     res_bind (record_key_array rc b) (\<lambda>ks.
       Ok (map (\<lambda>k. case k of None \<Rightarrow> [] | Some s \<Rightarrow> s) ks))"

section \<open>Ordering values\<close>

definition ordering_type_ok :: "DataType \<Rightarrow> bool" where
  "ordering_type_ok t = (case t of
      DtDecimal128 _ s \<Rightarrow> 0 \<le> s \<and> s \<le> 38
    | DtTimestamp _ \<Rightarrow> True
    | _ \<Rightarrow> t \<in> {DtInt64, DtInt32, DtInt16, DtInt8, DtBoolean, DtDate32, DtDate64, DtFloat64,
          DtFloat32, DtUtf8, DtLargeUtf8})"

text \<open>The ordering value of a non-null slot. A 32-bit zero is Java's default ordering value.\<close>

definition slot_ordering :: "DataType \<Rightarrow> Value \<Rightarrow> OrderingValue option" where
  "slot_ordering t v = (case v of
      VInt n \<Rightarrow> Some (if t = DtInt32 \<and> n = 0 then OvDefault else OvLong n)
    | VBool b \<Rightarrow> Some (OvLong (if b then 1 else 0))
    | VFloat w \<Rightarrow> Some (OvDouble w)
    | VStr s \<Rightarrow> Some (OvString s)
    | VDecimal u \<Rightarrow> (case t of DtDecimal128 _ s \<Rightarrow> Some (OvDecimal u s) | _ \<Rightarrow> None)
    | _ \<Rightarrow> None)"

text \<open>\<open>OrderingAccessor::value_at\<close> on a column of a supported type.\<close>

definition value_at :: "DataType \<Rightarrow> Value \<Rightarrow> OrderingValue option" where
  "value_at t v =
     (if \<not> ordering_type_ok t then None
      else if v = VNull then Some OvDefault else slot_ordering t v)"

definition batch_column :: "batch \<Rightarrow> string \<Rightarrow> (DataType \<times> Value list) option" where
  "batch_column b n =
     map_option (\<lambda>(f, c). (f_type f, map (\<lambda>r. r ! c) (b_rows b)))
       (find (\<lambda>(f, _). f_name f = n) (zip (b_schema b) [0 ..< length (b_schema b)]))"

definition column_to_ordering_values :: "DataType \<times> Value list \<Rightarrow> OrderingValue option list option" where
  "column_to_ordering_values c =
     (if ordering_type_ok (fst c) then Some (map (value_at (fst c)) (snd c)) else None)"

definition those_options :: "'a option list \<Rightarrow> 'a list option" where
  "those_options xs = (if list_all (\<lambda>x. x \<noteq> None) xs then Some (map the xs) else None)"

definition get_ordering_values :: "RecordContext \<Rightarrow> batch \<Rightarrow> OrderingValue option list option" where
  "get_ordering_values rc b = (case rc_ordering_field_names rc of
      [] \<Rightarrow> None
    | [f] \<Rightarrow> Option.bind (batch_column b f) column_to_ordering_values
    | fs \<Rightarrow> map_option (\<lambda>cols. map (\<lambda>i. map_option OvComposite
          (those_options (map (\<lambda>c. c ! i) cols))) [0 ..< length (b_rows b)])
        (those_options (map (\<lambda>f. Option.bind (batch_column b f) column_to_ordering_values) fs)))"

text \<open>\<open>ordering_accessor\<close> followed by \<open>value_at\<close>, the lazy path of the merge kernel.\<close>

definition accessor_value_at :: "RecordContext \<Rightarrow> batch \<Rightarrow> nat \<Rightarrow> OrderingValue option" where
  "accessor_value_at rc b i = (case rc_ordering_field_names rc of
      [] \<Rightarrow> None
    | [f] \<Rightarrow> (case batch_column b f of None \<Rightarrow> None | Some (t, vs) \<Rightarrow> value_at t (vs ! i))
    | _ \<Rightarrow> (case get_ordering_values rc b of None \<Rightarrow> None
        | Some vs \<Rightarrow> Option.bind (nth_opt vs i) (\<lambda>v. v)))"

definition ordering_value_at :: "RecordContext \<Rightarrow> batch \<Rightarrow> nat \<Rightarrow> OrderingValue option" where
  "ordering_value_at rc b i = (case get_ordering_values rc b of None \<Rightarrow> None
     | Some vs \<Rightarrow> Option.bind (nth_opt vs i) (\<lambda>v. v))"

lemma ordering_value_at_in_range:
  assumes "i < length (b_rows b)"
  shows "accessor_value_at rc b i = ordering_value_at rc b i"
proof (cases "rc_ordering_field_names rc")
  case (Cons f fs)
  show ?thesis
  proof (cases fs)
    case Nil
    then show ?thesis
      using Cons assms
      by (auto simp: accessor_value_at_def ordering_value_at_def get_ordering_values_def
          column_to_ordering_values_def batch_column_def nth_opt_def value_at_def
          split: option.splits prod.splits)
  qed (simp add: Cons accessor_value_at_def ordering_value_at_def)
qed (simp add: accessor_value_at_def ordering_value_at_def get_ordering_values_def)

section \<open>The ordering value of a delete\<close>

text \<open>A delete block stores its ordering value in a union of wrappers: null, a struct with a
  \<open>value\<close> field, or a struct with a list \<open>wrappedValues\<close> of such wrappers. Anything else is
  malformed.\<close>

datatype DeleteWrapper =
    WrapNull | WrapScalar DataType Value | WrapList "DeleteWrapper list option" | WrapMalformed

definition scalar_ordering_value :: "DataType \<Rightarrow> Value \<Rightarrow> OrderingValue option result" where
  "scalar_ordering_value t v =
     (if v = VNull then Ok None
      else if \<not> ordering_type_ok t then Err UnsupportedError
      else Ok (slot_ordering t v))"

fun decode_delete_wrapper_ordering :: "DeleteWrapper \<Rightarrow> OrderingValue option result"
  and decode_composite_parts :: "DeleteWrapper list \<Rightarrow> OrderingValue list option result" where
  "decode_delete_wrapper_ordering WrapNull = Ok None"
| "decode_delete_wrapper_ordering WrapMalformed = Err ReadFileSliceError"
| "decode_delete_wrapper_ordering (WrapScalar t v) = scalar_ordering_value t v"
| "decode_delete_wrapper_ordering (WrapList None) = Ok None"
| "decode_delete_wrapper_ordering (WrapList (Some ws)) =
     res_bind (decode_composite_parts ws) (\<lambda>ps. Ok (case ps of
        None \<Rightarrow> None
      | Some ps' \<Rightarrow> if ps' = [] then None else Some (OvComposite ps')))"
| "decode_composite_parts [] = Ok (Some [])"
| "decode_composite_parts (w # ws) =
     res_bind (decode_delete_wrapper_ordering w) (\<lambda>v. case v of
        None \<Rightarrow> Ok None
      | Some x \<Rightarrow> res_bind (decode_composite_parts ws) (\<lambda>ps. Ok (map_option ((#) x) ps)))"

datatype DeleteOrdering =
    NoOrderingColumn | OrderingUnion "DeleteWrapper list" | OrderingColumn DataType "Value list"

text \<open>A delete batch: its rows, the key column when it is a string column, and the ordering
  column.\<close>

record DeleteBatch =
  db_num_rows :: nat
  db_keys :: "string option list option"
  db_ordering :: DeleteOrdering

definition delete_batch_to_keys_with_ordering ::
  "DeleteBatch \<Rightarrow> (string \<times> OrderingValue option) list result" where
  "delete_batch_to_keys_with_ordering db =
     (if db_num_rows db = 0 then Ok [] else case db_keys db of
      None \<Rightarrow> Err ReadFileSliceError
    | Some ks \<Rightarrow>
        res_bind (case db_ordering db of
            NoOrderingColumn \<Rightarrow> Ok (map (\<lambda>_. None) ks)
          | OrderingUnion ws \<Rightarrow> res_map decode_delete_wrapper_ordering ws
          | OrderingColumn t vs \<Rightarrow> ok_or UnsupportedError (column_to_ordering_values (t, vs)))
          (\<lambda>os. Ok (map (\<lambda>i. (case ks ! i of None \<Rightarrow> [] | Some k \<Rightarrow> k,
              Option.bind (nth_opt os i) (\<lambda>v. v))) [0 ..< length ks])))"

section \<open>Detecting deletes\<close>

record DeleteContext =
  dc_custom_delete_marker :: "(string \<times> string) option"
  dc_has_built_in_delete_field :: bool
  dc_hoodie_operation_pos :: "nat option"
  dc_reader_schema :: Schema

definition DELETE_KEY_PROP :: string where "DELETE_KEY_PROP = ''hoodie.payload.delete.field''"
definition DELETE_MARKER_PROP :: string where "DELETE_MARKER_PROP = ''hoodie.payload.delete.marker''"
definition RECORD_MERGE_PROPERTY_PREFIX :: string where
  "RECORD_MERGE_PROPERTY_PREFIX = ''hoodie.record.merge.property.''"

definition PAYLOAD_CLASS_KEYS :: "string list" where
  "PAYLOAD_CLASS_KEYS = [''hoodie.compaction.payload.class'',
     ''hoodie.datasource.write.payload.class'', ''hoodie.table.legacy.payload.class'']"

fun find_config :: "configs \<Rightarrow> string list \<Rightarrow> string option" where
  "find_config cfg [] = None"
| "find_config cfg (k # ks) = (case cfg k of Some v \<Rightarrow> Some v | None \<Rightarrow> find_config cfg ks)"

definition synthesize_legacy_delete_marker :: "configs \<Rightarrow> (string \<times> string) option" where
  "synthesize_legacy_delete_marker props =
     Option.bind (props ''hoodie.table.version'') (\<lambda>v.
     Option.bind (parse_sint 32 (trim v)) (\<lambda>version.
       if version \<ge> 9 then None
       else Option.bind (find_config props PAYLOAD_CLASS_KEYS) (\<lambda>cls.
         if ends_with ''AWSDmsAvroPayload'' cls then Some (''Op'', ''D'')
         else if ends_with ''MySqlDebeziumAvroPayload'' cls
           \<or> ends_with ''PostgresDebeziumAvroPayload'' cls
         then Some (''_change_operation_type'', ''d'')
         else None)))"

definition merge_property :: "configs \<Rightarrow> string \<Rightarrow> string option" where
  "merge_property props sfx =
     Option.bind (case props (RECORD_MERGE_PROPERTY_PREFIX @ sfx) of
          Some v \<Rightarrow> Some v | None \<Rightarrow> props sfx)
       (\<lambda>v. if v = [] then None else Some v)"

definition get_custom_delete_marker :: "configs \<Rightarrow> (string \<times> string) option" where
  "get_custom_delete_marker props =
     (case (merge_property props DELETE_KEY_PROP, merge_property props DELETE_MARKER_PROP) of
        (Some k, Some m) \<Rightarrow> Some (k, m)
      | _ \<Rightarrow> synthesize_legacy_delete_marker props)"

definition field_position :: "Schema \<Rightarrow> string \<Rightarrow> nat option" where
  "field_position s n = map_option snd (find (\<lambda>(f, _). f_name f = n) (zip s [0 ..< length s]))"

definition delete_context_new :: "configs \<Rightarrow> Schema \<Rightarrow> DeleteContext" where
  "delete_context_new props table_schema =
     \<lparr>dc_custom_delete_marker = get_custom_delete_marker props,
      dc_has_built_in_delete_field = has_field table_schema ''_hoodie_is_deleted'',
      dc_hoodie_operation_pos = None, dc_reader_schema = table_schema\<rparr>"

definition delete_context_from_props :: "configs \<Rightarrow> DeleteContext" where
  "delete_context_from_props props =
     \<lparr>dc_custom_delete_marker = get_custom_delete_marker props,
      dc_has_built_in_delete_field = True, dc_hoodie_operation_pos = None, dc_reader_schema = []\<rparr>"

definition with_reader_schema :: "Schema \<Rightarrow> DeleteContext \<Rightarrow> DeleteContext" where
  "with_reader_schema s ctx =
     ctx\<lparr>dc_has_built_in_delete_field := has_field s ''_hoodie_is_deleted'',
         dc_hoodie_operation_pos := field_position s ''_hoodie_operation'',
         dc_reader_schema := s\<rparr>"

definition delete_context_from_reader_schema :: "Schema \<Rightarrow> DeleteContext" where
  "delete_context_from_reader_schema s =
     \<lparr>dc_custom_delete_marker = None,
      dc_has_built_in_delete_field = has_field s ''_hoodie_is_deleted'',
      dc_hoodie_operation_pos = field_position s ''_hoodie_operation'', dc_reader_schema = s\<rparr>"

definition is_built_in_delete_record :: "row \<Rightarrow> DeleteContext option \<Rightarrow> bool" where
  "is_built_in_delete_record r ctx =
     (if (case ctx of None \<Rightarrow> False | Some c \<Rightarrow> \<not> dc_has_built_in_delete_field c) then False
      else (case column_of r ''_hoodie_is_deleted'' of
          None \<Rightarrow> False | Some (f, v) \<Rightarrow> f_type f = DtBoolean \<and> v = VBool True))"

definition is_operation_delete_value :: "Field \<times> Value \<Rightarrow> bool" where
  "is_operation_delete_value c =
     (f_type (fst c) = DtUtf8 \<and> (snd c = VStr ''D'' \<or> snd c = VStr ''-U''))"

text \<open>The position comes from the reader schema when a delete context is given, and indexes
  the columns of the batch at hand; past its last column the access panics.\<close>

definition is_delete_hoodie_operation :: "row \<Rightarrow> DeleteContext option \<Rightarrow> bool result" where
  "is_delete_hoodie_operation r ctx =
     (case (case ctx of Some c \<Rightarrow> dc_hoodie_operation_pos c
            | None \<Rightarrow> field_position (row_schema r) ''_hoodie_operation'') of
        None \<Rightarrow> Ok False
      | Some i \<Rightarrow> if i < length r then Ok (is_operation_delete_value (r ! i)) else Err Panic)"

definition is_custom_delete_record :: "row \<Rightarrow> DeleteContext option \<Rightarrow> bool" where
  "is_custom_delete_record r ctx =
     (case Option.bind ctx dc_custom_delete_marker of
        None \<Rightarrow> False
      | Some (key, marker) \<Rightarrow> (case column_of r key of
          None \<Rightarrow> False
        | Some (f, VStr s) \<Rightarrow> f_type f = DtUtf8 \<and> s = marker
        | Some (f, VInt n) \<Rightarrow> (f_type f = DtInt32 \<or> f_type f = DtInt64) \<and> show_int n = marker
        | _ \<Rightarrow> False))"

definition is_delete_record :: "row \<Rightarrow> DeleteContext option \<Rightarrow> bool result" where
  "is_delete_record r ctx =
     (if is_built_in_delete_record r ctx then Ok True
      else res_bind (is_delete_hoodie_operation r ctx) (\<lambda>d.
        if d then Ok True else Ok (is_custom_delete_record r ctx)))"

section \<open>Batches to records\<close>

definition batch_to_buffered_records ::
  "RecordContext \<Rightarrow> batch \<Rightarrow> DeleteContext option \<Rightarrow> (string \<times> BufferedRecord) list result" where
  "batch_to_buffered_records rc b ctx =
     (if b_rows b = [] then Ok []
      else res_bind (get_record_keys rc b) (\<lambda>keys.
        res_map (\<lambda>(i, k).
          res_bind (slice_row b i) (\<lambda>r. res_bind (is_delete_record r ctx) (\<lambda>d.
            Ok (k, if d then new_delete k (ordering_value_at rc b i)
                   else new_batch_ref k b i (ordering_value_at rc b i)))))
          (zip [0 ..< length keys] keys)))"

end
