(* ===== verification/Metadata_Payload.thy ===== *)
theory Metadata_Payload
  imports Record_Context Metadata_Table
begin

text \<open>
  The fold of metadata-table records under the CUSTOM merge mode:
  \<open>file_group/reader_v2/metadata_merger.rs\<close>. A metadata record carries its partition type in
  the column \<open>type\<close>; a files record folds the map \<open>filesystemMetadata\<close> of the newer row into
  the older row's, a statistics record combines bounds and counters. The comparison of two
  bound values is Arrow's and a parameter.
\<close>

section \<open>Choosing the merger\<close>

definition METADATA_PAYLOAD_CLASS :: string where
  "METADATA_PAYLOAD_CLASS = ''org.apache.hudi.metadata.HoodieMetadataPayload''"

definition PAYLOAD_BASED_STRATEGY_ID :: string where
  "PAYLOAD_BASED_STRATEGY_ID = ''00000000-0000-0000-0000-000000000000''"

datatype CustomMerger = MetadataPayloadCustom

definition custom_lookup :: "configs \<Rightarrow> string list \<Rightarrow> string" where
  "custom_lookup cfg ks = (case find_config cfg ks of None \<Rightarrow> [] | Some s \<Rightarrow> trim s)"

definition resolve_custom_merger :: "string list \<Rightarrow> string list \<Rightarrow> configs \<Rightarrow> CustomMerger option" where
  "resolve_custom_merger payload_keys strategy_keys cfg =
     (let payload_class = custom_lookup cfg payload_keys;
          strategy_id = custom_lookup cfg strategy_keys
      in if \<not> (strategy_id = [] \<or> eq_ignore_ascii_case strategy_id PAYLOAD_BASED_STRATEGY_ID)
         then None
         else if payload_class = METADATA_PAYLOAD_CLASS then Some MetadataPayloadCustom
         else None)"

section \<open>The record's type\<close>

definition record_type :: "row \<Rightarrow> int result" where
  "record_type r = (case column_of r ''type'' of
      None \<Rightarrow> Err UnsupportedError
    | Some (f, v) \<Rightarrow>
        if f_type f \<noteq> DtInt32 then Err UnsupportedError
        else (case v of VInt n \<Rightarrow> Ok n | _ \<Rightarrow> Err UnsupportedError))"

section \<open>The file map\<close>

record FileInfo =
  fin_size :: int
  fin_is_deleted :: bool

definition struct_pos :: "(string \<times> DataType) list \<Rightarrow> string \<Rightarrow> (nat \<times> DataType) option" where
  "struct_pos fs n = map_option (\<lambda>((_, t), i). (i, t))
     (find (\<lambda>((m, _), _). m = n) (zip fs [0 ..< length fs]))"

definition typed_pos :: "(string \<times> DataType) list \<Rightarrow> string \<Rightarrow> DataType \<Rightarrow> nat result" where
  "typed_pos fs n t = (case struct_pos fs n of
      None \<Rightarrow> Err UnsupportedError
    | Some (i, t') \<Rightarrow> if t' = t then Ok i else Err UnsupportedError)"

fun insert_file_entry ::
  "nat \<Rightarrow> nat \<Rightarrow> Value \<Rightarrow> (string, FileInfo) btree_map \<Rightarrow> (string, FileInfo) btree_map" where
  "insert_file_entry si di (VNested [VStr k, VNested vs]) m = bm_insert k
     \<lparr>fin_size = (case nth_opt vs si of Some (VInt n) \<Rightarrow> n | _ \<Rightarrow> 0),
      fin_is_deleted = (nth_opt vs di = Some (VBool True))\<rparr> m"
| "insert_file_entry _ _ _ m = m"

definition read_file_map :: "Field \<times> Value \<Rightarrow> (string, FileInfo) btree_map result" where
  "read_file_map c = (case f_type (fst c) of
      DtMap _ (DtStruct [(_, kt), (_, vt)]) _ \<Rightarrow>
        if snd c = VNull then Ok []
        else if kt \<noteq> DtUtf8 then Err UnsupportedError
        else (case vt of
            DtStruct vfs \<Rightarrow>
              res_bind (typed_pos vfs ''size'' DtInt64) (\<lambda>si.
              res_bind (typed_pos vfs ''isDeleted'' DtBoolean) (\<lambda>di.
                Ok (case snd c of VNested es \<Rightarrow> fold (insert_file_entry si di) es [] | _ \<Rightarrow> [])))
          | _ \<Rightarrow> Err UnsupportedError)
    | _ \<Rightarrow> Err UnsupportedError)"

text \<open>One entry of the newer map against the accumulated one.\<close>

definition fold_file_entry ::
  "string \<times> FileInfo \<Rightarrow> (string, FileInfo) btree_map \<Rightarrow> (string, FileInfo) btree_map" where
  "fold_file_entry e merged =
     (let (name, new_info) = e in
      case bm_get merged name of
        Some old_info \<Rightarrow>
          if fin_is_deleted new_info then
            (if fin_is_deleted old_info then bm_insert name new_info merged
             else bm_remove name merged)
          else bm_insert name
            \<lparr>fin_size = max (fin_size old_info) (fin_size new_info), fin_is_deleted = False\<rparr> merged
      | None \<Rightarrow> bm_insert name new_info merged)"

definition file_field_value :: "FileInfo \<Rightarrow> string \<Rightarrow> Value result" where
  "file_field_value i n =
     (if n = ''size'' then Ok (VInt (fin_size i))
      else if n = ''isDeleted'' then Ok (VBool (fin_is_deleted i))
      else Err UnsupportedError)"

definition build_file_map :: "DataType \<Rightarrow> (string, FileInfo) btree_map \<Rightarrow> Value result" where
  "build_file_map t entries = (case t of
      DtMap _ (DtStruct [_, (_, DtStruct vfs)]) _ \<Rightarrow>
        if \<not> list_all (\<lambda>(n, _). n = ''size'' \<or> n = ''isDeleted'') vfs then Err UnsupportedError
        else res_bind (res_map (\<lambda>(k, i).
            res_bind (res_map (\<lambda>(n, _). file_field_value i n) vfs) (\<lambda>vs.
              Ok (VNested [VStr k, VNested vs]))) entries) (\<lambda>es. Ok (VNested es))
    | _ \<Rightarrow> Err UnsupportedError)"

text \<open>\<open>columns[column_idx] = folded\<close>: the first column of the name gets the value.\<close>

fun set_column :: "row \<Rightarrow> string \<Rightarrow> Value \<Rightarrow> row" where
  "set_column [] n v = []"
| "set_column ((f, w) # r) n v = (if f_name f = n then (f, v) # r else (f, w) # set_column r n v)"

definition fold_filesystem_metadata :: "row \<Rightarrow> row \<Rightarrow> row result" where
  "fold_filesystem_metadata older newer =
     (case column_of newer ''filesystemMetadata'' of
        None \<Rightarrow> Ok newer
      | Some c \<Rightarrow>
          res_bind (case column_of older ''filesystemMetadata'' of
              Some oc \<Rightarrow> read_file_map oc | None \<Rightarrow> Ok []) (\<lambda>merged.
          res_bind (read_file_map c) (\<lambda>new_entries.
          res_bind (build_file_map (f_type (fst c)) (fold fold_file_entry new_entries merged))
            (\<lambda>v. try_new_row ArrowError (set_column newer ''filesystemMetadata'' v)))))"

section \<open>Column statistics\<close>

type_synonym stats = "(string \<times> DataType) list \<times> Value list"

definition stats_struct :: "Field \<times> Value \<Rightarrow> stats option result" where
  "stats_struct c = (case f_type (fst c) of
      DtStruct fs \<Rightarrow> Ok (case snd c of VNested vs \<Rightarrow> Some (fs, vs) | _ \<Rightarrow> None)
    | _ \<Rightarrow> Err UnsupportedError)"

definition stats_field :: "stats \<Rightarrow> string \<Rightarrow> (DataType \<times> Value) option" where
  "stats_field s n = (case struct_pos (fst s) n of None \<Rightarrow> None
     | Some (i, t) \<Rightarrow> map_option (Pair t) (nth_opt (snd s) i))"

definition stats_flag :: "stats \<Rightarrow> string \<Rightarrow> bool" where
  "stats_flag s n = (stats_field s n = Some (DtBoolean, VBool True))"

definition read_counter :: "stats \<Rightarrow> string \<Rightarrow> int option" where
  "read_counter s n = (case stats_field s n of
      Some (DtInt64, VInt k) \<Rightarrow> Some k | _ \<Rightarrow> None)"

definition saturating_add_i64 :: "int \<Rightarrow> int \<Rightarrow> int" where
  "saturating_add_i64 a b = max (- (2 ^ 63)) (min (2 ^ 63 - 1) (a + b))"

definition sum_counter :: "stats \<Rightarrow> stats \<Rightarrow> string \<Rightarrow> Value" where
  "sum_counter older newer n =
     (case (read_counter older n, read_counter newer n) of
        (None, None) \<Rightarrow> VNull
      | (a, b) \<Rightarrow> VInt (saturating_add_i64 (case a of None \<Rightarrow> 0 | Some x \<Rightarrow> x)
                                         (case b of None \<Rightarrow> 0 | Some x \<Rightarrow> x)))"

text \<open>The value inside a bound: a union of structs that wrap it in a field \<open>value\<close>.\<close>

definition wrapped_value :: "DataType \<times> Value \<Rightarrow> (DataType \<times> Value) option result" where
  "wrapped_value c = (case c of
      (DtUnion branches, VUnion tid v) \<Rightarrow>
        (case map_of branches tid of
           None \<Rightarrow> Err UnsupportedError
         | Some t \<Rightarrow>
             if t = DtNull \<or> v = VNull then Ok None
             else (case (t, v) of
                 (DtStruct fs, VNested vs) \<Rightarrow> (case stats_field (fs, vs) ''value'' of
                     None \<Rightarrow> Err UnsupportedError
                   | Some (t', w) \<Rightarrow> if w = VNull then Ok None else Ok (Some (t', w)))
               | _ \<Rightarrow> Err UnsupportedError))
    | (DtUnion branches, _) \<Rightarrow> Ok None
    | _ \<Rightarrow> Err UnsupportedError)"

text \<open>The chosen bound goes into the newer record's field, whose type it must have.\<close>

definition pick_bound ::
  "(DataType \<Rightarrow> Value \<Rightarrow> Value \<Rightarrow> rust_ordering result) \<Rightarrow> stats \<Rightarrow> stats \<Rightarrow> string \<Rightarrow> rust_ordering
   \<Rightarrow> (DataType \<times> Value) result" where
  "pick_bound compare older newer n want =
     (case (stats_field older n, stats_field newer n) of
        (Some ob, Some nb) \<Rightarrow>
          res_bind (wrapped_value ob) (\<lambda>ov. res_bind (wrapped_value nb) (\<lambda>nv.
            case (ov, nv) of
              (None, _) \<Rightarrow> Ok nb
            | (_, None) \<Rightarrow> Ok ob
            | (Some (t1, v1), Some (t2, v2)) \<Rightarrow>
                if t1 \<noteq> t2 then Err UnsupportedError
                else res_bind (compare t1 v1 v2) (\<lambda>c. Ok (if c = want then ob else nb))))
      | _ \<Rightarrow> Err UnsupportedError)"

definition COUNTER_FIELDS :: "string list" where
  "COUNTER_FIELDS = [''valueCount'', ''nullCount'', ''totalSize'', ''totalUncompressedSize'']"

definition fold_stat ::
  "(DataType \<Rightarrow> Value \<Rightarrow> Value \<Rightarrow> rust_ordering result) \<Rightarrow> stats \<Rightarrow> stats
   \<Rightarrow> (string \<times> DataType) \<times> Value \<Rightarrow> (DataType \<times> Value) result" where
  "fold_stat compare older newer c =
     (let ((n, t), v) = c in
      if n = ''minValue'' then pick_bound compare older newer n Less
      else if n = ''maxValue'' then pick_bound compare older newer n Greater
      else if n \<in> set COUNTER_FIELDS then Ok (DtInt64, sum_counter older newer n)
      else Ok (t, v))"

text \<open>\<open>StructArray::try_new\<close> refuses a column of another type than its field's.\<close>

definition fold_column_stats ::
  "(DataType \<Rightarrow> Value \<Rightarrow> Value \<Rightarrow> rust_ordering result) \<Rightarrow> row \<Rightarrow> row \<Rightarrow> row result" where
  "fold_column_stats compare older newer =
     (case column_of newer ''ColumnStatsMetadata'' of
        None \<Rightarrow> Ok newer
      | Some nc \<Rightarrow> res_bind (stats_struct nc) (\<lambda>ns.
          case column_of older ''ColumnStatsMetadata'' of
            None \<Rightarrow> Ok newer
          | Some oc \<Rightarrow> res_bind (stats_struct oc) (\<lambda>os.
              case (ns, os) of
                (Some nst, Some ost) \<Rightarrow>
                  if stats_flag nst ''isDeleted'' \<or> stats_flag ost ''isDeleted'' then Ok newer
                  else if stats_flag nst ''isTightBound'' then Ok newer
                  else res_bind (res_map (fold_stat compare ost nst) (zip (fst nst) (snd nst))) (\<lambda>cs.
                    if map fst cs \<noteq> map snd (fst nst) then Err ArrowError
                    else try_new_row ArrowError
                      (set_column newer ''ColumnStatsMetadata'' (VNested (map snd cs))))
              | _ \<Rightarrow> Ok newer)))"

section \<open>Facts\<close>

text \<open>The file map as the files-partition merger sees it.\<close>

definition files_of :: "(string, FileInfo) btree_map \<Rightarrow> (string, HoodieMetadataFileInfo) btree_map" where
  "files_of m = map (\<lambda>(k, i). (k, \<lparr>fi_name = k, fi_size = fin_size i,
     fi_is_deleted = fin_is_deleted i\<rparr>)) m"

lemma bm_get_map: "bm_get (map (\<lambda>(k, v). (k, g k v)) m) k = map_option (g k) (bm_get m k)"
  by (induction m) (auto simp: bm_get_def)

lemma bm_insert_map:
  "map (\<lambda>(k, v). (k, g k v)) (bm_insert k v m) = bm_insert k (g k v) (map (\<lambda>(k, v). (k, g k v)) m)"
  by (induction k v m rule: bm_insert.induct) auto

lemma bm_remove_map:
  "map (\<lambda>(k, v). (k, g k v)) (bm_remove k m) = bm_remove k (map (\<lambda>(k, v). (k, g k v)) m)"
  by (induction m) (auto simp: bm_remove_def)

lemma files_of_fold_entry: "files_of (fold_file_entry e m) =
    merge_file_entry (hd (files_of [e])) (files_of m)"
proof (cases e)
  case (Pair name i)
  show ?thesis
    unfolding files_of_def Pair
    by (auto simp: fold_file_entry_def merge_file_entry_def bm_get_map bm_insert_map
        bm_remove_map split: option.splits)
qed

lemma files_of_fold:
  "files_of (fold fold_file_entry es m) = fold merge_file_entry (files_of es) (files_of m)"
proof (induction es arbitrary: m)
  case (Cons e es)
  have "files_of (e # es) = hd (files_of [e]) # files_of es" by (simp add: files_of_def)
  then show ?case using Cons by (simp add: files_of_fold_entry)
qed (simp add: files_of_def)

lemma bm_insert_last:
  "(\<And>x. x \<in> fst ` set m \<Longrightarrow> x < k) \<Longrightarrow> bm_insert k v m = m @ [(k, v)]"
  by (induction k v m rule: bm_insert.induct) (auto dest: less_asym)

lemma find_Some_in: "find P xs = Some x \<Longrightarrow> x \<in> set xs \<and> P x"
  by (induction xs) (auto split: if_splits)

lemma typed_pos_Ok:
  assumes "typed_pos fs n t = Ok i"
  shows "i < length fs \<and> fst (fs ! i) = n"
proof -
  obtain e where "find (\<lambda>((m, _), _). m = n) (zip fs [0 ..< length fs]) = Some e" "snd e = i"
    using assms by (auto simp: typed_pos_def struct_pos_def split: option.splits if_splits)
  then show ?thesis by (auto dest!: find_Some_in simp: in_set_zip)
qed

definition file_entry_value :: "(string \<times> DataType) list \<Rightarrow> string \<times> FileInfo \<Rightarrow> Value result" where
  "file_entry_value vfs e = res_bind (res_map (\<lambda>(n, _). file_field_value (snd e) n) vfs)
     (\<lambda>vs. Ok (VNested [VStr (fst e), VNested vs]))"

lemma insert_built_entry:
  assumes "file_entry_value vfs e = Ok v" "typed_pos vfs ''size'' DtInt64 = Ok si"
    "typed_pos vfs ''isDeleted'' DtBoolean = Ok di"
  shows "insert_file_entry si di v m = bm_insert (fst e) (snd e) m"
proof -
  obtain vs where v: "v = VNested [VStr (fst e), VNested vs]"
    and vs: "list_all2 (\<lambda>(n, _) y. file_field_value (snd e) n = Ok y) vfs vs"
    using assms(1) by (auto simp: file_entry_value_def res_bind_Inr_iff res_map_Inr_iff case_prod_beta')
  have nth: "file_field_value (snd e) (fst (vfs ! i)) = Ok (vs ! i)" "i < length vs" if "i < length vfs" for i
    using vs that by (auto simp: list_all2_conv_all_nth case_prod_beta')
  have "vs ! si = VInt (fin_size (snd e))" "si < length vs"
    using nth [of si] typed_pos_Ok [OF assms(2)] by (auto simp: file_field_value_def)
  moreover have "vs ! di = VBool (fin_is_deleted (snd e))" "di < length vs"
    using nth [of di] typed_pos_Ok [OF assms(3)] by (auto simp: file_field_value_def)
  ultimately show ?thesis by (cases "snd e") (simp add: v nth_opt_def)
qed

lemma bm_insert_all: "bm_ok (m @ n) \<Longrightarrow> fold (\<lambda>e. bm_insert (fst e) (snd e)) n m = m @ n"
proof (induction n arbitrary: m)
  case (Cons e n)
  have "x < fst e" if "x \<in> fst ` set m" for x
    using Cons.prems that by (auto simp: bm_ok_def sorted_wrt_append)
  then have "bm_insert (fst e) (snd e) m = m @ [e]" by (simp add: bm_insert_last)
  then show ?case using Cons.IH [of "m @ [e]"] Cons.prems by simp
qed simp

lemma fold_built_entries:
  assumes "typed_pos vfs ''size'' DtInt64 = Ok si" "typed_pos vfs ''isDeleted'' DtBoolean = Ok di"
    and "list_all2 (\<lambda>e v. file_entry_value vfs e = Ok v) n es"
  shows "fold (insert_file_entry si di) es m = fold (\<lambda>e. bm_insert (fst e) (snd e)) n m"
  using assms(3)
proof (induction n es arbitrary: m rule: list_all2_induct)
  case (Cons e n v es)
  then show ?case using insert_built_entry [OF _ assms(1,2)] by simp
qed simp

lemma read_file_map_type:
  assumes "read_file_map (f, v) = Ok m" "v \<noteq> VNull"
  obtains mn kn vn vfs s si di where "f_type f = DtMap mn (DtStruct [(kn, DtUtf8), (vn, DtStruct vfs)]) s"
    "typed_pos vfs ''size'' DtInt64 = Ok si" "typed_pos vfs ''isDeleted'' DtBoolean = Ok di"
  using assms
  by (auto simp: read_file_map_def res_bind_Inr_iff split: DataType.splits list.splits if_splits)

lemma build_file_map_entries:
  assumes "build_file_map (DtMap mn (DtStruct [a, (vn, DtStruct vfs)]) s) m = Ok v"
  shows "\<exists>es. v = VNested es \<and> list_all2 (\<lambda>e v. file_entry_value vfs e = Ok v) m es"
  using assms
  by (auto simp: build_file_map_def res_bind_Inr_iff res_map_Inr_iff file_entry_value_def
      case_prod_beta' split: if_splits)

lemma read_built_file_map:
  assumes "f_type f = DtMap mn (DtStruct [(kn, DtUtf8), (vn, DtStruct vfs)]) s"
    and "typed_pos vfs ''size'' DtInt64 = Ok si" "typed_pos vfs ''isDeleted'' DtBoolean = Ok di"
    and "build_file_map (f_type f) m = Ok v" "bm_ok m"
  shows "read_file_map (f, v) = Ok m"
proof -
  obtain es where v: "v = VNested es" and es: "list_all2 (\<lambda>e v. file_entry_value vfs e = Ok v) m es"
    using build_file_map_entries assms(1,4) by fastforce
  have "fold (insert_file_entry si di) es [] = m"
    using fold_built_entries [OF assms(2,3) es, of "[]"] bm_insert_all [of "[]" m] assms(5) by simp
  then show ?thesis using assms(1-3) by (simp add: read_file_map_def v)
qed

lemma bm_ok_read_file_map: "read_file_map c = Ok m \<Longrightarrow> bm_ok m"
proof -
  have ins: "bm_ok (insert_file_entry si di v m)" if "bm_ok m" for si di v m
    using that by (induction si di v m rule: insert_file_entry.induct) auto
  have "bm_ok (fold (insert_file_entry si di) es m)" if "bm_ok m" for si di es m
    using that by (induction es arbitrary: m) (auto simp: ins)
  then show "read_file_map c = Ok m \<Longrightarrow> bm_ok m"
    by (cases "snd c") (auto simp: read_file_map_def res_bind_Inr_iff
        split: DataType.splits list.splits if_splits)
qed

lemma bm_ok_fold_file_entry: "bm_ok m \<Longrightarrow> bm_ok (fold_file_entry e m)"
  by (auto simp: fold_file_entry_def split: option.splits prod.splits)

lemma bm_ok_fold_files: "bm_ok m \<Longrightarrow> bm_ok (fold fold_file_entry es m)"
  by (induction es arbitrary: m) (auto simp: bm_ok_fold_file_entry)

lemma column_of_set_column:
  "column_of r n = Some (f, w) \<Longrightarrow> column_of (set_column r n v) n = Some (f, v)"
  by (induction r n v rule: set_column.induct) (auto simp: column_of_Cons split: if_splits)

section \<open>Properties\<close>

text \<open>Folding a files record of the metadata table under the CUSTOM merge mode and merging
  the decoded records directly agree: the map read back from the folded row is the one the
  files-partition merger computes from the two rows' maps.\<close>

theorem metadata_fold_agrees_with_merger:
  assumes "fold_filesystem_metadata older newer = Ok r"
    and "column_of older ''filesystemMetadata'' = Some oc" "read_file_map oc = Ok om"
    and "column_of newer ''filesystemMetadata'' = Some nc" "read_file_map nc = Ok nm" "snd nc \<noteq> VNull"
  shows "\<exists>c m. column_of r ''filesystemMetadata'' = Some c \<and> read_file_map c = Ok m \<and>
    files_of m = fold merge_file_entry (files_of nm) (files_of om)"
proof -
  obtain nf nv where nc: "nc = (nf, nv)" "nv \<noteq> VNull" using assms(6) by (cases nc) auto
  obtain mn kn vn vfs s si di where t: "f_type nf = DtMap mn (DtStruct [(kn, DtUtf8), (vn, DtStruct vfs)]) s"
      "typed_pos vfs ''size'' DtInt64 = Ok si" "typed_pos vfs ''isDeleted'' DtBoolean = Ok di"
    using read_file_map_type assms(5) nc by metis
  let ?m = "fold fold_file_entry nm om"
  obtain v where v: "build_file_map (f_type nf) ?m = Ok v"
    "try_new_row ArrowError (set_column newer ''filesystemMetadata'' v) = Ok r"
    using assms(1-5) nc by (auto simp: fold_filesystem_metadata_def res_bind_Inr_iff)
  have "read_file_map (nf, v) = Ok ?m"
    by (rule read_built_file_map [OF t v(1)])
      (rule bm_ok_fold_files [OF bm_ok_read_file_map [OF assms(3)]])
  moreover have "column_of r ''filesystemMetadata'' = Some (nf, v)"
    using try_new_row_Ok [OF v(2)] column_of_set_column assms(4) nc by auto
  ultimately show ?thesis using files_of_fold by metis
qed

definition sample_files_field :: Field where
  "sample_files_field = \<lparr>f_name = ''filesystemMetadata'', f_type = DtMap ''entries'' (DtStruct
     [(''key'', DtUtf8), (''value'', DtStruct [(''size'', DtInt64), (''isDeleted'', DtBoolean)])]) False,
     f_nullable = True\<rparr>"

definition sample_files_row :: "bool \<Rightarrow> row" where
  "sample_files_row del = [(sample_files_field,
     VNested [VNested [VStr ''f1'', VNested [VInt 10, VBool del]]])]"

lemma sample_files_read: "read_file_map (hd (sample_files_row del)) =
    Ok [(''f1'', \<lparr>fin_size = 10, fin_is_deleted = del\<rparr>)]"
  by (simp add: read_file_map_def sample_files_row_def sample_files_field_def typed_pos_def
      struct_pos_def nth_opt_def)

theorem metadata_fold_agrees_with_merger_witness:
  "\<exists>r c. fold_filesystem_metadata (sample_files_row False) (sample_files_row True) = Ok r \<and>
     column_of r ''filesystemMetadata'' = Some c \<and> read_file_map c = Ok []"
proof -
  have col: "column_of (sample_files_row d) ''filesystemMetadata'' = Some (hd (sample_files_row d))" for d
    by (simp add: sample_files_row_def sample_files_field_def column_of_def)
  obtain r where r: "fold_filesystem_metadata (sample_files_row False) (sample_files_row True) = Ok r"
    by (simp add: fold_filesystem_metadata_def col sample_files_read fold_file_entry_def Let_def file_field_value_def bm_get_def
        bm_remove_def build_file_map_def try_new_row_def)
      (simp add: sample_files_row_def sample_files_field_def fold_file_entry_def bm_get_def
        bm_remove_def)
  have nn: "snd (hd (sample_files_row True)) \<noteq> VNull" by (simp add: sample_files_row_def)
  obtain c m where cm: "column_of r ''filesystemMetadata'' = Some c" "read_file_map c = Ok m"
    "files_of m = fold merge_file_entry (files_of [(''f1'', \<lparr>fin_size = 10, fin_is_deleted = True\<rparr>)])
       (files_of [(''f1'', \<lparr>fin_size = 10, fin_is_deleted = False\<rparr>)])"
    using metadata_fold_agrees_with_merger [OF r col sample_files_read col sample_files_read nn] by blast
  have "files_of m = []"
    using cm(3) by (simp add: files_of_def merge_file_entry_def bm_get_def bm_remove_def)
  then have "m = []" by (simp add: files_of_def)
  then show ?thesis using r cm by blast
qed

text \<open>The bounds a statistics fold keeps cover both records: the chosen minimum is at or
  below both minima, the chosen maximum at or above both maxima.\<close>

theorem folded_bounds_cover:
  assumes "total_preorder_cmp cmp" and "\<And>a b. compare t a b = Ok (cmp a b)"
    and "stats_field older n = Some ob" "wrapped_value ob = Ok (Some (t, v1))"
    and "stats_field newer n = Some nb" "wrapped_value nb = Ok (Some (t, v2))"
  shows "(pick_bound compare older newer n Less = Ok b \<longrightarrow>
      (\<exists>v. wrapped_value b = Ok (Some (t, v)) \<and> cmp v v1 \<noteq> Greater \<and> cmp v v2 \<noteq> Greater)) \<and>
    (pick_bound compare older newer n Greater = Ok b \<longrightarrow>
      (\<exists>v. wrapped_value b = Ok (Some (t, v)) \<and> cmp v1 v \<noteq> Greater \<and> cmp v2 v \<noteq> Greater))"
proof -
  note flip = total_preorder_cmp.flip [OF assms(1)] and self = total_preorder_cmp.refl [OF assms(1)]
  have pick: "pick_bound compare older newer n want = Ok (if cmp v1 v2 = want then ob else nb)" for want
    using assms(2-6) by (simp add: pick_bound_def)
  have "cmp v2 v1 \<noteq> Greater" if "cmp v1 v2 \<noteq> Less" using flip [of v1 v2] that by auto
  moreover have "cmp v2 v1 \<noteq> Greater" if "cmp v1 v2 = Greater" using flip [of v1 v2] that by auto
  ultimately show ?thesis
    unfolding pick using assms(4,6) self by auto
qed

theorem folded_bounds_cover_witness:
  "\<exists>v. wrapped_value (DtUnion [(2, DtStruct [(''value'', DtInt64)])], VUnion 2 (VNested [VInt 3])) =
      Ok (Some (DtInt64, v)) \<and> v = VInt 3"
proof -
  let ?cmp = "\<lambda>a b. cmp_lin (case a of VInt x \<Rightarrow> x | _ \<Rightarrow> 0) (case b of VInt x \<Rightarrow> x | _ \<Rightarrow> 0)"
  let ?t = "DtUnion [(2, DtStruct [(''value'', DtInt64)])]"
  let ?b = "\<lambda>n :: int. VUnion 2 (VNested [VInt n])"
  have c: "total_preorder_cmp ?cmp"
    by (rule total_preorder_cmp_key [OF linear_cmp.axioms(1) [OF linear_cmp_cmp_lin]])
  have w: "wrapped_value (?t, ?b n) = Ok (Some (DtInt64, VInt n))" for n
    by (simp add: wrapped_value_def stats_field_def struct_pos_def nth_opt_def)
  have f: "stats_field ([(''minValue'', ?t)], [?b n]) ''minValue'' = Some (?t, ?b n)" for n
    by (simp add: stats_field_def struct_pos_def nth_opt_def)
  have p: "pick_bound (\<lambda>_ a b. Ok (?cmp a b)) ([(''minValue'', ?t)], [?b 3])
      ([(''minValue'', ?t)], [?b 5]) ''minValue'' Less = Ok (?t, ?b 3)"
    by (simp add: pick_bound_def f w)
  show ?thesis
    using folded_bounds_cover [OF c refl f w f w, THEN conjunct1, THEN mp, OF p] w by auto
qed

end
