(* ===== verification/Record_Merger.thy ===== *)
theory Record_Merger
  imports Metadata_Payload
begin

text \<open>
  Record mergers: \<open>file_group/reader_v2/record_merger.rs\<close>. A merger combines a new log record
  with the buffered one (\<open>delta_merge\<close>, \<open>delta_merge_delete\<close>) and a base record with the
  buffered log record (\<open>final_merge\<close>). Under COMMIT_TIME_ORDERING the newer record wins; under
  EVENT_TIME_ORDERING the one with the greater ordering value, ties to the newer; under CUSTOM
  the metadata payload folds. The locale \<open>choosing_merger\<close> is what the two ordering modes
  promise the merge buffer.
\<close>

type_synonym value_cmp = "DataType \<Rightarrow> Value \<Rightarrow> Value \<Rightarrow> rust_ordering result"

datatype RecordMerger = CommitTimeRecordMerger | EventTimeRecordMerger | MetadataPayloadMerger

definition is_default_ordering :: "OrderingValue option \<Rightarrow> bool" where
  "is_default_ordering ov = (ov = None \<or> ov = Some OvDefault)"

definition is_commit_time_ordering_delete :: "BufferedRecord \<Rightarrow> bool" where
  "is_commit_time_ordering_delete r =
     (br_is_delete r \<and> is_default_ordering (br_ordering_value r))"

definition should_keep_newer_record :: "BufferedRecord \<Rightarrow> BufferedRecord \<Rightarrow> bool" where
  "should_keep_newer_record old new =
     (if is_commit_time_ordering_delete new \<or> is_commit_time_ordering_delete old then True
      else case (br_ordering_value new, br_ordering_value old) of
        (Some n, Some d) \<Rightarrow> \<not> is_same_class n d \<or> ov_cmp n d \<noteq> Less
      | _ \<Rightarrow> True)"

definition metadata_final_merge ::
  "value_cmp \<Rightarrow> BufferedRecord \<Rightarrow> BufferedRecord \<Rightarrow> BufferedRecord result" where
  "metadata_final_merge cmpv older newer =
     (if br_is_delete newer \<or> br_is_delete older then Ok newer
      else res_bind (br_get_record older) (\<lambda>oo. res_bind (br_get_record newer) (\<lambda>no.
        case (oo, no) of
          (Some o', Some n) \<Rightarrow>
            res_bind (record_type n) (\<lambda>t.
              if t = 1 \<or> t = 2 then
                res_bind (fold_filesystem_metadata o' n) (\<lambda>r.
                  Ok (new_data (br_record_key newer) r (br_ordering_value newer)))
              else if t = 3 \<or> t = 6 then
                res_bind (fold_column_stats cmpv o' n) (\<lambda>r.
                  Ok (new_data (br_record_key newer) r (br_ordering_value newer)))
              else Ok newer)
        | _ \<Rightarrow> Ok newer)))"

definition final_merge ::
  "value_cmp \<Rightarrow> RecordMerger \<Rightarrow> BufferedRecord \<Rightarrow> BufferedRecord \<Rightarrow> BufferedRecord result" where
  "final_merge cmpv m older newer = (case m of
      CommitTimeRecordMerger \<Rightarrow> Ok newer
    | EventTimeRecordMerger \<Rightarrow> Ok (if should_keep_newer_record older newer then newer else older)
    | MetadataPayloadMerger \<Rightarrow> metadata_final_merge cmpv older newer)"

definition delta_merge ::
  "value_cmp \<Rightarrow> RecordMerger \<Rightarrow> BufferedRecord \<Rightarrow> BufferedRecord option \<Rightarrow> BufferedRecord option result"
  where
  "delta_merge cmpv m new existing = (case m of
      CommitTimeRecordMerger \<Rightarrow> Ok (Some new)
    | EventTimeRecordMerger \<Rightarrow> (case existing of
          None \<Rightarrow> Ok (Some new)
        | Some old \<Rightarrow> Ok (Some (if should_keep_newer_record old new then new else old)))
    | MetadataPayloadMerger \<Rightarrow> (case existing of
          None \<Rightarrow> Ok (Some new)
        | Some old \<Rightarrow> res_bind (metadata_final_merge cmpv old new) (\<lambda>r. Ok (Some r))))"

definition delta_merge_delete ::
  "RecordMerger \<Rightarrow> DeleteRecord \<Rightarrow> BufferedRecord option \<Rightarrow> DeleteRecord option" where
  "delta_merge_delete m d existing = (case m of
      CommitTimeRecordMerger \<Rightarrow> Some d
    | EventTimeRecordMerger \<Rightarrow> (case existing of
          None \<Rightarrow> Some d
        | Some old \<Rightarrow>
            if is_commit_time_ordering_delete old then None
            else
              (let choose_existing = \<not> is_default_ordering (dr_ordering_value d) \<and>
                 (case (dr_ordering_value d, br_ordering_value old) of
                    (Some dv, Some ev) \<Rightarrow> is_same_class dv ev \<and> ov_cmp ev dv = Greater
                  | _ \<Rightarrow> False)
               in if choose_existing then None else Some d))
    | MetadataPayloadMerger \<Rightarrow> Some d)"

definition create_merger ::
  "string list \<Rightarrow> string list \<Rightarrow> string \<Rightarrow> configs \<Rightarrow> RecordMerger result" where
  "create_merger payload_keys strategy_keys merge_mode cfg =
     (if merge_mode = ''COMMIT_TIME_ORDERING'' then Ok CommitTimeRecordMerger
      else if merge_mode = ''EVENT_TIME_ORDERING'' then Ok EventTimeRecordMerger
      else if eq_ignore_ascii_case merge_mode ''CUSTOM'' then
        (case resolve_custom_merger payload_keys strategy_keys cfg of
           Some MetadataPayloadCustom \<Rightarrow> Ok MetadataPayloadMerger
         | None \<Rightarrow> Err ReadFileSliceError)
      else Err ReadFileSliceError)"

section \<open>What the ordering modes promise\<close>

text \<open>A version of a key in the log: a record of a data block (possibly detected as a delete)
  or an entry of a delete block.\<close>

datatype LogEntry = DataEntry BufferedRecord | DeleteEntry DeleteRecord

definition entry_record :: "LogEntry \<Rightarrow> BufferedRecord" where
  "entry_record e = (case e of DataEntry r \<Rightarrow> r | DeleteEntry d \<Rightarrow> from_delete_record d)"

definition merge_entry ::
  "value_cmp \<Rightarrow> RecordMerger \<Rightarrow> LogEntry \<Rightarrow> BufferedRecord option \<Rightarrow> BufferedRecord option result" where
  "merge_entry cmpv m e existing = (case e of
      DataEntry r \<Rightarrow> delta_merge cmpv m r existing
    | DeleteEntry d \<Rightarrow> Ok (map_option from_delete_record (delta_merge_delete m d existing)))"

text \<open>\<open>merge_in_place\<close>: what the slot of a key holds after a merge; a merger that returns
  nothing leaves it as it is.\<close>

definition slot_step ::
  "('e \<Rightarrow> 'r option \<Rightarrow> 'r option result) \<Rightarrow> 'r option \<Rightarrow> 'e \<Rightarrow> 'r option result" where
  "slot_step delta acc e = res_bind (delta e acc) (\<lambda>m.
     Ok (case m of None \<Rightarrow> acc | Some x \<Rightarrow> Some x))"

text \<open>All versions of a key, oldest first, merged as the log scan merges them.\<close>

definition merge_all :: "('e \<Rightarrow> 'r option \<Rightarrow> 'r option result) \<Rightarrow> 'e list \<Rightarrow> 'r option result" where
  "merge_all delta es = res_fold (slot_step delta) None es"

locale choosing_merger =
  fixes delta :: "'e \<Rightarrow> 'r option \<Rightarrow> 'r option result"
    and final :: "'r \<Rightarrow> 'r \<Rightarrow> 'r result"
    and record_of :: "'e \<Rightarrow> 'r"
    and comparable :: "'r \<Rightarrow> bool"
    and not_above :: "'r \<Rightarrow> 'r \<Rightarrow> bool"
  assumes delta_first: "comparable (record_of e) \<Longrightarrow> delta e None = Ok (Some (record_of e))"
    and delta_choice: "comparable (record_of e) \<Longrightarrow> comparable s \<Longrightarrow>
      slot_step delta (Some s) e = Ok (Some (if not_above s (record_of e) then record_of e else s))"
    and final_choice: "comparable r \<Longrightarrow> comparable s \<Longrightarrow>
      final s r = Ok (if not_above s r then r else s)"
    and total: "comparable r \<Longrightarrow> comparable s \<Longrightarrow> not_above r s \<or> not_above s r"
    and chain: "comparable r \<Longrightarrow> comparable s \<Longrightarrow> comparable t \<Longrightarrow>
      not_above r s \<Longrightarrow> not_above s t \<Longrightarrow> not_above r t"
begin

lemma not_above_refl: "comparable r \<Longrightarrow> not_above r r"
  using total by blast

text \<open>The surviving version is a maximal one, and of the maximal ones the last written.\<close>

lemma merge_from_max:
  assumes "comparable s" "\<And>e. e \<in> set es \<Longrightarrow> comparable (record_of e)"
  shows "\<exists>pre m post. s # map record_of es = pre @ m # post \<and>
    res_fold (slot_step delta) (Some s) es = Ok (Some m) \<and>
    (\<forall>r\<in>set (s # map record_of es). not_above r m) \<and> (\<forall>r\<in>set post. \<not> not_above m r)"
  using assms
proof (induction es rule: rev_induct)
  case Nil
  then show ?case using not_above_refl by (intro exI [of _ "[]"] exI [of _ s]) simp
next
  case (snoc e es)
  have "\<exists>pre m post. s # map record_of es = pre @ m # post \<and>
    res_fold (slot_step delta) (Some s) es = Ok (Some m) \<and>
    (\<forall>r\<in>set (s # map record_of es). not_above r m) \<and> (\<forall>r\<in>set post. \<not> not_above m r)"
    using snoc by simp
  then obtain pre m post where IH: "s # map record_of es = pre @ m # post"
    "res_fold (slot_step delta) (Some s) es = Ok (Some m)"
    "\<forall>r\<in>set (s # map record_of es). not_above r m" "\<forall>r\<in>set post. \<not> not_above m r"
    by blast
  let ?r = "record_of e"
  have "set (s # map record_of es) = set (pre @ m # post)" using IH(1) by simp
  then have "m \<in> set (s # map record_of es)" by simp
  then have cm: "comparable m" and cr: "comparable ?r" using snoc.prems by auto
  have split: "s # map record_of (es @ [e]) = (pre @ m # post) @ [?r]" using IH(1) by simp
  have fold: "res_fold (slot_step delta) (Some s) (es @ [e]) =
      Ok (Some (if not_above m ?r then ?r else m))"
    using delta_choice [OF cr cm] by (simp add: res_fold_append IH(2))
  show ?case
  proof (cases "not_above m ?r")
    case True
    have "not_above x ?r" if "x \<in> set (s # map record_of es)" for x
      using chain [of x m ?r] that IH(3) True cm cr snoc.prems by auto
    then have "\<forall>x\<in>set (s # map record_of (es @ [e])). not_above x ?r"
      using not_above_refl [OF cr] by auto
    then show ?thesis
      using split fold True
      by (intro exI [of _ "pre @ m # post"] exI [of _ ?r] exI [of _ "[]"]) simp
  next
    case False
    then have "not_above ?r m" using total cm cr by blast
    then have a: "\<forall>x\<in>set (s # map record_of (es @ [e])). not_above x m" using IH(3) by auto
    have b: "\<forall>r\<in>set (post @ [?r]). \<not> not_above m r" using IH(4) False by auto
    have c: "s # map record_of (es @ [e]) = pre @ m # (post @ [?r])" using split by simp
    have d: "res_fold (slot_step delta) (Some s) (es @ [e]) = Ok (Some m)" using fold False by simp
    show ?thesis using a b c d by (intro exI conjI)
  qed
qed

lemma merge_all_max:
  assumes "es \<noteq> []" "\<And>e. e \<in> set es \<Longrightarrow> comparable (record_of e)"
  shows "\<exists>pre m post. map record_of es = pre @ m # post \<and> merge_all delta es = Ok (Some m) \<and>
    (\<forall>r\<in>set (map record_of es). not_above r m) \<and> (\<forall>r\<in>set post. \<not> not_above m r)"
proof -
  obtain e es' where es: "es = e # es'" using assms(1) by (cases es) auto
  have "merge_all delta es = res_fold (slot_step delta) (Some (record_of e)) es'"
    using delta_first [of e] assms(2) by (simp add: merge_all_def es slot_step_def)
  then show ?thesis using merge_from_max [of "record_of e" es'] assms(2) by (simp add: es)
qed

end

text \<open>Commit time: any two records are comparable and the newer is never below.\<close>

interpretation ct: choosing_merger "merge_entry cmpv CommitTimeRecordMerger"
  "final_merge cmpv CommitTimeRecordMerger" entry_record "\<lambda>_. True" "\<lambda>_ _. True" for cmpv
  by unfold_locales
    (simp_all add: merge_entry_def delta_merge_def delta_merge_delete_def final_merge_def
      entry_record_def slot_step_def split: LogEntry.split)

text \<open>Event time: records with an ordering value of one class, deletes with the default
  ordering excluded.\<close>

lemma is_same_class_rank: "is_same_class a b \<longleftrightarrow> variant_rank a = variant_rank b"
  by (cases a; cases b) (simp_all add: is_same_class_def variant_rank_def ov_discriminant_def)

definition event_comparable :: "nat \<Rightarrow> BufferedRecord \<Rightarrow> bool" where
  "event_comparable c r = (case br_ordering_value r of
      None \<Rightarrow> False
    | Some v \<Rightarrow> ov_ok v \<and> variant_rank v = c \<and> \<not> (br_is_delete r \<and> v = OvDefault))"

definition ordering_not_above :: "BufferedRecord \<Rightarrow> BufferedRecord \<Rightarrow> bool" where
  "ordering_not_above a b = (case (br_ordering_value a, br_ordering_value b) of
      (Some x, Some y) \<Rightarrow> ov_cmp x y \<noteq> Greater
    | _ \<Rightarrow> False)"

lemma event_comparableE:
  assumes "event_comparable c r"
  obtains v where "br_ordering_value r = Some v" "ov_ok v" "variant_rank v = c"
    "br_is_delete r \<Longrightarrow> v \<noteq> OvDefault"
  using assms by (auto simp: event_comparable_def split: option.splits)

lemma keep_newer_comparable:
  assumes "event_comparable c old" "event_comparable c new"
  shows "should_keep_newer_record old new \<longleftrightarrow> ordering_not_above old new"
proof -
  obtain x where x: "br_ordering_value old = Some x" "ov_ok x" "variant_rank x = c"
    "br_is_delete old \<Longrightarrow> x \<noteq> OvDefault"
    using event_comparableE [OF assms(1)] by blast
  obtain y where y: "br_ordering_value new = Some y" "ov_ok y" "variant_rank y = c"
    "br_is_delete new \<Longrightarrow> y \<noteq> OvDefault"
    using event_comparableE [OF assms(2)] by blast
  have "\<not> is_commit_time_ordering_delete old" "\<not> is_commit_time_ordering_delete new"
    using x(1,4) y(1,4) by (auto simp: is_commit_time_ordering_delete_def is_default_ordering_def)
  then show ?thesis
    using x y ov_cmp_flip_both(1) [of x y]
    by (simp add: should_keep_newer_record_def ordering_not_above_def is_same_class_rank)
qed

lemma delete_choice_comparable:
  assumes "event_comparable c old" "event_comparable c (from_delete_record d)"
  shows "delta_merge_delete EventTimeRecordMerger d (Some old) =
    (if ordering_not_above old (from_delete_record d) then Some d else None)"
proof -
  obtain x where x: "br_ordering_value old = Some x" "ov_ok x" "variant_rank x = c"
    "br_is_delete old \<Longrightarrow> x \<noteq> OvDefault"
    using event_comparableE [OF assms(1)] by blast
  obtain y where y: "dr_ordering_value d = Some y" "ov_ok y" "variant_rank y = c" "y \<noteq> OvDefault"
    using event_comparableE [OF assms(2)] by auto
  have "\<not> is_commit_time_ordering_delete old"
    using x(1,4) by (auto simp: is_commit_time_ordering_delete_def is_default_ordering_def)
  then show ?thesis
    using x y by (simp add: delta_merge_delete_def is_default_ordering_def is_same_class_rank
        ordering_not_above_def)
qed

lemma event_delta_choice:
  assumes "event_comparable c (entry_record e)" "event_comparable c s"
  shows "slot_step (merge_entry cmpv EventTimeRecordMerger) (Some s) e =
    Ok (Some (if ordering_not_above s (entry_record e) then entry_record e else s))"
proof (cases e)
  case (DataEntry r)
  then show ?thesis
    using keep_newer_comparable [OF assms(2)] assms(1)
    by (simp add: slot_step_def merge_entry_def delta_merge_def entry_record_def)
next
  case (DeleteEntry d)
  then show ?thesis
    using delete_choice_comparable [OF assms(2), of d] assms(1)
    by (simp add: slot_step_def merge_entry_def entry_record_def)
qed

interpretation et: choosing_merger "merge_entry cmpv EventTimeRecordMerger"
  "final_merge cmpv EventTimeRecordMerger" entry_record "event_comparable c" ordering_not_above
  for cmpv c
proof
  show "merge_entry cmpv EventTimeRecordMerger e None = Ok (Some (entry_record e))" for e
    by (simp add: merge_entry_def delta_merge_def delta_merge_delete_def entry_record_def
        split: LogEntry.split)
  show "slot_step (merge_entry cmpv EventTimeRecordMerger) (Some s) e =
      Ok (Some (if ordering_not_above s (entry_record e) then entry_record e else s))"
    if "event_comparable c (entry_record e)" "event_comparable c s" for e s
    using that by (rule event_delta_choice)
  show "final_merge cmpv EventTimeRecordMerger s r = Ok (if ordering_not_above s r then r else s)"
    if "event_comparable c r" "event_comparable c s" for r s
    using keep_newer_comparable [OF that(2,1)] by (simp add: final_merge_def)
  show "ordering_not_above r s \<or> ordering_not_above s r"
    if rs: "event_comparable c r" "event_comparable c s" for r s
  proof -
    obtain x y where "br_ordering_value r = Some x" "ov_ok x" "br_ordering_value s = Some y" "ov_ok y"
      using event_comparableE [OF rs(1)] event_comparableE [OF rs(2)] by metis
    then show ?thesis using ov_cmp_flip_both(1) [of x y] by (simp add: ordering_not_above_def)
  qed
  show "ordering_not_above r t"
    if rs: "event_comparable c r" "event_comparable c s" "event_comparable c t"
      "ordering_not_above r s" "ordering_not_above s t" for r s t
  proof -
    obtain x where x: "br_ordering_value r = Some x" "ov_ok x"
      using event_comparableE [OF rs(1)] by metis
    obtain y where y: "br_ordering_value s = Some y" "ov_ok y"
      using event_comparableE [OF rs(2)] by metis
    obtain z where z: "br_ordering_value t = Some z" "ov_ok z"
      using event_comparableE [OF rs(3)] by metis
    show ?thesis
      using ov_cmp_trans [of x y z] rs(4,5) x y z by (simp add: ordering_not_above_def)
  qed
qed

end
