(* ===== verification/Partial_Update.thy ===== *)
theory Partial_Update
  imports Record_Merger
begin

text \<open>
  Partial updates: the blends of \<open>file_group/reader_v2/buffer/key_based.rs\<close> and the schema
  reconciliation of \<open>row_extraction.rs\<close>. A log record may carry only the columns it changes
  (overlaid on the prior row), a full row whose unchanged text columns hold a sentinel
  (FILL_UNAVAILABLE), or a full row whose unchanged columns hold the field default
  (IGNORE_DEFAULTS). The conversion of a value to another type (\<open>evolve_array\<close>, the rebuild of
  array data) is the parameter \<open>conv\<close>.
\<close>

type_synonym convert = "DataType \<Rightarrow> DataType \<Rightarrow> Value \<Rightarrow> Value result"

section \<open>Reconciling rows to a schema\<close>

definition is_promotion :: "DataType \<Rightarrow> DataType \<Rightarrow> bool" where
  "is_promotion s t = (case (s, t) of
      (DtInt32, DtInt64) \<Rightarrow> True | (DtInt32, DtFloat32) \<Rightarrow> True | (DtInt32, DtFloat64) \<Rightarrow> True
    | (DtInt64, DtFloat32) \<Rightarrow> True | (DtInt64, DtFloat64) \<Rightarrow> True
    | (DtFloat32, DtFloat64) \<Rightarrow> True
    | (DtInt8, DtUtf8) \<Rightarrow> True | (DtInt16, DtUtf8) \<Rightarrow> True | (DtInt32, DtUtf8) \<Rightarrow> True
    | (DtInt64, DtUtf8) \<Rightarrow> True
    | (DtFloat32, DtUtf8) \<Rightarrow> True | (DtFloat64, DtUtf8) \<Rightarrow> True
    | (DtUtf8, DtBinary) \<Rightarrow> True | (DtBinary, DtUtf8) \<Rightarrow> True
    | (DtDecimal128 pf sf, DtDecimal128 pt st) \<Rightarrow> sf = st \<and> pt \<ge> pf
    | (DtDecimal128 _ sf, DtDecimal256 _ st) \<Rightarrow> sf = st
    | _ \<Rightarrow> False)"

fun is_name_reconcilable :: "DataType \<Rightarrow> DataType \<Rightarrow> bool"
  and fields_reconcilable :: "(string \<times> DataType) list \<Rightarrow> (string \<times> DataType) list \<Rightarrow> bool" where
  "is_name_reconcilable (DtList n a) t = (DtList n a = t \<or>
     (case t of DtList _ b \<Rightarrow> is_name_reconcilable a b | _ \<Rightarrow> False))"
| "is_name_reconcilable (DtLargeList n a) t = (DtLargeList n a = t \<or>
     (case t of DtLargeList _ b \<Rightarrow> is_name_reconcilable a b | _ \<Rightarrow> False))"
| "is_name_reconcilable (DtMap n a sa) t = (DtMap n a sa = t \<or>
     (case t of DtMap _ b sb \<Rightarrow> sa = sb \<and> is_name_reconcilable a b | _ \<Rightarrow> False))"
| "is_name_reconcilable (DtStruct fs) t = (DtStruct fs = t \<or>
     (case t of DtStruct gs \<Rightarrow> fields_reconcilable fs gs | _ \<Rightarrow> False))"
| "is_name_reconcilable s t = (s = t)"
| "fields_reconcilable [] gs = (gs = [])"
| "fields_reconcilable ((n, a) # fs) gs = (case gs of [] \<Rightarrow> False
     | (m, b) # gs' \<Rightarrow> n = m \<and> is_name_reconcilable a b \<and> fields_reconcilable fs gs')"

text \<open>One column of \<open>reconcile_batch_to_schema\<close>, then the row.\<close>

definition reconcile_column :: "convert \<Rightarrow> row \<Rightarrow> Field \<Rightarrow> (Field \<times> Value) result" where
  "reconcile_column conv r f = (case column_of r (f_name f) of
      None \<Rightarrow> Err ReadFileSliceError
    | Some (g, v) \<Rightarrow> if f_type g = f_type f then Ok (f, v)
        else res_bind (conv (f_type g) (f_type f) v) (\<lambda>v'. Ok (f, v')))"

definition reconcile_row :: "convert \<Rightarrow> Schema \<Rightarrow> row \<Rightarrow> row result" where
  "reconcile_row conv target r =
     res_bind (res_map (reconcile_column conv r) target) (try_new_row ReadFileSliceError)"

text \<open>\<open>reconcile_to_schema\<close>: a batch of the target schema is taken as it is.\<close>

definition reconcile_to_schema :: "convert \<Rightarrow> Schema \<Rightarrow> batch \<Rightarrow> row list result" where
  "reconcile_to_schema conv target b =
     (let rs = map (\<lambda>vs. zip (b_schema b) vs) (b_rows b) in
      if b_schema b = target then Ok rs else res_map (reconcile_row conv target) rs)"

definition reconcile_owned :: "convert \<Rightarrow> Schema \<Rightarrow> row \<Rightarrow> row result" where
  "reconcile_owned conv target r =
     (if row_schema r = target then Ok r else reconcile_row conv target r)"

text \<open>\<open>records_to_batch\<close>: every source batch is reconciled once, then each record's row is
  taken; deletes contribute nothing.\<close>

definition record_to_row :: "convert \<Rightarrow> Schema \<Rightarrow> BufferedRecord \<Rightarrow> row option result" where
  "record_to_row conv target rec = (case br_payload rec of
      Delete \<Rightarrow> Ok None
    | BatchRef b i \<Rightarrow> res_bind (reconcile_to_schema conv target b) (\<lambda>rs.
        if i < length rs then Ok (Some (rs ! i)) else Err Panic)
    | Owned r \<Rightarrow> res_bind (reconcile_owned conv target r) (\<lambda>r'. Ok (Some r')))"

definition records_to_batch :: "convert \<Rightarrow> Schema \<Rightarrow> BufferedRecord list \<Rightarrow> row list result" where
  "records_to_batch conv target recs =
     res_bind (res_map (record_to_row conv target) recs) (\<lambda>rs. Ok (List.map_filter (\<lambda>r. r) rs))"

section \<open>Records that carry a subset of the columns\<close>

definition schema_is_partial :: "Schema \<Rightarrow> Schema \<Rightarrow> bool" where
  "schema_is_partial record_schema target =
     list_ex (\<lambda>f. \<not> has_field record_schema (f_name f)) target"

definition reconcile_one_column :: "convert \<Rightarrow> Field \<times> Value \<Rightarrow> Field \<Rightarrow> (Field \<times> Value) result" where
  "reconcile_one_column conv c f =
     res_bind (conv (f_type (fst c)) (f_type f) (snd c)) (\<lambda>v.
       if \<not> f_nullable f \<and> v = VNull then Err ReadFileSliceError else Ok (f, v))"

definition overlay_column :: "convert \<Rightarrow> row \<Rightarrow> row \<Rightarrow> Field \<Rightarrow> (Field \<times> Value) result" where
  "overlay_column conv partial prior f = (case column_of partial (f_name f) of
      Some (g, v) \<Rightarrow>
        if f_type g = f_type f then Ok (f, v)
        else if is_name_reconcilable (f_type g) (f_type f) then reconcile_one_column conv (g, v) f
        else Err UnsupportedError
    | None \<Rightarrow> (case column_of prior (f_name f) of
          Some (g, v) \<Rightarrow>
            if f_type g = f_type f then Ok (f, v)
            else if is_name_reconcilable (f_type g) (f_type f)
            then reconcile_one_column conv (g, v) f
            else Ok (f, VNull)
        | None \<Rightarrow> Ok (f, VNull)))"

definition overlay_partial_over_prior :: "convert \<Rightarrow> row \<Rightarrow> row \<Rightarrow> Schema \<Rightarrow> row result" where
  "overlay_partial_over_prior conv partial prior target =
     res_bind (res_map (overlay_column conv partial prior) target) (try_new_row ReadFileSliceError)"

definition pad_column :: "row \<Rightarrow> Field \<Rightarrow> (Field \<times> Value) result" where
  "pad_column partial f = (case column_of partial (f_name f) of
      Some (g, v) \<Rightarrow> if f_type g \<noteq> f_type f then Err UnsupportedError else Ok (f, v)
    | None \<Rightarrow> Ok (f, VNull))"

definition pad_partial_to_target :: "row \<Rightarrow> Schema \<Rightarrow> row result" where
  "pad_partial_to_target partial target =
     res_bind (res_map (pad_column partial) target) (try_new_row ReadFileSliceError)"

definition union_schema :: "Schema \<Rightarrow> Schema \<Rightarrow> Schema" where
  "union_schema incoming prior =
     prior @ filter (\<lambda>f. \<not> has_field prior (f_name f)) incoming"

section \<open>Records whose unchanged columns hold a sentinel or a default\<close>

definition is_key_or_meta_column :: "string \<Rightarrow> string list \<Rightarrow> bool" where
  "is_key_or_meta_column n keys = (starts_with ''_hoodie_'' n \<or> n \<in> set keys)"

definition value_equals_sentinel :: "DataType \<Rightarrow> Value \<Rightarrow> string \<Rightarrow> bool" where
  "value_equals_sentinel t v s =
     ((t = DtUtf8 \<or> t = DtLargeUtf8) \<and> v = VStr s \<or>
      (t = DtBinary \<or> t = DtLargeBinary) \<and> v = VBytes (str_bytes s))"

datatype DefaultRetain = OnNull | OnInt int | OnBool bool | Never

definition value_is_default :: "DataType \<Rightarrow> Value \<Rightarrow> DefaultRetain \<Rightarrow> bool" where
  "value_is_default t v retain = (case retain of
      OnNull \<Rightarrow> v = VNull
    | Never \<Rightarrow> False
    | OnBool b \<Rightarrow> t = DtBoolean \<and> v = VBool b
    | OnInt d \<Rightarrow> (t = DtInt32 \<or> t = DtInt64) \<and> v = VInt d)"

text \<open>The declared default of an Avro field, and whether its schema is an integer type.\<close>

datatype AvroSchemaShape = ScInt | ScLong | ScUnion "AvroSchemaShape list" | ScOther

datatype JsonDefault = JNull | JBool bool | JNumber "int option" | JOther

fun is_int_or_long :: "AvroSchemaShape \<Rightarrow> bool" where
  "is_int_or_long ScInt = True" | "is_int_or_long ScLong = True" | "is_int_or_long _ = False"

definition field_is_integer :: "AvroSchemaShape \<Rightarrow> bool" where
  "field_is_integer s = (case s of
      ScInt \<Rightarrow> True | ScLong \<Rightarrow> True | ScUnion ss \<Rightarrow> list_ex is_int_or_long ss | ScOther \<Rightarrow> False)"

definition default_retain_for :: "AvroSchemaShape \<Rightarrow> JsonDefault option \<Rightarrow> DefaultRetain" where
  "default_retain_for s d = (case d of
      None \<Rightarrow> OnNull
    | Some JNull \<Rightarrow> OnNull
    | Some (JBool b) \<Rightarrow> OnBool b
    | Some (JNumber n) \<Rightarrow> (case n of
          Some v \<Rightarrow> if field_is_integer s \<and> - 128 \<le> v \<and> v \<le> 127 then OnInt v else Never
        | None \<Rightarrow> Never)
    | Some JOther \<Rightarrow> Never)"

text \<open>The retention rules of the fields of a record schema; \<open>None\<close> when the schema does not
  parse or is not a record.\<close>

definition parse_default_retains ::
  "(string \<times> AvroSchemaShape \<times> JsonDefault option) list option \<Rightarrow> (string \<Rightarrow> DefaultRetain option)"
  where
  "parse_default_retains parsed = (case parsed of
      None \<Rightarrow> Map.empty
    | Some fs \<Rightarrow> fold (\<lambda>(n, s, d) m. m(n \<mapsto> default_retain_for s d)) fs Map.empty)"

text \<open>The shape both blends share: a column that is to be filled takes the prior row's column
  of the name when it has the same type.\<close>

definition blend_column :: "(Field \<Rightarrow> Value \<Rightarrow> bool) \<Rightarrow> row \<Rightarrow> Field \<times> Value \<Rightarrow> (Field \<times> Value) \<times> bool" where
  "blend_column fill prior c =
     (if fill (fst c) (snd c) then
        (case column_of prior (f_name (fst c)) of
           Some (g, v) \<Rightarrow> if f_type g = f_type (fst c) then ((fst c, v), True) else (c, False)
         | None \<Rightarrow> (c, False))
      else (c, False))"

definition blend_record ::
  "(Field \<Rightarrow> Value \<Rightarrow> bool) \<Rightarrow> BufferedRecord \<Rightarrow> row \<Rightarrow> (BufferedRecord \<times> bool) result" where
  "blend_record fill rec prior =
     res_bind (br_get_record rec) (\<lambda>m. case m of
        None \<Rightarrow> Ok (rec, False)
      | Some r \<Rightarrow>
          (let cs = map (blend_column fill prior) r in
           if \<not> list_ex snd cs then Ok (rec, False)
           else res_bind (try_new_row ReadFileSliceError (map fst cs)) (\<lambda>r'.
             Ok (new_data (br_record_key rec) r' (br_ordering_value rec), True))))"

definition fill_unavailable_from_base ::
  "BufferedRecord \<Rightarrow> row \<Rightarrow> string \<Rightarrow> string list \<Rightarrow> (BufferedRecord \<times> bool) result" where
  "fill_unavailable_from_base rec prior sentinel keys =
     blend_record (\<lambda>f v. \<not> is_key_or_meta_column (f_name f) keys \<and>
       value_equals_sentinel (f_type f) v sentinel) rec prior"

definition reconcile_defaults_from_prior ::
  "BufferedRecord \<Rightarrow> row \<Rightarrow> (string \<Rightarrow> DefaultRetain option) \<Rightarrow> string list \<Rightarrow> (BufferedRecord \<times> bool) result"
  where
  "reconcile_defaults_from_prior rec prior retains keys =
     blend_record (\<lambda>f v. \<not> is_key_or_meta_column (f_name f) keys \<and>
       value_is_default (f_type f) v
         (case retains (f_name f) of None \<Rightarrow> OnNull | Some r \<Rightarrow> r)) rec prior"

text \<open>The guard against a sentinel that would reach the output of a log-only insert.\<close>

definition guard_no_unavailable_sentinel :: "row list \<Rightarrow> string \<Rightarrow> string list \<Rightarrow> unit result" where
  "guard_no_unavailable_sentinel rows sentinel keys =
     (if list_ex (list_ex (\<lambda>(f, v). \<not> is_key_or_meta_column (f_name f) keys \<and>
          value_equals_sentinel (f_type f) v sentinel)) rows
      then Err ReadFileSliceError else Ok ())"

end
