(* ===== verification/Log_Block.thy ===== *)
theory Log_Block
  imports Record_Context
begin

text \<open>
  Blocks of a log file: \<open>file_group/log_file/log_block.rs\<close> and \<open>log_format.rs\<close>. A block has
  a format version, a type, a header and a footer keyed by \<open>BlockMetadataKey\<close>, and a content
  that is empty until it is decoded. The codes read from four big-endian bytes, the parsing of
  type names and commands, and the accessors of the header.
\<close>

section \<open>Format version and block type\<close>

datatype LogFormatVersion = LogFormatV0 | LogFormatV1

definition log_format_of_u32 :: "nat \<Rightarrow> LogFormatVersion result" where
  "log_format_of_u32 n = (if n = 0 then Ok LogFormatV0 else if n = 1 then Ok LogFormatV1
     else Err LogFormatError)"

definition log_format_of_bytes :: "byte list \<Rightarrow> LogFormatVersion result" where
  "log_format_of_bytes bs = log_format_of_u32 (be_nat bs)"

definition has_block_type :: "LogFormatVersion \<Rightarrow> bool" where
  "has_block_type v = (v \<noteq> LogFormatV0)"

definition has_header :: "LogFormatVersion \<Rightarrow> bool" where
  "has_header v = (v \<noteq> LogFormatV0)"

definition has_content_length :: "LogFormatVersion \<Rightarrow> bool" where
  "has_content_length v = (v \<noteq> LogFormatV0)"

definition has_footer :: "LogFormatVersion \<Rightarrow> bool" where
  "has_footer v = (v = LogFormatV1)"

definition has_total_log_block_length :: "LogFormatVersion \<Rightarrow> bool" where
  "has_total_log_block_length v = (v = LogFormatV1)"

datatype LogBlockVersion = BlockV0 | BlockV1 | BlockV2 | BlockV3

definition log_block_version_of_u32 :: "nat \<Rightarrow> LogBlockVersion result" where
  "log_block_version_of_u32 n = (if n = 0 then Ok BlockV0 else if n = 1 then Ok BlockV1
     else if n = 2 then Ok BlockV2 else if n = 3 then Ok BlockV3 else Err LogBlockError)"

datatype BlockType = Command | DeleteBlock | Corrupted | AvroData | HfileData | ParquetData | CdcData

definition block_type_code :: "BlockType \<Rightarrow> nat" where
  "block_type_code t = (case t of Command \<Rightarrow> 0 | DeleteBlock \<Rightarrow> 1 | Corrupted \<Rightarrow> 2 | AvroData \<Rightarrow> 3
     | HfileData \<Rightarrow> 4 | ParquetData \<Rightarrow> 5 | CdcData \<Rightarrow> 6)"

definition block_type_of_bytes :: "byte list \<Rightarrow> BlockType result" where
  "block_type_of_bytes bs = (let n = be_nat bs in
     if n = 0 then Ok Command else if n = 1 then Ok DeleteBlock else if n = 2 then Ok Corrupted
     else if n = 3 then Ok AvroData else if n = 4 then Ok HfileData else if n = 5 then Ok ParquetData
     else if n = 6 then Ok CdcData else Err LogFormatError)"

definition block_type_name :: "BlockType \<Rightarrow> string" where
  "block_type_name t = (case t of Command \<Rightarrow> '':command'' | DeleteBlock \<Rightarrow> '':delete''
     | Corrupted \<Rightarrow> '':corrupted'' | AvroData \<Rightarrow> ''avro'' | HfileData \<Rightarrow> ''hfile''
     | ParquetData \<Rightarrow> ''parquet'' | CdcData \<Rightarrow> ''cdc'')"

definition block_type_of_str :: "string \<Rightarrow> BlockType result" where
  "block_type_of_str s = (if s = '':command'' then Ok Command else if s = '':delete'' then Ok DeleteBlock
     else if s = '':corrupted'' then Ok Corrupted else if s = ''avro_data'' then Ok AvroData
     else if s = ''hfile'' then Ok HfileData else if s = ''parquet'' then Ok ParquetData
     else if s = ''cdc'' then Ok CdcData else Err LogFormatError)"

section \<open>Block metadata\<close>

datatype BlockMetadataKey =
    InstantTime | TargetInstantTime | SchemaKey | CommandBlockType | CompactedBlockTimes
  | RecordPositions | BlockIdentifier | IsPartial | BaseFileInstantTimeOfRecordPositions

definition metadata_keys :: "BlockMetadataKey list" where
  "metadata_keys = [InstantTime, TargetInstantTime, SchemaKey, CommandBlockType,
     CompactedBlockTimes, RecordPositions, BlockIdentifier, IsPartial,
     BaseFileInstantTimeOfRecordPositions]"

definition metadata_key_code :: "BlockMetadataKey \<Rightarrow> nat" where
  "metadata_key_code k = (case k of InstantTime \<Rightarrow> 0 | TargetInstantTime \<Rightarrow> 1 | SchemaKey \<Rightarrow> 2
     | CommandBlockType \<Rightarrow> 3 | CompactedBlockTimes \<Rightarrow> 4 | RecordPositions \<Rightarrow> 5 | BlockIdentifier \<Rightarrow> 6
     | IsPartial \<Rightarrow> 7 | BaseFileInstantTimeOfRecordPositions \<Rightarrow> 8)"

definition metadata_key_of_bytes :: "byte list \<Rightarrow> BlockMetadataKey result" where
  "metadata_key_of_bytes bs =
     (if be_nat bs < 9 then Ok (metadata_keys ! be_nat bs) else Err LogFormatError)"

type_synonym block_metadata = "BlockMetadataKey \<Rightarrow> string option"

datatype CommandBlock = Rollback

definition command_block_of_str :: "string \<Rightarrow> CommandBlock result" where
  "command_block_of_str s = (case parse_uint 32 s of
      Some v \<Rightarrow> if v = 0 then Ok Rollback else Err LogFormatError
    | None \<Rightarrow> Err LogFormatError)"

section \<open>Blocks\<close>

text \<open>The decoded content: record batches (data batches and delete batches), the key-value
  records of an HFile block, or nothing.\<close>

datatype LogBlockContent =
    Records "batch list" "DeleteBatch list"
  | HFileRecords "(byte list \<times> byte list) list"
  | EmptyContent

definition content_is_empty :: "LogBlockContent \<Rightarrow> bool" where
  "content_is_empty c = (c = EmptyContent)"

definition as_records :: "LogBlockContent \<Rightarrow> (batch list \<times> DeleteBatch list) option" where
  "as_records c = (case c of Records ds rs \<Rightarrow> Some (ds, rs) | _ \<Rightarrow> None)"

definition as_hfile_records :: "LogBlockContent \<Rightarrow> (byte list \<times> byte list) list option" where
  "as_hfile_records c = (case c of HFileRecords rs \<Rightarrow> Some rs | _ \<Rightarrow> None)"

text \<open>Where the content sits: its offset and its length.\<close>

record LogBlockContentLocation =
  content_position :: nat
  content_length :: nat

text \<open>\<open>dfc_fetcher\<close> names the file a block's fetcher reads from.\<close>

record DeferredContent =
  dfc_location :: LogBlockContentLocation
  dfc_fetcher :: string

record LogBlock =
  lb_format_version :: LogFormatVersion
  lb_block_type :: BlockType
  lb_header :: block_metadata
  lb_content :: LogBlockContent
  lb_footer :: block_metadata
  lb_deferred_content :: "DeferredContent option"
  lb_resident_content :: "byte list option"
  lb_skipped :: bool

definition log_block_new :: "LogFormatVersion \<Rightarrow> BlockType \<Rightarrow> block_metadata \<Rightarrow> LogBlockContent \<Rightarrow>
    block_metadata \<Rightarrow> LogBlock" where
  "log_block_new v t h c f = \<lparr>lb_format_version = v, lb_block_type = t, lb_header = h,
     lb_content = c, lb_footer = f, lb_deferred_content = None, lb_resident_content = None,
     lb_skipped = False\<rparr>"

definition log_block_new_skipped :: "LogFormatVersion \<Rightarrow> BlockType \<Rightarrow> block_metadata \<Rightarrow> LogBlock" where
  "log_block_new_skipped v t h = \<lparr>lb_format_version = v, lb_block_type = t, lb_header = h,
     lb_content = EmptyContent, lb_footer = Map.empty, lb_deferred_content = None,
     lb_resident_content = None, lb_skipped = True\<rparr>"

definition lb_instant_time :: "LogBlock \<Rightarrow> string result" where
  "lb_instant_time b = ok_or LogBlockError (lb_header b InstantTime)"

definition lb_target_instant_time :: "LogBlock \<Rightarrow> string result" where
  "lb_target_instant_time b = (if lb_block_type b \<noteq> Command then Err LogBlockError
     else ok_or LogBlockError (lb_header b TargetInstantTime))"

definition lb_schema :: "LogBlock \<Rightarrow> string result" where
  "lb_schema b = ok_or LogBlockError (lb_header b SchemaKey)"

definition lb_command_block_type :: "LogBlock \<Rightarrow> CommandBlock result" where
  "lb_command_block_type b = (if lb_block_type b \<noteq> Command then Err LogBlockError
     else res_bind (ok_or LogBlockError (lb_header b CommandBlockType)) command_block_of_str)"

definition record_positions_header :: "LogBlock \<Rightarrow> string option" where
  "record_positions_header b = lb_header b RecordPositions"

definition base_file_instant_time_of_positions :: "LogBlock \<Rightarrow> string option" where
  "base_file_instant_time_of_positions b = lb_header b BaseFileInstantTimeOfRecordPositions"

definition is_data_block :: "LogBlock \<Rightarrow> bool" where
  "is_data_block b = (lb_block_type b \<in> {AvroData, HfileData, ParquetData, CdcData})"

definition is_delete_block :: "LogBlock \<Rightarrow> bool" where
  "is_delete_block b = (lb_block_type b = DeleteBlock)"

definition is_rollback_block :: "LogBlock \<Rightarrow> bool" where
  "is_rollback_block b = (lb_command_block_type b = Ok Rollback)"

section \<open>Loading deferred content\<close>

text \<open>\<open>decode_fetched\<close> with the content decoder of \<open>content.rs\<close> as a parameter: bytes of the
  wrong length are refused before they are decoded.\<close>

type_synonym content_decoder =
  "LogFormatVersion \<Rightarrow> BlockType \<Rightarrow> block_metadata \<Rightarrow> byte list \<Rightarrow> LogBlockContent result"

definition decode_fetched :: "content_decoder \<Rightarrow> LogBlock \<Rightarrow> byte list \<Rightarrow> LogBlock result" where
  "decode_fetched decode b bytes =
     (if \<not> content_is_empty (lb_content b) then Ok b
      else case lb_deferred_content b of
        None \<Rightarrow> Err LogBlockError
      | Some d \<Rightarrow>
          if length bytes \<noteq> content_length (dfc_location d) then Err LogBlockError
          else res_bind (decode (lb_format_version b) (lb_block_type b) (lb_header b) bytes) (\<lambda>c.
            Ok (b\<lparr>lb_content := c,
                  lb_deferred_content := (if content_is_empty c then Some d else None)\<rparr>)))"

text \<open>\<open>load_content\<close>: decoded content is kept, resident bytes are decoded, otherwise the
  block's range is read. A range that runs past the end comes back short.\<close>

definition load_content :: "content_decoder \<Rightarrow> (string \<Rightarrow> nat \<Rightarrow> nat \<Rightarrow> byte list result) \<Rightarrow> LogBlock \<Rightarrow>
    LogBlock result" where
  "load_content decode read_content b =
     (if \<not> content_is_empty (lb_content b) then Ok b
      else case lb_resident_content b of
        Some bytes \<Rightarrow> decode_fetched decode (b\<lparr>lb_resident_content := None\<rparr>) bytes
      | None \<Rightarrow> (case lb_deferred_content b of
            None \<Rightarrow> Err LogBlockError
          | Some d \<Rightarrow> res_bind (read_content (dfc_fetcher d) (content_position (dfc_location d))
                (content_length (dfc_location d)))
              (decode_fetched decode b)))"

end
