(* ===== verification/Spill_Disk.thy ===== *)
theory Spill_Disk
  imports Record_Context Ordered_Containers Hudi_Bytes
begin

text \<open>
  The disk tier of the merge map: \<open>RocksDbDiskMap\<close> of
  \<open>file_group/reader_v2/buffer/spillable_map.rs\<close> over the blobs of \<open>row_serde.rs\<close>. Records are staged
  in memory, packed into one batch per schema when flushed, and read back through an index and a
  small cache of decoded batches. RocksDB and the Arrow IPC codec are the parameters \<open>spill_env\<close>.
  An error ends the read, so the state it leaves behind is not kept.
\<close>

section \<open>What the tier calls\<close>

text \<open>The size of a batch and of an owned row, the address of a new batch (given those in use), the
  iteration order of a hash map, RocksDB (opened under a directory; without the \<open>spill-rocksdb\<close> feature
  opening fails), and the IPC codec: encoding a batch (whether it has dictionaries, its message, its
  body), decoding message and body for a schema, writing and reading a stream. A batch id stands
  for its eight key bytes.\<close>

record 'db spill_env =
  se_array_size :: "batch \<Rightarrow> nat"
  se_row_size :: "row \<Rightarrow> nat"
  se_alloc :: "nat list \<Rightarrow> nat"
  se_order :: "string list \<Rightarrow> string list"
  se_open :: "string \<Rightarrow> 'db result"
  se_put :: "'db \<Rightarrow> nat \<Rightarrow> byte list \<Rightarrow> 'db result"
  se_get :: "'db \<Rightarrow> nat \<Rightarrow> byte list option result"
  se_ipc_encode :: "batch \<Rightarrow> (bool \<times> byte list \<times> byte list) result"
  se_ipc_decode :: "byte list \<Rightarrow> byte list \<Rightarrow> Schema \<Rightarrow> batch result"
  se_ipc_stream :: "batch \<Rightarrow> byte list"
  se_ipc_read :: "byte list \<Rightarrow> batch result"

section \<open>Rows as bytes\<close>

definition le_bytes :: "nat \<Rightarrow> nat \<Rightarrow> byte list" where
  "le_bytes w n = rev (be_bytes w n)"

definition le_nat :: "byte list \<Rightarrow> nat" where
  "le_nat bs = be_nat (rev bs)"

lemma le_nat_le_bytes [simp]: "n < 256 ^ w \<Longrightarrow> le_nat (le_bytes w n) = n"
  by (simp add: le_nat_def le_bytes_def)

lemma length_le_bytes [simp]: "length (le_bytes w n) = w"
  by (simp add: le_bytes_def)

definition to_binary_row :: "'db spill_env \<Rightarrow> batch \<Rightarrow> byte list" where
  "to_binary_row env b = se_ipc_stream env b"

definition to_binary_row_body :: "'db spill_env \<Rightarrow> batch \<Rightarrow> byte list option" where
  "to_binary_row_body env b = (case se_ipc_encode env b of
      Inl _ \<Rightarrow> None
    | Inr (dictionaries, message, data) \<Rightarrow>
        if dictionaries then None else Some (le_bytes 4 (length message) @ message @ data))"

definition from_binary_body :: "'db spill_env \<Rightarrow> byte list \<Rightarrow> Schema \<Rightarrow> batch result" where
  "from_binary_body env bs s =
     (if length bs < 4 then Err ReadFileSliceError
      else let msg_end = 4 + le_nat (take 4 bs) in
        if length bs < msg_end then Err ReadFileSliceError
        else case se_ipc_decode env (take (msg_end - 4) (drop 4 bs)) (drop msg_end bs) s of
            Inl _ \<Rightarrow> Err ReadFileSliceError | Inr b \<Rightarrow> Ok b)"

definition from_binary :: "'db spill_env \<Rightarrow> byte list \<Rightarrow> batch result" where
  "from_binary env bs = (case se_ipc_read env bs of Inl _ \<Rightarrow> Err ReadFileSliceError | Inr b \<Rightarrow> Ok b)"

section \<open>The state\<close>

definition SPILL_BATCH_ROWS :: nat where "SPILL_BATCH_ROWS = 1024"
definition SPILL_BATCH_CACHE :: nat where "SPILL_BATCH_CACHE = 8"
definition SPILL_BATCH_TAG_BODY :: byte where "SPILL_BATCH_TAG_BODY = 1"
definition SPILL_BATCH_TAG_FULL :: byte where "SPILL_BATCH_TAG_FULL = 2"

datatype DiskLoc = LocData nat nat | LocDelete string

record DiskEntry =
  de_ordering_value :: "OrderingValue option"
  de_loc :: DiskLoc

record 'db DiskMap =
  dk_db :: 'db
  dk_len :: nat
  dk_schemas :: "Schema list"
  dk_staging :: "(string, BufferedRecord) btree_map"
  dk_index :: "(string, DiskEntry) btree_map"
  dk_next_batch_id :: nat
  dk_cache :: "(nat \<times> batch) list"

definition disk_create :: "'db spill_env \<Rightarrow> string \<Rightarrow> 'db DiskMap result" where
  "disk_create env parent = (case se_open env parent of
      Inl e \<Rightarrow> Err e
    | Inr db \<Rightarrow> Ok \<lparr>dk_db = db, dk_len = 0, dk_schemas = [], dk_staging = [], dk_index = [],
        dk_next_batch_id = 0, dk_cache = []\<rparr>)"

section \<open>Flushing\<close>

definition bm_has :: "('k::linorder, 'v) btree_map \<Rightarrow> 'k \<Rightarrow> bool" where
  "bm_has m k = (bm_get m k \<noteq> None)"

text \<open>The entries of a hash map in the order it iterates.\<close>

definition hash_entries :: "'db spill_env \<Rightarrow> (string, 'v) btree_map \<Rightarrow> (string \<times> 'v) list" where
  "hash_entries env m = concat (map (\<lambda>k. case bm_get m k of None \<Rightarrow> [] | Some v \<Rightarrow> [(k, v)]) (se_order env (map fst m)))"

definition intern_schema :: "Schema \<Rightarrow> Schema list \<Rightarrow> nat \<times> Schema list" where
  "intern_schema s ss = (let i = length (takeWhile (\<lambda>t. t \<noteq> s) ss) in
     if i < length ss then (i, ss) else (length ss, ss @ [s]))"

text \<open>A group of staged rows that share a schema, with their keys and ordering values.\<close>

type_synonym flush_group = "nat \<times> row list \<times> (string \<times> OrderingValue option) list"

fun add_to_groups :: "nat \<Rightarrow> row \<Rightarrow> string \<times> OrderingValue option \<Rightarrow> flush_group list \<Rightarrow> flush_group list" where
  "add_to_groups sid r k [] = [(sid, [r], [k])]"
| "add_to_groups sid r k ((g, rows, keys) # gs) =
     (if g = sid then (g, rows @ [r], keys @ [k]) # gs else (g, rows, keys) # add_to_groups sid r k gs)"

definition group_step :: "Schema list \<times> flush_group list \<Rightarrow> string \<times> BufferedRecord \<Rightarrow>
    (Schema list \<times> flush_group list) result" where
  "group_step st e = (case st of (schemas, groups) \<Rightarrow> case e of (k, rec) \<Rightarrow>
     res_bind (br_get_record rec) (\<lambda>ro. case ro of
         None \<Rightarrow> Err ReadFileSliceError
       | Some r \<Rightarrow> (case intern_schema (row_schema r) schemas of
           (sid, schemas') \<Rightarrow> Ok (schemas', add_to_groups sid r (k, br_ordering_value rec) groups))))"

text \<open>\<open>concat_batches\<close> of one-row batches of one schema.\<close>

definition pack_rows :: "row list \<Rightarrow> batch" where
  "pack_rows rows = \<lparr>b_ptr = 0, b_schema = (case rows of [] \<Rightarrow> [] | r # _ \<Rightarrow> row_schema r), b_rows = map (map snd) rows\<rparr>"

definition batch_blob :: "'db spill_env \<Rightarrow> nat \<Rightarrow> batch \<Rightarrow> byte list" where
  "batch_blob env sid b = (case to_binary_row_body env b of
      Some body \<Rightarrow> SPILL_BATCH_TAG_BODY # le_bytes 4 sid @ body
    | None \<Rightarrow> SPILL_BATCH_TAG_FULL # to_binary_row env b)"

definition index_rows :: "nat \<Rightarrow> (string \<times> OrderingValue option) list \<Rightarrow> (string, DiskEntry) btree_map \<Rightarrow>
    (string, DiskEntry) btree_map" where
  "index_rows bid keys m = fold (\<lambda>(i, (k, ov)). bm_insert k \<lparr>de_ordering_value = ov, de_loc = LocData bid i\<rparr>)
     (enumerate 0 keys) m"

definition flush_group_step :: "'db spill_env \<Rightarrow> 'db DiskMap \<Rightarrow> flush_group \<Rightarrow> 'db DiskMap result" where
  "flush_group_step env d g = (case g of (sid, rows, keys) \<Rightarrow>
     res_bind (se_put env (dk_db d) (dk_next_batch_id d) (batch_blob env sid (pack_rows rows))) (\<lambda>db.
       Ok (d\<lparr>dk_db := db, dk_next_batch_id := dk_next_batch_id d + 1,
             dk_index := index_rows (dk_next_batch_id d) keys (dk_index d)\<rparr>)))"

definition disk_flush :: "'db spill_env \<Rightarrow> 'db DiskMap \<Rightarrow> 'db DiskMap result" where
  "disk_flush env d =
     (if dk_staging d = [] then Ok d
      else res_bind (res_fold group_step (dk_schemas d, []) (hash_entries env (dk_staging d))) (\<lambda>(schemas, groups).
        res_fold (flush_group_step env) (d\<lparr>dk_staging := [], dk_schemas := schemas\<rparr>) groups))"

section \<open>Writing and reading\<close>

definition disk_contains :: "string \<Rightarrow> 'db DiskMap \<Rightarrow> bool" where
  "disk_contains k d = (bm_has (dk_staging d) k \<or> bm_has (dk_index d) k)"

definition disk_put :: "'db spill_env \<Rightarrow> string \<Rightarrow> BufferedRecord \<Rightarrow> 'db DiskMap \<Rightarrow> 'db DiskMap result" where
  "disk_put env k v d =
     (let was_present = disk_contains k d;
          d1 = (if br_is_delete v
             then d\<lparr>dk_staging := bm_remove k (dk_staging d),
                    dk_index := bm_insert k \<lparr>de_ordering_value = br_ordering_value v, de_loc = LocDelete (br_record_key v)\<rparr>
                      (dk_index d)\<rparr>
             else d\<lparr>dk_staging := bm_insert k v (dk_staging d)\<rparr>);
          d2 = (if was_present then d1 else d1\<lparr>dk_len := dk_len d1 + 1\<rparr>)
      in if SPILL_BATCH_ROWS \<le> length (dk_staging d2) then disk_flush env d2 else Ok d2)"

definition decode_batch :: "'db spill_env \<Rightarrow> Schema list \<Rightarrow> byte list \<Rightarrow> batch result" where
  "decode_batch env schemas raw = (case raw of
      [] \<Rightarrow> Err ReadFileSliceError
    | tag # body \<Rightarrow>
        if tag = SPILL_BATCH_TAG_BODY then
          (if length body < 4 then Err ReadFileSliceError
           else let sid = le_nat (take 4 body) in
             if length schemas \<le> sid then Err ReadFileSliceError
             else from_binary_body env (drop 4 body) (schemas ! sid))
        else if tag = SPILL_BATCH_TAG_FULL then from_binary env body
        else Err ReadFileSliceError)"

text \<open>\<open>load_batch\<close>: through the cache, which drops its oldest batch when it has more than it may.\<close>

definition load_batch :: "'db spill_env \<Rightarrow> nat \<Rightarrow> 'db DiskMap \<Rightarrow> (batch \<times> 'db DiskMap) result" where
  "load_batch env bid d = (case find (\<lambda>(i, _). i = bid) (dk_cache d) of
      Some (_, b) \<Rightarrow> Ok (b, d)
    | None \<Rightarrow> (case se_get env (dk_db d) bid of
        Inl _ \<Rightarrow> Err ReadFileSliceError
      | Inr None \<Rightarrow> Err ReadFileSliceError
      | Inr (Some raw) \<Rightarrow> res_bind (decode_batch env (dk_schemas d) raw) (\<lambda>b.
          let cache = dk_cache d @ [(bid, b)] in
          Ok (b, d\<lparr>dk_cache := if SPILL_BATCH_CACHE < length cache then drop 1 cache else cache\<rparr>))))"

definition record_from_entry :: "'db spill_env \<Rightarrow> string \<Rightarrow> DiskEntry \<Rightarrow> 'db DiskMap \<Rightarrow>
    (BufferedRecord \<times> 'db DiskMap) result" where
  "record_from_entry env k e d = (case de_loc e of
      LocDelete rk \<Rightarrow> Ok (new_delete rk (de_ordering_value e), d)
    | LocData bid i \<Rightarrow> res_bind (load_batch env bid d) (\<lambda>(b, d1).
        res_bind (slice_row b i) (\<lambda>r. Ok (new_data k r (de_ordering_value e), d1))))"

definition disk_get :: "'db spill_env \<Rightarrow> string \<Rightarrow> 'db DiskMap \<Rightarrow> (BufferedRecord option \<times> 'db DiskMap) result" where
  "disk_get env k d = (case bm_get (dk_staging d) k of
      Some r \<Rightarrow> Ok (Some r, d)
    | None \<Rightarrow> (case bm_get (dk_index d) k of
        None \<Rightarrow> Ok (None, d)
      | Some e \<Rightarrow> res_bind (record_from_entry env k e d) (\<lambda>(r, d1). Ok (Some r, d1))))"

definition disk_remove :: "'db spill_env \<Rightarrow> string \<Rightarrow> 'db DiskMap \<Rightarrow> (BufferedRecord option \<times> 'db DiskMap) result" where
  "disk_remove env k d = res_bind (disk_get env k d) (\<lambda>(existing, d1). Ok (existing,
     if existing = None then d1
     else d1\<lparr>dk_staging := bm_remove k (dk_staging d1), dk_index := bm_remove k (dk_index d1), dk_len := dk_len d1 - 1\<rparr>))"

text \<open>The drain: what is staged is flushed, then the entries in the order of their batches and rows, the
  deletes last. A failure to flush is the first item, at which every consumer stops.\<close>

definition loc_key :: "string \<times> DiskEntry \<Rightarrow> nat \<times> nat" where
  "loc_key e = (case de_loc (snd e) of LocData bid i \<Rightarrow> (bid, i) | LocDelete _ \<Rightarrow> (2 ^ 64 - 1, 0))"

definition loc_le :: "string \<times> DiskEntry \<Rightarrow> string \<times> DiskEntry \<Rightarrow> bool" where
  "loc_le a b = (fst (loc_key a) < fst (loc_key b) \<or> fst (loc_key a) = fst (loc_key b) \<and> snd (loc_key a) \<le> snd (loc_key b))"

fun insert_by_loc :: "string \<times> DiskEntry \<Rightarrow> (string \<times> DiskEntry) list \<Rightarrow> (string \<times> DiskEntry) list" where
  "insert_by_loc e [] = [e]"
| "insert_by_loc e (f # fs) = (if loc_le e f then e # f # fs else f # insert_by_loc e fs)"

definition sort_by_loc :: "(string \<times> DiskEntry) list \<Rightarrow> (string \<times> DiskEntry) list" where
  "sort_by_loc es = foldr insert_by_loc es []"

fun drain_entries :: "'db spill_env \<Rightarrow> (string \<times> DiskEntry) list \<Rightarrow> 'db DiskMap \<Rightarrow> BufferedRecord result list" where
  "drain_entries env [] d = []"
| "drain_entries env ((k, e) # es) d = (case record_from_entry env k e d of
      Inl err \<Rightarrow> Err err # drain_entries env es d
    | Inr (r, d1) \<Rightarrow> Ok r # drain_entries env es d1)"

definition into_drain_iter :: "'db spill_env \<Rightarrow> 'db DiskMap \<Rightarrow> BufferedRecord result list" where
  "into_drain_iter env d = (case disk_flush env d of
      Inl err \<Rightarrow> [Err err]
    | Inr d1 \<Rightarrow> drain_entries env (sort_by_loc (hash_entries env (dk_index d1))) d1)"

end
