(* ===== verification/Spillable_Map.thy ===== *)
theory Spillable_Map
  imports Spill_Disk
begin

text \<open>
  The merge map with a memory budget: \<open>SpillableRecordMap\<close> of
  \<open>file_group/reader_v2/buffer/spillable_map.rs\<close>. Entries stay in memory while the batches they pin
  and what they own fit the budget; over it, whole source batches are compacted or spilled to the
  disk tier. Hash maps are sorted association lists; where the code iterates one, the order is
  the parameter \<open>se_order\<close>. The two-word arithmetic of the counters saturates as in the source.
\<close>

section \<open>Configuration\<close>

definition ENTRY_OVERHEAD_BYTES :: nat where "ENTRY_OVERHEAD_BYTES = 64"
definition DEFAULT_MERGE_MAX_SIZE_BYTES :: nat where "DEFAULT_MERGE_MAX_SIZE_BYTES = 1024 * 1024 * 1024"
definition ROCKSDB_WRITE_BUFFER_SIZE :: nat where "ROCKSDB_WRITE_BUFFER_SIZE = 16 * 1024 * 1024"
definition ROCKSDB_MAX_WRITE_BUFFERS :: nat where "ROCKSDB_MAX_WRITE_BUFFERS = 2"
definition ROCKSDB_BLOCK_CACHE_BYTES :: nat where "ROCKSDB_BLOCK_CACHE_BYTES = 8 * 1024 * 1024"

definition ROCKSDB_RESERVED_BYTES :: nat where
  "ROCKSDB_RESERVED_BYTES = ROCKSDB_WRITE_BUFFER_SIZE * ROCKSDB_MAX_WRITE_BUFFERS + ROCKSDB_BLOCK_CACHE_BYTES"

definition CONFIG_MERGE_MAX_SIZE :: string where "CONFIG_MERGE_MAX_SIZE = ''hoodie.memory.merge.max.size''"
definition CONFIG_MAX_PEAK_MEMORY :: string where "CONFIG_MAX_PEAK_MEMORY = ''hoodie.memory.merge.max.peak.size''"
definition CONFIG_SPILLABLE_MAP_PATH :: string where "CONFIG_SPILLABLE_MAP_PATH = ''hoodie.memory.spillable.map.path''"
definition CONFIG_DISKMAP_TYPE :: string where "CONFIG_DISKMAP_TYPE = ''hoodie.common.spillable.diskmap.type''"
definition DEFAULT_SPILL_PATH :: string where "DEFAULT_SPILL_PATH = ''/tmp''"

datatype DiskMapType = RocksDb

definition disk_map_type_parse :: "string option \<Rightarrow> DiskMapType result" where
  "disk_map_type_parse raw = (case raw of
      None \<Rightarrow> Ok RocksDb
    | Some v \<Rightarrow> if eq_ignore_ascii_case v ''ROCKS_DB'' then Ok RocksDb
        else if eq_ignore_ascii_case v ''BITCASK'' then Ok RocksDb
        else Err UnsupportedError)"

text \<open>A 64-bit float keeps 53 significant bits and rounds to even. Multiplying by the double nearest to
  0.8, which is 7205759403792794 / 2 ^ 53, rounds twice: the integer first, then the product.\<close>

fun bit_width :: "nat \<Rightarrow> nat" where
  "bit_width n = (if n = 0 then 0 else 1 + bit_width (n div 2))"

declare bit_width.simps [simp del]

definition round_even_53 :: "nat \<Rightarrow> nat" where
  "round_even_53 n = (let k = bit_width n - 53; q = n div 2 ^ k; r = n mod 2 ^ k in
     (if 2 * r > 2 ^ k \<or> 2 * r = 2 ^ k \<and> odd q then q + 1 else q) * 2 ^ k)"

definition four_fifths :: "nat \<Rightarrow> nat" where
  "four_fifths n = round_even_53 (round_even_53 n * 7205759403792794) div 2 ^ 53"

record SpillConfig =
  sc_max_in_memory_size :: nat
  sc_spill_path :: string
  sc_diskmap_type :: DiskMapType
  sc_max_peak_in_memory_size :: "nat option"

definition spill_config_from_parts :: "nat \<Rightarrow> string \<Rightarrow> DiskMapType \<Rightarrow> SpillConfig" where
  "spill_config_from_parts merge_max_size path t =
     \<lparr>sc_max_in_memory_size = four_fifths merge_max_size, sc_spill_path = path, sc_diskmap_type = t,
      sc_max_peak_in_memory_size = None\<rparr>"

definition parse_byte_count :: "string \<Rightarrow> nat result" where
  "parse_byte_count v = ok_or InvalidValue (parse_uint 64 (trim v))"

definition spill_config_from_config :: "(string \<Rightarrow> string option) \<Rightarrow> SpillConfig result" where
  "spill_config_from_config config =
     res_bind (case config CONFIG_MERGE_MAX_SIZE of None \<Rightarrow> Ok DEFAULT_MERGE_MAX_SIZE_BYTES
        | Some v \<Rightarrow> parse_byte_count v) (\<lambda>merge_max_size.
     res_bind (case config CONFIG_MAX_PEAK_MEMORY of None \<Rightarrow> Ok None
        | Some v \<Rightarrow> res_bind (parse_byte_count v) (\<lambda>n. Ok (Some n))) (\<lambda>peak.
     res_bind (disk_map_type_parse (config CONFIG_DISKMAP_TYPE)) (\<lambda>t.
       Ok ((spill_config_from_parts merge_max_size
              (case config CONFIG_SPILLABLE_MAP_PATH of None \<Rightarrow> DEFAULT_SPILL_PATH | Some p \<Rightarrow> p) t)
           \<lparr>sc_max_peak_in_memory_size := peak\<rparr>))))"

section \<open>Pinned batches\<close>

definition sat_add :: "nat \<Rightarrow> nat \<Rightarrow> nat" where
  "sat_add a b = min (a + b) (2 ^ 64 - 1)"

record PinnedBatch =
  pi_batch_bytes :: nat
  pi_live_refs :: nat

record PinnedBatches =
  pb_by_ptr :: "(nat, PinnedBatch) btree_map"
  pb_total_bytes :: nat

definition add_ref :: "'db spill_env \<Rightarrow> batch \<Rightarrow> PinnedBatches \<Rightarrow> PinnedBatches" where
  "add_ref env b p = (case bm_get (pb_by_ptr p) (b_ptr b) of
      Some pin \<Rightarrow> p\<lparr>pb_by_ptr := bm_insert (b_ptr b) (pin\<lparr>pi_live_refs := pi_live_refs pin + 1\<rparr>) (pb_by_ptr p)\<rparr>
    | None \<Rightarrow> \<lparr>pb_by_ptr = bm_insert (b_ptr b) \<lparr>pi_batch_bytes = se_array_size env b, pi_live_refs = 1\<rparr> (pb_by_ptr p),
               pb_total_bytes = sat_add (pb_total_bytes p) (se_array_size env b)\<rparr>)"

definition remove_ref :: "nat \<Rightarrow> PinnedBatches \<Rightarrow> PinnedBatches" where
  "remove_ref ptr p = (case bm_get (pb_by_ptr p) ptr of
      None \<Rightarrow> p
    | Some pin \<Rightarrow>
        if pi_live_refs pin - 1 = 0
        then \<lparr>pb_by_ptr = bm_remove ptr (pb_by_ptr p), pb_total_bytes = pb_total_bytes p - pi_batch_bytes pin\<rparr>
        else p\<lparr>pb_by_ptr := bm_insert ptr (pin\<lparr>pi_live_refs := pi_live_refs pin - 1\<rparr>) (pb_by_ptr p)\<rparr>)"

section \<open>The map\<close>

record 'db SpillMap =
  sm_in_memory :: "(string, BufferedRecord) btree_map"
  sm_disk :: "'db DiskMap option"
  sm_pinned :: PinnedBatches
  sm_owned :: nat
  sm_max_in_memory_size :: nat
  sm_max_peak :: "nat option"
  sm_spill_path :: string
  sm_spill_fired :: bool
  sm_peak :: nat

definition sm_with_config :: "SpillConfig \<Rightarrow> 'db SpillMap" where
  "sm_with_config c = \<lparr>sm_in_memory = [], sm_disk = None, sm_pinned = \<lparr>pb_by_ptr = [], pb_total_bytes = 0\<rparr>,
     sm_owned = 0, sm_max_in_memory_size = sc_max_in_memory_size c, sm_max_peak = sc_max_peak_in_memory_size c,
     sm_spill_path = sc_spill_path c, sm_spill_fired = False, sm_peak = 0\<rparr>"

definition sm_new :: "'db SpillMap" where
  "sm_new = sm_with_config (spill_config_from_parts DEFAULT_MERGE_MAX_SIZE_BYTES DEFAULT_SPILL_PATH RocksDb)"

definition entry_key_overhead_bytes :: "string \<Rightarrow> nat" where
  "entry_key_overhead_bytes k = length k + ENTRY_OVERHEAD_BYTES"

definition owned_payload_bytes :: "'db spill_env \<Rightarrow> BufferedRecord \<Rightarrow> nat" where
  "owned_payload_bytes env r = (case br_payload r of Owned row \<Rightarrow> se_row_size env row | _ \<Rightarrow> 0)"

definition true_retained_bytes :: "'db SpillMap \<Rightarrow> nat" where
  "true_retained_bytes sm = sat_add (pb_total_bytes (sm_pinned sm)) (sm_owned sm)"

definition in_memory_allowance :: "'db SpillMap \<Rightarrow> nat" where
  "in_memory_allowance sm = (if sm_disk sm \<noteq> None then sm_max_in_memory_size sm - ROCKSDB_RESERVED_BYTES
     else sm_max_in_memory_size sm)"

definition over_budget :: "'db SpillMap \<Rightarrow> bool" where
  "over_budget sm = (in_memory_allowance sm \<le> true_retained_bytes sm)"

definition account_added :: "'db spill_env \<Rightarrow> string \<Rightarrow> BufferedRecord \<Rightarrow> 'db SpillMap \<Rightarrow> 'db SpillMap" where
  "account_added env k r sm = sm\<lparr>
     sm_pinned := (case br_payload r of BatchRef b _ \<Rightarrow> add_ref env b (sm_pinned sm) | _ \<Rightarrow> sm_pinned sm),
     sm_owned := sat_add (sat_add (sm_owned sm) (entry_key_overhead_bytes k)) (owned_payload_bytes env r)\<rparr>"

definition account_removed :: "'db spill_env \<Rightarrow> string \<Rightarrow> BufferedRecord \<Rightarrow> 'db SpillMap \<Rightarrow> 'db SpillMap" where
  "account_removed env k r sm = sm\<lparr>
     sm_pinned := (case br_payload r of BatchRef b _ \<Rightarrow> remove_ref (b_ptr b) (sm_pinned sm) | _ \<Rightarrow> sm_pinned sm),
     sm_owned := sm_owned sm - entry_key_overhead_bytes k - owned_payload_bytes env r\<rparr>"

definition track_peak :: "'db SpillMap \<Rightarrow> 'db SpillMap" where
  "track_peak sm = (if sm_peak sm < true_retained_bytes sm then sm\<lparr>sm_peak := true_retained_bytes sm\<rparr> else sm)"

definition ensure_disk :: "'db spill_env \<Rightarrow> 'db SpillMap \<Rightarrow> ('db DiskMap \<times> 'db SpillMap) result" where
  "ensure_disk env sm = (case sm_disk sm of
      Some d \<Rightarrow> Ok (d, sm)
    | None \<Rightarrow> res_bind (disk_create env (sm_spill_path sm)) (\<lambda>d. Ok (d, sm\<lparr>sm_disk := Some d, sm_spill_fired := True\<rparr>)))"

section \<open>Eviction\<close>

text \<open>The in-memory entries that refer to a batch, grouped by the address of the batch.\<close>

record Victim =
  vi_batch :: batch
  vi_batch_bytes :: nat
  vi_keys :: "string list"
  vi_rows :: "nat list"

definition add_victim :: "'db spill_env \<Rightarrow> string \<times> BufferedRecord \<Rightarrow> (nat, Victim) btree_map \<Rightarrow> (nat, Victim) btree_map" where
  "add_victim env e m = (case br_payload (snd e) of
      BatchRef b i \<Rightarrow>
        (let v = (case bm_get m (b_ptr b) of Some v \<Rightarrow> v
             | None \<Rightarrow> \<lparr>vi_batch = b, vi_batch_bytes = se_array_size env b, vi_keys = [], vi_rows = []\<rparr>)
         in bm_insert (b_ptr b) (v\<lparr>vi_keys := vi_keys v @ [fst e], vi_rows := vi_rows v @ [i]\<rparr>) m)
    | _ \<Rightarrow> m)"

definition group_victims :: "'db spill_env \<Rightarrow> 'db SpillMap \<Rightarrow> (nat, Victim) btree_map" where
  "group_victims env sm = fold (add_victim env) (hash_entries env (sm_in_memory sm)) []"

text \<open>Largest bytes first, ties by address.\<close>

definition order_victims :: "(nat, Victim) btree_map \<Rightarrow> Victim list" where
  "order_victims m = map snd (sort_key (\<lambda>(_, v). - int (vi_batch_bytes v)) m)"

text \<open>The addresses of the batches in memory, which a new batch does not get.\<close>

definition live_ptrs :: "'db SpillMap \<Rightarrow> nat list" where
  "live_ptrs sm = concat (map (\<lambda>(_, r). case br_payload r of BatchRef b _ \<Rightarrow> [b_ptr b] | _ \<Rightarrow> []) (sm_in_memory sm))"

definition interleave_rows :: "nat \<Rightarrow> batch \<Rightarrow> nat list \<Rightarrow> batch result" where
  "interleave_rows ptr b rows = (if list_all (\<lambda>i. i < length (b_rows b)) rows
     then Ok \<lparr>b_ptr = ptr, b_schema = b_schema b, b_rows = map (\<lambda>i. b_rows b ! i) rows\<rparr> else Err Panic)"

definition repoint :: "'db spill_env \<Rightarrow> batch \<Rightarrow> batch \<Rightarrow> nat \<times> string \<Rightarrow> 'db SpillMap \<Rightarrow> 'db SpillMap" where
  "repoint env victim small e sm = (case bm_get (sm_in_memory sm) (snd e) of
      None \<Rightarrow> sm
    | Some r \<Rightarrow> sm\<lparr>sm_in_memory := bm_insert (snd e) (r\<lparr>br_payload := BatchRef small (fst e)\<rparr>) (sm_in_memory sm),
        sm_pinned := add_ref env small (remove_ref (b_ptr victim) (sm_pinned sm))\<rparr>)"

definition compact_victim_batch :: "'db spill_env \<Rightarrow> batch \<Rightarrow> string list \<Rightarrow> nat list \<Rightarrow> 'db SpillMap \<Rightarrow>
    'db SpillMap result" where
  "compact_victim_batch env victim keys rows sm =
     res_bind (interleave_rows (se_alloc env (live_ptrs sm)) victim rows) (\<lambda>small.
       Ok (fold (repoint env victim small) (enumerate 0 keys) sm))"

definition take_entry :: "'db spill_env \<Rightarrow> string \<Rightarrow> (string \<times> BufferedRecord) list \<times> 'db SpillMap \<Rightarrow>
    (string \<times> BufferedRecord) list \<times> 'db SpillMap" where
  "take_entry env k st = (case st of (spilled, sm) \<Rightarrow> (case bm_get (sm_in_memory sm) k of
      None \<Rightarrow> (spilled, sm)
    | Some r \<Rightarrow> (spilled @ [(k, r)], account_removed env k r (sm\<lparr>sm_in_memory := bm_remove k (sm_in_memory sm)\<rparr>))))"

definition spill_victim_batch :: "'db spill_env \<Rightarrow> string list \<Rightarrow> 'db SpillMap \<Rightarrow> 'db SpillMap result" where
  "spill_victim_batch env keys sm = (case fold (take_entry env) keys ([], sm) of
      (spilled, sm1) \<Rightarrow> res_bind (ensure_disk env sm1) (\<lambda>(d, sm2).
        res_bind (res_fold (\<lambda>d (k, r). disk_put env k r d) d spilled) (\<lambda>d1.
        res_bind (disk_flush env d1) (\<lambda>d2. Ok (sm2\<lparr>sm_disk := Some d2\<rparr>)))))"

text \<open>A batch with fewer than half of its rows live is compacted. Row counts are below 2 ^ 53, where the
  quotient of the floats is below one half exactly when the fraction is.\<close>

definition evict_victim :: "'db spill_env \<Rightarrow> Victim \<Rightarrow> 'db SpillMap \<Rightarrow> 'db SpillMap result" where
  "evict_victim env v sm =
     (let num_rows = length (b_rows (vi_batch v)); live = length (vi_keys v) in
      if num_rows \<noteq> 0 \<and> 2 * live < num_rows then compact_victim_batch env (vi_batch v) (vi_keys v) (vi_rows v) sm
      else spill_victim_batch env (vi_keys v) sm)"

fun evict_victims :: "'db spill_env \<Rightarrow> nat \<Rightarrow> Victim list \<Rightarrow> 'db SpillMap \<Rightarrow> 'db SpillMap result" where
  "evict_victims env target [] sm = Ok sm"
| "evict_victims env target (v # vs) sm = (if true_retained_bytes sm \<le> target then Ok sm
     else res_bind (evict_victim env v sm) (evict_victims env target vs))"

definition evict_source_batches_until :: "'db spill_env \<Rightarrow> nat \<Rightarrow> 'db SpillMap \<Rightarrow> 'db SpillMap result" where
  "evict_source_batches_until env target sm =
     res_bind (evict_victims env target (order_victims (group_victims env sm)) sm) (\<lambda>sm1. Ok (track_peak sm1))"

definition enforce_peak_cap :: "'db spill_env \<Rightarrow> 'db SpillMap \<Rightarrow> 'db SpillMap result" where
  "enforce_peak_cap env sm = (case sm_max_peak sm of
      None \<Rightarrow> Ok sm
    | Some cap \<Rightarrow> if true_retained_bytes sm \<le> cap then Ok sm
        else res_bind (evict_source_batches_until env (four_fifths cap) sm) (\<lambda>sm1.
          if cap < true_retained_bytes sm1 then Err MemoryLimitError else Ok sm1))"

definition enforce_memory_limits :: "'db spill_env \<Rightarrow> 'db SpillMap \<Rightarrow> 'db SpillMap result" where
  "enforce_memory_limits env sm =
     res_bind (if over_budget sm then evict_source_batches_until env (four_fifths (in_memory_allowance sm)) sm else Ok sm)
       (enforce_peak_cap env)"

text \<open>The end-of-scan compaction, of batches whose live ratio is below a fraction.\<close>

definition compact_step :: "'db spill_env \<Rightarrow> nat \<Rightarrow> nat \<Rightarrow> Victim \<Rightarrow> 'db SpillMap \<Rightarrow> 'db SpillMap result" where
  "compact_step env num den v sm =
     (let num_rows = length (b_rows (vi_batch v)); live = length (vi_keys v) in
      if num_rows = 0 \<or> num * num_rows \<le> live * den then Ok sm
      else compact_victim_batch env (vi_batch v) (vi_keys v) (vi_rows v) sm)"

definition compact_sparse_batches :: "'db spill_env \<Rightarrow> nat \<Rightarrow> nat \<Rightarrow> 'db SpillMap \<Rightarrow> 'db SpillMap result" where
  "compact_sparse_batches env num den sm =
     res_bind (res_fold (\<lambda>sm v. compact_step env num den v sm) sm (map snd (group_victims env sm))) (\<lambda>sm1. Ok (track_peak sm1))"

section \<open>Operations\<close>

text \<open>A new key: an entry without a source batch goes to disk when the budget is used up.\<close>

definition sm_insert_new :: "'db spill_env \<Rightarrow> string \<Rightarrow> BufferedRecord \<Rightarrow> 'db SpillMap \<Rightarrow> 'db SpillMap result" where
  "sm_insert_new env k v sm =
     (let is_batch_ref = (case br_payload v of BatchRef _ _ \<Rightarrow> True | _ \<Rightarrow> False) in
      if \<not> is_batch_ref \<and> over_budget sm
      then res_bind (ensure_disk env sm) (\<lambda>(d, sm1). res_bind (disk_put env k v d) (\<lambda>d1. Ok (sm1\<lparr>sm_disk := Some d1\<rparr>)))
      else let sm1 = account_added env k v sm in
        enforce_memory_limits env (track_peak (sm1\<lparr>sm_in_memory := bm_insert k v (sm_in_memory sm1)\<rparr>)))"

definition sm_insert :: "'db spill_env \<Rightarrow> string \<Rightarrow> BufferedRecord \<Rightarrow> 'db SpillMap \<Rightarrow> 'db SpillMap result" where
  "sm_insert env k v sm = (case bm_get (sm_in_memory sm) k of
      Some existing \<Rightarrow>
        (let sm1 = account_added env k v (account_removed env k existing sm) in
         enforce_memory_limits env (track_peak (sm1\<lparr>sm_in_memory := bm_insert k v (sm_in_memory sm1)\<rparr>)))
    | None \<Rightarrow>
        (case sm_disk sm of
           None \<Rightarrow> sm_insert_new env k v sm
         | Some d \<Rightarrow> if disk_contains k d then res_bind (disk_put env k v d) (\<lambda>d1. Ok (sm\<lparr>sm_disk := Some d1\<rparr>))
             else sm_insert_new env k v sm))"

text \<open>Reading from disk may fill the cache of the disk tier.\<close>

definition sm_get :: "'db spill_env \<Rightarrow> string \<Rightarrow> 'db SpillMap \<Rightarrow> (BufferedRecord option \<times> 'db SpillMap) result" where
  "sm_get env k sm = (case bm_get (sm_in_memory sm) k of
      Some r \<Rightarrow> Ok (Some r, sm)
    | None \<Rightarrow> (case sm_disk sm of
        None \<Rightarrow> Ok (None, sm)
      | Some d \<Rightarrow> res_bind (disk_get env k d) (\<lambda>(r, d1). Ok (r, sm\<lparr>sm_disk := Some d1\<rparr>))))"

definition sm_merge_in_place :: "'db spill_env \<Rightarrow> string \<Rightarrow> (BufferedRecord option \<Rightarrow> BufferedRecord option result) \<Rightarrow>
    'db SpillMap \<Rightarrow> (bool \<times> 'db SpillMap) result" where
  "sm_merge_in_place env k f sm =
     (if sm_disk sm = None then
        (case bm_get (sm_in_memory sm) k of
           Some slot \<Rightarrow> res_bind (f (Some slot)) (\<lambda>r.
             let sm1 = (case r of None \<Rightarrow> sm
               | Some new \<Rightarrow>
                   let removed = sat_add (entry_key_overhead_bytes k) (owned_payload_bytes env slot);
                       added = sat_add (entry_key_overhead_bytes k) (owned_payload_bytes env new);
                       p1 = (case br_payload slot of BatchRef b _ \<Rightarrow> remove_ref (b_ptr b) (sm_pinned sm) | _ \<Rightarrow> sm_pinned sm)
                   in sm\<lparr>sm_in_memory := bm_insert k new (sm_in_memory sm),
                         sm_pinned := (case br_payload new of BatchRef b _ \<Rightarrow> add_ref env b p1 | _ \<Rightarrow> p1),
                         sm_owned := sat_add (sm_owned sm - removed) added\<rparr>)
             in res_bind (enforce_memory_limits env (track_peak sm1)) (\<lambda>sm2. Ok (True, sm2)))
         | None \<Rightarrow> res_bind (f None) (\<lambda>r. case r of
             None \<Rightarrow> Ok (False, sm) | Some new \<Rightarrow> res_bind (sm_insert env k new sm) (\<lambda>sm1. Ok (False, sm1))))
      else res_bind (sm_get env k sm) (\<lambda>(existing, sm1).
        res_bind (f existing) (\<lambda>r. case r of
          None \<Rightarrow> Ok (existing \<noteq> None, sm1)
        | Some new \<Rightarrow> res_bind (sm_insert env k new sm1) (\<lambda>sm2. Ok (existing \<noteq> None, sm2)))))"

definition sm_remove :: "'db spill_env \<Rightarrow> string \<Rightarrow> 'db SpillMap \<Rightarrow> (BufferedRecord option \<times> 'db SpillMap) result" where
  "sm_remove env k sm = (case bm_get (sm_in_memory sm) k of
      Some r \<Rightarrow> Ok (Some r, account_removed env k r (sm\<lparr>sm_in_memory := bm_remove k (sm_in_memory sm)\<rparr>))
    | None \<Rightarrow> (case sm_disk sm of
        None \<Rightarrow> Ok (None, sm)
      | Some d \<Rightarrow> res_bind (disk_remove env k d) (\<lambda>(r, d1). Ok (r, sm\<lparr>sm_disk := Some d1\<rparr>))))"

definition sm_contains_key :: "string \<Rightarrow> 'db SpillMap \<Rightarrow> bool" where
  "sm_contains_key k sm = (bm_has (sm_in_memory sm) k \<or> (case sm_disk sm of None \<Rightarrow> False | Some d \<Rightarrow> disk_contains k d))"

definition sm_len :: "'db SpillMap \<Rightarrow> nat" where
  "sm_len sm = length (sm_in_memory sm) + (case sm_disk sm of None \<Rightarrow> 0 | Some d \<Rightarrow> dk_len d)"

definition sm_is_empty :: "'db SpillMap \<Rightarrow> bool" where
  "sm_is_empty sm = (sm_len sm = 0)"

text \<open>The entries in memory first, then those on disk.\<close>

definition sm_drain_iter :: "'db spill_env \<Rightarrow> 'db SpillMap \<Rightarrow> BufferedRecord result list" where
  "sm_drain_iter env sm = map (\<lambda>(_, r). Ok r) (hash_entries env (sm_in_memory sm)) @
     (case sm_disk sm of None \<Rightarrow> [] | Some d \<Rightarrow> into_drain_iter env d)"

end
