(* ===== verification/Merge_Buffer.thy ===== *)
theory Merge_Buffer
  imports Partial_Update Log_Block Spillable_Map
begin

text \<open>
  The key-based record buffer: \<open>file_group/reader_v2/buffer/key_based.rs\<close>,
  \<open>record_buffer.rs\<close> and \<open>update_processor.rs\<close>. The blocks of a file slice's log files are
  folded into a map from lookup keys to records; base rows are then merged with the map, one
  row at a time (\<open>has_next\<close>) or one batch at a time (\<open>merge_one_base_batch_kernel\<close>); what no
  base row consumed is drained as inserts. The spillable map is modelled as a map ordered by
  key (the order in which the code drains a hash map is unspecified, and no property depends
  on it); \<open>Spillable_Map_Facts\<close> shows that the two tiers refine this map.
\<close>

section \<open>Library calls\<close>

text \<open>Value conversion and the comparison of metadata bounds are library calls.\<close>

record merge_lib =
  ml_convert :: convert
  ml_compare :: value_cmp

section \<open>The update processor\<close>

record UpdateStats =
  num_inserts :: nat
  num_updates :: nat
  num_deletes :: nat

definition no_stats :: UpdateStats where
  "no_stats = \<lparr>num_inserts = 0, num_updates = 0, num_deletes = 0\<rparr>"

text \<open>\<open>StandardUpdateProcessor::process_update\<close>: counts, and drops deletes.\<close>

definition process_update ::
  "BufferedRecord option \<Rightarrow> BufferedRecord \<Rightarrow> bool \<Rightarrow> UpdateStats \<Rightarrow> UpdateStats \<times> BufferedRecord option"
  where
  "process_update previous merged is_delete st =
     (if is_delete then (st\<lparr>num_deletes := num_deletes st + 1\<rparr>, None)
      else if previous \<noteq> None then (st\<lparr>num_updates := num_updates st + 1\<rparr>, Some merged)
      else (st\<lparr>num_inserts := num_inserts st + 1\<rparr>, Some merged))"

section \<open>The state of a buffer\<close>

type_synonym record_map = "(string, BufferedRecord) btree_map"

text \<open>The base file is a stream of batches (or an error) with a schema.\<close>

record RecordBuffer =
  rb_records :: record_map
  rb_reader_schema :: "Schema option"
  rb_merge_mode :: string
  rb_merger :: RecordMerger
  rb_delete_context :: "DeleteContext option"
  rb_stats :: UpdateStats
  rb_base_file_source :: "(Schema \<times> batch result list) option"
  rb_current_base_batch :: "batch option"
  rb_base_row_idx :: nat
  rb_total_log_records :: nat
  rb_next_record :: "BufferedRecord option"
  rb_log_record_iter :: "BufferedRecord list option"
  rb_log_drain_iter :: "BufferedRecord list option"
  rb_merge_map_peak_entries :: nat
  rb_record_context :: RecordContext
  rb_unavailable_value :: "string option"
  rb_ignore_defaults :: bool
  rb_default_retains :: "string \<Rightarrow> DefaultRetain option"

definition PARTIAL_UPDATE_UNAVAILABLE_VALUE :: string where
  "PARTIAL_UPDATE_UNAVAILABLE_VALUE =
     ''hoodie.record.merge.property.partial.update.unavailable.value''"

definition PARTIAL_UPDATE_MODE :: string where
  "PARTIAL_UPDATE_MODE = ''hoodie.table.partial.update.mode''"

text \<open>What a buffer is built from: the configurations, the schemas the schema handler has
  prepared and the payload and strategy keys of the merger factory.\<close>

record ReaderContext =
  rx_hoodie_reader_config :: configs
  rx_table_config :: configs
  rx_required_schema :: "Schema option"
  rx_delete_context :: "DeleteContext option"
  rx_avro_fields :: "(string \<times> AvroSchemaShape \<times> JsonDefault option) list option option"
  rx_record_context :: RecordContext
  rx_payload_keys :: "string list"
  rx_strategy_keys :: "string list"

definition key_based_new :: "ReaderContext \<Rightarrow> string \<Rightarrow> RecordBuffer result" where
  "key_based_new rx mode =
     res_bind (create_merger (rx_payload_keys rx) (rx_strategy_keys rx) mode (rx_table_config rx)) (\<lambda>m.
     res_bind (ok_or ReadFileSliceError (rx_delete_context rx)) (\<lambda>dc.
     res_bind (spill_config_from_config (rx_hoodie_reader_config rx)) (\<lambda>_.
       let ignore = (case (case rx_hoodie_reader_config rx PARTIAL_UPDATE_MODE of Some v \<Rightarrow> Some v
             | None \<Rightarrow> rx_table_config rx PARTIAL_UPDATE_MODE) of
           Some v \<Rightarrow> eq_ignore_ascii_case v ''IGNORE_DEFAULTS'' | None \<Rightarrow> False)
       in Ok \<lparr>rb_records = [], rb_reader_schema = rx_required_schema rx, rb_merge_mode = mode,
         rb_merger = m,
         rb_delete_context = Some (case rx_required_schema rx of
             Some s \<Rightarrow> with_reader_schema s dc | None \<Rightarrow> dc),
         rb_stats = no_stats, rb_base_file_source = None, rb_current_base_batch = None,
         rb_base_row_idx = 0, rb_total_log_records = 0, rb_next_record = None,
         rb_log_record_iter = None, rb_log_drain_iter = None, rb_merge_map_peak_entries = 0,
         rb_record_context = rx_record_context rx,
         rb_unavailable_value =
           (case (case rx_hoodie_reader_config rx PARTIAL_UPDATE_UNAVAILABLE_VALUE of
                Some v \<Rightarrow> Some v | None \<Rightarrow> rx_table_config rx PARTIAL_UPDATE_UNAVAILABLE_VALUE) of
              Some v \<Rightarrow> if v = [] then None else Some v | None \<Rightarrow> None),
         rb_ignore_defaults = ignore,
         rb_default_retains = (if ignore then
             (case rx_avro_fields rx of None \<Rightarrow> Map.empty | Some p \<Rightarrow> parse_default_retains p)
           else Map.empty)\<rparr>)))"

section \<open>Folding the log\<close>

definition merge_in_place :: "string \<Rightarrow> (BufferedRecord option \<Rightarrow> BufferedRecord option result) \<Rightarrow>
    record_map \<Rightarrow> record_map result" where
  "merge_in_place k f m = res_bind (f (bm_get m k)) (\<lambda>r.
     Ok (case r of None \<Rightarrow> m | Some x \<Rightarrow> bm_insert k x m))"

text \<open>\<open>fill_partial\<close>: the blend the table's partial-update mode asks for.\<close>

definition fill_partial :: "RecordBuffer \<Rightarrow> BufferedRecord \<Rightarrow> row \<Rightarrow> (BufferedRecord \<times> bool) result"
  where
  "fill_partial bf target source =
     (let keys = rc_record_key_fields (rb_record_context bf) in
      if rb_ignore_defaults bf
      then reconcile_defaults_from_prior target source (rb_default_retains bf) keys
      else case rb_unavailable_value bf of
        Some sentinel \<Rightarrow> fill_unavailable_from_base target source sentinel keys
      | None \<Rightarrow> Ok (target, False))"

definition new_wins :: "string \<Rightarrow> BufferedRecord \<Rightarrow> BufferedRecord \<Rightarrow> bool" where
  "new_wins mode prior rec = (mode = ''COMMIT_TIME_ORDERING'' \<or> should_keep_newer_record prior rec)"

text \<open>The fold of a record that carries a subset of the columns with the buffered one.\<close>

definition fold_partial :: "merge_lib \<Rightarrow> string \<Rightarrow> RecordMerger \<Rightarrow> BufferedRecord \<Rightarrow>
    BufferedRecord option \<Rightarrow> BufferedRecord option result" where
  "fold_partial ml mode m rec existing = (case existing of
      None \<Rightarrow> delta_merge (ml_compare ml) m rec existing
    | Some prior \<Rightarrow> res_bind (br_get_record prior) (\<lambda>po. case po of
          None \<Rightarrow> delta_merge (ml_compare ml) m rec existing
        | Some pb \<Rightarrow> res_bind (br_get_record rec) (\<lambda>io. case io of
              None \<Rightarrow> delta_merge (ml_compare ml) m rec existing
            | Some ib \<Rightarrow>
                (let u = union_schema (row_schema ib) (row_schema pb);
                     w = new_wins mode prior rec
                 in res_bind (overlay_partial_over_prior (ml_convert ml)
                      (if w then ib else pb) (if w then pb else ib) u) (\<lambda>r.
                    Ok (Some (new_data (br_record_key rec) r
                      (if w then br_ordering_value rec else br_ordering_value prior))))))))"

text \<open>The blend of a full-schema record with the buffered one, in both directions.\<close>

definition blend_log_records :: "RecordBuffer \<Rightarrow> BufferedRecord \<Rightarrow> BufferedRecord option \<Rightarrow>
    BufferedRecord result" where
  "blend_log_records bf rec existing = (case existing of
      None \<Rightarrow> Ok rec
    | Some prior \<Rightarrow>
        if new_wins (rb_merge_mode bf) prior rec then
          res_bind (br_get_record prior) (\<lambda>po. case po of
              None \<Rightarrow> Ok rec
            | Some pb \<Rightarrow> res_bind (fill_partial bf rec pb) (\<lambda>(r, _). Ok r))
        else
          res_bind (br_get_record rec) (\<lambda>io. case io of
              None \<Rightarrow> Ok prior
            | Some ib \<Rightarrow> res_bind (fill_partial bf prior ib) (\<lambda>(r, _). Ok r)))"

definition incoming_is_partial :: "RecordBuffer \<Rightarrow> BufferedRecord \<Rightarrow> bool result" where
  "incoming_is_partial bf rec = res_bind (br_get_record rec) (\<lambda>io.
     Ok (case (io, rb_reader_schema bf) of
        (Some ib, Some target) \<Rightarrow> schema_is_partial (row_schema ib) target
      | _ \<Rightarrow> False))"

definition merge_data_record :: "merge_lib \<Rightarrow> RecordBuffer \<Rightarrow> BufferedRecord \<Rightarrow> string \<Rightarrow> record_map result"
  where
  "merge_data_record ml bf rec key =
     res_bind (incoming_is_partial bf rec) (\<lambda>partial.
       if partial then
         merge_in_place key (fold_partial ml (rb_merge_mode bf) (rb_merger bf) rec) (rb_records bf)
       else if rb_ignore_defaults bf \<or> rb_unavailable_value bf \<noteq> None then
         res_bind (blend_log_records bf rec (bm_get (rb_records bf) key)) (\<lambda>stored.
           Ok (bm_insert key stored (rb_records bf)))
       else merge_in_place key (delta_merge (ml_compare ml) (rb_merger bf) rec) (rb_records bf))"

definition process_next_data_record :: "merge_lib \<Rightarrow> BufferedRecord \<Rightarrow> string \<Rightarrow> RecordBuffer \<Rightarrow>
    RecordBuffer result" where
  "process_next_data_record ml rec key bf =
     res_bind (merge_data_record ml bf rec key) (\<lambda>m.
       Ok (bf\<lparr>rb_records := m, rb_total_log_records := rb_total_log_records bf + 1,
              rb_merge_map_peak_entries := max (rb_merge_map_peak_entries bf) (length m)\<rparr>))"

definition process_next_deleted_record :: "DeleteRecord \<Rightarrow> string \<Rightarrow> RecordBuffer \<Rightarrow> RecordBuffer result"
  where
  "process_next_deleted_record d key bf =
     res_bind (merge_in_place key
         (\<lambda>existing. Ok (map_option from_delete_record (delta_merge_delete (rb_merger bf) d existing)))
         (rb_records bf)) (\<lambda>m.
       Ok (bf\<lparr>rb_records := m, rb_total_log_records := rb_total_log_records bf + 1\<rparr>))"

text \<open>A block is processed once: its content is taken.\<close>

definition process_data_block :: "merge_lib \<Rightarrow> LogBlock \<Rightarrow> RecordBuffer \<Rightarrow> (LogBlock \<times> RecordBuffer) result"
  where
  "process_data_block ml b bf = (case lb_content b of
      Records ds _ \<Rightarrow>
        res_bind (res_fold (\<lambda>bf ba.
            res_bind (batch_to_buffered_records (rb_record_context bf) ba (rb_delete_context bf)) (\<lambda>rs.
              res_fold (\<lambda>bf (k, r). process_next_data_record ml r k bf) bf rs)) bf ds) (\<lambda>bf'.
          Ok (b\<lparr>lb_content := EmptyContent\<rparr>, bf'))
    | _ \<Rightarrow> Ok (b\<lparr>lb_content := EmptyContent\<rparr>, bf))"

definition process_delete_block :: "LogBlock \<Rightarrow> RecordBuffer \<Rightarrow> (LogBlock \<times> RecordBuffer) result" where
  "process_delete_block b bf = (case lb_content b of
      Records _ dbs \<Rightarrow>
        res_bind (res_fold (\<lambda>bf db.
            res_bind (delete_batch_to_keys_with_ordering db) (\<lambda>es.
              res_fold (\<lambda>bf (k, ov). process_next_deleted_record
                \<lparr>dr_record_key = k, dr_ordering_value = ov\<rparr> k bf) bf es)) bf dbs) (\<lambda>bf'.
          Ok (b\<lparr>lb_content := EmptyContent\<rparr>, bf'))
    | _ \<Rightarrow> Ok (b\<lparr>lb_content := EmptyContent\<rparr>, bf))"

definition contains_log_record :: "RecordBuffer \<Rightarrow> string \<Rightarrow> bool" where
  "contains_log_record bf k = (bm_get (rb_records bf) k \<noteq> None)"

definition set_reader_schema :: "Schema \<Rightarrow> RecordBuffer \<Rightarrow> RecordBuffer" where
  "set_reader_schema s bf = bf\<lparr>rb_reader_schema := Some s,
     rb_delete_context := map_option (with_reader_schema s) (rb_delete_context bf)\<rparr>"

definition set_base_file_source :: "Schema \<times> batch result list \<Rightarrow> RecordBuffer \<Rightarrow> RecordBuffer" where
  "set_base_file_source src bf = bf\<lparr>rb_base_file_source := Some src,
     rb_current_base_batch := None, rb_base_row_idx := 0\<rparr>"

end
