(* ===== verification/Base_Merge.thy ===== *)
theory Base_Merge
  imports Merge_Buffer
begin

text \<open>
  Merging base rows with the record buffer. The row path (\<open>has_next\<close> / \<open>next\<close> /
  \<open>merge_and_collect_with_stats\<close>) merges record by record through \<open>final_merge\<close>; the batch
  path (\<open>merge_one_base_batch_kernel\<close>, \<open>drain_log_only_inserts\<close>) decides a conflict from
  ordering values alone where it can, keeps rows by a mask and appends replacements. Base rows
  are matched by record key or by row position (\<open>BaseMatch\<close>).
\<close>

section \<open>Base rows\<close>

datatype BaseMatch = RecordKey | Position

definition ROW_INDEX_TEMPORARY_COLUMN_NAME :: string where
  "ROW_INDEX_TEMPORARY_COLUMN_NAME = ''_tmp_metadata_row_index''"

definition position_of_value :: "Value \<Rightarrow> int" where
  "position_of_value v = (case v of VInt n \<Rightarrow> n | _ \<Rightarrow> 0)"

definition base_row_position_array :: "batch \<Rightarrow> int list result" where
  "base_row_position_array b = (case batch_column b ROW_INDEX_TEMPORARY_COLUMN_NAME of
      None \<Rightarrow> Err ReadFileSliceError
    | Some (t, vs) \<Rightarrow> if t = DtInt64 then Ok (map position_of_value vs) else Err ReadFileSliceError)"

definition slice_batch :: "batch \<Rightarrow> nat \<Rightarrow> batch" where
  "slice_batch b i = b\<lparr>b_rows := [b_rows b ! i]\<rparr>"

text \<open>The lookup key and the record of a base row, as the row path builds them.\<close>

definition base_record_at :: "RecordContext \<Rightarrow> BaseMatch \<Rightarrow> batch \<Rightarrow> nat \<Rightarrow> (string \<times> BufferedRecord) result"
  where
  "base_record_at rc bm b i =
     res_bind (get_record_keys rc (slice_batch b i)) (\<lambda>keys.
       let record_key = keys ! 0 in
       res_bind (case bm of RecordKey \<Rightarrow> Ok record_key
           | Position \<Rightarrow> res_bind (base_row_position_array b) (\<lambda>ps. Ok (show_int (ps ! i)))) (\<lambda>lookup.
         Ok (lookup, new_batch_ref record_key b i (ordering_value_at rc (slice_batch b i) 0))))"

text \<open>\<open>next_base_row\<close>: the next row of the stream; empty batches are skipped, an error is
  propagated.\<close>

fun pull_batch :: "batch result list \<Rightarrow> (batch \<times> batch result list) option result" where
  "pull_batch [] = Ok None"
| "pull_batch (Inl e # bs) = Err ReadFileSliceError"
| "pull_batch (Inr b # bs) = (if b_rows b = [] then pull_batch bs else Ok (Some (b, bs)))"

definition pull_base_row :: "RecordBuffer \<Rightarrow> (RecordBuffer \<times> (batch \<times> nat) option) result" where
  "pull_base_row bf = (case rb_base_file_source bf of
      None \<Rightarrow> Ok (bf, None)
    | Some (s, bs) \<Rightarrow> res_bind (pull_batch bs) (\<lambda>p. case p of
          None \<Rightarrow> Ok (bf\<lparr>rb_current_base_batch := None, rb_base_file_source := None\<rparr>, None)
        | Some (b, bs') \<Rightarrow> Ok (bf\<lparr>rb_base_file_source := Some (s, bs'),
              rb_current_base_batch := Some b, rb_base_row_idx := 1\<rparr>, Some (b, 0))))"

definition next_base_row :: "RecordBuffer \<Rightarrow> (RecordBuffer \<times> (batch \<times> nat) option) result" where
  "next_base_row bf = (case rb_current_base_batch bf of
      Some b \<Rightarrow> if rb_base_row_idx bf < length (b_rows b)
        then Ok (bf\<lparr>rb_base_row_idx := rb_base_row_idx bf + 1\<rparr>, Some (b, rb_base_row_idx bf))
        else pull_base_row bf
    | None \<Rightarrow> pull_base_row bf)"

section \<open>The row path\<close>

definition has_next_base_record :: "merge_lib \<Rightarrow> BufferedRecord \<Rightarrow> BufferedRecord option \<Rightarrow> RecordBuffer \<Rightarrow>
    (RecordBuffer \<times> bool) result" where
  "has_next_base_record ml base lrec bf = (case lrec of
      None \<Rightarrow> Ok (bf\<lparr>rb_next_record := Some base\<rparr>, True)
    | Some l \<Rightarrow> res_bind (final_merge (ml_compare ml) (rb_merger bf) base l) (\<lambda>r.
        case process_update (Some base) r (br_is_delete r) (rb_stats bf) of
          (st, out) \<Rightarrow> Ok (bf\<lparr>rb_stats := st, rb_next_record := out\<rparr>, out \<noteq> None)))"

definition has_next_base_record_at :: "merge_lib \<Rightarrow> BaseMatch \<Rightarrow> batch \<Rightarrow> nat \<Rightarrow> RecordBuffer \<Rightarrow>
    (RecordBuffer \<times> bool) result" where
  "has_next_base_record_at ml bm b i bf =
     res_bind (base_record_at (rb_record_context bf) bm b i) (\<lambda>(k, base).
       has_next_base_record ml base (bm_get (rb_records bf) k)
         (bf\<lparr>rb_records := bm_remove k (rb_records bf)\<rparr>))"

text \<open>\<open>has_next_log_record\<close>: the remaining records, deletes counted and skipped.\<close>

fun next_log_record :: "BufferedRecord list \<Rightarrow> UpdateStats \<Rightarrow>
    UpdateStats \<times> BufferedRecord option \<times> BufferedRecord list" where
  "next_log_record [] st = (st, None, [])"
| "next_log_record (r # rs) st = (case process_update None r (br_is_delete r) st of
      (st', None) \<Rightarrow> next_log_record rs st'
    | (st', Some x) \<Rightarrow> (st', Some x, rs))"

definition has_next_log_record :: "RecordBuffer \<Rightarrow> RecordBuffer \<times> bool" where
  "has_next_log_record bf =
     (let bf1 = (case rb_log_record_iter bf of
            None \<Rightarrow> bf\<lparr>rb_log_record_iter := Some (map snd (rb_records bf)), rb_records := []\<rparr>
          | Some _ \<Rightarrow> bf)
      in case next_log_record (the (rb_log_record_iter bf1)) (rb_stats bf1) of
           (st, None, rest) \<Rightarrow> (bf1\<lparr>rb_stats := st, rb_log_record_iter := Some rest\<rparr>, False)
         | (st, Some r, rest) \<Rightarrow> (bf1\<lparr>rb_stats := st, rb_log_record_iter := Some rest,
              rb_next_record := Some r\<rparr>, True))"

definition stream_rows :: "batch result list \<Rightarrow> nat" where
  "stream_rows bs = sum_list (map (\<lambda>r. case r of Inl _ \<Rightarrow> 0 | Inr b \<Rightarrow> length (b_rows b)) bs)"

definition base_remaining :: "RecordBuffer \<Rightarrow> nat" where
  "base_remaining bf =
     (case rb_current_base_batch bf of None \<Rightarrow> 0 | Some b \<Rightarrow> length (b_rows b) - rb_base_row_idx bf) +
     (case rb_base_file_source bf of None \<Rightarrow> 0 | Some (_, bs) \<Rightarrow> stream_rows bs)"

lemma pull_batch_remaining:
  "pull_batch bs = Ok (Some (b, bs')) \<Longrightarrow>
   stream_rows bs = length (b_rows b) + stream_rows bs' \<and> b_rows b \<noteq> []"
  by (induction bs rule: pull_batch.induct) (auto simp: stream_rows_def split: if_splits)

lemma pull_base_row_Some:
  assumes "pull_base_row bf = Ok (bf', Some x)"
  obtains s bs b bs' where "rb_base_file_source bf = Some (s, bs)" "pull_batch bs = Ok (Some (b, bs'))"
    "bf' = bf\<lparr>rb_base_file_source := Some (s, bs'), rb_current_base_batch := Some b,
       rb_base_row_idx := 1\<rparr>" "x = (b, 0)"
  using assms by (auto simp: pull_base_row_def res_bind_Inr_iff split: option.splits prod.splits)

lemma pull_base_row_remaining:
  assumes "pull_base_row bf = Ok (bf', Some x)"
  shows "base_remaining bf' < base_remaining bf \<and> rb_records bf' = rb_records bf \<and>
    rb_log_record_iter bf' = rb_log_record_iter bf \<and> rb_next_record bf' = rb_next_record bf"
proof -
  obtain s bs b bs' where x: "rb_base_file_source bf = Some (s, bs)"
    "pull_batch bs = Ok (Some (b, bs'))" "bf' = bf\<lparr>rb_base_file_source := Some (s, bs'),
      rb_current_base_batch := Some b, rb_base_row_idx := 1\<rparr>"
    using pull_base_row_Some [OF assms] by metis
  have "stream_rows bs \<le> base_remaining bf" by (simp add: base_remaining_def x(1))
  moreover have "base_remaining bf' = length (b_rows b) - 1 + stream_rows bs'"
    by (simp add: base_remaining_def x(3))
  moreover have "stream_rows bs = length (b_rows b) + stream_rows bs'" "0 < length (b_rows b)"
    using pull_batch_remaining [OF x(2)] by simp_all
  ultimately have "base_remaining bf' < base_remaining bf" by linarith
  then show ?thesis by (simp add: x(3))
qed

lemma next_base_row_remaining:
  assumes "next_base_row bf = Ok (bf', Some x)"
  shows "base_remaining bf' < base_remaining bf \<and> rb_records bf' = rb_records bf \<and>
    rb_log_record_iter bf' = rb_log_record_iter bf \<and> rb_next_record bf' = rb_next_record bf"
proof (cases "\<exists>b. rb_current_base_batch bf = Some b \<and> rb_base_row_idx bf < length (b_rows b)")
  case True
  then show ?thesis using assms by (auto simp: next_base_row_def base_remaining_def)
next
  case False
  then have "pull_base_row bf = Ok (bf', Some x)"
    using assms by (auto simp: next_base_row_def split: option.splits if_splits)
  then show ?thesis by (rule pull_base_row_remaining)
qed

lemma has_next_base_record_shape:
  assumes "has_next_base_record ml base l bf = Ok (bf', r)"
  shows "\<exists>st out. bf' = bf\<lparr>rb_stats := st, rb_next_record := out\<rparr> \<and> (r \<longleftrightarrow> out \<noteq> None)"
proof (cases l)
  case None
  then have "bf' = bf\<lparr>rb_stats := rb_stats bf, rb_next_record := Some base\<rparr>" "r"
    using assms by (simp_all add: has_next_base_record_def)
  then show ?thesis by blast
next
  case (Some x)
  then obtain m where "final_merge (ml_compare ml) (rb_merger bf) base x = Ok m"
    using assms by (auto simp: has_next_base_record_def res_bind_Inr_iff)
  then show ?thesis
    using assms Some by (auto simp: has_next_base_record_def split: prod.splits)
qed

lemma has_next_base_record_at_shape:
  assumes "has_next_base_record_at ml bm b i bf = Ok (bf', r)"
  obtains k st out where "bf' = bf\<lparr>rb_records := bm_remove k (rb_records bf), rb_stats := st,
    rb_next_record := out\<rparr>" "r \<longleftrightarrow> out \<noteq> None"
proof -
  obtain k base where "has_next_base_record ml base (bm_get (rb_records bf) k)
      (bf\<lparr>rb_records := bm_remove k (rb_records bf)\<rparr>) = Ok (bf', r)"
    using assms by (auto simp: has_next_base_record_at_def res_bind_Inr_iff)
  from has_next_base_record_shape [OF this] that show thesis by blast
qed

lemma has_next_base_record_at_remaining:
  "has_next_base_record_at ml bm b i bf = Ok (bf', r) \<Longrightarrow> base_remaining bf' = base_remaining bf"
  by (elim has_next_base_record_at_shape) (simp add: base_remaining_def split: option.split)

function do_has_next_matched :: "merge_lib \<Rightarrow> BaseMatch \<Rightarrow> RecordBuffer \<Rightarrow> (RecordBuffer \<times> bool) result"
  where
  "do_has_next_matched ml bm bf =
     res_bind (next_base_row bf) (\<lambda>(bf1, x). case x of
        Some (b, i) \<Rightarrow> res_bind (has_next_base_record_at ml bm b i bf1) (\<lambda>(bf2, found).
          if found then Ok (bf2, True) else do_has_next_matched ml bm bf2)
      | None \<Rightarrow> Ok (has_next_log_record bf1))"
  by pat_completeness auto
termination
  by (relation "measure (\<lambda>(ml, bm, bf). base_remaining bf)")
    (auto dest: next_base_row_remaining simp: has_next_base_record_at_remaining)

declare do_has_next_matched.simps [simp del]

definition has_next :: "merge_lib \<Rightarrow> BaseMatch \<Rightarrow> RecordBuffer \<Rightarrow> (RecordBuffer \<times> bool) result" where
  "has_next ml bm bf = (if rb_next_record bf \<noteq> None then Ok (bf, True)
     else do_has_next_matched ml bm bf)"

text \<open>\<open>next\<close> takes the record \<open>has_next\<close> left; \<open>merge_and_collect\<close> runs the two to the end.\<close>

definition log_remaining :: "RecordBuffer \<Rightarrow> nat" where
  "log_remaining bf = (case rb_log_record_iter bf of
      None \<Rightarrow> length (rb_records bf) | Some rs \<Rightarrow> length rs)"

definition records_remaining :: "RecordBuffer \<Rightarrow> nat" where
  "records_remaining bf = base_remaining bf + log_remaining bf"

lemma length_bm_remove: "length (bm_remove k m) \<le> length m"
  by (simp add: bm_remove_def)

lemma next_log_record_rest: "next_log_record rs st = (st', Some r, rest) \<Longrightarrow> length rest < length rs"
proof (induction rs arbitrary: st)
  case (Cons x rs)
  show ?case
  proof (cases "br_is_delete x")
    case True
    then show ?thesis using Cons by (fastforce simp: process_update_def)
  next
    case False
    then show ?thesis using Cons.prems by (simp add: process_update_def)
  qed
qed simp

lemma has_next_log_record_remaining:
  "has_next_log_record bf = (bf', True) \<Longrightarrow> records_remaining bf' < records_remaining bf"
proof -
  assume a: "has_next_log_record bf = (bf', True)"
  define bf1 where "bf1 = (case rb_log_record_iter bf of
      None \<Rightarrow> bf\<lparr>rb_log_record_iter := Some (map snd (rb_records bf)), rb_records := []\<rparr> | Some _ \<Rightarrow> bf)"
  obtain st r rest where n: "next_log_record (the (rb_log_record_iter bf1)) (rb_stats bf1) = (st, Some r, rest)"
    "bf' = bf1\<lparr>rb_stats := st, rb_log_record_iter := Some rest, rb_next_record := Some r\<rparr>"
    using a unfolding has_next_log_record_def Let_def bf1_def [symmetric]
    by (auto split: prod.splits option.splits)
  have "length (the (rb_log_record_iter bf1)) = log_remaining bf" "base_remaining bf1 = base_remaining bf"
    by (auto simp: bf1_def log_remaining_def base_remaining_def split: option.split)
  moreover have "log_remaining bf' = length rest" "base_remaining bf' = base_remaining bf1"
    by (simp_all add: n(2) log_remaining_def base_remaining_def split: option.split)
  ultimately show ?thesis
    using next_log_record_rest [OF n(1)] by (simp add: records_remaining_def)
qed

lemma do_has_next_remaining:
  "do_has_next_matched ml bm bf = Ok (bf', True) \<Longrightarrow> records_remaining bf' < records_remaining bf"
proof (induction ml bm bf rule: do_has_next_matched.induct)
  case (1 ml bm bf)
  obtain bf1 x where n: "next_base_row bf = Ok (bf1, x)"
    using "1.prems" by (subst (asm) do_has_next_matched.simps) (auto simp: res_bind_Inr_iff)
  show ?case
  proof (cases x)
    case None
    then have "has_next_log_record bf1 = (bf', True)"
      using "1.prems" n by (subst (asm) do_has_next_matched.simps) simp
    moreover have "records_remaining bf1 \<le> records_remaining bf"
      using n None by (auto simp: next_base_row_def pull_base_row_def res_bind_Inr_iff
          records_remaining_def base_remaining_def log_remaining_def split: option.splits if_splits)
    ultimately show ?thesis using has_next_log_record_remaining by fastforce
  next
    case (Some y)
    obtain b i where x: "x = Some (b, i)" using Some by (cases y) auto
    note d = next_base_row_remaining [OF n [unfolded x]]
    obtain bf2 found where h: "has_next_base_record_at ml bm b i bf1 = Ok (bf2, found)"
      using "1.prems" n x by (subst (asm) do_has_next_matched.simps) (auto simp: res_bind_Inr_iff)
    obtain k st out where s: "bf2 = bf1\<lparr>rb_records := bm_remove k (rb_records bf1), rb_stats := st,
        rb_next_record := out\<rparr>"
      using has_next_base_record_at_shape [OF h] by metis
    have "log_remaining bf2 \<le> log_remaining bf1"
      by (simp add: s log_remaining_def length_bm_remove split: option.split)
    moreover have "log_remaining bf1 = log_remaining bf"
      using d by (simp add: log_remaining_def split: option.split)
    ultimately have r: "records_remaining bf2 < records_remaining bf"
      using d has_next_base_record_at_remaining [OF h] by (simp add: records_remaining_def)
    show ?thesis
    proof (cases found)
      case True
      then show ?thesis using "1.prems" n x h r by (subst (asm) do_has_next_matched.simps) simp
    next
      case False
      then have "do_has_next_matched ml bm bf2 = Ok (bf', True)"
        using "1.prems" n x h by (subst (asm) do_has_next_matched.simps) simp
      then have "records_remaining bf' < records_remaining bf2"
        using "1.IH" n x h False by blast
      then show ?thesis using r by simp
    qed
  qed
qed

text \<open>With nothing looked ahead, \<open>has_next\<close> is \<open>do_has_next\<close>; the loop of
  \<open>merge_and_collect\<close> keeps it so. \<open>has_next\<close> answers \<open>True\<close> only with a record left, so the
  branch without one is never taken.\<close>

function collect_records :: "merge_lib \<Rightarrow> BaseMatch \<Rightarrow> RecordBuffer \<Rightarrow>
    (RecordBuffer \<times> BufferedRecord list) result" where
  "collect_records ml bm bf =
     res_bind (has_next ml bm bf) (\<lambda>(bf1, more).
       if more then
         (case rb_next_record bf1 of
            None \<Rightarrow> Err Panic
          | Some r \<Rightarrow> res_bind (collect_records ml bm (bf1\<lparr>rb_next_record := None\<rparr>)) (\<lambda>(bf2, rs).
              Ok (bf2, r # rs)))
       else Ok (bf1, []))"
  by pat_completeness auto
termination
proof (relation "measure (\<lambda>(ml, bm, bf). records_remaining bf +
    (if rb_next_record bf = None then 0 else 1))")
  fix ml bm bf x bf1 more r
  assume h: "has_next ml bm bf = Ok x" "(bf1, more) = x" more "rb_next_record bf1 = Some r"
  have a: "records_remaining (bf1\<lparr>rb_next_record := None\<rparr>) = records_remaining bf1"
    by (simp add: records_remaining_def base_remaining_def log_remaining_def split: option.split)
  show "((ml, bm, bf1\<lparr>rb_next_record := None\<rparr>), ml, bm, bf) \<in> measure (\<lambda>(ml, bm, bf).
      records_remaining bf + (if rb_next_record bf = None then 0 else 1))"
    using h a do_has_next_remaining [of ml bm bf bf1]
    by (auto simp: has_next_def split: if_splits)
qed simp

declare collect_records.simps [simp del]

text \<open>The schema of the output: the reader schema, the base file's, or that of any buffered
  data record.\<close>

fun any_record_schema :: "BufferedRecord list \<Rightarrow> Schema result" where
  "any_record_schema [] = Err ReadFileSliceError"
| "any_record_schema (r # rs) = res_bind (br_get_record r) (\<lambda>o'. case o' of
      Some row \<Rightarrow> Ok (row_schema row) | None \<Rightarrow> any_record_schema rs)"

definition output_schema :: "RecordBuffer \<Rightarrow> Schema result" where
  "output_schema bf = (case rb_reader_schema bf of
      Some s \<Rightarrow> Ok s
    | None \<Rightarrow> (case rb_base_file_source bf of
          Some (s, _) \<Rightarrow> Ok s
        | None \<Rightarrow> any_record_schema (map snd (rb_records bf))))"

definition merge_and_collect_with_stats :: "merge_lib \<Rightarrow> BaseMatch \<Rightarrow> RecordBuffer \<Rightarrow>
    (row list \<times> UpdateStats) result" where
  "merge_and_collect_with_stats ml bm bf =
     res_bind (output_schema bf) (\<lambda>s.
     res_bind (collect_records ml bm bf) (\<lambda>(bf', rs).
     res_bind (records_to_batch (ml_convert ml) s rs) (\<lambda>rows. Ok (rows, rb_stats bf'))))"

end
