(* ===== verification/Merge_Kernel.thy ===== *)
theory Merge_Kernel
  imports Base_Merge
begin

text \<open>
  The batch path of the merge (\<open>key_based.rs\<close>): \<open>pick_winner\<close>, the kernel that merges a base
  batch with the buffered log records, the chunked drain of log-only inserts.
\<close>

section \<open>Deciding a conflict from ordering values\<close>

datatype Winner = BaseWins | LogData | LogDelete

definition pick_winner_decides :: "string \<Rightarrow> bool" where
  "pick_winner_decides mode = (mode = ''COMMIT_TIME_ORDERING'' \<or> mode = ''EVENT_TIME_ORDERING'')"

definition pick_winner :: "string \<Rightarrow> BufferedRecord \<Rightarrow> OrderingValue option \<Rightarrow> Winner" where
  "pick_winner mode lrec base_ordering =
     (if br_is_delete lrec then
        (if mode \<noteq> ''COMMIT_TIME_ORDERING'' \<and>
            (case (br_ordering_value lrec, base_ordering) of
               (Some d, Some b) \<Rightarrow> \<not> ov_is_default d \<and> is_same_class d b \<and> ov_cmp b d = Greater
             | _ \<Rightarrow> False)
         then BaseWins else LogDelete)
      else if mode = ''COMMIT_TIME_ORDERING'' \<or>
            (case (br_ordering_value lrec, base_ordering) of
               (Some l, Some b) \<Rightarrow> \<not> is_same_class l b \<or> ov_cmp l b \<noteq> Less
             | _ \<Rightarrow> True)
      then LogData else BaseWins)"

section \<open>The kernel\<close>

datatype RowOutcome = RowKept | RowDropped | RowReplaced BufferedRecord

definition base_lookup_keys :: "RecordContext \<Rightarrow> BaseMatch \<Rightarrow> batch \<Rightarrow> string list result" where
  "base_lookup_keys rc bm b = (case bm of
      RecordKey \<Rightarrow> get_record_keys rc b
    | Position \<Rightarrow> res_bind (base_row_position_array b) (\<lambda>ps. Ok (map show_int ps)))"

text \<open>A base row that wins is filled from the losing log record when the table's mode asks
  for it.\<close>

definition kernel_base_wins :: "RecordBuffer \<Rightarrow> BufferedRecord \<Rightarrow> BufferedRecord \<Rightarrow> RowOutcome result"
  where
  "kernel_base_wins bf base lrec =
     res_bind (br_get_record lrec) (\<lambda>lo. case lo of
        None \<Rightarrow> Ok RowKept
      | Some loser \<Rightarrow> res_bind (fill_partial bf base loser) (\<lambda>(r, changed).
          Ok (if changed then RowReplaced r else RowKept)))"

definition kernel_log_wins :: "merge_lib \<Rightarrow> Schema \<Rightarrow> RecordBuffer \<Rightarrow> row \<Rightarrow> BufferedRecord \<Rightarrow>
    RowOutcome result" where
  "kernel_log_wins ml target bf base_row lrec =
     res_bind (br_get_record lrec) (\<lambda>lo.
       if (case lo of None \<Rightarrow> False | Some lb \<Rightarrow> schema_is_partial (row_schema lb) target) then
         res_bind (overlay_partial_over_prior (ml_convert ml) (the lo) base_row target) (\<lambda>m.
           Ok (RowReplaced (new_data (br_record_key lrec) m (br_ordering_value lrec))))
       else res_bind (fill_partial bf lrec base_row) (\<lambda>(r, _). Ok (RowReplaced r)))"

definition kernel_conflict :: "merge_lib \<Rightarrow> Schema \<Rightarrow> batch \<Rightarrow> nat \<Rightarrow> string \<Rightarrow> BufferedRecord \<Rightarrow>
    RecordBuffer \<Rightarrow> (RecordBuffer \<times> RowOutcome) result" where
  "kernel_conflict ml target b i key lrec bf =
     (let base_ordering = accessor_value_at (rb_record_context bf) b i in
      res_bind (slice_row b i) (\<lambda>base_row.
        let base = new_data key base_row base_ordering in
        if \<not> pick_winner_decides (rb_merge_mode bf) then
          res_bind (final_merge (ml_compare ml) (rb_merger bf) base lrec) (\<lambda>m.
            let st = fst (process_update (Some base) m (br_is_delete m) (rb_stats bf)) in
            Ok (bf\<lparr>rb_stats := st\<rparr>, if br_is_delete m then RowDropped else RowReplaced m))
        else
          let w = pick_winner (rb_merge_mode bf) lrec base_ordering;
              bf' = bf\<lparr>rb_stats := fst (process_update (Some lrec) lrec (w = LogDelete) (rb_stats bf))\<rparr>
          in (case w of
              BaseWins \<Rightarrow> res_bind (kernel_base_wins bf' base lrec) (\<lambda>o'. Ok (bf', o'))
            | LogDelete \<Rightarrow> Ok (bf', RowDropped)
            | LogData \<Rightarrow> res_bind (kernel_log_wins ml target bf' base_row lrec) (\<lambda>o'. Ok (bf', o')))))"

definition kernel_row :: "merge_lib \<Rightarrow> Schema \<Rightarrow> batch \<Rightarrow> nat \<Rightarrow> string \<Rightarrow> RecordBuffer \<Rightarrow>
    (RecordBuffer \<times> RowOutcome) result" where
  "kernel_row ml target b i key bf = (case bm_get (rb_records bf) key of
      None \<Rightarrow> Ok (bf, RowKept)
    | Some lrec \<Rightarrow> kernel_conflict ml target b i key lrec
        (bf\<lparr>rb_records := bm_remove key (rb_records bf)\<rparr>))"

fun kernel_rows :: "merge_lib \<Rightarrow> Schema \<Rightarrow> batch \<Rightarrow> nat \<Rightarrow> string list \<Rightarrow> RecordBuffer \<Rightarrow>
    (RecordBuffer \<times> RowOutcome list) result" where
  "kernel_rows ml target b i [] bf = Ok (bf, [])"
| "kernel_rows ml target b i (k # ks) bf =
     res_bind (kernel_row ml target b i k bf) (\<lambda>(bf1, o1).
     res_bind (kernel_rows ml target b (i + 1) ks bf1) (\<lambda>(bf2, os).
       Ok (bf2, o1 # os)))"

definition replacement_of :: "RowOutcome \<Rightarrow> BufferedRecord option" where
  "replacement_of o' = (case o' of RowReplaced r \<Rightarrow> Some r | _ \<Rightarrow> None)"

definition kept_rows :: "batch \<Rightarrow> RowOutcome list \<Rightarrow> row list" where
  "kept_rows b os = map (\<lambda>(vs, _). zip (b_schema b) vs)
     (filter (\<lambda>(_, o'). o' = RowKept) (zip (b_rows b) os))"

text \<open>The output of a batch: the kept rows by the mask, then the replacements; a batch none of
  whose rows is dropped is passed through.\<close>

definition assemble_batch :: "convert \<Rightarrow> Schema \<Rightarrow> batch \<Rightarrow> RowOutcome list \<Rightarrow> row list result" where
  "assemble_batch conv target b os =
     (let repl = List.map_filter replacement_of os in
      if list_all (\<lambda>o'. o' = RowKept) os \<and> repl = [] then reconcile_to_schema conv target b
      else res_bind (if b_schema b = target then Ok (kept_rows b os)
          else res_map (reconcile_row conv target) (kept_rows b os)) (\<lambda>kept.
        if repl = [] then Ok kept
        else res_bind (records_to_batch conv target repl) (\<lambda>rows. Ok (kept @ rows))))"

definition merge_one_base_batch_kernel :: "merge_lib \<Rightarrow> batch \<Rightarrow> Schema \<Rightarrow> BaseMatch \<Rightarrow> RecordBuffer \<Rightarrow>
    (RecordBuffer \<times> row list option) result" where
  "merge_one_base_batch_kernel ml b target bm bf =
     (if b_rows b = [] then Ok (bf, None)
      else res_bind (base_lookup_keys (rb_record_context bf) bm b) (\<lambda>keys.
        res_bind (kernel_rows ml target b 0 keys bf) (\<lambda>(bf', os).
        res_bind (assemble_batch (ml_convert ml) target b os) (\<lambda>rows. Ok (bf', Some rows)))))"

text \<open>\<open>pull_and_merge_next_base_batch\<close>: the next non-empty batch of the source, merged.\<close>

definition pull_and_merge_next_base_batch :: "merge_lib \<Rightarrow> Schema \<Rightarrow> BaseMatch \<Rightarrow> RecordBuffer \<Rightarrow>
    (RecordBuffer \<times> row list option) result" where
  "pull_and_merge_next_base_batch ml target bm bf = (case rb_base_file_source bf of
      None \<Rightarrow> Ok (bf, None)
    | Some (s, bs) \<Rightarrow> res_bind (pull_batch bs) (\<lambda>p. case p of
          None \<Rightarrow> Ok (bf\<lparr>rb_base_file_source := None\<rparr>, None)
        | Some (b, bs') \<Rightarrow> merge_one_base_batch_kernel ml b target bm
            (bf\<lparr>rb_base_file_source := Some (s, bs')\<rparr>)))"

section \<open>Draining log-only inserts\<close>

definition DEFAULT_BATCH_SIZE :: nat where "DEFAULT_BATCH_SIZE = 4096"

definition drain_record :: "Schema \<Rightarrow> BufferedRecord \<Rightarrow> BufferedRecord result" where
  "drain_record target r = res_bind (br_get_record r) (\<lambda>o'. case o' of
      Some row \<Rightarrow> if schema_is_partial (row_schema row) target
        then res_bind (pad_partial_to_target row target) (\<lambda>p.
          Ok (new_data (br_record_key r) p (br_ordering_value r)))
        else Ok r
    | None \<Rightarrow> Ok r)"

text \<open>One chunk: at most \<open>n\<close> data records off the iterator; what is left is \<open>None\<close> once the
  iterator is exhausted.\<close>

fun drain_chunk :: "Schema \<Rightarrow> nat \<Rightarrow> BufferedRecord list \<Rightarrow> UpdateStats \<Rightarrow>
    (BufferedRecord list \<times> BufferedRecord list option \<times> UpdateStats) result" where
  "drain_chunk target 0 rs st = Ok ([], Some rs, st)"
| "drain_chunk target (Suc n) [] st = Ok ([], None, st)"
| "drain_chunk target (Suc n) (r # rs) st =
     (let st' = fst (process_update None r (br_is_delete r) st) in
      if br_is_delete r then drain_chunk target (Suc n) rs st'
      else res_bind (drain_record target r) (\<lambda>r'.
        res_bind (drain_chunk target n rs st') (\<lambda>(out, rest, st''). Ok (r' # out, rest, st''))))"

text \<open>The first call moves the map into the drain iterator.\<close>

definition drain_started :: "RecordBuffer \<Rightarrow> RecordBuffer" where
  "drain_started bf = (case rb_log_drain_iter bf of
      None \<Rightarrow> bf\<lparr>rb_records := [], rb_log_drain_iter := Some (map snd (rb_records bf))\<rparr>
    | Some _ \<Rightarrow> bf)"

definition drain_log_only_inserts :: "merge_lib \<Rightarrow> Schema \<Rightarrow> RecordBuffer \<Rightarrow>
    (RecordBuffer \<times> row list option) result" where
  "drain_log_only_inserts ml target bf =
     (if rb_log_drain_iter bf = None \<and> rb_records bf = [] then Ok (bf, None)
      else
        (let bf1 = drain_started bf in
         res_bind (drain_chunk target DEFAULT_BATCH_SIZE (the (rb_log_drain_iter bf1)) (rb_stats bf1))
           (\<lambda>(rs, rest, st).
             let bf2 = bf1\<lparr>rb_log_drain_iter := rest, rb_stats := st\<rparr> in
             if rs = [] then Ok (bf2, None)
             else res_bind (records_to_batch (ml_convert ml) target rs) (\<lambda>rows.
               res_bind (case rb_unavailable_value bf of None \<Rightarrow> Ok ()
                 | Some sentinel \<Rightarrow> guard_no_unavailable_sentinel rows sentinel
                     (rc_record_key_fields (rb_record_context bf))) (\<lambda>_.
                 Ok (bf2, if rows = [] then None else Some rows))))))"

end
