(* ===== verification/Merge_Rows.thy ===== *)
theory Merge_Rows
  imports Merge_Kernel
begin

text \<open>
  What the row path computes: the pending base rows are merged one after the other with the
  buffered records (\<open>merge_rows\<close>), and the records no base row consumed follow, deletes left
  out. \<open>collect_records_eq\<close> states that the iteration of \<open>has_next\<close> and \<open>next\<close> is exactly that,
  errors included; \<open>merge_rows_table\<close> that for distinct keys it is a merge of two tables.
\<close>

section \<open>The pending rows of the base stream\<close>

definition rows_from :: "batch \<Rightarrow> nat \<Rightarrow> (batch \<times> nat) list" where
  "rows_from b i = map (\<lambda>j. (b, j)) [i ..< length (b_rows b)]"

fun stream_pending :: "batch result list \<Rightarrow> (batch \<times> nat) list option" where
  "stream_pending [] = Some []"
| "stream_pending (Inl e # bs) = None"
| "stream_pending (Inr b # bs) = map_option ((@) (rows_from b 0)) (stream_pending bs)"

definition pending_rows :: "RecordBuffer \<Rightarrow> (batch \<times> nat) list option" where
  "pending_rows bf = map_option
     ((@) (case rb_current_base_batch bf of None \<Rightarrow> [] | Some b \<Rightarrow> rows_from b (rb_base_row_idx bf)))
     (case rb_base_file_source bf of None \<Rightarrow> Some [] | Some (_, bs) \<Rightarrow> stream_pending bs)"

lemma pending_rows_update [simp]:
  "pending_rows (bf\<lparr>rb_records := m\<rparr>) = pending_rows bf"
  "pending_rows (bf\<lparr>rb_stats := st\<rparr>) = pending_rows bf"
  "pending_rows (bf\<lparr>rb_next_record := x\<rparr>) = pending_rows bf"
  "pending_rows (bf\<lparr>rb_log_record_iter := it\<rparr>) = pending_rows bf"
  by (simp_all add: pending_rows_def split: option.split)

lemma rows_from_Cons: "i < length (b_rows b) \<Longrightarrow> rows_from b i = (b, i) # rows_from b (Suc i)"
  by (simp add: rows_from_def upt_conv_Cons)

lemma rows_from_Nil [simp]: "rows_from b i = [] \<longleftrightarrow> length (b_rows b) \<le> i"
  by (auto simp: rows_from_def)

lemma pull_batch_Nil: "stream_pending bs = Some [] \<Longrightarrow> pull_batch bs = Ok None"
  by (induction bs rule: stream_pending.induct) (auto split: if_splits)

lemma pull_batch_Cons:
  "stream_pending bs = Some (x # xs) \<Longrightarrow> \<exists>b bs' ys. pull_batch bs = Ok (Some (b, bs')) \<and> x = (b, 0) \<and>
     stream_pending bs' = Some ys \<and> xs = rows_from b 1 @ ys"
proof (induction bs rule: stream_pending.induct)
  case (3 b bs)
  show ?case
  proof (cases "b_rows b = []")
    case True
    then show ?thesis using 3 by (auto simp: rows_from_def)
  next
    case False
    obtain ys where ys: "stream_pending bs = Some ys" "rows_from b 0 @ ys = x # xs"
      using "3.prems" by auto
    have "rows_from b 0 = (b, 0) # rows_from b 1" using False rows_from_Cons [of 0 b] by simp
    then show ?thesis using ys False by auto
  qed
qed simp_all

definition same_but_cursor :: "RecordBuffer \<Rightarrow> RecordBuffer \<Rightarrow> bool" where
  "same_but_cursor bf bf' = (\<exists>c s i. bf' = bf\<lparr>rb_base_file_source := s, rb_current_base_batch := c,
     rb_base_row_idx := i\<rparr>)"

lemma same_but_cursorI: "same_but_cursor bf (bf\<lparr>rb_base_file_source := s, rb_current_base_batch := c,
     rb_base_row_idx := i\<rparr>)"
  unfolding same_but_cursor_def by blast

lemma same_but_cursorD:
  assumes "same_but_cursor bf bf'"
  shows "rb_records bf' = rb_records bf" "rb_stats bf' = rb_stats bf" "rb_merger bf' = rb_merger bf"
    "rb_record_context bf' = rb_record_context bf" "rb_next_record bf' = rb_next_record bf"
    "rb_log_record_iter bf' = rb_log_record_iter bf"
  using assms by (auto simp: same_but_cursor_def)

lemma next_base_row_None:
  assumes "pending_rows bf = Some []"
  shows "\<exists>bf'. next_base_row bf = Ok (bf', None) \<and> same_but_cursor bf bf' \<and> pending_rows bf' = Some []"
proof -
  obtain s where s: "(case rb_base_file_source bf of None \<Rightarrow> Some [] | Some (_, bs) \<Rightarrow> stream_pending bs) = Some []"
    and c: "(case rb_current_base_batch bf of None \<Rightarrow> [] | Some b \<Rightarrow> rows_from b (rb_base_row_idx bf)) = []"
    using assms by (auto simp: pending_rows_def)
  have n: "next_base_row bf = pull_base_row bf"
    using c by (auto simp: next_base_row_def split: option.splits)
  show ?thesis
  proof (cases "rb_base_file_source bf")
    case None
    have "same_but_cursor bf bf"
      using same_but_cursorI [where bf = bf and s = "rb_base_file_source bf" and
        c = "rb_current_base_batch bf" and i = "rb_base_row_idx bf"]
      by simp
    then show ?thesis using n None assms by (simp add: pull_base_row_def)
  next
    case (Some p)
    obtain t bs where p: "p = (t, bs)" by (cases p)
    let ?bf = "bf\<lparr>rb_base_file_source := None, rb_current_base_batch := None,
      rb_base_row_idx := rb_base_row_idx bf\<rparr>"
    have "pull_batch bs = Ok None" using s Some p by (simp add: pull_batch_Nil)
    then have "next_base_row bf = Ok (?bf, None)" using n Some p by (simp add: pull_base_row_def)
    moreover have "pending_rows ?bf = Some []" by (simp add: pending_rows_def)
    ultimately show ?thesis using same_but_cursorI by blast
  qed
qed

lemma next_base_row_Some:
  assumes "pending_rows bf = Some (x # xs)"
  shows "\<exists>bf'. next_base_row bf = Ok (bf', Some x) \<and> same_but_cursor bf bf' \<and> pending_rows bf' = Some xs"
proof (cases "\<exists>b. rb_current_base_batch bf = Some b \<and> rb_base_row_idx bf < length (b_rows b)")
  case True
  then obtain b where b: "rb_current_base_batch bf = Some b" "rb_base_row_idx bf < length (b_rows b)"
    by blast
  let ?bf = "bf\<lparr>rb_base_file_source := rb_base_file_source bf, rb_current_base_batch := Some b,
    rb_base_row_idx := rb_base_row_idx bf + 1\<rparr>"
  have "next_base_row bf = Ok (bf\<lparr>rb_base_row_idx := rb_base_row_idx bf + 1\<rparr>, Some (b, rb_base_row_idx bf))"
    using b by (simp add: next_base_row_def)
  moreover have "bf\<lparr>rb_base_row_idx := rb_base_row_idx bf + 1\<rparr> = ?bf" using b by simp
  moreover have "x = (b, rb_base_row_idx bf)" "pending_rows ?bf = Some xs"
    using assms b rows_from_Cons [OF b(2)] by (auto simp: pending_rows_def)
  ultimately show ?thesis using same_but_cursorI by metis
next
  case False
  then have c: "(case rb_current_base_batch bf of None \<Rightarrow> [] | Some b \<Rightarrow> rows_from b (rb_base_row_idx bf)) = []"
    and n: "next_base_row bf = pull_base_row bf"
    by (auto simp: next_base_row_def split: option.splits)
  then obtain s bs where s: "rb_base_file_source bf = Some (s, bs)" "stream_pending bs = Some (x # xs)"
    using assms by (auto simp: pending_rows_def split: option.splits)
  obtain b bs' ys where b: "pull_batch bs = Ok (Some (b, bs'))" "x = (b, 0)"
    "stream_pending bs' = Some ys" "xs = rows_from b 1 @ ys"
    using pull_batch_Cons [OF s(2)] by blast
  let ?bf = "bf\<lparr>rb_base_file_source := Some (s, bs'), rb_current_base_batch := Some b, rb_base_row_idx := 1\<rparr>"
  have "next_base_row bf = Ok (?bf, Some x)" using n s b by (simp add: pull_base_row_def)
  moreover have "pending_rows ?bf = Some xs" using b by (simp add: pending_rows_def)
  ultimately show ?thesis using same_but_cursorI by blast
qed

section \<open>The rows merged one after the other\<close>

definition merge_outcome :: "merge_lib \<Rightarrow> RecordMerger \<Rightarrow> BufferedRecord \<Rightarrow> BufferedRecord option \<Rightarrow>
    UpdateStats \<Rightarrow> (BufferedRecord option \<times> UpdateStats) result" where
  "merge_outcome ml m base lrec st = (case lrec of
      None \<Rightarrow> Ok (Some base, st)
    | Some l \<Rightarrow> res_bind (final_merge (ml_compare ml) m base l) (\<lambda>r.
        case process_update (Some base) r (br_is_delete r) st of (st', out) \<Rightarrow> Ok (out, st')))"

fun merge_rows :: "merge_lib \<Rightarrow> RecordMerger \<Rightarrow> (batch \<times> nat \<Rightarrow> (string \<times> BufferedRecord) result) \<Rightarrow>
    (batch \<times> nat) list \<Rightarrow> record_map \<Rightarrow> UpdateStats \<Rightarrow>
    (BufferedRecord list \<times> record_map \<times> UpdateStats) result" where
  "merge_rows ml mg f [] m st = Ok ([], m, st)"
| "merge_rows ml mg f (x # xs) m st =
     res_bind (f x) (\<lambda>(k, base).
     res_bind (merge_outcome ml mg base (bm_get m k) st) (\<lambda>(out, st1).
     res_bind (merge_rows ml mg f xs (bm_remove k m) st1) (\<lambda>(rs, m', st').
       Ok ((case out of None \<Rightarrow> rs | Some r \<Rightarrow> r # rs), m', st'))))"

definition base_row_record :: "RecordContext \<Rightarrow> BaseMatch \<Rightarrow> batch \<times> nat \<Rightarrow> (string \<times> BufferedRecord) result"
  where
  "base_row_record rc bm x = base_record_at rc bm (fst x) (snd x)"

lemma has_next_base_record_at_outcome:
  "has_next_base_record_at ml bm b i bf =
   res_bind (base_row_record (rb_record_context bf) bm (b, i)) (\<lambda>(k, base).
   res_bind (merge_outcome ml (rb_merger bf) base (bm_get (rb_records bf) k) (rb_stats bf)) (\<lambda>(out, st).
     Ok (bf\<lparr>rb_records := bm_remove k (rb_records bf), rb_stats := st, rb_next_record := out\<rparr>,
         out \<noteq> None)))"
proof (cases "base_record_at (rb_record_context bf) bm b i")
  case (Inr kb)
  obtain k base where kb: "kb = (k, base)" by (cases kb)
  show ?thesis
  proof (cases "bm_get (rb_records bf) k")
    case None
    then show ?thesis
      by (simp add: has_next_base_record_at_def has_next_base_record_def base_row_record_def Inr kb
          merge_outcome_def)
  next
    case (Some l)
    then show ?thesis
      by (cases "final_merge (ml_compare ml) (rb_merger bf) base l")
        (simp_all add: has_next_base_record_at_def has_next_base_record_def base_row_record_def Inr kb
          merge_outcome_def split: prod.splits)
  qed
qed (simp add: has_next_base_record_at_def base_row_record_def)

section \<open>The row path computes it\<close>

definition drained_stats :: "BufferedRecord list \<Rightarrow> UpdateStats \<Rightarrow> UpdateStats" where
  "drained_stats rs st = fold (\<lambda>r st. fst (process_update None r (br_is_delete r) st)) rs st"

lemma process_update_log_only: "process_update None r (br_is_delete r) st =
    (drained_stats [r] st, if br_is_delete r then None else Some r)"
  by (simp add: drained_stats_def process_update_def)

lemma drained_stats_Cons: "drained_stats (r # rs) st = drained_stats rs (drained_stats [r] st)"
  by (simp add: drained_stats_def)

lemma next_log_record_eq:
  "next_log_record rs st = (case dropWhile br_is_delete rs of
      [] \<Rightarrow> (drained_stats rs st, None, [])
    | r # rest \<Rightarrow> (drained_stats (takeWhile br_is_delete rs @ [r]) st, Some r, rest))"
proof (induction rs arbitrary: st)
  case (Cons r rs)
  have d: "drained_stats (r # xs) st = drained_stats xs (drained_stats [r] st)" for xs
    by (rule drained_stats_Cons)
  show ?case
  proof (cases "br_is_delete r")
    case True
    then have "next_log_record (r # rs) st = next_log_record rs (drained_stats [r] st)"
      using process_update_log_only [of r st] by (simp add: split: prod.splits)
    then show ?thesis
      using True by (simp add: Cons.IH d [of rs] d [of "_ @ _"] del: dropWhile_eq_Nil_conv split: list.split)
  next
    case False
    then show ?thesis using process_update_log_only [of r st] by (simp split: prod.splits)
  qed
qed (simp add: drained_stats_def)

text \<open>Exhausted base stream: the rest of the iteration is the log records.\<close>

definition log_items :: "RecordBuffer \<Rightarrow> BufferedRecord list" where
  "log_items bf = (case rb_log_record_iter bf of None \<Rightarrow> map snd (rb_records bf) | Some rs \<Rightarrow> rs)"

definition log_started :: "RecordBuffer \<Rightarrow> RecordBuffer" where
  "log_started bf = (case rb_log_record_iter bf of
      None \<Rightarrow> bf\<lparr>rb_log_record_iter := Some (map snd (rb_records bf)), rb_records := []\<rparr>
    | Some _ \<Rightarrow> bf)"

lemma log_started_simps [simp]:
  "rb_log_record_iter (log_started bf) = Some (log_items bf)"
  "rb_stats (log_started bf) = rb_stats bf" "rb_next_record (log_started bf) = rb_next_record bf"
  "pending_rows (log_started bf) = pending_rows bf"
  by (auto simp: log_started_def log_items_def split: option.split)

lemma has_next_log_record_eq:
  "has_next_log_record bf = (case dropWhile br_is_delete (log_items bf) of
      [] \<Rightarrow> ((log_started bf)\<lparr>rb_stats := drained_stats (log_items bf) (rb_stats bf),
              rb_log_record_iter := Some []\<rparr>, False)
    | r # rest \<Rightarrow> ((log_started bf)\<lparr>
        rb_stats := drained_stats (takeWhile br_is_delete (log_items bf) @ [r]) (rb_stats bf),
        rb_log_record_iter := Some rest, rb_next_record := Some r\<rparr>, True))"
  unfolding has_next_log_record_def log_started_def [symmetric]
  by (simp add: next_log_record_eq Let_def del: dropWhile_eq_Nil_conv split: list.split)

lemma filter_data_split:
  assumes "dropWhile br_is_delete rs = r # rest"
  shows "filter (\<lambda>r. \<not> br_is_delete r) rs = r # filter (\<lambda>r. \<not> br_is_delete r) rest"
    "drained_stats rs st = drained_stats rest (drained_stats (takeWhile br_is_delete rs @ [r]) st)"
    "length rest < length rs"
proof -
  have rs: "rs = takeWhile br_is_delete rs @ r # rest"
    using assms takeWhile_dropWhile_id [of br_is_delete rs] by simp
  have "\<not> br_is_delete r" using assms by (metis dropWhile_eq_Cons_conv)
  moreover have "filter (\<lambda>r. \<not> br_is_delete r) (takeWhile br_is_delete rs) = []"
    unfolding filter_empty_conv using set_takeWhileD by fast
  ultimately show "filter (\<lambda>r. \<not> br_is_delete r) rs = r # filter (\<lambda>r. \<not> br_is_delete r) rest"
    by (subst rs) simp
  show "drained_stats rs st = drained_stats rest (drained_stats (takeWhile br_is_delete rs @ [r]) st)"
    by (subst rs) (simp add: drained_stats_def)
  show "length rest < length rs" by (subst rs) simp
qed

lemma collect_log_records:
  assumes "pending_rows bf = Some []" "rb_next_record bf = None"
  shows "\<exists>bf'. collect_records ml bm bf = Ok (bf', filter (\<lambda>r. \<not> br_is_delete r) (log_items bf)) \<and>
    rb_stats bf' = drained_stats (log_items bf) (rb_stats bf)"
  using assms
proof (induction "length (log_items bf)" arbitrary: bf rule: less_induct)
  case less
  obtain bf1 where n: "next_base_row bf = Ok (bf1, None)" "same_but_cursor bf bf1"
    "pending_rows bf1 = Some []"
    using next_base_row_None [OF less.prems(1)] by blast
  note same = same_but_cursorD [OF n(2)]
  have it: "log_items bf1 = log_items bf" "rb_next_record bf1 = None" "rb_stats bf1 = rb_stats bf"
    using same less.prems by (simp_all add: log_items_def split: option.split)
  have h: "has_next ml bm bf = Ok (has_next_log_record bf1)"
    using less.prems(2) n(1) by (simp add: has_next_def do_has_next_matched.simps)
  note c = collect_records.simps [of ml bm bf] h has_next_log_record_eq [of bf1] it
  show ?case
  proof (cases "dropWhile br_is_delete (log_items bf)")
    case Nil
    have "filter (\<lambda>r. \<not> br_is_delete r) (log_items bf) = []"
      using Nil by (auto simp: dropWhile_eq_Nil_conv)
    then show ?thesis using Nil by (simp add: c del: dropWhile_eq_Nil_conv)
  next
    case (Cons r rest)
    note f = filter_data_split [OF Cons]
    let ?bf3 = "(log_started bf1)\<lparr>
        rb_stats := drained_stats (takeWhile br_is_delete (log_items bf) @ [r]) (rb_stats bf),
        rb_log_record_iter := Some rest, rb_next_record := None\<rparr>"
    have l3: "log_items ?bf3 = rest" by (simp add: log_items_def)
    have "pending_rows ?bf3 = Some []" using n(3) by simp
    then obtain bf' where "collect_records ml bm ?bf3 = Ok (bf', filter (\<lambda>r. \<not> br_is_delete r) rest)"
      "rb_stats bf' = drained_stats rest (rb_stats ?bf3)"
      using less.hyps [of ?bf3] f(3) l3 by auto
    then show ?thesis
      using Cons f(1) f(2) [of "rb_stats bf"] by (simp add: c del: dropWhile_eq_Nil_conv)
  qed
qed

text \<open>The whole iteration.\<close>

lemma collect_step:
  assumes "pending_rows bf = Some (x # xs)" "rb_next_record bf = None"
  shows "\<exists>bf1. same_but_cursor bf bf1 \<and> pending_rows bf1 = Some xs \<and>
    collect_records ml bm bf =
      res_bind (base_row_record (rb_record_context bf) bm x) (\<lambda>(k, base).
      res_bind (merge_outcome ml (rb_merger bf) base (bm_get (rb_records bf) k) (rb_stats bf))
        (\<lambda>(out, st). res_bind (collect_records ml bm
           (bf1\<lparr>rb_records := bm_remove k (rb_records bf), rb_stats := st, rb_next_record := None\<rparr>))
          (\<lambda>(bf2, rs). Ok (bf2, case out of None \<Rightarrow> rs | Some r \<Rightarrow> r # rs))))"
proof -
  obtain bf1 where n: "next_base_row bf = Ok (bf1, Some x)" "same_but_cursor bf bf1"
    "pending_rows bf1 = Some xs"
    using next_base_row_Some [OF assms(1)] by blast
  note same = same_but_cursorD [OF n(2)]
  obtain b i where x: "x = (b, i)" by (cases x)
  have h: "has_next ml bm bf = res_bind (has_next_base_record_at ml bm b i bf1) (\<lambda>(bf2, found).
      if found then Ok (bf2, True) else do_has_next_matched ml bm bf2)"
    using assms(2) n(1) x by (simp add: has_next_def do_has_next_matched.simps [of ml bm bf])
  show ?thesis
  proof (intro exI conjI, rule n(2), rule n(3))
    let ?goal = "collect_records ml bm bf =
      res_bind (base_row_record (rb_record_context bf) bm x) (\<lambda>(k, base).
      res_bind (merge_outcome ml (rb_merger bf) base (bm_get (rb_records bf) k) (rb_stats bf))
        (\<lambda>(out, st). res_bind (collect_records ml bm
           (bf1\<lparr>rb_records := bm_remove k (rb_records bf), rb_stats := st, rb_next_record := None\<rparr>))
          (\<lambda>(bf2, rs). Ok (bf2, case out of None \<Rightarrow> rs | Some r \<Rightarrow> r # rs))))"
    show ?goal
    proof (cases "base_row_record (rb_record_context bf) bm x")
      case (Inl e)
      then show ?thesis
        using x same by (simp add: collect_records.simps [of ml bm bf] h has_next_base_record_at_outcome)
    next
      case (Inr kb)
      obtain k base where kb: "kb = (k, base)" by (cases kb)
      note h1 = h [unfolded has_next_base_record_at_outcome same x [symmetric] Inr kb]
      show ?thesis
      proof (cases "merge_outcome ml (rb_merger bf) base (bm_get (rb_records bf) k) (rb_stats bf)")
        case (Inl e)
        then show ?thesis using Inr kb by (simp add: collect_records.simps [of ml bm bf] h1)
      next
        case (Inr os)
        obtain out st where os: "os = (out, st)" by (cases os)
        let ?bf2 = "bf1\<lparr>rb_records := bm_remove k (rb_records bf), rb_stats := st, rb_next_record := out\<rparr>"
        show ?thesis
        proof (cases out)
          case None
          have "has_next ml bm bf = do_has_next_matched ml bm ?bf2"
            using Inr os None by (simp add: h1)
          moreover have "has_next ml bm ?bf2 = do_has_next_matched ml bm ?bf2"
            using None by (simp add: has_next_def)
          ultimately have "collect_records ml bm bf = collect_records ml bm ?bf2"
            by (simp add: collect_records.simps [of ml bm bf] collect_records.simps [of ml bm ?bf2])
          then show ?thesis
            using Inr os None \<open>base_row_record _ _ _ = Inr kb\<close> kb
            by (cases "collect_records ml bm ?bf2") auto
        next
          case (Some r)
          then show ?thesis
            using Inr os \<open>base_row_record _ _ _ = Inr kb\<close> kb
            by (simp add: collect_records.simps [of ml bm bf] h1)
        qed
      qed
    qed
  qed
qed

lemma collect_records_eq:
  assumes "pending_rows bf = Some xs" "rb_next_record bf = None" "rb_log_record_iter bf = None"
  shows "\<exists>bf'. collect_records ml bm bf =
      res_bind (merge_rows ml (rb_merger bf) (base_row_record (rb_record_context bf) bm) xs
          (rb_records bf) (rb_stats bf))
        (\<lambda>(rs, m, st). Ok (bf' m st, rs @ filter (\<lambda>r. \<not> br_is_delete r) (map snd m))) \<and>
    (\<forall>m st. rb_stats (bf' m st) = drained_stats (map snd m) st)"
  using assms
proof (induction xs arbitrary: bf)
  case Nil
  obtain bf' where "collect_records ml bm bf = Ok (bf', filter (\<lambda>r. \<not> br_is_delete r) (log_items bf))"
    "rb_stats bf' = drained_stats (log_items bf) (rb_stats bf)"
    using collect_log_records Nil by blast
  moreover have "log_items bf = map snd (rb_records bf)" using Nil by (simp add: log_items_def)
  ultimately show ?case
    by (intro exI [of _ "\<lambda>m st. if m = rb_records bf \<and> st = rb_stats bf then bf'
        else bf'\<lparr>rb_stats := drained_stats (map snd m) st\<rparr>"]) simp
next
  case (Cons x xs)
  obtain bf1 where s: "same_but_cursor bf bf1" "pending_rows bf1 = Some xs"
    and c: "collect_records ml bm bf =
      res_bind (base_row_record (rb_record_context bf) bm x) (\<lambda>(k, base).
      res_bind (merge_outcome ml (rb_merger bf) base (bm_get (rb_records bf) k) (rb_stats bf))
        (\<lambda>(out, st). res_bind (collect_records ml bm
           (bf1\<lparr>rb_records := bm_remove k (rb_records bf), rb_stats := st, rb_next_record := None\<rparr>))
          (\<lambda>(bf2, rs). Ok (bf2, case out of None \<Rightarrow> rs | Some r \<Rightarrow> r # rs))))"
    using collect_step [OF Cons.prems(1,2)] by blast
  note same = same_but_cursorD [OF s(1)]
  let ?f = "base_row_record (rb_record_context bf) bm"
  show ?case
  proof (cases "?f x")
    case (Inl e)
    then show ?thesis by (intro exI [of _ "\<lambda>m st. bf\<lparr>rb_stats := drained_stats (map snd m) st\<rparr>"]) (simp add: c)
  next
    case (Inr kb)
    obtain k base where kb: "kb = (k, base)" by (cases kb)
    show ?thesis
    proof (cases "merge_outcome ml (rb_merger bf) base (bm_get (rb_records bf) k) (rb_stats bf)")
      case (Inl e)
      then show ?thesis
        using Inr kb by (intro exI [of _ "\<lambda>m st. bf\<lparr>rb_stats := drained_stats (map snd m) st\<rparr>"]) (simp add: c)
    next
      case (Inr os)
      obtain out st where os: "os = (out, st)" by (cases os)
      let ?bf2 = "bf1\<lparr>rb_records := bm_remove k (rb_records bf), rb_stats := st, rb_next_record := None\<rparr>"
      have "pending_rows ?bf2 = Some xs" "rb_next_record ?bf2 = None" "rb_log_record_iter ?bf2 = None"
        using s same Cons.prems by simp_all
      from Cons.IH [OF this] same obtain bf' where IH: "collect_records ml bm ?bf2 =
          res_bind (merge_rows ml (rb_merger bf) ?f xs (bm_remove k (rb_records bf)) st)
            (\<lambda>(rs, m, st). Ok (bf' m st, rs @ filter (\<lambda>r. \<not> br_is_delete r) (map snd m)))"
          "\<forall>m st. rb_stats (bf' m st) = drained_stats (map snd m) st"
        by auto
      show ?thesis
      proof (intro exI [of _ bf'] conjI IH(2))
        show "collect_records ml bm bf = res_bind (merge_rows ml (rb_merger bf) ?f (x # xs)
            (rb_records bf) (rb_stats bf))
          (\<lambda>(rs, m, st). Ok (bf' m st, rs @ filter (\<lambda>r. \<not> br_is_delete r) (map snd m)))"
          using \<open>?f x = Inr kb\<close> kb Inr os
          by (cases "merge_rows ml (rb_merger bf) ?f xs (bm_remove k (rb_records bf)) st")
            (auto simp: c IH(1) split: option.split)
      qed
    qed
  qed
qed

lemma collect_records_Ok:
  assumes "collect_records ml bm bf = Ok (bf', rs)" "pending_rows bf = Some xs"
    and "rb_next_record bf = None" "rb_log_record_iter bf = None"
  obtains rs1 m st where "merge_rows ml (rb_merger bf) (base_row_record (rb_record_context bf) bm) xs
      (rb_records bf) (rb_stats bf) = Ok (rs1, m, st)"
    "rs = rs1 @ filter (\<lambda>r. \<not> br_is_delete r) (map snd m)"
    "rb_stats bf' = drained_stats (map snd m) st"
proof -
  let ?mr = "merge_rows ml (rb_merger bf) (base_row_record (rb_record_context bf) bm) xs
      (rb_records bf) (rb_stats bf)"
  obtain g where g: "collect_records ml bm bf = res_bind ?mr
      (\<lambda>(rs, m, st). Ok (g m st, rs @ filter (\<lambda>r. \<not> br_is_delete r) (map snd m)))"
    "\<forall>m st. rb_stats (g m st) = drained_stats (map snd m) st"
    using collect_records_eq [OF assms(2-4)] by blast
  show thesis
  proof (cases ?mr)
    case (Inr r)
    obtain rs1 m st where "r = (rs1, m, st)" by (cases r)
    then show thesis using that g assms(1) Inr by auto
  qed (use g(1) assms(1) in simp)
qed

section \<open>A merge of two tables\<close>

text \<open>What the merged table holds for a key, from the base row and the buffered record of the
  key.\<close>

definition merged_value :: "merge_lib \<Rightarrow> RecordMerger \<Rightarrow> BufferedRecord option \<Rightarrow> BufferedRecord option \<Rightarrow>
    BufferedRecord option" where
  "merged_value ml mg base lrec = (case (base, lrec) of
      (None, None) \<Rightarrow> None
    | (Some b, None) \<Rightarrow> Some b
    | (None, Some l) \<Rightarrow> if br_is_delete l then None else Some l
    | (Some b, Some l) \<Rightarrow> (case final_merge (ml_compare ml) mg b l of
          Inl _ \<Rightarrow> None
        | Inr r \<Rightarrow> if br_is_delete r then None else Some r))"

lemma map_filter_cong: "(\<And>x. x \<in> set xs \<Longrightarrow> f x = g x) \<Longrightarrow> List.map_filter f xs = List.map_filter g xs"
  by (induction xs) (simp_all add: map_filter_simps split: option.split)

lemma merge_outcome_value:
  "merge_outcome ml mg base lrec st = Ok (out, st') \<Longrightarrow> out = merged_value ml mg (Some base) lrec"
  by (auto simp: merge_outcome_def merged_value_def process_update_def res_bind_Inr_iff
      split: option.splits if_splits)

lemma merge_rows_table:
  assumes "merge_rows ml mg f xs m st = Ok (rs, m', st')" "res_map f xs = Ok kbs"
    and "distinct (map fst kbs)"
  shows "rs = List.map_filter (\<lambda>(k, b). merged_value ml mg (Some b) (bm_get m k)) kbs \<and>
    m' = filter (\<lambda>(k, _). k \<notin> fst ` set kbs) m"
  using assms
proof (induction xs arbitrary: m st rs kbs)
  case Nil
  then show ?case by (simp add: map_filter_def)
next
  case (Cons x xs)
  obtain kb kbs' where kb: "f x = Ok kb" "res_map f xs = Ok kbs'" "kbs = kb # kbs'"
    using Cons.prems(2) by (auto simp: res_bind_Inr_iff)
  obtain k base where k: "kb = (k, base)" by (cases kb)
  obtain out st1 rs1 where o1: "merge_outcome ml mg base (bm_get m k) st = Ok (out, st1)"
    "merge_rows ml mg f xs (bm_remove k m) st1 = Ok (rs1, m', st')"
    "rs = (case out of None \<Rightarrow> rs1 | Some r \<Rightarrow> r # rs1)"
    using Cons.prems(1) kb(1) k by (auto simp: res_bind_Inr_iff)
  have d: "k \<notin> fst ` set kbs'" "distinct (map fst kbs')" using Cons.prems(3) kb(3) k by auto
  have IH: "rs1 = List.map_filter (\<lambda>(k', b). merged_value ml mg (Some b) (bm_get (bm_remove k m) k')) kbs'"
    "m' = filter (\<lambda>(k, _). k \<notin> fst ` set kbs') (bm_remove k m)"
    using Cons.IH [OF o1(2) kb(2) d(2)] by simp_all
  have "rs1 = List.map_filter (\<lambda>(k', b). merged_value ml mg (Some b) (bm_get m k')) kbs'"
    unfolding IH(1) using d(1) by (intro map_filter_cong) (force simp: case_prod_beta)
  then show ?case
    using o1(3) merge_outcome_value [OF o1(1)] IH(2) kb(3) k
    by (auto simp: map_filter_simps bm_remove_def intro!: filter_cong split: option.split)
qed

lemma map_filter_map: "List.map_filter f (map g xs) = List.map_filter (\<lambda>x. f (g x)) xs"
  by (induction xs) (simp_all add: map_filter_simps split: option.split)

lemma map_filter_append: "List.map_filter f (xs @ ys) = List.map_filter f xs @ List.map_filter f ys"
  by (simp add: map_filter_def)

lemma drained_values:
  assumes "bm_ok m"
  shows "filter (\<lambda>r. \<not> br_is_delete r) (map snd (filter (\<lambda>(k, _). k \<notin> ks) m)) =
    List.map_filter (\<lambda>k. merged_value ml mg None (bm_get m k)) (filter (\<lambda>k. k \<notin> ks) (map fst m))"
proof -
  have get: "bm_get m k = Some r" if "(k, r) \<in> set m" for k r using bm_get_in [OF assms] that by simp
  have "filter (\<lambda>r. \<not> br_is_delete r) (map snd (filter (\<lambda>(k, _). k \<notin> ks) n)) =
      List.map_filter (\<lambda>k. merged_value ml mg None (bm_get m k)) (filter (\<lambda>k. k \<notin> ks) (map fst n))"
    if "set n \<subseteq> set m" for n
    using that by (induction n) (auto simp: map_filter_def merged_value_def get)
  then show ?thesis by blast
qed

lemma table_as_keys:
  assumes "distinct (map fst kbs)" "bm_ok m"
  shows "List.map_filter (\<lambda>(k, b). merged_value ml mg (Some b) (bm_get m k)) kbs @
      filter (\<lambda>r. \<not> br_is_delete r) (map snd (filter (\<lambda>(k, _). k \<notin> fst ` set kbs) m)) =
    List.map_filter (\<lambda>k. merged_value ml mg (map_of kbs k) (bm_get m k))
      (map fst kbs @ filter (\<lambda>k. k \<notin> fst ` set kbs) (map fst m))"
proof -
  have "List.map_filter (\<lambda>(k, b). merged_value ml mg (Some b) (bm_get m k)) kbs =
      List.map_filter (\<lambda>k. merged_value ml mg (map_of kbs k) (bm_get m k)) (map fst kbs)"
    unfolding map_filter_map using assms(1) by (intro map_filter_cong) auto
  moreover have "List.map_filter (\<lambda>k. merged_value ml mg None (bm_get m k))
        (filter (\<lambda>k. k \<notin> fst ` set kbs) (map fst m)) =
      List.map_filter (\<lambda>k. merged_value ml mg (map_of kbs k) (bm_get m k))
        (filter (\<lambda>k. k \<notin> fst ` set kbs) (map fst m))"
    by (intro map_filter_cong) (simp add: map_of_eq_None_iff [THEN iffD2])
  ultimately show ?thesis
    unfolding drained_values [OF assms(2), of "fst ` set kbs" ml mg] map_filter_append by simp
qed

text \<open>C2: reading a file slice record by record computes the merge of two tables: for every key
  of the base file, in base order, and then for every other buffered key, the output holds the
  base row when nothing is buffered for it, the merged record when it is not a delete, the
  buffered record of a key the base does not have, and nothing for a deleted key.\<close>

theorem merged_output_is_table_merge:
  assumes "merge_and_collect_with_stats ml bm bf = Ok (rows, st)" "pending_rows bf = Some xs"
    and "rb_next_record bf = None" "rb_log_record_iter bf = None" "bm_ok (rb_records bf)"
    and "res_map (base_row_record (rb_record_context bf) bm) xs = Ok kbs" "distinct (map fst kbs)"
  shows "\<exists>s. output_schema bf = Ok s \<and> records_to_batch (ml_convert ml) s
    (List.map_filter (\<lambda>k. merged_value ml (rb_merger bf) (map_of kbs k) (bm_get (rb_records bf) k))
      (map fst kbs @ filter (\<lambda>k. k \<notin> fst ` set kbs) (map fst (rb_records bf)))) = Ok rows"
proof -
  obtain s bf' rs where s: "output_schema bf = Ok s" "collect_records ml bm bf = Ok (bf', rs)"
    "records_to_batch (ml_convert ml) s rs = Ok rows"
    using assms(1) by (auto simp: merge_and_collect_with_stats_def res_bind_Inr_iff)
  obtain rs1 m st1 where m: "merge_rows ml (rb_merger bf) (base_row_record (rb_record_context bf) bm) xs
      (rb_records bf) (rb_stats bf) = Ok (rs1, m, st1)"
    "rs = rs1 @ filter (\<lambda>r. \<not> br_is_delete r) (map snd m)"
    using collect_records_Ok [OF s(2) assms(2-4)] by metis
  show ?thesis
    using s(1,3) m(2) merge_rows_table [OF m(1) assms(6,7)] table_as_keys [OF assms(7,5)] by auto
qed

text \<open>A small file slice: two base rows, a buffered delete of the second, an insert.\<close>

definition sample_lib :: merge_lib where
  "sample_lib = \<lparr>ml_convert = \<lambda>_ _ v. Ok v, ml_compare = \<lambda>_ _ _. Ok Equal\<rparr>"

definition sample_schema :: Schema where
  "sample_schema = [\<lparr>f_name = ''id'', f_type = DtUtf8, f_nullable = True\<rparr>,
     \<lparr>f_name = ''n'', f_type = DtInt64, f_nullable = True\<rparr>]"

definition sample_row :: "string \<Rightarrow> int \<Rightarrow> row" where
  "sample_row k n = zip sample_schema [VStr k, VInt n]"

definition sample_base :: batch where
  "sample_base = \<lparr>b_ptr = 0, b_schema = sample_schema,
     b_rows = [[VStr ''a'', VInt 2], [VStr ''b'', VInt 3]]\<rparr>"

definition sample_record_context :: RecordContext where
  "sample_record_context = \<lparr>rc_record_key_field = ''id'', rc_record_key_fields = [''id''],
     rc_ordering_field_names = [], rc_populate_meta_fields = True, rc_partition_path = [],
     rc_encode_single_key_field = False\<rparr>"

definition sample_buffer :: RecordBuffer where
  "sample_buffer = \<lparr>rb_records = [(''b'', new_delete ''b'' None), (''c'', new_data ''c'' (sample_row ''c'' 4) None)],
     rb_reader_schema = Some sample_schema, rb_merge_mode = ''COMMIT_TIME_ORDERING'',
     rb_merger = CommitTimeRecordMerger, rb_delete_context = None, rb_stats = no_stats,
     rb_base_file_source = Some (sample_schema, [Ok sample_base]), rb_current_base_batch = None,
     rb_base_row_idx = 0, rb_total_log_records = 2, rb_next_record = None,
     rb_log_record_iter = None, rb_log_drain_iter = None, rb_merge_map_peak_entries = 2,
     rb_record_context = sample_record_context, rb_unavailable_value = None,
     rb_ignore_defaults = False, rb_default_retains = Map.empty\<rparr>"

lemma sample_buffer_simps [simp]:
  "rb_records sample_buffer =
     [(''b'', new_delete ''b'' None), (''c'', new_data ''c'' (sample_row ''c'' 4) None)]"
  "rb_reader_schema sample_buffer = Some sample_schema" "rb_merger sample_buffer = CommitTimeRecordMerger"
  "rb_merge_mode sample_buffer = ''COMMIT_TIME_ORDERING''"
  "rb_stats sample_buffer = no_stats" "rb_base_file_source sample_buffer = Some (sample_schema, [Ok sample_base])"
  "rb_current_base_batch sample_buffer = None" "rb_next_record sample_buffer = None"
  "rb_log_record_iter sample_buffer = None" "rb_log_drain_iter sample_buffer = None"
  "rb_record_context sample_buffer = sample_record_context"
  "rb_unavailable_value sample_buffer = None" "\<not> rb_ignore_defaults sample_buffer"
  by (simp_all add: sample_buffer_def)

lemma sample_rows_from: "rows_from sample_base 0 = [(sample_base, 0), (sample_base, 1)]"
  by (simp add: rows_from_def sample_base_def upt_conv_Cons)

lemma sample_pending: "pending_rows sample_buffer = Some [(sample_base, 0), (sample_base, 1)]"
  by (simp add: pending_rows_def sample_rows_from)

lemma sample_base_records:
  "base_row_record sample_record_context RecordKey (sample_base, 0) = Ok (''a'', new_batch_ref ''a'' sample_base 0 None)"
  "base_row_record sample_record_context RecordKey (sample_base, Suc 0) = Ok (''b'', new_batch_ref ''b'' sample_base 1 None)"
  by (simp_all add: base_row_record_def base_record_at_def sample_base_def sample_schema_def
      get_record_keys_def record_key_array_def sample_record_context_def slice_batch_def key_column_def
      key_type_ok_def ordering_value_at_def get_ordering_values_def Let_def)

lemma sample_merge_rows:
  "merge_rows sample_lib CommitTimeRecordMerger (base_row_record sample_record_context RecordKey)
     [(sample_base, 0), (sample_base, 1)] (rb_records sample_buffer) no_stats =
   Ok ([new_batch_ref ''a'' sample_base 0 None], [(''c'', new_data ''c'' (sample_row ''c'' 4) None)],
     \<lparr>num_inserts = 0, num_updates = 0, num_deletes = 1\<rparr>)"
  by (simp add: sample_base_records merge_outcome_def bm_get_def bm_remove_def final_merge_def
      process_update_def no_stats_def)

lemma sample_to_batch:
  "records_to_batch (ml_convert sample_lib) sample_schema
     [new_batch_ref ''a'' sample_base 0 None, new_data ''c'' (sample_row ''c'' 4) None] =
   Ok [sample_row ''a'' 2, sample_row ''c'' 4]"
  by (simp add: records_to_batch_def record_to_row_def new_batch_ref_def new_data_def sample_base_def
      reconcile_to_schema_def reconcile_owned_def sample_row_def sample_schema_def row_schema_def
      map_filter_def)

lemma sample_collected: "\<exists>st. merge_and_collect_with_stats sample_lib RecordKey sample_buffer =
    Ok ([sample_row ''a'' 2, sample_row ''c'' 4], st)"
proof -
  obtain g where "collect_records sample_lib RecordKey sample_buffer =
      Ok (g, [new_batch_ref ''a'' sample_base 0 None, new_data ''c'' (sample_row ''c'' 4) None])"
    using collect_records_eq [OF sample_pending, of sample_lib RecordKey] sample_merge_rows by auto
  then show ?thesis
    by (simp add: merge_and_collect_with_stats_def output_schema_def sample_to_batch)
qed

theorem merged_output_is_table_merge_witness:
  "\<exists>s. output_schema sample_buffer = Ok s \<and> records_to_batch (ml_convert sample_lib) s
    (List.map_filter (\<lambda>k. merged_value sample_lib CommitTimeRecordMerger
        (map_of [(''a'', new_batch_ref ''a'' sample_base 0 None), (''b'', new_batch_ref ''b'' sample_base 1 None)] k)
        (bm_get (rb_records sample_buffer) k)) [''a'', ''b'', ''c'']) =
    Ok [sample_row ''a'' 2, sample_row ''c'' 4]"
proof -
  obtain st where c: "merge_and_collect_with_stats sample_lib RecordKey sample_buffer =
      Ok ([sample_row ''a'' 2, sample_row ''c'' 4], st)"
    using sample_collected by blast
  have ok: "bm_ok (rb_records sample_buffer)" by (simp add: bm_ok_def less_char_def)
  have keys: "res_map (base_row_record (rb_record_context sample_buffer) RecordKey)
      [(sample_base, 0), (sample_base, 1)] =
    Ok [(''a'', new_batch_ref ''a'' sample_base 0 None), (''b'', new_batch_ref ''b'' sample_base 1 None)]"
    by (simp add: sample_base_records)
  show ?thesis
    using merged_output_is_table_merge [OF c sample_pending _ _ ok keys] by simp
qed

end
