(* ===== verification/Kernel_Refinement.thy ===== *)
theory Kernel_Refinement
  imports Merge_Rows
begin

text \<open>
  The batch kernel refines the row path: deciding a conflict by \<open>pick_winner\<close> agrees with the
  merger's \<open>final_merge\<close>, the lookup keys and ordering values read off a whole batch are those
  of its rows, and the output of a batch holds the rows the row path emits for it, with the
  same buffered records left and the same counts.
\<close>

section \<open>Winners\<close>

text \<open>The merger a buffer has for its merge mode.\<close>

definition merger_of_mode :: "string \<Rightarrow> RecordMerger \<Rightarrow> bool" where
  "merger_of_mode mode m = (case m of
      CommitTimeRecordMerger \<Rightarrow> mode = ''COMMIT_TIME_ORDERING''
    | EventTimeRecordMerger \<Rightarrow> mode = ''EVENT_TIME_ORDERING''
    | MetadataPayloadMerger \<Rightarrow> eq_ignore_ascii_case mode ''CUSTOM'')"

lemma create_merger_mode: "create_merger ps ss mode cfg = Ok m \<Longrightarrow> merger_of_mode mode m"
  by (auto simp: create_merger_def merger_of_mode_def split: if_splits option.splits CustomMerger.splits)

lemma custom_not_decided: "eq_ignore_ascii_case mode ''CUSTOM'' \<Longrightarrow> \<not> pick_winner_decides mode"
  by (auto simp: pick_winner_decides_def eq_ignore_ascii_case_def)

definition winner_record :: "Winner \<Rightarrow> BufferedRecord \<Rightarrow> BufferedRecord \<Rightarrow> BufferedRecord" where
  "winner_record w base lrec = (case w of BaseWins \<Rightarrow> base | _ \<Rightarrow> lrec)"

lemma pick_winner_final_merge:
  assumes "merger_of_mode mode m" "pick_winner_decides mode" "\<not> br_is_delete base"
  shows "final_merge cmpv m base lrec =
      Ok (winner_record (pick_winner mode lrec (br_ordering_value base)) base lrec)"
proof (cases m)
  case CommitTimeRecordMerger
  then show ?thesis
    using assms by (simp add: merger_of_mode_def final_merge_def pick_winner_def winner_record_def)
next
  case MetadataPayloadMerger
  then show ?thesis using assms custom_not_decided by (simp add: merger_of_mode_def)
next
  case EventTimeRecordMerger
  then have mode: "mode = ''EVENT_TIME_ORDERING''" using assms(1) by (simp add: merger_of_mode_def)
  have nd: "\<not> is_commit_time_ordering_delete base"
    using assms(3) by (simp add: is_commit_time_ordering_delete_def)
  show ?thesis
  proof (cases "br_ordering_value lrec")
    case None
    then show ?thesis
      by (simp add: EventTimeRecordMerger mode final_merge_def should_keep_newer_record_def
          pick_winner_def winner_record_def)
  next
    case (Some l)
    show ?thesis
    proof (cases "br_ordering_value base")
      case None
      then show ?thesis
        by (simp add: EventTimeRecordMerger mode final_merge_def should_keep_newer_record_def
            pick_winner_def winner_record_def Some)
    next
      case (Some b)
      have flip: "ov_cmp b l = Greater \<longleftrightarrow> ov_cmp l b = Less"
        using ov_cmp_flip(1) [of b l] by simp
      have lc: "is_commit_time_ordering_delete lrec \<longleftrightarrow> br_is_delete lrec \<and> l = OvDefault"
        by (simp add: is_commit_time_ordering_delete_def is_default_ordering_def
            \<open>br_ordering_value lrec = Some l\<close>)
      have ld: "ov_is_default l \<longleftrightarrow> l = OvDefault" by (cases l) (simp_all add: ov_is_default_def)
      show ?thesis
      proof (cases "br_is_delete lrec \<and> l = OvDefault")
        case True
        moreover have "ov_is_default OvDefault" by (simp add: ov_is_default_def)
        ultimately show ?thesis
          by (simp add: EventTimeRecordMerger mode final_merge_def should_keep_newer_record_def nd lc
              pick_winner_def winner_record_def Some \<open>br_ordering_value lrec = Some l\<close>)
      next
        case False
        then show ?thesis
          by (simp add: EventTimeRecordMerger mode final_merge_def should_keep_newer_record_def nd lc ld
              flip pick_winner_def winner_record_def Some \<open>br_ordering_value lrec = Some l\<close>)
      qed
    qed
  qed
qed

text \<open>C26: the batch kernel, which decides a conflict between a base row and a log record from
  their ordering values alone, picks the record the merger's final merge of the two whole
  records returns, ties and deletes included.\<close>

theorem pick_winner_agrees_with_merger:
  assumes "create_merger ps ss mode cfg = Ok m" "pick_winner_decides mode" "\<not> br_is_delete base"
  shows "final_merge cmpv m base lrec =
    Ok (case pick_winner mode lrec (br_ordering_value base) of BaseWins \<Rightarrow> base | _ \<Rightarrow> lrec)"
  using pick_winner_final_merge [OF create_merger_mode [OF assms(1)] assms(2,3)]
  by (simp add: winner_record_def)

theorem pick_winner_agrees_with_merger_witness:
  "final_merge (\<lambda>_ _ _. Ok Equal) EventTimeRecordMerger (new_data ''k'' [] (Some (OvLong 7)))
     (new_delete ''k'' (Some (OvLong 5))) = Ok (new_data ''k'' [] (Some (OvLong 7)))"
  using pick_winner_agrees_with_merger [of "[]" "[]" "''EVENT_TIME_ORDERING''" Map.empty
      EventTimeRecordMerger "new_data ''k'' [] (Some (OvLong 7))" "\<lambda>_ _ _. Ok Equal" "new_delete ''k'' (Some (OvLong 5))"]
  by (simp add: create_merger_def pick_winner_decides_def pick_winner_def ov_is_default_def
      is_same_class_def ov_discriminant_def)

lemma pick_winner_delete:
  "pick_winner mode lrec bo = LogDelete \<Longrightarrow> br_is_delete lrec"
  "pick_winner mode lrec bo = LogData \<Longrightarrow> \<not> br_is_delete lrec"
  by (auto simp: pick_winner_def split: if_splits)

section \<open>Lookup keys and ordering values of a batch\<close>

lemma slice_batch_simps [simp]:
  "b_schema (slice_batch b i) = b_schema b" "b_rows (slice_batch b i) = [b_rows b ! i]"
  by (simp_all add: slice_batch_def)

lemma batch_column_slice:
  "batch_column (slice_batch b i) n =
     map_option (\<lambda>(t, vs). (t, [vs ! i])) (batch_column b n)" if "i < length (b_rows b)"
  using that by (cases "find (\<lambda>(f, _). f_name f = n) (zip (b_schema b) [0 ..< length (b_schema b)])")
    (auto simp: batch_column_def)

lemma key_column_slice:
  assumes "i < length (b_rows b)"
  shows "key_column (slice_batch b i) n = res_bind (key_column b n) (\<lambda>ks. Ok [ks ! i])"
  using assms by (auto simp: key_column_def split: option.splits prod.splits)

lemma key_columns_slice:
  assumes "i < length (b_rows b)"
  shows "res_map (key_column (slice_batch b i)) ns =
    res_bind (res_map (key_column b) ns) (\<lambda>cols. Ok (map (\<lambda>c. [c ! i]) cols))"
  using assms
proof (induction ns)
  case (Cons n ns)
  then show ?case
    by (cases "key_column b n"; cases "res_map (key_column b) ns") (simp_all add: key_column_slice)
qed simp

lemma length_key_column: "key_column b n = Ok ks \<Longrightarrow> length ks = length (b_rows b)"
  by (auto simp: key_column_def split: option.splits prod.splits if_splits)

definition row_key :: "RecordContext \<Rightarrow> batch \<Rightarrow> nat \<Rightarrow> string option result" where
  "row_key rc b i =
     (if length (rc_record_key_fields rc) > 1 \<or> rc_encode_single_key_field rc then
        res_bind (res_map (key_column b) (rc_record_key_fields rc)) (\<lambda>cols.
          res_bind (composite_key (rc_record_key_fields rc) (map (\<lambda>c. c ! i) cols)) (\<lambda>k. Ok (Some k)))
      else res_bind (key_column b (rc_record_key_field rc)) (\<lambda>ks. Ok (ks ! i)))"

lemma record_key_array_slice:
  assumes "i < length (b_rows b)"
  shows "record_key_array rc (slice_batch b i) = res_bind (row_key rc b i) (\<lambda>k. Ok [k])"
proof (cases "length (rc_record_key_fields rc) > 1 \<or> rc_encode_single_key_field rc")
  case True
  show ?thesis
  proof (cases "res_map (key_column b) (rc_record_key_fields rc)")
    case (Inr cols)
    have "map (\<lambda>c. c ! 0) (map (\<lambda>c. [c ! i]) cols) = map (\<lambda>c. c ! i) cols" by simp
    then show ?thesis
      using True Inr
      by (cases "composite_key (rc_record_key_fields rc) (map (\<lambda>c. c ! i) cols)")
        (auto simp: record_key_array_def row_key_def key_columns_slice [OF assms] comp_def)
  qed (use True in \<open>auto simp: record_key_array_def row_key_def key_columns_slice [OF assms]\<close>)
next
  case False
  then show ?thesis
    by (cases "key_column b (rc_record_key_field rc)")
      (auto simp: record_key_array_def row_key_def key_column_slice [OF assms])
qed

lemma res_map_all_Ok: "(\<And>x. x \<in> set xs \<Longrightarrow> f x = Ok (g x)) \<Longrightarrow> res_map f xs = Ok (map g xs)"
  by (induction xs) auto

lemma record_key_array_rows:
  assumes "b_rows b \<noteq> []" "\<And>i. i < length (b_rows b) \<Longrightarrow> row_key rc b i = Ok (k i)"
  shows "record_key_array rc b = Ok (map k [0 ..< length (b_rows b)])"
proof -
  have 0: "row_key rc b 0 = Ok (k 0)" using assms by simp
  show ?thesis
  proof (cases "length (rc_record_key_fields rc) > 1 \<or> rc_encode_single_key_field rc")
    case True
    obtain cols where cols: "res_map (key_column b) (rc_record_key_fields rc) = Ok cols"
      using 0 True by (auto simp: row_key_def res_bind_Inr_iff)
    have "res_map (\<lambda>i. res_bind (composite_key (rc_record_key_fields rc) (map (\<lambda>c. c ! i) cols))
        (\<lambda>k. Ok (Some k))) [0 ..< length (b_rows b)] = Ok (map k [0 ..< length (b_rows b)])"
      using assms(2) True cols by (intro res_map_all_Ok) (auto simp: row_key_def)
    then show ?thesis using True cols by (auto simp: record_key_array_def)
  next
    case False
    obtain ks where ks: "key_column b (rc_record_key_field rc) = Ok ks"
      using 0 False by (auto simp: row_key_def res_bind_Inr_iff)
    have "ks = map k [0 ..< length (b_rows b)]"
      using assms(2) False ks length_key_column [OF ks] by (intro nth_equalityI) (auto simp: row_key_def)
    then show ?thesis using False ks by (auto simp: record_key_array_def)
  qed
qed

lemma get_record_keys_rows:
  assumes "b_rows b \<noteq> []"
    and "\<And>i. i < length (b_rows b) \<Longrightarrow> get_record_keys rc (slice_batch b i) = Ok (ks i)"
  shows "get_record_keys rc b = Ok (map (\<lambda>i. ks i ! 0) [0 ..< length (b_rows b)])"
proof -
  have "\<exists>k. row_key rc b i = Ok k \<and> ks i = [case k of None \<Rightarrow> [] | Some s \<Rightarrow> s]"
    if "i < length (b_rows b)" for i
    using assms(2) [OF that] record_key_array_slice [OF that, of rc]
    by (cases "row_key rc b i") (auto simp: get_record_keys_def)
  then obtain k where k: "\<And>i. i < length (b_rows b) \<Longrightarrow> row_key rc b i = Ok (k i)"
    "\<And>i. i < length (b_rows b) \<Longrightarrow> ks i = [case k i of None \<Rightarrow> [] | Some s \<Rightarrow> s]"
    by metis
  show ?thesis
    using record_key_array_rows [OF assms(1) k(1)] k(2) by (simp add: get_record_keys_def)
qed

text \<open>The lookup keys of the batch are those of its rows, under either way of matching.\<close>

lemma base_lookup_keys_rows:
  assumes "b_rows b \<noteq> []"
    and "\<And>i. i < length (b_rows b) \<Longrightarrow> base_record_at rc bm b i = Ok (kb i)"
  shows "base_lookup_keys rc bm b = Ok (map (\<lambda>i. fst (kb i)) [0 ..< length (b_rows b)])"
proof (cases bm)
  case RecordKey
  have "\<exists>ks. get_record_keys rc (slice_batch b i) = Ok ks \<and> fst (kb i) = ks ! 0"
    if "i < length (b_rows b)" for i
    using assms(2) [OF that] RecordKey
    by (auto simp: base_record_at_def res_bind_Inr_iff Let_def) (metis fst_conv)
  then obtain ks where ks: "\<And>i. i < length (b_rows b) \<Longrightarrow>
      get_record_keys rc (slice_batch b i) = Ok (ks i) \<and> fst (kb i) = ks i ! 0" by metis
  show ?thesis
    using get_record_keys_rows [OF assms(1), of rc ks] ks RecordKey by (simp add: base_lookup_keys_def)
next
  case Position
  have "\<exists>ps. base_row_position_array b = Ok ps \<and> fst (kb i) = show_int (ps ! i)"
    if "i < length (b_rows b)" for i
    using assms(2) [OF that] Position
    by (auto simp: base_record_at_def res_bind_Inr_iff Let_def) (metis fst_conv)
  moreover obtain ps where ps: "base_row_position_array b = Ok ps" using calculation [of 0] assms(1) by auto
  ultimately have "fst (kb i) = show_int (ps ! i)" if "i < length (b_rows b)" for i
    using that by fastforce
  moreover have "length ps = length (b_rows b)"
    using ps by (auto simp: base_row_position_array_def batch_column_def split: option.splits if_splits)
  ultimately have "map show_int ps = map (\<lambda>i. fst (kb i)) [0 ..< length (b_rows b)]"
    by (intro nth_equalityI) auto
  then show ?thesis using Position ps by (simp add: base_lookup_keys_def)
qed

lemma ordering_value_at_slice:
  assumes "i < length (b_rows b)"
  shows "ordering_value_at rc (slice_batch b i) 0 = ordering_value_at rc b i"
proof (cases "rc_ordering_field_names rc")
  case (Cons f fs)
  let ?g = "\<lambda>f. Option.bind (batch_column b f) column_to_ordering_values"
  have g: "Option.bind (batch_column (slice_batch b i) f) column_to_ordering_values =
      map_option (\<lambda>vs. [vs ! i]) (?g f)" for f
  proof (cases "batch_column b f")
    case (Some tv)
    have "length (snd tv) = length (b_rows b)" using Some by (auto simp: batch_column_def)
    then show ?thesis
      using Some assms by (cases tv) (simp add: batch_column_slice column_to_ordering_values_def)
  qed (simp add: batch_column_slice assms)
  have len: "length vs = length (b_rows b)" if "?g f = Some vs" for f vs
    using that by (cases "batch_column b f")
      (auto simp: batch_column_def column_to_ordering_values_def split: if_splits)
  show ?thesis
  proof (cases fs)
    case Nil
    then show ?thesis
      using Cons g [of f] len [of f] assms
      by (cases "?g f") (auto simp: ordering_value_at_def get_ordering_values_def nth_opt_def)
  next
    case (Cons f' fs')
    let ?fs = "f # f' # fs'"
    have fs: "rc_ordering_field_names rc = ?fs" using \<open>rc_ordering_field_names rc = f # fs\<close> Cons by simp
    have m: "map (\<lambda>f. Option.bind (batch_column (slice_batch b i) f) column_to_ordering_values) ?fs =
        map (map_option (\<lambda>vs. [vs ! i])) (map ?g ?fs)" using g by simp
    show ?thesis
    proof (cases "list_all (\<lambda>x. x \<noteq> None) (map ?g ?fs)")
      case True
      have a: "those_options (map ?g ?fs) = Some (map the (map ?g ?fs))"
        using True by (simp only: those_options_def if_True)
      have b: "those_options (map (map_option (\<lambda>vs. [vs ! i])) (map ?g ?fs)) =
          Some (map (\<lambda>vs. [vs ! i]) (map the (map ?g ?fs)))"
        using True by (auto simp: those_options_def list_all_iff)
      have "map (\<lambda>c. c ! 0) (map (\<lambda>vs. [vs ! i]) (map the (map ?g ?fs))) =
          map (\<lambda>c. c ! i) (map the (map ?g ?fs))" by simp
      then show ?thesis
        using assms unfolding ordering_value_at_def get_ordering_values_def fs list.case m a b
        by (simp add: nth_opt_def comp_def)
    next
      case False
      have a: "those_options (map ?g ?fs) = None" using False by (simp only: those_options_def if_False)
      have b: "those_options (map (map_option (\<lambda>vs. [vs ! i])) (map ?g ?fs)) = None"
        using False by (auto simp: those_options_def list_all_iff)
      show ?thesis unfolding ordering_value_at_def get_ordering_values_def fs list.case m a b by simp
    qed
  qed
qed (simp add: ordering_value_at_def get_ordering_values_def)

section \<open>One batch\<close>

text \<open>The conditions of the comparison: no partial-update mode, the merger of the mode, and
  buffered records that are readable and carry every column.\<close>

definition full_record :: "Schema \<Rightarrow> BufferedRecord \<Rightarrow> bool" where
  "full_record target r = (case br_get_record r of
      Inl _ \<Rightarrow> False
    | Inr None \<Rightarrow> True
    | Inr (Some row) \<Rightarrow> \<not> schema_is_partial (row_schema row) target)"

definition plain_merge :: "Schema \<Rightarrow> RecordBuffer \<Rightarrow> bool" where
  "plain_merge target bf = (rb_unavailable_value bf = None \<and> \<not> rb_ignore_defaults bf \<and>
     merger_of_mode (rb_merge_mode bf) (rb_merger bf) \<and>
     list_all (\<lambda>(_, r). full_record target r) (rb_records bf))"

definition outcome_record :: "BufferedRecord \<Rightarrow> RowOutcome \<Rightarrow> BufferedRecord option" where
  "outcome_record base o' = (case o' of RowKept \<Rightarrow> Some base | RowDropped \<Rightarrow> None | RowReplaced r \<Rightarrow> Some r)"

lemma bm_remove_absent: "bm_get m k = None \<Longrightarrow> bm_remove k m = m"
  by (induction m) (auto simp: bm_get_def bm_remove_def split: if_splits)

lemma full_record_get: "list_all (\<lambda>(_, r). full_record target r) m \<Longrightarrow> bm_get m k = Some l \<Longrightarrow>
    full_record target l"
  by (auto simp: bm_get_def list_all_iff dest: map_of_SomeD)

lemma plain_merge_remove:
  "plain_merge target bf \<Longrightarrow>
   plain_merge target (bf\<lparr>rb_records := bm_remove k (rb_records bf), rb_stats := st\<rparr>)"
  by (auto simp: plain_merge_def bm_remove_def list_all_iff)

lemma metadata_final_merge_base:
  "br_get_record a = br_get_record b \<Longrightarrow> br_is_delete a = br_is_delete b \<Longrightarrow>
   metadata_final_merge cmpv a l = metadata_final_merge cmpv b l"
  by (simp add: metadata_final_merge_def)

lemma fill_partial_plain: "rb_unavailable_value bf = None \<Longrightarrow> \<not> rb_ignore_defaults bf \<Longrightarrow>
    fill_partial bf r row = Ok (r, False)"
  by (simp add: fill_partial_def)

lemma kernel_log_wins_plain:
  assumes "rb_unavailable_value bf = None" "\<not> rb_ignore_defaults bf" "full_record target l"
  shows "kernel_log_wins ml target bf row l = Ok (RowReplaced l)"
proof (cases "br_get_record l")
  case (Inr lo)
  then show ?thesis
    using assms by (cases lo) (simp_all add: kernel_log_wins_def full_record_def fill_partial_plain)
qed (use assms in \<open>simp add: full_record_def\<close>)

lemma kernel_base_wins_plain:
  assumes "rb_unavailable_value bf = None" "\<not> rb_ignore_defaults bf" "full_record target l"
  shows "kernel_base_wins bf base l = Ok RowKept"
proof (cases "br_get_record l")
  case (Inr lo)
  then show ?thesis
    using assms by (cases lo) (simp_all add: kernel_base_wins_def fill_partial_plain)
qed (use assms in \<open>simp add: full_record_def\<close>)

lemma kernel_row_refines:
  assumes "plain_merge target bf" "i < length (b_rows b)"
    and "base_record_at (rb_record_context bf) bm b i = Ok (k, base)"
    and "merge_outcome ml (rb_merger bf) base (bm_get (rb_records bf) k) (rb_stats bf) = Ok (out, st)"
  shows "\<exists>o'. kernel_row ml target b i k bf =
      Ok (bf\<lparr>rb_records := bm_remove k (rb_records bf), rb_stats := st\<rparr>, o') \<and>
    out = outcome_record base o'"
proof (cases "bm_get (rb_records bf) k")
  case None
  then have "bf\<lparr>rb_records := bm_remove k (rb_records bf), rb_stats := st\<rparr> = bf" "out = Some base"
    using assms(4) by (simp_all add: merge_outcome_def bm_remove_absent)
  then show ?thesis using None by (intro exI [of _ RowKept]) (simp add: kernel_row_def outcome_record_def)
next
  case (Some l)
  let ?bf = "bf\<lparr>rb_records := bm_remove k (rb_records bf)\<rparr>"
  let ?ov = "accessor_value_at (rb_record_context bf) b i"
  let ?row = "zip (b_schema b) (b_rows b ! i)"
  obtain rk where base: "base = new_batch_ref rk b i ?ov"
    using assms(2,3) by (auto simp: base_record_at_def res_bind_Inr_iff Let_def ordering_value_at_slice
        ordering_value_at_in_range)
  have full: "full_record target l"
    using full_record_get Some assms(1) by (auto simp: plain_merge_def)
  have nopartial: "rb_unavailable_value bf = None" "\<not> rb_ignore_defaults bf"
    using assms(1) by (simp_all add: plain_merge_def)
  have slice: "slice_row b i = Ok ?row" using assms(2) by (simp add: slice_row_def)
  obtain r where r: "final_merge (ml_compare ml) (rb_merger bf) base l = Ok r"
    and pu: "process_update (Some base) r (br_is_delete r) (rb_stats bf) = (st, out)"
    using assms(4) Some by (auto simp: merge_outcome_def res_bind_Inr_iff case_prod_beta prod_eq_iff)
  have mode: "merger_of_mode (rb_merge_mode bf) (rb_merger bf)" using assms(1) by (simp add: plain_merge_def)
  have kr: "kernel_row ml target b i k bf = kernel_conflict ml target b i k l ?bf"
    using Some by (simp add: kernel_row_def)
  show ?thesis
  proof (cases "pick_winner_decides (rb_merge_mode bf)")
    case True
    let ?w = "pick_winner (rb_merge_mode bf) l ?ov"
    have "\<not> br_is_delete base" "br_ordering_value base = ?ov" by (simp_all add: base)
    then have rw: "r = winner_record ?w base l"
      using pick_winner_final_merge [OF mode True, of base "ml_compare ml" l] r by simp
    have del: "br_is_delete r \<longleftrightarrow> ?w = LogDelete"
      using rw pick_winner_delete [of "rb_merge_mode bf" l ?ov]
      by (cases ?w) (auto simp: winner_record_def base)
    have st: "fst (process_update (Some l) l (?w = LogDelete) (rb_stats bf)) = st"
      using pu del by (auto simp: process_update_def split: if_splits)
    have out: "out = (if ?w = LogDelete then None else Some r)"
      using pu del by (auto simp: process_update_def split: if_splits)
    let ?o = "case ?w of BaseWins \<Rightarrow> RowKept | LogDelete \<Rightarrow> RowDropped | LogData \<Rightarrow> RowReplaced l"
    have "kernel_conflict ml target b i k l ?bf = Ok (?bf\<lparr>rb_stats := st\<rparr>, ?o)"
      using True nopartial full slice st
      by (cases ?w) (simp_all add: kernel_conflict_def Let_def kernel_base_wins_plain kernel_log_wins_plain)
    moreover have "out = outcome_record base ?o"
      using out rw by (cases ?w) (simp_all add: outcome_record_def winner_record_def)
    ultimately show ?thesis using kr by (intro exI [of _ ?o]) simp
  next
    case False
    then have m: "rb_merger bf = MetadataPayloadMerger"
      using mode by (auto simp: merger_of_mode_def pick_winner_decides_def split: RecordMerger.splits)
    have "final_merge (ml_compare ml) (rb_merger bf) (new_data k ?row ?ov) l = Ok r"
      using r metadata_final_merge_base [of "new_data k ?row ?ov" base]
      by (simp add: m final_merge_def base br_get_record_def payload_get_record_def new_batch_ref_def
          new_data_def slice br_is_delete_def payload_is_delete_def)
    moreover have "fst (process_update (Some (new_data k ?row ?ov)) r (br_is_delete r) (rb_stats bf)) = st"
      "out = (if br_is_delete r then None else Some r)"
      using pu by (auto simp: process_update_def split: if_splits)
    ultimately show ?thesis
      using False slice kr
      by (intro exI [of _ "if br_is_delete r then RowDropped else RowReplaced r"])
        (simp add: kernel_conflict_def Let_def outcome_record_def)
  qed
qed

lemma merge_rows_Cons_Ok:
  assumes "merge_rows ml mg f (x # xs) m st = Ok (rs, m', st')"
  obtains k base out st1 rs1 where "f x = Ok (k, base)"
    "merge_outcome ml mg base (bm_get m k) st = Ok (out, st1)"
    "merge_rows ml mg f xs (bm_remove k m) st1 = Ok (rs1, m', st')"
    "rs = (case out of None \<Rightarrow> rs1 | Some r \<Rightarrow> r # rs1)"
  using assms by (auto simp: res_bind_Inr_iff)

lemma kernel_rows_refine:
  assumes "plain_merge target bf"
    and "merge_rows ml (rb_merger bf) (base_row_record (rb_record_context bf) bm) (rows_from b i)
      (rb_records bf) (rb_stats bf) = Ok (rs, m, st)"
    and "\<And>j. i \<le> j \<Longrightarrow> j < length (b_rows b) \<Longrightarrow> base_record_at (rb_record_context bf) bm b j = Ok (kb j)"
  shows "\<exists>os. kernel_rows ml target b i (map (\<lambda>j. fst (kb j)) [i ..< length (b_rows b)]) bf =
      Ok (bf\<lparr>rb_records := m, rb_stats := st\<rparr>, os) \<and> length os = length (b_rows b) - i \<and>
    rs = List.map_filter (\<lambda>(j, o'). outcome_record (snd (kb j)) o') (zip [i ..< length (b_rows b)] os)"
  using assms
proof (induction "length (b_rows b) - i" arbitrary: i bf rs)
  case 0
  then have e: "rows_from b i = []" by simp
  have "rs = []" "m = rb_records bf" "st = rb_stats bf" using "0.prems"(2) unfolding e by simp_all
  then show ?case using 0 by (intro exI [of _ "[]"]) (simp add: map_filter_def)
next
  case (Suc n)
  then have i: "i < length (b_rows b)" by simp
  have k: "base_row_record (rb_record_context bf) bm (b, i) = Ok (kb i)"
    using Suc.prems(3) [of i] i by (simp add: base_row_record_def)
  obtain out st1 rs1 where s: "merge_outcome ml (rb_merger bf) (snd (kb i)) (bm_get (rb_records bf) (fst (kb i)))
        (rb_stats bf) = Ok (out, st1)"
    and rest: "merge_rows ml (rb_merger bf) (base_row_record (rb_record_context bf) bm) (rows_from b (Suc i))
        (bm_remove (fst (kb i)) (rb_records bf)) st1 = Ok (rs1, m, st)"
    and rs: "rs = (case out of None \<Rightarrow> rs1 | Some r \<Rightarrow> r # rs1)"
    using Suc.prems(2) k unfolding rows_from_Cons [OF i]
    by (elim merge_rows_Cons_Ok) (metis Inr_inject fst_conv snd_conv)
  let ?bf = "bf\<lparr>rb_records := bm_remove (fst (kb i)) (rb_records bf), rb_stats := st1\<rparr>"
  have "base_record_at (rb_record_context bf) bm b i = Ok (fst (kb i), snd (kb i))"
    using Suc.prems(3) [of i] i by simp
  then obtain o1 where o1: "kernel_row ml target b i (fst (kb i)) bf = Ok (?bf, o1)"
    "out = outcome_record (snd (kb i)) o1"
    using kernel_row_refines [OF Suc.prems(1) i _ s] by blast
  have "\<exists>os. kernel_rows ml target b (Suc i) (map (\<lambda>j. fst (kb j)) [Suc i ..< length (b_rows b)]) ?bf =
      Ok (?bf\<lparr>rb_records := m, rb_stats := st\<rparr>, os) \<and> length os = length (b_rows b) - Suc i \<and>
    rs1 = List.map_filter (\<lambda>(j, o'). outcome_record (snd (kb j)) o') (zip [Suc i ..< length (b_rows b)] os)"
    using Suc.hyps(2) rest Suc.prems(3) i
    by (intro Suc.hyps(1) plain_merge_remove Suc.prems(1)) auto
  then obtain os where os: "kernel_rows ml target b (Suc i)
      (map (\<lambda>j. fst (kb j)) [Suc i ..< length (b_rows b)]) ?bf = Ok (bf\<lparr>rb_records := m, rb_stats := st\<rparr>, os)"
    "length os = length (b_rows b) - Suc i"
    "rs1 = List.map_filter (\<lambda>(j, o'). outcome_record (snd (kb j)) o') (zip [Suc i ..< length (b_rows b)] os)"
    by auto
  show ?case
    using o1 os rs i by (intro exI [of _ "o1 # os"])
      (auto simp: upt_conv_Cons map_filter_simps split: option.split)
qed

section \<open>Output rows\<close>

definition row_of :: "convert \<Rightarrow> Schema \<Rightarrow> BufferedRecord \<Rightarrow> row option" where
  "row_of conv s r = (case record_to_row conv s r of Inl _ \<Rightarrow> None | Inr x \<Rightarrow> x)"

lemma records_to_batch_iff:
  "records_to_batch conv s rs = Ok rows \<longleftrightarrow>
     (\<forall>r\<in>set rs. is_ok (record_to_row conv s r)) \<and> rows = List.map_filter (row_of conv s) rs"
proof (induction rs arbitrary: rows)
  case (Cons r rs)
  show ?case
  proof (cases "record_to_row conv s r")
    case (Inr x)
    then show ?thesis
      using Cons.IH
      by (cases x; cases "res_map (record_to_row conv s) rs")
        (auto simp: records_to_batch_def row_of_def map_filter_simps)
  qed (simp add: records_to_batch_def)
qed (auto simp: records_to_batch_def map_filter_def)

lemma mset_map_filter: "mset xs = mset ys \<Longrightarrow> mset (List.map_filter f xs) = mset (List.map_filter f ys)"
  by (simp add: map_filter_def mset_filter)

lemma records_to_batch_perm:
  assumes "records_to_batch conv s rs = Ok rows" "mset rs' = mset rs"
  shows "\<exists>rows'. records_to_batch conv s rs' = Ok rows' \<and> mset rows' = mset rows"
proof -
  have "set rs' = set rs" using assms(2) by (metis set_mset_mset)
  then show ?thesis
    using assms mset_map_filter [OF assms(2)] by (auto simp: records_to_batch_iff)
qed

lemma records_to_batch_append:
  "records_to_batch conv s (xs @ ys) = Ok rows \<longleftrightarrow>
     (\<exists>r1 r2. records_to_batch conv s xs = Ok r1 \<and> records_to_batch conv s ys = Ok r2 \<and> rows = r1 @ r2)"
  by (auto simp: records_to_batch_iff map_filter_def)

lemma record_to_row_base:
  "j < length (b_rows b) \<Longrightarrow> record_to_row conv s (new_batch_ref k b j ov) =
     res_bind (reconcile_to_schema conv s b) (\<lambda>rs. Ok (Some (rs ! j)))"
  by (cases "reconcile_to_schema conv s b")
    (auto simp: record_to_row_def new_batch_ref_def reconcile_to_schema_def Let_def res_map_Inr_iff
      dest: list_all2_lengthD split: if_splits)

lemma reconcile_row_nth:
  assumes "reconcile_to_schema conv s b = Ok rs" "j < length (b_rows b)"
  shows "(if b_schema b = s then Ok (zip (b_schema b) (b_rows b ! j))
      else reconcile_row conv s (zip (b_schema b) (b_rows b ! j))) = Ok (rs ! j)"
  using assms by (auto simp: reconcile_to_schema_def Let_def res_map_Inr_iff list_all2_conv_all_nth
      split: if_splits)

lemma length_reconcile: "reconcile_to_schema conv s b = Ok rs \<Longrightarrow> length rs = length (b_rows b)"
  by (auto simp: reconcile_to_schema_def Let_def res_map_Inr_iff dest: list_all2_lengthD split: if_splits)

lemma kept_rows_eq:
  "length os = length (b_rows b) \<Longrightarrow> kept_rows b os =
     map (\<lambda>(j, _). zip (b_schema b) (b_rows b ! j))
       (filter (\<lambda>(_, o'). o' = RowKept) (zip [0 ..< length (b_rows b)] os))"
proof -
  assume len: "length os = length (b_rows b)"
  have "zip (b_rows b) os = map (\<lambda>(j, o'). (b_rows b ! j, o')) (zip [0 ..< length (b_rows b)] os)"
    by (rule nth_equalityI) (use len in auto)
  then show ?thesis unfolding kept_rows_def by (simp add: filter_map comp_def case_prod_unfold)
qed

lemma outcome_split:
  "mset (List.map_filter (\<lambda>(j, o'). outcome_record (base j) o') xs) =
     mset (map (\<lambda>(j, _). base j) (filter (\<lambda>(_, o'). o' = RowKept) xs)) +
     mset (List.map_filter replacement_of (map snd xs))"
proof (induction xs)
  case (Cons x xs)
  obtain j o' where "x = (j, o')" by (cases x)
  then show ?case
    using Cons by (cases o') (simp_all add: map_filter_simps outcome_record_def replacement_of_def)
qed (simp add: map_filter_def)

lemma res_map_append:
  "res_map f (xs @ ys) = res_bind (res_map f xs) (\<lambda>a. res_bind (res_map f ys) (\<lambda>b. Ok (a @ b)))"
  by (induction xs) (auto simp: res_bind_def split: sum.splits)

lemma res_map_map_Ok:
  "(\<And>x. x \<in> set xs \<Longrightarrow> f (g x) = Ok (h x)) \<Longrightarrow> res_map f (map g xs) = Ok (map h xs)"
  by (induction xs) simp_all

lemma map_filter_all_Some:
  "(\<And>x. x \<in> set xs \<Longrightarrow> f (g x) = Some (h x)) \<Longrightarrow> List.map_filter f (map g xs) = map h xs"
  by (induction xs) (simp_all add: map_filter_simps)

text \<open>The kept rows come out as the row path's batch references.\<close>

lemma kept_rows_reconciled:
  assumes "length os = length (b_rows b)"
    and kept: "records_to_batch conv s (map (\<lambda>(j, _). base j)
      (filter (\<lambda>(_, o'). o' = RowKept) (zip [0 ..< length (b_rows b)] os))) = Ok rows"
    and base: "\<And>j. j < length (b_rows b) \<Longrightarrow> \<exists>k ov. base j = new_batch_ref k b j ov"
  shows "(if b_schema b = s then Ok (kept_rows b os) else res_map (reconcile_row conv s) (kept_rows b os)) = Ok rows"
proof -
  let ?js = "map fst (filter (\<lambda>(_, o'). o' = RowKept) (zip [0 ..< length (b_rows b)] os))"
  have js: "j < length (b_rows b)" if "j \<in> set ?js" for j
    using that by (auto dest: set_zip_leftD)
  have bases: "map (\<lambda>(j, _). base j) (filter (\<lambda>(_, o'). o' = RowKept)
      (zip [0 ..< length (b_rows b)] os)) = map base ?js" by (simp add: case_prod_beta comp_def)
  have kr: "kept_rows b os = map (\<lambda>j. zip (b_schema b) (b_rows b ! j)) ?js"
    using kept_rows_eq [OF assms(1)] by (simp add: case_prod_beta comp_def)
  show ?thesis
  proof (cases ?js)
    case Nil
    then have "rows = []" using kept by (simp add: bases records_to_batch_def map_filter_def)
    then show ?thesis using Nil by (simp add: kr)
  next
    case (Cons j0 js')
    have "is_ok (record_to_row conv s (base j0))"
      using kept Cons unfolding bases records_to_batch_iff by simp
    moreover have "j0 < length (b_rows b)" using js [of j0] Cons by simp
    ultimately obtain rs where rs: "reconcile_to_schema conv s b = Ok rs"
      using base [of j0] by (cases "reconcile_to_schema conv s b") (auto simp: record_to_row_base)
    have row: "row_of conv s (base j) = Some (rs ! j)" if "j \<in> set ?js" for j
      using base [OF js [OF that]] js [OF that] rs by (auto simp: row_of_def record_to_row_base)
    have "rows = map (\<lambda>j. rs ! j) ?js"
      using kept map_filter_all_Some [of ?js "row_of conv s" base "\<lambda>j. rs ! j", OF row]
      unfolding bases records_to_batch_iff by simp
    moreover have "zip (b_schema b) (b_rows b ! j) = rs ! j" if "b_schema b = s" "j \<in> set ?js" for j
      using reconcile_row_nth [OF rs js [OF that(2)]] that(1) by simp
    moreover have "res_map (reconcile_row conv s) (kept_rows b os) = Ok (map (\<lambda>j. rs ! j) ?js)"
      if "b_schema b \<noteq> s"
      unfolding kr using reconcile_row_nth [OF rs js] that by (intro res_map_map_Ok) simp
    ultimately show ?thesis by (auto simp: kr)
  qed
qed

lemma assemble_batch_refines:
  assumes len: "length os = length (b_rows b)"
    and rows: "records_to_batch conv s (List.map_filter (\<lambda>(j, o'). outcome_record (base j) o')
      (zip [0 ..< length (b_rows b)] os)) = Ok rows"
    and base: "\<And>j. j < length (b_rows b) \<Longrightarrow> \<exists>k ov. base j = new_batch_ref k b j ov"
  shows "\<exists>rows'. assemble_batch conv s b os = Ok rows' \<and> mset rows' = mset rows"
proof -
  let ?kept = "map (\<lambda>(j, _). base j) (filter (\<lambda>(_, o'). o' = RowKept) (zip [0 ..< length (b_rows b)] os))"
  let ?repl = "List.map_filter replacement_of os"
  have "mset (?kept @ ?repl) = mset (List.map_filter (\<lambda>(j, o'). outcome_record (base j) o')
      (zip [0 ..< length (b_rows b)] os))"
    using outcome_split [of base "zip [0 ..< length (b_rows b)] os"] len by simp
  from records_to_batch_perm [OF rows this] obtain k r where kr:
    "records_to_batch conv s ?kept = Ok k" "records_to_batch conv s ?repl = Ok r" "mset (k @ r) = mset rows"
    by (auto simp: records_to_batch_append)
  have kept: "(if b_schema b = s then Ok (kept_rows b os)
      else res_map (reconcile_row conv s) (kept_rows b os)) = Ok k"
    by (rule kept_rows_reconciled [OF len kr(1) base])
  show ?thesis
  proof (cases "list_all (\<lambda>o'. o' = RowKept) os \<and> ?repl = []")
    case True
    have "filter (\<lambda>(_, o'). o' = RowKept) (zip (b_rows b) os) = zip (b_rows b) os"
      by (rule filter_True) (use True in \<open>auto simp: list_all_iff dest: set_zip_rightD\<close>)
    then have "kept_rows b os = map (\<lambda>vs. zip (b_schema b) vs) (map fst (zip (b_rows b) os))"
      by (simp add: kept_rows_def case_prod_beta comp_def)
    then have "kept_rows b os = map (\<lambda>vs. zip (b_schema b) vs) (b_rows b)"
      using len by (simp only: map_fst_zip)
    then have "reconcile_to_schema conv s b = Ok k"
      using kept by (simp add: reconcile_to_schema_def Let_def split: if_splits)
    moreover have "r = []" using kr(2) True by (simp add: records_to_batch_def map_filter_def)
    ultimately show ?thesis using True kr(3) by (simp add: assemble_batch_def)
  next
    case False
    have "r = []" if "?repl = []" using kr(2) that by (simp add: records_to_batch_def map_filter_def)
    then show ?thesis
      using False kept kr by (auto simp: assemble_batch_def Let_def)
  qed
qed

text \<open>A batch merged by the kernel and row by row: the same records left, the same counts, the
  same rows.\<close>

lemma base_row_record_ref:
  "base_record_at rc bm b j = Ok kb \<Longrightarrow> \<exists>k ov. snd kb = new_batch_ref k b j ov"
  by (auto simp: base_record_at_def res_bind_Inr_iff Let_def) blast

lemma merge_rows_base_records:
  "merge_rows ml mg f xs m st = Ok r \<Longrightarrow> x \<in> set xs \<Longrightarrow> \<exists>kb. f x = Ok kb"
  by (induction ml mg f xs m st arbitrary: r rule: merge_rows.induct) (auto simp: res_bind_Inr_iff)

lemma kernel_refines_row_path:
  assumes "plain_merge target bf" "b_rows b \<noteq> []"
    and "merge_rows ml (rb_merger bf) (base_row_record (rb_record_context bf) bm) (rows_from b 0)
      (rb_records bf) (rb_stats bf) = Ok (rs, m, st)"
    and "records_to_batch (ml_convert ml) target rs = Ok rows"
  shows "\<exists>rows'. merge_one_base_batch_kernel ml b target bm bf =
      Ok (bf\<lparr>rb_records := m, rb_stats := st\<rparr>, Some rows') \<and> mset rows' = mset rows"
proof -
  have "\<exists>kb. base_record_at (rb_record_context bf) bm b j = Ok kb" if "j < length (b_rows b)" for j
    using merge_rows_base_records [OF assms(3), of "(b, j)"] that
    by (auto simp: rows_from_def base_row_record_def)
  then obtain kb where kb: "\<And>j. j < length (b_rows b) \<Longrightarrow>
      base_record_at (rb_record_context bf) bm b j = Ok (kb j)" by metis
  obtain os where os: "kernel_rows ml target b 0 (map (\<lambda>j. fst (kb j)) [0 ..< length (b_rows b)]) bf =
      Ok (bf\<lparr>rb_records := m, rb_stats := st\<rparr>, os)" "length os = length (b_rows b)"
    "rs = List.map_filter (\<lambda>(j, o'). outcome_record (snd (kb j)) o') (zip [0 ..< length (b_rows b)] os)"
    using kernel_rows_refine [OF assms(1,3) kb] by auto
  obtain rows' where "assemble_batch (ml_convert ml) target b os = Ok rows'" "mset rows' = mset rows"
    using assemble_batch_refines [OF os(2), of "ml_convert ml" target "\<lambda>j. snd (kb j)" rows]
      assms(4) base_row_record_ref [OF kb] unfolding os(3) by blast
  moreover have "base_lookup_keys (rb_record_context bf) bm b =
      Ok (map (\<lambda>j. fst (kb j)) [0 ..< length (b_rows b)])"
    by (rule base_lookup_keys_rows [OF assms(2) kb])
  ultimately show ?thesis
    using os(1) assms(2) by (simp add: merge_one_base_batch_kernel_def)
qed

end
