(* ===== verification/Merge_Stream.thy ===== *)
theory Merge_Stream
  imports Kernel_Refinement
begin

text \<open>
  The streaming merge of a file slice (\<open>file_group/reader_v2/merge_iterator.rs\<close>): a stream of
  chunks that pulls base batches and merges them until the base is exhausted, then drains the
  log-only inserts, and ends. \<open>collect_into_one_batch\<close> runs it to the end. The base batches
  are matched by record key or by position as the buffer says (\<open>BaseMatch\<close>); the output
  converter is a parameter.
\<close>

datatype BufferedState = BaseScanning | DrainingLogInserts

datatype MergeSource =
    Eager "batch result list"
  | Buffered RecordBuffer "batch result list option" Schema BufferedState

record MergeStream =
  ms_source :: MergeSource
  ms_output_converter :: "(row list \<Rightarrow> row list result) option"
  ms_done :: bool
  ms_stats :: UpdateStats

definition batch_rows :: "batch \<Rightarrow> row list" where
  "batch_rows b = map (\<lambda>vs. zip (b_schema b) vs) (b_rows b)"

definition new_eager :: "batch result list \<Rightarrow> (row list \<Rightarrow> row list result) option \<Rightarrow> MergeStream" where
  "new_eager src conv = \<lparr>ms_source = Eager src, ms_output_converter = conv, ms_done = False,
     ms_stats = no_stats\<rparr>"

definition new_buffered :: "RecordBuffer \<Rightarrow> batch result list \<Rightarrow> Schema \<Rightarrow>
    (row list \<Rightarrow> row list result) option \<Rightarrow> MergeStream" where
  "new_buffered bf src s conv = \<lparr>ms_source = Buffered bf (Some src) s BaseScanning,
     ms_output_converter = conv, ms_done = False, ms_stats = no_stats\<rparr>"

definition finish_chunk :: "MergeStream \<Rightarrow> row list \<Rightarrow> row list result" where
  "finish_chunk ms rows = (case ms_output_converter ms of None \<Rightarrow> Ok rows | Some f \<Rightarrow> f rows)"

text \<open>The scan of the base: empty batches and batches whose rows are all deleted are passed
  over; only the end of the source ends it.\<close>

fun scan_base :: "merge_lib \<Rightarrow> BaseMatch \<Rightarrow> Schema \<Rightarrow> batch result list \<Rightarrow> RecordBuffer \<Rightarrow>
    (RecordBuffer \<times> (row list \<times> batch result list) option) result" where
  "scan_base ml bm s [] bf = Ok (bf, None)"
| "scan_base ml bm s (Inl e # bs) bf = Err ReadFileSliceError"
| "scan_base ml bm s (Inr b # bs) bf =
     (if b_rows b = [] then scan_base ml bm s bs bf
      else res_bind (merge_one_base_batch_kernel ml b s bm bf) (\<lambda>(bf', out).
        case out of
          None \<Rightarrow> scan_base ml bm s bs bf'
        | Some rows \<Rightarrow> if rows = [] then scan_base ml bm s bs bf' else Ok (bf', Some (rows, bs))))"

definition drain_step :: "merge_lib \<Rightarrow> Schema \<Rightarrow> RecordBuffer \<Rightarrow> (MergeSource \<times> row list option) result" where
  "drain_step ml s bf = res_bind (drain_log_only_inserts ml s bf) (\<lambda>(bf', out).
     Ok (Buffered bf' None s DrainingLogInserts,
       case out of None \<Rightarrow> None | Some rows \<Rightarrow> if rows = [] then None else Some rows))"

fun next_buffered :: "merge_lib \<Rightarrow> BaseMatch \<Rightarrow> RecordBuffer \<Rightarrow> batch result list option \<Rightarrow> Schema \<Rightarrow>
    BufferedState \<Rightarrow> (MergeSource \<times> row list option) result" where
  "next_buffered ml bm bf src s DrainingLogInserts = drain_step ml s bf"
| "next_buffered ml bm bf None s BaseScanning = drain_step ml s bf"
| "next_buffered ml bm bf (Some bs) s BaseScanning =
     res_bind (scan_base ml bm s bs bf) (\<lambda>(bf', r). case r of
        Some (rows, bs') \<Rightarrow> Ok (Buffered bf' (Some bs') s BaseScanning, Some rows)
      | None \<Rightarrow> drain_step ml s bf')"

definition next_source :: "merge_lib \<Rightarrow> BaseMatch \<Rightarrow> MergeSource \<Rightarrow> (MergeSource \<times> row list option) result"
  where
  "next_source ml bm src = (case src of
      Eager [] \<Rightarrow> Ok (Eager [], None)
    | Eager (Inl e # bs) \<Rightarrow> Err e
    | Eager (Inr b # bs) \<Rightarrow> Ok (Eager bs, Some (batch_rows b))
    | Buffered bf bsrc s st \<Rightarrow> next_buffered ml bm bf bsrc s st)"

definition source_stats :: "MergeSource \<Rightarrow> UpdateStats \<Rightarrow> UpdateStats" where
  "source_stats src st = (case src of Eager _ \<Rightarrow> st | Buffered bf _ _ _ \<Rightarrow> rb_stats bf)"

text \<open>\<open>next_chunk\<close>: after an error or the end every later call returns nothing.\<close>

definition next_chunk :: "merge_lib \<Rightarrow> BaseMatch \<Rightarrow> MergeStream \<Rightarrow> MergeStream \<times> row list result option" where
  "next_chunk ml bm ms =
     (if ms_done ms then (ms, None)
      else case next_source ml bm (ms_source ms) of
        Inl e \<Rightarrow> (ms\<lparr>ms_done := True\<rparr>, Some (Err e))
      | Inr (src, None) \<Rightarrow> (ms\<lparr>ms_source := src, ms_done := True,
            ms_stats := source_stats src (ms_stats ms)\<rparr>, None)
      | Inr (src, Some rows) \<Rightarrow>
          (let out = finish_chunk ms rows in
           (ms\<lparr>ms_source := src, ms_done := \<not> is_ok out\<rparr>, Some out)))"

section \<open>Termination\<close>

definition drain_size :: "RecordBuffer \<Rightarrow> nat" where
  "drain_size bf = length (rb_records bf) +
     (case rb_log_drain_iter bf of None \<Rightarrow> 0 | Some rs \<Rightarrow> length rs)"

definition source_size :: "MergeSource \<Rightarrow> nat" where
  "source_size src = (case src of
      Eager bs \<Rightarrow> length bs
    | Buffered bf bs _ _ \<Rightarrow> (case bs of None \<Rightarrow> 0 | Some l \<Rightarrow> length l) + drain_size bf)"

definition only_removes :: "RecordBuffer \<Rightarrow> RecordBuffer \<Rightarrow> bool" where
  "only_removes bf bf' = (\<exists>m st. bf' = bf\<lparr>rb_records := m, rb_stats := st\<rparr> \<and> length m \<le> length (rb_records bf))"

lemma only_removes_refl: "only_removes bf bf"
  unfolding only_removes_def by (rule exI [of _ "rb_records bf"], rule exI [of _ "rb_stats bf"]) simp

lemma only_removes_trans: "only_removes a b \<Longrightarrow> only_removes b c \<Longrightarrow> only_removes a c"
  by (auto simp: only_removes_def) (metis le_trans)

lemma only_removes_size: "only_removes bf bf' \<Longrightarrow> drain_size bf' \<le> drain_size bf"
  by (auto simp: only_removes_def drain_size_def)

lemma kernel_conflict_removes:
  assumes "kernel_conflict ml s b i k l bf = Ok (bf', o1)"
  shows "\<exists>st. bf' = bf\<lparr>rb_stats := st\<rparr>"
  using assms
  by (auto simp: kernel_conflict_def Let_def res_bind_Inr_iff split: if_splits Winner.splits)

lemma kernel_row_removes: "kernel_row ml s b i k bf = Ok (bf', o1) \<Longrightarrow> only_removes bf bf'"
proof (cases "bm_get (rb_records bf) k")
  case None
  then show "kernel_row ml s b i k bf = Ok (bf', o1) \<Longrightarrow> ?thesis"
    using only_removes_refl by (simp add: kernel_row_def)
next
  case (Some l)
  assume "kernel_row ml s b i k bf = Ok (bf', o1)"
  then obtain st where "bf' = bf\<lparr>rb_records := bm_remove k (rb_records bf), rb_stats := st\<rparr>"
    using kernel_conflict_removes Some by (fastforce simp: kernel_row_def)
  then show ?thesis using length_bm_remove unfolding only_removes_def by blast
qed

lemma kernel_rows_removes: "kernel_rows ml s b i ks bf = Ok (bf', os) \<Longrightarrow> only_removes bf bf'"
proof (induction ks arbitrary: i bf os)
  case Nil
  then show ?case using only_removes_refl by simp
next
  case (Cons k ks)
  then obtain bf1 o1 os1 where "kernel_row ml s b i k bf = Ok (bf1, o1)"
    "kernel_rows ml s b (i + 1) ks bf1 = Ok (bf', os1)"
    by (auto simp: res_bind_Inr_iff)
  then show ?case using Cons.IH kernel_row_removes only_removes_trans by blast
qed

lemma kernel_removes: "merge_one_base_batch_kernel ml b s bm bf = Ok (bf', out) \<Longrightarrow> only_removes bf bf'"
  by (auto simp: merge_one_base_batch_kernel_def res_bind_Inr_iff only_removes_refl
      dest: kernel_rows_removes split: if_splits)

lemma scan_base_removes:
  "scan_base ml bm s bs bf = Ok (bf', r) \<Longrightarrow>
   only_removes bf bf' \<and> (\<forall>rows bs'. r = Some (rows, bs') \<longrightarrow> length bs' < length bs)"
proof (induction ml bm s bs bf arbitrary: bf' r rule: scan_base.induct)
  case (3 ml bm s b bs bf)
  show ?case
  proof (cases "b_rows b = []")
    case True
    then show ?thesis using 3 by fastforce
  next
    case False
    obtain bf1 out where k: "merge_one_base_batch_kernel ml b s bm bf = Ok (bf1, out)"
      using "3.prems" False by (auto simp: res_bind_Inr_iff)
    show ?thesis
    proof (cases "out = None \<or> out = Some []")
      case True
      then have "scan_base ml bm s bs bf1 = Ok (bf', r)" using "3.prems" False k by auto
      then show ?thesis
        using "3.IH"(2,3) False k True kernel_removes [OF k] only_removes_trans by fastforce
    next
      case False
      then show ?thesis using "3.prems" \<open>b_rows b \<noteq> []\<close> k kernel_removes [OF k] by auto
    qed
  qed
qed (simp_all add: only_removes_refl)

definition rest_items :: "BufferedRecord list option \<Rightarrow> BufferedRecord list" where
  "rest_items rest = (case rest of None \<Rightarrow> [] | Some rs \<Rightarrow> rs)"

lemma drain_chunk_length:
  "drain_chunk s n rs st = Ok (out, rest, st') \<Longrightarrow> length out + length (rest_items rest) \<le> length rs"
proof (induction s n rs st arbitrary: out rest st' rule: drain_chunk.induct)
  case (3 s n r rs st)
  show ?case
  proof (cases "br_is_delete r")
    case True
    then show ?thesis using 3 by (fastforce simp: Let_def)
  next
    case False
    then obtain r' out1 where "drain_record s r = Ok r'" "out = r' # out1"
      "drain_chunk s n rs (fst (process_update None r False st)) = Ok (out1, rest, st')"
      using "3.prems" by (auto simp: Let_def res_bind_Inr_iff)
    then show ?thesis using "3.IH"(2) [OF refl False] False by fastforce
  qed
qed (auto simp: rest_items_def)

lemma drain_log_decreases:
  assumes "drain_log_only_inserts ml s bf = Ok (bf', Some rows)"
  shows "drain_size bf' < drain_size bf"
proof -
  let ?bf1 = "drain_started bf"
  let ?dc = "drain_chunk s DEFAULT_BATCH_SIZE (the (rb_log_drain_iter ?bf1)) (rb_stats ?bf1)"
  have "\<not> (rb_log_drain_iter bf = None \<and> rb_records bf = [])"
  proof
    assume "rb_log_drain_iter bf = None \<and> rb_records bf = []"
    then have "drain_log_only_inserts ml s bf = Ok (bf, None)"
      unfolding drain_log_only_inserts_def by (rule if_P)
    then show False using assms by simp
  qed
  note d = assms [unfolded drain_log_only_inserts_def if_not_P [OF this] Let_def]
  obtain x where x: "?dc = Ok x" using d by (cases ?dc) simp_all
  obtain out rest st where o1: "x = (out, rest, st)" by (cases x)
  note e = d [unfolded x o1 res_bind_simps prod.case]
  have ne: "out \<noteq> []"
  proof
    assume "out = []"
    then show False using e by simp
  qed
  let ?g = "\<lambda>r. case rb_unavailable_value bf of None \<Rightarrow> Ok ()
     | Some sentinel \<Rightarrow> guard_no_unavailable_sentinel r sentinel (rc_record_key_fields (rb_record_context bf))"
  obtain r where r: "records_to_batch (ml_convert ml) s out = Ok r"
    using e unfolding if_not_P [OF ne] by (cases "records_to_batch (ml_convert ml) s out") simp_all
  obtain u where u: "?g r = Ok u"
    using e unfolding if_not_P [OF ne] r res_bind_simps by (cases "?g r") simp_all
  have "(?bf1\<lparr>rb_log_drain_iter := rest, rb_stats := st\<rparr>, if r = [] then None else Some r) = (bf', Some rows)"
    using e unfolding if_not_P [OF ne] r res_bind_simps u by (rule Inr_inject)
  then have bf': "bf' = ?bf1\<lparr>rb_log_drain_iter := rest, rb_stats := st\<rparr>"
    by (rule Pair_inject) (rule sym)
  have "length out + length (rest_items rest) \<le> length (the (rb_log_drain_iter ?bf1))"
    using drain_chunk_length x o1 by blast
  moreover have "drain_size bf = length (rb_records ?bf1) + length (the (rb_log_drain_iter ?bf1))"
    by (auto simp: drain_size_def drain_started_def split: option.split)
  moreover have "drain_size bf' = length (rb_records ?bf1) + length (rest_items rest)"
    by (auto simp: bf' drain_size_def rest_items_def split: option.split)
  moreover have "0 < length out" using ne by simp
  ultimately show ?thesis by linarith
qed

lemma drain_step_decreases:
  assumes "drain_step ml s bf = Ok (src, Some rows)"
  shows "source_size src < drain_size bf"
proof -
  obtain bf' out where d: "drain_log_only_inserts ml s bf = Ok (bf', out)"
    using assms by (cases "drain_log_only_inserts ml s bf") (auto simp: drain_step_def)
  have src: "src = Buffered bf' None s DrainingLogInserts" "out \<noteq> None"
    using assms d by (cases out; auto simp: drain_step_def)+
  then obtain r where "out = Some r" by blast
  then show ?thesis using drain_log_decreases d src by (simp add: source_size_def)
qed

lemma next_source_decreases:
  "next_source ml bm src = Ok (src', Some rows) \<Longrightarrow> source_size src' < source_size src"
proof (cases src)
  case (Buffered bf bs s st)
  assume n: "next_source ml bm src = Ok (src', Some rows)"
  have drain: "source_size src' < source_size src" if "drain_step ml s bf = Ok (src', Some rows)"
    using drain_step_decreases [OF that] Buffered by (simp add: source_size_def)
  show ?thesis
  proof (cases st)
    case DrainingLogInserts
    then show ?thesis using n Buffered drain by (simp add: next_source_def)
  next
    case BaseScanning
    show ?thesis
    proof (cases bs)
      case None
      then show ?thesis using n Buffered BaseScanning drain by (simp add: next_source_def)
    next
      case (Some l)
      obtain bf' r where sc: "scan_base ml bm s l bf = Ok (bf', r)"
        using n Buffered BaseScanning Some by (auto simp: next_source_def res_bind_Inr_iff)
      note rem = scan_base_removes [OF sc]
      note size = only_removes_size [OF conjunct1 [OF rem]]
      show ?thesis
      proof (cases r)
        case None
        then have "drain_step ml s bf' = Ok (src', Some rows)"
          using n Buffered BaseScanning Some sc by (simp add: next_source_def)
        then show ?thesis using drain_step_decreases size Buffered Some by (fastforce simp: source_size_def)
      next
        case (Some q)
        then show ?thesis
          using n Buffered BaseScanning \<open>bs = Some l\<close> sc rem size
          by (cases q) (auto simp: next_source_def source_size_def)
      qed
    qed
  qed
qed (auto simp: next_source_def source_size_def split: list.splits sum.splits)

text \<open>\<open>collect_into_one_batch\<close>, with the stream at its end for the counts.\<close>

function collect_chunks :: "merge_lib \<Rightarrow> BaseMatch \<Rightarrow> MergeStream \<Rightarrow> (MergeStream \<times> row list) result" where
  "collect_chunks ml bm ms = (case next_chunk ml bm ms of
      (ms', None) \<Rightarrow> Ok (ms', [])
    | (ms', Some (Inl e)) \<Rightarrow> Err e
    | (ms', Some (Inr rows)) \<Rightarrow> res_bind (collect_chunks ml bm ms') (\<lambda>(m, rs). Ok (m, rows @ rs)))"
  by pat_completeness auto
termination
proof (relation "measure (\<lambda>(ml, bm, ms). source_size (ms_source ms))", goal_cases)
  case (2 ml bm ms ms' x out rows)
  then have n: "next_chunk ml bm ms = (ms', Some (Ok rows))" by simp
  have nd: "\<not> ms_done ms" using n by (cases "ms_done ms") (simp_all add: next_chunk_def)
  show ?case
  proof (cases "next_source ml bm (ms_source ms)")
    case (Inl e)
    then show ?thesis using n nd by (simp add: next_chunk_def)
  next
    case (Inr p)
    obtain src o' where p: "p = (src, o')" by (cases p)
    show ?thesis
    proof (cases o')
      case None
      then show ?thesis using n nd Inr p by (simp add: next_chunk_def)
    next
      case (Some r)
      then have "ms_source ms' = src" using n nd Inr p by (auto simp: next_chunk_def Let_def)
      then show ?thesis using next_source_decreases Inr p Some by simp
    qed
  qed
qed simp

declare collect_chunks.simps [simp del]

section \<open>The drain, without partial updates\<close>

definition data_records :: "BufferedRecord list \<Rightarrow> BufferedRecord list" where
  "data_records rs = filter (\<lambda>r. \<not> br_is_delete r) rs"

lemma data_records_simps [simp]:
  "data_records [] = []" "data_records (r # rs) = (if br_is_delete r then data_records rs else r # data_records rs)"
  "data_records (xs @ ys) = data_records xs @ data_records ys"
  by (simp_all add: data_records_def)

lemma full_record_br: "full_record s r \<Longrightarrow> drain_record s r = Ok r"
  by (auto simp: full_record_def drain_record_def split: sum.splits option.splits)

lemma drain_chunk_plain:
  assumes "list_all (full_record s) rs"
  shows "\<exists>out rest st'. drain_chunk s n rs st = Ok (out, rest, st') \<and>
    data_records rs = out @ data_records (rest_items rest) \<and>
    drained_stats rs st = drained_stats (rest_items rest) st' \<and>
    set (rest_items rest) \<subseteq> set rs \<and> set out \<subseteq> set rs \<and> (out = [] \<longrightarrow> n > 0 \<longrightarrow> rest = None)"
  using assms
proof (induction s n rs st rule: drain_chunk.induct)
  case (3 s n r rs st)
  let ?st = "fst (process_update None r (br_is_delete r) st)"
  have st: "drained_stats (r # rs) st = drained_stats rs ?st"
    using process_update_log_only [of r st] by (subst drained_stats_Cons) simp
  show ?case
  proof (cases "br_is_delete r")
    case True
    then obtain out rest st' where "drain_chunk s (Suc n) rs ?st = Ok (out, rest, st')"
      "data_records rs = out @ data_records (rest_items rest)"
      "drained_stats rs ?st = drained_stats (rest_items rest) st'"
      "set (rest_items rest) \<subseteq> set rs" "set out \<subseteq> set rs" "out = [] \<longrightarrow> rest = None"
      using "3.IH"(1) "3.prems" by auto
    then show ?thesis using True st by (intro exI [of _ out] exI [of _ rest] exI [of _ st']) auto
  next
    case False
    obtain out rest st' where "drain_chunk s n rs ?st = Ok (out, rest, st')"
      "data_records rs = out @ data_records (rest_items rest)"
      "drained_stats rs ?st = drained_stats (rest_items rest) st'"
      "set (rest_items rest) \<subseteq> set rs" "set out \<subseteq> set rs"
      using "3.IH"(2) [OF refl False full_record_br] "3.prems" by auto
    then show ?thesis
      using False st full_record_br [of s r] "3.prems"
      by (intro exI [of _ "r # out"] exI [of _ rest] exI [of _ st']) (auto simp: Let_def)
  qed
qed (simp_all add: rest_items_def drained_stats_def)

lemma rows_of_data:
  assumes "records_to_batch conv s rs = Ok rows" "\<forall>r\<in>set rs. \<not> br_is_delete r"
  shows "length rows = length rs"
proof -
  have some: "\<exists>x. row_of conv s r = Some x" if "\<not> br_is_delete r" "is_ok (record_to_row conv s r)" for r
  proof (cases "br_payload r")
    case Delete
    then show ?thesis using that by (simp add: br_is_delete_def payload_is_delete_def)
  next
    case (Owned x)
    then show ?thesis using that
      by (cases "reconcile_owned conv s x") (simp_all add: row_of_def record_to_row_def)
  next
    case (BatchRef b i)
    then show ?thesis using that
      by (cases "reconcile_to_schema conv s b") (auto simp: row_of_def record_to_row_def is_ok_def split: if_splits)
  qed
  have "length (List.map_filter (row_of conv s) rs) = length rs"
    if "\<forall>r\<in>set rs. \<exists>x. row_of conv s r = Some x"
    using that by (induction rs) (auto simp: map_filter_simps)
  then show ?thesis using assms some by (auto simp: records_to_batch_iff)
qed

text \<open>The items still to drain.\<close>

definition drain_items :: "RecordBuffer \<Rightarrow> BufferedRecord list" where
  "drain_items bf = the (rb_log_drain_iter (drain_started bf))"

definition drain_ready :: "Schema \<Rightarrow> RecordBuffer \<Rightarrow> bool" where
  "drain_ready s bf = (rb_unavailable_value bf = None \<and> list_all (full_record s) (drain_items bf) \<and>
     (rb_log_drain_iter bf \<noteq> None \<longrightarrow> rb_records bf = []))"

lemma drain_step_plain:
  assumes "drain_ready s bf" "records_to_batch (ml_convert ml) s (data_records (drain_items bf)) = Ok rows"
  shows "\<exists>bf' r1 r2. rows = r1 @ r2 \<and> drain_ready s bf' \<and>
    drain_step ml s bf = Ok (Buffered bf' None s DrainingLogInserts, if r1 = [] then None else Some r1) \<and>
    (r1 = [] \<longrightarrow> r2 = [] \<and> rb_stats bf' = drained_stats (drain_items bf) (rb_stats bf)) \<and>
    drained_stats (drain_items bf') (rb_stats bf') = drained_stats (drain_items bf) (rb_stats bf) \<and>
    records_to_batch (ml_convert ml) s (data_records (drain_items bf')) = Ok r2"
proof (cases "rb_log_drain_iter bf = None \<and> rb_records bf = []")
  case True
  then have i: "drain_items bf = []" by (simp add: drain_items_def drain_started_def)
  then have "rows = []" using assms(2) by (simp add: records_to_batch_def map_filter_def)
  moreover have "drain_log_only_inserts ml s bf = Ok (bf, None)"
    unfolding drain_log_only_inserts_def by (rule if_P [OF True])
  ultimately show ?thesis
    using assms i by (intro exI [of _ bf] exI [of _ "[]"]) (simp add: drain_step_def drained_stats_def)
next
  case False
  let ?bf1 = "drain_started bf"
  have it: "the (rb_log_drain_iter ?bf1) = drain_items bf" "rb_stats ?bf1 = rb_stats bf"
    "rb_records ?bf1 = []" "rb_unavailable_value ?bf1 = None"
    using assms(1) by (auto simp: drain_items_def drain_started_def drain_ready_def split: option.split)
  have full: "list_all (full_record s) (drain_items bf)" "rb_unavailable_value bf = None"
    using assms(1) by (simp_all add: drain_ready_def)
  obtain out rest st where c: "drain_chunk s DEFAULT_BATCH_SIZE (drain_items bf) (rb_stats bf) = Ok (out, rest, st)"
    "data_records (drain_items bf) = out @ data_records (rest_items rest)"
    "drained_stats (drain_items bf) (rb_stats bf) = drained_stats (rest_items rest) st"
    "set (rest_items rest) \<subseteq> set (drain_items bf)" "set out \<subseteq> set (drain_items bf)"
    "out = [] \<longrightarrow> rest = None"
    using drain_chunk_plain [OF full(1), of DEFAULT_BATCH_SIZE "rb_stats bf"]
    by (auto simp: DEFAULT_BATCH_SIZE_def)
  let ?bf2 = "?bf1\<lparr>rb_log_drain_iter := rest, rb_stats := st\<rparr>"
  obtain r1 r2 where r: "records_to_batch (ml_convert ml) s out = Ok r1" "rows = r1 @ r2"
    "records_to_batch (ml_convert ml) s (data_records (rest_items rest)) = Ok r2"
    using assms(2) unfolding c(2) records_to_batch_append by blast
  have items: "drain_items ?bf2 = rest_items rest"
    using it(3) by (simp add: drain_items_def rest_items_def drain_started_def split: option.split)
  have ready: "drain_ready s ?bf2"
    unfolding drain_ready_def items using it full c(4) by (auto simp: list_all_iff)
  have "\<forall>x\<in>set out. \<not> br_is_delete x"
  proof
    fix x assume "x \<in> set out"
    then have "x \<in> set (data_records (drain_items bf))" unfolding c(2) by simp
    then show "\<not> br_is_delete x" by (simp add: data_records_def)
  qed
  then have len: "length r1 = length out" by (rule rows_of_data [OF r(1)])
  have out: "drain_log_only_inserts ml s bf = Ok (?bf2, if r1 = [] then None else Some r1)"
    unfolding drain_log_only_inserts_def if_not_P [OF False] Let_def it(1,2) c(1)
    using len r(1) full(2) by auto
  have last: "r2 = []" "rb_stats ?bf2 = drained_stats (drain_items bf) (rb_stats bf)" if "r1 = []"
  proof -
    have "rest = None" using that len c(6) by simp
    then show "r2 = []" "rb_stats ?bf2 = drained_stats (drain_items bf) (rb_stats bf)"
      using r(3) c(3) by (simp_all add: rest_items_def records_to_batch_def map_filter_def drained_stats_def)
  qed
  have step: "drain_step ml s bf = Ok (Buffered ?bf2 None s DrainingLogInserts, if r1 = [] then None else Some r1)"
    unfolding drain_step_def out by simp
  show ?thesis
    using r(2,3) ready step last c(3) items by (intro exI [of _ ?bf2] exI [of _ r1] exI [of _ r2]) simp
qed

lemma next_chunk_emit:
  "\<not> ms_done ms \<Longrightarrow> ms_output_converter ms = None \<Longrightarrow>
   next_source ml bm (ms_source ms) = Ok (src, Some rows) \<Longrightarrow>
   next_chunk ml bm ms = (ms\<lparr>ms_source := src, ms_done := False\<rparr>, Some (Ok rows))"
  by (simp add: next_chunk_def finish_chunk_def Let_def)

lemma next_chunk_end:
  "\<not> ms_done ms \<Longrightarrow> next_source ml bm (ms_source ms) = Ok (src, None) \<Longrightarrow>
   next_chunk ml bm ms = (ms\<lparr>ms_source := src, ms_done := True,
     ms_stats := source_stats src (ms_stats ms)\<rparr>, None)"
  by (simp add: next_chunk_def)

lemma collect_drain:
  assumes "\<not> ms_done ms" "ms_output_converter ms = None"
    and "next_source ml bm (ms_source ms) = drain_step ml s bf" "drain_ready s bf"
    and "records_to_batch (ml_convert ml) s (data_records (drain_items bf)) = Ok rows"
  shows "\<exists>ms'. collect_chunks ml bm ms = Ok (ms', rows) \<and>
    ms_stats ms' = drained_stats (drain_items bf) (rb_stats bf)"
  using assms
proof (induction "length rows" arbitrary: ms bf rows rule: less_induct)
  case less
  obtain bf' r1 r2 where d: "rows = r1 @ r2" "drain_ready s bf'"
    "drain_step ml s bf = Ok (Buffered bf' None s DrainingLogInserts, if r1 = [] then None else Some r1)"
    "r1 = [] \<longrightarrow> r2 = [] \<and> rb_stats bf' = drained_stats (drain_items bf) (rb_stats bf)"
    "drained_stats (drain_items bf') (rb_stats bf') = drained_stats (drain_items bf) (rb_stats bf)"
    "records_to_batch (ml_convert ml) s (data_records (drain_items bf')) = Ok r2"
    using drain_step_plain [OF less.prems(4,5)] by blast
  let ?src = "Buffered bf' None s DrainingLogInserts"
  show ?case
  proof (cases "r1 = []")
    case True
    then have "next_source ml bm (ms_source ms) = Ok (?src, None)" using less.prems(3) d(3) by simp
    then show ?thesis
      using next_chunk_end [OF less.prems(1)] d(1,4) True
      by (simp add: collect_chunks.simps [of ml bm ms] source_stats_def)
  next
    case False
    let ?ms = "ms\<lparr>ms_source := ?src, ms_done := False\<rparr>"
    have "next_source ml bm (ms_source ms) = Ok (?src, Some r1)" using less.prems(3) d(3) False by simp
    then have n: "next_chunk ml bm ms = (?ms, Some (Ok r1))" by (rule next_chunk_emit [OF less.prems(1,2)])
    have "length r2 < length rows" using False d(1) by simp
    from less.hyps [OF this, of ?ms bf'] obtain ms' where "collect_chunks ml bm ?ms = Ok (ms', r2)"
      "ms_stats ms' = drained_stats (drain_items bf') (rb_stats bf')"
      using less.prems(2) d(2,6) by (auto simp: next_source_def)
    then show ?thesis using d(1,5) n by (simp add: collect_chunks.simps [of ml bm ms])
  qed
qed

section \<open>The scan, without partial updates\<close>

lemma merge_rows_append:
  "merge_rows ml mg f (xs @ ys) m st = res_bind (merge_rows ml mg f xs m st) (\<lambda>(r1, m1, st1).
     res_bind (merge_rows ml mg f ys m1 st1) (\<lambda>(r2, m2, st2). Ok (r1 @ r2, m2, st2)))"
proof (induction xs arbitrary: m st)
  case Nil
  show ?case by (cases "merge_rows ml mg f ys m st") auto
next
  case (Cons x xs)
  show ?case
  proof (cases "f x")
    case (Inr kb)
    obtain k base where kb: "kb = (k, base)" by (cases kb)
    show ?thesis
    proof (cases "merge_outcome ml mg base (bm_get m k) st")
      case (Inr os)
      obtain out st1 where os: "os = (out, st1)" by (cases os)
      show ?thesis
      proof (cases "merge_rows ml mg f xs (bm_remove k m) st1")
        case (Inr r)
        obtain r1 m1 st2 where r: "r = (r1, m1, st2)" by (cases r)
        show ?thesis
          using \<open>f x = Inr kb\<close> kb \<open>merge_outcome _ _ _ _ _ = Inr os\<close> os Inr r
          by (cases "merge_rows ml mg f ys m1 st2") (auto simp: Cons.IH split: option.split)
      qed (use \<open>f x = Inr kb\<close> kb Inr os in \<open>simp add: Cons.IH\<close>)
    qed (use Inr kb in simp)
  qed simp
qed

lemma merge_rows_subset: "merge_rows ml mg f xs m st = Ok (rs, m', st') \<Longrightarrow> set m' \<subseteq> set m"
proof (induction xs arbitrary: m st rs)
  case (Cons x xs)
  then obtain k base out st1 rs1 where "merge_rows ml mg f xs (bm_remove k m) st1 = Ok (rs1, m', st')"
    by (auto simp: res_bind_Inr_iff)
  then have "set m' \<subseteq> set (bm_remove k m)" by (rule Cons.IH)
  then show ?case by (auto simp: bm_remove_def)
qed simp

lemma plain_merge_subset: "plain_merge s bf \<Longrightarrow> set m \<subseteq> set (rb_records bf) \<Longrightarrow>
    plain_merge s (bf\<lparr>rb_records := m, rb_stats := st\<rparr>)"
  by (auto simp: plain_merge_def list_all_iff)

abbreviation merge_rows_of where
  "merge_rows_of ml bm bf \<equiv> merge_rows ml (rb_merger bf) (base_row_record (rb_record_context bf) bm)"

definition scan_result :: "merge_lib \<Rightarrow> BaseMatch \<Rightarrow> Schema \<Rightarrow> RecordBuffer \<Rightarrow> record_map \<Rightarrow> UpdateStats \<Rightarrow>
    row list \<Rightarrow> (RecordBuffer \<times> (row list \<times> batch result list) option) \<Rightarrow> bool" where
  "scan_result ml bm s bf m st rows r =
     (case r of
        (bf', None) \<Rightarrow> bf' = bf\<lparr>rb_records := m, rb_stats := st\<rparr> \<and> rows = []
      | (bf', Some (r1, bs)) \<Rightarrow> (\<exists>m1 st1 ys rs2 rows2. bf' = bf\<lparr>rb_records := m1, rb_stats := st1\<rparr> \<and>
          set m1 \<subseteq> set (rb_records bf) \<and> stream_pending bs = Some ys \<and>
          merge_rows_of ml bm bf ys m1 st1 = Ok (rs2, m, st) \<and>
          records_to_batch (ml_convert ml) s rs2 = Ok rows2 \<and> mset rows = mset (r1 @ rows2)))"

lemma scan_base_plain:
  assumes "plain_merge s bf" "stream_pending bs = Some xs"
    and "merge_rows_of ml bm bf xs (rb_records bf) (rb_stats bf) = Ok (rs, m, st)"
    and "records_to_batch (ml_convert ml) s rs = Ok rows"
  shows "\<exists>r. scan_base ml bm s bs bf = Ok r \<and> scan_result ml bm s bf m st rows r"
  using assms
proof (induction bs arbitrary: bf xs rs rows rule: stream_pending.induct)
  case 1
  then show ?case by (auto simp: scan_result_def records_to_batch_def map_filter_def)
next
  case (3 b bs)
  obtain ys where ys: "stream_pending bs = Some ys" "xs = rows_from b 0 @ ys" using "3.prems"(2) by auto
  obtain rs1 m1 st1 rs2 where m: "merge_rows_of ml bm bf (rows_from b 0) (rb_records bf) (rb_stats bf)
      = Ok (rs1, m1, st1)" "merge_rows_of ml bm bf ys m1 st1 = Ok (rs2, m, st)" "rs = rs1 @ rs2"
    using "3.prems"(3) unfolding ys(2) merge_rows_append by (auto simp: res_bind_Inr_iff)
  obtain rows1 rows2 where r: "records_to_batch (ml_convert ml) s rs1 = Ok rows1"
    "records_to_batch (ml_convert ml) s rs2 = Ok rows2" "rows = rows1 @ rows2"
    using "3.prems"(4) unfolding m(3) records_to_batch_append by blast
  have sub: "set m1 \<subseteq> set (rb_records bf)" by (rule merge_rows_subset [OF m(1)])
  let ?bf1 = "bf\<lparr>rb_records := m1, rb_stats := st1\<rparr>"
  have IH: "\<exists>r. scan_base ml bm s bs ?bf1 = Ok r \<and> scan_result ml bm s ?bf1 m st rows2 r"
    using ys(1) m(2) r(2) by (intro "3.IH" plain_merge_subset "3.prems"(1) sub) simp_all
  have lift: "scan_result ml bm s bf m st rows q" if "scan_result ml bm s ?bf1 m st rows2 q" "rows1 = []" for q
    using that sub r(3) by (fastforce simp: scan_result_def split: prod.splits option.splits)
  show ?case
  proof (cases "b_rows b = []")
    case True
    then have nil: "rows_from b 0 = []" by simp
    have "rs1 = []" "m1 = rb_records bf" "st1 = rb_stats bf" using m(1) unfolding nil by simp_all
    then have "?bf1 = bf" "rows1 = []" using r(1) by (simp_all add: records_to_batch_def map_filter_def)
    then show ?thesis using IH True lift by auto
  next
    case False
    obtain rows' where k: "merge_one_base_batch_kernel ml b s bm bf = Ok (?bf1, Some rows')" "mset rows' = mset rows1"
      using kernel_refines_row_path [OF "3.prems"(1) False m(1) r(1)] by blast
    show ?thesis
    proof (cases "rows' = []")
      case True
      then show ?thesis using IH lift k False by auto
    next
      case nonempty: False
      have "scan_result ml bm s bf m st rows (?bf1, Some (rows', bs))"
        unfolding scan_result_def prod.case option.case using sub ys(1) m(2) r(2,3) k(2) by (intro exI conjI) auto
      then show ?thesis using False nonempty k(1) by auto
    qed
  qed
qed simp

lemma drain_ready_plain:
  assumes "plain_merge s bf" "rb_log_drain_iter bf = None"
  shows "drain_ready s bf" "drain_items bf = map snd (rb_records bf)"
  using assms by (auto simp: drain_ready_def drain_items_def drain_started_def plain_merge_def list_all_iff)

lemma collect_scan:
  assumes "\<not> ms_done ms" "ms_output_converter ms = None" "ms_source ms = Buffered bf (Some bs) s BaseScanning"
    and "plain_merge s bf" "rb_log_drain_iter bf = None" "stream_pending bs = Some xs"
    and "merge_rows_of ml bm bf xs (rb_records bf) (rb_stats bf) = Ok (rs, m, st)"
    and "records_to_batch (ml_convert ml) s rs = Ok rows1"
    and "records_to_batch (ml_convert ml) s (data_records (map snd m)) = Ok rows2"
  shows "\<exists>ms' rows'. collect_chunks ml bm ms = Ok (ms', rows') \<and> mset rows' = mset (rows1 @ rows2) \<and>
    ms_stats ms' = drained_stats (map snd m) st"
  using assms
proof (induction "length bs" arbitrary: ms bf bs xs rs rows1 rule: less_induct)
  case less
  obtain r where r: "scan_base ml bm s bs bf = Ok r" "scan_result ml bm s bf m st rows1 r"
    using scan_base_plain [OF less.prems(4,6,7,8)] by blast
  obtain bf' out where bf': "r = (bf', out)" by (cases r)
  show ?case
  proof (cases out)
    case None
    have e: "bf' = bf\<lparr>rb_records := m, rb_stats := st\<rparr>" "rows1 = []"
      using r(2) by (simp_all add: scan_result_def bf' None)
    have "set m \<subseteq> set (rb_records bf)" by (rule merge_rows_subset [OF less.prems(7)])
    then have p: "plain_merge s bf'" "rb_log_drain_iter bf' = None"
      unfolding e using plain_merge_subset less.prems(4,5) by auto
    have "next_source ml bm (ms_source ms) = drain_step ml s bf'"
      using less.prems(3) r(1) bf' None by (simp add: next_source_def)
    then obtain ms' where "collect_chunks ml bm ms = Ok (ms', rows2)"
      "ms_stats ms' = drained_stats (map snd m) st"
      using collect_drain [OF less.prems(1,2), of ml bm s bf' rows2] drain_ready_plain [OF p]
        less.prems(9) e by auto
    then show ?thesis using e by auto
  next
    case (Some q)
    obtain c bs' where q: "q = (c, bs')" by (cases q)
    obtain m1 st1 ys rs2 rows3 where s1: "bf' = bf\<lparr>rb_records := m1, rb_stats := st1\<rparr>"
      "set m1 \<subseteq> set (rb_records bf)" "stream_pending bs' = Some ys"
      "merge_rows_of ml bm bf ys m1 st1 = Ok (rs2, m, st)"
      "records_to_batch (ml_convert ml) s rs2 = Ok rows3" "mset rows1 = mset (c @ rows3)"
      using r(2) by (auto simp: scan_result_def bf' Some q)
    let ?ms = "ms\<lparr>ms_source := Buffered bf' (Some bs') s BaseScanning, ms_done := False\<rparr>"
    have n: "next_chunk ml bm ms = (?ms, Some (Ok c))"
      by (rule next_chunk_emit [OF less.prems(1,2)])
        (use less.prems(3) r(1) bf' Some q in \<open>simp add: next_source_def\<close>)
    have "length bs' < length bs" using scan_base_removes [of ml bm s bs bf bf' out] r(1) bf' Some q by auto
    from less.hyps [OF this, of ?ms bf' ys rs2 rows3] obtain ms' rows' where
      "collect_chunks ml bm ?ms = Ok (ms', rows')" "mset rows' = mset (rows3 @ rows2)"
      "ms_stats ms' = drained_stats (map snd m) st"
      using less.prems(2,5,9) s1 plain_merge_subset [OF less.prems(4) s1(2), of st1] by auto
    then show ?thesis using n s1(6) by (simp add: collect_chunks.simps [of ml bm ms])
  qed
qed

text \<open>C10: streaming a file slice batch by batch and reading it record by record give the same
  rows and the same counts of inserts, updates and deletes: without partial updates, whenever
  the record-by-record read succeeds, the stream of merged chunks runs to its end and yields
  those rows, in some order.\<close>

theorem stream_agrees_with_row_path:
  assumes "merge_and_collect_with_stats ml bm bf = Ok (rows, st)"
    and "rb_reader_schema bf = Some s" "rb_base_file_source bf = Some (sch, bs)" "stream_pending bs = Some xs"
    and "rb_current_base_batch bf = None" "rb_next_record bf = None" "rb_log_record_iter bf = None"
    and "rb_log_drain_iter bf = None" "plain_merge s bf"
  shows "\<exists>ms rows'. collect_chunks ml bm (new_buffered bf bs s None) = Ok (ms, rows') \<and>
    mset rows' = mset rows \<and> ms_stats ms = st"
proof -
  have pend: "pending_rows bf = Some xs" using assms(3-5) by (simp add: pending_rows_def)
  obtain bf' rs where c: "collect_records ml bm bf = Ok (bf', rs)"
    "records_to_batch (ml_convert ml) s rs = Ok rows" "st = rb_stats bf'"
    using assms(1,2) by (auto simp: merge_and_collect_with_stats_def output_schema_def res_bind_Inr_iff)
  obtain rs1 m st1 where m: "merge_rows_of ml bm bf xs (rb_records bf) (rb_stats bf) = Ok (rs1, m, st1)"
    "rs = rs1 @ data_records (map snd m)" "rb_stats bf' = drained_stats (map snd m) st1"
    using collect_records_Ok [OF c(1) pend assms(6,7)] unfolding data_records_def by metis
  obtain r1 r2 where r: "records_to_batch (ml_convert ml) s rs1 = Ok r1"
    "records_to_batch (ml_convert ml) s (data_records (map snd m)) = Ok r2" "rows = r1 @ r2"
    using c(2) unfolding m(2) records_to_batch_append by blast
  show ?thesis
    using collect_scan [of "new_buffered bf bs s None" bf bs s xs ml bm rs1 m st1 r1 r2]
      assms(4,8,9) m(1,3) r c(3) by (auto simp: new_buffered_def)
qed

theorem stream_agrees_with_row_path_witness:
  "\<exists>ms rows'. collect_chunks sample_lib RecordKey (new_buffered sample_buffer [Ok sample_base] sample_schema None)
     = Ok (ms, rows') \<and> mset rows' = mset [sample_row ''a'' 2, sample_row ''c'' 4]"
proof -
  obtain st where c: "merge_and_collect_with_stats sample_lib RecordKey sample_buffer =
      Ok ([sample_row ''a'' 2, sample_row ''c'' 4], st)"
    using sample_collected by blast
  have "plain_merge sample_schema sample_buffer"
    by (simp add: plain_merge_def merger_of_mode_def full_record_def schema_is_partial_def
        sample_row_def sample_schema_def row_schema_def has_field_def)
  then show ?thesis
    using stream_agrees_with_row_path [OF c, of sample_schema sample_schema "[Ok sample_base]"
        "[(sample_base, 0), (sample_base, 1)]"] sample_rows_from by auto
qed

end
