(* ===== verification/Buffer_Slots.thy ===== *)
theory Buffer_Slots
  imports Merge_Buffer
begin

text \<open>
  What the record buffer holds after the log has been folded: the slot of a key is the merge of
  the versions of that key, oldest first, independently of the other keys, so the guarantees of
  the mergers (\<open>choosing_merger\<close>) carry over to the buffer.
\<close>

section \<open>Entries of the log\<close>

definition process_entry :: "merge_lib \<Rightarrow> RecordBuffer \<Rightarrow> string \<times> LogEntry \<Rightarrow> RecordBuffer result" where
  "process_entry ml bf x = (case snd x of
      DataEntry r \<Rightarrow> process_next_data_record ml r (fst x) bf
    | DeleteEntry d \<Rightarrow> process_next_deleted_record d (fst x) bf)"

text \<open>The entries of a data or delete block.\<close>

definition data_block_entries :: "RecordContext \<Rightarrow> DeleteContext option \<Rightarrow> batch list \<Rightarrow>
    (string \<times> LogEntry) list result" where
  "data_block_entries rc dc ds = res_bind (res_map (\<lambda>b. batch_to_buffered_records rc b dc) ds)
     (\<lambda>rss. Ok (map (\<lambda>(k, r). (k, DataEntry r)) (concat rss)))"

definition delete_block_entries :: "DeleteBatch list \<Rightarrow> (string \<times> LogEntry) list result" where
  "delete_block_entries dbs = res_bind (res_map delete_batch_to_keys_with_ordering dbs)
     (\<lambda>ess. Ok (map (\<lambda>(k, ov). (k, DeleteEntry \<lparr>dr_record_key = k, dr_ordering_value = ov\<rparr>)) (concat ess)))"

text \<open>Everything but the records and the counters is fixed while the log is folded.\<close>

definition same_setting :: "RecordBuffer \<Rightarrow> RecordBuffer \<Rightarrow> bool" where
  "same_setting bf bf' = (bf'\<lparr>rb_records := rb_records bf,
     rb_total_log_records := rb_total_log_records bf,
     rb_merge_map_peak_entries := rb_merge_map_peak_entries bf\<rparr> = bf)"

lemma merge_entry_simps:
  "merge_entry cmpv m (DataEntry r) = delta_merge cmpv m r"
  "merge_entry cmpv m (DeleteEntry d) =
     (\<lambda>existing. Ok (map_option from_delete_record (delta_merge_delete m d existing)))"
  by (simp_all add: merge_entry_def fun_eq_iff)

lemma same_setting_refl: "same_setting bf bf"
  by (simp add: same_setting_def)

lemma same_settingD:
  assumes "same_setting bf bf'"
  shows "rb_merger bf' = rb_merger bf" "rb_merge_mode bf' = rb_merge_mode bf"
    "rb_record_context bf' = rb_record_context bf" "rb_delete_context bf' = rb_delete_context bf"
    "rb_reader_schema bf' = rb_reader_schema bf" "rb_unavailable_value bf' = rb_unavailable_value bf"
    "rb_ignore_defaults bf' = rb_ignore_defaults bf" "rb_stats bf' = rb_stats bf"
  using assms by (cases bf, cases bf', simp add: same_setting_def)+

lemma same_setting_trans: "same_setting a b \<Longrightarrow> same_setting b c \<Longrightarrow> same_setting a c"
  by (cases a, cases b, cases c) (simp add: same_setting_def)

lemma process_entry_setting: "process_entry ml bf x = Ok bf' \<Longrightarrow> same_setting bf bf'"
  by (cases "snd x")
    (auto simp: process_entry_def process_next_data_record_def process_next_deleted_record_def
      same_setting_def res_bind_Inr_iff)

lemma process_entries_setting: "res_fold (process_entry ml) bf es = Ok bf' \<Longrightarrow> same_setting bf bf'"
proof (induction es arbitrary: bf)
  case (Cons e es)
  then obtain bf1 where "process_entry ml bf e = Ok bf1" "res_fold (process_entry ml) bf1 es = Ok bf'"
    by (auto simp: res_bind_Inr_iff)
  then show ?case using Cons.IH process_entry_setting same_setting_trans by blast
qed (simp add: same_setting_refl)

section \<open>Slots\<close>

definition plain_entries :: "RecordBuffer \<Rightarrow> (string \<times> LogEntry) list \<Rightarrow> bool" where
  "plain_entries bf es = (rb_unavailable_value bf = None \<and> \<not> rb_ignore_defaults bf \<and>
     (\<forall>k r. (k, DataEntry r) \<in> set es \<longrightarrow> incoming_is_partial bf r = Ok False))"

lemma incoming_is_partial_setting: "same_setting bf bf' \<Longrightarrow> incoming_is_partial bf' r = incoming_is_partial bf r"
  using same_settingD(5) [of bf bf'] by (simp add: incoming_is_partial_def)

lemma merge_in_place_slot:
  assumes "merge_in_place k f m = Ok m'" "bm_ok m"
  shows "bm_ok m'" "\<exists>r. f (bm_get m k) = Ok r \<and>
    bm_get m' k' = (if k' = k then (case r of None \<Rightarrow> bm_get m k | Some x \<Rightarrow> Some x) else bm_get m k')"
proof -
  obtain r where r: "f (bm_get m k) = Ok r" "m' = (case r of None \<Rightarrow> m | Some x \<Rightarrow> bm_insert k x m)"
    using assms(1) by (auto simp: merge_in_place_def res_bind_Inr_iff)
  show "bm_ok m'" using assms(2) r(2) by (cases r) simp_all
  show "\<exists>r. f (bm_get m k) = Ok r \<and>
    bm_get m' k' = (if k' = k then (case r of None \<Rightarrow> bm_get m k | Some x \<Rightarrow> Some x) else bm_get m k')"
    using assms(2) r by (intro exI [of _ r]) (cases r; simp)
qed

lemma process_entry_slot:
  assumes "process_entry ml bf (k, e) = Ok bf'" "plain_entries bf [(k, e)]" "bm_ok (rb_records bf)"
  shows "bm_ok (rb_records bf')"
    "bm_get (rb_records bf') k' = (if k' = k
       then (case slot_step (merge_entry (ml_compare ml) (rb_merger bf)) (bm_get (rb_records bf) k) e of
          Inl _ \<Rightarrow> None | Inr s \<Rightarrow> s) else bm_get (rb_records bf) k')"
    "\<exists>s. slot_step (merge_entry (ml_compare ml) (rb_merger bf)) (bm_get (rb_records bf) k) e = Ok s"
proof -
  have "merge_in_place k (merge_entry (ml_compare ml) (rb_merger bf) e) (rb_records bf) = Ok (rb_records bf')"
  proof (cases e)
    case (DataEntry r)
    have "incoming_is_partial bf r = Ok False" "rb_unavailable_value bf = None" "\<not> rb_ignore_defaults bf"
      using assms(2) DataEntry by (auto simp: plain_entries_def)
    then show ?thesis
      using assms(1) DataEntry by (auto simp: process_entry_def process_next_data_record_def
          merge_data_record_def merge_entry_simps res_bind_Inr_iff)
  next
    case (DeleteEntry d)
    then show ?thesis using assms(1)
      by (auto simp: process_entry_def process_next_deleted_record_def merge_entry_simps res_bind_Inr_iff)
  qed
  note slot = merge_in_place_slot [OF this assms(3)]
  show "bm_ok (rb_records bf')" by (rule slot(1))
  obtain r where r: "merge_entry (ml_compare ml) (rb_merger bf) e (bm_get (rb_records bf) k) = Ok r"
    using slot(2) by blast
  then show "\<exists>s. slot_step (merge_entry (ml_compare ml) (rb_merger bf)) (bm_get (rb_records bf) k) e = Ok s"
    by (simp add: slot_step_def)
  show "bm_get (rb_records bf') k' = (if k' = k
       then (case slot_step (merge_entry (ml_compare ml) (rb_merger bf)) (bm_get (rb_records bf) k) e of
          Inl _ \<Rightarrow> None | Inr s \<Rightarrow> s) else bm_get (rb_records bf) k')"
    using slot(2) [of k'] r by (auto simp: slot_step_def split: option.splits)
qed

lemma process_entries_slot:
  assumes "res_fold (process_entry ml) bf es = Ok bf'" "plain_entries bf es" "bm_ok (rb_records bf)"
  shows "bm_ok (rb_records bf') \<and>
    res_fold (slot_step (merge_entry (ml_compare ml) (rb_merger bf))) (bm_get (rb_records bf) k)
      (map snd (filter (\<lambda>x. fst x = k) es)) = Ok (bm_get (rb_records bf') k)"
  using assms
proof (induction es arbitrary: bf)
  case (Cons x es)
  obtain k1 e where x: "x = (k1, e)" by (cases x)
  obtain bf1 where s: "process_entry ml bf (k1, e) = Ok bf1" "res_fold (process_entry ml) bf1 es = Ok bf'"
    using Cons.prems(1) x by (auto simp: res_bind_Inr_iff)
  note same = process_entry_setting [OF s(1)]
  have "plain_entries bf [(k1, e)]" using Cons.prems(2) x by (auto simp: plain_entries_def)
  note step = process_entry_slot [OF s(1) this Cons.prems(3)]
  have "plain_entries bf1 es"
    using Cons.prems(2) x same_settingD [OF same] incoming_is_partial_setting [OF same]
    by (auto simp: plain_entries_def)
  note IH = Cons.IH [OF s(2) this step(1)]
  show ?case
    using IH step(2) [of k] step(3) x same_settingD(1) [OF same] by (auto simp: res_bind_Inr_iff)
qed simp

section \<open>Blocks\<close>

lemma res_fold_concat:
  assumes "res_map g xs = Ok yss"
    and "\<And>bf x ys. x \<in> set xs \<Longrightarrow> g x = Ok ys \<Longrightarrow> f bf x = res_fold h bf (map c ys)"
  shows "res_fold f bf xs = res_fold h bf (map c (concat yss))"
  using assms
proof (induction xs arbitrary: yss bf)
  case (Cons x xs)
  obtain ys yss' where y: "g x = Ok ys" "res_map g xs = Ok yss'" "yss = ys # yss'"
    using Cons.prems(1) by (auto simp: res_bind_Inr_iff)
  have "res_fold f bf' xs = res_fold h bf' (map c (concat yss'))" for bf'
    using Cons.IH [OF y(2)] Cons.prems(2) by simp
  then show ?case using Cons.prems(2) [of x ys] y by (simp add: res_fold_append)
qed simp

lemma res_fold_map: "res_fold h bf (map c ys) = res_fold (\<lambda>bf y. h bf (c y)) bf ys"
  by (induction ys arbitrary: bf) simp_all

lemma res_fold_inv_cong:
  assumes "P bf" "\<And>bf x bf'. x \<in> set xs \<Longrightarrow> P bf \<Longrightarrow> f bf x = Ok bf' \<Longrightarrow> P bf'"
    and "\<And>bf x. x \<in> set xs \<Longrightarrow> P bf \<Longrightarrow> f bf x = g bf x"
  shows "res_fold f bf xs = res_fold g bf xs"
  using assms
proof (induction xs arbitrary: bf)
  case (Cons x xs)
  have e: "f bf x = g bf x" using Cons.prems by simp
  show ?case
  proof (cases "g bf x")
    case (Inr bf1)
    then have P: "P bf1" using Cons.prems(2) [of x bf bf1] Cons.prems(1) e by simp
    have "res_fold f bf1 xs = res_fold g bf1 xs"
      by (rule Cons.IH [OF P]) (rule Cons.prems(2,3); simp)+
    then show ?thesis using e Inr by simp
  qed (simp add: e)
qed simp

lemma process_data_block_entries:
  assumes "lb_content b = Records ds dbs"
    and "data_block_entries (rb_record_context bf) (rb_delete_context bf) ds = Ok es"
  shows "process_data_block ml b bf = res_bind (res_fold (process_entry ml) bf es)
    (\<lambda>bf'. Ok (b\<lparr>lb_content := EmptyContent\<rparr>, bf'))"
proof -
  let ?g = "\<lambda>ba. batch_to_buffered_records (rb_record_context bf) ba (rb_delete_context bf)"
  let ?h = "\<lambda>bf (k, r). process_next_data_record ml r k bf"
  obtain rss where rss: "res_map ?g ds = Ok rss" "es = map (\<lambda>(k, r). (k, DataEntry r)) (concat rss)"
    using assms(2) by (auto simp: data_block_entries_def res_bind_Inr_iff)
  have h: "?h = (\<lambda>bf y. process_entry ml bf ((\<lambda>(k, r). (k, DataEntry r)) y))"
    by (auto simp: process_entry_def fun_eq_iff)
  have set_step: "same_setting bf0 bf1" if "res_fold ?h bf0 rs = Ok bf1" for bf0 rs bf1
    using that process_entries_setting unfolding h res_fold_map [symmetric] by blast
  have "res_fold (\<lambda>bf ba. res_bind (batch_to_buffered_records (rb_record_context bf) ba (rb_delete_context bf))
        (\<lambda>rs. res_fold ?h bf rs)) bf ds =
      res_fold (\<lambda>bf0 ba. res_bind (?g ba) (\<lambda>rs. res_fold ?h bf0 rs)) bf ds"
    by (rule res_fold_inv_cong [where P = "same_setting bf"])
      (auto simp: same_setting_refl same_settingD res_bind_Inr_iff intro: same_setting_trans set_step)
  also have "\<dots> = res_fold ?h bf (map (\<lambda>x. x) (concat rss))"
    by (rule res_fold_concat [OF rss(1)]) simp
  also have "\<dots> = res_fold (process_entry ml) bf es"
    unfolding rss(2) res_fold_map h [symmetric] by simp
  finally show ?thesis using assms(1) by (simp add: process_data_block_def)
qed

lemma process_delete_block_entries:
  assumes "lb_content b = Records ds dbs" "delete_block_entries dbs = Ok es"
  shows "process_delete_block b bf = res_bind (res_fold (process_entry ml) bf es)
    (\<lambda>bf'. Ok (b\<lparr>lb_content := EmptyContent\<rparr>, bf'))"
proof -
  let ?c = "\<lambda>(k, ov). (k, DeleteEntry \<lparr>dr_record_key = k, dr_ordering_value = ov\<rparr>)"
  let ?h = "\<lambda>bf (k, ov). process_next_deleted_record \<lparr>dr_record_key = k, dr_ordering_value = ov\<rparr> k bf"
  obtain ess where ess: "res_map delete_batch_to_keys_with_ordering dbs = Ok ess"
    "es = map ?c (concat ess)"
    using assms(2) by (auto simp: delete_block_entries_def res_bind_Inr_iff)
  have h: "?h = (\<lambda>bf y. process_entry ml bf (?c y))" by (auto simp: process_entry_def fun_eq_iff)
  have "res_fold (\<lambda>bf db. res_bind (delete_batch_to_keys_with_ordering db) (\<lambda>rs. res_fold ?h bf rs)) bf dbs =
      res_fold ?h bf (map (\<lambda>x. x) (concat ess))"
    by (rule res_fold_concat [OF ess(1)]) simp
  also have "\<dots> = res_fold (process_entry ml) bf es"
    unfolding ess(2) res_fold_map h [symmetric] by simp
  finally show ?thesis using assms(1) by (simp add: process_delete_block_def)
qed

end
