(* ===== verification/Log_Scan.thy ===== *)
theory Log_Scan
  imports Buffer_Slots
begin

text \<open>
  The scan of a file slice's log (\<open>file_group/reader_v2/log_record_reader.rs\<close>). Pass 1 walks the
  blocks of all log files in order, drops what the gates refuse and what a rollback command
  takes back, and groups the rest by instant. Pass 2 walks the instants newest first and
  replaces those a log compaction rewrote. Pass 3 fetches the content of the queued blocks in
  windows, decodes and folds them into the record buffer, oldest first. The reads of the object
  store and the content decoder are parameters.
\<close>

section \<open>Pass 1: gates and rollbacks\<close>

record Pass1Result =
  p1_ordered_instants_list :: "string list"
  p1_instant_to_blocks_map :: "string \<Rightarrow> LogBlock list option"
  p1_total_log_blocks :: nat
  p1_total_corrupt_blocks :: nat
  p1_total_rollbacks :: nat

definition pass1_empty :: Pass1Result where
  "pass1_empty = \<lparr>p1_ordered_instants_list = [], p1_instant_to_blocks_map = Map.empty,
     p1_total_log_blocks = 0, p1_total_corrupt_blocks = 0, p1_total_rollbacks = 0\<rparr>"

text \<open>What the gates compare a block with: the latest instant, the range, the timezone, the
  completion gate.\<close>

record ScanGates =
  sg_latest_instant_time :: string
  sg_instant_range :: "InstantRange option"
  sg_timezone :: string
  sg_completion_gate :: "CompletionGateInputs option"

text \<open>Gates 2 to 4 on a block of a known instant. Command blocks pass.\<close>

definition pass1_gates :: "chrono \<Rightarrow> ScanGates \<Rightarrow> LogBlock \<Rightarrow> string \<Rightarrow> bool result" where
  "pass1_gates ch g b t =
     (if lb_block_type b = Command then Ok True
      else if t > sg_latest_instant_time g then Ok False
      else if (case sg_completion_gate g of None \<Rightarrow> False | Some c \<Rightarrow> \<not> gate_admits c t) then Ok False
      else case sg_instant_range g of
          None \<Rightarrow> Ok True
        | Some r \<Rightarrow> res_bind (not_in_range ch r t (sg_timezone g)) (\<lambda>n. Ok (\<not> n)))"

definition carries_records :: "BlockType \<Rightarrow> bool" where
  "carries_records t \<longleftrightarrow> t \<in> {AvroData, ParquetData, DeleteBlock, HfileData}"

definition pass1_classify :: "LogBlock \<Rightarrow> string \<Rightarrow> Pass1Result \<Rightarrow> Pass1Result" where
  "pass1_classify b t r =
     (if carries_records (lb_block_type b) then
        (let bs = (case p1_instant_to_blocks_map r t of None \<Rightarrow> [] | Some bs \<Rightarrow> bs) in
         r\<lparr>p1_ordered_instants_list := (if bs = [] then p1_ordered_instants_list r @ [t]
             else p1_ordered_instants_list r),
           p1_instant_to_blocks_map := (p1_instant_to_blocks_map r)(t := Some (bs @ [b]))\<rparr>)
      else if is_rollback_block b then
        (case lb_target_instant_time b of
           Inl _ \<Rightarrow> r\<lparr>p1_total_rollbacks := p1_total_rollbacks r + 1\<rparr>
         | Inr target \<Rightarrow> r\<lparr>
             p1_ordered_instants_list := filter (\<lambda>u. u \<noteq> target) (p1_ordered_instants_list r),
             p1_instant_to_blocks_map := (p1_instant_to_blocks_map r)(target := None),
             p1_total_rollbacks := p1_total_rollbacks r + 1\<rparr>)
      else r)"

definition pass1_step :: "chrono \<Rightarrow> ScanGates \<Rightarrow> Pass1Result \<Rightarrow> LogBlock \<Rightarrow> Pass1Result result" where
  "pass1_step ch g r0 b =
     (let r = r0\<lparr>p1_total_log_blocks := p1_total_log_blocks r0 + 1\<rparr> in
      if lb_block_type b = Corrupted then
        Ok (r\<lparr>p1_total_corrupt_blocks := p1_total_corrupt_blocks r + 1\<rparr>)
      else case lb_instant_time b of
          Inl _ \<Rightarrow> Ok r
        | Inr t \<Rightarrow> res_bind (pass1_gates ch g b t) (\<lambda>ok.
            Ok (if ok then pass1_classify b t r else r)))"

definition forward_scan_pass1 :: "chrono \<Rightarrow> ScanGates \<Rightarrow> LogBlock list \<Rightarrow> Pass1Result result" where
  "forward_scan_pass1 ch g all_blocks = res_fold (pass1_step ch g) pass1_empty all_blocks"

section \<open>Pass 2: log compaction\<close>

record Pass2Result =
  p2_current_instant_log_blocks :: "LogBlock list"
  p2_instant_times_included :: "string set"
  p2_valid_block_instants :: "string list"

definition blocks_of :: "Pass1Result \<Rightarrow> string \<Rightarrow> LogBlock list" where
  "blocks_of p1 t = (case p1_instant_to_blocks_map p1 t of None \<Rightarrow> [] | Some bs \<Rightarrow> bs)"

text \<open>The blocks of an instant go to the back of the deque, last block first.\<close>

definition enqueue_instant :: "Pass1Result \<Rightarrow> string \<Rightarrow> Pass2Result \<Rightarrow> Pass2Result" where
  "enqueue_instant p1 t r = r\<lparr>
     p2_current_instant_log_blocks := p2_current_instant_log_blocks r @ rev (blocks_of p1 t),
     p2_instant_times_included := insert t (p2_instant_times_included r),
     p2_valid_block_instants := p2_valid_block_instants r @ [t]\<rparr>"

text \<open>A block with the header \<open>COMPACTED_BLOCK_TIMES\<close> stands for the instants it names; a
  compaction that was itself compacted passes them on.\<close>

definition register_compacted ::
  "string \<Rightarrow> string \<Rightarrow> (string \<Rightarrow> string option) \<Rightarrow> (string \<Rightarrow> string option)" where
  "register_compacted t ts m = fold (\<lambda>orig m. m(orig := Some (case m t of Some f \<Rightarrow> f | None \<Rightarrow> t)))
     (map trim (split_on (CHR '','') ts)) m"

definition pass2_step :: "Pass1Result \<Rightarrow> string \<Rightarrow> Pass2Result \<times> (string \<Rightarrow> string option) \<Rightarrow>
    Pass2Result \<times> (string \<Rightarrow> string option)" where
  "pass2_step p1 t s = (case s of (r, m) \<Rightarrow> (case blocks_of p1 t of
      [] \<Rightarrow> (r, m)
    | first_block # _ \<Rightarrow> (case lb_header first_block CompactedBlockTimes of
          Some ts \<Rightarrow> (r, register_compacted t ts m)
        | None \<Rightarrow> (case m t of
              Some final \<Rightarrow>
                if final \<in> p2_instant_times_included r then (r, m)
                else (enqueue_instant p1 final r, m)
            | None \<Rightarrow> (enqueue_instant p1 t r, m)))))"

definition reverse_scan_pass2 :: "Pass1Result \<Rightarrow> Pass2Result" where
  "reverse_scan_pass2 p1 = fst (fold (pass2_step p1) (rev (p1_ordered_instants_list p1))
     (\<lparr>p2_current_instant_log_blocks = [], p2_instant_times_included = {},
       p2_valid_block_instants = []\<rparr>, Map.empty))"

section \<open>Pass 3: fetching and merging\<close>

definition saturating_add_u64 :: "nat \<Rightarrow> nat \<Rightarrow> nat" where
  "saturating_add_u64 a b = min (a + b) (2 ^ 64 - 1)"

text \<open>Where a queued block's content has to be fetched from, when it has to be.\<close>

definition pending_fetch :: "LogBlock \<Rightarrow> DeferredContent option" where
  "pending_fetch b = (if carries_records (lb_block_type b) \<and> lb_resident_content b = None
     then lb_deferred_content b else None)"

record ContentPlan =
  cp_windows :: "nat list list"
  cp_current :: "nat list"
  cp_current_file :: "string option"
  cp_current_bytes :: nat

definition plan_step :: "nat \<Rightarrow> nat \<times> LogBlock \<Rightarrow> ContentPlan \<Rightarrow> ContentPlan" where
  "plan_step budget x p = (case pending_fetch (snd x) of
      None \<Rightarrow> p
    | Some d \<Rightarrow>
        (let len = content_length (dfc_location d);
             file = dfc_fetcher d;
             spans_files = (case cp_current_file p of None \<Rightarrow> False | Some f \<Rightarrow> f \<noteq> file);
             over_budget = (cp_current p \<noteq> [] \<and> saturating_add_u64 (cp_current_bytes p) len > budget);
             q = (if spans_files \<or> over_budget
               then p\<lparr>cp_windows := cp_windows p @ [cp_current p], cp_current := [],
                 cp_current_file := None, cp_current_bytes := 0\<rparr> else p)
         in q\<lparr>cp_current := cp_current q @ [fst x],
              cp_current_file := (if cp_current q = [] then Some file else cp_current_file q),
              cp_current_bytes := saturating_add_u64 (cp_current_bytes q) len\<rparr>))"

definition plan_content_windows :: "LogBlock list \<Rightarrow> nat \<Rightarrow> nat list list" where
  "plan_content_windows blocks budget =
     (let p = fold (plan_step budget) (zip [0 ..< length blocks] blocks)
        \<lparr>cp_windows = [], cp_current = [], cp_current_file = None, cp_current_bytes = 0\<rparr>
      in if cp_current p = [] then cp_windows p else cp_windows p @ [cp_current p])"

text \<open>One batched read of a window, from the file of its first block: the bytes of every range
  against the block's index.\<close>

type_synonym read_ranges = "string \<Rightarrow> (nat \<times> nat) list \<Rightarrow> byte list list result"

definition fetch_window :: "read_ranges \<Rightarrow> LogBlock list \<Rightarrow> nat list \<Rightarrow> (nat \<times> byte list) list result" where
  "fetch_window read_contents blocks window =
     (case lb_deferred_content (blocks ! hd window) of
        None \<Rightarrow> Ok []
      | Some d \<Rightarrow> res_bind (res_map (\<lambda>i. case lb_deferred_content (blocks ! i) of
            None \<Rightarrow> Err Panic
          | Some e \<Rightarrow> Ok (content_position (dfc_location e), content_length (dfc_location e))) window)
          (\<lambda>ranges. res_bind (read_contents (dfc_fetcher d) ranges) (\<lambda>bytes.
            Ok (zip window bytes))))"

definition queued_block_content :: "LogBlock \<Rightarrow> byte list option \<Rightarrow> (LogBlock \<times> byte list option) result"
  where
  "queued_block_content b fetched = (case lb_resident_content b of
      Some bytes \<Rightarrow> Ok (b\<lparr>lb_resident_content := None\<rparr>, Some bytes)
    | None \<Rightarrow> (case fetched of
          Some bytes \<Rightarrow> Ok (b, Some bytes)
        | None \<Rightarrow> if \<not> content_is_empty (lb_content b) then Ok (b, None) else Err LogBlockError))"

text \<open>Folding one decoded block into the buffer. Only the block kinds that carry records do
  anything.\<close>

definition process_block :: "merge_lib \<Rightarrow> LogBlock \<Rightarrow> RecordBuffer \<Rightarrow> (LogBlock \<times> RecordBuffer) result" where
  "process_block ml b bf =
     (if lb_block_type b \<in> {AvroData, ParquetData, HfileData} then process_data_block ml b bf
      else if lb_block_type b = DeleteBlock then process_delete_block b bf
      else Ok (b, bf))"

definition merge_block :: "content_decoder \<Rightarrow> merge_lib \<Rightarrow> LogBlock \<Rightarrow> byte list option \<Rightarrow> RecordBuffer \<Rightarrow>
    RecordBuffer result" where
  "merge_block decode ml b fetched bf =
     (if carries_records (lb_block_type b) then
        res_bind (queued_block_content b fetched) (\<lambda>(b1, bytes).
        res_bind (case bytes of None \<Rightarrow> Ok b1 | Some bs \<Rightarrow> decode_fetched decode b1 bs) (\<lambda>b2.
        res_bind (process_block ml b2 bf) (\<lambda>(b3, bf'). Ok bf')))
      else Ok bf)"

definition merge_blocks :: "content_decoder \<Rightarrow> merge_lib \<Rightarrow> LogBlock list \<Rightarrow> nat list \<Rightarrow>
    (nat \<times> byte list) list \<Rightarrow> RecordBuffer \<Rightarrow> RecordBuffer result" where
  "merge_blocks decode ml blocks idxs fetched bf =
     res_fold (\<lambda>bf i. merge_block decode ml (blocks ! i) (map_of fetched i) bf) bf idxs"

text \<open>A window is fetched, and every block up to its last one is merged; the blocks behind the
  last window follow.\<close>

definition merge_window :: "read_ranges \<Rightarrow> content_decoder \<Rightarrow> merge_lib \<Rightarrow> LogBlock list \<Rightarrow>
    RecordBuffer \<times> nat \<Rightarrow> nat list \<Rightarrow> (RecordBuffer \<times> nat) result" where
  "merge_window read_contents decode ml blocks s window =
     res_bind (fetch_window read_contents blocks window) (\<lambda>fetched.
     res_bind (merge_blocks decode ml blocks [snd s ..< last window + 1] fetched (fst s)) (\<lambda>bf.
       Ok (bf, last window + 1)))"

definition fetch_and_merge_windows :: "read_ranges \<Rightarrow> content_decoder \<Rightarrow> merge_lib \<Rightarrow> nat \<Rightarrow>
    LogBlock list \<Rightarrow> RecordBuffer \<Rightarrow> RecordBuffer result" where
  "fetch_and_merge_windows read_contents decode ml budget ordered bf =
     res_bind (res_fold (merge_window read_contents decode ml ordered) (bf, 0)
         (plan_content_windows ordered budget)) (\<lambda>(bf', cursor).
       merge_blocks decode ml ordered [cursor ..< length ordered] [] bf')"

section \<open>The scan\<close>

record ScanResult =
  sr_valid_block_instants :: "string list"
  sr_total_log_blocks :: nat
  sr_total_corrupt_blocks :: nat
  sr_total_rollbacks :: nat
  sr_record_buffer :: RecordBuffer

text \<open>\<open>scan_internal\<close> over the blocks the headers-only walk of the log files returned.\<close>

definition scan_internal :: "chrono \<Rightarrow> read_ranges \<Rightarrow> content_decoder \<Rightarrow> merge_lib \<Rightarrow> nat \<Rightarrow> ScanGates \<Rightarrow>
    bool \<Rightarrow> LogBlock list \<Rightarrow> RecordBuffer \<Rightarrow> ScanResult result" where
  "scan_internal ch read_contents decode ml budget g skip_processing all_blocks bf =
     res_bind (forward_scan_pass1 ch g all_blocks) (\<lambda>p1.
       let p2 = reverse_scan_pass2 p1;
           result = (\<lambda>bf'. \<lparr>sr_valid_block_instants = p2_valid_block_instants p2,
             sr_total_log_blocks = p1_total_log_blocks p1,
             sr_total_corrupt_blocks = p1_total_corrupt_blocks p1,
             sr_total_rollbacks = p1_total_rollbacks p1, sr_record_buffer = bf'\<rparr>)
       in if p2_current_instant_log_blocks p2 \<noteq> [] \<and> \<not> skip_processing then
            res_bind (fetch_and_merge_windows read_contents decode ml budget
              (rev (p2_current_instant_log_blocks p2)) bf) (\<lambda>bf'. Ok (result bf'))
          else Ok (result bf))"


section \<open>What pass 1 keeps\<close>

definition block_instant :: "LogBlock \<Rightarrow> string" where
  "block_instant b = (case lb_header b InstantTime of None \<Rightarrow> [] | Some t \<Rightarrow> t)"

definition rolls_back :: "LogBlock \<Rightarrow> string \<Rightarrow> bool" where
  "rolls_back b t = (lb_header b InstantTime \<noteq> None \<and> is_rollback_block b \<and>
     lb_target_instant_time b = Ok t)"

definition admitted :: "chrono \<Rightarrow> ScanGates \<Rightarrow> LogBlock \<Rightarrow> bool" where
  "admitted ch g b = (lb_header b InstantTime \<noteq> None \<and> carries_records (lb_block_type b) \<and>
     pass1_gates ch g b (block_instant b) = Ok True)"

text \<open>The blocks that survive: admitted, and not taken back by a rollback written after them.\<close>

fun live_blocks :: "chrono \<Rightarrow> ScanGates \<Rightarrow> LogBlock list \<Rightarrow> LogBlock list" where
  "live_blocks ch g [] = []"
| "live_blocks ch g (b # bs) =
     (if admitted ch g b \<and> \<not> list_ex (\<lambda>r. rolls_back r (block_instant b)) bs
      then b # live_blocks ch g bs else live_blocks ch g bs)"

definition first_seen :: "'a list \<Rightarrow> 'a list" where
  "first_seen xs = rev (remdups (rev xs))"

lemma first_seen_snoc: "first_seen (xs @ [x]) = (if x \<in> set xs then first_seen xs else first_seen xs @ [x])"
  by (simp add: first_seen_def)

lemma set_first_seen [simp]: "set (first_seen xs) = set xs"
  by (simp add: first_seen_def)

lemma distinct_first_seen [simp]: "distinct (first_seen xs)"
  by (simp add: first_seen_def)

lemma first_seen_filter: "first_seen (filter P xs) = filter P (first_seen xs)"
proof -
  have "remdups (filter P (rev xs)) = filter P (remdups (rev xs))" by (rule remdups_filter)
  then show ?thesis by (simp add: first_seen_def rev_filter)
qed

lemma live_blocks_snoc:
  "live_blocks ch g (bs @ [b]) = filter (\<lambda>x. \<not> rolls_back b (block_instant x)) (live_blocks ch g bs) @
     (if admitted ch g b then [b] else [])"
  by (induction bs) auto

lemma rollback_command: "is_rollback_block b \<Longrightarrow> lb_block_type b = Command"
  by (simp add: is_rollback_block_def lb_command_block_type_def split: if_splits)

text \<open>The blocks of an instant, as a map holds them.\<close>

definition group_of :: "LogBlock list \<Rightarrow> string \<Rightarrow> LogBlock list option" where
  "group_of bs t = (case filter (\<lambda>b. block_instant b = t) bs of [] \<Rightarrow> None | l \<Rightarrow> Some l)"

lemma group_of_empty [simp]: "group_of [] = Map.empty"
  by (simp add: group_of_def fun_eq_iff)

lemma group_of_snoc: "group_of (bs @ [b]) = (group_of bs)(block_instant b :=
    Some ((case group_of bs (block_instant b) of None \<Rightarrow> [] | Some l \<Rightarrow> l) @ [b]))"
  by (auto simp: group_of_def fun_eq_iff split: list.splits)

lemma group_of_without: "group_of (filter (\<lambda>b. block_instant b \<noteq> t) bs) = (group_of bs)(t := None)"
proof
  fix u
  have "filter (\<lambda>b. block_instant b = u) (filter (\<lambda>b. block_instant b \<noteq> t) bs) =
      (if u = t then [] else filter (\<lambda>b. block_instant b = u) bs)"
    by (induction bs) auto
  then show "group_of (filter (\<lambda>b. block_instant b \<noteq> t) bs) u = ((group_of bs)(t := None)) u"
    by (simp add: group_of_def del: filter_filter)
qed

lemma group_of_Nil_iff: "(case group_of bs t of None \<Rightarrow> [] | Some l \<Rightarrow> l) = [] \<longleftrightarrow> t \<notin> block_instant ` set bs"
proof -
  have "filter (\<lambda>b. block_instant b = t) bs = [] \<longleftrightarrow> t \<notin> block_instant ` set bs"
    by (auto simp: filter_empty_conv)
  then show ?thesis by (cases "filter (\<lambda>b. block_instant b = t) bs") (simp_all add: group_of_def)
qed

definition groups_blocks :: "LogBlock list \<Rightarrow> Pass1Result \<Rightarrow> bool" where
  "groups_blocks bs r = (p1_ordered_instants_list r = first_seen (map block_instant bs) \<and>
     p1_instant_to_blocks_map r = group_of bs)"

lemma groups_blocks_classify:
  assumes "groups_blocks bs r" "lb_instant_time b = Ok t"
  shows "groups_blocks (filter (\<lambda>x. \<not> rolls_back b (block_instant x)) bs @
      (if carries_records (lb_block_type b) then [b] else [])) (pass1_classify b t r)"
proof -
  have t: "block_instant b = t" "lb_header b InstantTime = Some t"
    using assms(2) by (simp_all add: lb_instant_time_def block_instant_def)
  consider "carries_records (lb_block_type b)" | u where "is_rollback_block b" "lb_target_instant_time b = Ok u"
    | "\<not> carries_records (lb_block_type b)" "\<not> (\<exists>u. is_rollback_block b \<and> lb_target_instant_time b = Ok u)"
    by blast
  then show ?thesis
  proof cases
    case 1
    then have "\<not> is_rollback_block b" using rollback_command by (fastforce simp: carries_records_def)
    then have "filter (\<lambda>x. \<not> rolls_back b (block_instant x)) bs = bs" by (simp add: rolls_back_def)
    then show ?thesis
      using assms(1) 1 t group_of_Nil_iff [of bs t]
      by (simp add: groups_blocks_def pass1_classify_def Let_def group_of_snoc first_seen_snoc)
  next
    case 2
    have "\<not> carries_records (lb_block_type b)" using rollback_command [OF 2(1)] by (simp add: carries_records_def)
    moreover have "rolls_back b v \<longleftrightarrow> v = u" for v using 2 t by (auto simp: rolls_back_def)
    ultimately show ?thesis
      using assms(1) 2 by (simp add: groups_blocks_def pass1_classify_def group_of_without
          first_seen_filter [symmetric] filter_map comp_def)
  next
    case 3
    have "\<not> rolls_back b v" for v using 3(2) by (auto simp: rolls_back_def)
    then show ?thesis
      using assms(1) 3 by (auto simp: groups_blocks_def pass1_classify_def split: sum.split)
  qed
qed

lemma pass1_step_groups:
  assumes "groups_blocks (live_blocks ch g bs) r" "pass1_step ch g r b = Ok r'"
  shows "groups_blocks (live_blocks ch g (bs @ [b])) r'"
proof -
  let ?r = "r\<lparr>p1_total_log_blocks := p1_total_log_blocks r + 1\<rparr>"
  have g: "groups_blocks (live_blocks ch g bs) ?r" using assms(1) by (simp add: groups_blocks_def)
  consider "lb_block_type b = Corrupted" | "lb_block_type b \<noteq> Corrupted" "lb_header b InstantTime = None"
    | t where "lb_block_type b \<noteq> Corrupted" "lb_header b InstantTime = Some t"
    by (cases "lb_header b InstantTime") auto
  then show ?thesis
  proof cases
    case 1
    then have "\<not> is_rollback_block b" using rollback_command by fastforce
    then show ?thesis
      using assms 1 by (auto simp: pass1_step_def live_blocks_snoc admitted_def rolls_back_def
          carries_records_def groups_blocks_def)
  next
    case 2
    then show ?thesis
      using assms by (auto simp: pass1_step_def live_blocks_snoc admitted_def rolls_back_def
          lb_instant_time_def groups_blocks_def)
  next
    case 3
    have t: "lb_instant_time b = Ok t" "block_instant b = t"
      using 3 by (simp_all add: lb_instant_time_def block_instant_def)
    obtain ok where ok: "pass1_gates ch g b t = Ok ok" "r' = (if ok then pass1_classify b t ?r else ?r)"
      using assms(2) 3 t by (auto simp: pass1_step_def Let_def res_bind_Inr_iff)
    show ?thesis
    proof (cases ok)
      case True
      then have "admitted ch g b \<longleftrightarrow> carries_records (lb_block_type b)"
        using 3 t ok(1) by (simp add: admitted_def)
      then show ?thesis
        using groups_blocks_classify [OF g t(1)] ok(2) True by (simp add: live_blocks_snoc)
    next
      case False
      then have "lb_block_type b \<noteq> Command" using ok(1) by (auto simp: pass1_gates_def)
      then have "\<not> is_rollback_block b" using rollback_command by blast
      then show ?thesis
        using g ok False t 3 by (simp add: live_blocks_snoc admitted_def rolls_back_def)
    qed
  qed
qed

lemma forward_scan_groups:
  "forward_scan_pass1 ch g bs = Ok r \<Longrightarrow> groups_blocks (live_blocks ch g bs) r"
proof (induction bs arbitrary: r rule: rev_induct)
  case Nil
  then show ?case
    by (auto simp: forward_scan_pass1_def pass1_empty_def groups_blocks_def first_seen_def)
next
  case (snoc b bs)
  then obtain r0 where "forward_scan_pass1 ch g bs = Ok r0" "pass1_step ch g r0 b = Ok r"
    by (auto simp: forward_scan_pass1_def res_fold_append res_bind_Inr_iff)
  then show ?case using snoc.IH pass1_step_groups by blast
qed


section \<open>What pass 2 queues\<close>

definition compaction_times :: "Pass1Result \<Rightarrow> string \<Rightarrow> string option" where
  "compaction_times p1 t = (case blocks_of p1 t of [] \<Rightarrow> None
     | b # _ \<Rightarrow> lb_header b CompactedBlockTimes)"

definition compacts :: "Pass1Result \<Rightarrow> string \<Rightarrow> string \<Rightarrow> bool" where
  "compacts p1 c t = (case compaction_times p1 c of None \<Rightarrow> False
     | Some ts \<Rightarrow> t \<in> set (map trim (split_on (CHR '','') ts)))"

text \<open>The compaction \<open>f\<close> stands for the instant \<open>t\<close>: it names it, or names a compaction that stands for it.\<close>

definition stands_for :: "Pass1Result \<Rightarrow> string \<Rightarrow> string \<Rightarrow> bool" where
  "stands_for p1 = (compacts p1)\<^sup>+\<^sup>+"

definition register_one :: "string \<Rightarrow> string \<Rightarrow> (string \<Rightarrow> string option) \<Rightarrow> (string \<Rightarrow> string option)" where
  "register_one t u m = m(u := Some (case m t of Some f \<Rightarrow> f | None \<Rightarrow> t))"

lemma register_one_dom: "dom (register_one t u m) = insert u (dom m)"
  by (simp add: register_one_def)

lemma fold_register_dom: "dom (fold (register_one t) us m) = dom m \<union> set us"
  by (induction us arbitrary: m) (simp_all add: register_one_dom)

lemma register_compacted_fold:
  "register_compacted t ts m = fold (register_one t) (map trim (split_on (CHR '','') ts)) m"
proof -
  have "register_one t = (\<lambda>u m. m(u := Some (case m t of Some f \<Rightarrow> f | None \<Rightarrow> t)))"
    by (intro ext) (simp only: register_one_def)
  then show ?thesis unfolding register_compacted_def by (simp only:)
qed

lemma register_compacted_dom:
  "dom (register_compacted t ts m) = dom m \<union> set (map trim (split_on (CHR '','') ts))"
  unfolding register_compacted_fold by (rule fold_register_dom)

text \<open>What the map from instants to compactions holds: compactions seen, each for an instant it stands for.\<close>

definition finals_ok :: "Pass1Result \<Rightarrow> string list \<Rightarrow> (string \<Rightarrow> string option) \<Rightarrow> bool" where
  "finals_ok p1 S m = (\<forall>u f. m u = Some f \<longrightarrow> f \<in> set S \<and> compaction_times p1 f \<noteq> None \<and> stands_for p1 f u)"

lemma finals_ok_register_one:
  assumes "finals_ok p1 S m" "compacts p1 c u" "c \<in> set S"
  shows "finals_ok p1 S (register_one c u m)"
proof -
  have "compaction_times p1 c \<noteq> None" using assms(2) by (auto simp: compacts_def split: option.splits)
  then show ?thesis
    using assms unfolding finals_ok_def register_one_def stands_for_def
    by (auto split: option.splits if_splits intro: tranclp.trancl_into_trancl)
qed

lemma finals_ok_fold:
  "finals_ok p1 S m \<Longrightarrow> \<forall>u\<in>set us. compacts p1 c u \<Longrightarrow> c \<in> set S \<Longrightarrow> finals_ok p1 S (fold (register_one c) us m)"
  by (induction us arbitrary: m) (simp_all add: finals_ok_register_one)

lemma finals_ok_register:
  assumes "finals_ok p1 S m" "compaction_times p1 u = Some ts"
  shows "finals_ok p1 (S @ [u]) (register_compacted u ts m)"
proof -
  have "finals_ok p1 (S @ [u]) m" using assms(1) by (auto simp: finals_ok_def)
  then show ?thesis
    unfolding register_compacted_fold using assms(2) by (intro finals_ok_fold) (auto simp: compacts_def)
qed

text \<open>No instant processed before \<open>v\<close> compacted it.\<close>

definition uncompacted :: "Pass1Result \<Rightarrow> string list \<Rightarrow> string \<Rightarrow> bool" where
  "uncompacted p1 S v = (\<exists>xs ys. S = xs @ v # ys \<and> (\<forall>c\<in>set xs. \<not> compacts p1 c v))"

lemma uncompacted_snoc: "uncompacted p1 S v \<Longrightarrow> uncompacted p1 (S @ [u]) v"
  unfolding uncompacted_def by (metis append_Cons append_assoc)

lemma uncompacted_last: "(\<And>c. c \<in> set S \<Longrightarrow> \<not> compacts p1 c u) \<Longrightarrow> uncompacted p1 (S @ [u]) u"
  unfolding uncompacted_def by blast

definition pass2_inv :: "Pass1Result \<Rightarrow> string list \<Rightarrow> Pass2Result \<Rightarrow> (string \<Rightarrow> string option) \<Rightarrow> bool" where
  "pass2_inv p1 S r m =
     (p2_current_instant_log_blocks r = concat (map (\<lambda>t. rev (blocks_of p1 t)) (p2_valid_block_instants r)) \<and>
      p2_instant_times_included r = set (p2_valid_block_instants r) \<and>
      distinct (p2_valid_block_instants r) \<and> set (p2_valid_block_instants r) \<subseteq> set S \<and>
      finals_ok p1 S m \<and>
      (\<forall>c\<in>set S. \<forall>t. compacts p1 c t \<longrightarrow> t \<in> dom m) \<and>
      (\<forall>v\<in>set (p2_valid_block_instants r). compaction_times p1 v = None \<longrightarrow>
         uncompacted p1 S v) \<and>
      (\<forall>t\<in>set S. blocks_of p1 t \<noteq> [] \<longrightarrow> compaction_times p1 t = None \<longrightarrow>
         t \<in> set (p2_valid_block_instants r) \<or>
         (\<exists>f\<in>set (p2_valid_block_instants r). compaction_times p1 f \<noteq> None \<and> stands_for p1 f t)))"

lemma pass2_inv_grow:
  assumes "pass2_inv p1 S r m" "compaction_times p1 u = None" "blocks_of p1 u \<noteq> [] \<Longrightarrow>
      u \<in> set (p2_valid_block_instants r) \<or>
      (\<exists>f\<in>set (p2_valid_block_instants r). compaction_times p1 f \<noteq> None \<and> stands_for p1 f u)"
  shows "pass2_inv p1 (S @ [u]) r m"
proof -
  have "\<not> compacts p1 u t" for t using assms(2) by (simp add: compacts_def)
  moreover have "finals_ok p1 (S @ [u]) m" using assms(1) by (auto simp: pass2_inv_def finals_ok_def)
  ultimately show ?thesis using assms unfolding pass2_inv_def
    by (auto intro: uncompacted_snoc)
qed

lemma pass2_inv_register:
  assumes "pass2_inv p1 S r m" "compaction_times p1 u = Some ts"
  shows "pass2_inv p1 (S @ [u]) r (register_compacted u ts m)"
proof -
  have "t \<in> dom (register_compacted u ts m)" if "c \<in> set (S @ [u])" "compacts p1 c t" for c t
    using that assms unfolding register_compacted_dom by (auto simp: compacts_def pass2_inv_def)
  moreover have "finals_ok p1 (S @ [u]) (register_compacted u ts m)"
    using assms by (auto simp: pass2_inv_def intro: finals_ok_register)
  ultimately show ?thesis using assms unfolding pass2_inv_def
    by (auto intro: uncompacted_snoc)
qed

lemma pass2_inv_enqueue_self:
  assumes "pass2_inv p1 S r m" "u \<notin> set S" "m u = None" "compaction_times p1 u = None"
  shows "pass2_inv p1 (S @ [u]) (enqueue_instant p1 u r) m"
proof -
  have u: "uncompacted p1 (S @ [u]) u"
    using assms(1,3) by (intro uncompacted_last) (auto simp: pass2_inv_def)
  have "\<not> compacts p1 u t" for t using assms(4) by (simp add: compacts_def)
  moreover have "u \<notin> set (p2_valid_block_instants r)" "finals_ok p1 (S @ [u]) m"
    using assms(1,2) by (auto simp: pass2_inv_def finals_ok_def)
  ultimately show ?thesis
    using assms(1) u unfolding pass2_inv_def enqueue_instant_def
    by (auto intro: uncompacted_snoc)
qed

lemma pass2_inv_enqueue_final:
  assumes "pass2_inv p1 S r m" "m u = Some f" "f \<notin> p2_instant_times_included r" "compaction_times p1 u = None"
  shows "pass2_inv p1 (S @ [u]) (enqueue_instant p1 f r) m"
proof -
  have f: "f \<in> set S" "compaction_times p1 f \<noteq> None" "stands_for p1 f u"
    using assms(1,2) by (auto simp: pass2_inv_def finals_ok_def)
  have "pass2_inv p1 S (enqueue_instant p1 f r) m"
    using assms(1,3) f unfolding pass2_inv_def enqueue_instant_def by auto
  then show ?thesis
    using f by (intro pass2_inv_grow assms(4)) (auto simp: enqueue_instant_def)
qed

lemma pass2_step_inv:
  assumes "pass2_inv p1 S r m" "u \<notin> set S" "pass2_step p1 u (r, m) = (r', m')"
  shows "pass2_inv p1 (S @ [u]) r' m'"
proof (cases "blocks_of p1 u")
  case Nil
  then have "compaction_times p1 u = None" by (simp add: compaction_times_def)
  then show ?thesis using assms Nil by (auto simp: pass2_step_def intro: pass2_inv_grow)
next
  case (Cons b bs)
  then have c: "compaction_times p1 u = lb_header b CompactedBlockTimes" by (simp add: compaction_times_def)
  show ?thesis
  proof (cases "lb_header b CompactedBlockTimes")
    case (Some ts)
    then show ?thesis using assms Cons c by (auto simp: pass2_step_def intro: pass2_inv_register)
  next
    case None
    show ?thesis
    proof (cases "m u")
      case n: None
      then show ?thesis using assms Cons c None by (auto simp: pass2_step_def intro: pass2_inv_enqueue_self)
    next
      case (Some f)
      have f: "compaction_times p1 f \<noteq> None" "stands_for p1 f u"
        using assms(1) Some by (auto simp: pass2_inv_def finals_ok_def)
      show ?thesis
      proof (cases "f \<in> p2_instant_times_included r")
        case True
        then have "f \<in> set (p2_valid_block_instants r)" using assms(1) by (auto simp: pass2_inv_def)
        then show ?thesis
          using assms Cons c None Some True f by (auto simp: pass2_step_def intro!: pass2_inv_grow)
      next
        case False
        then show ?thesis
          using assms Cons c None Some by (auto simp: pass2_step_def intro: pass2_inv_enqueue_final)
      qed
    qed
  qed
qed

lemma pass2_fold_inv:
  assumes "fold (pass2_step p1) us (r, m) = (r', m')" "pass2_inv p1 S r m" "distinct (S @ us)"
  shows "pass2_inv p1 (S @ us) r' m'"
  using assms
proof (induction us arbitrary: S r m)
  case (Cons u us)
  obtain r1 m1 where s: "pass2_step p1 u (r, m) = (r1, m1)" by (cases "pass2_step p1 u (r, m)")
  have "pass2_inv p1 (S @ [u]) r1 m1"
    using pass2_step_inv [OF Cons.prems(2) _ s] Cons.prems(3) by simp
  then show ?case using Cons.IH [of r1 m1 "S @ [u]"] Cons.prems(1,3) s by simp
qed simp

lemma reverse_scan_inv:
  assumes "distinct (p1_ordered_instants_list p1)"
  shows "\<exists>m. pass2_inv p1 (rev (p1_ordered_instants_list p1)) (reverse_scan_pass2 p1) m"
proof -
  let ?r = "\<lparr>p2_current_instant_log_blocks = [], p2_instant_times_included = {}, p2_valid_block_instants = []\<rparr>"
  obtain r' m' where f: "fold (pass2_step p1) (rev (p1_ordered_instants_list p1)) (?r, Map.empty) = (r', m')"
    by (cases "fold (pass2_step p1) (rev (p1_ordered_instants_list p1)) (?r, Map.empty)")
  have "pass2_inv p1 [] ?r Map.empty" by (simp add: pass2_inv_def finals_ok_def)
  then have "pass2_inv p1 ([] @ rev (p1_ordered_instants_list p1)) r' m'"
    by (rule pass2_fold_inv [OF f]) (simp add: assms)
  then show ?thesis using f by (auto simp: reverse_scan_pass2_def)
qed

text \<open>Without compaction every instant is queued as it is.\<close>

lemma pass2_plain:
  assumes "\<And>t. t \<in> set us \<Longrightarrow> blocks_of p1 t \<noteq> [] \<and> compaction_times p1 t = None"
  shows "fold (pass2_step p1) us (r, Map.empty) = (fold (enqueue_instant p1) us r, Map.empty)"
  using assms
proof (induction us arbitrary: r)
  case (Cons t us)
  obtain b bs where "blocks_of p1 t = b # bs" "lb_header b CompactedBlockTimes = None"
    using Cons.prems [of t] by (cases "blocks_of p1 t") (auto simp: compaction_times_def)
  then show ?case using Cons by (simp add: pass2_step_def)
qed simp

lemma enqueue_all:
  "p2_current_instant_log_blocks (fold (enqueue_instant p1) us r) =
     p2_current_instant_log_blocks r @ concat (map (\<lambda>t. rev (blocks_of p1 t)) us) \<and>
   p2_valid_block_instants (fold (enqueue_instant p1) us r) = p2_valid_block_instants r @ us"
  by (induction us arbitrary: r) (simp_all add: enqueue_instant_def)

lemma rev_concat_rev: "rev (concat (map (\<lambda>t. rev (f t)) (rev us))) = concat (map f us)"
  by (induction us) simp_all

lemma queue_without_compaction:
  assumes "forward_scan_pass1 ch g bs = Ok p1" "\<And>b. b \<in> set (live_blocks ch g bs) \<Longrightarrow>
      lb_header b CompactedBlockTimes = None"
  shows "rev (p2_current_instant_log_blocks (reverse_scan_pass2 p1)) =
    concat (map (\<lambda>t. filter (\<lambda>b. block_instant b = t) (live_blocks ch g bs))
      (first_seen (map block_instant (live_blocks ch g bs))))"
proof -
  let ?l = "live_blocks ch g bs"
  have p1: "p1_ordered_instants_list p1 = first_seen (map block_instant ?l)"
    "p1_instant_to_blocks_map p1 = group_of ?l"
    using forward_scan_groups [OF assms(1)] by (simp_all add: groups_blocks_def)
  have b: "blocks_of p1 t = filter (\<lambda>b. block_instant b = t) ?l" for t
    by (simp add: blocks_of_def p1 group_of_def split: list.split)
  have "blocks_of p1 t \<noteq> [] \<and> compaction_times p1 t = None" if t: "t \<in> set (rev (p1_ordered_instants_list p1))" for t
  proof -
    have ne: "blocks_of p1 t \<noteq> []" using t by (auto simp: p1 b filter_empty_conv)
    then have "hd (blocks_of p1 t) \<in> set ?l" using b by (metis filter_is_subset hd_in_set subsetD)
    then show ?thesis
      using ne assms(2) by (cases "blocks_of p1 t") (auto simp: compaction_times_def)
  qed
  then have q: "fold (pass2_step p1) (rev (p1_ordered_instants_list p1)) (r, Map.empty) =
      (fold (enqueue_instant p1) (rev (p1_ordered_instants_list p1)) r, Map.empty)" for r
    by (rule pass2_plain)
  show ?thesis
    unfolding reverse_scan_pass2_def q by (simp add: enqueue_all rev_concat_rev b p1)
qed


section \<open>Properties\<close>

definition sample_log_block :: "BlockType \<Rightarrow> (BlockMetadataKey \<times> string) list \<Rightarrow> LogBlock" where
  "sample_log_block t h = log_block_new LogFormatV1 t (map_of h) EmptyContent Map.empty"

definition sample_gates :: ScanGates where
  "sample_gates = \<lparr>sg_latest_instant_time = ''9'', sg_instant_range = None, sg_timezone = ''utc'',
     sg_completion_gate = None\<rparr>"

text \<open>Two data blocks, a rollback of the first instant, and that instant written again.\<close>

definition sample_rolled_back :: "LogBlock list" where
  "sample_rolled_back = [sample_log_block AvroData [(InstantTime, ''1'')],
     sample_log_block ParquetData [(InstantTime, ''2'')],
     sample_log_block Command [(InstantTime, ''3''), (TargetInstantTime, ''1''), (CommandBlockType, ''0'')],
     sample_log_block DeleteBlock [(InstantTime, ''1'')]]"

lemmas sample_block_simps = sample_log_block_def log_block_new_def block_instant_def
  rolls_back_def is_rollback_block_def lb_command_block_type_def lb_target_instant_time_def
  lb_instant_time_def admitted_def carries_records_def

text \<open>C28: the first pass of the log scan keeps exactly the live blocks: a data or delete block
  that passes the gates and that no rollback command further on in the log takes back, grouped by instant in
  file order, the instants in the order of their first live block; an instant written again
  after its rollback counts from there.\<close>

theorem pass1_keeps_live_blocks:
  assumes "forward_scan_pass1 ch g bs = Ok r"
  shows "p1_ordered_instants_list r = first_seen (map block_instant (live_blocks ch g bs)) \<and>
    blocks_of r t = filter (\<lambda>b. block_instant b = t) (live_blocks ch g bs) \<and>
    (t \<in> set (p1_ordered_instants_list r) \<longleftrightarrow> blocks_of r t \<noteq> [])"
proof -
  let ?l = "live_blocks ch g bs"
  have p1: "p1_ordered_instants_list r = first_seen (map block_instant ?l)"
    "p1_instant_to_blocks_map r = group_of ?l"
    using forward_scan_groups [OF assms] by (simp_all add: groups_blocks_def)
  moreover have "blocks_of r t = filter (\<lambda>b. block_instant b = t) ?l"
    by (simp add: blocks_of_def p1 group_of_def split: list.split)
  ultimately show ?thesis by (auto simp: filter_empty_conv)
qed


lemma scan_without_range:
  assumes "sg_instant_range g = None"
  shows "\<exists>r. forward_scan_pass1 ch g bs = Ok r"
proof -
  have "\<exists>r'. pass1_step ch g r b = Ok r'" for r b
    by (cases "lb_instant_time b") (auto simp: pass1_step_def pass1_gates_def assms Let_def)
  then have "\<exists>r. res_fold (pass1_step ch g) r0 bs = Ok r" for r0
    by (induction bs arbitrary: r0) (auto simp: res_bind_Inr_iff, metis)
  then show ?thesis by (simp add: forward_scan_pass1_def)
qed

theorem pass1_keeps_live_blocks_witness:
  "\<exists>r. forward_scan_pass1 utc_chrono sample_gates sample_rolled_back = Ok r \<and>
    p1_ordered_instants_list r = [''2'', ''1''] \<and> blocks_of r ''1'' = [sample_rolled_back ! 3]"
proof -
  obtain r where r: "forward_scan_pass1 utc_chrono sample_gates sample_rolled_back = Ok r"
    using scan_without_range [of sample_gates] by (auto simp: sample_gates_def)
  have "live_blocks utc_chrono sample_gates sample_rolled_back = [sample_rolled_back ! 1, sample_rolled_back ! 3]"
    by (simp add: sample_rolled_back_def sample_block_simps pass1_gates_def sample_gates_def
        less_char_def command_block_of_str_def parse_uint_def all_digits_def is_digit_def digit_val_def)
  then show ?thesis
    using pass1_keeps_live_blocks [OF r, of "''1''"] r
    by (simp add: sample_rolled_back_def sample_block_simps first_seen_def)
qed

text \<open>C27: the second pass queues the blocks of an instant whole, last block first, and at most once.
  An instant that is no log compaction is queued, or a log compaction that stands for it (that names it, or
  names a compaction that does) is queued in its place; and when a log compaction written after the instant
  names it, it is the compaction that is queued and the instant's own blocks are not, so no record is
  merged both from its original block and from the compacted one.\<close>

theorem compaction_replaces_originals:
  assumes "forward_scan_pass1 ch g bs = Ok p1" "p2 = reverse_scan_pass2 p1"
  shows "p2_current_instant_log_blocks p2 = concat (map (\<lambda>t. rev (blocks_of p1 t)) (p2_valid_block_instants p2)) \<and>
    distinct (p2_valid_block_instants p2) \<and>
    set (p2_valid_block_instants p2) \<subseteq> set (p1_ordered_instants_list p1) \<and>
    (\<forall>t\<in>set (p1_ordered_instants_list p1). compaction_times p1 t = None \<longrightarrow>
       t \<in> set (p2_valid_block_instants p2) \<or>
       (\<exists>f\<in>set (p2_valid_block_instants p2). compaction_times p1 f \<noteq> None \<and> stands_for p1 f t)) \<and>
    (\<forall>older t newer c. p1_ordered_instants_list p1 = older @ t # newer \<longrightarrow> c \<in> set newer \<longrightarrow>
       compacts p1 c t \<longrightarrow> compaction_times p1 t = None \<longrightarrow>
       t \<notin> set (p2_valid_block_instants p2) \<and>
       (\<exists>f\<in>set (p2_valid_block_instants p2). compaction_times p1 f \<noteq> None \<and> stands_for p1 f t))"
proof -
  let ?o = "p1_ordered_instants_list p1"
  have p1: "?o = first_seen (map block_instant (live_blocks ch g bs))"
    "p1_instant_to_blocks_map p1 = group_of (live_blocks ch g bs)"
    using forward_scan_groups [OF assms(1)] by (simp_all add: groups_blocks_def)
  then have d: "distinct ?o" by simp
  have ne: "blocks_of p1 t \<noteq> []" if "t \<in> set ?o" for t
    using that group_of_Nil_iff [of "live_blocks ch g bs" t] by (auto simp: blocks_of_def p1)
  obtain m where inv: "pass2_inv p1 (rev ?o) p2 m" using reverse_scan_inv [OF d] assms(2) by blast
  have notin: "t \<notin> set (p2_valid_block_instants p2)"
    if t: "?o = older @ t # newer" "c \<in> set newer" "compacts p1 c t" "compaction_times p1 t = None"
    for older t newer c
  proof
    assume "t \<in> set (p2_valid_block_instants p2)"
    then have "uncompacted p1 (rev ?o) t" using inv t(4) by (auto simp: pass2_inv_def)
    then obtain xs ys where xs: "rev ?o = xs @ t # ys" "\<forall>c\<in>set xs. \<not> compacts p1 c t"
      by (auto simp: uncompacted_def)
    have o': "rev ?o = rev newer @ t # rev older" using t(1) by simp
    then have "t \<notin> set (rev newer)" "t \<notin> set (rev older)" using d t(1) by auto
    from append_Cons_eq_iff [OF this, of xs ys] have "xs = rev newer" using o' xs(1) by simp
    then show False using t(2,3) xs(2) by simp
  qed
  have stands: "t \<in> set (p2_valid_block_instants p2) \<or>
      (\<exists>f\<in>set (p2_valid_block_instants p2). compaction_times p1 f \<noteq> None \<and> stands_for p1 f t)"
    if "t \<in> set ?o" "compaction_times p1 t = None" for t
    using inv ne that unfolding pass2_inv_def by auto
  have "t \<notin> set (p2_valid_block_instants p2) \<and>
      (\<exists>f\<in>set (p2_valid_block_instants p2). compaction_times p1 f \<noteq> None \<and> stands_for p1 f t)"
    if t: "?o = older @ t # newer" "c \<in> set newer" "compacts p1 c t" "compaction_times p1 t = None"
    for older t newer c
    using notin [OF t] stands [OF _ t(4)] t(1) by auto
  then show ?thesis using inv stands unfolding pass2_inv_def by auto
qed

text \<open>Two data blocks and a log compaction of both.\<close>

definition sample_compacted :: "LogBlock list" where
  "sample_compacted = [sample_log_block AvroData [(InstantTime, ''1'')],
     sample_log_block AvroData [(InstantTime, ''2'')],
     sample_log_block ParquetData [(InstantTime, ''3''), (CompactedBlockTimes, ''1,2'')]]"

lemma sample_compacted_scan:
  "forward_scan_pass1 utc_chrono sample_gates sample_compacted = Ok
     \<lparr>p1_ordered_instants_list = [''1'', ''2'', ''3''],
      p1_instant_to_blocks_map = [''1'' \<mapsto> [sample_compacted ! 0], ''2'' \<mapsto> [sample_compacted ! 1],
        ''3'' \<mapsto> [sample_compacted ! 2]],
      p1_total_log_blocks = 3, p1_total_corrupt_blocks = 0, p1_total_rollbacks = 0\<rparr>"
  by (simp add: forward_scan_pass1_def sample_compacted_def pass1_empty_def pass1_step_def
      pass1_gates_def sample_gates_def pass1_classify_def sample_block_simps less_char_def
      fun_eq_iff)

theorem compaction_replaces_originals_witness:
  "\<exists>p1. forward_scan_pass1 utc_chrono sample_gates sample_compacted = Ok p1 \<and>
    compacts p1 ''3'' ''2'' \<and> ''2'' \<notin> set (p2_valid_block_instants (reverse_scan_pass2 p1)) \<and>
    (\<exists>f\<in>set (p2_valid_block_instants (reverse_scan_pass2 p1)). stands_for p1 f ''2'')"
proof -
  obtain p1 where p1: "forward_scan_pass1 utc_chrono sample_gates sample_compacted = Ok p1"
    "p1_ordered_instants_list p1 = [''1''] @ ''2'' # [''3'']"
    "p1_instant_to_blocks_map p1 = [''1'' \<mapsto> [sample_compacted ! 0], ''2'' \<mapsto> [sample_compacted ! 1],
        ''3'' \<mapsto> [sample_compacted ! 2]]"
    using sample_compacted_scan by simp
  have c: "compacts p1 ''3'' ''2''" "compaction_times p1 ''2'' = None"
    by (simp_all add: compacts_def compaction_times_def blocks_of_def p1(3) sample_compacted_def
        sample_log_block_def log_block_new_def trim_printable is_ascii_ws_def)
  have "''2'' \<notin> set (p2_valid_block_instants (reverse_scan_pass2 p1)) \<and>
      (\<exists>f\<in>set (p2_valid_block_instants (reverse_scan_pass2 p1)). stands_for p1 f ''2'')"
    using compaction_replaces_originals [OF p1(1) refl] p1(2) c
    by (metis list.set_intros(1))
  then show ?thesis using p1(1) c(1) by blast
qed

end
