(* ===== verification/Scan_Merge.thy ===== *)
theory Scan_Merge
  imports Log_Scan Merge_Rows
begin

text \<open>
  The third pass of the log scan: the windows cut the blocks to fetch without reordering them,
  never mix files and respect the budget, so fetching window by window and merging is the same
  as loading and merging the blocks one by one; and what the whole scan leaves in the record
  buffer for a key.
\<close>

section \<open>Windows\<close>

definition fetch_length :: "LogBlock \<Rightarrow> nat" where
  "fetch_length b = (case pending_fetch b of None \<Rightarrow> 0 | Some d \<Rightarrow> content_length (dfc_location d))"

definition window_bytes :: "LogBlock list \<Rightarrow> nat list \<Rightarrow> nat" where
  "window_bytes blocks w = min (sum_list (map (\<lambda>i. fetch_length (blocks ! i)) w)) (2 ^ 64 - 1)"

definition of_file :: "LogBlock list \<Rightarrow> string \<Rightarrow> nat list \<Rightarrow> bool" where
  "of_file blocks f w \<longleftrightarrow> list_all (\<lambda>i. map_option dfc_fetcher (pending_fetch (blocks ! i)) = Some f) w"

definition window_ok :: "LogBlock list \<Rightarrow> nat \<Rightarrow> nat list \<Rightarrow> bool" where
  "window_ok blocks budget w \<longleftrightarrow> w \<noteq> [] \<and> (\<exists>f. of_file blocks f w) \<and>
     (length w = 1 \<or> window_bytes blocks w \<le> budget)"

abbreviation needs_fetch :: "LogBlock list \<Rightarrow> nat \<Rightarrow> bool" where
  "needs_fetch blocks i \<equiv> pending_fetch (blocks ! i) \<noteq> None"

lemma window_bytes_snoc: "window_bytes blocks (w @ [i]) =
    saturating_add_u64 (window_bytes blocks w) (fetch_length (blocks ! i))"
  by (simp add: window_bytes_def saturating_add_u64_def min_def)

definition plan_inv :: "LogBlock list \<Rightarrow> nat \<Rightarrow> nat \<Rightarrow> ContentPlan \<Rightarrow> bool" where
  "plan_inv blocks budget k p \<longleftrightarrow>
     concat (cp_windows p) @ cp_current p = filter (needs_fetch blocks) [0 ..< k] \<and>
     list_all (window_ok blocks budget) (cp_windows p) \<and>
     (if cp_current p = [] then cp_current_file p = None \<and> cp_current_bytes p = 0
      else window_ok blocks budget (cp_current p) \<and>
        (\<exists>f. cp_current_file p = Some f \<and> of_file blocks f (cp_current p)) \<and>
        cp_current_bytes p = window_bytes blocks (cp_current p))"

lemma plan_inv_fresh:
  assumes "concat ws = filter (needs_fetch blocks) [0 ..< k]" "list_all (window_ok blocks budget) ws"
    and "pending_fetch (blocks ! k) = Some d"
  shows "plan_inv blocks budget (Suc k) (p\<lparr>cp_windows := ws, cp_current := [k],
    cp_current_file := Some (dfc_fetcher d),
    cp_current_bytes := saturating_add_u64 0 (content_length (dfc_location d))\<rparr>)"
  using assms by (auto simp: plan_inv_def window_ok_def of_file_def window_bytes_def
      saturating_add_u64_def fetch_length_def)

lemma plan_inv_step:
  assumes "plan_inv blocks budget k p"
  shows "plan_inv blocks budget (Suc k) (plan_step budget (k, blocks ! k) p)"
proof (cases "pending_fetch (blocks ! k)")
  case None
  then show ?thesis using assms by (simp add: plan_inv_def plan_step_def)
next
  case (Some d)
  note len = fetch_length_def [of "blocks ! k", unfolded Some option.case]
  show ?thesis
  proof (cases "cp_current p = []")
    case True
    then have "plan_step budget (k, blocks ! k) p = p\<lparr>cp_windows := cp_windows p, cp_current := [k],
        cp_current_file := Some (dfc_fetcher d),
        cp_current_bytes := saturating_add_u64 0 (content_length (dfc_location d))\<rparr>"
      using assms Some by (simp add: plan_step_def plan_inv_def Let_def)
    then show ?thesis
      by (simp only:) (rule plan_inv_fresh [OF _ _ Some]; use assms True in \<open>simp add: plan_inv_def\<close>)
  next
    case False
    then obtain f where f: "cp_current_file p = Some f" "of_file blocks f (cp_current p)"
      "window_ok blocks budget (cp_current p)" "cp_current_bytes p = window_bytes blocks (cp_current p)"
      using assms by (auto simp: plan_inv_def)
    show ?thesis
    proof (cases "f \<noteq> dfc_fetcher d \<or>
        saturating_add_u64 (cp_current_bytes p) (content_length (dfc_location d)) > budget")
      case True
      then have "plan_step budget (k, blocks ! k) p = p\<lparr>cp_windows := cp_windows p @ [cp_current p],
          cp_current := [k], cp_current_file := Some (dfc_fetcher d),
          cp_current_bytes := saturating_add_u64 0 (content_length (dfc_location d))\<rparr>"
        using Some False f(1) by (auto simp: plan_step_def Let_def)
      then show ?thesis
        by (simp only:) (rule plan_inv_fresh [OF _ _ Some];
          use assms False f(3) in \<open>simp add: plan_inv_def\<close>)
    next
      case fits: False
      then have "plan_step budget (k, blocks ! k) p = p\<lparr>cp_current := cp_current p @ [k],
          cp_current_file := Some f,
          cp_current_bytes := window_bytes blocks (cp_current p @ [k])\<rparr>"
        using Some False f by (simp add: plan_step_def Let_def window_bytes_snoc len)
      moreover have "window_bytes blocks (cp_current p @ [k]) \<le> budget"
        using fits f(4) by (simp add: window_bytes_snoc len)
      moreover have "of_file blocks f (cp_current p @ [k])"
        using f(2) fits Some by (simp add: of_file_def)
      moreover have "concat (cp_windows p) @ cp_current p @ [k] = filter (needs_fetch blocks) [0 ..< Suc k]"
        using assms Some by (simp add: plan_inv_def)
      ultimately show ?thesis
        using assms unfolding plan_inv_def window_ok_def by auto
    qed
  qed
qed

lemma plan_fold_inv:
  assumes "k \<le> length blocks"
  shows "plan_inv blocks budget k (fold (plan_step budget) (zip [0 ..< k] (take k blocks))
    \<lparr>cp_windows = [], cp_current = [], cp_current_file = None, cp_current_bytes = 0\<rparr>)"
  using assms
proof (induction k)
  case (Suc k)
  have "zip [0 ..< Suc k] (take (Suc k) blocks) = zip [0 ..< k] (take k blocks) @ [(k, blocks ! k)]"
    using Suc.prems by (simp add: take_Suc_conv_app_nth)
  then show ?case using Suc plan_inv_step by simp
qed (simp add: plan_inv_def)

lemma plan_windows_ok:
  "concat (plan_content_windows blocks budget) = filter (needs_fetch blocks) [0 ..< length blocks]"
  "list_all (window_ok blocks budget) (plan_content_windows blocks budget)"
proof -
  define p where "p = fold (plan_step budget) (zip [0 ..< length blocks] blocks)
    \<lparr>cp_windows = [], cp_current = [], cp_current_file = None, cp_current_bytes = 0\<rparr>"
  have "plan_inv blocks budget (length blocks) p"
    using plan_fold_inv [of "length blocks" blocks budget] by (simp add: p_def)
  moreover have "plan_content_windows blocks budget =
      (if cp_current p = [] then cp_windows p else cp_windows p @ [cp_current p])"
    by (simp add: plan_content_windows_def p_def Let_def)
  ultimately show "concat (plan_content_windows blocks budget) = filter (needs_fetch blocks) [0 ..< length blocks]"
    "list_all (window_ok blocks budget) (plan_content_windows blocks budget)"
    by (auto simp: plan_inv_def split: if_splits)
qed

section \<open>Loading block by block\<close>

definition load_and_merge :: "(string \<Rightarrow> nat \<Rightarrow> nat \<Rightarrow> byte list result) \<Rightarrow> content_decoder \<Rightarrow> merge_lib \<Rightarrow>
    LogBlock \<Rightarrow> RecordBuffer \<Rightarrow> RecordBuffer result" where
  "load_and_merge read_content decode ml b bf =
     (if carries_records (lb_block_type b) then
        res_bind (load_content decode read_content b) (\<lambda>b'.
        res_bind (process_block ml b' bf) (\<lambda>(_, bf'). Ok bf'))
      else Ok bf)"

text \<open>A batched read returns what the single reads return.\<close>

definition reads_each :: "(string \<Rightarrow> nat \<Rightarrow> nat \<Rightarrow> byte list result) \<Rightarrow> read_ranges" where
  "reads_each read_content f rs = res_map (\<lambda>(off, len). read_content f off len) rs"

definition fetch_block :: "(string \<Rightarrow> nat \<Rightarrow> nat \<Rightarrow> byte list result) \<Rightarrow> LogBlock \<Rightarrow> byte list result" where
  "fetch_block read_content b = (case pending_fetch b of None \<Rightarrow> Err Panic
     | Some d \<Rightarrow> read_content (dfc_fetcher d) (content_position (dfc_location d)) (content_length (dfc_location d)))"

lemma pending_fetch_Some:
  "pending_fetch b = Some d \<Longrightarrow> lb_deferred_content b = Some d \<and> lb_resident_content b = None \<and>
     carries_records (lb_block_type b)"
  by (simp add: pending_fetch_def split: if_splits)

lemma fetch_window_each:
  assumes "window_ok blocks budget w"
  shows "fetch_window (reads_each read_content) blocks w =
    res_bind (res_map (\<lambda>i. fetch_block read_content (blocks ! i)) w) (\<lambda>bs. Ok (zip w bs))"
proof -
  obtain f where f: "of_file blocks f w" "w \<noteq> []" using assms by (auto simp: window_ok_def)
  then have hd: "\<exists>d. lb_deferred_content (blocks ! hd w) = Some d \<and> dfc_fetcher d = f"
    by (cases w) (auto simp: of_file_def dest: pending_fetch_Some)
  let ?loc = "\<lambda>i. dfc_location (the (pending_fetch (blocks ! i)))"
  have a: "res_map (\<lambda>i. case lb_deferred_content (blocks ! i) of None \<Rightarrow> Err Panic
      | Some e \<Rightarrow> Ok (content_position (dfc_location e), content_length (dfc_location e))) us =
      Ok (map (\<lambda>i. (content_position (?loc i), content_length (?loc i))) us)"
    and b: "res_map (\<lambda>(off, len). read_content f off len)
      (map (\<lambda>i. (content_position (?loc i), content_length (?loc i))) us) =
      res_map (\<lambda>i. fetch_block read_content (blocks ! i)) us"
    if us: "of_file blocks f us" for us
  proof -
    have x: "\<exists>d. pending_fetch (blocks ! i) = Some d \<and> lb_deferred_content (blocks ! i) = Some d \<and>
        dfc_fetcher d = f" if "i \<in> set us" for i
      using us that pending_fetch_Some by (fastforce simp: of_file_def list_all_iff)
    then show "res_map (\<lambda>i. case lb_deferred_content (blocks ! i) of None \<Rightarrow> Err Panic
      | Some e \<Rightarrow> Ok (content_position (dfc_location e), content_length (dfc_location e))) us =
      Ok (map (\<lambda>i. (content_position (?loc i), content_length (?loc i))) us)"
      by (induction us) force+
    show "res_map (\<lambda>(off, len). read_content f off len)
      (map (\<lambda>i. (content_position (?loc i), content_length (?loc i))) us) =
      res_map (\<lambda>i. fetch_block read_content (blocks ! i)) us"
      using x by (induction us) (force simp: fetch_block_def)+
  qed
  show ?thesis
    using hd a [OF f(1)] b [OF f(1)] by (auto simp: fetch_window_def reads_each_def)
qed

lemma merge_block_load:
  assumes "content_is_empty (lb_content b)"
    and "case pending_fetch b of None \<Rightarrow> fetched = None
      | Some d \<Rightarrow> (\<exists>bs. fetched = Some bs \<and> fetch_block read_content b = Ok bs)"
  shows "merge_block decode ml b fetched bf = load_and_merge read_content decode ml b bf"
proof (cases "carries_records (lb_block_type b)")
  case True
  show ?thesis
  proof (cases "lb_resident_content b")
    case (Some bs)
    then show ?thesis
      using True assms by (simp add: merge_block_def load_and_merge_def queued_block_content_def
          load_content_def)
  next
    case None
    then show ?thesis
      using True assms by (cases "lb_deferred_content b") (auto simp: merge_block_def load_and_merge_def
          queued_block_content_def load_content_def pending_fetch_def fetch_block_def)
  qed
qed (simp add: merge_block_def load_and_merge_def)

lemma load_and_merge_Err:
  assumes "content_is_empty (lb_content b)" "pending_fetch b = Some d" "\<not> is_ok (fetch_block read_content b)"
  shows "\<not> is_ok (load_and_merge read_content decode ml b bf)"
  using assms pending_fetch_Some [OF assms(2)]
  by (cases "fetch_block read_content b")
    (auto simp: load_and_merge_def load_content_def fetch_block_def)

lemma res_fold_Err: "i \<in> set xs \<Longrightarrow> (\<And>s. \<not> is_ok (f s i)) \<Longrightarrow> \<not> is_ok (res_fold f s xs)"
proof (induction xs arbitrary: s)
  case (Cons x xs)
  show ?case
  proof (cases "f s x")
    case (Inr s')
    then have "x \<noteq> i" using Cons.prems(2) [of s] by auto
    then show ?thesis using Cons Inr by simp
  qed simp
qed simp

lemma res_map_Err: "res_map f xs = Inl e \<Longrightarrow> \<exists>x\<in>set xs. f x = Inl e"
proof (induction xs)
  case (Cons x xs)
  then show ?case by (cases "f x"; cases "res_map f xs") auto
qed simp

section \<open>Windows one after the other\<close>

lemma map_of_zip_outside: "i \<notin> set w \<Longrightarrow> map_of (zip w bs) i = None"
  by (metis map_of_eq_None_iff set_zip_leftD imageE prod.collapse)

lemma map_of_zip_inside:
  assumes "res_map g w = Ok bs" "distinct w" "i \<in> set w"
  shows "\<exists>b. map_of (zip w bs) i = Some b \<and> g i = Ok b"
  using assms
proof (induction w arbitrary: bs)
  case (Cons x w)
  then show ?case by (auto simp: res_bind_Inr_iff)
qed simp

lemma merge_window_load:
  assumes "window_ok blocks budget w" "filter (needs_fetch blocks) [c ..< last w + 1] = w"
    and "\<And>i. i < length blocks \<Longrightarrow> content_is_empty (lb_content (blocks ! i))" "last w < length blocks"
  shows "merge_window (reads_each read_content) decode ml blocks (bf, c) w = Ok s \<longleftrightarrow>
    (\<exists>bf'. res_fold (\<lambda>bf i. load_and_merge read_content decode ml (blocks ! i) bf) bf [c ..< last w + 1] = Ok bf' \<and>
       s = (bf', last w + 1))"
proof -
  have w: "i \<in> set w \<longleftrightarrow> i \<in> set [c ..< last w + 1] \<and> needs_fetch blocks i" for i
    using arg_cong [OF assms(2), of "\<lambda>l. i \<in> set l"] by auto
  show ?thesis
proof (cases "res_map (\<lambda>i. fetch_block read_content (blocks ! i)) w")
  case (Inl e)
  then obtain i where i: "i \<in> set w" "fetch_block read_content (blocks ! i) = Inl e"
    using res_map_Err by blast
  then have "i \<in> set [c ..< last w + 1]" "needs_fetch blocks i" using w by auto
  moreover from this have "\<not> is_ok (load_and_merge read_content decode ml (blocks ! i) b)" for b
    using load_and_merge_Err [OF assms(3)] i(2) assms(4) by fastforce
  ultimately have "\<not> is_ok (res_fold (\<lambda>bf i. load_and_merge read_content decode ml (blocks ! i) bf) bf
      [c ..< last w + 1])" by (intro res_fold_Err)
  then show ?thesis
    using fetch_window_each [OF assms(1), of read_content] Inl by (auto simp: merge_window_def)
next
  case (Inr bs)
  have d: "distinct w" using assms(2) by (metis distinct_filter distinct_upt)
  have "merge_block decode ml (blocks ! i) (map_of (zip w bs) i) b =
      load_and_merge read_content decode ml (blocks ! i) b" if i: "i \<in> set [c ..< last w + 1]" for i b
  proof (rule merge_block_load)
    have "i < length blocks" using assms(4) i by auto
    then show "content_is_empty (lb_content (blocks ! i))" by (rule assms(3))
    show "case pending_fetch (blocks ! i) of None \<Rightarrow> map_of (zip w bs) i = None
      | Some d \<Rightarrow> (\<exists>bs'. map_of (zip w bs) i = Some bs' \<and> fetch_block read_content (blocks ! i) = Ok bs')"
    proof (cases "pending_fetch (blocks ! i)")
      case None
      then have "i \<notin> set w" using w by auto
      then show ?thesis using None map_of_zip_outside by simp
    next
      case (Some d')
      then have "i \<in> set w" using w i by simp
      then show ?thesis using map_of_zip_inside [OF Inr d] Some by simp
    qed
  qed
  then have "merge_blocks decode ml blocks [c ..< last w + 1] (zip w bs) bf =
      res_fold (\<lambda>bf i. load_and_merge read_content decode ml (blocks ! i) bf) bf [c ..< last w + 1]"
    unfolding merge_blocks_def by (intro res_fold_inv_cong [where P = "\<lambda>_. True"]) auto
  then show ?thesis
    using fetch_window_each [OF assms(1), of read_content] Inr
    by (auto simp: merge_window_def res_bind_Inr_iff)
qed
qed


lemma upt_split: "c \<le> k \<Longrightarrow> k \<le> n \<Longrightarrow> [c ..< n] = [c ..< k] @ [k ..< n]"
  by (metis le_Suc_ex upt_add_eq_append)

lemma sorted_filter_upt: "sorted_wrt (<) (filter P [c ..< n])"
  by (intro sorted_wrt_filter) (simp add: sorted_wrt_upt)

lemma split_at_window:
  assumes "w @ rest = filter P [c ..< n]" "w \<noteq> []"
  shows "c \<le> last w" "last w < n" "filter P [c ..< last w + 1] = w" "filter P [last w + 1 ..< n] = rest"
proof -
  have m: "last w \<in> set (filter P [c ..< n])" using assms by (metis UnCI last_in_set set_append)
  then show l: "c \<le> last w" "last w < n" by auto
  have s: "sorted_wrt (<) (w @ rest)" unfolding assms(1) by (rule sorted_filter_upt)
  then have above: "\<forall>y\<in>set rest. last w < y" using assms(2) by (simp add: sorted_wrt_append)
  have below: "\<forall>x\<in>set w. x \<le> last w"
    using s assms(2) by (cases w rule: rev_cases) (auto simp: sorted_wrt_append)
  have e: "[c ..< n] = [c ..< last w + 1] @ [last w + 1 ..< n]"
    using l by (intro upt_split) simp_all
  have "filter (\<lambda>i. i \<le> last w) (w @ rest) = w" using above below by (auto simp: filter_id_conv filter_empty_conv)
  moreover have "filter (\<lambda>i. i \<le> last w) (filter P [c ..< n]) = filter P [c ..< last w + 1]"
    unfolding e by (auto simp: filter_empty_conv intro!: filter_cong)
  ultimately show "filter P [c ..< last w + 1] = w" using assms(1) by simp
  then show "filter P [last w + 1 ..< n] = rest" using assms(1) unfolding e by simp
qed

lemma windows_load:
  assumes "list_all (window_ok blocks budget) ws" "concat ws = filter (needs_fetch blocks) [c ..< length blocks]"
    and empty: "\<And>i. i < length blocks \<Longrightarrow> content_is_empty (lb_content (blocks ! i))"
  shows "res_bind (res_fold (merge_window (reads_each read_content) decode ml blocks) (bf, c) ws)
      (\<lambda>(bf', cursor). merge_blocks decode ml blocks [cursor ..< length blocks] [] bf') = Ok out \<longleftrightarrow>
    res_fold (\<lambda>bf i. load_and_merge read_content decode ml (blocks ! i) bf) bf [c ..< length blocks] = Ok out"
  using assms(1,2)
proof (induction ws arbitrary: bf c)
  case Nil
  have "merge_block decode ml (blocks ! i) (map_of [] i) b = load_and_merge read_content decode ml (blocks ! i) b"
    if "i \<in> set [c ..< length blocks]" for i b
  proof (rule merge_block_load)
    have "pending_fetch (blocks ! i) = None"
      using Nil.prems(2) that by (auto simp: filter_empty_conv dest!: sym [of "[]"])
    then show "case pending_fetch (blocks ! i) of None \<Rightarrow> map_of [] i = None
      | Some d \<Rightarrow> (\<exists>bs. map_of [] i = Some bs \<and> fetch_block read_content (blocks ! i) = Ok bs)" by simp
  qed (use empty that in simp)
  then have "merge_blocks decode ml blocks [c ..< length blocks] [] bf =
      res_fold (\<lambda>bf i. load_and_merge read_content decode ml (blocks ! i) bf) bf [c ..< length blocks]"
    unfolding merge_blocks_def by (intro res_fold_inv_cong [where P = "\<lambda>_. True"]) auto
  then show ?case by simp
next
  case (Cons w ws)
  have w: "window_ok blocks budget w" "w \<noteq> []" using Cons.prems(1) by (simp_all add: window_ok_def)
  have "w @ concat ws = filter (needs_fetch blocks) [c ..< length blocks]" using Cons.prems(2) by simp
  note s = split_at_window [OF this w(2)]
  have e: "[c ..< length blocks] = [c ..< last w + 1] @ [last w + 1 ..< length blocks]"
    using s(1,2) by (intro upt_split) simp_all
  note step = merge_window_load [OF w(1) s(3) empty s(2), of read_content decode ml bf]
  have IH: "res_bind (res_fold (merge_window (reads_each read_content) decode ml blocks) (bf', last w + 1) ws)
      (\<lambda>(bf', cursor). merge_blocks decode ml blocks [cursor ..< length blocks] [] bf') = Ok out \<longleftrightarrow>
    res_fold (\<lambda>bf i. load_and_merge read_content decode ml (blocks ! i) bf) bf' [last w + 1 ..< length blocks] = Ok out"
    for bf'
    using Cons.IH [of "last w + 1" bf'] Cons.prems(1) s(4) by simp
  let ?F = "\<lambda>b is. res_fold (\<lambda>bf i. load_and_merge read_content decode ml (blocks ! i) bf) b is"
  show ?case
  proof (cases "merge_window (reads_each read_content) decode ml blocks (bf, c) w")
    case (Inl e')
    then have "?F bf [c ..< last w + 1] \<noteq> Ok x" for x using step [of "(x, last w + 1)"] by auto
    then show ?thesis unfolding e res_fold_append res_bind_Inr_iff using Inl by simp
  next
    case (Inr s)
    then obtain bf' where bf': "?F bf [c ..< last w + 1] = Ok bf'" "s = (bf', last w + 1)"
      using step [of s] by blast
    show ?thesis
      unfolding e res_fold_append bf'(1) using Inr bf'(2) IH [of bf']
      by (simp del: upt_Suc upt.simps)
  qed
qed

lemma res_fold_nth: "res_fold (\<lambda>s i. g s (xs ! i)) s [0 ..< length xs] = res_fold g s xs"
  using res_fold_map [of g s "(!) xs" "[0 ..< length xs]"] by (simp add: map_nth)

lemma windowed_merge_loads_each:
  assumes "\<And>b. b \<in> set blocks \<Longrightarrow> content_is_empty (lb_content b)"
  shows "fetch_and_merge_windows (reads_each read_content) decode ml budget blocks bf = Ok out \<longleftrightarrow>
    res_fold (\<lambda>bf b. load_and_merge read_content decode ml b bf) bf blocks = Ok out"
proof -
  have "content_is_empty (lb_content (blocks ! i))" if "i < length blocks" for i
    using assms that nth_mem by blast
  note w = windows_load [OF plan_windows_ok(2) [of blocks budget] plan_windows_ok(1) [of blocks budget] this]
  show ?thesis
    using w [where read_content = read_content and decode = decode and ml = ml and bf = bf and out = out]
      res_fold_nth [of "\<lambda>bf b. load_and_merge read_content decode ml b bf" blocks bf]
    by (simp add: fetch_and_merge_windows_def)
qed

section \<open>Entries\<close>

text \<open>The versions of keys a loaded block carries.\<close>

definition log_block_entries :: "RecordContext \<Rightarrow> DeleteContext option \<Rightarrow> LogBlock \<Rightarrow>
    (string \<times> LogEntry) list result" where
  "log_block_entries rc dc b = (case lb_content b of
      Records ds dbs \<Rightarrow> if lb_block_type b = DeleteBlock then delete_block_entries dbs
        else data_block_entries rc dc ds
    | _ \<Rightarrow> Ok [])"

definition scan_entries :: "(string \<Rightarrow> nat \<Rightarrow> nat \<Rightarrow> byte list result) \<Rightarrow> content_decoder \<Rightarrow> RecordContext \<Rightarrow>
    DeleteContext option \<Rightarrow> LogBlock list \<Rightarrow> (string \<times> LogEntry) list result" where
  "scan_entries read_content decode rc dc blocks =
     res_bind (res_map (\<lambda>b. if carries_records (lb_block_type b)
         then res_bind (load_content decode read_content b) (log_block_entries rc dc) else Ok []) blocks)
       (\<lambda>ess. Ok (concat ess))"

lemma decode_fetched_type: "decode_fetched decode b bs = Ok b' \<Longrightarrow> lb_block_type b' = lb_block_type b"
  by (auto simp: decode_fetched_def res_bind_Inr_iff split: if_splits option.splits)

lemma load_content_type: "load_content decode rd b = Ok b' \<Longrightarrow> lb_block_type b' = lb_block_type b"
  by (auto simp: load_content_def res_bind_Inr_iff dest: decode_fetched_type split: if_splits option.splits)

lemma process_block_entries:
  assumes "log_block_entries (rb_record_context bf) (rb_delete_context bf) b = Ok es"
    and "carries_records (lb_block_type b)"
  shows "res_bind (process_block ml b bf) (\<lambda>(_, bf'). Ok bf') = res_fold (process_entry ml) bf es"
proof (cases "lb_content b")
  case (Records ds dbs)
  show ?thesis
  proof (cases "lb_block_type b = DeleteBlock")
    case True
    then have "delete_block_entries dbs = Ok es" using assms(1) Records by (simp add: log_block_entries_def)
    then show ?thesis
      using process_delete_block_entries [OF Records, of es bf ml] True
      by (cases "res_fold (process_entry ml) bf es") (simp_all add: process_block_def)
  next
    case False
    then have "data_block_entries (rb_record_context bf) (rb_delete_context bf) ds = Ok es"
      using assms(1) Records by (simp add: log_block_entries_def)
    then show ?thesis
      using process_data_block_entries [OF Records, of bf es ml] False assms(2)
      by (cases "res_fold (process_entry ml) bf es") (auto simp: process_block_def carries_records_def)
  qed
qed (use assms in \<open>auto simp: log_block_entries_def process_block_def process_data_block_def
    process_delete_block_def carries_records_def\<close>)

lemma load_and_merge_entries:
  assumes "res_map (\<lambda>b. if carries_records (lb_block_type b)
      then res_bind (load_content decode read_content b) (log_block_entries rc dc) else Ok []) blocks = Ok ess"
    and "rb_record_context bf = rc" "rb_delete_context bf = dc"
  shows "res_fold (\<lambda>bf b. load_and_merge read_content decode ml b bf) bf blocks =
    res_fold (process_entry ml) bf (concat ess)"
  using assms
proof (induction blocks arbitrary: bf ess)
  case (Cons b blocks)
  obtain es ess' where e: "(if carries_records (lb_block_type b)
      then res_bind (load_content decode read_content b) (log_block_entries rc dc) else Ok []) = Ok es"
    "res_map (\<lambda>b. if carries_records (lb_block_type b)
      then res_bind (load_content decode read_content b) (log_block_entries rc dc) else Ok []) blocks = Ok ess'"
    "ess = es # ess'"
    using Cons.prems(1) by (auto simp: res_bind_Inr_iff)
  have step: "load_and_merge read_content decode ml b bf = res_fold (process_entry ml) bf es"
  proof (cases "carries_records (lb_block_type b)")
    case True
    then obtain b' where b': "load_content decode read_content b = Ok b'" "log_block_entries rc dc b' = Ok es"
      using e(1) by (auto simp: res_bind_Inr_iff)
    have "carries_records (lb_block_type b')" using True load_content_type [OF b'(1)] by simp
    then show ?thesis
      using process_block_entries [of bf b' es ml] b' True Cons.prems(2,3)
      by (simp add: load_and_merge_def)
  qed (use e(1) in \<open>simp add: load_and_merge_def\<close>)
  show ?case
  proof (cases "res_fold (process_entry ml) bf es")
    case (Inr bf1)
    then have "same_setting bf bf1" by (rule process_entries_setting)
    then have "rb_record_context bf1 = rc" "rb_delete_context bf1 = dc"
      using same_settingD(3,4) Cons.prems(2,3) by simp_all
    then show ?thesis using Cons.IH [OF e(2)] step Inr e(3) by (simp add: res_fold_append)
  qed (simp add: step e(3) res_fold_append)
qed simp


section \<open>The scan as a fold over entries\<close>

text \<open>The blocks a scan merges, in order: the live blocks, instant by instant.\<close>

definition merge_order :: "LogBlock list \<Rightarrow> LogBlock list" where
  "merge_order bs = concat (map (\<lambda>t. filter (\<lambda>b. block_instant b = t) bs) (first_seen (map block_instant bs)))"

lemma set_merge_order: "set (merge_order bs) = set bs"
  by (auto simp: merge_order_def)

lemma set_live_blocks: "set (live_blocks ch g bs) \<subseteq> set bs"
  by (induction bs) auto

lemma merge_order_Nil_iff: "merge_order bs = [] \<longleftrightarrow> bs = []"
  using set_merge_order [of bs] by (metis set_empty)

lemma scan_internal_entries:
  assumes "forward_scan_pass1 ch g blocks = Ok p1"
    and "\<And>b. b \<in> set blocks \<Longrightarrow> content_is_empty (lb_content b)"
    and "\<And>b. b \<in> set (live_blocks ch g blocks) \<Longrightarrow> lb_header b CompactedBlockTimes = None"
    and "scan_entries read_content decode (rb_record_context bf) (rb_delete_context bf)
      (merge_order (live_blocks ch g blocks)) = Ok es"
  shows "scan_internal ch (reads_each read_content) decode ml budget g False blocks bf = Ok r \<longleftrightarrow>
    (\<exists>bf'. res_fold (process_entry ml) bf es = Ok bf' \<and>
      r = \<lparr>sr_valid_block_instants = p2_valid_block_instants (reverse_scan_pass2 p1),
           sr_total_log_blocks = p1_total_log_blocks p1, sr_total_corrupt_blocks = p1_total_corrupt_blocks p1,
           sr_total_rollbacks = p1_total_rollbacks p1, sr_record_buffer = bf'\<rparr>)"
proof -
  let ?l = "merge_order (live_blocks ch g blocks)"
  have q: "rev (p2_current_instant_log_blocks (reverse_scan_pass2 p1)) = ?l"
    using queue_without_compaction [OF assms(1,3)] by (simp add: merge_order_def)
  obtain ess where ess: "res_map (\<lambda>b. if carries_records (lb_block_type b)
      then res_bind (load_content decode read_content b)
        (log_block_entries (rb_record_context bf) (rb_delete_context bf)) else Ok []) ?l = Ok ess"
    "es = concat ess"
    using assms(4) by (auto simp: scan_entries_def res_bind_Inr_iff)
  have "content_is_empty (lb_content b)" if "b \<in> set ?l" for b
    using that set_live_blocks [of ch g blocks] assms(2) by (auto simp: set_merge_order)
  then have m: "fetch_and_merge_windows (reads_each read_content) decode ml budget ?l bf = Ok out \<longleftrightarrow>
      res_fold (process_entry ml) bf es = Ok out" for out
    using windowed_merge_loads_each [of ?l read_content decode ml budget bf out]
      load_and_merge_entries [OF ess(1) refl refl, of ml] ess(2) by simp
  show ?thesis
  proof (cases "?l = []")
    case True
    then have "es = []" "p2_current_instant_log_blocks (reverse_scan_pass2 p1) = []"
      using ess q by auto
    then show ?thesis by (auto simp: scan_internal_def assms(1))
  next
    case False
    then have "p2_current_instant_log_blocks (reverse_scan_pass2 p1) \<noteq> []" using q by auto
    then show ?thesis using m q by (auto simp: scan_internal_def assms(1) res_bind_Inr_iff)
  qed
qed

text \<open>The versions of a key, oldest first.\<close>

definition versions_of :: "string \<Rightarrow> (string \<times> LogEntry) list \<Rightarrow> LogEntry list" where
  "versions_of k es = map snd (filter (\<lambda>x. fst x = k) es)"

lemma scan_slot:
  assumes "scan_internal ch (reads_each read_content) decode ml budget g False blocks bf = Ok r"
    and "\<And>b. b \<in> set blocks \<Longrightarrow> content_is_empty (lb_content b)"
    and "\<And>b. b \<in> set (live_blocks ch g blocks) \<Longrightarrow> lb_header b CompactedBlockTimes = None"
    and "scan_entries read_content decode (rb_record_context bf) (rb_delete_context bf)
      (merge_order (live_blocks ch g blocks)) = Ok es"
    and "plain_entries bf es" "rb_records bf = []"
  shows "merge_all (merge_entry (ml_compare ml) (rb_merger bf)) (versions_of k es) =
    Ok (bm_get (rb_records (sr_record_buffer r)) k)"
proof -
  obtain p1 where p1: "forward_scan_pass1 ch g blocks = Ok p1"
    using assms(1) by (auto simp: scan_internal_def res_bind_Inr_iff)
  obtain bf' where bf': "res_fold (process_entry ml) bf es = Ok bf'" "sr_record_buffer r = bf'"
    using assms(1) scan_internal_entries [OF p1 assms(2-4), of ml budget r] by auto
  show ?thesis
    using process_entries_slot [OF bf'(1) assms(5), of k] assms(6) bf'(2)
    by (simp add: merge_all_def versions_of_def bm_get_def)
qed


section \<open>Properties\<close>

text \<open>The windows of the third pass cut the blocks that need a fetch into consecutive runs:
  nothing is lost, repeated or reordered, no window is empty or mixes files, and a window of
  more than one block stays within the memory budget.\<close>

theorem content_windows_partition:
  "concat (plan_content_windows blocks budget) =
     filter (\<lambda>i. pending_fetch (blocks ! i) \<noteq> None) [0 ..< length blocks] \<and>
   list_all (\<lambda>w. w \<noteq> [] \<and> (\<exists>f. of_file blocks f w) \<and>
     (length w = 1 \<or> window_bytes blocks w \<le> budget)) (plan_content_windows blocks budget)"
  using plan_windows_ok [of blocks budget] by (simp add: window_ok_def [abs_def])

text \<open>C29: fetching the queued blocks window by window and merging each window before the next is
  fetched has the same outcome as loading and merging the blocks one by one, oldest first.\<close>

theorem windowed_merge_is_block_by_block:
  assumes "list_all (\<lambda>b. content_is_empty (lb_content b)) blocks"
  shows "fetch_and_merge_windows (reads_each read_content) decode ml budget blocks bf = Ok out \<longleftrightarrow>
    res_fold (\<lambda>bf b. load_and_merge read_content decode ml b bf) bf blocks = Ok out"
  by (rule windowed_merge_loads_each) (use assms in \<open>auto simp: list_all_iff\<close>)

text \<open>C15: after a scan of a log under event-time ordering that succeeds, the record buffer holds for every
  key the version with the greatest ordering value, and of several with that value the last in merge order
  (instants in the order of their first live block, the blocks of each in file order); versions a rollback took back,
  and those the gates refused, do not count. The conditions: no live block is a log compaction, no record is a partial
  update and no column is filled from defaults or unavailable values (\<open>plain_entries\<close>), the buffer was empty, and the
  versions of the key have comparable ordering values, which leaves out deletes with the default one
  (\<open>event_comparable\<close>).\<close>

theorem scan_keeps_last_maximum:
  assumes "scan_internal ch (reads_each read_content) decode ml budget g False blocks bf = Ok r"
    and "list_all (\<lambda>b. content_is_empty (lb_content b)) blocks"
    and "list_all (\<lambda>b. lb_header b CompactedBlockTimes = None) (live_blocks ch g blocks)"
    and "scan_entries read_content decode (rb_record_context bf) (rb_delete_context bf)
      (merge_order (live_blocks ch g blocks)) = Ok es"
    and "plain_entries bf es" "rb_records bf = []" "rb_merger bf = EventTimeRecordMerger"
    and "list_all (\<lambda>e. event_comparable c (entry_record e)) (versions_of k es)"
  shows "if versions_of k es = [] then bm_get (rb_records (sr_record_buffer r)) k = None
    else \<exists>older m newer. map entry_record (versions_of k es) = older @ m # newer \<and>
      bm_get (rb_records (sr_record_buffer r)) k = Some m \<and>
      (\<forall>v\<in>set (map entry_record (versions_of k es)). ordering_not_above v m) \<and>
      (\<forall>v\<in>set newer. \<not> ordering_not_above m v)"
proof -
  have slot: "merge_all (merge_entry (ml_compare ml) EventTimeRecordMerger) (versions_of k es) =
      Ok (bm_get (rb_records (sr_record_buffer r)) k)"
    using scan_slot [OF assms(1) _ _ assms(4-6), of k] assms(2,3,7) by (simp add: list_all_iff)
  show ?thesis
  proof (cases "versions_of k es = []")
    case True
    then show ?thesis using slot by (simp add: merge_all_def)
  next
    case False
    have "event_comparable c (entry_record e)" if "e \<in> set (versions_of k es)" for e
      using assms(8) that by (simp add: list_all_iff)
    from et.merge_all_max [where cmpv = "ml_compare ml", OF False this] obtain older m newer where
      "map entry_record (versions_of k es) = older @ m # newer"
      "merge_all (merge_entry (ml_compare ml) EventTimeRecordMerger) (versions_of k es) = Ok (Some m)"
      "\<forall>v\<in>set (map entry_record (versions_of k es)). ordering_not_above v m"
      "\<forall>v\<in>set newer. \<not> ordering_not_above m v" by blast
    then show ?thesis using slot False by auto
  qed
qed

text \<open>C16: after a scan under commit-time ordering that succeeds, the record buffer holds for every key the
  version written last in merge order (instants in the order of their first live block, the blocks of each in
  file order), a delete included. The conditions: no live block is a log compaction, no record is a partial
  update and no column is filled from defaults or unavailable values (\<open>plain_entries\<close>), and the buffer was empty.\<close>

theorem scan_keeps_last_written:
  assumes "scan_internal ch (reads_each read_content) decode ml budget g False blocks bf = Ok r"
    and "list_all (\<lambda>b. content_is_empty (lb_content b)) blocks"
    and "list_all (\<lambda>b. lb_header b CompactedBlockTimes = None) (live_blocks ch g blocks)"
    and "scan_entries read_content decode (rb_record_context bf) (rb_delete_context bf)
      (merge_order (live_blocks ch g blocks)) = Ok es"
    and "plain_entries bf es" "rb_records bf = []" "rb_merger bf = CommitTimeRecordMerger"
  shows "bm_get (rb_records (sr_record_buffer r)) k =
    (if versions_of k es = [] then None else Some (entry_record (last (versions_of k es))))"
proof -
  have slot: "merge_all (merge_entry (ml_compare ml) CommitTimeRecordMerger) (versions_of k es) =
      Ok (bm_get (rb_records (sr_record_buffer r)) k)"
    using scan_slot [OF assms(1) _ _ assms(4-6), of k] assms(2,3,7) by (simp add: list_all_iff)
  show ?thesis
  proof (cases "versions_of k es = []")
    case True
    then show ?thesis using slot by (simp add: merge_all_def)
  next
    case False
    from ct.merge_all_max [OF False TrueI] obtain pre m post where
      "map entry_record (versions_of k es) = pre @ m # post"
      "merge_all (merge_entry (ml_compare ml) CommitTimeRecordMerger) (versions_of k es) = Ok (Some m)"
      "post = []" by (metis list.set_intros(1) neq_Nil_conv)
    then have "bm_get (rb_records (sr_record_buffer r)) k = Some m"
      "m = last (map entry_record (versions_of k es))" using slot by auto
    then show ?thesis using False by (simp add: last_map)
  qed
qed

section \<open>A small log\<close>

text \<open>A data block with a version of key \<open>a\<close> at 5, held from the walk, and a delete block with
  one at 3, to be fetched.\<close>

definition sample_location :: "nat \<Rightarrow> DeferredContent" where
  "sample_location p = \<lparr>dfc_location = \<lparr>content_position = p, content_length = 1\<rparr>, dfc_fetcher = ''f''\<rparr>"

definition sample_log_blocks :: "LogBlock list" where
  "sample_log_blocks =
     [(sample_log_block AvroData [(InstantTime, ''1'')])\<lparr>lb_deferred_content := Some (sample_location 0),
        lb_resident_content := Some [0]\<rparr>,
      (sample_log_block DeleteBlock [(InstantTime, ''2'')])\<lparr>lb_deferred_content := Some (sample_location 1)\<rparr>]"

definition sample_versions :: batch where
  "sample_versions = \<lparr>b_ptr = 1, b_schema = sample_schema, b_rows = [[VStr ''a'', VInt 5]]\<rparr>"

definition sample_decoder :: content_decoder where
  "sample_decoder v t h bs = Ok (if t = DeleteBlock
     then Records [] [\<lparr>db_num_rows = 1, db_keys = Some [Some ''a''], db_ordering = OrderingColumn DtInt64 [VInt 3]\<rparr>]
     else Records [sample_versions] [])"

definition sample_scan_buffer :: "RecordMerger \<Rightarrow> RecordBuffer" where
  "sample_scan_buffer m = sample_buffer\<lparr>rb_records := [], rb_merger := m,
     rb_record_context := sample_record_context\<lparr>rc_ordering_field_names := [''n'']\<rparr>\<rparr>"

definition sample_entries :: "(string \<times> LogEntry) list" where
  "sample_entries = [(''a'', DataEntry (new_batch_ref ''a'' sample_versions 0 (Some (OvLong 5)))),
     (''a'', DeleteEntry \<lparr>dr_record_key = ''a'', dr_ordering_value = Some (OvLong 3)\<rparr>)]"

lemma sample_live: "live_blocks utc_chrono sample_gates sample_log_blocks = sample_log_blocks"
  "merge_order sample_log_blocks = sample_log_blocks"
  by (simp_all add: sample_log_blocks_def sample_block_simps pass1_gates_def sample_gates_def
      less_char_def merge_order_def first_seen_def)

lemma sample_log_blocks_plain:
  "list_all (\<lambda>b. content_is_empty (lb_content b)) sample_log_blocks"
  "list_all (\<lambda>b. lb_header b CompactedBlockTimes = None) sample_log_blocks"
  by (simp_all add: sample_log_blocks_def sample_log_block_def log_block_new_def content_is_empty_def)


lemma sample_scan_entries:
  "scan_entries (\<lambda>_ _ n. Ok (replicate n 0)) sample_decoder (rb_record_context (sample_scan_buffer m))
     (rb_delete_context (sample_scan_buffer m)) sample_log_blocks = Ok sample_entries"
proof -
  have b: "b_rows sample_versions = [[VStr ''a'', VInt 5]]" "b_schema sample_versions = sample_schema"
    by (simp_all add: sample_versions_def)
  have keys: "record_key_array (sample_record_context\<lparr>rc_ordering_field_names := [''n'']\<rparr>) sample_versions = Ok [Some ''a'']"
    by (simp add: record_key_array_def sample_record_context_def key_column_def sample_versions_def
        sample_schema_def key_type_ok_def)
  have ord: "ordering_value_at (sample_record_context\<lparr>rc_ordering_field_names := [''n'']\<rparr>) sample_versions 0 = Some (OvLong 5)"
    by (simp add: ordering_value_at_def get_ordering_values_def sample_record_context_def batch_column_def
        sample_versions_def sample_schema_def column_to_ordering_values_def ordering_type_ok_def
        value_at_def slot_ordering_def nth_opt_def)
  have "batch_to_buffered_records (sample_record_context\<lparr>rc_ordering_field_names := [''n'']\<rparr>) sample_versions None =
      Ok [(''a'', new_batch_ref ''a'' sample_versions 0 (Some (OvLong 5)))]"
    by (simp add: batch_to_buffered_records_def get_record_keys_def keys ord b)
      (simp add: ord slice_row_def b sample_schema_def is_delete_record_def
        is_built_in_delete_record_def column_of_def is_delete_hoodie_operation_def field_position_def
        row_schema_def is_custom_delete_record_def)
  moreover have "rb_delete_context (sample_scan_buffer m) = None"
    by (simp add: sample_scan_buffer_def sample_buffer_def)
  ultimately show ?thesis
    by (simp add: scan_entries_def sample_log_blocks_def sample_block_simps load_content_def
        content_is_empty_def decode_fetched_def sample_location_def sample_decoder_def
        log_block_entries_def data_block_entries_def delete_block_entries_def sample_scan_buffer_def
        delete_batch_to_keys_with_ordering_def column_to_ordering_values_def ordering_type_ok_def
        value_at_def slot_ordering_def nth_opt_def sample_entries_def)
qed

lemma sample_plain: "plain_entries (sample_scan_buffer m) sample_entries"
  by (simp add: plain_entries_def sample_entries_def sample_scan_buffer_def incoming_is_partial_def
      br_get_record_def new_batch_ref_def payload_get_record_def slice_row_def sample_versions_def
      sample_schema_def schema_is_partial_def row_schema_def has_field_def)

lemma sample_versions_of: "versions_of ''a'' sample_entries = map snd sample_entries"
  by (simp add: versions_of_def sample_entries_def)

lemma sample_scan:
  assumes "m = EventTimeRecordMerger \<or> m = CommitTimeRecordMerger"
  shows "\<exists>r. scan_internal utc_chrono (reads_each (\<lambda>_ _ n. Ok (replicate n 0))) sample_decoder sample_lib 10
    sample_gates False sample_log_blocks (sample_scan_buffer m) = Ok r"
proof -
  obtain p1 where p1: "forward_scan_pass1 utc_chrono sample_gates sample_log_blocks = Ok p1"
    using scan_without_range [of sample_gates] by (auto simp: sample_gates_def)
  have "\<exists>bf. res_fold (process_entry sample_lib) (sample_scan_buffer m) sample_entries = Ok bf"
    using assms sample_plain [of m]
    by (auto simp: sample_entries_def process_entry_def process_next_data_record_def merge_data_record_def
        plain_entries_def merge_in_place_def delta_merge_def delta_merge_delete_def
        process_next_deleted_record_def sample_scan_buffer_def bm_get_def incoming_is_partial_def
        split: option.splits)
  then show ?thesis
    using scan_internal_entries [OF p1, of "\<lambda>_ _ n. Ok (replicate n 0)" sample_decoder "sample_scan_buffer m"
        sample_entries sample_lib 10] sample_log_blocks_plain sample_scan_entries [of m]
    by (auto simp: sample_live list_all_iff)
qed

theorem windowed_merge_is_block_by_block_witness:
  "fetch_and_merge_windows (reads_each (\<lambda>_ _ n. Ok (replicate n 0))) sample_decoder sample_lib 10
     sample_log_blocks sample_buffer = Ok sample_buffer \<longleftrightarrow>
   res_fold (\<lambda>bf b. load_and_merge (\<lambda>_ _ n. Ok (replicate n 0)) sample_decoder sample_lib b bf) sample_buffer
     sample_log_blocks = Ok sample_buffer"
  by (rule windowed_merge_is_block_by_block [OF sample_log_blocks_plain(1)])

theorem scan_keeps_last_maximum_witness:
  "\<exists>r. scan_internal utc_chrono (reads_each (\<lambda>_ _ n. Ok (replicate n 0))) sample_decoder sample_lib 10
     sample_gates False sample_log_blocks (sample_scan_buffer EventTimeRecordMerger) = Ok r \<and>
   bm_get (rb_records (sr_record_buffer r)) ''a'' = Some (new_batch_ref ''a'' sample_versions 0 (Some (OvLong 5)))"
proof -
  obtain r where r: "scan_internal utc_chrono (reads_each (\<lambda>_ _ n. Ok (replicate n 0))) sample_decoder sample_lib 10
      sample_gates False sample_log_blocks (sample_scan_buffer EventTimeRecordMerger) = Ok r"
    using sample_scan by blast
  have s: "rb_records (sample_scan_buffer EventTimeRecordMerger) = []"
    "rb_merger (sample_scan_buffer EventTimeRecordMerger) = EventTimeRecordMerger"
    by (simp_all add: sample_scan_buffer_def)
  have c: "list_all (\<lambda>e. event_comparable 0 (entry_record e)) (versions_of ''a'' sample_entries)"
    by (simp add: sample_versions_of) (simp add: sample_entries_def entry_record_def event_comparable_def
        variant_rank_def)
  have not_above: "\<not> ordering_not_above (new_batch_ref ''a'' sample_versions 0 (Some (OvLong 5)))
      (from_delete_record \<lparr>dr_record_key = ''a'', dr_ordering_value = Some (OvLong 3)\<rparr>)"
    by (simp add: ordering_not_above_def)
  have v: "map entry_record (versions_of ''a'' sample_entries) =
      [new_batch_ref ''a'' sample_versions 0 (Some (OvLong 5)),
       from_delete_record \<lparr>dr_record_key = ''a'', dr_ordering_value = Some (OvLong 3)\<rparr>]"
    by (simp add: sample_versions_of) (simp add: sample_entries_def entry_record_def)
  then have "versions_of ''a'' sample_entries \<noteq> []" by auto
  moreover have "list_all (\<lambda>b. lb_header b CompactedBlockTimes = None)
      (live_blocks utc_chrono sample_gates sample_log_blocks)"
    "scan_entries (\<lambda>_ _ n. Ok (replicate n 0)) sample_decoder
      (rb_record_context (sample_scan_buffer EventTimeRecordMerger))
      (rb_delete_context (sample_scan_buffer EventTimeRecordMerger))
      (merge_order (live_blocks utc_chrono sample_gates sample_log_blocks)) = Ok sample_entries"
    using sample_log_blocks_plain(2) sample_scan_entries by (simp_all add: sample_live)
  ultimately obtain older m newer where
    m: "map entry_record (versions_of ''a'' sample_entries) = older @ m # newer"
    "bm_get (rb_records (sr_record_buffer r)) ''a'' = Some m"
    "\<forall>v\<in>set (map entry_record (versions_of ''a'' sample_entries)). ordering_not_above v m"
    using scan_keeps_last_maximum [OF r sample_log_blocks_plain(1) _ _ sample_plain s c]
    unfolding if_not_P by metis
  have "m \<in> set (map entry_record (versions_of ''a'' sample_entries))" unfolding m(1) by simp
  then have "m = new_batch_ref ''a'' sample_versions 0 (Some (OvLong 5))"
    using m(3) not_above unfolding v by auto
  then show ?thesis using r m(2) by blast
qed

theorem scan_keeps_last_written_witness:
  "\<exists>r. scan_internal utc_chrono (reads_each (\<lambda>_ _ n. Ok (replicate n 0))) sample_decoder sample_lib 10
     sample_gates False sample_log_blocks (sample_scan_buffer CommitTimeRecordMerger) = Ok r \<and>
   bm_get (rb_records (sr_record_buffer r)) ''a'' = Some (new_delete ''a'' (Some (OvLong 3)))"
proof -
  obtain r where r: "scan_internal utc_chrono (reads_each (\<lambda>_ _ n. Ok (replicate n 0))) sample_decoder sample_lib 10
      sample_gates False sample_log_blocks (sample_scan_buffer CommitTimeRecordMerger) = Ok r"
    using sample_scan by blast
  have s: "rb_records (sample_scan_buffer CommitTimeRecordMerger) = []"
    "rb_merger (sample_scan_buffer CommitTimeRecordMerger) = CommitTimeRecordMerger"
    by (simp_all add: sample_scan_buffer_def)
  show ?thesis
    using scan_keeps_last_written [OF r sample_log_blocks_plain(1) _ _ sample_plain s, of "''a''"]
      sample_log_blocks_plain(2) sample_scan_entries r
    by (simp add: sample_live sample_versions_of) (simp add: sample_entries_def entry_record_def
        from_delete_record_def)
qed

end
