(* ===== verification/Storage_Reader.thy ===== *)
theory Storage_Reader
  imports Hudi_Bytes
begin

text \<open>
  The seekable reader over a file of the object store (\<open>storage/reader.rs\<close>). A reader holds the
  whole file, or a window of it that is refilled as the cursor moves. The ranged read of the
  object store is a parameter. The reader's methods are the interface \<open>byte_reader\<close> the log
  reader is written against; the second instance of it, a cursor over the bytes of the file, is
  what both kinds of reader refine.
\<close>

section \<open>State and results\<close>

text \<open>An operation on a reader: its result and the reader afterwards, an error included.\<close>

type_synonym ('s, 'a) rd = "'s \<Rightarrow> 'a result \<times> 's"

definition rd_return :: "'a \<Rightarrow> ('s, 'a) rd" where
  "rd_return x s = (Ok x, s)"

definition rd_lift :: "'a result \<Rightarrow> ('s, 'a) rd" where
  "rd_lift x s = (x, s)"

definition rd_bind :: "('s, 'a) rd \<Rightarrow> ('a \<Rightarrow> ('s, 'b) rd) \<Rightarrow> ('s, 'b) rd" where
  "rd_bind m f s = (case m s of (Inl e, s') \<Rightarrow> (Inl e, s') | (Inr x, s') \<Rightarrow> f x s')"

text \<open>Every IO error becomes the given error of the caller.\<close>

definition rd_map_err :: "error \<Rightarrow> ('s, 'a) rd \<Rightarrow> ('s, 'a) rd" where
  "rd_map_err e m s = (case m s of (Inl _, s') \<Rightarrow> (Inl e, s') | r \<Rightarrow> r)"

record 's byte_reader =
  br_read_bytes :: "nat \<Rightarrow> ('s, byte list) rd"
  br_seek_to :: "nat \<Rightarrow> 's \<Rightarrow> 's"
  br_position :: "'s \<Rightarrow> nat"
  br_file_len :: "'s \<Rightarrow> nat"
  br_has_resident :: "nat \<Rightarrow> nat \<Rightarrow> 's \<Rightarrow> bool"

definition rd_seek :: "'s byte_reader \<Rightarrow> nat \<Rightarrow> ('s, unit) rd" where
  "rd_seek ops p s = (Ok (), br_seek_to ops p s)"

definition rd_position :: "'s byte_reader \<Rightarrow> ('s, nat) rd" where
  "rd_position ops s = (Ok (br_position ops s), s)"

definition rd_file_len :: "'s byte_reader \<Rightarrow> ('s, nat) rd" where
  "rd_file_len ops s = (Ok (br_file_len ops s), s)"

section \<open>The storage reader\<close>

record StorageReader =
  sto_file_len :: nat
  sto_pos :: nat
  sto_whole :: "byte list option"
  sto_window :: "byte list"
  sto_window_start :: nat
  sto_window_size :: nat

definition checked_add_u64 :: "nat \<Rightarrow> nat \<Rightarrow> nat option" where
  "checked_add_u64 a b = (if a + b < 2 ^ 64 then Some (a + b) else None)"

definition checked_sub_u64 :: "nat \<Rightarrow> nat \<Rightarrow> nat option" where
  "checked_sub_u64 a b = (if b \<le> a then Some (a - b) else None)"

text \<open>The object store's ranged read: start and end of the range.\<close>

type_synonym object_range = "nat \<Rightarrow> nat \<Rightarrow> byte list result"

definition get_range :: "object_range \<Rightarrow> nat \<Rightarrow> nat \<Rightarrow> byte list result" where
  "get_range store off len = (case checked_add_u64 off len of
      None \<Rightarrow> Err StorageError
    | Some e \<Rightarrow> (case store off e of Inl _ \<Rightarrow> Err StorageError | Inr bs \<Rightarrow> Ok bs))"

definition DEFAULT_STREAM_WINDOW_SIZE :: nat where "DEFAULT_STREAM_WINDOW_SIZE = 16 * 1024 * 1024"

definition CONFIG_DFS_BUFFER_MAX_SIZE :: string where
  "CONFIG_DFS_BUFFER_MAX_SIZE = ''hoodie.memory.dfs.buffer.max.size''"

text \<open>The window the configuration asks for: a value that is no positive byte count is an error.\<close>

definition stream_window_size :: "(string \<Rightarrow> string option) \<Rightarrow> nat result" where
  "stream_window_size options = (case options CONFIG_DFS_BUFFER_MAX_SIZE of
      None \<Rightarrow> Ok DEFAULT_STREAM_WINDOW_SIZE
    | Some raw \<Rightarrow> (case parse_uint 64 (trim raw) of
          None \<Rightarrow> Err StorageError
        | Some n \<Rightarrow> if n = 0 then Err StorageError else Ok n))"

definition CONFIG_HFILE_WHOLE_READ_MAX_SIZE_MB :: string where
  "CONFIG_HFILE_WHOLE_READ_MAX_SIZE_MB = ''hoodie.metadata.file.cache.max.size.mb''"

definition DEFAULT_HFILE_WHOLE_READ_MAX_SIZE_MB :: nat where "DEFAULT_HFILE_WHOLE_READ_MAX_SIZE_MB = 50"

text \<open>Zero is meaningful here: the file is never read whole.\<close>

definition hfile_whole_read_max_size :: "(string \<Rightarrow> string option) \<Rightarrow> nat result" where
  "hfile_whole_read_max_size options =
     res_bind (case options CONFIG_HFILE_WHOLE_READ_MAX_SIZE_MB of
         None \<Rightarrow> Ok DEFAULT_HFILE_WHOLE_READ_MAX_SIZE_MB
       | Some raw \<Rightarrow> ok_or StorageError (parse_uint 64 (trim raw)))
       (\<lambda>mb. Ok (min (mb * (1024 * 1024)) (2 ^ 64 - 1)))"

definition storage_reader_new :: "byte list \<Rightarrow> StorageReader" where
  "storage_reader_new bytes = \<lparr>sto_file_len = length bytes, sto_pos = 0, sto_whole = Some bytes,
     sto_window = [], sto_window_start = 0, sto_window_size = DEFAULT_STREAM_WINDOW_SIZE\<rparr>"

definition storage_reader_streaming :: "nat \<Rightarrow> nat \<Rightarrow> StorageReader" where
  "storage_reader_streaming flen window_size = \<lparr>sto_file_len = flen, sto_pos = 0, sto_whole = None,
     sto_window = [], sto_window_start = 0, sto_window_size = window_size\<rparr>"

definition seek_to :: "nat \<Rightarrow> StorageReader \<Rightarrow> StorageReader" where
  "seek_to p r = r\<lparr>sto_pos := p\<rparr>"

definition window_covers :: "nat \<Rightarrow> nat \<Rightarrow> StorageReader \<Rightarrow> bool" where
  "window_covers a b r = (a \<ge> sto_window_start r \<and> b \<le> sto_window_start r + length (sto_window r))"

definition has_resident :: "nat \<Rightarrow> nat \<Rightarrow> StorageReader \<Rightarrow> bool" where
  "has_resident a b r = (if sto_whole r \<noteq> None then b \<le> sto_file_len r else window_covers a b r)"

definition fill_window :: "object_range \<Rightarrow> (StorageReader, unit) rd" where
  "fill_window store r =
     (let e = min (min (sto_pos r + sto_window_size r) (2 ^ 64 - 1)) (sto_file_len r) in
      case get_range store (sto_pos r) (e - sto_pos r) of
        Inl err \<Rightarrow> (Inl err, r)
      | Inr bs \<Rightarrow> (Ok (), r\<lparr>sto_window := bs, sto_window_start := sto_pos r\<rparr>))"

text \<open>The bytes of the window at the cursor.\<close>

definition take_window :: "nat \<Rightarrow> (StorageReader, byte list) rd" where
  "take_window len r =
     (let off = sto_pos r - sto_window_start r;
          resident = length (sto_window r) - off
      in if resident < len then (Err EofError, r)
         else (Ok (take len (drop off (sto_window r))), r\<lparr>sto_pos := sto_pos r + len\<rparr>))"

definition read_bytes :: "object_range \<Rightarrow> nat \<Rightarrow> (StorageReader, byte list) rd" where
  "read_bytes store len r =
     (if len = 0 then (Ok [], r)
      else case checked_add_u64 (sto_pos r) len of
        None \<Rightarrow> (Err StorageError, r)
      | Some e \<Rightarrow>
          if e > sto_file_len r then (Err EofError, r)
          else case sto_whole r of
            Some bytes \<Rightarrow> (Ok (take len (drop (sto_pos r) bytes)), r\<lparr>sto_pos := e\<rparr>)
          | None \<Rightarrow>
              if len > sto_window_size r then
                (case get_range store (sto_pos r) len of
                   Inl err \<Rightarrow> (Inl err, r)
                 | Inr bs \<Rightarrow> (Ok bs, r\<lparr>sto_pos := e\<rparr>))
              else if window_covers (sto_pos r) e r then take_window len r
              else rd_bind (fill_window store) (\<lambda>_. take_window len) r)"

definition storage_ops :: "object_range \<Rightarrow> StorageReader byte_reader" where
  "storage_ops store = \<lparr>br_read_bytes = read_bytes store, br_seek_to = seek_to, br_position = sto_pos,
     br_file_len = sto_file_len, br_has_resident = has_resident\<rparr>"

section \<open>A cursor over the file\<close>

definition cursor_read :: "byte list \<Rightarrow> nat \<Rightarrow> (nat, byte list) rd" where
  "cursor_read file len p =
     (if len = 0 then (Ok [], p)
      else if p + len \<ge> 2 ^ 64 then (Err StorageError, p)
      else if p + len > length file then (Err EofError, p)
      else (Ok (take len (drop p file)), p + len))"

definition cursor_ops :: "byte list \<Rightarrow> nat byte_reader" where
  "cursor_ops file = \<lparr>br_read_bytes = cursor_read file, br_seek_to = (\<lambda>p _. p), br_position = (\<lambda>p. p),
     br_file_len = (\<lambda>_. length file), br_has_resident = (\<lambda>_ _ _. False)\<rparr>"

text \<open>A file the store serves: ranges inside the file come back in full.\<close>

definition serves :: "object_range \<Rightarrow> byte list \<Rightarrow> bool" where
  "serves store file \<longleftrightarrow> length file < 2 ^ 64 \<and>
     (\<forall>a b. a \<le> b \<longrightarrow> b \<le> length file \<longrightarrow> store a b = Ok (take (b - a) (drop a file)))"

definition reader_ok :: "byte list \<Rightarrow> StorageReader \<Rightarrow> bool" where
  "reader_ok file r \<longleftrightarrow> sto_file_len r = length file \<and>
     (case sto_whole r of
        Some bytes \<Rightarrow> bytes = file
      | None \<Rightarrow> sto_window_start r + length (sto_window r) \<le> length file \<and>
          sto_window r = take (length (sto_window r)) (drop (sto_window_start r) file))"

lemma reader_ok_new: "reader_ok file (storage_reader_new file)"
  by (simp add: reader_ok_def storage_reader_new_def)

lemma reader_ok_streaming: "reader_ok file (storage_reader_streaming (length file) n)"
  by (simp add: reader_ok_def storage_reader_streaming_def)

lemma reader_ok_seek: "reader_ok file r \<Longrightarrow> reader_ok file (seek_to p r)"
  by (auto simp: reader_ok_def seek_to_def split: option.splits)

lemma get_range_serves:
  "serves store file \<Longrightarrow> off + len \<le> length file \<Longrightarrow> get_range store off len = Ok (take len (drop off file))"
  by (simp add: get_range_def serves_def checked_add_u64_def)

lemma take_window_ok:
  assumes "reader_ok file r" "sto_whole r = None" "window_covers (sto_pos r) (sto_pos r + len) r"
  shows "take_window len r = (Ok (take len (drop (sto_pos r) file)), r\<lparr>sto_pos := sto_pos r + len\<rparr>)"
proof -
  let ?w = "sto_window r" and ?off = "sto_pos r - sto_window_start r"
  have c: "sto_window_start r \<le> sto_pos r" "?off + len \<le> length ?w"
    using assms(3) by (auto simp: window_covers_def)
  have "?w = take (length ?w) (drop (sto_window_start r) file)" using assms(1,2) by (simp add: reader_ok_def)
  then have "take len (drop ?off ?w) = take len (drop ?off (take (length ?w) (drop (sto_window_start r) file)))"
    by simp
  also have "\<dots> = take len (drop (sto_pos r) file)"
    using c by (simp add: drop_take min_def)
  finally show ?thesis using c(2) by (simp add: take_window_def Let_def)
qed

lemma fill_window_ok:
  assumes "reader_ok file r" "serves store file" "sto_whole r = None" "sto_pos r + len \<le> length file"
    and "len \<le> sto_window_size r"
  shows "\<exists>r'. fill_window store r = (Ok (), r') \<and> reader_ok file r' \<and> sto_whole r' = None \<and>
    sto_pos r' = sto_pos r \<and> window_covers (sto_pos r) (sto_pos r + len) r'"
proof -
  let ?e = "min (min (sto_pos r + sto_window_size r) (2 ^ 64 - 1)) (sto_file_len r)"
  have len: "sto_file_len r = length file" "length file < 2 ^ 64"
    using assms(1,2) by (simp_all add: reader_ok_def serves_def)
  then have e: "?e \<le> length file" "sto_pos r + len \<le> ?e" using assms(4,5) by auto
  then have "get_range store (sto_pos r) (?e - sto_pos r) = Ok (take (?e - sto_pos r) (drop (sto_pos r) file))"
    by (intro get_range_serves assms(2)) simp
  moreover have "length (take (?e - sto_pos r) (drop (sto_pos r) file)) = ?e - sto_pos r" using e by simp
  ultimately show ?thesis
    using e len(1) assms(3) by (auto simp: fill_window_def Let_def reader_ok_def window_covers_def)
qed

lemma read_bytes_cursor:
  assumes "reader_ok file r" "serves store file"
  shows "\<exists>r'. read_bytes store len r = (fst (cursor_read file len (sto_pos r)), r') \<and> reader_ok file r' \<and>
    sto_pos r' = snd (cursor_read file len (sto_pos r))"
proof (cases "len = 0 \<or> sto_pos r + len \<ge> 2 ^ 64 \<or> sto_pos r + len > length file")
  case True
  then show ?thesis
    using assms by (auto simp: read_bytes_def cursor_read_def checked_add_u64_def reader_ok_def)
next
  case False
  then have c: "cursor_read file len (sto_pos r) = (Ok (take len (drop (sto_pos r) file)), sto_pos r + len)"
    "sto_pos r + len \<le> length file" "len \<noteq> 0" "checked_add_u64 (sto_pos r) len = Some (sto_pos r + len)"
    by (simp_all add: cursor_read_def checked_add_u64_def)
  have l: "sto_file_len r = length file" using assms(1) by (simp add: reader_ok_def)
  show ?thesis
  proof (cases "sto_whole r")
    case (Some bytes)
    then show ?thesis using assms(1) c l by (simp add: read_bytes_def reader_ok_def)
  next
    case None
    have upd: "reader_ok file (r'\<lparr>sto_pos := p\<rparr>)" if "reader_ok file r'" for r' p
      using reader_ok_seek [OF that] by (simp add: seek_to_def)
    consider "len > sto_window_size r" | "len \<le> sto_window_size r" "window_covers (sto_pos r) (sto_pos r + len) r"
      | "len \<le> sto_window_size r" "\<not> window_covers (sto_pos r) (sto_pos r + len) r" by linarith
    then show ?thesis
    proof cases
      case 1
      then show ?thesis
        using c l None get_range_serves [OF assms(2) c(2)] upd [OF assms(1)] by (simp add: read_bytes_def)
    next
      case 2
      then show ?thesis
        using c l None take_window_ok [OF assms(1) None 2(2)] upd [OF assms(1)] by (simp add: read_bytes_def)
    next
      case 3
      obtain r' where r': "fill_window store r = (Ok (), r')" "reader_ok file r'" "sto_whole r' = None"
        "sto_pos r' = sto_pos r" "window_covers (sto_pos r) (sto_pos r + len) r'"
        using fill_window_ok [OF assms None c(2) 3(1)] by blast
      then show ?thesis
        using c l None 3 take_window_ok [OF r'(2,3), of len] upd [OF r'(2)]
        by (simp add: read_bytes_def rd_bind_def)
    qed
  qed
qed

end
