(* ===== verification/Log_Reader.thy ===== *)
theory Log_Reader
  imports Storage_Reader Log_Block
begin

text \<open>
  Reading the blocks of a log file (\<open>file_group/log_file/reader.rs\<close>): the framing of a block
  (magic, length, version, type, header, content, footer, total length), the check that a block
  is not corrupt, the scan for the next magic after one that is, the headers-only walk of a
  file and the walk that decodes. The operations are written against the interface of the
  storage reader (\<open>byte_reader\<close>); the content decoder is a parameter.
\<close>

definition MAGIC :: "byte list" where
  "MAGIC = str_bytes ''#HUDI#''"

lemma length_MAGIC [simp]: "length MAGIC = 6"
  by (simp add: MAGIC_def)

section \<open>Primitive reads\<close>

definition read_exact :: "'s byte_reader \<Rightarrow> nat \<Rightarrow> ('s, byte list) rd" where
  "read_exact ops n = rd_map_err ReadLogFileError (br_read_bytes ops n)"

text \<open>\<open>read_magic\<close>: the end of the file is not an error.\<close>

definition read_magic :: "'s byte_reader \<Rightarrow> ('s, bool) rd" where
  "read_magic ops s = (case br_read_bytes ops 6 s of
      (Inr m, s') \<Rightarrow> (if m = MAGIC then Ok True else Err LogFormatError, s')
    | (Inl e, s') \<Rightarrow> (if e = EofError then Ok False else Err ReadLogFileError, s'))"

definition next_is_magic_or_eof :: "'s byte_reader \<Rightarrow> ('s, bool) rd" where
  "next_is_magic_or_eof ops s = (case br_read_bytes ops 6 s of
      (Inr m, s') \<Rightarrow> (Ok (m = MAGIC), s')
    | (Inl e, s') \<Rightarrow> (if e = EofError then Ok True else Err ReadLogFileError, s'))"

definition read_u64 :: "'s byte_reader \<Rightarrow> ('s, nat) rd" where
  "read_u64 ops = rd_bind (read_exact ops 8) (\<lambda>bs. rd_return (be_nat bs))"

definition read_block_length :: "'s byte_reader \<Rightarrow> ('s, nat) rd" where
  "read_block_length ops = read_u64 ops"

section \<open>Corruption\<close>

definition is_block_corrupted :: "'s byte_reader \<Rightarrow> nat \<Rightarrow> nat \<Rightarrow> ('s, bool) rd" where
  "is_block_corrupted ops magic_pos block_length =
     (case Option.bind (checked_add_u64 magic_pos 6) (\<lambda>v. checked_add_u64 v 8) of
        None \<Rightarrow> rd_return True
      | Some after_length \<Rightarrow>
          (case Option.bind (checked_add_u64 after_length block_length) (\<lambda>v. checked_sub_u64 v 8) of
             None \<Rightarrow> rd_return True
           | Some trailing_pos \<Rightarrow>
               rd_bind (rd_file_len ops) (\<lambda>stream_len.
                 if (case checked_add_u64 trailing_pos 8 of None \<Rightarrow> True | Some e \<Rightarrow> e > stream_len)
                 then rd_bind (rd_seek ops after_length) (\<lambda>_. rd_return True)
                 else rd_bind (rd_seek ops trailing_pos) (\<lambda>_.
                   rd_bind (read_u64 ops) (\<lambda>trailing.
                   let corrupt = (case checked_sub_u64 trailing 6 of
                         Some size_from_footer \<Rightarrow> size_from_footer \<noteq> block_length | None \<Rightarrow> True)
                   in rd_bind (rd_lift (ok_or LogFormatError (checked_add_u64 after_length block_length)))
                     (\<lambda>block_end.
                       rd_bind (if corrupt then rd_return True
                         else rd_bind (rd_seek ops block_end) (\<lambda>_.
                           rd_bind (next_is_magic_or_eof ops) (\<lambda>m. rd_return (\<not> m))))
                         (\<lambda>result. rd_bind (rd_seek ops after_length) (\<lambda>_. rd_return result))))))))"

definition find_subslice :: "byte list \<Rightarrow> byte list \<Rightarrow> nat option" where
  "find_subslice haystack needle =
     (if needle = [] \<or> length haystack < length needle then None
      else find (\<lambda>i. take (length needle) (drop i haystack) = needle)
        [0 ..< length haystack - length needle + 1])"

definition BLOCK_SCAN_READ_BUFFER_SIZE :: nat where
  "BLOCK_SCAN_READ_BUFFER_SIZE = 1024 * 1024"

text \<open>The loop of \<open>scan_for_next_block_offset\<close>: windows that overlap by one byte less than the
  magic. A full window advances the position, a short one ends the scan.\<close>

function scan_windows :: "'s byte_reader \<Rightarrow> nat \<Rightarrow> nat \<Rightarrow> ('s, nat) rd" where
  "scan_windows ops stream_len pos =
     (if stream_len < pos then rd_return stream_len
      else let window = min (stream_len - pos) BLOCK_SCAN_READ_BUFFER_SIZE in
        if window = 0 then rd_return stream_len
        else rd_bind (rd_seek ops pos) (\<lambda>_.
          rd_bind (read_exact ops window) (\<lambda>buf.
            case find_subslice buf MAGIC of
              Some idx \<Rightarrow> rd_return (pos + idx)
            | None \<Rightarrow> if window < BLOCK_SCAN_READ_BUFFER_SIZE then rd_return stream_len
                else scan_windows ops stream_len (pos + (window - 5)))))"
  by pat_completeness auto
termination
  by (relation "measure (\<lambda>(ops, n, pos). n - pos)") (auto simp: BLOCK_SCAN_READ_BUFFER_SIZE_def)

declare scan_windows.simps [simp del]

definition scan_for_next_block_offset :: "'s byte_reader \<Rightarrow> nat \<Rightarrow> ('s, nat) rd" where
  "scan_for_next_block_offset ops from_pos =
     rd_bind (rd_file_len ops) (\<lambda>stream_len.
       scan_windows ops stream_len (min (from_pos + 6) (2 ^ 64 - 1)))"

definition create_corrupted_block :: "'s byte_reader \<Rightarrow> nat \<Rightarrow> ('s, LogBlock) rd" where
  "create_corrupted_block ops magic_pos =
     rd_bind (scan_for_next_block_offset ops magic_pos) (\<lambda>next_offset.
     rd_bind (rd_seek ops next_offset) (\<lambda>_.
       rd_return (log_block_new LogFormatV1 Corrupted Map.empty EmptyContent Map.empty)))"

section \<open>The parts of a block\<close>

definition read_log_format_version :: "'s byte_reader \<Rightarrow> ('s, LogFormatVersion) rd" where
  "read_log_format_version ops = rd_bind (read_exact ops 4) (\<lambda>bs. rd_lift (log_format_of_bytes bs))"

definition read_block_type :: "'s byte_reader \<Rightarrow> LogFormatVersion \<Rightarrow> ('s, BlockType) rd" where
  "read_block_type ops v =
     (if \<not> has_block_type v then rd_lift (Err LogFormatError)
      else rd_bind (read_exact ops 4) (\<lambda>bs. rd_lift (block_type_of_bytes bs)))"

datatype BlockMetadataType = Header | Footer

fun read_entries :: "'s byte_reader \<Rightarrow> nat \<Rightarrow> block_metadata \<Rightarrow> ('s, block_metadata) rd" where
  "read_entries ops 0 m = rd_return m"
| "read_entries ops (Suc n) m =
     rd_bind (read_exact ops 4) (\<lambda>kb. rd_bind (rd_lift (metadata_key_of_bytes kb)) (\<lambda>k.
     rd_bind (read_exact ops 4) (\<lambda>lb. rd_bind (read_exact ops (be_nat lb)) (\<lambda>vb.
     rd_bind (rd_lift (from_utf8 vb)) (\<lambda>v. read_entries ops n (m(k \<mapsto> v)))))))"

definition read_block_metadata :: "'s byte_reader \<Rightarrow> BlockMetadataType \<Rightarrow> LogFormatVersion \<Rightarrow>
    ('s, block_metadata) rd" where
  "read_block_metadata ops mt v =
     (if mt = Header \<and> \<not> has_header v \<or> mt = Footer \<and> \<not> has_footer v then rd_return Map.empty
      else rd_bind (read_exact ops 4) (\<lambda>nb. read_entries ops (be_nat nb) Map.empty))"

definition read_total_block_length :: "'s byte_reader \<Rightarrow> LogFormatVersion \<Rightarrow> ('s, nat option) rd" where
  "read_total_block_length ops v =
     (if \<not> has_total_log_block_length v then rd_return None
      else rd_bind (read_u64 ops) (\<lambda>n. rd_return (Some n)))"

definition should_skip_block :: "chrono \<Rightarrow> string \<Rightarrow> block_metadata \<Rightarrow> InstantRange \<Rightarrow> bool result" where
  "should_skip_block ch tz header r =
     res_bind (ok_or LogFormatError (header InstantTime)) (\<lambda>t. not_in_range ch r t tz)"

definition block_end :: "nat \<Rightarrow> nat \<Rightarrow> nat result" where
  "block_end magic_pos block_length =
     ok_or LogFormatError (Option.bind (checked_add_u64 magic_pos 6) (\<lambda>v.
       Option.bind (checked_add_u64 v 8) (\<lambda>w. checked_add_u64 w block_length)))"

section \<open>The headers-only walk\<close>

text \<open>Content already in hand is taken while the budget lasts.\<close>

definition take_resident :: "'s byte_reader \<Rightarrow> nat \<Rightarrow> nat \<Rightarrow> nat \<Rightarrow> nat \<Rightarrow> ('s, byte list option \<times> nat) rd" where
  "take_resident ops budget cpos clen after_content s =
     (if budget \<ge> clen \<and> br_has_resident ops cpos after_content s then
        rd_bind (rd_seek ops cpos) (\<lambda>_.
        rd_bind (read_exact ops clen) (\<lambda>bs.
          rd_return (Some bs, budget - clen))) s
      else (Ok (None, budget), s))"

text \<open>The body of a block whose span has been checked.\<close>

definition read_headers_only :: "'s byte_reader \<Rightarrow> string \<Rightarrow> nat \<Rightarrow> nat \<Rightarrow> ('s, LogBlock \<times> nat) rd" where
  "read_headers_only ops file block_length budget =
     rd_bind (read_log_format_version ops) (\<lambda>v.
     rd_bind (read_block_type ops v) (\<lambda>t.
     rd_bind (read_block_metadata ops Header v) (\<lambda>header.
     rd_bind (rd_position ops) (\<lambda>cpos.
     rd_bind (if has_content_length v then read_u64 ops else rd_return block_length) (\<lambda>payload.
     rd_bind (rd_lift (if has_content_length v then ok_or LogFormatError (checked_add_u64 payload 8)
         else Ok payload)) (\<lambda>content_len.
     rd_bind (rd_lift (ok_or LogFormatError (checked_add_u64 cpos content_len))) (\<lambda>after_content.
     rd_bind (take_resident ops budget cpos content_len after_content) (\<lambda>(resident, budget').
     rd_bind (rd_seek ops after_content) (\<lambda>_.
     rd_bind (read_block_metadata ops Footer v) (\<lambda>footer.
     rd_bind (read_total_block_length ops v) (\<lambda>_.
       rd_return ((log_block_new v t header EmptyContent footer)\<lparr>
         lb_deferred_content := Some \<lparr>dfc_location = \<lparr>content_position = cpos,
           content_length = content_len\<rparr>, dfc_fetcher = file\<rparr>,
         lb_resident_content := resident\<rparr>, budget'))))))))))))"

definition read_next_block_metadata_only :: "'s byte_reader \<Rightarrow> string \<Rightarrow> nat \<Rightarrow>
    ('s, (LogBlock \<times> nat) option) rd" where
  "read_next_block_metadata_only ops file budget =
     rd_bind (rd_position ops) (\<lambda>magic_pos.
     rd_bind (read_magic ops) (\<lambda>more.
       if \<not> more then rd_return None
       else rd_bind (read_block_length ops) (\<lambda>block_length.
         rd_bind (is_block_corrupted ops magic_pos block_length) (\<lambda>corrupt.
           if corrupt then rd_bind (create_corrupted_block ops magic_pos) (\<lambda>b. rd_return (Some (b, budget)))
           else rd_bind (read_headers_only ops file block_length budget) (\<lambda>r. rd_return (Some r))))))"

text \<open>The loop over the blocks, with the number of blocks it may still read; \<open>None\<close> when that
  runs out. A block is at least its magic long, so the length of the file is enough.\<close>

fun read_all_blocks_metadata_only :: "nat \<Rightarrow> 's byte_reader \<Rightarrow> string \<Rightarrow> nat \<Rightarrow>
    's \<Rightarrow> (LogBlock list \<times> nat) result option" where
  "read_all_blocks_metadata_only 0 ops file budget s = None"
| "read_all_blocks_metadata_only (Suc n) ops file budget s =
     (case read_next_block_metadata_only ops file budget s of
        (Inl e, s') \<Rightarrow> Some (Err e)
      | (Inr None, s') \<Rightarrow> Some (Ok ([], budget))
      | (Inr (Some (b, budget')), s') \<Rightarrow>
          map_option (\<lambda>r. res_bind r (\<lambda>(bs, bu). Ok (b # bs, bu)))
            (read_all_blocks_metadata_only n ops file budget' s'))"

section \<open>The decoding walk\<close>

text \<open>Decodes content out of the rest of a block; the number of bytes it consumed comes back.\<close>

type_synonym span_decoder = "LogFormatVersion \<Rightarrow> nat \<Rightarrow> BlockType \<Rightarrow> block_metadata \<Rightarrow> byte list \<Rightarrow>
    (LogBlockContent \<times> nat) result"

definition read_decoded :: "'s byte_reader \<Rightarrow> span_decoder \<Rightarrow> LogFormatVersion \<Rightarrow> BlockType \<Rightarrow>
    block_metadata \<Rightarrow> nat \<Rightarrow> nat \<Rightarrow> ('s, LogBlock) rd" where
  "read_decoded ops decode v t header block_length be =
     rd_bind (rd_position ops) (\<lambda>content_start.
     rd_bind (rd_lift (ok_or LogFormatError (checked_sub_u64 be content_start))) (\<lambda>remaining.
     rd_bind (read_exact ops remaining) (\<lambda>bytes.
     rd_bind (rd_lift (decode v block_length t header bytes)) (\<lambda>(content, used).
     rd_bind (rd_seek ops (content_start + used)) (\<lambda>_.
     rd_bind (read_block_metadata ops Footer v) (\<lambda>footer.
     rd_bind (read_total_block_length ops v) (\<lambda>_.
       rd_return (log_block_new v t header content footer))))))))"

definition read_next_block :: "chrono \<Rightarrow> string \<Rightarrow> 's byte_reader \<Rightarrow> span_decoder \<Rightarrow> InstantRange \<Rightarrow>
    ('s, LogBlock option) rd" where
  "read_next_block ch tz ops decode rng =
     rd_bind (rd_position ops) (\<lambda>magic_pos.
     rd_bind (read_magic ops) (\<lambda>more.
       if \<not> more then rd_return None
       else rd_bind (read_block_length ops) (\<lambda>block_length.
         rd_bind (is_block_corrupted ops magic_pos block_length) (\<lambda>corrupt.
           if corrupt then rd_bind (create_corrupted_block ops magic_pos) (\<lambda>b. rd_return (Some b))
           else
             rd_bind (rd_lift (block_end magic_pos block_length)) (\<lambda>be.
             rd_bind (read_log_format_version ops) (\<lambda>v.
             rd_bind (read_block_type ops v) (\<lambda>t.
             rd_bind (read_block_metadata ops Header v) (\<lambda>header.
             rd_bind (rd_lift (should_skip_block ch tz header rng)) (\<lambda>skip.
               if skip then rd_bind (rd_seek ops be) (\<lambda>_.
                 rd_return (Some (log_block_new_skipped v t header)))
               else rd_bind (read_decoded ops decode v t header block_length be) (\<lambda>b.
                 rd_return (Some b)))))))))))"

fun read_all_blocks :: "nat \<Rightarrow> chrono \<Rightarrow> string \<Rightarrow> 's byte_reader \<Rightarrow> span_decoder \<Rightarrow> InstantRange \<Rightarrow>
    's \<Rightarrow> LogBlock list result option" where
  "read_all_blocks 0 ch tz ops decode rng s = None"
| "read_all_blocks (Suc n) ch tz ops decode rng s =
     (case read_next_block ch tz ops decode rng s of
        (Inl e, s') \<Rightarrow> Some (Err e)
      | (Inr None, s') \<Rightarrow> Some (Ok [])
      | (Inr (Some b), s') \<Rightarrow>
          map_option (\<lambda>r. res_bind r (\<lambda>bs. Ok (if lb_skipped b then bs else b # bs)))
            (read_all_blocks n ch tz ops decode rng s'))"

end
