(* ===== verification/Log_Reader_Sim.thy ===== *)
theory Log_Reader_Sim
  imports Log_Reader
begin

text \<open>
  The log reader over two readers of the same file. \<open>reader_sim\<close> states what one reader has to
  agree on with another: what a read returns, where the cursor is and how long the file is, but
  not which bytes are already in hand. Inside it every routine of the log reader gives equal
  results; the storage reader of either kind and the cursor over the bytes of the file are its
  instance, so what is proved of the cursor holds for a file read whole and for one read by
  windows.
\<close>

section \<open>Agreement of two computations\<close>

definition rd_sim :: "('s \<Rightarrow> 't \<Rightarrow> bool) \<Rightarrow> ('s, 'a) rd \<Rightarrow> ('t, 'a) rd \<Rightarrow> bool" where
  "rd_sim R m m' \<longleftrightarrow> (\<forall>s t. R s t \<longrightarrow> fst (m s) = fst (m' t) \<and> R (snd (m s)) (snd (m' t)))"

named_theorems sim \<open>agreement of the computations on two readers\<close>

lemma rd_sim_return [sim]: "rd_sim R (rd_return x) (rd_return x)"
  by (simp add: rd_sim_def rd_return_def)

lemma rd_sim_lift [sim]: "rd_sim R (rd_lift x) (rd_lift x)"
  by (simp add: rd_sim_def rd_lift_def)

lemma rd_sim_bind [sim]:
  assumes "rd_sim R m m'" "\<And>x. rd_sim R (f x) (f' x)"
  shows "rd_sim R (rd_bind m f) (rd_bind m' f')"
  unfolding rd_sim_def
proof (intro allI impI)
  fix s t assume st: "R s t"
  obtain x s1 where m: "m s = (x, s1)" by (cases "m s")
  obtain x' t1 where m': "m' t = (x', t1)" by (cases "m' t")
  have "x = x'" "R s1 t1" using assms(1) st m m' by (force simp: rd_sim_def)+
  then show "fst (rd_bind m f s) = fst (rd_bind m' f' t) \<and> R (snd (rd_bind m f s)) (snd (rd_bind m' f' t))"
    using assms(2) m m' by (auto simp: rd_bind_def rd_sim_def split: sum.splits)
qed

lemma rd_sim_map_err [sim]:
  assumes "rd_sim R m m'" shows "rd_sim R (rd_map_err e m) (rd_map_err e m')"
  unfolding rd_sim_def
proof (intro allI impI)
  fix s t assume st: "R s t"
  obtain x s1 where m: "m s = (x, s1)" by (cases "m s")
  obtain x' t1 where m': "m' t = (x', t1)" by (cases "m' t")
  have "x = x'" "R s1 t1" using assms st m m' by (force simp: rd_sim_def)+
  then show "fst (rd_map_err e m s) = fst (rd_map_err e m' t) \<and>
      R (snd (rd_map_err e m s)) (snd (rd_map_err e m' t))"
    using m m' by (auto simp: rd_map_err_def split: sum.splits)
qed

lemma rd_sim_if [sim]:
  "(c \<Longrightarrow> rd_sim R m m') \<Longrightarrow> (\<not> c \<Longrightarrow> rd_sim R n n') \<Longrightarrow> rd_sim R (if c then m else n) (if c then m' else n')"
  by simp

lemma rd_sim_option [sim]:
  "rd_sim R m m' \<Longrightarrow> (\<And>x. rd_sim R (f x) (f' x)) \<Longrightarrow>
   rd_sim R (case z of None \<Rightarrow> m | Some x \<Rightarrow> f x) (case z of None \<Rightarrow> m' | Some x \<Rightarrow> f' x)"
  by (cases z) auto

lemma rd_sim_pair [sim]:
  "(\<And>x y. rd_sim R (f x y) (f' x y)) \<Longrightarrow> rd_sim R (case z of (x, y) \<Rightarrow> f x y) (case z of (x, y) \<Rightarrow> f' x y)"
  by (cases z) auto

lemma rd_simD:
  assumes "rd_sim R m m'" "R s t"
  shows "fst (m s) = fst (m' t)" "R (snd (m s)) (snd (m' t))"
  using assms by (auto simp: rd_sim_def)

section \<open>Two readers of one file\<close>

locale reader_sim =
  fixes R :: "'s \<Rightarrow> 't \<Rightarrow> bool" and ops :: "'s byte_reader" and ops' :: "'t byte_reader"
  assumes read_sim: "rd_sim R (br_read_bytes ops n) (br_read_bytes ops' n)"
    and seek_sim: "R s t \<Longrightarrow> R (br_seek_to ops p s) (br_seek_to ops' p t)"
    and position_sim: "R s t \<Longrightarrow> br_position ops s = br_position ops' t"
    and file_len_sim: "R s t \<Longrightarrow> br_file_len ops s = br_file_len ops' t"
begin

lemma rd_seek_sim: "rd_sim R (rd_seek ops p) (rd_seek ops' p)"
  by (simp add: rd_sim_def rd_seek_def seek_sim)

lemma rd_position_sim: "rd_sim R (rd_position ops) (rd_position ops')"
  by (simp add: rd_sim_def rd_position_def position_sim)

lemma rd_file_len_sim: "rd_sim R (rd_file_len ops) (rd_file_len ops')"
  by (simp add: rd_sim_def rd_file_len_def file_len_sim)

lemma read_exact_sim: "rd_sim R (read_exact ops n) (read_exact ops' n)"
  unfolding read_exact_def by (intro rd_sim_map_err read_sim)

lemma read_magic_sim: "rd_sim R (read_magic ops) (read_magic ops')"
  unfolding rd_sim_def
proof (intro allI impI)
  fix s t assume st: "R s t"
  obtain x s1 where m: "br_read_bytes ops 6 s = (x, s1)" by (cases "br_read_bytes ops 6 s")
  obtain x' t1 where m': "br_read_bytes ops' 6 t = (x', t1)" by (cases "br_read_bytes ops' 6 t")
  have "x = x'" "R s1 t1" using rd_simD [OF read_sim st, of 6] m m' by simp_all
  then show "fst (read_magic ops s) = fst (read_magic ops' t) \<and> R (snd (read_magic ops s)) (snd (read_magic ops' t))"
    using m m' by (auto simp: read_magic_def split: sum.splits)
qed

lemma next_is_magic_or_eof_sim: "rd_sim R (next_is_magic_or_eof ops) (next_is_magic_or_eof ops')"
  unfolding rd_sim_def
proof (intro allI impI)
  fix s t assume st: "R s t"
  obtain x s1 where m: "br_read_bytes ops 6 s = (x, s1)" by (cases "br_read_bytes ops 6 s")
  obtain x' t1 where m': "br_read_bytes ops' 6 t = (x', t1)" by (cases "br_read_bytes ops' 6 t")
  have "x = x'" "R s1 t1" using rd_simD [OF read_sim st, of 6] m m' by simp_all
  then show "fst (next_is_magic_or_eof ops s) = fst (next_is_magic_or_eof ops' t) \<and>
      R (snd (next_is_magic_or_eof ops s)) (snd (next_is_magic_or_eof ops' t))"
    using m m' by (auto simp: next_is_magic_or_eof_def split: sum.splits)
qed

lemmas primitive_sim = rd_seek_sim rd_position_sim rd_file_len_sim read_exact_sim read_magic_sim
  next_is_magic_or_eof_sim

lemma read_u64_sim: "rd_sim R (read_u64 ops) (read_u64 ops')"
  unfolding read_u64_def by (intro sim primitive_sim)

lemma is_block_corrupted_sim: "rd_sim R (is_block_corrupted ops p n) (is_block_corrupted ops' p n)"
  unfolding is_block_corrupted_def Let_def by (intro sim primitive_sim read_u64_sim)

lemma scan_windows_sim: "rd_sim R (scan_windows ops n p) (scan_windows ops' n p)"
proof (induction "n - p" arbitrary: p rule: less_induct)
  case less
  show ?case
    unfolding scan_windows.simps [of ops n p] scan_windows.simps [of ops' n p] Let_def
    by (intro sim primitive_sim less) (auto simp: BLOCK_SCAN_READ_BUFFER_SIZE_def)
qed

lemma create_corrupted_block_sim:
  "rd_sim R (create_corrupted_block ops p) (create_corrupted_block ops' p)"
  unfolding create_corrupted_block_def scan_for_next_block_offset_def
  by (intro sim primitive_sim scan_windows_sim)

lemma read_log_format_version_sim: "rd_sim R (read_log_format_version ops) (read_log_format_version ops')"
  unfolding read_log_format_version_def by (intro sim primitive_sim)

lemma read_block_type_sim: "rd_sim R (read_block_type ops v) (read_block_type ops' v)"
  unfolding read_block_type_def by (intro sim primitive_sim)

lemma read_entries_sim: "rd_sim R (read_entries ops n m) (read_entries ops' n m)"
proof (induction n arbitrary: m)
  case (Suc n)
  show ?case unfolding read_entries.simps by (intro sim primitive_sim Suc)
qed (simp add: rd_sim_return)

lemma read_block_metadata_sim: "rd_sim R (read_block_metadata ops k v) (read_block_metadata ops' k v)"
  unfolding read_block_metadata_def by (intro sim primitive_sim read_entries_sim)

lemma read_total_block_length_sim: "rd_sim R (read_total_block_length ops v) (read_total_block_length ops' v)"
  unfolding read_total_block_length_def by (intro sim read_u64_sim)

lemmas part_sim = primitive_sim read_u64_sim is_block_corrupted_sim create_corrupted_block_sim
  read_log_format_version_sim read_block_type_sim read_block_metadata_sim read_total_block_length_sim

lemma read_next_block_sim:
  "rd_sim R (read_next_block ch tz ops decode rng) (read_next_block ch tz ops' decode rng)"
  unfolding read_next_block_def read_decoded_def read_block_length_def by (intro sim part_sim)

lemma read_all_blocks_sim:
  "R s t \<Longrightarrow> read_all_blocks n ch tz ops decode rng s = read_all_blocks n ch tz ops' decode rng t"
proof (induction n arbitrary: s t)
  case (Suc n)
  obtain x s1 where m: "read_next_block ch tz ops decode rng s = (x, s1)" by fastforce
  obtain x' t1 where m': "read_next_block ch tz ops' decode rng t = (x', t1)" by fastforce
  have "x = x'" "R s1 t1" using rd_simD [OF read_next_block_sim Suc.prems] m m' by (metis fst_conv snd_conv)+
  then show ?case using m m' Suc.IH [of s1 t1] by (auto split: sum.splits option.splits)
qed simp

end

section \<open>The storage reader and the cursor\<close>

definition reads_same :: "object_range \<Rightarrow> byte list \<Rightarrow> StorageReader \<Rightarrow> nat \<Rightarrow> bool" where
  "reads_same store file r p \<longleftrightarrow> serves store file \<and> reader_ok file r \<and> sto_pos r = p"

interpretation so: reader_sim "reads_same store bytes" "storage_ops store" "cursor_ops bytes" for store bytes
proof
  fix n show "rd_sim (reads_same store bytes) (br_read_bytes (storage_ops store) n) (br_read_bytes (cursor_ops bytes) n)"
    unfolding rd_sim_def
  proof (intro allI impI)
    fix r p assume "reads_same store bytes r p"
    then have r: "reader_ok bytes r" "serves store bytes" "sto_pos r = p" by (simp_all add: reads_same_def)
    obtain r' where "read_bytes store n r = (fst (cursor_read bytes n p), r')" "reader_ok bytes r'"
      "sto_pos r' = snd (cursor_read bytes n p)" using read_bytes_cursor [OF r(1,2), of n] r(3) by blast
    then show "fst (br_read_bytes (storage_ops store) n r) = fst (br_read_bytes (cursor_ops bytes) n p) \<and>
        reads_same store bytes (snd (br_read_bytes (storage_ops store) n r)) (snd (br_read_bytes (cursor_ops bytes) n p))"
      using r(2) by (simp add: storage_ops_def cursor_ops_def reads_same_def)
  qed
qed (auto simp: reads_same_def storage_ops_def cursor_ops_def reader_ok_seek,
     auto simp: seek_to_def reader_ok_def)

lemma reads_same_new: "serves store file \<Longrightarrow> reads_same store file (storage_reader_new file) 0"
  by (simp add: reads_same_def reader_ok_new) (simp add: storage_reader_new_def)

lemma reads_same_streaming:
  "serves store file \<Longrightarrow> reads_same store file (storage_reader_streaming (length file) w) 0"
  by (simp add: reads_same_def reader_ok_streaming) (simp add: storage_reader_streaming_def)

section \<open>The headers-only walk\<close>

text \<open>Results that agree up to a relation on the values.\<close>

definition rd_rel :: "('a \<Rightarrow> 'b \<Rightarrow> bool) \<Rightarrow> ('s \<Rightarrow> 't \<Rightarrow> bool) \<Rightarrow> ('s, 'a) rd \<Rightarrow> ('t, 'b) rd \<Rightarrow> bool" where
  "rd_rel Q R m m' \<longleftrightarrow> (\<forall>s t. R s t \<longrightarrow> rel_sum (=) Q (fst (m s)) (fst (m' t)) \<and> R (snd (m s)) (snd (m' t)))"

lemma rd_rel_return: "Q x y \<Longrightarrow> rd_rel Q R (rd_return x) (rd_return y)"
  by (simp add: rd_rel_def rd_return_def)

lemma rd_rel_bind:
  assumes "rd_sim R m m'" "\<And>x. rd_rel Q R (f x) (f' x)"
  shows "rd_rel Q R (rd_bind m f) (rd_bind m' f')"
  unfolding rd_rel_def
proof (intro allI impI)
  fix s t assume st: "R s t"
  obtain x s1 where m: "m s = (x, s1)" by (cases "m s")
  obtain x' t1 where m': "m' t = (x', t1)" by (cases "m' t")
  have "x = x'" "R s1 t1" using rd_simD [OF assms(1) st] m m' by simp_all
  then show "rel_sum (=) Q (fst (rd_bind m f s)) (fst (rd_bind m' f' t)) \<and>
      R (snd (rd_bind m f s)) (snd (rd_bind m' f' t))"
    using assms(2) m m' by (auto simp: rd_bind_def rd_rel_def split: sum.splits)
qed

lemma rd_rel_map:
  assumes "rd_rel Q R m m'" "\<And>x y. Q x y \<Longrightarrow> Q' (f x) (g y)"
  shows "rd_rel Q' R (rd_bind m (\<lambda>x. rd_return (f x))) (rd_bind m' (\<lambda>y. rd_return (g y)))"
  unfolding rd_rel_def
proof (intro allI impI)
  fix s t assume st: "R s t"
  obtain x s1 where m: "m s = (x, s1)" by (cases "m s")
  obtain y t1 where m': "m' t = (y, t1)" by (cases "m' t")
  have "rel_sum (=) Q x y" "R s1 t1" using assms(1) st m m' by (force simp: rd_rel_def)+
  then show "rel_sum (=) Q' (fst (rd_bind m (\<lambda>x. rd_return (f x)) s)) (fst (rd_bind m' (\<lambda>y. rd_return (g y)) t)) \<and>
      R (snd (rd_bind m (\<lambda>x. rd_return (f x)) s)) (snd (rd_bind m' (\<lambda>y. rd_return (g y)) t))"
    using assms(2) m m' by (auto simp: rd_bind_def rd_return_def split: sum.splits)
qed

text \<open>Content the walk kept, given what was left of the budget before and after: nothing, or
  the bytes at the block's own location, charged to the budget.\<close>

definition keeps_own :: "byte list \<Rightarrow> nat \<Rightarrow> nat \<Rightarrow> nat \<Rightarrow> byte list option \<Rightarrow> nat \<Rightarrow> bool" where
  "keeps_own file cpos clen budget resident budget' \<longleftrightarrow>
     resident = None \<and> budget' = budget \<or>
     resident = Some (take clen (drop cpos file)) \<and> cpos + clen \<le> length file \<and> clen \<le> budget \<and>
       budget' = budget - clen"

lemma take_resident_storage:
  assumes "reads_same store file r p"
  shows "\<exists>res b' r'. take_resident (storage_ops store) budget cpos clen (cpos + clen) r = (Ok (res, b'), r') \<and>
    reader_ok file r' \<and> keeps_own file cpos clen budget res b'"
proof (cases "budget \<ge> clen \<and> has_resident cpos (cpos + clen) r")
  case True
  have r: "reader_ok file r" "serves store file" using assms by (simp_all add: reads_same_def)
  have e: "cpos + clen \<le> length file"
    using True r(1) by (auto simp: has_resident_def window_covers_def reader_ok_def split: if_splits option.splits)
  let ?r = "seek_to cpos r"
  have ok: "reader_ok file ?r" "sto_pos ?r = cpos" using reader_ok_seek [OF r(1)] by (simp_all add: seek_to_def)
  have c: "fst (cursor_read file clen cpos) = Ok (take clen (drop cpos file))"
    using e r(2) by (auto simp: cursor_read_def serves_def)
  obtain r' where "read_bytes store clen ?r = (Ok (take clen (drop cpos file)), r')" "reader_ok file r'"
    using read_bytes_cursor [OF ok(1) r(2), of clen] ok(2) c by auto
  then show ?thesis
    using True e by (auto simp: take_resident_def storage_ops_def rd_bind_def rd_seek_def read_exact_def
        rd_map_err_def rd_return_def keeps_own_def)
next
  case False
  then show ?thesis
    using assms by (auto simp: take_resident_def storage_ops_def keeps_own_def reads_same_def)
qed

lemma take_resident_cursor: "take_resident (cursor_ops file) budget cpos clen a p = (Ok (None, budget), p)"
  by (simp add: take_resident_def cursor_ops_def)

lemma rd_seek_storage: "rd_seek (storage_ops store) p r = (Ok (), seek_to p r)"
  by (simp add: rd_seek_def storage_ops_def)

lemma rd_seek_cursor: "rd_seek (cursor_ops file) p q = (Ok (), p)"
  by (simp add: rd_seek_def cursor_ops_def)

text \<open>The step that may keep the content and the seek past it.\<close>

lemma take_then_seek_rel:
  assumes "\<And>res b'. keeps_own file cpos clen budget res b' \<Longrightarrow>
      rd_rel Q (reads_same store file) (k res b') (k' None budget0)"
  shows "rd_rel Q (reads_same store file)
    (rd_bind (take_resident (storage_ops store) budget cpos clen (cpos + clen))
       (\<lambda>(res, b'). rd_bind (rd_seek (storage_ops store) (cpos + clen)) (\<lambda>_. k res b')))
    (rd_bind (take_resident (cursor_ops file) budget0 cpos clen (cpos + clen))
       (\<lambda>(res, b'). rd_bind (rd_seek (cursor_ops file) (cpos + clen)) (\<lambda>_. k' res b')))"
  unfolding rd_rel_def
proof (intro allI impI)
  fix r p assume rp: "reads_same store file r p"
  obtain res b' r' where t: "take_resident (storage_ops store) budget cpos clen (cpos + clen) r = (Ok (res, b'), r')"
    "reader_ok file r'" "keeps_own file cpos clen budget res b'" using take_resident_storage [OF rp] by metis
  let ?r = "seek_to (cpos + clen) r'"
  have "reads_same store file ?r (cpos + clen)"
    using reader_ok_seek [OF t(2)] rp by (simp add: reads_same_def) (simp add: seek_to_def)
  then show "rel_sum (=) Q
      (fst (rd_bind (take_resident (storage_ops store) budget cpos clen (cpos + clen))
         (\<lambda>(res, b'). rd_bind (rd_seek (storage_ops store) (cpos + clen)) (\<lambda>_. k res b')) r))
      (fst (rd_bind (take_resident (cursor_ops file) budget0 cpos clen (cpos + clen))
         (\<lambda>(res, b'). rd_bind (rd_seek (cursor_ops file) (cpos + clen)) (\<lambda>_. k' res b')) p)) \<and>
    reads_same store file
      (snd (rd_bind (take_resident (storage_ops store) budget cpos clen (cpos + clen))
         (\<lambda>(res, b'). rd_bind (rd_seek (storage_ops store) (cpos + clen)) (\<lambda>_. k res b')) r))
      (snd (rd_bind (take_resident (cursor_ops file) budget0 cpos clen (cpos + clen))
         (\<lambda>(res, b'). rd_bind (rd_seek (cursor_ops file) (cpos + clen)) (\<lambda>_. k' res b')) p))"
    using assms [OF t(3)] t(1)
    by (auto simp: rd_rel_def rd_bind_def rd_seek_storage rd_seek_cursor take_resident_cursor)
qed

text \<open>A block of the storage reader's walk beside the same block of the cursor's walk.\<close>

definition kept_block :: "string \<Rightarrow> byte list \<Rightarrow> nat \<Rightarrow> nat \<Rightarrow> LogBlock \<times> nat \<Rightarrow> LogBlock \<times> nat \<Rightarrow> bool" where
  "kept_block name file budget budget0 x y \<longleftrightarrow> fst x\<lparr>lb_resident_content := None\<rparr> = fst y \<and> snd y = budget0 \<and>
     lb_content (fst x) = EmptyContent \<and>
     (case lb_deferred_content (fst x) of
        None \<Rightarrow> lb_resident_content (fst x) = None \<and> snd x = budget
      | Some d \<Rightarrow> dfc_fetcher d = name \<and> keeps_own file (content_position (dfc_location d)) (content_length (dfc_location d)) budget
          (lb_resident_content (fst x)) (snd x))"

lemma rd_lift_Some: "rd_bind (rd_lift (ok_or e (Some x))) f = f x"
  by (simp add: fun_eq_iff rd_bind_def rd_lift_def ok_or_def)

lemma rd_lift_Err: "rd_bind (rd_lift (Err e)) f = rd_lift (Err e)"
  by (simp add: fun_eq_iff rd_bind_def rd_lift_def)

lemma rd_rel_Err: "rd_rel Q R (rd_lift (Err e)) (rd_lift (Err e))"
  by (simp add: rd_rel_def rd_lift_def)

lemma headers_tail_rel:
  "rd_rel (kept_block name file budget budget0) (reads_same store file)
     (rd_bind (rd_lift (ok_or LogFormatError (checked_add_u64 cpos clen))) (\<lambda>after_content.
        rd_bind (take_resident (storage_ops store) budget cpos clen after_content) (\<lambda>(resident, budget').
        rd_bind (rd_seek (storage_ops store) after_content) (\<lambda>_.
        rd_bind (read_block_metadata (storage_ops store) Footer v) (\<lambda>footer.
        rd_bind (read_total_block_length (storage_ops store) v) (\<lambda>_.
          rd_return ((log_block_new v t header EmptyContent footer)\<lparr>
            lb_deferred_content := Some \<lparr>dfc_location = \<lparr>content_position = cpos,
              content_length = clen\<rparr>, dfc_fetcher = name\<rparr>,
            lb_resident_content := resident\<rparr>, budget')))))))
     (rd_bind (rd_lift (ok_or LogFormatError (checked_add_u64 cpos clen))) (\<lambda>after_content.
        rd_bind (take_resident (cursor_ops file) budget0 cpos clen after_content) (\<lambda>(resident, budget').
        rd_bind (rd_seek (cursor_ops file) after_content) (\<lambda>_.
        rd_bind (read_block_metadata (cursor_ops file) Footer v) (\<lambda>footer.
        rd_bind (read_total_block_length (cursor_ops file) v) (\<lambda>_.
          rd_return ((log_block_new v t header EmptyContent footer)\<lparr>
            lb_deferred_content := Some \<lparr>dfc_location = \<lparr>content_position = cpos,
              content_length = clen\<rparr>, dfc_fetcher = name\<rparr>,
            lb_resident_content := resident\<rparr>, budget')))))))"
proof (cases "checked_add_u64 cpos clen")
  case None
  then show ?thesis by (simp add: ok_or_def rd_lift_Err rd_rel_Err)
next
  case (Some a)
  then have a: "a = cpos + clen" by (simp add: checked_add_u64_def split: if_splits)
  show ?thesis
    unfolding Some rd_lift_Some a
    by (intro take_then_seek_rel rd_rel_bind so.part_sim rd_rel_return)
      (simp add: kept_block_def log_block_new_def)
qed

lemma read_headers_only_rel:
  "rd_rel (kept_block name file budget budget0) (reads_same store file)
     (read_headers_only (storage_ops store) name n budget) (read_headers_only (cursor_ops file) name n budget0)"
  unfolding read_headers_only_def
  by (rule headers_tail_rel rd_rel_bind so.part_sim sim)+

lemma rd_rel_if:
  "(c \<Longrightarrow> rd_rel Q R m m') \<Longrightarrow> (\<not> c \<Longrightarrow> rd_rel Q R n n') \<Longrightarrow>
   rd_rel Q R (if c then m else n) (if c then m' else n')"
  by simp

lemma rd_rel_None: "rd_rel (rel_option Q) R (rd_return None) (rd_return None)"
  by (simp add: rd_rel_def rd_return_def)

lemma create_corrupted_rel:
  "rd_rel (\<lambda>x y. x = y \<and> y = log_block_new LogFormatV1 Corrupted Map.empty EmptyContent Map.empty)
     (reads_same store file) (create_corrupted_block (storage_ops store) p) (create_corrupted_block (cursor_ops file) p)"
  unfolding create_corrupted_block_def scan_for_next_block_offset_def
  by (intro rd_rel_bind rd_rel_return sim so.primitive_sim so.scan_windows_sim) simp

lemma corrupt_step:
  "rd_rel (rel_option (kept_block name file budget budget0)) (reads_same store file)
     (rd_bind (create_corrupted_block (storage_ops store) p) (\<lambda>b. rd_return (Some (b, budget))))
     (rd_bind (create_corrupted_block (cursor_ops file) p) (\<lambda>b. rd_return (Some (b, budget0))))"
  by (rule rd_rel_map [OF create_corrupted_rel]) (simp add: kept_block_def log_block_new_def)

lemma headers_step:
  "rd_rel (rel_option (kept_block name file budget budget0)) (reads_same store file)
     (rd_bind (read_headers_only (storage_ops store) name n budget) (\<lambda>r. rd_return (Some r)))
     (rd_bind (read_headers_only (cursor_ops file) name n budget0) (\<lambda>r. rd_return (Some r)))"
  by (rule rd_rel_map [OF read_headers_only_rel]) simp

lemma read_next_block_metadata_only_rel:
  "rd_rel (rel_option (kept_block name file budget budget0)) (reads_same store file)
     (read_next_block_metadata_only (storage_ops store) name budget)
     (read_next_block_metadata_only (cursor_ops file) name budget0)"
  unfolding read_next_block_metadata_only_def read_block_length_def
  by (rule corrupt_step headers_step rd_rel_bind so.part_sim rd_rel_if rd_rel_None)+

section \<open>The walk over a file\<close>

definition kept_bytes :: "LogBlock \<Rightarrow> nat" where
  "kept_bytes b = (case lb_resident_content b of None \<Rightarrow> 0 | Some c \<Rightarrow> length c)"

definition own_content :: "string \<Rightarrow> byte list \<Rightarrow> LogBlock \<Rightarrow> bool" where
  "own_content name file b \<longleftrightarrow> lb_content b = EmptyContent \<and> (case lb_resident_content b of None \<Rightarrow> True
    | Some c \<Rightarrow> (case lb_deferred_content b of None \<Rightarrow> False
      | Some d \<Rightarrow> dfc_fetcher d = name \<and>
          content_position (dfc_location d) + content_length (dfc_location d) \<le> length file \<and>
          c = take (content_length (dfc_location d)) (drop (content_position (dfc_location d)) file)))"

definition walk_rel :: "string \<Rightarrow> byte list \<Rightarrow> nat \<Rightarrow> LogBlock list \<times> nat \<Rightarrow> LogBlock list \<times> nat \<Rightarrow> bool" where
  "walk_rel name file budget x y \<longleftrightarrow> map (\<lambda>b. b\<lparr>lb_resident_content := None\<rparr>) (fst x) = fst y \<and>
     snd x + sum_list (map kept_bytes (fst x)) = budget \<and> list_all (own_content name file) (fst x)"

lemma kept_blockD:
  assumes "kept_block name file budget budget0 (b, bu) (b0, bu0)"
  shows "b\<lparr>lb_resident_content := None\<rparr> = b0" "bu0 = budget0" "bu + kept_bytes b = budget" "own_content name file b"
  using assms by (auto simp: kept_block_def keeps_own_def kept_bytes_def own_content_def split: option.splits)

lemma rd_rel_at:
  "rd_rel Q R m m' \<Longrightarrow> R s t \<Longrightarrow> rel_sum (=) Q (fst (m s)) (fst (m' t)) \<and> R (snd (m s)) (snd (m' t))"
  by (auto simp: rd_rel_def)

lemma walk_rel_storage:
  "reads_same store file r p \<Longrightarrow>
   rel_option (rel_sum (=) (walk_rel name file budget))
     (read_all_blocks_metadata_only n (storage_ops store) name budget r)
     (read_all_blocks_metadata_only n (cursor_ops file) name budget0 p)"
proof (induction n arbitrary: r p budget budget0)
  case (Suc n)
  let ?m = "read_next_block_metadata_only (storage_ops store) name budget r"
  let ?m' = "read_next_block_metadata_only (cursor_ops file) name budget0 p"
  obtain x r1 where m: "?m = (x, r1)" by fastforce
  obtain y p1 where m': "?m' = (y, p1)" by fastforce
  have xy: "rel_sum (=) (rel_option (kept_block name file budget budget0)) x y" "reads_same store file r1 p1"
    using rd_rel_at [OF read_next_block_metadata_only_rel Suc.prems, of name budget budget0] m m'
    by simp_all
  from xy(1) show ?case
  proof cases
    case (1 e e')
    then show ?thesis using m m' by simp
  next
    case (2 o1 o2)
    show ?thesis
    proof (cases o1)
      case None
      then show ?thesis using 2 m m' by (simp add: walk_rel_def)
    next
      case (Some z)
      obtain b bu where z: "z = (b, bu)" by (cases z)
      obtain b0 bu0 where o2: "o2 = Some (b0, bu0)" "kept_block name file budget budget0 (b, bu) (b0, bu0)"
        using 2 Some z by (cases o2) auto
      note k = kept_blockD [OF o2(2)]
      have "rel_option (rel_sum (=) (walk_rel name file bu))
        (read_all_blocks_metadata_only n (storage_ops store) name bu r1)
        (read_all_blocks_metadata_only n (cursor_ops file) name bu0 p1)" by (rule Suc.IH [OF xy(2)])
      then have "rel_option (rel_sum (=) (walk_rel name file budget))
        (map_option (\<lambda>r. res_bind r (\<lambda>(bs, bu). Ok (b # bs, bu)))
          (read_all_blocks_metadata_only n (storage_ops store) name bu r1))
        (map_option (\<lambda>r. res_bind r (\<lambda>(bs, bu). Ok (b0 # bs, bu)))
          (read_all_blocks_metadata_only n (cursor_ops file) name bu0 p1))"
        using k by (auto simp: option_rel_Some1 option.rel_map walk_rel_def res_bind_def
            elim!: option.rel_cases rel_sum.cases split: prod.splits)
      then show ?thesis using m m' 2 Some z o2(1) by simp
    qed
  qed
qed simp

lemma strip_unkept: "lb_resident_content b = None \<Longrightarrow> b\<lparr>lb_resident_content := None\<rparr> = b"
  by (cases b) simp

lemma load_own_content:
  assumes "own_content name file b"
    and "\<And>p l. p + l \<le> length file \<Longrightarrow> fetch name p l = Ok (take l (drop p file))"
  shows "load_content decode fetch (b\<lparr>lb_resident_content := None\<rparr>) = load_content decode fetch b"
  using assms by (cases "lb_resident_content b")
    (auto simp: strip_unkept load_content_def own_content_def content_is_empty_def split: option.splits)

section \<open>One file, two readers\<close>

text \<open>What a walk loads in the end: the blocks of the walk with their content loaded.\<close>

definition loaded :: "content_decoder \<Rightarrow> (string \<Rightarrow> nat \<Rightarrow> nat \<Rightarrow> byte list result) \<Rightarrow>
    (LogBlock list \<times> nat) result option \<Rightarrow> LogBlock result list result option" where
  "loaded decode fetch = map_option (map_sum id (\<lambda>(bs, left). map (load_content decode fetch) bs))"

lemma loaded_walk_rel:
  assumes "rel_option (rel_sum (=) (walk_rel name file budget)) x y"
    and "\<And>p l. p + l \<le> length file \<Longrightarrow> fetch name p l = Ok (take l (drop p file))"
  shows "loaded decode fetch x = loaded decode fetch y"
proof -
  have "map (load_content decode fetch) bs = map (load_content decode fetch) bs0"
    if "walk_rel name file budget (bs, left) (bs0, left0)" for bs left bs0 left0
    using that load_own_content [of name "file" _ fetch decode] assms(2)
    by (auto simp: walk_rel_def list_all_iff)
  then show ?thesis using assms(1)
    by (auto simp: loaded_def elim!: option.rel_cases rel_sum.cases)
qed

end
