(* ===== verification/Log_Reader_Cursor.thy ===== *)
theory Log_Reader_Cursor
  imports Log_Reader_Sim
begin

text \<open>
  The log reader over a cursor: where each routine leaves the cursor, the corruption check
  against the framing it stands for, the scan for the next magic against the least offset that
  has one, and the progress that bounds the walks.
\<close>

section \<open>Reads and seeks of the cursor\<close>

lemma rd_bind_Ok:
  "rd_bind m f s = (Inr y, s') \<longleftrightarrow> (\<exists>x s1. m s = (Inr x, s1) \<and> f x s1 = (Inr y, s'))"
  by (auto simp: rd_bind_def split: prod.splits sum.splits)

lemma rd_return_Ok: "rd_return x s = (Inr y, s') \<longleftrightarrow> y = x \<and> s' = s"
  by (auto simp: rd_return_def)

lemma rd_lift_Ok: "rd_lift x s = (Inr y, s') \<longleftrightarrow> x = Inr y \<and> s' = s"
  by (auto simp: rd_lift_def)

lemma rd_bind_step: "m s = (Inr x, s1) \<Longrightarrow> rd_bind m f s = f x s1"
  by (simp add: rd_bind_def)

lemma ok_or_Ok: "ok_or e x = Inr y \<longleftrightarrow> x = Some y"
  by (auto simp: ok_or_def split: option.splits)

lemma checked_add_Some: "checked_add_u64 a b = Some c \<longleftrightarrow> c = a + b \<and> a + b < 2 ^ 64"
  by (auto simp: checked_add_u64_def)

lemma checked_sub_Some: "checked_sub_u64 a b = Some c \<longleftrightarrow> c = a - b \<and> b \<le> a"
  by (auto simp: checked_sub_u64_def)

lemmas rd_Ok = rd_bind_Ok rd_return_Ok rd_lift_Ok ok_or_Ok

lemma cursor_position [simp]: "rd_position (cursor_ops file) p = (Ok p, p)"
  by (simp add: rd_position_def cursor_ops_def)

lemma cursor_file_len [simp]: "rd_file_len (cursor_ops file) p = (Ok (length file), p)"
  by (simp add: rd_file_len_def cursor_ops_def)

lemmas cursor_seek [simp] = rd_seek_cursor

lemma cursor_exact:
  "length file < 2 ^ 64 \<Longrightarrow> p + n \<le> length file \<Longrightarrow>
   read_exact (cursor_ops file) n p = (Ok (take n (drop p file)), p + n)"
  by (simp add: read_exact_def rd_map_err_def cursor_ops_def cursor_read_def)

lemma cursor_exact_Ok:
  "read_exact (cursor_ops file) n p = (Inr bs, q) \<Longrightarrow> q = p + n \<and> (n = 0 \<or> q \<le> length file)"
  by (auto simp: read_exact_def rd_map_err_def cursor_ops_def cursor_read_def split: if_splits)

lemma cursor_u64:
  "length file < 2 ^ 64 \<Longrightarrow> p + 8 \<le> length file \<Longrightarrow>
   read_u64 (cursor_ops file) p = (Ok (be_nat (take 8 (drop p file))), p + 8)"
  by (simp add: read_u64_def rd_bind_step [OF cursor_exact] rd_return_def)

lemma cursor_u64_Ok: "read_u64 (cursor_ops file) p = (Inr n, q) \<Longrightarrow> q = p + 8 \<and> q \<le> length file"
  by (auto simp: read_u64_def rd_Ok dest!: cursor_exact_Ok)

lemma cursor_magic:
  "length file < 2 ^ 64 \<Longrightarrow> p + 6 \<le> length file \<Longrightarrow>
   read_magic (cursor_ops file) p =
     (if take 6 (drop p file) = MAGIC then Ok True else Err LogFormatError, p + 6)"
  by (simp add: read_magic_def cursor_ops_def cursor_read_def)

lemma cursor_magic_eof:
  "length file < 2 ^ 64 \<Longrightarrow> p \<le> length file \<Longrightarrow> length file < p + 6 \<Longrightarrow> p + 6 < 2 ^ 64 \<Longrightarrow>
   read_magic (cursor_ops file) p = (Ok False, p)"
  by (simp add: read_magic_def cursor_ops_def cursor_read_def)

lemma cursor_magic_Ok:
  "read_magic (cursor_ops file) p = (Inr b, q) \<Longrightarrow> b \<Longrightarrow>
   take 6 (drop p file) = MAGIC \<and> q = p + 6 \<and> p + 6 \<le> length file"
  by (auto simp: read_magic_def cursor_ops_def cursor_read_def split: if_splits)

lemma cursor_next_magic:
  "length file < 2 ^ 64 \<Longrightarrow> p + 6 < 2 ^ 64 \<Longrightarrow>
   fst (next_is_magic_or_eof (cursor_ops file) p) =
     Ok (length file < p + 6 \<or> take 6 (drop p file) = MAGIC)"
  by (auto simp: next_is_magic_or_eof_def cursor_ops_def cursor_read_def)

section \<open>The framing of a block\<close>

text \<open>What the corruption check stands for: the length field at the magic's end spans a block
  inside the file, the trailing length agrees with it and counts the magic, and a magic or the
  end of the file follows.\<close>

definition well_framed :: "byte list \<Rightarrow> nat \<Rightarrow> nat \<Rightarrow> bool" where
  "well_framed file p n \<longleftrightarrow> p + 14 + n \<le> length file \<and>
     be_nat (take 8 (drop (p + 6 + n) file)) = n + 6 \<and>
     (length file < p + 14 + n + 6 \<or> take 6 (drop (p + 14 + n) file) = MAGIC)"

lemma cursor_corrupted:
  assumes "length file + 6 < 2 ^ 64" "p + 14 \<le> length file"
  shows "fst (is_block_corrupted (cursor_ops file) p n q) = Ok (\<not> well_framed file p n)"
proof -
  have a: "Option.bind (checked_add_u64 p 6) (\<lambda>v. checked_add_u64 v 8) = Some (p + 14)"
    using assms by (simp add: checked_add_u64_def)
  show ?thesis
  proof (cases "p + 14 + n \<le> length file")
    case False
    then show ?thesis
      by (auto simp: is_block_corrupted_def a checked_add_u64_def checked_sub_u64_def well_framed_def
          rd_bind_def rd_return_def)
  next
    case True
    let ?t = "be_nat (take 8 (drop (p + 6 + n) file))"
    have f: "length file < 2 ^ 64" using assms(1) by simp
    have t: "checked_sub_u64 (p + 14 + n) 8 = Some (p + 6 + n)"
      "checked_add_u64 (p + 14) n = Some (p + 14 + n)" "checked_add_u64 (p + 6 + n) 8 = Some (p + 14 + n)"
      using True assms by (simp_all add: checked_add_u64_def checked_sub_u64_def)
    have u: "read_u64 (cursor_ops file) (p + 6 + n) = (Ok ?t, p + 14 + n)"
      using cursor_u64 [of "file" "p + 6 + n"] True f by (simp add: add.assoc)
    have c: "(case checked_sub_u64 ?t 6 of None \<Rightarrow> True | Some s \<Rightarrow> s \<noteq> n) \<longleftrightarrow> ?t \<noteq> n + 6"
      by (auto simp: checked_sub_u64_def)
    obtain x s' where m0: "next_is_magic_or_eof (cursor_ops file) (p + 14 + n) = (x, s')" by fastforce
    have m: "next_is_magic_or_eof (cursor_ops file) (p + 14 + n) =
        (Ok (length file < p + 14 + n + 6 \<or> take 6 (drop (p + 14 + n) file) = MAGIC), s')"
      using cursor_next_magic [of "file" "p + 14 + n"] True assms m0 f by simp
    show ?thesis
      using True u m
      by (auto simp: is_block_corrupted_def a t c Let_def rd_bind_def rd_lift_def ok_or_def rd_return_def
          well_framed_def)
  qed
qed

lemma cursor_corrupted_False:
  "is_block_corrupted (cursor_ops file) p n q = (Inr False, q') \<Longrightarrow> q' = p + 14 \<and> p + 14 + n \<le> length file"
  by (auto simp: is_block_corrupted_def Let_def rd_Ok checked_add_Some checked_sub_Some bind_eq_Some_conv
      split: if_splits option.splits)

section \<open>The scan for the next magic\<close>

definition magic_at :: "byte list \<Rightarrow> nat \<Rightarrow> bool" where
  "magic_at file p \<longleftrightarrow> take 6 (drop p file) = MAGIC"

text \<open>The least offset from \<open>p\<close> on with a magic, or the end of the file.\<close>

definition next_magic :: "byte list \<Rightarrow> nat \<Rightarrow> nat" where
  "next_magic file p = (case find (magic_at file) [p..<length file] of Some i \<Rightarrow> i | None \<Rightarrow> length file)"

lemma magic_at_fits: "magic_at file p \<Longrightarrow> p + 6 \<le> length file"
proof -
  assume "magic_at file p"
  then have "length (take 6 (drop p file)) = 6" by (simp only: magic_at_def length_MAGIC)
  then show "p + 6 \<le> length file" by (simp add: min_def split: if_splits)
qed

lemma next_magic_eqI:
  assumes "p \<le> n" "\<And>i. p \<le> i \<Longrightarrow> i < n \<Longrightarrow> \<not> magic_at file i" "n < length file \<and> magic_at file n \<or> n = length file"
  shows "next_magic file p = n"
proof (cases "n < length file \<and> magic_at file n")
  case True
  then have "find (magic_at file) [p..<length file] = Some n"
    using assms(1,2) by (auto simp: find_Some_iff intro!: exI [of _ "n - p"])
  then show ?thesis by (simp add: next_magic_def)
next
  case False
  with assms(3) have n: "n = length file" by blast
  then have "find (magic_at file) [p..<length file] = None" using assms(2) by (auto simp: find_None_iff)
  then show ?thesis using n by (simp add: next_magic_def)
qed

lemma next_magic_cases:
  assumes "p \<le> length file"
  obtains "p \<le> next_magic file p" "next_magic file p < length file" "magic_at file (next_magic file p)"
      "\<And>i. p \<le> i \<Longrightarrow> i < next_magic file p \<Longrightarrow> \<not> magic_at file i"
  | "next_magic file p = length file" "\<And>i. p \<le> i \<Longrightarrow> \<not> magic_at file i"
proof (cases "find (magic_at file) [p..<length file]")
  case None
  then have "\<not> magic_at file i" if "p \<le> i" for i
    using that magic_at_fits [of "file" i] by (force simp: find_None_iff)
  then show ?thesis using that(2) None by (simp add: next_magic_def)
next
  case (Some n)
  then obtain k where k: "k < length file - p" "magic_at file (p + k)" "n = p + k"
    "\<And>j. j < k \<Longrightarrow> \<not> magic_at file (p + j)" by (auto simp: find_Some_iff)
  have "\<not> magic_at file i" if "p \<le> i" "i < n" for i using k(4) [of "i - p"] that k(3) by simp
  then show ?thesis using that(1) Some k by (simp add: next_magic_def)
qed

lemma next_magic_skip:
  assumes "p \<le> p'" "p' \<le> length file" "\<And>i. p \<le> i \<Longrightarrow> i < p' \<Longrightarrow> \<not> magic_at file i"
  shows "next_magic file p = next_magic file p'"
  using assms(2)
proof (cases rule: next_magic_cases)
  case 1
  have "\<not> magic_at file i" if "p \<le> i" "i < next_magic file p'" for i
    using that assms(3) 1(4) by (cases "i < p'") auto
  then show ?thesis using 1 assms(1) by (intro next_magic_eqI) auto
next
  case 2
  have "\<not> magic_at file i" if "p \<le> i" for i using that assms(3) 2(2) by (cases "i < p'") auto
  then show ?thesis using 2 assms(1,2) by (intro next_magic_eqI) auto
qed

lemma next_magic_bounds:
  assumes "p \<le> length file" shows "p \<le> next_magic file p \<and> next_magic file p \<le> length file"
  using assms by (cases rule: next_magic_cases) (use assms in auto)

text \<open>A window of the scan.\<close>

lemma window_magic:
  "i + 6 \<le> w \<Longrightarrow> p + w \<le> length file \<Longrightarrow>
   take (length MAGIC) (drop i (take w (drop p file))) = MAGIC \<longleftrightarrow> magic_at file (p + i)"
  by (simp add: magic_at_def drop_take min_def add.commute)

lemma find_subslice_None:
  assumes "find_subslice (take w (drop p file)) MAGIC = None" "p + w \<le> length file" "i + 6 \<le> w"
  shows "\<not> magic_at file (p + i)"
proof -
  have "MAGIC \<noteq> []" using length_MAGIC by fastforce
  then have "\<forall>x < w - 5. take (length MAGIC) (drop x (take w (drop p file))) \<noteq> MAGIC"
    using assms by (auto simp: find_subslice_def find_None_iff simp del: upt_Suc split: if_splits)
  then show ?thesis using window_magic [OF assms(3,2)] assms(3) by simp
qed

lemma find_subslice_Some:
  assumes "find_subslice (take w (drop p file)) MAGIC = Some k" "p + w \<le> length file"
  shows "magic_at file (p + k)" "k + 6 \<le> w" "\<And>i. i < k \<Longrightarrow> \<not> magic_at file (p + i)"
proof -
  have k: "k + 6 \<le> w" "take (length MAGIC) (drop k (take w (drop p file))) = MAGIC"
    "\<And>i. i < k \<Longrightarrow> take (length MAGIC) (drop i (take w (drop p file))) \<noteq> MAGIC"
    using assms by (auto simp: find_subslice_def find_Some_iff simp del: upt_Suc split: if_splits)
  show "magic_at file (p + k)" "k + 6 \<le> w" using k window_magic [OF k(1) assms(2)] by simp_all
  show "\<not> magic_at file (p + i)" if "i < k" for i
    using k(3) [OF that] window_magic [of i w p "file"] that k(1) assms(2) by simp
qed

lemma scan_windows_cursor:
  assumes "length file < 2 ^ 64"
  shows "p \<le> length file \<Longrightarrow>
    fst (scan_windows (cursor_ops file) (length file) p q) = Ok (next_magic file p)"
proof (induction "length file - p" arbitrary: p q rule: less_induct)
  case less
  let ?B = BLOCK_SCAN_READ_BUFFER_SIZE
  define w where "w = min (length file - p) ?B"
  note unfold = scan_windows.simps [of "cursor_ops file" "length file" p, folded w_def]
  have B: "?B > 5" by (simp add: BLOCK_SCAN_READ_BUFFER_SIZE_def)
  show ?case
  proof (cases "w = 0")
    case True
    then have "p = length file" using less.prems B by (auto simp: w_def min_def split: if_splits)
    then have "next_magic file p = length file" by (intro next_magic_eqI) auto
    then show ?thesis using True less.prems by (simp add: unfold rd_return_def)
  next
    case False
    have pw: "p + w \<le> length file" using less.prems by (auto simp: w_def)
    have r: "read_exact (cursor_ops file) w p = (Ok (take w (drop p file)), p + w)"
      by (rule cursor_exact [OF assms pw])
    then have rb: "rd_bind (read_exact (cursor_ops file) w) f p = f (take w (drop p file)) (p + w)"
      for f :: "byte list \<Rightarrow> (nat, nat) rd" by (simp add: rd_bind_def)
    have sb: "rd_bind (rd_seek (cursor_ops file) p) f q = f () p" for f :: "unit \<Rightarrow> (nat, nat) rd"
      by (simp add: rd_bind_def)
    show ?thesis
    proof (cases "find_subslice (take w (drop p file)) MAGIC")
      case (Some k)
      note f = find_subslice_Some [OF Some pw]
      have "next_magic file p = p + k"
      proof (rule next_magic_eqI)
        show "\<not> magic_at file i" if "p \<le> i" "i < p + k" for i using f(3) [of "i - p"] that by simp
        show "p + k < length file \<and> magic_at file (p + k) \<or> p + k = length file" using f(1,2) pw by auto
      qed simp
      then show ?thesis using less.prems False Some
        by (simp add: unfold Let_def sb rb rd_return_def)
    next
      case None
      have no: "\<not> magic_at file i" if "p \<le> i" "i + 6 \<le> p + w" for i
        using find_subslice_None [OF None pw, of "i - p"] that by simp
      show ?thesis
      proof (cases "w < ?B")
        case True
        then have "w = length file - p" by (auto simp: w_def)
        then have "\<not> magic_at file i" if "p \<le> i" for i
          using no [OF that] magic_at_fits [of "file" i] less.prems by auto
        then have "next_magic file p = length file" using less.prems by (intro next_magic_eqI) auto
        then show ?thesis using less.prems False None True
          by (simp add: unfold Let_def sb rb rd_return_def)
      next
        case full: False
        let ?p = "p + (w - 5)"
        have p': "p \<le> ?p" "?p \<le> length file" "length file - ?p < length file - p" using full B pw False by (auto simp: w_def)
        have "next_magic file p = next_magic file ?p"
        proof (rule next_magic_skip [OF p'(1,2)])
          show "\<not> magic_at file i" if "p \<le> i" "i < ?p" for i using no [OF that(1)] that(2) full B by (auto simp: w_def)
        qed
        then show ?thesis using less.prems False None full less.hyps [OF p'(3,2), of "p + w"]
          by (simp add: unfold Let_def sb rb)
      qed
    qed
  qed
qed

lemma create_corrupted_cursor:
  assumes "length file < 2 ^ 64" "p + 6 \<le> length file"
  shows "create_corrupted_block (cursor_ops file) p q =
    (Ok (log_block_new LogFormatV1 Corrupted Map.empty EmptyContent Map.empty), next_magic file (p + 6))"
proof -
  have m: "min (p + 6) 18446744073709551615 = p + 6" using assms by simp
  obtain x s' where r: "scan_windows (cursor_ops file) (length file) (p + 6) q = (x, s')" by fastforce
  then have "x = Ok (next_magic file (p + 6))" using scan_windows_cursor [OF assms, of q] by simp
  then show ?thesis
    by (simp add: create_corrupted_block_def scan_for_next_block_offset_def rd_bind_def m r rd_return_def)
qed

section \<open>Progress\<close>

lemma read_entries_cursor:
  "read_entries (cursor_ops file) n m p = (Inr m', q) \<Longrightarrow> p \<le> length file \<Longrightarrow> p \<le> q \<and> q \<le> length file"
proof (induction n arbitrary: m p)
  case (Suc n)
  then obtain q1 m1 where "read_entries (cursor_ops file) n m1 q1 = (Inr m', q)" "p \<le> q1" "q1 \<le> length file"
    by (fastforce simp: rd_Ok dest!: cursor_exact_Ok)
  then show ?case using Suc.IH by fastforce
qed (simp add: rd_return_Ok)

lemma read_metadata_cursor:
  assumes "read_block_metadata (cursor_ops file) k v p = (Inr m, q)" "v = LogFormatV1"
  shows "p + 4 \<le> q \<and> q \<le> length file"
proof -
  have "\<not> (k = Header \<and> \<not> has_header v \<or> k = Footer \<and> \<not> has_footer v)"
    using assms(2) by (auto simp: has_header_def has_footer_def)
  then obtain nb where "read_entries (cursor_ops file) nb Map.empty (p + 4) = (Inr m, q)" "p + 4 \<le> length file"
    using assms(1) by (auto simp: read_block_metadata_def rd_Ok dest!: cursor_exact_Ok)
  then show ?thesis using read_entries_cursor by blast
qed

lemma read_type_cursor:
  "read_block_type (cursor_ops file) v p = (Inr t, q) \<Longrightarrow> v = LogFormatV1 \<and> q = p + 4"
  by (auto simp: read_block_type_def rd_Ok has_block_type_def split: if_splits dest!: cursor_exact_Ok)
    (cases v; simp)

lemma read_total_cursor:
  "read_total_block_length (cursor_ops file) LogFormatV1 p = (Inr t, q) \<Longrightarrow> p \<le> q \<and> q \<le> length file"
  by (auto simp: read_total_block_length_def has_total_log_block_length_def rd_Ok split: if_splits
      dest!: cursor_u64_Ok)

lemma read_headers_only_cursor:
  assumes "read_headers_only (cursor_ops file) name n budget p = (Inr x, q)"
  shows "p < q \<and> q \<le> length file"
  using assms
  by (fastforce simp: read_headers_only_def rd_Ok take_resident_cursor checked_add_Some read_log_format_version_def
      has_content_length_def
      dest!: cursor_exact_Ok read_type_cursor read_metadata_cursor read_total_cursor)

lemma read_decoded_cursor:
  assumes "read_decoded (cursor_ops file) decode LogFormatV1 t header n be p = (Inr x, q)"
  shows "p \<le> q \<and> q \<le> length file"
  using assms
  by (fastforce simp: read_decoded_def rd_Ok dest!: read_metadata_cursor read_total_cursor)

lemma block_prefix:
  assumes "rd_bind (rd_position (cursor_ops file)) (\<lambda>mp. rd_bind (read_magic (cursor_ops file)) (\<lambda>more.
      if \<not> more then rd_return None
      else rd_bind (read_u64 (cursor_ops file)) (\<lambda>n.
        rd_bind (is_block_corrupted (cursor_ops file) mp n) (\<lambda>c. k mp n c)))) p = (Inr (Some x), q)"
  obtains n c s1 where "p + 6 \<le> length file"
    "is_block_corrupted (cursor_ops file) p n (p + 14) = (Inr c, s1)" "k p n c s1 = (Inr (Some x), q)"
proof -
  obtain more s0 where m: "read_magic (cursor_ops file) p = (Inr more, s0)" "more"
    "rd_bind (read_u64 (cursor_ops file)) (\<lambda>n. rd_bind (is_block_corrupted (cursor_ops file) p n) (\<lambda>c. k p n c)) s0 =
      (Inr (Some x), q)"
    using assms by (auto simp: rd_bind_Ok rd_return_Ok split: if_splits)
  then have s0: "s0 = p + 6" "p + 6 \<le> length file" using cursor_magic_Ok by blast+
  obtain n s' where "read_u64 (cursor_ops file) s0 = (Inr n, s')"
    "rd_bind (is_block_corrupted (cursor_ops file) p n) (\<lambda>c. k p n c) s' = (Inr (Some x), q)"
    using m(3) by (auto simp: rd_bind_Ok)
  moreover from this have "s' = p + 14" using cursor_u64_Ok s0(1) by fastforce
  ultimately show ?thesis using that s0(2) by (auto simp: rd_bind_Ok)
qed

lemma next_metadata_progress:
  assumes "length file < 2 ^ 64" "read_next_block_metadata_only (cursor_ops file) name budget p = (Inr (Some x), q)"
  shows "p < q \<and> q \<le> length file"
proof -
  obtain n c s1 where m: "p + 6 \<le> length file"
    "is_block_corrupted (cursor_ops file) p n (p + 14) = (Inr c, s1)"
    "(if c then rd_bind (create_corrupted_block (cursor_ops file) p) (\<lambda>b. rd_return (Some (b, budget)))
      else rd_bind (read_headers_only (cursor_ops file) name n budget) (\<lambda>r. rd_return (Some r))) s1 =
      (Inr (Some x), q)"
    using assms(2) unfolding read_next_block_metadata_only_def read_block_length_def by (rule block_prefix)
  show ?thesis
  proof (cases c)
    case True
    then have "q = next_magic file (p + 6)" using m(3) create_corrupted_cursor [OF assms(1) m(1)] by (simp add: rd_Ok)
    then show ?thesis using next_magic_bounds [OF m(1)] by simp
  next
    case False
    then have "s1 = p + 14" using m(2) cursor_corrupted_False by simp
    then show ?thesis using m(3) False by (auto simp: rd_Ok dest!: read_headers_only_cursor)
  qed
qed

lemma next_block_progress:
  assumes "length file < 2 ^ 64" "read_next_block ch tz (cursor_ops file) decode rng p = (Inr (Some x), q)"
  shows "p < q \<and> q \<le> length file"
proof -
  define body where "body mp n = rd_bind (rd_lift (block_end mp n)) (\<lambda>be.
       rd_bind (read_log_format_version (cursor_ops file)) (\<lambda>v.
       rd_bind (read_block_type (cursor_ops file) v) (\<lambda>t.
       rd_bind (read_block_metadata (cursor_ops file) Header v) (\<lambda>header.
       rd_bind (rd_lift (should_skip_block ch tz header rng)) (\<lambda>skip.
         if skip then rd_bind (rd_seek (cursor_ops file) be) (\<lambda>_.
           rd_return (Some (log_block_new_skipped v t header)))
         else rd_bind (read_decoded (cursor_ops file) decode v t header n be) (\<lambda>b. rd_return (Some b)))))))"
    for mp n
  obtain n c s1 where m: "p + 6 \<le> length file"
    "is_block_corrupted (cursor_ops file) p n (p + 14) = (Inr c, s1)"
    "(if c then rd_bind (create_corrupted_block (cursor_ops file) p) (\<lambda>b. rd_return (Some b)) else body p n) s1 =
      (Inr (Some x), q)"
    using assms(2) unfolding read_next_block_def read_block_length_def body_def [symmetric] by (rule block_prefix)
  show ?thesis
  proof (cases c)
    case True
    then have "q = next_magic file (p + 6)" using m(3) create_corrupted_cursor [OF assms(1) m(1)] by (simp add: rd_Ok)
    then show ?thesis using next_magic_bounds [OF m(1)] by simp
  next
    case False
    then have s1: "s1 = p + 14" "p + 14 + n \<le> length file" using m(2) False cursor_corrupted_False [of "file" p n "p + 14" s1] by simp_all
    have "body p n (p + 14) = (Inr (Some x), q)" using m(3) False s1 by simp
    then show ?thesis using s1(2)
      by (fastforce simp: body_def rd_Ok block_end_def bind_eq_Some_conv checked_add_Some
          read_log_format_version_def split: if_splits
          dest!: cursor_exact_Ok read_type_cursor read_metadata_cursor read_decoded_cursor)
  qed
qed

text \<open>Each block moves the cursor, so the rest of the file bounds the blocks.\<close>

lemma header_walk_ends:
  "length file < 2 ^ 64 \<Longrightarrow> p \<le> length file \<Longrightarrow> length file - p < n \<Longrightarrow>
   read_all_blocks_metadata_only n (cursor_ops file) name budget p \<noteq> None"
proof (induction n arbitrary: p budget)
  case (Suc n)
  show ?case
  proof (cases "\<exists>b bu q. read_next_block_metadata_only (cursor_ops file) name budget p = (Inr (Some (b, bu)), q)")
    case True
    then obtain b bu q where r: "read_next_block_metadata_only (cursor_ops file) name budget p = (Inr (Some (b, bu)), q)"
      by blast
    have "p < q" "q \<le> length file" using next_metadata_progress [OF Suc.prems(1) r] by simp_all
    then show ?thesis using Suc.IH [of q bu] Suc.prems r by auto
  next
    case False
    then show ?thesis by (auto split: prod.splits sum.splits option.splits)
  qed
qed simp

lemma block_walk_ends:
  "length file < 2 ^ 64 \<Longrightarrow> p \<le> length file \<Longrightarrow> length file - p < n \<Longrightarrow>
   read_all_blocks n ch tz (cursor_ops file) decode rng p \<noteq> None"
proof (induction n arbitrary: p)
  case (Suc n)
  show ?case
  proof (cases "\<exists>b q. read_next_block ch tz (cursor_ops file) decode rng p = (Inr (Some b), q)")
    case True
    then obtain b q where r: "read_next_block ch tz (cursor_ops file) decode rng p = (Inr (Some b), q)" by blast
    have "p < q" "q \<le> length file" using next_block_progress [OF Suc.prems(1) r] by simp_all
    then show ?thesis using Suc.IH [of q] Suc.prems r by auto
  next
    case False
    then show ?thesis by (auto split: prod.splits sum.splits option.splits)
  qed
qed simp

end
