(* ===== verification/Log_Layout.thy ===== *)
theory Log_Layout
  imports Log_Reader_Cursor
begin

text \<open>
  What a log file is made of, and the walks over one. \<open>block_bytes\<close> lays a block out as the
  format has it; \<open>lays\<close> reads a file as a sequence of such blocks and of spans that start with a
  magic and fail the framing. The headers-only walk returns the blocks at their places, with a
  corrupt block for each bad span.
\<close>

section \<open>The layout of a block\<close>

type_synonym meta_entries = "(BlockMetadataKey \<times> string) list"

record block_image =
  bi_type :: BlockType
  bi_header :: meta_entries
  bi_content :: "byte list"
  bi_footer :: meta_entries

definition entry_bytes :: "BlockMetadataKey \<times> string \<Rightarrow> byte list" where
  "entry_bytes e = be_bytes 4 (metadata_key_code (fst e)) @ be_bytes 4 (length (snd e)) @ str_bytes (snd e)"

definition meta_bytes :: "meta_entries \<Rightarrow> byte list" where
  "meta_bytes es = be_bytes 4 (length es) @ concat (map entry_bytes es)"

definition block_body :: "block_image \<Rightarrow> byte list" where
  "block_body i = be_bytes 4 1 @ be_bytes 4 (block_type_code (bi_type i)) @ meta_bytes (bi_header i) @
     be_bytes 8 (length (bi_content i)) @ bi_content i @ meta_bytes (bi_footer i)"

text \<open>The length field counts what follows it, the trailing length included; the trailing length
  counts the magic too.\<close>

definition block_bytes :: "block_image \<Rightarrow> byte list" where
  "block_bytes i = MAGIC @ be_bytes 8 (length (block_body i) + 8) @ block_body i @
     be_bytes 8 (length (block_body i) + 14)"

definition entries_ok :: "meta_entries \<Rightarrow> bool" where
  "entries_ok es \<longleftrightarrow> length es < 2 ^ 32 \<and> (\<forall>(k, v) \<in> set es. length v < 2 ^ 32 \<and> string_valid v)"

definition image_ok :: "block_image \<Rightarrow> bool" where
  "image_ok i \<longleftrightarrow> entries_ok (bi_header i) \<and> entries_ok (bi_footer i)"

section \<open>Reading what lies ahead\<close>

definition unread :: "byte list \<Rightarrow> nat \<Rightarrow> byte list \<Rightarrow> bool" where
  "unread file p bs \<longleftrightarrow> length file + 6 < 2 ^ 64 \<and> p \<le> length file \<and> drop p file = bs"

lemma unread_append: "unread file p (xs @ rest) \<Longrightarrow> unread file (p + length xs) rest"
proof -
  assume u: "unread file p (xs @ rest)"
  then have d: "length file + 6 < 2 ^ 64" "p \<le> length file" "drop p file = xs @ rest" by (simp_all add: unread_def)
  then have "length file - p = length xs + length rest" by (metis length_append length_drop)
  moreover have "drop (p + length xs) file = rest" using d(3) by (metis add.commute append_eq_conv_conj drop_drop)
  ultimately show ?thesis using d(1,2) by (simp add: unread_def)
qed

lemma unread_fits: "unread file p (xs @ rest) \<Longrightarrow> p + length xs \<le> length file"
  using unread_append by (auto simp: unread_def)

lemma unread_take: "unread file p (xs @ rest) \<Longrightarrow> n = length xs \<Longrightarrow> take n (drop p file) = xs"
  by (simp add: unread_def)

lemma exact_unread:
  "unread file p (xs @ rest) \<Longrightarrow> n = length xs \<Longrightarrow> read_exact (cursor_ops file) n p = (Ok xs, p + n)"
  using unread_take [of "file" p xs rest n] unread_fits [of "file" p xs rest]
  by (simp add: cursor_exact unread_def)

lemma u64_unread:
  "unread file p (be_bytes 8 n @ rest) \<Longrightarrow> n < 2 ^ 64 \<Longrightarrow> read_u64 (cursor_ops file) p = (Ok n, p + 8)"
  by (simp add: read_u64_def rd_bind_step [OF exact_unread] rd_return_def)

lemma key_code_bytes: "metadata_key_of_bytes (be_bytes 4 (metadata_key_code k)) = Ok k"
  by (cases k) (simp_all add: metadata_key_of_bytes_def metadata_key_code_def metadata_keys_def)

lemma type_code_bytes: "block_type_of_bytes (be_bytes 4 (block_type_code t)) = Ok t"
  by (cases t) (simp_all add: block_type_of_bytes_def block_type_code_def Let_def)

lemma entry_unread:
  assumes "unread file p (entry_bytes (k, v) @ rest)" "length v < 2 ^ 32" "string_valid v"
  shows "read_entries (cursor_ops file) (Suc n) m p =
    read_entries (cursor_ops file) n (m(k \<mapsto> v)) (p + length (entry_bytes (k, v)))"
proof -
  have u0: "unread file p (be_bytes 4 (metadata_key_code k) @ be_bytes 4 (length v) @ str_bytes v @ rest)"
    using assms(1) by (simp add: entry_bytes_def)
  note u1 = unread_append [OF u0]
  note u2 = unread_append [OF u1]
  have "read_exact (cursor_ops file) 4 p = (Ok (be_bytes 4 (metadata_key_code k)), p + 4)"
    "read_exact (cursor_ops file) 4 (p + 4) = (Ok (be_bytes 4 (length v)), p + 8)"
    "read_exact (cursor_ops file) (length v) (p + 8) = (Ok (str_bytes v), p + 8 + length v)"
    using exact_unread [OF u0] exact_unread [OF u1] exact_unread [OF u2] by (simp_all add: add.commute)
  then show ?thesis
    using assms(2,3) by (simp add: rd_bind_def rd_lift_def key_code_bytes entry_bytes_def add.assoc)
qed

lemma entries_unread:
  "unread file p (concat (map entry_bytes es) @ rest) \<Longrightarrow>
   \<forall>(k, v) \<in> set es. length v < 2 ^ 32 \<and> string_valid v \<Longrightarrow>
   read_entries (cursor_ops file) (length es) m p =
     (Ok (m ++ map_of (rev es)), p + length (concat (map entry_bytes es)))"
proof (induction es arbitrary: p m)
  case (Cons e es)
  obtain k v where e: "e = (k, v)" by (cases e)
  have u: "unread file p (entry_bytes (k, v) @ concat (map entry_bytes es) @ rest)" using Cons.prems(1) e by simp
  show ?case
    using entry_unread [OF u] Cons.IH [OF unread_append [OF u]] Cons.prems(2) e
    by (simp add: add.assoc)
qed (simp add: rd_return_def)

lemma metadata_unread:
  assumes "unread file p (meta_bytes es @ rest)" "entries_ok es"
  shows "read_block_metadata (cursor_ops file) k LogFormatV1 p = (Ok (map_of (rev es)), p + length (meta_bytes es))"
proof -
  have u: "unread file p (be_bytes 4 (length es) @ concat (map entry_bytes es) @ rest)"
    using assms(1) by (simp add: meta_bytes_def)
  show ?thesis
    using exact_unread [OF u] entries_unread [OF unread_append [OF u], of Map.empty] assms(2)
    by (simp add: read_block_metadata_def has_header_def has_footer_def rd_bind_def entries_ok_def
        meta_bytes_def add.assoc)
qed

section \<open>One block\<close>

text \<open>The block a walk returns for an image at offset \<open>p\<close>: where its content field starts, and
  that field with the content as its length.\<close>

definition located_block :: "string \<Rightarrow> nat \<Rightarrow> block_image \<Rightarrow> LogBlock" where
  "located_block name p i = (log_block_new LogFormatV1 (bi_type i) (map_of (rev (bi_header i))) EmptyContent
       (map_of (rev (bi_footer i))))\<lparr>
     lb_deferred_content := Some \<lparr>dfc_location =
         \<lparr>content_position = p + 22 + length (meta_bytes (bi_header i)),
          content_length = length (bi_content i) + 8\<rparr>,
       dfc_fetcher = name\<rparr>\<rparr>"

lemma headers_unread:
  assumes u: "unread file (p + 14) (block_body i @ be_bytes 8 t @ rest)" and i: "image_ok i" and t: "t < 2 ^ 64"
  shows "read_headers_only (cursor_ops file) name n budget (p + 14) =
    (Ok (located_block name p i, budget), p + 22 + length (block_body i))"
proof -
  let ?h = "meta_bytes (bi_header i)" and ?c = "bi_content i" and ?f = "meta_bytes (bi_footer i)"
  have u0: "unread file (p + 14) (be_bytes 4 1 @ be_bytes 4 (block_type_code (bi_type i)) @ ?h @
      be_bytes 8 (length ?c) @ ?c @ ?f @ be_bytes 8 t @ rest)"
    using u by (simp add: block_body_def)
  note u1 = unread_append [OF u0, simplified]
  note u2 = unread_append [OF u1, simplified]
  note u3 = unread_append [OF u2]
  note u4 = unread_append [OF u3, simplified]
  note u5 = unread_append [OF u4]
  note u6 = unread_append [OF u5]
  have c: "p + 22 + length ?h + (length ?c + 8) < 2 ^ 64" using u5 by (simp add: unread_def)
  have v: "log_format_of_bytes (be_bytes 4 1) = Ok LogFormatV1"
    by (simp add: log_format_of_bytes_def log_format_of_u32_def)
  have r: "read_log_format_version (cursor_ops file) (p + 14) = (Ok LogFormatV1, p + 18)"
    "read_block_type (cursor_ops file) LogFormatV1 (p + 18) = (Ok (bi_type i), p + 22)"
    "read_block_metadata (cursor_ops file) Header LogFormatV1 (p + 22) =
      (Ok (map_of (rev (bi_header i))), p + 22 + length ?h)"
    "read_u64 (cursor_ops file) (p + 22 + length ?h) = (Ok (length ?c), p + 30 + length ?h)"
    "read_block_metadata (cursor_ops file) Footer LogFormatV1 (p + 30 + length ?h + length ?c) =
      (Ok (map_of (rev (bi_footer i))), p + 30 + length ?h + length ?c + length ?f)"
    "read_u64 (cursor_ops file) (p + 30 + length ?h + length ?c + length ?f) =
      (Ok t, p + 38 + length ?h + length ?c + length ?f)"
    using exact_unread [OF u0] exact_unread [OF u1] type_code_bytes v metadata_unread [OF u2]
      u64_unread [OF u3] metadata_unread [OF u5] u64_unread [OF u6 t] i c
    by (simp_all add: read_log_format_version_def read_block_type_def has_block_type_def rd_bind_def rd_lift_def
        image_ok_def ac_simps)
  show ?thesis
    using c r
    by (simp add: read_headers_only_def rd_bind_def has_content_length_def rd_lift_def checked_add_u64_def
        ok_or_def take_resident_cursor read_total_block_length_def has_total_log_block_length_def rd_return_def
        located_block_def log_block_new_def block_body_def ac_simps)
qed

lemma log_read_magic:
  "length file + 6 < 2 ^ 64 \<Longrightarrow> magic_at file p \<Longrightarrow> read_magic (cursor_ops file) p = (Ok True, p + 6)"
  using magic_at_fits [of "file" p] by (simp add: cursor_magic magic_at_def)

lemma length_block_bytes: "length (block_bytes i) = length (block_body i) + 22"
  by (simp add: block_bytes_def)

text \<open>Both walks start a block the same way: magic, length, the corruption check.\<close>

lemma next_metadata_corrupt:
  assumes "length file + 6 < 2 ^ 64" "magic_at file p" "p + 14 \<le> length file"
    and "\<not> well_framed file p (be_nat (take 8 (drop (p + 6) file)))"
  shows "read_next_block_metadata_only (cursor_ops file) name budget p =
    (Ok (Some (log_block_new LogFormatV1 Corrupted Map.empty EmptyContent Map.empty, budget)), next_magic file (p + 6))"
    and "read_next_block ch tz (cursor_ops file) decode rng p =
    (Ok (Some (log_block_new LogFormatV1 Corrupted Map.empty EmptyContent Map.empty)), next_magic file (p + 6))"
proof -
  let ?n = "be_nat (take 8 (drop (p + 6) file))"
  have f: "length file < 2 ^ 64" "p + 6 \<le> length file" using assms by simp_all
  have u: "read_u64 (cursor_ops file) (p + 6) = (Ok ?n, p + 14)"
    using cursor_u64 [OF f(1), of "p + 6"] assms(3) by simp
  obtain x s where c: "is_block_corrupted (cursor_ops file) p ?n (p + 14) = (x, s)" by fastforce
  then have x: "x = Ok True" using cursor_corrupted [OF assms(1,3), of ?n "p + 14"] assms(4) by simp
  show "read_next_block_metadata_only (cursor_ops file) name budget p =
    (Ok (Some (log_block_new LogFormatV1 Corrupted Map.empty EmptyContent Map.empty, budget)), next_magic file (p + 6))"
    by (simp add: read_next_block_metadata_only_def read_block_length_def rd_bind_def
        log_read_magic [OF assms(1,2)] u c x create_corrupted_cursor [OF f] rd_return_def)
  show "read_next_block ch tz (cursor_ops file) decode rng p =
    (Ok (Some (log_block_new LogFormatV1 Corrupted Map.empty EmptyContent Map.empty)), next_magic file (p + 6))"
    by (simp add: read_next_block_def read_block_length_def rd_bind_def
        log_read_magic [OF assms(1,2)] u c x create_corrupted_cursor [OF f] rd_return_def)
qed

lemma next_metadata_image:
  assumes u: "unread file p (block_bytes i @ rest)" and i: "image_ok i"
    and follow: "length file < p + length (block_bytes i) + 6 \<or> magic_at file (p + length (block_bytes i))"
  shows "read_next_block_metadata_only (cursor_ops file) name budget p =
    (Ok (Some (located_block name p i, budget)), p + length (block_bytes i))"
proof -
  let ?L = "length (block_body i) + 8"
  have u0: "unread file p (MAGIC @ be_bytes 8 ?L @ block_body i @ be_bytes 8 (?L + 6) @ rest)"
    using u by (simp add: block_bytes_def add.commute)
  note u1 = unread_append [OF u0, simplified]
  note u2 = unread_append [OF u1, simplified]
  note u3 = unread_append [OF u2]
  have fit: "p + ?L + 14 \<le> length file" "length file + 6 < 2 ^ 64"
    using unread_fits [OF u] u by (simp_all add: length_block_bytes unread_def)
  have m: "magic_at file p" using unread_take [OF u0, of 6] by (simp add: magic_at_def)
  have len: "read_u64 (cursor_ops file) (p + 6) = (Ok ?L, p + 14)" using u64_unread [OF u1] fit by simp
  have "take 8 (drop (p + 14 + length (block_body i)) file) = be_bytes 8 (?L + 6)"
    using unread_take [OF u3, of 8] by (simp add: ac_simps)
  then have "be_nat (take 8 (drop (p + 6 + ?L) file)) = ?L + 6" using fit by (simp add: ac_simps)
  moreover have "p + length (block_bytes i) = p + 14 + ?L" by (simp add: length_block_bytes)
  ultimately have w: "well_framed file p ?L" using fit follow by (auto simp: well_framed_def magic_at_def ac_simps)
  obtain x s where c: "is_block_corrupted (cursor_ops file) p ?L (p + 14) = (x, s)" by fastforce
  have x: "x = Ok False" using cursor_corrupted [OF fit(2), of p ?L "p + 14"] fit w c by simp
  have s: "s = p + 14" using cursor_corrupted_False [of "file" p ?L "p + 14" s] c x by simp
  have h: "read_headers_only (cursor_ops file) name ?L budget (p + 14) =
      (Ok (located_block name p i, budget), p + 22 + length (block_body i))"
    using headers_unread [of "file" p i "?L + 6" rest] u2 i fit by (simp add: ac_simps)
  show ?thesis
    by (simp add: read_next_block_metadata_only_def read_block_length_def rd_bind_def
        log_read_magic [OF fit(2) m] len c x s h rd_return_def length_block_bytes)
qed

section \<open>A file of blocks and bad spans\<close>

datatype piece = Good block_image | Bad nat

text \<open>How the rest of a file from an offset on is made up. A bad span starts with a magic and a
  length field, is not framed, and holds no other magic.\<close>

fun lays :: "byte list \<Rightarrow> nat \<Rightarrow> piece list \<Rightarrow> bool" where
  "lays file p [] \<longleftrightarrow> p \<le> length file \<and> length file < p + 6"
| "lays file p (Good i # ps) \<longleftrightarrow> image_ok i \<and> p \<le> length file \<and>
     take (length (block_bytes i)) (drop p file) = block_bytes i \<and> lays file (p + length (block_bytes i)) ps"
| "lays file p (Bad n # ps) \<longleftrightarrow> magic_at file p \<and> p + 14 \<le> length file \<and>
     \<not> well_framed file p (be_nat (take 8 (drop (p + 6) file))) \<and> next_magic file (p + 6) = p + n \<and>
     lays file (p + n) ps"

fun walked :: "string \<Rightarrow> nat \<Rightarrow> piece list \<Rightarrow> LogBlock list" where
  "walked name p [] = []"
| "walked name p (Good i # ps) = located_block name p i # walked name (p + length (block_bytes i)) ps"
| "walked name p (Bad n # ps) =
     log_block_new LogFormatV1 Corrupted Map.empty EmptyContent Map.empty # walked name (p + n) ps"

lemma block_bytes_magic: "take (length (block_bytes i)) (drop p file) = block_bytes i \<Longrightarrow> magic_at file p"
proof -
  assume "take (length (block_bytes i)) (drop p file) = block_bytes i"
  then have "take 6 (take (length (block_bytes i)) (drop p file)) = take 6 (block_bytes i)" by simp
  then show "magic_at file p" by (simp add: magic_at_def length_block_bytes) (simp add: block_bytes_def)
qed

lemma lays_start: "lays file p ps \<Longrightarrow> length file < p + 6 \<or> magic_at file p"
  by (cases ps rule: list.exhaust; cases "hd ps") (auto dest: block_bytes_magic)

lemma walk_pieces:
  "length file + 6 < 2 ^ 64 \<Longrightarrow> lays file p ps \<Longrightarrow>
   read_all_blocks_metadata_only (Suc (length ps)) (cursor_ops file) name budget p =
     Some (Ok (walked name p ps, budget))"
proof (induction ps arbitrary: p)
  case Nil
  then have "read_magic (cursor_ops file) p = (Ok False, p)" by (intro cursor_magic_eof) auto
  then show ?case by (simp add: read_next_block_metadata_only_def rd_bind_def rd_return_def)
next
  case (Cons x ps)
  show ?case
  proof (cases x)
    case (Bad n)
    then show ?thesis
      using Cons next_metadata_corrupt(1) [of "file" p name budget] by simp
  next
    case (Good i)
    let ?q = "p + length (block_bytes i)"
    have l: "image_ok i" "p \<le> length file" "take (length (block_bytes i)) (drop p file) = block_bytes i"
      "lays file ?q ps" using Cons.prems(2) Good by simp_all
    have "unread file p (block_bytes i @ drop (length (block_bytes i)) (drop p file))"
      using l(2,3) Cons.prems(1) by (metis append_take_drop_id unread_def)
    then show ?thesis
      using next_metadata_image [OF _ l(1), of "file" p _ name budget] lays_start [OF l(4)]
        Cons.IH [OF Cons.prems(1) l(4)] Good by simp
  qed
qed

lemma lays_blocks:
  "\<forall>i \<in> set is. image_ok i \<Longrightarrow> lays (pre @ concat (map block_bytes is)) (length pre) (map Good is)"
proof (induction "is" arbitrary: pre)
  case (Cons i js)
  have "lays ((pre @ block_bytes i) @ concat (map block_bytes js)) (length (pre @ block_bytes i)) (map Good js)"
    by (rule Cons.IH) (use Cons.prems in simp)
  then show ?case using Cons.prems by simp
qed simp

end
