(* ===== verification/Log_Reader_Facts.thy ===== *)
theory Log_Reader_Facts
  imports Log_Layout
begin

text \<open>
  What the log reader promises of a file, over the storage reader of either kind: what is read
  does not depend on how the file is fetched, the walks end, a file of well-formed blocks reads
  back as those blocks, a bad span costs itself alone, and the content kept along the way is
  bounded by its budget and never changes what is loaded.
\<close>

section \<open>Samples\<close>

definition sample_store :: "byte list \<Rightarrow> object_range" where
  "sample_store file a b = Ok (take (b - a) (drop a file))"

lemma sample_store_serves: "length file < 2 ^ 64 \<Longrightarrow> serves (sample_store file) file"
  by (simp add: serves_def sample_store_def)

definition sample_image :: "BlockType \<Rightarrow> string \<Rightarrow> byte list \<Rightarrow> block_image" where
  "sample_image t instant c = \<lparr>bi_type = t, bi_header = [(InstantTime, instant)], bi_content = c, bi_footer = []\<rparr>"

definition sample_a :: block_image where "sample_a = sample_image AvroData ''001'' [7, 9]"
definition sample_b :: block_image where "sample_b = sample_image DeleteBlock ''002'' [1]"

lemma sample_ok: "image_ok sample_a" "image_ok sample_b"
  by (simp_all add: image_ok_def entries_ok_def sample_a_def sample_b_def sample_image_def string_valid_def)

lemma sample_length: "length (block_bytes sample_a) = 59" "length (block_bytes sample_b) = 58"
  by (simp_all add: length_block_bytes block_body_def meta_bytes_def entry_bytes_def sample_a_def sample_b_def
      sample_image_def)

text \<open>A decoder that refuses and one that takes no bytes for the content.\<close>

definition sample_span_decoder :: span_decoder where "sample_span_decoder v n t h bs = Err LogFormatError"

definition sample_content_decoder :: content_decoder where "sample_content_decoder v t h bs = Ok EmptyContent"

definition sample_range :: InstantRange where "sample_range = ir_new ''UTC'' None None True True"

text \<open>A magic and a length field that nothing backs, between the two blocks.\<close>

definition sample_log_bytes :: "byte list" where
  "sample_log_bytes = block_bytes sample_a @ (MAGIC @ be_bytes 8 0) @ block_bytes sample_b"

lemma sample_log_bytes_length: "length sample_log_bytes = 131"
  by (simp add: sample_log_bytes_def sample_length)

lemma sample_bad: "magic_at sample_log_bytes 59 \<and> \<not> well_framed sample_log_bytes 59 0 \<and>
    be_nat (take 8 (drop 65 sample_log_bytes)) = 0 \<and> next_magic sample_log_bytes 65 = 73"
  by code_simp

lemma sample_lays: "lays sample_log_bytes 0 [Good sample_a, Bad 14, Good sample_b]"
  using sample_ok sample_bad sample_log_bytes_length
  by (simp add: sample_length) (simp add: sample_log_bytes_def sample_length)

text \<open>The reader of a file, whole or by windows, is at the cursor's start.\<close>

lemma reads_same_start:
  "serves store file \<Longrightarrow> r \<in> {storage_reader_new file, storage_reader_streaming (length file) w} \<Longrightarrow>
   reads_same store file r 0"
  using reads_same_new reads_same_streaming by auto

lemma header_walk_of_cursor:
  assumes "reads_same store file r 0"
    and "read_all_blocks_metadata_only n (cursor_ops file) name 0 0 = Some (Ok (bs0, left0))"
  shows "\<exists>bs left. read_all_blocks_metadata_only n (storage_ops store) name budget r = Some (Ok (bs, left)) \<and>
    map (\<lambda>b. b\<lparr>lb_resident_content := None\<rparr>) bs = bs0"
  using walk_rel_storage [OF assms(1), of name budget n 0] assms(2)
  by (auto simp: walk_rel_def elim!: option.rel_cases rel_sum.cases)

section \<open>Properties\<close>

text \<open>C17: a log file that is a sequence of well-formed blocks reads back as those blocks. The
  headers-only walk returns one block for each, in order, with its type, its header and its footer
  (of repeated keys the last one), deferred to the place in the file where its content lies.\<close>

theorem log_blocks_roundtrip:
  assumes "serves store (concat (map block_bytes is))" "length (concat (map block_bytes is)) + 6 < 2 ^ 64"
    and "\<forall>i \<in> set is. image_ok i"
    and "r \<in> {storage_reader_new (concat (map block_bytes is)),
              storage_reader_streaming (length (concat (map block_bytes is))) w}"
  shows "\<exists>bs left. read_all_blocks_metadata_only (Suc (length is)) (storage_ops store) name budget r =
      Some (Ok (bs, left)) \<and>
    map (\<lambda>b. b\<lparr>lb_resident_content := None\<rparr>) bs = walked name 0 (map Good is)"
  using header_walk_of_cursor [OF reads_same_start [OF assms(1,4)]
      walk_pieces [OF assms(2) lays_blocks [OF assms(3), of "[]", simplified], simplified length_map]] .

theorem log_blocks_roundtrip_witness:
  "\<exists>bs left. read_all_blocks_metadata_only 3 (storage_ops (sample_store (block_bytes sample_a @ block_bytes sample_b)))
      ''f.log'' 100 (storage_reader_streaming 117 40) = Some (Ok (bs, left)) \<and>
    map (\<lambda>b. b\<lparr>lb_resident_content := None\<rparr>) bs =
      [located_block ''f.log'' 0 sample_a, located_block ''f.log'' 59 sample_b]"
  using log_blocks_roundtrip [OF sample_store_serves, of "[sample_a, sample_b]"
      "storage_reader_streaming 117 40" 40 "''f.log''" 100]
  by (simp add: sample_length sample_ok numeral_3_eq_3 del: read_all_blocks_metadata_only.simps)

text \<open>C18: a corrupt block costs its own span. In a file of well-formed blocks and of spans that
  start with a magic and fail the framing, the walk returns a corrupt block for each such span and
  every other block at its place.\<close>

theorem corrupt_block_costs_its_span:
  assumes "serves store file" "length file + 6 < 2 ^ 64" "lays file 0 ps"
    and "r \<in> {storage_reader_new file, storage_reader_streaming (length file) w}"
  shows "\<exists>bs left. read_all_blocks_metadata_only (Suc (length ps)) (storage_ops store) name budget r =
      Some (Ok (bs, left)) \<and>
    map (\<lambda>b. b\<lparr>lb_resident_content := None\<rparr>) bs = walked name 0 ps"
  by (rule header_walk_of_cursor [OF reads_same_start [OF assms(1,4)] walk_pieces [OF assms(2,3)]])

theorem corrupt_block_costs_its_span_witness:
  "\<exists>bs left. read_all_blocks_metadata_only 4 (storage_ops (sample_store sample_log_bytes))
      ''f.log'' 0 (storage_reader_streaming 131 64) = Some (Ok (bs, left)) \<and>
    map lb_block_type (map (\<lambda>b. b\<lparr>lb_resident_content := None\<rparr>) bs) = [AvroData, Corrupted, DeleteBlock]"
proof -
  obtain bs left where w: "read_all_blocks_metadata_only (Suc 3) (storage_ops (sample_store sample_log_bytes))
      ''f.log'' 0 (storage_reader_streaming 131 64) = Some (Ok (bs, left))"
    "map (\<lambda>b. b\<lparr>lb_resident_content := None\<rparr>) bs = walked ''f.log'' 0 [Good sample_a, Bad 14, Good sample_b]"
    using corrupt_block_costs_its_span [OF sample_store_serves _ sample_lays, of "storage_reader_streaming 131 64" 64
        "''f.log''" 0]
    by (auto simp: sample_log_bytes_length numeral_3_eq_3 simp del: read_all_blocks_metadata_only.simps walked.simps)
  have "Suc 3 = (4 :: nat)" by simp
  then show ?thesis
    using w by (auto simp: located_block_def log_block_new_def sample_a_def sample_b_def sample_image_def)
qed

text \<open>C31: a log file reads the same by windows of any size as it does whole: the decoding walk
  returns the same blocks, or the same error.\<close>

theorem streaming_reads_as_whole:
  assumes "serves store file"
  shows "read_all_blocks n ch tz (storage_ops store) decode rng (storage_reader_streaming (length file) w) =
    read_all_blocks n ch tz (storage_ops store) decode rng (storage_reader_new file)"
  by (simp add: so.read_all_blocks_sim [OF reads_same_streaming [OF assms]]
      so.read_all_blocks_sim [OF reads_same_new [OF assms]])

definition sample_tail :: "byte list" where "sample_tail = MAGIC @ be_bytes 8 0"

lemma sample_corrupt_walk:
  "map_option (map_sum id (map lb_block_type)) (read_all_blocks 2 ch tz (cursor_ops sample_tail)
     decode rng 0) = Some (Ok [Corrupted])"
proof -
  have l: "length sample_tail = 14" by (simp add: sample_tail_def)
  have m: "magic_at sample_tail 0 \<and> \<not> well_framed sample_tail 0 (be_nat (take 8 (drop (0 + 6) sample_tail))) \<and>
      next_magic sample_tail (0 + 6) = 14"
    by code_simp
  have "read_next_block ch tz (cursor_ops sample_tail) decode rng 14 = (Ok None, 14)"
    by (simp add: read_next_block_def rd_bind_def cursor_magic_eof rd_return_def l)
  moreover have "read_next_block ch tz (cursor_ops sample_tail) decode rng 0 =
      (Ok (Some (log_block_new LogFormatV1 Corrupted Map.empty EmptyContent Map.empty)), 14)"
    using next_metadata_corrupt(2) [of sample_tail 0 ch tz decode rng] m l by simp
  ultimately have "map_option (map_sum id (map lb_block_type)) (read_all_blocks (Suc (Suc 0)) ch tz
      (cursor_ops sample_tail) decode rng 0) = Some (Ok [Corrupted])"
    by (simp add: log_block_new_def)
  then show ?thesis by (simp only: numeral_2_eq_2)
qed

theorem streaming_reads_as_whole_witness:
  "map_option (map_sum id (map lb_block_type))
     (read_all_blocks 2 utc_chrono ''UTC'' (storage_ops (sample_store sample_tail)) sample_span_decoder sample_range
       (storage_reader_streaming (length sample_tail) 4)) = Some (Ok [Corrupted])"
  using streaming_reads_as_whole [OF sample_store_serves, of sample_tail 2 utc_chrono "''UTC''"
      sample_span_decoder sample_range 4]
    so.read_all_blocks_sim [OF reads_same_new [OF sample_store_serves], of sample_tail 2 utc_chrono "''UTC''"
      sample_span_decoder sample_range]
    sample_corrupt_walk [of utc_chrono "''UTC''" sample_span_decoder sample_range]
  by (simp add: sample_tail_def)

text \<open>C30: the walks over a log file end, whatever its bytes are. Every block moves the reader
  forward, so one step more than the file has bytes is enough for the decoding walk and for the
  headers-only walk, over a whole file and by windows.\<close>

theorem log_walks_end:
  assumes "serves store file"
    and "r \<in> {storage_reader_new file, storage_reader_streaming (length file) w}"
  shows "read_all_blocks (Suc (length file)) ch tz (storage_ops store) decode rng r \<noteq> None \<and>
    read_all_blocks_metadata_only (Suc (length file)) (storage_ops store) name budget r \<noteq> None"
proof -
  note r = reads_same_start [OF assms]
  have f: "length file < 2 ^ 64" using assms(1) by (simp add: serves_def)
  have "read_all_blocks_metadata_only (Suc (length file)) (storage_ops store) name budget r \<noteq> None"
    using walk_rel_storage [OF r, of name budget "Suc (length file)" budget]
      header_walk_ends [OF f, of 0 "Suc (length file)" name budget]
    by (auto elim!: option.rel_cases simp del: read_all_blocks_metadata_only.simps)
  then show ?thesis using so.read_all_blocks_sim [OF r] block_walk_ends [OF f, of 0]
    by (simp del: read_all_blocks.simps read_all_blocks_metadata_only.simps)
qed

theorem log_walks_end_witness:
  "read_all_blocks 132 utc_chrono ''UTC'' (storage_ops (sample_store sample_log_bytes)) sample_span_decoder sample_range
      (storage_reader_streaming 131 64) \<noteq> None \<and>
   read_all_blocks_metadata_only 132 (storage_ops (sample_store sample_log_bytes)) ''f.log'' 10
      (storage_reader_streaming 131 64) \<noteq> None"
  using log_walks_end [OF sample_store_serves, of sample_log_bytes "storage_reader_streaming 131 64" 64 utc_chrono
      "''UTC''" sample_span_decoder sample_range "''f.log''" 10]
  by (simp add: sample_log_bytes_length del: read_all_blocks.simps read_all_blocks_metadata_only.simps)

text \<open>The headers-only walk holds no more content than the budget it was given, whatever
  the file holds: what it kept and what is left of the budget add up to the budget.\<close>

theorem header_walk_within_budget:
  assumes "serves store file"
    and "r \<in> {storage_reader_new file, storage_reader_streaming (length file) w}"
    and "read_all_blocks_metadata_only n (storage_ops store) name budget r = Some (Ok (bs, left))"
  shows "sum_list (map kept_bytes bs) + left = budget"
  using walk_rel_storage [OF reads_same_start [OF assms(1,2)], of name budget n 0] assms(3)
  by (auto simp: walk_rel_def add.commute elim!: option.rel_cases rel_sum.cases)

theorem header_walk_within_budget_witness:
  "\<exists>bs left. read_all_blocks_metadata_only (Suc 3) (storage_ops (sample_store sample_log_bytes)) ''f.log'' 12
      (storage_reader_new sample_log_bytes) = Some (Ok (bs, left)) \<and> sum_list (map kept_bytes bs) + left = 12"
proof -
  have s: "serves (sample_store sample_log_bytes) sample_log_bytes" by (simp add: sample_store_serves sample_log_bytes_length)
  have "read_all_blocks_metadata_only (Suc 3) (cursor_ops sample_log_bytes) ''f.log'' 0 0 =
      Some (Ok (walked ''f.log'' 0 [Good sample_a, Bad 14, Good sample_b], 0))"
    using walk_pieces [OF _ sample_lays] by (simp add: sample_log_bytes_length numeral_3_eq_3)
  from header_walk_of_cursor [OF reads_same_new [OF s] this, of 12]
  obtain bs left where "read_all_blocks_metadata_only (Suc 3) (storage_ops (sample_store sample_log_bytes)) ''f.log'' 12
      (storage_reader_new sample_log_bytes) = Some (Ok (bs, left))" by blast
  then show ?thesis using header_walk_within_budget [OF s] by blast
qed

text \<open>What the headers-only walk kept never changes what is loaded. Over two readers of the
  file, whole or by windows, and with any two budgets, the blocks load to the same content, when
  the fetch of a block's range reads the same file.\<close>

theorem kept_content_changes_nothing:
  assumes "serves store file"
    and "r \<in> {storage_reader_new file, storage_reader_streaming (length file) w}"
    and "r' \<in> {storage_reader_new file, storage_reader_streaming (length file) w'}"
    and "\<And>p l. p + l \<le> length file \<Longrightarrow> fetch name p l = Ok (take l (drop p file))"
  shows "loaded decode fetch (read_all_blocks_metadata_only n (storage_ops store) name budget r) =
    loaded decode fetch (read_all_blocks_metadata_only n (storage_ops store) name budget' r')"
proof -
  note r = reads_same_start [OF assms(1,2)] reads_same_start [OF assms(1,3)]
  show ?thesis
    using loaded_walk_rel [OF walk_rel_storage [OF r(1), of name budget n 0], of fetch decode]
      loaded_walk_rel [OF walk_rel_storage [OF r(2), of name budget' n 0], of fetch decode] assms(4) by simp
qed

theorem kept_content_changes_nothing_witness:
  "loaded sample_content_decoder (\<lambda>_ p l. Ok (take l (drop p sample_log_bytes)))
     (read_all_blocks_metadata_only 4 (storage_ops (sample_store sample_log_bytes)) ''f.log'' 1000
       (storage_reader_new sample_log_bytes)) =
   loaded sample_content_decoder (\<lambda>_ p l. Ok (take l (drop p sample_log_bytes)))
     (read_all_blocks_metadata_only 4 (storage_ops (sample_store sample_log_bytes)) ''f.log'' 0
       (storage_reader_streaming (length sample_log_bytes) 16))"
  by (rule kept_content_changes_nothing [where w = 0 and w' = 16]) (simp_all add: sample_store_serves sample_log_bytes_length)

end
