(* ===== verification/Filters.thy ===== *)
theory Filters
  imports Arrow_Rows
begin

text \<open>
  Filter expressions (\<open>expr/mod.rs\<close>, \<open>expr/filter.rs\<close>): operators, filters and their tuple form,
  the mask a list of filters computes over the rows of a batch, and the check that every filter
  names a column. The cast of a string to a column's type and the comparison of two values of a
  type (\<open>arrow_cast\<close>, \<open>arrow_ord\<close>) are a parameter.
\<close>

section \<open>Operators\<close>

datatype ExprOperator = OpEq | OpNe | OpLt | OpLte | OpGt | OpGte | OpIn | OpNotIn

definition show_operator :: "ExprOperator \<Rightarrow> string" where
  "show_operator o1 = (case o1 of OpEq \<Rightarrow> ''='' | OpNe \<Rightarrow> ''!='' | OpLt \<Rightarrow> ''<'' | OpLte \<Rightarrow> ''<=''
     | OpGt \<Rightarrow> ''>'' | OpGte \<Rightarrow> ''>='' | OpIn \<Rightarrow> ''IN'' | OpNotIn \<Rightarrow> ''NOT IN'')"

definition TOKEN_OP_PAIRS :: "(string \<times> ExprOperator) list" where
  "TOKEN_OP_PAIRS = [(''='', OpEq), (''!='', OpNe), (''<'', OpLt), (''<='', OpLte), (''>'', OpGt),
     (''>='', OpGte), (''IN'', OpIn), (''NOT IN'', OpNotIn)]"

definition is_multi_value :: "ExprOperator \<Rightarrow> bool" where
  "is_multi_value o1 \<longleftrightarrow> o1 = OpIn \<or> o1 = OpNotIn"

definition operator_negate :: "ExprOperator \<Rightarrow> ExprOperator option" where
  "operator_negate o1 = (case o1 of OpEq \<Rightarrow> Some OpNe | OpNe \<Rightarrow> Some OpEq | OpLt \<Rightarrow> Some OpGte
     | OpLte \<Rightarrow> Some OpGt | OpGt \<Rightarrow> Some OpLte | OpGte \<Rightarrow> Some OpLt | OpIn \<Rightarrow> Some OpNotIn
     | OpNotIn \<Rightarrow> Some OpIn)"

definition operator_from_str :: "string \<Rightarrow> ExprOperator result" where
  "operator_from_str s = ok_or UnsupportedError
     (map_option snd (find (\<lambda>(token, o1). eq_ignore_ascii_case token s) TOKEN_OP_PAIRS))"

section \<open>Filters\<close>

record Filter =
  fl_field :: string
  fl_operator :: ExprOperator
  fl_values :: "string list"

definition filter_new :: "string \<Rightarrow> ExprOperator \<Rightarrow> string list \<Rightarrow> Filter result" where
  "filter_new field o1 vs =
     (if (if is_multi_value o1 then vs = [] else length vs \<noteq> 1) then Err SchemaError
      else Ok \<lparr>fl_field = field, fl_operator = o1, fl_values = vs\<rparr>)"

definition filter_negate :: "Filter \<Rightarrow> Filter option" where
  "filter_negate f = map_option (\<lambda>o1. f\<lparr>fl_operator := o1\<rparr>) (operator_negate (fl_operator f))"

text \<open>The values of \<open>IN\<close> and \<open>NOT IN\<close> as one string: commas separate, a backslash escapes a comma
  or a backslash, segments are trimmed and empty ones dropped.\<close>

definition push_segment :: "string \<Rightarrow> string list" where
  "push_segment current = (if trim current = [] then [] else [trim current])"

fun split_in_acc :: "string \<Rightarrow> string \<Rightarrow> string list" where
  "split_in_acc current [] = push_segment current"
| "split_in_acc current (c # cs) =
     (if c = CHR 0x5C then
        (case cs of
           [] \<Rightarrow> split_in_acc (current @ [CHR 0x5C]) []
         | d # ds \<Rightarrow>
             if d = CHR '','' then split_in_acc (current @ [CHR '','']) ds
             else if d = CHR 0x5C then split_in_acc (current @ [CHR 0x5C]) ds
             else split_in_acc (current @ [CHR 0x5C]) (d # ds))
      else if c = CHR '','' then push_segment current @ split_in_acc [] cs
      else split_in_acc (current @ [c]) cs)"

definition split_in_values :: "string \<Rightarrow> string list" where
  "split_in_values s = split_in_acc [] s"

definition escape_in_value :: "string \<Rightarrow> string" where
  "escape_in_value v = concat (map (\<lambda>c. if c = CHR 0x5C \<or> c = CHR '','' then [CHR 0x5C, c] else [c]) v)"

definition filter_to_tuple :: "Filter \<Rightarrow> string \<times> string \<times> string" where
  "filter_to_tuple f = (fl_field f, show_operator (fl_operator f),
     if is_multi_value (fl_operator f) then join_with '','' (map escape_in_value (fl_values f))
     else (case fl_values f of [] \<Rightarrow> [] | v # _ \<Rightarrow> v))"

definition filter_from_tuple :: "string \<times> string \<times> string \<Rightarrow> Filter result" where
  "filter_from_tuple t = (case t of (field, os, v) \<Rightarrow>
     res_bind (operator_from_str os) (\<lambda>o1.
       filter_new field o1 (if is_multi_value o1 then split_in_values v else [v])))"

definition from_str_tuples :: "(string \<times> string \<times> string) list \<Rightarrow> Filter list result" where
  "from_str_tuples ts = res_map filter_from_tuple ts"

text \<open>\<open>col(name)\<close> and its comparisons.\<close>

definition col_cmp :: "ExprOperator \<Rightarrow> string \<Rightarrow> string \<Rightarrow> Filter" where
  "col_cmp o1 name v = \<lparr>fl_field = name, fl_operator = o1, fl_values = [v]\<rparr>"

definition ff_eq :: "string \<Rightarrow> string \<Rightarrow> Filter" where "ff_eq = col_cmp OpEq"
definition ff_ne :: "string \<Rightarrow> string \<Rightarrow> Filter" where "ff_ne = col_cmp OpNe"
definition ff_lt :: "string \<Rightarrow> string \<Rightarrow> Filter" where "ff_lt = col_cmp OpLt"
definition ff_lte :: "string \<Rightarrow> string \<Rightarrow> Filter" where "ff_lte = col_cmp OpLte"
definition ff_gt :: "string \<Rightarrow> string \<Rightarrow> Filter" where "ff_gt = col_cmp OpGt"
definition ff_gte :: "string \<Rightarrow> string \<Rightarrow> Filter" where "ff_gte = col_cmp OpGte"

definition in_list :: "string \<Rightarrow> string list \<Rightarrow> Filter" where
  "in_list name vs = \<lparr>fl_field = name, fl_operator = OpIn, fl_values = vs\<rparr>"

definition not_in_list :: "string \<Rightarrow> string list \<Rightarrow> Filter" where
  "not_in_list name vs = \<lparr>fl_field = name, fl_operator = OpNotIn, fl_values = vs\<rparr>"

section \<open>Filters over a schema\<close>

text \<open>What the Arrow kernels do: the strict cast of a string, which types compare, and how two
  values of a type compare.\<close>

record arrow_kernels =
  ak_cast :: "string \<Rightarrow> DataType \<Rightarrow> Value result"
  ak_comparable :: "DataType \<Rightarrow> DataType \<Rightarrow> bool"
  ak_cmp :: "DataType \<Rightarrow> Value \<Rightarrow> Value \<Rightarrow> rust_ordering"

text \<open>A single-element array: its type and its value.\<close>

type_synonym scalar = "DataType \<times> Value"

record SchemableFilter =
  sf_field :: Field
  sf_operator :: ExprOperator
  sf_values :: "scalar list"

definition cast_value :: "arrow_kernels \<Rightarrow> string \<Rightarrow> DataType \<Rightarrow> scalar result" where
  "cast_value ak v t = (case ak_cast ak v t of Inl _ \<Rightarrow> Err SchemaError | Inr x \<Rightarrow> Ok (t, x))"

definition schemable_filter :: "arrow_kernels \<Rightarrow> Filter \<Rightarrow> Schema \<Rightarrow> SchemableFilter result" where
  "schemable_filter ak f s = res_bind (ok_or SchemaError (field_of s (fl_field f))) (\<lambda>field.
     res_bind (res_map (\<lambda>v. cast_value ak v (f_type field)) (fl_values f)) (\<lambda>vs.
       Ok \<lparr>sf_field = field, sf_operator = fl_operator f, sf_values = vs\<rparr>))"

definition cmp_test :: "ExprOperator \<Rightarrow> rust_ordering \<Rightarrow> bool" where
  "cmp_test o1 c = (case o1 of OpEq \<Rightarrow> c = Equal | OpNe \<Rightarrow> c \<noteq> Equal | OpLt \<Rightarrow> c = Less
     | OpLte \<Rightarrow> c \<noteq> Greater | OpGt \<Rightarrow> c = Greater | OpGte \<Rightarrow> c \<noteq> Less | OpIn \<Rightarrow> c = Equal
     | OpNotIn \<Rightarrow> c \<noteq> Equal)"

text \<open>One row of a comparison kernel: no value when either side is null.\<close>

definition kernel_cell :: "arrow_kernels \<Rightarrow> ExprOperator \<Rightarrow> DataType \<Rightarrow> Value \<Rightarrow> Value \<Rightarrow> bool option" where
  "kernel_cell ak o1 t a b = (if a = VNull \<or> b = VNull then None else Some (cmp_test o1 (ak_cmp ak t a b)))"

text \<open>A kernel of \<open>arrow_ord::cmp\<close> over a column and a scalar.\<close>

definition arrow_cmp :: "arrow_kernels \<Rightarrow> ExprOperator \<Rightarrow> DataType \<Rightarrow> Value list \<Rightarrow> scalar \<Rightarrow>
    bool option list result" where
  "arrow_cmp ak o1 t col x =
     (if ak_comparable ak t (fst x) then Ok (map (\<lambda>v. kernel_cell ak o1 t v (snd x)) col)
      else Err ArrowError)"

definition bool_and :: "bool option \<Rightarrow> bool option \<Rightarrow> bool option" where
  "bool_and a b = Option.bind a (\<lambda>x. map_option (\<lambda>y. x \<and> y) b)"

definition bool_or :: "bool option \<Rightarrow> bool option \<Rightarrow> bool option" where
  "bool_or a b = Option.bind a (\<lambda>x. map_option (\<lambda>y. x \<or> y) b)"

definition apply_comparison :: "arrow_kernels \<Rightarrow> SchemableFilter \<Rightarrow> DataType \<Rightarrow> Value list \<Rightarrow>
    bool option list result" where
  "apply_comparison ak f t col =
     (case sf_values f of
        [] \<Rightarrow> Err Panic
      | v # vs \<Rightarrow>
          if \<not> is_multi_value (sf_operator f) then arrow_cmp ak (sf_operator f) t col v
          else
            (let o1 = (if sf_operator f = OpIn then OpEq else OpNe);
                 combine = (if sf_operator f = OpIn then bool_or else bool_and)
             in res_bind (arrow_cmp ak o1 t col v) (\<lambda>r.
                  res_fold (\<lambda>acc x. res_bind (arrow_cmp ak o1 t col x) (\<lambda>c. Ok (map2 combine acc c))) r vs)))"

text \<open>A column of a batch by name.\<close>

definition column_by_name :: "batch \<Rightarrow> string \<Rightarrow> (DataType \<times> Value list) option" where
  "column_by_name b n = map_option (\<lambda>f. (f_type f,
     map (\<lambda>r. case column_of (zip (b_schema b) r) n of None \<Rightarrow> VNull | Some c \<Rightarrow> snd c) (b_rows b)))
     (field_of (b_schema b) n)"

definition mask_step :: "arrow_kernels \<Rightarrow> batch \<Rightarrow> bool option list option \<Rightarrow> Filter \<Rightarrow>
    bool option list option result" where
  "mask_step ak b msk f = (case column_by_name b (fl_field f) of
      None \<Rightarrow> Ok msk
    | Some (t, col) \<Rightarrow>
        res_bind (schemable_filter ak f (b_schema b)) (\<lambda>sf.
        res_bind (apply_comparison ak sf t col) (\<lambda>column_mask.
          Ok (Some (case msk of None \<Rightarrow> column_mask | Some prev \<Rightarrow> map2 bool_and prev column_mask)))))"

text \<open>Filters on columns the batch does not have are skipped.\<close>

definition filters_to_row_mask :: "arrow_kernels \<Rightarrow> Filter list \<Rightarrow> batch \<Rightarrow> bool option list result" where
  "filters_to_row_mask ak fs b = res_bind (res_fold (mask_step ak b) None fs) (\<lambda>msk.
     Ok (case msk of None \<Rightarrow> replicate (length (b_rows b)) (Some True) | Some m \<Rightarrow> m))"

definition validate_fields_against_schemas :: "Filter list \<Rightarrow> Schema list \<Rightarrow> unit result" where
  "validate_fields_against_schemas fs schemas =
     (if list_all (\<lambda>f. list_ex (\<lambda>s. has_field s (fl_field f)) schemas) fs then Ok () else Err SchemaError)"

section \<open>Operators and tuples\<close>

lemma operator_round_trip: "operator_from_str (show_operator o1) = Ok o1"
  by (cases o1; hypsubst; code_simp)

lemma operator_negate_involution: "operator_negate o1 = Some o2 \<Longrightarrow> operator_negate o2 = Some o1"
  by (cases o1) (auto simp: operator_negate_def)

lemma cmp_test_negate:
  "operator_negate o1 = Some o2 \<Longrightarrow> cmp_test o2 c \<longleftrightarrow> \<not> cmp_test o1 c"
  by (cases o1; cases c) (auto simp: operator_negate_def cmp_test_def)

lemma split_in_escape: "split_in_acc current (escape_in_value v @ rest) = split_in_acc (current @ v) rest"
proof (induction v arbitrary: current)
  case (Cons c v)
  then show ?case by (auto simp: escape_in_value_def)
qed (simp add: escape_in_value_def)

lemma split_in_join:
  "vs \<noteq> [] \<Longrightarrow> \<forall>v\<in>set vs. trim v = v \<and> v \<noteq> [] \<Longrightarrow>
   split_in_values (join_with '','' (map escape_in_value vs)) = vs"
proof (induction vs)
  case (Cons v vs)
  have v: "trim v = v" "v \<noteq> []" using Cons.prems by auto
  show ?case
  proof (cases vs)
    case Nil
    then show ?thesis using split_in_escape [of "[]" v "[]"] v
      by (simp add: split_in_values_def push_segment_def)
  next
    case (Cons w ws)
    have "split_in_values (join_with '','' (map escape_in_value vs)) = vs"
      using Cons.IH Cons.prems Cons by simp
    then show ?thesis using split_in_escape [of "[]" v] v Cons
      by (simp add: split_in_values_def push_segment_def)
  qed
qed simp

text \<open>A filter whose tuple form means the same filter: one value for a comparison; for \<open>IN\<close> and
  \<open>NOT IN\<close> values that are not empty and have no space around them.\<close>

definition filter_ok :: "Filter \<Rightarrow> bool" where
  "filter_ok f \<longleftrightarrow> (if is_multi_value (fl_operator f)
     then fl_values f \<noteq> [] \<and> list_all (\<lambda>v. trim v = v \<and> v \<noteq> []) (fl_values f)
     else length (fl_values f) = 1)"

text \<open>A filter survives its tuple form: the strings a filter is written as parse back to it,
  commas and backslashes in the values of a list included.\<close>

theorem filter_tuple_round_trip:
  assumes "filter_ok f"
  shows "filter_from_tuple (filter_to_tuple f) = Ok f"
proof (cases "is_multi_value (fl_operator f)")
  case True
  then have v: "fl_values f \<noteq> []" "\<forall>v\<in>set (fl_values f). trim v = v \<and> v \<noteq> []"
    using assms by (simp_all add: filter_ok_def list_all_iff)
  then show ?thesis
    using True split_in_join [OF v]
    by (simp add: filter_from_tuple_def filter_to_tuple_def operator_round_trip filter_new_def)
next
  case False
  then obtain v where "fl_values f = [v]" using assms by (auto simp: filter_ok_def length_Suc_conv)
  then show ?thesis
    using False by (simp add: filter_from_tuple_def filter_to_tuple_def operator_round_trip filter_new_def)
qed

theorem filter_tuple_round_trip_witness:
  "filter_from_tuple (filter_to_tuple \<lparr>fl_field = ''city'', fl_operator = OpIn,
      fl_values = [''a,b'', [CHR ''c'', CHR 0x5C]]\<rparr>) =
    Ok \<lparr>fl_field = ''city'', fl_operator = OpIn, fl_values = [''a,b'', [CHR ''c'', CHR 0x5C]]\<rparr>"
  by (rule filter_tuple_round_trip)
    (simp add: filter_ok_def is_multi_value_def trim_printable is_ascii_ws_def)

section \<open>What a mask keeps\<close>

text \<open>One row of a comparison.\<close>

definition cell_passes :: "arrow_kernels \<Rightarrow> SchemableFilter \<Rightarrow> DataType \<Rightarrow> Value \<Rightarrow> bool" where
  "cell_passes ak f t v \<longleftrightarrow> v \<noteq> VNull \<and>
     (if sf_operator f = OpIn then \<exists>x\<in>set (sf_values f). cmp_test OpEq (ak_cmp ak t v (snd x))
      else if sf_operator f = OpNotIn then \<forall>x\<in>set (sf_values f). cmp_test OpNe (ak_cmp ak t v (snd x))
      else snd (hd (sf_values f)) \<noteq> VNull \<and>
        cmp_test (sf_operator f) (ak_cmp ak t v (snd (hd (sf_values f)))))"

lemma kernel_cell_True:
  "kernel_cell ak o1 t v x = Some True \<longleftrightarrow> v \<noteq> VNull \<and> x \<noteq> VNull \<and> cmp_test o1 (ak_cmp ak t v x)"
  by (simp add: kernel_cell_def)

lemma bool_or_True: "bool_or a b = Some True \<Longrightarrow> a = Some True \<or> b = Some True"
  by (cases a; cases b) (auto simp: bool_or_def)

lemma bool_and_True: "bool_and a b = Some True \<longleftrightarrow> a = Some True \<and> b = Some True"
  by (cases a; cases b) (auto simp: bool_and_def)

lemma arrow_cmp_Ok: "arrow_cmp ak o1 t col x = Inr c \<longleftrightarrow>
    ak_comparable ak t (fst x) \<and> c = map (\<lambda>v. kernel_cell ak o1 t v (snd x)) col"
  by (auto simp: arrow_cmp_def)

text \<open>The folds of \<open>IN\<close> and \<open>NOT IN\<close>, seen at one row.\<close>

lemma in_fold_True:
  "res_fold (\<lambda>acc x. res_bind (arrow_cmp ak OpEq t col x) (\<lambda>c. Ok (map2 bool_or acc c))) r vs = Inr m \<Longrightarrow>
   length r = length col \<Longrightarrow> length m = length col \<and>
   (i < length col \<longrightarrow> m ! i = Some True \<longrightarrow>
     r ! i = Some True \<or> (\<exists>x\<in>set vs. kernel_cell ak OpEq t (col ! i) (snd x) = Some True))"
proof (induction vs arbitrary: r)
  case (Cons x vs)
  then show ?case by (fastforce simp: res_bind_Inr_iff arrow_cmp_Ok dest: bool_or_True)
qed simp

lemma not_in_fold_True:
  "res_fold (\<lambda>acc x. res_bind (arrow_cmp ak OpNe t col x) (\<lambda>c. Ok (map2 bool_and acc c))) r vs = Inr m \<Longrightarrow>
   length r = length col \<Longrightarrow> length m = length col \<and>
   (i < length col \<longrightarrow> m ! i = Some True \<longrightarrow>
     r ! i = Some True \<and> (\<forall>x\<in>set vs. kernel_cell ak OpNe t (col ! i) (snd x) = Some True))"
proof (induction vs arbitrary: r)
  case (Cons x vs)
  then show ?case by (fastforce simp: res_bind_Inr_iff arrow_cmp_Ok bool_and_True)
qed simp

lemma apply_comparison_passes:
  assumes "apply_comparison ak f t col = Ok m"
  shows "length m = length col \<and> sf_values f \<noteq> [] \<and> ak_comparable ak t (fst (hd (sf_values f))) \<and>
    (i < length col \<longrightarrow> m ! i = Some True \<longrightarrow> cell_passes ak f t (col ! i))"
proof (cases "sf_values f")
  case Nil
  then show ?thesis using assms by (simp add: apply_comparison_def)
next
  case (Cons v vs)
  consider "\<not> is_multi_value (sf_operator f)" | "sf_operator f = OpIn" | "sf_operator f = OpNotIn"
    by (auto simp: is_multi_value_def)
  then show ?thesis
  proof cases
    case 1
    then show ?thesis
      using assms Cons by (auto simp: apply_comparison_def arrow_cmp_Ok cell_passes_def kernel_cell_True
          is_multi_value_def)
  next
    case 2
    then obtain r where r: "ak_comparable ak t (fst v)" "r = map (\<lambda>x. kernel_cell ak OpEq t x (snd v)) col"
      "res_fold (\<lambda>acc x. res_bind (arrow_cmp ak OpEq t col x) (\<lambda>c. Ok (map2 bool_or acc c))) r vs = Ok m"
      using assms Cons by (auto simp: apply_comparison_def is_multi_value_def res_bind_Inr_iff arrow_cmp_Ok)
    then show ?thesis
      using in_fold_True [OF r(3)] Cons 2 by (auto simp: cell_passes_def kernel_cell_True)
  next
    case 3
    then obtain r where r: "ak_comparable ak t (fst v)" "r = map (\<lambda>x. kernel_cell ak OpNe t x (snd v)) col"
      "res_fold (\<lambda>acc x. res_bind (arrow_cmp ak OpNe t col x) (\<lambda>c. Ok (map2 bool_and acc c))) r vs = Ok m"
      using assms Cons by (auto simp: apply_comparison_def is_multi_value_def res_bind_Inr_iff arrow_cmp_Ok)
    then show ?thesis
      using not_in_fold_True [OF r(3)] Cons 3 by (auto simp: cell_passes_def kernel_cell_True)
  qed
qed

text \<open>A row the mask keeps passes every filter whose column the batch has.\<close>

definition row_passes :: "arrow_kernels \<Rightarrow> Filter \<Rightarrow> batch \<Rightarrow> nat \<Rightarrow> bool" where
  "row_passes ak f b i = (case column_by_name b (fl_field f) of
      None \<Rightarrow> True
    | Some (t, col) \<Rightarrow> (case schemable_filter ak f (b_schema b) of
        Inl _ \<Rightarrow> False
      | Inr sf \<Rightarrow> sf_values sf \<noteq> [] \<and> ak_comparable ak t (fst (hd (sf_values sf))) \<and>
          cell_passes ak sf t (col ! i)))"

lemma column_by_name_length: "column_by_name b n = Some (t, col) \<Longrightarrow> length col = length (b_rows b)"
  by (auto simp: column_by_name_def)

lemma mask_fold_passes:
  "res_fold (mask_step ak b) msk fs = Inr msk' \<Longrightarrow> pred_option (\<lambda>m. length m = length (b_rows b)) msk \<Longrightarrow>
   i < length (b_rows b) \<Longrightarrow> pred_option (\<lambda>m. length m = length (b_rows b)) msk' \<and>
     (msk \<noteq> None \<longrightarrow> msk' \<noteq> None) \<and>
     (pred_option (\<lambda>m. m ! i = Some True) msk' \<longrightarrow>
        pred_option (\<lambda>m. m ! i = Some True) msk \<and> (\<forall>f\<in>set fs. row_passes ak f b i))"
proof (induction fs arbitrary: msk)
  case (Cons f fs)
  from Cons.prems(1) obtain msk1 where step: "mask_step ak b msk f = Inr msk1"
    and rest: "res_fold (mask_step ak b) msk1 fs = Inr msk'" by (auto simp: res_bind_Inr_iff)
  have one: "pred_option (\<lambda>m. length m = length (b_rows b)) msk1 \<and> (msk \<noteq> None \<longrightarrow> msk1 \<noteq> None) \<and>
      (pred_option (\<lambda>m. m ! i = Some True) msk1 \<longrightarrow>
        pred_option (\<lambda>m. m ! i = Some True) msk \<and> row_passes ak f b i)"
  proof (cases "column_by_name b (fl_field f)")
    case None
    then show ?thesis using step Cons.prems(2) by (auto simp: mask_step_def row_passes_def)
  next
    case (Some c)
    obtain t col where c: "c = (t, col)" by (cases c)
    obtain sf cm where sf: "schemable_filter ak f (b_schema b) = Inr sf" "apply_comparison ak sf t col = Inr cm"
      "msk1 = Some (case msk of None \<Rightarrow> cm | Some prev \<Rightarrow> map2 bool_and prev cm)"
      using step Some c by (auto simp: mask_step_def res_bind_Inr_iff)
    have len: "length col = length (b_rows b)" using column_by_name_length Some c by simp
    then show ?thesis
      using apply_comparison_passes [OF sf(2), of i] sf(1,3) Some c Cons.prems(2,3)
      by (auto simp: row_passes_def bool_and_True split: option.splits)
  qed
  then show ?case using Cons.IH [OF rest] Cons.prems(3) by auto
qed simp

lemma mask_keeps_passing_rows:
  assumes "filters_to_row_mask ak fs b = Ok m" "i < length (b_rows b)" "m ! i = Some True" "f \<in> set fs"
  shows "row_passes ak f b i"
proof -
  obtain msk where "res_fold (mask_step ak b) None fs = Inr msk"
    "m = (case msk of None \<Rightarrow> replicate (length (b_rows b)) (Some True) | Some m \<Rightarrow> m)"
    using assms(1) by (auto simp: filters_to_row_mask_def res_bind_Inr_iff)
  then show ?thesis using mask_fold_passes [of ak b None fs msk i] assms(2-4) by (auto split: option.splits)
qed

end
