(* ===== verification/Keygen.thy ===== *)
theory Keygen
  imports Filters
begin

text \<open>
  The timestamp-based key generator (\<open>keygen/timestamp_based.rs\<close>, \<open>keygen/mod.rs\<close>): a table
  partitioned by a date format of a timestamp column, and the translation of a filter on that
  column into one on the partition path. Parsing of timestamps and dates, timezones and the civil
  fields of an instant come from the chrono crates and are a parameter. An \<open>i64\<close> product that
  overflows wraps, as in a release build.
\<close>

section \<open>Configuration\<close>

datatype TimestampType = UnixTimestamp | EpochMilliseconds | EpochMicroseconds | DateString | Scalar | Mixed

datatype ScalarTimeUnit = Nanoseconds | Microseconds | Milliseconds | Seconds | Minutes | Hours | Days

definition ascii_upper :: "char \<Rightarrow> char" where
  "ascii_upper c = (if 97 \<le> (of_char c :: nat) \<and> (of_char c :: nat) \<le> 122
     then char_of ((of_char c :: nat) - 32) else c)"

definition scalar_time_unit_from_str :: "string \<Rightarrow> ScalarTimeUnit result" where
  "scalar_time_unit_from_str s = (let u = map ascii_upper s in
     if u = ''NANOSECONDS'' then Ok Nanoseconds else if u = ''MICROSECONDS'' then Ok Microseconds
     else if u = ''MILLISECONDS'' then Ok Milliseconds else if u = ''SECONDS'' then Ok Seconds
     else if u = ''MINUTES'' then Ok Minutes else if u = ''HOURS'' then Ok Hours
     else if u = ''DAYS'' then Ok Days else Err ConfigError)"

definition wrapping_mul_i64 :: "int \<Rightarrow> int \<Rightarrow> int" where
  "wrapping_mul_i64 a b = sint (word_of_int (a * b) :: 64 word)"

text \<open>Division truncates toward zero.\<close>

definition quot_pos :: "int \<Rightarrow> int \<Rightarrow> int" where
  "quot_pos a b = (if a < 0 then - ((- a) div b) else a div b)"

definition to_millis :: "ScalarTimeUnit \<Rightarrow> int \<Rightarrow> int" where
  "to_millis u v = (case u of Nanoseconds \<Rightarrow> quot_pos v 1000000 | Microseconds \<Rightarrow> quot_pos v 1000
     | Milliseconds \<Rightarrow> v | Seconds \<Rightarrow> wrapping_mul_i64 v 1000 | Minutes \<Rightarrow> wrapping_mul_i64 v 60000
     | Hours \<Rightarrow> wrapping_mul_i64 v 3600000 | Days \<Rightarrow> wrapping_mul_i64 v 86400000)"

record TimestampBasedKeyGenerator =
  kg_source_field :: string
  kg_timestamp_type :: TimestampType
  kg_input_dateformat :: "string option"
  kg_input_timezone :: "string option"
  kg_scalar_time_unit :: "ScalarTimeUnit option"
  kg_output_dateformat :: string
  kg_output_timezone :: string
  kg_is_hive_style :: bool
  kg_partition_fields :: "string list"

definition CONFIG_PREFIX :: string where "CONFIG_PREFIX = ''hoodie.keygen.timebased.''"

definition OLD_CONFIG_PREFIX :: string where
  "OLD_CONFIG_PREFIX = ''hoodie.deltastreamer.keygen.timebased.''"

definition resolve_option_with_alt :: "(string \<Rightarrow> string option) \<Rightarrow> string \<Rightarrow> string option" where
  "resolve_option_with_alt options sfx = (case options (CONFIG_PREFIX @ sfx) of
      Some v \<Rightarrow> Some v | None \<Rightarrow> options (OLD_CONFIG_PREFIX @ sfx))"

definition get_config_value_with_alt :: "(string \<Rightarrow> string option) \<Rightarrow> string \<Rightarrow> string result" where
  "get_config_value_with_alt options sfx = ok_or ConfigError (resolve_option_with_alt options sfx)"

definition timestamp_type_from_str :: "string \<Rightarrow> TimestampType result" where
  "timestamp_type_from_str s = (let u = map ascii_upper s in
     if u = ''UNIX_TIMESTAMP'' then Ok UnixTimestamp else if u = ''EPOCHMILLISECONDS'' then Ok EpochMilliseconds
     else if u = ''EPOCHMICROSECONDS'' then Ok EpochMicroseconds else if u = ''DATE_STRING'' then Ok DateString
     else if u = ''SCALAR'' then Ok Scalar else if u = ''MIXED'' then Ok Mixed else Err ConfigError)"

definition format_segment_to_field_name :: "string \<Rightarrow> string" where
  "format_segment_to_field_name s =
     (if s = ''yyyy'' then ''year'' else if s = ''MM'' then ''month'' else if s = ''dd'' then ''day''
      else if s = ''HH'' then ''hour'' else if s = ''mm'' then ''minute'' else if s = ''ss'' then ''second''
      else s)"

definition parse_partition_fields :: "string \<Rightarrow> bool \<Rightarrow> string list" where
  "parse_partition_fields output_format is_hive_style =
     (if \<not> is_hive_style then split_on (CHR ''/'') output_format
      else map format_segment_to_field_name (split_on (CHR ''/'') output_format))"

text \<open>The table's partition fields and its hive style are read from the configuration first;
  \<open>tz_known\<close> says which names are timezones.\<close>

definition from_configs :: "(string \<Rightarrow> bool) \<Rightarrow> string list \<Rightarrow> bool \<Rightarrow> (string \<Rightarrow> string option) \<Rightarrow>
    TimestampBasedKeyGenerator result" where
  "from_configs tz_known partition_fields is_hive_style options =
     (if length partition_fields \<noteq> 1 then Err ConfigError
      else res_bind (get_config_value_with_alt options ''timestamp.type'') (\<lambda>ts.
      res_bind (timestamp_type_from_str ts) (\<lambda>tt.
      res_bind (if tt = DateString \<or> tt = Mixed
          then res_bind (get_config_value_with_alt options ''input.dateformat'') (\<lambda>f. Ok (Some f)) else Ok None) (\<lambda>inf.
      res_bind (if tt = Scalar
          then res_bind (scalar_time_unit_from_str (case resolve_option_with_alt options ''timestamp.scalar.time.unit''
              of Some u \<Rightarrow> u | None \<Rightarrow> ''SECONDS'')) (\<lambda>u. Ok (Some u)) else Ok None) (\<lambda>unit.
      res_bind (get_config_value_with_alt options ''output.dateformat'') (\<lambda>outf.
      res_bind (case (case resolve_option_with_alt options ''timezone'' of
            Some z \<Rightarrow> Some z | None \<Rightarrow> resolve_option_with_alt options ''input.timezone'') of
          Some z \<Rightarrow> if trim z = [] then Ok None else if tz_known z then Ok (Some z) else Err ConfigError
        | None \<Rightarrow> Ok None) (\<lambda>itz.
      let ostr = (case resolve_option_with_alt options ''timezone'' of
            Some z \<Rightarrow> z
          | None \<Rightarrow> (case resolve_option_with_alt options ''output.timezone'' of Some z \<Rightarrow> z | None \<Rightarrow> ''UTC''))
      in if \<not> tz_known ostr then Err ConfigError
         else Ok \<lparr>kg_source_field = hd partition_fields, kg_timestamp_type = tt, kg_input_dateformat = inf,
           kg_input_timezone = itz, kg_scalar_time_unit = unit, kg_output_dateformat = outf,
           kg_output_timezone = ostr, kg_is_hive_style = is_hive_style,
           kg_partition_fields = parse_partition_fields outf is_hive_style\<rparr>)))))))"

definition is_substring :: "string \<Rightarrow> string \<Rightarrow> bool" where
  "is_substring p s \<longleftrightarrow> list_ex (\<lambda>i. starts_with p (drop i s)) [0..<Suc (length s)]"

definition is_timestamp_based_keygen :: "string option \<Rightarrow> string option \<Rightarrow> bool" where
  "is_timestamp_based_keygen key_generator_class key_generator_type \<longleftrightarrow>
     (case key_generator_class of None \<Rightarrow> False | Some c \<Rightarrow> is_substring ''TimestampBasedKeyGenerator'' c) \<or>
     (case key_generator_type of None \<Rightarrow> False
      | Some t \<Rightarrow> map ascii_upper t = ''TIMESTAMP'' \<or> map ascii_upper t = ''TIMESTAMP_AVRO'')"

section \<open>Timestamps\<close>

record civil =
  cv_year :: int
  cv_month :: nat
  cv_day :: nat
  cv_hour :: nat
  cv_minute :: nat
  cv_second :: nat

text \<open>Instants are numbers of an unspecified unit; a naive date-time too.\<close>

record keygen_chrono =
  kc_from_timestamp :: "int \<Rightarrow> int option"
  kc_from_timestamp_millis :: "int \<Rightarrow> int option"
  kc_from_timestamp_micros :: "int \<Rightarrow> int option"
  kc_parse_offset :: "string \<Rightarrow> string \<Rightarrow> int option"
  kc_parse_naive :: "string \<Rightarrow> string \<Rightarrow> int option"
  kc_from_local :: "string \<Rightarrow> int \<Rightarrow> int option"
  kc_from_utc :: "int \<Rightarrow> int"
  kc_civil :: "string \<Rightarrow> int \<Rightarrow> civil"

text \<open>\<open>str::replace\<close> for a needle that is not empty: occurrences from the left, not overlapping.\<close>

function replace_all :: "string \<Rightarrow> string \<Rightarrow> string \<Rightarrow> string" where
  "replace_all needle repl s =
     (if needle = [] then s
      else if s = [] then []
      else if starts_with needle s then repl @ replace_all needle repl (drop (length needle) s)
      else hd s # replace_all needle repl (tl s))"
  by pat_completeness auto
termination by (relation "measure (\<lambda>(n, r, s). length s)") (auto intro: diff_less)

declare replace_all.simps [simp del]

definition java_to_chrono_format :: "string \<Rightarrow> string" where
  "java_to_chrono_format f =
     replace_all (CHR 0x27 # ''T'' @ [CHR 0x27]) ''T'' (replace_all ''Z'' ''%#z'' (replace_all ''ss'' ''%S''
     (replace_all ''mm'' ''%M'' (replace_all ''HH'' ''%H'' (replace_all ''dd'' ''%d'' (replace_all ''MM'' ''%m''
     (replace_all ''SSS'' ''%3f'' (replace_all ''yyyy'' ''%Y'' f))))))))"

definition parse_i64 :: "string \<Rightarrow> int result" where
  "parse_i64 s = ok_or TimelineError (parse_sint 64 s)"

definition parse_timestamp :: "keygen_chrono \<Rightarrow> TimestampBasedKeyGenerator \<Rightarrow> string \<Rightarrow> int result" where
  "parse_timestamp kc kg v = (case kg_timestamp_type kg of
      UnixTimestamp \<Rightarrow> res_bind (parse_i64 v) (\<lambda>n. ok_or TimelineError (kc_from_timestamp kc n))
    | EpochMilliseconds \<Rightarrow> res_bind (parse_i64 v) (\<lambda>n. ok_or TimelineError (kc_from_timestamp_millis kc n))
    | EpochMicroseconds \<Rightarrow> res_bind (parse_i64 v) (\<lambda>n. ok_or TimelineError (kc_from_timestamp_micros kc n))
    | Scalar \<Rightarrow> res_bind (parse_i64 v) (\<lambda>n.
        res_bind (ok_or ConfigError (kg_scalar_time_unit kg)) (\<lambda>u.
          ok_or TimelineError (kc_from_timestamp_millis kc (to_millis u n))))
    | _ \<Rightarrow> res_bind (ok_or ConfigError (kg_input_dateformat kg)) (\<lambda>f.
        let cf = java_to_chrono_format f in
        case kc_parse_offset kc v cf of
          Some t \<Rightarrow> Ok t
        | None \<Rightarrow> res_bind (ok_or TimelineError (kc_parse_naive kc v cf)) (\<lambda>n.
            (case kg_input_timezone kg of
               Some z \<Rightarrow> ok_or TimelineError (kc_from_local kc z n)
             | None \<Rightarrow> Ok (kc_from_utc kc n)))))"

section \<open>Partition paths\<close>

text \<open>\<open>{:0w}\<close> of an integer: the sign counts for the width.\<close>

definition show_padded :: "nat \<Rightarrow> int \<Rightarrow> string" where
  "show_padded w n = (if n < 0 then CHR ''-'' # replicate (w - 1 - length (show_nat (nat (- n)))) (CHR ''0'') @
       show_nat (nat (- n))
     else replicate (w - length (show_nat (nat n))) (CHR ''0'') @ show_nat (nat n))"

definition format_segment_value :: "string \<Rightarrow> civil \<Rightarrow> string" where
  "format_segment_value segment dt =
     replace_all ''ss'' (show_padded 2 (int (cv_second dt)))
     (replace_all ''mm'' (show_padded 2 (int (cv_minute dt)))
     (replace_all ''HH'' (show_padded 2 (int (cv_hour dt)))
     (replace_all ''dd'' (show_padded 2 (int (cv_day dt)))
     (replace_all ''MM'' (show_padded 2 (int (cv_month dt)))
     (replace_all ''yyyy'' (show_padded 4 (cv_year dt)) segment)))))"

definition format_partition_path :: "keygen_chrono \<Rightarrow> TimestampBasedKeyGenerator \<Rightarrow> int \<Rightarrow> string result" where
  "format_partition_path kc kg t =
     (let local_dt = kc_civil kc (kg_output_timezone kg) t;
          segments = split_on (CHR ''/'') (kg_output_dateformat kg)
      in res_bind (res_map (\<lambda>(i, segment).
           let value = format_segment_value segment local_dt in
           if kg_is_hive_style kg then
             (if i < length (kg_partition_fields kg) then Ok (kg_partition_fields kg ! i @ ''='' @ value) else Err Panic)
           else Ok value) (zip [0..<length segments] segments))
         (\<lambda>parts. Ok (join_with ''/'' parts)))"

definition TOKENS :: "(string \<times> nat) list" where
  "TOKENS = [(''yyyy'', 6), (''MM'', 5), (''dd'', 4), (''HH'', 3), (''mm'', 2), (''ss'', 1)]"

text \<open>The ranks of the tokens in their order; other bytes are skipped one at a time, which panics
  inside a character of several bytes.\<close>

function format_ranks :: "string \<Rightarrow> nat list result" where
  "format_ranks remaining =
     (if remaining = [] then Ok []
      else case find (\<lambda>(t, _). starts_with t remaining) TOKENS of
        Some (t, rank) \<Rightarrow> res_bind (format_ranks (drop (max 1 (length t)) remaining)) (\<lambda>rs. Ok (rank # rs))
      | None \<Rightarrow> if is_char_boundary remaining 1 then format_ranks (drop 1 remaining) else Err Panic)"
  by pat_completeness auto
termination by (relation "measure length") (auto intro: diff_less)

declare format_ranks.simps [simp del]

definition is_lex_sortable_format :: "TimestampBasedKeyGenerator \<Rightarrow> bool result" where
  "is_lex_sortable_format kg = res_bind (format_ranks (kg_output_dateformat kg)) (\<lambda>ranks.
     Ok (ranks \<noteq> [] \<and> list_all (\<lambda>(a, b). a > b) (zip ranks (tl ranks))))"

section \<open>Filters\<close>

definition PARTITION_PATH_FIELD :: string where "PARTITION_PATH_FIELD = ''_hoodie_partition_path''"

definition value_path :: "keygen_chrono \<Rightarrow> TimestampBasedKeyGenerator \<Rightarrow> string \<Rightarrow> string result" where
  "value_path kc kg v = res_bind (parse_timestamp kc kg v) (format_partition_path kc kg)"

definition first_value :: "Filter \<Rightarrow> string result" where
  "first_value f = (case fl_values f of [] \<Rightarrow> Err Panic | v # _ \<Rightarrow> Ok v)"

definition transform_filter :: "keygen_chrono \<Rightarrow> TimestampBasedKeyGenerator \<Rightarrow> Filter \<Rightarrow> Filter list result" where
  "transform_filter kc kg f =
     (if fl_field f \<noteq> kg_source_field kg then Ok [f]
      else if fl_operator f = OpEq \<or> fl_operator f = OpNe then
        res_bind (first_value f) (\<lambda>v. res_bind (value_path kc kg v) (\<lambda>path.
          Ok [\<lparr>fl_field = PARTITION_PATH_FIELD, fl_operator = fl_operator f, fl_values = [path]\<rparr>]))
      else if is_multi_value (fl_operator f) then
        res_bind (res_map (value_path kc kg) (fl_values f)) (\<lambda>paths.
          Ok [\<lparr>fl_field = PARTITION_PATH_FIELD, fl_operator = fl_operator f, fl_values = paths\<rparr>])
      else res_bind (is_lex_sortable_format kg) (\<lambda>sortable.
        if \<not> sortable then Ok []
        else res_bind (first_value f) (\<lambda>v. res_bind (value_path kc kg v) (\<lambda>path.
          Ok [\<lparr>fl_field = PARTITION_PATH_FIELD,
            fl_operator = (case fl_operator f of OpGt \<Rightarrow> OpGte | OpLt \<Rightarrow> OpLte | o1 \<Rightarrow> o1),
            fl_values = [path]\<rparr>]))))"

end
