(* ===== verification/Keygen_Facts.thy ===== *)
theory Keygen_Facts
  imports Keygen
begin

text \<open>
  What the partition paths of the timestamp-based key generator are: the chain of replacements
  is one scan of the format that writes each token's field, and for a format that goes from the
  year down without a gap the order of the paths is the order of the timestamps.
\<close>

section \<open>Replacing tokens\<close>

text \<open>All tokens replaced in one scan, each token by its text.\<close>

function sub_tokens :: "(string \<times> string) list \<Rightarrow> string \<Rightarrow> string" where
  "sub_tokens toks s =
     (if s = [] then []
      else case find (\<lambda>(t, _). starts_with t s) toks of
        Some (t, r) \<Rightarrow> r @ sub_tokens toks (drop (max 1 (length t)) s)
      | None \<Rightarrow> hd s # sub_tokens toks (tl s))"
  by pat_completeness auto
termination by (relation "measure (\<lambda>(ts, s). length s)") (auto intro: diff_less)

declare sub_tokens.simps [simp del]

lemma sub_tokens_Nil [simp]: "sub_tokens toks [] = []"
  by (simp add: sub_tokens.simps)

lemma sub_tokens_Cons: "sub_tokens toks (c # s) =
    (case find (\<lambda>(t, _). starts_with t (c # s)) toks of
        Some (t, r) \<Rightarrow> r @ sub_tokens toks (drop (max 1 (length t)) (c # s))
      | None \<Rightarrow> c # sub_tokens toks s)"
  by (subst sub_tokens.simps) (simp split: option.split)

text \<open>A needle is a run of one letter; the tokens replaced before are runs of other letters and
  their texts do not have it.\<close>

definition fresh_letter :: "char \<Rightarrow> (string \<times> string) list \<Rightarrow> bool" where
  "fresh_letter l toks \<longleftrightarrow> (\<forall>(t, r)\<in>set toks. t \<noteq> [] \<and> hd t \<noteq> l \<and> r \<noteq> [] \<and> l \<notin> set r)"

lemma starts_with_Cons: "t \<noteq> [] \<Longrightarrow> starts_with t (c # s) \<Longrightarrow> hd t = c"
  by (cases t) (auto simp: starts_with_def)

lemma fresh_no_match:
  "fresh_letter l toks \<Longrightarrow> find (\<lambda>(t, _). starts_with t (l # s)) toks = None"
  by (auto simp: find_None_iff fresh_letter_def dest!: starts_with_Cons)

lemma find_mem: "find P xs = Some x \<Longrightarrow> x \<in> set xs \<and> P x"
  by (auto simp: find_Some_iff)

lemma starts_with_run_Suc: "starts_with (replicate (Suc j) l) s \<longleftrightarrow> s \<noteq> [] \<and> hd s = l \<and> starts_with (replicate j l) (tl s)"
  by (cases s) (auto simp: starts_with_def)

lemma sub_tokens_run:
  assumes "fresh_letter l toks"
  shows "starts_with (replicate j l) (sub_tokens toks s) \<longleftrightarrow> starts_with (replicate j l) s"
    and "starts_with (replicate j l) s \<Longrightarrow> sub_tokens toks s = replicate j l @ sub_tokens toks (drop j s)"
proof (induction j arbitrary: s)
  case 0
  { case 1 show ?case by (simp add: starts_with_def) }
  { case 2 show ?case by simp }
next
  case (Suc j)
  have head: "sub_tokens toks (l # s) = l # sub_tokens toks s" for s
    using fresh_no_match [OF assms] by (simp add: sub_tokens_Cons)
  have other: "sub_tokens toks (c # s) \<noteq> [] \<and> hd (sub_tokens toks (c # s)) \<noteq> l" if "c \<noteq> l" for c s
  proof (cases "find (\<lambda>(t, _). starts_with t (c # s)) toks")
    case (Some tr)
    then have "snd tr \<noteq> []" "l \<notin> set (snd tr)"
      using assms find_mem [OF Some] by (auto simp: fresh_letter_def)
    then show ?thesis using Some by (cases tr; cases "snd tr") (auto simp: sub_tokens_Cons)
  qed (simp add: sub_tokens_Cons that)
  { case 1
    show ?case
    proof (cases s)
      case (Cons c cs)
      then show ?thesis using head other Suc.IH(1)
        by (cases "c = l") (auto simp: starts_with_run_Suc simp del: replicate_Suc)
    qed (simp add: starts_with_run_Suc del: replicate_Suc) }
  { case 2
    then obtain cs where "s = l # cs" "starts_with (replicate j l) cs" 
      by (cases s) (auto simp: starts_with_run_Suc simp del: replicate_Suc)
    then show ?case using head Suc.IH(2) by simp }
qed

lemma replace_all_Nil [simp]: "replace_all n r [] = []"
  by (simp add: replace_all.simps)

lemma replace_all_Cons: "n \<noteq> [] \<Longrightarrow> replace_all n r (c # s) =
    (if starts_with n (c # s) then r @ replace_all n r (drop (length n) (c # s)) else c # replace_all n r s)"
  by (simp add: replace_all.simps)

lemma replace_all_skip: "l \<notin> set xs \<Longrightarrow> replace_all (replicate (Suc k) l) r (xs @ s) = xs @ replace_all (replicate (Suc k) l) r s"
  by (induction xs) (auto simp: replace_all_Cons starts_with_run_Suc simp del: replicate_Suc)

lemma replace_all_hit: "n \<noteq> [] \<Longrightarrow> replace_all n r (n @ s) = r @ replace_all n r s"
  by (cases n) (simp_all add: replace_all_Cons starts_with_def)

lemma replace_step:
  assumes "fresh_letter l toks"
  shows "replace_all (replicate (Suc k) l) r (sub_tokens toks s) = sub_tokens (toks @ [(replicate (Suc k) l, r)]) s"
proof (induction "length s" arbitrary: s rule: less_induct)
  case less
  let ?n = "replicate (Suc k) l"
  show ?case
  proof (cases s)
    case (Cons c cs)
    show ?thesis
    proof (cases "find (\<lambda>(t, _). starts_with t s) toks")
      case (Some tr)
      obtain t r' where tr: "tr = (t, r')" by (cases tr)
      then have "(t, r') \<in> set toks" using find_mem [OF Some] by simp
      then have l: "l \<notin> set r'" using assms by (auto simp: fresh_letter_def)
      have "find (\<lambda>(t, _). starts_with t s) (toks @ [(?n, r)]) = Some (t, r')"
        using Some tr by (induction toks) auto
      then show ?thesis
        using Some tr Cons less [of "drop (max 1 (length t)) s"] replace_all_skip [OF l, of k r]
        by (simp add: sub_tokens_Cons del: replicate_Suc)
    next
      case None
      have f: "find (\<lambda>(t, _). starts_with t s) (toks @ [(?n, r)]) = (if starts_with ?n s then Some (?n, r) else None)"
        using None by (induction toks) auto
      show ?thesis
      proof (cases "starts_with ?n s")
        case True
        have "sub_tokens toks s = ?n @ sub_tokens toks (drop (Suc k) s)"
          by (rule sub_tokens_run(2) [OF assms True])
        then have "replace_all ?n r (sub_tokens toks s) = r @ replace_all ?n r (sub_tokens toks (drop (Suc k) s))"
          using replace_all_hit [of ?n r] by simp
        then show ?thesis
          using f True Cons less [of "drop (Suc k) s"] by (simp add: sub_tokens_Cons del: replicate_Suc)
      next
        case False
        have "sub_tokens toks s = c # sub_tokens toks cs" using None Cons by (simp add: sub_tokens_Cons)
        moreover have "\<not> starts_with ?n (sub_tokens toks s)" using sub_tokens_run(1) [OF assms] False by blast
        ultimately show ?thesis
          using f False Cons less [of cs] by (simp add: sub_tokens_Cons replace_all_Cons del: replicate_Suc)
      qed
    qed
  qed simp
qed

lemma sub_tokens_none [simp]: "sub_tokens [] s = s"
  by (induction s) (simp_all add: sub_tokens_Cons)

section \<open>A segment is one scan\<close>

definition token_texts :: "civil \<Rightarrow> (string \<times> string) list" where
  "token_texts dt = [(''yyyy'', show_padded 4 (cv_year dt)), (''MM'', show_padded 2 (int (cv_month dt))),
     (''dd'', show_padded 2 (int (cv_day dt))), (''HH'', show_padded 2 (int (cv_hour dt))),
     (''mm'', show_padded 2 (int (cv_minute dt))), (''ss'', show_padded 2 (int (cv_second dt)))]"

lemma letter_not_padded:
  assumes "\<not> is_digit l" "l \<noteq> CHR ''-''" shows "show_padded w n \<noteq> [] \<and> l \<notin> set (show_padded w n)"
proof -
  have "is_digit (CHR ''0'')" by code_simp
  then show ?thesis using assms show_nat_no_char [OF assms(1)] by (auto simp: show_padded_def)
qed

lemma token_letters: "\<forall>l \<in> set ''yMdHms''. \<not> is_digit l \<and> l \<noteq> CHR ''-''"
  by code_simp

lemma format_segment_scan: "format_segment_value segment dt = sub_tokens (token_texts dt) segment"
proof -
  have f: "fresh_letter l toks" if l: "l \<in> set ''yMdHms''"
    and toks: "\<forall>(t, r)\<in>set toks. t \<noteq> [] \<and> hd t \<noteq> l \<and> (\<exists>w n. r = show_padded w n)" for l toks
    unfolding fresh_letter_def
  proof (intro ballI, clarify)
    fix t r assume tr: "(t, r) \<in> set toks"
    then obtain w n where "t \<noteq> []" "hd t \<noteq> l" "r = show_padded w n" using toks by blast
    moreover have "\<not> is_digit l \<and> l \<noteq> CHR ''-''" using token_letters l by (rule bspec)
    ultimately show "t \<noteq> [] \<and> hd t \<noteq> l \<and> r \<noteq> [] \<and> l \<notin> set r"
      using letter_not_padded [of l w n] by simp
  qed
  let ?y = "(''yyyy'', show_padded 4 (cv_year dt))" and ?M = "(''MM'', show_padded 2 (int (cv_month dt)))"
    and ?d = "(''dd'', show_padded 2 (int (cv_day dt)))" and ?H = "(''HH'', show_padded 2 (int (cv_hour dt)))"
    and ?m = "(''mm'', show_padded 2 (int (cv_minute dt)))"
  note step = replace_step [where s = segment]
  have "replace_all ''yyyy'' (show_padded 4 (cv_year dt)) segment = sub_tokens [?y] segment"
    using step [of "CHR ''y''" "[]" 3 "show_padded 4 (cv_year dt)"] by (simp add: fresh_letter_def numeral_3_eq_3)
  moreover have "replace_all ''MM'' r (sub_tokens [?y] segment) = sub_tokens [?y, (''MM'', r)] segment" for r
    using step [OF f, of "CHR ''M''" "[?y]" 1 r] by auto
  moreover have "replace_all ''dd'' r (sub_tokens [?y, ?M] segment) = sub_tokens [?y, ?M, (''dd'', r)] segment" for r
    using step [OF f, of "CHR ''d''" "[?y, ?M]" 1 r] by auto
  moreover have "replace_all ''HH'' r (sub_tokens [?y, ?M, ?d] segment) = sub_tokens [?y, ?M, ?d, (''HH'', r)] segment" for r
    using step [OF f, of "CHR ''H''" "[?y, ?M, ?d]" 1 r] by auto
  moreover have "replace_all ''mm'' r (sub_tokens [?y, ?M, ?d, ?H] segment) =
      sub_tokens [?y, ?M, ?d, ?H, (''mm'', r)] segment" for r
    using step [OF f, of "CHR ''m''" "[?y, ?M, ?d, ?H]" 1 r] by auto
  moreover have "replace_all ''ss'' r (sub_tokens [?y, ?M, ?d, ?H, ?m] segment) =
      sub_tokens [?y, ?M, ?d, ?H, ?m, (''ss'', r)] segment" for r
    using step [OF f, of "CHR ''s''" "[?y, ?M, ?d, ?H, ?m]" 1 r] by auto
  ultimately show ?thesis by (simp add: format_segment_value_def token_texts_def)
qed

section \<open>Padded numbers in order\<close>

lemma digit_less: "is_digit c \<Longrightarrow> is_digit d \<Longrightarrow> digit_val c < digit_val d \<longleftrightarrow> c < d"
  by (auto simp: is_digit_def digit_val_def less_char_def)

lemma digit_val_inj: "is_digit c \<Longrightarrow> is_digit d \<Longrightarrow> digit_val c = digit_val d \<Longrightarrow> c = d"
  using digit_less [of c d] digit_less [of d c] by (metis less_irrefl linorder_less_linear)

lemma digits_val_bound: "list_all is_digit xs \<Longrightarrow> digits_val 0 xs < 10 ^ length xs"
proof (induction xs rule: rev_induct)
  case (snoc d xs)
  have "digit_val d < 10" using snoc.prems by (auto simp: is_digit_def digit_val_def)
  moreover have "digits_val 0 xs < 10 ^ length xs" using snoc by simp
  ultimately have "10 * digits_val 0 xs + digit_val d < 10 * 10 ^ length xs" by linarith
  then show ?case by (simp add: digits_val_append)
qed simp

lemma digits_val_shift: "digits_val acc xs = acc * 10 ^ length xs + digits_val 0 xs"
proof (induction xs arbitrary: acc)
  case (Cons d xs)
  show ?case using Cons.IH [of "10 * acc + digit_val d"] Cons.IH [of "digit_val d"]
    by (simp add: algebra_simps)
qed simp

lemma digits_less:
  "length xs = length ys \<Longrightarrow> list_all is_digit xs \<Longrightarrow> list_all is_digit ys \<Longrightarrow>
   digits_val 0 xs < digits_val 0 ys \<Longrightarrow> xs < ys"
proof (induction xs ys rule: list_induct2)
  case (Cons x xs y ys)
  have v: "digits_val 0 (x # xs) = digit_val x * 10 ^ length xs + digits_val 0 xs"
    "digits_val 0 (y # ys) = digit_val y * 10 ^ length xs + digits_val 0 ys"
    using digits_val_shift [of "digit_val x" xs] digits_val_shift [of "digit_val y" ys] Cons.hyps by simp_all
  have b: "digits_val 0 ys < 10 ^ length xs" using digits_val_bound [of ys] Cons by simp
  have "\<not> digit_val y < digit_val x"
  proof
    assume "digit_val y < digit_val x"
    then have "(digit_val y + 1) * 10 ^ length xs \<le> digit_val x * 10 ^ length xs" by (intro mult_right_mono) auto
    then show False using Cons.prems(3) v b by simp
  qed
  then consider "digit_val x < digit_val y" | "digit_val x = digit_val y" by linarith
  then show ?case
  proof cases
    case 1
    then show ?thesis using digit_less [of x y] Cons.prems by simp
  next
    case 2
    then have "x = y" using digit_val_inj Cons.prems by simp
    moreover have "xs < ys" using Cons 2 v by simp
    ultimately show ?thesis by simp
  qed
qed simp

lemma length_show_nat: "n < 10 ^ w \<Longrightarrow> 0 < w \<Longrightarrow> length (show_nat n) \<le> w"
proof (induction n arbitrary: w rule: show_nat.induct)
  case (1 n)
  show ?case
  proof (cases "n < 10")
    case True
    then show ?thesis using 1 by (subst show_nat.simps) simp
  next
    case False
    then obtain w' where w: "w = Suc w'" "0 < w'" using 1(2,3) by (cases w; cases "w - 1") auto
    have "n div 10 < 10 ^ w'" using 1(2) w by (simp add: less_mult_imp_div_less mult.commute)
    then show ?thesis using 1(1) [OF False, of w'] w False by (subst show_nat.simps) simp
  qed
qed

lemma digits_val_zeros: "digits_val 0 (replicate k (CHR ''0'') @ xs) = digits_val 0 xs"
  by (induction k) (simp_all add: digit_val_def)

lemma show_padded_parts:
  assumes "0 \<le> n" "n < 10 ^ w" "0 < w"
  shows "length (show_padded w n) = w" "list_all is_digit (show_padded w n)" "digits_val 0 (show_padded w n) = nat n"
proof -
  have "nat n < 10 ^ w" using assms by (simp add: nat_less_iff)
  then have "length (show_nat (nat n)) \<le> w" using length_show_nat assms(3) by blast
  then show "length (show_padded w n) = w" using assms by (simp add: show_padded_def)
  have "is_digit (CHR ''0'')" by (simp add: is_digit_def)
  then show "list_all is_digit (show_padded w n)"
    using assms show_nat_digits by (auto simp: show_padded_def list_all_iff)
  show "digits_val 0 (show_padded w n) = nat n" using assms by (simp add: show_padded_def digits_val_zeros)
qed

lemma show_padded_less:
  assumes "0 \<le> m" "m < n" "n < 10 ^ w" "0 < w"
  shows "show_padded w m < show_padded w n"
  using show_padded_parts [of m w] show_padded_parts [of n w] assms by (intro digits_less) simp_all

lemma less_append:
  fixes xs :: "'a::linorder list"
  shows "xs < ys \<Longrightarrow> length xs = length ys \<Longrightarrow> xs @ us < ys @ vs"
proof (induction xs arbitrary: ys)
  case (Cons x xs)
  then show ?case by (cases ys) auto
qed simp

lemma le_append_same: "us \<le> vs \<Longrightarrow> xs @ us \<le> xs @ (vs :: 'a::linorder list)"
  by (induction xs) auto

section \<open>The pieces of a path\<close>

datatype path_piece = Literal string | Token nat

definition civil_part :: "civil \<Rightarrow> nat \<Rightarrow> int" where
  "civil_part dt r = (if r = 6 then cv_year dt else if r = 5 then int (cv_month dt) else if r = 4 then int (cv_day dt)
     else if r = 3 then int (cv_hour dt) else if r = 2 then int (cv_minute dt) else int (cv_second dt))"

definition part_width :: "nat \<Rightarrow> nat" where "part_width r = (if r = 6 then 4 else 2)"

definition render_piece :: "civil \<Rightarrow> path_piece \<Rightarrow> string" where
  "render_piece dt p = (case p of Literal s \<Rightarrow> s | Token r \<Rightarrow> show_padded (part_width r) (civil_part dt r))"

definition render :: "civil \<Rightarrow> path_piece list \<Rightarrow> string" where
  "render dt ps = concat (map (render_piece dt) ps)"

definition piece_ranks :: "path_piece list \<Rightarrow> nat list" where
  "piece_ranks ps = concat (map (\<lambda>p. case p of Literal _ \<Rightarrow> [] | Token r \<Rightarrow> [r]) ps)"

lemma render_simps [simp]: "render dt [] = []" "render dt (p # ps) = render_piece dt p @ render dt ps"
  "render dt (ps @ qs) = render dt ps @ render dt qs"
  by (simp_all add: render_def)

lemma piece_ranks_simps [simp]: "piece_ranks [] = []" "piece_ranks (Literal s # ps) = piece_ranks ps"
  "piece_ranks (Token r # ps) = r # piece_ranks ps" "piece_ranks (ps @ qs) = piece_ranks ps @ piece_ranks qs"
  by (simp_all add: piece_ranks_def)

definition part_ok :: "civil \<Rightarrow> nat \<Rightarrow> bool" where
  "part_ok dt r \<longleftrightarrow> 0 \<le> civil_part dt r \<and> civil_part dt r < 10 ^ part_width r"

lemma render_mono:
  "\<forall>r\<in>set (piece_ranks ps). part_ok a r \<and> part_ok b r \<Longrightarrow>
   map (civil_part a) (piece_ranks ps) \<le> map (civil_part b) (piece_ranks ps) \<Longrightarrow> render a ps \<le> render b ps"
proof (induction ps)
  case (Cons p ps)
  show ?case
  proof (cases p)
    case (Literal s)
    then show ?thesis using Cons by (simp add: render_piece_def le_append_same)
  next
    case (Token r)
    have ok: "part_ok a r" "part_ok b r" using Cons.prems(1) Token by simp_all
    have w: "0 < part_width r" by (simp add: part_width_def)
    from Cons.prems(2) Token consider "civil_part a r < civil_part b r"
      | "civil_part a r = civil_part b r" "map (civil_part a) (piece_ranks ps) \<le> map (civil_part b) (piece_ranks ps)"
      by auto
    then show ?thesis
    proof cases
      case 1
      have "show_padded (part_width r) (civil_part a r) < show_padded (part_width r) (civil_part b r)"
        using show_padded_less 1 ok w by (simp add: part_ok_def)
      then show ?thesis
        using less_append [of "show_padded (part_width r) (civil_part a r)" "show_padded (part_width r) (civil_part b r)"]
          show_padded_parts(1) ok w Token by (simp add: render_piece_def part_ok_def less_imp_le)
    next
      case 2
      then show ?thesis using Cons Token by (simp add: render_piece_def le_append_same)
    qed
  qed
qed simp

section \<open>The pieces of a format\<close>

function seg_pieces :: "string \<Rightarrow> path_piece list" where
  "seg_pieces s =
     (if s = [] then []
      else case find (\<lambda>(t, _). starts_with t s) TOKENS of
        Some (t, rank) \<Rightarrow> Token rank # seg_pieces (drop (max 1 (length t)) s)
      | None \<Rightarrow> Literal [hd s] # seg_pieces (tl s))"
  by pat_completeness auto
termination by (relation "measure length") (auto intro: diff_less)

declare seg_pieces.simps [simp del]

lemma seg_pieces_Nil [simp]: "seg_pieces [] = []"
  by (simp add: seg_pieces.simps)

lemma seg_pieces_Cons: "seg_pieces (c # s) =
    (case find (\<lambda>(t, _). starts_with t (c # s)) TOKENS of
        Some (t, rank) \<Rightarrow> Token rank # seg_pieces (drop (max 1 (length t)) (c # s))
      | None \<Rightarrow> Literal [c] # seg_pieces s)"
  by (subst seg_pieces.simps) (simp split: option.split)

lemma token_texts_map: "token_texts dt = map (\<lambda>(t, r). (t, show_padded (part_width r) (civil_part dt r))) TOKENS"
  by (simp add: token_texts_def TOKENS_def part_width_def civil_part_def)

lemma find_map_snd: "find (\<lambda>(t, _). P t) (map (\<lambda>(t, r). (t, g r)) xs) =
    map_option (\<lambda>(t, r). (t, g r)) (find (\<lambda>(t, _). P t) xs)"
  by (induction xs) auto

lemma find_token_texts: "find (\<lambda>(t, _). starts_with t s) (token_texts dt) =
    map_option (\<lambda>(t, r). (t, show_padded (part_width r) (civil_part dt r))) (find (\<lambda>(t, _). starts_with t s) TOKENS)"
  unfolding token_texts_map by (rule find_map_snd)

lemma segment_rendered: "format_segment_value s dt = render dt (seg_pieces s)"
  unfolding format_segment_scan
proof (induction "length s" arbitrary: s rule: less_induct)
  case less
  show ?case
  proof (cases s)
    case (Cons c cs)
    show ?thesis
    proof (cases "find (\<lambda>(t, _). starts_with t s) TOKENS")
      case None
      then show ?thesis using Cons less [of cs] find_token_texts [of s dt]
        by (simp add: sub_tokens_Cons seg_pieces_Cons render_piece_def)
    next
      case (Some tr)
      then show ?thesis using Cons less [of "drop (max 1 (length (fst tr))) s"] find_token_texts [of s dt]
        by (cases tr) (simp add: sub_tokens_Cons seg_pieces_Cons render_piece_def)
    qed
  qed simp
qed

lemma format_ranks_Cons: "format_ranks (c # s) =
    (case find (\<lambda>(t, _). starts_with t (c # s)) TOKENS of
        Some (t, rank) \<Rightarrow> res_bind (format_ranks (drop (max 1 (length t)) (c # s))) (\<lambda>rs. Ok (rank # rs))
      | None \<Rightarrow> if is_char_boundary (c # s) 1 then format_ranks s else Err Panic)"
  by (subst format_ranks.simps) (simp split: option.split)

lemma format_ranks_pieces: "format_ranks s = Ok rs \<Longrightarrow> rs = piece_ranks (seg_pieces s)"
proof (induction "length s" arbitrary: s rs rule: less_induct)
  case less
  show ?case
  proof (cases s)
    case Nil
    then show ?thesis using less.prems by (simp add: format_ranks.simps)
  next
    case (Cons c cs)
    show ?thesis
    proof (cases "find (\<lambda>(t, _). starts_with t s) TOKENS")
      case None
      then show ?thesis using less.hyps [of cs rs] less.prems Cons
        by (simp add: format_ranks_Cons seg_pieces_Cons split: if_splits)
    next
      case (Some tr)
      obtain t r where tr: "tr = (t, r)" by (cases tr)
      then obtain rs' where "format_ranks (drop (max 1 (length t)) s) = Ok rs'" "rs = r # rs'"
        using less.prems Cons Some by (auto simp: res_bind_Inr_iff format_ranks_Cons)
      then show ?thesis using less.hyps [of "drop (max 1 (length t)) s" rs'] Cons Some tr by (simp add: seg_pieces_Cons)
    qed
  qed
qed

text \<open>A separator that is in no token cuts the scan.\<close>

lemma starts_with_stop: "c \<notin> set t \<Longrightarrow> starts_with t (a @ c # b) \<longleftrightarrow> starts_with t a"
proof (induction t arbitrary: a)
  case (Cons x t)
  then show ?case by (cases a) (auto simp: starts_with_def)
qed (simp add: starts_with_def)

lemma slash_in_no_token: "\<forall>(t, r)\<in>set TOKENS. CHR ''/'' \<notin> set t"
  by (simp add: TOKENS_def)

lemma find_token_stop: "find (\<lambda>(t, _). starts_with t (a @ CHR ''/'' # b)) TOKENS = find (\<lambda>(t, _). starts_with t a) TOKENS"
  using slash_in_no_token by (intro find_cong) (auto simp: starts_with_stop)

lemma seg_pieces_slash: "seg_pieces (a @ CHR ''/'' # b) = seg_pieces a @ Literal ''/'' # seg_pieces b"
proof (induction "length a" arbitrary: a rule: less_induct)
  case less
  show ?case
  proof (cases a)
    case Nil
    have "find (\<lambda>(t, _). starts_with t (CHR ''/'' # b)) TOKENS = None"
      using find_token_stop [of "[]" b] by (simp add: TOKENS_def starts_with_def)
    then show ?thesis using Nil by (simp add: seg_pieces_Cons)
  next
    case (Cons c cs)
    show ?thesis
    proof (cases "find (\<lambda>(t, _). starts_with t a) TOKENS")
      case None
      then show ?thesis using Cons less [of cs] find_token_stop [of a b] by (simp add: seg_pieces_Cons)
    next
      case (Some tr)
      obtain t r where tr: "tr = (t, r)" by (cases tr)
      have t: "starts_with t a" "t \<noteq> []" using find_mem [OF Some] tr by (auto simp: TOKENS_def)
      then have "length t \<le> length a" by (auto simp: starts_with_iff)
      then have "drop (max 1 (length t)) (a @ CHR ''/'' # b) = drop (max 1 (length t)) a @ CHR ''/'' # b"
        using t(2) by (cases t) simp_all
      then show ?thesis using Cons Some tr less [of "drop (max 1 (length t)) a"] find_token_stop [of a b]
        by (simp add: seg_pieces_Cons)
    qed
  qed
qed

fun join_pieces :: "path_piece list list \<Rightarrow> path_piece list" where
  "join_pieces [] = []"
| "join_pieces [p] = p"
| "join_pieces (p # q # ps) = p @ Literal ''/'' # join_pieces (q # ps)"

lemma render_join: "render dt (join_pieces pss) = join_with ''/'' (map (render dt) pss)"
  by (induction pss rule: join_pieces.induct) (simp_all add: render_piece_def)

lemma ranks_join: "piece_ranks (join_pieces pss) = concat (map piece_ranks pss)"
  by (induction pss rule: join_pieces.induct) simp_all

lemma seg_pieces_split: "seg_pieces s = join_pieces (map seg_pieces (split_on (CHR ''/'') s))"
proof -
  have "seg_pieces (join_with ''/'' parts) = join_pieces (map seg_pieces parts)" if "parts \<noteq> []" for parts
    using that by (induction parts rule: induct_list012) (simp_all add: seg_pieces_slash)
  then show ?thesis using join_split_on [of "CHR ''/''" s] split_on_nonempty by metis
qed

section \<open>The path of a timestamp\<close>

text \<open>The pieces of the path, a hive-style name before each segment.\<close>

definition path_pieces :: "TimestampBasedKeyGenerator \<Rightarrow> path_piece list" where
  "path_pieces kg = (let segments = split_on (CHR ''/'') (kg_output_dateformat kg) in
     join_pieces (map (\<lambda>(i, segment).
       (if kg_is_hive_style kg then [Literal (kg_partition_fields kg ! i @ ''='')] else []) @ seg_pieces segment)
       (zip [0..<length segments] segments)))"

lemma res_map_Ok: "res_map f xs = Inr ys \<Longrightarrow> (\<And>x y. x \<in> set xs \<Longrightarrow> f x = Inr y \<Longrightarrow> y = g x) \<Longrightarrow> ys = map g xs"
  by (induction xs arbitrary: ys) (auto simp: res_bind_Inr_iff)

lemma path_rendered:
  assumes "format_partition_path kc kg t = Ok path"
  shows "path = render (kc_civil kc (kg_output_timezone kg) t) (path_pieces kg)"
proof -
  let ?dt = "kc_civil kc (kg_output_timezone kg) t"
  let ?segs = "split_on (CHR ''/'') (kg_output_dateformat kg)"
  let ?piece = "\<lambda>(i, segment). (if kg_is_hive_style kg then [Literal (kg_partition_fields kg ! i @ ''='')] else []) @
    seg_pieces segment"
  let ?g = "\<lambda>x. render ?dt (?piece x)"
  obtain parts where parts: "res_map (\<lambda>(i, segment).
           let value = format_segment_value segment ?dt in
           if kg_is_hive_style kg then
             (if i < length (kg_partition_fields kg) then Ok (kg_partition_fields kg ! i @ ''='' @ value) else Err Panic)
           else Ok value) (zip [0..<length ?segs] ?segs) = Inr parts" "path = join_with ''/'' parts"
    using assms by (auto simp: format_partition_path_def Let_def res_bind_Inr_iff)
  have "parts = map ?g (zip [0..<length ?segs] ?segs)"
    by (rule res_map_Ok [OF parts(1)])
      (auto simp: Let_def segment_rendered render_piece_def split: if_splits)
  then show ?thesis using parts(2) by (simp add: path_pieces_def Let_def render_join comp_def)
qed

lemma path_piece_ranks: "piece_ranks (path_pieces kg) = piece_ranks (seg_pieces (kg_output_dateformat kg))"
proof -
  let ?segs = "split_on (CHR ''/'') (kg_output_dateformat kg)"
  have "map (\<lambda>x. piece_ranks (case x of (i, segment) \<Rightarrow>
       (if kg_is_hive_style kg then [Literal (kg_partition_fields kg ! i @ ''='')] else []) @ seg_pieces segment))
       (zip [0..<length ?segs] ?segs) = map (\<lambda>s. piece_ranks (seg_pieces s)) ?segs"
    by (rule nth_equalityI) auto
  then show ?thesis
    by (simp add: path_pieces_def Let_def ranks_join seg_pieces_split [of "kg_output_dateformat kg"] comp_def)
qed

text \<open>A format that starts with the year and goes down without a gap.\<close>

definition year_down :: "TimestampBasedKeyGenerator \<Rightarrow> bool" where
  "year_down kg \<longleftrightarrow> (\<exists>k>0. format_ranks (kg_output_dateformat kg) = Ok (take k [6, 5, 4, 3, 2, 1]))"

text \<open>What the formats need of the calendar in the output timezone: later instants have later
  civil fields. The fields of an instant fit when they have their widths (a year from 0 to 9999).\<close>

definition civil_parts :: "civil \<Rightarrow> int list" where
  "civil_parts dt = map (civil_part dt) [6, 5, 4, 3, 2, 1]"

definition calendar_ordered :: "keygen_chrono \<Rightarrow> string \<Rightarrow> bool" where
  "calendar_ordered kc tz \<longleftrightarrow> (\<forall>a b. a \<le> b \<longrightarrow> civil_parts (kc_civil kc tz a) \<le> civil_parts (kc_civil kc tz b))"

definition civil_fits :: "civil \<Rightarrow> bool" where
  "civil_fits dt \<longleftrightarrow> list_all (part_ok dt) [6, 5, 4, 3, 2, 1]"

lemma take_le: "xs \<le> ys \<Longrightarrow> length xs = length ys \<Longrightarrow> take k xs \<le> take k (ys :: 'a::linorder list)"
proof (induction xs arbitrary: ys k)
  case (Cons x xs)
  then show ?case by (cases ys; cases k) auto
qed simp

lemma paths_in_order:
  assumes "year_down kg" "calendar_ordered kc (kg_output_timezone kg)" "a \<le> b"
    and "civil_fits (kc_civil kc (kg_output_timezone kg) a)" "civil_fits (kc_civil kc (kg_output_timezone kg) b)"
    and "format_partition_path kc kg a = Ok pa" "format_partition_path kc kg b = Ok pb"
  shows "pa \<le> pb"
proof -
  obtain k where k: "format_ranks (kg_output_dateformat kg) = Ok (take k [6, 5, 4, 3, 2, 1])"
    using assms(1) by (auto simp: year_down_def)
  have ranks: "piece_ranks (path_pieces kg) = take k [6, 5, 4, 3, 2, 1]"
    using format_ranks_pieces [OF k] path_piece_ranks [of kg] by simp
  let ?a = "kc_civil kc (kg_output_timezone kg) a" and ?b = "kc_civil kc (kg_output_timezone kg) b"
  have "take k (civil_parts ?a) \<le> take k (civil_parts ?b)"
    using assms(2,3) by (intro take_le) (simp_all add: calendar_ordered_def civil_parts_def)
  then have vals: "map (civil_part ?a) (piece_ranks (path_pieces kg)) \<le> map (civil_part ?b) (piece_ranks (path_pieces kg))"
    by (simp only: ranks civil_parts_def take_map)
  have "set (take k [6, 5, 4, 3, 2, 1]) \<subseteq> set [6, 5, 4, 3, 2, 1::nat]" by (rule set_take_subset)
  then have "\<forall>r\<in>set (piece_ranks (path_pieces kg)). part_ok ?a r \<and> part_ok ?b r"
    using assms(4,5) unfolding ranks civil_fits_def list_all_iff by blast
  then show ?thesis using render_mono [OF _ vals] path_rendered assms(6,7) by simp
qed

end
