(* ===== verification/File_Pruning.thy ===== *)
theory File_Pruning
  imports Filters
begin

text \<open>
  Pruning of files by column statistics (\<open>statistics/mod.rs\<close>, \<open>table/file_pruner.rs\<close>): bounds of a
  column from the statistics of a row group, their merge into bounds of the file, and the
  decision that no row of a file can pass the filters. A single-element array is a typed value.
\<close>

section \<open>Statistics\<close>

datatype StatsGranularity = GranularityFile | GranularityRowGroup

definition granularity_from_str :: "string \<Rightarrow> StatsGranularity result" where
  "granularity_from_str s = (let l = map ascii_lower s in
     if l = ''file'' then Ok GranularityFile
     else if l = ''row_group'' \<or> l = ''rowgroup'' then Ok GranularityRowGroup
     else Err InvalidValue)"

definition show_granularity :: "StatsGranularity \<Rightarrow> string" where
  "show_granularity g = (case g of GranularityFile \<Rightarrow> ''file'' | GranularityRowGroup \<Rightarrow> ''row_group'')"

record ColumnStatistics =
  cs_column_name :: string
  cs_data_type :: DataType
  cs_min_value :: "scalar option"
  cs_max_value :: "scalar option"

definition column_statistics_new :: "string \<Rightarrow> DataType \<Rightarrow> ColumnStatistics" where
  "column_statistics_new n t = \<lparr>cs_column_name = n, cs_data_type = t, cs_min_value = None, cs_max_value = None\<rparr>"

text \<open>The physical statistics of a column chunk: optional least and greatest value.\<close>

datatype ParquetStatistics =
    PqBoolean "bool option" "bool option"
  | PqInt32 "32 word option" "32 word option"
  | PqInt64 "64 word option" "64 word option"
  | PqInt96
  | PqFloat "64 word option" "64 word option"
  | PqDouble "64 word option" "64 word option"
  | PqByteArray "byte list option" "byte list option"
  | PqFixedLenByteArray "byte list option" "byte list option"

definition int32_to_array :: "32 word \<Rightarrow> DataType \<Rightarrow> scalar" where
  "int32_to_array v t = (case t of
      DtInt8 \<Rightarrow> (DtInt8, VInt (sint (ucast v :: 8 word)))
    | DtInt16 \<Rightarrow> (DtInt16, VInt (sint (ucast v :: 16 word)))
    | DtInt32 \<Rightarrow> (DtInt32, VInt (sint v))
    | DtUInt8 \<Rightarrow> (DtUInt8, VInt (uint (ucast v :: 8 word)))
    | DtUInt16 \<Rightarrow> (DtUInt16, VInt (uint (ucast v :: 16 word)))
    | DtUInt32 \<Rightarrow> (DtUInt32, VInt (uint v))
    | DtDate32 \<Rightarrow> (DtDate32, VInt (sint v))
    | _ \<Rightarrow> (DtInt32, VInt (sint v)))"

definition int64_to_array :: "64 word \<Rightarrow> DataType \<Rightarrow> scalar" where
  "int64_to_array v t = (case t of
      DtUInt64 \<Rightarrow> (DtUInt64, VInt (uint v))
    | DtTimestamp u \<Rightarrow> (DtTimestamp u, VInt (sint v))
    | _ \<Rightarrow> (DtInt64, VInt (sint v)))"

definition bytes_to_array :: "byte list \<Rightarrow> DataType \<Rightarrow> scalar" where
  "bytes_to_array bs t = (if t = DtUtf8 \<or> t = DtLargeUtf8 then (DtUtf8, VStr (from_utf8_lossy bs))
     else (DtBinary, VBytes bs))"

definition parquet_stats_to_min_max_arrays :: "ParquetStatistics \<Rightarrow> DataType \<Rightarrow> scalar option \<times> scalar option" where
  "parquet_stats_to_min_max_arrays st t = (case st of
      PqBoolean a b \<Rightarrow> (map_option (\<lambda>v. (DtBoolean, VBool v)) a, map_option (\<lambda>v. (DtBoolean, VBool v)) b)
    | PqInt32 a b \<Rightarrow> (map_option (\<lambda>v. int32_to_array v t) a, map_option (\<lambda>v. int32_to_array v t) b)
    | PqInt64 a b \<Rightarrow> (map_option (\<lambda>v. int64_to_array v t) a, map_option (\<lambda>v. int64_to_array v t) b)
    | PqInt96 \<Rightarrow> (None, None)
    | PqFloat a b \<Rightarrow> (map_option (\<lambda>v. (DtFloat32, VFloat v)) a, map_option (\<lambda>v. (DtFloat32, VFloat v)) b)
    | PqDouble a b \<Rightarrow> (map_option (\<lambda>v. (DtFloat64, VFloat v)) a, map_option (\<lambda>v. (DtFloat64, VFloat v)) b)
    | PqByteArray a b \<Rightarrow> (map_option (\<lambda>v. bytes_to_array v t) a, map_option (\<lambda>v. bytes_to_array v t) b)
    | PqFixedLenByteArray a b \<Rightarrow>
        (map_option (\<lambda>v. bytes_to_array v t) a, map_option (\<lambda>v. bytes_to_array v t) b))"

definition from_parquet_statistics :: "string \<Rightarrow> DataType \<Rightarrow> ParquetStatistics \<Rightarrow> ColumnStatistics" where
  "from_parquet_statistics n t st = (case parquet_stats_to_min_max_arrays st t of (a, b) \<Rightarrow>
     \<lparr>cs_column_name = n, cs_data_type = t, cs_min_value = a, cs_max_value = b\<rparr>)"

text \<open>One comparison of single-element arrays; a failed kernel counts as no.\<close>

definition scalar_test :: "arrow_kernels \<Rightarrow> ExprOperator \<Rightarrow> scalar \<Rightarrow> scalar \<Rightarrow> bool" where
  "scalar_test ak o1 a b \<longleftrightarrow> ak_comparable ak (fst a) (fst b) \<and> kernel_cell ak o1 (fst a) (snd a) (snd b) = Some True"

definition is_less_than :: "arrow_kernels \<Rightarrow> scalar \<Rightarrow> scalar \<Rightarrow> bool" where
  "is_less_than ak = scalar_test ak OpLt"

definition is_greater_than :: "arrow_kernels \<Rightarrow> scalar \<Rightarrow> scalar \<Rightarrow> bool" where
  "is_greater_than ak = scalar_test ak OpGt"

definition merge_bound :: "(scalar \<Rightarrow> scalar \<Rightarrow> bool) \<Rightarrow> scalar option \<Rightarrow> scalar option \<Rightarrow> scalar option" where
  "merge_bound better x y = (case x of
      Some a \<Rightarrow> (case y of Some b \<Rightarrow> if better a b then Some a else Some b | None \<Rightarrow> Some a)
    | None \<Rightarrow> y)"

definition column_statistics_merge :: "arrow_kernels \<Rightarrow> ColumnStatistics \<Rightarrow> ColumnStatistics \<Rightarrow> ColumnStatistics" where
  "column_statistics_merge ak c other = c\<lparr>
     cs_min_value := merge_bound (is_less_than ak) (cs_min_value c) (cs_min_value other),
     cs_max_value := merge_bound (is_greater_than ak) (cs_max_value c) (cs_max_value other)\<rparr>"

record StatisticsContainer =
  sc_granularity :: StatsGranularity
  sc_num_rows :: "int option"
  sc_columns :: "string \<Rightarrow> ColumnStatistics option"

definition statistics_container_new :: "StatsGranularity \<Rightarrow> StatisticsContainer" where
  "statistics_container_new g = \<lparr>sc_granularity = g, sc_num_rows = None, sc_columns = Map.empty\<rparr>"

text \<open>The metadata of a file: its row groups, each with its column chunks (path and statistics).\<close>

record RowGroupMetaData =
  rg_num_rows :: int
  rg_chunks :: "(string list \<times> ParquetStatistics option) list"

record ParquetMetaData =
  pm_num_rows :: int
  pm_row_groups :: "RowGroupMetaData list"

definition chunk_step :: "Schema \<Rightarrow> (string \<Rightarrow> ColumnStatistics option) \<Rightarrow>
    string list \<times> ParquetStatistics option \<Rightarrow> (string \<Rightarrow> ColumnStatistics option)" where
  "chunk_step s m c = (case fst c of
      [n] \<Rightarrow> (case field_of (rev s) n of
          None \<Rightarrow> m
        | Some f \<Rightarrow> m(n \<mapsto> (case snd c of
            Some st \<Rightarrow> from_parquet_statistics n (f_type f) st
          | None \<Rightarrow> column_statistics_new n (f_type f))))
    | _ \<Rightarrow> m)"

definition from_row_group :: "RowGroupMetaData \<Rightarrow> Schema \<Rightarrow> StatisticsContainer" where
  "from_row_group rg s = (statistics_container_new GranularityRowGroup)\<lparr>
     sc_num_rows := Some (rg_num_rows rg), sc_columns := foldl (chunk_step s) Map.empty (rg_chunks rg)\<rparr>"

text \<open>The statistics of a row group enter those of the file column by column.\<close>

definition merge_columns :: "arrow_kernels \<Rightarrow> (string \<Rightarrow> ColumnStatistics option) \<Rightarrow>
    (string \<Rightarrow> ColumnStatistics option) \<Rightarrow> (string \<Rightarrow> ColumnStatistics option)" where
  "merge_columns ak m rg = (\<lambda>n. case rg n of
      None \<Rightarrow> m n
    | Some c \<Rightarrow> (case m n of Some e \<Rightarrow> Some (column_statistics_merge ak e c) | None \<Rightarrow> Some c))"

definition ensure_field :: "(string \<Rightarrow> ColumnStatistics option) \<Rightarrow> Field \<Rightarrow> (string \<Rightarrow> ColumnStatistics option)" where
  "ensure_field m f = (if m (f_name f) = None
     then m(f_name f \<mapsto> column_statistics_new (f_name f) (f_type f)) else m)"

definition from_parquet_metadata :: "arrow_kernels \<Rightarrow> ParquetMetaData \<Rightarrow> Schema \<Rightarrow> StatisticsContainer" where
  "from_parquet_metadata ak md s = (statistics_container_new GranularityFile)\<lparr>
     sc_num_rows := Some (pm_num_rows md),
     sc_columns := foldl ensure_field
       (foldl (\<lambda>m rg. merge_columns ak m (sc_columns (from_row_group rg s))) Map.empty (pm_row_groups md)) s\<rparr>"

section \<open>The file pruner\<close>

record FilePruner =
  fp_and_filters :: "SchemableFilter list"

definition file_pruner_new :: "arrow_kernels \<Rightarrow> Filter list \<Rightarrow> Schema \<Rightarrow> Schema \<Rightarrow> FilePruner" where
  "file_pruner_new ak fs table_schema partition_schema = \<lparr>fp_and_filters =
     List.map_filter (\<lambda>f. case schemable_filter ak f table_schema of Inl _ \<Rightarrow> None | Inr sf \<Rightarrow> Some sf)
       (filter (\<lambda>f. \<not> has_field partition_schema (fl_field f)) fs)\<rparr>"

definition file_pruner_empty :: FilePruner where
  "file_pruner_empty = \<lparr>fp_and_filters = []\<rparr>"

definition file_pruner_is_empty :: "FilePruner \<Rightarrow> bool" where
  "file_pruner_is_empty p = (fp_and_filters p = [])"

definition can_prune_eq :: "arrow_kernels \<Rightarrow> scalar \<Rightarrow> scalar option \<Rightarrow> scalar option \<Rightarrow> bool" where
  "can_prune_eq ak v mn mx = (case mn of None \<Rightarrow> False | Some a \<Rightarrow> (case mx of None \<Rightarrow> False | Some b \<Rightarrow>
     scalar_test ak OpLt v a \<or> scalar_test ak OpGt v b))"

definition can_prune_ne :: "arrow_kernels \<Rightarrow> scalar \<Rightarrow> scalar option \<Rightarrow> scalar option \<Rightarrow> bool" where
  "can_prune_ne ak v mn mx = (case mn of None \<Rightarrow> False | Some a \<Rightarrow> (case mx of None \<Rightarrow> False | Some b \<Rightarrow>
     scalar_test ak OpEq a b \<and> scalar_test ak OpEq a v))"

definition can_prune_lt :: "arrow_kernels \<Rightarrow> scalar \<Rightarrow> scalar option \<Rightarrow> bool" where
  "can_prune_lt ak v mn = (case mn of None \<Rightarrow> False | Some a \<Rightarrow> scalar_test ak OpGte a v)"

definition can_prune_lte :: "arrow_kernels \<Rightarrow> scalar \<Rightarrow> scalar option \<Rightarrow> bool" where
  "can_prune_lte ak v mn = (case mn of None \<Rightarrow> False | Some a \<Rightarrow> scalar_test ak OpGt a v)"

definition can_prune_gt :: "arrow_kernels \<Rightarrow> scalar \<Rightarrow> scalar option \<Rightarrow> bool" where
  "can_prune_gt ak v mx = (case mx of None \<Rightarrow> False | Some b \<Rightarrow> scalar_test ak OpLte b v)"

definition can_prune_gte :: "arrow_kernels \<Rightarrow> scalar \<Rightarrow> scalar option \<Rightarrow> bool" where
  "can_prune_gte ak v mx = (case mx of None \<Rightarrow> False | Some b \<Rightarrow> scalar_test ak OpLt b v)"

text \<open>\<open>extract_filter_array\<close>: a scalar always has its one element. A filter without values panics.\<close>

definition can_prune_by_filter :: "arrow_kernels \<Rightarrow> SchemableFilter \<Rightarrow> ColumnStatistics \<Rightarrow> bool result" where
  "can_prune_by_filter ak f c =
     (if is_multi_value (sf_operator f) then Ok False
      else case sf_values f of
        [] \<Rightarrow> Err Panic
      | v # _ \<Rightarrow> Ok (case sf_operator f of
            OpEq \<Rightarrow> can_prune_eq ak v (cs_min_value c) (cs_max_value c)
          | OpNe \<Rightarrow> can_prune_ne ak v (cs_min_value c) (cs_max_value c)
          | OpLt \<Rightarrow> can_prune_lt ak v (cs_min_value c)
          | OpLte \<Rightarrow> can_prune_lte ak v (cs_min_value c)
          | OpGt \<Rightarrow> can_prune_gt ak v (cs_max_value c)
          | OpGte \<Rightarrow> can_prune_gte ak v (cs_max_value c)
          | _ \<Rightarrow> False))"

fun should_include_filters :: "arrow_kernels \<Rightarrow> SchemableFilter list \<Rightarrow> StatisticsContainer \<Rightarrow> bool result" where
  "should_include_filters ak [] st = Ok True"
| "should_include_filters ak (f # fs) st = (case sc_columns st (f_name (sf_field f)) of
      None \<Rightarrow> should_include_filters ak fs st
    | Some c \<Rightarrow> res_bind (can_prune_by_filter ak f c) (\<lambda>prune.
        if prune then Ok False else should_include_filters ak fs st))"

definition file_should_include :: "arrow_kernels \<Rightarrow> FilePruner \<Rightarrow> StatisticsContainer \<Rightarrow> bool result" where
  "file_should_include ak p st = should_include_filters ak (fp_and_filters p) st"

section \<open>Pruned files hold no matching row\<close>

text \<open>What the comparison kernels promise: they compare values of one type, by a total order
  up to equality.\<close>

definition kernels_ordered :: "arrow_kernels \<Rightarrow> bool" where
  "kernels_ordered ak \<longleftrightarrow> (\<forall>t t'. ak_comparable ak t t' \<longrightarrow> t = t') \<and>
     (\<forall>t a b. a \<noteq> VNull \<longrightarrow> b \<noteq> VNull \<longrightarrow> ak_cmp ak t a b = ord_reverse (ak_cmp ak t b a)) \<and>
     (\<forall>t a b c. a \<noteq> VNull \<longrightarrow> b \<noteq> VNull \<longrightarrow> c \<noteq> VNull \<longrightarrow>
        ak_cmp ak t a b \<noteq> Greater \<longrightarrow> ak_cmp ak t b c \<noteq> Greater \<longrightarrow> ak_cmp ak t a c \<noteq> Greater)"

definition not_above :: "arrow_kernels \<Rightarrow> DataType \<Rightarrow> Value \<Rightarrow> Value \<Rightarrow> bool" where
  "not_above ak t a b \<longleftrightarrow> a \<noteq> VNull \<and> b \<noteq> VNull \<and> ak_cmp ak t a b \<noteq> Greater"

lemma not_above_trans:
  "kernels_ordered ak \<Longrightarrow> not_above ak t a b \<Longrightarrow> not_above ak t b c \<Longrightarrow> not_above ak t a c"
  unfolding kernels_ordered_def not_above_def by blast

lemma cmp_reverse:
  "kernels_ordered ak \<Longrightarrow> a \<noteq> VNull \<Longrightarrow> b \<noteq> VNull \<Longrightarrow> ak_cmp ak t a b = ord_reverse (ak_cmp ak t b a)"
  unfolding kernels_ordered_def by blast

lemma not_above_total:
  "kernels_ordered ak \<Longrightarrow> a \<noteq> VNull \<Longrightarrow> b \<noteq> VNull \<Longrightarrow> not_above ak t a b \<or> not_above ak t b a"
  using cmp_reverse [of ak a b t] by (cases "ak_cmp ak t b a") (auto simp: not_above_def)

text \<open>The tests in terms of \<open>not_above\<close>.\<close>

lemma cmp_test_not_above:
  assumes "kernels_ordered ak" "a \<noteq> VNull" "b \<noteq> VNull"
  shows "cmp_test OpLt (ak_cmp ak t a b) \<longleftrightarrow> \<not> not_above ak t b a"
    "cmp_test OpLte (ak_cmp ak t a b) \<longleftrightarrow> not_above ak t a b"
    "cmp_test OpGt (ak_cmp ak t a b) \<longleftrightarrow> \<not> not_above ak t a b"
    "cmp_test OpGte (ak_cmp ak t a b) \<longleftrightarrow> not_above ak t b a"
    "cmp_test OpEq (ak_cmp ak t a b) \<longleftrightarrow> not_above ak t a b \<and> not_above ak t b a"
    "cmp_test OpNe (ak_cmp ak t a b) \<longleftrightarrow> \<not> (not_above ak t a b \<and> not_above ak t b a)"
  using cmp_reverse [OF assms(1) assms(3,2), of t] assms(2,3)
  by (cases "ak_cmp ak t a b"; simp add: cmp_test_def not_above_def)+

text \<open>The bounds of a column over the values it holds: of the column's type, and around every
  value that is not null. A column of nulls may have no bounds.\<close>

definition bounds_typed :: "DataType \<Rightarrow> ColumnStatistics \<Rightarrow> bool" where
  "bounds_typed t c \<longleftrightarrow> pred_option (\<lambda>a. fst a = t \<and> snd a \<noteq> VNull) (cs_min_value c) \<and>
     pred_option (\<lambda>a. fst a = t \<and> snd a \<noteq> VNull) (cs_max_value c)"

definition covers :: "arrow_kernels \<Rightarrow> DataType \<Rightarrow> ColumnStatistics \<Rightarrow> Value \<Rightarrow> bool" where
  "covers ak t c v \<longleftrightarrow> v = VNull \<or> (\<exists>a z. cs_min_value c = Some (t, a) \<and> cs_max_value c = Some (t, z) \<and>
     not_above ak t a v \<and> not_above ak t v z)"

lemma scalar_test_iff:
  "scalar_test ak o1 (t, a) (t', b) \<longleftrightarrow> ak_comparable ak t t' \<and> a \<noteq> VNull \<and> b \<noteq> VNull \<and> cmp_test o1 (ak_cmp ak t a b)"
  by (auto simp: scalar_test_def kernel_cell_True)

lemma comparable_same: "kernels_ordered ak \<Longrightarrow> ak_comparable ak t t' \<Longrightarrow> t' = t"
  unfolding kernels_ordered_def by blast

lemma can_prune_sound:
  assumes k: "kernels_ordered ak" and p: "can_prune_by_filter ak f c = Ok True" and c: "covers ak t c v"
    and f: "ak_comparable ak t (fst (hd (sf_values f)))"
  shows "\<not> cell_passes ak f t v"
proof
  assume pass: "cell_passes ak f t v"
  have single: "\<not> is_multi_value (sf_operator f)" using p by (auto simp: can_prune_by_filter_def split: if_splits)
  then obtain x vs where x: "sf_values f = (t, x) # vs"
    using p comparable_same [OF k f] by (cases "sf_values f") (auto simp: can_prune_by_filter_def)
  obtain a z where b: "cs_min_value c = Some (t, a)" "cs_max_value c = Some (t, z)" "not_above ak t a v"
    "not_above ak t v z" and v: "v \<noteq> VNull" using c pass by (auto simp: covers_def cell_passes_def)
  have nn: "x \<noteq> VNull" "a \<noteq> VNull" "z \<noteq> VNull" and t: "cmp_test (sf_operator f) (ak_cmp ak t v x)"
    using pass single x b(3,4) by (auto simp: cell_passes_def is_multi_value_def not_above_def)
  note tests = cmp_test_not_above [OF k]
  note trans = not_above_trans [OF k, of t]
  have f: "not_above ak t v x \<Longrightarrow> not_above ak t a x" "not_above ak t x v \<Longrightarrow> not_above ak t x z"
    "not_above ak t z a \<Longrightarrow> not_above ak t a x \<Longrightarrow> not_above ak t v x" "not_above ak t x a \<Longrightarrow> not_above ak t x v"
    "not_above ak t z x \<Longrightarrow> not_above ak t v x"
    using trans b(3,4) by blast+
  have p': "(case sf_operator f of OpEq \<Rightarrow> can_prune_eq ak (t, x) (Some (t, a)) (Some (t, z))
      | OpNe \<Rightarrow> can_prune_ne ak (t, x) (Some (t, a)) (Some (t, z)) | OpLt \<Rightarrow> can_prune_lt ak (t, x) (Some (t, a))
      | OpLte \<Rightarrow> can_prune_lte ak (t, x) (Some (t, a)) | OpGt \<Rightarrow> can_prune_gt ak (t, x) (Some (t, z))
      | OpGte \<Rightarrow> can_prune_gte ak (t, x) (Some (t, z)) | _ \<Rightarrow> False)"
    using p single x by (simp add: can_prune_by_filter_def b(1,2) cong: ExprOperator.case_cong)
  show False
  proof (cases "sf_operator f")
    case OpEq
    then show ?thesis using p' t f(1,2) by (auto simp: can_prune_eq_def scalar_test_iff tests nn v)
  next
    case OpNe
    then show ?thesis using p' t f(3,4) by (auto simp: can_prune_ne_def scalar_test_iff tests nn v)
  next
    case OpLt
    then show ?thesis using p' t f(4) by (auto simp: can_prune_lt_def scalar_test_iff tests nn v)
  next
    case OpLte
    then show ?thesis using p' t f(1) by (auto simp: can_prune_lte_def scalar_test_iff tests nn v)
  next
    case OpGt
    then show ?thesis using p' t f(5) by (auto simp: can_prune_gt_def scalar_test_iff tests nn v)
  next
    case OpGte
    then show ?thesis using p' t f(2) by (auto simp: can_prune_gte_def scalar_test_iff tests nn v)
  qed (use single in \<open>auto simp: is_multi_value_def\<close>)
qed

text \<open>Merging keeps covering what both sides cover, when the kernels compare the column's type.\<close>

lemma merge_typed:
  "bounds_typed t c \<Longrightarrow> bounds_typed t d \<Longrightarrow> bounds_typed t (column_statistics_merge ak c d)"
  by (auto simp: bounds_typed_def column_statistics_merge_def merge_bound_def split: option.splits)

lemma merge_covers:
  assumes k: "kernels_ordered ak" "ak_comparable ak t t" and typed: "bounds_typed t c" "bounds_typed t d"
    and v: "covers ak t c v \<or> covers ak t d v"
  shows "covers ak t (column_statistics_merge ak c d) v"
proof (cases "v = VNull")
  case False
  note trans = not_above_trans [OF k(1), of t]
  let ?m = "column_statistics_merge ak c d"
  have low: "\<exists>a'. cs_min_value ?m = Some (t, a') \<and> not_above ak t a' v"
    if a: "cs_min_value c = Some (t, a) \<or> cs_min_value d = Some (t, a)" "not_above ak t a v" for a
  proof -
    have nn: "pred_option (\<lambda>a. fst a = t \<and> snd a \<noteq> VNull) (cs_min_value c)"
      "pred_option (\<lambda>a. fst a = t \<and> snd a \<noteq> VNull) (cs_min_value d)" using typed by (simp_all add: bounds_typed_def)
    show ?thesis
    proof (cases "\<exists>x y. cs_min_value c = Some (t, x) \<and> cs_min_value d = Some (t, y)")
      case True
      then obtain x y where xy: "cs_min_value c = Some (t, x)" "cs_min_value d = Some (t, y)" by blast
      have xn: "x \<noteq> VNull" "y \<noteq> VNull" using nn xy by simp_all
      show ?thesis
        using a xy xn trans [of x y v] trans [of y x v] not_above_total [OF k(1) xn, of t] k(2)
        by (auto simp: column_statistics_merge_def merge_bound_def is_less_than_def scalar_test_iff
            cmp_test_not_above [OF k(1)])
    next
      case False
      then show ?thesis using a nn by (cases "cs_min_value c"; cases "cs_min_value d")
        (auto simp: column_statistics_merge_def merge_bound_def)
    qed
  qed
  have high: "\<exists>z'. cs_max_value ?m = Some (t, z') \<and> not_above ak t v z'"
    if z: "cs_max_value c = Some (t, z) \<or> cs_max_value d = Some (t, z)" "not_above ak t v z" for z
  proof -
    have nn: "pred_option (\<lambda>a. fst a = t \<and> snd a \<noteq> VNull) (cs_max_value c)"
      "pred_option (\<lambda>a. fst a = t \<and> snd a \<noteq> VNull) (cs_max_value d)" using typed by (simp_all add: bounds_typed_def)
    show ?thesis
    proof (cases "\<exists>x y. cs_max_value c = Some (t, x) \<and> cs_max_value d = Some (t, y)")
      case True
      then obtain x y where xy: "cs_max_value c = Some (t, x)" "cs_max_value d = Some (t, y)" by blast
      have xn: "x \<noteq> VNull" "y \<noteq> VNull" using nn xy by simp_all
      show ?thesis
        using z xy xn trans [of v x y] trans [of v y x] not_above_total [OF k(1) xn, of t] k(2)
        by (auto simp: column_statistics_merge_def merge_bound_def is_greater_than_def scalar_test_iff
            cmp_test_not_above [OF k(1)])
    next
      case False
      then show ?thesis using z nn by (cases "cs_max_value c"; cases "cs_max_value d")
        (auto simp: column_statistics_merge_def merge_bound_def)
    qed
  qed
  show ?thesis using v low high False unfolding covers_def by blast
qed (simp add: covers_def)

text \<open>A row group whose statistics of a column hold for its rows.\<close>

definition group_covers :: "arrow_kernels \<Rightarrow> Schema \<Rightarrow> string \<Rightarrow> RowGroupMetaData \<Rightarrow> batch \<Rightarrow> bool" where
  "group_covers ak s n rg b \<longleftrightarrow> b_schema b = s \<and>
     (case sc_columns (from_row_group rg s) n of None \<Rightarrow> False
      | Some c \<Rightarrow> (case column_by_name b n of None \<Rightarrow> False
        | Some (t, col) \<Rightarrow> bounds_typed t c \<and> (\<forall>v\<in>set col. covers ak t c v)))"

lemma group_coversE:
  assumes "group_covers ak s n rg b" "field_of s n = Some f"
  obtains c col where "b_schema b = s" "sc_columns (from_row_group rg s) n = Some c"
    "column_by_name b n = Some (f_type f, col)" "bounds_typed (f_type f) c" "\<forall>v\<in>set col. covers ak (f_type f) c v"
proof -
  obtain c where c: "sc_columns (from_row_group rg s) n = Some c"
    using assms(1) by (auto simp: group_covers_def split: option.splits)
  obtain col where col: "column_by_name b n = Some (f_type f, col)"
    using assms by (auto simp: group_covers_def column_by_name_def split: option.splits)
  show ?thesis using that [OF _ c col] assms(1) c col by (simp add: group_covers_def)
qed

text \<open>The statistics of the file cover every row group's column.\<close>

lemma file_columns_cover:
  assumes k: "kernels_ordered ak" "ak_comparable ak (f_type f) (f_type f)" and f: "field_of s n = Some f"
  shows "list_all2 (group_covers ak s n) rgs bs \<Longrightarrow>
    pred_option (bounds_typed (f_type f)) (m n) \<Longrightarrow>
    (\<forall>v\<in>vs. pred_option (\<lambda>c. covers ak (f_type f) c v) (m n)) \<Longrightarrow> (vs \<noteq> {} \<longrightarrow> m n \<noteq> None) \<Longrightarrow>
    (let m' = foldl (\<lambda>m rg. merge_columns ak m (sc_columns (from_row_group rg s))) m rgs in
      pred_option (bounds_typed (f_type f)) (m' n) \<and>
      (\<forall>v \<in> vs \<union> (\<Union>b\<in>set bs. \<Union>(t, col)\<in>set_option (column_by_name b n). set col).
         \<exists>c. m' n = Some c \<and> covers ak (f_type f) c v))"
proof (induction rgs arbitrary: bs m vs)
  case Nil
  then show ?case by (cases "m n") auto
next
  case (Cons rg rgs)
  obtain b bs' where bs: "bs = b # bs'" "group_covers ak s n rg b" "list_all2 (group_covers ak s n) rgs bs'"
    using Cons.prems(1) by (auto simp: list_all2_Cons1)
  obtain c col where c: "sc_columns (from_row_group rg s) n = Some c" "column_by_name b n = Some (f_type f, col)"
    "bounds_typed (f_type f) c" "\<forall>v\<in>set col. covers ak (f_type f) c v"
    using group_coversE [OF bs(2) f] by metis
  let ?m = "merge_columns ak m (sc_columns (from_row_group rg s))"
  have "?m n = Some (case m n of None \<Rightarrow> c | Some e \<Rightarrow> column_statistics_merge ak e c)"
    using c(1) by (simp add: merge_columns_def split: option.splits)
  then have m: "pred_option (bounds_typed (f_type f)) (?m n)"
    "\<forall>v \<in> vs \<union> set col. pred_option (\<lambda>c. covers ak (f_type f) c v) (?m n)" "?m n \<noteq> None"
    using c Cons.prems(2-4) merge_typed [of "f_type f" _ c ak] merge_covers [OF k, of _ c]
    by (auto split: option.splits)
  show ?case using Cons.IH [of bs' ?m "vs \<union> set col"] bs(3) m c(2) bs(1) by (auto simp: Let_def)
qed

lemma ensure_field_keeps: "m n = Some c \<Longrightarrow> foldl ensure_field m s n = Some c"
proof (induction s arbitrary: m)
  case (Cons f s)
  then have "ensure_field m f n = Some c" by (auto simp: ensure_field_def)
  then show ?case using Cons.IH by simp
qed simp

lemma should_include_False:
  "should_include_filters ak fs st = Ok False \<Longrightarrow>
   \<exists>f\<in>set fs. \<exists>c. sc_columns st (f_name (sf_field f)) = Some c \<and> can_prune_by_filter ak f c = Ok True"
  by (induction fs) (auto simp: res_bind_Inr_iff split: option.splits if_splits)

lemma schemable_field:
  "schemable_filter ak f s = Ok sf \<Longrightarrow> \<exists>fd. field_of s (fl_field f) = Some fd \<and> sf_field sf = fd \<and> f_name fd = fl_field f"
  by (auto simp: schemable_filter_def res_bind_Inr_iff field_of_def find_Some_iff)

lemma pruner_filters:
  "sf \<in> set (fp_and_filters (file_pruner_new ak fs s ps)) \<Longrightarrow> \<exists>f\<in>set fs. schemable_filter ak f s = Ok sf"
  by (auto simp: file_pruner_new_def List.map_filter_def split: sum.splits)

text \<open>C21: pruning a file by its statistics loses no row: when the comparisons are orders and the
  statistics of every row group hold for the rows it has (bounds around every value that is not
  null), a file the pruner leaves out has no row the filters keep.\<close>

theorem pruned_file_has_no_matching_row:
  assumes "kernels_ordered ak"
    and "list_all2 (\<lambda>rg b. \<forall>f\<in>set fs. has_field s (fl_field f) \<longrightarrow> group_covers ak s (fl_field f) rg b)
      (pm_row_groups md) bs"
    and "file_should_include ak (file_pruner_new ak fs s ps) (from_parquet_metadata ak md s) = Ok False"
    and "b \<in> set bs" "b_schema b = s" "i < length (b_rows b)" "filters_to_row_mask ak fs b = Ok m"
  shows "m ! i \<noteq> Some True"
proof
  assume keep: "m ! i = Some True"
  obtain sf c where sf: "sf \<in> set (fp_and_filters (file_pruner_new ak fs s ps))"
    "sc_columns (from_parquet_metadata ak md s) (f_name (sf_field sf)) = Some c" "can_prune_by_filter ak sf c = Ok True"
    using should_include_False assms(3) by (force simp: file_should_include_def)
  obtain f where f: "f \<in> set fs" "schemable_filter ak f s = Ok sf" using pruner_filters [OF sf(1)] by blast
  obtain fd where fd: "field_of s (fl_field f) = Some fd" "sf_field sf = fd" "f_name fd = fl_field f"
    using schemable_field [OF f(2)] by blast
  obtain col where col: "column_by_name b (fl_field f) = Some (f_type fd, col)"
    using fd(1) assms(5) by (simp add: column_by_name_def)
  have pass: "sf_values sf \<noteq> []" "ak_comparable ak (f_type fd) (fst (hd (sf_values sf)))"
    "cell_passes ak sf (f_type fd) (col ! i)"
    using mask_keeps_passing_rows [OF assms(7,6) keep f(1)] col f(2) assms(5) by (simp_all add: row_passes_def)
  have same: "ak_comparable ak (f_type fd) (f_type fd)"
    using pass(2) comparable_same [OF assms(1) pass(2)] by simp
  have hf: "has_field s (fl_field f)" using fd(1) by (auto simp: field_of_def has_field_def list_ex_iff find_Some_iff)
  have cov: "list_all2 (group_covers ak s (fl_field f)) (pm_row_groups md) bs"
    using assms(2) by (rule list_all2_mono) (use f(1) hf in blast)
  define cols where "cols = foldl (\<lambda>m rg. merge_columns ak m (sc_columns (from_row_group rg s))) Map.empty
    (pm_row_groups md)"
  have v: "col ! i \<in> set col" using assms(6) column_by_name_length [OF col] by simp
  obtain e where e: "cols (fl_field f) = Some e" "covers ak (f_type fd) e (col ! i)"
    using file_columns_cover [OF assms(1) same fd(1) cov, of Map.empty "{}"] assms(4) col v
    by (fastforce simp: cols_def Let_def)
  have "c = e"
    using sf(2) ensure_field_keeps [of cols "fl_field f" e s, OF e(1)] fd(2,3) by (simp add: from_parquet_metadata_def cols_def)
  then show False using can_prune_sound [OF assms(1) sf(3) _ pass(2)] e(2) pass(3) by blast
qed

section \<open>Samples\<close>

text \<open>Integer columns: a cast that parses and the order of the integers.\<close>

definition value_rank :: "Value \<Rightarrow> int" where
  "value_rank v = (case v of VInt n \<Rightarrow> n | _ \<Rightarrow> 0)"

definition int_kernels :: arrow_kernels where
  "int_kernels = \<lparr>ak_cast = (\<lambda>v t. map_sum id VInt (ok_or InvalidValue (parse_sint 64 v))),
     ak_comparable = (=), ak_cmp = (\<lambda>t a b. cmp_lin (value_rank a) (value_rank b))\<rparr>"

lemma int_kernels_parts:
  "ak_comparable int_kernels t t' \<longleftrightarrow> t = t'"
  "ak_cmp int_kernels t a b = cmp_lin (value_rank a) (value_rank b)"
  by (simp_all add: int_kernels_def)

lemma int_kernels_ordered: "kernels_ordered int_kernels"
  by (auto simp: kernels_ordered_def int_kernels_def cmp_lin_def)

definition id_schema :: Schema where
  "id_schema = [\<lparr>f_name = ''id'', f_type = DtInt64, f_nullable = False\<rparr>]"

definition id_group :: "ParquetStatistics option \<Rightarrow> int \<Rightarrow> RowGroupMetaData" where
  "id_group st n = \<lparr>rg_num_rows = n, rg_chunks = [([''id''], st)]\<rparr>"

definition id_batch :: "int list \<Rightarrow> batch" where
  "id_batch ns = \<lparr>b_ptr = 0, b_schema = id_schema, b_rows = map (\<lambda>n. [VInt n]) ns\<rparr>"

lemmas sample_pruning = id_schema_def id_group_def id_batch_def int_kernels_def ff_eq_def col_cmp_def
  file_should_include_def file_pruner_new_def from_parquet_metadata_def schemable_filter_def field_of_def
  cast_value_def List.map_filter_simps statistics_container_new_def from_row_group_def chunk_step_def
  merge_columns_def column_statistics_merge_def merge_bound_def ensure_field_def can_prune_by_filter_def
  can_prune_eq_def is_less_than_def is_greater_than_def from_parquet_statistics_def int64_to_array_def
  parquet_stats_to_min_max_arrays_def column_statistics_new_def is_multi_value_def value_rank_def
  scalar_test_def kernel_cell_def cmp_test_def

lemma parse_50: "parse_sint 64 ''50'' = Some 50" by code_simp

definition sample_metadata :: "ParquetStatistics option \<Rightarrow> ParquetMetaData" where
  "sample_metadata st = \<lparr>pm_num_rows = 3, pm_row_groups =
     [id_group (Some (PqInt64 (Some 1) (Some 9))) 2, id_group st 1]\<rparr>"

lemma id_pruner: "file_pruner_new int_kernels [ff_eq ''id'' ''50''] id_schema [] =
    \<lparr>fp_and_filters = [\<lparr>sf_field = hd id_schema, sf_operator = OpEq, sf_values = [(DtInt64, VInt 50)]\<rparr>]\<rparr>"
  by (simp add: sample_pruning parse_50)

lemma id_column: "column_by_name (id_batch ns) ''id'' = Some (DtInt64, map VInt ns)"
  by (simp add: column_by_name_def id_batch_def id_schema_def field_of_def column_of_def)

lemma id_batch_parts: "b_schema (id_batch ns) = id_schema" "length (b_rows (id_batch ns)) = length ns"
  by (simp_all add: id_batch_def)

lemma id_schemable: "schemable_filter int_kernels (ff_eq ''id'' ''50'') id_schema =
    Ok \<lparr>sf_field = hd id_schema, sf_operator = OpEq, sf_values = [(DtInt64, VInt 50)]\<rparr>"
  by (simp add: sample_pruning parse_50)

lemma ff_eq_field: "fl_field (ff_eq n v) = n"
  by (simp add: ff_eq_def col_cmp_def)

lemma id_mask: "filters_to_row_mask int_kernels [ff_eq ''id'' ''50''] (id_batch ns) =
    Ok (map (\<lambda>n. Some (n = 50)) ns)"
  by (simp add: filters_to_row_mask_def mask_step_def id_column ff_eq_field id_batch_parts id_schemable
      apply_comparison_def is_multi_value_def arrow_cmp_def kernel_cell_def cmp_test_def value_rank_def
      int_kernels_parts)

lemma id_group_stats: "sc_columns (from_row_group (id_group st k) id_schema) ''id'' =
    Some (case st of None \<Rightarrow> column_statistics_new ''id'' DtInt64 | Some p \<Rightarrow> from_parquet_statistics ''id'' DtInt64 p)"
  by (simp add: from_row_group_def statistics_container_new_def id_group_def chunk_step_def id_schema_def
      field_of_def split: option.splits)

lemma id_covers:
  assumes "\<forall>n\<in>set ns. sint a \<le> n \<and> n \<le> sint z"
  shows "group_covers int_kernels id_schema ''id'' (id_group (Some (PqInt64 (Some a) (Some z))) k) (id_batch ns)"
  using assms by (simp add: group_covers_def id_group_stats id_column id_batch_parts bounds_typed_def covers_def
      from_parquet_statistics_def parquet_stats_to_min_max_arrays_def int64_to_array_def not_above_def
      int_kernels_def value_rank_def not_less)

lemma id_stats_prune:
  "file_should_include int_kernels (file_pruner_new int_kernels [ff_eq ''id'' ''50''] id_schema [])
     (from_parquet_metadata int_kernels (sample_metadata (Some (PqInt64 (Some 3) (Some 12)))) id_schema) = Ok False"
  unfolding id_pruner
  by (simp add: sample_pruning sample_metadata_def)

theorem pruned_file_has_no_matching_row_witness:
  "file_should_include int_kernels (file_pruner_new int_kernels [ff_eq ''id'' ''50''] id_schema [])
     (from_parquet_metadata int_kernels (sample_metadata (Some (PqInt64 (Some 3) (Some 12)))) id_schema) = Ok False \<and>
   filters_to_row_mask int_kernels [ff_eq ''id'' ''50''] (id_batch [3, 12]) = Ok (map (\<lambda>n. Some (n = (50::int))) [3, 12]) \<and>
   map (\<lambda>n. Some (n = (50::int))) [3, 12] ! 1 \<noteq> Some True"
proof (intro conjI id_stats_prune id_mask)
  show "map (\<lambda>n. Some (n = (50::int))) [3, 12] ! 1 \<noteq> Some True"
    by (rule pruned_file_has_no_matching_row [OF int_kernels_ordered _ id_stats_prune, of "[id_batch [1, 9], id_batch [3, 12]]"
        "id_batch [3, 12]"])
      (simp_all add: id_mask sample_metadata_def id_covers ff_eq_field id_batch_parts)
qed

text \<open>A row group without statistics does not widen the bounds of the file, so the statistics of
  the file are those of the other row groups: a filter on a value that only the row group
  without statistics holds prunes the file.\<close>

theorem missing_statistics_prune_matching_row:
  "file_should_include int_kernels (file_pruner_new int_kernels [ff_eq ''id'' ''50''] id_schema [])
     (from_parquet_metadata int_kernels (sample_metadata None) id_schema) = Ok False \<and>
   filters_to_row_mask int_kernels [ff_eq ''id'' ''50''] (id_batch [50]) = Ok [Some True]"
proof
  show "file_should_include int_kernels (file_pruner_new int_kernels [ff_eq ''id'' ''50''] id_schema [])
     (from_parquet_metadata int_kernels (sample_metadata None) id_schema) = Ok False"
    unfolding id_pruner by (simp add: sample_pruning sample_metadata_def)
qed (simp add: id_mask)

end
