(* ===== verification/Partition_Pruning.thy ===== *)
theory Partition_Pruning
  imports Keygen_Facts File_Pruning
begin

text \<open>
  Partition pruning (\<open>table/partition.rs\<close>): which partition paths a query reads. A partition path
  is split into one value per partition field, or, under a timestamp-based key generator, taken
  whole; the filters on those fields decide. Percent-decoding (with the check for UTF-8) is a
  parameter. The theorems show that a partition that is left out has no row that matches.
\<close>

section \<open>Configuration and construction\<close>

definition project_partition_schema :: "Schema \<Rightarrow> string list \<Rightarrow> Schema result" where
  "project_partition_schema table_schema partition_field_names =
     res_map (\<lambda>n. ok_or SchemaError (field_of table_schema n)) partition_field_names"

text \<open>What the pruner reads of \<open>HudiConfigs\<close>.\<close>

record partition_configs =
  pc_partition_fields :: "string list"
  pc_key_generator_class :: "string option"
  pc_key_generator_type :: "string option"
  pc_is_hive_style :: bool
  pc_is_url_encoded :: bool
  pc_options :: "string \<Rightarrow> string option"

definition is_table_partitioned :: "partition_configs \<Rightarrow> bool" where
  "is_table_partitioned cfg \<longleftrightarrow> pc_partition_fields cfg \<noteq> [] \<and>
     pc_key_generator_class cfg \<noteq> Some ''org.apache.hudi.keygen.NonpartitionedKeyGenerator'' \<and>
     \<not> (case pc_key_generator_type cfg of None \<Rightarrow> False
        | Some t \<Rightarrow> map ascii_upper t = ''NON_PARTITION'' \<or> map ascii_upper t = ''NON_PARTITION_AVRO'')"

record PartitionPruner =
  pp_schema :: Schema
  pp_is_hive_style :: bool
  pp_is_url_encoded :: bool
  pp_is_partitioned :: bool
  pp_and_filters :: "SchemableFilter list"

definition apply_transformer_to_filters :: "(Filter \<Rightarrow> Filter list result) \<Rightarrow> Filter list \<Rightarrow> Filter list result" where
  "apply_transformer_to_filters transform fs =
     res_fold (\<lambda>acc f. res_bind (transform f) (\<lambda>gs. Ok (acc @ gs))) [] fs"

text \<open>Without a key generator that the configuration describes, the filters stay as they are.\<close>

definition transform_filters_for_keygen :: "keygen_chrono \<Rightarrow> (string \<Rightarrow> bool) \<Rightarrow> partition_configs \<Rightarrow>
    Filter list \<Rightarrow> Filter list result" where
  "transform_filters_for_keygen kc tz_known cfg fs =
     (if is_timestamp_based_keygen (pc_key_generator_class cfg) (pc_key_generator_type cfg)
      then (case from_configs tz_known (pc_partition_fields cfg) (pc_is_hive_style cfg) (pc_options cfg) of
          Inr kg \<Rightarrow> apply_transformer_to_filters (transform_filter kc kg) fs
        | Inl _ \<Rightarrow> Ok fs)
      else Ok fs)"

text \<open>Filters that name no field of the schema, or whose values do not cast, are dropped.\<close>

definition schemable_filters :: "arrow_kernels \<Rightarrow> Schema \<Rightarrow> Filter list \<Rightarrow> SchemableFilter list" where
  "schemable_filters ak s fs =
     List.map_filter (\<lambda>f. case schemable_filter ak f s of Inl _ \<Rightarrow> None | Inr sf \<Rightarrow> Some sf) fs"

definition partition_pruner_new :: "keygen_chrono \<Rightarrow> (string \<Rightarrow> bool) \<Rightarrow> arrow_kernels \<Rightarrow> Filter list \<Rightarrow>
    Schema \<Rightarrow> partition_configs \<Rightarrow> PartitionPruner result" where
  "partition_pruner_new kc tz_known ak fs s cfg =
     res_bind (transform_filters_for_keygen kc tz_known cfg fs) (\<lambda>transformed.
       Ok \<lparr>pp_schema = s, pp_is_hive_style = pc_is_hive_style cfg, pp_is_url_encoded = pc_is_url_encoded cfg,
         pp_is_partitioned = is_table_partitioned cfg, pp_and_filters = schemable_filters ak s transformed\<rparr>)"

definition partition_pruner_empty :: PartitionPruner where
  "partition_pruner_empty = \<lparr>pp_schema = [], pp_is_hive_style = False, pp_is_url_encoded = False,
     pp_is_partitioned = False, pp_and_filters = []\<rparr>"

definition partition_pruner_is_empty :: "PartitionPruner \<Rightarrow> bool" where
  "partition_pruner_is_empty pp \<longleftrightarrow> pp_and_filters pp = []"

section \<open>The segments of a path\<close>

definition parse_segment :: "arrow_kernels \<Rightarrow> bool \<Rightarrow> Field \<Rightarrow> string \<Rightarrow> (string \<times> scalar) result" where
  "parse_segment ak hive field part =
     res_bind (if hive
        then res_bind (ok_or InvalidPartitionPath (split_once (CHR ''='') part)) (\<lambda>(n, v).
          if n \<noteq> f_name field then Err InvalidPartitionPath else Ok v)
        else Ok part) (\<lambda>v.
     res_bind (cast_value ak v (f_type field)) (\<lambda>x. Ok (f_name field, x)))"

text \<open>The \<open>HashMap\<close> collected from the segments keeps the last of two with one name.\<close>

definition parse_segments :: "(string \<Rightarrow> string result) \<Rightarrow> arrow_kernels \<Rightarrow> PartitionPruner \<Rightarrow> string \<Rightarrow>
    (string \<Rightarrow> scalar option) result" where
  "parse_segments percent_decode ak pp partition_path =
     res_bind (if pp_is_url_encoded pp then percent_decode partition_path else Ok partition_path) (\<lambda>path.
       if map f_name (pp_schema pp) = [PARTITION_PATH_FIELD] then
         res_bind (cast_value ak path DtUtf8) (\<lambda>x. Ok [PARTITION_PATH_FIELD \<mapsto> x])
       else
         (let parts = split_on (CHR ''/'') path in
          if length parts \<noteq> length (pp_schema pp) then Err InvalidPartitionPath
          else res_bind (res_map (\<lambda>(field, part). parse_segment ak (pp_is_hive_style pp) field part)
            (zip (pp_schema pp) parts)) (\<lambda>kvs. Ok (map_of (rev kvs)))))"

text \<open>The strict cast yields no null, so the comparison of a segment yields a bit; \<open>value(0)\<close> of a
  null cell would be whatever bit the buffer holds, here false.\<close>

definition segment_passes :: "arrow_kernels \<Rightarrow> (string \<Rightarrow> scalar option) \<Rightarrow> SchemableFilter \<Rightarrow> bool result" where
  "segment_passes ak segments f =
     (case segments (f_name (sf_field f)) of
        None \<Rightarrow> Ok True
      | Some x \<Rightarrow> (case apply_comparison ak f (fst x) [snd x] of
          Inl e \<Rightarrow> if e = Panic then Err Panic else Ok True
        | Inr m \<Rightarrow> Ok (hd m = Some True)))"

text \<open>A path that does not parse is included. \<open>all\<close> stops at the first filter that fails.\<close>

fun all_pass :: "('a \<Rightarrow> bool result) \<Rightarrow> 'a list \<Rightarrow> bool result" where
  "all_pass p [] = Ok True"
| "all_pass p (x # xs) = res_bind (p x) (\<lambda>b. if b then all_pass p xs else Ok False)"

definition partition_should_include :: "(string \<Rightarrow> string result) \<Rightarrow> arrow_kernels \<Rightarrow> PartitionPruner \<Rightarrow>
    string \<Rightarrow> bool result" where
  "partition_should_include percent_decode ak pp partition_path =
     (case parse_segments percent_decode ak pp partition_path of
        Inl _ \<Rightarrow> Ok True
      | Inr segments \<Rightarrow> all_pass (segment_passes ak segments) (pp_and_filters pp))"

section \<open>A partition left out\<close>

lemma all_pass_False: "all_pass p xs = Inr False \<Longrightarrow> \<exists>x\<in>set xs. p x = Inr False"
  by (induction xs) (auto simp: res_bind_Inr_iff split: if_splits)

lemma all_pass_True: "(\<And>x. x \<in> set xs \<Longrightarrow> p x = Inr True) \<Longrightarrow> all_pass p xs = Inr True"
  by (induction xs) auto

lemma res_bind_Inl_iff: "res_bind m f = Inl e \<longleftrightarrow> m = Inl e \<or> (\<exists>x. m = Inr x \<and> f x = Inl e)"
  by (cases m) auto

lemma schemable_filters_mem: "sf \<in> set (schemable_filters ak s fs) \<longleftrightarrow> (\<exists>f\<in>set fs. schemable_filter ak f s = Inr sf)"
proof -
  have "set (List.map_filter h xs) = {y. \<exists>x\<in>set xs. h x = Some y}" for h :: "Filter \<Rightarrow> SchemableFilter option" and xs
    by (induction xs) (auto simp: List.map_filter_simps split: option.splits)
  moreover have "(case r of Inl _ \<Rightarrow> None | Inr sf' \<Rightarrow> Some sf') = Some sf \<longleftrightarrow> r = Inr sf" for r :: "SchemableFilter result"
    by (cases r) auto
  ultimately show ?thesis by (simp add: schemable_filters_def)
qed

text \<open>The strict cast never yields a null.\<close>

definition strict_cast :: "arrow_kernels \<Rightarrow> bool" where
  "strict_cast ak \<longleftrightarrow> (\<forall>v t. ak_cast ak v t \<noteq> Inr VNull)"

lemma res_map_values: "res_map f xs = Inr ys \<Longrightarrow> y \<in> set ys \<Longrightarrow> \<exists>x\<in>set xs. f x = Inr y"
  by (induction xs arbitrary: ys) (auto simp: res_bind_Inr_iff)

lemma res_map_length: "res_map f xs = Inr ys \<Longrightarrow> length ys = length xs"
  by (induction xs arbitrary: ys) (auto simp: res_bind_Inr_iff)

lemma schemable_values:
  assumes "strict_cast ak" "schemable_filter ak f s = Inr sf" "x \<in> set (sf_values sf)"
  shows "snd x \<noteq> VNull"
proof -
  obtain field :: Field and vs where "res_map (\<lambda>v. cast_value ak v (f_type field)) (fl_values f) = Inr vs" "sf_values sf = vs"
    using assms(2) by (auto simp: schemable_filter_def res_bind_Inr_iff)
  then obtain v where "cast_value ak v (f_type field) = Inr x" using res_map_values assms(3) by metis
  then show ?thesis using assms(1) by (auto simp: cast_value_def strict_cast_def split: sum.splits)
qed

lemma schemable_parts:
  "schemable_filter ak f s = Inr sf \<Longrightarrow> field_of s (fl_field f) = Some (sf_field sf) \<and>
     sf_operator sf = fl_operator f \<and> length (sf_values sf) = length (fl_values f)"
  by (auto simp: schemable_filter_def res_bind_Inr_iff res_map_length)

text \<open>A comparison over one cell without nulls keeps a cell that passes.\<close>

lemma in_fold_keeps:
  "res_fold (\<lambda>acc x. res_bind (arrow_cmp ak OpEq t [v] x) (\<lambda>c. Ok (map2 bool_or acc c))) [Some b] vs = Inr m \<Longrightarrow>
   v \<noteq> VNull \<Longrightarrow> \<forall>x\<in>set vs. snd x \<noteq> VNull \<Longrightarrow>
   m = [Some (b \<or> (\<exists>x\<in>set vs. cmp_test OpEq (ak_cmp ak t v (snd x))))]"
proof (induction vs arbitrary: b)
  case (Cons x vs)
  let ?b = "cmp_test OpEq (ak_cmp ak t v (snd x))"
  obtain c where c: "arrow_cmp ak OpEq t [v] x = Inr c"
    "res_fold (\<lambda>acc x. res_bind (arrow_cmp ak OpEq t [v] x) (\<lambda>c. Ok (map2 bool_or acc c))) (map2 bool_or [Some b] c) vs = Inr m"
    using Cons.prems(1) by (auto simp: res_bind_Inr_iff)
  have "c = [Some ?b]" using c(1) Cons.prems(2,3) by (simp add: arrow_cmp_Ok kernel_cell_def)
  then show ?case using Cons.IH [of "b \<or> ?b"] c(2) Cons.prems(2,3) by (simp add: bool_or_def disj_assoc)
qed simp

lemma not_in_fold_keeps:
  "res_fold (\<lambda>acc x. res_bind (arrow_cmp ak OpNe t [v] x) (\<lambda>c. Ok (map2 bool_and acc c))) [Some b] vs = Inr m \<Longrightarrow>
   v \<noteq> VNull \<Longrightarrow> \<forall>x\<in>set vs. snd x \<noteq> VNull \<Longrightarrow>
   m = [Some (b \<and> (\<forall>x\<in>set vs. cmp_test OpNe (ak_cmp ak t v (snd x))))]"
proof (induction vs arbitrary: b)
  case (Cons x vs)
  let ?b = "cmp_test OpNe (ak_cmp ak t v (snd x))"
  obtain c where c: "arrow_cmp ak OpNe t [v] x = Inr c"
    "res_fold (\<lambda>acc x. res_bind (arrow_cmp ak OpNe t [v] x) (\<lambda>c. Ok (map2 bool_and acc c))) (map2 bool_and [Some b] c) vs = Inr m"
    using Cons.prems(1) by (auto simp: res_bind_Inr_iff)
  have "c = [Some ?b]" using c(1) Cons.prems(2,3) by (simp add: arrow_cmp_Ok kernel_cell_def)
  then show ?case using Cons.IH [of "b \<and> ?b"] c(2) Cons.prems(2,3) by (simp add: bool_and_def conj_assoc)
qed simp

lemma apply_comparison_keeps:
  assumes "apply_comparison ak f t [v] = Inr m" "v \<noteq> VNull" "\<forall>x\<in>set (sf_values f). snd x \<noteq> VNull" "cell_passes ak f t v"
  shows "hd m = Some True"
proof -
  obtain x xs where vs: "sf_values f = x # xs"
    using assms(1) by (cases "sf_values f") (auto simp: apply_comparison_def)
  have x: "snd x \<noteq> VNull" "\<forall>y\<in>set xs. snd y \<noteq> VNull" using assms(3) vs by simp_all
  consider "\<not> is_multi_value (sf_operator f)" | "sf_operator f = OpIn" | "sf_operator f = OpNotIn"
    by (auto simp: is_multi_value_def)
  then show ?thesis
  proof cases
    case 1
    then show ?thesis using assms(1,2,4) vs
      by (auto simp: apply_comparison_def arrow_cmp_Ok cell_passes_def kernel_cell_def is_multi_value_def)
  next
    case 2
    then show ?thesis using assms(1,2,4) vs x
      by (fastforce simp: apply_comparison_def is_multi_value_def res_bind_Inr_iff arrow_cmp_Ok cell_passes_def
          kernel_cell_def dest!: in_fold_keeps)
  next
    case 3
    then show ?thesis using assms(1,2,4) vs x
      by (auto simp: apply_comparison_def is_multi_value_def res_bind_Inr_iff arrow_cmp_Ok cell_passes_def kernel_cell_def
          dest!: not_in_fold_keeps)
  qed
qed

lemma apply_comparison_no_panic:
  assumes "sf_values f \<noteq> []"
  shows "apply_comparison ak f t col \<noteq> Inl Panic"
proof -
  have one: "arrow_cmp ak o1 t col x \<noteq> Inl Panic" for o1 x by (simp add: arrow_cmp_def)
  have fold: "res_fold (\<lambda>acc x. res_bind (arrow_cmp ak o1 t col x) (\<lambda>c. Ok (g acc c))) r xs \<noteq> Inl Panic"
    for o1 and g :: "bool option list \<Rightarrow> bool option list \<Rightarrow> bool option list" and r xs
    by (induction xs arbitrary: r) (simp_all add: arrow_cmp_def)
  obtain x xs where "sf_values f = x # xs" using assms by (cases "sf_values f") auto
  then show ?thesis using one fold by (auto simp: apply_comparison_def Let_def res_bind_Inl_iff)
qed

text \<open>What a partition's value must do for a filter not to exclude it.\<close>

lemma segment_kept:
  assumes "strict_cast ak" "schemable_filter ak f s = Inr sf" "fl_values f \<noteq> []"
    and "\<And>x. segments (fl_field f) = Some x \<Longrightarrow> snd x \<noteq> VNull \<and> cell_passes ak sf (fst x) (snd x)"
  shows "segment_passes ak segments sf = Inr True"
proof -
  have n: "f_name (sf_field sf) = fl_field f" "sf_values sf \<noteq> []"
    using schemable_parts [OF assms(2)] assms(3) by (auto simp: field_of_def find_Some_iff)
  show ?thesis
  proof (cases "segments (fl_field f)")
    case (Some x)
    note x = assms(4) [OF Some]
    show ?thesis
    proof (cases "apply_comparison ak sf (fst x) [snd x]")
      case (Inl e)
      then show ?thesis using apply_comparison_no_panic [OF n(2)] Some n by (auto simp: segment_passes_def)
    next
      case (Inr m)
      then show ?thesis using apply_comparison_keeps [OF Inr] x schemable_values [OF assms(1,2)] Some n
        by (auto simp: segment_passes_def)
    qed
  qed (simp add: segment_passes_def n)
qed

section \<open>Partitions by column values\<close>

text \<open>The path of a partition from the text of each field.\<close>

definition partition_path_of :: "bool \<Rightarrow> Schema \<Rightarrow> string list \<Rightarrow> string" where
  "partition_path_of hive s texts =
     join_with ''/'' (map2 (\<lambda>field v. if hive then f_name field @ ''='' @ v else v) s texts)"

lemma parse_segment_of:
  assumes "hive \<longrightarrow> CHR ''='' \<notin> set (f_name field)"
  shows "parse_segment ak hive field (if hive then f_name field @ ''='' @ v else v) =
    res_bind (cast_value ak v (f_type field)) (\<lambda>x. Ok (f_name field, x))"
  using assms by (auto simp: parse_segment_def)

lemma path_of_splits:
  assumes "s \<noteq> []" "length texts = length s"
    and "\<forall>field\<in>set s. CHR ''/'' \<notin> set (f_name field)" "\<forall>v\<in>set texts. CHR ''/'' \<notin> set v"
  shows "split_on (CHR ''/'') (partition_path_of hive s texts) =
    map2 (\<lambda>field v. if hive then f_name field @ ''='' @ v else v) s texts"
  unfolding partition_path_of_def
proof (rule split_on_join)
  show "map2 (\<lambda>field v. if hive then f_name field @ ''='' @ v else v) s texts \<noteq> []"
    using assms(1,2) by (cases s; cases texts) auto
next
  fix part
  assume "part \<in> set (map2 (\<lambda>field v. if hive then f_name field @ ''='' @ v else v) s texts)"
  then obtain field v where "(field, v) \<in> set (zip s texts)" "part = (if hive then f_name field @ ''='' @ v else v)"
    by auto
  moreover from this(1) have "field \<in> set s" "v \<in> set texts" by (rule set_zip_leftD, rule set_zip_rightD)
  ultimately show "CHR ''/'' \<notin> set part" using assms(3,4) by auto
qed

text \<open>Each parsed segment is the cast text of its field.\<close>

lemma parse_segments_of:
  assumes "s \<noteq> []" "map f_name s \<noteq> [PARTITION_PATH_FIELD]" "length texts = length s"
    and "\<forall>field\<in>set s. CHR ''/'' \<notin> set (f_name field) \<and> CHR ''='' \<notin> set (f_name field)"
    and "\<forall>v\<in>set texts. CHR ''/'' \<notin> set v"
    and "pp_schema pp = s" "pp_is_hive_style pp = hive"
    and "(if pp_is_url_encoded pp then percent_decode path else Ok path) = Ok (partition_path_of hive s texts)"
    and "parse_segments percent_decode ak pp path = Ok segments" "segments n = Some x"
  shows "\<exists>i<length s. f_name (s ! i) = n \<and> fst x = f_type (s ! i) \<and> ak_cast ak (texts ! i) (f_type (s ! i)) = Ok (snd x)"
proof -
  let ?parts = "map2 (\<lambda>field v. if hive then f_name field @ ''='' @ v else v) s texts"
  have split: "split_on (CHR ''/'') (partition_path_of hive s texts) = ?parts"
    using assms(1,3-5) by (intro path_of_splits) auto
  obtain kvs where kvs: "segments = map_of (rev kvs)"
    "list_all2 (\<lambda>x y. (case x of (field, part) \<Rightarrow> parse_segment ak hive field part) = Inr y) (zip s ?parts) kvs"
    using assms(2,3,6-9) split by (auto simp: parse_segments_def res_bind_Inr_iff res_map_Inr_iff Let_def split: if_splits)
  have "(n, x) \<in> set kvs" using assms(10) kvs(1) by (auto dest: map_of_SomeD)
  then obtain i where i: "i < length kvs" "kvs ! i = (n, x)" by (auto simp: in_set_conv_nth)
  then have len: "i < length s" using list_all2_lengthD [OF kvs(2)] assms(3) by simp
  have "parse_segment ak hive (s ! i) (if hive then f_name (s ! i) @ ''='' @ texts ! i else texts ! i) = Inr (n, x)"
    using list_all2_nthD2 [OF kvs(2) i(1)] i(2) len assms(3) by simp
  then show ?thesis
    using parse_segment_of [of hive "s ! i" ak "texts ! i"] assms(4) len
    by (auto simp: res_bind_Inr_iff cast_value_def split: sum.splits)
qed

text \<open>C22: a partition with a matching row is read: when the values of a partition, one per
  partition field, pass every filter on those fields, the pruner includes the partition's path,
  hive-style or not, percent-encoded or not.\<close>

theorem matching_partition_included:
  assumes "strict_cast ak" "partition_pruner_new kc tz_known ak fs s cfg = Ok pp"
    and "\<not> is_timestamp_based_keygen (pc_key_generator_class cfg) (pc_key_generator_type cfg)"
    and "s \<noteq> []" "map f_name s \<noteq> [PARTITION_PATH_FIELD]"
    and "\<forall>field\<in>set s. CHR ''/'' \<notin> set (f_name field) \<and> CHR ''='' \<notin> set (f_name field)"
    and "length texts = length s" "\<forall>v\<in>set texts. CHR ''/'' \<notin> set v"
    and "(if pc_is_url_encoded cfg then percent_decode path else Ok path) =
      Ok (partition_path_of (pc_is_hive_style cfg) s texts)"
    and "\<forall>i<length s. ak_cast ak (texts ! i) (f_type (s ! i)) = Ok (vals ! i)"
    and "\<forall>f\<in>set fs. fl_values f \<noteq> [] \<and> (\<forall>sf i. schemable_filter ak f s = Ok sf \<longrightarrow> i < length s \<longrightarrow>
      f_name (s ! i) = fl_field f \<longrightarrow> cell_passes ak sf (f_type (s ! i)) (vals ! i))"
  shows "partition_should_include percent_decode ak pp path = Ok True"
proof (cases "parse_segments percent_decode ak pp path")
  case (Inr segments)
  have pp: "pp_schema pp = s" "pp_is_hive_style pp = pc_is_hive_style cfg" "pp_is_url_encoded pp = pc_is_url_encoded cfg"
    "pp_and_filters pp = schemable_filters ak s fs"
    using assms(2,3) by (auto simp: partition_pruner_new_def transform_filters_for_keygen_def)
  have "segment_passes ak segments sf = Inr True" if sf: "sf \<in> set (pp_and_filters pp)" for sf
  proof -
    obtain f where f: "f \<in> set fs" "schemable_filter ak f s = Inr sf" using sf pp(4) schemable_filters_mem by auto
    show ?thesis
    proof (rule segment_kept [OF assms(1) f(2)])
      show "fl_values f \<noteq> []" using assms(11) f(1) by blast
      fix x
      assume "segments (fl_field f) = Some x"
      then obtain i where "i < length s" "f_name (s ! i) = fl_field f" "fst x = f_type (s ! i)"
        "ak_cast ak (texts ! i) (f_type (s ! i)) = Ok (snd x)"
        using parse_segments_of [OF assms(4,5,7,6,8) pp(1,2) _ Inr] assms(9) pp(3) by (metis (no_types, lifting))
      moreover from this(1,4) have "vals ! i = snd x" using assms(10) by simp
      ultimately have "cell_passes ak sf (fst x) (snd x)" using assms(11) f by metis
      then show "snd x \<noteq> VNull \<and> cell_passes ak sf (fst x) (snd x)" by (auto simp: cell_passes_def)
    qed
  qed
  then show ?thesis using Inr all_pass_True [of "pp_and_filters pp" "segment_passes ak segments"] by (simp add: partition_should_include_def)
qed (simp add: partition_should_include_def)

section \<open>Partitions by timestamp\<close>

text \<open>How the instant of a row stands to the instant of a filter's value.\<close>

definition instant_test :: "ExprOperator \<Rightarrow> int \<Rightarrow> int \<Rightarrow> bool" where
  "instant_test o1 t tv = cmp_test o1 (cmp_lin t tv)"

definition instant_matches :: "keygen_chrono \<Rightarrow> TimestampBasedKeyGenerator \<Rightarrow> Filter \<Rightarrow> int \<Rightarrow> bool" where
  "instant_matches kc kg f t \<longleftrightarrow>
     (if fl_operator f = OpIn then \<exists>v\<in>set (fl_values f). \<exists>tv. parse_timestamp kc kg v = Ok tv \<and> instant_test OpEq t tv
      else if fl_operator f = OpNotIn then \<forall>v\<in>set (fl_values f). \<exists>tv. parse_timestamp kc kg v = Ok tv \<and> instant_test OpNe t tv
      else fl_values f \<noteq> [] \<and> (\<exists>tv. parse_timestamp kc kg (hd (fl_values f)) = Ok tv \<and> instant_test (fl_operator f) t tv))"

text \<open>Strings cast to themselves and compare by their bytes.\<close>

definition string_kernels :: "arrow_kernels \<Rightarrow> bool" where
  "string_kernels ak \<longleftrightarrow> ak_comparable ak DtUtf8 DtUtf8 \<and>
     (\<forall>v. ak_cast ak v DtUtf8 = Ok (VStr v)) \<and> (\<forall>a b. ak_cmp ak DtUtf8 (VStr a) (VStr b) = cmp_lin a b)"

definition path_schema :: Schema where
  "path_schema = [\<lparr>f_name = PARTITION_PATH_FIELD, f_type = DtUtf8, f_nullable = False\<rparr>]"

lemma path_filter:
  "string_kernels ak \<Longrightarrow> schemable_filter ak f path_schema =
     (if fl_field f = PARTITION_PATH_FIELD then Ok \<lparr>sf_field = hd path_schema, sf_operator = fl_operator f,
        sf_values = map (\<lambda>v. (DtUtf8, VStr v)) (fl_values f)\<rparr> else Err SchemaError)"
  by (auto simp: schemable_filter_def path_schema_def field_of_def string_kernels_def cast_value_def res_map_pure)

lemma path_segments:
  assumes "string_kernels ak" "pp_schema pp = path_schema"
    and "(if pp_is_url_encoded pp then percent_decode enc else Ok enc) = Ok path"
  shows "parse_segments percent_decode ak pp enc = Ok [PARTITION_PATH_FIELD \<mapsto> (DtUtf8, VStr path)]"
  using assms by (simp add: parse_segments_def path_schema_def cast_value_def string_kernels_def)

text \<open>The filter on the path that a filter on the source column becomes keeps the path of every
  instant that matches.\<close>

definition path_keeps :: "Filter \<Rightarrow> string \<Rightarrow> bool" where
  "path_keeps g path \<longleftrightarrow> fl_field g = PARTITION_PATH_FIELD \<and> fl_values g \<noteq> [] \<and>
     (if fl_operator g = OpIn then path \<in> set (fl_values g) else fl_operator g \<noteq> OpNotIn \<and>
        cmp_test (fl_operator g) (cmp_lin path (hd (fl_values g))))"

text \<open>Range filters need a format in the order of time and a calendar to match.\<close>

definition range_safe :: "keygen_chrono \<Rightarrow> TimestampBasedKeyGenerator \<Rightarrow> bool" where
  "range_safe kc kg \<longleftrightarrow> year_down kg \<and> calendar_ordered kc (kg_output_timezone kg)"

abbreviation fits :: "keygen_chrono \<Rightarrow> TimestampBasedKeyGenerator \<Rightarrow> int \<Rightarrow> bool" where
  "fits kc kg t \<equiv> civil_fits (kc_civil kc (kg_output_timezone kg) t)"

lemma transformed_keeps:
  assumes "transform_filter kc kg f = Ok gs" "fl_field f = kg_source_field kg"
    and "instant_matches kc kg f t" "format_partition_path kc kg t = Ok path" "g \<in> set gs"
    and "fl_operator f \<noteq> OpNe" "fl_operator f \<noteq> OpNotIn"
    and "fl_operator f \<in> {OpLt, OpLte, OpGt, OpGte} \<Longrightarrow> range_safe kc kg \<and> fits kc kg t \<and>
      (\<forall>tv. parse_timestamp kc kg (hd (fl_values f)) = Ok tv \<longrightarrow> fits kc kg tv)"
  shows "path_keeps g path"
proof (cases "fl_operator f = OpEq \<or> fl_operator f = OpIn")
  case True
  then show ?thesis
  proof
    assume op: "fl_operator f = OpEq"
    then obtain v vs where v: "fl_values f = v # vs" "parse_timestamp kc kg v = Ok t"
      using assms(3) by (cases "fl_values f")
        (auto simp: instant_matches_def instant_test_def cmp_test_def cmp_lin_def split: if_splits)
    then have "g = \<lparr>fl_field = PARTITION_PATH_FIELD, fl_operator = OpEq, fl_values = [path]\<rparr>"
      using assms(1,2,4,5) op by (auto simp: transform_filter_def first_value_def value_path_def)
    then show ?thesis by (simp add: path_keeps_def cmp_test_def cmp_lin_def)
  next
    assume op: "fl_operator f = OpIn"
    then obtain v where v: "v \<in> set (fl_values f)" "parse_timestamp kc kg v = Ok t"
      using assms(3) by (auto simp: instant_matches_def instant_test_def cmp_test_def cmp_lin_def split: if_splits)
    obtain paths where p: "list_all2 (\<lambda>v p. value_path kc kg v = Ok p) (fl_values f) paths"
      "g = \<lparr>fl_field = PARTITION_PATH_FIELD, fl_operator = OpIn, fl_values = paths\<rparr>"
      using assms(1,2,5) op by (auto simp: transform_filter_def is_multi_value_def res_bind_Inr_iff res_map_Inr_iff)
    have "path \<in> set paths"
      using p(1) v assms(4) by (induction rule: list_all2_induct) (auto simp: value_path_def)
    then show ?thesis using p(2) by (auto simp: path_keeps_def)
  qed
next
  case False
  then have range: "fl_operator f \<in> {OpLt, OpLte, OpGt, OpGte}" using assms(6,7) by (cases "fl_operator f") auto
  obtain v vs tv where v: "fl_values f = v # vs" "parse_timestamp kc kg v = Ok tv" "instant_test (fl_operator f) t tv"
    using assms(3) range by (cases "fl_values f") (auto simp: instant_matches_def split: if_splits)
  show ?thesis
  proof (cases "gs = []")
    case False
    then obtain pv where g: "format_partition_path kc kg tv = Ok pv"
      "g = \<lparr>fl_field = PARTITION_PATH_FIELD, fl_operator = (case fl_operator f of OpGt \<Rightarrow> OpGte | OpLt \<Rightarrow> OpLte | o1 \<Rightarrow> o1),
        fl_values = [pv]\<rparr>"
      using assms(1,2,5) range v(1,2)
      by (auto simp: transform_filter_def first_value_def value_path_def is_multi_value_def res_bind_Inr_iff
          split: if_splits)
    have safe: "year_down kg" "calendar_ordered kc (kg_output_timezone kg)" "fits kc kg t" "fits kc kg tv"
      using assms(8) [OF range] v by (auto simp: range_safe_def)
    have "t \<le> tv \<Longrightarrow> path \<le> pv" "tv \<le> t \<Longrightarrow> pv \<le> path"
      using paths_in_order [OF safe(1,2)] safe(3,4) assms(4) g(1) by blast+
    then show ?thesis using v(3) range g(2)
      by (auto simp: path_keeps_def instant_test_def cmp_test_def cmp_lin_def split: if_splits)
  qed (use assms(5) in simp)
qed

lemma kept_path_passes:
  assumes "string_kernels ak" "path_keeps g path" "schemable_filter ak g path_schema = Ok sf"
  shows "cell_passes ak sf DtUtf8 (VStr path)"
proof -
  have sf: "sf_operator sf = fl_operator g" "sf_values sf = map (\<lambda>v. (DtUtf8, VStr v)) (fl_values g)"
    using assms(3) by (auto simp: path_filter [OF assms(1)] split: if_splits)
  have cmp: "ak_cmp ak DtUtf8 (VStr a) (VStr b) = cmp_lin a b" for a b using assms(1) by (simp add: string_kernels_def)
  obtain v vs where v: "fl_values g = v # vs" using assms(2) by (cases "fl_values g") (simp_all add: path_keeps_def)
  show ?thesis
  proof (cases "fl_operator g = OpIn")
    case True
    then show ?thesis using assms(2) by (auto simp: cell_passes_def sf cmp path_keeps_def cmp_test_def cmp_lin_def)
  next
    case False
    then show ?thesis using assms(2) v by (simp add: cell_passes_def sf cmp path_keeps_def)
  qed
qed

lemma apply_transformer_mem:
  "apply_transformer_to_filters tr fs = Ok gs \<Longrightarrow> g \<in> set gs \<Longrightarrow> \<exists>f\<in>set fs. \<exists>hs. tr f = Ok hs \<and> g \<in> set hs"
proof -
  have "res_fold (\<lambda>acc f. res_bind (tr f) (\<lambda>gs. Ok (acc @ gs))) acc fs = Ok gs \<Longrightarrow> g \<in> set gs \<Longrightarrow>
      g \<in> set acc \<or> (\<exists>f\<in>set fs. \<exists>hs. tr f = Ok hs \<and> g \<in> set hs)" for acc
    by (induction fs arbitrary: acc) (auto simp: res_bind_Inr_iff, fastforce+)
  then show "apply_transformer_to_filters tr fs = Ok gs \<Longrightarrow> g \<in> set gs \<Longrightarrow> ?thesis"
    unfolding apply_transformer_to_filters_def by fastforce
qed

lemma string_kernels_strict: "string_kernels ak \<Longrightarrow> schemable_filter ak g path_schema = Ok sf \<Longrightarrow>
    x \<in> set (sf_values sf) \<Longrightarrow> snd x \<noteq> VNull"
  by (auto simp: path_filter split: if_splits)

text \<open>C23: under a timestamp-based key generator a partition with a matching row is read: when the
  instant of a row matches every filter on the source column, the
  pruner includes the path the key generator formats for the instant. The filters on that column are equalities, lists of
  values, or ranges whose format goes from the year down, with a calendar in the order of time and years that fit it
  (\<open>range_safe\<close>); for inequalities and excluded values, and for other formats, matching partitions
  can be pruned (\<open>inequality_prunes_matching_partition\<close>, \<open>yearless_format_prunes_matching_partition\<close>).\<close>

theorem matching_instant_included:
  assumes "strict_cast ak" "string_kernels ak" "partition_pruner_new kc tz_known ak fs path_schema cfg = Ok pp"
    and "is_timestamp_based_keygen (pc_key_generator_class cfg) (pc_key_generator_type cfg)"
    and "from_configs tz_known (pc_partition_fields cfg) (pc_is_hive_style cfg) (pc_options cfg) = Ok kg"
    and "format_partition_path kc kg t = Ok path"
    and "(if pc_is_url_encoded cfg then percent_decode enc else Ok enc) = Ok path"
    and "\<forall>f\<in>set fs. fl_field f \<noteq> PARTITION_PATH_FIELD"
    and "\<forall>f\<in>set fs. fl_field f = kg_source_field kg \<longrightarrow> instant_matches kc kg f t \<and>
      fl_operator f \<noteq> OpNe \<and> fl_operator f \<noteq> OpNotIn \<and>
      (fl_operator f \<in> {OpLt, OpLte, OpGt, OpGte} \<longrightarrow> range_safe kc kg \<and> fits kc kg t \<and>
        (\<forall>tv. parse_timestamp kc kg (hd (fl_values f)) = Ok tv \<longrightarrow> fits kc kg tv))"
  shows "partition_should_include percent_decode ak pp enc = Ok True"
proof -
  obtain gs where gs: "apply_transformer_to_filters (transform_filter kc kg) fs = Ok gs"
    "pp_and_filters pp = schemable_filters ak path_schema gs" "pp_schema pp = path_schema"
    "pp_is_url_encoded pp = pc_is_url_encoded cfg"
    using assms(3-5) by (auto simp: partition_pruner_new_def transform_filters_for_keygen_def res_bind_Inr_iff)
  let ?segments = "[PARTITION_PATH_FIELD \<mapsto> (DtUtf8, VStr path)]"
  have "segment_passes ak ?segments sf = Inr True" if sf: "sf \<in> set (pp_and_filters pp)" for sf
  proof -
    obtain g where g: "g \<in> set gs" "schemable_filter ak g path_schema = Inr sf"
      using sf gs(2) schemable_filters_mem by auto
    obtain f hs where f: "f \<in> set fs" "transform_filter kc kg f = Ok hs" "g \<in> set hs"
      using apply_transformer_mem [OF gs(1) g(1)] by blast
    have "fl_field g = PARTITION_PATH_FIELD" using g(2) assms(2) by (simp add: path_filter split: if_splits)
    then have "fl_field f = kg_source_field kg" using f assms(8) by (auto simp: transform_filter_def split: if_splits)
    then have keeps: "path_keeps g path" using transformed_keeps [OF f(2) _ _ assms(6) f(3)] assms(9) f(1) by blast
    show ?thesis
      using segment_kept [OF assms(1) g(2), of ?segments] keeps kept_path_passes [OF assms(2) keeps g(2)]
      by (auto simp: path_keeps_def split: if_splits)
  qed
  then show ?thesis
    using all_pass_True [of "pp_and_filters pp" "segment_passes ak ?segments"]
      path_segments [OF assms(2) gs(3), of percent_decode enc path] assms(7) gs(4)
    by (simp add: partition_should_include_def)
qed

section \<open>Samples\<close>

text \<open>A calendar of years of 100 days.\<close>

definition sample_calendar :: keygen_chrono where
  "sample_calendar = \<lparr>kc_from_timestamp = Some, kc_from_timestamp_millis = Some, kc_from_timestamp_micros = Some,
     kc_parse_offset = (\<lambda>_ _. None), kc_parse_naive = (\<lambda>_ _. None), kc_from_local = (\<lambda>_ _. None), kc_from_utc = id,
     kc_civil = (\<lambda>_ t. \<lparr>cv_year = t div 100, cv_month = nat (t mod 100 div 10), cv_day = nat (t mod 10),
       cv_hour = 0, cv_minute = 0, cv_second = 0\<rparr>)\<rparr>"

definition sample_options :: "string \<Rightarrow> string \<Rightarrow> string option" where
  "sample_options fmt = map_of [(CONFIG_PREFIX @ ''timestamp.type'', ''UNIX_TIMESTAMP''),
     (CONFIG_PREFIX @ ''output.dateformat'', fmt)]"

definition sample_partition_configs :: "string \<Rightarrow> partition_configs" where
  "sample_partition_configs fmt = \<lparr>pc_partition_fields = [''ts''], pc_key_generator_class = None,
     pc_key_generator_type = Some ''TIMESTAMP'', pc_is_hive_style = False, pc_is_url_encoded = False,
     pc_options = sample_options fmt\<rparr>"

definition sample_keygen :: "string \<Rightarrow> TimestampBasedKeyGenerator" where
  "sample_keygen fmt = \<lparr>kg_source_field = ''ts'', kg_timestamp_type = UnixTimestamp, kg_input_dateformat = None,
     kg_input_timezone = None, kg_scalar_time_unit = None, kg_output_dateformat = fmt,
     kg_output_timezone = ''UTC'', kg_is_hive_style = False, kg_partition_fields = parse_partition_fields fmt False\<rparr>"

lemma sample_from_configs:
  "from_configs (\<lambda>z. z = ''UTC'') [''ts''] False (sample_options fmt) = Ok (sample_keygen fmt)"
  by (simp add: from_configs_def sample_options_def get_config_value_with_alt_def resolve_option_with_alt_def
      CONFIG_PREFIX_def OLD_CONFIG_PREFIX_def timestamp_type_from_str_def ascii_upper_def sample_keygen_def Let_def)

definition text_kernels :: arrow_kernels where
  "text_kernels = \<lparr>ak_cast = (\<lambda>v t. Ok (VStr v)), ak_comparable = (=),
     ak_cmp = (\<lambda>t a b. cmp_lin (case a of VStr x \<Rightarrow> x | _ \<Rightarrow> []) (case b of VStr y \<Rightarrow> y | _ \<Rightarrow> []))\<rparr>"

lemma text_kernels_ok: "strict_cast text_kernels" "string_kernels text_kernels"
  unfolding strict_cast_def string_kernels_def text_kernels_def by simp_all

theorem matching_partition_included_witness:
  "partition_should_include Ok text_kernels \<lparr>pp_schema = [\<lparr>f_name = ''city'', f_type = DtUtf8, f_nullable = False\<rparr>],
     pp_is_hive_style = True, pp_is_url_encoded = False, pp_is_partitioned = True,
     pp_and_filters = [\<lparr>sf_field = \<lparr>f_name = ''city'', f_type = DtUtf8, f_nullable = False\<rparr>, sf_operator = OpNe,
       sf_values = [(DtUtf8, VStr ''bern'')]\<rparr>]\<rparr> ''city=oslo'' = Ok True"
  by (rule matching_partition_included [OF text_kernels_ok(1), where s = "[\<lparr>f_name = ''city'', f_type = DtUtf8, f_nullable = False\<rparr>]" and
      fs = "[ff_ne ''city'' ''bern'']" and texts = "[''oslo'']" and vals = "[VStr ''oslo'']" and kc = sample_calendar and
      tz_known = "\<lambda>_. True" and cfg = "\<lparr>pc_partition_fields = [''city''], pc_key_generator_class = None,
        pc_key_generator_type = None, pc_is_hive_style = True, pc_is_url_encoded = False, pc_options = Map.empty\<rparr>"])
    (auto simp: partition_pruner_new_def transform_filters_for_keygen_def is_timestamp_based_keygen_def
      is_table_partitioned_def schemable_filters_def List.map_filter_simps schemable_filter_def field_of_def ff_ne_def
      col_cmp_def text_kernels_def cast_value_def PARTITION_PATH_FIELD_def partition_path_of_def cell_passes_def cmp_test_def
      cmp_lin_def)

lemma div_mod_order: "x \<le> y \<Longrightarrow> 0 < n \<Longrightarrow> x div n < y div n \<or> x div n = y div n \<and> x mod n \<le> y mod (n::int)"
  using zdiv_mono1 [of x y n] div_mult_mod_eq [of x n] div_mult_mod_eq [of y n]
  by (metis add_le_cancel_left order_le_imp_less_or_eq)

lemma sample_civil: "civil_parts (kc_civil sample_calendar tz t) = [t div 100, t mod 100 div 10, t mod 10, 0, 0, 0]"
  by (simp add: civil_parts_def civil_part_def sample_calendar_def pos_imp_zdiv_nonneg_iff)

lemma sample_calendar_ordered: "calendar_ordered sample_calendar tz"
  unfolding calendar_ordered_def sample_civil
proof (intro allI impI)
  fix a b :: int
  assume "a \<le> b"
  from div_mod_order [OF this, of 100] div_mod_order [of "a mod 100" "b mod 100" 10]
  show "[a div 100, a mod 100 div 10, a mod 10, 0, 0, 0] \<le> [b div 100, b mod 100 div 10, b mod 10, 0, 0, 0]"
    by (auto simp: mod_mod_cancel)
qed

lemma digit_chars:
  "digit_char 0 = CHR ''0''" "digit_char 1 = CHR ''1''" "digit_char (Suc 0) = CHR ''1''" "digit_char 2 = CHR ''2''"
  "digit_char 3 = CHR ''3''" "digit_char 4 = CHR ''4''" "digit_char 5 = CHR ''5''" "digit_char 9 = CHR ''9''"
  by code_simp+

lemmas sample_path = format_partition_path_def sample_keygen_def sample_calendar_def segment_rendered seg_pieces_Cons
  TOKENS_def starts_with_def render_piece_def show_padded_def civil_part_def part_width_def show_nat.simps digit_chars

lemma sample_dates:
  "format_partition_path sample_calendar (sample_keygen ''yyyy/MM/dd'') 202345 = Ok ''2023/04/05''"
  "format_partition_path sample_calendar (sample_keygen ''yyyy'') 202345 = Ok ''2023''"
  "format_partition_path sample_calendar (sample_keygen ''yyyy'') 202301 = Ok ''2023''"
  "format_partition_path sample_calendar (sample_keygen ''MM/dd'') 202399 = Ok ''09/09''"
  "format_partition_path sample_calendar (sample_keygen ''MM/dd'') 202411 = Ok ''01/01''"
  by (simp_all add: sample_path)

lemma sample_stamps:
  "parse_timestamp sample_calendar (sample_keygen fmt) ''202301'' = Ok 202301"
  "parse_timestamp sample_calendar (sample_keygen fmt) ''202399'' = Ok 202399"
  by (simp_all add: parse_timestamp_def sample_keygen_def sample_calendar_def parse_i64_def parse_sint_def is_digit_def
      digit_val_def)

lemma sample_formats:
  "format_ranks ''yyyy/MM/dd'' = Ok [6, 5, 4]"
  "format_ranks ''yyyy'' = Ok [6]"
  "format_ranks ''MM/dd'' = Ok [5, 4]"
  by (simp_all add: format_ranks_Cons TOKENS_def starts_with_def is_char_boundary_def is_continuation_def
      format_ranks.simps [of "[]"])

definition path_pruner :: "ExprOperator \<Rightarrow> string \<Rightarrow> PartitionPruner" where
  "path_pruner o1 path = \<lparr>pp_schema = path_schema, pp_is_hive_style = False, pp_is_url_encoded = False,
     pp_is_partitioned = True, pp_and_filters = [\<lparr>sf_field = hd path_schema, sf_operator = o1,
       sf_values = [(DtUtf8, VStr path)]\<rparr>]\<rparr>"

lemma sample_keygen_parts: "kg_source_field (sample_keygen fmt) = ''ts''" "kg_output_dateformat (sample_keygen fmt) = fmt"
  "kg_output_timezone (sample_keygen fmt) = ''UTC''"
  by (simp_all add: sample_keygen_def)

lemma sample_configs:
  "pc_partition_fields (sample_partition_configs fmt) = [''ts'']" "pc_is_hive_style (sample_partition_configs fmt) = False"
  "pc_options (sample_partition_configs fmt) = sample_options fmt" "pc_is_url_encoded (sample_partition_configs fmt) = False"
  "pc_key_generator_class (sample_partition_configs fmt) = None"
  "pc_key_generator_type (sample_partition_configs fmt) = Some ''TIMESTAMP''"
  "is_table_partitioned (sample_partition_configs fmt)"
  "is_timestamp_based_keygen None (Some ''TIMESTAMP'')"
  by (simp_all add: sample_partition_configs_def is_table_partitioned_def is_timestamp_based_keygen_def ascii_upper_def)

lemma path_text_filter: "schemable_filter text_kernels \<lparr>fl_field = PARTITION_PATH_FIELD, fl_operator = o1, fl_values = [p]\<rparr>
    path_schema = Ok \<lparr>sf_field = hd path_schema, sf_operator = o1, sf_values = [(DtUtf8, VStr p)]\<rparr>"
  by (simp add: path_filter text_kernels_ok)

lemma sample_pruner:
  assumes "transform_filter sample_calendar (sample_keygen fmt) f =
    Ok [\<lparr>fl_field = PARTITION_PATH_FIELD, fl_operator = o1, fl_values = [p]\<rparr>]"
  shows "partition_pruner_new sample_calendar (\<lambda>z. z = ''UTC'') text_kernels [f] path_schema (sample_partition_configs fmt) =
    Ok (path_pruner o1 p)"
  using assms by (simp add: partition_pruner_new_def transform_filters_for_keygen_def sample_configs sample_from_configs
      apply_transformer_to_filters_def schemable_filters_def List.map_filter_simps path_text_filter path_pruner_def)

lemma sample_transforms:
  "transform_filter sample_calendar (sample_keygen ''yyyy'') (ff_gt ''ts'' ''202301'') =
    Ok [\<lparr>fl_field = PARTITION_PATH_FIELD, fl_operator = OpGte, fl_values = [''2023'']\<rparr>]"
  "transform_filter sample_calendar (sample_keygen ''yyyy'') (ff_ne ''ts'' ''202301'') =
    Ok [\<lparr>fl_field = PARTITION_PATH_FIELD, fl_operator = OpNe, fl_values = [''2023'']\<rparr>]"
  "transform_filter sample_calendar (sample_keygen ''MM/dd'') (ff_gt ''ts'' ''202399'') =
    Ok [\<lparr>fl_field = PARTITION_PATH_FIELD, fl_operator = OpGte, fl_values = [''09/09'']\<rparr>]"
  by (simp_all add: transform_filter_def ff_gt_def ff_ne_def col_cmp_def sample_keygen_parts is_multi_value_def
      is_lex_sortable_format_def sample_formats first_value_def value_path_def sample_stamps sample_dates)

theorem matching_instant_included_witness:
  "partition_should_include Ok text_kernels (path_pruner OpGte ''2023'') ''2023'' = Ok True"
proof (rule matching_instant_included [OF text_kernels_ok sample_pruner [OF sample_transforms(1)] _ _ sample_dates(2)])
  show "is_timestamp_based_keygen (pc_key_generator_class (sample_partition_configs ''yyyy''))
    (pc_key_generator_type (sample_partition_configs ''yyyy''))" by (simp add: sample_configs)
  show "from_configs (\<lambda>z. z = ''UTC'') (pc_partition_fields (sample_partition_configs ''yyyy''))
    (pc_is_hive_style (sample_partition_configs ''yyyy'')) (pc_options (sample_partition_configs ''yyyy'')) =
    Ok (sample_keygen ''yyyy'')" by (simp add: sample_configs sample_from_configs)
  have "year_down (sample_keygen ''yyyy'')"
    unfolding year_down_def sample_keygen_parts sample_formats by (rule exI [of _ 1]) simp
  then have safe: "range_safe sample_calendar (sample_keygen ''yyyy'')"
    by (simp add: range_safe_def sample_calendar_ordered)
  have fits: "civil_fits (kc_civil sample_calendar tz 202301)" "civil_fits (kc_civil sample_calendar tz 202345)" for tz
    by (simp_all add: civil_fits_def part_ok_def civil_part_def part_width_def sample_calendar_def)
  show "\<forall>f\<in>set [ff_gt ''ts'' ''202301'']. fl_field f = kg_source_field (sample_keygen ''yyyy'') \<longrightarrow>
      instant_matches sample_calendar (sample_keygen ''yyyy'') f 202345 \<and> fl_operator f \<noteq> OpNe \<and> fl_operator f \<noteq> OpNotIn \<and>
      (fl_operator f \<in> {OpLt, OpLte, OpGt, OpGte} \<longrightarrow> range_safe sample_calendar (sample_keygen ''yyyy'') \<and>
        fits sample_calendar (sample_keygen ''yyyy'') 202345 \<and>
        (\<forall>tv. parse_timestamp sample_calendar (sample_keygen ''yyyy'') (hd (fl_values f)) = Ok tv \<longrightarrow>
          fits sample_calendar (sample_keygen ''yyyy'') tv))"
    using safe by (simp add: ff_gt_def col_cmp_def instant_matches_def instant_test_def cmp_test_def cmp_lin_def
        sample_stamps fits)
qed (simp_all add: sample_configs ff_gt_def col_cmp_def PARTITION_PATH_FIELD_def)

text \<open>An inequality on the source column becomes one on the partition path: the partition of the
  excluded timestamp is left out with all its other rows.\<close>

lemma path_pruner_decides:
  "partition_should_include Ok text_kernels (path_pruner o1 p) q =
     (if is_multi_value o1 then partition_should_include Ok text_kernels (path_pruner o1 p) q else Ok (cmp_test o1 (cmp_lin q p)))"
  by (simp add: partition_should_include_def path_segments text_kernels_ok path_pruner_def segment_passes_def
      apply_comparison_def arrow_cmp_def kernel_cell_def)
    (simp add: path_schema_def text_kernels_def)

theorem inequality_prunes_matching_partition:
  "partition_pruner_new sample_calendar (\<lambda>z. z = ''UTC'') text_kernels [ff_ne ''ts'' ''202301''] path_schema
     (sample_partition_configs ''yyyy'') = Ok (path_pruner OpNe ''2023'') \<and>
   instant_matches sample_calendar (sample_keygen ''yyyy'') (ff_ne ''ts'' ''202301'') 202345 \<and>
   format_partition_path sample_calendar (sample_keygen ''yyyy'') 202345 = Ok ''2023'' \<and>
   partition_should_include Ok text_kernels (path_pruner OpNe ''2023'') ''2023'' = Ok False"
  using sample_pruner [OF sample_transforms(2)]
  by (simp add: instant_matches_def instant_test_def ff_ne_def col_cmp_def
      cmp_test_def cmp_lin_def sample_stamps sample_dates path_pruner_decides [of OpNe] is_multi_value_def)

text \<open>A format without a year counts as sortable, and a range filter leaves out the partition of a
  later row of another year.\<close>

theorem yearless_format_prunes_matching_partition:
  "partition_pruner_new sample_calendar (\<lambda>z. z = ''UTC'') text_kernels [ff_gt ''ts'' ''202399''] path_schema
     (sample_partition_configs ''MM/dd'') = Ok (path_pruner OpGte ''09/09'') \<and>
   instant_matches sample_calendar (sample_keygen ''MM/dd'') (ff_gt ''ts'' ''202399'') 202411 \<and>
   format_partition_path sample_calendar (sample_keygen ''MM/dd'') 202411 = Ok ''01/01'' \<and>
   partition_should_include Ok text_kernels (path_pruner OpGte ''09/09'') ''01/01'' = Ok False"
  using sample_pruner [OF sample_transforms(3)]
  by (simp add: instant_matches_def instant_test_def ff_gt_def col_cmp_def
      cmp_test_def cmp_lin_def sample_stamps sample_dates path_pruner_decides [of OpGte] is_multi_value_def)

end
