(* ===== verification/HFile_Format.thy ===== *)
theory HFile_Format
  imports Metadata_Table Storage_Reader
begin

text \<open>
  The binary format of HFiles (\<open>hfile/block_type.rs\<close>, \<open>compression.rs\<close>, \<open>key.rs\<close>, \<open>block.rs\<close>,
  \<open>trailer.rs\<close>): block headers, keys and key-value records, variable-length integers, the
  trailer. Lengths read from a file are 32-bit signed integers cast to \<open>usize\<close>; sums of them wrap
  as in a release build. Gzip and the protobuf decoder are parameters. The message of an
  \<open>HFileError\<close> is not kept. The content of a key whose length prefix is -1 or -2 panics on
  overflow, and a key is compared by its content.
\<close>

section \<open>Machine words and slices\<close>

definition usize_of_int :: "int \<Rightarrow> nat" where
  "usize_of_int n = nat (n mod 2 ^ 64)"

definition uadd :: "nat \<Rightarrow> nat \<Rightarrow> nat" where
  "uadd a b = (a + b) mod 2 ^ 64"

definition usub :: "nat \<Rightarrow> nat \<Rightarrow> nat" where
  "usub a b = usize_of_int (int a - int b)"

definition umul :: "nat \<Rightarrow> nat \<Rightarrow> nat" where
  "umul a b = (a * b) mod 2 ^ 64"

definition usat :: "nat \<Rightarrow> nat \<Rightarrow> nat" where
  "usat a b = min (a + b) (2 ^ 64 - 1)"

text \<open>\<open>&bytes[a..b]\<close> and \<open>bytes.get(a..b)\<close>.\<close>

definition slice :: "'a list \<Rightarrow> nat \<Rightarrow> nat \<Rightarrow> 'a list result" where
  "slice xs a b = (if a \<le> b \<and> b \<le> length xs then Ok (take (b - a) (drop a xs)) else Err Panic)"

text \<open>Bytes indexed one by one.\<close>

definition bytes_at :: "byte list \<Rightarrow> nat \<Rightarrow> nat \<Rightarrow> byte list result" where
  "bytes_at bs off n = (if off + n \<le> length bs then Ok (take n (drop off bs)) else Err Panic)"

text \<open>\<open>i32::from_be_bytes(..) as usize\<close>.\<close>

definition read_i32 :: "byte list \<Rightarrow> nat \<Rightarrow> nat result" where
  "read_i32 bs off = res_bind (bytes_at bs off 4) (\<lambda>b. Ok (usize_of_int (be_int b)))"

section \<open>Block types and compression\<close>

datatype HFileBlockType = BtData | BtLeafIndex | BtMeta | BtIntermediateIndex | BtRootIndex | BtFileInfo | BtTrailer

definition MAGIC_LENGTH :: nat where "MAGIC_LENGTH = 8"

definition block_magic :: "HFileBlockType \<Rightarrow> byte list" where
  "block_magic t = str_bytes (case t of BtData \<Rightarrow> ''DATABLK*'' | BtLeafIndex \<Rightarrow> ''IDXLEAF2'' | BtMeta \<Rightarrow> ''METABLKc''
     | BtIntermediateIndex \<Rightarrow> ''IDXINTE2'' | BtRootIndex \<Rightarrow> ''IDXROOT2'' | BtFileInfo \<Rightarrow> ''FILEINF2''
     | BtTrailer \<Rightarrow> ''TRABLK\"$'')"

definition from_magic :: "byte list \<Rightarrow> HFileBlockType result" where
  "from_magic magic = (if length magic < MAGIC_LENGTH then Err HFileError
     else let m = take MAGIC_LENGTH magic in
       if m = str_bytes ''DATABLK*'' \<or> m = str_bytes ''DATABLKE'' then Ok BtData
       else if m = str_bytes ''IDXLEAF2'' then Ok BtLeafIndex
       else if m = str_bytes ''METABLKc'' then Ok BtMeta
       else if m = str_bytes ''IDXINTE2'' then Ok BtIntermediateIndex
       else if m = str_bytes ''IDXROOT2'' then Ok BtRootIndex
       else if m = str_bytes ''FILEINF2'' then Ok BtFileInfo
       else if m = str_bytes ''TRABLK\"$'' then Ok BtTrailer
       else Err HFileError)"

definition check_magic :: "HFileBlockType \<Rightarrow> byte list \<Rightarrow> unit result" where
  "check_magic t bs = (if length bs < MAGIC_LENGTH then Err HFileError
     else if take MAGIC_LENGTH bs \<noteq> block_magic t then Err HFileError else Ok ())"

definition show_block_type :: "HFileBlockType \<Rightarrow> string" where
  "show_block_type t = (case t of BtData \<Rightarrow> ''DATA'' | BtLeafIndex \<Rightarrow> ''LEAF_INDEX'' | BtMeta \<Rightarrow> ''META''
     | BtIntermediateIndex \<Rightarrow> ''INTERMEDIATE_INDEX'' | BtRootIndex \<Rightarrow> ''ROOT_INDEX'' | BtFileInfo \<Rightarrow> ''FILE_INFO''
     | BtTrailer \<Rightarrow> ''TRAILER'')"

datatype CompressionCodec = Lzo | Gzip | Uncompressed | Snappy | Lz4 | Bzip2 | Zstd

definition codec_from_id :: "nat \<Rightarrow> CompressionCodec result" where
  "codec_from_id i = (if i = 0 then Ok Lzo else if i = 1 then Ok Gzip else if i = 2 then Ok Uncompressed
     else if i = 3 then Ok Snappy else if i = 4 then Ok Lz4 else if i = 5 then Ok Bzip2
     else if i = 6 then Ok Zstd else Err HFileError)"

text \<open>\<open>gunzip\<close> stands for the decoder of the flate2 crate.\<close>

definition decompress :: "(byte list \<Rightarrow> byte list result) \<Rightarrow> CompressionCodec \<Rightarrow> byte list \<Rightarrow> byte list result" where
  "decompress gunzip c bs = (case c of
      Uncompressed \<Rightarrow> Ok bs
    | Gzip \<Rightarrow> (case gunzip bs of Inl _ \<Rightarrow> Err HFileError | Inr x \<Rightarrow> Ok x)
    | _ \<Rightarrow> Err HFileError)"

section \<open>Keys and records\<close>

record Key =
  k_bytes :: "byte list"
  k_offset :: nat
  k_length :: nat

definition key_new :: "byte list \<Rightarrow> nat \<Rightarrow> nat \<Rightarrow> Key" where
  "key_new bs off len = (let e = min (usat off len) (length bs); s = min off e in
     \<lparr>k_bytes = take (e - s) (drop s bs), k_offset = 0, k_length = len\<rparr>)"

definition key_from_bytes :: "byte list \<Rightarrow> Key" where
  "key_from_bytes bs = \<lparr>k_bytes = bs, k_offset = 0, k_length = length bs\<rparr>"

definition key_from_content :: "byte list \<Rightarrow> Key option" where
  "key_from_content content = (if length content < 2 ^ 15
     then Some (key_from_bytes (be_bytes 2 (length content) @ content)) else None)"

definition content_offset :: "Key \<Rightarrow> nat" where
  "content_offset k = k_offset k + 2"

definition content_length :: "Key \<Rightarrow> nat" where
  "content_length k = (if length (k_bytes k) < k_offset k + 2 then 0
     else usize_of_int (be_int (take 2 (drop (k_offset k) (k_bytes k)))))"

definition key_content :: "Key \<Rightarrow> byte list result" where
  "key_content k = (let start = content_offset k; len = content_length k in
     if uadd start len > length (k_bytes k) then Ok [] else slice (k_bytes k) start (uadd start len))"

definition content_as_str :: "Key \<Rightarrow> string result" where
  "content_as_str k = res_bind (key_content k) from_utf8"

text \<open>\<open>Utf8Key\<close> is a string, compared by its bytes.\<close>

definition compare_keys :: "Key \<Rightarrow> string \<Rightarrow> rust_ordering result" where
  "compare_keys k lookup = res_bind (key_content k) (\<lambda>c. Ok (cmp_lin c (str_bytes lookup)))"

definition KEY_VALUE_HEADER_SIZE :: nat where "KEY_VALUE_HEADER_SIZE = 8"

record KeyValue =
  kv_bytes :: "byte list"
  kv_offset :: nat
  kv_key :: Key
  kv_key_length :: nat
  kv_value_length :: nat

definition kv_parse :: "byte list \<Rightarrow> nat \<Rightarrow> KeyValue result" where
  "kv_parse bs off = res_bind (read_i32 bs off) (\<lambda>key_length. res_bind (read_i32 bs (off + 4)) (\<lambda>value_length.
     let key = key_new bs (off + KEY_VALUE_HEADER_SIZE) key_length;
         record_end = min (usat (usat (usat off KEY_VALUE_HEADER_SIZE) key_length) value_length) (length bs);
         record_start = min off record_end
     in Ok \<lparr>kv_bytes = take (record_end - record_start) (drop record_start bs), kv_offset = 0, kv_key = key,
       kv_key_length = key_length, kv_value_length = value_length\<rparr>))"

definition kv_value :: "KeyValue \<Rightarrow> byte list result" where
  "kv_value kv = (let off = uadd (kv_offset kv + KEY_VALUE_HEADER_SIZE) (kv_key_length kv) in
     slice (kv_bytes kv) off (uadd off (kv_value_length kv)))"

definition record_size :: "KeyValue \<Rightarrow> nat" where
  "record_size kv = uadd (uadd (uadd KEY_VALUE_HEADER_SIZE (kv_key_length kv)) (kv_value_length kv)) 1"

section \<open>Blocks\<close>

definition BLOCK_HEADER_SIZE :: nat where "BLOCK_HEADER_SIZE = 33"

definition CHECKSUM_SIZE :: nat where "CHECKSUM_SIZE = 4"

record BlockHeader =
  bh_block_type :: HFileBlockType
  bh_on_disk_size_without_header :: nat
  bh_uncompressed_size_without_header :: nat
  bh_prev_block_offset :: int
  bh_checksum_type :: byte
  bh_bytes_per_checksum :: nat
  bh_on_disk_data_size_with_header :: nat

definition header_parse :: "byte list \<Rightarrow> BlockHeader result" where
  "header_parse bs = (if length bs < BLOCK_HEADER_SIZE then Err HFileError
     else res_bind (from_magic bs) (\<lambda>t. res_bind (read_i32 bs 8) (\<lambda>on_disk. res_bind (read_i32 bs 12) (\<lambda>uncompressed.
       res_bind (bytes_at bs 16 8) (\<lambda>prev. res_bind (read_i32 bs 25) (\<lambda>per_checksum. res_bind (read_i32 bs 29) (\<lambda>data_size.
         Ok \<lparr>bh_block_type = t, bh_on_disk_size_without_header = on_disk,
           bh_uncompressed_size_without_header = uncompressed, bh_prev_block_offset = be_int prev,
           bh_checksum_type = bs ! 24, bh_bytes_per_checksum = per_checksum,
           bh_on_disk_data_size_with_header = data_size\<rparr>)))))))"

definition on_disk_size_with_header :: "BlockHeader \<Rightarrow> nat" where
  "on_disk_size_with_header h = uadd BLOCK_HEADER_SIZE (bh_on_disk_size_without_header h)"

text \<open>\<open>div_ceil\<close> by zero panics.\<close>

definition checksum_bytes_count :: "BlockHeader \<Rightarrow> nat result" where
  "checksum_bytes_count h = (let n = on_disk_size_with_header h; c = bh_bytes_per_checksum h in
     if c = 0 then Err Panic
     else Ok (umul (n div c + (if n mod c = 0 then 0 else 1)) CHECKSUM_SIZE))"

record HFileBlock =
  hb_header :: BlockHeader
  hb_data :: "byte list"

definition hblock_parse :: "(byte list \<Rightarrow> byte list result) \<Rightarrow> byte list \<Rightarrow> CompressionCodec \<Rightarrow> HFileBlock result" where
  "hblock_parse gunzip bs codec = res_bind (header_parse bs) (\<lambda>h. res_bind (checksum_bytes_count h) (\<lambda>checksums.
     let data_start = BLOCK_HEADER_SIZE;
         data_end = usub (uadd data_start (bh_on_disk_size_without_header h)) checksums
     in res_bind (if codec = Uncompressed
          then slice bs data_start (uadd data_start (bh_uncompressed_size_without_header h))
          else res_bind (slice bs data_start data_end) (decompress gunzip codec)) (\<lambda>data.
        Ok \<lparr>hb_header = h, hb_data = data\<rparr>)))"

definition hblock_type :: "HFileBlock \<Rightarrow> HFileBlockType" where
  "hblock_type b = bh_block_type (hb_header b)"

record BlockIndexEntry =
  ie_first_key :: Key
  ie_next_block_first_key :: "Key option"
  ie_offset :: nat
  ie_size :: nat

record DataBlock =
  db_data :: "byte list"
  db_content_end :: nat

definition data_block_from :: "HFileBlock \<Rightarrow> DataBlock" where
  "data_block_from b = \<lparr>db_data = hb_data b, db_content_end = length (hb_data b)\<rparr>"

definition read_key_value :: "DataBlock \<Rightarrow> nat \<Rightarrow> KeyValue result" where
  "read_key_value b off = kv_parse (db_data b) off"

definition is_valid_offset :: "DataBlock \<Rightarrow> nat \<Rightarrow> bool" where
  "is_valid_offset b off \<longleftrightarrow> off < db_content_end b"

text \<open>One step of the iterator over a block: the record at the offset and the offset after it.\<close>

definition block_iter_next :: "DataBlock \<Rightarrow> nat \<Rightarrow> (KeyValue \<times> nat) option result" where
  "block_iter_next b off = (if \<not> is_valid_offset b off then Ok None
     else if off + KEY_VALUE_HEADER_SIZE > db_content_end b then Ok None
     else res_bind (read_key_value b off) (\<lambda>kv. Ok (Some (kv, uadd off (record_size kv)))))"

section \<open>Variable-length integers\<close>

definition var_long_size_on_disk_single :: "byte \<Rightarrow> nat" where
  "var_long_size_on_disk_single b = (if sint b \<ge> -112 then 1 else nat (-111 - sint b))"

definition var_long_size_on_disk :: "byte list \<Rightarrow> nat \<Rightarrow> nat result" where
  "var_long_size_on_disk bs off = res_bind (bytes_at bs off 1) (\<lambda>b. Ok (var_long_size_on_disk_single (hd b)))"

text \<open>The value is a \<open>u64\<close>: higher bytes are shifted out, a negative number is complemented.\<close>

definition read_var_long :: "byte list \<Rightarrow> nat \<Rightarrow> (nat \<times> nat) result" where
  "read_var_long bs off = res_bind (bytes_at bs off 1) (\<lambda>b.
     let first = hd b; size = var_long_size_on_disk_single first in
     if size = 1 then Ok (usize_of_int (sint first), 1)
     else res_bind (bytes_at bs (off + 1) (size - 1)) (\<lambda>ds.
       let value = be_nat ds mod 2 ^ 64 in
       Ok (if sint first < -120 then 2 ^ 64 - 1 - value else value, size)))"

text \<open>The protobuf varint; the shift amount of a \<open>u64\<close> is taken modulo 64 in a release build.\<close>

fun read_varint_from :: "64 word \<Rightarrow> nat \<Rightarrow> nat \<Rightarrow> byte list \<Rightarrow> 64 word \<times> nat" where
  "read_varint_from acc shift pos [] = (acc, pos)"
| "read_varint_from acc shift pos (b # bs) =
     (let acc' = or acc (push_bit (shift mod 64) (and (ucast b) 0x7F)) in
      if and b 0x80 = 0 then (acc', pos + 1) else read_varint_from acc' (shift + 7) (pos + 1) bs)"

definition read_varint :: "byte list \<Rightarrow> nat \<times> nat" where
  "read_varint bs = (case read_varint_from 0 0 0 bs of (v, n) \<Rightarrow> (unat v, n))"

section \<open>The trailer\<close>

definition TRAILER_SIZE :: nat where "TRAILER_SIZE = 4096"

record TrailerProto =
  tp_file_info_offset :: "nat option"
  tp_load_on_open_data_offset :: "nat option"
  tp_uncompressed_data_index_size :: "nat option"
  tp_total_uncompressed_bytes :: "nat option"
  tp_data_index_count :: "nat option"
  tp_meta_index_count :: "nat option"
  tp_entry_count :: "nat option"
  tp_num_data_index_levels :: "nat option"
  tp_first_data_block_offset :: "nat option"
  tp_last_data_block_offset :: "nat option"
  tp_comparator_class_name :: "string option"
  tp_compression_codec :: "nat option"
  tp_encryption_key :: "byte list option"

record HFileTrailer =
  tr_major_version :: nat
  tr_minor_version :: nat
  tr_file_info_offset :: nat
  tr_load_on_open_data_offset :: nat
  tr_uncompressed_data_index_size :: nat
  tr_total_uncompressed_bytes :: nat
  tr_data_index_count :: nat
  tr_meta_index_count :: nat
  tr_entry_count :: nat
  tr_num_data_index_levels :: nat
  tr_first_data_block_offset :: nat
  tr_last_data_block_offset :: nat
  tr_comparator_class_name :: string
  tr_compression_codec :: CompressionCodec

text \<open>The decoders of the crates the format rests on: gzip and the two protobuf messages.\<close>

record hfile_codecs =
  hc_gunzip :: "byte list \<Rightarrow> byte list result"
  hc_trailer :: "byte list \<Rightarrow> TrailerProto result"
  hc_info :: "byte list \<Rightarrow> (byte list \<times> byte list) list result"

definition parse_length_delimited_proto :: "hfile_codecs \<Rightarrow> byte list \<Rightarrow> TrailerProto result" where
  "parse_length_delimited_proto hc bs = (case read_varint bs of (len, consumed) \<Rightarrow>
     res_bind (slice bs consumed (uadd consumed len)) (\<lambda>p.
       case hc_trailer hc p of Inl _ \<Rightarrow> Err HFileError | Inr t \<Rightarrow> Ok t))"

definition unwrap_or :: "'a \<Rightarrow> 'a option \<Rightarrow> 'a" where
  "unwrap_or d x = (case x of None \<Rightarrow> d | Some v \<Rightarrow> v)"

definition trailer_read :: "hfile_codecs \<Rightarrow> byte list \<Rightarrow> HFileTrailer result" where
  "trailer_read hc file = (if length file < TRAILER_SIZE then Err HFileError
     else let bs = drop (length file - TRAILER_SIZE) file in
       res_bind (check_magic BtTrailer bs) (\<lambda>_.
       let version = drop (TRAILER_SIZE - 4) bs;
           minor = unat (version ! 0);
           major = unat (version ! 1) * 2 ^ 16 + unat (version ! 2) * 2 ^ 8 + unat (version ! 3)
       in if major \<noteq> 3 then Err HFileError
          else res_bind (parse_length_delimited_proto hc (drop MAGIC_LENGTH (take (TRAILER_SIZE - 4) bs))) (\<lambda>p.
            res_bind (case tp_compression_codec p of None \<Rightarrow> Ok Uncompressed | Some i \<Rightarrow> codec_from_id i) (\<lambda>codec.
              Ok \<lparr>tr_major_version = major, tr_minor_version = minor,
                tr_file_info_offset = unwrap_or 0 (tp_file_info_offset p),
                tr_load_on_open_data_offset = unwrap_or 0 (tp_load_on_open_data_offset p),
                tr_uncompressed_data_index_size = unwrap_or 0 (tp_uncompressed_data_index_size p),
                tr_total_uncompressed_bytes = unwrap_or 0 (tp_total_uncompressed_bytes p),
                tr_data_index_count = unwrap_or 0 (tp_data_index_count p),
                tr_meta_index_count = unwrap_or 0 (tp_meta_index_count p),
                tr_entry_count = unwrap_or 0 (tp_entry_count p),
                tr_num_data_index_levels = unwrap_or 1 (tp_num_data_index_levels p),
                tr_first_data_block_offset = unwrap_or 0 (tp_first_data_block_offset p),
                tr_last_data_block_offset = unwrap_or 0 (tp_last_data_block_offset p),
                tr_comparator_class_name = unwrap_or [] (tp_comparator_class_name p),
                tr_compression_codec = codec\<rparr>))))"

end
