(* ===== verification/HFile_Reader.thy ===== *)
theory HFile_Reader
  imports HFile_Format
begin

text \<open>
  The HFile reader (\<open>hfile/reader.rs\<close>): opening a file whole or in ranges, the block index of one
  or several levels, the cursor with its seeks, and the selection of blocks for keys and prefixes.
  A loop over records ends only when their sizes move it forward, so loops are partial functions
  and \<open>None\<close> stands for a loop that does not end. The index is keyed by the content of its keys.
  The parsed-schema cache and the fetch counters are left out; asynchronous calls are sequential.
\<close>

section \<open>The reader\<close>

datatype SeekResult = BeforeBlockFirstKey | BeforeFileFirstKey | Found | InRange | Eof

definition PBUF_MAGIC :: "byte list" where "PBUF_MAGIC = str_bytes ''PBUF''"
definition FILE_INFO_LAST_KEY :: string where "FILE_INFO_LAST_KEY = ''hfile.LASTKEY''"
definition FILE_INFO_KEY_VALUE_VERSION :: string where "FILE_INFO_KEY_VALUE_VERSION = ''KEY_VALUE_VERSION''"
definition FILE_INFO_MAX_MVCC_TS :: string where "FILE_INFO_MAX_MVCC_TS = ''MAX_MEMSTORE_TS_KEY''"
definition FILE_INFO_SCHEMA :: string where "FILE_INFO_SCHEMA = ''schema''"
definition FILE_INFO_MIN_RECORD_KEY :: string where "FILE_INFO_MIN_RECORD_KEY = ''minRecordKey''"
definition FILE_INFO_MAX_RECORD_KEY :: string where "FILE_INFO_MAX_RECORD_KEY = ''maxRecordKey''"

text \<open>The fetcher of a file: one range (start and end), or several in one call.\<close>

record block_fetcher =
  bf_range :: object_range
  bf_ranges :: "(nat \<times> nat) list \<Rightarrow> byte list list result"

datatype Source = Whole "byte list" | Ranged block_fetcher "byte list" nat nat nat

definition metadata_at :: "Source \<Rightarrow> nat \<Rightarrow> byte list result" where
  "metadata_at s off = (case s of
      Whole bs \<Rightarrow> if off \<le> length bs then Ok (drop off bs) else Err HFileError
    | Ranged _ tail tail_start _ _ \<Rightarrow>
        if off < tail_start \<or> off - tail_start > length tail then Err HFileError else Ok (drop (off - tail_start) tail))"

definition resident_range :: "Source \<Rightarrow> nat \<Rightarrow> nat \<Rightarrow> byte list result" where
  "resident_range s off len = (case s of
      Whole bs \<Rightarrow> (case slice bs off (uadd off len) of Inl _ \<Rightarrow> Err HFileError | Inr x \<Rightarrow> Ok x)
    | Ranged _ _ _ _ _ \<Rightarrow> Err HFileError)"

record Cursor =
  cu_offset :: nat
  cu_cached_kv :: "KeyValue option"
  cu_eof :: bool
  cu_seeked :: bool

definition cursor_default :: Cursor where
  "cursor_default = \<lparr>cu_offset = 0, cu_cached_kv = None, cu_eof = False, cu_seeked = False\<rparr>"

type_synonym block_index = "(byte list, BlockIndexEntry) btree_map"

record HFileReader =
  hf_source :: Source
  hf_trailer :: HFileTrailer
  hf_codec :: CompressionCodec
  hf_data_block_index :: block_index
  hf_meta_block_index :: "(string, BlockIndexEntry) btree_map"
  hf_file_info :: "(string, byte list) btree_map"
  hf_last_key :: "Key option"
  hf_cursor :: Cursor
  hf_current_block :: "DataBlock option"
  hf_current_block_entry :: "BlockIndexEntry option"

definition with_source :: "Source \<Rightarrow> HFileTrailer \<Rightarrow> HFileReader" where
  "with_source s t = \<lparr>hf_source = s, hf_trailer = t, hf_codec = tr_compression_codec t, hf_data_block_index = [],
     hf_meta_block_index = [], hf_file_info = [], hf_last_key = None, hf_cursor = cursor_default,
     hf_current_block = None, hf_current_block_entry = None\<rparr>"

section \<open>The block index\<close>

definition entry_new :: "Key \<Rightarrow> Key option \<Rightarrow> nat \<Rightarrow> nat \<Rightarrow> BlockIndexEntry" where
  "entry_new k nxt off sz = \<lparr>ie_first_key = k, ie_next_block_first_key = nxt, ie_offset = off, ie_size = sz\<rparr>"

fun parse_root_index_entries :: "byte list \<Rightarrow> nat \<Rightarrow> bool \<Rightarrow> nat \<Rightarrow> BlockIndexEntry list result" where
  "parse_root_index_entries data 0 content_key_only off = Ok []"
| "parse_root_index_entries data (Suc n) content_key_only off =
     res_bind (bytes_at data off 8) (\<lambda>block_offset. res_bind (bytes_at data (off + 8) 4) (\<lambda>block_size.
     res_bind (var_long_size_on_disk data (off + 12)) (\<lambda>var_len_size.
     res_bind (read_var_long data (off + 12)) (\<lambda>(key_length, _).
     let key_start = off + 12 + var_len_size in
     res_bind (slice data key_start (uadd key_start key_length)) (\<lambda>key_bytes.
     let key = (if content_key_only then key_from_bytes key_bytes else key_new key_bytes 0 (length key_bytes)) in
     res_bind (parse_root_index_entries data n content_key_only (key_start + key_length)) (\<lambda>es.
       Ok (entry_new key None (be_nat block_offset) (be_nat block_size) # es)))))))"

fun read_i32s :: "byte list \<Rightarrow> nat \<Rightarrow> nat \<Rightarrow> nat list result" where
  "read_i32s data 0 off = Ok []"
| "read_i32s data (Suc n) off = res_bind (read_i32 data off) (\<lambda>x.
     res_bind (read_i32s data n (off + 4)) (\<lambda>xs. Ok (x # xs)))"

text \<open>The entries of a leaf: each ends where the secondary index says the next one starts.\<close>

fun leaf_entries :: "byte list \<Rightarrow> nat \<Rightarrow> nat \<Rightarrow> nat list \<Rightarrow> BlockIndexEntry list result" where
  "leaf_entries data base off [] = Ok []"
| "leaf_entries data base off (rel # rels) =
     res_bind (bytes_at data off 8) (\<lambda>block_offset. res_bind (bytes_at data (off + 8) 4) (\<lambda>block_size.
     let key_start = off + 12; next_entry_start = uadd base rel; key_length = usub next_entry_start key_start in
     res_bind (slice data key_start (uadd key_start key_length)) (\<lambda>key_bytes.
     res_bind (leaf_entries data base next_entry_start rels) (\<lambda>es.
       Ok (entry_new (key_new key_bytes 0 (length key_bytes)) None (be_nat block_offset) (be_nat block_size) # es)))))"

definition parse_leaf_index_entries :: "byte list \<Rightarrow> BlockIndexEntry list result" where
  "parse_leaf_index_entries data = res_bind (read_i32 data 0) (\<lambda>num_entries.
     res_bind (read_i32s data (num_entries + 1) 4) (\<lambda>rels.
       let base = 4 + 4 * (num_entries + 1) in leaf_entries data base base (tl rels)))"

text \<open>Each entry carries the first key of the next; of two entries with one key the later stays.\<close>

fun link_entries :: "BlockIndexEntry list \<Rightarrow> BlockIndexEntry list" where
  "link_entries [] = []"
| "link_entries [e] = [entry_new (ie_first_key e) None (ie_offset e) (ie_size e)]"
| "link_entries (e # e' # es) =
     entry_new (ie_first_key e) (Some (ie_first_key e')) (ie_offset e) (ie_size e) # link_entries (e' # es)"

definition index_insert :: "block_index \<Rightarrow> BlockIndexEntry \<Rightarrow> block_index result" where
  "index_insert m e = res_bind (key_content (ie_first_key e)) (\<lambda>c. Ok (bm_insert c e m))"

definition index_from_leaf_entries :: "BlockIndexEntry list \<Rightarrow> block_index result" where
  "index_from_leaf_entries es = res_fold index_insert [] (link_entries es)"

definition expect_type :: "HFileBlockType \<Rightarrow> HFileBlock \<Rightarrow> HFileBlock result" where
  "expect_type t b = (if hblock_type b \<noteq> t then Err HFileError else Ok b)"

definition read_root_index_block :: "hfile_codecs \<Rightarrow> HFileReader \<Rightarrow> nat \<Rightarrow> (block_index \<times> nat) result" where
  "read_root_index_block hc rd start =
     res_bind (metadata_at (hf_source rd) start) (\<lambda>bs. res_bind (hblock_parse (hc_gunzip hc) bs (hf_codec rd)) (\<lambda>b.
     res_bind (expect_type BtRootIndex b) (\<lambda>_.
     res_bind (parse_root_index_entries (hb_data b) (tr_data_index_count (hf_trailer rd)) False 0) (\<lambda>es.
     res_bind (index_from_leaf_entries es) (\<lambda>m. Ok (m, uadd start (on_disk_size_with_header (hb_header b))))))))"

definition read_root_index :: "hfile_codecs \<Rightarrow> HFileReader \<Rightarrow> (HFileReader \<times> nat) result" where
  "read_root_index hc rd =
     res_bind (read_root_index_block hc rd (tr_load_on_open_data_offset (hf_trailer rd))) (\<lambda>(m, off).
       Ok (rd\<lparr>hf_data_block_index := m\<rparr>, off))"

definition read_block_at :: "hfile_codecs \<Rightarrow> HFileReader \<Rightarrow> nat \<Rightarrow> nat \<Rightarrow> HFileBlock result" where
  "read_block_at hc rd off len = res_bind (resident_range (hf_source rd) off len) (\<lambda>bs.
     hblock_parse (hc_gunzip hc) bs (hf_codec rd))"

fun index_levels :: "(BlockIndexEntry list \<Rightarrow> BlockIndexEntry list result) \<Rightarrow> nat \<Rightarrow> BlockIndexEntry list \<Rightarrow>
    BlockIndexEntry list result" where
  "index_levels level 0 es = Ok es"
| "index_levels level (Suc n) es = res_bind (level es) (index_levels level n)"

definition resident_level :: "hfile_codecs \<Rightarrow> HFileReader \<Rightarrow> BlockIndexEntry list \<Rightarrow> BlockIndexEntry list result" where
  "resident_level hc rd es = res_bind (res_map (\<lambda>e.
     res_bind (read_block_at hc rd (ie_offset e) (ie_size e)) (\<lambda>b. parse_leaf_index_entries (hb_data b))) es) (\<lambda>ess.
       Ok (concat ess))"

definition load_multi_level_index :: "hfile_codecs \<Rightarrow> HFileReader \<Rightarrow> HFileReader result" where
  "load_multi_level_index hc rd =
     res_bind (index_levels (resident_level hc rd) (tr_num_data_index_levels (hf_trailer rd) - 1)
       (map snd (hf_data_block_index rd))) (\<lambda>es.
     res_bind (index_from_leaf_entries es) (\<lambda>m. Ok (rd\<lparr>hf_data_block_index := m\<rparr>)))"

text \<open>Runs of blocks that each stay under a budget.\<close>

definition plan_window_step :: "nat \<Rightarrow> BlockIndexEntry list list \<times> BlockIndexEntry list \<times> nat \<Rightarrow> BlockIndexEntry \<Rightarrow>
    BlockIndexEntry list list \<times> BlockIndexEntry list \<times> nat" where
  "plan_window_step budget st e = (case st of (windows, current, current_bytes) \<Rightarrow>
     let len = ie_size e in
     if current \<noteq> [] \<and> usat current_bytes len > budget then (windows @ [current], [e], usat 0 len)
     else (windows, current @ [e], usat current_bytes len))"

definition plan_windows :: "BlockIndexEntry list \<Rightarrow> nat \<Rightarrow> BlockIndexEntry list list" where
  "plan_windows es budget = (case foldl (plan_window_step budget) ([], [], 0) es of (windows, current, _) \<Rightarrow>
     if current \<noteq> [] then windows @ [current] else windows)"

definition fetch_blocks :: "hfile_codecs \<Rightarrow> HFileReader \<Rightarrow> BlockIndexEntry list \<Rightarrow> HFileBlock list result" where
  "fetch_blocks hc rd es = (case hf_source rd of
      Whole _ \<Rightarrow> res_map (\<lambda>e. read_block_at hc rd (ie_offset e) (ie_size e)) es
    | Ranged ft _ _ _ _ \<Rightarrow>
        (case bf_ranges ft (map (\<lambda>e. (ie_offset e, uadd (ie_offset e) (ie_size e))) es) of
           Inl _ \<Rightarrow> Err HFileError
         | Inr fetched \<Rightarrow> res_map (\<lambda>bs. hblock_parse (hc_gunzip hc) bs (hf_codec rd)) fetched))"

definition batched_level :: "hfile_codecs \<Rightarrow> HFileReader \<Rightarrow> nat \<Rightarrow> BlockIndexEntry list \<Rightarrow> BlockIndexEntry list result" where
  "batched_level hc rd budget es = res_fold (\<lambda>acc window.
     res_bind (fetch_blocks hc rd window) (\<lambda>blocks.
       res_fold (\<lambda>acc b. res_bind (parse_leaf_index_entries (hb_data b)) (\<lambda>xs. Ok (acc @ xs))) acc blocks)) []
     (plan_windows es budget)"

definition load_multi_level_index_batched :: "hfile_codecs \<Rightarrow> HFileReader \<Rightarrow> HFileReader result" where
  "load_multi_level_index_batched hc rd = (case hf_source rd of
      Whole _ \<Rightarrow> Err HFileError
    | Ranged _ _ _ _ budget \<Rightarrow>
        res_bind (index_levels (batched_level hc rd budget) (tr_num_data_index_levels (hf_trailer rd) - 1)
          (map snd (hf_data_block_index rd))) (\<lambda>es.
        res_bind (index_from_leaf_entries es) (\<lambda>m. Ok (rd\<lparr>hf_data_block_index := m\<rparr>))))"

section \<open>Meta index and file info\<close>

definition read_meta_index_block :: "hfile_codecs \<Rightarrow> HFileReader \<Rightarrow> nat \<Rightarrow>
    ((string, BlockIndexEntry) btree_map \<times> nat) result" where
  "read_meta_index_block hc rd start =
     res_bind (metadata_at (hf_source rd) start) (\<lambda>bs. res_bind (hblock_parse (hc_gunzip hc) bs (hf_codec rd)) (\<lambda>b.
     res_bind (expect_type BtRootIndex b) (\<lambda>_.
     res_bind (parse_root_index_entries (hb_data b) (tr_meta_index_count (hf_trailer rd)) True 0) (\<lambda>es.
     res_bind (res_fold (\<lambda>m e. res_bind (key_content (ie_first_key e)) (\<lambda>c. Ok (bm_insert (from_utf8_lossy c) e m))) [] es) (\<lambda>m.
       Ok (m, uadd start (on_disk_size_with_header (hb_header b))))))))"

definition read_file_info_block :: "hfile_codecs \<Rightarrow> HFileReader \<Rightarrow> nat \<Rightarrow> HFileReader result" where
  "read_file_info_block hc rd start =
     res_bind (metadata_at (hf_source rd) start) (\<lambda>bs. res_bind (hblock_parse (hc_gunzip hc) bs (hf_codec rd)) (\<lambda>b.
     res_bind (expect_type BtFileInfo b) (\<lambda>_.
     if length (hb_data b) < 4 \<or> take 4 (hb_data b) \<noteq> PBUF_MAGIC then Err HFileError
     else let proto_data = drop 4 (hb_data b) in
       (case read_varint proto_data of (len, consumed) \<Rightarrow>
         res_bind (slice proto_data consumed (uadd consumed len)) (\<lambda>p.
           case hc_info hc p of
             Inl _ \<Rightarrow> Err HFileError
           | Inr pairs \<Rightarrow> Ok (rd\<lparr>hf_file_info :=
               foldl (\<lambda>m (k, v). bm_insert (from_utf8_lossy k) v m) (hf_file_info rd) pairs\<rparr>))))))"

definition check_mvcc_support :: "HFileReader \<Rightarrow> unit result" where
  "check_mvcc_support rd = (case bm_get (hf_file_info rd) FILE_INFO_KEY_VALUE_VERSION of
      None \<Rightarrow> Ok ()
    | Some version_bytes \<Rightarrow>
        if length version_bytes \<ge> 4 \<and> be_int (take 4 version_bytes) = 1
        then (case bm_get (hf_file_info rd) FILE_INFO_MAX_MVCC_TS of
            None \<Rightarrow> Ok ()
          | Some ts_bytes \<Rightarrow> if length ts_bytes \<ge> 8 \<and> be_int (take 8 ts_bytes) > 0 then Err HFileError else Ok ())
        else Ok ())"

definition read_meta_and_file_info :: "hfile_codecs \<Rightarrow> HFileReader \<Rightarrow> nat \<Rightarrow> HFileReader result" where
  "read_meta_and_file_info hc rd off =
     res_bind (read_meta_index_block hc rd off) (\<lambda>(m, off').
     res_bind (read_file_info_block hc (rd\<lparr>hf_meta_block_index := m\<rparr>) off') (\<lambda>rd1.
     let rd2 = (case bm_get (hf_file_info rd1) FILE_INFO_LAST_KEY of
         None \<Rightarrow> rd1 | Some bs \<Rightarrow> rd1\<lparr>hf_last_key := Some (key_from_bytes bs)\<rparr>)
     in res_bind (check_mvcc_support rd2) (\<lambda>_. Ok rd2)))"

definition initialize_metadata :: "hfile_codecs \<Rightarrow> HFileReader \<Rightarrow> HFileReader result" where
  "initialize_metadata hc rd = res_bind (read_root_index hc rd) (\<lambda>(rd1, off).
     res_bind (if tr_num_data_index_levels (hf_trailer rd1) > 1 then load_multi_level_index hc rd1 else Ok rd1) (\<lambda>rd2.
       read_meta_and_file_info hc rd2 off))"

definition initialize_metadata_ranged :: "hfile_codecs \<Rightarrow> HFileReader \<Rightarrow> HFileReader result" where
  "initialize_metadata_ranged hc rd = res_bind (read_root_index hc rd) (\<lambda>(rd1, off).
     res_bind (if tr_num_data_index_levels (hf_trailer rd1) > 1 then load_multi_level_index_batched hc rd1 else Ok rd1) (\<lambda>rd2.
       read_meta_and_file_info hc rd2 off))"

section \<open>Opening a file\<close>

definition hfile_new :: "hfile_codecs \<Rightarrow> byte list \<Rightarrow> HFileReader result" where
  "hfile_new hc bs = res_bind (trailer_read hc bs) (\<lambda>t. initialize_metadata hc (with_source (Whole bs) t))"

definition open_ranged_with :: "hfile_codecs \<Rightarrow> (string \<Rightarrow> string option) \<Rightarrow> block_fetcher \<Rightarrow> nat \<Rightarrow> HFileReader result" where
  "open_ranged_with hc options ft file_len =
     (if file_len < TRAILER_SIZE then Err HFileError
      else case get_range (bf_range ft) (file_len - TRAILER_SIZE) TRAILER_SIZE of
        Inl _ \<Rightarrow> Err HFileError
      | Inr trailer_bytes \<Rightarrow> res_bind (trailer_read hc trailer_bytes) (\<lambda>t.
          let tail_start = tr_load_on_open_data_offset t in
          if tail_start > file_len then Err HFileError
          else case get_range (bf_range ft) tail_start (file_len - tail_start) of
            Inl _ \<Rightarrow> Err HFileError
          | Inr tail \<Rightarrow> (case stream_window_size options of
              Inl _ \<Rightarrow> Err HFileError
            | Inr budget \<Rightarrow> initialize_metadata_ranged hc (with_source (Ranged ft tail tail_start file_len budget) t))))"

text \<open>The storage: a file's bytes, and its length with a fetcher for it.\<close>

record hfile_storage =
  hs_file_data :: "string \<Rightarrow> byte list result"
  hs_streaming :: "string \<Rightarrow> (nat \<times> block_fetcher) result"
  hs_options :: "string \<Rightarrow> string option"

definition hfile_open :: "hfile_codecs \<Rightarrow> hfile_storage \<Rightarrow> string \<Rightarrow> HFileReader result" where
  "hfile_open hc st path = (case hs_file_data st path of Inl _ \<Rightarrow> Err HFileError | Inr bs \<Rightarrow> hfile_new hc bs)"

definition open_ranged :: "hfile_codecs \<Rightarrow> hfile_storage \<Rightarrow> string \<Rightarrow> HFileReader result" where
  "open_ranged hc st path = (case hs_streaming st path of
      Inl _ \<Rightarrow> Err HFileError
    | Inr (file_len, ft) \<Rightarrow> open_ranged_with hc (hs_options st) ft file_len)"

definition open_sized :: "hfile_codecs \<Rightarrow> hfile_storage \<Rightarrow> string \<Rightarrow> nat \<Rightarrow> nat option \<Rightarrow> HFileReader result" where
  "open_sized hc st path whole_read_max_size known_file_size = (case known_file_size of
      Some n \<Rightarrow> if n \<le> whole_read_max_size then hfile_open hc st path else open_ranged hc st path
    | None \<Rightarrow>
        if whole_read_max_size = 0 then open_ranged hc st path
        else (case hs_streaming st path of
            Inl _ \<Rightarrow> Err HFileError
          | Inr (file_len, ft) \<Rightarrow>
              if file_len \<le> whole_read_max_size then hfile_open hc st path
              else open_ranged_with hc (hs_options st) ft file_len))"

definition hfile_window_budget :: "HFileReader \<Rightarrow> nat option" where
  "hfile_window_budget rd = (case hf_source rd of Ranged _ _ _ _ b \<Rightarrow> Some b | Whole _ \<Rightarrow> None)"

definition hfile_len :: "HFileReader \<Rightarrow> nat" where
  "hfile_len rd = (case hf_source rd of Ranged _ _ _ n _ \<Rightarrow> n | Whole bs \<Rightarrow> length bs)"

definition num_entries :: "HFileReader \<Rightarrow> nat" where
  "num_entries rd = tr_entry_count (hf_trailer rd)"

definition get_file_info :: "HFileReader \<Rightarrow> string \<Rightarrow> byte list option" where
  "get_file_info rd k = bm_get (hf_file_info rd) k"

definition get_meta_block :: "hfile_codecs \<Rightarrow> HFileReader \<Rightarrow> string \<Rightarrow> byte list option result" where
  "get_meta_block hc rd n = (case bm_get (hf_meta_block_index rd) n of
      None \<Rightarrow> Ok None
    | Some e \<Rightarrow> res_bind (read_block_at hc rd (ie_offset e) (ie_size e)) (\<lambda>b.
        res_bind (expect_type BtMeta b) (\<lambda>_. Ok (Some (hb_data b)))))"

definition avro_schema_json :: "HFileReader \<Rightarrow> string option result" where
  "avro_schema_json rd = (case bm_get (hf_file_info rd) FILE_INFO_SCHEMA of
      None \<Rightarrow> Ok None
    | Some bs \<Rightarrow> (case from_utf8 bs of Inl _ \<Rightarrow> Err HFileError | Inr s \<Rightarrow> Ok (Some s)))"

definition get_avro_schema :: "(string \<Rightarrow> 'schema result) \<Rightarrow> HFileReader \<Rightarrow> 'schema option result" where
  "get_avro_schema parse_schema rd = res_bind (avro_schema_json rd) (\<lambda>j. case j of
      None \<Rightarrow> Ok None
    | Some s \<Rightarrow> (case parse_schema s of Inl _ \<Rightarrow> Err HFileError | Inr x \<Rightarrow> Ok (Some x)))"

definition read_min_max_record_keys :: "HFileReader \<Rightarrow> (string \<times> string) option" where
  "read_min_max_record_keys rd = (case bm_get (hf_file_info rd) FILE_INFO_MIN_RECORD_KEY of
      None \<Rightarrow> None
    | Some mn \<Rightarrow> (case bm_get (hf_file_info rd) FILE_INFO_MAX_RECORD_KEY of
        None \<Rightarrow> None
      | Some mx \<Rightarrow> (case from_utf8 mn of Inl _ \<Rightarrow> None
          | Inr a \<Rightarrow> (case from_utf8 mx of Inl _ \<Rightarrow> None | Inr b \<Rightarrow> Some (a, b)))))"

section \<open>Selecting blocks\<close>

definition hf_data_block_entries :: "HFileReader \<Rightarrow> BlockIndexEntry list" where
  "hf_data_block_entries rd = map snd (hf_data_block_index rd)"

text \<open>\<open>range(..=probe).rev()\<close>.\<close>

definition at_or_below :: "block_index \<Rightarrow> byte list \<Rightarrow> (byte list \<times> BlockIndexEntry) list" where
  "at_or_below m probe = rev (takeWhile (\<lambda>(k, _). k \<le> probe) m)"

definition select_entry :: "(nat, BlockIndexEntry) btree_map \<Rightarrow> BlockIndexEntry \<Rightarrow> (nat, BlockIndexEntry) btree_map" where
  "select_entry m e = bm_insert (ie_offset e) e m"

text \<open>A key too long for its length prefix selects every block at once.\<close>

fun blocks_for_keys_from :: "HFileReader \<Rightarrow> (nat, BlockIndexEntry) btree_map \<Rightarrow> string list \<Rightarrow> BlockIndexEntry list" where
  "blocks_for_keys_from rd selected [] = map snd selected"
| "blocks_for_keys_from rd selected (key # keys) =
     (if key_from_content (str_bytes key) = None then hf_data_block_entries rd
      else blocks_for_keys_from rd
        (case at_or_below (hf_data_block_index rd) (str_bytes key) of
           [] \<Rightarrow> selected
         | (index_key, e) # below \<Rightarrow>
             (let sel = select_entry selected e in
              if index_key = str_bytes key then (case below of [] \<Rightarrow> sel | (_, previous) # _ \<Rightarrow> select_entry sel previous)
              else sel)) keys)"

definition blocks_for_keys :: "HFileReader \<Rightarrow> string list \<Rightarrow> BlockIndexEntry list" where
  "blocks_for_keys rd keys = blocks_for_keys_from rd [] keys"

fun prefix_upper_bound_rev :: "byte list \<Rightarrow> byte list option" where
  "prefix_upper_bound_rev [] = None"
| "prefix_upper_bound_rev (b # upper) =
     (if b \<noteq> 255 then Some (rev ((b + 1) # upper)) else prefix_upper_bound_rev upper)"

definition prefix_upper_bound :: "byte list \<Rightarrow> byte list option" where
  "prefix_upper_bound pre = prefix_upper_bound_rev (rev pre)"

definition blocks_for_prefix :: "HFileReader \<Rightarrow> string \<Rightarrow> BlockIndexEntry list" where
  "blocks_for_prefix rd pre = (let lower = str_bytes pre; m = hf_data_block_index rd in
     if key_from_content lower = None then hf_data_block_entries rd
     else let selected = (case at_or_below m lower of [] \<Rightarrow> [] | (_, e) # _ \<Rightarrow> select_entry [] e);
              span = (case prefix_upper_bound lower of
                  Some upper \<Rightarrow> filter (\<lambda>(k, _). lower \<le> k \<and> k < upper) m
                | None \<Rightarrow> filter (\<lambda>(k, _). lower \<le> k) m)
          in map snd (foldl select_entry selected (map snd span)))"

datatype KeyPredicate = PredicateKeys "string list" | PredicatePrefixes "string list"

definition blocks_for_predicate :: "HFileReader \<Rightarrow> KeyPredicate \<Rightarrow> BlockIndexEntry list" where
  "blocks_for_predicate rd p = (case p of
      PredicateKeys keys \<Rightarrow> blocks_for_keys rd keys
    | PredicatePrefixes pres \<Rightarrow>
        map snd (foldl (\<lambda>sel pre. foldl select_entry sel (blocks_for_prefix rd pre)) [] pres))"

section \<open>Testing keys\<close>

definition predicate_admits :: "KeyPredicate \<Rightarrow> string \<Rightarrow> bool" where
  "predicate_admits p key = (case p of
      PredicateKeys keys \<Rightarrow> list_ex (\<lambda>k. k = key) keys
    | PredicatePrefixes pres \<Rightarrow> list_ex (\<lambda>pre. starts_with pre key) pres)"

text \<open>The predicate prepared for many tests: the keys as a set.\<close>

datatype KeyMatcher = MatchKeys "string set" | MatchPrefixes "string list"

definition key_matcher :: "KeyPredicate \<Rightarrow> KeyMatcher" where
  "key_matcher p = (case p of PredicateKeys keys \<Rightarrow> MatchKeys (set keys) | PredicatePrefixes pres \<Rightarrow> MatchPrefixes pres)"

definition matcher_admits :: "KeyMatcher \<Rightarrow> string \<Rightarrow> bool" where
  "matcher_admits m key = (case m of
      MatchKeys keys \<Rightarrow> key \<in> keys
    | MatchPrefixes pres \<Rightarrow> list_ex (\<lambda>pre. starts_with pre key) pres)"

lemma matcher_admits_predicate [simp]: "matcher_admits (key_matcher p) = predicate_admits p"
  by (rule ext) (cases p; simp add: key_matcher_def matcher_admits_def predicate_admits_def list_ex_iff)

end
