(* ===== verification/HFile_Cursor.thy ===== *)
theory HFile_Cursor
  imports HFile_Reader
begin

text \<open>
  The cursor of the HFile reader (\<open>hfile/reader.rs\<close>): seeking to the first record and to a key,
  stepping through the records, and the lookups of the metadata table. An operation returns its
  result and the reader after it; one that may loop for ever is a partial function.
\<close>

section \<open>Loading a block\<close>

type_synonym 'a hf = "(HFileReader, 'a) rd"

definition set_cursor :: "nat \<Rightarrow> KeyValue option \<Rightarrow> HFileReader \<Rightarrow> HFileReader" where
  "set_cursor off kv rd = rd\<lparr>hf_cursor := (hf_cursor rd)\<lparr>cu_offset := off, cu_cached_kv := kv\<rparr>\<rparr>"

definition set_eof :: "HFileReader \<Rightarrow> HFileReader" where
  "set_eof rd = rd\<lparr>hf_cursor := (hf_cursor rd)\<lparr>cu_eof := True\<rparr>\<rparr>"

definition load_data_block :: "hfile_codecs \<Rightarrow> BlockIndexEntry \<Rightarrow> unit hf" where
  "load_data_block hc e rd =
     (case res_bind (read_block_at hc rd (ie_offset e) (ie_size e)) (expect_type BtData) of
        Inl err \<Rightarrow> (Err err, rd)
      | Inr b \<Rightarrow> (Ok (), rd\<lparr>hf_current_block := Some (data_block_from b)\<rparr>))"

text \<open>Moving to the start of a block.\<close>

definition enter_block :: "hfile_codecs \<Rightarrow> BlockIndexEntry \<Rightarrow> unit hf" where
  "enter_block hc e rd = (case load_data_block hc e (rd\<lparr>hf_current_block_entry := Some e\<rparr>) of
      (Inl err, rd1) \<Rightarrow> (Err err, rd1)
    | (Inr _, rd1) \<Rightarrow> (Ok (), set_cursor (uadd (ie_offset e) BLOCK_HEADER_SIZE) None rd1))"

definition seek_to_first :: "hfile_codecs \<Rightarrow> bool hf" where
  "seek_to_first hc rd =
     (let at_end = rd\<lparr>hf_cursor := (hf_cursor rd)\<lparr>cu_eof := True, cu_seeked := True\<rparr>\<rparr> in
      if tr_entry_count (hf_trailer rd) = 0 then (Ok False, at_end)
      else case hf_data_block_index rd of
        [] \<Rightarrow> (Ok False, at_end)
      | (_, first_entry) # _ \<Rightarrow> (case enter_block hc first_entry rd of
          (Inl err, rd1) \<Rightarrow> (Err err, rd1)
        | (Inr _, rd1) \<Rightarrow> (Ok True, rd1\<lparr>hf_cursor := (hf_cursor rd1)\<lparr>cu_eof := False, cu_seeked := True\<rparr>\<rparr>)))"

text \<open>The offset of the cursor within the current block.\<close>

definition offset_in_block :: "HFileReader \<Rightarrow> BlockIndexEntry \<Rightarrow> nat" where
  "offset_in_block rd e = usub (usub (cu_offset (hf_cursor rd)) (ie_offset e)) BLOCK_HEADER_SIZE"

definition get_key_value :: "hfile_codecs \<Rightarrow> KeyValue option hf" where
  "get_key_value hc rd =
     (if \<not> cu_seeked (hf_cursor rd) \<or> cu_eof (hf_cursor rd) then (Ok None, rd)
      else case cu_cached_kv (hf_cursor rd) of
        Some kv \<Rightarrow> (Ok (Some kv), rd)
      | None \<Rightarrow> (case hf_current_block_entry rd of
          None \<Rightarrow> (Err Panic, rd)
        | Some e \<Rightarrow>
            (case (if hf_current_block rd = None then load_data_block hc e rd else (Ok (), rd)) of
              (Inl err, rd1) \<Rightarrow> (Err err, rd1)
            | (Inr _, rd1) \<Rightarrow> (case hf_current_block rd1 of
                None \<Rightarrow> (Err Panic, rd1)
              | Some b \<Rightarrow> (case read_key_value b (offset_in_block rd1 e) of
                  Inl err \<Rightarrow> (Err err, rd1)
                | Inr kv \<Rightarrow> (Ok (Some kv), rd1\<lparr>hf_cursor := (hf_cursor rd1)\<lparr>cu_cached_kv := Some kv\<rparr>\<rparr>))))))"

definition is_at_first_key_of_block :: "HFileReader \<Rightarrow> bool" where
  "is_at_first_key_of_block rd = (case hf_current_block_entry rd of
      None \<Rightarrow> False | Some e \<Rightarrow> cu_offset (hf_cursor rd) = uadd (ie_offset e) BLOCK_HEADER_SIZE)"

definition get_next_block_entry :: "HFileReader \<Rightarrow> BlockIndexEntry \<Rightarrow> BlockIndexEntry option result" where
  "get_next_block_entry rd current = res_bind (key_content (ie_first_key current)) (\<lambda>c.
     Ok (map_option snd (find (\<lambda>(k, _). c < k) (hf_data_block_index rd))))"

definition hf_next :: "hfile_codecs \<Rightarrow> bool hf" where
  "hf_next hc rd =
     (if \<not> cu_seeked (hf_cursor rd) \<or> cu_eof (hf_cursor rd) then (Ok False, rd)
      else case hf_current_block rd of
        None \<Rightarrow> (Ok False, rd)
      | Some b \<Rightarrow> (case hf_current_block_entry rd of
          None \<Rightarrow> (Err Panic, rd)
        | Some e \<Rightarrow>
            let current_offset = offset_in_block rd e in
            (case (case cu_cached_kv (hf_cursor rd) of Some kv \<Rightarrow> Ok kv | None \<Rightarrow> read_key_value b current_offset) of
               Inl err \<Rightarrow> (Err err, rd)
             | Inr kv \<Rightarrow>
                 let next_offset = uadd current_offset (record_size kv) in
                 if is_valid_offset b next_offset
                 then (Ok True, set_cursor (uadd (uadd (ie_offset e) BLOCK_HEADER_SIZE) next_offset) None rd)
                 else case get_next_block_entry rd e of
                   Inl err \<Rightarrow> (Err err, rd)
                 | Inr None \<Rightarrow> (Ok False, set_eof rd)
                 | Inr (Some e') \<Rightarrow> (case enter_block hc e' rd of
                     (Inl err, rd1) \<Rightarrow> (Err err, rd1) | (Inr _, rd1) \<Rightarrow> (Ok True, rd1)))))"

section \<open>Seeking to a key\<close>

text \<open>The probe is made of the bare bytes of the key, whose first two are then read as a length.\<close>

definition find_block_for_key :: "hfile_codecs \<Rightarrow> string \<Rightarrow> unit hf" where
  "find_block_for_key hc lookup_key rd =
     (case key_content (key_from_bytes (str_bytes lookup_key)) of
        Inl err \<Rightarrow> (Err err, rd)
      | Inr probe \<Rightarrow> (case at_or_below (hf_data_block_index rd) probe of
          [] \<Rightarrow> (Ok (), rd)
        | (_, e) # _ \<Rightarrow> enter_block hc e rd))"

partial_function (option) scan_block_for_key :: "hfile_codecs \<Rightarrow> string \<Rightarrow> HFileReader \<Rightarrow> nat \<Rightarrow> nat \<Rightarrow>
    KeyValue option \<Rightarrow> (SeekResult result \<times> HFileReader) option" where
  "scan_block_for_key hc lookup_key rd off last_offset last_kv =
     (case hf_current_block rd of
        None \<Rightarrow> Some (Ok Eof, rd)
      | Some b \<Rightarrow> (case hf_current_block_entry rd of
          None \<Rightarrow> Some (Err Panic, rd)
        | Some e \<Rightarrow>
            if is_valid_offset b off then
              (case res_bind (read_key_value b off) (\<lambda>kv. res_bind (compare_keys (kv_key kv) lookup_key) (\<lambda>c. Ok (kv, c))) of
                 Inl err \<Rightarrow> Some (Err err, rd)
               | Inr (kv, c) \<Rightarrow> (case c of
                   Equal \<Rightarrow> Some (Ok Found, set_cursor (uadd (uadd (ie_offset e) BLOCK_HEADER_SIZE) off) (Some kv) rd)
                 | Greater \<Rightarrow>
                     let rd1 = (case last_kv of
                         Some prev_kv \<Rightarrow> set_cursor (uadd (uadd (ie_offset e) BLOCK_HEADER_SIZE) last_offset) (Some prev_kv) rd
                       | None \<Rightarrow> rd)
                     in Some (Ok (if is_at_first_key_of_block rd1 then BeforeBlockFirstKey else InRange), rd1)
                 | Less \<Rightarrow> scan_block_for_key hc lookup_key rd (uadd off (record_size kv)) off (Some kv)))
            else (case get_next_block_entry rd e of
                Inl err \<Rightarrow> Some (Err err, rd)
              | Inr (Some e') \<Rightarrow> (case enter_block hc e' rd of
                  (Inl err, rd1) \<Rightarrow> Some (Err err, rd1)
                | (Inr _, rd1) \<Rightarrow>
                    scan_block_for_key hc lookup_key rd1 (offset_in_block rd1 e') (offset_in_block rd1 e')
                      (cu_cached_kv (hf_cursor rd1)))
              | Inr None \<Rightarrow> (case last_kv of
                  None \<Rightarrow> Some (Ok InRange, rd)
                | Some kv \<Rightarrow> (case compare_keys (kv_key kv) lookup_key of
                    Inl err \<Rightarrow> Some (Err err, rd)
                  | Inr c \<Rightarrow>
                      if c = Less then Some (Ok Eof, rd\<lparr>hf_cursor := (hf_cursor rd)\<lparr>cu_eof := True, cu_cached_kv := None\<rparr>\<rparr>)
                      else Some (Ok InRange,
                        set_cursor (uadd (uadd (ie_offset e) BLOCK_HEADER_SIZE) last_offset) (Some kv) rd))))))"

declare scan_block_for_key.simps [code]

text \<open>The scan starts at the cursor.\<close>

definition scan_from_cursor :: "hfile_codecs \<Rightarrow> string \<Rightarrow> HFileReader \<Rightarrow> (SeekResult result \<times> HFileReader) option" where
  "scan_from_cursor hc lookup_key rd =
     (let off = (case hf_current_block_entry rd of None \<Rightarrow> 0 | Some e \<Rightarrow> offset_in_block rd e)
      in scan_block_for_key hc lookup_key rd off off (cu_cached_kv (hf_cursor rd)))"

definition forward_seek :: "hfile_codecs \<Rightarrow> string \<Rightarrow> HFileReader \<Rightarrow> (SeekResult result \<times> HFileReader) option" where
  "forward_seek hc lookup_key rd =
     (case hf_current_block_entry rd of
        None \<Rightarrow> scan_from_cursor hc lookup_key rd
      | Some e \<Rightarrow> (case ie_next_block_first_key e of
          Some next_key \<Rightarrow> (case compare_keys next_key lookup_key of
              Inl err \<Rightarrow> Some (Err err, rd)
            | Inr c \<Rightarrow>
                if c \<noteq> Greater
                then (case find_block_for_key hc lookup_key rd of
                    (Inl err, rd1) \<Rightarrow> Some (Err err, rd1)
                  | (Inr _, rd1) \<Rightarrow> scan_from_cursor hc lookup_key rd1)
                else scan_from_cursor hc lookup_key rd)
        | None \<Rightarrow> (case hf_last_key rd of
            None \<Rightarrow> scan_from_cursor hc lookup_key rd
          | Some last_key \<Rightarrow> (case compare_keys last_key lookup_key of
              Inl err \<Rightarrow> Some (Err err, rd)
            | Inr c \<Rightarrow>
                if c = Less
                then Some (Ok Eof, (set_eof rd)\<lparr>hf_current_block := None, hf_current_block_entry := None\<rparr>)
                else scan_from_cursor hc lookup_key rd))))"

text \<open>The outcome when the current key is above the key sought.\<close>

definition backward_seek :: "string \<Rightarrow> HFileReader \<Rightarrow> SeekResult result" where
  "backward_seek lookup_key rd =
     res_bind (case hf_current_block_entry rd of
         None \<Rightarrow> Ok False
       | Some e \<Rightarrow> if is_at_first_key_of_block rd
           then res_bind (compare_keys (ie_first_key e) lookup_key) (\<lambda>c. Ok (c \<noteq> Greater)) else Ok False) (\<lambda>before_block.
     if before_block then Ok BeforeBlockFirstKey
     else if hf_data_block_index rd \<noteq> [] \<and> is_at_first_key_of_block rd then Ok BeforeFileFirstKey
     else Err HFileError)"

definition hf_seek_to :: "hfile_codecs \<Rightarrow> string \<Rightarrow> HFileReader \<Rightarrow> (SeekResult result \<times> HFileReader) option" where
  "hf_seek_to hc lookup_key rd =
     (case (if cu_seeked (hf_cursor rd) then (Ok True, rd) else seek_to_first hc rd) of
        (Inl err, rd1) \<Rightarrow> Some (Err err, rd1)
      | (Inr _, rd1) \<Rightarrow>
          if tr_entry_count (hf_trailer rd1) = 0 then Some (Ok Eof, rd1)
          else (case get_key_value hc rd1 of
              (Inl err, rd2) \<Rightarrow> Some (Err err, rd2)
            | (Inr None, rd2) \<Rightarrow> Some (Ok Eof, rd2)
            | (Inr (Some kv), rd2) \<Rightarrow> (case compare_keys (kv_key kv) lookup_key of
                Inl err \<Rightarrow> Some (Err err, rd2)
              | Inr Equal \<Rightarrow> Some (Ok Found, rd2)
              | Inr Greater \<Rightarrow> Some (backward_seek lookup_key rd2, rd2)
              | Inr Less \<Rightarrow> forward_seek hc lookup_key rd2)))"

section \<open>Records\<close>

definition key_value_to_record :: "KeyValue \<Rightarrow> HFileRecord result" where
  "key_value_to_record kv = res_bind (key_content (kv_key kv)) (\<lambda>k. res_bind (kv_value kv) (\<lambda>v.
     Ok \<lparr>hr_key = k, hr_value = v\<rparr>))"

text \<open>One step of the iterators over the file.\<close>

definition iterator_next :: "hfile_codecs \<Rightarrow> KeyValue option hf" where
  "iterator_next hc rd =
     (if cu_eof (hf_cursor rd) then (Ok None, rd)
      else case get_key_value hc rd of
        (Inr (Some kv), rd1) \<Rightarrow> (case hf_next hc rd1 of (Inl err, rd2) \<Rightarrow> (Err err, rd2) | (Inr _, rd2) \<Rightarrow> (Ok (Some kv), rd2))
      | (Inr None, rd1) \<Rightarrow> (Ok None, rd1)
      | (Inl err, rd1) \<Rightarrow> (Err err, rd1))"

definition record_iterator_next :: "hfile_codecs \<Rightarrow> HFileRecord option hf" where
  "record_iterator_next hc rd =
     (if cu_eof (hf_cursor rd) then (Ok None, rd)
      else case get_key_value hc rd of
        (Inr (Some kv), rd1) \<Rightarrow> (case key_value_to_record kv of
            Inl err \<Rightarrow> (Err err, rd1)
          | Inr r \<Rightarrow> (case hf_next hc rd1 of (Inl err, rd2) \<Rightarrow> (Err err, rd2) | (Inr _, rd2) \<Rightarrow> (Ok (Some r), rd2)))
      | (Inr None, rd1) \<Rightarrow> (Ok None, rd1)
      | (Inl err, rd1) \<Rightarrow> (Err err, rd1))"

partial_function (option) collect_from :: "hfile_codecs \<Rightarrow> HFileRecord list \<Rightarrow> HFileReader \<Rightarrow>
    (HFileRecord list result \<times> HFileReader) option" where
  "collect_from hc acc rd =
     (case iterator_next hc rd of
        (Inl err, rd1) \<Rightarrow> Some (Err err, rd1)
      | (Inr None, rd1) \<Rightarrow> Some (Ok acc, rd1)
      | (Inr (Some kv), rd1) \<Rightarrow> (case key_value_to_record kv of
          Inl err \<Rightarrow> Some (Err err, rd1)
        | Inr r \<Rightarrow> collect_from hc (acc @ [r]) rd1))"

declare collect_from.simps [code]

definition hfile_records :: "hfile_codecs \<Rightarrow> HFileReader \<Rightarrow> (HFileRecord list result \<times> HFileReader) option" where
  "hfile_records hc rd = (case seek_to_first hc rd of
      (Inl err, rd1) \<Rightarrow> Some (Err err, rd1)
    | (Inr _, rd1) \<Rightarrow> collect_from hc [] rd1)"

definition get_record :: "hfile_codecs \<Rightarrow> HFileRecord option hf" where
  "get_record hc rd = (case get_key_value hc rd of
      (Inl err, rd1) \<Rightarrow> (Err err, rd1)
    | (Inr None, rd1) \<Rightarrow> (Ok None, rd1)
    | (Inr (Some kv), rd1) \<Rightarrow> (res_bind (key_value_to_record kv) (\<lambda>r. Ok (Some r)), rd1))"

section \<open>Lookups\<close>

fun lookup_each :: "hfile_codecs \<Rightarrow> string list \<Rightarrow> HFileReader \<Rightarrow>
    ((string \<times> HFileRecord option) list result \<times> HFileReader) option" where
  "lookup_each hc [] rd = Some (Ok [], rd)"
| "lookup_each hc (key # keys) rd = Option.bind (hf_seek_to hc key rd) (\<lambda>(sr, rd1).
     case sr of
       Inl err \<Rightarrow> Some (Err err, rd1)
     | Inr s \<Rightarrow> (case (if s = Found then get_record hc rd1 else (Ok None, rd1)) of
         (Inl err, rd2) \<Rightarrow> Some (Err err, rd2)
       | (Inr r, rd2) \<Rightarrow> map_option (\<lambda>(rs, rd3). (res_bind rs (\<lambda>xs. Ok ((key, r) # xs)), rd3)) (lookup_each hc keys rd2)))"

definition lookup_records :: "hfile_codecs \<Rightarrow> string list \<Rightarrow> HFileReader \<Rightarrow>
    ((string \<times> HFileRecord option) list result \<times> HFileReader) option" where
  "lookup_records hc keys rd =
     (if keys = [] then Some (Ok [], rd)
      else case seek_to_first hc rd of
        (Inl err, rd1) \<Rightarrow> Some (Err err, rd1)
      | (Inr _, rd1) \<Rightarrow>
          if cu_eof (hf_cursor rd1) then Some (Ok (map (\<lambda>k. (k, None)) keys), rd1)
          else lookup_each hc keys rd1)"

partial_function (option) collect_prefix_from :: "hfile_codecs \<Rightarrow> byte list \<Rightarrow> HFileRecord list \<Rightarrow> HFileReader \<Rightarrow>
    (HFileRecord list result \<times> HFileReader) option" where
  "collect_prefix_from hc pre acc rd =
     (if cu_eof (hf_cursor rd) then Some (Ok acc, rd)
      else case get_key_value hc rd of
        (Inl err, rd1) \<Rightarrow> Some (Err err, rd1)
      | (Inr None, rd1) \<Rightarrow> Some (Ok acc, rd1)
      | (Inr (Some kv), rd1) \<Rightarrow>
          (case res_bind (key_content (kv_key kv)) (\<lambda>c.
              if take (length pre) c = pre then res_bind (key_value_to_record kv) (\<lambda>r. Ok (False, acc @ [r]))
              else Ok (pre < c, acc)) of
             Inl err \<Rightarrow> Some (Err err, rd1)
           | Inr (past, acc') \<Rightarrow>
               if past then Some (Ok acc', rd1)
               else (case hf_next hc rd1 of
                   (Inl err, rd2) \<Rightarrow> Some (Err err, rd2)
                 | (Inr moved, rd2) \<Rightarrow> if moved then collect_prefix_from hc pre acc' rd2 else Some (Ok acc', rd2))))"

declare collect_prefix_from.simps [code]

definition collect_records_by_prefix :: "hfile_codecs \<Rightarrow> string \<Rightarrow> HFileReader \<Rightarrow>
    (HFileRecord list result \<times> HFileReader) option" where
  "collect_records_by_prefix hc pre rd = (case seek_to_first hc rd of
      (Inl err, rd1) \<Rightarrow> Some (Err err, rd1)
    | (Inr _, rd1) \<Rightarrow>
        if cu_eof (hf_cursor rd1) then Some (Ok [], rd1)
        else Option.bind (hf_seek_to hc pre rd1) (\<lambda>(sr, rd2). case sr of
            Inl err \<Rightarrow> Some (Err err, rd2)
          | Inr Eof \<Rightarrow> Some (Ok [], rd2)
          | Inr BeforeFileFirstKey \<Rightarrow> (case seek_to_first hc rd2 of
              (Inl err, rd3) \<Rightarrow> Some (Err err, rd3)
            | (Inr _, rd3) \<Rightarrow> collect_prefix_from hc (str_bytes pre) [] rd3)
          | Inr _ \<Rightarrow> collect_prefix_from hc (str_bytes pre) [] rd2))"

section \<open>Blocks in one request\<close>

text \<open>The records of one block, through the block's iterator.\<close>

partial_function (option) block_records_from :: "DataBlock \<Rightarrow> HFileRecord list \<Rightarrow> nat \<Rightarrow> HFileRecord list result option" where
  "block_records_from b acc off =
     (case block_iter_next b off of
        Inl err \<Rightarrow> Some (Err err)
      | Inr None \<Rightarrow> Some (Ok acc)
      | Inr (Some (kv, off')) \<Rightarrow> (case key_value_to_record kv of
          Inl err \<Rightarrow> Some (Err err)
        | Inr r \<Rightarrow> block_records_from b (acc @ [r]) off'))"

declare block_records_from.simps [code]

definition records_in_block :: "hfile_codecs \<Rightarrow> HFileReader \<Rightarrow> BlockIndexEntry \<Rightarrow> HFileRecord list result option" where
  "records_in_block hc rd e =
     (case res_bind (read_block_at hc rd (ie_offset e) (ie_size e)) (expect_type BtData) of
        Inl err \<Rightarrow> Some (Err err)
      | Inr b \<Rightarrow> block_records_from (data_block_from b) [] 0)"

fun records_of_blocks :: "HFileRecord list \<Rightarrow> HFileBlock list \<Rightarrow> HFileRecord list result option" where
  "records_of_blocks acc [] = Some (Ok acc)"
| "records_of_blocks acc (b # bs) = (case expect_type BtData b of
     Inl err \<Rightarrow> Some (Err err)
   | Inr _ \<Rightarrow> Option.bind (block_records_from (data_block_from b) acc 0) (\<lambda>r. case r of
       Inl err \<Rightarrow> Some (Err err) | Inr acc' \<Rightarrow> records_of_blocks acc' bs))"

definition read_records_batched :: "hfile_codecs \<Rightarrow> HFileReader \<Rightarrow> BlockIndexEntry list \<Rightarrow> HFileRecord list result option" where
  "read_records_batched hc rd es =
     (if es = [] then Some (Ok [])
      else case fetch_blocks hc rd es of Inl err \<Rightarrow> Some (Err err) | Inr blocks \<Rightarrow> records_of_blocks [] blocks)"

end
