(* ===== verification/HFile_Layout.thy ===== *)
theory HFile_Layout
  imports HFile_Cursor
begin

text \<open>
  Well-formed HFile data: records as the format lays them out, blocks that hold records, and a
  reader over a file of such blocks. The parser reads the records back at their offsets.
\<close>

section \<open>Words\<close>

lemma usize_of_nat [simp]: "n < 2 ^ 64 \<Longrightarrow> usize_of_int (int n) = n"
  by (simp add: usize_of_int_def nat_mod_distrib flip: of_nat_mod)

lemma uadd_small [simp]: "a + b < 2 ^ 64 \<Longrightarrow> uadd a b = a + b"
  by (simp add: uadd_def)

lemma usub_small [simp]: "b \<le> a \<Longrightarrow> a < 2 ^ 64 \<Longrightarrow> usub a b = a - b"
  using usize_of_nat [of "a - b"] by (simp add: usub_def of_nat_diff)

lemma usat_small [simp]: "a + b < 2 ^ 64 \<Longrightarrow> usat a b = a + b"
  by (simp add: usat_def)

lemma be_int_be_bytes: "2 * v < 256 ^ n \<Longrightarrow> be_int (be_bytes n v) = int v"
  by (simp add: be_int_def Let_def)

lemma bytes_at_append: "off = length a \<Longrightarrow> n = length b \<Longrightarrow> bytes_at (a @ b @ c) off n = Ok b"
  by (simp add: bytes_at_def)

lemma read_i32_append: "off = length a \<Longrightarrow> v < 2 ^ 31 \<Longrightarrow> read_i32 (a @ be_bytes 4 v @ c) off = Ok v"
  by (simp add: read_i32_def bytes_at_append be_int_be_bytes)

lemma slice_append: "a = length xs \<Longrightarrow> b = a + length ys \<Longrightarrow> slice (xs @ ys @ zs) a b = Ok ys"
  by (simp add: slice_def)

section \<open>Records\<close>

text \<open>A record: the content of its key, the rest of the key (family, timestamp, type), its value
  and the MVCC byte.\<close>

record hkv =
  hk_content :: "byte list"
  hk_rest :: "byte list"
  hk_value :: "byte list"
  hk_mvcc :: byte

definition hkv_ok :: "hkv \<Rightarrow> bool" where
  "hkv_ok r \<longleftrightarrow> length (hk_content r) < 2 ^ 15 \<and> length (hk_rest r) < 2 ^ 30 \<and> length (hk_value r) < 2 ^ 31"

definition key_part :: "hkv \<Rightarrow> byte list" where
  "key_part r = be_bytes 2 (length (hk_content r)) @ hk_content r @ hk_rest r"

definition encode_hkv :: "hkv \<Rightarrow> byte list" where
  "encode_hkv r = be_bytes 4 (length (key_part r)) @ be_bytes 4 (length (hk_value r)) @ key_part r @ hk_value r @ [hk_mvcc r]"

definition hkv_record :: "hkv \<Rightarrow> HFileRecord" where
  "hkv_record r = \<lparr>hr_key = hk_content r, hr_value = hk_value r\<rparr>"

lemma length_key_part: "hkv_ok r \<Longrightarrow> length (key_part r) < 2 ^ 31"
  by (simp add: key_part_def hkv_ok_def)

lemma length_encode: "length (encode_hkv r) = 9 + length (key_part r) + length (hk_value r)"
  by (simp add: encode_hkv_def)

lemma encode_nonempty [simp]: "encode_hkv r \<noteq> []"
  using length_encode [of r] by auto

text \<open>What a parsed record shows of the record.\<close>

definition kv_view :: "hkv \<Rightarrow> KeyValue \<Rightarrow> bool" where
  "kv_view r kv \<longleftrightarrow> key_content (kv_key kv) = Ok (hk_content r) \<and> kv_value kv = Ok (hk_value r) \<and>
     record_size kv = length (encode_hkv r)"

lemma key_content_parts:
  assumes "length c < 2 ^ 15" "length rest < 2 ^ 31"
  shows "key_content \<lparr>k_bytes = be_bytes 2 (length c) @ c @ rest, k_offset = 0, k_length = n\<rparr> = Ok c"
proof -
  have "content_length \<lparr>k_bytes = be_bytes 2 (length c) @ c @ rest, k_offset = 0, k_length = n\<rparr> = length c"
    using assms by (simp add: content_length_def be_int_be_bytes)
  then show ?thesis
    using assms slice_append [of "Suc (Suc 0)" "be_bytes 2 (length c)" "Suc (Suc (length c))" c rest]
    by (simp add: key_content_def content_offset_def Let_def)
qed

lemma kv_parse_encoded:
  assumes "hkv_ok r" "off = length pre" "length pre + length (encode_hkv r) + length post < 2 ^ 63"
  shows "\<exists>kv. kv_parse (pre @ encode_hkv r @ post) off = Ok kv \<and> kv_view r kv"
proof -
  let ?k = "key_part r" and ?v = "hk_value r"
  have lens: "length ?k < 2 ^ 31" "length ?v < 2 ^ 31" using length_key_part assms(1) by (auto simp: hkv_ok_def)
  have data: "pre @ encode_hkv r @ post = pre @ be_bytes 4 (length ?k) @ be_bytes 4 (length ?v) @ ?k @ ?v @ hk_mvcc r # post"
    by (simp add: encode_hkv_def)
  have k: "read_i32 (pre @ encode_hkv r @ post) off = Ok (length ?k)"
    unfolding data using assms(2) lens by (intro read_i32_append)
  have v: "read_i32 (pre @ encode_hkv r @ post) (off + 4) = Ok (length ?v)"
    using assms(2) lens read_i32_append [of "off + 4" "pre @ be_bytes 4 (length ?k)" "length ?v"]
    by (simp add: data)
  have small: "length pre + (9 + length ?k + length ?v) < 2 ^ 63" using assms(3) length_encode [of r] by linarith
  have key: "key_new (pre @ encode_hkv r @ post) (off + 8) (length ?k) = \<lparr>k_bytes = ?k, k_offset = 0, k_length = length ?k\<rparr>"
    using assms(2) small by (simp add: key_new_def data Let_def)
  let ?kv = "\<lparr>kv_bytes = be_bytes 4 (length ?k) @ be_bytes 4 (length ?v) @ ?k @ ?v, kv_offset = 0,
    kv_key = \<lparr>k_bytes = ?k, k_offset = 0, k_length = length ?k\<rparr>, kv_key_length = length ?k, kv_value_length = length ?v\<rparr>"
  have "kv_parse (pre @ encode_hkv r @ post) off = Ok ?kv"
    unfolding kv_parse_def k v KEY_VALUE_HEADER_SIZE_def Let_def res_bind_simps key
    using assms(2) small by (simp add: data)
  moreover have "key_content (kv_key ?kv) = Ok (hk_content r)"
    using assms(1) key_content_parts [of "hk_content r" "hk_rest r"] by (simp add: key_part_def hkv_ok_def)
  moreover have "kv_value ?kv = Ok ?v"
    using lens slice_append [of "8 + length ?k" "be_bytes 4 (length ?k) @ be_bytes 4 (length ?v) @ ?k" "8 + length ?k + length ?v" ?v "[]"]
    by (simp add: kv_value_def KEY_VALUE_HEADER_SIZE_def Let_def)
  moreover have "record_size ?kv = length (encode_hkv r)"
    using lens by (simp add: record_size_def KEY_VALUE_HEADER_SIZE_def length_encode)
  ultimately show ?thesis unfolding kv_view_def by blast
qed

lemma kv_view_record: "kv_view r kv \<Longrightarrow> key_value_to_record kv = Ok (hkv_record r)"
  by (simp add: kv_view_def key_value_to_record_def hkv_record_def)

section \<open>Blocks\<close>

definition encode_block :: "hkv list \<Rightarrow> byte list" where
  "encode_block rs = concat (map encode_hkv rs)"

lemma encode_block_simps [simp]: "encode_block [] = []" "encode_block (r # rs) = encode_hkv r @ encode_block rs"
  "encode_block (rs @ ss) = encode_block rs @ encode_block ss"
  by (simp_all add: encode_block_def)

definition block_holds :: "DataBlock \<Rightarrow> hkv list \<Rightarrow> bool" where
  "block_holds b rs \<longleftrightarrow> db_data b = encode_block rs \<and> db_content_end b = length (db_data b) \<and> list_all hkv_ok rs \<and>
     length (encode_block rs) < 2 ^ 32"

lemma block_read:
  assumes "block_holds b (done @ r # rest)"
  shows "\<exists>kv. read_key_value b (length (encode_block done)) = Ok kv \<and> kv_view r kv"
  using assms kv_parse_encoded [of r "length (encode_block done)" "encode_block done" "encode_block rest"]
  by (simp add: block_holds_def read_key_value_def)

lemma block_valid:
  "block_holds b (done @ rest) \<Longrightarrow> is_valid_offset b (length (encode_block done)) \<longleftrightarrow> rest \<noteq> []"
  by (cases rest) (simp_all add: block_holds_def is_valid_offset_def)

lemma block_offset_small: "block_holds b (done @ rest) \<Longrightarrow> length (encode_block done) < 2 ^ 32"
  by (simp add: block_holds_def)

lemma block_step:
  "block_holds b (done @ r # rest) \<Longrightarrow> kv_view r kv \<Longrightarrow>
   uadd (length (encode_block done)) (record_size kv) = length (encode_block (done @ [r]))"
  by (simp add: kv_view_def block_holds_def)

lemma block_records:
  "block_holds b (done @ rest) \<Longrightarrow>
   block_records_from b acc (length (encode_block done)) = Some (Ok (acc @ map hkv_record rest))"
proof (induction rest arbitrary: "done" acc)
  case Nil
  then show ?case using block_valid [of b "done" "[]"]
    by (subst block_records_from.simps) (simp add: block_iter_next_def)
next
  case (Cons r rest)
  obtain kv where kv: "read_key_value b (length (encode_block done)) = Ok kv" "kv_view r kv"
    using block_read [OF Cons.prems] by blast
  have "length (encode_block done) + 8 \<le> db_content_end b"
    using Cons.prems length_encode [of r] by (simp add: block_holds_def)
  then have "block_iter_next b (length (encode_block done)) = Ok (Some (kv, length (encode_block (done @ [r]))))"
    using kv block_valid [OF Cons.prems] block_step [OF Cons.prems kv(2)]
    by (simp add: block_iter_next_def KEY_VALUE_HEADER_SIZE_def)
  then show ?case
    using Cons.IH [of "done @ [r]" "acc @ [hkv_record r]"] Cons.prems kv_view_record [OF kv(2)]
    by (subst block_records_from.simps) simp
qed

section \<open>A reader over well-formed blocks\<close>

text \<open>The blocks of a file: their index entries and their records.\<close>

type_synonym file_blocks = "(BlockIndexEntry \<times> hkv list) list"

definition entry_content :: "BlockIndexEntry \<Rightarrow> byte list" where
  "entry_content e = (case key_content (ie_first_key e) of Inl _ \<Rightarrow> [] | Inr c \<Rightarrow> c)"

definition block_at :: "hfile_codecs \<Rightarrow> HFileReader \<Rightarrow> BlockIndexEntry \<Rightarrow> hkv list \<Rightarrow> bool" where
  "block_at hc rd e rs \<longleftrightarrow> ie_offset e < 2 ^ 63 \<and> key_content (ie_first_key e) = Ok (entry_content e) \<and>
     (\<exists>b. read_block_at hc rd (ie_offset e) (ie_size e) = Ok b \<and> hblock_type b = BtData \<and>
        block_holds (data_block_from b) rs)"

fun linked :: "file_blocks \<Rightarrow> bool" where
  "linked [] = True"
| "linked [(e, rs)] = (ie_next_block_first_key e = None)"
| "linked ((e, rs) # (e', rs') # bs) = (ie_next_block_first_key e = Some (ie_first_key e') \<and> linked ((e', rs') # bs))"

definition file_records :: "file_blocks \<Rightarrow> hkv list" where
  "file_records bs = concat (map snd bs)"

text \<open>The index lists the blocks by their first keys, each a lower bound of its block's keys; no
  block is empty.\<close>

definition file_holds :: "hfile_codecs \<Rightarrow> HFileReader \<Rightarrow> file_blocks \<Rightarrow> bool" where
  "file_holds hc rd bs \<longleftrightarrow> bs \<noteq> [] \<and> tr_entry_count (hf_trailer rd) \<noteq> 0 \<and>
     hf_data_block_index rd = map (\<lambda>(e, rs). (entry_content e, e)) bs \<and>
     sorted_wrt (<) (map (entry_content \<circ> fst) bs) \<and> linked bs \<and>
     (\<forall>(e, rs)\<in>set bs. rs \<noteq> [] \<and> block_at hc rd e rs)"

text \<open>The cursor at a record: the blocks before, the current block split at the record, the blocks
  after. Everything but the cursor is as in the reader \<open>base\<close>.\<close>

record place =
  pl_before :: file_blocks
  pl_entry :: BlockIndexEntry
  pl_done :: "hkv list"
  pl_here :: hkv
  pl_rest :: "hkv list"
  pl_after :: file_blocks

definition place_blocks :: "place \<Rightarrow> file_blocks" where
  "place_blocks p = pl_before p @ (pl_entry p, pl_done p @ pl_here p # pl_rest p) # pl_after p"

definition records_before :: "place \<Rightarrow> hkv list" where
  "records_before p = file_records (pl_before p) @ pl_done p"

definition records_from :: "place \<Rightarrow> hkv list" where
  "records_from p = pl_here p # pl_rest p @ file_records (pl_after p)"

lemma place_records: "file_records (place_blocks p) = records_before p @ records_from p"
  by (simp add: place_blocks_def file_records_def records_before_def records_from_def)

definition same_file :: "HFileReader \<Rightarrow> HFileReader \<Rightarrow> bool" where
  "same_file base rd \<longleftrightarrow> (\<exists>cu b e. rd = base\<lparr>hf_cursor := cu, hf_current_block := b, hf_current_block_entry := e\<rparr>)"

definition in_block :: "hfile_codecs \<Rightarrow> HFileReader \<Rightarrow> file_blocks \<Rightarrow> file_blocks \<Rightarrow> BlockIndexEntry \<Rightarrow> hkv list \<Rightarrow> file_blocks \<Rightarrow>
    HFileReader \<Rightarrow> bool" where
  "in_block hc base bs before e rs after rd \<longleftrightarrow> same_file base rd \<and> bs = before @ (e, rs) # after \<and>
     hf_current_block_entry rd = Some e \<and>
     (\<exists>b. hf_current_block rd = Some b \<and> block_holds b rs) \<and>
     cu_seeked (hf_cursor rd) \<and> \<not> cu_eof (hf_cursor rd)"

definition cursor_placed :: "hfile_codecs \<Rightarrow> HFileReader \<Rightarrow> file_blocks \<Rightarrow> place \<Rightarrow> HFileReader \<Rightarrow> bool" where
  "cursor_placed hc base bs p rd \<longleftrightarrow>
     in_block hc base bs (pl_before p) (pl_entry p) (pl_done p @ pl_here p # pl_rest p) (pl_after p) rd \<and>
     cu_offset (hf_cursor rd) = ie_offset (pl_entry p) + BLOCK_HEADER_SIZE + length (encode_block (pl_done p)) \<and>
     pred_option (kv_view (pl_here p)) (cu_cached_kv (hf_cursor rd))"

end
