(* ===== verification/HFile_Cursor_Facts.thy ===== *)
theory HFile_Cursor_Facts
  imports HFile_Layout
begin

text \<open>
  Stepping a reader over a well-formed file: the cursor goes from record to record, and a scan from
  the start yields the records of the file.
\<close>

section \<open>Readers of one file\<close>

lemma same_file_refl: "same_file rd rd"
proof -
  have "rd = rd\<lparr>hf_cursor := hf_cursor rd, hf_current_block := hf_current_block rd, hf_current_block_entry := hf_current_block_entry rd\<rparr>"
    by simp
  then show ?thesis unfolding same_file_def by blast
qed

lemma same_file_updates [simp]:
  "same_file base rd \<Longrightarrow> same_file base (rd\<lparr>hf_cursor := cu\<rparr>)"
  "same_file base rd \<Longrightarrow> same_file base (rd\<lparr>hf_current_block := b\<rparr>)"
  "same_file base rd \<Longrightarrow> same_file base (rd\<lparr>hf_current_block_entry := e\<rparr>)"
proof -
  assume "same_file base rd"
  then obtain cu1 b1 e1 where "rd = base\<lparr>hf_cursor := cu1, hf_current_block := b1, hf_current_block_entry := e1\<rparr>"
    by (auto simp: same_file_def)
  then have "rd\<lparr>hf_cursor := cu\<rparr> = base\<lparr>hf_cursor := cu, hf_current_block := b1, hf_current_block_entry := e1\<rparr>"
    "rd\<lparr>hf_current_block := b\<rparr> = base\<lparr>hf_cursor := cu1, hf_current_block := b, hf_current_block_entry := e1\<rparr>"
    "rd\<lparr>hf_current_block_entry := e\<rparr> = base\<lparr>hf_cursor := cu1, hf_current_block := b1, hf_current_block_entry := e\<rparr>"
    by simp_all
  then show "same_file base (rd\<lparr>hf_cursor := cu\<rparr>)" "same_file base (rd\<lparr>hf_current_block := b\<rparr>)"
    "same_file base (rd\<lparr>hf_current_block_entry := e\<rparr>)"
    unfolding same_file_def by blast+
qed

lemma same_file_parts:
  assumes "same_file base rd"
  shows "hf_source rd = hf_source base" "hf_trailer rd = hf_trailer base" "hf_codec rd = hf_codec base"
    "hf_data_block_index rd = hf_data_block_index base" "hf_last_key rd = hf_last_key base"
  using assms by (auto simp: same_file_def)

lemma same_file_read: "same_file base rd \<Longrightarrow> read_block_at hc rd = read_block_at hc base"
  by (intro ext) (simp add: read_block_at_def same_file_parts)

section \<open>Entering a block\<close>

definition place_start :: "file_blocks \<Rightarrow> BlockIndexEntry \<Rightarrow> hkv \<Rightarrow> hkv list \<Rightarrow> file_blocks \<Rightarrow> place" where
  "place_start before e r rest after = \<lparr>pl_before = before, pl_entry = e, pl_done = [], pl_here = r, pl_rest = rest,
     pl_after = after\<rparr>"

lemma enter_block_placed:
  assumes "same_file base rd" "cu_seeked (hf_cursor rd)" "\<not> cu_eof (hf_cursor rd)"
    and "bs = before @ (e, r # rest) # after" "block_at hc base e (r # rest)"
  shows "\<exists>rd1. enter_block hc e rd = (Ok (), rd1) \<and> cursor_placed hc base bs (place_start before e r rest after) rd1 \<and>
    cu_cached_kv (hf_cursor rd1) = None"
proof -
  obtain b where b: "read_block_at hc base (ie_offset e) (ie_size e) = Ok b" "hblock_type b = BtData"
    "block_holds (data_block_from b) (r # rest)" "ie_offset e < 2 ^ 63"
    using assms(5) by (auto simp: block_at_def)
  have read: "read_block_at hc (rd\<lparr>hf_current_block_entry := Some e\<rparr>) = read_block_at hc base"
    using assms(1) by (intro same_file_read) simp
  show ?thesis
    using assms b by (simp add: enter_block_def load_data_block_def read expect_type_def cursor_placed_def in_block_def
        place_start_def set_cursor_def BLOCK_HEADER_SIZE_def)
qed

lemma placed_offset:
  assumes "cursor_placed hc base bs p rd" "block_at hc base (pl_entry p) (pl_done p @ pl_here p # pl_rest p)"
  shows "offset_in_block rd (pl_entry p) = length (encode_block (pl_done p))"
proof -
  have "ie_offset (pl_entry p) < 2 ^ 63" "length (encode_block (pl_done p)) < 2 ^ 32"
    using assms block_offset_small by (auto simp: block_at_def cursor_placed_def in_block_def)
  then show ?thesis using assms(1) by (simp add: offset_in_block_def cursor_placed_def BLOCK_HEADER_SIZE_def)
qed

text \<open>Blocks of the file at a place.\<close>

lemma place_block_at:
  assumes "file_holds hc base bs" "cursor_placed hc base bs p rd"
  shows "block_at hc base (pl_entry p) (pl_done p @ pl_here p # pl_rest p)"
  using assms by (auto simp: file_holds_def cursor_placed_def in_block_def)

lemma place_blocks_of: "cursor_placed hc base bs p rd \<Longrightarrow> bs = place_blocks p"
  by (simp add: cursor_placed_def in_block_def place_blocks_def)

section \<open>Reading the record at the cursor\<close>

lemma get_key_value_placed:
  assumes "file_holds hc base bs" "cursor_placed hc base bs p rd"
  shows "\<exists>kv rd1. get_key_value hc rd = (Ok (Some kv), rd1) \<and> kv_view (pl_here p) kv \<and>
    cursor_placed hc base bs p rd1 \<and> cu_cached_kv (hf_cursor rd1) = Some kv"
proof (cases "cu_cached_kv (hf_cursor rd)")
  case (Some kv)
  then show ?thesis using assms(2) by (auto simp: get_key_value_def cursor_placed_def in_block_def)
next
  case None
  obtain b where b: "hf_current_block rd = Some b" "block_holds b (pl_done p @ pl_here p # pl_rest p)"
    using assms(2) by (auto simp: cursor_placed_def in_block_def)
  obtain kv where kv: "read_key_value b (length (encode_block (pl_done p))) = Ok kv" "kv_view (pl_here p) kv"
    using block_read [OF b(2)] by blast
  have entry: "hf_current_block_entry rd = Some (pl_entry p)" "cu_seeked (hf_cursor rd)" "\<not> cu_eof (hf_cursor rd)"
    using assms(2) by (auto simp: cursor_placed_def in_block_def)
  let ?rd1 = "rd\<lparr>hf_cursor := (hf_cursor rd)\<lparr>cu_cached_kv := Some kv\<rparr>\<rparr>"
  have "get_key_value hc rd = (Ok (Some kv), ?rd1)"
    using None b entry kv placed_offset [OF assms(2) place_block_at [OF assms]]
    by (simp add: get_key_value_def)
  moreover have "cursor_placed hc base bs p ?rd1"
    using assms(2) kv(2) by (auto simp: cursor_placed_def in_block_def)
  ultimately show ?thesis using kv(2) by auto
qed

section \<open>Stepping\<close>

lemma linked_next:
  "linked (before @ (e, rs) # (e', rs') # after) \<Longrightarrow> ie_next_block_first_key e = Some (ie_first_key e')"
proof (induction before rule: linked.induct)
  case (2 e1 rs1)
  then show ?case by (cases after) simp_all
qed simp_all

lemma linked_last: "linked (before @ [(e, rs)]) \<Longrightarrow> ie_next_block_first_key e = None"
  by (induction before rule: linked.induct) simp_all

lemma index_find_next:
  assumes "sorted_wrt (<) (map (entry_content \<circ> fst) (before @ (e, rs) # after))"
  shows "find (\<lambda>(k, _). entry_content e < k) (map (\<lambda>(e, rs). (entry_content e, e)) (before @ (e, rs) # after)) =
    (case after of [] \<Rightarrow> None | (e', _) # _ \<Rightarrow> Some (entry_content e', e'))"
  using assms
proof (induction before)
  case Nil
  then show ?case by (cases after) auto
next
  case (Cons b before)
  then have "\<not> entry_content e < entry_content (fst b)" by auto
  then show ?case using Cons by (cases b) auto
qed

lemma next_entry_placed:
  assumes "file_holds hc base bs" "same_file base rd" "bs = before @ (e, rs) # after"
  shows "get_next_block_entry rd e = Ok (case after of [] \<Rightarrow> None | (e', _) # _ \<Rightarrow> Some e')"
proof -
  have "key_content (ie_first_key e) = Ok (entry_content e)"
    using assms(1,3) by (auto simp: file_holds_def block_at_def)
  then show ?thesis
    using index_find_next [of before e rs after] assms
    by (auto simp: get_next_block_entry_def same_file_parts file_holds_def split: list.split)
qed

definition place_next :: "place \<Rightarrow> place option" where
  "place_next p = (case pl_rest p of
      r # rest \<Rightarrow> Some (p\<lparr>pl_done := pl_done p @ [pl_here p], pl_here := r, pl_rest := rest\<rparr>)
    | [] \<Rightarrow> (case pl_after p of
        (e, r # rs) # after \<Rightarrow>
          Some (place_start (pl_before p @ [(pl_entry p, pl_done p @ [pl_here p])]) e r rs after)
      | _ \<Rightarrow> None))"

lemma place_next_records:
  "place_next p = Some q \<Longrightarrow> records_from p = pl_here p # records_from q \<and>
     records_before q = records_before p @ [pl_here p]"
  by (auto simp: place_next_def records_from_def records_before_def place_start_def file_records_def split: list.splits)

lemma place_next_None:
  "place_next p = None \<Longrightarrow> \<forall>(e, rs)\<in>set (pl_after p). rs \<noteq> [] \<Longrightarrow> records_from p = [pl_here p] \<and> pl_after p = []"
  by (auto simp: place_next_def records_from_def file_records_def split: list.splits)

lemma hf_next_placed:
  assumes "file_holds hc base bs" "cursor_placed hc base bs p rd"
  shows "case place_next p of
      Some q \<Rightarrow> (\<exists>rd1. hf_next hc rd = (Ok True, rd1) \<and> cursor_placed hc base bs q rd1)
    | None \<Rightarrow> hf_next hc rd = (Ok False, set_eof rd)"
proof -
  obtain b where b: "hf_current_block rd = Some b" "block_holds b (pl_done p @ pl_here p # pl_rest p)"
    using assms(2) by (auto simp: cursor_placed_def in_block_def)
  have entry: "hf_current_block_entry rd = Some (pl_entry p)" "cu_seeked (hf_cursor rd)" "\<not> cu_eof (hf_cursor rd)"
    "same_file base rd" "bs = pl_before p @ (pl_entry p, pl_done p @ pl_here p # pl_rest p) # pl_after p"
    using assms(2) by (auto simp: cursor_placed_def in_block_def)
  have at: "block_at hc base (pl_entry p) (pl_done p @ pl_here p # pl_rest p)" by (rule place_block_at [OF assms])
  have off: "offset_in_block rd (pl_entry p) = length (encode_block (pl_done p))" by (rule placed_offset [OF assms(2) at])
  obtain kv where kv: "(case cu_cached_kv (hf_cursor rd) of Some kv \<Rightarrow> Ok kv
      | None \<Rightarrow> read_key_value b (length (encode_block (pl_done p)))) = Ok kv" "kv_view (pl_here p) kv"
    using block_read [OF b(2)] assms(2) by (cases "cu_cached_kv (hf_cursor rd)") (auto simp: cursor_placed_def)
  have b': "block_holds b ((pl_done p @ [pl_here p]) @ pl_rest p)" using b(2) by simp
  have step: "uadd (length (encode_block (pl_done p))) (record_size kv) = length (encode_block (pl_done p @ [pl_here p]))"
    using block_step [OF b(2) kv(2)] .
  have small: "ie_offset (pl_entry p) < 2 ^ 63" "length (encode_block (pl_done p @ [pl_here p])) < 2 ^ 32"
    using at block_offset_small [OF b'] by (auto simp: block_at_def)
  show ?thesis
  proof (cases "pl_rest p")
    case (Cons r rest)
    then have "is_valid_offset b (length (encode_block (pl_done p @ [pl_here p])))" using block_valid [OF b'] by simp
    then have "hf_next hc rd = (Ok True, set_cursor (ie_offset (pl_entry p) + BLOCK_HEADER_SIZE +
        length (encode_block (pl_done p @ [pl_here p]))) None rd)"
      using b(1) entry kv(1) off step small by (simp add: hf_next_def Let_def BLOCK_HEADER_SIZE_def del: encode_block_simps)
    then show ?thesis using assms(2) Cons
      by (auto simp: place_next_def cursor_placed_def in_block_def set_cursor_def simp del: encode_block_simps)
  next
    case Nil
    then have "\<not> is_valid_offset b (length (encode_block (pl_done p @ [pl_here p])))" using block_valid [OF b'] by simp
    then have step2: "hf_next hc rd = (case get_next_block_entry rd (pl_entry p) of
                   Inl err \<Rightarrow> (Err err, rd)
                 | Inr None \<Rightarrow> (Ok False, set_eof rd)
                 | Inr (Some e') \<Rightarrow> (case enter_block hc e' rd of
                     (Inl err, rd1) \<Rightarrow> (Err err, rd1) | (Inr _, rd1) \<Rightarrow> (Ok True, rd1)))"
      using b(1) entry kv(1) off step by (simp add: hf_next_def Let_def del: encode_block_simps)
    have nxt: "get_next_block_entry rd (pl_entry p) = Ok (case pl_after p of [] \<Rightarrow> None | (e', _) # _ \<Rightarrow> Some e')"
      by (rule next_entry_placed [OF assms(1) entry(4,5)])
    show ?thesis
    proof (cases "pl_after p")
      case (Cons x after)
      obtain e' rs' where x: "x = (e', rs')" by (cases x)
      have "rs' \<noteq> []" "block_at hc base e' rs'" using assms(1) entry(5) Cons x by (auto simp: file_holds_def)
      then obtain r rs where rs: "rs' = r # rs" by (cases rs') auto
      obtain rd1 where "enter_block hc e' rd = (Ok (), rd1)"
        "cursor_placed hc base bs (place_start (pl_before p @ [(pl_entry p, pl_done p @ [pl_here p])]) e' r rs after) rd1"
        using enter_block_placed [OF entry(4,2,3), of bs "pl_before p @ [(pl_entry p, pl_done p @ [pl_here p])]" e' r rs after hc]
          entry(5) \<open>block_at hc base e' rs'\<close> Cons Nil x rs by auto
      then show ?thesis using step2 nxt Cons Nil x rs by (simp add: place_next_def)
    qed (use step2 nxt Nil in \<open>simp add: place_next_def\<close>)
  qed
qed

section \<open>From the start\<close>

lemma seek_to_first_placed:
  assumes "file_holds hc base bs" "same_file base rd"
  obtains e r rest after rd1 where "seek_to_first hc rd = (Ok True, rd1)" "bs = (e, r # rest) # after"
    "cursor_placed hc base bs (place_start [] e r rest after) rd1"
proof -
  obtain e rs after where bs: "bs = (e, rs) # after" "rs \<noteq> []" "block_at hc base e rs"
    using assms(1) by (cases bs) (auto simp: file_holds_def)
  then obtain r rest where rs: "rs = r # rest" by (cases rs) auto
  obtain b where b: "read_block_at hc base (ie_offset e) (ie_size e) = Ok b" "hblock_type b = BtData"
    "block_holds (data_block_from b) (r # rest)" "ie_offset e < 2 ^ 63"
    using bs(3) rs by (auto simp: block_at_def)
  have idx: "hf_data_block_index rd = (entry_content e, e) # map (\<lambda>(e, rs). (entry_content e, e)) after"
    "tr_entry_count (hf_trailer rd) \<noteq> 0"
    using assms bs by (auto simp: file_holds_def same_file_parts)
  have read: "read_block_at hc (rd\<lparr>hf_current_block_entry := Some e\<rparr>) = read_block_at hc base"
    using assms(2) by (intro same_file_read) simp
  obtain rd1 where "seek_to_first hc rd = (Ok True, rd1)" "cursor_placed hc base bs (place_start [] e r rest after) rd1"
    using b idx assms(2) bs rs by (simp add: seek_to_first_def enter_block_def load_data_block_def read expect_type_def
        cursor_placed_def in_block_def place_start_def set_cursor_def BLOCK_HEADER_SIZE_def)
  then show thesis using that bs(1) rs by blast
qed

lemma collect_placed:
  assumes "file_holds hc base bs" "cursor_placed hc base bs p rd"
  shows "\<exists>rd1. collect_from hc acc rd = Some (Ok (acc @ map hkv_record (records_from p)), rd1) \<and> same_file base rd1"
  using assms(2)
proof (induction "length (records_from p)" arbitrary: p rd acc rule: less_induct)
  case less
  obtain kv rd1 where kv: "get_key_value hc rd = (Ok (Some kv), rd1)" "kv_view (pl_here p) kv" "cursor_placed hc base bs p rd1"
    using get_key_value_placed [OF assms(1) less.prems] by blast
  have go: "\<not> cu_eof (hf_cursor rd)" using less.prems by (simp add: cursor_placed_def in_block_def)
  show ?case
  proof (cases "place_next p")
    case (Some q)
    then obtain rd2 where rd2: "hf_next hc rd1 = (Ok True, rd2)" "cursor_placed hc base bs q rd2"
      using hf_next_placed [OF assms(1) kv(3)] by auto
    have recs: "records_from p = pl_here p # records_from q" using place_next_records [OF Some] by simp
    then obtain rd3 where "collect_from hc (acc @ [hkv_record (pl_here p)]) rd2 =
        Some (Ok ((acc @ [hkv_record (pl_here p)]) @ map hkv_record (records_from q)), rd3)" "same_file base rd3"
      using less.hyps [of q rd2] rd2(2) by fastforce
    then show ?thesis using go kv rd2(1) kv_view_record [OF kv(2)] recs
      by (subst collect_from.simps) (auto simp: iterator_next_def)
  next
    case None
    have "\<forall>(e, rs)\<in>set (pl_after p). rs \<noteq> []" using assms(1) place_blocks_of [OF less.prems]
      by (auto simp: file_holds_def place_blocks_def)
    then have recs: "records_from p = [pl_here p]" using place_next_None [OF None] by simp
    have nxt: "hf_next hc rd1 = (Ok False, set_eof rd1)" using hf_next_placed [OF assms(1) kv(3)] None by simp
    have stop: "collect_from hc acc' (set_eof rd1) = Some (Ok acc', set_eof rd1)" for acc'
      by (subst collect_from.simps) (simp add: iterator_next_def set_eof_def)
    have "same_file base (set_eof rd1)" using kv(3) by (simp add: cursor_placed_def in_block_def set_eof_def)
    then show ?thesis using go kv nxt kv_view_record [OF kv(2)] recs stop
      by (subst collect_from.simps) (simp add: iterator_next_def)
  qed
qed

end
