(* ===== verification/HFile_Seek_Facts.thy ===== *)
theory HFile_Seek_Facts
  imports HFile_Cursor_Facts
begin

text \<open>
  Seeking in a well-formed file with increasing keys: the scan for a key stops at the key when the
  file has it, and leaves the cursor where a seek to a later key can go on.
\<close>

section \<open>Files in the order of their keys\<close>

definition sorted_file :: "file_blocks \<Rightarrow> bool" where
  "sorted_file bs \<longleftrightarrow> sorted_wrt (<) (map hk_content (file_records bs)) \<and>
     (\<forall>before e rs after. bs = before @ (e, rs) # after \<longrightarrow>
        (\<forall>r\<in>set (file_records before). hk_content r < entry_content e) \<and>
        (\<forall>r\<in>set rs. entry_content e \<le> hk_content r))"

lemma file_records_simps [simp]:
  "file_records [] = []" "file_records (b # bs) = snd b @ file_records bs"
  "file_records (bs @ cs) = file_records bs @ file_records cs"
  by (simp_all add: file_records_def)

lemma sorted_file_split:
  "sorted_file bs \<Longrightarrow> file_records bs = xs @ r # ys \<Longrightarrow>
   (\<forall>x\<in>set xs. hk_content x < hk_content r) \<and> (\<forall>y\<in>set ys. hk_content r < hk_content y)"
  by (auto simp: sorted_file_def sorted_wrt_append)

text \<open>Where a seek leaves the reader: at a record with only smaller keys before it, which is at or
  below the key unless it is the first of its block; or at the end, every key smaller.\<close>

definition seek_state :: "hfile_codecs \<Rightarrow> HFileReader \<Rightarrow> file_blocks \<Rightarrow> byte list \<Rightarrow> HFileReader \<Rightarrow> bool" where
  "seek_state hc base bs k rd \<longleftrightarrow>
     (\<exists>p. cursor_placed hc base bs p rd \<and> (\<forall>r\<in>set (records_before p). hk_content r < k) \<and>
        (pl_done p = [] \<or> hk_content (pl_here p) \<le> k)) \<or>
     (cu_eof (hf_cursor rd) \<and> same_file base rd \<and> cu_seeked (hf_cursor rd) \<and>
        (\<forall>r\<in>set (file_records bs). hk_content r < k))"

lemma seek_state_mono:
  assumes "seek_state hc base bs k rd" "k \<le> k'"
  shows "seek_state hc base bs k' rd"
  using assms unfolding seek_state_def by (meson order.strict_trans2 order_trans)

definition file_has :: "file_blocks \<Rightarrow> byte list \<Rightarrow> bool" where
  "file_has bs k \<longleftrightarrow> (\<exists>r\<in>set (file_records bs). hk_content r = k)"

text \<open>What a seek answers.\<close>

definition seek_answer :: "hfile_codecs \<Rightarrow> HFileReader \<Rightarrow> file_blocks \<Rightarrow> byte list \<Rightarrow> SeekResult \<Rightarrow> HFileReader \<Rightarrow> bool" where
  "seek_answer hc base bs k sr rd \<longleftrightarrow> seek_state hc base bs k rd \<and> (sr = Found \<longleftrightarrow> file_has bs k) \<and>
     (sr = Found \<longrightarrow> (\<exists>p. cursor_placed hc base bs p rd \<and> hk_content (pl_here p) = k)) \<and>
     (sr = Eof \<longleftrightarrow> cu_eof (hf_cursor rd))"

lemma compare_view:
  "kv_view r kv \<Longrightarrow> compare_keys (kv_key kv) lookup = Ok (cmp_lin (hk_content r) (str_bytes lookup))"
  by (simp add: kv_view_def compare_keys_def)

section \<open>The scan\<close>

text \<open>The scan is in a block behind some records, all below the key. The last of them is kept,
  or the scan has just entered the block.\<close>

definition scan_last :: "hfile_codecs \<Rightarrow> HFileReader \<Rightarrow> file_blocks \<Rightarrow> file_blocks \<Rightarrow> BlockIndexEntry \<Rightarrow> hkv list \<Rightarrow>
    hkv list \<Rightarrow> file_blocks \<Rightarrow> nat \<Rightarrow> KeyValue option \<Rightarrow> HFileReader \<Rightarrow> bool" where
  "scan_last hc base bs before e dn rest after last_offset last_kv rd \<longleftrightarrow>
     (dn = [] \<and> last_kv = None \<and> (\<exists>r rs. rest = r # rs \<and> cursor_placed hc base bs (place_start before e r rs after) rd)) \<or>
     (\<exists>dn0 rl kv. dn = dn0 @ [rl] \<and> last_kv = Some kv \<and> kv_view rl kv \<and> last_offset = length (encode_block dn0))"

lemma cursor_placed:
  assumes "in_block hc base bs before e (dn @ r # rest) after rd" "kv_view r kv"
  shows "cursor_placed hc base bs \<lparr>pl_before = before, pl_entry = e, pl_done = dn, pl_here = r, pl_rest = rest, pl_after = after\<rparr>
    (set_cursor (ie_offset e + BLOCK_HEADER_SIZE + length (encode_block dn)) (Some kv) rd)"
  using assms by (auto simp: cursor_placed_def in_block_def set_cursor_def)

lemma scan_finds:
  assumes "file_holds hc base bs" "sorted_file bs"
    and "in_block hc base bs before e (dn @ rest) after rd"
    and "scan_last hc base bs before e dn rest after last_offset last_kv rd"
    and "\<forall>r\<in>set (file_records before @ dn). hk_content r < str_bytes k"
  shows "\<exists>sr rd1. scan_block_for_key hc k rd (length (encode_block dn)) last_offset last_kv = Some (Ok sr, rd1) \<and>
    seek_answer hc base bs (str_bytes k) sr rd1 \<and> sr \<noteq> BeforeFileFirstKey"
  using assms(3-5)
proof (induction "length rest + length (file_records after) + length after" arbitrary: before e dn rest after rd
    last_offset last_kv rule: less_induct)
  case less
  obtain b where b: "hf_current_block rd = Some b" "block_holds b (dn @ rest)"
    using less.prems(1) by (auto simp: in_block_def)
  have st: "hf_current_block_entry rd = Some e" "same_file base rd" "bs = before @ (e, dn @ rest) # after"
    "cu_seeked (hf_cursor rd)" "\<not> cu_eof (hf_cursor rd)"
    using less.prems(1) by (auto simp: in_block_def)
  have at: "block_at hc base e (dn @ rest)" "dn @ rest \<noteq> []" using assms(1) st(3) by (auto simp: file_holds_def)
  have off: "ie_offset e < 2 ^ 63" using at by (simp add: block_at_def)
  have small: "uadd (uadd (ie_offset e) BLOCK_HEADER_SIZE) (length (encode_block xs)) =
      ie_offset e + BLOCK_HEADER_SIZE + length (encode_block xs)" if "dn @ rest = xs @ ys" for xs ys
    using block_offset_small [of b xs ys] b(2) that off by (simp add: BLOCK_HEADER_SIZE_def)
  have recs: "file_records bs = (file_records before @ dn) @ rest @ file_records after" using st(3) by simp
  have below: "hk_content x < str_bytes k" if "x \<in> set (file_records before) \<or> x \<in> set dn" for x
    using less.prems(3) that by auto
  show ?case
  proof (cases rest)
    case (Cons r rest')
    obtain kv where kv: "read_key_value b (length (encode_block dn)) = Ok kv" "kv_view r kv"
      using block_read [of b dn r rest'] b(2) Cons by auto
    have valid: "is_valid_offset b (length (encode_block dn))" using block_valid [of b dn rest] b(2) Cons by simp
    have order: "\<forall>y\<in>set (rest' @ file_records after). hk_content r < hk_content y"
      using sorted_file_split [OF assms(2), of "file_records before @ dn" r "rest' @ file_records after"] recs Cons by simp
    consider (less) "hk_content r < str_bytes k" | (equal) "hk_content r = str_bytes k" | (greater) "str_bytes k < hk_content r"
      by (meson linorder_less_linear)
    then show ?thesis
    proof cases
      case less
      have in': "in_block hc base bs before e ((dn @ [r]) @ rest') after rd" using \<open>in_block hc base bs before e (dn @ rest) after rd\<close> Cons by simp
      have last': "scan_last hc base bs before e (dn @ [r]) rest' after (length (encode_block dn)) (Some kv) rd"
        using kv(2) by (auto simp: scan_last_def)
      have below': "\<forall>x\<in>set (file_records before @ dn @ [r]). hk_content x < str_bytes k" using below less by auto
      have step: "uadd (length (encode_block dn)) (record_size kv) = length (encode_block (dn @ [r]))"
        using block_step [of b dn r rest'] b(2) kv(2) Cons by simp
      show ?thesis
        using less.hyps [OF _ in' last' below'] less kv valid b(1) st(1) step Cons compare_view [OF kv(2), of k]
        by (subst scan_block_for_key.simps) (simp add: cmp_lin_def del: encode_block_simps)
    next
      case equal
      let ?p = "\<lparr>pl_before = before, pl_entry = e, pl_done = dn, pl_here = r, pl_rest = rest', pl_after = after\<rparr>"
      let ?rd1 = "set_cursor (ie_offset e + BLOCK_HEADER_SIZE + length (encode_block dn)) (Some kv) rd"
      have p: "cursor_placed hc base bs ?p ?rd1" using cursor_placed [of hc base bs before e dn r rest' after rd kv] less.prems(1) kv(2) Cons by simp
      have scan: "scan_block_for_key hc k rd (length (encode_block dn)) last_offset last_kv = Some (Ok Found, ?rd1)"
        using kv valid b(1) st(1) compare_view [OF kv(2), of k] equal small [of dn rest]
        by (subst scan_block_for_key.simps) (simp add: cmp_lin_def)
      have "seek_state hc base bs (str_bytes k) ?rd1"
        unfolding seek_state_def using p below equal by (intro disjI1 exI [of _ ?p]) (auto simp: records_before_def)
      moreover have "file_has bs (str_bytes k)" using recs Cons equal by (auto simp: file_has_def)
      moreover have "\<not> cu_eof (hf_cursor ?rd1)" using p by (simp add: cursor_placed_def in_block_def)
      ultimately show ?thesis using scan p equal by (auto simp: seek_answer_def)
    next
      case greater
      have cmp: "compare_keys (kv_key kv) k = Ok Greater"
        using compare_view [OF kv(2), of k] greater less_not_sym [OF greater] by (auto simp: cmp_lin_def)
      have "hk_content x \<noteq> str_bytes k" if x: "x \<in> set (file_records bs)" for x
      proof -
        have "(x \<in> set (file_records before) \<or> x \<in> set dn) \<or> x = r \<or> hk_content r < hk_content x"
          using x recs Cons order by auto
        then show ?thesis using below [of x] greater less_trans by fastforce
      qed
      then have absent: "\<not> file_has bs (str_bytes k)" by (simp add: file_has_def)
      show ?thesis
      proof (cases last_kv)
        case None
        then have "dn = []" and p: "cursor_placed hc base bs (place_start before e r rest' after) rd"
          using less.prems(2) Cons by (auto simp: scan_last_def)
        have "seek_state hc base bs (str_bytes k) rd"
          unfolding seek_state_def using p below
          by (intro disjI1 exI [of _ "place_start before e r rest' after"]) (auto simp: records_before_def place_start_def)
        moreover have "scan_block_for_key hc k rd (length (encode_block dn)) last_offset last_kv =
            Some (Ok (if is_at_first_key_of_block rd then BeforeBlockFirstKey else InRange), rd)"
          using kv valid b(1) st(1) cmp None by (subst scan_block_for_key.simps) simp
        ultimately show ?thesis using absent st(5) by (auto simp: seek_answer_def)
      next
        case (Some kvl)
        then obtain dn0 rl where l: "dn = dn0 @ [rl]" "kv_view rl kvl" "last_offset = length (encode_block dn0)"
          using less.prems(2) by (auto simp: scan_last_def)
        let ?p = "\<lparr>pl_before = before, pl_entry = e, pl_done = dn0, pl_here = rl, pl_rest = r # rest', pl_after = after\<rparr>"
        let ?rd1 = "set_cursor (ie_offset e + BLOCK_HEADER_SIZE + length (encode_block dn0)) (Some kvl) rd"
        have p: "cursor_placed hc base bs ?p ?rd1"
          using cursor_placed [of hc base bs before e dn0 rl "r # rest'" after rd kvl] less.prems(1) l Cons by simp
        have "seek_state hc base bs (str_bytes k) ?rd1"
          unfolding seek_state_def using p below l(1)
          by (intro disjI1 exI [of _ ?p]) (auto simp: records_before_def intro: less_imp_le)
        moreover have "scan_block_for_key hc k rd (length (encode_block dn)) last_offset last_kv =
            Some (Ok (if is_at_first_key_of_block ?rd1 then BeforeBlockFirstKey else InRange), ?rd1)"
          using kv valid b(1) st(1) cmp Some l(3) small [of dn0 "rl # rest"] l(1)
          by (subst scan_block_for_key.simps) (simp add: Let_def)
        moreover have "\<not> cu_eof (hf_cursor ?rd1)" using p by (simp add: cursor_placed_def in_block_def)
        ultimately show ?thesis using absent by (auto simp: seek_answer_def)
      qed
    qed
  next
    case Nil
    have invalid: "\<not> is_valid_offset b (length (encode_block dn))" using block_valid [of b dn rest] b(2) Nil by simp
    have nxt: "get_next_block_entry rd e = Ok (case after of [] \<Rightarrow> None | (e', _) # _ \<Rightarrow> Some e')"
      by (rule next_entry_placed [OF assms(1) st(2,3)])
    obtain dn0 rl kvl where l: "dn = dn0 @ [rl]" "last_kv = Some kvl" "kv_view rl kvl"
      using less.prems(2) Nil by (auto simp: scan_last_def)
    show ?thesis
    proof (cases after)
      case after: (Cons x after')
      obtain e' rs' where x: "x = (e', rs')" by (cases x)
      have "rs' \<noteq> []" "block_at hc base e' rs'" using assms(1) st(3) after x by (auto simp: file_holds_def)
      then obtain r rs where rs: "rs' = r # rs" by (cases rs') auto
      let ?q = "place_start (before @ [(e, dn)]) e' r rs after'"
      obtain rd1 where rd1: "enter_block hc e' rd = (Ok (), rd1)" "cursor_placed hc base bs ?q rd1" "cu_cached_kv (hf_cursor rd1) = None"
        using enter_block_placed [OF st(2,4,5), of bs "before @ [(e, dn)]" e' r rs after' hc] st(3) \<open>block_at hc base e' rs'\<close>
          after x rs Nil by auto
      have in1: "in_block hc base bs (before @ [(e, dn)]) e' ([] @ r # rs) after' rd1"
        using rd1(2) by (simp add: cursor_placed_def place_start_def)
      have last1: "scan_last hc base bs (before @ [(e, dn)]) e' [] (r # rs) after' 0 None rd1"
        using rd1(2) by (simp add: scan_last_def)
      have below1: "\<forall>x\<in>set (file_records (before @ [(e, dn)]) @ []). hk_content x < str_bytes k" using below by auto
      have off1: "offset_in_block rd1 e' = 0"
        using placed_offset [OF rd1(2) place_block_at [OF assms(1) rd1(2)]] by (simp add: place_start_def)
      have "\<exists>sr rd2. scan_block_for_key hc k rd1 (length (encode_block [])) 0 None = Some (Ok sr, rd2) \<and>
          seek_answer hc base bs (str_bytes k) sr rd2 \<and> sr \<noteq> BeforeFileFirstKey"
        using less.hyps [OF _ in1 last1 below1] Nil after x rs by simp
      then show ?thesis using b(1) st(1) invalid nxt after x rd1(1,3) off1
        by (subst scan_block_for_key.simps) simp
    next
      case after: Nil
      let ?rd1 = "rd\<lparr>hf_cursor := (hf_cursor rd)\<lparr>cu_eof := True, cu_cached_kv := None\<rparr>\<rparr>"
      have all: "\<forall>x\<in>set (file_records bs). hk_content x < str_bytes k" using recs below Nil after by auto
      have "scan_block_for_key hc k rd (length (encode_block dn)) last_offset last_kv = Some (Ok Eof, ?rd1)"
        using b(1) st(1) invalid nxt after l compare_view [OF l(3), of k] below [of rl]
        by (subst scan_block_for_key.simps) (simp add: cmp_lin_def)
      moreover have "seek_state hc base bs (str_bytes k) ?rd1" using all st(2,4) by (simp add: seek_state_def)
      moreover have "\<not> file_has bs (str_bytes k)" using all by (auto simp: file_has_def)
      ultimately show ?thesis by (auto simp: seek_answer_def)
    qed
  qed
qed

section \<open>Seeking from a place\<close>

definition last_key_ok :: "HFileReader \<Rightarrow> file_blocks \<Rightarrow> bool" where
  "last_key_ok rd bs \<longleftrightarrow> (case hf_last_key rd of None \<Rightarrow> True
     | Some lk \<Rightarrow> \<exists>c. key_content lk = Ok c \<and> (\<forall>r\<in>set (file_records bs). hk_content r \<le> c))"

text \<open>The bare bytes of a key, read as a key with a length prefix, must not lead past the key.\<close>

definition safe_probe :: "string \<Rightarrow> bool" where
  "safe_probe k \<longleftrightarrow> (\<exists>c. key_content (key_from_bytes (str_bytes k)) = Ok c \<and> c \<le> str_bytes k)"

lemma scan_cursor_finds:
  assumes "file_holds hc base bs" "sorted_file bs" "cursor_placed hc base bs p rd"
    and "\<forall>r\<in>set (records_before p). hk_content r < str_bytes k"
    and "cu_cached_kv (hf_cursor rd) = None \<and> pl_done p = [] \<or> hk_content (pl_here p) < str_bytes k"
  shows "\<exists>sr rd1. scan_from_cursor hc k rd = Some (Ok sr, rd1) \<and>
    seek_answer hc base bs (str_bytes k) sr rd1 \<and> sr \<noteq> BeforeFileFirstKey"
proof -
  obtain b where b: "hf_current_block rd = Some b" "block_holds b (pl_done p @ pl_here p # pl_rest p)"
    using assms(3) by (auto simp: cursor_placed_def in_block_def)
  have e: "hf_current_block_entry rd = Some (pl_entry p)" using assms(3) by (simp add: cursor_placed_def in_block_def)
  have off: "offset_in_block rd (pl_entry p) = length (encode_block (pl_done p))"
    by (rule placed_offset [OF assms(3) place_block_at [OF assms(1,3)]])
  have start: "scan_from_cursor hc k rd = scan_block_for_key hc k rd (length (encode_block (pl_done p)))
      (length (encode_block (pl_done p))) (cu_cached_kv (hf_cursor rd))"
    using e off by (simp add: scan_from_cursor_def Let_def)
  have inb: "in_block hc base bs (pl_before p) (pl_entry p) (pl_done p @ pl_here p # pl_rest p) (pl_after p) rd"
    using assms(3) by (simp add: cursor_placed_def)
  show ?thesis
  proof (cases "hk_content (pl_here p) < str_bytes k")
    case True
    obtain kv where kv: "read_key_value b (length (encode_block (pl_done p))) = Ok kv" "kv_view (pl_here p) kv"
      using block_read [OF b(2)] by blast
    have "scan_from_cursor hc k rd = scan_block_for_key hc k rd (length (encode_block (pl_done p @ [pl_here p])))
        (length (encode_block (pl_done p))) (Some kv)"
      unfolding start using b e kv block_valid [OF b(2)] block_step [OF b(2) kv(2)] compare_view [OF kv(2), of k] True
      by (subst scan_block_for_key.simps) (simp add: cmp_lin_def del: encode_block_simps)
    moreover have "in_block hc base bs (pl_before p) (pl_entry p) ((pl_done p @ [pl_here p]) @ pl_rest p) (pl_after p) rd"
      using inb by simp
    moreover have "scan_last hc base bs (pl_before p) (pl_entry p) (pl_done p @ [pl_here p]) (pl_rest p) (pl_after p)
        (length (encode_block (pl_done p))) (Some kv) rd"
      using kv(2) by (auto simp: scan_last_def)
    moreover have "\<forall>r\<in>set (file_records (pl_before p) @ pl_done p @ [pl_here p]). hk_content r < str_bytes k"
      using assms(4) True by (auto simp: records_before_def)
    ultimately show ?thesis using scan_finds [OF assms(1,2)] by metis
  next
    case False
    then have "cu_cached_kv (hf_cursor rd) = None" "pl_done p = []" using assms(5) by auto
    moreover have "scan_last hc base bs (pl_before p) (pl_entry p) [] (pl_here p # pl_rest p) (pl_after p) 0 None rd"
      using assms(3) \<open>pl_done p = []\<close> by (cases p) (auto simp: scan_last_def place_start_def)
    moreover have "\<forall>r\<in>set (file_records (pl_before p) @ []). hk_content r < str_bytes k"
      using assms(4) by (auto simp: records_before_def)
    ultimately show ?thesis using scan_finds [OF assms(1,2), of "pl_before p" "pl_entry p" "[]"] inb start by simp
  qed
qed

lemma at_or_below_mem: "at_or_below m k = (c, e) # es \<Longrightarrow> (c, e) \<in> set m \<and> c \<le> k"
proof -
  assume "at_or_below m k = (c, e) # es"
  then have "(c, e) \<in> set (takeWhile (\<lambda>(k', _). k' \<le> k) m)" by (metis at_or_below_def list.set_intros(1) set_rev)
  then show "(c, e) \<in> set m \<and> c \<le> k" by (auto dest: set_takeWhileD)
qed

lemma find_block_finds:
  assumes "file_holds hc base bs" "sorted_file bs" "cursor_placed hc base bs p rd" "safe_probe k"
    and "\<forall>r\<in>set (records_before p). hk_content r < str_bytes k" "hk_content (pl_here p) < str_bytes k"
  shows "\<exists>rd1 q. find_block_for_key hc k rd = (Ok (), rd1) \<and> cursor_placed hc base bs q rd1 \<and>
    (\<forall>r\<in>set (records_before q). hk_content r < str_bytes k) \<and>
    (cu_cached_kv (hf_cursor rd1) = None \<and> pl_done q = [] \<or> hk_content (pl_here q) < str_bytes k)"
proof -
  obtain c where c: "key_content (key_from_bytes (str_bytes k)) = Ok c" "c \<le> str_bytes k"
    using assms(4) by (auto simp: safe_probe_def)
  have st: "same_file base rd" "cu_seeked (hf_cursor rd)" "\<not> cu_eof (hf_cursor rd)"
    using assms(3) by (auto simp: cursor_placed_def in_block_def)
  show ?thesis
  proof (cases "at_or_below (hf_data_block_index rd) c")
    case Nil
    then show ?thesis using assms(3,5,6) c by (auto simp: find_block_for_key_def)
  next
    case (Cons x xs)
    obtain c0 e0 where x: "x = (c0, e0)" by (cases x)
    have "(c0, e0) \<in> set (map (\<lambda>(e, rs). (entry_content e, e)) bs)" "c0 \<le> c"
      using at_or_below_mem [of "hf_data_block_index rd" c c0 e0 xs] Cons x assms(1) same_file_parts(4) [OF st(1)]
      by (auto simp: file_holds_def)
    then obtain rs0 where e0: "(e0, rs0) \<in> set bs" "c0 = entry_content e0" by auto
    then obtain before0 after0 where bs: "bs = before0 @ (e0, rs0) # after0" by (meson split_list)
    have "rs0 \<noteq> []" "block_at hc base e0 rs0" using assms(1) e0(1) by (auto simp: file_holds_def)
    then obtain r0 rs where rs: "rs0 = r0 # rs" by (cases rs0) auto
    obtain rd1 where "enter_block hc e0 rd = (Ok (), rd1)" "cursor_placed hc base bs (place_start before0 e0 r0 rs after0) rd1"
      "cu_cached_kv (hf_cursor rd1) = None"
      using enter_block_placed [OF st, of bs before0 e0 r0 rs after0 hc] bs rs \<open>block_at hc base e0 rs0\<close> by auto
    moreover have "\<forall>r\<in>set (file_records before0). hk_content r < entry_content e0"
      using assms(2) bs unfolding sorted_file_def by blast
    moreover have "entry_content e0 \<le> str_bytes k" using c(2) \<open>c0 \<le> c\<close> e0(2) by simp
    ultimately show ?thesis using c(1) Cons x
      by (fastforce simp: find_block_for_key_def records_before_def place_start_def)
  qed
qed

lemma forward_seek_finds:
  assumes "file_holds hc base bs" "sorted_file bs" "last_key_ok base bs" "cursor_placed hc base bs p rd" "safe_probe k"
    and "\<forall>r\<in>set (records_before p). hk_content r < str_bytes k" "hk_content (pl_here p) < str_bytes k"
  shows "\<exists>sr rd1. forward_seek hc k rd = Some (Ok sr, rd1) \<and>
    seek_answer hc base bs (str_bytes k) sr rd1 \<and> sr \<noteq> BeforeFileFirstKey"
proof -
  have e: "hf_current_block_entry rd = Some (pl_entry p)" "same_file base rd" "cu_seeked (hf_cursor rd)"
    "bs = pl_before p @ (pl_entry p, pl_done p @ pl_here p # pl_rest p) # pl_after p"
    using assms(4) by (auto simp: cursor_placed_def in_block_def)
  have here: "\<exists>sr rd1. scan_from_cursor hc k rd = Some (Ok sr, rd1) \<and>
      seek_answer hc base bs (str_bytes k) sr rd1 \<and> sr \<noteq> BeforeFileFirstKey"
    using scan_cursor_finds [OF assms(1,2,4,6)] assms(7) by blast
  show ?thesis
  proof (cases "pl_after p")
    case Nil
    have none: "ie_next_block_first_key (pl_entry p) = None"
      using linked_last [of "pl_before p" "pl_entry p" "pl_done p @ pl_here p # pl_rest p"] assms(1) e(4) Nil
      by (simp add: file_holds_def)
    show ?thesis
    proof (cases "hf_last_key rd")
      case None
      then show ?thesis using here e(1) none by (simp add: forward_seek_def)
    next
      case (Some lk)
      then obtain c where c: "key_content lk = Ok c" "\<forall>r\<in>set (file_records bs). hk_content r \<le> c"
        using assms(3) same_file_parts(5) [OF e(2)] by (auto simp: last_key_ok_def)
      show ?thesis
      proof (cases "c < str_bytes k")
        case True
        let ?rd1 = "(set_eof rd)\<lparr>hf_current_block := None, hf_current_block_entry := None\<rparr>"
        have all: "\<forall>r\<in>set (file_records bs). hk_content r < str_bytes k" using c(2) True by (meson le_less_trans)
        have "forward_seek hc k rd = Some (Ok Eof, ?rd1)"
          using e(1) none Some c(1) True by (simp add: forward_seek_def compare_keys_def cmp_lin_def)
        moreover have "seek_answer hc base bs (str_bytes k) Eof ?rd1"
          using all e(2,3) by (auto simp: seek_answer_def seek_state_def file_has_def set_eof_def)
        ultimately show ?thesis by blast
      next
        case False
        then have "compare_keys lk k = Ok (cmp_lin c (str_bytes k))" "cmp_lin c (str_bytes k) \<noteq> Less"
          using c(1) by (simp_all add: compare_keys_def cmp_lin_def)
        then show ?thesis using here e(1) none Some by (simp add: forward_seek_def)
      qed
    qed
  next
    case (Cons x after)
    obtain e' rs' where x: "x = (e', rs')" by (cases x)
    have nxt: "ie_next_block_first_key (pl_entry p) = Some (ie_first_key e')"
      using linked_next [of "pl_before p" "pl_entry p" "pl_done p @ pl_here p # pl_rest p" e' rs' after] assms(1) e(4) Cons x by (simp add: file_holds_def)
    have "key_content (ie_first_key e') = Ok (entry_content e')"
      using assms(1) e(4) Cons x by (auto simp: file_holds_def block_at_def)
    then have cmp: "compare_keys (ie_first_key e') k = Ok (cmp_lin (entry_content e') (str_bytes k))"
      by (simp add: compare_keys_def)
    obtain rd1 q where find: "find_block_for_key hc k rd = (Ok (), rd1)" "cursor_placed hc base bs q rd1"
      "\<forall>r\<in>set (records_before q). hk_content r < str_bytes k"
      "cu_cached_kv (hf_cursor rd1) = None \<and> pl_done q = [] \<or> hk_content (pl_here q) < str_bytes k"
      using find_block_finds [OF assms(1,2,4,5,6,7)] by blast
    show ?thesis
      using here scan_cursor_finds [OF assms(1,2) find(2,3,4)] e(1) nxt cmp find(1)
      by (cases "cmp_lin (entry_content e') (str_bytes k) = Greater") (simp_all add: forward_seek_def)
  qed
qed

lemma seek_finds:
  assumes "file_holds hc base bs" "sorted_file bs" "last_key_ok base bs" "seek_state hc base bs (str_bytes k) rd" "safe_probe k"
  shows "\<exists>sr rd1. hf_seek_to hc k rd = Some (Ok sr, rd1) \<and> seek_answer hc base bs (str_bytes k) sr rd1"
proof -
  consider (at) p where "cursor_placed hc base bs p rd" "\<forall>r\<in>set (records_before p). hk_content r < str_bytes k"
      "pl_done p = [] \<or> hk_content (pl_here p) \<le> str_bytes k"
    | (eof) "cu_eof (hf_cursor rd)" "same_file base rd" "cu_seeked (hf_cursor rd)"
      "\<forall>r\<in>set (file_records bs). hk_content r < str_bytes k"
    using assms(4) unfolding seek_state_def by blast
  then show ?thesis
  proof cases
  case p: (at p)
  obtain kv rd1 where kv: "get_key_value hc rd = (Ok (Some kv), rd1)" "kv_view (pl_here p) kv" "cursor_placed hc base bs p rd1"
    using get_key_value_placed [OF assms(1) p(1)] by blast
  have st: "cu_seeked (hf_cursor rd)" "tr_entry_count (hf_trailer rd) \<noteq> 0" "\<not> cu_eof (hf_cursor rd1)"
    "hf_current_block_entry rd1 = Some (pl_entry p)" "hf_data_block_index rd1 \<noteq> []"
    using p(1) kv(3) assms(1) by (auto simp: cursor_placed_def in_block_def file_holds_def same_file_parts)
  have recs: "file_records bs = records_before p @ records_from p" using place_records place_blocks_of [OF p(1)] by simp
  have state: "seek_state hc base bs (str_bytes k) rd1" using kv(3) p(2,3) by (auto simp: seek_state_def)
  have seek: "hf_seek_to hc k rd = (case compare_keys (kv_key kv) k of
      Inl err \<Rightarrow> Some (Err err, rd1) | Inr Equal \<Rightarrow> Some (Ok Found, rd1)
    | Inr Greater \<Rightarrow> Some (backward_seek k rd1, rd1) | Inr Less \<Rightarrow> forward_seek hc k rd1)"
    using st(1,2) kv(1) by (simp add: hf_seek_to_def)
  consider (less) "hk_content (pl_here p) < str_bytes k" | (equal) "hk_content (pl_here p) = str_bytes k"
    | (greater) "str_bytes k < hk_content (pl_here p)" by (meson linorder_less_linear)
  then show ?thesis
  proof cases
    case less
    then show ?thesis
      using forward_seek_finds [OF assms(1-3) kv(3) assms(5) p(2)] seek compare_view [OF kv(2), of k]
      by (auto simp: cmp_lin_def)
  next
    case equal
    have "file_has bs (str_bytes k)" using recs equal by (auto simp: file_has_def records_from_def)
    then show ?thesis using seek compare_view [OF kv(2), of k] equal state st(3) kv(3)
      by (auto simp: cmp_lin_def seek_answer_def)
  next
    case greater
    have cmp: "compare_keys (kv_key kv) k = Ok Greater"
      using compare_view [OF kv(2), of k] greater less_not_sym [OF greater] by (auto simp: cmp_lin_def)
    have "hk_content x \<noteq> str_bytes k" if x: "x \<in> set (file_records bs)" for x
    proof -
      have "\<forall>y\<in>set (pl_rest p @ file_records (pl_after p)). hk_content (pl_here p) < hk_content y"
        using sorted_file_split [OF assms(2), of "records_before p" "pl_here p"] recs by (simp add: records_from_def)
      then have "x \<in> set (records_before p) \<or> x = pl_here p \<or> hk_content (pl_here p) < hk_content x"
        using x recs by (auto simp: records_from_def)
      then show ?thesis using p(2) greater less_trans by fastforce
    qed
    then have absent: "\<not> file_has bs (str_bytes k)" by (simp add: file_has_def)
    have "pl_done p = []" using p(3) greater by auto
    then have first: "is_at_first_key_of_block rd1"
      using kv(3) st(4) place_block_at [OF assms(1) kv(3)]
      by (simp add: is_at_first_key_of_block_def cursor_placed_def block_at_def BLOCK_HEADER_SIZE_def)
    have "key_content (ie_first_key (pl_entry p)) = Ok (entry_content (pl_entry p))"
      using place_block_at [OF assms(1) kv(3)] by (simp add: block_at_def)
    then have "\<exists>sr. backward_seek k rd1 = Ok sr \<and> sr \<noteq> Found \<and> sr \<noteq> Eof"
      using st(4,5) first by (auto simp: backward_seek_def compare_keys_def)
    then show ?thesis using seek cmp state absent st(3) by (auto simp: seek_answer_def)
  qed
next
  case eof
  have "tr_entry_count (hf_trailer rd) \<noteq> 0" using assms(1) same_file_parts(2) [OF eof(2)] by (simp add: file_holds_def)
  then have "hf_seek_to hc k rd = Some (Ok Eof, rd)" using eof by (simp add: hf_seek_to_def get_key_value_def)
  then show ?thesis using eof by (auto simp: seek_answer_def seek_state_def file_has_def)
qed
qed

end
