(* ===== verification/HFile_Image.thy ===== *)
theory HFile_Image
  imports HFile_Seek_Facts
begin

text \<open>
  The bytes of an HFile: blocks, a root index, a meta index, the file info and the trailer, laid
  out as the format has them, uncompressed and with one index level. Opening these bytes yields a
  reader that holds the blocks.
\<close>

section \<open>Integers\<close>

text \<open>Hadoop's variable-length integer for a length below \<open>2 ^ 32\<close>: one byte, or a marker that says how
  many bytes follow.\<close>

definition vlong :: "nat \<Rightarrow> byte list" where
  "vlong n = (if n < 128 then [byte_of_nat n] else if n < 2 ^ 8 then 143 # be_bytes 1 n
     else if n < 2 ^ 16 then 142 # be_bytes 2 n else if n < 2 ^ 24 then 141 # be_bytes 3 n else 140 # be_bytes 4 n)"

lemma sint_small_byte: "n < 128 \<Longrightarrow> sint (byte_of_nat n) = int n"
  by (simp add: byte_of_nat_def sint_uint uint_nat unat_of_nat signed_take_bit_int_eq_self)

lemma be_nat_mod_small: "n < 256 ^ k \<Longrightarrow> k \<le> 8 \<Longrightarrow> be_nat (be_bytes k n) mod 2 ^ 64 = n"
proof -
  assume "n < 256 ^ k" "k \<le> 8"
  moreover have "(256::nat) ^ k \<le> 256 ^ 8" using \<open>k \<le> 8\<close> by (intro power_increasing) simp_all
  ultimately show ?thesis by simp
qed

lemma vlong_marked:
  assumes "first = 144 - byte_of_nat k" "1 \<le> k" "k \<le> 4" "n < 256 ^ k" "off = length pre"
  shows "var_long_size_on_disk (pre @ (first # be_bytes k n) @ post) off = Ok (k + 1)"
    and "read_var_long (pre @ (first # be_bytes k n) @ post) off = Ok (n, k + 1)"
proof -
  have k: "k = 1 \<or> k = 2 \<or> k = 3 \<or> k = 4" using assms(2,3) by arith
  then have size: "var_long_size_on_disk_single first = k + 1" and big: "\<not> sint first < -120"
    using assms(1) by (auto simp: var_long_size_on_disk_single_def byte_of_nat_def)
  have at: "bytes_at (pre @ (first # be_bytes k n) @ post) off 1 = Ok [first]" using assms(5) by (simp add: bytes_at_def)
  have rest: "bytes_at (pre @ (first # be_bytes k n) @ post) (off + 1) k = Ok (be_bytes k n)"
    using assms(5) by (simp add: bytes_at_def)
  show "var_long_size_on_disk (pre @ (first # be_bytes k n) @ post) off = Ok (k + 1)"
    unfolding var_long_size_on_disk_def at by (simp add: size)
  show "read_var_long (pre @ (first # be_bytes k n) @ post) off = Ok (n, k + 1)"
    unfolding read_var_long_def at using rest size big be_nat_mod_small [of n k] assms(2-4) by (simp add: Let_def)
qed

lemma vlong_read:
  assumes "n < 2 ^ 32" "off = length pre"
  shows "var_long_size_on_disk (pre @ vlong n @ post) off = Ok (length (vlong n)) \<and>
    read_var_long (pre @ vlong n @ post) off = Ok (n, length (vlong n))"
proof -
  consider "n < 128" | "128 \<le> n" "n < 2 ^ 8" | "2 ^ 8 \<le> n" "n < 2 ^ 16" | "2 ^ 16 \<le> n" "n < 2 ^ 24" | "2 ^ 24 \<le> n"
    by linarith
  then show ?thesis
  proof cases
    case 1
    then show ?thesis using assms(2)
      by (simp add: vlong_def var_long_size_on_disk_def read_var_long_def bytes_at_def var_long_size_on_disk_single_def
          sint_small_byte)
  next
    case 2
    then show ?thesis using vlong_marked [of 143 1 n off pre post] assms(2) by (simp add: vlong_def byte_of_nat_def)
  next
    case 3
    then show ?thesis using vlong_marked [of 142 2 n off pre post] assms(2) by (simp add: vlong_def byte_of_nat_def)
  next
    case 4
    then show ?thesis using vlong_marked [of 141 3 n off pre post] assms(2) by (simp add: vlong_def byte_of_nat_def)
  next
    case 5
    then show ?thesis using vlong_marked [of 140 4 n off pre post] assms by (simp add: vlong_def byte_of_nat_def)
  qed
qed

text \<open>The protobuf varint, least significant seven bits first.\<close>

fun varint :: "nat \<Rightarrow> byte list" where
  "varint n = (if n < 128 then [byte_of_nat n] else byte_of_nat (128 + n mod 128) # varint (n div 128))"

declare varint.simps [simp del]

lemma or_shifted:
  assumes "a < 2 ^ s"
  shows "or (word_of_nat a) (push_bit s (word_of_nat m)) = (word_of_nat (a + m * 2 ^ s) :: 64 word)"
proof -
  have "and a (push_bit s m) = 0"
  proof (rule bit_eqI)
    fix n
    have "\<not> bit a n" if "s \<le> n"
      using assms that by (metis bit_take_bit_iff leD take_bit_nat_eq_self)
    then show "bit (and a (push_bit s m)) n \<longleftrightarrow> bit 0 n" by (auto simp: bit_simps)
  qed
  then have "or a (push_bit s m) = a + m * 2 ^ s" by (simp add: disjunctive_add_eq_or [symmetric] push_bit_eq_mult)
  then show ?thesis by (metis of_nat_or_eq push_bit_of_nat)
qed

lemma low_seven: "x < 256 \<Longrightarrow> and (ucast (byte_of_nat x)) 0x7F = (word_of_nat (x mod 128) :: 64 word)"
proof -
  assume x: "x < 256"
  have "(0x7F :: 64 word) = mask 7" by (simp add: mask_eq_exp_minus_1)
  moreover have "(ucast (byte_of_nat x) :: 64 word) = word_of_nat x"
    using x by (simp add: byte_of_nat_def unsigned_of_nat take_bit_nat_eq_self)
  ultimately have "and (ucast (byte_of_nat x)) 0x7F = take_bit 7 (word_of_nat x :: 64 word)" by (simp add: take_bit_eq_mask)
  also have "\<dots> = word_of_nat (take_bit 7 x)" by (simp only: take_bit_of_nat)
  finally show ?thesis by (simp only: take_bit_eq_mod) simp
qed

lemma high_bit: "x < 256 \<Longrightarrow> and (byte_of_nat x) 0x80 = 0 \<longleftrightarrow> x < 128"
proof -
  assume x: "x < 256"
  have "and (byte_of_nat x) (2 ^ 7) = 0 \<longleftrightarrow> \<not> bit x 7"
    using bit_unsigned_iff [of "byte_of_nat x" 7, where 'a = nat] x by (simp only: and_exp_eq_0_iff_not_bit) simp
  moreover have "bit x 7 \<longleftrightarrow> odd (x div 128)" by (simp add: bit_iff_odd)
  moreover have "x div 128 = (if x < 128 then 0 else 1)" using x by auto
  ultimately show ?thesis by simp
qed

lemma read_varint_from_varint:
  assumes "acc < 2 ^ sh" "n * 2 ^ sh + acc < 2 ^ 64" "sh < 64"
  shows "read_varint_from (word_of_nat acc) sh pos (varint n @ post) = (word_of_nat (n * 2 ^ sh + acc), pos + length (varint n))"
  using assms
proof (induction n arbitrary: acc sh pos rule: varint.induct)
  case (1 n)
  show ?case
  proof (cases "n < 128")
    case True
    then show ?thesis using 1(2,4) low_seven [of n] high_bit [of n] or_shifted [OF 1(2), of n]
      by (simp add: varint.simps [of n] Let_def add.commute)
  next
    case False
    let ?x = "128 + n mod 128"
    have x: "?x < 256" "?x mod 128 = n mod 128" "\<not> ?x < 128" by simp_all
    have "n * 2 ^ sh = n div 128 * 2 ^ (sh + 7) + n mod 128 * 2 ^ sh"
    proof -
      have "n * 2 ^ sh = (n div 128 * 128 + n mod 128) * 2 ^ sh" by simp
      also have "\<dots> = n div 128 * 2 ^ (sh + 7) + n mod 128 * 2 ^ sh" by (simp only: power_add distrib_right) simp
      finally show ?thesis .
    qed
    moreover have "acc + n mod 128 * 2 ^ sh < 2 ^ (sh + 7)"
    proof -
      have "n mod 128 \<le> 127" by simp
      then have "n mod 128 * 2 ^ sh \<le> 127 * 2 ^ sh" by (intro mult_right_mono) simp_all
      moreover have "(2::nat) ^ (sh + 7) = 128 * 2 ^ sh" by (simp add: power_add)
      ultimately show ?thesis using 1(2) by linarith
    qed
    moreover have "sh + 7 < 64"
    proof -
      have "2 ^ (sh + 7) \<le> n * 2 ^ sh" using False by (simp add: power_add)
      then have "(2::nat) ^ (sh + 7) < 2 ^ 64" using 1(3) by linarith
      then show ?thesis using power_less_imp_less_exp [of "2::nat" "sh + 7" 64] by linarith
    qed
    ultimately have "read_varint_from (word_of_nat (acc + n mod 128 * 2 ^ sh)) (sh + 7) (pos + 1) (varint (n div 128) @ post) =
        (word_of_nat (n * 2 ^ sh + acc), pos + 1 + length (varint (n div 128)))"
      using 1(1) [OF False, of "acc + n mod 128 * 2 ^ sh" "sh + 7" "pos + 1"] 1(3) by (simp add: algebra_simps)
    then show ?thesis using False x 1(4) low_seven [of ?x] high_bit [of ?x] or_shifted [OF 1(2), of "n mod 128"]
      by (simp add: varint.simps [of n] Let_def)
  qed
qed

lemma read_varint_varint: "n < 2 ^ 64 \<Longrightarrow> read_varint (varint n @ post) = (n, length (varint n))"
  using read_varint_from_varint [of 0 0 n 0 post] by (simp add: read_varint_def unat_of_nat)

section \<open>Blocks and indexes\<close>

definition hblock_image :: "HFileBlockType \<Rightarrow> byte list \<Rightarrow> byte list" where
  "hblock_image t data = block_magic t @ be_bytes 4 (length data) @ be_bytes 4 (length data) @ be_bytes 8 0 @ [0] @
     be_bytes 4 16384 @ be_bytes 4 (33 + length data) @ data"

definition image_header :: "HFileBlockType \<Rightarrow> byte list \<Rightarrow> BlockHeader" where
  "image_header t data = \<lparr>bh_block_type = t, bh_on_disk_size_without_header = length data,
     bh_uncompressed_size_without_header = length data, bh_prev_block_offset = 0, bh_checksum_type = 0,
     bh_bytes_per_checksum = 16384, bh_on_disk_data_size_with_header = 33 + length data\<rparr>"

lemma length_block_magic [simp]: "length (block_magic t) = 8"
  by (cases t) (simp_all add: block_magic_def)

lemma length_block_image [simp]: "length (hblock_image t data) = 33 + length data"
  by (simp add: hblock_image_def)

lemma from_magic_block: "from_magic (block_magic t @ rest) = Ok t"
  by (cases t) (simp_all add: from_magic_def block_magic_def MAGIC_LENGTH_def str_bytes_def Let_def byte_of_nat_def)

lemma header_parse_image:
  assumes "length data < 2 ^ 30"
  shows "header_parse (hblock_image t data @ post) = Ok (image_header t data)"
proof -
  let ?m = "block_magic t" and ?l = "be_bytes 4 (length data)"
  let ?tail = "data @ post"
  have bs: "hblock_image t data @ post = ?m @ ?l @ ?l @ be_bytes 8 0 @ [0] @ be_bytes 4 16384 @ be_bytes 4 (33 + length data) @ ?tail"
    by (simp add: hblock_image_def)
  have 1: "read_i32 (hblock_image t data @ post) 8 = Ok (length data)"
    unfolding bs using assms by (intro read_i32_append) simp_all
  have 2: "read_i32 (hblock_image t data @ post) 12 = Ok (length data)"
    using read_i32_append [of 12 "?m @ ?l" "length data" "be_bytes 8 0 @ [0] @ be_bytes 4 16384 @ be_bytes 4 (33 + length data) @ ?tail"]
      assms by (simp add: bs)
  have 3: "bytes_at (hblock_image t data @ post) 16 8 = Ok (be_bytes 8 0)"
    using bytes_at_append [of 16 "?m @ ?l @ ?l" 8 "be_bytes 8 0"] by (simp add: bs)
  have 4: "read_i32 (hblock_image t data @ post) 25 = Ok 16384"
    using read_i32_append [of 25 "?m @ ?l @ ?l @ be_bytes 8 0 @ [0]" 16384 "be_bytes 4 (33 + length data) @ ?tail"]
    by (simp add: bs)
  have 5: "read_i32 (hblock_image t data @ post) 29 = Ok (33 + length data)"
    using read_i32_append [of 29 "?m @ ?l @ ?l @ be_bytes 8 0 @ [0] @ be_bytes 4 16384" "33 + length data" ?tail] assms
    by (simp add: bs)
  have 6: "(hblock_image t data @ post) ! 24 = 0"
    by (simp add: bs nth_append)
  have 7: "be_int (be_bytes 8 0) = 0" using be_int_be_bytes [of 0 8] by simp
  show ?thesis
    using 1 2 3 4 5 6 7 from_magic_block [of t] by (simp add: header_parse_def BLOCK_HEADER_SIZE_def image_header_def bs)
qed

lemma hblock_parse_image:
  assumes "length data < 2 ^ 30"
  shows "hblock_parse gunzip (hblock_image t data @ post) Uncompressed = Ok \<lparr>hb_header = image_header t data, hb_data = data\<rparr>"
proof -
  have "slice (hblock_image t data @ post) 33 (33 + length data) = Ok data"
    using slice_append [of 33 "block_magic t @ be_bytes 4 (length data) @ be_bytes 4 (length data) @ be_bytes 8 0 @ [0] @
      be_bytes 4 16384 @ be_bytes 4 (33 + length data)" "33 + length data" data post] by (simp add: hblock_image_def)
  then show ?thesis
    using assms by (simp add: hblock_parse_def header_parse_image checksum_bytes_count_def image_header_def Let_def
        BLOCK_HEADER_SIZE_def)
qed

text \<open>An entry of a root index: where the block is, how long it is, and its first key.\<close>

definition entry_image :: "nat \<Rightarrow> nat \<Rightarrow> byte list \<Rightarrow> byte list" where
  "entry_image off sz kb = be_bytes 8 off @ be_bytes 4 sz @ vlong (length kb) @ kb"

definition index_image :: "(nat \<times> nat \<times> byte list) list \<Rightarrow> byte list" where
  "index_image es = concat (map (\<lambda>(off, sz, kb). entry_image off sz kb) es)"

definition index_key :: "bool \<Rightarrow> byte list \<Rightarrow> Key" where
  "index_key content_key_only kb = (if content_key_only then key_from_bytes kb else key_new kb 0 (length kb))"

definition index_ok :: "(nat \<times> nat \<times> byte list) list \<Rightarrow> bool" where
  "index_ok es \<longleftrightarrow> list_all (\<lambda>(off, sz, kb). off < 2 ^ 63 \<and> sz < 2 ^ 31 \<and> length kb < 2 ^ 31) es"

lemma parse_root_index_image:
  "index_ok es \<Longrightarrow> off = length pre \<Longrightarrow> length pre + length (index_image es) < 2 ^ 62 \<Longrightarrow>
   parse_root_index_entries (pre @ index_image es @ post) (length es) cko off =
     Ok (map (\<lambda>(o1, sz, kb). entry_new (index_key cko kb) None o1 sz) es)"
proof (induction es arbitrary: pre off)
  case (Cons e es)
  obtain o1 sz kb where e: "e = (o1, sz, kb)" by (cases e)
  have ok: "o1 < 2 ^ 63" "sz < 2 ^ 31" "length kb < 2 ^ 31" "index_ok es"
    using Cons.prems(1) e by (auto simp: index_ok_def)
  let ?v = "vlong (length kb)"
  let ?data = "pre @ index_image (e # es) @ post"
  have data: "?data = pre @ be_bytes 8 o1 @ be_bytes 4 sz @ ?v @ kb @ index_image es @ post"
    by (simp add: index_image_def entry_image_def e)
  have 1: "bytes_at ?data off 8 = Ok (be_bytes 8 o1)" unfolding data using Cons.prems(2) by (intro bytes_at_append) simp_all
  have 2: "bytes_at ?data (off + 8) 4 = Ok (be_bytes 4 sz)"
    using bytes_at_append [of "off + 8" "pre @ be_bytes 8 o1" 4 "be_bytes 4 sz"] Cons.prems(2) by (simp add: data)
  have 3: "var_long_size_on_disk ?data (off + 12) = Ok (length ?v)" "read_var_long ?data (off + 12) = Ok (length kb, length ?v)"
    using vlong_read [of "length kb" "off + 12" "pre @ be_bytes 8 o1 @ be_bytes 4 sz" "kb @ index_image es @ post"]
      ok Cons.prems(2) by (simp_all add: data)
  have len: "length pre + 12 + length ?v + length kb + length (index_image es) < 2 ^ 62"
    using Cons.prems(3) by (simp add: index_image_def entry_image_def e)
  have 4: "slice ?data (off + 12 + length ?v) (off + 12 + length ?v + length kb) = Ok kb"
    using slice_append [of "off + 12 + length ?v" "pre @ be_bytes 8 o1 @ be_bytes 4 sz @ ?v" _ kb "index_image es @ post"]
      Cons.prems(2) by (simp add: data)
  have 5: "parse_root_index_entries ?data (length es) cko (off + 12 + length ?v + length kb) =
      Ok (map (\<lambda>(o1, sz, kb). entry_new (index_key cko kb) None o1 sz) es)"
    using Cons.IH [OF ok(4), of "off + 12 + length ?v + length kb" "pre @ be_bytes 8 o1 @ be_bytes 4 sz @ ?v @ kb"]
      Cons.prems(2) len by (simp add: data)
  have u: "uadd (off + 12 + length ?v) (length kb) = off + 12 + length ?v + length kb" using len Cons.prems(2) by simp
  show ?case
    using 1 2 3 4 5 u ok by (simp add: Let_def index_key_def e)
qed (simp add: index_image_def)

section \<open>A whole file\<close>

text \<open>The blocks (the content of the index key, the rest of that key, the records), the entries of the
  meta index, and the two encoded protobuf messages.\<close>

record file_image =
  fi_blocks :: "(byte list \<times> byte list \<times> hkv list) list"
  fi_meta :: "(nat \<times> nat \<times> byte list) list"
  fi_info :: "byte list"
  fi_proto :: "byte list"

definition data_image :: "(byte list \<times> byte list \<times> hkv list) list \<Rightarrow> byte list" where
  "data_image bs = concat (map (\<lambda>(c, x, rs). hblock_image BtData (encode_block rs)) bs)"

definition key_image :: "byte list \<Rightarrow> byte list \<Rightarrow> byte list" where
  "key_image c x = be_bytes 2 (length c) @ c @ x"

fun block_entries :: "nat \<Rightarrow> (byte list \<times> byte list \<times> hkv list) list \<Rightarrow> (nat \<times> nat \<times> byte list) list" where
  "block_entries off [] = []"
| "block_entries off ((c, x, rs) # bs) = (let len = 33 + length (encode_block rs) in
     (off, len, key_image c x) # block_entries (off + len) bs)"

definition trailer_image :: "byte list \<Rightarrow> byte list" where
  "trailer_image p = block_magic BtTrailer @ varint (length p) @ p @
     replicate (4084 - length (varint (length p)) - length p) 0 @ [0, 0, 0, 3]"

definition root_image :: "file_image \<Rightarrow> byte list" where
  "root_image im = index_image (block_entries 0 (fi_blocks im))"

definition info_image :: "file_image \<Rightarrow> byte list" where
  "info_image im = PBUF_MAGIC @ varint (length (fi_info im)) @ fi_info im"

definition image_bytes :: "file_image \<Rightarrow> byte list" where
  "image_bytes im = data_image (fi_blocks im) @ hblock_image BtRootIndex (root_image im) @
     hblock_image BtRootIndex (index_image (fi_meta im)) @ hblock_image BtFileInfo (info_image im) @
     trailer_image (fi_proto im)"

lemma length_trailer_image:
  "length (varint (length p)) + length p \<le> 4084 \<Longrightarrow> length (trailer_image p) = TRAILER_SIZE"
  by (simp add: trailer_image_def TRAILER_SIZE_def)

definition proto_trailer :: "TrailerProto \<Rightarrow> HFileTrailer" where
  "proto_trailer p = \<lparr>tr_major_version = 3, tr_minor_version = 0,
                tr_file_info_offset = unwrap_or 0 (tp_file_info_offset p),
                tr_load_on_open_data_offset = unwrap_or 0 (tp_load_on_open_data_offset p),
                tr_uncompressed_data_index_size = unwrap_or 0 (tp_uncompressed_data_index_size p),
                tr_total_uncompressed_bytes = unwrap_or 0 (tp_total_uncompressed_bytes p),
                tr_data_index_count = unwrap_or 0 (tp_data_index_count p),
                tr_meta_index_count = unwrap_or 0 (tp_meta_index_count p),
                tr_entry_count = unwrap_or 0 (tp_entry_count p),
                tr_num_data_index_levels = unwrap_or 1 (tp_num_data_index_levels p),
                tr_first_data_block_offset = unwrap_or 0 (tp_first_data_block_offset p),
                tr_last_data_block_offset = unwrap_or 0 (tp_last_data_block_offset p),
                tr_comparator_class_name = unwrap_or [] (tp_comparator_class_name p),
                tr_compression_codec = Uncompressed\<rparr>"

lemma trailer_read_image:
  assumes "length (varint (length p)) + length p \<le> 4084" "hc_trailer hc p = Ok tp" "tp_compression_codec tp \<in> {None, Some 2}"
  shows "trailer_read hc (pre @ trailer_image p) = Ok (proto_trailer tp)"
proof -
  let ?pad = "replicate (4084 - length (varint (length p)) - length p) 0 :: byte list"
  have len: "length (trailer_image p) = 4096" using length_trailer_image [OF assms(1)] by (simp add: TRAILER_SIZE_def)
  have bs: "drop (length (pre @ trailer_image p) - TRAILER_SIZE) (pre @ trailer_image p) = trailer_image p"
    using len by (simp add: TRAILER_SIZE_def)
  have magic: "check_magic BtTrailer (trailer_image p) = Ok ()"
    using len by (simp add: check_magic_def trailer_image_def MAGIC_LENGTH_def)
  have version: "drop (TRAILER_SIZE - 4) (trailer_image p) = [0, 0, 0, 3]"
    using assms(1) by (simp add: trailer_image_def TRAILER_SIZE_def)
  have mid: "drop MAGIC_LENGTH (take (TRAILER_SIZE - 4) (trailer_image p)) = varint (length p) @ p @ ?pad"
    using assms(1) by (simp add: trailer_image_def TRAILER_SIZE_def MAGIC_LENGTH_def)
  have small: "length p < 2 ^ 64" using assms(1) by simp
  have "parse_length_delimited_proto hc (varint (length p) @ p @ ?pad) = Ok tp"
    using read_varint_varint [OF small] slice_append [of "length (varint (length p))" "varint (length p)" _ p ?pad] assms(1,2)
    by (simp add: parse_length_delimited_proto_def)
  moreover have "(case tp_compression_codec tp of None \<Rightarrow> Ok Uncompressed | Some i \<Rightarrow> codec_from_id i) = Ok Uncompressed"
    using assms(3) by (auto simp: codec_from_id_def)
  ultimately show ?thesis
    unfolding trailer_read_def bs Let_def magic version mid using len
    by (simp add: proto_trailer_def TRAILER_SIZE_def)
qed

subsection \<open>The index of the blocks\<close>

lemma key_content_image:
  "length c < 2 ^ 15 \<Longrightarrow> length x < 2 ^ 30 \<Longrightarrow> key_content (index_key False (key_image c x)) = Ok c"
  using key_content_parts [of c x] by (simp add: index_key_def key_new_def key_image_def Let_def)

lemma bm_insert_at_end: "\<forall>k'\<in>fst ` set m. k' < k \<Longrightarrow> bm_insert k v m = m @ [(k, v)]"
  by (induction k v m rule: bm_insert.induct) (auto simp: less_not_sym)

lemma index_fold:
  assumes "\<forall>e\<in>set es. key_content (ie_first_key e) = Ok (entry_content e)"
    and "sorted_wrt (<) (map fst m @ map entry_content es)"
  shows "res_fold index_insert m es = Ok (m @ map (\<lambda>e. (entry_content e, e)) es)"
  using assms
proof (induction es arbitrary: m)
  case (Cons e es)
  have "bm_insert (entry_content e) e m = m @ [(entry_content e, e)]"
    using Cons.prems(2) by (intro bm_insert_at_end) (auto simp: sorted_wrt_append)
  then show ?case using Cons by (simp add: index_insert_def)
qed simp

lemma link_entries_simps: "length (link_entries es) = length es" "map ie_first_key (link_entries es) = map ie_first_key es"
  "map ie_offset (link_entries es) = map ie_offset es" "map ie_size (link_entries es) = map ie_size es"
  by (induction es rule: link_entries.induct) (simp_all add: entry_new_def)

lemma link_entries_linked: "length rss = length es \<Longrightarrow> linked (zip (link_entries es) rss)"
proof (induction es arbitrary: rss rule: link_entries.induct)
  case (2 e)
  then show ?case by (cases rss) (auto simp: entry_new_def)
next
  case (3 e e' es)
  then obtain rs rs' rest where rss: "rss = rs # rs' # rest" by (auto simp: length_Suc_conv)
  have "linked (zip (link_entries (e' # es)) (rs' # rest))" using 3 rss by simp
  then show ?case using rss by (cases es) (auto simp: entry_new_def)
qed simp

lemma entry_content_eq: "ie_first_key e = ie_first_key e' \<Longrightarrow> entry_content e = entry_content e'"
  by (simp add: entry_content_def)

lemma link_entries_content: "map entry_content (link_entries es) = map entry_content es"
  by (rule nth_equalityI)
    (metis link_entries_simps(1) length_map, metis link_entries_simps(1,2) length_map nth_map entry_content_eq)

definition raw_entries :: "file_image \<Rightarrow> BlockIndexEntry list" where
  "raw_entries im = map (\<lambda>(off, sz, kb). entry_new (index_key False kb) None off sz) (block_entries 0 (fi_blocks im))"

definition image_blocks :: "file_image \<Rightarrow> file_blocks" where
  "image_blocks im = zip (link_entries (raw_entries im)) (map (\<lambda>(c, x, rs). rs) (fi_blocks im))"

lemma length_block_entries [simp]: "length (block_entries off bs) = length bs"
  by (induction off bs rule: block_entries.induct) (simp_all add: Let_def)

lemma block_entries_nth:
  "i < length bs \<Longrightarrow> bs ! i = (c, x, rs) \<Longrightarrow> \<exists>pre post. data_image bs = pre @ hblock_image BtData (encode_block rs) @ post \<and>
     block_entries off bs ! i = (off + length pre, 33 + length (encode_block rs), key_image c x)"
proof (induction off bs arbitrary: i rule: block_entries.induct)
  case (2 off c' x' rs' bs)
  show ?case
  proof (cases i)
    case 0
    then show ?thesis using 2(3) by (intro exI [of _ "[]"] exI [of _ "data_image bs"]) (simp add: data_image_def Let_def)
  next
    case (Suc j)
    then obtain pre post where p: "data_image bs = pre @ hblock_image BtData (encode_block rs) @ post"
      "block_entries (off + (33 + length (encode_block rs'))) bs ! j =
        (off + (33 + length (encode_block rs')) + length pre, 33 + length (encode_block rs), key_image c x)"
      using 2(1) [OF refl, of j] 2(2,3) by auto
    then show ?thesis using Suc
      by (intro exI [of _ "hblock_image BtData (encode_block rs') @ pre"] exI [of _ post])
        (simp add: data_image_def Let_def)
  qed
qed simp

end
