(* ===== verification/HFile_Open.thy ===== *)
theory HFile_Open
  imports HFile_Image
begin

text \<open>
  Opening the bytes of a file and reading it back: from the bytes of an HFile to its records, to
  the record of a key, and to the records of a prefix.
\<close>

section \<open>Opening\<close>

definition info_map :: "(byte list \<times> byte list) list \<Rightarrow> (string, byte list) btree_map" where
  "info_map pairs = foldl (\<lambda>m (k, v). bm_insert (from_utf8_lossy k) v m) [] pairs"

definition blocks_ok :: "(byte list \<times> byte list \<times> hkv list) list \<Rightarrow> bool" where
  "blocks_ok bs \<longleftrightarrow> bs \<noteq> [] \<and> sorted_wrt (<) (map fst bs) \<and>
     list_all (\<lambda>(c, x, rs). length c < 2 ^ 15 \<and> length x < 2 ^ 30 \<and> rs \<noteq> [] \<and> list_all hkv_ok rs \<and>
       length (encode_block rs) < 2 ^ 30) bs"

definition sizes_ok :: "file_image \<Rightarrow> bool" where
  "sizes_ok im \<longleftrightarrow> length (root_image im) < 2 ^ 30 \<and> length (index_image (fi_meta im)) < 2 ^ 30 \<and>
     length (info_image im) < 2 ^ 30 \<and> length (varint (length (fi_proto im))) + length (fi_proto im) \<le> 4084 \<and>
     length (image_bytes im) < 2 ^ 62"

definition meta_ok :: "(nat \<times> nat \<times> byte list) list \<Rightarrow> bool" where
  "meta_ok es \<longleftrightarrow> index_ok es \<and> list_all (\<lambda>(off, sz, kb). \<exists>c. key_content (key_from_bytes kb) = Ok c) es"

text \<open>What the trailer says of the file.\<close>

definition trailer_describes :: "TrailerProto \<Rightarrow> file_image \<Rightarrow> bool" where
  "trailer_describes tp im \<longleftrightarrow> tp_load_on_open_data_offset tp = Some (length (data_image (fi_blocks im))) \<and>
     tp_data_index_count tp = Some (length (fi_blocks im)) \<and>
     unwrap_or 0 (tp_meta_index_count tp) = length (fi_meta im) \<and>
     tp_entry_count tp = Some (length (concat (map (\<lambda>(c, x, rs). rs) (fi_blocks im)))) \<and>
     tp_num_data_index_levels tp \<in> {None, Some 1} \<and> tp_compression_codec tp \<in> {None, Some 2}"

text \<open>The last key, when the file info has it, bounds the keys; no MVCC timestamps.\<close>

definition info_ok :: "(byte list \<times> byte list) list \<Rightarrow> file_image \<Rightarrow> bool" where
  "info_ok pairs im \<longleftrightarrow>
     (\<forall>lk. bm_get (info_map pairs) FILE_INFO_LAST_KEY = Some lk \<longrightarrow> (\<exists>c. key_content (key_from_bytes lk) = Ok c \<and>
        (\<forall>(c', x, rs)\<in>set (fi_blocks im). \<forall>r\<in>set rs. hk_content r \<le> c))) \<and>
     (\<forall>ts. bm_get (info_map pairs) FILE_INFO_MAX_MVCC_TS = Some ts \<longrightarrow> length ts < 8 \<or> be_int (take 8 ts) \<le> 0)"

definition hfile_ok :: "hfile_codecs \<Rightarrow> file_image \<Rightarrow> TrailerProto \<Rightarrow> (byte list \<times> byte list) list \<Rightarrow> bool" where
  "hfile_ok hc im tp pairs \<longleftrightarrow> blocks_ok (fi_blocks im) \<and> sizes_ok im \<and> meta_ok (fi_meta im) \<and>
     hc_trailer hc (fi_proto im) = Ok tp \<and> hc_info hc (fi_info im) = Ok pairs \<and> trailer_describes tp im \<and> info_ok pairs im"

lemma expect_type_image: "expect_type t \<lparr>hb_header = image_header t data, hb_data = data\<rparr> = Ok \<lparr>hb_header = image_header t data, hb_data = data\<rparr>"
  by (simp add: expect_type_def hblock_type_def image_header_def)

lemma on_disk_image: "length data < 2 ^ 30 \<Longrightarrow> on_disk_size_with_header (image_header t data) = 33 + length data"
  by (simp add: on_disk_size_with_header_def image_header_def BLOCK_HEADER_SIZE_def)

lemma block_at_whole:
  assumes "hf_source rd = Whole (pre @ hblock_image t data @ post)" "hf_codec rd = Uncompressed" "length data < 2 ^ 30"
    and "length (pre @ hblock_image t data @ post) < 2 ^ 62" "off = length pre" "sz = 33 + length data"
  shows "read_block_at hc rd off sz = Ok \<lparr>hb_header = image_header t data, hb_data = data\<rparr>"
proof -
  have "slice (pre @ hblock_image t data @ post) off (off + sz) = Ok (hblock_image t data)"
    using assms(5,6) by (intro slice_append) simp_all
  moreover have "off + sz < 2 ^ 64" using assms(4-6) by simp
  ultimately show ?thesis
    using assms(1,2,3) hblock_parse_image [of data "hc_gunzip hc" t "[]"] by (simp add: read_block_at_def resident_range_def)
qed

text \<open>A source that has the bytes from some offset on.\<close>

definition has_tail :: "Source \<Rightarrow> nat \<Rightarrow> byte list \<Rightarrow> bool" where
  "has_tail s start bs \<longleftrightarrow> (\<forall>off. start \<le> off \<longrightarrow> off \<le> length bs \<longrightarrow> metadata_at s off = Ok (drop off bs))"

lemma metadata_block:
  assumes "has_tail (hf_source rd) start (pre @ hblock_image t data @ post)" "hf_codec rd = Uncompressed" "length data < 2 ^ 30"
    "off = length pre" "start \<le> off"
  shows "res_bind (metadata_at (hf_source rd) off) (\<lambda>bs. res_bind (hblock_parse (hc_gunzip hc) bs (hf_codec rd)) f) =
    f \<lparr>hb_header = image_header t data, hb_data = data\<rparr>"
  using assms hblock_parse_image [of data "hc_gunzip hc" t post] by (simp add: has_tail_def)

lemma raw_entries_content:
  assumes "blocks_ok (fi_blocks im)"
  shows "map entry_content (raw_entries im) = map fst (fi_blocks im)"
    and "\<forall>e\<in>set (raw_entries im). key_content (ie_first_key e) = Ok (entry_content e)"
proof -
  have key: "ie_first_key (raw_entries im ! i) = index_key False (key_image c x)"
    if "i < length (fi_blocks im)" "fi_blocks im ! i = (c, x, rs)" for i c x rs
    using block_entries_nth [OF that, of 0] that by (auto simp: raw_entries_def entry_new_def)
  have ok: "length c < 2 ^ 15 \<and> length x < 2 ^ 30"
    if "i < length (fi_blocks im)" "fi_blocks im ! i = (c, x, rs)" for i c x rs
    using assms nth_mem [OF that(1)] that(2) by (auto simp: blocks_ok_def list_all_iff)
  have len: "length (raw_entries im) = length (fi_blocks im)" by (simp add: raw_entries_def)
  have content: "key_content (ie_first_key (raw_entries im ! i)) = Ok (fst (fi_blocks im ! i))" if "i < length (fi_blocks im)" for i
    using key [OF that] ok [OF that] key_content_image by (cases "fi_blocks im ! i") auto
  then have "entry_content (raw_entries im ! i) = fst (fi_blocks im ! i)" if "i < length (fi_blocks im)" for i
    using that by (simp add: entry_content_def)
  then show "map entry_content (raw_entries im) = map fst (fi_blocks im)"
    by (intro nth_equalityI) (simp_all add: len)
  show "\<forall>e\<in>set (raw_entries im). key_content (ie_first_key e) = Ok (entry_content e)"
    using content len by (auto simp: entry_content_def in_set_conv_nth)
qed

lemma linked_contents:
  assumes "blocks_ok (fi_blocks im)"
  shows "map entry_content (link_entries (raw_entries im)) = map fst (fi_blocks im)"
    and "\<forall>e\<in>set (link_entries (raw_entries im)). key_content (ie_first_key e) = Ok (entry_content e)"
proof -
  show "map entry_content (link_entries (raw_entries im)) = map fst (fi_blocks im)"
    using raw_entries_content(1) [OF assms] link_entries_content by metis
  show "\<forall>e\<in>set (link_entries (raw_entries im)). key_content (ie_first_key e) = Ok (entry_content e)"
  proof
    fix e
    assume "e \<in> set (link_entries (raw_entries im))"
    then have "ie_first_key e \<in> ie_first_key ` set (raw_entries im)" by (metis link_entries_simps(2) image_eqI list.set_map)
    then obtain e' where "e' \<in> set (raw_entries im)" "ie_first_key e = ie_first_key e'" by auto
    then show "key_content (ie_first_key e) = Ok (entry_content e)"
      using raw_entries_content(2) [OF assms] entry_content_eq by metis
  qed
qed

lemma index_of_image:
  assumes "blocks_ok (fi_blocks im)"
  shows "index_from_leaf_entries (raw_entries im) = Ok (map (\<lambda>e. (entry_content e, e)) (link_entries (raw_entries im)))"
  using index_fold [of "link_entries (raw_entries im)" "[]"] linked_contents [OF assms] assms
  by (simp add: index_from_leaf_entries_def blocks_ok_def)

definition image_reader :: "Source \<Rightarrow> file_image \<Rightarrow> TrailerProto \<Rightarrow> (byte list \<times> byte list) list \<Rightarrow>
    (string, BlockIndexEntry) btree_map \<Rightarrow> HFileReader" where
  "image_reader s im tp pairs m = (with_source s (proto_trailer tp))\<lparr>
     hf_data_block_index := map (\<lambda>e. (entry_content e, e)) (link_entries (raw_entries im)), hf_meta_block_index := m,
     hf_file_info := info_map pairs, hf_last_key := map_option key_from_bytes (bm_get (info_map pairs) FILE_INFO_LAST_KEY)\<rparr>"

lemma meta_fold:
  "list_all (\<lambda>e. \<exists>c. key_content (ie_first_key e) = Ok c) es \<Longrightarrow>
   \<exists>m. res_fold (\<lambda>m e. res_bind (key_content (ie_first_key e)) (\<lambda>c. Ok (bm_insert (from_utf8_lossy c) e m))) m0 es = Ok m"
  by (induction es arbitrary: m0) auto

lemma block_entries_ok:
  "off + length (data_image bs) < 2 ^ 62 \<Longrightarrow>
   list_all (\<lambda>(c, x, rs). length c < 2 ^ 15 \<and> length x < 2 ^ 30 \<and> length (encode_block rs) < 2 ^ 30) bs \<Longrightarrow>
   index_ok (block_entries off bs)"
  by (induction off bs rule: block_entries.induct) (simp_all add: index_ok_def data_image_def Let_def key_image_def)

lemma read_image_metadata:
  assumes "hfile_ok hc im tp pairs" "has_tail s (length (data_image (fi_blocks im))) (image_bytes im)"
  obtains m rd1 off where "read_root_index hc (with_source s (proto_trailer tp)) = Ok (rd1, off)"
    "hf_trailer rd1 = proto_trailer tp" "read_meta_and_file_info hc rd1 off = Ok (image_reader s im tp pairs m)"
proof -
  let ?data = "data_image (fi_blocks im)" and ?bytes = "image_bytes im"
  let ?root = "hblock_image BtRootIndex (root_image im)" and ?meta = "hblock_image BtRootIndex (index_image (fi_meta im))"
  let ?info = "hblock_image BtFileInfo (info_image im)" and ?trailer = "trailer_image (fi_proto im)"
  have ok: "blocks_ok (fi_blocks im)" "sizes_ok im" "meta_ok (fi_meta im)" "hc_trailer hc (fi_proto im) = Ok tp"
    "hc_info hc (fi_info im) = Ok pairs" "trailer_describes tp im" "info_ok pairs im"
    using assms(1) by (simp_all add: hfile_ok_def)
  have sizes: "length (root_image im) < 2 ^ 30" "length (index_image (fi_meta im)) < 2 ^ 30" "length (info_image im) < 2 ^ 30"
    "length (varint (length (fi_proto im))) + length (fi_proto im) \<le> 4084" "length ?bytes < 2 ^ 62"
    using ok(2) by (simp_all add: sizes_ok_def)
  have parts: "?bytes = ?data @ ?root @ ?meta @ ?info @ ?trailer" by (simp add: image_bytes_def)
  have total: "length ?data + (33 + length (root_image im)) + (33 + length (index_image (fi_meta im))) < 2 ^ 62"
    using sizes(5) by (simp add: parts)
  let ?tr = "proto_trailer tp"
  let ?rd0 = "with_source s ?tr"
  have rd0: "has_tail (hf_source ?rd0) (length ?data) ?bytes" "hf_codec ?rd0 = Uncompressed" "hf_trailer ?rd0 = ?tr"
    using assms(2) by (simp_all add: with_source_def proto_trailer_def)
  have tr: "tr_load_on_open_data_offset ?tr = length ?data" "tr_data_index_count ?tr = length (fi_blocks im)"
    "tr_meta_index_count ?tr = length (fi_meta im)" "tr_num_data_index_levels ?tr = 1"
    using ok(6) by (auto simp: proto_trailer_def trailer_describes_def unwrap_or_def)
  have idx_ok: "index_ok (block_entries 0 (fi_blocks im))"
    using ok(1) total by (intro block_entries_ok) (auto simp: blocks_ok_def list_all_iff)
  have idx: "parse_root_index_entries (root_image im) (length (fi_blocks im)) False 0 = Ok (raw_entries im)"
    using parse_root_index_image [OF idx_ok, of 0 "[]" "[]" False] sizes(1) by (simp add: root_image_def raw_entries_def)
  let ?index = "map (\<lambda>e. (entry_content e, e)) (link_entries (raw_entries im))"
  have src0: "has_tail (hf_source ?rd0) (length ?data) (?data @ ?root @ (?meta @ ?info @ ?trailer))" using rd0(1) parts by simp
  have root: "read_root_index hc ?rd0 = Ok (?rd0\<lparr>hf_data_block_index := ?index\<rparr>, length ?data + (33 + length (root_image im)))"
    unfolding read_root_index_def read_root_index_block_def rd0(3) tr(1) metadata_block [OF src0 rd0(2) sizes(1) refl order_refl]
    using tr(2) idx index_of_image [OF ok(1)] on_disk_image [OF sizes(1)] total by (simp add: expect_type_image)
  let ?rd1 = "?rd0\<lparr>hf_data_block_index := ?index\<rparr>"
  have "index_ok (fi_meta im)" using ok(3) by (simp add: meta_ok_def)
  then have midx: "parse_root_index_entries (index_image (fi_meta im)) (length (fi_meta im)) True 0 =
      Ok (map (\<lambda>(off, sz, kb). entry_new (index_key True kb) None off sz) (fi_meta im))"
    using parse_root_index_image [of "fi_meta im" 0 "[]" "[]" True] sizes(2) by simp
  have "list_all (\<lambda>e. \<exists>c. key_content (ie_first_key e) = Ok c)
      (map (\<lambda>(off, sz, kb). entry_new (index_key True kb) None off sz) (fi_meta im))"
    using ok(3) by (auto simp: meta_ok_def list_all_iff entry_new_def index_key_def)
  then obtain m where m: "res_fold (\<lambda>m e. res_bind (key_content (ie_first_key e)) (\<lambda>c. Ok (bm_insert (from_utf8_lossy c) e m))) []
      (map (\<lambda>(off, sz, kb). entry_new (index_key True kb) None off sz) (fi_meta im)) = Ok m"
    using meta_fold by blast
  let ?off2 = "length ?data + (33 + length (root_image im)) + (33 + length (index_image (fi_meta im)))"
  have rd1: "has_tail (hf_source ?rd1) (length ?data) ?bytes" "hf_codec ?rd1 = Uncompressed" "hf_trailer ?rd1 = ?tr" using rd0 by simp_all
  have src1: "has_tail (hf_source ?rd1) (length ?data) ((?data @ ?root) @ ?meta @ (?info @ ?trailer))" using rd1(1) parts by simp
  have off1: "length ?data + (33 + length (root_image im)) = length (?data @ ?root)" by simp
  have ge1: "length ?data \<le> length ?data + (33 + length (root_image im))" by simp
  have meta: "read_meta_index_block hc ?rd1 (length ?data + (33 + length (root_image im))) = Ok (m, ?off2)"
    unfolding read_meta_index_block_def rd1(3) tr(3) metadata_block [OF src1 rd1(2) sizes(2) off1 ge1]
    using midx m on_disk_image [OF sizes(2)] total by (simp add: expect_type_image)
  let ?rd2 = "?rd1\<lparr>hf_meta_block_index := m\<rparr>"
  have rd2: "has_tail (hf_source ?rd2) (length ?data) ?bytes" "hf_codec ?rd2 = Uncompressed" "hf_file_info ?rd2 = []"
    using rd0 assms(2) by (simp_all add: with_source_def)
  have small: "length (fi_info im) < 2 ^ 64" using sizes(3) by (simp add: info_image_def)
  have "read_varint (drop 4 (info_image im)) = (length (fi_info im), length (varint (length (fi_info im))))"
    using read_varint_varint [OF small, of "fi_info im"] by (simp add: info_image_def PBUF_MAGIC_def)
  moreover have "slice (drop 4 (info_image im)) (length (varint (length (fi_info im))))
      (length (varint (length (fi_info im))) + length (fi_info im)) = Ok (fi_info im)"
    using slice_append [of _ "varint (length (fi_info im))" _ "fi_info im" "[]"] by (simp add: info_image_def PBUF_MAGIC_def)
  moreover have "length (varint (length (fi_info im))) + length (fi_info im) < 2 ^ 64"
    using sizes(3) by (simp add: info_image_def)
  moreover have "\<not> length (info_image im) < 4" "take 4 (info_image im) = PBUF_MAGIC"
    by (simp_all add: info_image_def PBUF_MAGIC_def)
  moreover have src2: "has_tail (hf_source ?rd2) (length ?data) ((?data @ ?root @ ?meta) @ ?info @ ?trailer)" using rd2(1) parts by simp
  moreover have ge2: "length ?data \<le> ?off2" by simp
  moreover have off2: "?off2 = length (?data @ ?root @ ?meta)" by simp
  ultimately have info: "read_file_info_block hc ?rd2 ?off2 = Ok (?rd2\<lparr>hf_file_info := info_map pairs\<rparr>)"
    unfolding read_file_info_block_def metadata_block [OF src2 rd2(2) sizes(3) off2 ge2]
    using rd2(3) ok(5) by (simp add: info_map_def expect_type_image)
  let ?rd3 = "image_reader s im tp pairs m"
  have last: "(case bm_get (info_map pairs) FILE_INFO_LAST_KEY of
         None \<Rightarrow> ?rd2\<lparr>hf_file_info := info_map pairs\<rparr>
       | Some bs \<Rightarrow> (?rd2\<lparr>hf_file_info := info_map pairs\<rparr>)\<lparr>hf_last_key := Some (key_from_bytes bs)\<rparr>) = ?rd3"
    by (cases "bm_get (info_map pairs) FILE_INFO_LAST_KEY") (simp_all add: image_reader_def with_source_def)
  have mvcc: "check_mvcc_support ?rd3 = Ok ()"
    using ok(7) by (fastforce simp: check_mvcc_support_def info_ok_def image_reader_def split: option.splits)
  have "read_meta_and_file_info hc ?rd1 (length ?data + (33 + length (root_image im))) = Ok ?rd3"
    using meta info last mvcc by (simp add: read_meta_and_file_info_def Let_def)
  then show thesis using that root rd1(3) by blast
qed

lemma image_trailer:
  assumes "hfile_ok hc im tp pairs"
  shows "trailer_read hc (image_bytes im) = Ok (proto_trailer tp)" "trailer_read hc (trailer_image (fi_proto im)) = Ok (proto_trailer tp)"
    "length (trailer_image (fi_proto im)) = TRAILER_SIZE" "tr_num_data_index_levels (proto_trailer tp) = 1"
    "tr_load_on_open_data_offset (proto_trailer tp) = length (data_image (fi_blocks im))"
proof -
  have ok: "length (varint (length (fi_proto im))) + length (fi_proto im) \<le> 4084" "hc_trailer hc (fi_proto im) = Ok tp"
    "tp_compression_codec tp \<in> {None, Some 2}" "trailer_describes tp im"
    using assms by (simp_all add: hfile_ok_def sizes_ok_def trailer_describes_def)
  show "trailer_read hc (image_bytes im) = Ok (proto_trailer tp)"
    using trailer_read_image [OF ok(1-3), of "data_image (fi_blocks im) @ hblock_image BtRootIndex (root_image im) @
      hblock_image BtRootIndex (index_image (fi_meta im)) @ hblock_image BtFileInfo (info_image im)"] by (simp add: image_bytes_def)
  show "trailer_read hc (trailer_image (fi_proto im)) = Ok (proto_trailer tp)" using trailer_read_image [OF ok(1-3), of "[]"] by simp
  show "length (trailer_image (fi_proto im)) = TRAILER_SIZE" by (rule length_trailer_image [OF ok(1)])
  show "tr_num_data_index_levels (proto_trailer tp) = 1"
    "tr_load_on_open_data_offset (proto_trailer tp) = length (data_image (fi_blocks im))"
    using ok(4) by (auto simp: proto_trailer_def trailer_describes_def unwrap_or_def)
qed

lemma open_image:
  assumes "hfile_ok hc im tp pairs"
  shows "\<exists>m. hfile_new hc (image_bytes im) = Ok (image_reader (Whole (image_bytes im)) im tp pairs m)"
proof -
  have "has_tail (Whole (image_bytes im)) (length (data_image (fi_blocks im))) (image_bytes im)"
    by (simp add: has_tail_def metadata_at_def)
  from read_image_metadata [OF assms this] obtain m rd1 off where
    "read_root_index hc (with_source (Whole (image_bytes im)) (proto_trailer tp)) = Ok (rd1, off)"
    "hf_trailer rd1 = proto_trailer tp"
    "read_meta_and_file_info hc rd1 off = Ok (image_reader (Whole (image_bytes im)) im tp pairs m)" .
  then show ?thesis using image_trailer [OF assms] by (auto simp: hfile_new_def initialize_metadata_def)
qed

section \<open>Opening in ranges\<close>

text \<open>A fetcher that serves the ranges of the bytes of a file, one at a time or many at once.\<close>

definition serves_file :: "block_fetcher \<Rightarrow> byte list \<Rightarrow> bool" where
  "serves_file ft bs \<longleftrightarrow>
     (\<forall>a b. a \<le> b \<longrightarrow> b \<le> length bs \<longrightarrow> bf_range ft a b = Ok (take (b - a) (drop a bs))) \<and>
     (\<forall>rs. (\<forall>(a, b)\<in>set rs. a \<le> b \<and> b \<le> length bs) \<longrightarrow> bf_ranges ft rs = Ok (map (\<lambda>(a, b). take (b - a) (drop a bs)) rs))"

definition image_source :: "block_fetcher \<Rightarrow> file_image \<Rightarrow> nat \<Rightarrow> Source" where
  "image_source ft im budget = (let start = length (data_image (fi_blocks im)) in
     Ranged ft (drop start (image_bytes im)) start (length (image_bytes im)) budget)"

lemma fetcher_range:
  "serves_file ft bs \<Longrightarrow> length bs < 2 ^ 62 \<Longrightarrow> a + n \<le> length bs \<Longrightarrow> get_range (bf_range ft) a n = Ok (take n (drop a bs))"
  by (simp add: serves_file_def get_range_def checked_add_u64_def)

lemma open_ranged_image:
  assumes "hfile_ok hc im tp pairs" "serves_file ft (image_bytes im)" "stream_window_size options = Ok budget"
  shows "\<exists>m. open_ranged_with hc options ft (length (image_bytes im)) = Ok (image_reader (image_source ft im budget) im tp pairs m)"
proof -
  let ?bytes = "image_bytes im" and ?start = "length (data_image (fi_blocks im))"
  let ?pre = "data_image (fi_blocks im) @ hblock_image BtRootIndex (root_image im) @
      hblock_image BtRootIndex (index_image (fi_meta im)) @ hblock_image BtFileInfo (info_image im)"
  have small: "length ?bytes < 2 ^ 62" using assms(1) by (simp add: hfile_ok_def sizes_ok_def)
  have parts: "?bytes = ?pre @ trailer_image (fi_proto im)" by (simp add: image_bytes_def)
  have len: "length ?bytes = length ?pre + TRAILER_SIZE" unfolding parts using image_trailer(3) [OF assms(1)] by simp
  then have at: "length ?bytes - TRAILER_SIZE = length ?pre" "\<not> length ?bytes < TRAILER_SIZE" "?start \<le> length ?bytes" by simp_all
  have "get_range (bf_range ft) (length ?pre) TRAILER_SIZE = Ok (take TRAILER_SIZE (drop (length ?pre) ?bytes))"
    using len by (intro fetcher_range [OF assms(2) small]) simp
  also have "drop (length ?pre) ?bytes = trailer_image (fi_proto im)" by (simp add: image_bytes_def)
  finally have trailer: "get_range (bf_range ft) (length ?pre) TRAILER_SIZE = Ok (trailer_image (fi_proto im))"
    using image_trailer(3) [OF assms(1)] by simp
  have tail: "get_range (bf_range ft) ?start (length ?bytes - ?start) = Ok (drop ?start ?bytes)"
    using fetcher_range [OF assms(2) small, of ?start "length ?bytes - ?start"] at(3) by simp
  have "has_tail (image_source ft im budget) ?start ?bytes"
    by (auto simp: has_tail_def metadata_at_def image_source_def Let_def)
  from read_image_metadata [OF assms(1) this] obtain m rd1 off where
    "read_root_index hc (with_source (image_source ft im budget) (proto_trailer tp)) = Ok (rd1, off)"
    "hf_trailer rd1 = proto_trailer tp"
    "read_meta_and_file_info hc rd1 off = Ok (image_reader (image_source ft im budget) im tp pairs m)" .
  then show ?thesis
    using trailer tail at assms(3) image_trailer [OF assms(1)]
    by (auto simp: open_ranged_with_def initialize_metadata_ranged_def image_source_def Let_def)
qed

end
