(* ===== verification/HFile_Facts.thy ===== *)
theory HFile_Facts
  imports HFile_Open
begin

text \<open>
  Reading a laid-out file back: the reader the bytes open to holds the blocks of the file; a scan
  yields its records, sorted lookups find them, and a prefix collects those it starts.
\<close>

section \<open>The opened reader holds the blocks\<close>

definition image_records :: "file_image \<Rightarrow> hkv list" where
  "image_records im = concat (map (\<lambda>(c, x, rs). rs) (fi_blocks im))"

lemma length_raw_entries [simp]: "length (raw_entries im) = length (fi_blocks im)"
  by (simp add: raw_entries_def)

lemma image_blocks_nth:
  assumes "i < length (fi_blocks im)" "fi_blocks im ! i = (c, x, rs)"
  obtains pre post where "data_image (fi_blocks im) = pre @ hblock_image BtData (encode_block rs) @ post"
    "image_blocks im ! i = (link_entries (raw_entries im) ! i, rs)"
    "ie_offset (link_entries (raw_entries im) ! i) = length pre"
    "ie_size (link_entries (raw_entries im) ! i) = 33 + length (encode_block rs)"
proof -
  obtain pre post where p: "data_image (fi_blocks im) = pre @ hblock_image BtData (encode_block rs) @ post"
    "block_entries 0 (fi_blocks im) ! i = (length pre, 33 + length (encode_block rs), key_image c x)"
    using block_entries_nth [OF assms, of 0] by auto
  have raw: "ie_offset (raw_entries im ! i) = length pre" "ie_size (raw_entries im ! i) = 33 + length (encode_block rs)"
    using p(2) assms(1) by (simp_all add: raw_entries_def entry_new_def)
  have "ie_offset (link_entries (raw_entries im) ! i) = ie_offset (raw_entries im ! i)"
    "ie_size (link_entries (raw_entries im) ! i) = ie_size (raw_entries im ! i)"
    using link_entries_simps [of "raw_entries im"] assms(1)
    by (metis length_map length_raw_entries nth_map, metis length_map length_raw_entries nth_map)
  moreover have "image_blocks im ! i = (link_entries (raw_entries im) ! i, rs)"
    using assms by (simp add: image_blocks_def link_entries_simps)
  ultimately show thesis using that p(1) raw by metis
qed

lemma file_records_image: "file_records (image_blocks im) = image_records im"
  by (simp add: file_records_def image_blocks_def image_records_def link_entries_simps)

lemma image_reader_simps [simp]:
  "hf_source (image_reader s im tp pairs m) = s"
  "hf_data_block_index (image_reader s im tp pairs m) = map (\<lambda>e. (entry_content e, e)) (link_entries (raw_entries im))"
  "hf_trailer (image_reader s im tp pairs m) = proto_trailer tp"
  "hf_codec (image_reader s im tp pairs m) = Uncompressed"
  "hf_last_key (image_reader s im tp pairs m) = map_option key_from_bytes (bm_get (info_map pairs) FILE_INFO_LAST_KEY)"
  by (simp_all add: image_reader_def with_source_def proto_trailer_def)

text \<open>A block of the file, parsed from bytes that start with it.\<close>

lemma block_holds_image: "list_all hkv_ok rs \<Longrightarrow> length (encode_block rs) < 2 ^ 30 \<Longrightarrow>
   block_holds (data_block_from \<lparr>hb_header = h, hb_data = encode_block rs\<rparr>) rs"
  by (simp add: block_holds_def data_block_from_def)

lemma image_block_at:
  assumes "hfile_ok hc im tp pairs" "(e, rs) \<in> set (image_blocks im)"
  shows "rs \<noteq> [] \<and> block_at hc (image_reader (Whole (image_bytes im)) im tp pairs m) e rs"
proof -
  have ok: "blocks_ok (fi_blocks im)" "sizes_ok im" using assms(1) by (simp_all add: hfile_ok_def)
  obtain i where i: "i < length (fi_blocks im)" "image_blocks im ! i = (e, rs)"
    using assms(2) by (auto simp: in_set_conv_nth image_blocks_def link_entries_simps)
  obtain c x rs' where f: "fi_blocks im ! i = (c, x, rs')" by (metis prod_cases3)
  obtain pre post where p: "data_image (fi_blocks im) = pre @ hblock_image BtData (encode_block rs) @ post"
    "e = link_entries (raw_entries im) ! i" "rs' = rs" "ie_offset e = length pre" "ie_size e = 33 + length (encode_block rs)"
    using image_blocks_nth [OF i(1) f] i(2) by (metis prod.inject)
  have r: "rs \<noteq> []" "list_all hkv_ok rs" "length (encode_block rs) < 2 ^ 30"
    using ok(1) nth_mem [OF i(1)] f p(3) by (auto simp: blocks_ok_def list_all_iff)
  let ?post = "post @ hblock_image BtRootIndex (root_image im) @ hblock_image BtRootIndex (index_image (fi_meta im)) @
      hblock_image BtFileInfo (info_image im) @ trailer_image (fi_proto im)"
  have bytes: "image_bytes im = pre @ hblock_image BtData (encode_block rs) @ ?post"
    using p(1) by (simp add: image_bytes_def)
  have small: "length (image_bytes im) < 2 ^ 62" using ok(2) by (simp add: sizes_ok_def)
  have "read_block_at hc (image_reader (Whole (image_bytes im)) im tp pairs m) (ie_offset e) (ie_size e) =
      Ok \<lparr>hb_header = image_header BtData (encode_block rs), hb_data = encode_block rs\<rparr>"
    using small bytes p(4,5) r(3) by (intro block_at_whole [of _ pre _ _ ?post]) simp_all
  moreover have "e \<in> set (link_entries (raw_entries im))" using p(2) i(1) by (simp add: link_entries_simps)
  then have "key_content (ie_first_key e) = Ok (entry_content e)" using linked_contents(2) [OF ok(1)] by blast
  moreover have "length pre < 2 ^ 63" using small bytes by simp
  ultimately show ?thesis
    using r p(4) block_holds_image [OF r(2,3)] by (simp add: block_at_def hblock_type_def image_header_def)
qed

lemma image_file_holds:
  assumes "hfile_ok hc im tp pairs"
  shows "file_holds hc (image_reader (Whole (image_bytes im)) im tp pairs m) (image_blocks im)"
proof -
  have ok: "blocks_ok (fi_blocks im)" "trailer_describes tp im" using assms by (simp_all add: hfile_ok_def)
  have len: "length (image_blocks im) = length (fi_blocks im)" by (simp add: image_blocks_def link_entries_simps)
  have "fi_blocks im \<noteq> []" using ok(1) by (simp add: blocks_ok_def)
  then have ne: "image_blocks im \<noteq> []" using len by auto
  then obtain e rs where "(e, rs) \<in> set (image_blocks im)" by (metis ex_in_conv prod.exhaust set_empty)
  then have "file_records (image_blocks im) \<noteq> []" using image_block_at [OF assms] by (fastforce simp: file_records_def)
  then have count: "tr_entry_count (proto_trailer tp) \<noteq> 0"
    using ok(2) file_records_image [of im] by (simp add: trailer_describes_def proto_trailer_def unwrap_or_def image_records_def)
  have idx: "map (\<lambda>(e, rs). (entry_content e, e)) (image_blocks im) = map (\<lambda>e. (entry_content e, e)) (link_entries (raw_entries im))"
  proof -
    have "map (\<lambda>(e, rs). (entry_content e, e)) (image_blocks im) = map ((\<lambda>e. (entry_content e, e)) \<circ> fst) (image_blocks im)"
      by (simp add: case_prod_beta)
    also have "\<dots> = map (\<lambda>e. (entry_content e, e)) (map fst (image_blocks im))" by (simp only: map_map)
    also have "map fst (image_blocks im) = link_entries (raw_entries im)" by (simp add: image_blocks_def link_entries_simps)
    finally show ?thesis .
  qed
  have "map (entry_content \<circ> fst) (image_blocks im) = map entry_content (map fst (image_blocks im))" by simp
  also have "map fst (image_blocks im) = link_entries (raw_entries im)" by (simp add: image_blocks_def link_entries_simps)
  finally have "map (entry_content \<circ> fst) (image_blocks im) = map fst (fi_blocks im)"
    using linked_contents(1) [OF ok(1)] by (simp add: comp_def)
  then have sorted: "sorted_wrt (<) (map (entry_content \<circ> fst) (image_blocks im))" using ok(1) by (simp add: blocks_ok_def)
  have "linked (image_blocks im)" unfolding image_blocks_def by (intro link_entries_linked) simp
  then show ?thesis
    using ne count idx sorted image_block_at [OF assms] by (auto simp: file_holds_def)
qed

lemma image_last_key_ok:
  assumes "hfile_ok hc im tp pairs"
  shows "last_key_ok (image_reader (Whole (image_bytes im)) im tp pairs m) (image_blocks im)"
proof -
  have "info_ok pairs im" using assms by (simp add: hfile_ok_def)
  then show ?thesis
    unfolding last_key_ok_def file_records_image image_reader_simps info_ok_def image_records_def
    by (cases "bm_get (info_map pairs) FILE_INFO_LAST_KEY") fastforce+
qed

section \<open>Scanning\<close>

text \<open>C4: Opening the bytes of a laid-out HFile and collecting its records yields the records of the file,
  in order.\<close>

theorem laid_out_file_scans:
  assumes "hfile_ok hc im tp pairs"
  shows "\<exists>rd rd1. hfile_new hc (image_bytes im) = Ok rd \<and>
    hfile_records hc rd = Some (Ok (map hkv_record (image_records im)), rd1)"
proof -
  obtain m where open_rd: "hfile_new hc (image_bytes im) = Ok (image_reader (Whole (image_bytes im)) im tp pairs m)" using open_image [OF assms] by blast
  let ?rd = "image_reader (Whole (image_bytes im)) im tp pairs m"
  obtain e r rest after rd1 where first: "seek_to_first hc ?rd = (Ok True, rd1)" "image_blocks im = (e, r # rest) # after"
    "cursor_placed hc ?rd (image_blocks im) (place_start [] e r rest after) rd1"
    using seek_to_first_placed [OF image_file_holds [OF assms] same_file_refl] by metis
  have "records_from (place_start [] e r rest after) = file_records (image_blocks im)"
    by (simp add: records_from_def place_start_def first(2))
  then show ?thesis
    using open_rd first(1) collect_placed [OF image_file_holds [OF assms] first(3), of "[]"] file_records_image [of im]
    by (auto simp: hfile_records_def)
qed

section \<open>Lookups\<close>

text \<open>Keys increase through the file, and each index key separates its block from those before it.\<close>

fun separated :: "(byte list \<times> byte list \<times> hkv list) list \<Rightarrow> bool" where
  "separated [] = True"
| "separated ((c, x, rs) # bs) = (list_all (\<lambda>r. c \<le> hk_content r) rs \<and>
     list_all (\<lambda>(c', x', rs'). list_all (\<lambda>r. hk_content r < c') rs) bs \<and> separated bs)"

definition image_sorted :: "file_image \<Rightarrow> bool" where
  "image_sorted im \<longleftrightarrow> sorted_wrt (<) (map hk_content (image_records im)) \<and> separated (fi_blocks im)"

lemma separated_split:
  "separated (before @ (c, x, rs) # after) \<Longrightarrow> (\<forall>r\<in>set rs. c \<le> hk_content r) \<and>
     (\<forall>(c', x', rs')\<in>set before. \<forall>r\<in>set rs'. hk_content r < c)"
  by (induction before) (fastforce simp: list_all_iff)+

lemma image_blocks_split:
  assumes "hfile_ok hc im tp pairs" "image_blocks im = before @ (e, rs) # after"
  obtains before' x after' where "fi_blocks im = before' @ (entry_content e, x, rs) # after'"
    "file_records before = concat (map (\<lambda>(c, x, rs). rs) before')"
proof -
  have ok: "blocks_ok (fi_blocks im)" using assms(1) by (simp add: hfile_ok_def)
  let ?i = "length before"
  have len: "length (image_blocks im) = length (fi_blocks im)" by (simp add: image_blocks_def link_entries_simps)
  have recs: "map snd (image_blocks im) = map (\<lambda>(c, x, rs). rs) (fi_blocks im)"
    by (simp add: image_blocks_def link_entries_simps)
  have ents: "map entry_content (map fst (image_blocks im)) = map fst (fi_blocks im)"
    using linked_contents(1) [OF ok] by (simp add: image_blocks_def link_entries_simps)
  have i: "?i < length (fi_blocks im)" using len assms(2) by simp
  obtain c x rs' where f: "fi_blocks im ! ?i = (c, x, rs')" by (metis prod_cases3)
  have "map (\<lambda>(c, x, rs). rs) (fi_blocks im) ! ?i = rs" unfolding recs [symmetric] by (simp add: assms(2) nth_append)
  then have rs: "rs' = rs" using f i by simp
  have "map fst (fi_blocks im) ! ?i = entry_content e" unfolding ents [symmetric] by (simp add: assms(2) nth_append)
  then have c: "c = entry_content e" using f i by simp
  have "fi_blocks im = take ?i (fi_blocks im) @ (c, x, rs) # drop (Suc ?i) (fi_blocks im)"
    using id_take_nth_drop [OF i] f rs by simp
  moreover have "map snd before = map (\<lambda>(c, x, rs). rs) (take ?i (fi_blocks im))"
    using recs assms(2) by (metis append_eq_conv_conj length_map map_append take_map)
  ultimately show thesis using that c unfolding file_records_def by metis
qed

lemma image_sorted_file:
  assumes "hfile_ok hc im tp pairs" "image_sorted im"
  shows "sorted_file (image_blocks im)"
  unfolding sorted_file_def
proof (intro conjI allI impI)
  show "sorted_wrt (<) (map hk_content (file_records (image_blocks im)))"
    using assms(2) by (simp add: image_sorted_def file_records_image)
next
  fix before e rs after
  assume "image_blocks im = before @ (e, rs) # after"
  then obtain before' x after' where s: "fi_blocks im = before' @ (entry_content e, x, rs) # after'"
    "file_records before = concat (map (\<lambda>(c, x, rs). rs) before')" using image_blocks_split [OF assms(1)] by metis
  note sep = separated_split [of before' "entry_content e" x rs after']
  show "\<forall>r\<in>set rs. entry_content e \<le> hk_content r" using sep s assms(2) by (simp add: image_sorted_def)
  show "\<forall>r\<in>set (file_records before). hk_content r < entry_content e"
    using sep s assms(2) unfolding image_sorted_def by fastforce
qed

definition find_record :: "hkv list \<Rightarrow> string \<Rightarrow> HFileRecord option" where
  "find_record rs k = map_option hkv_record (find (\<lambda>r. hk_content r = str_bytes k) rs)"

lemma find_record_at:
  assumes "sorted_wrt (<) (map hk_content rs)" "r \<in> set rs" "hk_content r = str_bytes k"
  shows "find_record rs k = Some (hkv_record r)"
proof -
  have "find (\<lambda>r. hk_content r = str_bytes k) rs = Some r"
    using assms by (induction rs) auto
  then show ?thesis by (simp add: find_record_def)
qed

lemma lookup_each_finds:
  assumes "file_holds hc base bs" "sorted_file bs" "last_key_ok base bs" "sorted (map str_bytes keys)" "list_all safe_probe keys"
    and "\<forall>k\<in>set keys. seek_state hc base bs (str_bytes k) rd"
  shows "\<exists>rd1. lookup_each hc keys rd = Some (Ok (map (\<lambda>k. (k, find_record (file_records bs) k)) keys), rd1)"
  using assms(4-6)
proof (induction keys arbitrary: rd)
  case (Cons k keys)
  obtain sr rd1 where seek: "hf_seek_to hc k rd = Some (Ok sr, rd1)" "seek_answer hc base bs (str_bytes k) sr rd1"
    using seek_finds [OF assms(1-3)] Cons.prems by (metis list.pred_inject(2) list.set_intros(1))
  have sorted: "sorted_wrt (<) (map hk_content (file_records bs))" using assms(2) by (simp add: sorted_file_def)
  have later: "\<forall>k'\<in>set keys. str_bytes k \<le> str_bytes k'" using Cons.prems(1) by simp
  have go: "\<exists>rd3. lookup_each hc keys rd2 = Some (Ok (map (\<lambda>k. (k, find_record (file_records bs) k)) keys), rd3)"
    if "seek_state hc base bs (str_bytes k) rd2" for rd2
    using Cons.IH [of rd2] Cons.prems that later seek_state_mono by (metis list.pred_inject(2) list.simps(9) sorted_simps(2))
  show ?case
  proof (cases "sr = Found")
    case True
    then obtain p where p: "cursor_placed hc base bs p rd1" "hk_content (pl_here p) = str_bytes k"
      using seek(2) by (auto simp: seek_answer_def)
    obtain kv rd2 where kv: "get_key_value hc rd1 = (Ok (Some kv), rd2)" "kv_view (pl_here p) kv" "cursor_placed hc base bs p rd2"
      using get_key_value_placed [OF assms(1) p(1)] by blast
    have get: "get_record hc rd1 = (Ok (Some (hkv_record (pl_here p))), rd2)"
      using kv(1) kv_view_record [OF kv(2)] by (simp add: get_record_def)
    have recs: "file_records bs = records_before p @ records_from p" using place_records place_blocks_of [OF p(1)] by simp
    then have found: "find_record (file_records bs) k = Some (hkv_record (pl_here p))"
      using find_record_at [OF sorted _ p(2)] by (simp add: records_from_def)
    have "\<forall>r\<in>set (records_before p). hk_content r < str_bytes k"
      using sorted_file_split [OF assms(2), of "records_before p" "pl_here p"] recs p(2) by (auto simp: records_from_def)
    then have "seek_state hc base bs (str_bytes k) rd2" using kv(3) p(2) by (auto simp: seek_state_def)
    then show ?thesis using go [of rd2] seek(1) True get found by fastforce
  next
    case False
    then have "\<not> file_has bs (str_bytes k)" using seek(2) by (simp add: seek_answer_def)
    then have "find_record (file_records bs) k = None" by (auto simp: find_record_def file_has_def find_None_iff)
    moreover have "seek_state hc base bs (str_bytes k) rd1" using seek(2) by (simp add: seek_answer_def)
    ultimately show ?thesis using go [of rd1] seek(1) False by fastforce
  qed
qed simp

text \<open>Looking up sorted keys in a laid-out HFile with increasing keys returns, key by key, the record of
  that key or nothing.\<close>

theorem sorted_lookup_finds_records:
  assumes "hfile_ok hc im tp pairs" "image_sorted im" "sorted (map str_bytes keys)" "list_all safe_probe keys"
  shows "\<exists>rd rd1. hfile_new hc (image_bytes im) = Ok rd \<and>
    lookup_records hc keys rd = Some (Ok (map (\<lambda>k. (k, find_record (image_records im) k)) keys), rd1)"
proof -
  obtain m where open_rd: "hfile_new hc (image_bytes im) = Ok (image_reader (Whole (image_bytes im)) im tp pairs m)" using open_image [OF assms(1)] by blast
  let ?rd = "image_reader (Whole (image_bytes im)) im tp pairs m"
  note holds = image_file_holds [OF assms(1), of m]
  obtain e r rest after rd1 where first: "seek_to_first hc ?rd = (Ok True, rd1)"
    "cursor_placed hc ?rd (image_blocks im) (place_start [] e r rest after) rd1"
    using seek_to_first_placed [OF holds same_file_refl] by metis
  have "\<forall>k\<in>set keys. seek_state hc ?rd (image_blocks im) (str_bytes k) rd1"
    using first(2) by (auto simp: seek_state_def records_before_def place_start_def
        intro!: exI [of _ "place_start [] e r rest after"])
  then obtain rd2 where "lookup_each hc keys rd1 = Some (Ok (map (\<lambda>k. (k, find_record (image_records im) k)) keys), rd2)"
    using lookup_each_finds [OF holds image_sorted_file [OF assms(1,2)] image_last_key_ok [OF assms(1)] assms(3,4)]
      file_records_image by metis
  moreover have "\<not> cu_eof (hf_cursor rd1)" using first(2) by (simp add: cursor_placed_def in_block_def)
  ultimately show ?thesis using open_rd first(1) by (auto simp: lookup_records_def)
qed

section \<open>Prefixes\<close>

definition key_starts :: "byte list \<Rightarrow> hkv \<Rightarrow> bool" where
  "key_starts pre r \<longleftrightarrow> take (length pre) (hk_content r) = pre"

lemma between_prefixed:
  fixes pre :: "'a::linorder list"
  shows "pre \<le> c \<Longrightarrow> c \<le> pre @ s \<Longrightarrow> take (length pre) c = pre"
proof (induction pre arbitrary: c)
  case (Cons x pre)
  then show ?case by (cases c) auto
qed simp

lemma prefixed_above:
  fixes pre :: "'a::linorder list"
  assumes "take (length pre) d = pre"
  shows "pre \<le> d"
proof -
  have "pre \<le> pre @ s" for s by (induction pre) simp_all
  then show ?thesis using assms by (metis append_take_drop_id)
qed

lemma past_prefix:
  fixes pre :: "'a::linorder list"
  assumes "pre \<le> c" "take (length pre) c \<noteq> pre" "c \<le> d"
  shows "take (length pre) d \<noteq> pre"
proof
  assume "take (length pre) d = pre"
  then have "d = pre @ drop (length pre) d" by (metis append_take_drop_id)
  then have "c \<le> pre @ drop (length pre) d" using assms(3) by simp
  then show False using between_prefixed [OF assms(1)] assms(2) by blast
qed

lemma collect_prefix_placed:
  assumes "file_holds hc base bs" "sorted_file bs" "cursor_placed hc base bs p rd"
  shows "\<exists>rd1. collect_prefix_from hc pre acc rd = Some (Ok (acc @ map hkv_record (filter (key_starts pre) (records_from p))), rd1)"
  using assms(3)
proof (induction "length (records_from p)" arbitrary: p rd acc rule: less_induct)
  case less
  obtain kv rd1 where kv: "get_key_value hc rd = (Ok (Some kv), rd1)" "kv_view (pl_here p) kv" "cursor_placed hc base bs p rd1"
    using get_key_value_placed [OF assms(1) less.prems] by blast
  have go: "\<not> cu_eof (hf_cursor rd)" using less.prems by (simp add: cursor_placed_def in_block_def)
  have key: "key_content (kv_key kv) = Ok (hk_content (pl_here p))" using kv(2) by (simp add: kv_view_def)
  have recs: "file_records bs = records_before p @ records_from p" using place_records place_blocks_of [OF less.prems] by simp
  let ?c = "hk_content (pl_here p)"
  let ?acc = "if key_starts pre (pl_here p) then acc @ [hkv_record (pl_here p)] else acc"
  have after: "records_from p = pl_here p # pl_rest p @ file_records (pl_after p)" by (simp add: records_from_def)
  show ?case
  proof (cases "\<not> key_starts pre (pl_here p) \<and> pre < ?c")
    case True
    have "\<not> key_starts pre r" if "r \<in> set (pl_rest p @ file_records (pl_after p))" for r
    proof -
      have "?c < hk_content r"
        using sorted_file_split [OF assms(2), of "records_before p" "pl_here p"] recs after that by simp
      then show ?thesis using past_prefix [of pre ?c "hk_content r"] True by (auto simp: key_starts_def dest: less_imp_le)
    qed
    then have "filter (key_starts pre) (records_from p) = []" using True after by (simp add: filter_empty_conv)
    moreover have "collect_prefix_from hc pre acc rd = Some (Ok acc, rd1)"
      using go kv(1) key True by (subst collect_prefix_from.simps) (simp add: key_starts_def)
    ultimately show ?thesis by simp
  next
    case False
    have step: "collect_prefix_from hc pre acc rd = (case hf_next hc rd1 of
        (Inl err, rd2) \<Rightarrow> Some (Err err, rd2)
      | (Inr moved, rd2) \<Rightarrow> if moved then collect_prefix_from hc pre ?acc rd2 else Some (Ok ?acc, rd2))"
      using go kv(1) key kv_view_record [OF kv(2)] False
      by (subst collect_prefix_from.simps) (auto simp: key_starts_def split: prod.split)
    show ?thesis
    proof (cases "place_next p")
      case (Some q)
      obtain rd2 where rd2: "hf_next hc rd1 = (Ok True, rd2)" "cursor_placed hc base bs q rd2"
        using hf_next_placed [OF assms(1) kv(3)] Some by auto
      have rq: "records_from p = pl_here p # records_from q" using place_next_records [OF Some] by simp
      then obtain rd3 where "collect_prefix_from hc pre ?acc rd2 =
          Some (Ok (?acc @ map hkv_record (filter (key_starts pre) (records_from q))), rd3)"
        using less.hyps [of q rd2 ?acc] rd2(2) by auto
      then show ?thesis using step rd2(1) rq by simp
    next
      case None
      have "\<forall>(e, rs)\<in>set (pl_after p). rs \<noteq> []" using assms(1) place_blocks_of [OF less.prems]
        by (auto simp: file_holds_def place_blocks_def)
      then have "records_from p = [pl_here p]" using place_next_None [OF None] by simp
      moreover have "hf_next hc rd1 = (Ok False, set_eof rd1)" using hf_next_placed [OF assms(1) kv(3)] None by simp
      ultimately show ?thesis using step by simp
    qed
  qed
qed

lemma none_prefixed_below: "\<forall>r\<in>set rs. hk_content r < pre \<Longrightarrow> filter (key_starts pre) rs = []"
  using prefixed_above by (fastforce simp: filter_empty_conv key_starts_def)

text \<open>Collecting the records of a prefix from a laid-out HFile with increasing keys yields the records
  whose keys start with the prefix, in order.\<close>

theorem prefix_scan_collects:
  assumes "hfile_ok hc im tp pairs" "image_sorted im" "safe_probe pre"
  shows "\<exists>rd rd1. hfile_new hc (image_bytes im) = Ok rd \<and>
    collect_records_by_prefix hc pre rd = Some (Ok (map hkv_record (filter (key_starts (str_bytes pre)) (image_records im))), rd1)"
proof -
  obtain m where open_rd: "hfile_new hc (image_bytes im) = Ok (image_reader (Whole (image_bytes im)) im tp pairs m)" using open_image [OF assms(1)] by blast
  let ?rd = "image_reader (Whole (image_bytes im)) im tp pairs m" and ?bs = "image_blocks im" and ?pre = "str_bytes pre"
  note holds = image_file_holds [OF assms(1), of m]
  note sorted = image_sorted_file [OF assms(1,2)]
  obtain e r rest after rd1 where first: "seek_to_first hc ?rd = (Ok True, rd1)" "?bs = (e, r # rest) # after"
    "cursor_placed hc ?rd ?bs (place_start [] e r rest after) rd1"
    using seek_to_first_placed [OF holds same_file_refl] by metis
  have "seek_state hc ?rd ?bs ?pre rd1"
    using first(3) by (auto simp: seek_state_def records_before_def place_start_def
        intro!: exI [of _ "place_start [] e r rest after"])
  then obtain sr rd2 where seek: "hf_seek_to hc pre rd1 = Some (Ok sr, rd2)" "seek_answer hc ?rd ?bs ?pre sr rd2"
    using seek_finds [OF holds sorted image_last_key_ok [OF assms(1)] _ assms(3)] by blast
  have go: "\<not> cu_eof (hf_cursor rd1)" using first(3) by (simp add: cursor_placed_def in_block_def)
  have same: "same_file ?rd rd2" using seek(2) by (auto simp: seek_answer_def seek_state_def cursor_placed_def in_block_def)
  let ?want = "map hkv_record (filter (key_starts ?pre) (image_records im))"
  have collect: "\<exists>rd4. collect_prefix_from hc ?pre [] rd3 = Some (Ok ?want, rd4)"
    if "cursor_placed hc ?rd ?bs p rd3" "\<forall>r\<in>set (records_before p). hk_content r < ?pre" for p rd3
  proof -
    have "image_records im = records_before p @ records_from p"
      using place_records place_blocks_of [OF that(1)] file_records_image [of im] by simp
    then show ?thesis
      using collect_prefix_placed [OF holds sorted that(1), of ?pre "[]"] none_prefixed_below [OF that(2)] by simp
  qed
  have "\<exists>rd3. collect_records_by_prefix hc pre ?rd = Some (Ok ?want, rd3)"
  proof (cases "cu_eof (hf_cursor rd2)")
    case True
    then have "\<forall>r\<in>set (image_records im). hk_content r < ?pre"
      using seek(2) by (auto simp: seek_answer_def seek_state_def cursor_placed_def in_block_def file_records_image)
    then have "?want = []" using none_prefixed_below by simp
    then show ?thesis using first(1) go seek True by (simp add: collect_records_by_prefix_def seek_answer_def)
  next
    case False
    then obtain p where p: "cursor_placed hc ?rd ?bs p rd2" "\<forall>r\<in>set (records_before p). hk_content r < ?pre"
      using seek(2) by (auto simp: seek_answer_def seek_state_def)
    obtain rd3 where "collect_prefix_from hc ?pre [] rd2 = Some (Ok ?want, rd3)" using collect [OF p] by blast
    moreover have "sr \<noteq> Eof" using seek(2) False by (simp add: seek_answer_def)
    moreover obtain e' r' rest' after' rd4 where again: "seek_to_first hc rd2 = (Ok True, rd4)"
      "cursor_placed hc ?rd ?bs (place_start [] e' r' rest' after') rd4"
      using seek_to_first_placed [OF holds same] by metis
    moreover obtain rd5 where "collect_prefix_from hc ?pre [] rd4 = Some (Ok ?want, rd5)"
      using collect [OF again(2)] by (auto simp: records_before_def place_start_def)
    ultimately show ?thesis using first(1) go seek(1) by (cases sr) (simp_all add: collect_records_by_prefix_def)
  qed
  then show ?thesis using open_rd by blast
qed

section \<open>A small file\<close>

text \<open>Two blocks of two records; the protobuf messages are opaque bytes the codecs decode.\<close>

definition sample_hkv :: "string \<Rightarrow> byte \<Rightarrow> hkv" where
  "sample_hkv k v = \<lparr>hk_content = str_bytes k, hk_rest = [], hk_value = [v], hk_mvcc = 0\<rparr>"

definition sample_hfile :: file_image where
  "sample_hfile = \<lparr>fi_blocks = [(str_bytes ''k1'', [], [sample_hkv ''k1'' 1, sample_hkv ''k2'' 2]),
       (str_bytes ''k3'', [], [sample_hkv ''k3'' 3, sample_hkv ''k4'' 4])], fi_meta = [], fi_info = [1], fi_proto = [7]\<rparr>"

definition sample_info :: "(byte list \<times> byte list) list" where
  "sample_info = [(str_bytes ''schema'', str_bytes ''S''), (str_bytes ''hfile.LASTKEY'', key_image (str_bytes ''k4'') [])]"

definition sample_trailer :: TrailerProto where
  "sample_trailer = \<lparr>tp_file_info_offset = None, tp_load_on_open_data_offset = Some (length (data_image (fi_blocks sample_hfile))),
     tp_uncompressed_data_index_size = None, tp_total_uncompressed_bytes = None, tp_data_index_count = Some 2,
     tp_meta_index_count = None, tp_entry_count = Some 4, tp_num_data_index_levels = None,
     tp_first_data_block_offset = None, tp_last_data_block_offset = None, tp_comparator_class_name = None,
     tp_compression_codec = None, tp_encryption_key = None\<rparr>"

definition sample_codecs :: hfile_codecs where
  "sample_codecs = \<lparr>hc_gunzip = (\<lambda>_. Err HFileError), hc_trailer = (\<lambda>_. Ok sample_trailer), hc_info = (\<lambda>_. Ok sample_info)\<rparr>"

lemmas sample_defs = sample_hfile_def sample_hkv_def sample_codecs_def

lemma sample_records: "image_records sample_hfile = [sample_hkv ''k1'' 1, sample_hkv ''k2'' 2, sample_hkv ''k3'' 3, sample_hkv ''k4'' 4]"
  by (simp add: image_records_def sample_hfile_def)

lemma sample_blocks_ok: "blocks_ok (fi_blocks sample_hfile)"
  by (simp add: blocks_ok_def sample_defs str_bytes_def byte_of_nat_def hkv_ok_def length_encode key_part_def)

lemma vlong_short: "n < 128 \<Longrightarrow> length (vlong n) = 1"
  by (simp add: vlong_def)

lemma varint_short: "n < 128 \<Longrightarrow> length (varint n) = 1"
  by (simp add: varint.simps)

lemma sample_sizes_ok: "sizes_ok sample_hfile"
  by (simp add: sizes_ok_def image_bytes_def root_image_def index_image_def entry_image_def info_image_def data_image_def
      trailer_image_def sample_defs length_encode key_part_def key_image_def vlong_short varint_short PBUF_MAGIC_def Let_def)

lemma lossy_ascii: "list_all (\<lambda>b. unat b < 128) bs \<Longrightarrow> lossy_bytes bs = bs"
proof (induction bs)
  case (Cons b bs)
  have "lossy_step (b # bs) = (1, True)" using Cons.prems by (simp add: lossy_step_def utf8_width_def)
  then show ?case using Cons by (subst lossy_bytes.simps) simp
qed (simp add: lossy_bytes.simps)

lemma from_utf8_lossy_ascii: "list_all (\<lambda>c. (of_char c :: nat) < 128) s \<Longrightarrow> from_utf8_lossy (str_bytes s) = s"
  by (simp add: from_utf8_lossy_def lossy_ascii str_bytes_def list.pred_map o_def) (simp flip: str_bytes_def)

lemma sample_info_map: "info_map sample_info =
    [(''hfile.LASTKEY'', key_image (str_bytes ''k4'') []), (''schema'', str_bytes ''S'')]"
  by (simp add: info_map_def sample_info_def from_utf8_lossy_ascii)

lemma sample_last_key: "bm_get (info_map sample_info) FILE_INFO_LAST_KEY = Some (key_image (str_bytes ''k4'') [])"
  "bm_get (info_map sample_info) FILE_INFO_MAX_MVCC_TS = None" "bm_get (info_map sample_info) FILE_INFO_SCHEMA = Some (str_bytes ''S'')"
  by (simp_all add: sample_info_map bm_get_def FILE_INFO_LAST_KEY_def FILE_INFO_MAX_MVCC_TS_def FILE_INFO_SCHEMA_def)

lemma key_content_key_image:
  "length c < 2 ^ 15 \<Longrightarrow> length x < 2 ^ 30 \<Longrightarrow> key_content (key_from_bytes (key_image c x)) = Ok c"
  using key_content_image [of c x] by (simp add: index_key_def key_new_def key_from_bytes_def usat_def key_image_def)

lemma sample_info_ok: "info_ok sample_info sample_hfile"
  by (simp add: info_ok_def sample_last_key key_content_key_image) (simp add: sample_defs str_bytes_def byte_of_nat_def)

lemma sample_describes: "trailer_describes sample_trailer sample_hfile"
  by (simp add: trailer_describes_def sample_trailer_def unwrap_or_def) (simp add: sample_defs)

lemma sample_hfile_ok: "hfile_ok sample_codecs sample_hfile sample_trailer sample_info"
  using sample_blocks_ok sample_sizes_ok sample_info_ok sample_describes
  by (simp add: hfile_ok_def meta_ok_def index_ok_def) (simp add: sample_defs)

lemma sample_sorted: "image_sorted sample_hfile"
  by (simp add: image_sorted_def sample_records) (simp add: sample_defs str_bytes_def byte_of_nat_def)

lemma usize_of_small: "n < 65536 \<Longrightarrow> usize_of_int (int n) = n"
  by (simp add: usize_of_int_def)

lemma safe_probe_text:
  assumes "list_all (\<lambda>c. 32 \<le> (of_char c :: nat) \<and> (of_char c :: nat) < 128) k" "length k < 8192"
  shows "key_content (key_from_bytes (str_bytes k)) = Ok []" "safe_probe k"
proof -
  show content: "key_content (key_from_bytes (str_bytes k)) = Ok []"
  proof (cases "length k < 2")
    case True
    then show ?thesis
      by (simp add: key_from_bytes_def key_content_def content_length_def content_offset_def Let_def uadd_def)
  next
    case False
    then obtain a b k' where k: "k = a # b # k'" by (cases k; cases "List.tl k") auto
    have a: "32 \<le> (of_char a :: nat)" "(of_char a :: nat) < 128" "(of_char b :: nat) < 128" using assms(1) k by simp_all
    let ?n = "of_char a * 256 + (of_char b :: nat)"
    have "be_int [byte_of_nat (of_char a), byte_of_nat (of_char b)] = int ?n"
      using a by (simp add: be_int_def be_nat_def Let_def algebra_simps)
    moreover have less': "?n < 32768" using a by linarith
    ultimately have "content_length (key_from_bytes (str_bytes k)) = ?n"
      using a k by (simp add: content_length_def key_from_bytes_def str_bytes_def usize_of_small del: of_nat_add of_nat_mult)
    then have "2 + content_length (key_from_bytes (str_bytes k)) > length k \<and> 2 + content_length (key_from_bytes (str_bytes k)) < 2 ^ 64"
      using a assms(2) by auto
    then show ?thesis by (simp add: key_content_def content_offset_def Let_def uadd_def key_from_bytes_def)
  qed
  then show "safe_probe k" by (simp add: safe_probe_def)
qed

lemma safe_probe_k: "safe_probe ''k2''" "safe_probe ''k25''" "safe_probe ''k''" "safe_probe ''k4''"
  by (simp_all add: safe_probe_text)

theorem laid_out_file_scans_witness:
  "\<exists>rd rd1. hfile_new sample_codecs (image_bytes sample_hfile) = Ok rd \<and>
    hfile_records sample_codecs rd = Some (Ok (map hkv_record [sample_hkv ''k1'' 1, sample_hkv ''k2'' 2,
      sample_hkv ''k3'' 3, sample_hkv ''k4'' 4]), rd1)"
  using laid_out_file_scans [OF sample_hfile_ok] by (simp only: sample_records)

lemma sample_find: "find_record (image_records sample_hfile) ''k2'' = Some (hkv_record (sample_hkv ''k2'' 2))"
  "find_record (image_records sample_hfile) ''k25'' = None"
  by (simp_all add: sample_records find_record_def) (simp_all add: sample_defs str_bytes_def byte_of_nat_def)

theorem sorted_lookup_finds_records_witness:
  "\<exists>rd rd1. hfile_new sample_codecs (image_bytes sample_hfile) = Ok rd \<and>
    lookup_records sample_codecs [''k2'', ''k25''] rd =
      Some (Ok [(''k2'', Some (hkv_record (sample_hkv ''k2'' 2))), (''k25'', None)], rd1)"
proof -
  have "sorted (map str_bytes [''k2'', ''k25''])" by (simp add: str_bytes_def byte_of_nat_def)
  then show ?thesis
    using sorted_lookup_finds_records [OF sample_hfile_ok sample_sorted, of "[''k2'', ''k25'']"] by (simp add: safe_probe_k sample_find)
qed

theorem prefix_scan_collects_witness:
  "\<exists>rd rd1. hfile_new sample_codecs (image_bytes sample_hfile) = Ok rd \<and>
    collect_records_by_prefix sample_codecs ''k4'' rd = Some (Ok [hkv_record (sample_hkv ''k4'' 4)], rd1)"
proof -
  have "filter (key_starts (str_bytes ''k4'')) (image_records sample_hfile) = [sample_hkv ''k4'' 4]"
    by (simp add: sample_records key_starts_def) (simp add: sample_defs str_bytes_def byte_of_nat_def)
  then show ?thesis using prefix_scan_collects [OF sample_hfile_ok sample_sorted safe_probe_k(4)] by simp
qed

section \<open>What the index lookups miss\<close>

text \<open>The probe of a seek is built from the bare bytes of the key, whose first two bytes are then taken for a
  length: a printable key leaves no content to compare, and the seek stays in the block it is in.\<close>

lemma text_probe_never_jumps:
  assumes "list_all (\<lambda>c. 32 \<le> (of_char c :: nat) \<and> (of_char c :: nat) < 128) k" "length k < 8192"
    and "list_all (\<lambda>(ik, _). ik \<noteq> []) (hf_data_block_index rd)"
  shows "find_block_for_key hc k rd = (Ok (), rd)"
proof -
  have "takeWhile (\<lambda>(ik, _). ik \<le> []) (hf_data_block_index rd) = []"
    using assms(3) by (cases "hf_data_block_index rd") auto
  then show ?thesis by (simp add: find_block_for_key_def safe_probe_text(1) [OF assms(1,2)] at_or_below_def)
qed

text \<open>Copies of a key that end one block and start the next: the keys selection takes both blocks, the prefix
  selection only the second.\<close>

lemma prefix_selection_skips_straddling_copies:
  assumes "hf_data_block_index rd = [(str_bytes ''a'', e0), (str_bytes ''k'', e1)]" "ie_offset e0 = 0" "ie_offset e1 = 9"
  shows "blocks_for_keys rd [''k''] = [e0, e1]" "blocks_for_prefix rd ''k'' = [e1]"
  using assms by (simp_all add: blocks_for_keys_def blocks_for_prefix_def at_or_below_def key_from_content_def select_entry_def
      prefix_upper_bound_def str_bytes_def byte_of_nat_def Let_def)

end
