(* ===== verification/HFile_Select.thy ===== *)
theory HFile_Select
  imports HFile_Facts
begin

text \<open>
  Selecting blocks for keys and prefixes: the selected blocks are in file order and hold every
  record the predicate admits, so reading them and filtering agrees with filtering the file.
\<close>

section \<open>Sub-maps of the blocks by offset\<close>

definition offset_map :: "file_blocks \<Rightarrow> (nat, BlockIndexEntry) btree_map" where
  "offset_map bs = map (\<lambda>(e, rs). (ie_offset e, e)) bs"

definition picks :: "file_blocks \<Rightarrow> (nat, BlockIndexEntry) btree_map \<Rightarrow> bool" where
  "picks bs m \<longleftrightarrow> (\<exists>P. m = filter P (offset_map bs))"

lemma bm_insert_first: "\<forall>x\<in>set m. k < fst x \<Longrightarrow> bm_insert k v m = (k, v) # m"
  by (cases m) auto

lemma bm_insert_filter:
  assumes "bm_ok full" "(k, v) \<in> set full"
  shows "bm_insert k v (filter P full) = filter (\<lambda>x. P x \<or> x = (k, v)) full"
  using assms
proof (induction full)
  case (Cons x full)
  obtain k' v' where x: "x = (k', v')" by (cases x)
  have above: "\<forall>y\<in>set full. k' < fst y" and ok: "bm_ok full" using Cons.prems(1) x by (auto simp: bm_ok_Cons)
  show ?case
  proof (cases "x = (k, v)")
    case True
    then have "(k, v) \<notin> set full" using above x by auto
    then have rest: "filter (\<lambda>y. P y \<or> y = (k, v)) full = filter P full" by (intro filter_cong) auto
    have "bm_insert k v (filter P full) = (k, v) # filter P full" using above True x by (intro bm_insert_first) auto
    then show ?thesis using True rest by simp
  next
    case False
    then have "(k, v) \<in> set full" using Cons.prems(2) by auto
    then have "k' < k" using above by auto
    then show ?thesis using Cons.IH [OF ok \<open>(k, v) \<in> set full\<close>] False x by auto
  qed
qed simp

lemma picks_Nil [simp]: "picks bs []"
  unfolding picks_def by (intro exI [of _ "\<lambda>_. False"]) simp

lemma picks_all: "picks bs (offset_map bs)"
  unfolding picks_def by (intro exI [of _ "\<lambda>_. True"]) simp

lemma picks_insert:
  assumes "bm_ok (offset_map bs)" "picks bs m" "e \<in> fst ` set bs"
  shows "picks bs (select_entry m e) \<and> set (select_entry m e) = insert (ie_offset e, e) (set m)"
proof -
  obtain P where P: "m = filter P (offset_map bs)" using assms(2) by (auto simp: picks_def)
  have "(ie_offset e, e) \<in> set (offset_map bs)" using assms(3) by (force simp: offset_map_def)
  then show ?thesis using bm_insert_filter [OF assms(1), of "ie_offset e" e P] P
    by (auto simp: select_entry_def picks_def)
qed

lemma picks_fold:
  assumes "bm_ok (offset_map bs)" "picks bs m" "set es \<subseteq> fst ` set bs"
  shows "picks bs (foldl select_entry m es) \<and> set (foldl select_entry m es) = set m \<union> (\<lambda>e. (ie_offset e, e)) ` set es"
  using assms(2,3)
proof (induction es arbitrary: m)
  case (Cons e es)
  then show ?case using picks_insert [OF assms(1) Cons.prems(1), of e] by simp
qed simp

definition index_covers :: "(nat, BlockIndexEntry) btree_map \<Rightarrow> file_blocks \<Rightarrow> (hkv \<Rightarrow> bool) \<Rightarrow> bool" where
  "index_covers m bs p \<longleftrightarrow> (\<forall>(e, rs)\<in>set bs. (\<exists>r\<in>set rs. p r) \<longrightarrow> (ie_offset e, e) \<in> set m)"

lemma index_covers_mono: "index_covers m bs p \<Longrightarrow> set m \<subseteq> set m' \<Longrightarrow> index_covers m' bs p"
  by (fastforce simp: index_covers_def)

section \<open>The index of a file in key order\<close>

text \<open>Keys may repeat, also across a boundary: an index key is at most the keys of its block and at least
  those before it.\<close>

definition grouped :: "file_blocks \<Rightarrow> bool" where
  "grouped bs \<longleftrightarrow> (\<forall>before e rs after. bs = before @ (e, rs) # after \<longrightarrow>
     (\<forall>r\<in>set rs. entry_content e \<le> hk_content r) \<and> (\<forall>r\<in>set (file_records before). hk_content r \<le> entry_content e))"

definition index_lists :: "HFileReader \<Rightarrow> file_blocks \<Rightarrow> bool" where
  "index_lists rd bs \<longleftrightarrow> hf_data_block_index rd = map (\<lambda>(e, rs). (entry_content e, e)) bs \<and>
     sorted_wrt (<) (map (entry_content \<circ> fst) bs) \<and> bm_ok (offset_map bs)"

lemma data_block_entries_index: "index_lists rd bs \<Longrightarrow> hf_data_block_entries rd = map snd (offset_map bs)"
  by (simp add: hf_data_block_entries_def index_lists_def offset_map_def case_prod_beta comp_def)

lemma take_at_or_below:
  assumes "\<forall>x\<in>set xs. fst x \<le> k" "\<forall>x\<in>set ys. k < fst x"
  shows "at_or_below (xs @ ys) k = rev xs"
proof -
  have "takeWhile (\<lambda>(k', _). k' \<le> k) (xs @ ys) = xs"
  proof -
    have "takeWhile (\<lambda>(k', _). k' \<le> k) ys = []"
      using assms(2) by (cases ys) (auto simp: leD)
    moreover have "\<forall>x\<in>set xs. (\<lambda>(k', _). k' \<le> k) x" using assms(1) by auto
    ultimately show ?thesis using takeWhile_append2 [of xs "\<lambda>(k', _). k' \<le> k" ys] by auto
  qed
  then show ?thesis by (simp add: at_or_below_def)
qed

lemma at_or_below_block:
  assumes "index_lists rd bs" "bs = before @ (e, rs) # after" "entry_content e \<le> k" "\<forall>(e', rs')\<in>set after. k < entry_content e'"
  shows "at_or_below (hf_data_block_index rd) k = (entry_content e, e) # rev (map (\<lambda>(e, rs). (entry_content e, e)) before)"
proof -
  have "\<forall>(e', rs')\<in>set before. entry_content e' < entry_content e"
    using assms(1,2) by (auto simp: index_lists_def sorted_wrt_append)
  then have "\<forall>x\<in>set (map (\<lambda>(e, rs). (entry_content e, e)) (before @ [(e, rs)])). fst x \<le> k" using assms(3) by fastforce
  moreover have "\<forall>x\<in>set (map (\<lambda>(e, rs). (entry_content e, e)) after). k < fst x" using assms(4) by auto
  ultimately have "at_or_below (map (\<lambda>(e, rs). (entry_content e, e)) (before @ [(e, rs)]) @
      map (\<lambda>(e, rs). (entry_content e, e)) after) k = rev (map (\<lambda>(e, rs). (entry_content e, e)) (before @ [(e, rs)]))"
    by (rule take_at_or_below)
  then show ?thesis using assms(1,2) by (simp add: index_lists_def)
qed

lemma after_above:
  assumes "index_lists rd bs" "bs = before @ (e, rs) # (e', rs') # after" "k < entry_content e'"
  shows "\<forall>(e'', rs'')\<in>set ((e', rs') # after). k < entry_content e''"
  using assms by (auto simp: index_lists_def sorted_wrt_append intro: less_trans)

lemma at_or_below_entries:
  "index_lists rd bs \<Longrightarrow> at_or_below (hf_data_block_index rd) k = xs \<Longrightarrow> snd ` set xs \<subseteq> fst ` set bs"
  by (force simp: index_lists_def at_or_below_def dest: set_takeWhileD)

section \<open>Keys\<close>

definition key_selection :: "HFileReader \<Rightarrow> (nat, BlockIndexEntry) btree_map \<Rightarrow> byte list \<Rightarrow> (nat, BlockIndexEntry) btree_map" where
  "key_selection rd selected k = (case at_or_below (hf_data_block_index rd) k of
      [] \<Rightarrow> selected
    | (sep, e) # below \<Rightarrow> (let sel = select_entry selected e in
        if sep = k then (case below of [] \<Rightarrow> sel | (_, previous) # _ \<Rightarrow> select_entry sel previous) else sel))"

lemma key_selection_covers:
  assumes "index_lists rd bs" "grouped bs" "picks bs m"
  shows "picks bs (key_selection rd m k) \<and> set m \<subseteq> set (key_selection rd m k) \<and>
    index_covers (key_selection rd m k) bs (\<lambda>r. hk_content r = k)"
proof -
  have ok: "bm_ok (offset_map bs)" using assms(1) by (simp add: index_lists_def)
  have picked: "picks bs (key_selection rd m k) \<and> set m \<subseteq> set (key_selection rd m k) \<and>
      (\<forall>x xs. at_or_below (hf_data_block_index rd) k = x # xs \<longrightarrow> (ie_offset (snd x), snd x) \<in> set (key_selection rd m k)) \<and>
      (\<forall>x y xs. at_or_below (hf_data_block_index rd) k = x # y # xs \<longrightarrow> fst x = k \<longrightarrow>
        (ie_offset (snd y), snd y) \<in> set (key_selection rd m k))"
  proof (cases "at_or_below (hf_data_block_index rd) k")
    case Nil
    then show ?thesis using assms(3) by (simp add: key_selection_def)
  next
    case (Cons x xs)
    have es: "snd ` set (x # xs) \<subseteq> fst ` set bs" using at_or_below_entries [OF assms(1) Cons] .
    note one = picks_insert [OF ok assms(3), of "snd x"]
    show ?thesis
    proof (cases xs)
      case Nil
      then show ?thesis using Cons one es by (cases x) (auto simp: key_selection_def Let_def)
    next
      case (Cons y ys)
      have "picks bs (select_entry m (snd x))" using one es by simp
      note two = picks_insert [OF ok this, of "snd y"]
      show ?thesis using one two es Cons \<open>at_or_below _ _ = x # xs\<close>
        by (cases x; cases y) (auto simp: key_selection_def Let_def)
    qed
  qed
  moreover have "(ie_offset e, e) \<in> set (key_selection rd m k)"
    if block: "(e, rs) \<in> set bs" and r: "r \<in> set rs" "hk_content r = k" for e rs r
  proof -
    obtain before after where bs: "bs = before @ (e, rs) # after" using block by (meson split_list)
    have low: "entry_content e \<le> k" using assms(2) bs r unfolding grouped_def by blast
    show ?thesis
    proof (cases "\<forall>(e', rs')\<in>set after. k < entry_content e'")
      case True
      then show ?thesis using picked at_or_below_block [OF assms(1) bs low] by auto
    next
      case False
      then obtain x after' where after: "after = x # after'" by (cases after) auto
      obtain e' rs' where x: "x = (e', rs')" by (cases x)
      have bs': "bs = (before @ [(e, rs)]) @ (e', rs') # after'" using bs after x by simp
      have "r \<in> set (file_records (before @ [(e, rs)]))" using r(1) by simp
      then have "k \<le> entry_content e'" using assms(2) bs' r(2) unfolding grouped_def by blast
      moreover have "\<not> k < entry_content e'" using after_above [OF assms(1), of before e rs e' rs' after'] bs' False after x by auto
      ultimately have k: "entry_content e' = k" by auto
      have "\<forall>(e'', rs'')\<in>set after'. k < entry_content e''"
        using assms(1) bs' k by (auto simp: index_lists_def sorted_wrt_append)
      then have "at_or_below (hf_data_block_index rd) k = (k, e') # (entry_content e, e) # rev (map (\<lambda>(e, rs). (entry_content e, e)) before)"
        using at_or_below_block [OF assms(1) bs'] k by simp
      then show ?thesis using picked by auto
    qed
  qed
  ultimately show ?thesis by (auto simp: index_covers_def)
qed

lemma blocks_for_keys_from_covers:
  assumes "index_lists rd bs" "grouped bs" "picks bs m"
  shows "\<exists>m'. blocks_for_keys_from rd m keys = map snd m' \<and> picks bs m' \<and> set m \<subseteq> set m' \<and>
    (\<forall>k\<in>set keys. index_covers m' bs (\<lambda>r. hk_content r = str_bytes k))"
  using assms(3)
proof (induction keys arbitrary: m)
  case (Cons k keys)
  show ?case
  proof (cases "key_from_content (str_bytes k) = None")
    case True
    have "set m \<subseteq> set (offset_map bs)" using Cons.prems by (auto simp: picks_def)
    moreover have "index_covers (offset_map bs) bs p" for p by (force simp: index_covers_def offset_map_def)
    moreover have "blocks_for_keys_from rd m (k # keys) = map snd (offset_map bs)"
      using True data_block_entries_index [OF assms(1)] by simp
    ultimately show ?thesis using picks_all by blast
  next
    case False
    note step = key_selection_covers [OF assms(1,2) Cons.prems, of "str_bytes k"]
    then obtain m' where m': "blocks_for_keys_from rd (key_selection rd m (str_bytes k)) keys = map snd m'" "picks bs m'"
      "set (key_selection rd m (str_bytes k)) \<subseteq> set m'" "\<forall>k\<in>set keys. index_covers m' bs (\<lambda>r. hk_content r = str_bytes k)"
      using Cons.IH by blast
    have "blocks_for_keys_from rd m (k # keys) = map snd m'" using False m'(1) by (auto simp: key_selection_def)
    moreover have "index_covers m' bs (\<lambda>r. hk_content r = str_bytes k)" using step m'(3) index_covers_mono by blast
    ultimately show ?thesis using m' step by auto
  qed
qed auto

section \<open>Prefixes\<close>

lemma append_less: "b < b' \<Longrightarrow> xs @ b # s < xs @ [b'::'a::linorder]"
  by (induction xs) simp_all

lemma prefix_upper_bound_rev_above:
  "prefix_upper_bound_rev p = Some upper \<Longrightarrow> take (length p) c = rev p \<Longrightarrow> c < upper"
proof (induction p)
  case (Cons b p)
  show ?case
  proof (cases "b \<noteq> 255")
    case True
    have "unat b < 256" using unsigned_less [of b, where 'a = nat] by simp
    moreover have "unat b \<noteq> 255" using True by (simp add: word_unat_eq_iff)
    ultimately have "Suc (unat b) mod 256 = Suc (unat b)" by (intro mod_less) linarith
    then have "b < b + 1" by (simp add: word_less_nat_alt unat_word_ariths(1))
    moreover have up: "upper = rev p @ [b + 1]" using Cons.prems(1) True by auto
    moreover have "c = rev p @ b # drop (length (b # p)) c"
      using Cons.prems(2) append_take_drop_id [of "length (b # p)" c] by simp
    ultimately show ?thesis using append_less [of b "b + 1" "rev p" "drop (length (b # p)) c"] by metis
  next
    case False
    then have "prefix_upper_bound_rev p = Some upper" using Cons.prems(1) by simp
    moreover have "take (length p) c = rev p"
    proof -
      have "take (length p) c = take (length p) (take (length (b # p)) c)" by (simp add: min_def)
      also have "\<dots> = take (length p) (rev p @ [b])" using Cons.prems(2) by simp
      finally show ?thesis by simp
    qed
    ultimately show ?thesis by (rule Cons.IH)
  qed
qed simp

lemma prefix_upper_bound_above: "prefix_upper_bound pre = Some upper \<Longrightarrow> take (length pre) c = pre \<Longrightarrow> c < upper"
  using prefix_upper_bound_rev_above [of "rev pre" upper c] by (simp add: prefix_upper_bound_def)

text \<open>No key is repeated across a block boundary.\<close>

definition split_keys :: "file_blocks \<Rightarrow> bool" where
  "split_keys bs \<longleftrightarrow> (\<forall>before e rs after. bs = before @ (e, rs) # after \<longrightarrow>
     (\<forall>r\<in>set rs. entry_content e \<le> hk_content r) \<and> (\<forall>r\<in>set (file_records before). hk_content r < entry_content e))"

lemma split_keys_grouped: "split_keys bs \<Longrightarrow> grouped bs"
  unfolding split_keys_def grouped_def by (blast intro: less_imp_le)

definition prefix_span :: "HFileReader \<Rightarrow> byte list \<Rightarrow> (byte list \<times> BlockIndexEntry) list" where
  "prefix_span rd lower = (case prefix_upper_bound lower of
      Some upper \<Rightarrow> filter (\<lambda>(k, _). lower \<le> k \<and> k < upper) (hf_data_block_index rd)
    | None \<Rightarrow> filter (\<lambda>(k, _). lower \<le> k) (hf_data_block_index rd))"

lemma blocks_for_prefix_covers:
  assumes "index_lists rd bs" "split_keys bs"
  shows "\<exists>m. blocks_for_prefix rd pre = map snd m \<and> picks bs m \<and> index_covers m bs (key_starts (str_bytes pre))"
proof (cases "key_from_content (str_bytes pre) = None")
  case True
  have "index_covers (offset_map bs) bs p" for p by (force simp: index_covers_def offset_map_def)
  moreover have "blocks_for_prefix rd pre = map snd (offset_map bs)"
    using True data_block_entries_index [OF assms(1)] by (simp add: blocks_for_prefix_def)
  ultimately show ?thesis using picks_all by blast
next
  case False
  let ?pre = "str_bytes pre"
  have ok: "bm_ok (offset_map bs)" and idx: "hf_data_block_index rd = map (\<lambda>(e, rs). (entry_content e, e)) bs"
    using assms(1) by (simp_all add: index_lists_def)
  let ?sel = "case at_or_below (hf_data_block_index rd) ?pre of [] \<Rightarrow> [] | (_, e) # _ \<Rightarrow> select_entry [] e"
  let ?m = "foldl select_entry ?sel (map snd (prefix_span rd ?pre))"
  have low: "picks bs ?sel \<and> (\<forall>x xs. at_or_below (hf_data_block_index rd) ?pre = x # xs \<longrightarrow> (ie_offset (snd x), snd x) \<in> set ?sel)"
  proof (cases "at_or_below (hf_data_block_index rd) ?pre")
    case (Cons x xs)
    then have "snd x \<in> fst ` set bs" using at_or_below_entries [OF assms(1) Cons] by simp
    then show ?thesis using picks_insert [OF ok picks_Nil, of "snd x"] Cons by (cases x) simp
  qed simp
  have "set (map snd (prefix_span rd ?pre)) \<subseteq> fst ` set bs"
    by (force simp: prefix_span_def idx split: option.splits)
  note m = picks_fold [OF ok conjunct1 [OF low] this]
  have blocks: "blocks_for_prefix rd pre = map snd ?m"
    using False by (auto simp: blocks_for_prefix_def prefix_span_def Let_def)
  have "(ie_offset e, e) \<in> set ?m" if block: "(e, rs) \<in> set bs" and r: "r \<in> set rs" "key_starts ?pre r" for e rs r
  proof -
    obtain before after where bs: "bs = before @ (e, rs) # after" using block by (meson split_list)
    have key: "entry_content e \<le> hk_content r" "?pre \<le> hk_content r"
      using assms(2) bs r prefixed_above unfolding split_keys_def key_starts_def by (blast, blast)
    show ?thesis
    proof (cases "?pre \<le> entry_content e")
      case True
      have below: "entry_content e < upper" if "prefix_upper_bound ?pre = Some upper" for upper
        using prefix_upper_bound_above [OF that, of "hk_content r"] r(2) key(1) by (simp add: key_starts_def)
      have "(entry_content e, e) \<in> set (hf_data_block_index rd)" using block by (force simp: idx)
      then have "(entry_content e, e) \<in> set (prefix_span rd ?pre)"
        using True below by (auto simp: prefix_span_def split: option.split)
      then have "e \<in> set (map snd (prefix_span rd ?pre))" by force
      then show ?thesis using m by blast
    next
      case False
      have "?pre < entry_content e'" if mem: "(e', rs') \<in> set after" for e' rs'
      proof -
        obtain xs ys where "after = xs @ (e', rs') # ys" using mem by (meson split_list)
        then have "bs = (before @ (e, rs) # xs) @ (e', rs') # ys" using bs by simp
        moreover have "r \<in> set (file_records (before @ (e, rs) # xs))" using r(1) by simp
        ultimately have "hk_content r < entry_content e'" using assms(2) unfolding split_keys_def by blast
        then show ?thesis using key(2) by (rule le_less_trans [rotated])
      qed
      then have "at_or_below (hf_data_block_index rd) ?pre = (entry_content e, e) # rev (map (\<lambda>(e, rs). (entry_content e, e)) before)"
        using False by (intro at_or_below_block [OF assms(1) bs]) auto
      then show ?thesis using low m by auto
    qed
  qed
  then have "index_covers ?m bs (key_starts ?pre)" by (auto simp: index_covers_def)
  then show ?thesis using blocks m by blast
qed

section \<open>Predicates\<close>

definition record_admitted :: "KeyPredicate \<Rightarrow> HFileRecord \<Rightarrow> bool" where
  "record_admitted p r = (case key_as_str r of None \<Rightarrow> False | Some k \<Rightarrow> predicate_admits p k)"

text \<open>What the selection needs of the order of the keys: prefixes need keys that do not straddle blocks.\<close>

definition keys_in_order :: "KeyPredicate \<Rightarrow> file_blocks \<Rightarrow> bool" where
  "keys_in_order p bs \<longleftrightarrow> (case p of PredicateKeys _ \<Rightarrow> grouped bs | PredicatePrefixes _ \<Rightarrow> split_keys bs)"

lemma key_as_str_record: "key_as_str (hkv_record r) = Some k \<Longrightarrow> hk_content r = str_bytes k"
  using from_utf8_Ok by (fastforce simp: key_as_str_def hkv_record_def split: sum.splits)

lemma starts_with_bytes: "starts_with pre k \<longleftrightarrow> take (length (str_bytes pre)) (str_bytes k) = str_bytes pre"
  using inj_str_bytes by (simp add: starts_with_def str_bytes_def take_map flip: inj_map_eq_map)
    (metis (no_types, lifting) bytes_str_str_bytes str_bytes_def take_map)

lemma fold_covers:
  assumes "index_lists rd bs" "split_keys bs" "picks bs m"
  shows "\<exists>m'. foldl (\<lambda>sel pre. foldl select_entry sel (blocks_for_prefix rd pre)) m pres = m' \<and> picks bs m' \<and> set m \<subseteq> set m' \<and>
    (\<forall>pre\<in>set pres. index_covers m' bs (key_starts (str_bytes pre)))"
  using assms(3)
proof (induction pres arbitrary: m)
  case (Cons pre pres)
  have ok: "bm_ok (offset_map bs)" using assms(1) by (simp add: index_lists_def)
  obtain mp where mp: "blocks_for_prefix rd pre = map snd mp" "picks bs mp" "index_covers mp bs (key_starts (str_bytes pre))"
    using blocks_for_prefix_covers [OF assms(1,2)] by blast
  have sub: "set mp \<subseteq> set (offset_map bs)" using mp(2) by (auto simp: picks_def)
  then have "set (map snd mp) \<subseteq> fst ` set bs" by (force simp: offset_map_def)
  note f = picks_fold [OF ok Cons.prems this]
  let ?m1 = "foldl select_entry m (map snd mp)"
  have "set mp \<subseteq> set ?m1"
  proof
    fix x assume x: "x \<in> set mp"
    then have "x = (ie_offset (snd x), snd x)" using sub by (auto simp: offset_map_def)
    then have "x \<in> (\<lambda>e. (ie_offset e, e)) ` set (map snd mp)" using x by force
    then show "x \<in> set ?m1" using f by blast
  qed
  then have c1: "index_covers ?m1 bs (key_starts (str_bytes pre))" using index_covers_mono [OF mp(3)] by blast
  obtain m' where m': "foldl (\<lambda>sel pre. foldl select_entry sel (blocks_for_prefix rd pre)) ?m1 pres = m'" "picks bs m'"
    "set ?m1 \<subseteq> set m'" "\<forall>pre\<in>set pres. index_covers m' bs (key_starts (str_bytes pre))"
    using Cons.IH f by blast
  then show ?case using mp(1) f index_covers_mono [OF c1 m'(3)] by auto
qed simp

lemma blocks_for_predicate_covers:
  assumes "index_lists rd bs" "keys_in_order p bs"
  obtains m where "blocks_for_predicate rd p = map snd m" "picks bs m" "index_covers m bs (\<lambda>r. record_admitted p (hkv_record r))"
proof (cases p)
  case (PredicateKeys keys)
  then have "grouped bs" using assms(2) by (simp add: keys_in_order_def)
  then obtain m where m: "blocks_for_keys_from rd [] keys = map snd m" "picks bs m"
    "\<forall>k\<in>set keys. index_covers m bs (\<lambda>r. hk_content r = str_bytes k)"
    using blocks_for_keys_from_covers [OF assms(1) _ picks_Nil] by blast
  have "index_covers m bs (\<lambda>r. record_admitted p (hkv_record r))"
    unfolding index_covers_def
  proof (clarify)
    fix e rs r
    assume b: "(e, rs) \<in> set bs" "r \<in> set rs" "record_admitted p (hkv_record r)"
    then obtain k where "k \<in> set keys" "hk_content r = str_bytes k"
      using PredicateKeys key_as_str_record by (fastforce simp: record_admitted_def predicate_admits_def list_ex_iff split: option.splits)
    then show "(ie_offset e, e) \<in> set m" using m(3) b by (fastforce simp: index_covers_def)
  qed
  then show thesis using that m(1,2) PredicateKeys by (simp add: blocks_for_predicate_def blocks_for_keys_def)
next
  case (PredicatePrefixes pres)
  then have "split_keys bs" using assms(2) by (simp add: keys_in_order_def)
  then obtain m where m: "foldl (\<lambda>sel pre. foldl select_entry sel (blocks_for_prefix rd pre)) [] pres = m" "picks bs m"
    "\<forall>pre\<in>set pres. index_covers m bs (key_starts (str_bytes pre))"
    using fold_covers [OF assms(1) _ picks_Nil] by blast
  have "index_covers m bs (\<lambda>r. record_admitted p (hkv_record r))"
    unfolding index_covers_def
  proof (clarify)
    fix e rs r
    assume b: "(e, rs) \<in> set bs" "r \<in> set rs" "record_admitted p (hkv_record r)"
    then obtain k pre where k: "key_as_str (hkv_record r) = Some k" "pre \<in> set pres" "starts_with pre k"
      using PredicatePrefixes by (auto simp: record_admitted_def predicate_admits_def list_ex_iff split: option.splits)
    then have "key_starts (str_bytes pre) r" using key_as_str_record [OF k(1)] starts_with_bytes by (simp add: key_starts_def)
    then show "(ie_offset e, e) \<in> set m" using m(3) b k(2) by (fastforce simp: index_covers_def)
  qed
  then show thesis using that m(1,2) PredicatePrefixes by (simp add: blocks_for_predicate_def)
qed

text \<open>The records of the chosen blocks, filtered, are those of the file, filtered.\<close>

definition chosen :: "file_blocks \<Rightarrow> (nat, BlockIndexEntry) btree_map \<Rightarrow> file_blocks" where
  "chosen bs m = filter (\<lambda>(e, rs). (ie_offset e, e) \<in> set m) bs"

lemma chosen_entries: "picks bs m \<Longrightarrow> map snd m = map fst (chosen bs m)"
proof -
  assume "picks bs m"
  then obtain P where P: "m = filter P (offset_map bs)" by (auto simp: picks_def)
  have "\<And>e rs. (e, rs) \<in> set bs \<Longrightarrow> (ie_offset e, e) \<in> set m \<longleftrightarrow> P (ie_offset e, e)"
    unfolding P by (force simp: offset_map_def)
  then have "chosen bs m = filter (\<lambda>(e, rs). P (ie_offset e, e)) bs" unfolding chosen_def by (intro filter_cong) auto
  moreover have "map snd m = map fst (filter (\<lambda>(e, rs). P (ie_offset e, e)) bs)"
    unfolding P offset_map_def by (induction bs) auto
  ultimately show ?thesis by simp
qed

lemma chosen_filter:
  assumes "index_covers m bs p"
  shows "filter p (file_records (chosen bs m)) = filter p (file_records bs)"
proof -
  have "filter p (file_records (filter (\<lambda>(e, rs). (ie_offset e, e) \<in> set m) cs)) = filter p (file_records cs)"
    if "set cs \<subseteq> set bs" for cs
    using that
  proof (induction cs)
    case (Cons c cs)
    obtain e rs where c: "c = (e, rs)" by (cases c)
    have "(ie_offset e, e) \<in> set m" if "\<exists>r\<in>set rs. p r" using assms that Cons.prems c by (auto simp: index_covers_def)
    then show ?case using Cons c by (auto simp: filter_empty_conv)
  qed simp
  then show ?thesis by (simp add: chosen_def)
qed

end
