(* ===== verification/Schema_Promotion.thy ===== *)
theory Schema_Promotion
  imports Hudi_Prelude
begin

text \<open>
  When a log block has to be rewritten rather than resolved (\<open>schema/extended_promotion.rs\<close>): the
  comparison of the writer's Avro schema with the reader's. A schema is a value of the variants of
  \<open>apache_avro::Schema\<close>; docs, aliases, defaults and attributes, which the comparison does not look
  at, are left out.
\<close>

section \<open>Avro schemas\<close>

datatype AvroSchema =
    AvNull | AvBoolean | AvInt | AvLong | AvFloat | AvDouble | AvBytes | AvString
  | AvArray AvroSchema | AvMap AvroSchema | AvUnion "AvroSchema list"
  | AvRecord string "(string \<times> AvroSchema) list"
  | AvEnum string "string list" | AvFixed string nat | AvRef string
  | AvDecimal nat nat AvroSchema | AvBigDecimal | AvUuid | AvDate | AvTimeMillis | AvTimeMicros
  | AvTimestampMillis | AvTimestampMicros | AvTimestampNanos
  | AvLocalTimestampMillis | AvLocalTimestampMicros | AvLocalTimestampNanos | AvDuration

datatype PhysicalType =
    PtNull | PtBoolean | PtInt | PtLong | PtFloat | PtDouble | PtBytes | PtString | PtFixed
  | PtRecord | PtEnum | PtArray | PtMap | PtUnion | PtRef

definition actual_schema_from_union :: "AvroSchema \<Rightarrow> AvroSchema result" where
  "actual_schema_from_union s = (case s of
      AvUnion vs \<Rightarrow> (case vs of
          [v] \<Rightarrow> Ok v
        | [v, w] \<Rightarrow> if v = AvNull then Ok w else if w = AvNull then Ok v else Err SchemaError
        | _ \<Rightarrow> Err SchemaError)
    | _ \<Rightarrow> Ok s)"

lemma zip_field_size [termination_simp]:
  "((a, s), (b, t)) \<in> set (zip fs gs) \<Longrightarrow> size s \<le> Suc (size_list (\<lambda>x. Suc (size (snd x))) fs)"
  "((a, s), (b, t)) \<in> set (zip fs gs) \<Longrightarrow> size s < Suc (size_list (\<lambda>x. Suc (size (snd x))) fs)"
  by (induction fs gs rule: list_induct2') auto

lemma zip_size [termination_simp]:
  "(x, y) \<in> set (zip xs ys) \<Longrightarrow> size x \<le> Suc (size_list size xs)"
  "(x, y) \<in> set (zip xs ys) \<Longrightarrow> size x < Suc (size_list size xs)"
  by (induction xs ys rule: list_induct2') auto

lemma map_of_field_size [termination_simp]:
  "map_of fs n = Some s \<Longrightarrow> size s \<le> Suc (size_list (\<lambda>x. Suc (size (snd x))) fs)"
  "map_of fs n = Some s \<Longrightarrow> size s < Suc (size_list (\<lambda>x. Suc (size (snd x))) fs)"
  by (induction fs) (auto split: if_splits)

lemma field_size: "f \<in> set fs \<Longrightarrow> size (snd f) < Suc (size_list (\<lambda>x. Suc (size (snd x))) fs)"
  "(a, s) \<in> set fs \<Longrightarrow> size s < Suc (size_list (size_prod (\<lambda>x. 0) size) fs)"
  by (induction fs) auto

text \<open>Records are compared by their field names and field schemas, leaves as they are.\<close>

fun schemas_equal :: "AvroSchema \<Rightarrow> AvroSchema \<Rightarrow> bool" where
  "schemas_equal (AvRecord n fs) b = (case b of AvRecord m gs \<Rightarrow> length fs = length gs \<and>
     list_all (\<lambda>((x, s), (y, t)). x = y \<and> schemas_equal s t) (zip fs gs) | _ \<Rightarrow> False)"
| "schemas_equal (AvArray s) b = (case b of AvArray t \<Rightarrow> schemas_equal s t | _ \<Rightarrow> False)"
| "schemas_equal (AvMap s) b = (case b of AvMap t \<Rightarrow> schemas_equal s t | _ \<Rightarrow> False)"
| "schemas_equal (AvUnion vs) b = (case b of AvUnion ws \<Rightarrow> length vs = length ws \<and>
     list_all (\<lambda>(s, t). schemas_equal s t) (zip vs ws) | _ \<Rightarrow> False)"
| "schemas_equal a b = (a = b)"

definition is_logical_type :: "AvroSchema \<Rightarrow> bool" where
  "is_logical_type s = (case s of
      AvDecimal _ _ _ \<Rightarrow> True | AvBigDecimal \<Rightarrow> True | AvUuid \<Rightarrow> True | AvDate \<Rightarrow> True | AvTimeMillis \<Rightarrow> True
    | AvTimeMicros \<Rightarrow> True | AvTimestampMillis \<Rightarrow> True | AvTimestampMicros \<Rightarrow> True | AvTimestampNanos \<Rightarrow> True
    | AvLocalTimestampMillis \<Rightarrow> True | AvLocalTimestampMicros \<Rightarrow> True | AvLocalTimestampNanos \<Rightarrow> True
    | AvDuration \<Rightarrow> True | _ \<Rightarrow> False)"

fun physical_type :: "AvroSchema \<Rightarrow> PhysicalType" where
  "physical_type AvNull = PtNull"
| "physical_type AvBoolean = PtBoolean"
| "physical_type AvInt = PtInt" | "physical_type AvDate = PtInt" | "physical_type AvTimeMillis = PtInt"
| "physical_type AvLong = PtLong" | "physical_type AvTimeMicros = PtLong"
| "physical_type AvTimestampMillis = PtLong" | "physical_type AvTimestampMicros = PtLong"
| "physical_type AvTimestampNanos = PtLong" | "physical_type AvLocalTimestampMillis = PtLong"
| "physical_type AvLocalTimestampMicros = PtLong" | "physical_type AvLocalTimestampNanos = PtLong"
| "physical_type AvFloat = PtFloat" | "physical_type AvDouble = PtDouble"
| "physical_type (AvDecimal _ _ inner) = physical_type inner"
| "physical_type AvBytes = PtBytes" | "physical_type AvBigDecimal = PtBytes"
| "physical_type AvString = PtString" | "physical_type AvUuid = PtString"
| "physical_type (AvFixed _ _) = PtFixed" | "physical_type AvDuration = PtFixed"
| "physical_type (AvRecord _ _) = PtRecord" | "physical_type (AvEnum _ _) = PtEnum"
| "physical_type (AvArray _) = PtArray" | "physical_type (AvMap _) = PtMap"
| "physical_type (AvUnion _) = PtUnion" | "physical_type (AvRef _) = PtRef"

definition needs_rewrite_to_string :: "AvroSchema \<Rightarrow> bool \<Rightarrow> bool" where
  "needs_rewrite_to_string writer reader_is_enum =
     (if is_logical_type writer then True
      else case writer of AvEnum _ _ \<Rightarrow> \<not> reader_is_enum | _ \<Rightarrow> True)"

definition logical_types_equal :: "AvroSchema \<Rightarrow> AvroSchema \<Rightarrow> bool" where
  "logical_types_equal writer reader = (if \<not> is_logical_type writer then False else schemas_equal writer reader)"

text \<open>The first answer that is not a plain no.\<close>

fun any_result :: "('a \<Rightarrow> bool result) \<Rightarrow> 'a list \<Rightarrow> bool result" where
  "any_result f [] = Ok False"
| "any_result f (x # xs) = res_bind (f x) (\<lambda>b. if b then Ok True else any_result f xs)"

lemma any_result_cong [fundef_cong]:
  "xs = ys \<Longrightarrow> (\<And>x. x \<in> set ys \<Longrightarrow> f x = g x) \<Longrightarrow> any_result f xs = any_result g ys"
proof -
  assume "xs = ys" "\<And>x. x \<in> set ys \<Longrightarrow> f x = g x"
  moreover have "(\<And>x. x \<in> set ys \<Longrightarrow> f x = g x) \<Longrightarrow> any_result f ys = any_result g ys"
    by (induction ys) (auto simp: res_bind_def split: sum.split)
  ultimately show ?thesis by simp
qed

lemma actual_schema_smaller:
  "actual_schema_from_union (AvUnion vs) = Ok s \<Longrightarrow> size s < size (AvUnion vs)"
  by (auto simp: actual_schema_from_union_def split: list.splits if_splits)

function record_needs_rewrite :: "AvroSchema \<Rightarrow> AvroSchema \<Rightarrow> bool result" where
  "record_needs_rewrite writer reader =
     (if schemas_equal writer reader then Ok False
      else if is_logical_type reader then Ok (\<not> logical_types_equal writer reader)
      else case reader of
        AvRecord _ rfs \<Rightarrow> (case writer of
            AvRecord _ wfs \<Rightarrow>
              if length rfs > length wfs then Ok True
              else any_result (\<lambda>f. case find (\<lambda>g. fst g = fst f) wfs of
                  None \<Rightarrow> Ok True
                | Some g \<Rightarrow> record_needs_rewrite (snd g) (snd f)) rfs
          | _ \<Rightarrow> Err SchemaError)
      | AvArray r \<Rightarrow> (case writer of AvArray w \<Rightarrow> record_needs_rewrite w r | _ \<Rightarrow> Ok False)
      | AvMap r \<Rightarrow> (case writer of AvMap w \<Rightarrow> record_needs_rewrite w r | _ \<Rightarrow> Ok False)
      | AvUnion _ \<Rightarrow> (case actual_schema_from_union writer of
            Inl e \<Rightarrow> Inl e
          | Inr w \<Rightarrow> (case actual_schema_from_union reader of Inl e \<Rightarrow> Inl e | Inr r \<Rightarrow> record_needs_rewrite w r))
      | AvEnum _ _ \<Rightarrow> Ok (needs_rewrite_to_string writer True)
      | AvString \<Rightarrow> Ok (needs_rewrite_to_string writer False)
      | AvDouble \<Rightarrow> Ok (physical_type writer \<notin> {PtInt, PtLong})
      | AvFloat \<Rightarrow> Ok (physical_type writer \<notin> {PtInt, PtLong})
      | AvLong \<Rightarrow> Ok (physical_type writer \<notin> {PtInt, PtLong})
      | _ \<Rightarrow> Ok (physical_type writer \<noteq> physical_type reader))"
  by pat_completeness auto
termination
  by (relation "measure (size \<circ> snd)")
    (auto dest: actual_schema_smaller intro: less_trans field_size simp: field_size)

declare record_needs_rewrite.simps [simp del]

section \<open>What Avro resolves\<close>

text \<open>Schema resolution as the Avro specification has it, on types: promotions of numbers, strings and
  bytes both ways, element-wise for arrays and maps, by field name for records. A union of the
  reader takes its non-null branch from the writer's.\<close>

definition primitive_resolves :: "PhysicalType \<Rightarrow> PhysicalType \<Rightarrow> bool" where
  "primitive_resolves w r \<longleftrightarrow> w = r \<or> (w, r) \<in> {(PtInt, PtLong), (PtInt, PtFloat), (PtInt, PtDouble), (PtLong, PtFloat),
     (PtLong, PtDouble), (PtFloat, PtDouble), (PtString, PtBytes), (PtBytes, PtString)}"

inductive resolves :: "AvroSchema \<Rightarrow> AvroSchema \<Rightarrow> bool" where
  resolves_equal: "schemas_equal w r \<Longrightarrow> resolves w r"
| resolves_leaf: "physical_type r \<notin> {PtRecord, PtArray, PtMap, PtUnion} \<Longrightarrow>
    primitive_resolves (physical_type w) (physical_type r) \<Longrightarrow> resolves w r"
| resolves_array: "resolves w r \<Longrightarrow> resolves (AvArray w) (AvArray r)"
| resolves_map: "resolves w r \<Longrightarrow> resolves (AvMap w) (AvMap r)"
| resolves_record: "(\<And>n r. (n, r) \<in> set rfs \<Longrightarrow> \<exists>w. (n, w) \<in> set wfs \<and> resolves w r) \<Longrightarrow>
    resolves (AvRecord a wfs) (AvRecord b rfs)"
| resolves_union: "actual_schema_from_union w = Ok w' \<Longrightarrow> actual_schema_from_union r = Ok r' \<Longrightarrow> resolves w' r' \<Longrightarrow>
    resolves w r"

text \<open>The reader has an array or a map only where the writer has one.\<close>

fun collections_agree :: "AvroSchema \<Rightarrow> AvroSchema \<Rightarrow> bool" where
  "collections_agree w (AvArray r) = (case w of AvArray w' \<Rightarrow> collections_agree w' r | _ \<Rightarrow> False)"
| "collections_agree w (AvMap r) = (case w of AvMap w' \<Rightarrow> collections_agree w' r | _ \<Rightarrow> False)"
| "collections_agree w (AvRecord _ rfs) = (case w of
     AvRecord _ wfs \<Rightarrow> list_all (\<lambda>(n, r). case map_of wfs n of None \<Rightarrow> True | Some w' \<Rightarrow> collections_agree w' r) rfs
   | _ \<Rightarrow> True)"
| "collections_agree w (AvUnion rs) = (case actual_schema_from_union w of Inl _ \<Rightarrow> True
     | Inr w' \<Rightarrow> list_all (collections_agree w') (filter (\<lambda>r. r \<noteq> AvNull) rs))"
| "collections_agree w r = True"

lemma any_result_False: "any_result f xs = Ok False \<longleftrightarrow> (\<forall>x\<in>set xs. f x = Ok False)"
  by (induction xs) (auto simp: res_bind_def split: sum.splits)

lemma union_branch:
  "actual_schema_from_union (AvUnion rs) = Ok r \<Longrightarrow> r \<in> set rs"
  by (auto simp: actual_schema_from_union_def split: list.splits if_splits)

lemma not_rewritten_to_string: "\<not> needs_rewrite_to_string w b \<longleftrightarrow> b \<and> (\<exists>n ss. w = AvEnum n ss)"
  by (cases w) (auto simp: needs_rewrite_to_string_def is_logical_type_def)

definition leaf_answer :: "AvroSchema \<Rightarrow> AvroSchema \<Rightarrow> bool" where
  "leaf_answer w r = (if \<exists>n ss. r = AvEnum n ss then needs_rewrite_to_string w True
     else if r = AvString then needs_rewrite_to_string w False
     else if r = AvDouble \<or> r = AvFloat \<or> r = AvLong then physical_type w \<notin> {PtInt, PtLong}
     else physical_type w \<noteq> physical_type r)"

lemma record_needs_rewrite_leaf:
  "\<not> schemas_equal w r \<Longrightarrow> \<not> is_logical_type r \<Longrightarrow> physical_type r \<notin> {PtRecord, PtArray, PtMap, PtUnion} \<Longrightarrow>
   record_needs_rewrite w r = Ok (leaf_answer w r)"
  by (subst record_needs_rewrite.simps, cases r) (simp_all add: leaf_answer_def)

lemma leaf_resolves: "\<not> leaf_answer w r \<Longrightarrow> primitive_resolves (physical_type w) (physical_type r)"
proof -
  assume no: "\<not> leaf_answer w r"
  consider (enum) n ss where "r = AvEnum n ss" | (str) "r = AvString" | (number) "r = AvDouble \<or> r = AvFloat \<or> r = AvLong"
    | (other) "\<nexists>n ss. r = AvEnum n ss" "r \<noteq> AvString" "\<not> (r = AvDouble \<or> r = AvFloat \<or> r = AvLong)" by blast
  then show ?thesis
  proof cases
    case enum
    then have "\<not> needs_rewrite_to_string w True" using no by (simp add: leaf_answer_def)
    then obtain m ts where "w = AvEnum m ts" using not_rewritten_to_string by blast
    then show ?thesis using enum by (simp add: primitive_resolves_def)
  next
    case str
    then show ?thesis using no not_rewritten_to_string [of w False] by (simp add: leaf_answer_def)
  next
    case number
    then have "leaf_answer w r \<longleftrightarrow> physical_type w \<notin> {PtInt, PtLong}" by (elim disjE) (simp_all add: leaf_answer_def)
    then have "physical_type w = PtInt \<or> physical_type w = PtLong" using no by simp
    moreover have "physical_type r = PtDouble \<or> physical_type r = PtFloat \<or> physical_type r = PtLong" using number by (elim disjE) simp_all
    ultimately show ?thesis by (elim disjE) (simp_all add: primitive_resolves_def)
  next
    case other
    then show ?thesis using no by (simp add: leaf_answer_def primitive_resolves_def)
  qed
qed

lemma collection_shape:
  "physical_type r \<in> {PtRecord, PtArray, PtMap, PtUnion} \<Longrightarrow> \<not> is_logical_type r \<Longrightarrow>
   (\<exists>n fs. r = AvRecord n fs) \<or> (\<exists>s. r = AvArray s) \<or> (\<exists>s. r = AvMap s) \<or> (\<exists>ss. r = AvUnion ss)"
  by (cases r) (simp_all add: is_logical_type_def)

text \<open>A block that is not rewritten is one Avro can resolve: when the promotion check answers no, and the
  reader has arrays and maps only where the writer does, the writer's schema resolves to the reader's.\<close>

theorem unrewritten_block_resolves:
  "record_needs_rewrite w r = Ok False \<Longrightarrow> collections_agree w r \<Longrightarrow> resolves w r"
proof (induction w r rule: record_needs_rewrite.induct)
  case (1 w r)
  show ?case
  proof (cases "schemas_equal w r \<or> is_logical_type r")
    case True
    then show ?thesis using 1(5) record_needs_rewrite.simps [of w r]
      by (auto simp: logical_types_equal_def intro: resolves_equal split: if_splits)
  next
    case False
    note step = 1(5) [unfolded record_needs_rewrite.simps [of w r]]
    consider (leaf) "physical_type r \<notin> {PtRecord, PtArray, PtMap, PtUnion}" | (AvRecord) n rfs where "r = AvRecord n rfs"
      | (AvArray) r' where "r = AvArray r'" | (AvMap) r' where "r = AvMap r'" | (AvUnion) rs where "r = AvUnion rs"
      using collection_shape [of r] False by blast
    then show ?thesis
    proof cases
      case leaf
      then have "\<not> leaf_answer w r" using record_needs_rewrite_leaf [of w r] 1(5) False by simp
      then show ?thesis using leaf by (intro resolves_leaf leaf_resolves)
    next
      case (AvRecord n rfs)
      then obtain m wfs where w: "w = AvRecord m wfs" using step False by (cases w) auto
      have each: "\<forall>f\<in>set rfs. \<exists>g. find (\<lambda>g. fst g = fst f) wfs = Some g \<and> record_needs_rewrite (snd g) (snd f) = Ok False"
        using step False AvRecord w by (auto simp: any_result_False split: if_splits option.splits)
      have "\<exists>s. (x, s) \<in> set wfs \<and> resolves s t" if t: "(x, t) \<in> set rfs" for x t
      proof -
        obtain g where g: "find (\<lambda>g. fst g = x) wfs = Some g" "record_needs_rewrite (snd g) t = Ok False" using each t by fastforce
        have mem: "g \<in> set wfs" "fst g = x" using g(1) by (auto simp: find_Some_iff)
        have "map_of wfs x = Some (snd g)" using g(1) by (induction wfs) (auto split: if_splits)
        then have "collections_agree (snd g) t" using 1(6) t AvRecord w by (auto simp: list_all_iff)
        then have "collections_agree (snd g) (snd (x, t))" "record_needs_rewrite (snd g) (snd (x, t)) = Ok False" using g(2) by simp_all
        moreover have "(x, t) \<in> set rfs" "find (\<lambda>g. fst g = fst (x, t)) wfs = Some g" using t g(1) by simp_all
        moreover have "\<not> length wfs < length rfs" using step False AvRecord w by (auto split: if_splits)
        ultimately have "resolves (snd g) (snd (x, t))" using 1(4) False AvRecord w by blast
        then have "resolves (snd g) t" by simp
        then show ?thesis using mem by (cases g) auto
      qed
      then show ?thesis unfolding w AvRecord by (intro resolves_record) blast
    next
      case (AvArray r')
      then obtain w' where w: "w = AvArray w'" using 1(6) by (cases w) auto
      then have "record_needs_rewrite w' r' = Ok False" "collections_agree w' r'" using step False AvArray 1(6) by auto
      then show ?thesis using 1(1) False AvArray w by (auto intro: resolves_array)
    next
      case (AvMap r')
      then obtain w' where w: "w = AvMap w'" using 1(6) by (cases w) auto
      then have "record_needs_rewrite w' r' = Ok False" "collections_agree w' r'" using step False AvMap 1(6) by auto
      then show ?thesis using 1(2) False AvMap w by (auto intro: resolves_map)
    next
      case (AvUnion rs)
      then obtain w' r' where u: "actual_schema_from_union w = Ok w'" "actual_schema_from_union r = Ok r'"
        "record_needs_rewrite w' r' = Ok False" using step False by (auto split: sum.splits)
      have "collections_agree w' r'"
        using 1(6) u(1,2) AvUnion union_branch [of rs r'] by (cases "r' = AvNull") (auto simp: list_all_iff)
      then have "resolves w' r'" using 1(3) False AvUnion u by blast
      then show ?thesis by (rule resolves_union [OF u(1,2)])
    qed
  qed
qed

text \<open>A reader with a promoted number, the same columns and a nullable string.\<close>

definition promotion_writer :: AvroSchema where
  "promotion_writer = AvRecord ''row'' [(''id'', AvInt), (''name'', AvUnion [AvNull, AvString]), (''n'', AvArray AvInt)]"

definition promotion_reader :: AvroSchema where
  "promotion_reader = AvRecord ''row'' [(''id'', AvLong), (''name'', AvUnion [AvString, AvNull]), (''n'', AvArray AvDouble)]"

theorem unrewritten_block_resolves_witness: "resolves promotion_writer promotion_reader"
proof (rule unrewritten_block_resolves)
  show "record_needs_rewrite promotion_writer promotion_reader = Ok False"
    by (simp add: promotion_writer_def promotion_reader_def record_needs_rewrite.simps is_logical_type_def
        actual_schema_from_union_def)
  show "collections_agree promotion_writer promotion_reader"
    by (simp add: promotion_writer_def promotion_reader_def actual_schema_from_union_def)
qed

end
