(* ===== verification/Block_Content.thy ===== *)
theory Block_Content
  imports HFile_Select Schema_Promotion Partial_Update Log_Block
begin

text \<open>
  Decoding the content of a log block: the Avro decoder that frames bare record bodies
  (\<open>log_file/avro.rs\<close>), the content decoder of the block types (\<open>log_file/content.rs\<close>), the keys of
  rows decoded from HFile entries (\<open>hfile/record_key.rs\<close>) and the projection of a batch to a schema
  (\<open>schema/batch_evolution.rs\<close>). The \<open>arrow-avro\<close> decoder, the Parquet reader, the parsers of schema
  JSON and the conversion of values are parameters. Timestamps carry no zone here, so the relabelling
  of UTC zones is left out.
\<close>

section \<open>Projecting a batch\<close>

definition schema_index_of :: "Schema \<Rightarrow> string \<Rightarrow> nat option" where
  "schema_index_of s n = (case filter (\<lambda>i. f_name (s ! i) = n) [0 ..< length s] of [] \<Rightarrow> None | i # _ \<Rightarrow> Some i)"

definition index_of_ci :: "Schema \<Rightarrow> string \<Rightarrow> nat option result" where
  "index_of_ci s n = (case schema_index_of s n of
      Some i \<Rightarrow> Ok (Some i)
    | None \<Rightarrow> (case filter (\<lambda>i. eq_ignore_ascii_case (f_name (s ! i)) n) [0 ..< length s] of
        [] \<Rightarrow> Ok None | [i] \<Rightarrow> Ok (Some i) | _ \<Rightarrow> Err SchemaError))"

definition batch_values :: "batch \<Rightarrow> nat \<Rightarrow> Value list" where
  "batch_values b i = map (\<lambda>r. r ! i) (b_rows b)"

definition rows_of_columns :: "nat \<Rightarrow> Value list list \<Rightarrow> Value list list" where
  "rows_of_columns n cols = map (\<lambda>i. map (\<lambda>c. c ! i) cols) [0 ..< n]"

text \<open>\<open>RecordBatch::try_new\<close>: no null in a column declared non-nullable.\<close>

definition try_new_batch :: "error \<Rightarrow> nat \<Rightarrow> Schema \<Rightarrow> nat \<Rightarrow> Value list list \<Rightarrow> batch result" where
  "try_new_batch err ptr s n cols =
     (if list_ex (\<lambda>(f, c). \<not> f_nullable f \<and> VNull \<in> set c) (zip s cols) then Err err
      else Ok \<lparr>b_ptr = ptr, b_schema = s, b_rows = rows_of_columns n cols\<rparr>)"

definition project_column :: "convert \<Rightarrow> batch \<Rightarrow> Field \<Rightarrow> Value list result" where
  "project_column conv b f = res_bind (index_of_ci (b_schema b) (f_name f)) (\<lambda>i. case i of
      Some i \<Rightarrow> (if f_type (b_schema b ! i) = f_type f then Ok (batch_values b i)
        else res_map (conv (f_type (b_schema b ! i)) (f_type f)) (batch_values b i))
    | None \<Rightarrow> if f_nullable f then Ok (replicate (length (b_rows b)) VNull) else Err SchemaError)"

definition project_batch_to_schema :: "convert \<Rightarrow> batch \<Rightarrow> Schema \<Rightarrow> batch result" where
  "project_batch_to_schema conv b target =
     (if b_schema b = target then Ok b
      else res_bind (res_map (project_column conv b) target)
        (try_new_batch SchemaError (b_ptr b) target (length (b_rows b))))"

section \<open>The Avro decoder\<close>

datatype Fingerprint = Rabin "64 word" | OtherFingerprint

text \<open>The \<open>arrow-avro\<close> library: registering a writer schema, building a decoder (with a reader
  schema, for a batch size), its schema, decoding a framed record, whether a batch is full, and
  draining the rows held. Types carry no time zone here, so the relabelling of UTC zones after a drain
  shows nothing.\<close>

record ('s, 'd) arrow_avro =
  aa_register :: "string \<Rightarrow> ('s \<times> Fingerprint) result"
  aa_build :: "'s \<Rightarrow> Fingerprint \<Rightarrow> string option \<Rightarrow> nat \<Rightarrow> 'd result"
  aa_schema :: "'d \<Rightarrow> Schema"
  aa_decode :: "'d \<Rightarrow> byte list \<Rightarrow> (nat \<times> 'd) result"
  aa_is_full :: "'d \<Rightarrow> bool"
  aa_flush :: "'d \<Rightarrow> (batch option \<times> 'd) result"

record 's RegisteredWriterSchema =
  rw_store :: 's
  rw_fingerprint :: Fingerprint

record ('s, 'd) AvroBlockDecoder =
  ad_decoder :: 'd
  ad_registered :: "'s RegisteredWriterSchema"
  ad_reader_schema_json :: "string option"
  ad_batch_size :: nat
  ad_prefix :: "byte list"
  ad_rewrite_to :: "Schema option"

definition registered_new :: "('s, 'd) arrow_avro \<Rightarrow> string \<Rightarrow> 's RegisteredWriterSchema result" where
  "registered_new aa json = (case aa_register aa json of
      Inl _ \<Rightarrow> Err LogBlockError
    | Inr (store, fp) \<Rightarrow> Ok \<lparr>rw_store = store, rw_fingerprint = fp\<rparr>)"

definition build_inner :: "('s, 'd) arrow_avro \<Rightarrow> 's RegisteredWriterSchema \<Rightarrow> string option \<Rightarrow> nat \<Rightarrow> 'd result" where
  "build_inner aa reg reader_json batch_size =
     (case aa_build aa (rw_store reg) (rw_fingerprint reg) reader_json batch_size of
        Inl _ \<Rightarrow> Err LogBlockError | Inr d \<Rightarrow> Ok d)"

definition SINGLE_OBJECT_MAGIC :: "byte list" where "SINGLE_OBJECT_MAGIC = [0xC3, 0x01]"

definition record_prefix :: "64 word \<Rightarrow> byte list" where
  "record_prefix rabin = SINGLE_OBJECT_MAGIC @ rev (be_bytes 8 (unat rabin))"

definition try_new_with_registered :: "('s, 'd) arrow_avro \<Rightarrow> 's RegisteredWriterSchema \<Rightarrow> string option \<Rightarrow> nat \<Rightarrow>
    ('s, 'd) AvroBlockDecoder result" where
  "try_new_with_registered aa reg reader_json batch_size = (case rw_fingerprint reg of
      OtherFingerprint \<Rightarrow> Err LogBlockError
    | Rabin rabin \<Rightarrow> res_bind (build_inner aa reg reader_json batch_size) (\<lambda>d.
        Ok \<lparr>ad_decoder = d, ad_registered = reg, ad_reader_schema_json = reader_json, ad_batch_size = batch_size,
            ad_prefix = record_prefix rabin, ad_rewrite_to = None\<rparr>))"

definition try_new_with_reader :: "('s, 'd) arrow_avro \<Rightarrow> string \<Rightarrow> string option \<Rightarrow> nat \<Rightarrow> ('s, 'd) AvroBlockDecoder result" where
  "try_new_with_reader aa writer_json reader_json batch_size =
     res_bind (registered_new aa writer_json) (\<lambda>reg. try_new_with_registered aa reg reader_json batch_size)"

definition ad_schema :: "('s, 'd) arrow_avro \<Rightarrow> ('s, 'd) AvroBlockDecoder \<Rightarrow> Schema" where
  "ad_schema aa ad = aa_schema aa (ad_decoder ad)"

definition with_rewrite_to :: "Schema \<Rightarrow> ('s, 'd) AvroBlockDecoder \<Rightarrow> ('s, 'd) AvroBlockDecoder" where
  "with_rewrite_to s ad = ad\<lparr>ad_rewrite_to := Some s\<rparr>"

definition ad_flush :: "('s, 'd) arrow_avro \<Rightarrow> convert \<Rightarrow> ('s, 'd) AvroBlockDecoder \<Rightarrow>
    (batch option \<times> ('s, 'd) AvroBlockDecoder) result" where
  "ad_flush aa conv ad = (case aa_flush aa (ad_decoder ad) of
      Inl _ \<Rightarrow> Err LogBlockError
    | Inr (None, d) \<Rightarrow> Ok (None, ad\<lparr>ad_decoder := d\<rparr>)
    | Inr (Some b, d) \<Rightarrow> (case ad_rewrite_to ad of
        None \<Rightarrow> Ok (Some b, ad\<lparr>ad_decoder := d\<rparr>)
      | Some target \<Rightarrow> res_bind (project_batch_to_schema conv b target) (\<lambda>b'. Ok (Some b', ad\<lparr>ad_decoder := d\<rparr>))))"

text \<open>One body: framed, decoded whole; a full batch is handed out and the decoder rebuilt.\<close>

definition ad_decode :: "('s, 'd) arrow_avro \<Rightarrow> convert \<Rightarrow> byte list \<Rightarrow> ('s, 'd) AvroBlockDecoder \<Rightarrow>
    (batch option \<times> ('s, 'd) AvroBlockDecoder) result" where
  "ad_decode aa conv body ad =
     (let framed = ad_prefix ad @ body in
      case aa_decode aa (ad_decoder ad) framed of
        Inl _ \<Rightarrow> Err LogBlockError
      | Inr (consumed, d) \<Rightarrow>
          if consumed \<noteq> length framed then Err LogBlockError
          else let ad1 = ad\<lparr>ad_decoder := d\<rparr> in
            if aa_is_full aa d then res_bind (ad_flush aa conv ad1) (\<lambda>(b, ad2).
              res_bind (build_inner aa (ad_registered ad2) (ad_reader_schema_json ad2) (ad_batch_size ad2)) (\<lambda>d'.
                Ok (b, ad2\<lparr>ad_decoder := d'\<rparr>)))
            else Ok (None, ad1))"

text \<open>A list of bodies, then what the decoder still holds; an empty last batch is dropped.\<close>

fun decode_bodies :: "('s, 'd) arrow_avro \<Rightarrow> convert \<Rightarrow> batch list \<Rightarrow> byte list list \<Rightarrow> ('s, 'd) AvroBlockDecoder \<Rightarrow>
    (batch list \<times> ('s, 'd) AvroBlockDecoder) result" where
  "decode_bodies aa conv acc [] ad = Ok (acc, ad)"
| "decode_bodies aa conv acc (body # bodies) ad = res_bind (ad_decode aa conv body ad) (\<lambda>(b, ad1).
     decode_bodies aa conv (case b of None \<Rightarrow> acc | Some x \<Rightarrow> acc @ [x]) bodies ad1)"

definition flush_last :: "('s, 'd) arrow_avro \<Rightarrow> convert \<Rightarrow> batch list \<Rightarrow> ('s, 'd) AvroBlockDecoder \<Rightarrow> batch list result" where
  "flush_last aa conv acc ad = res_bind (ad_flush aa conv ad) (\<lambda>(b, _). Ok (case b of
     Some x \<Rightarrow> if length (b_rows x) > 0 then acc @ [x] else acc | None \<Rightarrow> acc))"

section \<open>Keys of HFile entries\<close>

definition ENTRY_KEY_FIELD :: string where "ENTRY_KEY_FIELD = ''key''"

text \<open>An empty key takes the key of its entry; a null is left alone.\<close>

definition fill_key :: "Value \<Rightarrow> string \<Rightarrow> Value" where
  "fill_key v key = (if v = VStr [] then VStr key else v)"

definition fill_empty_entry_keys :: "batch \<Rightarrow> string list \<Rightarrow> batch result" where
  "fill_empty_entry_keys b entry_keys = (case schema_index_of (b_schema b) ENTRY_KEY_FIELD of
      None \<Rightarrow> Ok b
    | Some i \<Rightarrow>
        if length (b_rows b) \<noteq> length entry_keys then Err HFileError
        else if f_type (b_schema b ! i) \<noteq> DtUtf8 then Ok b
        else let filled = map2 (\<lambda>r k. r[i := fill_key (r ! i) k]) (b_rows b) entry_keys in
          if filled = b_rows b then Ok b
          else if \<not> f_nullable (b_schema b ! i) \<and> VNull \<in> set (map (\<lambda>r. r ! i) filled) then Err HFileError
          else Ok (b\<lparr>b_rows := filled\<rparr>))"

section \<open>The ordering values of deletes\<close>

text \<open>The delete list is one Avro datum: a list of records with a key, a partition path and an ordering
  value, a union of wrapper structs. A union value is its branch and the branch's value.\<close>

definition is_composite :: "DataType \<Rightarrow> bool" where
  "is_composite t = (case t of
      DtStruct [(_, DtList _ _)] \<Rightarrow> True | DtStruct [(_, DtLargeList _ _)] \<Rightarrow> True | _ \<Rightarrow> False)"

definition union_branch_of :: "Value \<Rightarrow> nat" where
  "union_branch_of v = (case v of VUnion i _ \<Rightarrow> i | _ \<Rightarrow> 0)"

definition union_value_of :: "Value \<Rightarrow> Value" where
  "union_value_of v = (case v of VUnion _ x \<Rightarrow> x | _ \<Rightarrow> v)"

text \<open>The scalar branch seen so far, and whether a composite row was seen.\<close>

definition ordering_branch_step :: "(nat \<times> DataType) list \<Rightarrow> nat option \<times> bool \<Rightarrow> Value \<Rightarrow> (nat option \<times> bool) result" where
  "ordering_branch_step children st v = (case st of (scalar, composite) \<Rightarrow>
     let i = union_branch_of v in
     case map_of children i of
       None \<Rightarrow> Err Panic
     | Some t \<Rightarrow>
         if t = DtNull then Ok (scalar, composite)
         else if is_composite t then Ok (scalar, True)
         else (case scalar of
             None \<Rightarrow> Ok (Some i, composite)
           | Some seen \<Rightarrow> if seen = i then Ok (scalar, composite) else Err LogBlockError))"

definition struct_field :: "Value \<Rightarrow> nat \<Rightarrow> Value" where
  "struct_field v i = (case v of VNested vs \<Rightarrow> if i < length vs then vs ! i else VNull | _ \<Rightarrow> VNull)"

definition unwrap_ordering_values :: "DataType \<Rightarrow> Value list \<Rightarrow> (DataType \<times> Value list) result" where
  "unwrap_ordering_values t vs = (case t of
      DtUnion children \<Rightarrow> res_bind (res_fold (ordering_branch_step children) (None, False) vs) (\<lambda>(scalar, composite).
        if composite then Ok (t, vs)
        else case scalar of
          None \<Rightarrow> Ok (DtInt64, replicate (length vs) VNull)
        | Some i \<Rightarrow> (case map_of children i of
            None \<Rightarrow> Err Panic
          | Some (DtStruct fs) \<Rightarrow>
              if length fs \<noteq> 1 then Err LogBlockError
              else Ok (snd (hd fs), map (\<lambda>v. if union_branch_of v = i then struct_field (union_value_of v) 0 else VNull) vs)
          | Some ct \<Rightarrow> Ok (ct, map (\<lambda>v. if union_branch_of v = i then union_value_of v else VNull) vs)))
    | _ \<Rightarrow> Err LogBlockError)"

text \<open>How the reader of deletes sees a value of the union (\<open>union.value(row)\<close>): a null, a struct with a
  \<open>value\<close> field, a struct with a list of wrappers.\<close>

fun delete_wrapper :: "(nat \<times> DataType) list \<Rightarrow> Value \<Rightarrow> DeleteWrapper" where
  "delete_wrapper children (VUnion i v) = (case map_of children i of
      Some (DtStruct fs) \<Rightarrow> (case v of
          VNested vs \<Rightarrow> (case find (\<lambda>(f, _). fst f = ''value'') (zip fs vs) of
              Some (f, x) \<Rightarrow> WrapScalar (snd f) x
            | None \<Rightarrow> (case fs of
                [(n, DtList _ (DtUnion inner))] \<Rightarrow> if n \<noteq> ''wrappedValues'' then WrapMalformed
                  else (case vs of
                      [VNested xs] \<Rightarrow> WrapList (Some (map (delete_wrapper inner) xs))
                    | _ \<Rightarrow> WrapList None)
              | _ \<Rightarrow> WrapMalformed))
        | _ \<Rightarrow> WrapNull)
    | _ \<Rightarrow> if v = VNull then WrapNull else WrapMalformed)"
| "delete_wrapper children v = (if v = VNull then WrapNull else WrapMalformed)"

definition delete_ordering_of :: "DataType \<times> Value list \<Rightarrow> DeleteOrdering" where
  "delete_ordering_of c = (case c of
      (DtUnion children, vs) \<Rightarrow> OrderingUnion (map (delete_wrapper children) vs)
    | (t, vs) \<Rightarrow> OrderingColumn t vs)"

section \<open>The content decoder\<close>

text \<open>What decoding calls outside: \<open>arrow-avro\<close>, HFile codecs, the Parquet reader with its row filter, the
  parsers of schema JSON, the schema of the delete list, and the conversion of values.\<close>

record ('s, 'd) content_env =
  ce_avro :: "('s, 'd) arrow_avro"
  ce_hfile :: hfile_codecs
  ce_parquet :: "nat \<Rightarrow> byte list \<Rightarrow> batch list result"
  ce_parse_avro :: "string \<Rightarrow> AvroSchema result"
  ce_arrow_schema :: "string \<Rightarrow> Schema result"
  ce_delete_schema_json :: string
  ce_convert :: convert

record Decoder =
  cd_batch_size :: nat
  cd_reader_schema_json :: "string option"
  cd_hfile_as_records :: bool
  cd_key_predicate :: "KeyPredicate option"

definition decoder_new :: Decoder where
  "decoder_new = \<lparr>cd_batch_size = 1024, cd_reader_schema_json = None, cd_hfile_as_records = False, cd_key_predicate = None\<rparr>"

text \<open>The last registered writer schema is kept between blocks.\<close>

type_synonym 's registered_cache = "(string \<times> 's RegisteredWriterSchema) option"

definition registered_for :: "('s, 'd) content_env \<Rightarrow> string \<Rightarrow> 's registered_cache \<Rightarrow>
    's RegisteredWriterSchema result \<times> 's registered_cache" where
  "registered_for ce json cache = (case cache of
      Some (j, reg) \<Rightarrow> if j = json then (Ok reg, cache)
        else (case registered_new (ce_avro ce) json of Inl e \<Rightarrow> (Err e, cache) | Inr r \<Rightarrow> (Ok r, Some (json, r)))
    | None \<Rightarrow> (case registered_new (ce_avro ce) json of Inl e \<Rightarrow> (Err e, cache) | Inr r \<Rightarrow> (Ok r, Some (json, r))))"

definition read_exact_bytes :: "nat \<Rightarrow> byte list \<Rightarrow> (byte list \<times> byte list) result" where
  "read_exact_bytes n bs = (if n \<le> length bs then Ok (take n bs, drop n bs) else Err EofError)"

definition validate_log_block_version :: "byte list \<Rightarrow> byte list result" where
  "validate_log_block_version bs = res_bind (read_exact_bytes 4 bs) (\<lambda>(v, rest).
     res_bind (log_block_version_of_u32 (be_nat v)) (\<lambda>version. if version \<noteq> BlockV3 then Err LogBlockError else Ok rest))"

text \<open>The reader schema the decoder resolves to, and the schema its batches are rewritten to.\<close>

definition resolution_schemas :: "('s, 'd) content_env \<Rightarrow> Decoder \<Rightarrow> string \<Rightarrow> block_metadata \<Rightarrow>
    (string option \<times> Schema option) result" where
  "resolution_schemas ce cd writer_json header =
     (let is_partial = (case header IsPartial of None \<Rightarrow> False | Some v \<Rightarrow> eq_ignore_ascii_case v ''true'') in
      case (if is_partial then None else cd_reader_schema_json cd) of
        None \<Rightarrow> Ok (None, None)
      | Some required_json \<Rightarrow>
          res_bind (ce_parse_avro ce writer_json) (\<lambda>writer. res_bind (ce_parse_avro ce required_json) (\<lambda>required.
          res_bind (record_needs_rewrite writer required) (\<lambda>rewrite.
            if rewrite then res_bind (ce_arrow_schema ce required_json) (\<lambda>target. Ok (None, Some target))
            else Ok (Some required_json, None)))))"

definition avro_decoder_for :: "('s, 'd) content_env \<Rightarrow> Decoder \<Rightarrow> string \<Rightarrow> block_metadata \<Rightarrow>
    's registered_cache \<Rightarrow> ('s, 'd) AvroBlockDecoder result \<times> 's registered_cache" where
  "avro_decoder_for ce cd writer_json header cache =
     (case resolution_schemas ce cd writer_json header of
        Inl e \<Rightarrow> (Err e, cache)
      | Inr (reader_json, rewrite_to) \<Rightarrow> (case registered_for ce writer_json cache of
          (Inl e, cache') \<Rightarrow> (Err e, cache')
        | (Inr reg, cache') \<Rightarrow>
            (res_bind (try_new_with_registered (ce_avro ce) reg reader_json (cd_batch_size cd)) (\<lambda>ad.
               Ok (case rewrite_to of None \<Rightarrow> ad | Some s \<Rightarrow> with_rewrite_to s ad)), cache')))"

text \<open>The bodies of an Avro block: each framed by its length in four bytes.\<close>

fun decode_framed :: "('s, 'd) arrow_avro \<Rightarrow> convert \<Rightarrow> nat \<Rightarrow> batch list \<Rightarrow> byte list \<Rightarrow> ('s, 'd) AvroBlockDecoder \<Rightarrow>
    batch list result" where
  "decode_framed aa conv 0 acc bs ad = flush_last aa conv acc ad"
| "decode_framed aa conv (Suc n) acc bs ad = res_bind (read_exact_bytes 4 bs) (\<lambda>(len, bs1).
     res_bind (read_exact_bytes (be_nat len) bs1) (\<lambda>(body, bs2).
     res_bind (ad_decode aa conv body ad) (\<lambda>(b, ad1).
       decode_framed aa conv n (case b of None \<Rightarrow> acc | Some x \<Rightarrow> acc @ [x]) bs2 ad1)))"

definition decode_avro_record_content :: "('s, 'd) content_env \<Rightarrow> Decoder \<Rightarrow> byte list \<Rightarrow> block_metadata \<Rightarrow>
    's registered_cache \<Rightarrow> LogBlockContent result \<times> 's registered_cache" where
  "decode_avro_record_content ce cd bs header cache =
     (case res_bind (validate_log_block_version bs) (\<lambda>bs1. res_bind (ok_or LogBlockError (header SchemaKey)) (\<lambda>json.
         res_bind (read_exact_bytes 4 bs1) (\<lambda>(cnt, bs2). Ok (json, be_nat cnt, bs2)))) of
        Inl e \<Rightarrow> (Err e, cache)
      | Inr (json, cnt, bs2) \<Rightarrow> (case avro_decoder_for ce cd json header cache of
          (Inl e, cache') \<Rightarrow> (Err e, cache')
        | (Inr ad, cache') \<Rightarrow> (res_bind (decode_framed (ce_avro ce) (ce_convert ce) cnt [] bs2 ad) (\<lambda>ds.
             Ok (Records ds [])), cache')))"

text \<open>The delete list: one datum, one row, one column of records.\<close>

definition delete_batch_of :: "DataType \<times> Value list \<Rightarrow> Value list \<Rightarrow> DeleteBatch" where
  "delete_batch_of ord_col keys = \<lparr>db_num_rows = length keys,
     db_keys = Some (map (\<lambda>v. case v of VStr s \<Rightarrow> Some s | _ \<Rightarrow> None) keys), db_ordering = delete_ordering_of ord_col\<rparr>"

definition field_index :: "(string \<times> DataType) list \<Rightarrow> string \<Rightarrow> nat result" where
  "field_index fs n = (case filter (\<lambda>i. fst (fs ! i) = n) [0 ..< length fs] of [] \<Rightarrow> Err LogBlockError | i # _ \<Rightarrow> Ok i)"

definition delete_records :: "batch \<Rightarrow> batch list \<times> DeleteBatch list \<Rightarrow> (batch list \<times> DeleteBatch list) result" where
  "delete_records b none = (case schema_index_of (b_schema b) ''deleteRecordList'' of
      None \<Rightarrow> Err LogBlockError
    | Some i \<Rightarrow> (case f_type (b_schema b ! i) of
        DtList _ (DtStruct fs) \<Rightarrow> (case struct_field (VNested (hd (b_rows b))) i of
            VNested records \<Rightarrow>
              if records = [] then Ok none
              else res_bind (field_index fs ''orderingVal'') (\<lambda>oi.
                res_bind (unwrap_ordering_values (snd (fs ! oi)) (map (\<lambda>r. struct_field r oi) records)) (\<lambda>ord_col.
                res_bind (field_index fs ''recordKey'') (\<lambda>ki. res_bind (field_index fs ''partitionPath'') (\<lambda>_.
                  Ok ([], [delete_batch_of ord_col (map (\<lambda>r. struct_field r ki) records)])))))
          | _ \<Rightarrow> Ok none)
      | _ \<Rightarrow> Err LogBlockError))"

definition decode_delete_record_content :: "('s, 'd) content_env \<Rightarrow> byte list \<Rightarrow> LogBlockContent result" where
  "decode_delete_record_content ce bs =
     res_bind (validate_log_block_version bs) (\<lambda>bs1. res_bind (read_exact_bytes 4 bs1) (\<lambda>(len, bs2).
     res_bind (read_exact_bytes (be_nat len) bs2) (\<lambda>(datum, _).
     res_bind (try_new_with_reader (ce_avro ce) (ce_delete_schema_json ce) None 1) (\<lambda>ad.
     res_bind (ad_decode (ce_avro ce) (ce_convert ce) datum ad) (\<lambda>(b1, ad1).
     res_bind (ad_flush (ce_avro ce) (ce_convert ce) ad1) (\<lambda>(b2, _).
       case (case b1 of Some b \<Rightarrow> Some b | None \<Rightarrow> b2) of
         None \<Rightarrow> Ok (Records [] [])
       | Some b \<Rightarrow> res_bind (delete_records b ([], [])) (\<lambda>(ds, dels). Ok (Records ds dels))))))))"

text \<open>The records of an HFile block: with a predicate only those of the blocks its keys can be in.\<close>

fun records_of_entries :: "hfile_codecs \<Rightarrow> HFileReader \<Rightarrow> KeyMatcher \<Rightarrow> HFileRecord list \<Rightarrow> BlockIndexEntry list \<Rightarrow>
    HFileRecord list result option" where
  "records_of_entries hc rd m acc [] = Some (Ok acc)"
| "records_of_entries hc rd m acc (e # es) = Option.bind (records_in_block hc rd e) (\<lambda>r. case r of
     Inl err \<Rightarrow> Some (Err err)
   | Inr rs \<Rightarrow> records_of_entries hc rd m
       (acc @ filter (\<lambda>x. case key_as_str x of None \<Rightarrow> False | Some k \<Rightarrow> matcher_admits m k) rs) es)"

definition decode_hfile_record_content :: "hfile_codecs \<Rightarrow> KeyPredicate option \<Rightarrow> byte list \<Rightarrow> HFileRecord list result option" where
  "decode_hfile_record_content hc pred bs =
     (if bs = [] then Some (Ok [])
      else case hfile_new hc bs of
        Inl _ \<Rightarrow> Some (Err HFileError)
      | Inr rd \<Rightarrow> (case pred of
          Some p \<Rightarrow> records_of_entries hc rd (key_matcher p) [] (blocks_for_predicate rd p)
        | None \<Rightarrow> map_option fst (hfile_records hc rd)))"

text \<open>The keys of a sequence of batches, by position.\<close>

fun fill_batches :: "batch list \<Rightarrow> string list \<Rightarrow> batch list result" where
  "fill_batches [] keys = Ok []"
| "fill_batches (b # bs) keys = (let rows = length (b_rows b) in
     if length keys < rows then Err LogBlockError
     else res_bind (fill_empty_entry_keys b (take rows keys)) (\<lambda>b'.
       res_bind (fill_batches bs (drop rows keys)) (\<lambda>bs'. Ok (b' # bs'))))"

definition entry_keys_of :: "error \<Rightarrow> HFileRecord list \<Rightarrow> string list result" where
  "entry_keys_of err rs = res_map (\<lambda>r. ok_or err (key_as_str r)) rs"

definition records_to_batches :: "('s, 'd) content_env \<Rightarrow> HFileRecord list \<Rightarrow> ('s, 'd) AvroBlockDecoder \<Rightarrow> LogBlockContent result" where
  "records_to_batches ce rs ad =
     res_bind (decode_bodies (ce_avro ce) (ce_convert ce) [] (map hr_value rs) ad) (\<lambda>(acc, ad1).
     res_bind (flush_last (ce_avro ce) (ce_convert ce) acc ad1) (\<lambda>decoded.
     res_bind (entry_keys_of LogBlockError rs) (\<lambda>keys.
     res_bind (fill_batches decoded keys) (\<lambda>ds. Ok (Records ds [])))))"

definition decode_hfile_content :: "('s, 'd) content_env \<Rightarrow> Decoder \<Rightarrow> byte list \<Rightarrow> block_metadata \<Rightarrow>
    's registered_cache \<Rightarrow> (LogBlockContent result \<times> 's registered_cache) option" where
  "decode_hfile_content ce cd bs header cache =
     map_option (\<lambda>res. case res of
         Inl e \<Rightarrow> (Err e, cache)
       | Inr rs \<Rightarrow>
           if \<not> cd_hfile_as_records cd then (Ok (HFileRecords (map (\<lambda>r. (hr_key r, hr_value r)) rs)), cache)
           else (case header SchemaKey of
               None \<Rightarrow> (Err LogBlockError, cache)
             | Some json \<Rightarrow> (case avro_decoder_for ce cd json header cache of
                 (Inl e, cache') \<Rightarrow> (Err e, cache')
               | (Inr ad, cache') \<Rightarrow> (records_to_batches ce rs ad, cache'))))
       (decode_hfile_record_content (ce_hfile ce) (cd_key_predicate cd) bs)"

definition decode_parquet_record_content :: "('s, 'd) content_env \<Rightarrow> Decoder \<Rightarrow> byte list \<Rightarrow> LogBlockContent result" where
  "decode_parquet_record_content ce cd bs =
     res_bind (ce_parquet ce (cd_batch_size cd) bs) (\<lambda>ds. Ok (Records ds []))"

text \<open>The content of a block: its length where the format has it, then the decoder of its type.
  \<open>None\<close> stands for a walk over an HFile that does not end.\<close>

definition decode_content :: "('s, 'd) content_env \<Rightarrow> Decoder \<Rightarrow> byte list \<Rightarrow> LogFormatVersion \<Rightarrow> nat \<Rightarrow> BlockType \<Rightarrow>
    block_metadata \<Rightarrow> 's registered_cache \<Rightarrow> (LogBlockContent result \<times> 's registered_cache) option" where
  "decode_content ce cd bs version fallback_length block_type header cache =
     (case (if has_content_length version
            then res_bind (read_exact_bytes 8 bs) (\<lambda>(len, rest). Ok (take (be_nat len) rest))
            else Ok (take fallback_length bs)) of
        Inl e \<Rightarrow> Some (Err e, cache)
      | Inr content \<Rightarrow> (case block_type of
          AvroData \<Rightarrow> Some (decode_avro_record_content ce cd content header cache)
        | ParquetData \<Rightarrow> Some (decode_parquet_record_content ce cd content, cache)
        | DeleteBlock \<Rightarrow> Some (decode_delete_record_content ce content, cache)
        | HfileData \<Rightarrow> decode_hfile_content ce cd content header cache
        | Command \<Rightarrow> Some (Ok EmptyContent, cache)
        | _ \<Rightarrow> Some (Err LogBlockError, cache)))"

end
