(* ===== verification/HFile_Base.thy ===== *)
theory HFile_Base
  imports Block_Content File_Pruning
begin

text \<open>
  HFile base files as record batches (\<open>base_file/hfile.rs\<close>, with the options and the whole-file read
  of \<open>base_file/reader.rs\<close>): opening by size, the row count from the trailer, the blocks of a key
  predicate in windows, each window decoded to one batch, and the stream of those batches, which
  ends at its first failure. A stream is the list of its items; asynchronous calls are sequential.
\<close>

section \<open>Batches\<close>

text \<open>\<open>concat_batches\<close>: columns of one type each, end to end.\<close>

definition concat_batches :: "Schema \<Rightarrow> batch list \<Rightarrow> batch result" where
  "concat_batches s bs =
     (if \<not> list_all (\<lambda>b. map f_type (b_schema b) = map f_type s) bs then Err ArrowError
      else let rows = concat (map b_rows bs) in
        if list_ex (\<lambda>r. list_ex (\<lambda>(f, v). \<not> f_nullable f \<and> v = VNull) (zip s r)) rows then Err ArrowError
        else Ok \<lparr>b_ptr = 0, b_schema = s, b_rows = rows\<rparr>)"

definition project_batch_by_names :: "batch \<Rightarrow> string list option \<Rightarrow> batch result" where
  "project_batch_by_names b projection = (case projection of
      None \<Rightarrow> Ok b
    | Some names \<Rightarrow> res_bind (res_map (\<lambda>n. ok_or SchemaError (schema_index_of (b_schema b) n)) names) (\<lambda>is.
        Ok (b\<lparr>b_schema := map ((!) (b_schema b)) is, b_rows := map (\<lambda>r. map ((!) r) is) (b_rows b)\<rparr>)))"

section \<open>Options\<close>

text \<open>The options the HFile reader honours.\<close>

record BaseFileReadOptions =
  ro_projection :: "string list option"
  ro_known_file_size :: "nat option"
  ro_key_predicate :: "KeyPredicate option"

definition HFILE_WHOLE_READ_WITH_KEYS_MAX_SIZE :: nat where
  "HFILE_WHOLE_READ_WITH_KEYS_MAX_SIZE = 512 * 1024"

definition DEFAULT_WINDOW_BUDGET_FALLBACK :: nat where "DEFAULT_WINDOW_BUDGET_FALLBACK = 16 * 1024 * 1024"

definition DECODE_BATCH_SIZE :: nat where "DECODE_BATCH_SIZE = 1024"

section \<open>The reader\<close>

text \<open>Errors of the HFile reader and of the decoder surface as storage errors.\<close>

definition storage_err :: "'a result \<Rightarrow> 'a result" where
  "storage_err r = (case r of Inl e \<Rightarrow> if e = Panic then Err Panic else Err StorageError | Inr x \<Rightarrow> Ok x)"

definition decoded_schema :: "('s, 'd) content_env \<Rightarrow> HFileReader \<Rightarrow>
    (Schema \<times> ('s, 'd) AvroBlockDecoder \<times> 's RegisteredWriterSchema) result" where
  "decoded_schema ce rd =
     res_bind (storage_err (avro_schema_json rd)) (\<lambda>j. res_bind (ok_or StorageError j) (\<lambda>json.
     res_bind (storage_err (registered_new (ce_avro ce) json)) (\<lambda>reg.
     res_bind (storage_err (try_new_with_registered (ce_avro ce) reg None DECODE_BATCH_SIZE)) (\<lambda>ad.
       Ok (ad_schema (ce_avro ce) ad, ad, reg)))))"

definition project_schema :: "Schema \<Rightarrow> string list option \<Rightarrow> Schema result" where
  "project_schema full projection = (case projection of
      None \<Rightarrow> Ok full
    | Some names \<Rightarrow> res_map (\<lambda>n. ok_or StorageError (field_of full n)) names)"

definition base_open :: "('s, 'd) content_env \<Rightarrow> hfile_storage \<Rightarrow> string \<Rightarrow> BaseFileReadOptions \<Rightarrow> HFileReader result" where
  "base_open ce st path opts =
     res_bind (storage_err (hfile_whole_read_max_size (hs_options st))) (\<lambda>max_size.
     let whole_below = (if ro_key_predicate opts \<noteq> None then min max_size HFILE_WHOLE_READ_WITH_KEYS_MAX_SIZE else max_size)
     in storage_err (open_sized (ce_hfile ce) st path whole_below (ro_known_file_size opts)))"

text \<open>One window: its records, those the predicate admits, decoded, given their keys, projected. The
  first window decodes through the decoder the schema came from.\<close>

definition decode_records :: "('s, 'd) content_env \<Rightarrow> Schema \<Rightarrow> string list option \<Rightarrow> ('s, 'd) AvroBlockDecoder option \<Rightarrow>
    's RegisteredWriterSchema \<Rightarrow> HFileRecord list \<Rightarrow> batch result" where
  "decode_records ce full projection decoder reg records =
     res_bind (case decoder of Some ad \<Rightarrow> Ok ad
       | None \<Rightarrow> storage_err (try_new_with_registered (ce_avro ce) reg None DECODE_BATCH_SIZE)) (\<lambda>ad.
     res_bind (storage_err (decode_bodies (ce_avro ce) (ce_convert ce) [] (map hr_value records) ad)) (\<lambda>(acc, ad1).
     res_bind (storage_err (flush_last (ce_avro ce) (ce_convert ce) acc ad1)) (\<lambda>batches.
     let schema = (case batches of b # _ \<Rightarrow> b_schema b | [] \<Rightarrow> full) in
     res_bind (storage_err (concat_batches schema batches)) (\<lambda>combined.
     res_bind (entry_keys_of StorageError records) (\<lambda>keys.
     res_bind (storage_err (fill_empty_entry_keys combined keys)) (\<lambda>filled.
       storage_err (project_batch_by_names filled projection)))))))"

definition decode_window :: "('s, 'd) content_env \<Rightarrow> HFileReader \<Rightarrow> BlockIndexEntry list \<Rightarrow> Schema \<Rightarrow> string list option \<Rightarrow>
    KeyPredicate option \<Rightarrow> ('s, 'd) AvroBlockDecoder option \<Rightarrow> 's RegisteredWriterSchema \<Rightarrow> batch result option" where
  "decode_window ce rd window full projection predicate decoder reg =
     map_option (\<lambda>res. res_bind (storage_err res) (\<lambda>records.
       decode_records ce full projection decoder reg (case predicate of
           None \<Rightarrow> records
         | Some p \<Rightarrow> filter (\<lambda>r. case key_as_str r of None \<Rightarrow> False | Some k \<Rightarrow> matcher_admits (key_matcher p) k) records)))
       (read_records_batched (ce_hfile ce) rd window)"

text \<open>The items of the stream, up to the first failure.\<close>

fun stream_windows :: "(BlockIndexEntry list \<Rightarrow> ('s, 'd) AvroBlockDecoder option \<Rightarrow> batch result option) \<Rightarrow>
    BlockIndexEntry list list \<Rightarrow> ('s, 'd) AvroBlockDecoder option \<Rightarrow> batch result list option" where
  "stream_windows decode [] decoder = Some []"
| "stream_windows decode (w # ws) decoder = Option.bind (decode w decoder) (\<lambda>item. case item of
     Inl e \<Rightarrow> Some [Err e]
   | Inr b \<Rightarrow> map_option ((#) (Ok b)) (stream_windows decode ws None))"

definition stream_from :: "('s, 'd) content_env \<Rightarrow> HFileReader \<Rightarrow> BaseFileReadOptions \<Rightarrow>
    (Schema \<times> batch result list) result option" where
  "stream_from ce rd opts =
     (if ro_key_predicate opts = None \<and> ro_projection opts = Some []
      then Some (Ok ([], [Ok \<lparr>b_ptr = 0, b_schema = [], b_rows = replicate (num_entries rd) []\<rparr>]))
      else case res_bind (decoded_schema ce rd) (\<lambda>(full, ad, reg).
          res_bind (project_schema full (ro_projection opts)) (\<lambda>schema. Ok (full, ad, reg, schema))) of
        Inl e \<Rightarrow> Some (Err e)
      | Inr (full, ad, reg, schema) \<Rightarrow>
          let budget = (case hfile_window_budget rd of None \<Rightarrow> DEFAULT_WINDOW_BUDGET_FALLBACK | Some b \<Rightarrow> b);
              entries = (case ro_key_predicate opts of Some p \<Rightarrow> blocks_for_predicate rd p | None \<Rightarrow> hf_data_block_entries rd)
          in map_option (\<lambda>items. Ok (schema, items))
               (stream_windows (\<lambda>w decoder. decode_window ce rd w full (ro_projection opts) (ro_key_predicate opts) decoder reg)
                 (plan_windows entries budget) (Some ad)))"

definition read_stream :: "('s, 'd) content_env \<Rightarrow> hfile_storage \<Rightarrow> string \<Rightarrow> BaseFileReadOptions \<Rightarrow>
    (Schema \<times> batch result list) result option" where
  "read_stream ce st path opts = (case base_open ce st path opts of
      Inl e \<Rightarrow> Some (Err e) | Inr rd \<Rightarrow> stream_from ce rd opts)"

text \<open>\<open>read_data\<close>: the whole stream as one batch.\<close>

definition read_data :: "('s, 'd) content_env \<Rightarrow> hfile_storage \<Rightarrow> string \<Rightarrow> BaseFileReadOptions \<Rightarrow> batch result option" where
  "read_data ce st path opts = map_option (\<lambda>r. res_bind r (\<lambda>(schema, items).
     res_bind (res_map (\<lambda>x. x) items) (\<lambda>batches.
       if batches = [] then Ok \<lparr>b_ptr = 0, b_schema = schema, b_rows = []\<rparr> else concat_batches schema batches)))
     (read_stream ce st path opts)"

definition read_schema :: "('s, 'd) content_env \<Rightarrow> hfile_storage \<Rightarrow> string \<Rightarrow> Schema result option" where
  "read_schema ce st path = map_option (\<lambda>r. res_bind r (\<lambda>(schema, items). Ok schema))
     (read_stream ce st path \<lparr>ro_projection = None, ro_known_file_size = None, ro_key_predicate = None\<rparr>)"

section \<open>Metadata\<close>

text \<open>\<open>Path::file_name\<close>.\<close>

definition hfile_path_name :: "string \<Rightarrow> string" where
  "hfile_path_name path = (case rev (filter (\<lambda>c. c \<noteq> [] \<and> c \<noteq> ''.'') (split_on (CHR ''/'') path)) of
      [] \<Rightarrow> path | c # _ \<Rightarrow> if c = ''..'' then path else c)"

definition get_metadata_and_stats :: "('s, 'd) content_env \<Rightarrow> hfile_storage \<Rightarrow> string \<Rightarrow>
    (FileMetadata \<times> StatisticsContainer) result" where
  "get_metadata_and_stats ce st path =
     res_bind (storage_err (open_ranged (ce_hfile ce) st path)) (\<lambda>rd.
     let n = (if num_entries rd < 2 ^ 63 then int (num_entries rd) else 2 ^ 63 - 1);
         m = (file_metadata_new (hfile_path_name path) (hfile_len rd))\<lparr>fm_num_records := n\<rparr>
     in Ok (m, \<lparr>sc_granularity = GranularityFile, sc_num_rows = Some n, sc_columns = Map.empty\<rparr>))"

end
