(* ===== verification/HFile_Predicate.thy ===== *)
theory HFile_Predicate
  imports HFile_Select
begin

text \<open>
  Key predicates over a laid-out file, read whole or in ranges: the selected blocks are fetched and
  their records, filtered, are the admitted records of the file.
\<close>

section \<open>The order of the keys of a laid-out file\<close>

fun weakly_separated :: "(byte list \<times> byte list \<times> hkv list) list \<Rightarrow> bool" where
  "weakly_separated [] = True"
| "weakly_separated ((c, x, rs) # bs) = (list_all (\<lambda>r. c \<le> hk_content r) rs \<and>
     list_all (\<lambda>(c', x', rs'). list_all (\<lambda>r. hk_content r \<le> c') rs) bs \<and> weakly_separated bs)"

text \<open>Copies of a key may end one block and start the next, whose index key is then the key itself; for
  prefixes they may not.\<close>

definition image_in_order :: "KeyPredicate \<Rightarrow> file_image \<Rightarrow> bool" where
  "image_in_order p im \<longleftrightarrow> (case p of
     PredicateKeys _ \<Rightarrow> weakly_separated (fi_blocks im) | PredicatePrefixes _ \<Rightarrow> separated (fi_blocks im))"

lemma weakly_separated_split:
  "weakly_separated (before @ (c, x, rs) # after) \<Longrightarrow> (\<forall>r\<in>set rs. c \<le> hk_content r) \<and>
     (\<forall>(c', x', rs')\<in>set before. \<forall>r\<in>set rs'. hk_content r \<le> c)"
  by (induction before) (fastforce simp: list_all_iff)+

lemma image_keys_in_order:
  assumes "hfile_ok hc im tp pairs" "image_in_order p im"
  shows "keys_in_order p (image_blocks im)"
proof (cases p)
  case (PredicateKeys keys)
  have "grouped (image_blocks im)"
    unfolding grouped_def
  proof (intro allI impI)
    fix before e rs after
    assume "image_blocks im = before @ (e, rs) # after"
    then obtain before' x after' where s: "fi_blocks im = before' @ (entry_content e, x, rs) # after'"
      "file_records before = concat (map (\<lambda>(c, x, rs). rs) before')" using image_blocks_split [OF assms(1)] by metis
    then have "weakly_separated (before' @ (entry_content e, x, rs) # after')"
      using assms(2) PredicateKeys by (simp add: image_in_order_def)
    from weakly_separated_split [OF this] show "(\<forall>r\<in>set rs. entry_content e \<le> hk_content r) \<and>
        (\<forall>r\<in>set (file_records before). hk_content r \<le> entry_content e)"
      unfolding s(2) by fastforce
  qed
  then show ?thesis using PredicateKeys by (simp add: keys_in_order_def)
next
  case (PredicatePrefixes pres)
  have "split_keys (image_blocks im)"
    unfolding split_keys_def
  proof (intro allI impI)
    fix before e rs after
    assume "image_blocks im = before @ (e, rs) # after"
    then obtain before' x after' where s: "fi_blocks im = before' @ (entry_content e, x, rs) # after'"
      "file_records before = concat (map (\<lambda>(c, x, rs). rs) before')" using image_blocks_split [OF assms(1)] by metis
    then have "separated (before' @ (entry_content e, x, rs) # after')"
      using assms(2) PredicatePrefixes by (simp add: image_in_order_def)
    from separated_split [OF this] show "(\<forall>r\<in>set rs. entry_content e \<le> hk_content r) \<and>
        (\<forall>r\<in>set (file_records before). hk_content r < entry_content e)"
      unfolding s(2) by fastforce
  qed
  then show ?thesis using PredicatePrefixes by (simp add: keys_in_order_def)
qed

section \<open>The index lists the blocks\<close>

lemma block_entries_offsets:
  "\<forall>(o1, sz, kb)\<in>set (block_entries off bs). off \<le> o1"
  "sorted_wrt (<) (map fst (block_entries off bs))"
  by (induction off bs rule: block_entries.induct) (fastforce simp: Let_def)+

lemma offset_map_ok: "bm_ok (offset_map (image_blocks im))"
proof -
  have "map fst (offset_map (image_blocks im)) = map ie_offset (map fst (image_blocks im))"
    by (simp add: offset_map_def case_prod_beta)
  also have "map fst (image_blocks im) = link_entries (raw_entries im)"
    by (simp add: image_blocks_def link_entries_simps)
  also have "map ie_offset (link_entries (raw_entries im)) = map ie_offset (raw_entries im)" by (simp only: link_entries_simps)
  also have "\<dots> = map fst (block_entries 0 (fi_blocks im))" by (simp add: raw_entries_def entry_new_def case_prod_beta)
  finally show ?thesis using block_entries_offsets(2) [of 0 "fi_blocks im"] by (simp add: bm_ok_def)
qed

lemma image_index_lists:
  assumes "hfile_ok hc im tp pairs"
  shows "index_lists (image_reader s im tp pairs m) (image_blocks im)"
  using image_file_holds [OF assms, of m] offset_map_ok by (simp add: index_lists_def file_holds_def)

section \<open>Fetching blocks\<close>

definition image_hblock :: "hkv list \<Rightarrow> HFileBlock" where
  "image_hblock rs = \<lparr>hb_header = image_header BtData (encode_block rs), hb_data = encode_block rs\<rparr>"

lemma image_block_slice:
  assumes "hfile_ok hc im tp pairs" "(e, rs) \<in> set (image_blocks im)"
  shows "take (ie_size e) (drop (ie_offset e) (image_bytes im)) = hblock_image BtData (encode_block rs)"
    "ie_offset e + ie_size e \<le> length (image_bytes im)" "ie_offset e + ie_size e < 2 ^ 62"
    "list_all hkv_ok rs" "length (encode_block rs) < 2 ^ 30"
proof -
  have ok: "blocks_ok (fi_blocks im)" "sizes_ok im" using assms(1) by (simp_all add: hfile_ok_def)
  obtain i where i: "i < length (fi_blocks im)" "image_blocks im ! i = (e, rs)"
    using assms(2) by (auto simp: in_set_conv_nth image_blocks_def link_entries_simps)
  obtain c x rs' where f: "fi_blocks im ! i = (c, x, rs')" by (metis prod_cases3)
  obtain pre post where p: "data_image (fi_blocks im) = pre @ hblock_image BtData (encode_block rs) @ post"
    "rs' = rs" "ie_offset e = length pre" "ie_size e = 33 + length (encode_block rs)"
    using image_blocks_nth [OF i(1) f] i(2) by (metis prod.inject)
  have bytes: "image_bytes im = pre @ hblock_image BtData (encode_block rs) @ post @ hblock_image BtRootIndex (root_image im) @
      hblock_image BtRootIndex (index_image (fi_meta im)) @ hblock_image BtFileInfo (info_image im) @ trailer_image (fi_proto im)"
    using p(1) by (simp add: image_bytes_def)
  show "take (ie_size e) (drop (ie_offset e) (image_bytes im)) = hblock_image BtData (encode_block rs)"
    unfolding bytes p(3,4) by simp
  show le: "ie_offset e + ie_size e \<le> length (image_bytes im)" unfolding bytes p(3,4) by simp
  show "ie_offset e + ie_size e < 2 ^ 62" using le ok(2) by (simp add: sizes_ok_def)
  show "list_all hkv_ok rs" "length (encode_block rs) < 2 ^ 30"
    using ok(1) nth_mem [OF i(1)] f p(2) by (auto simp: blocks_ok_def list_all_iff)
qed

text \<open>The source gives the bytes of the file, whole or through a fetcher.\<close>

definition source_of :: "file_image \<Rightarrow> Source \<Rightarrow> bool" where
  "source_of im s \<longleftrightarrow> s = Whole (image_bytes im) \<or> (\<exists>ft budget. s = image_source ft im budget \<and> serves_file ft (image_bytes im))"

lemma res_map_on: "(\<And>x. x \<in> set xs \<Longrightarrow> f (h x) = Ok (g x)) \<Longrightarrow> res_map f (map h xs) = Ok (map g xs)"
  by (induction xs) auto

lemma fetch_image_blocks:
  assumes "hfile_ok hc im tp pairs" "source_of im s" "set sel \<subseteq> set (image_blocks im)"
  shows "fetch_blocks hc (image_reader s im tp pairs m) (map fst sel) = Ok (map (\<lambda>(e, rs). image_hblock rs) sel)"
proof -
  have parse: "hblock_parse (hc_gunzip hc) (hblock_image BtData (encode_block rs)) Uncompressed = Ok (image_hblock rs)"
    if "(e, rs) \<in> set sel" for e rs
    using hblock_parse_image [of "encode_block rs" "hc_gunzip hc" BtData "[]"] image_block_slice(5) [OF assms(1)] assms(3) that
    by (auto simp: image_hblock_def)
  consider (whole) "s = Whole (image_bytes im)"
    | (ranged) ft budget where "s = image_source ft im budget" "serves_file ft (image_bytes im)"
    using assms(2) by (auto simp: source_of_def)
  then show ?thesis
  proof cases
    case whole
    have "read_block_at hc (image_reader s im tp pairs m) (ie_offset e) (ie_size e) = Ok (image_hblock rs)"
      if mem: "(e, rs) \<in> set sel" for e rs
    proof -
      have blk: "(e, rs) \<in> set (image_blocks im)" using assms(3) mem by auto
      note sl = image_block_slice [OF assms(1) blk]
      have "uadd (ie_offset e) (ie_size e) = ie_offset e + ie_size e" using sl(3) by simp
      then have "slice (image_bytes im) (ie_offset e) (uadd (ie_offset e) (ie_size e)) = Ok (hblock_image BtData (encode_block rs))"
        using sl(1,2) by (simp add: slice_def)
      then show ?thesis using parse [OF mem] whole by (simp add: read_block_at_def resident_range_def)
    qed
    then have "res_map (\<lambda>e. read_block_at hc (image_reader s im tp pairs m) (ie_offset e) (ie_size e)) (map fst sel) =
        Ok (map (\<lambda>(e, rs). image_hblock rs) sel)"
      by (intro res_map_on) auto
    then show ?thesis using whole by (simp add: fetch_blocks_def)
  next
    case ranged
    have bounds: "uadd (ie_offset e) (ie_size e) = ie_offset e + ie_size e \<and> ie_offset e + ie_size e \<le> length (image_bytes im) \<and>
        take (ie_size e) (drop (ie_offset e) (image_bytes im)) = hblock_image BtData (encode_block rs)"
      if "(e, rs) \<in> set sel" for e rs
      using image_block_slice [OF assms(1), of e rs] assms(3) that by auto
    let ?ranges = "map (\<lambda>e. (ie_offset e, uadd (ie_offset e) (ie_size e))) (map fst sel)"
    have "\<forall>(a, b)\<in>set ?ranges. a \<le> b \<and> b \<le> length (image_bytes im)" using bounds by fastforce
    then have "bf_ranges ft ?ranges = Ok (map (\<lambda>(a, b). take (b - a) (drop a (image_bytes im))) ?ranges)"
      using ranged(2) by (simp add: serves_file_def)
    also have "map (\<lambda>(a, b). take (b - a) (drop a (image_bytes im))) ?ranges = map (\<lambda>(e, rs). hblock_image BtData (encode_block rs)) sel"
      unfolding map_map comp_def case_prod_beta
    proof (rule map_cong [OF refl])
      fix x assume "x \<in> set sel"
      then show "take (snd (ie_offset (fst x), uadd (ie_offset (fst x)) (ie_size (fst x))) - fst (ie_offset (fst x), uadd (ie_offset (fst x)) (ie_size (fst x))))
          (drop (fst (ie_offset (fst x), uadd (ie_offset (fst x)) (ie_size (fst x)))) (image_bytes im)) = hblock_image BtData (encode_block (snd x))"
        using bounds [of "fst x" "snd x"] by simp
    qed
    finally have "bf_ranges ft ?ranges = Ok (map (\<lambda>(e, rs). hblock_image BtData (encode_block rs)) sel)" .
    moreover have "res_map (\<lambda>bs. hblock_parse (hc_gunzip hc) bs Uncompressed) (map (\<lambda>(e, rs). hblock_image BtData (encode_block rs)) sel) =
        Ok (map (\<lambda>(e, rs). image_hblock rs) sel)"
      using parse by (intro res_map_on) auto
    ultimately show ?thesis using ranged(1) by (simp add: fetch_blocks_def image_source_def Let_def comp_def)
  qed
qed

lemma records_of_image_blocks:
  assumes "\<forall>(e, rs)\<in>set sel. list_all hkv_ok rs \<and> length (encode_block rs) < 2 ^ 30"
  shows "records_of_blocks acc (map (\<lambda>(e, rs). image_hblock rs) sel) = Some (Ok (acc @ map hkv_record (file_records sel)))"
  using assms
proof (induction sel arbitrary: acc)
  case (Cons x sel)
  obtain e rs where x: "x = (e, rs)" by (cases x)
  have "block_holds (data_block_from (image_hblock rs)) rs"
    using Cons.prems x by (simp add: image_hblock_def block_holds_image)
  then have "block_records_from (data_block_from (image_hblock rs)) acc 0 = Some (Ok (acc @ map hkv_record rs))"
    using block_records [of "data_block_from (image_hblock rs)" "[]" rs acc] by simp
  moreover have "expect_type BtData (image_hblock rs) = Ok (image_hblock rs)" by (simp add: image_hblock_def expect_type_image)
  ultimately show ?case using Cons.IH [of "acc @ map hkv_record rs"] Cons.prems x by simp
qed simp

lemma read_image_blocks:
  assumes "hfile_ok hc im tp pairs" "source_of im s" "set sel \<subseteq> set (image_blocks im)"
  shows "read_records_batched hc (image_reader s im tp pairs m) (map fst sel) = Some (Ok (map hkv_record (file_records sel)))"
proof -
  have "\<forall>(e, rs)\<in>set sel. list_all hkv_ok rs \<and> length (encode_block rs) < 2 ^ 30"
    using image_block_slice(4,5) [OF assms(1)] assms(3) by blast
  then show ?thesis
    using fetch_image_blocks [OF assms, of m] records_of_image_blocks [of sel "[]"] by (simp add: read_records_batched_def)
qed

text \<open>The blocks of a predicate, in file order, and what reading and filtering them yields.\<close>

lemma predicate_blocks:
  assumes "hfile_ok hc im tp pairs" "image_in_order p im"
  obtains sel where "blocks_for_predicate (image_reader s im tp pairs m) p = map fst sel" "set sel \<subseteq> set (image_blocks im)"
    "filter (record_admitted p) (map hkv_record (file_records sel)) = filter (record_admitted p) (map hkv_record (image_records im))"
proof -
  obtain mp where mp: "blocks_for_predicate (image_reader s im tp pairs m) p = map snd mp" "picks (image_blocks im) mp"
    "index_covers mp (image_blocks im) (\<lambda>r. record_admitted p (hkv_record r))"
    using blocks_for_predicate_covers [OF image_index_lists [OF assms(1)] image_keys_in_order [OF assms]] by metis
  let ?sel = "chosen (image_blocks im) mp"
  have "filter (record_admitted p) (map hkv_record (file_records ?sel)) = filter (record_admitted p) (map hkv_record (image_records im))"
    using chosen_filter [OF mp(3)] by (simp add: filter_map comp_def file_records_image)
  moreover have "set ?sel \<subseteq> set (image_blocks im)" by (auto simp: chosen_def)
  ultimately show thesis using that mp(1) chosen_entries [OF mp(2)] by metis
qed

end
