(* ===== verification/Block_Content_Facts.thy ===== *)
theory Block_Content_Facts
  imports Block_Content HFile_Predicate
begin

text \<open>
  What decoding the content of a block yields: the rows of its Avro bodies in order, whatever the batch
  size; for an HFile block with a key predicate, the admitted records; and the same results whether
  or not the writer schema was registered before.
\<close>

section \<open>The rows of Avro bodies\<close>

text \<open>What \<open>arrow-avro\<close> promises of a writer schema, a reader schema and a batch size: a decoder holds the
  rows of the bodies decoded since it was built, is full at the batch size, and hands its rows out
  when drained. After a drain only a fresh decoder is relied on.\<close>

record 'd avro_rows =
  ar_schema :: Schema
  ar_valid :: "byte list \<Rightarrow> bool"
  ar_row :: "byte list \<Rightarrow> Value list"
  ar_holds :: "'d \<Rightarrow> Value list list \<Rightarrow> bool"

definition decodes_rows :: "('s, 'd) arrow_avro \<Rightarrow> 'd avro_rows \<Rightarrow> byte list \<Rightarrow> nat \<Rightarrow> bool" where
  "decodes_rows aa ar pre n \<longleftrightarrow>
     (\<forall>d rows body. ar_holds ar d rows \<longrightarrow> ar_valid ar body \<longrightarrow> length rows < n \<longrightarrow>
        (\<exists>d'. aa_decode aa d (pre @ body) = Ok (length (pre @ body), d') \<and> ar_holds ar d' (rows @ [ar_row ar body]) \<and>
          (aa_is_full aa d' \<longleftrightarrow> Suc (length rows) = n))) \<and>
     (\<forall>d rows. ar_holds ar d rows \<longrightarrow> (\<exists>b d'. aa_flush aa d = Ok (b, d') \<and>
        (case b of None \<Rightarrow> rows = [] | Some x \<Rightarrow> b_schema x = ar_schema ar \<and> b_rows x = rows)))"

definition avro_sound :: "('s, 'd) arrow_avro \<Rightarrow> 'd avro_rows \<Rightarrow> string \<Rightarrow> string option \<Rightarrow> nat \<Rightarrow> bool" where
  "avro_sound aa ar json reader_json n \<longleftrightarrow> 0 < n \<and> (\<exists>store rabin d. aa_register aa json = Ok (store, Rabin rabin) \<and>
     aa_build aa store (Rabin rabin) reader_json n = Ok d \<and> ar_holds ar d [] \<and> aa_schema aa d = ar_schema ar \<and>
     decodes_rows aa ar (record_prefix rabin) n)"

text \<open>A decoder that holds some rows.\<close>

definition decoder_holds :: "('s, 'd) arrow_avro \<Rightarrow> 'd avro_rows \<Rightarrow> nat \<Rightarrow> Value list list \<Rightarrow> ('s, 'd) AvroBlockDecoder \<Rightarrow> bool" where
  "decoder_holds aa ar n rows ad \<longleftrightarrow> ar_holds ar (ad_decoder ad) rows \<and> length rows < n \<and> ad_rewrite_to ad = None \<and>
     decodes_rows aa ar (ad_prefix ad) n \<and>
     (\<exists>d. build_inner aa (ad_registered ad) (ad_reader_schema_json ad) (ad_batch_size ad) = Ok d \<and> ar_holds ar d [])"

lemma flush_rows:
  assumes "decoder_holds aa ar n rows ad"
  shows "\<exists>b ad'. ad_flush aa conv ad = Ok (b, ad') \<and>
    (case b of None \<Rightarrow> rows = [] | Some x \<Rightarrow> b_schema x = ar_schema ar \<and> b_rows x = rows)"
proof -
  obtain b d' where "aa_flush aa (ad_decoder ad) = Ok (b, d')"
    "case b of None \<Rightarrow> rows = [] | Some x \<Rightarrow> b_schema x = ar_schema ar \<and> b_rows x = rows"
    using assms unfolding decoder_holds_def decodes_rows_def by blast
  then show ?thesis using assms by (cases b) (auto simp: ad_flush_def decoder_holds_def)
qed

definition sized_batches :: "'d avro_rows \<Rightarrow> nat \<Rightarrow> batch list \<Rightarrow> bool" where
  "sized_batches ar n bs \<longleftrightarrow> list_all (\<lambda>b. b_schema b = ar_schema ar \<and> 0 < length (b_rows b) \<and> length (b_rows b) \<le> n) bs"

lemma decode_rows:
  assumes "decoder_holds aa ar n rows ad" "ar_valid ar body"
  shows "\<exists>b ad' rows'. ad_decode aa conv body ad = Ok (b, ad') \<and> decoder_holds aa ar n rows' ad' \<and>
    (case b of None \<Rightarrow> rows' = rows @ [ar_row ar body]
       | Some x \<Rightarrow> sized_batches ar n [x] \<and> b_rows x = rows @ [ar_row ar body] \<and> rows' = [])"
proof -
  obtain d' where d': "aa_decode aa (ad_decoder ad) (ad_prefix ad @ body) = Ok (length (ad_prefix ad @ body), d')"
    "ar_holds ar d' (rows @ [ar_row ar body])" "aa_is_full aa d' \<longleftrightarrow> Suc (length rows) = n"
    using assms unfolding decoder_holds_def decodes_rows_def by blast
  obtain b d'' where f: "aa_flush aa d' = Ok (b, d'')"
    "case b of None \<Rightarrow> rows @ [ar_row ar body] = [] | Some x \<Rightarrow> b_schema x = ar_schema ar \<and> b_rows x = rows @ [ar_row ar body]"
    using assms(1) d'(2) unfolding decoder_holds_def decodes_rows_def by blast
  then obtain x where x: "b = Some x" "b_schema x = ar_schema ar" "b_rows x = rows @ [ar_row ar body]" by (cases b) auto
  obtain d0 where d0: "build_inner aa (ad_registered ad) (ad_reader_schema_json ad) (ad_batch_size ad) = Ok d0" "ar_holds ar d0 []"
    using assms(1) by (auto simp: decoder_holds_def)
  have n: "length rows < n" "ad_rewrite_to ad = None" using assms(1) by (simp_all add: decoder_holds_def)
  show ?thesis
  proof (cases "Suc (length rows) = n")
    case True
    then have "ad_decode aa conv body ad = Ok (Some x, ad\<lparr>ad_decoder := d0\<rparr>)"
      using d' f x d0 n by (simp add: ad_decode_def ad_flush_def Let_def)
    moreover have "decoder_holds aa ar n [] (ad\<lparr>ad_decoder := d0\<rparr>)" using assms(1) d0 n by (simp add: decoder_holds_def)
    moreover have "sized_batches ar n [x]" using x True by (simp add: sized_batches_def)
    ultimately show ?thesis using x(3) by (metis (mono_tags, lifting) option.simps(5))
  next
    case False
    then have "ad_decode aa conv body ad = Ok (None, ad\<lparr>ad_decoder := d'\<rparr>)"
      using d' by (simp add: ad_decode_def Let_def)
    moreover have "decoder_holds aa ar n (rows @ [ar_row ar body]) (ad\<lparr>ad_decoder := d'\<rparr>)"
      using assms(1) d' False n by (simp add: decoder_holds_def)
    ultimately show ?thesis by fastforce
  qed
qed

lemma flush_last_rows:
  assumes "decoder_holds aa ar n rows ad" "sized_batches ar n acc"
  shows "\<exists>ds. flush_last aa conv acc ad = Ok ds \<and> concat (map b_rows ds) = concat (map b_rows acc) @ rows \<and> sized_batches ar n ds"
proof -
  obtain b ad' where f: "ad_flush aa conv ad = Ok (b, ad')"
    "case b of None \<Rightarrow> rows = [] | Some x \<Rightarrow> b_schema x = ar_schema ar \<and> b_rows x = rows"
    using flush_rows [OF assms(1)] by blast
  have "length rows < n" using assms(1) by (simp add: decoder_holds_def)
  then show ?thesis using f assms(2) by (cases b; cases rows) (auto simp: flush_last_def sized_batches_def)
qed

definition framed_bodies :: "byte list list \<Rightarrow> byte list" where
  "framed_bodies bodies = concat (map (\<lambda>b. be_bytes 4 (length b) @ b) bodies)"

lemma read_exact_append [simp]: "n = length a \<Longrightarrow> read_exact_bytes n (a @ b) = Ok (a, b)"
  by (simp add: read_exact_bytes_def)

lemma decode_framed_rows:
  assumes "decoder_holds aa ar n rows ad" "sized_batches ar n acc" "list_all (\<lambda>b. ar_valid ar b \<and> length b < 2 ^ 32) bodies"
  shows "\<exists>ds. decode_framed aa conv (length bodies) acc (framed_bodies bodies @ rest) ad = Ok ds \<and>
    concat (map b_rows ds) = concat (map b_rows acc) @ rows @ map (ar_row ar) bodies \<and> sized_batches ar n ds"
  using assms
proof (induction bodies arbitrary: acc rows ad)
  case Nil
  then show ?case using flush_last_rows by fastforce
next
  case (Cons body bodies)
  have "ar_valid ar body" using Cons.prems(3) by simp
  then obtain b ad' rows' where s: "ad_decode aa conv body ad = Ok (b, ad')" "decoder_holds aa ar n rows' ad'"
    "case b of None \<Rightarrow> rows' = rows @ [ar_row ar body]
       | Some x \<Rightarrow> sized_batches ar n [x] \<and> b_rows x = rows @ [ar_row ar body] \<and> rows' = []"
    using decode_rows [OF Cons.prems(1)] by blast
  let ?acc = "case b of None \<Rightarrow> acc | Some x \<Rightarrow> acc @ [x]"
  have "sized_batches ar n ?acc" using s(3) Cons.prems(2) by (cases b) (auto simp: sized_batches_def)
  then obtain ds where ds: "decode_framed aa conv (length bodies) ?acc (framed_bodies bodies @ rest) ad' = Ok ds"
    "concat (map b_rows ds) = concat (map b_rows ?acc) @ rows' @ map (ar_row ar) bodies" "sized_batches ar n ds"
    using Cons.IH [OF s(2)] Cons.prems(3) by auto
  have "be_nat (be_bytes 4 (length body)) = length body" using Cons.prems(3) by simp
  then have "decode_framed aa conv (length (body # bodies)) acc (framed_bodies (body # bodies) @ rest) ad = Ok ds"
    using s(1) ds(1) by (simp add: framed_bodies_def)
  then show ?case using ds s(3) by (cases b) auto
qed

lemma decode_bodies_rows:
  assumes "decoder_holds aa ar n rows ad" "sized_batches ar n acc" "list_all (ar_valid ar) bodies"
  shows "\<exists>acc' ad' rows'. decode_bodies aa conv acc bodies ad = Ok (acc', ad') \<and> decoder_holds aa ar n rows' ad' \<and>
    concat (map b_rows acc') @ rows' = concat (map b_rows acc) @ rows @ map (ar_row ar) bodies \<and> sized_batches ar n acc'"
  using assms
proof (induction bodies arbitrary: acc rows ad)
  case (Cons body bodies)
  have "ar_valid ar body" using Cons.prems(3) by simp
  then obtain b ad' rows' where s: "ad_decode aa conv body ad = Ok (b, ad')" "decoder_holds aa ar n rows' ad'"
    "case b of None \<Rightarrow> rows' = rows @ [ar_row ar body]
       | Some x \<Rightarrow> sized_batches ar n [x] \<and> b_rows x = rows @ [ar_row ar body] \<and> rows' = []"
    using decode_rows [OF Cons.prems(1)] by blast
  let ?acc = "case b of None \<Rightarrow> acc | Some x \<Rightarrow> acc @ [x]"
  have "sized_batches ar n ?acc" using s(3) Cons.prems(2) by (cases b) (auto simp: sized_batches_def)
  then obtain acc' ad2 rows2 where ih: "decode_bodies aa conv ?acc bodies ad' = Ok (acc', ad2)" "decoder_holds aa ar n rows2 ad2"
    "concat (map b_rows acc') @ rows2 = concat (map b_rows ?acc) @ rows' @ map (ar_row ar) bodies" "sized_batches ar n acc'"
    using Cons.IH [OF s(2), of ?acc] Cons.prems(3) by auto
  then show ?case using s(1,3) by (cases b) auto
qed auto

text \<open>A decoder as it is built.\<close>

lemma new_decoder_holds:
  assumes "avro_sound aa ar json reader_json n"
  shows "\<exists>reg ad. registered_new aa json = Ok reg \<and> try_new_with_registered aa reg reader_json n = Ok ad \<and>
    decoder_holds aa ar n [] ad \<and> ad_schema aa ad = ar_schema ar"
  using assms by (auto simp: avro_sound_def registered_new_def try_new_with_registered_def build_inner_def decoder_holds_def
      ad_schema_def)

definition avro_content :: "byte list list \<Rightarrow> byte list" where
  "avro_content bodies = be_bytes 4 3 @ be_bytes 4 (length bodies) @ framed_bodies bodies"

text \<open>C19: The content of an Avro block decodes to the rows of its bodies, in order, in non-empty batches of at
  most the batch size.\<close>

theorem avro_block_decodes_in_order:
  assumes "avro_sound (ce_avro ce) ar json reader_json (cd_batch_size cd)"
    and "header SchemaKey = Some json" "resolution_schemas ce cd json header = Ok (reader_json, None)"
    and "list_all (\<lambda>b. ar_valid ar b \<and> length b < 2 ^ 32) bodies" "length bodies < 2 ^ 32"
  shows "\<exists>ds cache. decode_avro_record_content ce cd (avro_content bodies) header None = (Ok (Records ds []), cache) \<and>
    concat (map b_rows ds) = map (ar_row ar) bodies \<and> sized_batches ar (cd_batch_size cd) ds"
proof -
  obtain reg ad where new: "registered_new (ce_avro ce) json = Ok reg"
    "try_new_with_registered (ce_avro ce) reg reader_json (cd_batch_size cd) = Ok ad"
    "decoder_holds (ce_avro ce) ar (cd_batch_size cd) [] ad"
    using new_decoder_holds [OF assms(1)] by blast
  obtain ds where "decode_framed (ce_avro ce) (ce_convert ce) (length bodies) [] (framed_bodies bodies) ad = Ok ds"
    "concat (map b_rows ds) = map (ar_row ar) bodies" "sized_batches ar (cd_batch_size cd) ds"
    using decode_framed_rows [OF new(3), of "[]" bodies "ce_convert ce" "[]"] assms(4) by (auto simp: sized_batches_def)
  moreover have "validate_log_block_version (avro_content bodies) = Ok (be_bytes 4 (length bodies) @ framed_bodies bodies)"
    by (simp add: validate_log_block_version_def avro_content_def log_block_version_of_u32_def)
  moreover have "be_nat (be_bytes 4 (length bodies)) = length bodies" using assms(5) by simp
  ultimately show ?thesis
    using assms(2,3) new by (simp add: decode_avro_record_content_def avro_decoder_for_def registered_for_def)
qed

section \<open>The registered schema\<close>

definition cache_ok :: "('s, 'd) content_env \<Rightarrow> 's registered_cache \<Rightarrow> bool" where
  "cache_ok ce cache \<longleftrightarrow> (case cache of None \<Rightarrow> True | Some (j, reg) \<Rightarrow> registered_new (ce_avro ce) j = Ok reg)"

lemma registered_for_cache:
  "cache_ok ce cache \<Longrightarrow> fst (registered_for ce json cache) = registered_new (ce_avro ce) json \<and>
     cache_ok ce (snd (registered_for ce json cache))"
  by (auto simp: cache_ok_def registered_for_def split: option.splits sum.splits)

lemma avro_decoder_for_cache:
  assumes "cache_ok ce cache"
  shows "fst (avro_decoder_for ce cd json header cache) = fst (avro_decoder_for ce cd json header None) \<and>
    cache_ok ce (snd (avro_decoder_for ce cd json header cache))"
proof -
  have "cache_ok ce None" by (simp add: cache_ok_def)
  note r = registered_for_cache [OF assms, of json] registered_for_cache [OF this, of json]
  obtain c1 c2 where c: "registered_for ce json cache = (registered_new (ce_avro ce) json, c1)" "cache_ok ce c1"
    "registered_for ce json None = (registered_new (ce_avro ce) json, c2)"
    using r by (cases "registered_for ce json cache"; cases "registered_for ce json None") auto
  show ?thesis
  proof (cases "resolution_schemas ce cd json header")
    case (Inl e)
    then show ?thesis using assms by (simp add: avro_decoder_for_def)
  next
    case (Inr x)
    then show ?thesis using c by (cases x; cases "registered_new (ce_avro ce) json") (simp_all add: avro_decoder_for_def)
  qed
qed

lemma decoder_cache_cases:
  assumes "cache_ok ce cache"
  obtains r c1 c2 where "avro_decoder_for ce cd json header cache = (r, c1)" "cache_ok ce c1"
    "avro_decoder_for ce cd json header None = (r, c2)"
  using avro_decoder_for_cache [OF assms, of cd json header]
  by (cases "avro_decoder_for ce cd json header cache"; cases "avro_decoder_for ce cd json header None") auto

lemma decode_avro_cache:
  assumes "cache_ok ce cache"
  shows "fst (decode_avro_record_content ce cd bs header cache) = fst (decode_avro_record_content ce cd bs header None) \<and>
    cache_ok ce (snd (decode_avro_record_content ce cd bs header cache))"
proof (cases "res_bind (validate_log_block_version bs) (\<lambda>bs1. res_bind (ok_or LogBlockError (header SchemaKey)) (\<lambda>json.
         res_bind (read_exact_bytes 4 bs1) (\<lambda>(cnt, bs2). Ok (json, be_nat cnt, bs2))))")
  case (Inl e)
  then show ?thesis using assms by (simp add: decode_avro_record_content_def)
next
  case (Inr x)
  obtain json cnt bs2 where x: "x = (json, cnt, bs2)" by (cases x)
  obtain r c1 c2 where "avro_decoder_for ce cd json header cache = (r, c1)" "cache_ok ce c1"
    "avro_decoder_for ce cd json header None = (r, c2)" using decoder_cache_cases [OF assms] .
  then show ?thesis using Inr x by (cases r) (simp_all add: decode_avro_record_content_def)
qed

lemma decode_hfile_cache:
  assumes "cache_ok ce cache"
  shows "map_option fst (decode_hfile_content ce cd bs header cache) = map_option fst (decode_hfile_content ce cd bs header None) \<and>
    list_all (cache_ok ce \<circ> snd) (case decode_hfile_content ce cd bs header cache of None \<Rightarrow> [] | Some x \<Rightarrow> [x])"
proof (cases "decode_hfile_record_content (ce_hfile ce) (cd_key_predicate cd) bs")
  case (Some res)
  show ?thesis
  proof (cases res)
    case (Inr rs)
    show ?thesis
    proof (cases "header SchemaKey")
      case (Some json)
      obtain r c1 c2 where "avro_decoder_for ce cd json header cache = (r, c1)" "cache_ok ce c1"
        "avro_decoder_for ce cd json header None = (r, c2)" using decoder_cache_cases [OF assms] .
      then show ?thesis using \<open>_ = Some res\<close> Inr Some assms by (cases r) (simp_all add: decode_hfile_content_def)
    qed (use \<open>_ = Some res\<close> Inr assms in \<open>simp add: decode_hfile_content_def\<close>)
  qed (use Some assms in \<open>simp add: decode_hfile_content_def\<close>)
qed (simp add: decode_hfile_content_def)

text \<open>The writer schema kept from an earlier block never changes what a block decodes to, and what is kept
  stays the registration of its schema.\<close>

theorem kept_schema_changes_nothing:
  assumes "cache_ok ce cache"
  shows "map_option fst (decode_content ce cd bs version n block_type header cache) =
      map_option fst (decode_content ce cd bs version n block_type header None) \<and>
    list_all (cache_ok ce \<circ> snd) (case decode_content ce cd bs version n block_type header cache of None \<Rightarrow> [] | Some x \<Rightarrow> [x])"
proof -
  let ?content = "if has_content_length version
            then res_bind (read_exact_bytes 8 bs) (\<lambda>(len, rest). Ok (take (be_nat len) rest))
            else Ok (take n bs)"
  show ?thesis
  proof (cases ?content)
    case (Inl e)
    then show ?thesis using assms unfolding decode_content_def Inl by simp
  next
    case (Inr content)
    have avro: "fst (decode_avro_record_content ce cd content header cache) = fst (decode_avro_record_content ce cd content header None)"
      "cache_ok ce (snd (decode_avro_record_content ce cd content header cache))"
      using decode_avro_cache [OF assms, of cd content header] by blast+
    have hfile: "map_option fst (decode_hfile_content ce cd content header cache) = map_option fst (decode_hfile_content ce cd content header None)"
      "list_all (cache_ok ce \<circ> snd) (case decode_hfile_content ce cd content header cache of None \<Rightarrow> [] | Some x \<Rightarrow> [x])"
      using decode_hfile_cache [OF assms, of cd content header] by blast+
    show ?thesis
      unfolding decode_content_def Inr sum.case
      using avro hfile assms by (cases block_type) simp_all
  qed
qed

section \<open>HFile blocks\<close>

lemma records_in_image_block:
  assumes "hfile_ok hc im tp pairs" "(e, rs) \<in> set (image_blocks im)"
  shows "records_in_block hc (image_reader (Whole (image_bytes im)) im tp pairs m) e = Some (Ok (map hkv_record rs))"
proof -
  obtain b where b: "read_block_at hc (image_reader (Whole (image_bytes im)) im tp pairs m) (ie_offset e) (ie_size e) = Ok b"
    "hblock_type b = BtData" "block_holds (data_block_from b) rs"
    using image_block_at [OF assms, of m] by (auto simp: block_at_def)
  then show ?thesis using block_records [of "data_block_from b" "[]" rs "[]"]
    by (simp add: records_in_block_def expect_type_def)
qed

lemma records_of_image_entries:
  assumes "hfile_ok hc im tp pairs" "set sel \<subseteq> set (image_blocks im)"
  shows "records_of_entries hc (image_reader (Whole (image_bytes im)) im tp pairs m) (key_matcher p) acc (map fst sel) =
    Some (Ok (acc @ filter (record_admitted p) (map hkv_record (file_records sel))))"
  using assms(2)
proof (induction sel arbitrary: acc)
  case (Cons x sel)
  obtain e rs where x: "x = (e, rs)" by (cases x)
  have "records_in_block hc (image_reader (Whole (image_bytes im)) im tp pairs m) e = Some (Ok (map hkv_record rs))"
    using records_in_image_block [OF assms(1)] Cons.prems x by simp
  moreover have "(\<lambda>r. case key_as_str r of None \<Rightarrow> False | Some k \<Rightarrow> matcher_admits (key_matcher p) k) = record_admitted p"
    by (rule ext) (simp add: record_admitted_def split: option.split)
  ultimately show ?case using Cons x by simp
qed simp

text \<open>An HFile log block read with a key predicate yields the records of the block the predicate admits, in
  order, although only the blocks that can hold them are parsed.\<close>

theorem hfile_block_reads_admitted:
  assumes "hfile_ok hc im tp pairs" "image_in_order p im"
  shows "decode_hfile_record_content hc (Some p) (image_bytes im) =
    Some (Ok (filter (record_admitted p) (map hkv_record (image_records im))))"
proof -
  obtain m where m: "hfile_new hc (image_bytes im) = Ok (image_reader (Whole (image_bytes im)) im tp pairs m)"
    using open_image [OF assms(1)] by blast
  obtain sel where sel: "blocks_for_predicate (image_reader (Whole (image_bytes im)) im tp pairs m) p = map fst sel"
    "set sel \<subseteq> set (image_blocks im)"
    "filter (record_admitted p) (map hkv_record (file_records sel)) = filter (record_admitted p) (map hkv_record (image_records im))"
    using predicate_blocks [OF assms] by metis
  have "image_bytes im \<noteq> []" by (simp add: image_bytes_def hblock_image_def)
  then show ?thesis
    using m sel records_of_image_entries [OF assms(1) sel(2), of m p "[]"] by (simp add: decode_hfile_record_content_def)
qed

section \<open>The ordering values of deletes\<close>

lemma ordering_branches:
  "res_fold (ordering_branch_step children) (s0, c0) vs = Ok (s1, c1) \<Longrightarrow>
   (c0 \<longrightarrow> c1) \<and> (s0 \<noteq> None \<longrightarrow> s1 = s0) \<and>
   (s0 = None \<longrightarrow> s1 \<noteq> None \<longrightarrow> (\<exists>v\<in>set vs. s1 = Some (union_branch_of v) \<and>
      (\<exists>t. map_of children (union_branch_of v) = Some t \<and> t \<noteq> DtNull \<and> \<not> is_composite t))) \<and>
   (\<not> c1 \<longrightarrow> (\<forall>v\<in>set vs. map_of children (union_branch_of v) = Some DtNull \<or>
      (s1 = Some (union_branch_of v) \<and> (\<exists>t. map_of children (union_branch_of v) = Some t \<and> t \<noteq> DtNull \<and> \<not> is_composite t))))"
proof (induction vs arbitrary: s0 c0)
  case (Cons v vs)
  then obtain s c where s: "ordering_branch_step children (s0, c0) v = Ok (s, c)"
    "res_fold (ordering_branch_step children) (s, c) vs = Ok (s1, c1)"
    by (auto simp: res_bind_Inr_iff)
  then show ?case using Cons.IH [OF s(2)]
    by (auto simp: ordering_branch_step_def Let_def split: option.splits if_splits)
qed simp

text \<open>Values as the delete schema writes them: a null, a wrapper of one \<open>value\<close>, or a composite.\<close>

definition wrapper_ok :: "(nat \<times> DataType) list \<Rightarrow> Value \<Rightarrow> bool" where
  "wrapper_ok children v = (case v of
      VUnion i x \<Rightarrow> (case map_of children i of
          Some DtNull \<Rightarrow> x = VNull
        | Some (DtStruct fs) \<Rightarrow> length fs = 1 \<and>
            (is_composite (DtStruct fs) \<or> fst (hd fs) = ''value'' \<and> ordering_type_ok (snd (hd fs))) \<and>
            (case x of VNested ys \<Rightarrow> length ys = 1 | _ \<Rightarrow> False)
        | _ \<Rightarrow> False)
    | _ \<Rightarrow> False)"

lemma wrapper_ok_cases:
  assumes "wrapper_ok children v"
  obtains (null) i where "v = VUnion i VNull" "map_of children i = Some DtNull"
  | (struct) i n ct y where "v = VUnion i (VNested [y])" "map_of children i = Some (DtStruct [(n, ct)])"
      "is_composite (DtStruct [(n, ct)]) \<or> n = ''value'' \<and> ordering_type_ok ct"
proof -
  obtain i x where v: "v = VUnion i x" using assms by (cases v) (simp_all add: wrapper_ok_def)
  show thesis
  proof (cases "map_of children i = Some DtNull")
    case True
    then show thesis using null [of i] assms v by (simp add: wrapper_ok_def)
  next
    case False
    obtain t where t: "map_of children i = Some t" using assms v by (cases "map_of children i") (simp_all add: wrapper_ok_def)
    obtain fs where fs: "t = DtStruct fs" using assms v t False by (cases t) (simp_all add: wrapper_ok_def)
    obtain ys where ys: "x = VNested ys" using assms v t fs by (cases x) (simp_all add: wrapper_ok_def)
    have "length fs = 1" "length ys = 1" using assms v t fs ys by (simp_all add: wrapper_ok_def)
    then obtain f y where "fs = [f]" "ys = [y]" by (auto simp: length_Suc_conv)
    then show thesis using struct [of i y "fst f" "snd f"] assms v t fs ys by (simp add: wrapper_ok_def)
  qed
qed

text \<open>No ordering value and the default ordering value are the same delete.\<close>

definition or_default :: "string \<times> OrderingValue option \<Rightarrow> string \<times> OrderingValue" where
  "or_default d = (fst d, case snd d of None \<Rightarrow> OvDefault | Some v \<Rightarrow> v)"

definition delete_list :: "DeleteOrdering \<Rightarrow> string option list \<Rightarrow> (string \<times> OrderingValue) list result" where
  "delete_list dord keys = res_bind (delete_batch_to_keys_with_ordering \<lparr>db_num_rows = length keys, db_keys = Some keys, db_ordering = dord\<rparr>)
     (\<lambda>ds. Ok (map or_default ds))"

lemma delete_list_orderings:
  assumes "(case dord of OrderingUnion ws \<Rightarrow> res_map decode_delete_wrapper_ordering ws
      | OrderingColumn t vs \<Rightarrow> ok_or UnsupportedError (column_to_ordering_values (t, vs))
      | NoOrderingColumn \<Rightarrow> Ok (map (\<lambda>_. None) keys)) = Ok os" "length os = length keys"
  shows "delete_list dord keys = Ok (map (\<lambda>(k, x). (case k of None \<Rightarrow> [] | Some s \<Rightarrow> s,
    case x of None \<Rightarrow> OvDefault | Some v \<Rightarrow> v)) (zip keys os))"
proof (cases "keys = []")
  case False
  have "nth_opt os i = Some (os ! i)" if "i < length keys" for i using that assms(2) by (simp add: nth_opt_def)
  then have "map or_default (map (\<lambda>i. (case keys ! i of None \<Rightarrow> [] | Some k \<Rightarrow> k, Option.bind (nth_opt os i) (\<lambda>v. v))) [0 ..< length keys]) =
      map (\<lambda>(k, x). (case k of None \<Rightarrow> [] | Some s \<Rightarrow> s, case x of None \<Rightarrow> OvDefault | Some v \<Rightarrow> v)) (zip keys os)"
    using assms(2) by (intro nth_equalityI) (simp_all add: or_default_def)
  then show ?thesis using False assms(1)
    by (cases dord) (simp_all add: delete_list_def delete_batch_to_keys_with_ordering_def)
qed (simp add: delete_list_def delete_batch_to_keys_with_ordering_def)

text \<open>Unwrapping the ordering values of a delete block into a plain column changes no delete: reading the
  column gives the keys and ordering values that reading the union row by row gives.\<close>

theorem unwrapped_ordering_agrees:
  assumes "unwrap_ordering_values (DtUnion children) vs = Ok col" "list_all (wrapper_ok children) vs"
    and "length keys = length vs"
  shows "delete_list (delete_ordering_of col) keys = delete_list (OrderingUnion (map (delete_wrapper children) vs)) keys"
proof -
  obtain sc comp where f: "res_fold (ordering_branch_step children) (None, False) vs = Ok (sc, comp)"
    using assms(1) by (auto simp: unwrap_ordering_values_def res_bind_Inr_iff)
  note b = ordering_branches [OF f]
  show ?thesis
  proof (cases comp)
    case True
    then have "col = (DtUnion children, vs)" using assms(1) f by (simp add: unwrap_ordering_values_def)
    then show ?thesis by (simp add: delete_ordering_of_def)
  next
    case False
    have null: "delete_wrapper children v = WrapNull" if "v \<in> set vs" "map_of children (union_branch_of v) = Some DtNull" for v
    proof -
      have "wrapper_ok children v" using assms(2) that(1) by (simp add: list_all_iff)
      then show ?thesis using that(2) by (cases rule: wrapper_ok_cases) (simp_all add: union_branch_of_def)
    qed
    show ?thesis
    proof (cases sc)
      case None
      then have all: "\<forall>v\<in>set vs. map_of children (union_branch_of v) = Some DtNull" using b False by auto
      have col: "col = (DtInt64, replicate (length vs) VNull)" using assms(1) f False None by (simp add: unwrap_ordering_values_def)
      have "res_map decode_delete_wrapper_ordering (map (delete_wrapper children) vs) = Ok (map (\<lambda>_. None) vs)"
        using all null by (intro res_map_on) simp
      moreover have "column_to_ordering_values (DtInt64, replicate (length vs) VNull) = Some (map (\<lambda>_. Some OvDefault) vs)"
        by (simp add: column_to_ordering_values_def value_at_def ordering_type_ok_def map_replicate_const)
      ultimately show ?thesis unfolding col delete_ordering_of_def
        using delete_list_orderings [where dord = "OrderingUnion (map (delete_wrapper children) vs)" and os = "map (\<lambda>_. None) vs" and keys = keys]
          delete_list_orderings [where dord = "OrderingColumn DtInt64 (replicate (length vs) VNull)" and os = "map (\<lambda>_. Some OvDefault) vs" and keys = keys] assms(3)
        by (simp add: ok_or_def zip_map2 comp_def case_prod_beta)
    next
      case (Some i)
      then have "\<exists>v0\<in>set vs. i = union_branch_of v0 \<and> (\<exists>t. map_of children i = Some t \<and> t \<noteq> DtNull \<and> \<not> is_composite t)"
        using b by auto
      then obtain v0 where v0: "v0 \<in> set vs" "union_branch_of v0 = i" "map_of children i \<noteq> Some DtNull"
        "\<exists>t. map_of children i = Some t \<and> \<not> is_composite t" by auto
      have "wrapper_ok children v0" using assms(2) v0(1) by (simp add: list_all_iff)
      then obtain ct where ct: "map_of children i = Some (DtStruct [(''value'', ct)])" "ordering_type_ok ct"
        using v0 by (cases rule: wrapper_ok_cases) (auto simp: union_branch_of_def)
      let ?cell = "\<lambda>v. if union_branch_of v = i then struct_field (union_value_of v) 0 else VNull"
      have col: "col = (ct, map ?cell vs)" using assms(1) f False Some ct by (simp add: unwrap_ordering_values_def)
      have plain: "delete_ordering_of col = OrderingColumn ct (map ?cell vs)"
        using ct(2) unfolding col delete_ordering_of_def by (cases ct) (simp_all add: ordering_type_ok_def)
      let ?o = "\<lambda>v. if ?cell v = VNull then None else slot_ordering ct (?cell v)"
      have "decode_delete_wrapper_ordering (delete_wrapper children v) = Ok (?o v)" if v: "v \<in> set vs" for v
      proof (cases "map_of children (union_branch_of v) = Some DtNull")
        case True
        then have "union_branch_of v \<noteq> i" using ct(1) by auto
        then show ?thesis using null [OF v True] by simp
      next
        case no: False
        then have i: "union_branch_of v = i" using b v False Some by auto
        have "wrapper_ok children v" using assms(2) v by (simp add: list_all_iff)
        then obtain y where x: "v = VUnion i (VNested [y])" using i ct(1) by (cases rule: wrapper_ok_cases) (auto simp: union_branch_of_def)
        then show ?thesis using x ct by (simp add: scalar_ordering_value_def union_branch_of_def union_value_of_def struct_field_def)
      qed
      then have un: "res_map decode_delete_wrapper_ordering (map (delete_wrapper children) vs) = Ok (map ?o vs)"
        by (intro res_map_on)
      have column: "column_to_ordering_values (ct, map ?cell vs) = Some (map (\<lambda>v. value_at ct (?cell v)) vs)"
        using ct(2) by (simp add: column_to_ordering_values_def)
      have same: "(case value_at ct (?cell v) of None \<Rightarrow> OvDefault | Some x \<Rightarrow> x) = (case ?o v of None \<Rightarrow> OvDefault | Some x \<Rightarrow> x)" for v
        using ct(2) by (simp add: value_at_def)
      show ?thesis unfolding plain
        using delete_list_orderings [where dord = "OrderingUnion (map (delete_wrapper children) vs)" and os = "map ?o vs" and keys = keys]
          delete_list_orderings [where dord = "OrderingColumn ct (map ?cell vs)" and os = "map (\<lambda>v. value_at ct (?cell v)) vs" and keys = keys]
          assms(3) un column same by (simp add: ok_or_def zip_map2 comp_def case_prod_beta)
    qed
  qed
qed

section \<open>A small decoder\<close>

text \<open>A decoder that holds rows and is full at its batch size; a body is one row.\<close>

definition sample_row :: "byte list \<Rightarrow> Value list" where
  "sample_row body = [VStr [], VInt (int (be_nat body))]"

definition sample_fields :: Schema where
  "sample_fields = [\<lparr>f_name = ''key'', f_type = DtUtf8, f_nullable = False\<rparr>, \<lparr>f_name = ''v'', f_type = DtInt64, f_nullable = False\<rparr>]"

definition sample_avro :: "(unit, nat \<times> Value list list) arrow_avro" where
  "sample_avro = \<lparr>aa_register = (\<lambda>_. Ok ((), Rabin 0)), aa_build = (\<lambda>_ _ _ n. Ok (n, [])), aa_schema = (\<lambda>_. sample_fields),
     aa_decode = (\<lambda>(n, rows) bs. Ok (length bs, (n, rows @ [sample_row (drop 10 bs)]))),
     aa_is_full = (\<lambda>(n, rows). length rows = n),
     aa_flush = (\<lambda>(n, rows). Ok (if rows = [] then None else Some \<lparr>b_ptr = 0, b_schema = sample_fields, b_rows = rows\<rparr>, (n, [])))\<rparr>"

definition sample_held :: "nat \<Rightarrow> (nat \<times> Value list list) avro_rows" where
  "sample_held n = \<lparr>ar_schema = sample_fields, ar_valid = (\<lambda>_. True), ar_row = sample_row, ar_holds = (\<lambda>d rows. d = (n, rows))\<rparr>"

lemma length_record_prefix: "length (record_prefix rabin) = 10"
  by (simp add: record_prefix_def SINGLE_OBJECT_MAGIC_def)

lemma sample_decodes: "decodes_rows sample_avro (sample_held n) (record_prefix rabin) n"
  by (auto simp: decodes_rows_def sample_avro_def sample_held_def length_record_prefix)

lemma sample_sound: "0 < n \<Longrightarrow> avro_sound sample_avro (sample_held n) json reader_json n"
  using sample_decodes [of n 0] by (simp add: avro_sound_def) (simp add: sample_avro_def sample_held_def)

definition sample_env :: "(unit, nat \<times> Value list list) content_env" where
  "sample_env = \<lparr>ce_avro = sample_avro, ce_hfile = sample_codecs, ce_parquet = (\<lambda>_ _. Ok []), ce_parse_avro = (\<lambda>_. Err SchemaError),
     ce_arrow_schema = (\<lambda>_. Err SchemaError), ce_delete_schema_json = [], ce_convert = (\<lambda>_ _ v. Ok v)\<rparr>"

definition sample_decoder :: Decoder where
  "sample_decoder = decoder_new\<lparr>cd_batch_size := 2\<rparr>"

definition sample_header :: block_metadata where
  "sample_header = [SchemaKey \<mapsto> ''S'']"

lemma sample_env_simps [simp]: "ce_avro sample_env = sample_avro" "ce_hfile sample_env = sample_codecs"
  "cd_batch_size sample_decoder = 2" "cd_reader_schema_json sample_decoder = None" "sample_header SchemaKey = Some ''S''"
  by (simp_all add: sample_env_def sample_decoder_def decoder_new_def sample_header_def)

theorem avro_block_decodes_in_order_witness:
  "\<exists>ds cache. decode_avro_record_content sample_env sample_decoder (avro_content [[1], [2], [3]]) sample_header None = (Ok (Records ds []), cache) \<and>
    concat (map b_rows ds) = [sample_row [1], sample_row [2], sample_row [3]] \<and> sized_batches (sample_held 2) 2 ds"
proof -
  have "resolution_schemas sample_env sample_decoder ''S'' sample_header = Ok (None, None)"
    by (simp add: resolution_schemas_def Let_def)
  then show ?thesis
    using avro_block_decodes_in_order [of sample_env "sample_held 2" "''S''" None sample_decoder sample_header "[[1], [2], [3]]"]
    by (simp add: sample_sound) (simp add: sample_held_def)
qed

text \<open>A schema kept from an earlier block.\<close>

theorem kept_schema_changes_nothing_witness:
  "map_option fst (decode_content sample_env sample_decoder (avro_content [[1], [2]]) LogFormatV0 64 AvroData sample_header (Some (''S'', \<lparr>rw_store = (), rw_fingerprint = Rabin 0\<rparr>))) =
    map_option fst (decode_content sample_env sample_decoder (avro_content [[1], [2]]) LogFormatV0 64 AvroData sample_header None)"
proof -
  have "cache_ok sample_env (Some (''S'', \<lparr>rw_store = (), rw_fingerprint = Rabin 0\<rparr>))"
    by (simp add: cache_ok_def registered_new_def) (simp add: sample_avro_def)
  then show ?thesis using kept_schema_changes_nothing [of sample_env] by metis
qed

lemma key_as_str_sample: "string_valid k \<Longrightarrow> key_as_str (hkv_record (sample_hkv k v)) = Some k"
  by (simp add: key_as_str_def hkv_record_def sample_hkv_def)

lemma sample_keys_valid [simp]: "string_valid ''k1''" "string_valid ''k2''" "string_valid ''k3''" "string_valid ''k4''" "string_valid ''S''"
  by (simp_all add: string_valid_def utf8_valid_ascii)

theorem hfile_block_reads_admitted_witness:
  "decode_hfile_record_content sample_codecs (Some (PredicateKeys [''k2'', ''k9''])) (image_bytes sample_hfile) =
    Some (Ok [hkv_record (sample_hkv ''k2'' 2)])"
proof -
  have "image_in_order (PredicateKeys [''k2'', ''k9'']) sample_hfile"
    by (simp add: image_in_order_def) (simp add: sample_defs str_bytes_def byte_of_nat_def)
  moreover have "filter (record_admitted (PredicateKeys [''k2'', ''k9''])) (map hkv_record (image_records sample_hfile)) = [hkv_record (sample_hkv ''k2'' 2)]"
    by (simp add: sample_records record_admitted_def key_as_str_sample predicate_admits_def)
  ultimately show ?thesis using hfile_block_reads_admitted [OF sample_hfile_ok] by metis
qed

theorem unwrapped_ordering_agrees_witness:
  "delete_list (delete_ordering_of (DtInt64, [VInt 5, VNull])) [Some ''a'', Some ''b''] =
    delete_list (OrderingUnion (map (delete_wrapper [(0, DtNull), (1, DtStruct [(''value'', DtInt64)])])
      [VUnion 1 (VNested [VInt 5]), VUnion 0 VNull])) [Some ''a'', Some ''b'']"
proof -
  have "unwrap_ordering_values (DtUnion [(0, DtNull), (1, DtStruct [(''value'', DtInt64)])]) [VUnion 1 (VNested [VInt 5]), VUnion 0 VNull] =
      Ok (DtInt64, [VInt 5, VNull])"
    by (simp add: unwrap_ordering_values_def ordering_branch_step_def is_composite_def union_branch_of_def union_value_of_def struct_field_def)
  then show ?thesis
    by (rule unwrapped_ordering_agrees) (simp_all add: wrapper_ok_def ordering_type_ok_def)
qed

end
