(* ===== verification/HFile_Base_Facts.thy ===== *)
theory HFile_Base_Facts
  imports HFile_Base Block_Content_Facts
begin

text \<open>
  Reading an HFile base file with a key predicate, whole or in ranges and in windows of blocks: the
  batch returned has one row for each admitted record, decoded and given its key.
\<close>

section \<open>Windows of blocks\<close>




section \<open>One window\<close>













section \<open>The stream\<close>









section \<open>A small base file\<close>






end
