(* ===== verification/Spill_Disk_Facts.thy ===== *)
theory Spill_Disk_Facts
  imports Spill_Disk
begin

text \<open>
  The disk tier is a map: what is put under a key is what is read back, whether it is still staged,
  flushed, in the cache or decoded again. A data record comes back under its map key as record
  key; the ordering value and the row are kept, and a delete keeps its own record key.
\<close>

section \<open>The contract of a record store\<close>

text \<open>What a buffer relies on, of either tier and of both together: under every key the store shows what
  was inserted last and not removed since. \<open>view\<close> is what of a record the store keeps.\<close>

locale record_store =
  fixes ok :: "'m \<Rightarrow> bool"
    and contents :: "'m \<Rightarrow> 'k \<Rightarrow> 'v option"
    and admits :: "'m \<Rightarrow> 'r \<Rightarrow> bool"
    and view :: "'k \<Rightarrow> 'r \<Rightarrow> 'v"
    and put :: "'k \<Rightarrow> 'r \<Rightarrow> 'm \<Rightarrow> 'm result"
    and lookup :: "'k \<Rightarrow> 'm \<Rightarrow> ('r option \<times> 'm) result"
    and delete :: "'k \<Rightarrow> 'm \<Rightarrow> ('r option \<times> 'm) result"
  assumes put_law: "ok m \<Longrightarrow> admits m r \<Longrightarrow> put k r m = Ok m' \<Longrightarrow> ok m' \<and> contents m' = (contents m)(k \<mapsto> view k r)"
    and lookup_law: "ok m \<Longrightarrow> \<exists>r m'. lookup k m = Ok (r, m') \<and> ok m' \<and> contents m' = contents m \<and>
      map_option (view k) r = contents m k"
    and delete_law: "ok m \<Longrightarrow> \<exists>r m'. delete k m = Ok (r, m') \<and> ok m' \<and> contents m' = (contents m)(k := None) \<and>
      map_option (view k) r = contents m k"
begin

lemma put_then_lookup:
  assumes "ok m" "admits m r" "put k r m = Ok m1"
  shows "\<exists>x m2. lookup j m1 = Ok (x, m2) \<and> map_option (view j) x = (if j = k then Some (view k r) else contents m j)"
proof -
  have "ok m1" "contents m1 = (contents m)(k \<mapsto> view k r)" using put_law [OF assms] by simp_all
  then show ?thesis using lookup_law [of m1 j] by fastforce
qed

lemma delete_then_lookup:
  assumes "ok m" "delete k m = Ok (y, m1)"
  shows "\<exists>x m2. lookup j m1 = Ok (x, m2) \<and> map_option (view j) x = (if j = k then None else contents m j)"
proof -
  have "ok m1" "contents m1 = (contents m)(k := None)" using delete_law [OF assms(1), of k] assms(2) by auto
  then show ?thesis using lookup_law [of m1 j] by fastforce
qed

text \<open>Reading, deciding and writing back.\<close>

lemma lookup_then_put:
  assumes "ok m" "lookup k m = Ok (x, m1)" "admits m1 r" "put k r m1 = Ok m2"
  shows "ok m2 \<and> map_option (view k) x = contents m k \<and> contents m2 = (contents m)(k \<mapsto> view k r)"
proof -
  have "ok m1" "contents m1 = contents m" "map_option (view k) x = contents m k"
    using lookup_law [OF assms(1), of k] assms(2) by auto
  then show ?thesis using put_law [OF _ assms(3,4)] by simp
qed

end

section \<open>What is assumed of the environment\<close>

text \<open>A hash map iterates over each key once, a new batch gets an address not in use, RocksDB returns
  what was written last under an id, and the IPC codec decodes the batches of rows of the read (the set
  \<open>S\<close>) that it encoded.\<close>

definition same_rows :: "batch \<Rightarrow> batch \<Rightarrow> bool" where
  "same_rows b b' \<longleftrightarrow> b_schema b' = b_schema b \<and> b_rows b' = b_rows b"

definition store_sound :: "'db spill_env \<Rightarrow> bool" where
  "store_sound env \<longleftrightarrow> (\<forall>db i v db'. se_put env db i v = Ok db' \<longrightarrow>
     (\<forall>j. se_get env db' j = (if j = i then Ok (Some v) else se_get env db j)))"

text \<open>Rows of the read that share a schema.\<close>

definition uniform :: "row set \<Rightarrow> row list \<Rightarrow> bool" where
  "uniform S rows \<longleftrightarrow> rows \<noteq> [] \<and> set rows \<subseteq> S \<and> (\<forall>r\<in>set rows. row_schema r = row_schema (hd rows))"

definition codec_sound :: "'db spill_env \<Rightarrow> row set \<Rightarrow> bool" where
  "codec_sound env S \<longleftrightarrow> (\<forall>rows. uniform S rows \<longrightarrow>
     (\<forall>message data. se_ipc_encode env (pack_rows rows) = Ok (False, message, data) \<longrightarrow> length message < 2 ^ 32 \<and>
        (\<exists>b'. se_ipc_decode env message data (b_schema (pack_rows rows)) = Ok b' \<and> same_rows (pack_rows rows) b')) \<and>
     (\<exists>b'. se_ipc_read env (se_ipc_stream env (pack_rows rows)) = Ok b' \<and> same_rows (pack_rows rows) b'))"

definition env_sound :: "'db spill_env \<Rightarrow> row set \<Rightarrow> bool" where
  "env_sound env S \<longleftrightarrow> (\<forall>ks. mset (se_order env ks) = mset ks) \<and> (\<forall>ps. se_alloc env ps \<notin> set ps) \<and>
     store_sound env \<and> codec_sound env S"

lemma env_sound_put: "env_sound env S \<Longrightarrow> se_put env db i v = Ok db' \<Longrightarrow>
    se_get env db' j = (if j = i then Ok (Some v) else se_get env db j)"
  by (auto simp: env_sound_def store_sound_def)

lemma env_sound_codec: "env_sound env S \<Longrightarrow> codec_sound env S"
  by (simp add: env_sound_def)

lemma bm_distinct_keys: "bm_ok m \<Longrightarrow> distinct (map fst m)"
  by (simp add: bm_ok_def strict_sorted_iff)

lemma hash_entries_mset:
  assumes "env_sound env S" "bm_ok m"
  shows "mset (hash_entries env m) = mset m"
proof -
  have order: "mset (se_order env (map fst m)) = mset (map fst m)" using assms(1) by (simp add: env_sound_def)
  let ?e = "\<lambda>k. case bm_get m k of None \<Rightarrow> [] | Some v \<Rightarrow> [(k, v)]"
  have sum: "mset (concat (map ?e ks)) = (\<Sum>k\<in>#mset ks. mset (?e k))" for ks by (induction ks) auto
  have "mset (hash_entries env m) = (\<Sum>k\<in>#mset (map fst m). mset (?e k))"
    unfolding hash_entries_def sum order ..
  also have "\<dots> = mset (concat (map ?e (map fst m)))" by (rule sum [symmetric])
  also have "concat (map ?e (map fst m)) = m"
  proof -
    have "?e (fst p) = [p]" if "p \<in> set m" for p
      using bm_get_in [OF assms(2), of "fst p" "snd p"] that by simp
    then have "map ?e (map fst m) = map (\<lambda>p. [p]) m" by simp
    then show ?thesis by (simp del: map_map)
  qed
  finally show ?thesis .
qed

lemma hash_entries_set: "env_sound env S \<Longrightarrow> bm_ok m \<Longrightarrow> set (hash_entries env m) = set m"
  using hash_entries_mset mset_eq_setD by blast

lemma hash_entries_distinct: "env_sound env S \<Longrightarrow> bm_ok m \<Longrightarrow> distinct (map fst (hash_entries env m))"
  using hash_entries_mset bm_distinct_keys by (metis mset_map mset_eq_imp_distinct_iff)

section \<open>Blobs\<close>

lemma from_binary_body_encoded:
  assumes "codec_sound env S" "uniform S rows" "to_binary_row_body env (pack_rows rows) = Some body"
  shows "\<exists>b'. from_binary_body env body (b_schema (pack_rows rows)) = Ok b' \<and> same_rows (pack_rows rows) b'"
proof -
  obtain message data where e: "se_ipc_encode env (pack_rows rows) = Ok (False, message, data)"
    "body = le_bytes 4 (length message) @ message @ data"
    using assms(3) by (auto simp: to_binary_row_body_def split: sum.splits if_splits)
  then have l: "length message < 2 ^ 32"
    "\<exists>b'. se_ipc_decode env message data (b_schema (pack_rows rows)) = Ok b' \<and> same_rows (pack_rows rows) b'"
    using assms(1,2) by (auto simp: codec_sound_def)
  then have "le_nat (take 4 body) = length message" using e(2) by simp
  then show ?thesis using e(2) l by (auto simp: from_binary_body_def Let_def)
qed

lemma blob_decodes:
  assumes "codec_sound env S" "uniform S rows" "sid < length ss" "length ss \<le> 2 ^ 32" "b_schema (pack_rows rows) = ss ! sid"
  shows "\<exists>b'. decode_batch env ss (batch_blob env sid (pack_rows rows)) = Ok b' \<and> same_rows (pack_rows rows) b'"
proof (cases "to_binary_row_body env (pack_rows rows)")
  case None
  moreover obtain b' where "se_ipc_read env (se_ipc_stream env (pack_rows rows)) = Ok b'" "same_rows (pack_rows rows) b'"
    using assms(1,2) unfolding codec_sound_def by blast
  ultimately show ?thesis
    by (simp add: batch_blob_def decode_batch_def from_binary_def to_binary_row_def SPILL_BATCH_TAG_BODY_def SPILL_BATCH_TAG_FULL_def)
next
  case (Some body)
  then obtain b' where "from_binary_body env body (ss ! sid) = Ok b'" "same_rows (pack_rows rows) b'"
    using from_binary_body_encoded [OF assms(1,2) Some] assms(5) by auto
  moreover have "sid < 2 ^ 32" using assms(3,4) by simp
  ultimately show ?thesis using Some assms(3) by (simp add: batch_blob_def decode_batch_def)
qed

lemma decode_batch_append: "decode_batch env ss raw = Ok b \<Longrightarrow> decode_batch env (ss @ ts) raw = Ok b"
  by (auto simp: decode_batch_def Let_def nth_append split: list.splits if_splits)

section \<open>What the tier holds\<close>

type_synonym record_view = "string \<times> row option \<times> OrderingValue option"

definition row_of :: "BufferedRecord \<Rightarrow> row option" where
  "row_of r = (case br_get_record r of Inl _ \<Rightarrow> None | Inr ro \<Rightarrow> ro)"

text \<open>A record as the map shows it: a delete with its own record key, data with the map key.\<close>

definition rec_view :: "string \<Rightarrow> BufferedRecord \<Rightarrow> record_view" where
  "rec_view k r = (if br_is_delete r then br_record_key r else k, row_of r, br_ordering_value r)"

text \<open>Records whose row exists and is one of the rows \<open>S\<close> of the read.\<close>

definition good_record :: "row set \<Rightarrow> BufferedRecord \<Rightarrow> bool" where
  "good_record S r \<longleftrightarrow> (br_is_delete r \<or> (\<exists>row. br_get_record r = Ok (Some row) \<and> row \<in> S))"

definition stored_batch :: "'db spill_env \<Rightarrow> 'db DiskMap \<Rightarrow> nat \<Rightarrow> batch result" where
  "stored_batch env d bid = (case se_get env (dk_db d) bid of
      Inl _ \<Rightarrow> Err ReadFileSliceError
    | Inr None \<Rightarrow> Err ReadFileSliceError
    | Inr (Some raw) \<Rightarrow> decode_batch env (dk_schemas d) raw)"

definition stored_row :: "'db spill_env \<Rightarrow> 'db DiskMap \<Rightarrow> nat \<Rightarrow> nat \<Rightarrow> row option" where
  "stored_row env d bid i = (case res_bind (stored_batch env d bid) (\<lambda>b. slice_row b i) of Inl _ \<Rightarrow> None | Inr r \<Rightarrow> Some r)"

definition entry_view :: "'db spill_env \<Rightarrow> 'db DiskMap \<Rightarrow> string \<Rightarrow> DiskEntry \<Rightarrow> record_view" where
  "entry_view env d k e = (case de_loc e of
      LocDelete rk \<Rightarrow> (rk, None, de_ordering_value e)
    | LocData bid i \<Rightarrow> (k, stored_row env d bid i, de_ordering_value e))"

definition disk_view :: "'db spill_env \<Rightarrow> 'db DiskMap \<Rightarrow> string \<Rightarrow> record_view option" where
  "disk_view env d k = (case bm_get (dk_staging d) k of
      Some r \<Rightarrow> Some (rec_view k r)
    | None \<Rightarrow> map_option (entry_view env d k) (bm_get (dk_index d) k))"

text \<open>The invariant: flushed rows can be decoded, cached batches are what decoding gives, the schemas
  are distinct and those of rows of the read.\<close>

definition entry_ok :: "'db spill_env \<Rightarrow> row set \<Rightarrow> 'db DiskMap \<Rightarrow> DiskEntry \<Rightarrow> bool" where
  "entry_ok env S d e \<longleftrightarrow> (case de_loc e of LocDelete _ \<Rightarrow> True
     | LocData bid i \<Rightarrow> bid < dk_next_batch_id d \<and> (\<exists>row. stored_row env d bid i = Some row \<and> row \<in> S))"

definition disk_core :: "'db spill_env \<Rightarrow> row set \<Rightarrow> 'db DiskMap \<Rightarrow> bool" where
  "disk_core env S d \<longleftrightarrow> bm_ok (dk_staging d) \<and> bm_ok (dk_index d) \<and>
     (\<forall>(k, r)\<in>set (dk_staging d). \<not> br_is_delete r \<and> good_record S r) \<and>
     (\<forall>(k, e)\<in>set (dk_index d). entry_ok env S d e) \<and>
     (\<forall>(bid, b)\<in>set (dk_cache d). bid < dk_next_batch_id d \<and> stored_batch env d bid = Ok b) \<and>
     distinct (dk_schemas d) \<and> set (dk_schemas d) \<subseteq> row_schema ` S"

lemma disk_core_staged: "disk_core env S d \<Longrightarrow> bm_get (dk_staging d) k = Some r \<Longrightarrow> \<not> br_is_delete r \<and> good_record S r"
  using bm_get_in [of "dk_staging d" k r] by (auto simp: disk_core_def)

lemma disk_core_indexed: "disk_core env S d \<Longrightarrow> bm_get (dk_index d) k = Some e \<Longrightarrow> entry_ok env S d e"
  using bm_get_in [of "dk_index d" k e] by (auto simp: disk_core_def)

definition disk_keys :: "'db DiskMap \<Rightarrow> string set" where
  "disk_keys d = fst ` set (dk_staging d) \<union> fst ` set (dk_index d)"

definition disk_ok :: "'db spill_env \<Rightarrow> row set \<Rightarrow> 'db DiskMap \<Rightarrow> bool" where
  "disk_ok env S d \<longleftrightarrow> disk_core env S d \<and> dk_len d = card (disk_keys d)"

lemma finite_disk_keys [simp]: "finite (disk_keys d)"
  by (simp add: disk_keys_def)

lemma disk_view_None: "disk_view env d k = None \<longleftrightarrow> k \<notin> disk_keys d"
  by (auto simp: disk_view_def disk_keys_def bm_get_None split: option.splits)
    (metis bm_get_None option.distinct(1))+

lemma disk_contains_iff: "disk_contains k d \<longleftrightarrow> k \<in> disk_keys d"
  by (simp add: disk_contains_def bm_has_def disk_keys_def bm_get_None)

lemma stored_same:
  assumes "dk_db d' = dk_db d" "dk_schemas d' = dk_schemas d"
  shows "stored_batch env d' = stored_batch env d" "stored_row env d' = stored_row env d"
    "entry_view env d' = entry_view env d"
proof -
  show b: "stored_batch env d' = stored_batch env d" by (rule ext) (simp add: stored_batch_def assms cong: if_cong split: sum.split option.split)
  show r: "stored_row env d' = stored_row env d" by (intro ext) (simp add: stored_row_def b)
  show "entry_view env d' = entry_view env d" by (intro ext) (simp add: entry_view_def r split: DiskLoc.split)
qed

lemma stored_cache [simp]:
  "stored_batch env (d\<lparr>dk_cache := c\<rparr>) = stored_batch env d"
  "stored_row env (d\<lparr>dk_cache := c\<rparr>) = stored_row env d"
  "entry_view env (d\<lparr>dk_cache := c\<rparr>) = entry_view env d"
  by (rule stored_same; simp)+

lemma view_cache [simp]:
  "disk_view env (d\<lparr>dk_cache := c\<rparr>) k = disk_view env d k"
  "disk_keys (d\<lparr>dk_cache := c\<rparr>) = disk_keys d"
  "entry_ok env S (d\<lparr>dk_cache := c\<rparr>) e = entry_ok env S d e"
  by (simp_all add: disk_view_def disk_keys_def entry_ok_def split: DiskLoc.split option.split)

section \<open>Reading\<close>

lemma load_batch_stored:
  assumes "disk_core env S d" "stored_batch env d bid = Ok b" "bid < dk_next_batch_id d"
  obtains c where "load_batch env bid d = Ok (b, d\<lparr>dk_cache := c\<rparr>)"
    "\<forall>(i, b)\<in>set c. i < dk_next_batch_id d \<and> stored_batch env d i = Ok b"
proof (cases "find (\<lambda>(i, _). i = bid) (dk_cache d)")
  case None
  obtain raw where raw: "se_get env (dk_db d) bid = Ok (Some raw)" "decode_batch env (dk_schemas d) raw = Ok b"
    using assms(2) by (auto simp: stored_batch_def split: sum.splits option.splits)
  have all: "\<forall>(i, b)\<in>set (dk_cache d @ [(bid, b)]). i < dk_next_batch_id d \<and> stored_batch env d i = Ok b"
    using assms by (auto simp: disk_core_def)
  show thesis
  proof (rule that)
    show "load_batch env bid d = Ok (b, d\<lparr>dk_cache := if SPILL_BATCH_CACHE < length (dk_cache d @ [(bid, b)])
        then drop 1 (dk_cache d @ [(bid, b)]) else dk_cache d @ [(bid, b)]\<rparr>)"
      using None raw by (simp add: load_batch_def Let_def)
    show "\<forall>(i, b)\<in>set (if SPILL_BATCH_CACHE < length (dk_cache d @ [(bid, b)])
        then drop 1 (dk_cache d @ [(bid, b)]) else dk_cache d @ [(bid, b)]). i < dk_next_batch_id d \<and> stored_batch env d i = Ok b"
      using all by (auto dest: in_set_dropD)
  qed
next
  case (Some p)
  then have p: "p \<in> set (dk_cache d)" "fst p = bid" by (auto simp: find_Some_iff in_set_conv_nth)
  then have "snd p = b" using assms(1,2) by (fastforce simp: disk_core_def)
  then have "load_batch env bid d = Ok (b, d\<lparr>dk_cache := dk_cache d\<rparr>)" using Some p by (simp add: load_batch_def case_prod_beta)
  then show thesis by (rule that) (use assms(1) in \<open>simp add: disk_core_def\<close>)
qed

lemma disk_core_cache:
  "disk_core env S d \<Longrightarrow> \<forall>(i, b)\<in>set c. i < dk_next_batch_id d \<and> stored_batch env d i = Ok b \<Longrightarrow>
   disk_core env S (d\<lparr>dk_cache := c\<rparr>)"
  by (simp add: disk_core_def)

lemma record_from_entry_view:
  assumes "disk_core env S d" "entry_ok env S d e"
  obtains r c where "record_from_entry env k e d = Ok (r, d\<lparr>dk_cache := c\<rparr>)" "disk_core env S (d\<lparr>dk_cache := c\<rparr>)"
    "rec_view k r = entry_view env d k e" "good_record S r"
proof (cases "de_loc e")
  case (LocDelete rk)
  show thesis
    by (rule that [of "new_delete rk (de_ordering_value e)" "dk_cache d"])
      (use LocDelete assms(1) in \<open>simp_all add: record_from_entry_def rec_view_def entry_view_def row_of_def good_record_def\<close>)
next
  case (LocData bid i)
  then obtain row where row: "bid < dk_next_batch_id d" "stored_row env d bid i = Some row" "row \<in> S"
    using assms(2) by (auto simp: entry_ok_def)
  then obtain b where b: "stored_batch env d bid = Ok b" "slice_row b i = Ok row"
    by (auto simp: stored_row_def res_bind_def split: sum.splits)
  obtain c where c: "load_batch env bid d = Ok (b, d\<lparr>dk_cache := c\<rparr>)"
    "\<forall>(i, b)\<in>set c. i < dk_next_batch_id d \<and> stored_batch env d i = Ok b"
    using load_batch_stored [OF assms(1) b(1) row(1)] .
  show thesis
    by (rule that [of "new_data k row (de_ordering_value e)" c])
      (use LocData row b c disk_core_cache [OF assms(1) c(2)] in
        \<open>simp_all add: record_from_entry_def rec_view_def entry_view_def row_of_def good_record_def\<close>)
qed

lemma disk_get_view:
  assumes "disk_ok env S d"
  obtains r c where "disk_get env k d = Ok (r, d\<lparr>dk_cache := c\<rparr>)" "disk_ok env S (d\<lparr>dk_cache := c\<rparr>)"
    "map_option (rec_view k) r = disk_view env d k" "\<forall>x. r = Some x \<longrightarrow> good_record S x"
proof -
  have core: "disk_core env S d" using assms by (simp add: disk_ok_def)
  consider (staged) r where "bm_get (dk_staging d) k = Some r"
    | (index) e where "bm_get (dk_staging d) k = None" "bm_get (dk_index d) k = Some e"
    | (absent) "bm_get (dk_staging d) k = None" "bm_get (dk_index d) k = None" by fastforce
  then show thesis
  proof cases
    case staged
    then have "good_record S r" using disk_core_staged [OF core] by blast
    then show thesis using staged that [of "Some r" "dk_cache d"] assms by (simp add: disk_get_def disk_view_def)
  next
    case index
    then have "entry_ok env S d e" using disk_core_indexed [OF core] by blast
    then obtain r c where "record_from_entry env k e d = Ok (r, d\<lparr>dk_cache := c\<rparr>)" "disk_core env S (d\<lparr>dk_cache := c\<rparr>)"
      "rec_view k r = entry_view env d k e" "good_record S r"
      using record_from_entry_view [OF core] by blast
    then show thesis using index that [of "Some r" c] assms by (simp add: disk_get_def disk_view_def disk_ok_def)
  next
    case absent
    then show thesis using that [of None "dk_cache d"] assms by (simp add: disk_get_def disk_view_def)
  qed
qed

section \<open>Flushing\<close>

lemma intern_schema_index:
  assumes "intern_schema s ss = (i, ss')" "distinct ss"
  shows "i < length ss'" "ss' ! i = s" "distinct ss'" "\<exists>ts. ss' = ss @ ts" "set ss' \<subseteq> insert s (set ss)"
proof -
  let ?i = "length (takeWhile (\<lambda>t. t \<noteq> s) ss)"
  have "s \<in> set ss \<and> ss ! ?i = s" if "?i < length ss"
    using nth_length_takeWhile [OF that] that by (metis nth_mem)
  moreover have "s \<notin> set ss" if "\<not> ?i < length ss"
  proof
    assume "s \<in> set ss"
    moreover have "takeWhile (\<lambda>t. t \<noteq> s) ss = ss"
      using that takeWhile_eq_take [of "\<lambda>t. t \<noteq> s" ss] by (metis leI take_all)
    ultimately show False by (metis (mono_tags, lifting) set_takeWhileD)
  qed
  ultimately show "i < length ss'" "ss' ! i = s" "distinct ss'" "\<exists>ts. ss' = ss @ ts" "set ss' \<subseteq> insert s (set ss)"
    using assms by (auto simp: intern_schema_def Let_def split: if_splits)
qed

type_synonym staged_row = "(string \<times> OrderingValue option) \<times> row"

definition group_rows :: "flush_group \<Rightarrow> staged_row list" where
  "group_rows g = (case g of (sid, rows, keys) \<Rightarrow> zip keys rows)"

definition group_ok :: "row set \<Rightarrow> Schema list \<Rightarrow> flush_group \<Rightarrow> bool" where
  "group_ok S ss g \<longleftrightarrow> (case g of (sid, rows, keys) \<Rightarrow> sid < length ss \<and> length keys = length rows \<and> rows \<noteq> [] \<and>
     (\<forall>r\<in>set rows. r \<in> S \<and> row_schema r = ss ! sid))"

lemma group_ok_append: "group_ok S ss g \<Longrightarrow> group_ok S (ss @ ts) g"
  by (cases g) (simp add: group_ok_def nth_append)

lemma add_to_groups_ok:
  assumes "\<forall>g\<in>set gs. group_ok S ss g" "sid < length ss" "r \<in> S" "row_schema r = ss ! sid"
  shows "\<forall>g\<in>set (add_to_groups sid r k gs). group_ok S ss g"
    and "mset (concat (map group_rows (add_to_groups sid r k gs))) = add_mset (k, r) (mset (concat (map group_rows gs)))"
proof -
  have "(\<forall>g\<in>set (add_to_groups sid r k gs). group_ok S ss g) \<and>
    mset (concat (map group_rows (add_to_groups sid r k gs))) = add_mset (k, r) (mset (concat (map group_rows gs)))"
    using assms
    by (induction sid r k gs rule: add_to_groups.induct) (auto simp: group_ok_def group_rows_def)
  then show "\<forall>g\<in>set (add_to_groups sid r k gs). group_ok S ss g"
    "mset (concat (map group_rows (add_to_groups sid r k gs))) = add_mset (k, r) (mset (concat (map group_rows gs)))" by auto
qed

text \<open>Staged records as they go to the groups.\<close>

definition staged_of :: "string \<times> BufferedRecord \<Rightarrow> staged_row" where
  "staged_of e = ((fst e, br_ordering_value (snd e)), the (row_of (snd e)))"

lemma group_step_ok:
  assumes "\<not> br_is_delete rec" "good_record S rec" "distinct ss" "set ss \<subseteq> row_schema ` S" "\<forall>g\<in>set gs. group_ok S ss g"
  obtains ts gs' where "group_step (ss, gs) (k, rec) = Ok (ss @ ts, gs')" "distinct (ss @ ts)" "set (ss @ ts) \<subseteq> row_schema ` S"
    "\<forall>g\<in>set gs'. group_ok S (ss @ ts) g"
    "mset (concat (map group_rows gs')) = add_mset (staged_of (k, rec)) (mset (concat (map group_rows gs)))"
proof -
  obtain row where row: "br_get_record rec = Ok (Some row)" "row \<in> S"
    using assms(1,2) by (auto simp: good_record_def)
  obtain i ss' where i: "intern_schema (row_schema row) ss = (i, ss')" by force
  obtain ts where ts: "ss' = ss @ ts" using intern_schema_index(4) [OF i assms(3)] by blast
  note at = intern_schema_index(1-3,5) [OF i assms(3), unfolded ts]
  have "\<forall>g\<in>set gs. group_ok S (ss @ ts) g" using assms(5) group_ok_append by blast
  note ok = add_to_groups_ok [OF this at(1) row(2) sym [OF at(2)], of "(k, br_ordering_value rec)"]
  have "group_step (ss, gs) (k, rec) = Ok (ss @ ts, add_to_groups i row (k, br_ordering_value rec) gs)"
    using row i ts by (simp add: group_step_def)
  moreover have "staged_of (k, rec) = ((k, br_ordering_value rec), row)" using row by (simp add: staged_of_def row_of_def)
  moreover have "set (ss @ ts) \<subseteq> row_schema ` S" using at(4) row(2) assms(4) by auto
  ultimately show thesis using that at(3) ok by simp
qed

lemma group_fold_ok:
  assumes "\<forall>(k, r)\<in>set es. \<not> br_is_delete r \<and> good_record S r" "distinct ss" "set ss \<subseteq> row_schema ` S" "\<forall>g\<in>set gs. group_ok S ss g"
  obtains ts gs' where "res_fold group_step (ss, gs) es = Ok (ss @ ts, gs')" "distinct (ss @ ts)" "set (ss @ ts) \<subseteq> row_schema ` S"
    "\<forall>g\<in>set gs'. group_ok S (ss @ ts) g" "mset (concat (map group_rows gs')) = mset (map staged_of es) + mset (concat (map group_rows gs))"
  using assms
proof (induction es arbitrary: ss gs thesis)
  case Nil
  show ?case by (rule Nil.prems(1) [of "[]" gs]) (use Nil.prems(3-5) in \<open>simp_all\<close>)
next
  case (Cons e es)
  obtain k r where e: "e = (k, r)" by force
  have r: "\<not> br_is_delete r" "good_record S r" using Cons.prems(2) e by simp_all
  have es: "\<forall>(k, r)\<in>set es. \<not> br_is_delete r \<and> good_record S r" using Cons.prems(2) by simp
  obtain ts gs1 where s: "group_step (ss, gs) (k, r) = Ok (ss @ ts, gs1)" "distinct (ss @ ts)" "set (ss @ ts) \<subseteq> row_schema ` S"
    "\<forall>g\<in>set gs1. group_ok S (ss @ ts) g"
    "mset (concat (map group_rows gs1)) = add_mset (staged_of (k, r)) (mset (concat (map group_rows gs)))"
    using group_step_ok [OF r Cons.prems(3-5), where k = k] by metis
  obtain us gs2 where f: "res_fold group_step (ss @ ts, gs1) es = Ok ((ss @ ts) @ us, gs2)" "distinct ((ss @ ts) @ us)"
    "set ((ss @ ts) @ us) \<subseteq> row_schema ` S" "\<forall>g\<in>set gs2. group_ok S ((ss @ ts) @ us) g"
    "mset (concat (map group_rows gs2)) = mset (map staged_of es) + mset (concat (map group_rows gs1))"
    using Cons.IH [OF _ es s(2-4)] by metis
  show ?case
  proof (rule Cons.prems(1))
    show "res_fold group_step (ss, gs) (e # es) = Ok (ss @ ts @ us, gs2)" using s(1) f(1) e by simp
    show "distinct (ss @ ts @ us)" "set (ss @ ts @ us) \<subseteq> row_schema ` S" "\<forall>g\<in>set gs2. group_ok S (ss @ ts @ us) g"
      using f(2-4) by simp_all
    show "mset (concat (map group_rows gs2)) = mset (map staged_of (e # es)) + mset (concat (map group_rows gs))"
      unfolding f(5) s(5) e by simp
  qed
qed

lemma index_rows_from:
  assumes "bm_ok m" "distinct (map fst keys)"
  shows "bm_ok (fold (\<lambda>(i, (k, ov)). bm_insert k \<lparr>de_ordering_value = ov, de_loc = LocData bid i\<rparr>) (enumerate n keys) m)"
    and "j < length keys \<Longrightarrow> bm_get (fold (\<lambda>(i, (k, ov)). bm_insert k \<lparr>de_ordering_value = ov, de_loc = LocData bid i\<rparr>) (enumerate n keys) m)
      (fst (keys ! j)) = Some \<lparr>de_ordering_value = snd (keys ! j), de_loc = LocData bid (n + j)\<rparr>"
    and "k \<notin> fst ` set keys \<Longrightarrow>
      bm_get (fold (\<lambda>(i, (k, ov)). bm_insert k \<lparr>de_ordering_value = ov, de_loc = LocData bid i\<rparr>) (enumerate n keys) m) k = bm_get m k"
proof -
  let ?f = "\<lambda>(i, (k, ov)). bm_insert k \<lparr>de_ordering_value = ov, de_loc = LocData bid i\<rparr>"
  have "bm_ok (fold ?f (enumerate n keys) m) \<and>
    (\<forall>j<length keys. bm_get (fold ?f (enumerate n keys) m) (fst (keys ! j)) = Some \<lparr>de_ordering_value = snd (keys ! j), de_loc = LocData bid (n + j)\<rparr>) \<and>
    (\<forall>k. k \<notin> fst ` set keys \<longrightarrow> bm_get (fold ?f (enumerate n keys) m) k = bm_get m k)"
    using assms
  proof (induction keys arbitrary: n m)
    case (Cons e keys)
    obtain k ov where e: "e = (k, ov)" by force
    let ?m = "bm_insert k \<lparr>de_ordering_value = ov, de_loc = LocData bid n\<rparr> m"
    have k: "k \<notin> fst ` set keys" "distinct (map fst keys)" using Cons.prems(2) e by (auto simp: image_iff)
    from Cons.IH [OF bm_ok_insert [OF Cons.prems(1)] k(2), of "Suc n" k "\<lparr>de_ordering_value = ov, de_loc = LocData bid n\<rparr>"] k(1) Cons.prems(1) e
    show ?case by (auto simp: nth_Cons split: nat.split)
  qed simp
  then show "bm_ok (fold ?f (enumerate n keys) m)"
    "j < length keys \<Longrightarrow> bm_get (fold ?f (enumerate n keys) m) (fst (keys ! j)) = Some \<lparr>de_ordering_value = snd (keys ! j), de_loc = LocData bid (n + j)\<rparr>"
    "k \<notin> fst ` set keys \<Longrightarrow> bm_get (fold ?f (enumerate n keys) m) k = bm_get m k" by auto
qed

lemma index_rows_facts:
  assumes "bm_ok m" "distinct (map fst keys)"
  shows "bm_ok (index_rows bid keys m)"
    and "j < length keys \<Longrightarrow> bm_get (index_rows bid keys m) (fst (keys ! j)) =
      Some \<lparr>de_ordering_value = snd (keys ! j), de_loc = LocData bid j\<rparr>"
    and "k \<notin> fst ` set keys \<Longrightarrow> bm_get (index_rows bid keys m) k = bm_get m k"
  using index_rows_from(1) [OF assms, of bid 0] index_rows_from(2) [OF assms, of j bid 0] index_rows_from(3) [OF assms, of k bid 0]
  by (simp_all add: index_rows_def)

definition wide_enough :: "row set \<Rightarrow> bool" where
  "wide_enough S \<longleftrightarrow> finite (row_schema ` S) \<and> card (row_schema ` S) \<le> 2 ^ 32"

lemma schemas_bound: "wide_enough S \<Longrightarrow> distinct ss \<Longrightarrow> set ss \<subseteq> row_schema ` S \<Longrightarrow> length ss \<le> 2 ^ 32"
  using card_mono [of "row_schema ` S" "set ss"] distinct_card [of ss] by (simp add: wide_enough_def)

lemma stored_after_put:
  assumes "env_sound env S" "wide_enough S" "disk_core env S d" "group_ok S (dk_schemas d) (sid, rows, keys)"
    and "se_put env (dk_db d) (dk_next_batch_id d) (batch_blob env sid (pack_rows rows)) = Ok db"
    and "dk_db d' = db" "dk_schemas d' = dk_schemas d"
  shows "j < length rows \<Longrightarrow> stored_row env d' (dk_next_batch_id d) j = Some (rows ! j)"
    and "i \<noteq> dk_next_batch_id d \<Longrightarrow> stored_batch env d' i = stored_batch env d i"
    and "i \<noteq> dk_next_batch_id d \<Longrightarrow> stored_row env d' i j = stored_row env d i j"
proof -
  let ?bid = "dk_next_batch_id d"
  note get = env_sound_put [OF assms(1,5)]
  have schemas: "distinct (dk_schemas d)" "set (dk_schemas d) \<subseteq> row_schema ` S" using assms(3) by (simp_all add: disk_core_def)
  have g: "sid < length (dk_schemas d)" "\<forall>r\<in>set rows. r \<in> S \<and> row_schema r = dk_schemas d ! sid" "rows \<noteq> []"
    using assms(4) by (simp_all add: group_ok_def)
  then have u: "uniform S rows" by (auto simp: uniform_def)
  have s: "b_schema (pack_rows rows) = dk_schemas d ! sid" using g by (cases rows) (simp_all add: pack_rows_def)
  obtain b' where b': "decode_batch env (dk_schemas d) (batch_blob env sid (pack_rows rows)) = Ok b'" "same_rows (pack_rows rows) b'"
    using blob_decodes [OF env_sound_codec [OF assms(1)] u g(1) schemas_bound [OF assms(2) schemas] s] by blast
  show "stored_row env d' ?bid j = Some (rows ! j)" if "j < length rows"
  proof -
    have "row_schema (rows ! j) = dk_schemas d ! sid" using g(2) that by simp
    then have "slice_row b' j = Ok (rows ! j)"
      using b'(2) s that by (simp add: slice_row_def same_rows_def pack_rows_def) (metis row_schema_def zip_map_fst_snd)
    then show ?thesis using b'(1) assms(6,7) get by (simp add: stored_row_def stored_batch_def)
  qed
  show other: "stored_batch env d' i = stored_batch env d i" if "i \<noteq> ?bid" for i
    using that assms(6,7) get by (simp add: stored_batch_def cong: if_cong split: sum.split option.split)
  show "stored_row env d' i j = stored_row env d i j" if "i \<noteq> ?bid"
    using other [OF that] by (simp add: stored_row_def)
qed

lemma write_group:
  assumes "env_sound env S" "wide_enough S" "disk_core env S d" "dk_staging d = []" "group_ok S (dk_schemas d) g"
    and "set (dk_schemas d) \<subseteq> row_schema ` S" "distinct (map (fst \<circ> fst) (group_rows g))" "flush_group_step env d g = Ok d'"
  shows "disk_core env S d'" "dk_staging d' = []" "dk_schemas d' = dk_schemas d" "dk_len d' = dk_len d"
    and "\<forall>((k, ov), r)\<in>set (group_rows g). disk_view env d' k = Some (k, Some r, ov)"
    and "\<forall>k. k \<notin> fst ` fst ` set (group_rows g) \<longrightarrow> disk_view env d' k = disk_view env d k"
proof -
  obtain sid rows keys where g: "g = (sid, rows, keys)" by (cases g)
  let ?bid = "dk_next_batch_id d"
  obtain db where db: "se_put env (dk_db d) ?bid (batch_blob env sid (pack_rows rows)) = Ok db"
    "d' = d\<lparr>dk_db := db, dk_next_batch_id := ?bid + 1, dk_index := index_rows ?bid keys (dk_index d)\<rparr>"
    using assms(8) g by (auto simp: flush_group_step_def res_bind_Inr_iff)
  have fields: "dk_db d' = db" "dk_schemas d' = dk_schemas d" "dk_staging d' = []" "dk_next_batch_id d' = ?bid + 1"
    "dk_cache d' = dk_cache d" "dk_index d' = index_rows ?bid keys (dk_index d)" "dk_len d' = dk_len d"
    using db(2) assms(4) by simp_all
  note stored = stored_after_put [OF assms(1-3) assms(5) [unfolded g] db(1) fields(1,2)]
  have len: "length keys = length rows" "sid < length (dk_schemas d)" "\<forall>r\<in>set rows. r \<in> S \<and> row_schema r = dk_schemas d ! sid"
    using assms(5) g by (simp_all add: group_ok_def)
  have dist: "distinct (map fst keys)" using assms(7) g len(1) by (simp add: group_rows_def flip: map_map)
  have "map fst (group_rows g) = keys" using g len(1) by (simp add: group_rows_def)
  then have keys_of: "fst ` fst ` set (group_rows g) = fst ` set keys" by (metis list.set_map)
  have bm: "bm_ok (dk_index d)" using assms(3) by (simp add: disk_core_def)
  note index = index_rows_facts [OF bm dist, where bid = ?bid]
  have old: "entry_ok env S d' e \<and> entry_view env d' k e = entry_view env d k e" if "entry_ok env S d e" for k e
    using that stored(3) fields(4) by (cases "de_loc e") (auto simp: entry_ok_def entry_view_def)
  have new: "entry_ok env S d' \<lparr>de_ordering_value = ov, de_loc = LocData ?bid j\<rparr> \<and>
      entry_view env d' k \<lparr>de_ordering_value = ov, de_loc = LocData ?bid j\<rparr> = (k, Some (rows ! j), ov)" if "j < length rows" for k ov j
    using stored(1) [OF that] fields(4) len(2,3) that assms(6) by (auto simp: entry_ok_def entry_view_def)
  have get: "(\<exists>j<length rows. k = fst (keys ! j) \<and> bm_get (dk_index d') k = Some \<lparr>de_ordering_value = snd (keys ! j), de_loc = LocData ?bid j\<rparr>) \<or>
      k \<notin> fst ` set keys \<and> bm_get (dk_index d') k = bm_get (dk_index d) k" for k
  proof (cases "k \<in> fst ` set keys")
    case True
    then obtain j where "j < length keys" "k = fst (keys ! j)" by (metis image_iff in_set_conv_nth)
    then show ?thesis using index(2) [of j] len(1) fields(6) by auto
  qed (simp add: index(3) fields(6))
  show "dk_staging d' = []" "dk_schemas d' = dk_schemas d" "dk_len d' = dk_len d" using fields by simp_all
  have bm': "bm_ok (dk_index d')" using index(1) fields(6) by simp
  have "entry_ok env S d' e" if "(k, e) \<in> set (dk_index d')" for k e
    using get [of k] bm_get_in [OF bm', of k e] that disk_core_indexed [OF assms(3)] old new by auto
  moreover have "i < dk_next_batch_id d' \<and> stored_batch env d' i = Ok b" if "(i, b) \<in> set (dk_cache d')" for i b
    using that fields(4,5) assms(3) stored(2) by (fastforce simp: disk_core_def)
  ultimately show "disk_core env S d'"
    using assms(3) fields(2,3) bm' by (auto simp: disk_core_def)
  show "\<forall>((k, ov), r)\<in>set (group_rows g). disk_view env d' k = Some (k, Some r, ov)"
  proof (clarify)
    fix k ov r
    assume "((k, ov), r) \<in> set (group_rows g)"
    then obtain j where "j < length rows" "keys ! j = (k, ov)" "rows ! j = r"
      using g len(1) by (auto simp: group_rows_def in_set_zip)
    then show "disk_view env d' k = Some (k, Some r, ov)"
      using index(2) [of j] fields(3,6) len(1) new [of j] by (simp add: disk_view_def bm_get_def)
  qed
  show "\<forall>k. k \<notin> fst ` fst ` set (group_rows g) \<longrightarrow> disk_view env d' k = disk_view env d k"
  proof (intro allI impI)
    fix k
    assume "k \<notin> fst ` fst ` set (group_rows g)"
    then have k: "bm_get (dk_index d') k = bm_get (dk_index d) k" using keys_of index(3) fields(6) by simp
    have "map_option (entry_view env d' k) (bm_get (dk_index d) k) = map_option (entry_view env d k) (bm_get (dk_index d) k)"
      using disk_core_indexed [OF assms(3)] old by (cases "bm_get (dk_index d) k") auto
    then show "disk_view env d' k = disk_view env d k" using k fields(3) assms(4) by (simp add: disk_view_def bm_get_def)
  qed
qed

lemma write_groups:
  assumes "env_sound env S" "wide_enough S" "disk_core env S d" "dk_staging d = []" "\<forall>g\<in>set gs. group_ok S (dk_schemas d) g"
    and "distinct (map (fst \<circ> fst) (concat (map group_rows gs)))" "res_fold (flush_group_step env) d gs = Ok d'"
  shows "disk_core env S d' \<and> dk_staging d' = [] \<and> dk_len d' = dk_len d \<and>
    (\<forall>((k, ov), r)\<in>set (concat (map group_rows gs)). disk_view env d' k = Some (k, Some r, ov)) \<and>
    (\<forall>k. k \<notin> fst ` fst ` set (concat (map group_rows gs)) \<longrightarrow> disk_view env d' k = disk_view env d k)"
  using assms(3-7)
proof (induction gs arbitrary: d)
  case (Cons g gs)
  obtain d1 where d1: "flush_group_step env d g = Ok d1" "res_fold (flush_group_step env) d1 gs = Ok d'"
    using Cons.prems(5) by (auto simp: res_bind_Inr_iff)
  have g: "group_ok S (dk_schemas d) g" "\<forall>g\<in>set gs. group_ok S (dk_schemas d) g" using Cons.prems(3) by simp_all
  have schemas: "set (dk_schemas d) \<subseteq> row_schema ` S" using Cons.prems(1) by (simp add: disk_core_def)
  have dist: "distinct (map (fst \<circ> fst) (group_rows g))" "distinct (map (fst \<circ> fst) (concat (map group_rows gs)))"
    "fst ` fst ` set (group_rows g) \<inter> fst ` fst ` set (concat (map group_rows gs)) = {}"
    using Cons.prems(4) by (auto simp: image_comp comp_def)
  note w = write_group [OF assms(1,2) Cons.prems(1,2) g(1) schemas dist(1) d1(1)]
  have "\<forall>g\<in>set gs. group_ok S (dk_schemas d1) g" using g(2) w(3) by simp
  note ih = Cons.IH [OF w(1,2) this dist(2) d1(2)]
  have "disk_view env d' k = Some (k, Some r, ov)" if "((k, ov), r) \<in> set (group_rows g)" for k ov r
  proof -
    have "k \<in> fst ` fst ` set (group_rows g)" using that by force
    then have "k \<notin> fst ` fst ` set (concat (map group_rows gs))" using dist(3) by blast
    then show ?thesis using ih w(5) that by fastforce
  qed
  then show ?case using ih w(4,6) by (auto simp: image_Un)
qed simp

lemma disk_core_schemas:
  assumes "disk_core env S d" "distinct (dk_schemas d @ ts)" "set (dk_schemas d @ ts) \<subseteq> row_schema ` S"
  defines "d0 \<equiv> d\<lparr>dk_staging := [], dk_schemas := dk_schemas d @ ts\<rparr>"
  shows "disk_core env S d0" "\<And>k. disk_view env d0 k = map_option (entry_view env d k) (bm_get (dk_index d) k)"
proof -
  have batch: "stored_batch env d0 bid = Ok b" if "stored_batch env d bid = Ok b" for bid b
    using that decode_batch_append by (auto simp: stored_batch_def d0_def split: sum.splits option.splits)
  have row: "stored_row env d0 bid i = Some r" if "stored_row env d bid i = Some r" for bid i r
    using that batch by (auto simp: stored_row_def res_bind_def split: sum.splits)
  have entry: "entry_ok env S d0 e \<and> entry_view env d0 k e = entry_view env d k e" if "entry_ok env S d e" for k e
    using that row by (cases "de_loc e") (fastforce simp: entry_ok_def entry_view_def d0_def)+
  then have "\<forall>(k, e)\<in>set (dk_index d). entry_ok env S d0 e" using assms(1) by (auto simp: disk_core_def)
  moreover have "\<forall>(bid, b)\<in>set (dk_cache d). bid < dk_next_batch_id d \<and> stored_batch env d0 bid = Ok b"
    using assms(1) batch by (auto simp: disk_core_def)
  ultimately show "disk_core env S d0" using assms(1-3) by (simp add: disk_core_def d0_def)
  have "disk_view env d0 k = map_option (entry_view env d0 k) (bm_get (dk_index d) k)" for k
    by (simp add: disk_view_def d0_def bm_get_def)
  moreover have "map_option (entry_view env d0 k) (bm_get (dk_index d) k) = map_option (entry_view env d k) (bm_get (dk_index d) k)" for k
    using entry disk_core_indexed [OF assms(1)] by (cases "bm_get (dk_index d) k") auto
  ultimately show "disk_view env d0 k = map_option (entry_view env d k) (bm_get (dk_index d) k)" for k by simp
qed

lemma rec_view_data:
  "\<not> br_is_delete r \<Longrightarrow> good_record S r \<Longrightarrow> rec_view k r = (k, Some (the (row_of r)), br_ordering_value r)"
  by (auto simp: rec_view_def good_record_def row_of_def)

lemma disk_flush_view:
  assumes "env_sound env S" "wide_enough S" "disk_core env S d" "disk_flush env d = Ok d'"
  shows "disk_core env S d' \<and> dk_staging d' = [] \<and> dk_len d' = dk_len d \<and> (\<forall>k. disk_view env d' k = disk_view env d k)"
proof (cases "dk_staging d = []")
  case False
  let ?es = "hash_entries env (dk_staging d)"
  have bm: "bm_ok (dk_staging d)" using assms(3) by (simp add: disk_core_def)
  have staged: "\<forall>(k, r)\<in>set ?es. \<not> br_is_delete r \<and> good_record S r"
    using assms(3) hash_entries_set [OF assms(1) bm] by (simp add: disk_core_def)
  have schemas: "distinct (dk_schemas d)" "set (dk_schemas d) \<subseteq> row_schema ` S" using assms(3) by (simp_all add: disk_core_def)
  obtain ts gs where gs: "res_fold group_step (dk_schemas d, []) ?es = Ok (dk_schemas d @ ts, gs)" "distinct (dk_schemas d @ ts)"
    "set (dk_schemas d @ ts) \<subseteq> row_schema ` S" "\<forall>g\<in>set gs. group_ok S (dk_schemas d @ ts) g"
    "mset (concat (map group_rows gs)) = mset (map staged_of ?es)"
    by (rule group_fold_ok [OF staged schemas, of "[]"]) simp_all
  let ?d0 = "d\<lparr>dk_staging := [], dk_schemas := dk_schemas d @ ts\<rparr>"
  note d0 = disk_core_schemas [OF assms(3) gs(2,3)]
  have fold: "res_fold (flush_group_step env) ?d0 gs = Ok d'" using assms(4) False gs(1) by (simp add: disk_flush_def)
  have "mset (map (fst \<circ> fst) (concat (map group_rows gs))) = mset (map fst ?es)"
    using gs(5) by (simp add: staged_of_def comp_def flip: image_mset.compositionality)
      (simp add: image_mset.compositionality comp_def staged_of_def)
  then have dist: "distinct (map (fst \<circ> fst) (concat (map group_rows gs)))"
    using hash_entries_distinct [OF assms(1) bm] mset_eq_imp_distinct_iff by blast
  note w0 = write_groups [OF assms(1,2) d0(1) _ _ dist fold]
  have rows: "set (concat (map group_rows gs)) = staged_of ` set (dk_staging d)"
    using gs(5) hash_entries_set [OF assms(1) bm] by (metis list.set_map mset_eq_setD)
  have staging0: "dk_staging ?d0 = []" by simp
  have groups0: "\<forall>g\<in>set gs. group_ok S (dk_schemas ?d0) g" using gs(4) by simp
  note w = w0 [OF staging0 groups0]
  have "disk_view env d' k = disk_view env d k" for k
  proof (cases "bm_get (dk_staging d) k")
    case None
    then have "k \<notin> fst ` fst ` set (concat (map group_rows gs))"
      unfolding rows by (auto simp: staged_of_def bm_get_None image_comp comp_def)
    then have "disk_view env d' k = map_option (entry_view env d k) (bm_get (dk_index d) k)"
      using w d0(2) [of k] by simp
    then show ?thesis using None by (simp add: disk_view_def [of env d])
  next
    case (Some r)
    then have "(k, r) \<in> set (dk_staging d)" using bm_get_in [OF bm, of k r] by simp
    then have "((k, br_ordering_value r), the (row_of r)) \<in> set (concat (map group_rows gs))"
      unfolding rows by (force simp: staged_of_def)
    then have "disk_view env d' k = Some (k, Some (the (row_of r)), br_ordering_value r)" using w by fastforce
    then show ?thesis using Some disk_core_staged [OF assms(3) Some] rec_view_data [of r S k] by (simp add: disk_view_def [of env d])
  qed
  then show ?thesis using w by simp
qed (use assms in \<open>simp add: disk_flush_def\<close>)

lemma in_disk_keys: "k \<in> disk_keys d \<longleftrightarrow> disk_view env d k \<noteq> None"
  by (simp add: disk_view_None)

lemma same_view_keys:
  assumes "\<forall>k. disk_view env d' k = disk_view env' d k"
  shows "disk_keys d' = disk_keys d"
  by (rule set_eqI) (simp add: in_disk_keys [of _ d' env] in_disk_keys [of _ d env'] assms)

lemma disk_flush_ok:
  assumes "env_sound env S" "wide_enough S" "disk_ok env S d" "disk_flush env d = Ok d'"
  shows "disk_ok env S d' \<and> dk_staging d' = [] \<and> (\<forall>k. disk_view env d' k = disk_view env d k)"
proof -
  have f: "disk_core env S d' \<and> dk_staging d' = [] \<and> dk_len d' = dk_len d \<and> (\<forall>k. disk_view env d' k = disk_view env d k)"
    by (rule disk_flush_view [OF assms(1,2) _ assms(4)]) (use assms(3) in \<open>simp add: disk_ok_def\<close>)
  then have "disk_keys d' = disk_keys d" using same_view_keys by blast
  then show ?thesis using f assms(3) by (simp add: disk_ok_def)
qed

section \<open>Writing\<close>

lemma disk_put_view:
  assumes "env_sound env S" "wide_enough S" "disk_ok env S d" "good_record S v" "disk_put env k v d = Ok d'"
  shows "disk_ok env S d' \<and> (\<forall>j. disk_view env d' j = (if j = k then Some (rec_view k v) else disk_view env d j))"
proof -
  have core: "disk_core env S d" "dk_len d = card (disk_keys d)" using assms(3) by (simp_all add: disk_ok_def)
  have bm: "bm_ok (dk_staging d)" "bm_ok (dk_index d)" using core(1) by (simp_all add: disk_core_def)
  let ?e = "\<lparr>de_ordering_value = br_ordering_value v, de_loc = LocDelete (br_record_key v)\<rparr>"
  define d1 where "d1 = (if br_is_delete v then d\<lparr>dk_staging := bm_remove k (dk_staging d), dk_index := bm_insert k ?e (dk_index d)\<rparr>
      else d\<lparr>dk_staging := bm_insert k v (dk_staging d)\<rparr>)"
  define d2 where "d2 = (if disk_contains k d then d1 else d1\<lparr>dk_len := dk_len d1 + 1\<rparr>)"
  have put: "disk_put env k v d = (if SPILL_BATCH_ROWS \<le> length (dk_staging d2) then disk_flush env d2 else Ok d2)"
    by (simp add: disk_put_def Let_def d1_def d2_def)
  have same: "dk_db d2 = dk_db d" "dk_schemas d2 = dk_schemas d" "dk_cache d2 = dk_cache d" "dk_next_batch_id d2 = dk_next_batch_id d"
    by (simp_all add: d1_def d2_def)
  note stored = stored_same [OF same(1,2)]
  have entry: "entry_ok env S d2 = entry_ok env S d" by (intro ext) (simp add: entry_ok_def stored same split: DiskLoc.split)
  have staging: "dk_staging d2 = (if br_is_delete v then bm_remove k (dk_staging d) else bm_insert k v (dk_staging d))"
    "dk_index d2 = (if br_is_delete v then bm_insert k ?e (dk_index d) else dk_index d)"
    "dk_len d2 = (if disk_contains k d then dk_len d else dk_len d + 1)"
    by (simp_all add: d1_def d2_def)
  have bm2: "bm_ok (dk_staging d2)" "bm_ok (dk_index d2)" using bm staging by simp_all
  have "\<not> br_is_delete r \<and> good_record S r" if "(j, r) \<in> set (dk_staging d2)" for j r
    using that bm_get_in [OF bm2(1), of j r] staging(1) bm disk_core_staged [OF core(1)] assms(4) by (auto split: if_splits)
  moreover have "entry_ok env S d2 e" if "(j, e) \<in> set (dk_index d2)" for j e
    using that bm_get_in [OF bm2(2), of j e] staging(2) bm disk_core_indexed [OF core(1)] entry by (auto simp: entry_ok_def split: if_splits)
  ultimately have core2: "disk_core env S d2" using core(1) bm2 same stored by (auto simp: disk_core_def)
  have "rec_view k v = (br_record_key v, None, br_ordering_value v)" if "br_is_delete v"
    using that by (cases "br_payload v") (simp_all add: rec_view_def row_of_def br_is_delete_def br_get_record_def payload_is_delete_def payload_get_record_def)
  then have view2: "disk_view env d2 j = (if j = k then Some (rec_view k v) else disk_view env d j)" for j
    using staging bm stored(3) [of env] by (simp add: disk_view_def entry_view_def split: option.split)
  have "disk_keys d2 = insert k (disk_keys d)"
    by (rule set_eqI) (simp add: in_disk_keys [of _ d2 env] in_disk_keys [of _ d env] view2 del: not_None_eq)
  then have "dk_len d2 = card (disk_keys d2)"
    using staging(3) core(2) disk_contains_iff [of k d] by (simp add: card_insert_if insert_absorb)
  then have ok2: "disk_ok env S d2" using core2 by (simp add: disk_ok_def)
  then show ?thesis
    using assms(5) put view2 disk_flush_ok [OF assms(1,2) ok2] by (auto split: if_splits)
qed

lemma disk_remove_view:
  assumes "disk_ok env S d"
  obtains r d' where "disk_remove env k d = Ok (r, d')" "disk_ok env S d'" "map_option (rec_view k) r = disk_view env d k"
    "\<forall>j. disk_view env d' j = (if j = k then None else disk_view env d j)"
proof -
  obtain r c where r: "disk_get env k d = Ok (r, d\<lparr>dk_cache := c\<rparr>)" "disk_ok env S (d\<lparr>dk_cache := c\<rparr>)"
    "map_option (rec_view k) r = disk_view env d k"
    using disk_get_view [OF assms] by metis
  let ?d1 = "d\<lparr>dk_cache := c\<rparr>"
  show thesis
  proof (cases r)
    case None
    have "disk_view env d j = (if j = k then None else disk_view env d j)" for j using None r(3) by auto
    then show thesis using that [of r ?d1] r None by (simp add: disk_remove_def)
  next
    case (Some x)
    define d2 where "d2 = d\<lparr>dk_cache := c, dk_staging := bm_remove k (dk_staging d), dk_index := bm_remove k (dk_index d),
      dk_len := dk_len d - 1\<rparr>"
    have core: "disk_core env S ?d1" "dk_len d = card (disk_keys d)" using r(2) by (simp_all add: disk_ok_def)
    have same: "dk_db d2 = dk_db d" "dk_schemas d2 = dk_schemas d" "dk_next_batch_id d2 = dk_next_batch_id d" by (simp_all add: d2_def)
    note stored = stored_same [OF same(1,2)]
    have entry: "entry_ok env S d2 = entry_ok env S d" by (intro ext) (simp add: entry_ok_def stored same split: DiskLoc.split)
    have maps: "dk_staging d2 = bm_remove k (dk_staging d)" "dk_index d2 = bm_remove k (dk_index d)" "dk_cache d2 = c"
      by (simp_all add: d2_def)
    have view: "disk_view env d2 j = (if j = k then None else disk_view env d j)" for j
      using stored(3) [of env] maps core(1) by (simp add: disk_view_def disk_core_def split: option.split)
    have "disk_core env S d2" using core(1) stored(1) [of env] entry same maps
      by (auto simp: disk_core_def bm_remove_def bm_ok_filter)
    moreover have "disk_keys d2 = disk_keys d - {k}"
      by (rule set_eqI) (auto simp: in_disk_keys [of _ d2 env] in_disk_keys [of _ d env] view)
    moreover have "k \<in> disk_keys d" using Some r(3) [symmetric] by (simp add: in_disk_keys [of _ d env])
    moreover have "dk_len d2 = dk_len d - 1" by (simp add: d2_def)
    ultimately have "disk_ok env S d2" using core(2) by (simp add: disk_ok_def)
    then show thesis using that [of r d2] r Some view by (simp add: disk_remove_def d2_def)
  qed
qed

interpretation dk: record_store "\<lambda>d. env_sound env S \<and> wide_enough S \<and> disk_ok env S d" "disk_view env" "\<lambda>_. good_record S"
  rec_view "disk_put env" "disk_get env" "disk_remove env" for env S
proof
  show "(env_sound env S \<and> wide_enough S \<and> disk_ok env S d') \<and> disk_view env d' = (disk_view env d)(k \<mapsto> rec_view k r)"
    if "env_sound env S \<and> wide_enough S \<and> disk_ok env S d" "good_record S r" "disk_put env k r d = Ok d'" for d r k d'
    using disk_put_view [of env S d r k d'] that by auto
  show "\<exists>r d'. disk_get env k d = Ok (r, d') \<and> (env_sound env S \<and> wide_enough S \<and> disk_ok env S d') \<and>
      disk_view env d' = disk_view env d \<and> map_option (rec_view k) r = disk_view env d k"
    if ok: "env_sound env S \<and> wide_enough S \<and> disk_ok env S d" for d k
  proof -
    have "disk_ok env S d" using ok by simp
    from disk_get_view [OF this, of k] obtain r c where g: "disk_get env k d = Ok (r, d\<lparr>dk_cache := c\<rparr>)"
      "disk_ok env S (d\<lparr>dk_cache := c\<rparr>)" "map_option (rec_view k) r = disk_view env d k" .
    show ?thesis by (intro exI [of _ r] exI [of _ "d\<lparr>dk_cache := c\<rparr>"]) (use g ok in \<open>auto\<close>)
  qed
  show "\<exists>r d'. disk_remove env k d = Ok (r, d') \<and> (env_sound env S \<and> wide_enough S \<and> disk_ok env S d') \<and>
      disk_view env d' = (disk_view env d)(k := None) \<and> map_option (rec_view k) r = disk_view env d k"
    if ok: "env_sound env S \<and> wide_enough S \<and> disk_ok env S d" for d k
  proof -
    have "disk_ok env S d" using ok by simp
    from disk_remove_view [OF this, of k] obtain r d' where g: "disk_remove env k d = Ok (r, d')" "disk_ok env S d'"
      "map_option (rec_view k) r = disk_view env d k" "\<forall>j. disk_view env d' j = (if j = k then None else disk_view env d j)" .
    show ?thesis by (intro exI [of _ r] exI [of _ d']) (use g ok in \<open>auto\<close>)
  qed
qed

section \<open>Draining\<close>

lemma insert_by_loc_mset [simp]: "mset (insert_by_loc e fs) = add_mset e (mset fs)"
  by (induction fs) simp_all

lemma sort_by_loc_mset [simp]: "mset (sort_by_loc es) = mset es"
  by (induction es) (simp_all add: sort_by_loc_def)

lemma loc_le_linear: "loc_le a b \<or> loc_le b a" and loc_le_trans: "loc_le a b \<Longrightarrow> loc_le b c \<Longrightarrow> loc_le a c"
  by (auto simp: loc_le_def)

lemma insert_by_loc_sorted: "sorted_wrt loc_le fs \<Longrightarrow> sorted_wrt loc_le (insert_by_loc e fs)"
proof (induction fs)
  case (Cons f fs)
  have "set (insert_by_loc e fs) = insert e (set fs)"
    using insert_by_loc_mset [of e fs] by (metis set_mset_add_mset_insert set_mset_mset)
  then show ?case using Cons loc_le_linear [of e f] loc_le_trans [of e f] by auto
qed simp

lemma sort_by_loc_sorted: "sorted_wrt loc_le (sort_by_loc es)"
  by (induction es) (simp_all add: sort_by_loc_def insert_by_loc_sorted)

lemma drain_entries_view:
  assumes "disk_core env S d" "\<forall>(k, e)\<in>set es. entry_ok env S d e"
  shows "\<exists>rs. drain_entries env es d = map Ok rs \<and> length rs = length es \<and>
    (\<forall>i<length es. rec_view (fst (es ! i)) (rs ! i) = entry_view env d (fst (es ! i)) (snd (es ! i)))"
  using assms
proof (induction es arbitrary: d)
  case (Cons p es)
  obtain k e where p: "p = (k, e)" by (cases p)
  have "entry_ok env S d e" using Cons.prems(2) p by simp
  then obtain r c where r: "record_from_entry env k e d = Ok (r, d\<lparr>dk_cache := c\<rparr>)" "disk_core env S (d\<lparr>dk_cache := c\<rparr>)"
    "rec_view k r = entry_view env d k e" by (rule record_from_entry_view [OF Cons.prems(1)])
  have "\<forall>(k, e)\<in>set es. entry_ok env S (d\<lparr>dk_cache := c\<rparr>) e" using Cons.prems(2) by auto
  from Cons.IH [OF r(2) this] obtain rs where rs: "drain_entries env es (d\<lparr>dk_cache := c\<rparr>) = map Ok rs" "length rs = length es"
    "\<forall>i<length es. rec_view (fst (es ! i)) (rs ! i) = entry_view env d (fst (es ! i)) (snd (es ! i))" by auto
  show ?case
    by (rule exI [of _ "r # rs"]) (use p r rs in \<open>simp add: nth_Cons split: nat.split\<close>)
qed simp

lemma into_drain_view:
  assumes "env_sound env S" "wide_enough S" "disk_ok env S d"
  shows "(\<exists>e. into_drain_iter env d = [Err e]) \<or> (\<exists>ps. into_drain_iter env d = map (Ok \<circ> snd) ps \<and> distinct (map fst ps) \<and>
    (\<forall>k. map_option (rec_view k) (map_of ps k) = disk_view env d k))"
proof (cases "disk_flush env d")
  case (Inr d1)
  have d1: "disk_ok env S d1" "dk_staging d1 = []" "\<forall>k. disk_view env d1 k = disk_view env d k"
    using disk_flush_ok [OF assms Inr] by simp_all
  have core: "disk_core env S d1" and bm: "bm_ok (dk_index d1)" using d1(1) by (simp_all add: disk_ok_def disk_core_def)
  let ?es = "sort_by_loc (hash_entries env (dk_index d1))"
  have es: "mset ?es = mset (dk_index d1)" using hash_entries_mset [OF assms(1) bm] by simp
  then have es_set: "set ?es = set (dk_index d1)" by (rule mset_eq_setD)
  have "distinct (map fst ?es)" using es bm_distinct_keys [OF bm] by (metis mset_map mset_eq_imp_distinct_iff)
  have "\<forall>(k, e)\<in>set ?es. entry_ok env S d1 e" using core es_set by (auto simp: disk_core_def)
  then obtain rs where rs: "drain_entries env ?es d1 = map Ok rs" "length rs = length ?es"
    "\<forall>i<length ?es. rec_view (fst (?es ! i)) (rs ! i) = entry_view env d1 (fst (?es ! i)) (snd (?es ! i))"
    using drain_entries_view [OF core] by blast
  let ?ps = "zip (map fst ?es) rs"
  have "map_option (rec_view k) (map_of ?ps k) = disk_view env d k" for k
  proof (cases "k \<in> fst ` set ?es")
    case True
    then have "k \<in> set (map fst ?es)" by simp
    then obtain i where i: "i < length ?es" "k = fst (?es ! i)" unfolding in_set_conv_nth by auto
    then have "(k, rs ! i) \<in> set ?ps" using rs(2) by (auto simp: set_zip intro!: exI [of _ i])
    then have "map_of ?ps k = Some (rs ! i)" using \<open>distinct (map fst ?es)\<close> rs(2) by (simp add: map_of_is_SomeI)
    moreover have "bm_get (dk_index d1) k = Some (snd (?es ! i))"
      using bm_get_in [OF bm, of k "snd (?es ! i)"] i es_set nth_mem [OF i(1)] by simp
    ultimately show ?thesis using rs(3) i d1(2) d1(3) [rule_format, of k, symmetric] by (simp add: disk_view_def bm_get_def [of "[]"])
  next
    case False
    then have "map_of ?ps k = None" using rs(2) by (auto simp: map_of_eq_None_iff set_zip)
    moreover have "bm_get (dk_index d1) k = None" using False es_set by (simp add: bm_get_None)
    ultimately show ?thesis using d1(2) d1(3) [rule_format, of k, symmetric] by (simp add: disk_view_def bm_get_def [of "[]"])
  qed
  moreover have "into_drain_iter env d = map (Ok \<circ> snd) ?ps"
  proof -
    have "map snd ?ps = rs" using rs(2) by simp
    moreover have "map (Ok \<circ> snd) ?ps = map Ok (map snd ?ps)" by (simp only: map_map)
    ultimately show ?thesis using Inr rs(1) by (simp add: into_drain_iter_def)
  qed
  moreover have "distinct (map fst ?ps)" using \<open>distinct (map fst ?es)\<close> rs(2) by simp
  ultimately show ?thesis by blast
qed (simp add: into_drain_iter_def)

end
