(* ===== verification/Spillable_Map_Facts.thy ===== *)
theory Spillable_Map_Facts
  imports Spillable_Map Spill_Disk_Facts Merge_Buffer
begin

text \<open>
  The merge map is a map: whatever budget it runs under, and whatever it compacts or spills on the
  way, inserting, reading, removing and merging under a key do to its contents what they do to a
  plain map, and the drain hands out each entry once. The contents are the records as
  \<open>rec_view\<close> shows them. The cap on the bytes retained holds after every operation, and the pins
  count exactly the entries in memory that refer to a batch.
\<close>

section \<open>Contents and invariant\<close>

definition sm_disk_view :: "'db spill_env \<Rightarrow> 'db SpillMap \<Rightarrow> string \<Rightarrow> record_view option" where
  "sm_disk_view env sm k = (case sm_disk sm of None \<Rightarrow> None | Some d \<Rightarrow> disk_view env d k)"

definition sm_contents :: "'db spill_env \<Rightarrow> 'db SpillMap \<Rightarrow> string \<Rightarrow> record_view option" where
  "sm_contents env sm k = (case bm_get (sm_in_memory sm) k of Some r \<Rightarrow> Some (rec_view k r) | None \<Rightarrow> sm_disk_view env sm k)"

text \<open>Batches at one address are one batch.\<close>

fun agree :: "RecordPayload \<Rightarrow> RecordPayload \<Rightarrow> bool" where
  "agree (BatchRef b i) (BatchRef b' i') = (b_ptr b = b_ptr b' \<longrightarrow> b = b')"
| "agree p q = True"

lemma agree_sym: "agree p q = agree q p"
  by (cases "(p, q)" rule: agree.cases) auto

definition fits :: "(string, BufferedRecord) btree_map \<Rightarrow> BufferedRecord \<Rightarrow> bool" where
  "fits m r \<longleftrightarrow> (\<forall>(k, r')\<in>set m. agree (br_payload r) (br_payload r'))"

definition mem_ok :: "row set \<Rightarrow> (string, BufferedRecord) btree_map \<Rightarrow> bool" where
  "mem_ok S m \<longleftrightarrow> bm_ok m \<and> (\<forall>(k, r)\<in>set m. good_record S r \<and> fits m r)"

definition sm_ok :: "'db spill_env \<Rightarrow> row set \<Rightarrow> 'db SpillMap \<Rightarrow> bool" where
  "sm_ok env S sm \<longleftrightarrow> mem_ok S (sm_in_memory sm) \<and>
     (case sm_disk sm of None \<Rightarrow> True
      | Some d \<Rightarrow> disk_ok env S d \<and> (\<forall>k\<in>fst ` set (sm_in_memory sm). k \<notin> disk_keys d))"

lemma mem_okD:
  assumes "mem_ok S m" "bm_get m k = Some r"
  shows "good_record S r" "fits m r"
  using assms bm_get_in [of m k r] by (auto simp: mem_ok_def)

lemma fitsD: "fits m r \<Longrightarrow> bm_ok m \<Longrightarrow> bm_get m k = Some r' \<Longrightarrow> agree (br_payload r) (br_payload r')"
  using bm_get_in [of m k r'] by (auto simp: fits_def)

lemma mem_okI:
  assumes "bm_ok m" "\<And>k r. bm_get m k = Some r \<Longrightarrow> good_record S r"
    and "\<And>k r k' r'. bm_get m k = Some r \<Longrightarrow> bm_get m k' = Some r' \<Longrightarrow> agree (br_payload r) (br_payload r')"
  shows "mem_ok S m"
proof -
  have get: "bm_get m k = Some r" if "(k, r) \<in> set m" for k r using that bm_get_in [OF assms(1)] by simp
  have good: "good_record S r" if "(k, r) \<in> set m" for k r by (rule assms(2) [OF get [OF that]])
  have fits: "fits m r" if "(k, r) \<in> set m" for k r
    unfolding fits_def by clarify (rule assms(3) [OF get [OF that] get])
  show ?thesis unfolding mem_ok_def using assms(1) good fits by blast
qed

lemma mem_ok_bm [simp]: "mem_ok S m \<Longrightarrow> bm_ok m"
  by (simp add: mem_ok_def)

lemma mem_ok_insert:
  assumes "mem_ok S m" "good_record S r" "fits m r"
  shows "mem_ok S (bm_insert k r m)"
proof (rule mem_okI)
  have bm: "bm_ok m" using assms(1) by simp
  show "bm_ok (bm_insert k r m)" using bm by simp
  show "good_record S r'" if "bm_get (bm_insert k r m) j = Some r'" for j r'
    using that bm assms(2) mem_okD(1) [OF assms(1)] by (auto split: if_splits)
  have self: "agree (br_payload r) (br_payload r)" by (cases "br_payload r") simp_all
  show "agree (br_payload x) (br_payload y)"
    if "bm_get (bm_insert k r m) i = Some x" "bm_get (bm_insert k r m) j = Some y" for i j x y
  proof -
    have x: "x = r \<or> bm_get m i = Some x" and y: "y = r \<or> bm_get m j = Some y"
      using that bm by (simp_all split: if_splits)
    have new: "agree (br_payload r) (br_payload z)" if "z = r \<or> bm_get m l = Some z" for l z
      using that self fitsD [OF assms(3) bm, of l z] by blast
    show ?thesis
    proof (cases "x = r")
      case True
      then show ?thesis using new y by blast
    next
      case False
      then have "bm_get m i = Some x" using x by blast
      then show ?thesis using y new [OF x] agree_sym fitsD [OF mem_okD(2) [OF assms(1)] bm, of i x j y] by auto
    qed
  qed
qed

lemma mem_ok_subset:
  assumes "mem_ok S m" "bm_ok m'" "\<And>k r. bm_get m' k = Some r \<Longrightarrow> bm_get m k = Some r"
  shows "mem_ok S m'"
proof (rule mem_okI [OF assms(2)])
  show "good_record S r" if "bm_get m' k = Some r" for k r
    using mem_okD(1) [OF assms(1) assms(3) [OF that]] .
  show "agree (br_payload r) (br_payload r')" if "bm_get m' k = Some r" "bm_get m' k' = Some r'" for k r k' r'
    using fitsD [OF mem_okD(2) [OF assms(1) assms(3) [OF that(1)]] mem_ok_bm [OF assms(1)] assms(3) [OF that(2)]] .
qed

lemma bm_get_key: "bm_get m k = Some v \<Longrightarrow> k \<in> fst ` set m"
  using bm_get_None [of m k] by auto

lemma sm_ok_disk: "sm_ok env S sm \<Longrightarrow> sm_disk sm = Some d \<Longrightarrow> disk_ok env S d"
  by (simp add: sm_ok_def)

lemma sm_ok_mem: "sm_ok env S sm \<Longrightarrow> mem_ok S (sm_in_memory sm)"
  by (simp add: sm_ok_def)

lemma sm_okI:
  assumes "mem_ok S (sm_in_memory sm)" "\<And>d. sm_disk sm = Some d \<Longrightarrow> disk_ok env S d"
    and "\<And>d k. sm_disk sm = Some d \<Longrightarrow> bm_get (sm_in_memory sm) k \<noteq> None \<Longrightarrow> disk_view env d k = None"
  shows "sm_ok env S sm"
  using assms by (auto simp: sm_ok_def bm_get_None disk_view_None split: option.splits)

lemma sm_ok_disjoint:
  assumes "sm_ok env S sm" "bm_get (sm_in_memory sm) k = Some r"
  shows "sm_disk_view env sm k = None"
proof (cases "sm_disk sm")
  case (Some d)
  then have "\<forall>k\<in>fst ` set (sm_in_memory sm). k \<notin> disk_keys d" using assms(1) by (simp add: sm_ok_def)
  then have "k \<notin> disk_keys d" using bm_get_key [OF assms(2)] by blast
  then show ?thesis using Some by (simp add: sm_disk_view_def disk_view_None)
qed (simp add: sm_disk_view_def)

lemma sm_disk_view_disjoint:
  "sm_ok env S sm \<Longrightarrow> sm_disk_view env sm k \<noteq> None \<Longrightarrow> bm_get (sm_in_memory sm) k = None"
  using sm_ok_disjoint by (cases "bm_get (sm_in_memory sm) k") fastforce+

text \<open>The counters do not matter for the contents.\<close>

definition same_entries :: "'db SpillMap \<Rightarrow> 'db SpillMap \<Rightarrow> bool" where
  "same_entries sm sm' \<longleftrightarrow> sm_in_memory sm' = sm_in_memory sm \<and> sm_disk sm' = sm_disk sm"

lemma same_entries_ok:
  assumes "same_entries sm sm'"
  shows "sm_ok env S sm' = sm_ok env S sm" "sm_contents env sm' = sm_contents env sm"
proof -
  have "sm_in_memory sm' = sm_in_memory sm" "sm_disk sm' = sm_disk sm" using assms by (simp_all add: same_entries_def)
  then show "sm_ok env S sm' = sm_ok env S sm" "sm_contents env sm' = sm_contents env sm"
    by (simp_all only: sm_ok_def sm_contents_def [abs_def] sm_disk_view_def)
qed

lemma track_peak_same: "same_entries sm (track_peak sm)"
  by (simp add: same_entries_def track_peak_def)

lemma track_peak_fields [simp]:
  "sm_in_memory (track_peak sm) = sm_in_memory sm" "sm_disk (track_peak sm) = sm_disk sm"
  "sm_max_peak (track_peak sm) = sm_max_peak sm" "sm_pinned (track_peak sm) = sm_pinned sm"
  "sm_owned (track_peak sm) = sm_owned sm" "true_retained_bytes (track_peak sm) = true_retained_bytes sm"
  by (simp_all add: track_peak_def true_retained_bytes_def)

lemma account_fields [simp]:
  "sm_in_memory (account_added env k r sm) = sm_in_memory sm" "sm_disk (account_added env k r sm) = sm_disk sm"
  "sm_max_peak (account_added env k r sm) = sm_max_peak sm"
  "sm_in_memory (account_removed env k r sm) = sm_in_memory sm" "sm_disk (account_removed env k r sm) = sm_disk sm"
  "sm_max_peak (account_removed env k r sm) = sm_max_peak sm"
  "sm_spill_path (account_removed env k r sm) = sm_spill_path sm"
  by (simp_all add: account_added_def account_removed_def)

section \<open>Pins\<close>

definition refers_to :: "nat \<Rightarrow> BufferedRecord \<Rightarrow> bool" where
  "refers_to p r = (case br_payload r of BatchRef b _ \<Rightarrow> b_ptr b = p | _ \<Rightarrow> False)"

definition refs_to :: "nat \<Rightarrow> (string, BufferedRecord) btree_map \<Rightarrow> nat" where
  "refs_to p m = length (filter (\<lambda>(_, r). refers_to p r) m)"

definition pin_count :: "PinnedBatches \<Rightarrow> nat \<Rightarrow> nat" where
  "pin_count P p = (case bm_get (pb_by_ptr P) p of None \<Rightarrow> 0 | Some pin \<Rightarrow> pi_live_refs pin)"

definition pins_ok :: "PinnedBatches \<Rightarrow> bool" where
  "pins_ok P \<longleftrightarrow> bm_ok (pb_by_ptr P) \<and> (\<forall>(p, pin)\<in>set (pb_by_ptr P). 0 < pi_live_refs pin)"

text \<open>A batch is pinned exactly while an entry in memory refers to it, and the count is theirs.\<close>

definition pins_exact :: "'db SpillMap \<Rightarrow> bool" where
  "pins_exact sm \<longleftrightarrow> pins_ok (sm_pinned sm) \<and> (\<forall>p. pin_count (sm_pinned sm) p = refs_to p (sm_in_memory sm))"

lemma pins_okI:
  assumes "bm_ok (pb_by_ptr P)" "\<And>p pin. bm_get (pb_by_ptr P) p = Some pin \<Longrightarrow> 0 < pi_live_refs pin"
  shows "pins_ok P"
  unfolding pins_ok_def using assms bm_get_in [OF assms(1)] by blast

lemma pins_okD: "pins_ok P \<Longrightarrow> bm_get (pb_by_ptr P) p = Some pin \<Longrightarrow> 0 < pi_live_refs pin"
  using bm_get_in [of "pb_by_ptr P" p pin] by (auto simp: pins_ok_def)

lemma add_ref_pins:
  assumes "pins_ok P"
  shows "pins_ok (add_ref env b P)" "pin_count (add_ref env b P) p = pin_count P p + (if b_ptr b = p then 1 else 0)"
proof -
  have bm: "bm_ok (pb_by_ptr P)" using assms by (simp add: pins_ok_def)
  show "pins_ok (add_ref env b P)"
    by (rule pins_okI) (use bm pins_okD [OF assms] in \<open>auto simp: add_ref_def split: option.splits if_splits\<close>)
  show "pin_count (add_ref env b P) p = pin_count P p + (if b_ptr b = p then 1 else 0)"
    using bm by (auto simp: add_ref_def pin_count_def split: option.splits)
qed

lemma remove_ref_pins:
  assumes "pins_ok P"
  shows "pins_ok (remove_ref q P)" "pin_count (remove_ref q P) p = pin_count P p - (if q = p then 1 else 0)"
proof -
  have bm: "bm_ok (pb_by_ptr P)" using assms by (simp add: pins_ok_def)
  show "pins_ok (remove_ref q P)"
    by (rule pins_okI) (use bm pins_okD [OF assms] in \<open>auto simp: remove_ref_def Let_def split: option.splits if_splits\<close>)
  show "pin_count (remove_ref q P) p = pin_count P p - (if q = p then 1 else 0)"
    using bm by (auto simp: remove_ref_def pin_count_def split: option.splits)
qed

text \<open>An entry comes and goes with its reference.\<close>

definition pin_entry :: "'db spill_env \<Rightarrow> BufferedRecord \<Rightarrow> PinnedBatches \<Rightarrow> PinnedBatches" where
  "pin_entry env r P = (case br_payload r of BatchRef b _ \<Rightarrow> add_ref env b P | _ \<Rightarrow> P)"

definition unpin_entry :: "BufferedRecord \<Rightarrow> PinnedBatches \<Rightarrow> PinnedBatches" where
  "unpin_entry r P = (case br_payload r of BatchRef b _ \<Rightarrow> remove_ref (b_ptr b) P | _ \<Rightarrow> P)"

lemma pin_entry_pins:
  "pins_ok P \<Longrightarrow> pins_ok (pin_entry env r P)"
  "pins_ok P \<Longrightarrow> pin_count (pin_entry env r P) p = pin_count P p + (if refers_to p r then 1 else 0)"
  by (simp_all add: pin_entry_def refers_to_def add_ref_pins split: RecordPayload.split)

lemma unpin_entry_pins:
  "pins_ok P \<Longrightarrow> pins_ok (unpin_entry r P)"
  "pins_ok P \<Longrightarrow> pin_count (unpin_entry r P) p = pin_count P p - (if refers_to p r then 1 else 0)"
  by (simp_all add: unpin_entry_def refers_to_def remove_ref_pins split: RecordPayload.split)

lemma account_pins [simp]:
  "sm_pinned (account_added env k r sm) = pin_entry env r (sm_pinned sm)"
  "sm_pinned (account_removed env k r sm) = unpin_entry r (sm_pinned sm)"
  by (simp_all add: account_added_def account_removed_def pin_entry_def unpin_entry_def)

lemma refs_to_simps [simp]:
  "refs_to p [] = 0" "refs_to p ((k, r) # m) = (if refers_to p r then 1 else 0) + refs_to p m"
  by (simp_all add: refs_to_def)

lemma bm_remove_simps:
  "bm_remove k [] = []" "bm_remove k ((j, x) # m) = (if j = k then bm_remove k m else (j, x) # bm_remove k m)"
  by (simp_all add: bm_remove_def)

lemma bm_remove_missing: "k \<notin> fst ` set m \<Longrightarrow> bm_remove k m = m"
  by (induction m) (auto simp: bm_remove_simps)

lemma refs_to_insert:
  "bm_ok m \<Longrightarrow> refs_to p (bm_insert k r m) = refs_to p (bm_remove k m) + (if refers_to p r then 1 else 0)"
proof (induction k r m rule: bm_insert.induct)
  case (2 k r j x m)
  have below: "\<forall>i\<in>fst ` set m. j < i" and ok: "bm_ok m" using 2(2) by (simp_all add: bm_ok_Cons)
  show ?case
  proof (cases "k \<le> j")
    case True
    then have "k \<notin> fst ` set m" using below by force
    then have "bm_remove k m = m" by (rule bm_remove_missing)
    then show ?thesis using True by (auto simp: bm_remove_simps)
  next
    case False
    then show ?thesis using 2(1) ok by (auto simp: bm_remove_simps)
  qed
qed (simp add: bm_remove_simps)

lemma refs_to_remove:
  "bm_ok m \<Longrightarrow> refs_to p m = refs_to p (bm_remove k m) +
     (case bm_get m k of None \<Rightarrow> 0 | Some r \<Rightarrow> if refers_to p r then 1 else 0)"
proof (induction m)
  case (Cons e m)
  obtain j x where e: "e = (j, x)" by force
  have "j \<notin> fst ` set m" using Cons.prems e by (force simp: bm_ok_Cons)
  then have absent: "bm_remove j m = m" by (rule bm_remove_missing)
  show ?case
  proof (cases "j = k")
    case True
    then show ?thesis using absent e by (simp add: bm_get_def bm_remove_simps)
  next
    case False
    have "refs_to p m = refs_to p (bm_remove k m) + (case bm_get m k of None \<Rightarrow> 0 | Some r \<Rightarrow> if refers_to p r then 1 else 0)"
      by (rule Cons.IH) (use Cons.prems e in \<open>simp add: bm_ok_Cons\<close>)
    then show ?thesis using False e by (simp add: bm_get_def bm_remove_simps)
  qed
qed (simp add: bm_remove_simps bm_get_def)

lemma pins_put_new:
  assumes "pins_exact sm" "bm_ok (sm_in_memory sm)" "bm_get (sm_in_memory sm) k = None"
    and "sm_in_memory sm' = bm_insert k r (sm_in_memory sm)" "sm_pinned sm' = pin_entry env r (sm_pinned sm)"
  shows "pins_exact sm'"
  using assms refs_to_insert [OF assms(2)] refs_to_remove [OF assms(2), of _ k]
  by (simp add: pins_exact_def pin_entry_pins)

lemma pins_drop:
  assumes "pins_exact sm" "bm_ok (sm_in_memory sm)" "bm_get (sm_in_memory sm) k = Some r"
    and "sm_in_memory sm' = bm_remove k (sm_in_memory sm)" "sm_pinned sm' = unpin_entry r (sm_pinned sm)"
  shows "pins_exact sm'"
  using assms refs_to_remove [OF assms(2), of _ k] by (simp add: pins_exact_def unpin_entry_pins)

lemma pins_replace:
  assumes "pins_exact sm" "bm_ok (sm_in_memory sm)" "bm_get (sm_in_memory sm) k = Some old"
    and "sm_in_memory sm' = bm_insert k r (sm_in_memory sm)" "sm_pinned sm' = pin_entry env r (unpin_entry old (sm_pinned sm))"
  shows "pins_exact sm'"
  using assms refs_to_insert [OF assms(2)] refs_to_remove [OF assms(2), of _ k]
  by (simp add: pins_exact_def pin_entry_pins unpin_entry_pins)

lemma pins_same: "sm_in_memory sm' = sm_in_memory sm \<Longrightarrow> sm_pinned sm' = sm_pinned sm \<Longrightarrow> pins_exact sm' = pins_exact sm"
  by (simp add: pins_exact_def)

section \<open>What an eviction keeps\<close>

definition keeps :: "'db spill_env \<Rightarrow> row set \<Rightarrow> 'db SpillMap \<Rightarrow> 'db SpillMap \<Rightarrow> bool" where
  "keeps env S sm sm' \<longleftrightarrow> sm_ok env S sm' \<and> sm_contents env sm' = sm_contents env sm \<and> (pins_exact sm \<longrightarrow> pins_exact sm')"

lemma keeps_refl: "sm_ok env S sm \<Longrightarrow> keeps env S sm sm"
  by (simp add: keeps_def)

lemma keeps_trans: "keeps env S sm sm' \<Longrightarrow> keeps env S sm' sm'' \<Longrightarrow> keeps env S sm sm''"
  by (simp add: keeps_def)

lemma track_peak_pins [simp]: "pins_exact (track_peak sm) = pins_exact sm"
  by (rule pins_same) simp_all

lemma keeps_track_peak: "keeps env S sm sm' \<Longrightarrow> keeps env S sm (track_peak sm')"
  by (simp add: keeps_def same_entries_ok [OF track_peak_same])

section \<open>Compaction\<close>

definition victim_ok :: "(string, BufferedRecord) btree_map \<Rightarrow> Victim \<Rightarrow> bool" where
  "victim_ok m v \<longleftrightarrow> length (vi_rows v) = length (vi_keys v) \<and> distinct (vi_keys v) \<and>
     (\<forall>i<length (vi_keys v). \<exists>r. bm_get m (vi_keys v ! i) = Some r \<and> br_payload r = BatchRef (vi_batch v) (vi_rows v ! i))"

lemma live_ptrs_in:
  "bm_ok (sm_in_memory sm) \<Longrightarrow> bm_get (sm_in_memory sm) k = Some r \<Longrightarrow> br_payload r = BatchRef b i \<Longrightarrow> b_ptr b \<in> set (live_ptrs sm)"
  using bm_get_in [of "sm_in_memory sm" k r] by (force simp: live_ptrs_def)

lemma repoint_fields [simp]:
  "sm_disk (repoint env b small e sm) = sm_disk sm" "sm_max_peak (repoint env b small e sm) = sm_max_peak sm"
  "bm_ok (sm_in_memory sm) \<Longrightarrow> bm_ok (sm_in_memory (repoint env b small e sm))"
  by (simp_all add: repoint_def split: option.split)

lemma repoint_get:
  "bm_ok (sm_in_memory sm) \<Longrightarrow> bm_get (sm_in_memory (repoint env b small (n, k) sm)) j =
     (if j = k then map_option (\<lambda>r. r\<lparr>br_payload := BatchRef small n\<rparr>) (bm_get (sm_in_memory sm) k)
      else bm_get (sm_in_memory sm) j)"
  by (simp add: repoint_def split: option.split)

lemma repoint_fold:
  fixes env :: "'db spill_env" and b small :: batch and n :: nat and sm :: "'db SpillMap"
  assumes "distinct keys" "bm_ok (sm_in_memory sm)"
  defines "sm' \<equiv> fold (repoint env b small) (enumerate n keys) sm"
  shows "sm_disk sm' = sm_disk sm \<and> sm_max_peak sm' = sm_max_peak sm \<and> bm_ok (sm_in_memory sm') \<and>
    (\<forall>i<length keys. bm_get (sm_in_memory sm') (keys ! i) =
       map_option (\<lambda>r. r\<lparr>br_payload := BatchRef small (n + i)\<rparr>) (bm_get (sm_in_memory sm) (keys ! i))) \<and>
    (\<forall>k. k \<notin> set keys \<longrightarrow> bm_get (sm_in_memory sm') k = bm_get (sm_in_memory sm) k)"
  using assms(1,2) unfolding sm'_def
proof (induction keys arbitrary: n sm)
  case (Cons k ks)
  let ?sm = "repoint env b small (n, k) sm"
  have "distinct ks" "bm_ok (sm_in_memory ?sm)" using Cons.prems by simp_all
  note ih = Cons.IH [OF this, of "Suc n"]
  have get: "bm_get (sm_in_memory ?sm) j = (if j = k then map_option (\<lambda>r. r\<lparr>br_payload := BatchRef small n\<rparr>)
      (bm_get (sm_in_memory sm) k) else bm_get (sm_in_memory sm) j)" for j
    by (rule repoint_get [OF Cons.prems(2)])
  have "bm_get (sm_in_memory (fold (repoint env b small) (enumerate n (k # ks)) sm)) ((k # ks) ! i) =
      map_option (\<lambda>r. r\<lparr>br_payload := BatchRef small (n + i)\<rparr>) (bm_get (sm_in_memory sm) ((k # ks) ! i))"
    if "i < length (k # ks)" for i
  proof (cases i)
    case 0
    then show ?thesis using ih Cons.prems(1) get by simp
  next
    case (Suc j)
    then have "ks ! j \<noteq> k" "j < length ks" using that Cons.prems(1) by auto
    then show ?thesis using ih Suc get by simp
  qed
  then show ?case using ih get by simp
qed simp

lemma repoint_pins:
  assumes "distinct keys" "bm_ok (sm_in_memory sm)" "pins_exact sm"
    and "\<forall>k\<in>set keys. \<exists>r i. bm_get (sm_in_memory sm) k = Some r \<and> br_payload r = BatchRef b i"
  shows "pins_exact (fold (repoint env b small) (enumerate n keys) sm)"
  using assms
proof (induction keys arbitrary: n sm)
  case (Cons k ks)
  let ?sm = "repoint env b small (n, k) sm"
  obtain r i where r: "bm_get (sm_in_memory sm) k = Some r" "br_payload r = BatchRef b i" using Cons.prems(4) by auto
  have "pins_exact ?sm"
    by (rule pins_replace [OF Cons.prems(3,2) r(1), where r = "r\<lparr>br_payload := BatchRef small n\<rparr>" and env = env])
      (use r in \<open>simp_all add: repoint_def pin_entry_def unpin_entry_def\<close>)
  moreover have "bm_ok (sm_in_memory ?sm)" "distinct ks" using Cons.prems(1,2) by simp_all
  moreover have "\<exists>r i. bm_get (sm_in_memory ?sm) j = Some r \<and> br_payload r = BatchRef b i" if "j \<in> set ks" for j
  proof -
    have "j \<noteq> k" using that Cons.prems(1) by auto
    then show ?thesis using that Cons.prems(4) repoint_get [OF Cons.prems(2)] by simp
  qed
  ultimately show ?case using Cons.IH [of ?sm "Suc n"] by simp
qed simp

lemma interleave_slice:
  assumes "interleave_rows p b rows = Ok small" "i < length rows"
  shows "slice_row small i = slice_row b (rows ! i)" "b_ptr small = p"
  using assms by (auto simp: interleave_rows_def slice_row_def list_all_length split: if_splits)

lemma compact_keeps:
  assumes env: "env_sound env S" and ok: "sm_ok env S sm" and v: "victim_ok (sm_in_memory sm) v"
    and c: "compact_victim_batch env (vi_batch v) (vi_keys v) (vi_rows v) sm = Ok sm'"
  shows "keeps env S sm sm' \<and> sm_max_peak sm' = sm_max_peak sm \<and>
    (\<forall>k. k \<notin> set (vi_keys v) \<longrightarrow> bm_get (sm_in_memory sm') k = bm_get (sm_in_memory sm) k)"
proof -
  let ?p = "se_alloc env (live_ptrs sm)"
  obtain small where small: "interleave_rows ?p (vi_batch v) (vi_rows v) = Ok small"
    "sm' = fold (repoint env (vi_batch v) small) (enumerate 0 (vi_keys v)) sm"
    using c by (auto simp: compact_victim_batch_def res_bind_Inr_iff)
  have mem: "mem_ok S (sm_in_memory sm)" and bm: "bm_ok (sm_in_memory sm)" using mem_ok_bm sm_ok_mem [OF ok] by blast+
  have len: "length (vi_rows v) = length (vi_keys v)" and dist: "distinct (vi_keys v)" using v by (simp_all add: victim_ok_def)
  have fresh: "b_ptr small = ?p" "?p \<notin> set (live_ptrs sm)"
    using small(1) env by (auto simp: interleave_rows_def env_sound_def split: if_splits)
  note fold = repoint_fold [OF dist bm, of env "vi_batch v" small 0, folded small(2), simplified]
  have moved: "\<exists>r i. bm_get (sm_in_memory sm) k = Some r \<and> bm_get (sm_in_memory sm') k = Some (r\<lparr>br_payload := BatchRef small i\<rparr>) \<and>
      br_get_record (r\<lparr>br_payload := BatchRef small i\<rparr>) = br_get_record r \<and> \<not> br_is_delete r" if k: "k \<in> set (vi_keys v)" for k
  proof -
    obtain i where i: "i < length (vi_keys v)" "k = vi_keys v ! i" using k by (metis in_set_conv_nth)
    then obtain r where r: "bm_get (sm_in_memory sm) k = Some r" "br_payload r = BatchRef (vi_batch v) (vi_rows v ! i)"
      using v by (auto simp: victim_ok_def)
    then show ?thesis
      using fold i interleave_slice(1) [OF small(1), of i] len
      by (auto simp: br_get_record_def payload_get_record_def br_is_delete_def payload_is_delete_def)
  qed
  have view: "rec_view k (r\<lparr>br_payload := BatchRef small i\<rparr>) = rec_view k r"
    if "br_get_record (r\<lparr>br_payload := BatchRef small i\<rparr>) = br_get_record r" "\<not> br_is_delete r" for k r i
    using that by (simp add: rec_view_def row_of_def) (simp add: br_is_delete_def payload_is_delete_def)
  have get: "map_option (rec_view k) (bm_get (sm_in_memory sm') k) = map_option (rec_view k) (bm_get (sm_in_memory sm) k)" for k
    using moved [of k] fold view by (cases "k \<in> set (vi_keys v)") auto
  have contents: "sm_contents env sm' = sm_contents env sm"
  proof
    fix k
    show "sm_contents env sm' k = sm_contents env sm k"
      using get [of k] fold
      by (cases "bm_get (sm_in_memory sm) k"; cases "bm_get (sm_in_memory sm') k") (simp_all add: sm_contents_def sm_disk_view_def)
  qed
  have mem': "mem_ok S (sm_in_memory sm')"
  proof (rule mem_okI)
    show "bm_ok (sm_in_memory sm')" using fold by simp
    show "good_record S r" if r: "bm_get (sm_in_memory sm') k = Some r" for k r
    proof (cases "k \<in> set (vi_keys v)")
      case True
      then obtain r0 where "bm_get (sm_in_memory sm) k = Some r0" "br_get_record r = br_get_record r0" "\<not> br_is_delete r0"
        using moved [OF True] r by auto
      then show ?thesis using mem_okD(1) [OF mem, of k r0] by (simp add: good_record_def)
    qed (use r fold mem_okD(1) [OF mem, of k r] in auto)
    have shape: "(\<exists>i. br_payload r = BatchRef small i) \<or> bm_get (sm_in_memory sm) k = Some r"
      if "bm_get (sm_in_memory sm') k = Some r" for k r
      using moved [of k] fold that by (cases "k \<in> set (vi_keys v)") auto
    have other: "agree (BatchRef small i) (br_payload r)" if "bm_get (sm_in_memory sm) k = Some r" for k r i
      using live_ptrs_in [OF bm that] fresh by (cases "br_payload r") auto
    show "agree (br_payload x) (br_payload y)"
      if "bm_get (sm_in_memory sm') i = Some x" "bm_get (sm_in_memory sm') j = Some y" for i j x y
      using shape [OF that(1)] shape [OF that(2)] other [of j y] other [of i x, unfolded agree_sym [of "BatchRef small _"]]
        fitsD [OF mem_okD(2) [OF mem] bm, of i x j y] by auto
  qed
  have "sm_ok env S sm'"
  proof (rule sm_okI [OF mem'])
    show "disk_ok env S d" if "sm_disk sm' = Some d" for d using that fold sm_ok_disk [OF ok] by simp
    show "disk_view env d k = None" if d: "sm_disk sm' = Some d" "bm_get (sm_in_memory sm') k \<noteq> None" for d k
    proof -
      obtain r where "bm_get (sm_in_memory sm) k = Some r" using get [of k] d(2) by (cases "bm_get (sm_in_memory sm) k") auto
      then show ?thesis using sm_ok_disjoint [OF ok] d(1) fold by (simp add: sm_disk_view_def)
    qed
  qed
  moreover have "pins_exact sm'" if "pins_exact sm"
    unfolding small(2)
  proof (rule repoint_pins [OF dist bm that])
    show "\<forall>k\<in>set (vi_keys v). \<exists>r i. bm_get (sm_in_memory sm) k = Some r \<and> br_payload r = BatchRef (vi_batch v) i"
      using v by (fastforce simp: victim_ok_def in_set_conv_nth)
  qed
  ultimately show ?thesis using contents fold by (simp add: keeps_def)
qed

section \<open>Spilling\<close>

definition entries_of :: "(string, BufferedRecord) btree_map \<Rightarrow> string list \<Rightarrow> (string \<times> BufferedRecord) list" where
  "entries_of m ks = map (\<lambda>k. (k, the (bm_get m k))) ks"

lemma take_entries:
  assumes "distinct ks" "\<forall>k\<in>set ks. bm_get (sm_in_memory sm) k \<noteq> None" "bm_ok (sm_in_memory sm)"
  shows "\<exists>sm'. fold (take_entry env) ks (sp, sm) = (sp @ entries_of (sm_in_memory sm) ks, sm') \<and>
    sm_disk sm' = sm_disk sm \<and> sm_max_peak sm' = sm_max_peak sm \<and> bm_ok (sm_in_memory sm') \<and>
    (pins_exact sm \<longrightarrow> pins_exact sm') \<and>
    (\<forall>k. bm_get (sm_in_memory sm') k = (if k \<in> set ks then None else bm_get (sm_in_memory sm) k))"
  using assms
proof (induction ks arbitrary: sp sm)
  case (Cons k ks)
  obtain r where r: "bm_get (sm_in_memory sm) k = Some r" using Cons.prems(2) by auto
  let ?sm = "account_removed env k r (sm\<lparr>sm_in_memory := bm_remove k (sm_in_memory sm)\<rparr>)"
  have step: "take_entry env k (sp, sm) = (sp @ [(k, r)], ?sm)" using r by (simp add: take_entry_def)
  have "\<forall>k\<in>set ks. bm_get (sm_in_memory ?sm) k \<noteq> None" "bm_ok (sm_in_memory ?sm)" "distinct ks"
    using Cons.prems by auto
  from Cons.IH [OF this(3,1,2), of "sp @ [(k, r)]"] obtain sm' where
    ih: "fold (take_entry env) ks (sp @ [(k, r)], ?sm) = ((sp @ [(k, r)]) @ entries_of (sm_in_memory ?sm) ks, sm')"
      "sm_disk sm' = sm_disk sm" "sm_max_peak sm' = sm_max_peak sm" "bm_ok (sm_in_memory sm')"
      "pins_exact ?sm \<longrightarrow> pins_exact sm'"
      "\<forall>j. bm_get (sm_in_memory sm') j = (if j \<in> set ks then None else bm_get (sm_in_memory ?sm) j)" by auto
  have "pins_exact ?sm" if "pins_exact sm"
    by (rule pins_drop [OF that Cons.prems(3) r]) simp_all
  moreover have "entries_of (sm_in_memory ?sm) ks = entries_of (sm_in_memory sm) ks"
    using Cons.prems(1) by (auto simp: entries_of_def)
  ultimately show ?case
    by (intro exI [of _ sm']) (use ih step r in \<open>simp add: entries_of_def\<close>)
qed (simp add: entries_of_def)

lemma disk_puts_view:
  assumes "env_sound env S" "wide_enough S" "disk_ok env S d" "\<forall>(k, r)\<in>set es. good_record S r" "distinct (map fst es)"
    and "res_fold (\<lambda>d (k, r). disk_put env k r d) d es = Ok d'"
  shows "disk_ok env S d' \<and> (\<forall>k. disk_view env d' k = (case map_of es k of None \<Rightarrow> disk_view env d k | Some r \<Rightarrow> Some (rec_view k r)))"
  using assms(3-6)
proof (induction es arbitrary: d)
  case (Cons e es)
  obtain k r where e: "e = (k, r)" by (cases e)
  obtain d1 where d1: "disk_put env k r d = Ok d1" "res_fold (\<lambda>d (k, r). disk_put env k r d) d1 es = Ok d'"
    using Cons.prems(4) e by (auto simp: res_bind_Inr_iff)
  have "good_record S r" using Cons.prems(2) e by simp
  note p = disk_put_view [OF assms(1,2) Cons.prems(1) this d1(1)]
  have "disk_ok env S d1" "\<forall>(k, r)\<in>set es. good_record S r" "distinct (map fst es)" using p Cons.prems by simp_all
  note ih = Cons.IH [OF this d1(2)]
  have "map_of es k = None" using Cons.prems(3) e by (simp add: map_of_eq_None_iff)
  then show ?case using ih p e by (auto split: option.split)
qed simp

lemma disk_create_ok:
  assumes "disk_create env path = Ok d"
  shows "disk_ok env S d \<and> disk_view env d k = None"
  using assms by (auto simp: disk_create_def disk_ok_def disk_core_def disk_keys_def disk_view_def bm_get_def split: sum.splits)

text \<open>The disk tier, opened when it is needed.\<close>

lemma ensure_disk_ok:
  assumes "ensure_disk env sm = Ok (d, sm')" "\<And>d. sm_disk sm = Some d \<Longrightarrow> disk_ok env S d"
  shows "disk_ok env S d \<and> (\<forall>k. disk_view env d k = sm_disk_view env sm k) \<and> sm_in_memory sm' = sm_in_memory sm \<and>
    sm_max_peak sm' = sm_max_peak sm \<and> true_retained_bytes sm' = true_retained_bytes sm \<and> sm_pinned sm' = sm_pinned sm"
  using assms disk_create_ok [of env "sm_spill_path sm" d S]
  by (auto simp: ensure_disk_def sm_disk_view_def true_retained_bytes_def res_bind_Inr_iff split: option.splits)

lemma spill_keeps:
  assumes env: "env_sound env S" "wide_enough S" and ok: "sm_ok env S sm" and v: "victim_ok (sm_in_memory sm) v"
    and s: "spill_victim_batch env (vi_keys v) sm = Ok sm'"
  shows "keeps env S sm sm' \<and> sm_max_peak sm' = sm_max_peak sm \<and>
    (\<forall>k. k \<notin> set (vi_keys v) \<longrightarrow> bm_get (sm_in_memory sm') k = bm_get (sm_in_memory sm) k)"
proof -
  let ?m = "sm_in_memory sm" and ?ks = "vi_keys v"
  have mem: "mem_ok S ?m" and bm: "bm_ok ?m" using mem_ok_bm sm_ok_mem [OF ok] by blast+
  have dist: "distinct ?ks" using v by (simp add: victim_ok_def)
  have present: "bm_get ?m k \<noteq> None" if "k \<in> set ?ks" for k
    using that v by (fastforce simp: victim_ok_def in_set_conv_nth)
  then have all: "\<forall>k\<in>set ?ks. bm_get ?m k \<noteq> None" by blast
  obtain sm1 where sm1: "fold (take_entry env) ?ks ([], sm) = (entries_of ?m ?ks, sm1)" "sm_disk sm1 = sm_disk sm"
    "sm_max_peak sm1 = sm_max_peak sm" "bm_ok (sm_in_memory sm1)" "pins_exact sm \<longrightarrow> pins_exact sm1"
    "\<forall>k. bm_get (sm_in_memory sm1) k = (if k \<in> set ?ks then None else bm_get ?m k)"
    using take_entries [OF dist all bm, of env "[]"] by auto
  obtain d sm2 d1 d2 where d: "ensure_disk env sm1 = Ok (d, sm2)"
    "res_fold (\<lambda>d (k, r). disk_put env k r d) d (entries_of ?m ?ks) = Ok d1" "disk_flush env d1 = Ok d2" "sm' = sm2\<lparr>sm_disk := Some d2\<rparr>"
    using s sm1(1) by (auto simp: spill_victim_batch_def res_bind_Inr_iff)
  have disk1: "disk_ok env S e" if "sm_disk sm1 = Some e" for e using that sm1(2) sm_ok_disk [OF ok] by simp
  note e = ensure_disk_ok [OF d(1) disk1]
  have good: "\<forall>(k, r)\<in>set (entries_of ?m ?ks). good_record S r"
    using present mem_okD(1) [OF mem] by (fastforce simp: entries_of_def)
  have keys: "distinct (map fst (entries_of ?m ?ks))" using dist by (simp add: entries_of_def comp_def)
  have "disk_ok env S d" using e by simp
  note p = disk_puts_view [OF env this good keys d(2)]
  then have "disk_ok env S d1" by simp
  note f = disk_flush_ok [OF env this d(3)]
  have found: "map_of (entries_of ?m ?ks) k = (if k \<in> set ?ks then bm_get ?m k else None)" for k
    using present by (auto simp: entries_of_def map_of_map_restrict restrict_map_def)
  have view: "disk_view env d2 k = (if k \<in> set ?ks then map_option (rec_view k) (bm_get ?m k) else sm_disk_view env sm k)" for k
    using f p e found [of k] present [of k] sm1(2) by (auto simp: sm_disk_view_def split: option.split)
  have mem': "sm_in_memory sm' = sm_in_memory sm1" "sm_disk sm' = Some d2" using d(4) e by simp_all
  have contents: "sm_contents env sm' = sm_contents env sm"
  proof
    fix k
    show "sm_contents env sm' k = sm_contents env sm k"
      using view [of k] mem' sm1(6) present [of k] by (auto simp: sm_contents_def sm_disk_view_def split: option.split)
  qed
  have "sm_ok env S sm'"
  proof (rule sm_okI)
    show "mem_ok S (sm_in_memory sm')"
      by (rule mem_ok_subset [OF mem]) (use mem' sm1(4,6) in \<open>auto split: if_splits\<close>)
    show "disk_ok env S x" if "sm_disk sm' = Some x" for x using that mem' f by simp
    show "disk_view env x k = None" if x: "sm_disk sm' = Some x" "bm_get (sm_in_memory sm') k \<noteq> None" for x k
    proof -
      have "k \<notin> set ?ks" "bm_get ?m k \<noteq> None" using x(2) mem'(1) sm1(6) by (auto split: if_splits)
      then show ?thesis using x(1) mem'(2) view [of k] sm_ok_disjoint [OF ok, of k] by auto
    qed
  qed
  moreover have "pins_exact sm' = pins_exact sm1" using d(4) e by (intro pins_same) simp_all
  ultimately show ?thesis using contents sm1(3,5,6) mem' d(4) e by (auto simp: keeps_def)
qed

section \<open>Choosing the victims\<close>

definition victims_ok :: "(string, BufferedRecord) btree_map \<Rightarrow> Victim list \<Rightarrow> bool" where
  "victims_ok m vs \<longleftrightarrow> distinct (map (\<lambda>v. b_ptr (vi_batch v)) vs) \<and> (\<forall>v\<in>set vs. victim_ok m v)"

text \<open>What the grouping knows of a victim after the entries \<open>es\<close>.\<close>

definition victim_from :: "(string \<times> BufferedRecord) list \<Rightarrow> nat \<Rightarrow> Victim \<Rightarrow> bool" where
  "victim_from es p v \<longleftrightarrow> b_ptr (vi_batch v) = p \<and> length (vi_rows v) = length (vi_keys v) \<and> distinct (vi_keys v) \<and>
     vi_keys v \<noteq> [] \<and>
     (\<forall>i<length (vi_keys v). \<exists>r. (vi_keys v ! i, r) \<in> set es \<and> br_payload r = BatchRef (vi_batch v) (vi_rows v ! i))"

lemma victim_from_mono: "victim_from es p v \<Longrightarrow> victim_from (es @ fs) p v"
  by (fastforce simp: victim_from_def)

lemma add_victim_from:
  assumes m: "bm_ok m" "\<forall>p v. bm_get m p = Some v \<longrightarrow> victim_from es p v"
    and e: "fst e \<notin> fst ` set es" "\<forall>(k, r)\<in>set es. agree (br_payload r) (br_payload (snd e))"
  shows "bm_ok (add_victim env e m) \<and> (\<forall>p v. bm_get (add_victim env e m) p = Some v \<longrightarrow> victim_from (es @ [e]) p v)"
proof (cases "br_payload (snd e)")
  case (BatchRef b i)
  let ?v = "case bm_get m (b_ptr b) of Some v \<Rightarrow> v
    | None \<Rightarrow> \<lparr>vi_batch = b, vi_batch_bytes = se_array_size env b, vi_keys = [], vi_rows = []\<rparr>"
  let ?w = "?v\<lparr>vi_keys := vi_keys ?v @ [fst e], vi_rows := vi_rows ?v @ [i]\<rparr>"
  have add: "add_victim env e m = bm_insert (b_ptr b) ?w m" using BatchRef by (simp add: add_victim_def Let_def)
  have w: "victim_from (es @ [e]) (b_ptr b) ?w"
  proof (cases "bm_get m (b_ptr b)")
    case None
    have "\<exists>r. (fst e, r) \<in> set (es @ [e]) \<and> br_payload r = BatchRef b i"
      using BatchRef by (intro exI [of _ "snd e"]) simp
    then show ?thesis using None by (simp add: victim_from_def)
  next
    case (Some v)
    then have v: "victim_from es (b_ptr b) v" using m(2) by simp
    have "0 < length (vi_keys v)" using v by (simp add: victim_from_def)
    then obtain r where "(vi_keys v ! 0, r) \<in> set es" "br_payload r = BatchRef (vi_batch v) (vi_rows v ! 0)"
      using v unfolding victim_from_def by blast
    then have batch: "vi_batch v = b" using e(2) BatchRef v by (fastforce simp: victim_from_def)
    have "vi_keys v ! j \<in> fst ` set es" if "j < length (vi_keys v)" for j
      using v that unfolding victim_from_def by force
    then have new: "fst e \<notin> set (vi_keys v)" using e(1) by (metis in_set_conv_nth)
    have rows: "\<exists>r. ((vi_keys v @ [fst e]) ! j, r) \<in> set (es @ [e]) \<and> br_payload r = BatchRef b ((vi_rows v @ [i]) ! j)"
      if "j < Suc (length (vi_keys v))" for j
    proof (cases "j = length (vi_keys v)")
      case True
      then show ?thesis using v BatchRef by (intro exI [of _ "snd e"]) (simp add: nth_append victim_from_def)
    next
      case False
      then have "j < length (vi_keys v)" using that by simp
      then show ?thesis using v batch unfolding victim_from_def by (auto simp: nth_append)
    qed
    then show ?thesis using Some v new batch by (simp add: victim_from_def)
  qed
  show ?thesis
    unfolding add using m w victim_from_mono by (simp split: if_splits)
qed (use m victim_from_mono in \<open>auto simp: add_victim_def\<close>)

lemma group_victims_from:
  assumes "distinct (map fst es)" "\<forall>(k, r)\<in>set es. \<forall>(k', r')\<in>set es. agree (br_payload r) (br_payload r')"
  shows "bm_ok (fold (add_victim env) es []) \<and> (\<forall>p v. bm_get (fold (add_victim env) es []) p = Some v \<longrightarrow> victim_from es p v)"
  using assms
proof (induction es rule: rev_induct)
  case (snoc e es)
  have "distinct (map fst es)" "\<forall>(k, r)\<in>set es. \<forall>(k', r')\<in>set es. agree (br_payload r) (br_payload r')"
    "fst e \<notin> fst ` set es" "\<forall>(k, r)\<in>set es. agree (br_payload r) (br_payload (snd e))"
    using snoc.prems by auto
  then show ?case using add_victim_from [of "fold (add_victim env) es []" es e env] snoc.IH by simp
qed (simp add: bm_get_def)

lemma group_victims_ok:
  assumes env: "env_sound env S" and ok: "sm_ok env S sm"
  shows "victims_ok (sm_in_memory sm) (map snd (group_victims env sm))"
proof -
  let ?m = "sm_in_memory sm" and ?g = "group_victims env sm"
  have mem: "mem_ok S ?m" and bm: "bm_ok ?m" using mem_ok_bm sm_ok_mem [OF ok] by blast+
  have es: "set (hash_entries env ?m) = set ?m" by (rule hash_entries_set [OF env bm])
  have agree: "\<forall>(k, r)\<in>set ?m. \<forall>(k', r')\<in>set ?m. agree (br_payload r) (br_payload r')"
    using mem by (auto simp: mem_ok_def fits_def)
  note g = group_victims_from [OF hash_entries_distinct [OF env bm], unfolded es, OF agree, of env]
  have src: "victim_from (hash_entries env ?m) p v" if "(p, v) \<in> set ?g" for p v
    using that g bm_get_in [of ?g p v] by (simp add: group_victims_def)
  have "victim_ok ?m v" if "(p, v) \<in> set ?g" for p v
    using src [OF that] bm_get_in [OF bm] es unfolding victim_from_def victim_ok_def by simp
  moreover have "map (\<lambda>v. b_ptr (vi_batch v)) (map snd ?g) = map fst ?g"
    using src by (auto simp: victim_from_def)
  moreover have "distinct (map fst ?g)" using g bm_distinct_keys [of ?g] by (simp add: group_victims_def)
  ultimately show ?thesis unfolding victims_ok_def by (metis (mono_tags, lifting) imageE list.set_map prod.collapse)
qed

lemma victims_ok_mset: "mset vs = mset ws \<Longrightarrow> victims_ok m vs \<Longrightarrow> victims_ok m ws"
  unfolding victims_ok_def by (metis mset_eq_imp_distinct_iff mset_eq_setD mset_map)

lemma order_victims_mset: "mset (order_victims m) = mset (map snd m)"
  by (simp add: order_victims_def)

text \<open>Handling one victim leaves the others as they were.\<close>

lemma victims_ok_step:
  assumes "victims_ok m (v # vs)" "\<forall>k. k \<notin> set (vi_keys v) \<longrightarrow> bm_get m' k = bm_get m k"
  shows "victims_ok m' vs"
proof -
  have "victim_ok m' w" if w: "w \<in> set vs" for w
  proof -
    have vw: "victim_ok m v" "victim_ok m w" "b_ptr (vi_batch v) \<noteq> b_ptr (vi_batch w)"
      using assms(1) w by (auto simp: victims_ok_def)
    have "bm_get m' (vi_keys w ! i) = bm_get m (vi_keys w ! i)" if "i < length (vi_keys w)" for i
    proof -
      have "vi_keys w ! i \<noteq> vi_keys v ! j" if "j < length (vi_keys v)" for j
        using vw \<open>i < length (vi_keys w)\<close> that by (fastforce simp: victim_ok_def)
      then show ?thesis using assms(2) by (metis in_set_conv_nth)
    qed
    then show ?thesis using vw(2) by (simp add: victim_ok_def)
  qed
  then show ?thesis using assms(1) by (simp add: victims_ok_def)
qed

section \<open>Staying within the budget\<close>

lemma evict_victim_keeps:
  assumes "env_sound env S" "wide_enough S" "sm_ok env S sm" "victim_ok (sm_in_memory sm) v" "evict_victim env v sm = Ok sm'"
  shows "keeps env S sm sm' \<and> sm_max_peak sm' = sm_max_peak sm \<and>
    (\<forall>k. k \<notin> set (vi_keys v) \<longrightarrow> bm_get (sm_in_memory sm') k = bm_get (sm_in_memory sm) k)"
  using assms(5) compact_keeps [OF assms(1,3,4)] spill_keeps [OF assms(1-4)]
  by (auto simp: evict_victim_def Let_def split: if_splits)

lemma evict_victims_keeps:
  assumes "env_sound env S" "wide_enough S" "sm_ok env S sm" "victims_ok (sm_in_memory sm) vs" "evict_victims env target vs sm = Ok sm'"
  shows "keeps env S sm sm' \<and> sm_max_peak sm' = sm_max_peak sm"
  using assms(3-5)
proof (induction vs arbitrary: sm)
  case (Cons v vs)
  show ?case
  proof (cases "true_retained_bytes sm \<le> target")
    case False
    then obtain sm1 where sm1: "evict_victim env v sm = Ok sm1" "evict_victims env target vs sm1 = Ok sm'"
      using Cons.prems(3) by (auto simp: res_bind_Inr_iff)
    have "victim_ok (sm_in_memory sm) v" using Cons.prems(2) by (simp add: victims_ok_def)
    note k = evict_victim_keeps [OF assms(1,2) Cons.prems(1) this sm1(1)]
    have "sm_ok env S sm1" "victims_ok (sm_in_memory sm1) vs"
      using k victims_ok_step [OF Cons.prems(2)] by (simp_all add: keeps_def)
    from Cons.IH [OF this sm1(2)] show ?thesis using k keeps_trans by auto
  qed (use Cons.prems keeps_refl in auto)
qed (use keeps_refl in auto)

lemma evict_source_keeps:
  assumes "env_sound env S" "wide_enough S" "sm_ok env S sm" "evict_source_batches_until env target sm = Ok sm'"
  shows "keeps env S sm sm' \<and> sm_max_peak sm' = sm_max_peak sm"
proof -
  obtain sm1 where "evict_victims env target (order_victims (group_victims env sm)) sm = Ok sm1" "sm' = track_peak sm1"
    using assms(4) by (auto simp: evict_source_batches_until_def res_bind_Inr_iff)
  moreover have "victims_ok (sm_in_memory sm) (order_victims (group_victims env sm))"
    using victims_ok_mset group_victims_ok [OF assms(1,3)] order_victims_mset by metis
  ultimately show ?thesis using evict_victims_keeps [OF assms(1-3)] keeps_track_peak [of env S sm sm1] by auto
qed

text \<open>The cap on the bytes retained.\<close>

definition within_cap :: "'db SpillMap \<Rightarrow> bool" where
  "within_cap sm = (case sm_max_peak sm of None \<Rightarrow> True | Some cap \<Rightarrow> true_retained_bytes sm \<le> cap)"

lemma enforce_keeps:
  assumes "env_sound env S" "wide_enough S" "sm_ok env S sm" "enforce_memory_limits env sm = Ok sm'"
  shows "keeps env S sm sm' \<and> sm_max_peak sm' = sm_max_peak sm \<and> within_cap sm'"
proof -
  obtain sm1 where sm1: "(if over_budget sm then evict_source_batches_until env (four_fifths (in_memory_allowance sm)) sm else Ok sm) = Ok sm1"
    "enforce_peak_cap env sm1 = Ok sm'"
    using assms(4) by (auto simp: enforce_memory_limits_def res_bind_Inr_iff)
  have k1: "keeps env S sm sm1 \<and> sm_max_peak sm1 = sm_max_peak sm"
    using sm1(1) evict_source_keeps [OF assms(1-3)] keeps_refl [OF assms(3)] by (auto split: if_splits)
  then have ok1: "sm_ok env S sm1" by (simp add: keeps_def)
  have "keeps env S sm1 sm' \<and> sm_max_peak sm' = sm_max_peak sm1 \<and> within_cap sm'"
  proof (cases "sm_max_peak sm1")
    case None
    then show ?thesis using sm1(2) keeps_refl [OF ok1] by (auto simp: enforce_peak_cap_def within_cap_def)
  next
    case (Some cap)
    show ?thesis
    proof (cases "true_retained_bytes sm1 \<le> cap")
      case True
      then show ?thesis using sm1(2) Some keeps_refl [OF ok1] by (auto simp: enforce_peak_cap_def within_cap_def)
    next
      case False
      then have e: "evict_source_batches_until env (four_fifths cap) sm1 = Ok sm'" "true_retained_bytes sm' \<le> cap"
        using sm1(2) Some by (auto simp: enforce_peak_cap_def res_bind_Inr_iff split: if_splits)
      show ?thesis using evict_source_keeps [OF assms(1,2) ok1 e(1)] e(2) Some by (simp add: within_cap_def)
    qed
  qed
  then show ?thesis using k1 keeps_trans by auto
qed

section \<open>The operations\<close>

definition sm_admits :: "row set \<Rightarrow> 'db SpillMap \<Rightarrow> BufferedRecord \<Rightarrow> bool" where
  "sm_admits S sm r \<longleftrightarrow> good_record S r \<and> fits (sm_in_memory sm) r"

lemma in_memory_put:
  assumes "sm_ok env S sm" "sm_admits S sm v" "sm_disk_view env sm k = None"
    and "sm_in_memory sm' = bm_insert k v (sm_in_memory sm)" "sm_disk sm' = sm_disk sm"
  shows "sm_ok env S sm' \<and> sm_contents env sm' = (sm_contents env sm)(k \<mapsto> rec_view k v)"
proof -
  have mem: "mem_ok S (sm_in_memory sm)" and bm: "bm_ok (sm_in_memory sm)" using mem_ok_bm sm_ok_mem [OF assms(1)] by blast+
  have "sm_contents env sm' j = ((sm_contents env sm)(k \<mapsto> rec_view k v)) j" for j
    using bm assms(4,5) by (simp add: sm_contents_def sm_disk_view_def split: option.split)
  moreover have "sm_ok env S sm'"
  proof (rule sm_okI)
    show "mem_ok S (sm_in_memory sm')" using mem_ok_insert [OF mem] assms(2,4) by (simp add: sm_admits_def)
    show "disk_ok env S d" if "sm_disk sm' = Some d" for d using that assms(5) sm_ok_disk [OF assms(1)] by simp
    show "disk_view env d j = None" if d: "sm_disk sm' = Some d" "bm_get (sm_in_memory sm') j \<noteq> None" for d j
      using d assms(3-5) bm sm_ok_disjoint [OF assms(1), of j] by (auto simp: sm_disk_view_def split: if_splits)
  qed
  ultimately show ?thesis by blast
qed

lemma on_disk_put:
  assumes "env_sound env S" "wide_enough S" "sm_ok env S sm" "good_record S v" "bm_get (sm_in_memory sm) k = None"
    and "disk_ok env S d" "\<forall>k. disk_view env d k = sm_disk_view env sm k" "disk_put env k v d = Ok d1"
    and "sm_in_memory sm' = sm_in_memory sm" "sm_disk sm' = Some d1"
  shows "sm_ok env S sm' \<and> sm_contents env sm' = (sm_contents env sm)(k \<mapsto> rec_view k v)"
proof -
  have p: "disk_ok env S d1" "\<forall>j. disk_view env d1 j = (if j = k then Some (rec_view k v) else sm_disk_view env sm j)"
    using disk_put_view [OF assms(1,2,6,4,8)] assms(7) by simp_all
  have "sm_contents env sm' j = ((sm_contents env sm)(k \<mapsto> rec_view k v)) j" for j
    using p(2) assms(5,9,10) by (simp add: sm_contents_def sm_disk_view_def split: option.split)
  moreover have "sm_ok env S sm'"
  proof (rule sm_okI)
    show "mem_ok S (sm_in_memory sm')" using sm_ok_mem [OF assms(3)] assms(9) by simp
    show "disk_ok env S x" if "sm_disk sm' = Some x" for x using that assms(10) p(1) by simp
    show "disk_view env x j = None" if x: "sm_disk sm' = Some x" "bm_get (sm_in_memory sm') j \<noteq> None" for x j
      using x assms(5,9,10) p(2) sm_ok_disjoint [OF assms(3), of j] by auto
  qed
  ultimately show ?thesis by blast
qed

lemma sm_insert_new_view:
  assumes "env_sound env S" "wide_enough S" "sm_ok env S sm" "sm_admits S sm v" "sm_contents env sm k = None"
    and "sm_insert_new env k v sm = Ok sm'"
  shows "sm_ok env S sm' \<and> sm_contents env sm' = (sm_contents env sm)(k \<mapsto> rec_view k v) \<and>
    sm_max_peak sm' = sm_max_peak sm \<and> (within_cap sm \<longrightarrow> within_cap sm') \<and> (pins_exact sm \<longrightarrow> pins_exact sm')"
proof -
  have none: "bm_get (sm_in_memory sm) k = None" "sm_disk_view env sm k = None"
    using assms(5) by (auto simp: sm_contents_def split: option.splits)
  let ?to_disk = "\<not> (case br_payload v of BatchRef _ _ \<Rightarrow> True | _ \<Rightarrow> False) \<and> over_budget sm"
  show ?thesis
  proof (cases ?to_disk)
    case True
    then obtain d sm1 d1 where d: "ensure_disk env sm = Ok (d, sm1)" "disk_put env k v d = Ok d1" "sm' = sm1\<lparr>sm_disk := Some d1\<rparr>"
      using assms(6) by (auto simp: sm_insert_new_def Let_def res_bind_Inr_iff)
    note e = ensure_disk_ok [OF d(1) sm_ok_disk [OF assms(3)]]
    have "sm_ok env S sm' \<and> sm_contents env sm' = (sm_contents env sm)(k \<mapsto> rec_view k v)"
      by (rule on_disk_put [OF assms(1-3) _ none(1) _ _ d(2)]) (use e d(3) assms(4) in \<open>simp_all add: sm_admits_def\<close>)
    moreover have "pins_exact sm' = pins_exact sm" using e d(3) by (intro pins_same) simp_all
    ultimately show ?thesis using e d(3) by (auto simp: within_cap_def true_retained_bytes_def split: option.split)
  next
    case False
    let ?sm1 = "account_added env k v sm"
    let ?sm2 = "track_peak (?sm1\<lparr>sm_in_memory := bm_insert k v (sm_in_memory ?sm1)\<rparr>)"
    have fin: "enforce_memory_limits env ?sm2 = Ok sm'" using assms(6) False by (simp add: sm_insert_new_def Let_def split: if_splits)
    have p: "sm_ok env S ?sm2 \<and> sm_contents env ?sm2 = (sm_contents env sm)(k \<mapsto> rec_view k v)"
      by (rule in_memory_put [OF assms(3,4) none(2)]) simp_all
    have bm: "bm_ok (sm_in_memory sm)" using mem_ok_bm sm_ok_mem [OF assms(3)] by blast
    have pins: "pins_exact ?sm2" if "pins_exact sm"
      by (rule pins_put_new [OF that bm none(1), where r = v and env = env]) simp_all
    have "sm_ok env S ?sm2" using p by simp
    from enforce_keeps [OF assms(1,2) this fin] p pins show ?thesis by (simp add: keeps_def)
  qed
qed

lemma sm_insert_view:
  assumes "env_sound env S" "wide_enough S" "sm_ok env S sm" "sm_admits S sm v" "sm_insert env k v sm = Ok sm'"
  shows "sm_ok env S sm' \<and> sm_contents env sm' = (sm_contents env sm)(k \<mapsto> rec_view k v) \<and>
    sm_max_peak sm' = sm_max_peak sm \<and> (within_cap sm \<longrightarrow> within_cap sm') \<and> (pins_exact sm \<longrightarrow> pins_exact sm')"
proof (cases "bm_get (sm_in_memory sm) k")
  case (Some x)
  let ?sm1 = "account_added env k v (account_removed env k x sm)"
  let ?sm2 = "track_peak (?sm1\<lparr>sm_in_memory := bm_insert k v (sm_in_memory ?sm1)\<rparr>)"
  have fin: "enforce_memory_limits env ?sm2 = Ok sm'" using assms(5) Some by (simp add: sm_insert_def Let_def)
  have p: "sm_ok env S ?sm2 \<and> sm_contents env ?sm2 = (sm_contents env sm)(k \<mapsto> rec_view k v)"
    by (rule in_memory_put [OF assms(3,4) sm_ok_disjoint [OF assms(3) Some]]) simp_all
  have bm: "bm_ok (sm_in_memory sm)" using mem_ok_bm sm_ok_mem [OF assms(3)] by blast
  have pins: "pins_exact ?sm2" if "pins_exact sm"
    by (rule pins_replace [OF that bm Some, where r = v and env = env]) simp_all
  have "sm_ok env S ?sm2" using p by simp
  from enforce_keeps [OF assms(1,2) this fin] p pins show ?thesis by (simp add: keeps_def)
next
  case None
  show ?thesis
  proof (cases "sm_disk_view env sm k = None")
    case True
    then have new: "sm_insert_new env k v sm = Ok sm'"
      using assms(5) None by (auto simp: sm_insert_def sm_disk_view_def disk_contains_iff disk_view_None split: option.splits)
    have "sm_contents env sm k = None" using None True by (simp add: sm_contents_def)
    then show ?thesis by (rule sm_insert_new_view [OF assms(1-4) _ new])
  next
    case False
    then obtain d where d: "sm_disk sm = Some d" "disk_contains k d"
      by (auto simp: sm_disk_view_def disk_contains_iff in_disk_keys [of _ _ env] split: option.splits)
    then obtain d1 where d1: "disk_put env k v d = Ok d1" "sm' = sm\<lparr>sm_disk := Some d1\<rparr>"
      using assms(5) None by (auto simp: sm_insert_def res_bind_Inr_iff)
    have "sm_ok env S sm' \<and> sm_contents env sm' = (sm_contents env sm)(k \<mapsto> rec_view k v)"
      by (rule on_disk_put [OF assms(1-3) _ None _ _ d1(1)])
        (use d d1(2) assms(4) sm_ok_disk [OF assms(3)] in \<open>simp_all add: sm_admits_def sm_disk_view_def\<close>)
    moreover have "pins_exact sm' = pins_exact sm" using d1(2) by (intro pins_same) simp_all
    ultimately show ?thesis using d1(2) by (simp add: within_cap_def true_retained_bytes_def split: option.split)
  qed
qed

lemma sm_get_view:
  assumes "sm_ok env S sm"
  obtains r sm' where "sm_get env k sm = Ok (r, sm')" "sm_ok env S sm'" "sm_contents env sm' = sm_contents env sm"
    "map_option (rec_view k) r = sm_contents env sm k" "\<forall>x. r = Some x \<longrightarrow> good_record S x"
    "sm_in_memory sm' = sm_in_memory sm" "sm_max_peak sm' = sm_max_peak sm" "true_retained_bytes sm' = true_retained_bytes sm"
    "sm_pinned sm' = sm_pinned sm" "sm_disk sm' = None \<longleftrightarrow> sm_disk sm = None"
proof (cases "bm_get (sm_in_memory sm) k")
  case (Some r)
  show thesis
    by (rule that [of "Some r" sm])
      (use assms Some mem_okD(1) [OF sm_ok_mem [OF assms] Some] in \<open>simp_all add: sm_get_def sm_contents_def\<close>)
next
  case None
  show thesis
  proof (cases "sm_disk sm")
    case None': None
    show thesis
      by (rule that [of None sm]) (use assms None None' in \<open>simp_all add: sm_get_def sm_contents_def sm_disk_view_def\<close>)
  next
    case (Some d)
    from disk_get_view [OF sm_ok_disk [OF assms Some], of k] obtain r c where
      r: "disk_get env k d = Ok (r, d\<lparr>dk_cache := c\<rparr>)" "disk_ok env S (d\<lparr>dk_cache := c\<rparr>)"
      "map_option (rec_view k) r = disk_view env d k" "\<forall>x. r = Some x \<longrightarrow> good_record S x" .
    let ?sm = "sm\<lparr>sm_disk := Some (d\<lparr>dk_cache := c\<rparr>)\<rparr>"
    have view: "sm_disk_view env ?sm = sm_disk_view env sm" using Some by (auto simp: sm_disk_view_def)
    have ok: "sm_ok env S ?sm" using assms r(2) Some by (simp add: sm_ok_def)
    have contents: "sm_contents env ?sm = sm_contents env sm"
      by (rule ext) (simp add: sm_contents_def view split: option.split)
    have at: "sm_contents env sm k = disk_view env d k" using None Some by (simp add: sm_contents_def sm_disk_view_def)
    have get: "sm_get env k sm = Ok (r, ?sm)" using None Some r(1) by (simp add: sm_get_def)
    show thesis
      by (rule that [OF get ok contents]) (use r(3,4) at Some in \<open>simp_all add: true_retained_bytes_def\<close>)
  qed
qed

lemma sm_remove_view:
  assumes "sm_ok env S sm"
  shows "\<exists>r sm'. sm_remove env k sm = Ok (r, sm') \<and> sm_ok env S sm' \<and> sm_contents env sm' = (sm_contents env sm)(k := None) \<and>
    map_option (rec_view k) r = sm_contents env sm k \<and> (pins_exact sm \<longrightarrow> pins_exact sm')"
proof (cases "bm_get (sm_in_memory sm) k")
  case (Some r)
  let ?sm = "account_removed env k r (sm\<lparr>sm_in_memory := bm_remove k (sm_in_memory sm)\<rparr>)"
  have mem: "mem_ok S (sm_in_memory sm)" and bm: "bm_ok (sm_in_memory sm)" using mem_ok_bm sm_ok_mem [OF assms] by blast+
  have get: "bm_get (sm_in_memory ?sm) j = (if j = k then None else bm_get (sm_in_memory sm) j)" for j by simp
  have "sm_ok env S ?sm"
  proof (rule sm_okI)
    show "mem_ok S (sm_in_memory ?sm)" by (rule mem_ok_subset [OF mem]) (use bm get in \<open>auto split: if_splits\<close>)
    show "disk_ok env S d" if "sm_disk ?sm = Some d" for d using that sm_ok_disk [OF assms] by simp
    show "disk_view env d j = None" if d: "sm_disk ?sm = Some d" "bm_get (sm_in_memory ?sm) j \<noteq> None" for d j
      using d get sm_ok_disjoint [OF assms, of j] by (auto simp: sm_disk_view_def split: if_splits)
  qed
  moreover have "sm_contents env ?sm j = ((sm_contents env sm)(k := None)) j" for j
    using sm_ok_disjoint [OF assms Some] by (simp add: sm_contents_def sm_disk_view_def split: option.split)
  moreover have "pins_exact ?sm" if "pins_exact sm" by (rule pins_drop [OF that bm Some]) simp_all
  moreover have "sm_remove env k sm = Ok (Some r, ?sm)" using Some by (simp add: sm_remove_def)
  ultimately show ?thesis using Some by (intro exI [of _ "Some r"] exI [of _ ?sm]) (auto simp: sm_contents_def)
next
  case None
  show ?thesis
  proof (cases "sm_disk sm")
    case None': None
    have "sm_contents env sm k = None" using None None' by (simp add: sm_contents_def sm_disk_view_def)
    then show ?thesis using None None' assms by (intro exI [of _ None] exI [of _ sm]) (auto simp: sm_remove_def)
  next
    case (Some d)
    from disk_remove_view [OF sm_ok_disk [OF assms Some], of k] obtain r d' where
      r: "disk_remove env k d = Ok (r, d')" "disk_ok env S d'" "map_option (rec_view k) r = disk_view env d k"
      "\<forall>j. disk_view env d' j = (if j = k then None else disk_view env d j)" .
    let ?sm = "sm\<lparr>sm_disk := Some d'\<rparr>"
    have "sm_ok env S ?sm"
    proof (rule sm_okI)
      show "mem_ok S (sm_in_memory ?sm)" using sm_ok_mem [OF assms] by simp
      show "disk_ok env S x" if "sm_disk ?sm = Some x" for x using that r(2) by simp
      show "disk_view env x j = None" if x: "sm_disk ?sm = Some x" "bm_get (sm_in_memory ?sm) j \<noteq> None" for x j
        using x r(4) Some sm_ok_disjoint [OF assms, of j] by (auto simp: sm_disk_view_def)
    qed
    moreover have "sm_contents env ?sm j = ((sm_contents env sm)(k := None)) j" for j
      using r(4) None Some by (simp add: sm_contents_def sm_disk_view_def split: option.split)
    moreover have "pins_exact ?sm = pins_exact sm" by (rule pins_same) simp_all
    moreover have "sm_remove env k sm = Ok (r, ?sm)" using None Some r(1) by (simp add: sm_remove_def)
    ultimately show ?thesis using None Some r(3)
      by (intro exI [of _ r] exI [of _ ?sm]) (auto simp: sm_contents_def sm_disk_view_def)
  qed
qed

interpretation sm: record_store "\<lambda>sm. env_sound env S \<and> wide_enough S \<and> sm_ok env S sm" "sm_contents env" "sm_admits S"
  rec_view "sm_insert env" "sm_get env" "sm_remove env" for env S
proof
  show "(env_sound env S \<and> wide_enough S \<and> sm_ok env S m') \<and> sm_contents env m' = (sm_contents env m)(k \<mapsto> rec_view k r)"
    if "env_sound env S \<and> wide_enough S \<and> sm_ok env S m" "sm_admits S m r" "sm_insert env k r m = Ok m'" for m r k m'
    using sm_insert_view [of env S m r k m'] that by simp
  show "\<exists>r m'. sm_get env k m = Ok (r, m') \<and> (env_sound env S \<and> wide_enough S \<and> sm_ok env S m') \<and>
      sm_contents env m' = sm_contents env m \<and> map_option (rec_view k) r = sm_contents env m k"
    if ok: "env_sound env S \<and> wide_enough S \<and> sm_ok env S m" for m k
  proof -
    have "sm_ok env S m" using ok by simp
    from sm_get_view [OF this, of k] show ?thesis using ok by metis
  qed
  show "\<exists>r m'. sm_remove env k m = Ok (r, m') \<and> (env_sound env S \<and> wide_enough S \<and> sm_ok env S m') \<and>
      sm_contents env m' = (sm_contents env m)(k := None) \<and> map_option (rec_view k) r = sm_contents env m k"
    if ok: "env_sound env S \<and> wide_enough S \<and> sm_ok env S m" for m k
    using sm_remove_view [of env S m k] ok by auto
qed

section \<open>Merging in place\<close>

text \<open>A merge function that asks a record only for what the map keeps of it, and answers with records
  the map admits.\<close>

definition same_view :: "string \<Rightarrow> BufferedRecord option \<Rightarrow> BufferedRecord option \<Rightarrow> bool" where
  "same_view k e e' \<longleftrightarrow> map_option (rec_view k) e = map_option (rec_view k) e'"

definition merge_fn_ok :: "row set \<Rightarrow> 'db SpillMap \<Rightarrow> string \<Rightarrow> (BufferedRecord option \<Rightarrow> BufferedRecord option result) \<Rightarrow> bool" where
  "merge_fn_ok S sm k f \<longleftrightarrow> (\<forall>e r. f e = Ok (Some r) \<longrightarrow> sm_admits S sm r) \<and>
     (\<forall>e e' r r'. same_view k e e' \<and> f e = Ok r \<and> f e' = Ok r' \<longrightarrow> same_view k r r') \<and>
     (\<forall>e e'. same_view k e e' \<longrightarrow> is_ok (f e) = is_ok (f e'))"

lemma sm_merge_view:
  assumes "env_sound env S" "wide_enough S" "sm_ok env S sm" "merge_fn_ok S sm k f" "sm_merge_in_place env k f sm = Ok (existed, sm')"
  shows "sm_ok env S sm' \<and> (existed \<longleftrightarrow> sm_contents env sm k \<noteq> None) \<and> (within_cap sm \<longrightarrow> within_cap sm') \<and> (pins_exact sm \<longrightarrow> pins_exact sm') \<and>
    (\<exists>e r. map_option (rec_view k) e = sm_contents env sm k \<and> f e = Ok r \<and>
      sm_contents env sm' = (case r of None \<Rightarrow> sm_contents env sm | Some x \<Rightarrow> (sm_contents env sm)(k \<mapsto> rec_view k x)))"
proof (cases "sm_disk sm")
  case disk: (Some d)
  from sm_get_view [OF assms(3), of k] obtain e sm1 where g: "sm_get env k sm = Ok (e, sm1)" "sm_ok env S sm1"
    "sm_contents env sm1 = sm_contents env sm" "map_option (rec_view k) e = sm_contents env sm k"
    "sm_in_memory sm1 = sm_in_memory sm" "sm_max_peak sm1 = sm_max_peak sm" "true_retained_bytes sm1 = true_retained_bytes sm"
    "sm_pinned sm1 = sm_pinned sm"
    by metis
  have cap: "within_cap sm1 = within_cap sm" using g(6,7) by (simp add: within_cap_def split: option.split)
  have pins: "pins_exact sm1 = pins_exact sm" by (rule pins_same [OF g(5,8)])
  have existed: "e \<noteq> None \<longleftrightarrow> sm_contents env sm k \<noteq> None" using g(4) [symmetric] by (cases e) simp_all
  obtain r where r: "f e = Ok r" using assms(5) disk g(1) by (auto simp: sm_merge_in_place_def res_bind_Inr_iff)
  show ?thesis
  proof (cases r)
    case None
    then have "existed = (e \<noteq> None)" "sm' = sm1" using assms(5) disk g(1) r by (auto simp: sm_merge_in_place_def)
    then show ?thesis using g existed cap pins r None by (intro conjI exI [of _ e] exI [of _ r]) auto
  next
    case (Some x)
    then have ins: "existed = (e \<noteq> None)" "sm_insert env k x sm1 = Ok sm'"
      using assms(5) disk g(1) r by (auto simp: sm_merge_in_place_def res_bind_Inr_iff)
    have "sm_admits S sm x" using assms(4) r Some unfolding merge_fn_ok_def by blast
    then have "sm_admits S sm1 x" using g(5) by (simp add: sm_admits_def)
    note p = sm_insert_view [OF assms(1,2) g(2) this ins(2)]
    then show ?thesis using g(3,4) existed cap pins r Some ins(1) by (intro conjI exI [of _ e] exI [of _ r]) auto
  qed
next
  case disk: None
  show ?thesis
  proof (cases "bm_get (sm_in_memory sm) k")
    case None
    have none: "sm_contents env sm k = None" using disk None by (simp add: sm_contents_def sm_disk_view_def)
    obtain r where r: "f None = Ok r" using assms(5) disk None by (auto simp: sm_merge_in_place_def res_bind_Inr_iff)
    show ?thesis
    proof (cases r)
      case None': None
      then have "\<not> existed" "sm' = sm" using assms(5) disk None r by (auto simp: sm_merge_in_place_def)
      then show ?thesis using none assms(3) r None' by (intro conjI exI [of _ None] exI [of _ r]) auto
    next
      case (Some x)
      then have ins: "\<not> existed" "sm_insert env k x sm = Ok sm'"
        using assms(5) disk None r by (auto simp: sm_merge_in_place_def res_bind_Inr_iff)
      have "sm_admits S sm x" using assms(4) r Some unfolding merge_fn_ok_def by blast
      note p = sm_insert_view [OF assms(1-3) this ins(2)]
      then show ?thesis using none r Some ins(1) by (intro conjI exI [of _ None] exI [of _ r]) auto
    qed
  next
    case (Some slot)
    have at: "sm_contents env sm k = Some (rec_view k slot)" using Some by (simp add: sm_contents_def)
    obtain r where f: "f (Some slot) = Ok r" "existed"
      using assms(5) disk Some by (auto simp: sm_merge_in_place_def res_bind_Inr_iff Let_def)
    have "\<exists>sm1. enforce_memory_limits env (track_peak sm1) = Ok sm' \<and> (r = None \<longrightarrow> sm1 = sm) \<and>
      (\<forall>x. r = Some x \<longrightarrow> sm_in_memory sm1 = bm_insert k x (sm_in_memory sm) \<and> sm_disk sm1 = sm_disk sm \<and>
        sm_pinned sm1 = pin_entry env x (unpin_entry slot (sm_pinned sm)))"
    proof (cases r)
      case None
      then have "enforce_memory_limits env (track_peak sm) = Ok sm'"
        using assms(5) disk Some f(1) by (auto simp: sm_merge_in_place_def res_bind_Inr_iff Let_def)
      then show ?thesis using None by blast
    next
      case x: (Some x)
      show ?thesis
        using assms(5) disk Some f(1) unfolding x
        by (auto simp: sm_merge_in_place_def res_bind_Inr_iff Let_def pin_entry_def unpin_entry_def)
    qed
    then obtain sm1 where r: "f (Some slot) = Ok r" "existed" "enforce_memory_limits env (track_peak sm1) = Ok sm'"
      "r = None \<longrightarrow> sm1 = sm" "\<forall>x. r = Some x \<longrightarrow> sm_in_memory sm1 = bm_insert k x (sm_in_memory sm) \<and> sm_disk sm1 = sm_disk sm \<and>
        sm_pinned sm1 = pin_entry env x (unpin_entry slot (sm_pinned sm))"
      using f by blast
    have p: "sm_ok env S sm1 \<and> sm_contents env sm1 = (case r of None \<Rightarrow> sm_contents env sm | Some x \<Rightarrow> (sm_contents env sm)(k \<mapsto> rec_view k x))"
    proof (cases r)
      case None
      then show ?thesis using r(4) assms(3) by simp
    next
      case x: (Some x)
      have admits: "sm_admits S sm x" using assms(4) r(1) x unfolding merge_fn_ok_def by blast
      have "sm_ok env S sm1 \<and> sm_contents env sm1 = (sm_contents env sm)(k \<mapsto> rec_view k x)"
        by (rule in_memory_put [OF assms(3) admits sm_ok_disjoint [OF assms(3) Some]]) (use r(5) x in simp_all)
      then show ?thesis using x by simp
    qed
    have "sm_ok env S (track_peak sm1)" "sm_contents env (track_peak sm1) = sm_contents env sm1"
      using p by (simp_all add: same_entries_ok [OF track_peak_same])
    moreover have "pins_exact sm1" if pins: "pins_exact sm"
    proof (cases r)
      case x: (Some x)
      show ?thesis by (rule pins_replace [OF pins mem_ok_bm [OF sm_ok_mem [OF assms(3)]] Some]) (use r(5) x in simp_all)
    qed (use pins r(4) in simp)
    ultimately show ?thesis using enforce_keeps [OF assms(1,2) _ r(3)] p r(1,2) at
      by (intro conjI exI [of _ "Some slot"] exI [of _ r]) (simp_all add: keeps_def)
  qed
qed

section \<open>Draining\<close>

lemma sm_drain_view:
  assumes "env_sound env S" "wide_enough S" "sm_ok env S sm" "\<forall>r\<in>set (sm_drain_iter env sm). is_ok r"
  shows "\<exists>ps. sm_drain_iter env sm = map (Ok \<circ> snd) ps \<and> distinct (map fst ps) \<and>
    (\<forall>k. map_option (rec_view k) (map_of ps k) = sm_contents env sm k)"
proof -
  let ?m = "hash_entries env (sm_in_memory sm)"
  have bm: "bm_ok (sm_in_memory sm)" using mem_ok_bm sm_ok_mem [OF assms(3)] by blast
  have mem: "map_of ?m k = bm_get (sm_in_memory sm) k" for k
    using hash_entries_distinct [OF assms(1) bm] hash_entries_set [OF assms(1) bm] bm_distinct_keys [OF bm]
    unfolding bm_get_def by (metis map_of_eqI map_of_inject_set list.set_map)
  have fst_mem: "distinct (map fst ?m)" by (rule hash_entries_distinct [OF assms(1) bm])
  have here: "map (\<lambda>(_, r). Ok r) ?m = map (Ok \<circ> snd) ?m" by auto
  show ?thesis
  proof (cases "sm_disk sm")
    case None
    then show ?thesis using mem fst_mem here
      by (intro exI [of _ ?m]) (simp add: sm_drain_iter_def sm_contents_def sm_disk_view_def split: option.split)
  next
    case (Some d)
    have "\<forall>r\<in>set (into_drain_iter env d). is_ok r" using assms(4) Some by (simp add: sm_drain_iter_def)
    then obtain ps where ps: "into_drain_iter env d = map (Ok \<circ> snd) ps" "distinct (map fst ps)"
      "\<forall>k. map_option (rec_view k) (map_of ps k) = disk_view env d k"
      using into_drain_view [OF assms(1,2) sm_ok_disk [OF assms(3) Some]] by auto
    have disk: "disk_view env d k = None" if "bm_get (sm_in_memory sm) k \<noteq> None" for k
      using that sm_ok_disjoint [OF assms(3), of k] Some by (auto simp: sm_disk_view_def)
    have "fst ` set ?m \<inter> fst ` set ps = {}"
    proof (rule ccontr)
      assume "fst ` set ?m \<inter> fst ` set ps \<noteq> {}"
      then obtain k where k: "k \<in> fst ` set ?m" "k \<in> fst ` set ps" by blast
      have "map_of ?m k \<noteq> None" "map_of ps k \<noteq> None" using k by (simp_all add: map_of_eq_None_iff)
      then show False using mem disk [of k] ps(3) [rule_format, of k] by auto
    qed
    then have "distinct (map fst (?m @ ps))" using fst_mem ps(2) by auto
    moreover have "map_option (rec_view k) (map_of (?m @ ps) k) = sm_contents env sm k" for k
      using mem [of k] ps(3) [rule_format, of k] disk [of k] Some
      by (auto simp: sm_contents_def sm_disk_view_def map_add_def split: option.splits)
    moreover have "sm_drain_iter env sm = map (Ok \<circ> snd) (?m @ ps)" using here ps(1) Some by (simp add: sm_drain_iter_def)
    ultimately show ?thesis by blast
  qed
qed

section \<open>Compaction at the end of the scan\<close>

lemma compact_steps_keep:
  assumes "env_sound env S" "wide_enough S" "sm_ok env S sm" "victims_ok (sm_in_memory sm) vs"
    and "res_fold (\<lambda>sm v. compact_step env num den v sm) sm vs = Ok sm'"
  shows "keeps env S sm sm'"
  using assms(3-5)
proof (induction vs arbitrary: sm)
  case (Cons v vs)
  obtain sm1 where sm1: "compact_step env num den v sm = Ok sm1" "res_fold (\<lambda>sm v. compact_step env num den v sm) sm1 vs = Ok sm'"
    using Cons.prems(3) by (auto simp: res_bind_Inr_iff)
  have "victim_ok (sm_in_memory sm) v" using Cons.prems(2) by (simp add: victims_ok_def)
  then have k: "keeps env S sm sm1 \<and> (\<forall>k. k \<notin> set (vi_keys v) \<longrightarrow> bm_get (sm_in_memory sm1) k = bm_get (sm_in_memory sm) k)"
    using sm1(1) compact_keeps [OF assms(1) Cons.prems(1)] keeps_refl [OF Cons.prems(1)]
    by (auto simp: compact_step_def Let_def split: if_splits)
  have "sm_ok env S sm1" "victims_ok (sm_in_memory sm1) vs"
    using k victims_ok_step [OF Cons.prems(2)] by (simp_all add: keeps_def)
  from Cons.IH [OF this sm1(2)] show ?case using k keeps_trans by blast
qed (use keeps_refl in auto)

lemma compact_sparse_keeps:
  assumes "env_sound env S" "wide_enough S" "sm_ok env S sm" "compact_sparse_batches env num den sm = Ok sm'"
  shows "keeps env S sm sm'"
proof -
  obtain sm1 where sm1: "res_fold (\<lambda>sm v. compact_step env num den v sm) sm (map snd (group_victims env sm)) = Ok sm1" "sm' = track_peak sm1"
    using assms(4) by (auto simp: compact_sparse_batches_def res_bind_Inr_iff)
  show ?thesis unfolding sm1(2)
    by (rule keeps_track_peak [OF compact_steps_keep [OF assms(1-3) group_victims_ok [OF assms(1,3)] sm1(1)]])
qed

section \<open>A sample environment\<close>

text \<open>One flag column; the codec writes a byte per row, RocksDB is an association list.\<close>

definition flag_field :: Field where
  "flag_field = \<lparr>f_name = ''flag'', f_type = DtBoolean, f_nullable = False\<rparr>"

definition flag_row :: "bool \<Rightarrow> row" where
  "flag_row b = [(flag_field, VBool b)]"

definition flag_rows :: "row set" where
  "flag_rows = {flag_row True, flag_row False}"

definition flag_bytes :: "batch \<Rightarrow> byte list" where
  "flag_bytes b = map (\<lambda>r. if r = [VBool True] then 1 else 0) (b_rows b)"

definition flag_batch :: "byte list \<Rightarrow> batch" where
  "flag_batch bs = \<lparr>b_ptr = 0, b_schema = [flag_field], b_rows = map (\<lambda>x. [VBool (x = 1)]) bs\<rparr>"

definition sample_spill_env :: "(nat \<times> byte list) list spill_env" where
  "sample_spill_env = \<lparr>se_array_size = (\<lambda>b. 100 * length (b_rows b)), se_row_size = (\<lambda>_. 10), se_alloc = (\<lambda>ps. Suc (foldr max ps 0)),
     se_order = rev, se_open = (\<lambda>_. Ok []), se_put = (\<lambda>db i v. Ok ((i, v) # db)), se_get = (\<lambda>db i. Ok (map_of db i)),
     se_ipc_encode = (\<lambda>b. Ok (False, [7], flag_bytes b)), se_ipc_decode = (\<lambda>_ data _. Ok (flag_batch data)),
     se_ipc_stream = flag_bytes, se_ipc_read = (\<lambda>bs. Ok (flag_batch bs))\<rparr>"

lemma flag_rows_decode:
  assumes "uniform flag_rows rows"
  shows "same_rows (pack_rows rows) (flag_batch (flag_bytes (pack_rows rows)))" "b_schema (pack_rows rows) = [flag_field]"
proof -
  have rows: "rows \<noteq> []" "\<forall>r\<in>set rows. r = flag_row True \<or> r = flag_row False" using assms by (auto simp: uniform_def flag_rows_def)
  then show s: "b_schema (pack_rows rows) = [flag_field]"
    by (cases rows) (auto simp: pack_rows_def flag_row_def row_schema_def)
  have "map ((\<lambda>x. [VBool (x = (1::byte))]) \<circ> (\<lambda>r. if r = [VBool True] then 1 else 0) \<circ> map snd) rows = map (map snd) rows"
    using rows(2) by (auto simp: flag_row_def)
  then show "same_rows (pack_rows rows) (flag_batch (flag_bytes (pack_rows rows)))"
    using s by (simp add: same_rows_def flag_batch_def flag_bytes_def pack_rows_def comp_assoc comp_def)
qed

lemma sample_env_sound: "env_sound sample_spill_env flag_rows"
proof -
  have "Suc (foldr max ps 0) \<notin> set ps" for ps :: "nat list"
  proof -
    have "\<forall>p\<in>set ps. p \<le> foldr max ps 0" by (induction ps) (auto simp: le_max_iff_disj)
    then show ?thesis by (meson Suc_n_not_le_n)
  qed
  then show ?thesis using flag_rows_decode
    by (auto simp: env_sound_def store_sound_def codec_sound_def sample_spill_env_def)
qed

lemma sample_wide: "wide_enough flag_rows"
  by (simp add: wide_enough_def flag_rows_def flag_row_def row_schema_def)

definition sample_flags :: batch where
  "sample_flags = \<lparr>b_ptr = 1, b_schema = [flag_field], b_rows = [[VBool True], [VBool False]]\<rparr>"

definition sample_flag_record :: "string \<Rightarrow> nat \<Rightarrow> BufferedRecord" where
  "sample_flag_record k i = new_batch_ref k sample_flags i (Some (OvLong 5))"

text \<open>A map with hardly any memory: the first entry of a batch is compacted or spilled at once.\<close>

definition sample_map :: "nat \<Rightarrow> (nat \<times> byte list) list SpillMap" where
  "sample_map budget = sm_with_config \<lparr>sc_max_in_memory_size = budget, sc_spill_path = ''/tmp'', sc_diskmap_type = RocksDb,
     sc_max_peak_in_memory_size = Some 400\<rparr>"

lemma sample_map_ok: "sm_ok sample_spill_env flag_rows (sample_map budget)" "within_cap (sample_map budget)"
  by (simp_all add: sm_ok_def sample_map_def sm_with_config_def mem_ok_def within_cap_def true_retained_bytes_def sat_add_def)

lemma sample_map_empty: "sm_contents sample_spill_env (sample_map budget) k = None"
  by (simp add: sm_contents_def sm_disk_view_def sample_map_def sm_with_config_def bm_get_def)

lemma sample_record_admitted: "i < 2 \<Longrightarrow> sm_admits flag_rows (sample_map budget) (sample_flag_record k i)"
  by (auto simp: sm_admits_def good_record_def fits_def sample_map_def sm_with_config_def sample_flag_record_def new_batch_ref_def
      br_get_record_def payload_get_record_def slice_row_def sample_flags_def flag_rows_def flag_row_def less_Suc_eq numeral_eq_Suc)

lemma sample_record_view:
  "rec_view k (sample_flag_record k' 0) = (k, Some (flag_row True), Some (OvLong 5))"
  by (simp add: rec_view_def row_of_def sample_flag_record_def new_batch_ref_def br_get_record_def payload_get_record_def slice_row_def
      sample_flags_def flag_row_def br_is_delete_def payload_is_delete_def)

lemmas sample_eval = sm_insert_def sm_insert_new_def over_budget_def in_memory_allowance_def true_retained_bytes_def
  account_added_def add_ref_def sat_add_def entry_key_overhead_bytes_def ENTRY_OVERHEAD_BYTES_def owned_payload_bytes_def
  enforce_memory_limits_def enforce_peak_cap_def evict_source_batches_until_def group_victims_def hash_entries_def add_victim_def
  order_victims_def evict_victim_def spill_victim_batch_def take_entry_def account_removed_def remove_ref_def ensure_disk_def
  disk_create_def disk_put_def disk_contains_def bm_has_def disk_flush_def group_step_def intern_schema_def
  flush_group_step_def index_rows_def SPILL_BATCH_ROWS_def track_peak_def sample_map_def sm_with_config_def
  sample_flag_record_def new_batch_ref_def sample_flags_def sample_spill_env_def bm_get_def bm_remove_def
  four_fifths_def round_even_53_def bit_width.simps [of 0] br_is_delete_def payload_is_delete_def br_get_record_def
  payload_get_record_def slice_row_def row_schema_def

lemmas sample_drain_eval = sm_drain_iter_def into_drain_iter_def sort_by_loc_def record_from_entry_def load_batch_def
  decode_batch_def batch_blob_def to_binary_row_body_def from_binary_body_def pack_rows_def le_bytes_def le_nat_def be_bytes.simps
  flag_bytes_def flag_batch_def SPILL_BATCH_TAG_BODY_def SPILL_BATCH_CACHE_def

lemmas sample_compact_eval = compact_sparse_batches_def compact_step_def compact_victim_batch_def interleave_rows_def repoint_def
  live_ptrs_def

lemma sample_spilled:
  "case sm_insert sample_spill_env ''k'' (sample_flag_record ''k'' 0) (sample_map 0) of Inl _ \<Rightarrow> False
   | Inr sm \<Rightarrow> sm_in_memory sm = [] \<and> sm_disk sm \<noteq> None \<and> length (sm_drain_iter sample_spill_env sm) = 1 \<and>
       list_all is_ok (sm_drain_iter sample_spill_env sm)"
  by (simp add: sample_eval sample_drain_eval Let_def)

lemma sample_kept:
  "case sm_insert sample_spill_env ''k'' (sample_flag_record ''k'' 0) (sample_map 1000) of Inl _ \<Rightarrow> False
   | Inr sm \<Rightarrow> length (sm_in_memory sm) = 1 \<and> sm_disk sm = None \<and>
       (case compact_sparse_batches sample_spill_env 3 4 sm of Inl _ \<Rightarrow> False
        | Inr sm' \<Rightarrow> map (br_payload \<circ> snd) (sm_in_memory sm') =
            [BatchRef \<lparr>b_ptr = 2, b_schema = [flag_field], b_rows = [[VBool True]]\<rparr> 0])"
  by (simp add: sample_eval sample_compact_eval Let_def)

section \<open>Properties\<close>

text \<open>C5: whatever the budget makes the map spill or compact, after an insert a lookup under any key
  finds what a plain map would: the inserted record under its key, the earlier contents elsewhere.\<close>

theorem spillable_insert_then_get:
  assumes "env_sound env S" "wide_enough S" "sm_ok env S sm" "sm_admits S sm r" "sm_insert env k r sm = Ok sm1"
  shows "\<exists>x sm2. sm_get env j sm1 = Ok (x, sm2) \<and>
    map_option (rec_view j) x = (if j = k then Some (rec_view k r) else sm_contents env sm j)"
  by (rule sm.put_then_lookup [OF _ assms(4,5)]) (use assms(1-3) in blast)

theorem spillable_insert_then_get_witness:
  "\<exists>sm1 x sm2. sm_insert sample_spill_env ''k'' (sample_flag_record ''k'' 0) (sample_map 0) = Ok sm1 \<and> sm_in_memory sm1 = [] \<and>
     sm_get sample_spill_env ''k'' sm1 = Ok (x, sm2) \<and>
     map_option (rec_view ''k'') x = Some (''k'', Some (flag_row True), Some (OvLong 5))"
proof -
  obtain sm1 where sm1: "sm_insert sample_spill_env ''k'' (sample_flag_record ''k'' 0) (sample_map 0) = Ok sm1" "sm_in_memory sm1 = []"
    using sample_spilled by (auto split: sum.splits)
  have "sm_admits flag_rows (sample_map 0) (sample_flag_record ''k'' 0)" by (rule sample_record_admitted) simp
  from spillable_insert_then_get [OF sample_env_sound sample_wide sample_map_ok(1) this sm1(1), of "''k''"] sm1
  show ?thesis by (auto simp: sample_record_view)
qed

text \<open>C6: merging under a key in the map under its budget refines the merge of the plain map that the
  record buffer is modelled with: related maps stay related, and the map reports whether the key was
  there.\<close>

theorem spillable_merge_refines_buffer_map:
  assumes "env_sound env S" "wide_enough S" "sm_ok env S sm" "bm_ok m" "\<forall>j. sm_contents env sm j = map_option (rec_view j) (bm_get m j)"
    and "merge_fn_ok S sm k f" "sm_merge_in_place env k f sm = Ok (existed, sm')"
  shows "\<exists>m'. merge_in_place k f m = Ok m' \<and> bm_ok m' \<and> sm_ok env S sm' \<and> existed = (bm_get m k \<noteq> None) \<and>
    (\<forall>j. sm_contents env sm' j = map_option (rec_view j) (bm_get m' j))"
proof -
  from sm_merge_view [OF assms(1-3,6,7)] obtain e r where e: "map_option (rec_view k) e = sm_contents env sm k" "f e = Ok r"
    "sm_contents env sm' = (case r of None \<Rightarrow> sm_contents env sm | Some x \<Rightarrow> (sm_contents env sm)(k \<mapsto> rec_view k x))"
    and ok: "sm_ok env S sm'" "existed = (sm_contents env sm k \<noteq> None)" by auto
  have same: "same_view k e (bm_get m k)" using e(1) assms(5) by (simp add: same_view_def)
  then have "is_ok (f (bm_get m k))" using assms(6) e(2) unfolding merge_fn_ok_def by (metis is_ok_simps(2))
  then obtain r' where r': "f (bm_get m k) = Ok r'" by (cases "f (bm_get m k)") auto
  then have "same_view k r r'" using assms(6) e(2) same unfolding merge_fn_ok_def by blast
  then have "\<forall>j. sm_contents env sm' j = map_option (rec_view j) (bm_get (case r' of None \<Rightarrow> m | Some x \<Rightarrow> bm_insert k x m) j)"
    using e(3) assms(4,5) by (cases r; cases r') (auto simp: same_view_def)
  moreover have "merge_in_place k f m = Ok (case r' of None \<Rightarrow> m | Some x \<Rightarrow> bm_insert k x m)"
    using r' by (simp add: merge_in_place_def)
  ultimately show ?thesis using ok assms(4,5) by (auto split: option.split)
qed

theorem spillable_merge_refines_buffer_map_witness:
  "\<exists>m' existed sm'. sm_merge_in_place sample_spill_env ''k'' (\<lambda>_. Ok (Some (sample_flag_record ''k'' 0))) (sample_map 0) = Ok (existed, sm') \<and>
     merge_in_place ''k'' (\<lambda>_. Ok (Some (sample_flag_record ''k'' 0))) [] = Ok m' \<and> \<not> existed \<and> sm_in_memory sm' = [] \<and>
     (\<forall>j. sm_contents sample_spill_env sm' j = map_option (rec_view j) (bm_get m' j))"
proof -
  let ?f = "\<lambda>_. Ok (Some (sample_flag_record ''k'' 0))"
  obtain sm1 where sm1: "sm_insert sample_spill_env ''k'' (sample_flag_record ''k'' 0) (sample_map 0) = Ok sm1" "sm_in_memory sm1 = []"
    using sample_spilled by (auto split: sum.splits)
  then have merge: "sm_merge_in_place sample_spill_env ''k'' ?f (sample_map 0) = Ok (False, sm1)"
    by (simp add: sm_merge_in_place_def sample_map_def sm_with_config_def bm_get_def)
  have "merge_fn_ok flag_rows (sample_map 0) ''k'' ?f"
    using sample_record_admitted [of 0 0 "''k''"] by (simp add: merge_fn_ok_def same_view_def)
  note fn = this
  have empty: "\<forall>j. sm_contents sample_spill_env (sample_map 0) j = map_option (rec_view j) (bm_get [] j)"
    by (simp add: sample_map_empty bm_get_def)
  from spillable_merge_refines_buffer_map [OF sample_env_sound sample_wide sample_map_ok(1) bm_ok_Nil empty fn merge]
  obtain m' where "merge_in_place ''k'' ?f [] = Ok m'" "\<forall>j. sm_contents sample_spill_env sm1 j = map_option (rec_view j) (bm_get m' j)"
    by blast
  then show ?thesis using merge sm1(2) by blast
qed

text \<open>C7: the cap on the bytes the map retains holds after every insert that succeeds.\<close>

theorem spillable_insert_keeps_cap:
  assumes "env_sound env S" "wide_enough S" "sm_ok env S sm" "sm_admits S sm r" "sm_insert env k r sm = Ok sm'"
    and "sm_max_peak sm = Some cap" "true_retained_bytes sm \<le> cap"
  shows "true_retained_bytes sm' \<le> cap \<and> sm_max_peak sm' = Some cap"
  using sm_insert_view [OF assms(1-5)] assms(6,7) by (simp add: within_cap_def split: option.splits)

theorem spillable_insert_keeps_cap_witness:
  "\<exists>sm'. sm_insert sample_spill_env ''k'' (sample_flag_record ''k'' 0) (sample_map 1000) = Ok sm' \<and> length (sm_in_memory sm') = 1 \<and>
     true_retained_bytes sm' \<le> 400"
proof -
  obtain sm1 where sm1: "sm_insert sample_spill_env ''k'' (sample_flag_record ''k'' 0) (sample_map 1000) = Ok sm1" "length (sm_in_memory sm1) = 1"
    using sample_kept by (auto split: sum.splits)
  have "sm_admits flag_rows (sample_map 1000) (sample_flag_record ''k'' 0)" by (rule sample_record_admitted) simp
  from spillable_insert_keeps_cap [OF sample_env_sound sample_wide sample_map_ok(1) this sm1(1), of 400] sm1
  show ?thesis by (simp add: sample_map_def sm_with_config_def true_retained_bytes_def sat_add_def)
qed

text \<open>C8: after every insert that succeeds, with whatever eviction it set off, a batch is pinned exactly
  while an entry in memory refers to it, and its count is the number of those entries.\<close>

theorem spillable_insert_keeps_pins:
  assumes "env_sound env S" "wide_enough S" "sm_ok env S sm" "sm_admits S sm r" "sm_insert env k r sm = Ok sm'" "pins_exact sm"
  shows "pins_ok (sm_pinned sm') \<and> (\<forall>p. pin_count (sm_pinned sm') p = refs_to p (sm_in_memory sm'))"
  using sm_insert_view [OF assms(1-5)] assms(6) by (simp add: pins_exact_def)

theorem spillable_insert_keeps_pins_witness:
  "\<exists>sm'. sm_insert sample_spill_env ''k'' (sample_flag_record ''k'' 0) (sample_map 1000) = Ok sm' \<and> length (sm_in_memory sm') = 1 \<and>
     pin_count (sm_pinned sm') 1 = refs_to 1 (sm_in_memory sm')"
proof -
  obtain sm1 where sm1: "sm_insert sample_spill_env ''k'' (sample_flag_record ''k'' 0) (sample_map 1000) = Ok sm1" "length (sm_in_memory sm1) = 1"
    using sample_kept by (auto split: sum.splits)
  have "sm_admits flag_rows (sample_map 1000) (sample_flag_record ''k'' 0)" by (rule sample_record_admitted) simp
  moreover have "pins_exact (sample_map 1000)"
    by (simp add: pins_exact_def pins_ok_def pin_count_def bm_get_def sample_map_def sm_with_config_def)
  ultimately show ?thesis
    using spillable_insert_keeps_pins [OF sample_env_sound sample_wide sample_map_ok(1) _ sm1(1)] sm1 by blast
qed

text \<open>C9: a drain without an error hands out every entry exactly once, those in memory and those on disk.\<close>

theorem spillable_drain_yields_contents:
  assumes "env_sound env S" "wide_enough S" "sm_ok env S sm" "\<forall>r\<in>set (sm_drain_iter env sm). is_ok r"
  shows "\<exists>ps. sm_drain_iter env sm = map (Ok \<circ> snd) ps \<and> distinct (map fst ps) \<and>
    (\<forall>k. map_option (rec_view k) (map_of ps k) = sm_contents env sm k)"
  by (rule sm_drain_view [OF assms])

theorem spillable_drain_yields_contents_witness:
  "\<exists>sm1 ps. sm_insert sample_spill_env ''k'' (sample_flag_record ''k'' 0) (sample_map 0) = Ok sm1 \<and> sm_in_memory sm1 = [] \<and>
     sm_drain_iter sample_spill_env sm1 = map (Ok \<circ> snd) ps \<and>
     map_option (rec_view ''k'') (map_of ps ''k'') = Some (''k'', Some (flag_row True), Some (OvLong 5))"
proof -
  obtain sm1 where sm1: "sm_insert sample_spill_env ''k'' (sample_flag_record ''k'' 0) (sample_map 0) = Ok sm1" "sm_in_memory sm1 = []"
    "\<forall>r\<in>set (sm_drain_iter sample_spill_env sm1). is_ok r"
    using sample_spilled by (auto simp: list_all_iff split: sum.splits)
  have "sm_admits flag_rows (sample_map 0) (sample_flag_record ''k'' 0)" by (rule sample_record_admitted) simp
  note v = sm_insert_view [OF sample_env_sound sample_wide sample_map_ok(1) this sm1(1)]
  then have "sm_ok sample_spill_env flag_rows sm1" by simp
  from spillable_drain_yields_contents [OF sample_env_sound sample_wide this sm1(3)] obtain ps where
    ps: "sm_drain_iter sample_spill_env sm1 = map (Ok \<circ> snd) ps" "\<forall>k. map_option (rec_view k) (map_of ps k) = sm_contents sample_spill_env sm1 k"
    by blast
  have "sm_contents sample_spill_env sm1 ''k'' = Some (''k'', Some (flag_row True), Some (OvLong 5))"
    using v by (simp add: sample_record_view)
  then have "map_option (rec_view ''k'') (map_of ps ''k'') = Some (''k'', Some (flag_row True), Some (OvLong 5))" using ps(2) by metis
  then show ?thesis using ps(1) sm1(1,2) by blast
qed

text \<open>C39: The compaction of sparse batches at the end of the scan, when it succeeds, changes no entry of the map and
  keeps the map well-formed.\<close>

theorem spillable_compaction_keeps_contents:
  assumes "env_sound env S" "wide_enough S" "sm_ok env S sm" "compact_sparse_batches env num den sm = Ok sm'"
  shows "sm_ok env S sm' \<and> sm_contents env sm' = sm_contents env sm"
  using compact_sparse_keeps [OF assms] by (simp add: keeps_def)

theorem spillable_compaction_keeps_contents_witness:
  "\<exists>sm1 sm2. sm_insert sample_spill_env ''k'' (sample_flag_record ''k'' 0) (sample_map 1000) = Ok sm1 \<and>
     compact_sparse_batches sample_spill_env 3 4 sm1 = Ok sm2 \<and>
     map (br_payload \<circ> snd) (sm_in_memory sm2) = [BatchRef \<lparr>b_ptr = 2, b_schema = [flag_field], b_rows = [[VBool True]]\<rparr> 0] \<and>
     sm_contents sample_spill_env sm2 = sm_contents sample_spill_env sm1"
proof -
  obtain sm1 sm2 where sm: "sm_insert sample_spill_env ''k'' (sample_flag_record ''k'' 0) (sample_map 1000) = Ok sm1"
    "compact_sparse_batches sample_spill_env 3 4 sm1 = Ok sm2"
    "map (br_payload \<circ> snd) (sm_in_memory sm2) = [BatchRef \<lparr>b_ptr = 2, b_schema = [flag_field], b_rows = [[VBool True]]\<rparr> 0]"
    using sample_kept by (auto split: sum.splits)
  have "sm_admits flag_rows (sample_map 1000) (sample_flag_record ''k'' 0)" by (rule sample_record_admitted) simp
  note v = sm_insert_view [OF sample_env_sound sample_wide sample_map_ok(1) this sm(1)]
  then have "sm_ok sample_spill_env flag_rows sm1" by simp
  from spillable_compaction_keeps_contents [OF sample_env_sound sample_wide this sm(2)] sm show ?thesis
    by (intro exI [of _ sm1] exI [of _ sm2]) simp
qed

end
