(* ===== verification/Position_Buffer.thy ===== *)
theory Position_Buffer
  imports Merge_Kernel
begin

text \<open>
  The position-based record buffer: \<open>file_group/reader_v2/buffer/position_based.rs\<close>. Log records are
  kept under the position of the base row they change, read from the block's header, and base rows
  are matched by position. A block without usable positions turns the buffer into a key-based one
  for good: what is buffered is re-keyed by record key. The base64 and Roaring decoding of the header is
  the parameter \<open>decode\<close>. The entries of the inner buffer are those of both tiers of its map, so
  the record key of a data entry is the one it was put with.
\<close>

section \<open>The state\<close>

datatype BufferType = KeyBasedMerge | PositionBasedMerge | Unmerged

record PositionBuffer =
  po_inner :: RecordBuffer
  po_base_file_instant_time :: string
  po_should_use_position :: bool
  po_needs_hybrid_strategy :: bool
  po_hybrid_deletes :: "(nat, BufferedRecord) btree_map"

type_synonym position_decoder = "string \<Rightarrow> nat list result"

definition position_new :: "ReaderContext \<Rightarrow> string \<Rightarrow> string \<Rightarrow> PositionBuffer result" where
  "position_new rx mode instant = res_bind (key_based_new rx mode) (\<lambda>inner.
     Ok \<lparr>po_inner = inner, po_base_file_instant_time = instant, po_should_use_position = True,
       po_needs_hybrid_strategy = False, po_hybrid_deletes = []\<rparr>)"

definition position_key :: "nat \<Rightarrow> string" where
  "position_key p = show_nat p"

definition get_buffer_type :: "PositionBuffer \<Rightarrow> BufferType" where
  "get_buffer_type pb = (if po_should_use_position pb then PositionBasedMerge else KeyBasedMerge)"

definition base_match :: "PositionBuffer \<Rightarrow> BaseMatch" where
  "base_match pb = (if po_should_use_position pb then Position else RecordKey)"

section \<open>Positions of a block\<close>

definition extract_positions :: "position_decoder \<Rightarrow> PositionBuffer \<Rightarrow> LogBlock \<Rightarrow> nat list option result" where
  "extract_positions decode pb b =
     (if base_file_instant_time_of_positions b = Some (po_base_file_instant_time pb) \<and> po_base_file_instant_time pb \<noteq> []
      then (case record_positions_header b of
          None \<Rightarrow> Ok None
        | Some encoded \<Rightarrow> if encoded = [] then Ok None
            else res_bind (decode encoded) (\<lambda>ps. Ok (if ps = [] then None else Some ps)))
      else Ok None)"

section \<open>Falling back to keys\<close>

definition row_batch :: "row \<Rightarrow> batch" where
  "row_batch r = \<lparr>b_ptr = 0, b_schema = row_schema r, b_rows = [map snd r]\<rparr>"

definition first_key :: "string list result \<Rightarrow> string result" where
  "first_key ks = res_bind ks (\<lambda>keys. case keys of [] \<Rightarrow> Err Panic | k # _ \<Rightarrow> Ok k)"

definition reinsert_rekeyed :: "string \<Rightarrow> BufferedRecord \<Rightarrow> record_map \<Rightarrow> record_map result" where
  "reinsert_rekeyed k r m = (if bm_get m k \<noteq> None then Err ReadFileSliceError else Ok (bm_insert k r m))"

definition rekey_entry :: "RecordContext \<Rightarrow> record_map \<Rightarrow> BufferedRecord \<Rightarrow> record_map result" where
  "rekey_entry rc m r = res_bind (br_get_record r) (\<lambda>ro. case ro of
      Some row \<Rightarrow> res_bind (first_key (get_record_keys rc (row_batch row))) (\<lambda>k.
        reinsert_rekeyed k (r\<lparr>br_record_key := k\<rparr>) m)
    | None \<Rightarrow>
        if br_record_key r \<noteq> [] then reinsert_rekeyed (br_record_key r) r m
        else if br_is_delete r then Err UnsupportedError else Ok m)"

text \<open>The fresh map is built from the configuration the buffer was built with, which parsed then.\<close>

definition fallback_to_key_based :: "PositionBuffer \<Rightarrow> PositionBuffer result" where
  "fallback_to_key_based pb =
     (if \<not> po_should_use_position pb then Ok pb
      else let bf = po_inner pb in
        res_bind (res_fold (rekey_entry (rb_record_context bf)) [] (map snd (rb_records bf))) (\<lambda>m.
          Ok (pb\<lparr>po_should_use_position := False, po_inner := bf\<lparr>rb_records := m\<rparr>\<rparr>)))"

section \<open>Folding the log\<close>

text \<open>The entries of a batch are zipped with the positions; \<open>i\<close> counts the entries of the block.\<close>

definition at_position :: "nat list \<Rightarrow> nat \<Rightarrow> nat result" where
  "at_position ps i = (if i < length ps then Ok (ps ! i) else Err LogBlockError)"

definition data_at_position :: "merge_lib \<Rightarrow> nat list \<Rightarrow> RecordBuffer \<times> nat \<Rightarrow> string \<times> BufferedRecord \<Rightarrow>
    (RecordBuffer \<times> nat) result" where
  "data_at_position ml ps st e = (case st of (bf, i) \<Rightarrow> res_bind (at_position ps i) (\<lambda>p.
     res_bind (process_next_data_record ml (snd e) (position_key p) bf) (\<lambda>bf'. Ok (bf', i + 1))))"

definition delete_at_position :: "nat list \<Rightarrow> RecordBuffer \<times> nat \<Rightarrow> string \<times> OrderingValue option \<Rightarrow>
    (RecordBuffer \<times> nat) result" where
  "delete_at_position ps st e = (case st of (bf, i) \<Rightarrow> res_bind (at_position ps i) (\<lambda>p.
     res_bind (process_next_deleted_record \<lparr>dr_record_key = fst e, dr_ordering_value = snd e\<rparr> (position_key p) bf)
       (\<lambda>bf'. Ok (bf', i + 1))))"

definition take_content :: "LogBlock \<Rightarrow> LogBlock" where
  "take_content b = b\<lparr>lb_content := EmptyContent\<rparr>"

text \<open>All positions must have been used.\<close>

definition positions_used :: "nat list \<Rightarrow> RecordBuffer \<times> nat \<Rightarrow> RecordBuffer result" where
  "positions_used ps st = (if snd st = length ps then Ok (fst st) else Err LogBlockError)"

definition data_block_at_positions :: "merge_lib \<Rightarrow> nat list \<Rightarrow> LogBlock \<Rightarrow> RecordBuffer \<Rightarrow> RecordBuffer result" where
  "data_block_at_positions ml ps b bf = (case lb_content b of
      Records ds _ \<Rightarrow> res_bind (res_fold (\<lambda>st ba.
          res_bind (batch_to_buffered_records (rb_record_context bf) ba (rb_delete_context bf)) (\<lambda>rs.
            res_fold (data_at_position ml ps) st rs)) (bf, 0) ds) (positions_used ps)
    | _ \<Rightarrow> Ok bf)"

definition delete_block_at_positions :: "nat list \<Rightarrow> LogBlock \<Rightarrow> RecordBuffer \<Rightarrow> RecordBuffer result" where
  "delete_block_at_positions ps b bf = (case lb_content b of
      Records _ dbs \<Rightarrow> res_bind (res_fold (\<lambda>st db.
          res_bind (delete_batch_to_keys_with_ordering db) (\<lambda>es.
            res_fold (delete_at_position ps) st es)) (bf, 0) dbs) (positions_used ps)
    | _ \<Rightarrow> Ok bf)"

text \<open>With positions a block is folded by position; without them, or once fallen back, by key.\<close>

definition position_block :: "position_decoder \<Rightarrow> (nat list \<Rightarrow> LogBlock \<Rightarrow> RecordBuffer \<Rightarrow> RecordBuffer result) \<Rightarrow>
    (LogBlock \<Rightarrow> RecordBuffer \<Rightarrow> (LogBlock \<times> RecordBuffer) result) \<Rightarrow> LogBlock \<Rightarrow> PositionBuffer \<Rightarrow>
    (LogBlock \<times> PositionBuffer) result" where
  "position_block decode by_position by_key b pb =
     (let keyed = (\<lambda>pb. res_bind (by_key b (po_inner pb)) (\<lambda>(b', bf). Ok (b', pb\<lparr>po_inner := bf\<rparr>))) in
      if \<not> po_should_use_position pb then keyed pb
      else res_bind (extract_positions decode pb b) (\<lambda>p. case p of
          None \<Rightarrow> res_bind (fallback_to_key_based pb) keyed
        | Some ps \<Rightarrow> res_bind (by_position ps b (po_inner pb)) (\<lambda>bf. Ok (take_content b, pb\<lparr>po_inner := bf\<rparr>))))"

definition position_process_data_block :: "position_decoder \<Rightarrow> merge_lib \<Rightarrow> LogBlock \<Rightarrow> PositionBuffer \<Rightarrow>
    (LogBlock \<times> PositionBuffer) result" where
  "position_process_data_block decode ml = position_block decode (data_block_at_positions ml) (process_data_block ml)"

definition position_process_delete_block :: "position_decoder \<Rightarrow> LogBlock \<Rightarrow> PositionBuffer \<Rightarrow>
    (LogBlock \<times> PositionBuffer) result" where
  "position_process_delete_block decode = position_block decode delete_block_at_positions process_delete_block"

text \<open>While positions are used the map is searched by the records' keys. The source searches the tier in
  memory only: this is its answer while nothing has been spilled.\<close>

definition position_contains_log_record :: "PositionBuffer \<Rightarrow> string \<Rightarrow> bool" where
  "position_contains_log_record pb k = (if \<not> po_should_use_position pb then contains_log_record (po_inner pb) k
     else list_ex (\<lambda>(_, r). \<not> br_is_delete r \<and> br_record_key r = k) (rb_records (po_inner pb)))"

section \<open>Merging base rows\<close>

definition position_at :: "batch \<Rightarrow> nat \<Rightarrow> nat result" where
  "position_at b i = res_bind (base_row_position_array b) (\<lambda>ps.
     if ps ! i < 0 then Err ReadFileSliceError else Ok (nat (ps ! i)))"

definition apply_hybrid_delete :: "batch \<Rightarrow> nat \<Rightarrow> PositionBuffer \<Rightarrow> (PositionBuffer \<times> bool) result" where
  "apply_hybrid_delete b i pb = res_bind (position_at b i) (\<lambda>pos.
     if bm_get (po_hybrid_deletes pb) pos = None then Ok (pb, False)
     else let bf = po_inner pb in
       res_bind (first_key (get_record_keys (rb_record_context bf) (slice_batch b i))) (\<lambda>k.
         Ok (pb\<lparr>po_hybrid_deletes := bm_remove pos (po_hybrid_deletes pb),
                po_inner := bf\<lparr>rb_records := bm_remove k (rb_records bf)\<rparr>\<rparr>, True)))"

definition hybrid_delete :: "batch \<Rightarrow> nat \<Rightarrow> PositionBuffer \<Rightarrow> (PositionBuffer \<times> bool) result" where
  "hybrid_delete b i pb = (if po_needs_hybrid_strategy pb then apply_hybrid_delete b i pb else Ok (pb, False))"

lemma hybrid_delete_remaining:
  "hybrid_delete b i pb = Ok (pb', d) \<Longrightarrow> base_remaining (po_inner pb') = base_remaining (po_inner pb)"
  by (auto simp: hybrid_delete_def apply_hybrid_delete_def res_bind_Inr_iff base_remaining_def Let_def split: if_splits option.split)

function do_has_next_position :: "merge_lib \<Rightarrow> PositionBuffer \<Rightarrow> (PositionBuffer \<times> bool) result" where
  "do_has_next_position ml pb =
     res_bind (next_base_row (po_inner pb)) (\<lambda>(bf1, x). case x of
        Some (b, i) \<Rightarrow> res_bind (hybrid_delete b i (pb\<lparr>po_inner := bf1\<rparr>)) (\<lambda>(pb1, dropped).
          if dropped then do_has_next_position ml pb1
          else res_bind (has_next_base_record_at ml (base_match pb) b i (po_inner pb1)) (\<lambda>(bf2, found).
            if found then Ok (pb1\<lparr>po_inner := bf2\<rparr>, True) else do_has_next_position ml (pb1\<lparr>po_inner := bf2\<rparr>)))
      | None \<Rightarrow> (case has_next_log_record bf1 of (bf2, found) \<Rightarrow> Ok (pb\<lparr>po_inner := bf2\<rparr>, found)))"
  by pat_completeness auto
termination
  by (relation "measure (\<lambda>(ml, pb). base_remaining (po_inner pb))")
    (auto dest!: next_base_row_remaining hybrid_delete_remaining has_next_base_record_at_remaining)

declare do_has_next_position.simps [simp del]

definition position_has_next :: "merge_lib \<Rightarrow> PositionBuffer \<Rightarrow> (PositionBuffer \<times> bool) result" where
  "position_has_next ml pb = (if rb_next_record (po_inner pb) \<noteq> None then Ok (pb, True) else do_has_next_position ml pb)"

lemma apply_hybrid_delete_remaining:
  "apply_hybrid_delete b i pb = Ok (pb', d) \<Longrightarrow> base_remaining (po_inner pb') = base_remaining (po_inner pb) \<and>
   log_remaining (po_inner pb') \<le> log_remaining (po_inner pb)"
  by (auto simp: apply_hybrid_delete_def res_bind_Inr_iff base_remaining_def log_remaining_def Let_def length_bm_remove
      split: if_splits option.split)

lemma has_next_base_record_at_log:
  "has_next_base_record_at ml bm b i bf = Ok (bf', r) \<Longrightarrow> log_remaining bf' \<le> log_remaining bf"
  by (elim has_next_base_record_at_shape) (simp add: log_remaining_def length_bm_remove split: option.split)

lemma position_step_remaining:
  assumes "next_base_row (po_inner pb) = Ok (bf1, Some (b, i))" "hybrid_delete b i (pb\<lparr>po_inner := bf1\<rparr>) = Ok (pb1, d)"
  shows "records_remaining (po_inner pb1) < records_remaining (po_inner pb)"
proof -
  have "log_remaining (po_inner pb1) \<le> log_remaining bf1"
    using assms(2) apply_hybrid_delete_remaining by (fastforce simp: hybrid_delete_def split: if_splits)
  moreover have "log_remaining bf1 = log_remaining (po_inner pb)" "base_remaining bf1 < base_remaining (po_inner pb)"
    using next_base_row_remaining [OF assms(1)] by (simp_all add: log_remaining_def split: option.split)
  ultimately show ?thesis using hybrid_delete_remaining [OF assms(2)] by (simp add: records_remaining_def)
qed

lemma do_has_next_position_remaining:
  "do_has_next_position ml pb = Ok (pb', True) \<Longrightarrow> records_remaining (po_inner pb') < records_remaining (po_inner pb)"
proof (induction ml pb rule: do_has_next_position.induct)
  case (1 ml pb)
  obtain bf1 x where n: "next_base_row (po_inner pb) = Ok (bf1, x)"
    using "1.prems" by (subst (asm) do_has_next_position.simps) (auto simp: res_bind_Inr_iff)
  show ?case
  proof (cases x)
    case None
    then have "has_next_log_record bf1 = (po_inner pb', True)"
      using "1.prems" n by (subst (asm) do_has_next_position.simps) (auto split: prod.splits)
    moreover have "records_remaining bf1 \<le> records_remaining (po_inner pb)"
      using n None by (auto simp: next_base_row_def pull_base_row_def res_bind_Inr_iff
          records_remaining_def base_remaining_def log_remaining_def split: option.splits if_splits)
    ultimately show ?thesis using has_next_log_record_remaining by fastforce
  next
    case (Some y)
    obtain b i where x: "x = Some (b, i)" using Some by (cases y) auto
    obtain pb1 d where h: "hybrid_delete b i (pb\<lparr>po_inner := bf1\<rparr>) = Ok (pb1, d)"
      using "1.prems" n x by (subst (asm) do_has_next_position.simps) (auto simp: res_bind_Inr_iff)
    note less = position_step_remaining [OF n [unfolded x] h]
    show ?thesis
    proof (cases d)
      case True
      then have "do_has_next_position ml pb1 = Ok (pb', True)"
        using "1.prems" n x h by (subst (asm) do_has_next_position.simps) simp
      then show ?thesis using "1.IH"(1) n x h True less by fastforce
    next
      case False
      obtain bf2 found where f: "has_next_base_record_at ml (base_match pb) b i (po_inner pb1) = Ok (bf2, found)"
        using "1.prems" n x h False by (subst (asm) do_has_next_position.simps) (auto simp: res_bind_Inr_iff)
      have r: "records_remaining bf2 < records_remaining (po_inner pb)"
        using less has_next_base_record_at_remaining [OF f] has_next_base_record_at_log [OF f]
        by (simp add: records_remaining_def)
      show ?thesis
      proof (cases found)
        case True
        then show ?thesis using "1.prems" n x h False f r by (subst (asm) do_has_next_position.simps) auto
      next
        case nf: False
        then have "do_has_next_position ml (pb1\<lparr>po_inner := bf2\<rparr>) = Ok (pb', True)"
          using "1.prems" n x h False f by (subst (asm) do_has_next_position.simps) simp
        then show ?thesis using "1.IH"(2) n x h False f nf r by fastforce
      qed
    qed
  qed
qed

text \<open>\<open>merge_and_collect_with_stats\<close>: \<open>has_next\<close> and \<open>next\<close> to the end.\<close>

function position_collect_records :: "merge_lib \<Rightarrow> PositionBuffer \<Rightarrow> (PositionBuffer \<times> BufferedRecord list) result" where
  "position_collect_records ml pb =
     res_bind (position_has_next ml pb) (\<lambda>(pb1, more).
       if more then
         (case rb_next_record (po_inner pb1) of
            None \<Rightarrow> Err Panic
          | Some r \<Rightarrow> res_bind (position_collect_records ml (pb1\<lparr>po_inner := (po_inner pb1)\<lparr>rb_next_record := None\<rparr>\<rparr>)) (\<lambda>(pb2, rs).
              Ok (pb2, r # rs)))
       else Ok (pb1, []))"
  by pat_completeness auto
termination
proof (relation "measure (\<lambda>(ml, pb). records_remaining (po_inner pb) +
    (if rb_next_record (po_inner pb) = None then 0 else 1))")
  fix ml pb x pb1 more r
  assume h: "position_has_next ml pb = Ok x" "(pb1, more) = x" more "rb_next_record (po_inner pb1) = Some r"
  have a: "records_remaining ((po_inner pb1)\<lparr>rb_next_record := None\<rparr>) = records_remaining (po_inner pb1)"
    by (simp add: records_remaining_def base_remaining_def log_remaining_def split: option.split)
  show "((ml, pb1\<lparr>po_inner := (po_inner pb1)\<lparr>rb_next_record := None\<rparr>\<rparr>), ml, pb) \<in> measure (\<lambda>(ml, pb).
      records_remaining (po_inner pb) + (if rb_next_record (po_inner pb) = None then 0 else 1))"
    using h a do_has_next_position_remaining [of ml pb pb1]
    by (auto simp: position_has_next_def split: if_splits)
qed simp

declare position_collect_records.simps [simp del]

definition position_merge_and_collect_with_stats :: "merge_lib \<Rightarrow> PositionBuffer \<Rightarrow> (row list \<times> UpdateStats) result" where
  "position_merge_and_collect_with_stats ml pb =
     res_bind (output_schema (po_inner pb)) (\<lambda>s.
     res_bind (position_collect_records ml pb) (\<lambda>(pb', rs).
     res_bind (records_to_batch (ml_convert ml) s rs) (\<lambda>rows. Ok (rows, rb_stats (po_inner pb')))))"

text \<open>The rows of a batch under the hybrid strategy, at most \<open>n\<close> records.\<close>

function hybrid_rows :: "merge_lib \<Rightarrow> nat \<Rightarrow> PositionBuffer \<Rightarrow> (PositionBuffer \<times> BufferedRecord list) result" where
  "hybrid_rows ml n pb = (if n = 0 then Ok (pb, [])
     else res_bind (next_base_row (po_inner pb)) (\<lambda>(bf1, x). case x of
        None \<Rightarrow> Ok (pb\<lparr>po_inner := bf1\<rparr>, [])
      | Some (b, i) \<Rightarrow> res_bind (apply_hybrid_delete b i (pb\<lparr>po_inner := bf1\<rparr>)) (\<lambda>(pb1, dropped).
          if dropped then hybrid_rows ml n pb1
          else res_bind (has_next_base_record_at ml RecordKey b i (po_inner pb1)) (\<lambda>(bf2, found).
            case (if found then rb_next_record bf2 else None) of
              None \<Rightarrow> hybrid_rows ml n (pb1\<lparr>po_inner := bf2\<rparr>)
            | Some r \<Rightarrow> res_bind (hybrid_rows ml (n - 1) (pb1\<lparr>po_inner := bf2\<lparr>rb_next_record := None\<rparr>\<rparr>)) (\<lambda>(pb2, rs).
                Ok (pb2, r # rs))))))"
  by pat_completeness auto

lemma base_remaining_next [simp]: "base_remaining (bf\<lparr>rb_next_record := r\<rparr>) = base_remaining bf"
  by (simp add: base_remaining_def split: option.split)

termination hybrid_rows
  by (relation "measure (\<lambda>(ml, n, pb). base_remaining (po_inner pb))")
    (auto dest!: next_base_row_remaining apply_hybrid_delete_remaining has_next_base_record_at_remaining)

declare hybrid_rows.simps [simp del]

definition next_hybrid_base_batch :: "merge_lib \<Rightarrow> Schema \<Rightarrow> PositionBuffer \<Rightarrow> (PositionBuffer \<times> row list option) result" where
  "next_hybrid_base_batch ml target pb = res_bind (hybrid_rows ml DEFAULT_BATCH_SIZE pb) (\<lambda>(pb1, rs).
     if rs = [] then Ok (pb1, None)
     else res_bind (records_to_batch (ml_convert ml) target rs) (\<lambda>rows. Ok (pb1, if rows = [] then None else Some rows)))"

definition on_inner :: "(RecordBuffer \<times> 'a) result \<Rightarrow> PositionBuffer \<Rightarrow> (PositionBuffer \<times> 'a) result" where
  "on_inner x pb = res_bind x (\<lambda>(bf, y). Ok (pb\<lparr>po_inner := bf\<rparr>, y))"

definition position_next_merged_base_batch :: "merge_lib \<Rightarrow> Schema \<Rightarrow> PositionBuffer \<Rightarrow>
    (PositionBuffer \<times> row list option) result" where
  "position_next_merged_base_batch ml target pb =
     (if po_needs_hybrid_strategy pb then next_hybrid_base_batch ml target pb
      else on_inner (pull_and_merge_next_base_batch ml target (base_match pb) (po_inner pb)) pb)"

definition position_merge_base_batch :: "merge_lib \<Rightarrow> batch \<Rightarrow> Schema \<Rightarrow> PositionBuffer \<Rightarrow>
    (PositionBuffer \<times> row list option) result" where
  "position_merge_base_batch ml b target pb =
     (if po_needs_hybrid_strategy pb then Err UnsupportedError
      else on_inner (merge_one_base_batch_kernel ml b target (base_match pb) (po_inner pb)) pb)"

definition position_drain_log_only_inserts :: "merge_lib \<Rightarrow> Schema \<Rightarrow> PositionBuffer \<Rightarrow>
    (PositionBuffer \<times> row list option) result" where
  "position_drain_log_only_inserts ml target pb = on_inner (drain_log_only_inserts ml target (po_inner pb)) pb"

end
