(* ===== verification/Position_Facts.thy ===== *)
theory Position_Facts
  imports Position_Buffer Merge_Rows
begin

text \<open>
  Merging by position is merging by key: as long as a log record's position is that of the base row
  with its key, the two buffers hold the same records under their two names, a fallback in
  the middle of the scan leaves exactly the key-based buffer, and the merged output is the same.
\<close>

section \<open>Two names for an entry\<close>

text \<open>\<open>key\<close> names the record key at each position of the base file, \<open>D\<close> the positions.\<close>

definition rekeyed :: "(nat \<Rightarrow> string) \<Rightarrow> nat set \<Rightarrow> record_map \<Rightarrow> record_map \<Rightarrow> bool" where
  "rekeyed key D mp mk \<longleftrightarrow> bm_ok mp \<and> bm_ok mk \<and> fst ` set mp \<subseteq> position_key ` D \<and> fst ` set mk \<subseteq> key ` D \<and>
     (\<forall>p\<in>D. bm_get mk (key p) = bm_get mp (position_key p))"

lemma position_key_eq [simp]: "position_key p = position_key q \<longleftrightarrow> p = q"
proof
  assume "position_key p = position_key q"
  then have "digits_val 0 (show_nat p) = digits_val 0 (show_nat q)" by (simp add: position_key_def)
  then show "p = q" by simp
qed simp

lemma inj_position_key: "inj_on position_key D"
  by (simp add: inj_on_def)

lemma rekeyed_Nil [simp]: "rekeyed key D [] []"
  by (simp add: rekeyed_def bm_get_def)

lemma rekeyed_get: "rekeyed key D mp mk \<Longrightarrow> p \<in> D \<Longrightarrow> bm_get mk (key p) = bm_get mp (position_key p)"
  by (simp add: rekeyed_def)

lemma rekeyed_insert:
  assumes "rekeyed key D mp mk" "inj_on key D" "p \<in> D"
  shows "rekeyed key D (bm_insert (position_key p) r mp) (bm_insert (key p) r mk)"
proof -
  have "key q = key p \<longleftrightarrow> q = p" if "q \<in> D" for q using assms(2,3) that by (auto simp: inj_on_def)
  then show ?thesis using assms(1,3) by (auto simp: rekeyed_def fst_set_bm_insert)
qed

lemma rekeyed_remove:
  assumes "rekeyed key D mp mk" "inj_on key D" "p \<in> D"
  shows "rekeyed key (D - {p}) (bm_remove (position_key p) mp) (bm_remove (key p) mk)"
proof -
  have same: "key q = key p \<longleftrightarrow> q = p" if "q \<in> D" for q using assms(2,3) that by (auto simp: inj_on_def)
  have "fst ` set (bm_remove k m) = fst ` set m - {k}" for k and m :: record_map by (force simp: bm_remove_def)
  then show ?thesis using assms(1) same by (auto simp: rekeyed_def)
qed

lemma rekeyed_empty: "rekeyed key {} mp mk \<Longrightarrow> mp = [] \<and> mk = []"
  by (simp add: rekeyed_def)

lemma rekeyed_keys:
  assumes "rekeyed key D mp mk"
  defines "E \<equiv> {p \<in> D. bm_get mp (position_key p) \<noteq> None}"
  shows "fst ` set mp = position_key ` E" "fst ` set mk = key ` E"
proof -
  have sub: "fst ` set mp \<subseteq> position_key ` D" "fst ` set mk \<subseteq> key ` D" using assms(1) by (simp_all add: rekeyed_def)
  have mp: "position_key p \<in> fst ` set mp \<longleftrightarrow> p \<in> E" if "p \<in> D" for p
    using that by (simp add: E_def bm_get_None del: not_None_eq)
  have mk: "key p \<in> fst ` set mk \<longleftrightarrow> p \<in> E" if "p \<in> D" for p
    using that rekeyed_get [OF assms(1) that] bm_get_None [of mk "key p"] by (auto simp: E_def)
  have E: "E \<subseteq> D" by (auto simp: E_def)
  show "fst ` set mp = position_key ` E"
  proof (intro equalityI subsetI)
    fix k assume k: "k \<in> fst ` set mp"
    then obtain p where "p \<in> D" "k = position_key p" using sub(1) by blast
    then show "k \<in> position_key ` E" using mp k by blast
  qed (use mp E in blast)
  show "fst ` set mk = key ` E"
  proof (intro equalityI subsetI)
    fix k assume k: "k \<in> fst ` set mk"
    then obtain p where "p \<in> D" "k = key p" using sub(2) by blast
    then show "k \<in> key ` E" using mk k by blast
  qed (use mk E in blast)
qed

lemma rekeyed_length:
  assumes "rekeyed key D mp mk" "inj_on key D"
  shows "length mp = length mk"
proof -
  let ?E = "{p \<in> D. bm_get mp (position_key p) \<noteq> None}"
  have "distinct (map fst mp)" "distinct (map fst mk)" using assms(1) by (simp_all add: rekeyed_def bm_ok_def strict_sorted_iff)
  then have "length mp = card (fst ` set mp)" "length mk = card (fst ` set mk)"
    by (metis distinct_card length_map list.set_map)+
  moreover have "card (key ` ?E) = card ?E" "card (position_key ` ?E) = card ?E"
    using card_image [OF inj_on_subset [OF assms(2)], of ?E] card_image [OF inj_position_key, of ?E] by auto
  ultimately show ?thesis using rekeyed_keys [OF assms(1)] by simp
qed

text \<open>Two inner buffers that differ in the names of their entries only.\<close>

definition same_inner :: "(nat \<Rightarrow> string) \<Rightarrow> nat set \<Rightarrow> RecordBuffer \<Rightarrow> RecordBuffer \<Rightarrow> bool" where
  "same_inner key D P K \<longleftrightarrow> rekeyed key D (rb_records P) (rb_records K) \<and> P = K\<lparr>rb_records := rb_records P\<rparr>"

section \<open>Folding a record\<close>

text \<open>What a data record makes of the entry it finds; the name of the entry plays no part.\<close>

definition data_update :: "merge_lib \<Rightarrow> RecordBuffer \<Rightarrow> BufferedRecord \<Rightarrow> BufferedRecord option \<Rightarrow> BufferedRecord option result" where
  "data_update ml bf rec existing = res_bind (incoming_is_partial bf rec) (\<lambda>partial.
     if partial then fold_partial ml (rb_merge_mode bf) (rb_merger bf) rec existing
     else if rb_ignore_defaults bf \<or> rb_unavailable_value bf \<noteq> None
     then res_bind (blend_log_records bf rec existing) (\<lambda>s. Ok (Some s))
     else delta_merge (ml_compare ml) (rb_merger bf) rec existing)"

definition store_update :: "string \<Rightarrow> record_map \<Rightarrow> BufferedRecord option \<Rightarrow> record_map" where
  "store_update k m r = (case r of None \<Rightarrow> m | Some x \<Rightarrow> bm_insert k x m)"

lemma merge_data_record_at:
  "merge_data_record ml bf rec k = res_bind (data_update ml bf rec (bm_get (rb_records bf) k)) (\<lambda>r. Ok (store_update k (rb_records bf) r))"
  by (cases "incoming_is_partial bf rec")
    (auto simp: merge_data_record_def data_update_def merge_in_place_def store_update_def res_bind_def split: sum.split)

lemma data_update_records [simp]: "data_update ml (bf\<lparr>rb_records := m\<rparr>) = data_update ml bf"
proof (intro ext)
  fix r e
  have partial: "incoming_is_partial (bf\<lparr>rb_records := m\<rparr>) r = incoming_is_partial bf r"
    by (simp add: incoming_is_partial_def)
  have fill: "fill_partial (bf\<lparr>rb_records := m\<rparr>) x y = fill_partial bf x y" for x y
    by (simp add: fill_partial_def Let_def cong del: if_weak_cong option.case_cong_weak)
  have "blend_log_records (bf\<lparr>rb_records := m\<rparr>) r e = blend_log_records bf r e"
    by (simp add: blend_log_records_def fill cong del: if_weak_cong option.case_cong_weak)
  then show "data_update ml (bf\<lparr>rb_records := m\<rparr>) r e = data_update ml bf r e"
    by (simp add: data_update_def partial cong del: if_weak_cong)
qed

lemma store_update_rekeyed:
  "rekeyed key D mp mk \<Longrightarrow> inj_on key D \<Longrightarrow> p \<in> D \<Longrightarrow>
   rekeyed key D (store_update (position_key p) mp r) (store_update (key p) mk r)"
  by (simp add: store_update_def rekeyed_insert split: option.split)

text \<open>Results that are the same error or related values.\<close>

definition rel_res :: "('a \<Rightarrow> 'b \<Rightarrow> bool) \<Rightarrow> 'a result \<Rightarrow> 'b result \<Rightarrow> bool" where
  "rel_res R x y = (case x of Inl e \<Rightarrow> y = Inl e | Inr a \<Rightarrow> (case y of Inl _ \<Rightarrow> False | Inr b \<Rightarrow> R a b))"

lemma rel_res_simps [simp]: "rel_res R (Inl e) y \<longleftrightarrow> y = Inl e" "\<not> rel_res R (Inr a) (Inl e)" "rel_res R (Inr a) (Inr b) \<longleftrightarrow> R a b"
  by (simp_all add: rel_res_def)

lemma rel_res_bind:
  "rel_res R x y \<Longrightarrow> (\<And>a b. R a b \<Longrightarrow> rel_res Q (f a) (g b)) \<Longrightarrow> rel_res Q (res_bind x f) (res_bind y g)"
  by (cases x; cases y) (auto simp: rel_res_def)

lemma rel_res_mono: "rel_res R x y \<Longrightarrow> (\<And>a b. y = Ok b \<Longrightarrow> R a b \<Longrightarrow> Q a b) \<Longrightarrow> rel_res Q x y"
  by (cases x; cases y) (auto simp: rel_res_def)

lemma rel_res_refl_bind: "(\<And>a. x = Ok a \<Longrightarrow> rel_res Q (f a) (g a)) \<Longrightarrow> rel_res Q (res_bind x f) (res_bind x g)"
  by (cases x) (auto simp: rel_res_def)

lemma same_innerE:
  assumes "same_inner key D P K"
  obtains m where "P = K\<lparr>rb_records := m\<rparr>" "rekeyed key D m (rb_records K)"
  using assms by (auto simp: same_inner_def)

lemma data_record_same:
  assumes "same_inner key D P K" "inj_on key D" "p \<in> D"
  shows "rel_res (same_inner key D) (process_next_data_record ml r (position_key p) P) (process_next_data_record ml r (key p) K)"
proof -
  obtain m where P: "P = K\<lparr>rb_records := m\<rparr>" "rekeyed key D m (rb_records K)" by (rule same_innerE [OF assms(1)])
  have get: "bm_get m (position_key p) = bm_get (rb_records K) (key p)" using rekeyed_get [OF P(2) assms(3)] by simp
  show ?thesis
  proof (cases "data_update ml K r (bm_get (rb_records K) (key p))")
    case (Inr u)
    let ?mp = "store_update (position_key p) m u" and ?mk = "store_update (key p) (rb_records K) u"
    have rel: "rekeyed key D ?mp ?mk" by (rule store_update_rekeyed [OF P(2) assms(2,3)])
    then have "length ?mp = length ?mk" by (rule rekeyed_length [OF _ assms(2)])
    then show ?thesis
      using Inr rel by (simp add: process_next_data_record_def merge_data_record_at P(1) get same_inner_def)
  qed (simp add: process_next_data_record_def merge_data_record_at P(1) get)
qed

lemma deleted_record_same:
  assumes "same_inner key D P K" "inj_on key D" "p \<in> D"
  shows "rel_res (same_inner key D) (process_next_deleted_record d (position_key p) P) (process_next_deleted_record d (key p) K)"
proof -
  obtain m where P: "P = K\<lparr>rb_records := m\<rparr>" "rekeyed key D m (rb_records K)" by (rule same_innerE [OF assms(1)])
  have get: "bm_get m (position_key p) = bm_get (rb_records K) (key p)" using rekeyed_get [OF P(2) assms(3)] by simp
  let ?u = "map_option from_delete_record (delta_merge_delete (rb_merger K) d (bm_get (rb_records K) (key p)))"
  have step: "merge_in_place k (\<lambda>existing. Ok (map_option from_delete_record (delta_merge_delete (rb_merger K) d existing))) n =
      Ok (store_update k n (map_option from_delete_record (delta_merge_delete (rb_merger K) d (bm_get n k))))" for k n
    by (simp add: merge_in_place_def store_update_def)
  have "rekeyed key D (store_update (position_key p) m ?u) (store_update (key p) (rb_records K) ?u)"
    by (rule store_update_rekeyed [OF P(2) assms(2,3)])
  then show ?thesis by (simp add: process_next_deleted_record_def P(1) step get same_inner_def)
qed

section \<open>Folding a block\<close>

text \<open>The context does not change while a block is folded.\<close>

definition same_within :: "(nat \<Rightarrow> string) \<Rightarrow> nat set \<Rightarrow> RecordContext \<Rightarrow> DeleteContext option \<Rightarrow> RecordBuffer \<Rightarrow> RecordBuffer \<Rightarrow> bool"
  where
  "same_within key D rc ctx P K \<longleftrightarrow> same_inner key D P K \<and> rb_record_context K = rc \<and> rb_delete_context K = ctx"

lemma process_next_context:
  "process_next_data_record ml r k K = Ok K' \<Longrightarrow> rb_record_context K' = rb_record_context K \<and> rb_delete_context K' = rb_delete_context K"
  by (auto simp: process_next_data_record_def res_bind_Inr_iff)

lemma same_within_inner: "same_within key D rc ctx P K \<Longrightarrow> same_inner key D P K"
  by (simp add: same_within_def)

lemma same_inner_context:
  "same_inner key D P K \<Longrightarrow> rb_record_context P = rb_record_context K \<and> rb_delete_context P = rb_delete_context K \<and>
   rb_merger P = rb_merger K \<and> rb_stats P = rb_stats K \<and> rb_reader_schema P = rb_reader_schema K \<and>
   rb_next_record P = rb_next_record K \<and> rb_log_record_iter P = rb_log_record_iter K \<and> pending_rows P = pending_rows K"
  by (erule same_innerE) (simp add: pending_rows_def split: option.split)

text \<open>The entries of the block lie at its positions: record for record the position is that of the base
  row with the key.\<close>

definition entries_at :: "(nat \<Rightarrow> string) \<Rightarrow> nat list \<Rightarrow> (string \<times> 'a) list \<Rightarrow> bool" where
  "entries_at key ps es \<longleftrightarrow> map fst es = map key ps"

text \<open>A step of the fold under a name, and the fold of entries at positions.\<close>

definition step_at :: "(string \<Rightarrow> 'e \<Rightarrow> RecordBuffer \<Rightarrow> RecordBuffer result) \<Rightarrow> nat list \<Rightarrow> RecordBuffer \<times> nat \<Rightarrow> 'e \<Rightarrow>
    (RecordBuffer \<times> nat) result" where
  "step_at step ps st e = (case st of (bf, i) \<Rightarrow> res_bind (at_position ps i) (\<lambda>p.
     res_bind (step (position_key p) e bf) (\<lambda>bf'. Ok (bf', i + 1))))"

lemma step_at_data: "data_at_position ml ps = step_at (\<lambda>n e. process_next_data_record ml (snd e) n) ps"
  by (intro ext) (simp add: data_at_position_def step_at_def)

lemma step_at_delete:
  "delete_at_position ps = step_at (\<lambda>n e. process_next_deleted_record \<lparr>dr_record_key = fst e, dr_ordering_value = snd e\<rparr> n) ps"
  by (intro ext) (simp add: delete_at_position_def step_at_def)

lemma entries_same:
  fixes es :: "(string \<times> 'a) list"
  assumes step: "\<And>P K p e. R P K \<Longrightarrow> p \<in> D \<Longrightarrow> rel_res R (step (position_key p) e P) (step (key p) e K)"
    and D: "set ps \<subseteq> D" and same: "R P K" and es: "map fst es = map key (take (length es) (drop i ps))"
  shows "rel_res (\<lambda>(P', j) K'. R P' K' \<and> j = i + length es)
    (res_fold (step_at step ps) (P, i) es) (res_fold (\<lambda>bf e. step (fst e) e bf) K es)"
  using same es
proof (induction es arbitrary: P K i)
  case (Cons e es)
  have i: "i < length ps" using Cons.prems(2) by (rule contrapos_pp) simp
  then have split: "drop i ps = ps ! i # drop (Suc i) ps" by (simp add: Cons_nth_drop_Suc)
  have k: "fst e = key (ps ! i)" and es: "map fst es = map key (take (length es) (drop (Suc i) ps))"
    using Cons.prems(2) unfolding split by simp_all
  have p: "ps ! i \<in> D" using i D by auto
  note stepped = step [OF Cons.prems(1) p, of e]
  have rest: "rel_res (\<lambda>(P', j) K'. R P' K' \<and> j = i + length (e # es))
      (res_fold (step_at step ps) (P', Suc i) es) (res_fold (\<lambda>bf e. step (fst e) e bf) K' es)"
    if "R P' K'" for P' K'
    using Cons.IH [OF that, of "Suc i"] es by simp
  have "res_fold (step_at step ps) (P, i) (e # es) =
      res_bind (step (position_key (ps ! i)) e P) (\<lambda>P'. res_fold (step_at step ps) (P', Suc i) es)"
    by (cases "step (position_key (ps ! i)) e P") (simp_all add: step_at_def at_position_def i)
  moreover have "res_fold (\<lambda>bf e. step (fst e) e bf) K (e # es) =
      res_bind (step (key (ps ! i)) e K) (\<lambda>K'. res_fold (\<lambda>bf e. step (fst e) e bf) K' es)"
    by (simp add: k)
  ultimately show ?case using rel_res_bind [OF stepped rest] by simp
qed simp

lemma batches_same:
  fixes rss :: "(string \<times> 'a) list list"
  assumes step: "\<And>P K p e. R P K \<Longrightarrow> p \<in> D \<Longrightarrow> rel_res R (step (position_key p) e P) (step (key p) e K)"
    and dec: "\<And>P K. R P K \<Longrightarrow> decode K = entries"
    and D: "set ps \<subseteq> D" and same: "R P K" and rss: "res_map entries ds = Ok rss"
    and es: "map fst (concat rss) = map key (take (length (concat rss)) (drop i ps))"
  shows "rel_res (\<lambda>(P', j) K'. R P' K' \<and> j = i + length (concat rss))
    (res_fold (\<lambda>st ba. res_bind (entries ba) (res_fold (step_at step ps) st)) (P, i) ds)
    (res_fold (\<lambda>bf ba. res_bind (decode bf ba) (res_fold (\<lambda>bf e. step (fst e) e bf) bf)) K ds)"
  using same rss es
proof (induction ds arbitrary: P K i rss)
  case (Cons ba ds)
  obtain rs rss' where r: "entries ba = Ok rs" "res_map entries ds = Ok rss'" "rss = rs # rss'"
    using Cons.prems(2) by (auto simp: res_bind_Inr_iff)
  have len: "length (concat rss) = length rs + length (concat rss')" using r(3) by simp
  have both: "map fst rs @ map fst (concat rss') = map key (take (length rs) (drop i ps)) @
      map key (take (length (concat rss')) (drop (i + length rs) ps))"
    using Cons.prems(3) unfolding r(3) by (simp add: take_add add.commute)
  have long: "length rs \<le> length (drop i ps)" using arg_cong [OF Cons.prems(3), of length] len by simp
  then have rs: "map fst rs = map key (take (length rs) (drop i ps))"
    and tail: "map fst (concat rss') = map key (take (length (concat rss')) (drop (i + length rs) ps))"
    using both by (auto simp: append_eq_append_conv)
  note first = entries_same [of R D step key, OF step D Cons.prems(1) rs]
  have rest: "rel_res (\<lambda>(P', j) K'. R P' K' \<and> j = i + length (concat rss))
      (res_fold (\<lambda>st ba. res_bind (entries ba) (res_fold (step_at step ps) st)) Pj ds)
      (res_fold (\<lambda>bf ba. res_bind (decode bf ba) (res_fold (\<lambda>bf e. step (fst e) e bf) bf)) K' ds)"
    if "(\<lambda>(P', j) K'. R P' K' \<and> j = i + length rs) Pj K'" for Pj K'
    using that Cons.IH [OF _ r(2), of "fst Pj" K' "i + length rs"] tail len by (cases Pj) (simp add: add.assoc)
  show ?case using rel_res_bind [OF first rest] by (simp add: r(1) dec [OF Cons.prems(1)])
qed simp

lemma data_block_same:
  assumes "inj_on key D" "set ps \<subseteq> D" "same_inner key D P K" "lb_content b = Records ds dbs"
    and "res_map (\<lambda>ba. batch_to_buffered_records (rb_record_context K) ba (rb_delete_context K)) ds = Ok rss"
    and "entries_at key ps (concat rss)"
  shows "rel_res (\<lambda>P' (b', K'). same_inner key D P' K' \<and> b' = take_content b) (data_block_at_positions ml ps b P) (process_data_block ml b K)"
proof -
  let ?rc = "rb_record_context K" and ?ctx = "rb_delete_context K"
  let ?R = "same_within key D ?rc ?ctx"
  let ?step = "\<lambda>n (e :: string \<times> BufferedRecord). process_next_data_record ml (snd e) n"
  have same: "?R P K" using assms(3) by (simp add: same_within_def)
  have len: "length (concat rss) = length ps" using arg_cong [OF assms(6) [unfolded entries_at_def], of length] by simp
  have es: "map fst (concat rss) = map key (take (length (concat rss)) (drop 0 ps))"
    using assms(6) len by (simp add: entries_at_def)
  have step: "rel_res ?R (?step (position_key p) e P') (?step (key p) e K')" if "?R P' K'" "p \<in> D" for P' K' p e
  proof (rule rel_res_mono [OF data_record_same [OF same_within_inner [OF that(1)] assms(1) that(2)]])
    fix a c
    assume "process_next_data_record ml (snd e) (key p) K' = Ok c" "same_inner key D a c"
    then show "?R a c" using process_next_context [of ml "snd e" _ K' c] that(1) by (simp add: same_within_def)
  qed
  have dec: "(\<lambda>ba. batch_to_buffered_records (rb_record_context K') ba (rb_delete_context K')) =
      (\<lambda>ba. batch_to_buffered_records ?rc ba ?ctx)" if "?R P' K'" for P' K'
    using that by (simp add: same_within_def)
  note fold = batches_same [of ?R D ?step key, OF step dec assms(2) same assms(5) es]
  have "rel_res (\<lambda>P' (b', K'). same_inner key D P' K' \<and> b' = take_content b) (positions_used ps Pj) (Ok (take_content b, K'))"
    if "(\<lambda>(P', j) K'. ?R P' K' \<and> j = 0 + length (concat rss)) Pj K'" for Pj K'
    using that len by (cases Pj) (simp add: positions_used_def same_within_def)
  from rel_res_bind [OF fold this] show ?thesis
    using same_inner_context [OF assms(3)] assms(4)
    by (simp add: data_block_at_positions_def process_data_block_def take_content_def step_at_data case_prod_beta')
qed

lemma delete_block_same:
  assumes "inj_on key D" "set ps \<subseteq> D" "same_inner key D P K" "lb_content b = Records ds dbs"
    and "res_map delete_batch_to_keys_with_ordering dbs = Ok rss" "entries_at key ps (concat rss)"
  shows "rel_res (\<lambda>P' (b', K'). same_inner key D P' K' \<and> b' = take_content b) (delete_block_at_positions ps b P) (process_delete_block b K)"
proof -
  let ?step = "\<lambda>n (e :: string \<times> OrderingValue option).
    process_next_deleted_record \<lparr>dr_record_key = fst e, dr_ordering_value = snd e\<rparr> n"
  have len: "length (concat rss) = length ps" using arg_cong [OF assms(6) [unfolded entries_at_def], of length] by simp
  have es: "map fst (concat rss) = map key (take (length (concat rss)) (drop 0 ps))"
    using assms(6) len by (simp add: entries_at_def)
  have step: "rel_res (same_inner key D) (?step (position_key p) e P') (?step (key p) e K')"
    if "same_inner key D P' K'" "p \<in> D" for P' K' p e
    by (rule deleted_record_same [OF that(1) assms(1) that(2)])
  note fold = batches_same [of "same_inner key D" D ?step key, OF step refl assms(2,3,5) es]
  have "rel_res (\<lambda>P' (b', K'). same_inner key D P' K' \<and> b' = take_content b) (positions_used ps Pj) (Ok (take_content b, K'))"
    if "(\<lambda>(P', j) K'. same_inner key D P' K' \<and> j = 0 + length (concat rss)) Pj K'" for Pj K'
    using that len by (cases Pj) (simp add: positions_used_def)
  from rel_res_bind [OF fold this] show ?thesis
    using assms(4) by (simp add: delete_block_at_positions_def process_delete_block_def take_content_def step_at_delete case_prod_beta')
qed

section \<open>Falling back\<close>

lemma bm_ext:
  assumes "bm_ok m" "bm_ok m'" "\<And>k. bm_get m k = bm_get m' k"
  shows "m = m'"
proof -
  have "set m = set m'"
  proof (rule set_eqI)
    fix e
    show "e \<in> set m \<longleftrightarrow> e \<in> set m'"
      using bm_get_in [OF assms(1), of "fst e" "snd e"] bm_get_in [OF assms(2), of "fst e" "snd e"] assms(3) [of "fst e"] by simp
  qed
  moreover have "sorted (map fst m)" "distinct (map fst m)" "sorted (map fst m')" "distinct (map fst m')"
    using assms(1,2) by (simp_all add: bm_ok_def strict_sorted_iff)
  ultimately show ?thesis by (intro map_sorted_distinct_set_unique [of fst]) (auto simp: distinct_map)
qed

text \<open>A buffered record from which its record key is recovered.\<close>

definition recovers :: "RecordContext \<Rightarrow> string \<Rightarrow> BufferedRecord \<Rightarrow> bool" where
  "recovers rc k r \<longleftrightarrow> br_record_key r = k \<and> k \<noteq> [] \<and> (case br_get_record r of Inl _ \<Rightarrow> False
     | Inr None \<Rightarrow> True | Inr (Some row) \<Rightarrow> get_record_keys rc (row_batch row) = Ok [k])"

lemma rekey_recovered: "recovers rc k r \<Longrightarrow> rekey_entry rc m r = reinsert_rekeyed k r m"
  by (auto simp: recovers_def rekey_entry_def first_key_def split: sum.splits option.splits)

lemma rekey_fold:
  assumes "inj_on key D" "rekeyed key D mp m" "distinct (map fst es)" "\<forall>(j, r)\<in>set es. \<exists>p\<in>D. j = position_key p \<and> recovers rc (key p) r"
    and "\<forall>j\<in>fst ` set es. bm_get mp j = None"
  shows "\<exists>m'. res_fold (rekey_entry rc) m (map snd es) = Ok m' \<and> rekeyed key D (fold (\<lambda>(j, r). bm_insert j r) es mp) m'"
  using assms(2-5)
proof (induction es arbitrary: mp m)
  case (Cons e es)
  obtain j r where e: "e = (j, r)" by force
  obtain p where p: "p \<in> D" "j = position_key p" "recovers rc (key p) r" using Cons.prems(3) e by auto
  have bm: "bm_ok mp" using Cons.prems(1) by (simp add: rekeyed_def)
  have "bm_get m (key p) = None" using rekeyed_get [OF Cons.prems(1) p(1)] Cons.prems(4) e p(2) by simp
  then have step: "rekey_entry rc m r = Ok (bm_insert (key p) r m)"
    using rekey_recovered [OF p(3)] by (simp add: reinsert_rekeyed_def)
  have "rekeyed key D (bm_insert j r mp) (bm_insert (key p) r m)" unfolding p(2) by (rule rekeyed_insert [OF Cons.prems(1) assms(1) p(1)])
  moreover have "distinct (map fst es)" "\<forall>(j, r)\<in>set es. \<exists>p\<in>D. j = position_key p \<and> recovers rc (key p) r"
    using Cons.prems(2,3) by simp_all
  moreover have "\<forall>i\<in>fst ` set es. bm_get (bm_insert j r mp) i = None"
    using Cons.prems(2,4) bm e by auto
  ultimately show ?case using Cons.IH [of "bm_insert j r mp" "bm_insert (key p) r m"] step e by simp
qed simp

lemma fold_bm_insert:
  "distinct (map fst es) \<Longrightarrow> bm_ok m \<Longrightarrow> bm_ok (fold (\<lambda>(j, r). bm_insert j r) es m) \<and>
   (\<forall>k. bm_get (fold (\<lambda>(j, r). bm_insert j r) es m) k = (case map_of es k of Some r \<Rightarrow> Some r | None \<Rightarrow> bm_get m k))"
proof (induction es arbitrary: m)
  case (Cons e es)
  obtain a b where e: "e = (a, b)" by force
  have a: "map_of es a = None" using Cons.prems(1) e by (simp add: map_of_eq_None_iff)
  have "bm_ok (bm_insert a b m)" "distinct (map fst es)" using Cons.prems by simp_all
  note ih = Cons.IH [OF this(2,1)]
  have "bm_get (bm_insert a b m) k = (if k = a then Some b else bm_get m k)" for k using Cons.prems(2) by simp
  then show ?case using ih e a by (simp split: option.split)
qed simp

lemma fallback_same:
  assumes "inj_on key D" "same_inner key D (po_inner pb) K" "po_should_use_position pb"
    and "\<forall>p\<in>D. \<forall>r. bm_get (rb_records (po_inner pb)) (position_key p) = Some r \<longrightarrow> recovers (rb_record_context K) (key p) r"
  shows "fallback_to_key_based pb = Ok (pb\<lparr>po_should_use_position := False, po_inner := K\<rparr>)"
proof -
  obtain mp where P: "po_inner pb = K\<lparr>rb_records := mp\<rparr>" "rekeyed key D mp (rb_records K)" by (rule same_innerE [OF assms(2)])
  have bm: "bm_ok mp" "bm_ok (rb_records K)" using P(2) by (simp_all add: rekeyed_def)
  then have dist: "distinct (map fst mp)" by (simp add: bm_ok_def strict_sorted_iff)
  have named: "\<exists>p\<in>D. j = position_key p \<and> recovers (rb_record_context K) (key p) r" if "(j, r) \<in> set mp" for j r
  proof -
    have "j \<in> fst ` set mp" using imageI [OF that, of fst] by simp
    then obtain p where p: "p \<in> D" "j = position_key p" using P(2) by (auto simp only: rekeyed_def)
    have "bm_get (rb_records (po_inner pb)) (position_key p) = Some r" using that p(2) P(1) bm_get_in [OF bm(1), of j r] by simp
    then show ?thesis using assms(4) p by blast
  qed
  have "\<exists>m'. res_fold (rekey_entry (rb_record_context K)) [] (map snd mp) = Ok m' \<and>
      rekeyed key D (fold (\<lambda>(j, r). bm_insert j r) mp []) m'"
    by (rule rekey_fold [OF assms(1) rekeyed_Nil dist]) (use named in \<open>auto simp: bm_get_def\<close>)
  then obtain m' where m': "res_fold (rekey_entry (rb_record_context K)) [] (map snd mp) = Ok m'"
    "rekeyed key D (fold (\<lambda>(j, r). bm_insert j r) mp []) m'" by blast
  have "fold (\<lambda>(j, r). bm_insert j r) mp [] = mp"
    by (rule bm_ext) (use fold_bm_insert [OF dist bm_ok_Nil] bm in \<open>auto simp: bm_get_def split: option.split\<close>)
  then have rel: "rekeyed key D mp m'" using m'(2) by simp
  have "m' = rb_records K"
  proof (rule bm_ext)
    show "bm_ok m'" using rel by (simp add: rekeyed_def)
    fix k
    show "bm_get m' k = bm_get (rb_records K) k"
    proof (cases "k \<in> key ` D")
      case True
      then show ?thesis using rekeyed_get [OF rel] rekeyed_get [OF P(2)] by auto
    next
      case False
      then have "k \<notin> fst ` set m'" "k \<notin> fst ` set (rb_records K)" using rel P(2) by (auto simp: rekeyed_def)
      then show ?thesis by (metis bm_get_None)
    qed
  qed (rule bm(2))
  then show ?thesis using assms(3) m'(1) P(1) by (simp add: fallback_to_key_based_def Let_def)
qed

text \<open>Whatever the keys, a fallback that succeeds has kept the payload of every entry it could name.\<close>

definition nameable :: "BufferedRecord \<Rightarrow> bool" where
  "nameable r \<longleftrightarrow> br_record_key r \<noteq> [] \<or> (case br_get_record r of Inr (Some _) \<Rightarrow> True | _ \<Rightarrow> False)"

definition payload_of :: "BufferedRecord \<Rightarrow> RecordPayload \<times> OrderingValue option" where
  "payload_of r = (br_payload r, br_ordering_value r)"

lemma bm_insert_new_mset: "bm_get m k = None \<Longrightarrow> mset (bm_insert k v m) = add_mset (k, v) (mset m)"
  by (induction k v m rule: bm_insert.induct) (auto simp: bm_get_def split: if_splits)

lemma reinsert_payloads:
  "reinsert_rekeyed k (r\<lparr>br_record_key := k'\<rparr>) m = Ok m' \<Longrightarrow>
   mset (map (payload_of \<circ> snd) m') = add_mset (payload_of r) (mset (map (payload_of \<circ> snd) m))"
  using bm_insert_new_mset [of m k "r\<lparr>br_record_key := k'\<rparr>"]
  by (auto simp: reinsert_rekeyed_def payload_of_def split: if_splits)

lemma rekey_payloads:
  assumes "rekey_entry rc m r = Ok m'"
  shows "mset (map (payload_of \<circ> snd) m') = (if nameable r then add_mset (payload_of r) (mset (map (payload_of \<circ> snd) m))
    else mset (map (payload_of \<circ> snd) m))"
proof -
  obtain ro where ro: "br_get_record r = Ok ro" using assms by (cases "br_get_record r") (simp_all add: rekey_entry_def)
  show ?thesis
  proof (cases ro)
    case None
    have "r\<lparr>br_record_key := br_record_key r\<rparr> = r" by simp
    then show ?thesis
      using assms ro None reinsert_payloads [where k = "br_record_key r" and r = r and k' = "br_record_key r" and m = m and m' = m']
      by (auto simp: rekey_entry_def nameable_def split: if_splits)
  next
    case (Some row)
    then obtain k where "reinsert_rekeyed k (r\<lparr>br_record_key := k\<rparr>) m = Ok m'"
      using assms ro by (auto simp: rekey_entry_def res_bind_Inr_iff)
    then show ?thesis using reinsert_payloads ro Some by (simp add: nameable_def)
  qed
qed

lemma rekey_fold_payloads:
  "res_fold (rekey_entry rc) m rs = Ok m' \<Longrightarrow>
   mset (map (payload_of \<circ> snd) m') = mset (map payload_of (filter nameable rs)) + mset (map (payload_of \<circ> snd) m)"
proof (induction rs arbitrary: m)
  case (Cons r rs)
  obtain m1 where "rekey_entry rc m r = Ok m1" "res_fold (rekey_entry rc) m1 rs = Ok m'"
    using Cons.prems by (auto simp: res_bind_Inr_iff)
  then show ?case using Cons.IH [of m1] rekey_payloads [of rc m r m1] by (cases "nameable r") (simp_all add: comp_def)
qed simp

section \<open>Merging base rows\<close>

text \<open>A base row lies at its position and has its key.\<close>

definition base_row_at :: "(nat \<Rightarrow> string) \<Rightarrow> RecordContext \<Rightarrow> batch \<times> nat \<Rightarrow> nat \<Rightarrow> bool" where
  "base_row_at key rc x p \<longleftrightarrow> get_record_keys rc (slice_batch (fst x) (snd x)) = Ok [key p] \<and>
     (case base_row_position_array (fst x) of Inl _ \<Rightarrow> False | Inr a \<Rightarrow> a ! snd x = int p)"

lemma base_row_names:
  assumes "base_row_at key rc x p"
  obtains base where "base_row_record rc Position x = Ok (position_key p, base)" "base_row_record rc RecordKey x = Ok (key p, base)"
  using assms by (auto simp: base_row_at_def base_row_record_def base_record_at_def show_int_def position_key_def split: sum.splits)

lemma merge_rows_same:
  assumes "list_all2 (base_row_at key rc) xs ps" "distinct ps" "inj_on key (set ps)" "rekeyed key (set ps) mp mk"
  shows "merge_rows ml mg (base_row_record rc Position) xs mp st = merge_rows ml mg (base_row_record rc RecordKey) xs mk st"
  using assms
proof (induction xs ps arbitrary: mp mk st rule: list_all2_induct)
  case Nil
  then show ?case using rekeyed_empty by fastforce
next
  case (Cons x xs p ps)
  obtain base where base: "base_row_record rc Position x = Ok (position_key p, base)" "base_row_record rc RecordKey x = Ok (key p, base)"
    by (rule base_row_names [OF Cons.hyps(1)])
  have get: "bm_get mp (position_key p) = bm_get mk (key p)" using rekeyed_get [OF Cons.prems(3), of p] by simp
  have "rekeyed key (set (p # ps) - {p}) (bm_remove (position_key p) mp) (bm_remove (key p) mk)"
    by (rule rekeyed_remove [OF Cons.prems(3,2)]) simp
  moreover have "set (p # ps) - {p} = set ps" using Cons.prems(1) by auto
  ultimately have "rekeyed key (set ps) (bm_remove (position_key p) mp) (bm_remove (key p) mk)" by simp
  note ih = Cons.IH [OF _ _ this]
  have "inj_on key (set ps)" "distinct ps" using Cons.prems(1,2) by (simp_all add: inj_on_def)
  then show ?case using ih by (simp add: base get)
qed

lemma merge_same:
  assumes "list_all2 (base_row_at key (rb_record_context K)) xs ps" "distinct ps" "inj_on key (set ps)" "same_inner key (set ps) P K"
    and "pending_rows K = Some xs" "rb_next_record K = None" "rb_log_record_iter K = None" "rb_reader_schema K = Some s"
  shows "merge_and_collect_with_stats ml Position P = merge_and_collect_with_stats ml RecordKey K"
proof -
  note ctx = same_inner_context [OF assms(4)]
  let ?rc = "rb_record_context K"
  have rel: "rekeyed key (set ps) (rb_records P) (rb_records K)" using assms(4) by (simp add: same_inner_def)
  have rows: "merge_rows ml (rb_merger P) (base_row_record (rb_record_context P) Position) xs (rb_records P) (rb_stats P) =
      merge_rows ml (rb_merger K) (base_row_record ?rc RecordKey) xs (rb_records K) (rb_stats K)"
    using merge_rows_same [OF assms(1-3) rel] ctx by simp
  obtain fP where P: "collect_records ml Position P = res_bind (merge_rows ml (rb_merger P) (base_row_record (rb_record_context P) Position) xs
      (rb_records P) (rb_stats P)) (\<lambda>(rs, m, st). Ok (fP m st, rs @ filter (\<lambda>r. \<not> br_is_delete r) (map snd m)))"
    "\<forall>m st. rb_stats (fP m st) = drained_stats (map snd m) st"
    using collect_records_eq [of P xs ml Position] ctx assms(5-7) by auto
  obtain fK where K: "collect_records ml RecordKey K = res_bind (merge_rows ml (rb_merger K) (base_row_record ?rc RecordKey) xs
      (rb_records K) (rb_stats K)) (\<lambda>(rs, m, st). Ok (fK m st, rs @ filter (\<lambda>r. \<not> br_is_delete r) (map snd m)))"
    "\<forall>m st. rb_stats (fK m st) = drained_stats (map snd m) st"
    using collect_records_eq [OF assms(5-7), of ml RecordKey] by auto
  have schema: "output_schema P = Ok s" "output_schema K = Ok s" using assms(8) ctx by (simp_all add: output_schema_def)
  show ?thesis
    using P(2) K(2) by (cases "merge_rows ml (rb_merger K) (base_row_record ?rc RecordKey) xs (rb_records K) (rb_stats K)")
      (auto simp: merge_and_collect_with_stats_def schema P(1) K(1) rows)
qed

text \<open>Without the hybrid strategy the position buffer merges as its inner buffer does.\<close>

lemma do_has_next_plain:
  "\<not> po_needs_hybrid_strategy pb \<Longrightarrow>
   do_has_next_position ml pb = on_inner (do_has_next_matched ml (base_match pb) (po_inner pb)) pb"
proof (induction ml "base_match pb" "po_inner pb" arbitrary: pb rule: do_has_next_matched.induct)
  case (1 ml pb)
  have base: "base_match (pb\<lparr>po_inner := bf\<rparr>) = base_match pb" for bf by (simp add: base_match_def)
  show ?case
  proof (cases "next_base_row (po_inner pb)")
    case (Inr y)
    obtain bf1 x where y: "y = (bf1, x)" by force
    show ?thesis
    proof (cases x)
      case None
      then show ?thesis using Inr y
        by (subst do_has_next_position.simps, subst do_has_next_matched.simps) (simp add: on_inner_def split: prod.split)
    next
      case (Some z)
      obtain b i where x: "x = Some (b, i)" using Some by (cases z) auto
      show ?thesis
      proof (cases "has_next_base_record_at ml (base_match pb) b i bf1")
        case (Inl e)
        then show ?thesis using Inr y x "1.prems"
          by (subst do_has_next_position.simps, subst do_has_next_matched.simps) (simp add: on_inner_def hybrid_delete_def)
      next
        case h: (Inr w)
        obtain bf2 found where w: "w = (bf2, found)" by force
        have ih: "do_has_next_position ml (pb\<lparr>po_inner := bf2\<rparr>) = on_inner (do_has_next_matched ml (base_match pb) bf2) (pb\<lparr>po_inner := bf2\<rparr>)"
          if "\<not> found"
          using "1.hyps" [OF Inr y [symmetric] x refl h, of "pb\<lparr>po_inner := bf2\<rparr>" found] that w "1.prems" base by simp
        have "on_inner r (pb\<lparr>po_inner := bf2\<rparr>) = on_inner r pb" for r :: "(RecordBuffer \<times> bool) result" by (simp add: on_inner_def)
        then show ?thesis using Inr y x h w ih "1.prems"
          by (subst do_has_next_position.simps, subst do_has_next_matched.simps) (simp add: on_inner_def hybrid_delete_def)
      qed
    qed
  qed (subst do_has_next_position.simps, subst do_has_next_matched.simps, simp add: on_inner_def)
qed

lemma position_collect_plain:
  "\<not> po_needs_hybrid_strategy pb \<Longrightarrow>
   position_collect_records ml pb = on_inner (collect_records ml (base_match pb) (po_inner pb)) pb"
proof (induction ml "base_match pb" "po_inner pb" arbitrary: pb rule: collect_records.induct)
  case (1 ml pb)
  have base: "base_match (pb\<lparr>po_inner := bf\<rparr>) = base_match pb" for bf by (simp add: base_match_def)
  have has: "position_has_next ml pb = on_inner (has_next ml (base_match pb) (po_inner pb)) pb"
    using do_has_next_plain [OF "1.prems"] by (simp add: position_has_next_def has_next_def on_inner_def)
  show ?case
  proof (cases "has_next ml (base_match pb) (po_inner pb)")
    case (Inr y)
    obtain bf1 more where y: "y = (bf1, more)" by force
    have ih: "position_collect_records ml (pb\<lparr>po_inner := bf1\<lparr>rb_next_record := None\<rparr>\<rparr>) =
        on_inner (collect_records ml (base_match pb) (bf1\<lparr>rb_next_record := None\<rparr>)) pb"
      if "more" "rb_next_record bf1 = Some r" for r
      using "1.hyps" [OF Inr y [symmetric] that, of "pb\<lparr>po_inner := bf1\<lparr>rb_next_record := None\<rparr>\<rparr>"] "1.prems" base
      by (simp add: on_inner_def)
    show ?thesis using Inr y has ih
      by (subst position_collect_records.simps, subst collect_records.simps)
        (cases "rb_next_record bf1"; auto simp: on_inner_def res_bind_def split: sum.splits)
  qed (subst position_collect_records.simps, subst collect_records.simps, simp add: on_inner_def has)
qed

lemma position_merge_plain:
  "\<not> po_needs_hybrid_strategy pb \<Longrightarrow>
   position_merge_and_collect_with_stats ml pb = merge_and_collect_with_stats ml (base_match pb) (po_inner pb)"
  by (cases "collect_records ml (base_match pb) (po_inner pb)"; cases "output_schema (po_inner pb)")
    (auto simp: position_merge_and_collect_with_stats_def merge_and_collect_with_stats_def position_collect_plain on_inner_def)

section \<open>The properties\<close>

text \<open>C11: While positions are used, processing a data block by position does what processing it by
  key does: the same error, or the same block without its content and an inner buffer that differs from
  the key-based one only in the names of its entries. The conditions: no two positions have the same record key
  (\<open>inj_on\<close>), the position of each log record of the block is that of the base row with its key
  (\<open>entries_at\<close>), and the buffers agree in this way before the block. With duplicate keys the two differ.\<close>

theorem position_block_is_key_block:
  assumes "po_should_use_position pb" "extract_positions decode pb b = Ok (Some ps)" "inj_on key D" "set ps \<subseteq> D"
    and "same_inner key D (po_inner pb) K" "lb_content b = Records ds dbs"
    and "res_map (\<lambda>ba. batch_to_buffered_records (rb_record_context K) ba (rb_delete_context K)) ds = Ok rss"
    and "entries_at key ps (concat rss)"
  shows "rel_res (\<lambda>(bp, pb') (bk, K'). bp = bk \<and> same_inner key D (po_inner pb') K' \<and> pb' = pb\<lparr>po_inner := po_inner pb'\<rparr>)
    (position_process_data_block decode ml b pb) (process_data_block ml b K)"
  using data_block_same [OF assms(3-8), of ml] assms(1,2)
  by (cases "process_data_block ml b K"; cases "data_block_at_positions ml ps b (po_inner pb)")
    (auto simp: position_process_data_block_def position_block_def Let_def)

text \<open>C12: A block without usable positions turns the buffer into the key-based one: it does what a
  key-based buffer that had folded the same log does, the same error or the same result, for data blocks
  and delete blocks. The conditions: no two positions have the same record key (\<open>inj_on\<close>), the buffer agrees with
  the key-based one up to names, and every buffered entry still yields a record key that is not empty, which is that
  of its position (\<open>recovers\<close>). With duplicate keys, or deletes that carry no key, the fallback fails or
  leaves the entry out.\<close>

theorem position_fallback_is_key_based:
  assumes "extract_positions decode pb b = Ok None"
    and "inj_on key D" "same_inner key D (po_inner pb) K" "po_should_use_position pb"
    and "\<forall>p\<in>D. \<forall>r. bm_get (rb_records (po_inner pb)) (position_key p) = Some r \<longrightarrow> recovers (rb_record_context K) (key p) r"
  shows "position_process_data_block decode ml b pb = res_bind (process_data_block ml b K) (\<lambda>(b', K').
      Ok (b', pb\<lparr>po_should_use_position := False, po_inner := K'\<rparr>)) \<and>
    position_process_delete_block decode b pb = res_bind (process_delete_block b K) (\<lambda>(b', K').
      Ok (b', pb\<lparr>po_should_use_position := False, po_inner := K'\<rparr>))"
  using fallback_same [OF assms(2-5)] assms(1,4)
  by (simp add: position_process_data_block_def position_process_delete_block_def position_block_def Let_def)

text \<open>C13: A fallback that succeeds loses no record and duplicates none, whatever the keys: the payloads
  and ordering values held afterwards are, with multiplicity, those of the entries that could be named.\<close>

theorem fallback_loses_no_record:
  assumes "fallback_to_key_based pb = Ok pb'" "po_should_use_position pb"
  shows "image_mset payload_of (mset (map snd (rb_records (po_inner pb')))) =
    image_mset payload_of (filter_mset nameable (mset (map snd (rb_records (po_inner pb)))))"
proof -
  obtain m where m: "res_fold (rekey_entry (rb_record_context (po_inner pb))) [] (map snd (rb_records (po_inner pb))) = Ok m"
    "pb' = pb\<lparr>po_should_use_position := False, po_inner := (po_inner pb)\<lparr>rb_records := m\<rparr>\<rparr>"
    using assms by (auto simp: fallback_to_key_based_def Let_def res_bind_Inr_iff)
  then show ?thesis using rekey_fold_payloads [OF m(1)] by (simp add: comp_def image_mset.compositionality mset_filter [symmetric])
qed

text \<open>C14: Merging the base rows by position gives what merging them by key gives: the same rows and statistics, or
  the same error. The conditions: positions are used and the hybrid strategy is off, each base row lies at its position
  with its key (\<open>base_row_at\<close>), positions are distinct and so are their keys, every buffered entry is at the
  position of a base row (so the log has no inserts), and the merge has not begun. With duplicate keys the two differ.\<close>

theorem position_merge_is_key_merge:
  assumes "po_should_use_position pb" "\<not> po_needs_hybrid_strategy pb" "same_inner key (set ps) (po_inner pb) K"
    and "list_all2 (base_row_at key (rb_record_context K)) xs ps" "distinct ps" "inj_on key (set ps)"
    and "pending_rows K = Some xs" "rb_next_record K = None" "rb_log_record_iter K = None" "rb_reader_schema K = Some s"
  shows "position_merge_and_collect_with_stats ml pb = merge_and_collect_with_stats ml RecordKey K"
  using merge_same [OF assms(4-6,3,7-10), of ml] assms(1) by (simp add: position_merge_plain [OF assms(2)] base_match_def)

section \<open>A small base file\<close>

text \<open>Two base rows at positions 0 and 1; a buffered delete of the second.\<close>

definition sample_row_key :: "nat \<Rightarrow> string" where
  "sample_row_key p = (if p = 0 then ''a'' else ''b'')"

definition sample_indexed_base :: batch where
  "sample_indexed_base = \<lparr>b_ptr = 0,
     b_schema = sample_schema @ [\<lparr>f_name = ROW_INDEX_TEMPORARY_COLUMN_NAME, f_type = DtInt64, f_nullable = True\<rparr>],
     b_rows = [[VStr ''a'', VInt 2, VInt 0], [VStr ''b'', VInt 3, VInt 1]]\<rparr>"

definition sample_keyed :: RecordBuffer where
  "sample_keyed = sample_buffer\<lparr>rb_records := [(''b'', new_delete ''b'' None)],
     rb_base_file_source := Some (sample_schema, [Ok sample_indexed_base])\<rparr>"

definition sample_by_position :: PositionBuffer where
  "sample_by_position = \<lparr>po_inner = sample_keyed\<lparr>rb_records := [(''1'', new_delete ''b'' None)]\<rparr>,
     po_base_file_instant_time = ''20240101'', po_should_use_position = True, po_needs_hybrid_strategy = False,
     po_hybrid_deletes = []\<rparr>"

definition sample_log_block :: "bool \<Rightarrow> LogBlock" where
  "sample_log_block positions = log_block_new LogFormatV1 AvroData
     (if positions then [RecordPositions \<mapsto> ''AQ'', BaseFileInstantTimeOfRecordPositions \<mapsto> ''20240101''] else Map.empty)
     (Records [\<lparr>b_ptr = 1, b_schema = sample_schema, b_rows = [[VStr ''a'', VInt 9]]\<rparr>] []) Map.empty"

lemma sample_positions:
  "extract_positions (\<lambda>_. Ok [0]) sample_by_position (sample_log_block True) = Ok (Some [0])"
  "extract_positions (\<lambda>_. Ok [0]) sample_by_position (sample_log_block False) = Ok None"
  "po_should_use_position sample_by_position" "\<not> po_needs_hybrid_strategy sample_by_position"
  by (simp_all add: extract_positions_def sample_by_position_def sample_log_block_def log_block_new_def
      base_file_instant_time_of_positions_def record_positions_header_def)

lemma sample_row_key_inj: "inj_on sample_row_key {0, 1}"
  by (simp add: sample_row_key_def)

lemma sample_position_keys: "position_key 0 = ''0''" "position_key (Suc 0) = ''1''"
  by code_simp+

lemma sample_same_inner: "same_inner sample_row_key {0, 1} (po_inner sample_by_position) sample_keyed"
  by (simp add: same_inner_def rekeyed_def sample_by_position_def sample_keyed_def sample_position_keys sample_row_key_def
      bm_ok_def bm_get_def)

lemma sample_log_entries:
  "res_map (\<lambda>ba. batch_to_buffered_records (rb_record_context sample_keyed) ba (rb_delete_context sample_keyed))
     [\<lparr>b_ptr = 1, b_schema = sample_schema, b_rows = [[VStr ''a'', VInt 9]]\<rparr>] =
   Ok [[(''a'', new_batch_ref ''a'' \<lparr>b_ptr = 1, b_schema = sample_schema, b_rows = [[VStr ''a'', VInt 9]]\<rparr> 0 None)]]"
  by (simp add: sample_keyed_def sample_buffer_def batch_to_buffered_records_def get_record_keys_def record_key_array_def
      sample_record_context_def sample_schema_def key_column_def key_type_ok_def ordering_value_at_def
      get_ordering_values_def Let_def slice_row_def is_delete_record_def is_built_in_delete_record_def
      is_delete_hoodie_operation_def is_custom_delete_record_def column_of_def field_position_def Let_def)

theorem position_block_is_key_block_witness:
  "rel_res (\<lambda>(bp, pb') (bk, K'). bp = bk \<and> same_inner sample_row_key {0, 1} (po_inner pb') K' \<and>
      pb' = sample_by_position\<lparr>po_inner := po_inner pb'\<rparr>)
    (position_process_data_block (\<lambda>_. Ok [0]) sample_lib (sample_log_block True) sample_by_position)
    (process_data_block sample_lib (sample_log_block True) sample_keyed)"
  by (rule position_block_is_key_block [OF sample_positions(3,1) sample_row_key_inj _ sample_same_inner _ sample_log_entries])
    (simp_all add: sample_log_block_def log_block_new_def entries_at_def sample_row_key_def)

theorem position_fallback_is_key_based_witness:
  "position_process_data_block (\<lambda>_. Ok [0]) sample_lib (sample_log_block False) sample_by_position =
     res_bind (process_data_block sample_lib (sample_log_block False) sample_keyed) (\<lambda>(b', K').
       Ok (b', sample_by_position\<lparr>po_should_use_position := False, po_inner := K'\<rparr>))"
  by (rule conjunct1 [OF position_fallback_is_key_based [OF sample_positions(2) sample_row_key_inj sample_same_inner sample_positions(3)]])
    (simp add: sample_by_position_def sample_keyed_def sample_position_keys sample_row_key_def bm_get_def recovers_def
      new_delete_def br_get_record_def payload_get_record_def)

theorem fallback_loses_no_record_witness:
  "\<exists>pb'. fallback_to_key_based sample_by_position = Ok pb' \<and> image_mset payload_of (mset (map snd (rb_records (po_inner pb')))) =
     {#payload_of (new_delete ''b'' None)#}"
proof -
  have nameable: "nameable (new_delete ''b'' None)" by (simp add: nameable_def new_delete_def)
  have "fallback_to_key_based sample_by_position = Ok (sample_by_position\<lparr>po_should_use_position := False, po_inner := sample_keyed\<rparr>)"
    by (simp add: fallback_to_key_based_def sample_by_position_def sample_keyed_def rekey_entry_def new_delete_def
        br_get_record_def payload_get_record_def reinsert_rekeyed_def bm_get_def Let_def)
  then show ?thesis
    using fallback_loses_no_record [of sample_by_position, OF _ sample_positions(3)] nameable
    by (simp add: sample_by_position_def sample_keyed_def)
qed

theorem position_merge_is_key_merge_witness:
  "position_merge_and_collect_with_stats sample_lib sample_by_position = merge_and_collect_with_stats sample_lib RecordKey sample_keyed"
proof (rule position_merge_is_key_merge [OF sample_positions(3,4)])
  show "same_inner sample_row_key (set [0, 1]) (po_inner sample_by_position) sample_keyed" using sample_same_inner by simp
  show "list_all2 (base_row_at sample_row_key (rb_record_context sample_keyed)) [(sample_indexed_base, 0), (sample_indexed_base, 1)] [0, 1]"
    by (simp add: base_row_at_def sample_keyed_def sample_indexed_base_def sample_schema_def sample_record_context_def
        get_record_keys_def record_key_array_def slice_batch_def key_column_def key_type_ok_def sample_row_key_def
        base_row_position_array_def batch_column_def ROW_INDEX_TEMPORARY_COLUMN_NAME_def position_of_value_def)
  show "pending_rows sample_keyed = Some [(sample_indexed_base, 0), (sample_indexed_base, 1)]"
    by (simp add: pending_rows_def sample_keyed_def rows_from_def sample_indexed_base_def upt_conv_Cons)
qed (simp_all add: sample_row_key_def sample_keyed_def)

end
