(* ===== verification/Hudi_Config.thy ===== *)
theory Hudi_Config
  imports File_Listing Filters
begin

text \<open>
  Configuration: \<open>config/mod.rs\<close>, \<open>config/table.rs\<close>, \<open>config/read.rs\<close>, \<open>config/internal.rs\<close>,
  \<open>config/plan.rs\<close>, \<open>config/util.rs\<close> and \<open>table/validation.rs\<close>. Options are strings by key. A typed
  configuration names a key, its aliases, a parser and maybe a default; how a missing or malformed
  value is treated depends on the accessor: \<open>get\<close> fails on both, \<open>get_or_default\<close> hides both, \<open>try_get\<close>
  fails on the malformed one only.
\<close>

section \<open>Values and errors\<close>

type_synonym options = "string \<Rightarrow> string option"

datatype conf_error = ParseBool | ParseInt | ParseLine | InvalidConf | NotFound | UnsupportedValue

type_synonym 'a conf_result = "conf_error + 'a"

datatype HudiConfigValue =
    ConfBoolean bool | ConfInteger int | ConfUInteger nat | ConfString string | ConfList "string list"

definition conf_bind :: "'a conf_result \<Rightarrow> ('a \<Rightarrow> 'b conf_result) \<Rightarrow> 'b conf_result" where
  "conf_bind x f = (case x of Inl e \<Rightarrow> Inl e | Inr v \<Rightarrow> f v)"

lemma conf_bind_simps [simp]: "conf_bind (Inl e) f = Inl e" "conf_bind (Inr v) f = f v"
  by (simp_all add: conf_bind_def)

lemma conf_bind_Inr_iff: "conf_bind x f = Inr y \<longleftrightarrow> (\<exists>v. x = Inr v \<and> f v = Inr y)"
  by (cases x) auto

text \<open>A configuration error as an error of the crate.\<close>

definition of_conf :: "'a conf_result \<Rightarrow> 'a result" where
  "of_conf x = (case x of Inl _ \<Rightarrow> Err ConfigError | Inr v \<Rightarrow> Ok v)"

lemma of_conf_simps [simp]: "of_conf (Inl e) = Err ConfigError" "of_conf (Inr v) = Ok v"
  by (simp_all add: of_conf_def)

lemma of_conf_Ok_iff [simp]: "of_conf x = Inr v \<longleftrightarrow> x = Inr v"
  by (cases x) auto

text \<open>The conversions of a value panic on a value of another kind.\<close>

definition conf_bool :: "HudiConfigValue \<Rightarrow> bool result" where
  "conf_bool v = (case v of ConfBoolean b \<Rightarrow> Ok b | _ \<Rightarrow> Err Panic)"

definition conf_isize :: "HudiConfigValue \<Rightarrow> int result" where
  "conf_isize v = (case v of ConfInteger n \<Rightarrow> Ok n | _ \<Rightarrow> Err Panic)"

definition conf_usize :: "HudiConfigValue \<Rightarrow> nat result" where
  "conf_usize v = (case v of ConfUInteger n \<Rightarrow> Ok n | _ \<Rightarrow> Err Panic)"

definition show_bool :: "bool \<Rightarrow> string" where
  "show_bool b = (if b then ''true'' else ''false'')"

definition conf_string :: "HudiConfigValue \<Rightarrow> string result" where
  "conf_string v = (case v of ConfBoolean b \<Rightarrow> Ok (show_bool b) | ConfInteger n \<Rightarrow> Ok (show_int n)
     | ConfUInteger n \<Rightarrow> Ok (show_nat n) | ConfString s \<Rightarrow> Ok s | ConfList _ \<Rightarrow> Err Panic)"

definition conf_list :: "HudiConfigValue \<Rightarrow> string list result" where
  "conf_list v = (case v of ConfList xs \<Rightarrow> Ok xs | _ \<Rightarrow> Err Panic)"

section \<open>Parsers\<close>

record ConfigAlias =
  ca_key :: string
  ca_deprecated :: bool

text \<open>The trait \<open>ConfigParser\<close>; \<open>cp_parse\<close> is what \<open>parse_value\<close> does with the raw value.\<close>

record ConfigParser =
  cp_key :: string
  cp_default_value :: "HudiConfigValue option"
  cp_aliases :: "ConfigAlias list"
  cp_is_required :: bool
  cp_parse :: "string \<Rightarrow> HudiConfigValue conf_result"

definition first_alias :: "ConfigAlias list \<Rightarrow> options \<Rightarrow> string option" where
  "first_alias as m = (case filter (\<lambda>a. m (ca_key a) \<noteq> None) as of [] \<Rightarrow> None | a # _ \<Rightarrow> m (ca_key a))"

definition resolve_raw_value :: "ConfigParser \<Rightarrow> options \<Rightarrow> string conf_result" where
  "resolve_raw_value p m = (case m (cp_key p) of Some v \<Rightarrow> Inr v
     | None \<Rightarrow> (case first_alias (cp_aliases p) m of Some v \<Rightarrow> Inr v | None \<Rightarrow> Inl NotFound))"

definition parse_value :: "ConfigParser \<Rightarrow> options \<Rightarrow> HudiConfigValue conf_result" where
  "parse_value p m = conf_bind (resolve_raw_value p m) (cp_parse p)"

definition conf_validate :: "ConfigParser \<Rightarrow> options \<Rightarrow> unit conf_result" where
  "conf_validate p m = (case parse_value p m of Inr _ \<Rightarrow> Inr ()
     | Inl e \<Rightarrow> if \<not> cp_is_required p \<and> e = NotFound then Inr () else Inl e)"

definition parse_value_or_default :: "ConfigParser \<Rightarrow> options \<Rightarrow> HudiConfigValue result" where
  "parse_value_or_default p m = (case parse_value p m of Inr v \<Rightarrow> Ok v | Inl _ \<Rightarrow> ok_or Panic (cp_default_value p))"

text \<open>\<open>HudiConfigs::try_get\<close>.\<close>

definition try_get :: "ConfigParser \<Rightarrow> options \<Rightarrow> HudiConfigValue option conf_result" where
  "try_get p m = (case parse_value p m of Inr v \<Rightarrow> Inr (Some v)
     | Inl e \<Rightarrow> if e = NotFound then Inr (cp_default_value p) else Inl e)"

text \<open>Parsers of single values.\<close>

definition parse_bool :: "string \<Rightarrow> HudiConfigValue conf_result" where
  "parse_bool s = (if s = ''true'' then Inr (ConfBoolean True) else if s = ''false'' then Inr (ConfBoolean False)
     else Inl ParseBool)"

definition parse_isize :: "string \<Rightarrow> HudiConfigValue conf_result" where
  "parse_isize s = (case parse_sint 64 s of Some n \<Rightarrow> Inr (ConfInteger n) | None \<Rightarrow> Inl ParseInt)"

definition parse_usize :: "string \<Rightarrow> HudiConfigValue conf_result" where
  "parse_usize s = (case parse_uint 64 s of Some n \<Rightarrow> Inr (ConfUInteger n) | None \<Rightarrow> Inl ParseInt)"

definition parse_positive :: "string \<Rightarrow> HudiConfigValue conf_result" where
  "parse_positive s = (case parse_uint 64 s of Some n \<Rightarrow> if n = 0 then Inl InvalidConf else Inr (ConfUInteger n)
     | None \<Rightarrow> Inl ParseInt)"

definition parse_string :: "string \<Rightarrow> HudiConfigValue conf_result" where
  "parse_string s = Inr (ConfString s)"

definition parse_list :: "string \<Rightarrow> HudiConfigValue conf_result" where
  "parse_list s = Inr (ConfList (split_on (CHR '','') s))"

section \<open>Table configuration\<close>

datatype HudiTableConfig =
    BaseFileFormat | BasePath | Checksum | CreateSchema | DatabaseName | DropsPartitionFields
  | IsHiveStylePartitioning | IsPartitionPathUrlencoded | KeyGeneratorClass | KeyGeneratorType
  | PartitionFields | OrderingFields | PopulatesMetaFields | RecordKeyFields | RecordMergeStrategy
  | TableName | TableType | TableVersion | TimelineLayoutVersion | TimelineTimezone | ArchiveLogFolder
  | TimelinePath | TimelineHistoryPath | MetadataTableEnabled | MetadataTablePartitions

definition table_configs :: "HudiTableConfig list" where
  "table_configs = [BaseFileFormat, BasePath, Checksum, CreateSchema, DatabaseName, DropsPartitionFields,
     IsHiveStylePartitioning, IsPartitionPathUrlencoded, KeyGeneratorClass, KeyGeneratorType,
     PartitionFields, OrderingFields, PopulatesMetaFields, RecordKeyFields, RecordMergeStrategy,
     TableName, TableType, TableVersion, TimelineLayoutVersion, TimelineTimezone, ArchiveLogFolder,
     TimelinePath, TimelineHistoryPath, MetadataTableEnabled, MetadataTablePartitions]"

definition table_config_key :: "HudiTableConfig \<Rightarrow> string" where
  "table_config_key c = (case c of
      BaseFileFormat \<Rightarrow> ''hoodie.table.base.file.format''
    | BasePath \<Rightarrow> ''hoodie.base.path''
    | Checksum \<Rightarrow> ''hoodie.table.checksum''
    | CreateSchema \<Rightarrow> ''hoodie.table.create.schema''
    | DatabaseName \<Rightarrow> ''hoodie.database.name''
    | DropsPartitionFields \<Rightarrow> ''hoodie.datasource.write.drop.partition.columns''
    | IsHiveStylePartitioning \<Rightarrow> ''hoodie.datasource.write.hive_style_partitioning''
    | IsPartitionPathUrlencoded \<Rightarrow> ''hoodie.datasource.write.partitionpath.urlencode''
    | KeyGeneratorClass \<Rightarrow> ''hoodie.table.keygenerator.class''
    | KeyGeneratorType \<Rightarrow> ''hoodie.table.keygenerator.type''
    | PartitionFields \<Rightarrow> ''hoodie.table.partition.fields''
    | OrderingFields \<Rightarrow> ''hoodie.table.ordering.fields''
    | PopulatesMetaFields \<Rightarrow> ''hoodie.populate.meta.fields''
    | RecordKeyFields \<Rightarrow> ''hoodie.table.recordkey.fields''
    | RecordMergeStrategy \<Rightarrow> ''hoodie.table.record.merge.strategy''
    | TableName \<Rightarrow> ''hoodie.table.name''
    | TableType \<Rightarrow> ''hoodie.table.type''
    | TableVersion \<Rightarrow> ''hoodie.table.version''
    | TimelineLayoutVersion \<Rightarrow> ''hoodie.timeline.layout.version''
    | TimelineTimezone \<Rightarrow> ''hoodie.table.timeline.timezone''
    | ArchiveLogFolder \<Rightarrow> ''hoodie.archivelog.folder''
    | TimelinePath \<Rightarrow> ''hoodie.timeline.path''
    | TimelineHistoryPath \<Rightarrow> ''hoodie.timeline.history.path''
    | MetadataTableEnabled \<Rightarrow> ''hoodie.metadata.enable''
    | MetadataTablePartitions \<Rightarrow> ''hoodie.table.metadata.partitions'')"

definition table_config_default :: "HudiTableConfig \<Rightarrow> HudiConfigValue option" where
  "table_config_default c = (case c of
      BaseFileFormat \<Rightarrow> Some (ConfString ''parquet'')
    | DatabaseName \<Rightarrow> Some (ConfString ''default'')
    | DropsPartitionFields \<Rightarrow> Some (ConfBoolean False)
    | IsHiveStylePartitioning \<Rightarrow> Some (ConfBoolean False)
    | IsPartitionPathUrlencoded \<Rightarrow> Some (ConfBoolean False)
    | PartitionFields \<Rightarrow> Some (ConfList [])
    | PopulatesMetaFields \<Rightarrow> Some (ConfBoolean True)
    | TimelineTimezone \<Rightarrow> Some (ConfString ''utc'')
    | ArchiveLogFolder \<Rightarrow> Some (ConfString ''.hoodie/archived'')
    | TimelinePath \<Rightarrow> Some (ConfString ''timeline'')
    | TimelineHistoryPath \<Rightarrow> Some (ConfString ''history'')
    | MetadataTableEnabled \<Rightarrow> Some (ConfBoolean False)
    | MetadataTablePartitions \<Rightarrow> Some (ConfList [])
    | _ \<Rightarrow> None)"

definition table_config_aliases :: "HudiTableConfig \<Rightarrow> ConfigAlias list" where
  "table_config_aliases c = (if c = OrderingFields
     then [\<lparr>ca_key = ''hoodie.table.precombine.field'', ca_deprecated = True\<rparr>] else [])"

definition table_config_required :: "HudiTableConfig \<Rightarrow> bool" where
  "table_config_required c = (c \<in> {TableName, TableType, TableVersion})"

datatype TableTypeValue = CopyOnWrite | MergeOnRead

definition table_type_from_str :: "string \<Rightarrow> TableTypeValue conf_result" where
  "table_type_from_str s = (let l = map ascii_lower s in
     if l \<in> {''copy_on_write'', ''copy-on-write'', ''cow''} then Inr CopyOnWrite
     else if l \<in> {''merge_on_read'', ''merge-on-read'', ''mor''} then Inr MergeOnRead
     else Inl InvalidConf)"

definition table_type_name :: "TableTypeValue \<Rightarrow> string" where
  "table_type_name t = (case t of CopyOnWrite \<Rightarrow> ''COPY_ON_WRITE'' | MergeOnRead \<Rightarrow> ''MERGE_ON_READ'')"

datatype RecordMergeStrategyValue = AppendOnly | OverwriteWithLatest

definition merge_strategy_from_str :: "string \<Rightarrow> RecordMergeStrategyValue conf_result" where
  "merge_strategy_from_str s = (let l = map ascii_lower s in
     if l = ''append_only'' then Inr AppendOnly
     else if l = ''overwrite_with_latest'' then Inr OverwriteWithLatest else Inl InvalidConf)"

definition merge_strategy_name :: "RecordMergeStrategyValue \<Rightarrow> string" where
  "merge_strategy_name s = (case s of AppendOnly \<Rightarrow> ''append_only'' | OverwriteWithLatest \<Rightarrow> ''overwrite_with_latest'')"

definition format_name :: "BaseFileFormat \<Rightarrow> string" where
  "format_name f = (case f of Parquet \<Rightarrow> ''parquet'' | HFileFormat \<Rightarrow> ''hfile'' | Lance \<Rightarrow> ''lance'')"

definition parse_format :: "string \<Rightarrow> HudiConfigValue conf_result" where
  "parse_format s = (case format_from_str s of Inr f \<Rightarrow> Inr (ConfString (format_name f))
     | Inl _ \<Rightarrow> Inl (if map ascii_lower s = ''orc'' then UnsupportedValue else InvalidConf))"

definition timezone_name :: "TimelineTimezoneValue \<Rightarrow> string" where
  "timezone_name z = (case z of UTC \<Rightarrow> ''utc'' | Local \<Rightarrow> ''local'')"

definition parse_timezone :: "string \<Rightarrow> HudiConfigValue conf_result" where
  "parse_timezone s = (case timezone_from_str s of Inr z \<Rightarrow> Inr (ConfString (timezone_name z)) | Inl _ \<Rightarrow> Inl InvalidConf)"

definition conf_partition_fields :: "string \<Rightarrow> HudiConfigValue conf_result" where
  "conf_partition_fields s = Inr (ConfList (filter (\<lambda>f. f \<noteq> []) (map trim (split_on (CHR '','') s))))"

definition parse_ordering_fields :: "string \<Rightarrow> HudiConfigValue conf_result" where
  "parse_ordering_fields s = (let fields = split_on (CHR '','') s in
     if length fields > 1 then Inl UnsupportedValue else Inr (ConfList fields))"

definition table_config_parse :: "HudiTableConfig \<Rightarrow> string \<Rightarrow> HudiConfigValue conf_result" where
  "table_config_parse c s = (case c of
      BaseFileFormat \<Rightarrow> parse_format s
    | BasePath \<Rightarrow> parse_string s
    | Checksum \<Rightarrow> parse_isize s
    | CreateSchema \<Rightarrow> parse_string s
    | DatabaseName \<Rightarrow> parse_string s
    | DropsPartitionFields \<Rightarrow> parse_bool s
    | IsHiveStylePartitioning \<Rightarrow> parse_bool s
    | IsPartitionPathUrlencoded \<Rightarrow> parse_bool s
    | KeyGeneratorClass \<Rightarrow> parse_string s
    | KeyGeneratorType \<Rightarrow> parse_string s
    | PartitionFields \<Rightarrow> conf_partition_fields s
    | OrderingFields \<Rightarrow> parse_ordering_fields s
    | PopulatesMetaFields \<Rightarrow> parse_bool s
    | RecordKeyFields \<Rightarrow> parse_list s
    | RecordMergeStrategy \<Rightarrow> conf_bind (merge_strategy_from_str s) (\<lambda>v. Inr (ConfString (merge_strategy_name v)))
    | TableName \<Rightarrow> parse_string s
    | TableType \<Rightarrow> conf_bind (table_type_from_str s) (\<lambda>v. Inr (ConfString (table_type_name v)))
    | TableVersion \<Rightarrow> parse_isize s
    | TimelineLayoutVersion \<Rightarrow> parse_isize s
    | TimelineTimezone \<Rightarrow> parse_timezone s
    | ArchiveLogFolder \<Rightarrow> parse_string s
    | TimelinePath \<Rightarrow> parse_string s
    | TimelineHistoryPath \<Rightarrow> parse_string s
    | MetadataTableEnabled \<Rightarrow> parse_bool s
    | MetadataTablePartitions \<Rightarrow> parse_list s)"

definition table_parser :: "HudiTableConfig \<Rightarrow> ConfigParser" where
  "table_parser c = \<lparr>cp_key = table_config_key c, cp_default_value = table_config_default c,
     cp_aliases = table_config_aliases c, cp_is_required = table_config_required c, cp_parse = table_config_parse c\<rparr>"

text \<open>The merge strategy has a default that depends on other configurations.\<close>

definition default_merge_strategy :: "options \<Rightarrow> HudiConfigValue result" where
  "default_merge_strategy m =
     res_bind (res_bind (parse_value_or_default (table_parser PopulatesMetaFields) m) conf_bool) (\<lambda>populates.
       Ok (ConfString (merge_strategy_name
         (if \<not> populates then AppendOnly
          else case parse_value (table_parser OrderingFields) m of Inl _ \<Rightarrow> AppendOnly | Inr _ \<Rightarrow> OverwriteWithLatest))))"

definition table_value_or_default :: "HudiTableConfig \<Rightarrow> options \<Rightarrow> HudiConfigValue result" where
  "table_value_or_default c m = (case parse_value (table_parser c) m of Inr v \<Rightarrow> Ok v
     | Inl _ \<Rightarrow> if c = RecordMergeStrategy then default_merge_strategy m else ok_or Panic (table_config_default c))"

definition format_from_configs :: "options \<Rightarrow> BaseFileFormat option result" where
  "format_from_configs m = (if m (table_config_key BaseFileFormat) = None then Ok None
     else res_bind (of_conf (parse_value (table_parser BaseFileFormat) m)) (\<lambda>v.
       res_bind (conf_string v) (\<lambda>s. res_bind (format_from_str s) (\<lambda>f. Ok (Some f)))))"

definition resolve_format :: "options \<Rightarrow> string option \<Rightarrow> BaseFileFormat result" where
  "resolve_format m path = res_bind (format_from_configs m) (\<lambda>configured. Ok (case configured of
      Some f \<Rightarrow> f
    | None \<Rightarrow> (case Option.bind path format_from_extension of Some f \<Rightarrow> f | None \<Rightarrow> Parquet)))"

section \<open>Read, internal and plan configuration\<close>

datatype QueryType = Snapshot | Incremental

definition query_type_name :: "QueryType \<Rightarrow> string" where
  "query_type_name q = (case q of Snapshot \<Rightarrow> ''snapshot'' | Incremental \<Rightarrow> ''incremental'')"

definition query_type_from_str :: "string \<Rightarrow> QueryType conf_result" where
  "query_type_from_str s = (let l = map ascii_lower s in
     if l = ''snapshot'' then Inr Snapshot else if l = ''incremental'' then Inr Incremental else Inl InvalidConf)"

datatype FileGroupReaderVersion = VersionOne | VersionTwo

definition version_number :: "FileGroupReaderVersion \<Rightarrow> nat" where
  "version_number v = (case v of VersionOne \<Rightarrow> 1 | VersionTwo \<Rightarrow> 2)"

definition version_of_number :: "nat \<Rightarrow> FileGroupReaderVersion conf_result" where
  "version_of_number n = (if n = 1 then Inr VersionOne else if n = 2 then Inr VersionTwo else Inl InvalidConf)"

definition version_from_str :: "string \<Rightarrow> FileGroupReaderVersion conf_result" where
  "version_from_str s = (if trim s = ''1'' then Inr VersionOne else if trim s = ''2'' then Inr VersionTwo
     else Inl InvalidConf)"

datatype HudiReadConfig =
    QueryType | AsOfTimestamp | StartTimestamp | EndTimestamp | InputPartitions | UseReadOptimizedMode
  | FileGroupReaderVersion | StreamBatchSize | FileSliceReadConcurrency | ScanMaxMemorySize
  | MergeUseRecordPositions

definition read_configs :: "HudiReadConfig list" where
  "read_configs = [QueryType, AsOfTimestamp, StartTimestamp, EndTimestamp, InputPartitions, UseReadOptimizedMode,
     FileGroupReaderVersion, StreamBatchSize, FileSliceReadConcurrency, ScanMaxMemorySize, MergeUseRecordPositions]"

datatype ReadConfigScope = TableOrRead | ReadOnly

definition read_config_scope :: "HudiReadConfig \<Rightarrow> ReadConfigScope" where
  "read_config_scope c = (case c of
      QueryType \<Rightarrow> ReadOnly | AsOfTimestamp \<Rightarrow> ReadOnly | StartTimestamp \<Rightarrow> ReadOnly | EndTimestamp \<Rightarrow> ReadOnly
    | InputPartitions \<Rightarrow> TableOrRead | UseReadOptimizedMode \<Rightarrow> TableOrRead | StreamBatchSize \<Rightarrow> TableOrRead
    | FileSliceReadConcurrency \<Rightarrow> TableOrRead | ScanMaxMemorySize \<Rightarrow> TableOrRead
    | FileGroupReaderVersion \<Rightarrow> TableOrRead | MergeUseRecordPositions \<Rightarrow> TableOrRead)"

definition read_config_key :: "HudiReadConfig \<Rightarrow> string" where
  "read_config_key c = (case c of
      QueryType \<Rightarrow> ''hoodie.read.query.type''
    | AsOfTimestamp \<Rightarrow> ''hoodie.read.as.of.timestamp''
    | StartTimestamp \<Rightarrow> ''hoodie.read.start.timestamp''
    | EndTimestamp \<Rightarrow> ''hoodie.read.end.timestamp''
    | InputPartitions \<Rightarrow> ''hoodie.read.input.partitions''
    | UseReadOptimizedMode \<Rightarrow> ''hoodie.read.use.read_optimized.mode''
    | FileGroupReaderVersion \<Rightarrow> ''hoodie.read.file.group.reader.version''
    | StreamBatchSize \<Rightarrow> ''hoodie.read.stream.batch_size''
    | FileSliceReadConcurrency \<Rightarrow> ''hoodie.read.file.slice.read.concurrency''
    | ScanMaxMemorySize \<Rightarrow> ''hoodie.read.scan.max.memory.size''
    | MergeUseRecordPositions \<Rightarrow> ''hoodie.merge.use.record.positions'')"

definition scope_of_key :: "string \<Rightarrow> ReadConfigScope option" where
  "scope_of_key k = map_option read_config_scope (find (\<lambda>c. read_config_key c = k) read_configs)"

definition read_config_default :: "HudiReadConfig \<Rightarrow> HudiConfigValue option" where
  "read_config_default c = (case c of
      QueryType \<Rightarrow> Some (ConfString (query_type_name Snapshot))
    | InputPartitions \<Rightarrow> Some (ConfUInteger 0)
    | UseReadOptimizedMode \<Rightarrow> Some (ConfBoolean False)
    | FileGroupReaderVersion \<Rightarrow> Some (ConfUInteger (version_number VersionTwo))
    | MergeUseRecordPositions \<Rightarrow> Some (ConfBoolean False)
    | StreamBatchSize \<Rightarrow> Some (ConfUInteger 1024)
    | FileSliceReadConcurrency \<Rightarrow> Some (ConfUInteger 4)
    | _ \<Rightarrow> None)"

definition read_config_parse :: "HudiReadConfig \<Rightarrow> string \<Rightarrow> HudiConfigValue conf_result" where
  "read_config_parse c s = (case c of
      QueryType \<Rightarrow> conf_bind (query_type_from_str s) (\<lambda>q. Inr (ConfString (query_type_name q)))
    | AsOfTimestamp \<Rightarrow> parse_string s
    | StartTimestamp \<Rightarrow> parse_string s
    | EndTimestamp \<Rightarrow> parse_string s
    | InputPartitions \<Rightarrow> parse_usize s
    | FileGroupReaderVersion \<Rightarrow> conf_bind (version_from_str s) (\<lambda>v. Inr (ConfUInteger (version_number v)))
    | UseReadOptimizedMode \<Rightarrow> parse_bool s
    | MergeUseRecordPositions \<Rightarrow> parse_bool s
    | StreamBatchSize \<Rightarrow> parse_positive s
    | ScanMaxMemorySize \<Rightarrow> parse_positive s
    | FileSliceReadConcurrency \<Rightarrow> parse_positive s)"

definition read_parser :: "HudiReadConfig \<Rightarrow> ConfigParser" where
  "read_parser c = \<lparr>cp_key = read_config_key c, cp_default_value = read_config_default c,
     cp_aliases = [], cp_is_required = False, cp_parse = read_config_parse c\<rparr>"

datatype HudiInternalConfig = SkipConfigValidation | TimelineArchivedReadEnabled | IncrementalInstantTimes

definition internal_config_key :: "HudiInternalConfig \<Rightarrow> string" where
  "internal_config_key c = (case c of
      SkipConfigValidation \<Rightarrow> ''hoodie.internal.skip.config.validation''
    | TimelineArchivedReadEnabled \<Rightarrow> ''hoodie.internal.timeline.archived.enabled''
    | IncrementalInstantTimes \<Rightarrow> ''hoodie.internal.read.incremental.instant.times'')"

definition internal_config_default :: "HudiInternalConfig \<Rightarrow> HudiConfigValue option" where
  "internal_config_default c = (case c of
      SkipConfigValidation \<Rightarrow> Some (ConfBoolean False)
    | TimelineArchivedReadEnabled \<Rightarrow> Some (ConfBoolean False)
    | IncrementalInstantTimes \<Rightarrow> None)"

definition internal_config_parse :: "HudiInternalConfig \<Rightarrow> string \<Rightarrow> HudiConfigValue conf_result" where
  "internal_config_parse c s = (case c of
      SkipConfigValidation \<Rightarrow> parse_bool s
    | TimelineArchivedReadEnabled \<Rightarrow> parse_bool s
    | IncrementalInstantTimes \<Rightarrow> parse_string s)"

definition internal_parser :: "HudiInternalConfig \<Rightarrow> ConfigParser" where
  "internal_parser c = \<lparr>cp_key = internal_config_key c, cp_default_value = internal_config_default c,
     cp_aliases = [], cp_is_required = False, cp_parse = internal_config_parse c\<rparr>"

datatype HudiPlanConfig = ListingParallelism

definition plan_config_key :: "HudiPlanConfig \<Rightarrow> string" where
  "plan_config_key c = ''hoodie.plan.listing.parallelism''"

definition plan_parser :: "HudiPlanConfig \<Rightarrow> ConfigParser" where
  "plan_parser c = \<lparr>cp_key = plan_config_key c, cp_default_value = Some (ConfUInteger 10),
     cp_aliases = [], cp_is_required = False, cp_parse = parse_usize\<rparr>"

section \<open>Typed access\<close>

text \<open>A value read strictly: absent is \<open>None\<close>, malformed an error.\<close>

definition try_table :: "HudiTableConfig \<Rightarrow> (HudiConfigValue \<Rightarrow> 'a result) \<Rightarrow> options \<Rightarrow> 'a option result" where
  "try_table c conv m = res_bind (of_conf (try_get (table_parser c) m)) (\<lambda>v. case v of
     None \<Rightarrow> Ok None | Some x \<Rightarrow> res_bind (conv x) (\<lambda>y. Ok (Some y)))"

definition try_read :: "HudiReadConfig \<Rightarrow> (HudiConfigValue \<Rightarrow> 'a result) \<Rightarrow> options \<Rightarrow> 'a option result" where
  "try_read c conv m = res_bind (of_conf (try_get (read_parser c) m)) (\<lambda>v. case v of
     None \<Rightarrow> Ok None | Some x \<Rightarrow> res_bind (conv x) (\<lambda>y. Ok (Some y)))"

definition table_or_default :: "HudiTableConfig \<Rightarrow> (HudiConfigValue \<Rightarrow> 'a result) \<Rightarrow> options \<Rightarrow> 'a result" where
  "table_or_default c conv m = res_bind (table_value_or_default c m) conv"

definition read_or_default :: "HudiReadConfig \<Rightarrow> (HudiConfigValue \<Rightarrow> 'a result) \<Rightarrow> options \<Rightarrow> 'a result" where
  "read_or_default c conv m = res_bind (parse_value_or_default (read_parser c) m) conv"

section \<open>Validation\<close>

definition validate_all :: "ConfigParser list \<Rightarrow> options \<Rightarrow> unit result" where
  "validate_all ps m = res_fold (\<lambda>_ p. of_conf (conf_validate p m)) () ps"

text \<open>\<open>RecordMerger::validate_configs\<close>.\<close>

definition validate_merge_configs :: "options \<Rightarrow> unit result" where
  "validate_merge_configs m =
     res_bind (table_or_default RecordMergeStrategy conf_string m) (\<lambda>name.
     res_bind (of_conf (merge_strategy_from_str name)) (\<lambda>strategy.
     res_bind (table_or_default PopulatesMetaFields conf_bool m) (\<lambda>populates.
       if \<not> populates \<and> strategy \<noteq> AppendOnly then Err ConfigError
       else res_bind (of_conf (try_get (table_parser OrderingFields) m)) (\<lambda>ordering.
         if ordering = None \<and> strategy = OverwriteWithLatest then Err ConfigError else Ok ()))))"

definition validate_configs :: "options \<Rightarrow> unit result" where
  "validate_configs m =
     res_bind (res_bind (parse_value_or_default (internal_parser SkipConfigValidation) m) conf_bool) (\<lambda>skip.
       if skip then Ok ()
       else res_bind (validate_all (map table_parser table_configs) m) (\<lambda>_.
         res_bind (validate_all [plan_parser ListingParallelism] m) (\<lambda>_.
         res_bind (res_bind (of_conf (parse_value (table_parser TableVersion) m)) conf_isize) (\<lambda>version.
           if version \<notin> {6, 8, 9} then Err UnsupportedError
           else res_bind (res_bind (of_conf (parse_value (table_parser TimelineLayoutVersion) m)) conf_isize) (\<lambda>layout.
             if layout \<noteq> (if version \<ge> 8 then 2 else 1) then Err UnsupportedError
             else res_bind (table_or_default DropsPartitionFields conf_bool m) (\<lambda>drops.
               if drops then Err UnsupportedError else validate_merge_configs m))))))"

end
