(* ===== verification/Table_Options.thy ===== *)
theory Table_Options
  imports Hudi_Config
begin

text \<open>
  Where the options of a table and of a read come from: \<open>config/util.rs\<close>, \<open>table/builder.rs\<close> and
  \<open>config/read_options.rs\<close>. The options of a table are merged from its \<open>hoodie.properties\<close>, what the caller
  gives, the environment and the global defaults; a read adds its own, and takes the rest from the
  table. The storage layer, the environment and the configuration directory are parameters.
\<close>

section \<open>Options as text\<close>

definition split_hudi_options_from_others :: "options \<Rightarrow> options \<times> options" where
  "split_hudi_options_from_others m =
     (\<lambda>k. if starts_with ''hoodie.'' k then m k else None, \<lambda>k. if starts_with ''hoodie.'' k then None else m k)"

definition lines_of :: "string \<Rightarrow> string list" where
  "lines_of s = (let ls = split_on (CHR 0x0A) s in if last ls = [] then butlast ls else ls)"

text \<open>\<open>splitn(2, ..)\<close> at the first of the separators.\<close>

definition split_first :: "(char \<Rightarrow> bool) \<Rightarrow> string \<Rightarrow> string \<times> string option" where
  "split_first P s = (takeWhile (\<lambda>c. \<not> P c) s,
     case dropWhile (\<lambda>c. \<not> P c) s of [] \<Rightarrow> None | _ # rest \<Rightarrow> Some rest)"

text \<open>A carriage return at the end of a line is trimmed with the other white space.\<close>

definition parse_option_line :: "string \<Rightarrow> string \<Rightarrow> options \<Rightarrow> options" where
  "parse_option_line seps line m = (let t = trim line in
     if t = [] \<or> hd t = CHR ''#'' then m
     else case split_first (\<lambda>c. c \<in> set seps) t of (k, v) \<Rightarrow>
       m(trim k \<mapsto> (case v of None \<Rightarrow> [] | Some x \<Rightarrow> trim x)))"

definition parse_data_for_options :: "byte list \<Rightarrow> string \<Rightarrow> options conf_result" where
  "parse_data_for_options data seps = (let ls = lines_of (bytes_str data) in
     if list_all string_valid ls then Inr (fold (parse_option_line seps) ls Map.empty) else Inl ParseLine)"

section \<open>Resolving the options of a table\<close>

text \<open>\<open>extend_if_absent\<close>.\<close>

definition extend_if_absent :: "options \<Rightarrow> options \<Rightarrow> options" where
  "extend_if_absent target source = source ++ target"

record OptionResolver =
  opr_base_uri :: string
  opr_hudi_options :: options
  opr_storage_options :: options
  opr_options :: options

definition option_resolver_new :: "string \<Rightarrow> OptionResolver" where
  "option_resolver_new uri = \<lparr>opr_base_uri = uri, opr_hudi_options = Map.empty,
     opr_storage_options = Map.empty, opr_options = Map.empty\<rparr>"

definition option_resolver_with_options :: "string \<Rightarrow> (string \<times> string) list \<Rightarrow> OptionResolver" where
  "option_resolver_with_options uri os = (option_resolver_new uri)\<lparr>opr_options := map_of (rev os)\<rparr>"

definition resolve_user_provided_options :: "OptionResolver \<Rightarrow> OptionResolver" where
  "resolve_user_provided_options r =
     (case split_hudi_options_from_others (opr_options r) of (hudi, other) \<Rightarrow>
       r\<lparr>opr_hudi_options := extend_if_absent ((opr_hudi_options r)(table_config_key BasePath \<mapsto> opr_base_uri r)) hudi,
         opr_storage_options := extend_if_absent (opr_storage_options r) other\<rparr>)"

function str_replace :: "string \<Rightarrow> string \<Rightarrow> string \<Rightarrow> string" where
  "str_replace p q s = (if p = [] \<or> s = [] then s
     else if starts_with p s then q @ str_replace p q (drop (length p) s)
     else hd s # str_replace p q (tl s))"
  by pat_completeness auto
termination by (relation "measure (\<lambda>(p, q, s). length s)") auto

declare str_replace.simps [simp del]

definition CLOUD_STORAGE_PREFIXES :: "string list" where
  "CLOUD_STORAGE_PREFIXES = [''AWS_'', ''AZURE_'', ''GOOGLE_'']"

definition env_option_key :: "string \<Rightarrow> string option" where
  "env_option_key k = (case strip_prefix ''HOODIE_ENV_'' k of
      Some stripped \<Rightarrow> Some (map ascii_lower (str_replace ''_DOT_'' ''.'' stripped))
    | None \<Rightarrow> if list_ex (\<lambda>p. starts_with p k) CLOUD_STORAGE_PREFIXES then Some (map ascii_lower k) else None)"

definition env_step :: "string \<times> string \<Rightarrow> options \<Rightarrow> options" where
  "env_step e m = (case env_option_key (fst e) of None \<Rightarrow> m
     | Some k \<Rightarrow> if m k = None then m(k \<mapsto> snd e) else m)"

definition resolve_env_vars :: "(string \<times> string) list \<Rightarrow> OptionResolver \<Rightarrow> OptionResolver" where
  "resolve_env_vars env r = r\<lparr>opr_storage_options := fold env_step env (opr_storage_options r)\<rparr>"

text \<open>What the resolution reads: files below the table's base path and files by absolute path.\<close>

record option_storage =
  os_file_data :: "string \<Rightarrow> byte list result"
  os_absolute_data :: "string \<Rightarrow> byte list result"

type_synonym storage_opener = "options \<Rightarrow> options \<Rightarrow> option_storage result"

definition imbue_table_properties :: "option_storage \<Rightarrow> options \<Rightarrow> options result" where
  "imbue_table_properties st m =
     res_bind (os_file_data st ''.hoodie/hoodie.properties'') (\<lambda>bytes.
     res_bind (of_conf (parse_data_for_options bytes ''='')) (\<lambda>props. Ok (m ++ props)))"

definition global_config_path :: "string option \<Rightarrow> string" where
  "global_config_path dir = (case dir of None \<Rightarrow> ''/etc/hudi/conf/hudi-defaults.conf''
     | Some d \<Rightarrow> if d = [] \<or> last d = CHR ''/'' then d @ ''hudi-defaults.conf'' else d @ ''/hudi-defaults.conf'')"

text \<open>A file that cannot be read or parsed counts as empty.\<close>

definition global_configs :: "option_storage \<Rightarrow> string option \<Rightarrow> options" where
  "global_configs st dir = (case os_absolute_data st (global_config_path dir) of
      Inl _ \<Rightarrow> Map.empty
    | Inr bytes \<Rightarrow> (case parse_data_for_options bytes [CHR '' '', CHR 0x09, CHR ''=''] of Inl _ \<Rightarrow> Map.empty | Inr m \<Rightarrow> m))"

definition imbue_global_hudi_configs_if_absent :: "option_storage \<Rightarrow> string option \<Rightarrow> options \<Rightarrow> options" where
  "imbue_global_hudi_configs_if_absent st dir m =
     (\<lambda>k. case m k of Some v \<Rightarrow> Some v | None \<Rightarrow> if starts_with ''hoodie.'' k then global_configs st dir k else None)"

definition resolve_hudi_options :: "storage_opener \<Rightarrow> string option \<Rightarrow> OptionResolver \<Rightarrow> OptionResolver result" where
  "resolve_hudi_options open dir r =
     res_bind (open (opr_storage_options r) (opr_hudi_options r)) (\<lambda>st.
     res_bind (imbue_table_properties st (opr_hudi_options r)) (\<lambda>m.
       Ok (r\<lparr>opr_hudi_options := imbue_global_hudi_configs_if_absent st dir m\<rparr>)))"

definition resolve_options :: "storage_opener \<Rightarrow> (string \<times> string) list \<Rightarrow> string option \<Rightarrow> OptionResolver \<Rightarrow>
    OptionResolver result" where
  "resolve_options open env dir r =
     res_bind (resolve_hudi_options open dir (resolve_env_vars env (resolve_user_provided_options r))) (\<lambda>r'.
     res_bind (validate_configs (opr_hudi_options r')) (\<lambda>_. Ok r'))"

text \<open>What the table keeps of them.\<close>

definition keep_at_table_level :: "string \<Rightarrow> bool" where
  "keep_at_table_level k = (scope_of_key k \<noteq> Some ReadOnly)"

definition table_level_configs :: "options \<Rightarrow> options" where
  "table_level_configs m = (\<lambda>k. if keep_at_table_level k then m k else None)"

section \<open>Options of a read\<close>

record ReadOptions =
  rdo_filters :: "Filter list"
  rdo_projection :: "string list option"
  rdo_hudi_options :: options

definition read_options_new :: ReadOptions where
  "read_options_new = \<lparr>rdo_filters = [], rdo_projection = None, rdo_hudi_options = Map.empty\<rparr>"

definition with_hudi_option :: "string \<Rightarrow> string \<Rightarrow> ReadOptions \<Rightarrow> ReadOptions" where
  "with_hudi_option k v o' = o'\<lparr>rdo_hudi_options := (rdo_hudi_options o')(k \<mapsto> v)\<rparr>"

definition with_query_type :: "QueryType \<Rightarrow> ReadOptions \<Rightarrow> ReadOptions" where
  "with_query_type q = with_hudi_option (read_config_key QueryType) (query_type_name q)"

definition with_as_of_timestamp :: "string \<Rightarrow> ReadOptions \<Rightarrow> ReadOptions" where
  "with_as_of_timestamp = with_hudi_option (read_config_key AsOfTimestamp)"

definition with_start_timestamp :: "string \<Rightarrow> ReadOptions \<Rightarrow> ReadOptions" where
  "with_start_timestamp = with_hudi_option (read_config_key StartTimestamp)"

definition with_end_timestamp :: "string \<Rightarrow> ReadOptions \<Rightarrow> ReadOptions" where
  "with_end_timestamp = with_hudi_option (read_config_key EndTimestamp)"

definition with_batch_size :: "nat \<Rightarrow> ReadOptions \<Rightarrow> ReadOptions result" where
  "with_batch_size n o' = (if n = 0 then Err ConfigError
     else Ok (with_hudi_option (read_config_key StreamBatchSize) (show_nat n) o'))"

definition with_filters :: "(string \<times> string \<times> string) list \<Rightarrow> ReadOptions \<Rightarrow> ReadOptions result" where
  "with_filters ts o' = res_bind (from_str_tuples ts) (\<lambda>fs. Ok (o'\<lparr>rdo_filters := fs\<rparr>))"

definition with_projection :: "string list \<Rightarrow> ReadOptions \<Rightarrow> ReadOptions" where
  "with_projection cols o' = o'\<lparr>rdo_projection := Some cols\<rparr>"

definition with_hudi_options :: "(string \<times> string) list \<Rightarrow> ReadOptions \<Rightarrow> ReadOptions" where
  "with_hudi_options os o' = fold (\<lambda>(k, v). with_hudi_option k v) os o'"

definition query_type_of :: "ReadOptions \<Rightarrow> QueryType result" where
  "query_type_of o' = (case rdo_hudi_options o' (read_config_key QueryType) of
      Some s \<Rightarrow> of_conf (query_type_from_str s) | None \<Rightarrow> Ok Snapshot)"

definition as_of_timestamp :: "ReadOptions \<Rightarrow> string option" where
  "as_of_timestamp o' = rdo_hudi_options o' (read_config_key AsOfTimestamp)"

definition start_timestamp :: "ReadOptions \<Rightarrow> string option" where
  "start_timestamp o' = rdo_hudi_options o' (read_config_key StartTimestamp)"

definition end_timestamp :: "ReadOptions \<Rightarrow> string option" where
  "end_timestamp o' = rdo_hudi_options o' (read_config_key EndTimestamp)"

text \<open>A query type that does not parse counts as a snapshot here.\<close>

definition with_sanitized_timestamps :: "ReadOptions \<Rightarrow> ReadOptions" where
  "with_sanitized_timestamps o' =
     (case (case query_type_of o' of Inr q \<Rightarrow> q | Inl _ \<Rightarrow> Snapshot) of
        Snapshot \<Rightarrow> o'\<lparr>rdo_hudi_options := (rdo_hudi_options o')(read_config_key StartTimestamp := None, read_config_key EndTimestamp := None)\<rparr>
      | Incremental \<Rightarrow> o'\<lparr>rdo_hudi_options := (rdo_hudi_options o')(read_config_key AsOfTimestamp := None)\<rparr>)"

definition is_read_optimized :: "ReadOptions \<Rightarrow> bool result" where
  "is_read_optimized o' = (case rdo_hudi_options o' (read_config_key UseReadOptimizedMode) of
      Some s \<Rightarrow> res_bind (of_conf (parse_bool s)) conf_bool | None \<Rightarrow> Ok False)"

definition batch_size_of :: "ReadOptions \<Rightarrow> nat option result" where
  "batch_size_of o' = (case rdo_hudi_options o' (read_config_key StreamBatchSize) of
      Some s \<Rightarrow> res_bind (res_bind (of_conf (parse_positive s)) conf_usize) (\<lambda>n. Ok (Some n)) | None \<Rightarrow> Ok None)"

definition default_step :: "options \<Rightarrow> options \<Rightarrow> HudiReadConfig \<Rightarrow> options result" where
  "default_step configs m c = (if m (read_config_key c) \<noteq> None then Ok m
     else res_bind (try_read c conf_string configs) (\<lambda>v. Ok (case v of None \<Rightarrow> m | Some s \<Rightarrow> m(read_config_key c \<mapsto> s))))"

definition with_defaults_from :: "ReadOptions \<Rightarrow> options \<Rightarrow> ReadOptions result" where
  "with_defaults_from o' configs =
     res_bind (res_fold (default_step configs) (rdo_hudi_options o') read_configs) (\<lambda>m. Ok (o'\<lparr>rdo_hudi_options := m\<rparr>))"

end
