(* ===== verification/Config_Facts.thy ===== *)
theory Config_Facts
  imports Table_Options
begin

text \<open>
  What the configuration promises: the precedence of the sources of an option, the round trip of
  the properties format, what a validated configuration rules out, and that the configuration of a table cannot
  decide which read a later call performs.
\<close>

section \<open>Precedence\<close>

lemma user_options_at:
  "opr_hudi_options (resolve_user_provided_options r) k = (if k = table_config_key BasePath then Some (opr_base_uri r)
     else case opr_hudi_options r k of Some v \<Rightarrow> Some v
     | None \<Rightarrow> if starts_with ''hoodie.'' k then opr_options r k else None)"
  by (simp add: resolve_user_provided_options_def split_hudi_options_from_others_def extend_if_absent_def map_add_def
      split: option.split)

lemma env_options [simp]:
  "opr_hudi_options (resolve_env_vars env r) = opr_hudi_options r"
  by (simp add: resolve_env_vars_def)

text \<open>C33: An option of a table comes from its \<open>hoodie.properties\<close> if that has it, else from the caller
  (the base URI, an option given as a Hudi option, one given generically), else from the global defaults, which
  supply \<open>hoodie.\<close> keys only. This is what the code does for every key, also for those that a comment there
  exempts: a key in \<open>hoodie.properties\<close> wins although a writer may change it, such as the one that enables the
  metadata table.\<close>

theorem table_options_precedence:
  assumes "resolve_options open env dir r = Ok r'"
    and "open (opr_storage_options r') (opr_hudi_options (resolve_user_provided_options r)) = Ok st"
    and "os_file_data st ''.hoodie/hoodie.properties'' = Ok bytes" and "parse_data_for_options bytes ''='' = Inr props"
  shows "opr_hudi_options r' k = (case props k of Some v \<Rightarrow> Some v
    | None \<Rightarrow> if k = table_config_key BasePath then Some (opr_base_uri r)
      else case opr_hudi_options r k of Some v \<Rightarrow> Some v
      | None \<Rightarrow> if \<not> starts_with ''hoodie.'' k then None
        else case opr_options r k of Some v \<Rightarrow> Some v | None \<Rightarrow> global_configs st dir k)"
proof -
  let ?u = "resolve_user_provided_options r"
  have r': "r' = (resolve_env_vars env ?u)\<lparr>opr_hudi_options :=
      imbue_global_hudi_configs_if_absent st dir (opr_hudi_options ?u ++ props)\<rparr>"
    using assms by (auto simp: resolve_options_def resolve_hudi_options_def imbue_table_properties_def res_bind_Inr_iff)
  have base: "starts_with ''hoodie.'' (table_config_key BasePath)" by (simp add: starts_with_def table_config_key_def)
  show ?thesis
    unfolding r' using base
    by (simp add: imbue_global_hudi_configs_if_absent_def map_add_def user_options_at split: option.split)
qed

section \<open>The properties format\<close>

text \<open>A key and a value that a line \<open>key=value\<close> can carry: no line feed, and no white-space character, ASCII
  or not, at either end.\<close>

definition plain_text :: "string \<Rightarrow> bool" where
  "plain_text s \<longleftrightarrow> CHR 0x0A \<notin> set s \<and> ws_at_start s = 0 \<and> ws_at_end s = 0"

definition option_ok :: "string \<times> string \<Rightarrow> bool" where
  "option_ok e \<longleftrightarrow> plain_text (fst e) \<and> plain_text (snd e) \<and> fst e \<noteq> [] \<and> hd (fst e) \<noteq> CHR ''#'' \<and>
     CHR ''='' \<notin> set (fst e) \<and> string_valid (fst e @ CHR ''='' # snd e)"

definition option_line :: "string \<times> string \<Rightarrow> string" where
  "option_line e = fst e @ CHR ''='' # snd e"

definition options_text :: "(string \<times> string) list \<Rightarrow> string" where
  "options_text es = concat (map (\<lambda>e. option_line e @ [CHR 0x0A]) es)"

lemma trim_plain: "plain_text s \<Longrightarrow> trim s = s"
  by (rule trim_id) (auto simp: plain_text_def)

lemma split_first_at: "\<forall>c\<in>set k. \<not> P c \<Longrightarrow> P d \<Longrightarrow> split_first P (k @ d # v) = (k, Some v)"
  by (simp add: split_first_def takeWhile_append2 dropWhile_append2)

lemma parse_option_line_at:
  assumes "option_ok e"
  shows "parse_option_line ''='' (option_line e) m = m(fst e \<mapsto> snd e)"
proof -
  obtain k v where e: "e = (k, v)" by force
  have eq: "of_char (CHR ''='') < (128 :: nat)" "\<not> is_ascii_ws (CHR ''='')" by (simp_all add: is_ascii_ws_def)
  have plain: "plain_text k" "plain_text v" and hd: "hd (k @ CHR ''='' # v) = hd k" "k \<noteq> []"
    using assms e by (simp_all add: option_ok_def)
  have "trim (k @ CHR ''='' # v) = k @ CHR ''='' # v"
    using plain by (intro trim_id ws_at_start_append [OF eq] ws_at_end_append [OF eq]) (simp_all add: plain_text_def)
  moreover have "split_first (\<lambda>c. c \<in> set ''='') (k @ CHR ''='' # v) = (k, Some v)"
    by (rule split_first_at) (use assms e in \<open>auto simp: option_ok_def\<close>)
  moreover have "trim k = k" "trim v = v" using plain trim_plain by simp_all
  ultimately show ?thesis using assms e hd by (simp add: parse_option_line_def option_line_def option_ok_def Let_def)
qed

lemma split_on_lines:
  "\<forall>l\<in>set ls. c \<notin> set l \<Longrightarrow> split_on c (concat (map (\<lambda>l. l @ [c]) ls)) = ls @ [[]]"
proof (induction ls)
  case (Cons l ls)
  have "c \<notin> set l \<Longrightarrow> split_on c (l @ c # t) = l # split_on c t" for t by (induction l) auto
  then show ?case using Cons by simp
qed simp

lemma lines_of_options_text:
  assumes "\<forall>e\<in>set es. option_ok e"
  shows "lines_of (options_text es) = map option_line es"
proof -
  have "\<forall>l\<in>set (map option_line es). CHR 0x0A \<notin> set l"
    using assms by (auto simp: option_line_def option_ok_def plain_text_def)
  from split_on_lines [OF this] have "split_on (CHR 0x0A) (options_text es) = map option_line es @ [[]]"
    by (simp add: options_text_def comp_def)
  then show ?thesis by (simp add: lines_of_def)
qed

lemma fold_option_lines:
  "\<forall>e\<in>set es. option_ok e \<Longrightarrow> distinct (map fst es) \<Longrightarrow> dom m \<inter> fst ` set es = {} \<Longrightarrow>
   fold (parse_option_line ''='') (map option_line es) m = m ++ map_of es"
proof (induction es arbitrary: m)
  case (Cons e es)
  have "dom (m(fst e \<mapsto> snd e)) \<inter> fst ` set es = {}" using Cons.prems(2,3) by auto
  then have "fold (parse_option_line ''='') (map option_line es) (m(fst e \<mapsto> snd e)) = m(fst e \<mapsto> snd e) ++ map_of es"
    using Cons.IH Cons.prems by simp
  also have "\<dots> = m ++ map_of (e # es)"
  proof (rule ext)
    fix k
    have "map_of es (fst e) = None" using Cons.prems(2) by (simp add: map_of_eq_None_iff)
    then show "(m(fst e \<mapsto> snd e) ++ map_of es) k = (m ++ map_of (e # es)) k" by (simp add: map_add_def split: option.split)
  qed
  finally have rest: "fold (parse_option_line ''='') (map option_line es) (m(fst e \<mapsto> snd e)) = m ++ map_of (e # es)" .
  have "parse_option_line ''='' (option_line e) m = m(fst e \<mapsto> snd e)" using Cons.prems(1) by (simp add: parse_option_line_at)
  then show ?case using rest by (simp only: list.map fold_simps)
qed simp

lemma properties_parsed:
  assumes "\<forall>e\<in>set es. option_ok e" "distinct (map fst es)"
  shows "parse_data_for_options (str_bytes (options_text es)) ''='' = Inr (map_of es)"
proof -
  have "list_all string_valid (map option_line es)" using assms(1) by (simp add: list_all_iff option_line_def option_ok_def)
  then show ?thesis
    using fold_option_lines [OF assms, of Map.empty] lines_of_options_text [OF assms(1)]
    by (simp add: parse_data_for_options_def Let_def)
qed

text \<open>C36: Options written one per line as \<open>key=value\<close> are read back as they were, when the keys are distinct,
  not empty, without an equals sign and not the start of a comment, and keys and values are valid text
  on one line with no white-space character, of ASCII or of the rest of Unicode, at either end.\<close>

theorem properties_round_trip:
  assumes "\<forall>e\<in>set es. option_ok e" "distinct (map fst es)"
  shows "parse_data_for_options (str_bytes (options_text es)) ''='' = Inr (map_of es)"
  by (rule properties_parsed [OF assms])

text \<open>In the global defaults the separators are a space, a tab and an equals sign, of which the first splits
  the line: the equals sign of a line \<open>key = value\<close> becomes part of the value.\<close>

theorem spaced_default_keeps_separator:
  "parse_data_for_options (str_bytes (''hoodie.a = b'' @ [CHR 0x0A])) [CHR '' '', CHR 0x09, CHR ''=''] = Inr [''hoodie.a'' \<mapsto> ''= b'']"
proof -
  have "lines_of (''hoodie.a = b'' @ [CHR 0x0A]) = [''hoodie.a = b'']" "string_valid ''hoodie.a = b''"
    "trim ''hoodie.a = b'' = ''hoodie.a = b''" "trim ''hoodie.a'' = ''hoodie.a''" "trim ''= b'' = ''= b''"
    by code_simp+
  moreover have "split_first (\<lambda>c. c \<in> set [CHR '' '', CHR 0x09, CHR ''='']) ''hoodie.a = b'' = (''hoodie.a'', Some ''= b'')"
    by (simp add: split_first_def)
  ultimately show ?thesis by (simp add: parse_data_for_options_def parse_option_line_def Let_def)
qed

section \<open>What a validated configuration rules out\<close>

lemma res_fold_unit: "res_fold (\<lambda>_ p. f p) () ps = Ok () \<longleftrightarrow> (\<forall>p\<in>set ps. f p = Ok ())"
  by (induction ps) (auto simp: res_bind_Inr_iff)

lemma table_configs_all: "c \<in> set table_configs"
  by (cases c) (simp_all add: table_configs_def)

lemma conf_validate_present:
  "conf_validate p m = Inr () \<Longrightarrow> m (cp_key p) \<noteq> None \<Longrightarrow> (\<And>v. cp_parse p v \<noteq> Inl NotFound) \<Longrightarrow> \<exists>x. parse_value p m = Inr x"
  by (auto simp: conf_validate_def parse_value_def resolve_raw_value_def split: sum.splits if_splits)

lemma table_config_parse_found: "table_config_parse c v \<noteq> Inl NotFound"
  by (cases c) (simp_all add: table_config_parse_def parse_string_def parse_bool_def parse_isize_def parse_list_def
      parse_format_def parse_timezone_def conf_partition_fields_def parse_ordering_fields_def Let_def conf_bind_def
      merge_strategy_from_str_def table_type_from_str_def split: option.split sum.split)

lemma table_parser_sel [simp]:
  "cp_key (table_parser c) = table_config_key c" "cp_parse (table_parser c) = table_config_parse c"
  "cp_default_value (table_parser c) = table_config_default c"
  by (simp_all add: table_parser_def)

definition validation_skipped :: "options \<Rightarrow> bool" where
  "validation_skipped m \<longleftrightarrow> parse_value_or_default (internal_parser SkipConfigValidation) m = Ok (ConfBoolean True)"

lemma conf_bool_Ok: "conf_bool v = Ok b \<longleftrightarrow> v = ConfBoolean b"
  by (cases v) (auto simp: conf_bool_def)

lemma conf_isize_Ok: "conf_isize v = Ok n \<longleftrightarrow> v = ConfInteger n"
  by (cases v) (auto simp: conf_isize_def)

lemma validated:
  assumes "validate_configs m = Ok ()" "\<not> validation_skipped m"
  obtains n where "validate_all (map table_parser table_configs) m = Ok ()" "validate_merge_configs m = Ok ()"
    "parse_value (table_parser TableVersion) m = Inr (ConfInteger n)" "n \<in> {6, 8, 9}"
    "parse_value (table_parser TimelineLayoutVersion) m = Inr (ConfInteger (if n \<ge> 8 then 2 else 1))"
  using assms by (auto simp: validate_configs_def validation_skipped_def res_bind_Inr_iff conf_bool_Ok conf_isize_Ok split: if_splits)

lemma ordering_one_field:
  assumes "parse_value (table_parser OrderingFields) m = Inr v"
  shows "\<exists>f. v = ConfList [f]"
proof -
  obtain s where "parse_ordering_fields s = Inr v"
    using assms by (auto simp: parse_value_def conf_bind_Inr_iff table_config_parse_def)
  moreover have "split_on c s \<noteq> []" for c s by (cases s) (auto split: list.split)
  ultimately show ?thesis
    by (cases "split_on (CHR '','') s" rule: remdups_adj.cases) (auto simp: parse_ordering_fields_def Let_def split: if_splits)
qed

text \<open>C34: In a configuration that passed validation no table option that is set is malformed, so reading it with a
  default never hides it; the table and timeline layout versions belong together; and a table that merges
  by overwriting has the meta fields and exactly one ordering field.\<close>

theorem validated_configs_hold:
  assumes "validate_configs m = Ok ()" "\<not> validation_skipped m"
  shows "(\<forall>c. m (table_config_key c) \<noteq> None \<longrightarrow> (\<exists>v. parse_value (table_parser c) m = Inr v \<and> table_value_or_default c m = Ok v)) \<and>
    (\<exists>n\<in>{6, 8, 9}. parse_value (table_parser TableVersion) m = Inr (ConfInteger n) \<and>
       parse_value (table_parser TimelineLayoutVersion) m = Inr (ConfInteger (if n \<ge> 8 then 2 else 1))) \<and>
    (table_or_default RecordMergeStrategy conf_string m = Ok ''overwrite_with_latest'' \<longrightarrow>
       table_or_default PopulatesMetaFields conf_bool m = Ok True \<and>
       (\<exists>f. parse_value (table_parser OrderingFields) m = Inr (ConfList [f])))"
proof (intro conjI allI impI)
  obtain n where n: "validate_all (map table_parser table_configs) m = Ok ()" "validate_merge_configs m = Ok ()"
    "parse_value (table_parser TableVersion) m = Inr (ConfInteger n)" "n \<in> {6, 8, 9}"
    "parse_value (table_parser TimelineLayoutVersion) m = Inr (ConfInteger (if n \<ge> 8 then 2 else 1))"
    by (rule validated [OF assms])
  show "\<exists>n\<in>{6, 8, 9}. parse_value (table_parser TableVersion) m = Inr (ConfInteger n) \<and>
       parse_value (table_parser TimelineLayoutVersion) m = Inr (ConfInteger (if n \<ge> 8 then 2 else 1))"
    using n(3-5) by blast
  fix c
  assume c: "m (table_config_key c) \<noteq> None"
  have "of_conf (conf_validate (table_parser c) m) = Ok ()"
    using n(1) table_configs_all [of c] by (simp add: validate_all_def res_fold_unit)
  then have "\<exists>v. parse_value (table_parser c) m = Inr v"
    using conf_validate_present [of "table_parser c" m] c table_config_parse_found by simp
  then show "\<exists>v. parse_value (table_parser c) m = Inr v \<and> table_value_or_default c m = Ok v"
    by (auto simp: table_value_or_default_def)
next
  obtain n where n: "validate_merge_configs m = Ok ()" by (rule validated [OF assms])
  assume s: "table_or_default RecordMergeStrategy conf_string m = Ok ''overwrite_with_latest''"
  have o: "merge_strategy_from_str ''overwrite_with_latest'' = Inr OverwriteWithLatest" by code_simp
  show "table_or_default PopulatesMetaFields conf_bool m = Ok True"
    using n s o by (auto simp: validate_merge_configs_def res_bind_Inr_iff split: if_splits)
  obtain x where x: "try_get (table_parser OrderingFields) m = Inr (Some x)"
    using n s o by (auto simp: validate_merge_configs_def res_bind_Inr_iff split: if_splits)
  then have "parse_value (table_parser OrderingFields) m = Inr x"
    by (auto simp: try_get_def table_config_default_def split: sum.splits if_splits)
  then show "\<exists>f. parse_value (table_parser OrderingFields) m = Inr (ConfList [f])" using ordering_one_field by auto
qed

section \<open>The table's configuration and a read\<close>

lemma read_config_key_eq [simp]: "read_config_key c = read_config_key d \<longleftrightarrow> c = d"
  by (cases c; cases d) (simp_all add: read_config_key_def)

lemma scope_of_own_key: "scope_of_key (read_config_key c) = Some (read_config_scope c)"
proof -
  have "find (\<lambda>d. d = c) read_configs = Some c" by (cases c) (simp_all add: read_configs_def)
  then show ?thesis by (simp add: scope_of_key_def)
qed

lemma try_read_table_level:
  assumes "read_config_scope c = ReadOnly"
  shows "try_read c conf_string (table_level_configs m) = Ok (if c = QueryType then Some ''snapshot'' else None)"
proof -
  have "table_level_configs m (read_config_key c) = None"
    using assms by (simp add: table_level_configs_def keep_at_table_level_def scope_of_own_key)
  then have "try_get (read_parser c) (table_level_configs m) = Inr (read_config_default c)"
    by (simp add: try_get_def parse_value_def resolve_raw_value_def read_parser_def first_alias_def)
  then show ?thesis using assms
    by (cases c) (simp_all add: try_read_def read_config_default_def read_config_scope_def conf_string_def query_type_name_def)
qed

definition filled :: "options \<Rightarrow> options \<Rightarrow> options \<Rightarrow> bool" where
  "filled configs m m' \<longleftrightarrow> (\<forall>k v. m k = Some v \<longrightarrow> m' k = Some v) \<and>
     (\<forall>c. m (read_config_key c) = None \<longrightarrow> m' (read_config_key c) = None \<or>
        try_read c conf_string configs = Ok (m' (read_config_key c)))"

lemma default_step_filled:
  "filled configs m m1 \<Longrightarrow> default_step configs m1 c = Ok m2 \<Longrightarrow> filled configs m m2"
  unfolding filled_def default_step_def
  by (auto simp: res_bind_Inr_iff split: if_splits option.splits) (metis option.distinct(1))+

lemma defaults_filled:
  "res_fold (default_step configs) m cs = Ok m' \<Longrightarrow> filled configs m m'"
proof (erule res_fold_invariant)
  show "filled configs m m" by (simp add: filled_def)
qed (rule default_step_filled)

text \<open>C35: What a call asks for always wins over the table's configuration, and the options that select which read to
  perform (its type, its instant or its window) never come from the table.\<close>

theorem table_level_never_redirects_read:
  assumes "with_defaults_from o' (table_level_configs m) = Ok o2"
  shows "(\<forall>k v. rdo_hudi_options o' k = Some v \<longrightarrow> rdo_hudi_options o2 k = Some v) \<and> query_type_of o2 = query_type_of o' \<and>
    as_of_timestamp o2 = as_of_timestamp o' \<and> start_timestamp o2 = start_timestamp o' \<and> end_timestamp o2 = end_timestamp o'"
proof -
  obtain m' where "res_fold (default_step (table_level_configs m)) (rdo_hudi_options o') read_configs = Ok m'"
    and o2: "o2 = o'\<lparr>rdo_hudi_options := m'\<rparr>"
    using assms by (auto simp: with_defaults_from_def res_bind_Inr_iff)
  then have filled: "filled (table_level_configs m) (rdo_hudi_options o') m'" by (simp add: defaults_filled)
  then have kept: "\<forall>k v. rdo_hudi_options o' k = Some v \<longrightarrow> m' k = Some v" by (simp add: filled_def)
  have fill: "m' (read_config_key c) = None \<or> try_read c conf_string (table_level_configs m) = Ok (m' (read_config_key c))"
    if "rdo_hudi_options o' (read_config_key c) = None" for c
    using filled that by (simp add: filled_def)
  have same: "m' (read_config_key c) = rdo_hudi_options o' (read_config_key c)"
    if "read_config_scope c = ReadOnly" "c \<noteq> QueryType" for c
    proof (cases "rdo_hudi_options o' (read_config_key c)")
    case None
    then show ?thesis using fill [OF None] try_read_table_level [OF that(1), of m] that(2) None by auto
  qed (use kept in simp)
  have "m' (read_config_key QueryType) = rdo_hudi_options o' (read_config_key QueryType) \<or>
      rdo_hudi_options o' (read_config_key QueryType) = None \<and> m' (read_config_key QueryType) = Some ''snapshot''"
  proof (cases "rdo_hudi_options o' (read_config_key QueryType)")
    case None
    then show ?thesis using fill [OF None] try_read_table_level [of QueryType m] by (auto simp: read_config_scope_def)
  qed (use kept in simp)
  moreover have "query_type_from_str ''snapshot'' = Inr Snapshot" by code_simp
  ultimately have "query_type_of o2 = query_type_of o'" by (auto simp: query_type_of_def o2)
  then show ?thesis using kept same
    by (simp add: o2 as_of_timestamp_def start_timestamp_def end_timestamp_def read_config_scope_def)
qed

section \<open>A small table\<close>

definition sample_properties :: "(string \<times> string) list" where
  "sample_properties = [(''hoodie.table.name'', ''trips''), (''hoodie.table.type'', ''MERGE_ON_READ''),
     (''hoodie.table.version'', ''8''), (''hoodie.timeline.layout.version'', ''2''), (''hoodie.table.precombine.field'', ''ts'')]"

definition sample_option_storage :: option_storage where
  "sample_option_storage = \<lparr>os_file_data = \<lambda>_. Ok (str_bytes (options_text sample_properties)), os_absolute_data = \<lambda>_. Err StorageError\<rparr>"

lemma sample_properties_ok: "\<forall>e\<in>set sample_properties. option_ok e"
  by code_simp

theorem properties_round_trip_witness:
  "parse_data_for_options (str_bytes (options_text sample_properties)) ''='' = Inr (map_of sample_properties)"
  by (rule properties_round_trip [OF sample_properties_ok]) (simp add: sample_properties_def)

lemma sample_valid:
  "validate_configs (map_of sample_properties) = Ok ()" "\<not> validation_skipped (map_of sample_properties)"
  by code_simp+

theorem validated_configs_hold_witness:
  "\<exists>f. parse_value (table_parser OrderingFields) (map_of sample_properties) = Inr (ConfList [f])"
proof -
  have "table_or_default RecordMergeStrategy conf_string (map_of sample_properties) = Ok ''overwrite_with_latest''" by code_simp
  then show ?thesis using validated_configs_hold [OF sample_valid] by blast
qed

definition sample_opener :: storage_opener where
  "sample_opener storage hudi = Ok sample_option_storage"

definition sample_resolved :: OptionResolver where
  "sample_resolved = \<lparr>opr_base_uri = ''/tmp/trips'',
     opr_hudi_options = imbue_global_hudi_configs_if_absent sample_option_storage None
       ([table_config_key BasePath \<mapsto> ''/tmp/trips''] ++ map_of sample_properties),
     opr_storage_options = Map.empty, opr_options = Map.empty\<rparr>"

lemma sample_resolves: "resolve_options sample_opener [] None (option_resolver_new ''/tmp/trips'') = Ok sample_resolved"
proof -
  have props: "imbue_table_properties sample_option_storage m = Ok (m ++ map_of sample_properties)" for m
    using properties_parsed [OF sample_properties_ok] by (simp add: imbue_table_properties_def sample_option_storage_def sample_properties_def)
  have "validate_configs (opr_hudi_options sample_resolved) = Ok ()" by code_simp
  moreover have "opr_hudi_options (resolve_user_provided_options (option_resolver_new ''/tmp/trips'')) = [table_config_key BasePath \<mapsto> ''/tmp/trips'']"
    by (rule ext) (simp add: user_options_at option_resolver_new_def)
  moreover have "resolve_env_vars [] (resolve_user_provided_options (option_resolver_new ''/tmp/trips'')) =
      (option_resolver_new ''/tmp/trips'')\<lparr>opr_hudi_options := [table_config_key BasePath \<mapsto> ''/tmp/trips'']\<rparr>"
    by (simp add: resolve_env_vars_def resolve_user_provided_options_def option_resolver_new_def split_hudi_options_from_others_def
        extend_if_absent_def map_add_def fun_eq_iff)
  ultimately show ?thesis
    by (simp add: resolve_options_def resolve_hudi_options_def sample_opener_def props sample_resolved_def option_resolver_new_def)
qed

theorem table_options_precedence_witness:
  "opr_hudi_options sample_resolved ''hoodie.table.version'' = Some ''8'' \<and>
   opr_hudi_options sample_resolved (table_config_key BasePath) = Some ''/tmp/trips''"
proof -
  have parsed: "parse_data_for_options (str_bytes (options_text sample_properties)) ''='' = Inr (map_of sample_properties)"
    using properties_parsed [OF sample_properties_ok] by (simp add: sample_properties_def)
  note at = table_options_precedence [OF sample_resolves, of sample_option_storage "str_bytes (options_text sample_properties)", OF _ _ parsed]
  show ?thesis
    using at [of "''hoodie.table.version''"] at [of "table_config_key BasePath"]
    by (simp add: sample_opener_def sample_option_storage_def option_resolver_new_def sample_properties_def table_config_key_def)
qed

definition sample_read :: ReadOptions where
  "sample_read = with_hudi_option (read_config_key StreamBatchSize) ''64'' read_options_new"

definition sample_table_level :: options where
  "sample_table_level = table_level_configs [read_config_key AsOfTimestamp \<mapsto> ''2024'', read_config_key StreamBatchSize \<mapsto> ''8'']"

theorem table_level_never_redirects_read_witness:
  "\<exists>o2. with_defaults_from sample_read sample_table_level = Ok o2 \<and> as_of_timestamp o2 = None \<and>
     rdo_hudi_options o2 (read_config_key StreamBatchSize) = Some ''64''"
proof -
  have "is_ok (with_defaults_from sample_read sample_table_level)" by code_simp
  then obtain o2 where o2: "with_defaults_from sample_read sample_table_level = Ok o2"
    by (cases "with_defaults_from sample_read sample_table_level") auto
  have "as_of_timestamp sample_read = None" "rdo_hudi_options sample_read (read_config_key StreamBatchSize) = Some ''64''" by code_simp+
  then show ?thesis using o2 table_level_never_redirects_read [OF o2 [unfolded sample_table_level_def]] by simp
qed

end
