(* ===== verification/Spec2Isabelle.thy ===== *)
theory Spec2Isabelle
  imports File_Listing Merge_Stream Scan_Merge Log_Reader_Facts Partition_Pruning HFile_Base_Facts
    Spillable_Map_Facts Position_Facts Config_Facts
begin

text \<open>
  A verification development for the core of hudi-rs: how a Hudi table decides which files a
  query reads, and how it merges what those files hold. Names of definitions are those of the
  source under \<open>src/crates/core/src\<close>; a suffix or prefix tells apart methods of the same name.

  How the parts interact. The timeline of the table (its commits) decides which instants are
  committed. A listing, from storage, from the metadata table or from commit metadata, becomes
  file groups, and a group's files become file slices: one base file and the log files on top of
  it. A slice is read by scanning the blocks of its log files into a record buffer and merging
  the base rows with what the buffer holds.

  Theories, in the order they import each other.
  \<^item> \<open>Hudi_Prelude\<close>, \<open>Hudi_Strings\<close>, \<open>Hudi_Bytes\<close>: results (a value or an \<open>error\<close>), folds that may
    fail, strings as the bytes of their UTF-8, trimming of Unicode white space, number parsing, big-endian integers.
  \<^item> \<open>Ordered_Containers\<close>: the ordered map (\<open>BTreeMap\<close>) as a sorted association list, with the
    locale of its laws and its interpretation.
  \<^item> \<open>Timeline_Instant\<close>, \<open>Timeline_Selector\<close>, \<open>Timeline_View\<close> (\<open>timeline/\<close>): instants and their
    file names, ranges and selections over sorted instants, loading the timeline, pending
    instants, views and the completion gate.
  \<^item> \<open>File_Naming\<close>, \<open>File_Group\<close>, \<open>Metadata_Table\<close>, \<open>File_Listing\<close> (\<open>file_group/\<close>, \<open>metadata/\<close>,
    \<open>table/listing.rs\<close>, \<open>table/fs_view.rs\<close>): base and log file names, slices and groups, records of
    the metadata table and their merge, and the file groups of a listing.
  \<^item> \<open>Hudi_Config\<close>, \<open>Table_Options\<close> (\<open>config/\<close>, \<open>table/builder.rs\<close>, \<open>table/validation.rs\<close>): typed
    configurations and how they are read, the options of a table and of a read and where they come
    from; \<open>Config_Facts\<close> holds what is proved.
  \<^item> \<open>Ordering_Value\<close>, \<open>Arrow_Rows\<close>, \<open>Record_Context\<close>, \<open>Metadata_Payload\<close>, \<open>Record_Merger\<close>,
    \<open>Partial_Update\<close> (\<open>file_group/reader_v2/\<close>): what a record carries and how two records with one
    key become one.
  \<^item> \<open>Storage_Reader\<close>, \<open>Log_Block\<close>, \<open>Log_Reader\<close> (\<open>storage/reader.rs\<close>, \<open>file_group/log_file/\<close>): a
    seekable reader over a file, the blocks of a log file and their framing, the two walks over
    it. \<open>Log_Reader_Sim\<close>, \<open>Log_Reader_Cursor\<close>, \<open>Log_Layout\<close>, \<open>Log_Reader_Facts\<close> hold what is proved.
  \<^item> \<open>Log_Scan\<close>, \<open>Scan_Merge\<close> (\<open>file_group/reader_v2/log_record_reader.rs\<close>): the three passes that
    turn blocks into a record buffer.
  \<^item> \<open>Merge_Buffer\<close>, \<open>Base_Merge\<close>, \<open>Merge_Kernel\<close>, \<open>Merge_Rows\<close>, \<open>Kernel_Refinement\<close>, \<open>Merge_Stream\<close>,
    \<open>Buffer_Slots\<close> (\<open>buffer/key_based.rs\<close>, \<open>merge_iterator.rs\<close>): the key-based buffer, the merge
    record by record, the merge of whole batches, and the stream of merged chunks.
  \<^item> \<open>Position_Buffer\<close> (\<open>buffer/position_based.rs\<close>): the buffer that keeps log records under the position
    of their base row and falls back to keys; \<open>Position_Facts\<close> compares it with the key-based one.
  \<^item> \<open>Spill_Disk\<close>, \<open>Spillable_Map\<close> (\<open>buffer/spillable_map.rs\<close>, \<open>row_serde.rs\<close>): the merge map under a
    memory budget and its disk tier; \<open>Spill_Disk_Facts\<close> and \<open>Spillable_Map_Facts\<close> show that each is a map.
  \<^item> \<open>Filters\<close>, \<open>File_Pruning\<close>, \<open>Keygen\<close>, \<open>Keygen_Facts\<close>, \<open>Partition_Pruning\<close> (\<open>expr/\<close>,
    \<open>statistics/mod.rs\<close>, \<open>table/file_pruner.rs\<close>, \<open>keygen/\<close>, \<open>table/partition.rs\<close>): filters and the
    rows they keep, column statistics and the files they exclude, the paths a timestamp-based key
    generator writes, and the partitions a query reads.
  \<^item> \<open>HFile_Format\<close>, \<open>HFile_Reader\<close>, \<open>HFile_Cursor\<close> (\<open>hfile/\<close>): the blocks, keys and trailer of an
    HFile, opening one whole or by ranges with its index, and the cursor that seeks and scans.
    \<open>HFile_Layout\<close>, \<open>HFile_Image\<close>, \<open>HFile_Open\<close> say what the bytes of a laid-out file are;
    \<open>HFile_Cursor_Facts\<close>, \<open>HFile_Seek_Facts\<close>, \<open>HFile_Facts\<close>, \<open>HFile_Select\<close>, \<open>HFile_Predicate\<close> hold
    what is proved.
  \<^item> \<open>Schema_Promotion\<close>, \<open>Block_Content\<close>, \<open>HFile_Base\<close> (\<open>schema/extended_promotion.rs\<close>,
    \<open>file_group/log_file/content.rs\<close>, \<open>avro.rs\<close>, \<open>file_group/base_file/hfile.rs\<close>): decoding the content of
    log blocks and the rows of HFile base files; proofs in \<open>Block_Content_Facts\<close>, \<open>HFile_Base_Facts\<close>.

  What the lemmas show. Per component: that loading and building keep the invariants (sorted
  instants, disjoint pending instants, well-formed groups); that a snapshot reads no file of a
  pending commit, delta commit or replace commit (a pending instant of another action is not loaded, and counts as
  committed when it is older than what is) and a listing misses no committed file; that files parse back from their names. For the
  log: that a file of blocks reads back as those blocks, that a corrupt block costs only its own
  span, that nothing depends on how the file is fetched, and that the walks end. For the scan and
  the merge: that rollbacks and compactions take effect, that without compactions and partial updates the
  buffer holds for each key the last maximum (or the last written) version, that the record-by-record read is the merge of two
  tables, and that the batch kernel and the stream refine it. For the map under its budget: that
  it refines the plain map the buffer is modelled with, keeps its cap and its pins, and drains
  every entry once. For the position-based buffer: that it holds, folds and merges what the key-based one does
  under other names when record keys are unique and positions are those of their keys, and that its fallback loses no record. For the configuration: which source an option comes from, and what a validated one rules out. For pruning: that a file or partition
  left out has no row that matches, under stated conditions, and what happens outside them. For
  HFiles: that a laid-out file reads back whole, by key and by prefix, and that a read of a file in key order with a key
  predicate, which parses only some blocks, in windows, returns the rows of a filtered full read.

  Interfaces. Clients are proved against locales, and each locale is interpreted on the model:
  the ordered map, the linear order of instants and log files, the conflict decisions of the
  mergers, \<open>record_store\<close>, which the disk tier and the whole spillable map provide, and
  \<open>reader_sim\<close>, two readers of one file, whose instance is the storage reader beside a cursor over
  the bytes.

  Bounds and fuel. Loops of the source are structural recursions or functions with a measure.
  The walks over a log file and the collection of the stream take a number of steps and return
  \<open>None\<close> when it runs out; \<open>log_walks_end\<close> shows that one step more than the file has bytes is
  enough, and \<open>stream_agrees_with_row_path\<close> that the stream ends with enough steps. Machine
  integers have their width where the source's arithmetic can overflow: checked 64-bit offsets,
  wrapping offsets in HFiles, 32-bit hashes, 256-bit decimals; lengths of things in memory are natural numbers.

  Parameters. The object store, the chrono calendar and timezones, the Avro and Parquet
  decoders, gzip and protobuf, RocksDB and the Arrow IPC codec, comparisons and conversions of Arrow
  values are arguments of the definitions that use them, with what the code relies on as named hypotheses (\<open>serves\<close> for the store, for example).
  Asynchronous calls are sequential; logging and metrics are left out.

  Not modelled. The public table API, the reader engine's orchestration,
  schema conversion, the older merge, the bindings and the DataFusion layer.
\<close>

section \<open>Properties that span components\<close>

lemma slice_of_group:
  assumes "s \<in> set (collect_file_slices include v [(part, gs)])"
  shows "\<exists>g\<in>set gs. \<exists>k. (k, s) \<in> set (fg_file_slices g)"
proof -
  obtain g where g: "g \<in> set gs" "get_file_slice_as_of g (tv_as_of_timestamp v) = Some s"
    using assms by (auto simp: collect_file_slices_def map_filter_mem split: if_splits)
  then show ?thesis by (auto simp: get_file_slice_as_of_def dest!: bm_last_le_in)
qed

text \<open>An instant whose files a query of the loaded timeline may read: a loaded commit, delta commit or
  replace commit that completed, or an instant older than every loaded one. No loaded instant that is still
  requested or inflight is one of them. Instants of other actions, such as a compaction that is still pending, are not loaded, so
  only their age decides (\<open>pending_compaction_below_boundary\<close>).\<close>

definition settled :: "Timeline \<Rightarrow> string \<Rightarrow> bool" where
  "settled tml ts \<longleftrightarrow> ts \<notin> tl_pending_instants tml \<and>
     (ts \<in> inst_timestamp ` set (tl_completed_commits tml) \<or>
      (case tl_earliest_active_instant tml of None \<Rightarrow> False | Some b \<Rightarrow> ts < b))"

text \<open>C1: a snapshot or time-travel query reads files of settled instants only: with the view
  of the loaded timeline deciding what is committed, every base file and every log file of a slice
  collected from the storage listing was written by an instant that completed as a commit, delta commit or
  replace commit of the loaded timeline or that is older than everything loaded, and by none that
  the loaded timeline holds as requested or inflight. A pending instant of another action is not loaded;
  its files are left out unless it is older than everything loaded.\<close>

theorem snapshot_reads_no_pending_file:
  assumes "new_from_storage ch ls cfg = Ok tml"
    and "v = create_view_as_of cfg tml as_of excludes"
    and "list_file_groups_for_partition fmt (get_completion_time v) (is_committed v) e part files
      = Ok gs"
    and "s \<in> set (collect_file_slices include v [(part, gs)])"
  shows "pred_option (\<lambda>b. settled tml (bf_commit_timestamp b)) (fs_base_file s) \<and>
    list_all (\<lambda>l. settled tml (lf_timestamp l)) (fs_log_files s)"
proof -
  obtain g k where g: "g \<in> set gs" "(k, s) \<in> set (fg_file_slices g)"
    using slice_of_group [OF assms(4)] by blast
  have "files_sat (\<lambda>b. is_committed v (bf_commit_timestamp b))
      (\<lambda>l. is_committed v (lf_timestamp l)) g"
    using storage_listing_committed [OF assms(3)] g(1) by (simp add: list_all_iff)
  then have "pred_option (\<lambda>b. is_committed v (bf_commit_timestamp b)) (fs_base_file s)"
    "list_all (\<lambda>l. is_committed v (lf_timestamp l)) (fs_log_files s)"
    using g(2) by (auto simp: files_sat_def list_all_iff)
  moreover have "settled tml ts" if "is_committed v ts" for ts
    using that pending_uncommitted [OF assms(1)] unfolding assms(2)
    by (auto simp: settled_def is_committed_def create_view_as_of_def new_with_archival_boundary_requests)
  ultimately show ?thesis by (auto simp: list_all_iff option.pred_set)
qed

theorem snapshot_reads_no_pending_file_witness:
  "pred_option (\<lambda>b. settled sample_timeline (bf_commit_timestamp b))
     (fs_base_file (file_slice_new sample_listed_base ''p'')) \<and>
   \<not> settled sample_timeline ''20240101130000000''"
proof -
  let ?v = "create_view_as_of sample_config sample_timeline ''20240102'' {}"
  have le: "''20240101'' \<le> ''20240102''" "''20240101'' < ''20240101120000123''"
    "''20240101120000123'' \<le> ''20240101130000000''"
    by (simp_all add: less_eq_list_code less_char_def)
  have view: "tv_as_of_timestamp ?v = ''20240102''" "tv_excluding_file_groups ?v = {}"
    "get_completion_time ?v ''20240101'' = None" "is_committed ?v ''20240101''"
    using le by (simp_all add: create_view_as_of_def sample_timeline_simps get_completion_time_def
        is_committed_def sample_timeline_boundary new_with_archival_boundary_def view_insert_def
        sample_config_def sample_instant_def)
  have listing: "list_file_groups_for_partition (Ok (Some Parquet)) (get_completion_time ?v)
      (is_committed ?v) None ''p'' (Ok [sample_file]) = Ok [sample_listed_group]"
    using view(3,4) by (rule sample_listing_any)
  let ?s = "file_slice_new sample_listed_base ''p''"
  have s: "?s \<in> set (collect_file_slices (\<lambda>_. True) ?v [(''p'', [sample_listed_group])])"
    using le by (simp add: collect_file_slices_def List.map_filter_def sample_listed_group_def
        get_file_slice_as_of_def bm_last_le_def view)
  show ?thesis
    using snapshot_reads_no_pending_file [OF sample_timeline_loaded refl listing s]
    by (simp add: sample_timeline_simps settled_def)
qed

end
